(* ===== verification/Ability_Prelude.thy ===== *)
theory Ability_Prelude
  imports Main "HOL-Library.Char_ord" "HOL-Library.List_Lexorder"
begin

text \<open>
  Shared vocabulary of the development.

  \<^item> \<open>cpp_fault\<close> and \<open>'a cpp\<close>: the outcome of a C++ function that may run into undefined
    behaviour.  A dereference of a null \<open>shared_ptr\<close>/\<open>sptr\<close>, the use of an iterator that was
    erased and an index out of range are branches of the model (\<open>Inl\<close>), never hidden by an
    unspecified value.
  \<^item> \<open>erase_first\<close> and \<open>update_first\<close>: the two list loops that the services write again and
    again (find the first element with a property and erase it, or assign through the iterator).
  \<^item> \<open>insert_desc\<close> and \<open>sort_desc\<close>: insertion behind the last element that is not smaller, and
    the stable descending sort it generates (\<open>std::list::sort\<close> with a \<open>>\<close> comparator).
  \<^item> \<open>machine\<close>: the interface of a component seen as a transition system; an invariant that holds
    at the start and is kept by every step holds in every reachable state.

  Strings are \<open>string\<close>; \<open><\<close> on strings is the lexicographic order by unsigned byte value, as
  \<open>std::string::operator<\<close> has it (theories \<open>Char_ord\<close> and \<open>List_Lexorder\<close>).
\<close>

section \<open>Undefined behaviour as a value\<close>

datatype cpp_fault = NullDeref | UseAfterErase | OutOfRange

type_synonym 'a cpp = "cpp_fault + 'a"

definition cpp_bind :: "'a cpp \<Rightarrow> ('a \<Rightarrow> 'b cpp) \<Rightarrow> 'b cpp" where
  "cpp_bind x f = (case x of Inl e \<Rightarrow> Inl e | Inr y \<Rightarrow> f y)"

definition deref :: "'a option \<Rightarrow> 'a cpp" where
  "deref p = (case p of None \<Rightarrow> Inl NullDeref | Some x \<Rightarrow> Inr x)"

named_theorems cpp_simps \<open>evaluation of the fault monad\<close>

lemma cpp_bind_Inr [simp, cpp_simps]: "cpp_bind (Inr x) f = f x"
  by (simp add: cpp_bind_def)

lemma cpp_bind_Inl [simp, cpp_simps]: "cpp_bind (Inl e) f = Inl e"
  by (simp add: cpp_bind_def)

lemma cpp_bind_eq_Inr [cpp_simps]: "cpp_bind x f = Inr z \<longleftrightarrow> (\<exists>y. x = Inr y \<and> f y = Inr z)"
  by (cases x) simp_all

lemma deref_Some [simp, cpp_simps]: "deref (Some x) = Inr x"
  by (simp add: deref_def)

lemma deref_None [simp, cpp_simps]: "deref None = Inl NullDeref"
  by (simp add: deref_def)

lemma deref_eq_Inr [simp]: "deref p = Inr x \<longleftrightarrow> p = Some x"
  by (cases p) simp_all

section \<open>Enumerations of the bundle framework\<close>

datatype launch_mode = SINGLETON | STANDARD | SPECIFIED

text \<open>The life cycle state of an ability (\<open>ability_state.h\<close>).\<close>

datatype ability_state = INITIAL | INACTIVE | ACTIVE | INACTIVATING | ACTIVATING | TERMINATING
  | FOREGROUND | BACKGROUND | FOREGROUNDING | BACKGROUNDING | FOREGROUND_FAILED
  | BACKGROUND_FAILED | FOREGROUND_INVALID_MODE | FOREGROUND_WINDOW_FREEZED | FOREGROUND_DO_NOTHING

section \<open>Return codes\<close>

text \<open>The success code shared by every component; each component has its own error codes.\<close>

definition ERR_OK :: int where
  "ERR_OK = 0"

section \<open>Decimal strings\<close>

text \<open>\<open>std::to_string\<close> of an integer.\<close>

fun nat_str :: "nat \<Rightarrow> string" where
  "nat_str n = (if n < 10 then [char_of (48 + n)] else nat_str (n div 10) @ [char_of (48 + n mod 10)])"

declare nat_str.simps [simp del]

definition to_string :: "int \<Rightarrow> string" where
  "to_string i = (if i < 0 then CHR ''-'' # nat_str (nat (- i)) else nat_str (nat i))"

text \<open>The digits are characters 48 to 57, and the number can be read back.\<close>

lemma nat_str_code: "c \<in> set (nat_str n) \<Longrightarrow> 48 \<le> (of_char c :: nat) \<and> (of_char c :: nat) < 58"
proof (induction n rule: nat_str.induct)
  case (1 n)
  have digit: "48 \<le> (of_char (char_of (48 + d) :: char) :: nat) \<and> (of_char (char_of (48 + d) :: char) :: nat) < 58"
    if "d < 10" for d :: nat
    using that by simp
  show ?case
  proof (cases "n < 10")
    case True
    then show ?thesis using "1.prems" digit by (subst (asm) nat_str.simps) auto
  next
    case False
    then have "c \<in> set (nat_str (n div 10)) \<or> c = char_of (48 + n mod 10)"
      using "1.prems" by (subst (asm) nat_str.simps) auto
    then show ?thesis using "1.IH" [OF False] digit [of "n mod 10"] by (metis mod_less_divisor zero_less_numeral)
  qed
qed

lemma to_string_no_colon: "CHR '':'' \<notin> set (to_string i)"
  using nat_str_code [of "CHR '':''"] by (auto simp: to_string_def)

lemma nat_str_no_minus: "nat_str n \<noteq> CHR ''-'' # xs"
proof
  assume "nat_str n = CHR ''-'' # xs"
  then have "CHR ''-'' \<in> set (nat_str n)" by simp
  from nat_str_code [OF this] show False by simp
qed

definition readDigits :: "string \<Rightarrow> nat" where
  "readDigits cs = foldl (\<lambda>a c. 10 * a + (of_char c - 48)) 0 cs"

lemma readDigits_nat_str: "readDigits (nat_str n) = n"
proof (induction n rule: nat_str.induct)
  case (1 n)
  show ?case
  proof (cases "n < 10")
    case True
    then show ?thesis by (subst nat_str.simps) (simp add: readDigits_def)
  next
    case False
    have "(of_char (char_of (48 + n mod 10) :: char) :: nat) = 48 + n mod 10" by simp
    with False "1.IH" [OF False] show ?thesis by (subst nat_str.simps) (simp add: readDigits_def)
  qed
qed

lemma to_string_inj: "to_string i = to_string j \<Longrightarrow> i = j"
proof -
  assume eq: "to_string i = to_string j"
  have inj: "nat_str m = nat_str n \<Longrightarrow> m = n" for m n using readDigits_nat_str by metis
  show ?thesis
  proof (cases "i < 0"; cases "j < 0")
    assume "i < 0" "j < 0"
    with eq inj [of "nat (- i)" "nat (- j)"] show ?thesis by (simp add: to_string_def)
  next
    assume "\<not> i < 0" "\<not> j < 0"
    with eq inj [of "nat i" "nat j"] show ?thesis by (simp add: to_string_def)
  qed (use eq nat_str_no_minus nat_str_no_minus [symmetric] in \<open>auto simp: to_string_def\<close>)
qed

section \<open>List loops\<close>

primrec erase_first :: "('a \<Rightarrow> bool) \<Rightarrow> 'a list \<Rightarrow> 'a list" where
  "erase_first p [] = []"
| "erase_first p (x # xs) = (if p x then xs else x # erase_first p xs)"

primrec update_first :: "('a \<Rightarrow> bool) \<Rightarrow> ('a \<Rightarrow> 'a) \<Rightarrow> 'a list \<Rightarrow> 'a list" where
  "update_first p f [] = []"
| "update_first p f (x # xs) = (if p x then f x # xs else x # update_first p f xs)"

lemma erase_first_none [simp]: "(\<forall>x\<in>set xs. \<not> p x) \<Longrightarrow> erase_first p xs = xs"
  by (induction xs) auto

lemma set_erase_first_subset: "set (erase_first p xs) \<subseteq> set xs"
  by (induction xs) auto

lemma in_set_erase_firstD: "x \<in> set (erase_first p xs) \<Longrightarrow> x \<in> set xs"
  using set_erase_first_subset [of p xs] by blast

lemma erase_first_keeps: "x \<in> set xs \<Longrightarrow> \<not> p x \<Longrightarrow> x \<in> set (erase_first p xs)"
  by (induction xs) auto

lemma distinct_map_erase_first: "distinct (map f xs) \<Longrightarrow> distinct (map f (erase_first p xs))"
  by (induction xs) (auto dest: in_set_erase_firstD)

lemma distinct_erase_first: "distinct xs \<Longrightarrow> distinct (erase_first p xs)"
  by (induction xs) (auto dest: in_set_erase_firstD)

lemma sorted_wrt_erase_first: "sorted_wrt R xs \<Longrightarrow> sorted_wrt R (erase_first p xs)"
  by (induction xs) (auto dest: in_set_erase_firstD)

lemma length_erase_first:
  "length (erase_first p xs) = (if \<exists>x\<in>set xs. p x then length xs - 1 else length xs)"
proof (induction xs)
  case (Cons x xs)
  then show ?case by (cases xs) auto
qed simp

lemma length_erase_first_le: "length (erase_first p xs) \<le> length xs"
  by (simp add: length_erase_first)

text \<open>Where at most one element matches, erasing the first one is a filter.\<close>

lemma erase_first_filter:
  assumes "distinct (map f xs)" and "\<And>x y. p x \<Longrightarrow> p y \<Longrightarrow> f x = f y"
  shows "erase_first p xs = filter (\<lambda>x. \<not> p x) xs"
  using assms(1)
proof (induction xs)
  case (Cons x xs)
  show ?case
  proof (cases "p x")
    case True
    then have "\<forall>y\<in>set xs. \<not> p y"
      using Cons.prems assms(2) by (metis distinct.simps(2) image_eqI list.set_map list.simps(9))
    with True show ?thesis by (simp add: filter_id_conv)
  next
    case False
    with Cons show ?thesis by simp
  qed
qed simp

lemma set_update_first_subset: "set (update_first p f xs) \<subseteq> set xs \<union> f ` {x \<in> set xs. p x}"
  by (induction xs) auto

lemma length_update_first [simp]: "length (update_first p f xs) = length xs"
  by (induction xs) auto

lemma map_update_first:
  "(\<And>x. x \<in> set xs \<Longrightarrow> p x \<Longrightarrow> g (f x) = g x) \<Longrightarrow> map g (update_first p f xs) = map g xs"
  by (induction xs) auto

lemma update_first_none: "(\<forall>x\<in>set xs. \<not> p x) \<Longrightarrow> update_first p f xs = xs"
  by (induction xs) auto

lemma find_None_conv: "find p xs = None \<longleftrightarrow> (\<forall>x\<in>set xs. \<not> p x)"
  by (induction xs) auto

lemma find_SomeD: "find p xs = Some x \<Longrightarrow> x \<in> set xs \<and> p x"
  by (induction xs) (auto split: if_splits)

lemma find_Some_if_distinct:
  assumes "distinct (map f xs)" and "x \<in> set xs" and "p x" and "\<And>y. p y \<Longrightarrow> f y = f x"
  shows "find p xs = Some x"
  using assms(1,2)
proof (induction xs)
  case (Cons y ys)
  show ?case
  proof (cases "p y")
    case True
    then have "f x \<in> f ` set (y # ys)" and "f y = f x" using Cons.prems assms(4) by blast+
    with Cons.prems have "x = y" by (metis distinct.simps(2) image_eqI list.set_map list.simps(9) set_ConsD)
    with True show ?thesis by simp
  next
    case False
    with assms(3) Cons show ?thesis by auto
  qed
qed simp

section \<open>Stable descending order\<close>

primrec insert_desc :: "('a \<Rightarrow> 'b::linorder) \<Rightarrow> 'a \<Rightarrow> 'a list \<Rightarrow> 'a list" where
  "insert_desc key x [] = [x]"
| "insert_desc key x (y # ys) = (if key y < key x then x # y # ys else y # insert_desc key x ys)"

definition sort_desc :: "('a \<Rightarrow> 'b::linorder) \<Rightarrow> 'a list \<Rightarrow> 'a list" where
  "sort_desc key xs = fold (insert_desc key) xs []"

abbreviation desc_by :: "('a \<Rightarrow> 'b::linorder) \<Rightarrow> 'a list \<Rightarrow> bool" where
  "desc_by key \<equiv> sorted_wrt (\<lambda>x y. key y \<le> key x)"

lemma set_insert_desc [simp]: "set (insert_desc key x xs) = insert x (set xs)"
  by (induction xs) auto

lemma length_insert_desc [simp]: "length (insert_desc key x xs) = Suc (length xs)"
  by (induction xs) auto

lemma desc_insert_desc: "desc_by key xs \<Longrightarrow> desc_by key (insert_desc key x xs)"
  by (induction xs) auto

lemma distinct_map_insert_desc:
  "distinct (map f (insert_desc key x xs)) \<longleftrightarrow> f x \<notin> f ` set xs \<and> distinct (map f xs)"
  by (induction xs) auto

lemma sort_desc_snoc: "sort_desc key (xs @ [x]) = insert_desc key x (sort_desc key xs)"
  by (simp add: sort_desc_def)

lemma set_sort_desc [simp]: "set (sort_desc key xs) = set xs"
  by (induction xs rule: rev_induct) (simp_all add: sort_desc_def)

lemma desc_sort_desc: "desc_by key (sort_desc key xs)"
  by (induction xs rule: rev_induct) (simp_all add: sort_desc_snoc desc_insert_desc, simp add: sort_desc_def)

lemma distinct_map_sort_desc: "distinct (map f (sort_desc key xs)) \<longleftrightarrow> distinct (map f xs)"
  by (induction xs rule: rev_induct)
    (auto simp: sort_desc_snoc distinct_map_insert_desc, simp_all add: sort_desc_def)

text \<open>Elements with equal keys keep their order: the sort is stable.\<close>

lemma insert_desc_filter:
  "desc_by key xs \<Longrightarrow> filter (\<lambda>y. key y = k) (insert_desc key x xs) =
     filter (\<lambda>y. key y = k) xs @ (if key x = k then [x] else [])"
proof (induction xs)
  case (Cons y ys)
  show ?case
  proof (cases "key y < key x")
    case True
    with Cons.prems have "\<forall>z\<in>set (y # ys). key z \<noteq> key x" by auto
    then have "key x = k \<Longrightarrow> filter (\<lambda>y. key y = k) (y # ys) = []" by (auto simp: filter_empty_conv)
    with True show ?thesis by auto
  next
    case False
    with Cons show ?thesis by simp
  qed
qed simp

lemma sort_desc_stable: "filter (\<lambda>y. key y = k) (sort_desc key xs) = filter (\<lambda>y. key y = k) xs"
  by (induction xs rule: rev_induct)
    (simp_all add: sort_desc_snoc insert_desc_filter desc_sort_desc, simp add: sort_desc_def)

section \<open>Instances of an application\<close>

text \<open>The ranges of the instance index (\<open>global_constant.h\<close>).\<close>

definition IsAppCloneIndex :: "int \<Rightarrow> bool" where
  "IsAppCloneIndex index \<longleftrightarrow> index \<ge> 0 \<and> index \<le> 1000"

definition IsSandboxCloneIndex :: "int \<Rightarrow> bool" where
  "IsSandboxCloneIndex index \<longleftrightarrow> index \<ge> 2000 \<and> index \<le> 3000"

definition IsDlpIndex :: "int \<Rightarrow> bool" where
  "IsDlpIndex index \<longleftrightarrow> index \<ge> 0 \<and> \<not> IsAppCloneIndex index \<and> \<not> IsSandboxCloneIndex index"

section \<open>Components as transition systems\<close>

inductive reach :: "('s \<Rightarrow> bool) \<Rightarrow> ('s \<Rightarrow> 's \<Rightarrow> bool) \<Rightarrow> 's \<Rightarrow> bool" for start step where
  reach_start: "start s \<Longrightarrow> reach start step s"
| reach_step: "reach start step s \<Longrightarrow> step s t \<Longrightarrow> reach start step t"

locale machine =
  fixes start :: "'s \<Rightarrow> bool"
    and step :: "'s \<Rightarrow> 's \<Rightarrow> bool"
    and inv :: "'s \<Rightarrow> bool"
  assumes inv_start: "start s \<Longrightarrow> inv s"
    and inv_step: "inv s \<Longrightarrow> step s t \<Longrightarrow> inv t"
begin

lemma reach_inv: "reach start step s \<Longrightarrow> inv s"
  by (induction rule: reach.induct) (auto intro: inv_start inv_step)

lemma reach_imp: "reach start step s \<Longrightarrow> (\<And>t. inv t \<Longrightarrow> P t) \<Longrightarrow> P s"
  using reach_inv by blast

end

end
