(* ===== verification/Mission_List.thy ===== *)
theory Mission_List
  imports Ability_Prelude
begin

text \<open>
  Missions and mission lists: \<open>services/abilitymgr/src/mission/mission.cpp\<close> and
  \<open>mission_list.cpp\<close>, with the accessors of \<open>AbilityRecord\<close> they call.

  Missions, ability records and mission lists are objects behind \<open>shared_ptr\<close>; two lists and a
  local variable may hold the same mission.  The model keeps the sharing: an object is a number,
  a nullable pointer is a number option, and \<open>heap\<close> maps every number to its object.  The heap is
  total because a non-null \<open>shared_ptr\<close> always points to a live object; only the \<open>weak_ptr\<close> from
  a mission to its list can be expired, which \<open>listLive\<close> says.

  A loop over \<open>missions_\<close> is a recursion over the list of pointers.  Where the code dereferences
  a pointer it has not tested, the result is \<open>Inl NullDeref\<close>.  The C++ members \<open>x_\<close> are the record
  fields \<open>x\<close> with a prefix for the class (\<open>ar_\<close>, \<open>ms_\<close>, \<open>ml_\<close>).
\<close>

section \<open>Objects\<close>

datatype mission_list_type = CURRENT | DEFAULT_STANDARD | DEFAULT_SINGLE | LAUNCHER

type_synonym ptr = "nat option"

text \<open>
  The fields of \<open>AbilityRecord\<close> the mission code reads or writes.  \<open>token_\<close> is the token object;
  a caller entry is the calling record (nullable) and the request code.
\<close>

record ability_info =
  ai_name :: string
  ai_bundleName :: string
  ai_deviceId :: string
  ai_moduleName :: string
  ai_launchMode :: launch_mode
  ai_appBundleName :: string
  ai_appUid :: int

record ability_record =
  ar_abilityInfo :: ability_info
  ar_token :: ptr
  ar_recordId :: int
  ar_missionId :: int
  ar_isMissionAbility :: bool
  ar_isLauncherAbility :: bool
  ar_uid :: int
  ar_pid :: int
  ar_specifiedFlag :: string
  ar_instanceKey :: string
  ar_isLauncherRoot :: bool
  ar_currentState :: ability_state
  ar_isUninstall :: bool
  ar_isRestartApp :: bool
  ar_callerList :: "(ptr \<times> int) option list"

record mission =
  ms_lockedState :: bool
  ms_isMovingToFront :: bool
  ms_isANRState :: bool
  ms_needNotify :: bool
  ms_needNotifyUpdateLabel :: bool
  ms_unclearable :: bool
  ms_missionId :: int
  ms_startMethod :: int
  ms_ownerMissionList :: ptr
  ms_abilityRecord :: ptr
  ms_missionName :: string
  ms_specifiedFlag :: string
  ms_missionTime :: string

record mission_list =
  ml_type :: mission_list_type
  ml_missions :: "ptr list"

record heap =
  missionAt :: "nat \<Rightarrow> mission"
  abilityAt :: "nat \<Rightarrow> ability_record"
  listAt :: "nat \<Rightarrow> mission_list"
  listLive :: "nat \<Rightarrow> bool"

definition upd_mission :: "nat \<Rightarrow> (mission \<Rightarrow> mission) \<Rightarrow> heap \<Rightarrow> heap" where
  "upd_mission m f h = h\<lparr>missionAt := (missionAt h)(m := f (missionAt h m))\<rparr>"

definition upd_ability :: "nat \<Rightarrow> (ability_record \<Rightarrow> ability_record) \<Rightarrow> heap \<Rightarrow> heap" where
  "upd_ability a f h = h\<lparr>abilityAt := (abilityAt h)(a := f (abilityAt h a))\<rparr>"

definition set_missions :: "nat \<Rightarrow> ptr list \<Rightarrow> heap \<Rightarrow> heap" where
  "set_missions l ms h = h\<lparr>listAt := (listAt h)(l := (listAt h l)\<lparr>ml_missions := ms\<rparr>)\<rparr>"

abbreviation missions_of :: "heap \<Rightarrow> nat \<Rightarrow> ptr list" where
  "missions_of h l \<equiv> ml_missions (listAt h l)"

section \<open>Mission\<close>

definition new_Mission :: "int \<Rightarrow> ptr \<Rightarrow> string \<Rightarrow> int \<Rightarrow> mission" where
  "new_Mission i ability name method = \<lparr>ms_lockedState = False, ms_isMovingToFront = False,
     ms_isANRState = False, ms_needNotify = True, ms_needNotifyUpdateLabel = False, ms_unclearable = False, ms_missionId = i, ms_startMethod = method,
     ms_ownerMissionList = None, ms_abilityRecord = ability, ms_missionName = name,
     ms_specifiedFlag = '''', ms_missionTime = ''0''\<rparr>"

text \<open>
  The copying constructor leaves the fields it does not name at their defaults; a null argument
  returns before any assignment, so \<open>ms_missionId\<close> and \<open>ms_startMethod\<close> stay uninitialised and are
  parameters here.
\<close>

definition copy_Mission :: "heap \<Rightarrow> int \<Rightarrow> int \<Rightarrow> ptr \<Rightarrow> mission" where
  "copy_Mission h uninitId uninitMethod p =
     (case p of
        None \<Rightarrow> new_Mission uninitId None '''' uninitMethod
      | Some m \<Rightarrow> (let s = missionAt h m in
          (new_Mission (ms_missionId s) (ms_abilityRecord s) (ms_missionName s) (ms_startMethod s))
            \<lparr>ms_lockedState := ms_lockedState s, ms_ownerMissionList := ms_ownerMissionList s,
             ms_unclearable := ms_unclearable s\<rparr>))"

definition IsSingletonAbility :: "heap \<Rightarrow> nat \<Rightarrow> bool" where
  "IsSingletonAbility h m =
     (case ms_abilityRecord (missionAt h m) of
        Some a \<Rightarrow> ai_launchMode (ar_abilityInfo (abilityAt h a)) = SINGLETON
      | None \<Rightarrow> False)"

definition IsSpecifiedAbility :: "heap \<Rightarrow> nat \<Rightarrow> bool" where
  "IsSpecifiedAbility h m =
     (case ms_abilityRecord (missionAt h m) of
        Some a \<Rightarrow> ai_launchMode (ar_abilityInfo (abilityAt h a)) = SPECIFIED
      | None \<Rightarrow> False)"

definition IsStandardAbility :: "heap \<Rightarrow> nat \<Rightarrow> bool" where
  "IsStandardAbility h m =
     (case ms_abilityRecord (missionAt h m) of
        Some a \<Rightarrow> ai_launchMode (ar_abilityInfo (abilityAt h a)) = STANDARD
      | None \<Rightarrow> False)"

definition GetMissionList :: "heap \<Rightarrow> nat \<Rightarrow> ptr" where
  "GetMissionList h m =
     (case ms_ownerMissionList (missionAt h m) of
        Some l \<Rightarrow> if listLive h l then Some l else None
      | None \<Rightarrow> None)"

definition SetMissionList :: "nat \<Rightarrow> ptr \<Rightarrow> heap \<Rightarrow> heap" where
  "SetMissionList m l h = upd_mission m (\<lambda>x. x\<lparr>ms_ownerMissionList := l\<rparr>) h"

text \<open>\<open>StartMethod::START_CALL\<close> is the second enumerator, so its value is 1.\<close>

definition IsStartByCall :: "mission \<Rightarrow> bool" where
  "IsStartByCall m \<longleftrightarrow> 1 = ms_startMethod m"

definition UpdateMissionId :: "int \<Rightarrow> int \<Rightarrow> mission \<Rightarrow> bool \<times> mission" where
  "UpdateMissionId i method m =
     (if method = ms_startMethod m \<and> i > 0 then (False, m)
      else (True, m\<lparr>ms_startMethod := method, ms_missionId := i\<rparr>))"

definition SetSpecifiedFlag :: "string \<Rightarrow> mission \<Rightarrow> mission" where
  "SetSpecifiedFlag flag m = m\<lparr>ms_specifiedFlag := flag\<rparr>"

definition SetLockedState :: "bool \<Rightarrow> mission \<Rightarrow> mission" where
  "SetLockedState b m = m\<lparr>ms_lockedState := b\<rparr>"

definition SetMovingState :: "bool \<Rightarrow> mission \<Rightarrow> mission" where
  "SetMovingState b m = m\<lparr>ms_isMovingToFront := b\<rparr>"

definition SetANRState :: "bool \<Rightarrow> mission \<Rightarrow> mission" where
  "SetANRState b m = m\<lparr>ms_isANRState := b\<rparr>"

section \<open>MissionList: changing the list\<close>

text \<open>\<open>std::list::remove\<close> erases every occurrence of the pointer.\<close>

definition AddMissionToTop :: "nat \<Rightarrow> ptr \<Rightarrow> heap \<Rightarrow> heap" where
  "AddMissionToTop l mission h =
     (case mission of
        None \<Rightarrow> h
      | Some m \<Rightarrow>
          if missions_of h l \<noteq> [] \<and> hd (missions_of h l) = mission then h
          else SetMissionList m (Some l)
                 (set_missions l (mission # removeAll mission (missions_of h l)) h))"

definition RemoveMission :: "nat \<Rightarrow> ptr \<Rightarrow> heap \<Rightarrow> heap" where
  "RemoveMission l mission h = set_missions l (erase_first (\<lambda>p. p = mission) (missions_of h l)) h"

primrec eraseByAbility :: "heap \<Rightarrow> ptr \<Rightarrow> ptr list \<Rightarrow> ptr list cpp" where
  "eraseByAbility h rec [] = Inr []"
| "eraseByAbility h rec (p # ps) =
     cpp_bind (deref p) (\<lambda>m.
       if ms_abilityRecord (missionAt h m) = rec then Inr ps
       else cpp_bind (eraseByAbility h rec ps) (\<lambda>rest. Inr (p # rest)))"

definition RemoveMissionByAbilityRecord :: "nat \<Rightarrow> ptr \<Rightarrow> heap \<Rightarrow> heap cpp" where
  "RemoveMissionByAbilityRecord l rec h =
     cpp_bind (eraseByAbility h rec (missions_of h l)) (\<lambda>ms. Inr (set_missions l ms h))"

definition MatchedInitialMission :: "ptr \<Rightarrow> string \<Rightarrow> int \<Rightarrow> heap \<Rightarrow> bool \<times> heap" where
  "MatchedInitialMission mission bundleName uid h =
     (case mission of None \<Rightarrow> (False, h) | Some m \<Rightarrow>
        (case ms_abilityRecord (missionAt h m) of None \<Rightarrow> (False, h) | Some a \<Rightarrow>
           if ai_bundleName (ar_abilityInfo (abilityAt h a)) = bundleName \<and> ar_uid (abilityAt h a) = uid
           then (let h' = upd_ability a (\<lambda>x. x\<lparr>ar_isUninstall := True\<rparr>) h in
                 if ar_currentState (abilityAt h' a) = INITIAL then (True, h') else (False, h'))
           else (False, h)))"

primrec uninstallLoop :: "string \<Rightarrow> int \<Rightarrow> ptr list \<Rightarrow> heap \<Rightarrow> ptr list \<times> heap" where
  "uninstallLoop bundleName uid [] h = ([], h)"
| "uninstallLoop bundleName uid (p # ps) h =
     (let (matched, h1) = MatchedInitialMission p bundleName uid h;
          (rest, h2) = uninstallLoop bundleName uid ps h1
      in (if matched then rest else p # rest, h2))"

definition ml_HandleUnInstallApp :: "nat \<Rightarrow> string \<Rightarrow> int \<Rightarrow> heap \<Rightarrow> heap" where
  "ml_HandleUnInstallApp l bundleName uid h =
     (let (ms, h') = uninstallLoop bundleName uid (missions_of h l) h in set_missions l ms h')"

definition restartHit :: "int \<Rightarrow> string \<Rightarrow> ptr \<Rightarrow> heap \<Rightarrow> bool \<times> heap" where
  "restartHit uid instanceKey p h =
     (case p of None \<Rightarrow> (False, h) | Some m \<Rightarrow>
       (case ms_abilityRecord (missionAt h m) of None \<Rightarrow> (False, h) | Some a \<Rightarrow>
         if ar_uid (abilityAt h a) \<noteq> uid then (False, h)
         else if ar_instanceKey (abilityAt h a) \<noteq> instanceKey then (False, h)
         else (True, upd_ability a (\<lambda>x. x\<lparr>ar_isRestartApp := True\<rparr>) h)))"

primrec signRestartLoop :: "int \<Rightarrow> string \<Rightarrow> ptr list \<Rightarrow> heap \<Rightarrow> ptr list \<times> heap" where
  "signRestartLoop uid instanceKey [] h = ([], h)"
| "signRestartLoop uid instanceKey (p # ps) h =
     (let (hit, h1) = restartHit uid instanceKey p h;
          (rest, h2) = signRestartLoop uid instanceKey ps h1
      in (if hit then rest else p # rest, h2))"

definition SignRestartAppFlag :: "nat \<Rightarrow> int \<Rightarrow> string \<Rightarrow> heap \<Rightarrow> heap" where
  "SignRestartAppFlag l uid instanceKey h =
     (let (ms, h') = signRestartLoop uid instanceKey (missions_of h l) h in set_missions l ms h')"

section \<open>MissionList: queries\<close>

text \<open>
  \<open>first_mission\<close> is the loop \<open>for (mission : missions_) if (mission && cond) return mission\<close>, and
  \<open>abilityOf\<close> the chain \<open>mission && mission->GetAbilityRecord()\<close>.
\<close>

primrec first_mission :: "(nat \<Rightarrow> bool) \<Rightarrow> ptr list \<Rightarrow> ptr" where
  "first_mission cond [] = None"
| "first_mission cond (p # ps) =
     (case p of Some m \<Rightarrow> if cond m then p else first_mission cond ps
      | None \<Rightarrow> first_mission cond ps)"

definition abilityOf :: "heap \<Rightarrow> ptr \<Rightarrow> ptr" where
  "abilityOf h p = (case p of None \<Rightarrow> None | Some m \<Rightarrow> ms_abilityRecord (missionAt h m))"

definition GetTopMission :: "heap \<Rightarrow> nat \<Rightarrow> ptr" where
  "GetTopMission h l = (case missions_of h l of [] \<Rightarrow> None | p # ps \<Rightarrow> p)"

definition IsEmpty :: "heap \<Rightarrow> nat \<Rightarrow> bool" where
  "IsEmpty h l \<longleftrightarrow> missions_of h l = []"

definition GetTopAbility :: "heap \<Rightarrow> nat \<Rightarrow> ptr" where
  "GetTopAbility h l = (case missions_of h l of [] \<Rightarrow> None | p # ps \<Rightarrow> abilityOf h p)"

definition GetSingletonMissionByName :: "heap \<Rightarrow> nat \<Rightarrow> string \<Rightarrow> ptr" where
  "GetSingletonMissionByName h l name =
     (if name = '''' then None
      else first_mission (\<lambda>m. IsSingletonAbility h m \<and> ms_missionName (missionAt h m) = name)
             (missions_of h l))"

definition GetSpecifiedMission :: "heap \<Rightarrow> nat \<Rightarrow> string \<Rightarrow> string \<Rightarrow> ptr" where
  "GetSpecifiedMission h l name flag =
     (if name = '''' \<or> flag = '''' then None
      else first_mission (\<lambda>m. IsSpecifiedAbility h m \<and> ms_missionName (missionAt h m) = name \<and>
             ms_specifiedFlag (missionAt h m) = flag) (missions_of h l))"

primrec recentLoop :: "heap \<Rightarrow> string \<Rightarrow> ptr list \<Rightarrow> string \<Rightarrow> ptr \<Rightarrow> ptr" where
  "recentLoop h name [] t result = result"
| "recentLoop h name (p # ps) t result =
     (case p of
        Some m \<Rightarrow>
          if IsStandardAbility h m \<and> ms_missionName (missionAt h m) = name \<and>
             ms_missionTime (missionAt h m) \<ge> t
          then recentLoop h name ps (ms_missionTime (missionAt h m)) p
          else recentLoop h name ps t result
      | None \<Rightarrow> recentLoop h name ps t result)"

definition GetRecentStandardMission :: "heap \<Rightarrow> nat \<Rightarrow> string \<Rightarrow> ptr" where
  "GetRecentStandardMission h l name =
     (if name = '''' then None else recentLoop h name (missions_of h l) ''0'' None)"

primrec byTokenLoop :: "heap \<Rightarrow> ptr \<Rightarrow> ptr list \<Rightarrow> ptr cpp" where
  "byTokenLoop h token [] = Inr None"
| "byTokenLoop h token (p # ps) =
     (case abilityOf h p of
        None \<Rightarrow> byTokenLoop h token ps
      | Some a \<Rightarrow> cpp_bind (deref (ar_token (abilityAt h a))) (\<lambda>t.
          if token = Some t then Inr (Some a) else byTokenLoop h token ps))"

definition ml_GetAbilityRecordByToken :: "heap \<Rightarrow> nat \<Rightarrow> ptr \<Rightarrow> ptr cpp" where
  "ml_GetAbilityRecordByToken h l token = byTokenLoop h token (missions_of h l)"

definition ml_GetMissionById :: "heap \<Rightarrow> nat \<Rightarrow> int \<Rightarrow> ptr" where
  "ml_GetMissionById h l i = first_mission (\<lambda>m. ms_missionId (missionAt h m) = i) (missions_of h l)"

primrec bySpecifiedFlagLoop :: "heap \<Rightarrow> string \<Rightarrow> string \<Rightarrow> string \<Rightarrow> ptr list \<Rightarrow> ptr" where
  "bySpecifiedFlagLoop h wantAbility wantBundle flag [] = None"
| "bySpecifiedFlagLoop h wantAbility wantBundle flag (p # ps) =
     (case p of None \<Rightarrow> None | Some m \<Rightarrow>
       (case ms_abilityRecord (missionAt h m) of None \<Rightarrow> None | Some a \<Rightarrow>
         if ai_appBundleName (ar_abilityInfo (abilityAt h a)) = wantBundle \<and>
            ai_name (ar_abilityInfo (abilityAt h a)) = wantAbility \<and>
            ar_specifiedFlag (abilityAt h a) = flag
         then p else bySpecifiedFlagLoop h wantAbility wantBundle flag ps))"

definition ml_GetMissionBySpecifiedFlag :: "heap \<Rightarrow> nat \<Rightarrow> string \<Rightarrow> string \<Rightarrow> string \<Rightarrow> ptr" where
  "ml_GetMissionBySpecifiedFlag h l wantAbility wantBundle flag =
     bySpecifiedFlagLoop h wantAbility wantBundle flag (missions_of h l)"

definition GetLauncherRoot :: "heap \<Rightarrow> nat \<Rightarrow> ptr" where
  "GetLauncherRoot h l =
     abilityOf h (first_mission (\<lambda>m. case ms_abilityRecord (missionAt h m) of
        None \<Rightarrow> False | Some a \<Rightarrow> ar_isLauncherRoot (abilityAt h a)) (missions_of h l))"

primrec byRecordIdLoop :: "heap \<Rightarrow> int \<Rightarrow> ptr list \<Rightarrow> ptr cpp" where
  "byRecordIdLoop h i [] = Inr None"
| "byRecordIdLoop h i (p # ps) =
     (case p of None \<Rightarrow> byRecordIdLoop h i ps | Some m \<Rightarrow>
       cpp_bind (deref (ms_abilityRecord (missionAt h m))) (\<lambda>a.
         if ar_recordId (abilityAt h a) = i then Inr (Some a) else byRecordIdLoop h i ps))"

definition ml_GetAbilityRecordById :: "heap \<Rightarrow> nat \<Rightarrow> int \<Rightarrow> ptr cpp" where
  "ml_GetAbilityRecordById h l i = byRecordIdLoop h i (missions_of h l)"

text \<open>
  A caller record is a pair of the calling ability and the request code; a null \<open>CallerRecord\<close>
  pointer in the list is \<open>None\<close> and its dereference a fault.
\<close>

primrec callerMatch :: "ptr \<Rightarrow> int \<Rightarrow> (ptr \<times> int) option list \<Rightarrow> bool cpp" where
  "callerMatch caller requestCode [] = Inr False"
| "callerMatch caller requestCode (c # cs) =
     cpp_bind (deref c) (\<lambda>(who, code).
       if who = caller \<and> code = requestCode then Inr True else callerMatch caller requestCode cs)"

primrec byCallerLoop :: "heap \<Rightarrow> ptr \<Rightarrow> int \<Rightarrow> ptr list \<Rightarrow> ptr cpp" where
  "byCallerLoop h caller requestCode [] = Inr None"
| "byCallerLoop h caller requestCode (p # ps) =
     cpp_bind (deref p) (\<lambda>m. cpp_bind (deref (ms_abilityRecord (missionAt h m))) (\<lambda>a.
       cpp_bind (callerMatch caller requestCode (ar_callerList (abilityAt h a))) (\<lambda>hit.
         if hit then Inr (Some a) else byCallerLoop h caller requestCode ps)))"

definition ml_GetAbilityRecordByCaller :: "heap \<Rightarrow> nat \<Rightarrow> ptr \<Rightarrow> int \<Rightarrow> ptr cpp" where
  "ml_GetAbilityRecordByCaller h l caller requestCode = byCallerLoop h caller requestCode (missions_of h l)"

text \<open>
  \<open>ElementName\<close> belongs to the ability base library.  \<open>elemIs device bundle ability module e\<close> stands
  for \<open>ElementName(device, bundle, ability, module) == e\<close>, with \<open>None\<close> for the constructor without
  a module name.
\<close>

type_synonym 'e elem_eq = "string \<Rightarrow> string \<Rightarrow> string \<Rightarrow> string option \<Rightarrow> 'e \<Rightarrow> bool"

definition elementMatches :: "'e elem_eq \<Rightarrow> 'e \<Rightarrow> ability_info \<Rightarrow> bool" where
  "elementMatches elemIs element info \<longleftrightarrow>
     elemIs (ai_deviceId info) (ai_bundleName info) (ai_name info) (Some (ai_moduleName info)) element \<or>
     elemIs (ai_deviceId info) (ai_bundleName info) (ai_name info) None element"

primrec byNameLoop :: "'e elem_eq \<Rightarrow> heap \<Rightarrow> 'e \<Rightarrow> ptr list \<Rightarrow> ptr cpp" where
  "byNameLoop elemIs h element [] = Inr None"
| "byNameLoop elemIs h element (p # ps) =
     (case p of None \<Rightarrow> byNameLoop elemIs h element ps | Some m \<Rightarrow>
       cpp_bind (deref (ms_abilityRecord (missionAt h m))) (\<lambda>a.
         if elementMatches elemIs element (ar_abilityInfo (abilityAt h a)) then Inr (Some a)
         else byNameLoop elemIs h element ps))"

definition ml_GetAbilityRecordByName :: "'e elem_eq \<Rightarrow> heap \<Rightarrow> nat \<Rightarrow> 'e \<Rightarrow> ptr cpp" where
  "ml_GetAbilityRecordByName elemIs h l element = byNameLoop elemIs h element (missions_of h l)"

primrec recordsByNameLoop :: "'e elem_eq \<Rightarrow> heap \<Rightarrow> 'e \<Rightarrow> ptr list \<Rightarrow> nat list \<Rightarrow> nat list" where
  "recordsByNameLoop elemIs h element [] records = records"
| "recordsByNameLoop elemIs h element (p # ps) records =
     (case abilityOf h p of
        None \<Rightarrow> recordsByNameLoop elemIs h element ps records
      | Some a \<Rightarrow> recordsByNameLoop elemIs h element ps
          (if elementMatches elemIs element (ar_abilityInfo (abilityAt h a)) then records @ [a] else records))"

definition ml_GetAbilityRecordsByName :: "'e elem_eq \<Rightarrow> heap \<Rightarrow> nat \<Rightarrow> 'e \<Rightarrow> nat list \<Rightarrow> nat list" where
  "ml_GetAbilityRecordsByName elemIs h l element records =
     recordsByNameLoop elemIs h element (missions_of h l) records"

primrec tokenByIdLoop :: "heap \<Rightarrow> int \<Rightarrow> ptr list \<Rightarrow> ptr" where
  "tokenByIdLoop h i [] = None"
| "tokenByIdLoop h i (p # ps) =
     (case p of None \<Rightarrow> tokenByIdLoop h i ps | Some m \<Rightarrow>
       if ms_missionId (missionAt h m) = i
       then (case ms_abilityRecord (missionAt h m) of
               Some a \<Rightarrow> ar_token (abilityAt h a) | None \<Rightarrow> tokenByIdLoop h i ps)
       else tokenByIdLoop h i ps)"

definition ml_GetAbilityTokenByMissionId :: "heap \<Rightarrow> nat \<Rightarrow> int \<Rightarrow> ptr" where
  "ml_GetAbilityTokenByMissionId h l i = tokenByIdLoop h i (missions_of h l)"

primrec GetTypeName :: "mission_list_type \<Rightarrow> string" where
  "GetTypeName CURRENT = ''NORMAL''"
| "GetTypeName DEFAULT_STANDARD = ''DEFAULT_STANDARD''"
| "GetTypeName DEFAULT_SINGLE = ''DEFAULT_SINGLE''"
| "GetTypeName LAUNCHER = ''LAUNCHER''"

text \<open>\<open>count\<close> is an \<open>int32_t\<close>; a list of \<open>2^31\<close> missions does not fit in memory, so it is an \<open>int\<close>.\<close>

primrec countByUidLoop :: "heap \<Rightarrow> int \<Rightarrow> ptr list \<Rightarrow> int \<Rightarrow> int" where
  "countByUidLoop h uid [] count = count"
| "countByUidLoop h uid (p # ps) count =
     (case abilityOf h p of
        None \<Rightarrow> countByUidLoop h uid ps count
      | Some a \<Rightarrow> countByUidLoop h uid ps (if ar_uid (abilityAt h a) = uid then count + 1 else count))"

definition GetMissionCountByUid :: "heap \<Rightarrow> nat \<Rightarrow> int \<Rightarrow> int" where
  "GetMissionCountByUid h l uid = countByUidLoop h uid (missions_of h l) 0"

primrec earliestLoop :: "heap \<Rightarrow> ptr list \<Rightarrow> ptr \<Rightarrow> ptr" where
  "earliestLoop h [] target = target"
| "earliestLoop h (p # ps) target =
     (case p of None \<Rightarrow> earliestLoop h ps target | Some m \<Rightarrow>
       (case ms_abilityRecord (missionAt h m) of None \<Rightarrow> earliestLoop h ps target | Some a \<Rightarrow>
         if ar_currentState (abilityAt h a) \<noteq> BACKGROUND \<or>
            (case target of None \<Rightarrow> False
             | Some t \<Rightarrow> ms_missionTime (missionAt h t) < ms_missionTime (missionAt h m))
         then earliestLoop h ps target
         else earliestLoop h ps p))"

definition ml_FindEarliestMission :: "heap \<Rightarrow> nat \<Rightarrow> ptr \<Rightarrow> ptr" where
  "ml_FindEarliestMission h l target = earliestLoop h (missions_of h l) target"

definition GetMissionCount :: "heap \<Rightarrow> nat \<Rightarrow> int" where
  "GetMissionCount h l = int (length (missions_of h l))"

definition NO_PID :: int where
  "NO_PID = -1"

primrec activeLoop :: "heap \<Rightarrow> int \<Rightarrow> int \<Rightarrow> ptr list \<Rightarrow> string list \<Rightarrow> string list" where
  "activeLoop h uid pid [] abilityList = abilityList"
| "activeLoop h uid pid (p # ps) abilityList =
     (case abilityOf h p of
        None \<Rightarrow> activeLoop h uid pid ps abilityList
      | Some a \<Rightarrow>
          if pid \<noteq> NO_PID \<and> ar_pid (abilityAt h a) \<noteq> pid then activeLoop h uid pid ps abilityList
          else if ai_appUid (ar_abilityInfo (abilityAt h a)) = uid \<and>
                  ai_name (ar_abilityInfo (abilityAt h a)) \<noteq> ''''
          then activeLoop h uid pid ps (abilityList @ [ai_name (ar_abilityInfo (abilityAt h a))])
          else activeLoop h uid pid ps abilityList)"

definition ml_GetActiveAbilityList :: "heap \<Rightarrow> nat \<Rightarrow> int \<Rightarrow> string list \<Rightarrow> int \<Rightarrow> string list" where
  "ml_GetActiveAbilityList h l uid abilityList pid = activeLoop h uid pid (missions_of h l) abilityList"

section \<open>Frame lemmas of the heap\<close>

named_theorems heap_simps \<open>what an object update changes and what it leaves\<close>

lemma set_missions_simps [simp, heap_simps]:
  "missions_of (set_missions l ms h) l' = (if l' = l then ms else missions_of h l')"
  "ml_type (listAt (set_missions l ms h) l') = ml_type (listAt h l')"
  "missionAt (set_missions l ms h) = missionAt h"
  "abilityAt (set_missions l ms h) = abilityAt h"
  "listLive (set_missions l ms h) = listLive h"
  by (simp_all add: set_missions_def)

lemma upd_mission_simps [simp, heap_simps]:
  "missionAt (upd_mission m f h) m' = (if m' = m then f (missionAt h m) else missionAt h m')"
  "listAt (upd_mission m f h) = listAt h"
  "abilityAt (upd_mission m f h) = abilityAt h"
  "listLive (upd_mission m f h) = listLive h"
  by (simp_all add: upd_mission_def)

lemma upd_ability_simps [simp, heap_simps]:
  "abilityAt (upd_ability a f h) a' = (if a' = a then f (abilityAt h a) else abilityAt h a')"
  "listAt (upd_ability a f h) = listAt h"
  "missionAt (upd_ability a f h) = missionAt h"
  "listLive (upd_ability a f h) = listLive h"
  "(upd_ability a f h)\<lparr>abilityAt := g\<rparr> = h\<lparr>abilityAt := g\<rparr>"
  by (simp_all add: upd_ability_def)

lemma heap_abilityAt_eqI: "(\<And>a. f a = g a) \<Longrightarrow> h\<lparr>abilityAt := f\<rparr> = h\<lparr>abilityAt := g\<rparr>"
  by presburger

lemma SetMissionList_simps [simp, heap_simps]:
  "listAt (SetMissionList m p h) = listAt h"
  "abilityAt (SetMissionList m p h) = abilityAt h"
  "listLive (SetMissionList m p h) = listLive h"
  "ms_ownerMissionList (missionAt (SetMissionList m p h) m') =
     (if m' = m then p else ms_ownerMissionList (missionAt h m'))"
  "ms_abilityRecord (missionAt (SetMissionList m p h) m') = ms_abilityRecord (missionAt h m')"
  "ms_missionTime (missionAt (SetMissionList m p h) m') = ms_missionTime (missionAt h m')"
  "ms_missionId (missionAt (SetMissionList m p h) m') = ms_missionId (missionAt h m')"
  "ms_missionName (missionAt (SetMissionList m p h) m') = ms_missionName (missionAt h m')"
  by (simp_all add: SetMissionList_def)

section \<open>Adding and removing missions\<close>

lemma AddMissionToTop_missions:
  "distinct (missions_of h l) \<Longrightarrow>
     missions_of (AddMissionToTop l (Some m) h) l = Some m # removeAll (Some m) (missions_of h l)"
  by (cases "missions_of h l") (auto simp: AddMissionToTop_def)

lemma AddMissionToTop_other:
  "l' \<noteq> l \<Longrightarrow> missions_of (AddMissionToTop l p h) l' = missions_of h l'"
  by (simp add: AddMissionToTop_def split: option.split)

lemma AddMissionToTop_None [simp]: "AddMissionToTop l None h = h"
  by (simp add: AddMissionToTop_def)

lemma AddMissionToTop_frame [simp, heap_simps]:
  "abilityAt (AddMissionToTop l p h) = abilityAt h"
  "listLive (AddMissionToTop l p h) = listLive h"
  "ml_type (listAt (AddMissionToTop l p h) l') = ml_type (listAt h l')"
  "ms_abilityRecord (missionAt (AddMissionToTop l p h) m') = ms_abilityRecord (missionAt h m')"
  "ms_missionTime (missionAt (AddMissionToTop l p h) m') = ms_missionTime (missionAt h m')"
  "ms_missionId (missionAt (AddMissionToTop l p h) m') = ms_missionId (missionAt h m')"
  by (simp_all add: AddMissionToTop_def split: option.split)

lemma AddMissionToTop_owner_other:
  "m' \<noteq> m \<Longrightarrow> missionAt (AddMissionToTop l (Some m) h) m' = missionAt h m'"
  by (simp add: AddMissionToTop_def SetMissionList_def)

lemma AddMissionToTop_owner:
  "(Some m \<in> set (missions_of h l) \<Longrightarrow> ms_ownerMissionList (missionAt h m) = Some l) \<Longrightarrow>
     ms_ownerMissionList (missionAt (AddMissionToTop l (Some m) h) m) = Some l"
  by (cases "missions_of h l") (auto simp: AddMissionToTop_def)

lemma RemoveMission_simps [simp, heap_simps]:
  "missionAt (RemoveMission l p h) = missionAt h"
  "abilityAt (RemoveMission l p h) = abilityAt h"
  "listLive (RemoveMission l p h) = listLive h"
  "ml_type (listAt (RemoveMission l p h) l') = ml_type (listAt h l')"
  "l' \<noteq> l \<Longrightarrow> missions_of (RemoveMission l p h) l' = missions_of h l'"
  by (simp_all add: RemoveMission_def)

lemma erase_first_eq_removeAll: "distinct xs \<Longrightarrow> erase_first (\<lambda>p. p = x) xs = removeAll x xs"
  by (induction xs) auto

lemma RemoveMission_missions:
  "distinct (missions_of h l) \<Longrightarrow> missions_of (RemoveMission l p h) l = removeAll p (missions_of h l)"
  by (simp add: RemoveMission_def erase_first_eq_removeAll)

lemma eraseByAbility_filter:
  assumes "None \<notin> set ms"
    and "distinct (map (\<lambda>p. ms_abilityRecord (missionAt h (the p))) ms)"
  shows "eraseByAbility h rec ms = Inr (filter (\<lambda>p. ms_abilityRecord (missionAt h (the p)) \<noteq> rec) ms)"
  using assms
proof (induction ms)
  case (Cons p ps)
  then obtain m where p: "p = Some m" by (cases p) auto
  show ?case
  proof (cases "ms_abilityRecord (missionAt h m) = rec")
    case True
    with Cons.prems p have "\<forall>q\<in>set ps. ms_abilityRecord (missionAt h (the q)) \<noteq> rec" by (fastforce simp: image_iff)
    with True p show ?thesis by (simp add: filter_id_conv)
  next
    case False
    with Cons p show ?thesis by simp
  qed
qed simp

section \<open>Uninstalling an application\<close>

definition uninstallHit :: "heap \<Rightarrow> string \<Rightarrow> int \<Rightarrow> nat \<Rightarrow> bool" where
  "uninstallHit h bundleName uid a \<longleftrightarrow>
     ai_bundleName (ar_abilityInfo (abilityAt h a)) = bundleName \<and> ar_uid (abilityAt h a) = uid"

definition uninstalled :: "heap \<Rightarrow> string \<Rightarrow> int \<Rightarrow> ptr \<Rightarrow> bool" where
  "uninstalled h bundleName uid p \<longleftrightarrow>
     (case abilityOf h p of None \<Rightarrow> False
      | Some a \<Rightarrow> uninstallHit h bundleName uid a \<and> ar_currentState (abilityAt h a) = INITIAL)"

definition tagged :: "heap \<Rightarrow> string \<Rightarrow> int \<Rightarrow> ptr list \<Rightarrow> nat \<Rightarrow> bool" where
  "tagged h bundleName uid ms a \<longleftrightarrow> Some a \<in> abilityOf h ` set ms \<and> uninstallHit h bundleName uid a"

lemma MatchedInitialMission_eq:
  "MatchedInitialMission p bundleName uid h =
     (uninstalled h bundleName uid p,
      case abilityOf h p of None \<Rightarrow> h
      | Some a \<Rightarrow> if uninstallHit h bundleName uid a then upd_ability a (\<lambda>x. x\<lparr>ar_isUninstall := True\<rparr>) h else h)"
  by (auto simp: MatchedInitialMission_def uninstalled_def uninstallHit_def abilityOf_def Let_def
      split: option.splits)

lemma upd_isUninstall_frame [simp]:
  "abilityOf (upd_ability a (\<lambda>x. x\<lparr>ar_isUninstall := True\<rparr>) h) = abilityOf h"
  "uninstallHit (upd_ability a (\<lambda>x. x\<lparr>ar_isUninstall := True\<rparr>) h) = uninstallHit h"
  "uninstalled (upd_ability a (\<lambda>x. x\<lparr>ar_isUninstall := True\<rparr>) h) = uninstalled h"
  by (auto simp: abilityOf_def uninstallHit_def uninstalled_def fun_eq_iff split: option.splits)

text \<open>
  The loop erases exactly the missions whose ability matches and has not left the initial state,
  and sets the uninstall tag on every matching ability, erased or not.
\<close>

lemma uninstallLoop_eq:
  "uninstallLoop bundleName uid ms h =
     (filter (\<lambda>p. \<not> uninstalled h bundleName uid p) ms,
      h\<lparr>abilityAt := (\<lambda>a. if tagged h bundleName uid ms a then (abilityAt h a)\<lparr>ar_isUninstall := True\<rparr>
                         else abilityAt h a)\<rparr>)"
proof (induction ms arbitrary: h)
  case Nil
  show ?case by (simp add: tagged_def)
next
  case (Cons p ps)
  show ?case
  proof (cases "\<exists>a. abilityOf h p = Some a \<and> uninstallHit h bundleName uid a")
    case True
    then obtain a where a: "abilityOf h p = Some a" "uninstallHit h bundleName uid a" by blast
    have m: "MatchedInitialMission p bundleName uid h =
        (uninstalled h bundleName uid p, upd_ability a (\<lambda>x. x\<lparr>ar_isUninstall := True\<rparr>) h)"
      by (simp add: MatchedInitialMission_eq a)
    have t: "tagged (upd_ability a (\<lambda>x. x\<lparr>ar_isUninstall := True\<rparr>) h) bundleName uid ps = tagged h bundleName uid ps"
      "tagged h bundleName uid (p # ps) x \<longleftrightarrow> x = a \<or> tagged h bundleName uid ps x" for x
      using a by (auto simp: tagged_def fun_eq_iff)
    show ?thesis
      by (simp add: m t Cons.IH) (intro conjI impI heap_abilityAt_eqI; simp)
  next
    case False
    then have u: "\<not> uninstalled h bundleName uid p" by (auto simp: uninstalled_def split: option.splits)
    have m: "MatchedInitialMission p bundleName uid h = (False, h)"
      using False u by (auto simp: MatchedInitialMission_eq split: option.split)
    have t: "tagged h bundleName uid (p # ps) = tagged h bundleName uid ps"
      using False by (auto simp: tagged_def fun_eq_iff)
    show ?thesis by (simp add: m t u Cons.IH)
  qed
qed

lemma ml_HandleUnInstallApp_missions:
  "missions_of (ml_HandleUnInstallApp l bundleName uid h) l' =
     (if l' = l then filter (\<lambda>p. \<not> uninstalled h bundleName uid p) (missions_of h l) else missions_of h l')"
  by (simp add: ml_HandleUnInstallApp_def uninstallLoop_eq)

lemma ml_HandleUnInstallApp_abilityAt:
  "abilityAt (ml_HandleUnInstallApp l bundleName uid h) a =
     (if tagged h bundleName uid (missions_of h l) a then (abilityAt h a)\<lparr>ar_isUninstall := True\<rparr>
      else abilityAt h a)"
  by (simp add: ml_HandleUnInstallApp_def uninstallLoop_eq)

lemma ml_HandleUnInstallApp_frame [simp, heap_simps]:
  "missionAt (ml_HandleUnInstallApp l bundleName uid h) = missionAt h"
  "listLive (ml_HandleUnInstallApp l bundleName uid h) = listLive h"
  "ml_type (listAt (ml_HandleUnInstallApp l bundleName uid h) l') = ml_type (listAt h l')"
  by (simp_all add: ml_HandleUnInstallApp_def uninstallLoop_eq)

section \<open>Restarting an application\<close>

definition restartMatch :: "heap \<Rightarrow> int \<Rightarrow> string \<Rightarrow> ptr \<Rightarrow> bool" where
  "restartMatch h uid instanceKey p \<longleftrightarrow>
     (case abilityOf h p of None \<Rightarrow> False
      | Some a \<Rightarrow> ar_uid (abilityAt h a) = uid \<and> ar_instanceKey (abilityAt h a) = instanceKey)"

lemma restartHit_eq:
  "restartHit uid instanceKey p h =
     (restartMatch h uid instanceKey p,
      if restartMatch h uid instanceKey p
      then upd_ability (the (abilityOf h p)) (\<lambda>x. x\<lparr>ar_isRestartApp := True\<rparr>) h else h)"
  by (auto simp: restartHit_def restartMatch_def abilityOf_def split: option.splits)

lemma restartMatch_upd [simp]:
  "restartMatch (upd_ability a (\<lambda>x. x\<lparr>ar_isRestartApp := True\<rparr>) h) = restartMatch h"
  "abilityOf (upd_ability a (\<lambda>x. x\<lparr>ar_isRestartApp := True\<rparr>) h) = abilityOf h"
  by (auto simp: restartMatch_def abilityOf_def fun_eq_iff split: option.splits)

lemma signRestartLoop_eq:
  "signRestartLoop uid instanceKey ms h =
     (filter (\<lambda>p. \<not> restartMatch h uid instanceKey p) ms,
      h\<lparr>abilityAt := (\<lambda>a. if \<exists>p\<in>set ms. abilityOf h p = Some a \<and> restartMatch h uid instanceKey p
                         then (abilityAt h a)\<lparr>ar_isRestartApp := True\<rparr> else abilityAt h a)\<rparr>)"
proof (induction ms arbitrary: h)
  case (Cons p ps)
  show ?case
  proof (cases "restartMatch h uid instanceKey p")
    case True
    then obtain a where "abilityOf h p = Some a" by (auto simp: restartMatch_def split: option.splits)
    with True Cons show ?thesis by (simp add: restartHit_eq) (intro conjI impI heap_abilityAt_eqI; auto)
  next
    case False
    with Cons show ?thesis by (auto simp: restartHit_eq intro!: heap_abilityAt_eqI)
  qed
qed simp

lemma SignRestartAppFlag_missions:
  "missions_of (SignRestartAppFlag l uid instanceKey h) l' =
     (if l' = l then filter (\<lambda>p. \<not> restartMatch h uid instanceKey p) (missions_of h l) else missions_of h l')"
  by (simp add: SignRestartAppFlag_def signRestartLoop_eq)

section \<open>Queries\<close>

lemma first_mission_Some:
  "first_mission cond ms = Some m \<Longrightarrow> Some m \<in> set ms \<and> cond m"
  by (induction ms) (auto split: option.splits if_splits)

lemma first_mission_None: "first_mission cond ms = None \<longleftrightarrow> (\<forall>m. Some m \<in> set ms \<longrightarrow> \<not> cond m)"
  by (induction ms) (auto split: option.splits)

definition recentCand :: "heap \<Rightarrow> string \<Rightarrow> nat \<Rightarrow> bool" where
  "recentCand h name m \<longleftrightarrow> IsStandardAbility h m \<and> ms_missionName (missionAt h m) = name"

lemma recentLoop_Some:
  assumes "recentLoop h name ms t result = Some m"
  shows "(result = Some m \<and> (\<forall>x. Some x \<in> set ms \<longrightarrow> recentCand h name x \<longrightarrow> ms_missionTime (missionAt h x) < t)) \<or>
     (Some m \<in> set ms \<and> recentCand h name m \<and> t \<le> ms_missionTime (missionAt h m) \<and>
      (\<forall>x. Some x \<in> set ms \<longrightarrow> recentCand h name x \<longrightarrow> ms_missionTime (missionAt h x) \<le> ms_missionTime (missionAt h m)))"
  using assms
proof (induction ms arbitrary: t result)
  case (Cons p ps)
  show ?case
  proof (cases "\<exists>x. p = Some x \<and> recentCand h name x \<and> t \<le> ms_missionTime (missionAt h x)")
    case True
    then obtain x where x: "p = Some x" "recentCand h name x" "t \<le> ms_missionTime (missionAt h x)" by blast
    then have "recentLoop h name ps (ms_missionTime (missionAt h x)) (Some x) = Some m"
      using Cons.prems by (simp add: recentCand_def)
    from Cons.IH [OF this] x show ?thesis by (auto intro: order.trans less_imp_le)
  next
    case False
    then have "recentLoop h name ps t result = Some m"
      using Cons.prems by (auto simp: recentCand_def split: option.splits if_splits)
    from Cons.IH [OF this] False show ?thesis by (auto simp: not_le intro: order.trans less_imp_le)
  qed
qed simp

lemma recentLoop_None:
  "recentLoop h name ms t result = None \<longleftrightarrow>
     result = None \<and> (\<forall>x. Some x \<in> set ms \<longrightarrow> recentCand h name x \<longrightarrow> ms_missionTime (missionAt h x) < t)"
proof (induction ms arbitrary: t result)
  case (Cons p ps)
  then show ?case by (auto simp: recentCand_def not_le split: option.splits)
qed simp

definition earliestCand :: "heap \<Rightarrow> ptr \<Rightarrow> bool" where
  "earliestCand h p \<longleftrightarrow>
     (case abilityOf h p of None \<Rightarrow> False | Some a \<Rightarrow> ar_currentState (abilityAt h a) = BACKGROUND)"

lemma earliestLoop_None:
  "earliestLoop h ms target = None \<longleftrightarrow> target = None \<and> (\<forall>p\<in>set ms. \<not> earliestCand h p)"
  by (induction ms arbitrary: target) (auto simp: earliestCand_def abilityOf_def split: option.splits)

lemma earliestLoop_Some:
  assumes "earliestLoop h ms target = Some m"
  shows "(target = Some m \<or> (Some m \<in> set ms \<and> earliestCand h (Some m))) \<and>
     (\<forall>x. target = Some x \<longrightarrow> ms_missionTime (missionAt h m) \<le> ms_missionTime (missionAt h x)) \<and>
     (\<forall>x. Some x \<in> set ms \<longrightarrow> earliestCand h (Some x) \<longrightarrow>
        ms_missionTime (missionAt h m) \<le> ms_missionTime (missionAt h x))"
  using assms
proof (induction ms arbitrary: target)
  case (Cons p ps)
  show ?case
  proof (cases "\<exists>x. p = Some x \<and> earliestCand h p \<and>
      (\<forall>t. target = Some t \<longrightarrow> ms_missionTime (missionAt h x) \<le> ms_missionTime (missionAt h t))")
    case True
    then obtain x where x: "p = Some x" "earliestCand h p"
      "\<forall>t. target = Some t \<longrightarrow> ms_missionTime (missionAt h x) \<le> ms_missionTime (missionAt h t)" by blast
    then have "earliestLoop h ps p = Some m"
      using Cons.prems by (auto simp: earliestCand_def abilityOf_def not_less split: option.splits if_splits)
    from Cons.IH [OF this] x show ?thesis by (auto intro: order.trans)
  next
    case False
    then have rest: "earliestLoop h ps target = Some m"
      using Cons.prems by (auto simp: earliestCand_def abilityOf_def not_less split: option.splits if_splits)
    have "ms_missionTime (missionAt h m) \<le> ms_missionTime (missionAt h x)"
      if "p = Some x" "earliestCand h (Some x)" for x
    proof -
      from False that obtain t where "target = Some t" "ms_missionTime (missionAt h t) < ms_missionTime (missionAt h x)"
        by (auto simp: not_le)
      with Cons.IH [OF rest] show ?thesis by (auto intro: less_imp_le order.strict_trans1)
    qed
    with Cons.IH [OF rest] show ?thesis by auto
  qed
qed simp

lemma countByUidLoop_eq:
  "countByUidLoop h uid ms c =
     c + int (length (filter (\<lambda>p. \<exists>a. abilityOf h p = Some a \<and> ar_uid (abilityAt h a) = uid) ms))"
  by (induction ms arbitrary: c) (auto split: option.splits)

lemma GetMissionCountByUid_eq:
  "GetMissionCountByUid h l uid =
     int (length (filter (\<lambda>p. \<exists>a. abilityOf h p = Some a \<and> ar_uid (abilityAt h a) = uid) (missions_of h l)))"
  by (simp add: GetMissionCountByUid_def countByUidLoop_eq)

definition activeName :: "heap \<Rightarrow> int \<Rightarrow> int \<Rightarrow> ptr \<Rightarrow> string \<Rightarrow> bool" where
  "activeName h uid pid p name \<longleftrightarrow>
     (case abilityOf h p of None \<Rightarrow> False
      | Some a \<Rightarrow> (pid = NO_PID \<or> ar_pid (abilityAt h a) = pid) \<and>
          ai_appUid (ar_abilityInfo (abilityAt h a)) = uid \<and>
          ai_name (ar_abilityInfo (abilityAt h a)) = name \<and> name \<noteq> '''')"

lemma activeName_cases:
  "abilityOf h p = None \<Longrightarrow> \<not> activeName h uid pid p name"
  "abilityOf h p = Some a \<Longrightarrow> activeName h uid pid p name \<longleftrightarrow>
     (pid = NO_PID \<or> ar_pid (abilityAt h a) = pid) \<and> ai_appUid (ar_abilityInfo (abilityAt h a)) = uid \<and>
     ai_name (ar_abilityInfo (abilityAt h a)) = name \<and> name \<noteq> []"
  by (simp_all add: activeName_def)

lemma set_activeLoop:
  "set (activeLoop h uid pid ms acc) = set acc \<union> {name. \<exists>p\<in>set ms. activeName h uid pid p name}"
  by (induction ms arbitrary: acc) (auto simp: activeName_cases split: option.splits)

lemma set_ml_GetActiveAbilityList:
  "set (ml_GetActiveAbilityList h l uid acc pid) =
     set acc \<union> {name. \<exists>p\<in>set (missions_of h l). activeName h uid pid p name}"
  by (simp add: ml_GetActiveAbilityList_def set_activeLoop)

end
