(* ===== verification/Ordered_Map.thy ===== *)
theory Ordered_Map
  imports Ability_Prelude
begin

text \<open>
  \<open>std::map\<close> as the services use it: an association list in ascending key order, so that the
  iteration order (and the reverse iteration of \<open>rbegin\<close>) is part of the model.
  \<open>omap_put\<close> is \<open>operator[]\<close>/\<open>insert_or_assign\<close>, \<open>omap_erase\<close> is \<open>erase(key)\<close>, \<open>omap_find\<close> is
  \<open>find\<close>, and \<open>omap_sweep\<close> is the loop that rewrites every value and erases an entry whose
  value is spent (\<open>iter = map.erase(iter)\<close> against \<open>iter++\<close>).

  The locale \<open>std_map\<close> is the interface the components rely on: what a lookup returns after each
  operation.  It is interpreted on the association lists at the end of the theory.
\<close>

type_synonym ('k, 'v) omap = "('k \<times> 'v) list"

abbreviation omap_find :: "('k, 'v) omap \<Rightarrow> 'k \<Rightarrow> 'v option" where
  "omap_find \<equiv> map_of"

fun omap_put :: "'k::linorder \<Rightarrow> 'v \<Rightarrow> ('k, 'v) omap \<Rightarrow> ('k, 'v) omap" where
  "omap_put k v [] = [(k, v)]"
| "omap_put k v ((k', v') # m) =
     (if k < k' then (k, v) # (k', v') # m
      else if k = k' then (k, v) # m
      else (k', v') # omap_put k v m)"

definition omap_erase :: "'k \<Rightarrow> ('k, 'v) omap \<Rightarrow> ('k, 'v) omap" where
  "omap_erase k m = filter (\<lambda>e. fst e \<noteq> k) m"

primrec omap_sweep :: "('k \<Rightarrow> 'v \<Rightarrow> 'v option) \<Rightarrow> ('k, 'v) omap \<Rightarrow> ('k, 'v) omap" where
  "omap_sweep g [] = []"
| "omap_sweep g (e # m) =
     (case g (fst e) (snd e) of None \<Rightarrow> omap_sweep g m | Some v \<Rightarrow> (fst e, v) # omap_sweep g m)"

text \<open>\<open>map[k]\<close>: a missing entry is created with the default value.\<close>

definition omap_at :: "'v \<Rightarrow> 'k \<Rightarrow> ('k, 'v) omap \<Rightarrow> 'v" where
  "omap_at d k m = (case omap_find m k of None \<Rightarrow> d | Some v \<Rightarrow> v)"

definition omap_inv :: "('k::linorder, 'v) omap \<Rightarrow> bool" where
  "omap_inv m \<longleftrightarrow> sorted_wrt (<) (map fst m)"

section \<open>Laws of the representation\<close>

lemma omap_inv_Nil [simp]: "omap_inv []"
  by (simp add: omap_inv_def)

lemma omap_inv_Cons: "omap_inv ((k, v) # m) \<longleftrightarrow> (\<forall>k'\<in>fst ` set m. k < k') \<and> omap_inv m"
  by (auto simp: omap_inv_def)

lemma omap_inv_distinct: "omap_inv m \<Longrightarrow> distinct (map fst m)"
  by (simp add: omap_inv_def strict_sorted_iff)

lemma keys_omap_put: "fst ` set (omap_put k v m) = insert k (fst ` set m)"
  by (induction k v m rule: omap_put.induct) auto

lemma omap_inv_put: "omap_inv m \<Longrightarrow> omap_inv (omap_put k v m)"
  by (induction k v m rule: omap_put.induct) (auto simp: omap_inv_Cons keys_omap_put)

lemma find_omap_put: "omap_inv m \<Longrightarrow> omap_find (omap_put k v m) = (omap_find m)(k \<mapsto> v)"
proof (induction k v m rule: omap_put.induct)
  case (2 k v k' v' m)
  have "k < k' \<Longrightarrow> k \<notin> fst ` set m" using "2.prems" by (auto simp: omap_inv_Cons)
  with 2 show ?case by (auto simp: omap_inv_Cons fun_eq_iff)
qed simp

lemma omap_at_put: "omap_inv m \<Longrightarrow> omap_at d k' (omap_put k v m) = (if k' = k then v else omap_at d k' m)"
  by (simp add: omap_at_def find_omap_put)

lemma omap_put_put: "omap_put k v (omap_put k w m) = omap_put k v m"
  by (induction k w m rule: omap_put.induct) auto

lemma omap_put_same: "omap_inv m \<Longrightarrow> omap_find m k = Some v \<Longrightarrow> omap_put k v m = m"
  by (induction k v m rule: omap_put.induct) (force simp: omap_inv_Cons dest: map_of_SomeD split: if_splits)+

lemma omap_put_not_Nil [simp]: "omap_put k v m \<noteq> []"
  by (cases m) (auto split: if_splits)

lemma set_omap_put: "omap_inv m \<Longrightarrow> set (omap_put k v m) = insert (k, v) {e \<in> set m. fst e \<noteq> k}"
  by (induction k v m rule: omap_put.induct) (auto simp: omap_inv_Cons)

lemma omap_inv_filter: "omap_inv m \<Longrightarrow> omap_inv (filter p m)"
  by (induction m) (auto simp: omap_inv_Cons)

lemma omap_inv_erase: "omap_inv m \<Longrightarrow> omap_inv (omap_erase k m)"
  by (simp add: omap_erase_def omap_inv_filter)

lemma find_omap_erase: "omap_find (omap_erase k m) = (omap_find m)(k := None)"
  by (induction m) (auto simp: omap_erase_def fun_eq_iff)

lemma set_omap_erase: "set (omap_erase k m) = {e \<in> set m. fst e \<noteq> k}"
  by (auto simp: omap_erase_def)

lemma keys_omap_sweep: "fst ` set (omap_sweep g m) \<subseteq> fst ` set m"
  by (induction m) (auto split: option.splits)

lemma omap_inv_sweep: "omap_inv m \<Longrightarrow> omap_inv (omap_sweep g m)"
proof (induction m)
  case (Cons e m)
  obtain k v where "e = (k, v)" by (cases e)
  with Cons show ?case using keys_omap_sweep [of g m] by (fastforce simp: omap_inv_Cons split: option.splits)
qed simp

lemma find_omap_sweep:
  "distinct (map fst m) \<Longrightarrow>
     omap_find (omap_sweep g m) k = (case omap_find m k of None \<Rightarrow> None | Some v \<Rightarrow> g k v)"
proof (induction m)
  case (Cons e m)
  obtain k' v' where e: "e = (k', v')" by (cases e)
  have "k' \<notin> fst ` set (omap_sweep g m)" using Cons.prems e keys_omap_sweep [of g m] by auto
  then have "omap_find (omap_sweep g m) k' = None" by (simp add: map_of_eq_None_iff)
  with Cons e show ?case by (auto split: option.splits)
qed simp

lemma set_omap_sweep: "set (omap_sweep g m) = {(k, v). \<exists>v'. (k, v') \<in> set m \<and> g k v' = Some v}"
  by (induction m) (auto split: option.splits)

lemma omap_find_in_set: "omap_find m k = Some v \<Longrightarrow> (k, v) \<in> set m"
  by (rule map_of_SomeD)

lemma omap_find_iff: "omap_inv m \<Longrightarrow> omap_find m k = Some v \<longleftrightarrow> (k, v) \<in> set m"
  by (auto dest: omap_inv_distinct map_of_SomeD)

section \<open>The map interface\<close>

locale std_map =
  fixes lookup :: "'m \<Rightarrow> 'k \<Rightarrow> 'v option"
    and put :: "'k \<Rightarrow> 'v \<Rightarrow> 'm \<Rightarrow> 'm"
    and erase :: "'k \<Rightarrow> 'm \<Rightarrow> 'm"
    and sweep :: "('k \<Rightarrow> 'v \<Rightarrow> 'v option) \<Rightarrow> 'm \<Rightarrow> 'm"
    and minv :: "'m \<Rightarrow> bool"
  assumes lookup_put: "minv m \<Longrightarrow> lookup (put k v m) = (lookup m)(k \<mapsto> v)"
    and lookup_erase: "minv m \<Longrightarrow> lookup (erase k m) = (lookup m)(k := None)"
    and lookup_sweep: "minv m \<Longrightarrow> lookup (sweep g m) k = (case lookup m k of None \<Rightarrow> None | Some v \<Rightarrow> g k v)"
    and minv_put: "minv m \<Longrightarrow> minv (put k v m)"
    and minv_erase: "minv m \<Longrightarrow> minv (erase k m)"
    and minv_sweep: "minv m \<Longrightarrow> minv (sweep g m)"
begin

text \<open>A predicate on all bindings survives an operation when it holds of what the operation writes.\<close>

definition all_vals :: "('k \<Rightarrow> 'v \<Rightarrow> bool) \<Rightarrow> 'm \<Rightarrow> bool" where
  "all_vals P m \<longleftrightarrow> (\<forall>k v. lookup m k = Some v \<longrightarrow> P k v)"

lemma all_vals_put: "minv m \<Longrightarrow> all_vals P m \<Longrightarrow> P k v \<Longrightarrow> all_vals P (put k v m)"
  by (simp add: all_vals_def lookup_put)

lemma all_vals_erase: "minv m \<Longrightarrow> all_vals P m \<Longrightarrow> all_vals P (erase k m)"
  by (simp add: all_vals_def lookup_erase)

lemma all_vals_sweep:
  "minv m \<Longrightarrow> all_vals P m \<Longrightarrow> (\<And>k v w. P k v \<Longrightarrow> g k v = Some w \<Longrightarrow> Q k w) \<Longrightarrow> all_vals Q (sweep g m)"
  unfolding all_vals_def by (simp add: lookup_sweep split: option.splits) blast

lemma lookup_erase_same: "minv m \<Longrightarrow> lookup (erase k m) k = None"
  by (simp add: lookup_erase)

lemma lookup_put_other: "minv m \<Longrightarrow> k \<noteq> k' \<Longrightarrow> lookup (put k v m) k' = lookup m k'"
  by (simp add: lookup_put)

end

interpretation om: std_map "map_of :: ('k::linorder, 'v) omap \<Rightarrow> 'k \<Rightarrow> 'v option"
  omap_put omap_erase omap_sweep omap_inv
  by unfold_locales
    (simp_all add: find_omap_put find_omap_erase find_omap_sweep omap_inv_distinct
      omap_inv_put omap_inv_erase omap_inv_sweep)

lemmas omap_laws = om.lookup_put om.lookup_erase om.lookup_sweep om.minv_put om.minv_erase om.minv_sweep

end
