(* ===== verification/Mission_Info_Mgr.thy ===== *)
theory Mission_Info_Mgr
  imports Ordered_Map
begin

text \<open>
  The store of mission records: \<open>services/abilitymgr/src/mission/mission_info_mgr.cpp\<close> and the
  part of \<open>task_data_persistence_mgr.cpp\<close> it calls.

  \<^item> \<open>persist\<close> is \<open>TaskDataPersistenceMgr\<close>: whether the task handler exists, the storages by user
    and the current one, and the log of the file operations it has submitted (a save or a delete
    runs later on the handler; \<open>replay\<close> says what the files hold once all of them ran in order).
  \<^item> \<open>mission_info_mgr\<close> is \<open>MissionInfoMgr\<close>: the list ordered by the time string, latest first, the
    map from issued ids to \<open>saved\<close>, the next id to try and the pointer to the persistence manager.

  \<open>Want\<close> is a class of the ability base library: it is the type variable \<open>'w\<close>, and the one
  parameter the code reads from it (\<open>PARAM_RESV_CALL_TO_FOREGROUND\<close>) is the argument \<open>callToFg\<close>.
  The files of a user are read by \<open>MissionDataStorage\<close>; what it returns is the argument \<open>loaded\<close>.
  Every public operation takes \<open>mutex_\<close>, so an operation is one step.
\<close>

section \<open>Data\<close>

record 'w mission_info =
  mi_continueState :: int
  mi_id :: int
  mi_runningState :: int
  mi_lockedState :: bool
  mi_continuable :: bool
  mi_unclearable :: bool
  mi_abilityState :: int
  mi_time :: string
  mi_label :: string
  mi_iconPath :: string
  mi_want :: 'w

record 'w inner_mission_info =
  imi_bundleName :: string
  imi_specifiedFlag :: string
  imi_missionName :: string
  imi_missionAffinity :: string
  imi_missionInfo :: "'w mission_info"
  imi_launchMode :: int
  imi_startMethod :: int
  imi_collaboratorType :: int
  imi_uid :: int
  imi_isTemporary :: bool
  imi_hasRecoverInfo :: bool

abbreviation info_id :: "'w inner_mission_info \<Rightarrow> int" where
  "info_id i \<equiv> mi_id (imi_missionInfo i)"

abbreviation info_time :: "'w inner_mission_info \<Rightarrow> string" where
  "info_time i \<equiv> mi_time (imi_missionInfo i)"

abbreviation upd_info :: "('w mission_info \<Rightarrow> 'w mission_info) \<Rightarrow> 'w inner_mission_info \<Rightarrow> 'w inner_mission_info" where
  "upd_info f i \<equiv> i\<lparr>imi_missionInfo := f (imi_missionInfo i)\<rparr>"

section \<open>TaskDataPersistenceMgr\<close>

datatype 'w persist_task = SaveTask "'w inner_mission_info" | DeleteTask int

record 'w persist =
  pm_handler :: bool
  pm_storages :: "int list"
  pm_current :: "int option"
  pm_userId :: int
  pm_submitted :: "(int \<times> 'w persist_task) list"

definition persist_Init :: "bool \<Rightarrow> int \<Rightarrow> 'w persist \<Rightarrow> bool \<times> 'w persist" where
  "persist_Init ffrtHandler userId p =
     (let p1 = (if pm_handler p then p else p\<lparr>pm_handler := ffrtHandler\<rparr>) in
      if \<not> pm_handler p1 then (False, p1)
      else let p2 = (if userId \<notin> set (pm_storages p1)
                     then p1\<lparr>pm_current := Some userId, pm_storages := userId # pm_storages p1\<rparr>
                     else p1\<lparr>pm_current := Some userId\<rparr>)
           in (True, p2\<lparr>pm_userId := userId\<rparr>))"

definition submit :: "'w persist_task \<Rightarrow> 'w persist \<Rightarrow> bool \<times> 'w persist" where
  "submit t p =
     (if \<not> pm_handler p then (False, p)
      else case pm_current p of
        None \<Rightarrow> (False, p)
      | Some u \<Rightarrow> (True, p\<lparr>pm_submitted := pm_submitted p @ [(u, t)]\<rparr>))"

definition persist_SaveMissionInfo :: "'w inner_mission_info \<Rightarrow> 'w persist \<Rightarrow> bool \<times> 'w persist" where
  "persist_SaveMissionInfo i p = submit (SaveTask i) p"

definition persist_DeleteMissionInfo :: "int \<Rightarrow> 'w persist \<Rightarrow> bool \<times> 'w persist" where
  "persist_DeleteMissionInfo i p = submit (DeleteTask i) p"

definition persist_LoadAllMissionInfo ::
  "(int \<Rightarrow> 'w inner_mission_info list option) \<Rightarrow> 'w persist \<Rightarrow> 'w inner_mission_info list option" where
  "persist_LoadAllMissionInfo loaded p = (case pm_current p of None \<Rightarrow> None | Some u \<Rightarrow> loaded u)"

section \<open>MissionInfoMgr\<close>

definition MIN_MISSION_ID :: int where
  "MIN_MISSION_ID = 1"

definition MAX_MISSION_ID :: int where
  "MAX_MISSION_ID = 2147483647"

record 'w mission_info_mgr =
  mim_list :: "'w inner_mission_info list"
  mim_idMap :: "(int, bool) omap"
  mim_current :: int
  mim_persist :: "'w persist option"

function genLoop :: "(int, bool) omap \<Rightarrow> int \<Rightarrow> int option" where
  "genLoop idMap index =
     (if index < MAX_MISSION_ID
      then (if omap_find idMap index = None then Some index else genLoop idMap (index + 1))
      else None)"
  by pat_completeness auto
termination by (relation "measure (\<lambda>(_, index). nat (MAX_MISSION_ID - index))") auto

declare genLoop.simps [simp del]

text \<open>The result is the generated id, or nothing when the loop finds none.\<close>

definition GenerateMissionId :: "'w mission_info_mgr \<Rightarrow> int option \<times> 'w mission_info_mgr" where
  "GenerateMissionId s =
     (let s1 = (if mim_current s = MAX_MISSION_ID then s\<lparr>mim_current := MIN_MISSION_ID\<rparr> else s) in
      case genLoop (mim_idMap s1) (mim_current s1) of
        Some i \<Rightarrow> (Some i, s1\<lparr>mim_idMap := omap_put i False (mim_idMap s1), mim_current := i + 1\<rparr>)
      | None \<Rightarrow> (None, s1))"

definition LoadAllMissionInfo ::
  "(int \<Rightarrow> 'w inner_mission_info list option) \<Rightarrow> 'w mission_info_mgr \<Rightarrow> bool \<times> 'w mission_info_mgr" where
  "LoadAllMissionInfo loaded s =
     (case mim_persist s of
        None \<Rightarrow> (False, s)
      | Some p \<Rightarrow>
          (case persist_LoadAllMissionInfo loaded p of
             None \<Rightarrow> (False, s)
           | Some infos \<Rightarrow>
               let sorted_list = sort_desc info_time (mim_list s @ infos) in
               (True, s\<lparr>mim_list := sorted_list,
                  mim_idMap := fold (\<lambda>i. omap_put (info_id i) True) sorted_list (mim_idMap s)\<rparr>)))"

text \<open>
  \<open>instance\<close> is what \<open>DelayedSingleton<TaskDataPersistenceMgr>::GetInstance\<close> returns; a failing
  storage reader leaves the cleared list and map behind.
\<close>

definition mim_Init ::
  "'w persist option \<Rightarrow> bool \<Rightarrow> (int \<Rightarrow> 'w inner_mission_info list option) \<Rightarrow> int \<Rightarrow>
   'w mission_info_mgr \<Rightarrow> bool \<times> 'w mission_info_mgr" where
  "mim_Init singleton ffrtHandler loaded userId s =
     (let s1 = (case mim_persist s of Some _ \<Rightarrow> s | None \<Rightarrow> s\<lparr>mim_persist := singleton\<rparr>) in
      case mim_persist s1 of
        None \<Rightarrow> (False, s1)
      | Some p \<Rightarrow>
          let (ok, p') = persist_Init ffrtHandler userId p; s2 = s1\<lparr>mim_persist := Some p'\<rparr> in
          if \<not> ok then (False, s2)
          else LoadAllMissionInfo loaded (s2\<lparr>mim_list := [], mim_idMap := []\<rparr>))"

definition AddMissionInfoInner ::
  "'w inner_mission_info \<Rightarrow> 'w mission_info_mgr \<Rightarrow> (bool \<times> 'w mission_info_mgr) cpp" where
  "AddMissionInfoInner i s =
     (if omap_find (mim_idMap s) (info_id i) = Some True then Inr (False, s)
      else cpp_bind (deref (mim_persist s)) (\<lambda>p.
        let (ok, p') = persist_SaveMissionInfo i p; s1 = s\<lparr>mim_persist := Some p'\<rparr> in
        if \<not> ok then Inr (False, s1)
        else Inr (True, s1\<lparr>mim_list := insert_desc info_time i (mim_list s1),
                          mim_idMap := omap_put (info_id i) True (mim_idMap s1)\<rparr>)))"

definition AddMissionInfo ::
  "'w inner_mission_info \<Rightarrow> 'w mission_info_mgr \<Rightarrow> (bool \<times> 'w mission_info_mgr) cpp" where
  "AddMissionInfo i s = AddMissionInfoInner i s"

definition UpdateMissionInfo ::
  "'w inner_mission_info \<Rightarrow> 'w mission_info_mgr \<Rightarrow> (bool \<times> 'w mission_info_mgr) cpp" where
  "UpdateMissionInfo i s =
     (if omap_find (mim_idMap s) (info_id i) = None \<or> omap_find (mim_idMap s) (info_id i) = Some False
      then Inr (False, s)
      else case find (\<lambda>x. info_id x = info_id i) (mim_list s) of
        None \<Rightarrow> Inr (False, s)
      | Some old \<Rightarrow>
          if info_time i = info_time old then
            (let s1 = s\<lparr>mim_list := update_first (\<lambda>x. info_id x = info_id i) (\<lambda>_. i) (mim_list s)\<rparr> in
             cpp_bind (deref (mim_persist s1)) (\<lambda>p.
               let (ok, p') = persist_SaveMissionInfo i p in Inr (ok, s1\<lparr>mim_persist := Some p'\<rparr>)))
          else AddMissionInfoInner i
                 (s\<lparr>mim_list := erase_first (\<lambda>x. info_id x = info_id i) (mim_list s),
                    mim_idMap := omap_erase (info_id i) (mim_idMap s)\<rparr>))"

definition DeleteMissionInfo :: "int \<Rightarrow> 'w mission_info_mgr \<Rightarrow> bool \<times> 'w mission_info_mgr" where
  "DeleteMissionInfo missionId s =
     (case omap_find (mim_idMap s) missionId of
        None \<Rightarrow> (True, s)
      | Some False \<Rightarrow> (True, s\<lparr>mim_idMap := omap_erase missionId (mim_idMap s)\<rparr>)
      | Some True \<Rightarrow>
          (case mim_persist s of
             None \<Rightarrow> (False, s)
           | Some p \<Rightarrow>
               let (ok, p') = persist_DeleteMissionInfo missionId p; s1 = s\<lparr>mim_persist := Some p'\<rparr> in
               if \<not> ok then (False, s1)
               else (True, s1\<lparr>mim_list := erase_first (\<lambda>x. info_id x = missionId) (mim_list s1),
                              mim_idMap := omap_erase missionId (mim_idMap s1)\<rparr>)))"

text \<open>
  \<open>bgTask\<close> is \<open>AbilityManagerService::IsBackgroundTaskUid\<close>.  The loop returns the records kept, the
  id map, the persistence manager and the ids it reported as destroyed; the result of each
  \<open>DeleteMissionInfo\<close> is ignored.
\<close>

definition clearable :: "(int \<Rightarrow> bool) \<Rightarrow> 'w inner_mission_info \<Rightarrow> bool" where
  "clearable bgTask i =
     (let m = imi_missionInfo i; isUnclearable = mi_unclearable m \<and> mi_runningState m = 0
      in \<not> (mi_lockedState m \<or> bgTask (imi_uid i) \<or> isUnclearable))"

primrec deleteAllLoop ::
  "(int \<Rightarrow> bool) \<Rightarrow> 'w inner_mission_info list \<Rightarrow> (int, bool) omap \<Rightarrow> 'w persist \<Rightarrow>
   'w inner_mission_info list \<times> (int, bool) omap \<times> 'w persist \<times> int list" where
  "deleteAllLoop bgTask [] idMap p = ([], idMap, p, [])"
| "deleteAllLoop bgTask (i # is) idMap p =
     (if clearable bgTask i
      then (let (kept, idMap', p', gone) =
              deleteAllLoop bgTask is (omap_erase (info_id i) idMap)
                (snd (persist_DeleteMissionInfo (info_id i) p))
            in (kept, idMap', p', info_id i # gone))
      else (let (kept, idMap', p', gone) = deleteAllLoop bgTask is idMap p
            in (i # kept, idMap', p', gone)))"

definition DeleteAllMissionInfos ::
  "(int \<Rightarrow> bool) \<Rightarrow> bool \<Rightarrow> 'w mission_info_mgr \<Rightarrow> bool \<times> int list \<times> 'w mission_info_mgr" where
  "DeleteAllMissionInfos bgTask hasListener s =
     (case mim_persist s of
        None \<Rightarrow> (False, [], s)
      | Some p \<Rightarrow>
          let (kept, idMap', p', gone) = deleteAllLoop bgTask (mim_list s) (mim_idMap s) p in
          (True, if hasListener then gone else [],
           s\<lparr>mim_list := kept, mim_idMap := idMap', mim_persist := Some p'\<rparr>))"

definition DoesNotShowInTheMissionList :: "('w \<Rightarrow> bool) \<Rightarrow> 'w inner_mission_info \<Rightarrow> bool" where
  "DoesNotShowInTheMissionList callToFg m =
     (let isStartByCall = imi_startMethod m = 1
      in isStartByCall \<and> \<not> callToFg (mi_want (imi_missionInfo m)))"

primrec getInfosLoop ::
  "('w \<Rightarrow> bool) \<Rightarrow> int \<Rightarrow> 'w inner_mission_info list \<Rightarrow> 'w mission_info list \<Rightarrow> 'w mission_info list" where
  "getInfosLoop callToFg numMax [] acc = acc"
| "getInfosLoop callToFg numMax (m # ms) acc =
     (if int (length acc) \<ge> numMax then acc
      else if DoesNotShowInTheMissionList callToFg m then getInfosLoop callToFg numMax ms acc
      else getInfosLoop callToFg numMax ms (acc @ [imi_missionInfo m]))"

definition GetMissionInfos ::
  "('w \<Rightarrow> bool) \<Rightarrow> int \<Rightarrow> 'w mission_info list \<Rightarrow> 'w mission_info_mgr \<Rightarrow> int \<times> 'w mission_info list" where
  "GetMissionInfos callToFg numMax acc s =
     (if numMax < 0 then (-1, acc) else (0, getInfosLoop callToFg numMax (mim_list s) acc))"

text \<open>A negative result leaves the output argument as it was: \<open>None\<close>.\<close>

definition GetMissionInfoById ::
  "('w \<Rightarrow> bool) \<Rightarrow> int \<Rightarrow> 'w mission_info_mgr \<Rightarrow> int \<times> 'w mission_info option" where
  "GetMissionInfoById callToFg missionId s =
     (if omap_find (mim_idMap s) missionId = None then (-1, None)
      else case find (\<lambda>x. info_id x = missionId) (mim_list s) of
        None \<Rightarrow> (-1, None)
      | Some i \<Rightarrow>
          if DoesNotShowInTheMissionList callToFg i then (-1, None) else (0, Some (imi_missionInfo i)))"

text \<open>\<open>notFound\<close> is the error code \<open>MISSION_NOT_FOUND\<close>.\<close>

definition GetInnerMissionInfoById ::
  "int \<Rightarrow> int \<Rightarrow> 'w mission_info_mgr \<Rightarrow> int \<times> 'w inner_mission_info option" where
  "GetInnerMissionInfoById notFound missionId s =
     (if omap_find (mim_idMap s) missionId = None then (notFound, None)
      else case find (\<lambda>x. info_id x = missionId) (mim_list s) of
        None \<Rightarrow> (notFound, None)
      | Some i \<Rightarrow> (0, Some i))"

text \<open>\<open>modeInt\<close> gives the integer of a \<open>LaunchMode\<close> enumerator of the bundle framework.\<close>

definition reusable ::
  "(launch_mode \<Rightarrow> int) \<Rightarrow> string \<Rightarrow> string \<Rightarrow> bool \<Rightarrow> 'w inner_mission_info \<Rightarrow> bool" where
  "reusable modeInt missionName flag isFindRecentStandard item =
     (if missionName \<noteq> imi_missionName item then False
      else if isFindRecentStandard \<and> imi_launchMode item = modeInt STANDARD then True
      else if imi_launchMode item = modeInt SINGLETON then True
      else if imi_launchMode item = modeInt SPECIFIED then flag = imi_specifiedFlag item
      else False)"

definition FindReusedMissionInfo ::
  "(launch_mode \<Rightarrow> int) \<Rightarrow> string \<Rightarrow> string \<Rightarrow> bool \<Rightarrow> 'w mission_info_mgr \<Rightarrow> 'w inner_mission_info option" where
  "FindReusedMissionInfo modeInt missionName flag isFindRecentStandard s =
     (if missionName = '''' then None
      else find (reusable modeInt missionName flag isFindRecentStandard) (mim_list s))"

definition UpdateMissionContinueState :: "int \<Rightarrow> int \<Rightarrow> 'w mission_info_mgr \<Rightarrow> int \<times> 'w mission_info_mgr" where
  "UpdateMissionContinueState missionId state s =
     (if missionId \<le> 0 then (-1, s)
      else if find (\<lambda>x. missionId = info_id x) (mim_list s) = None then (-1, s)
      else (0, s\<lparr>mim_list := update_first (\<lambda>x. missionId = info_id x)
                   (upd_info (\<lambda>m. m\<lparr>mi_continueState := state\<rparr>)) (mim_list s)\<rparr>))"

definition UpdateMissionLabel :: "int \<Rightarrow> string \<Rightarrow> 'w mission_info_mgr \<Rightarrow> int \<times> 'w mission_info_mgr" where
  "UpdateMissionLabel missionId label s =
     (case mim_persist s of
        None \<Rightarrow> (-1, s)
      | Some p \<Rightarrow>
          (case find (\<lambda>x. missionId = info_id x) (mim_list s) of
             None \<Rightarrow> (-1, s)
           | Some i \<Rightarrow>
               let i' = upd_info (\<lambda>m. m\<lparr>mi_label := label\<rparr>) i;
                   s1 = s\<lparr>mim_list := update_first (\<lambda>x. missionId = info_id x) (\<lambda>_. i') (mim_list s)\<rparr>;
                   (ok, p') = persist_SaveMissionInfo i' p
               in (if ok then 0 else -1, s1\<lparr>mim_persist := Some p'\<rparr>)))"

definition SetMissionAbilityState :: "int \<Rightarrow> int \<Rightarrow> 'w mission_info_mgr \<Rightarrow> 'w mission_info_mgr" where
  "SetMissionAbilityState missionId state s =
     (if missionId \<le> 0 then s
      else s\<lparr>mim_list := update_first (\<lambda>x. missionId = info_id x)
                   (upd_info (\<lambda>m. m\<lparr>mi_abilityState := state\<rparr>)) (mim_list s)\<rparr>)"

definition GetMatchedMission :: "string \<Rightarrow> int \<Rightarrow> 'w mission_info_mgr \<Rightarrow> int list \<Rightarrow> int list" where
  "GetMatchedMission bundleName uid s missions =
     missions @ map info_id (filter (\<lambda>i. imi_bundleName i = bundleName \<and> imi_uid i = uid) (mim_list s))"

definition mim_HandleUnInstallApp ::
  "string \<Rightarrow> int \<Rightarrow> int list \<Rightarrow> 'w mission_info_mgr \<Rightarrow> int list \<times> 'w mission_info_mgr" where
  "mim_HandleUnInstallApp bundleName uid missions s =
     (let missions' = GetMatchedMission bundleName uid s missions in
      if missions' = [] then (missions', s)
      else (missions', fold (\<lambda>missionId st. snd (DeleteMissionInfo missionId st)) missions' s))"

section \<open>The invariant\<close>

text \<open>
  The list is ordered by time, latest first, and holds one record per id; the ids marked saved are
  exactly those of the list; the next id to try is a positive \<open>int32_t\<close>.
\<close>

definition mim_inv :: "'w mission_info_mgr \<Rightarrow> bool" where
  "mim_inv s \<longleftrightarrow>
     omap_inv (mim_idMap s) \<and> desc_by info_time (mim_list s) \<and> distinct (map info_id (mim_list s)) \<and>
     (\<forall>i. omap_find (mim_idMap s) i = Some True \<longleftrightarrow> i \<in> info_id ` set (mim_list s)) \<and>
     MIN_MISSION_ID \<le> mim_current s \<and> mim_current s \<le> MAX_MISSION_ID"

lemma mim_invI [intro?]:
  assumes "omap_inv (mim_idMap s)" "desc_by info_time (mim_list s)" "distinct (map info_id (mim_list s))"
    "\<And>i. omap_find (mim_idMap s) i = Some True \<longleftrightarrow> i \<in> info_id ` set (mim_list s)"
    "MIN_MISSION_ID \<le> mim_current s" "mim_current s \<le> MAX_MISSION_ID"
  shows "mim_inv s"
  using assms by (simp add: mim_inv_def)

lemma mim_invD:
  assumes "mim_inv s"
  shows "omap_inv (mim_idMap s)" "desc_by info_time (mim_list s)" "distinct (map info_id (mim_list s))"
    "omap_find (mim_idMap s) i = Some True \<longleftrightarrow> i \<in> info_id ` set (mim_list s)"
    "MIN_MISSION_ID \<le> mim_current s" "mim_current s \<le> MAX_MISSION_ID"
  using assms by (simp_all add: mim_inv_def)

lemma mim_inv_persist [simp]: "mim_inv (s\<lparr>mim_persist := p\<rparr>) \<longleftrightarrow> mim_inv s"
  by (simp add: mim_inv_def)

text \<open>A rewrite of one record that keeps its id and time keeps the invariant.\<close>

lemma mim_inv_update_first:
  assumes "mim_inv s"
    and "\<And>x. x \<in> set (mim_list s) \<Longrightarrow> p x \<Longrightarrow> info_id (f x) = info_id x \<and> info_time (f x) = info_time x"
  shows "mim_inv (s\<lparr>mim_list := update_first p f (mim_list s)\<rparr>)"
proof -
  have ids: "map info_id (update_first p f (mim_list s)) = map info_id (mim_list s)"
    and times: "map info_time (update_first p f (mim_list s)) = map info_time (mim_list s)"
    using assms(2) by (auto intro: map_update_first)
  have "sorted_wrt (\<ge>) (map info_time (mim_list s))" using mim_invD(2) [OF assms(1)] by (simp add: sorted_wrt_map)
  then have "sorted_wrt (\<ge>) (map info_time (update_first p f (mim_list s)))" by (simp only: times)
  then have "desc_by info_time (update_first p f (mim_list s))" by (simp add: sorted_wrt_map)
  moreover have "info_id ` set (update_first p f (mim_list s)) = info_id ` set (mim_list s)"
    using ids by (metis list.set_map)
  ultimately show ?thesis using assms(1) ids by (simp add: mim_inv_def)
qed

lemma mim_inv_erase:
  assumes "mim_inv s"
  shows "mim_inv (s\<lparr>mim_list := erase_first (\<lambda>x. info_id x = i) (mim_list s),
                    mim_idMap := omap_erase i (mim_idMap s)\<rparr>)"
proof -
  have eq: "erase_first (\<lambda>x. info_id x = i) (mim_list s) = filter (\<lambda>x. info_id x \<noteq> i) (mim_list s)"
    using mim_invD(3) [OF assms] by (rule erase_first_filter) simp
  show ?thesis
  proof (rule mim_invI; (unfold eq)?)
    fix j
    show "omap_find (mim_idMap (s\<lparr>mim_list := filter (\<lambda>x. info_id x \<noteq> i) (mim_list s),
            mim_idMap := omap_erase i (mim_idMap s)\<rparr>)) j = Some True \<longleftrightarrow>
          j \<in> info_id ` set (mim_list (s\<lparr>mim_list := filter (\<lambda>x. info_id x \<noteq> i) (mim_list s),
            mim_idMap := omap_erase i (mim_idMap s)\<rparr>))"
      using mim_invD(4) [OF assms, of j] by (auto simp: find_omap_erase)
  qed (use mim_invD [OF assms] in \<open>simp_all add: omap_inv_erase sorted_wrt_filter distinct_map_filter\<close>)
qed

lemma mim_not_saved: "mim_inv s \<Longrightarrow> omap_find (mim_idMap s) i = None \<Longrightarrow> i \<notin> info_id ` set (mim_list s)"
  using mim_invD(4) [of s i] by auto

lemma mim_inv_insert:
  assumes "mim_inv s" and "omap_find (mim_idMap s) (info_id i) \<noteq> Some True"
  shows "mim_inv (s\<lparr>mim_list := insert_desc info_time i (mim_list s),
                    mim_idMap := omap_put (info_id i) True (mim_idMap s)\<rparr>)"
  using assms
  by (auto simp: mim_inv_def find_omap_put omap_inv_put desc_insert_desc distinct_map_insert_desc)

section \<open>Identifiers\<close>

lemma genLoop_Some:
  "genLoop m k = Some i \<Longrightarrow> k \<le> i \<and> i < MAX_MISSION_ID \<and> omap_find m i = None \<and>
     (\<forall>j. k \<le> j \<longrightarrow> j < i \<longrightarrow> omap_find m j \<noteq> None)"
proof (induction m k rule: genLoop.induct)
  case (1 m k)
  then show ?case
    by (subst (asm) (2) genLoop.simps)
      (auto split: if_splits, metis int_one_le_iff_zero_less not_le order.order_iff_strict zle_diff1_eq zless_imp_add1_zle)
qed

lemma genLoop_None: "genLoop m k = None \<longleftrightarrow> (\<forall>j. k \<le> j \<longrightarrow> j < MAX_MISSION_ID \<longrightarrow> omap_find m j \<noteq> None)"
proof (induction m k rule: genLoop.induct)
  case (1 m k)
  show ?case
  proof (cases "k < MAX_MISSION_ID \<and> omap_find m k \<noteq> None")
    case True
    have "(\<forall>j. k \<le> j \<longrightarrow> j < MAX_MISSION_ID \<longrightarrow> omap_find m j \<noteq> None) \<longleftrightarrow>
          (\<forall>j. k + 1 \<le> j \<longrightarrow> j < MAX_MISSION_ID \<longrightarrow> omap_find m j \<noteq> None)"
      using True by (metis order.order_iff_strict zless_imp_add1_zle add1_zle_eq)
    moreover have "genLoop m k = genLoop m (k + 1)" using True by (subst genLoop.simps) auto
    ultimately show ?thesis using True 1 by (simp only:) blast
  next
    case False
    then show ?thesis by (auto simp: genLoop.simps [of m k])
  qed
qed

definition genStart :: "'w mission_info_mgr \<Rightarrow> int" where
  "genStart s = (if mim_current s = MAX_MISSION_ID then MIN_MISSION_ID else mim_current s)"

lemma GenerateMissionId_eq:
  "GenerateMissionId s =
     (case genLoop (mim_idMap s) (genStart s) of
        Some i \<Rightarrow> (Some i, s\<lparr>mim_idMap := omap_put i False (mim_idMap s), mim_current := i + 1\<rparr>)
      | None \<Rightarrow> (None, s\<lparr>mim_current := genStart s\<rparr>))"
  by (simp add: GenerateMissionId_def genStart_def Let_def split: option.split)

lemma genStart_bounds: "mim_inv s \<Longrightarrow> MIN_MISSION_ID \<le> genStart s \<and> genStart s < MAX_MISSION_ID"
  using mim_invD(5,6) [of s] by (auto simp: genStart_def MIN_MISSION_ID_def MAX_MISSION_ID_def)

lemma GenerateMissionId_inv:
  assumes "mim_inv s"
  shows "mim_inv (snd (GenerateMissionId s))"
proof (cases "genLoop (mim_idMap s) (genStart s)")
  case None
  with assms genStart_bounds [OF assms] show ?thesis by (simp add: GenerateMissionId_eq mim_inv_def)
next
  case (Some i)
  then have "omap_find (mim_idMap s) i = None" and "genStart s \<le> i" and "i < MAX_MISSION_ID"
    by (auto dest: genLoop_Some)
  moreover from this(1) have "i \<notin> info_id ` set (mim_list s)" by (rule mim_not_saved [OF assms])
  ultimately show ?thesis using Some assms genStart_bounds [OF assms]
    by (auto simp: GenerateMissionId_eq mim_inv_def find_omap_put omap_inv_put)
qed

section \<open>Lookup in the list\<close>

definition stored :: "'w mission_info_mgr \<Rightarrow> int \<Rightarrow> 'w inner_mission_info option" where
  "stored s k = find (\<lambda>x. info_id x = k) (mim_list s)"

lemma stored_upd [simp]:
  "stored (s\<lparr>mim_idMap := m\<rparr>) = stored s"
  "stored (s\<lparr>mim_current := c\<rparr>) = stored s"
  "stored (s\<lparr>mim_persist := p\<rparr>) = stored s"
  by (simp_all add: stored_def fun_eq_iff)

lemma find_id_Some_iff:
  "distinct (map info_id xs) \<Longrightarrow> find (\<lambda>x. info_id x = k) xs = Some i \<longleftrightarrow> i \<in> set xs \<and> info_id i = k"
  by (auto dest: find_SomeD intro: find_Some_if_distinct)

lemma find_id_cong:
  assumes "distinct (map info_id xs)" "distinct (map info_id ys)" "set xs = set ys"
  shows "find (\<lambda>x. info_id x = k) xs = find (\<lambda>x. info_id x = k) ys"
proof (cases "find (\<lambda>x. info_id x = k) xs")
  case None
  then have "find (\<lambda>x. info_id x = k) ys = None" unfolding find_None_conv assms(3) .
  with None show ?thesis by simp
next
  case (Some i)
  then have "find (\<lambda>x. info_id x = k) ys = Some i"
    unfolding find_id_Some_iff [OF assms(1)] find_id_Some_iff [OF assms(2)] assms(3) .
  with Some show ?thesis by simp
qed

lemma stored_Some_iff: "mim_inv s \<Longrightarrow> stored s k = Some i \<longleftrightarrow> i \<in> set (mim_list s) \<and> info_id i = k"
  by (simp add: stored_def find_id_Some_iff mim_invD(3))

lemma stored_None_iff: "stored s k = None \<longleftrightarrow> k \<notin> info_id ` set (mim_list s)"
  by (auto simp: stored_def find_None_conv)

lemma stored_iff_saved: "mim_inv s \<Longrightarrow> stored s k \<noteq> None \<longleftrightarrow> omap_find (mim_idMap s) k = Some True"
  by (simp add: stored_None_iff mim_invD(4))

lemma find_insert_desc:
  "info_id i \<notin> info_id ` set xs \<Longrightarrow>
     find (\<lambda>x. info_id x = k) (insert_desc info_time i xs) =
       (if k = info_id i then Some i else find (\<lambda>x. info_id x = k) xs)"
  by (induction xs) auto

lemma find_erase_first_id:
  "distinct (map info_id xs) \<Longrightarrow>
     find (\<lambda>x. info_id x = k) (erase_first (\<lambda>x. info_id x = j) xs) =
       (if k = j then None else find (\<lambda>x. info_id x = k) xs)"
proof (induction xs)
  case (Cons x xs)
  from Cons.prems have "\<forall>y\<in>set xs. info_id y \<noteq> info_id x" by (auto simp: image_iff)
  then have none: "find (\<lambda>y. info_id y = info_id x) xs = None" by (simp add: find_None_conv)
  show ?case
  proof (cases "info_id x = j")
    case True
    with none show ?thesis by auto
  next
    case False
    with Cons.IH Cons.prems show ?thesis by (cases "k = j") simp_all
  qed
qed simp

lemma find_update_first_id:
  "(\<And>x. x \<in> set xs \<Longrightarrow> info_id x = j \<Longrightarrow> info_id (f x) = j) \<Longrightarrow>
     find (\<lambda>x. info_id x = k) (update_first (\<lambda>x. info_id x = j) f xs) =
       (if k = j then map_option f (find (\<lambda>x. info_id x = j) xs) else find (\<lambda>x. info_id x = k) xs)"
  by (induction xs) auto

lemma eq_id_commute: "(\<lambda>x. missionId = info_id x) = (\<lambda>x. info_id x = missionId)"
  by auto

section \<open>What the files hold\<close>

text \<open>
  A save writes the file named after the id and a delete removes it
  (\<open>MissionDataStorage::SaveMissionInfo\<close> and \<open>DeleteMissionInfo\<close>); \<open>files base u p\<close> is the content of
  user \<open>u\<close> when the submitted tasks have run on the files \<open>base\<close>.
\<close>

primrec runTask :: "'w persist_task \<Rightarrow> (int \<rightharpoonup> 'w inner_mission_info) \<Rightarrow> (int \<rightharpoonup> 'w inner_mission_info)" where
  "runTask (SaveTask i) m = m(info_id i \<mapsto> i)"
| "runTask (DeleteTask k) m = m(k := None)"

definition files ::
  "(int \<rightharpoonup> 'w inner_mission_info) \<Rightarrow> int \<Rightarrow> 'w persist \<Rightarrow> (int \<rightharpoonup> 'w inner_mission_info)" where
  "files base u p = fold (\<lambda>(v, t) m. if v = u then runTask t m else m) (pm_submitted p) base"

definition ready :: "'w persist \<Rightarrow> bool" where
  "ready p \<longleftrightarrow> pm_handler p \<and> pm_current p \<noteq> None"

lemma submit_ready:
  "ready p \<Longrightarrow> submit t p = (True, p\<lparr>pm_submitted := pm_submitted p @ [(the (pm_current p), t)]\<rparr>)"
  by (auto simp: ready_def submit_def)

lemma submit_keeps: "ready (snd (submit t p)) \<longleftrightarrow> ready p" "pm_current (snd (submit t p)) = pm_current p"
  by (auto simp: ready_def submit_def split: option.splits)

lemma files_submit:
  "ready p \<Longrightarrow> files base (the (pm_current p)) (snd (submit t p)) =
     runTask t (files base (the (pm_current p)) p)"
  by (simp add: submit_ready files_def)

text \<open>
  \<open>UpdateMissionContinueState\<close> and \<open>SetMissionAbilityState\<close> write their field in memory only; up to
  these two fields the files agree with the list.
\<close>

definition persistView :: "'w inner_mission_info \<Rightarrow> 'w inner_mission_info" where
  "persistView i = upd_info (\<lambda>m. m\<lparr>mi_continueState := 0, mi_abilityState := 0\<rparr>) i"

lemma persistView_upd [simp]:
  "persistView (upd_info (\<lambda>m. m\<lparr>mi_continueState := c\<rparr>) i) = persistView i"
  "persistView (upd_info (\<lambda>m. m\<lparr>mi_abilityState := c\<rparr>) i) = persistView i"
  by (simp_all add: persistView_def)

definition synced :: "(int \<rightharpoonup> 'w inner_mission_info) \<Rightarrow> 'w mission_info_mgr \<Rightarrow> bool" where
  "synced base s \<longleftrightarrow>
     (case mim_persist s of None \<Rightarrow> False
      | Some p \<Rightarrow> ready p \<and>
          (\<forall>k. map_option persistView (files base (the (pm_current p)) p k) = map_option persistView (stored s k)))"

lemma syncedE:
  assumes "synced base s"
  obtains p where "mim_persist s = Some p" "ready p"
    "\<And>k. map_option persistView (files base (the (pm_current p)) p k) = map_option persistView (stored s k)"
  using assms by (auto simp: synced_def split: option.splits)

lemma synced_submit:
  assumes "mim_persist s = Some p" "ready p" "mim_persist s' = Some (snd (submit t p))"
    and "\<And>k. map_option persistView (runTask t (files base (the (pm_current p)) p) k) =
               map_option persistView (stored s' k)"
  shows "synced base s'"
  using assms by (simp add: synced_def submit_keeps files_submit)

lemma synced_same:
  assumes "synced base s" "mim_persist s' = mim_persist s"
    and "\<And>k. map_option persistView (stored s' k) = map_option persistView (stored s k)"
  shows "synced base s'"
  using assms by (auto simp: synced_def split: option.splits)

section \<open>Every operation keeps the invariant and the agreement with the files\<close>

definition mim_ok :: "(int \<rightharpoonup> 'w inner_mission_info) \<Rightarrow> 'w mission_info_mgr \<Rightarrow> bool" where
  "mim_ok base s \<longleftrightarrow> mim_inv s \<and> synced base s"

lemma AddMissionInfoInner_ok:
  assumes inv: "mim_inv s" and p: "mim_persist s = Some p" "ready p"
    and fresh: "omap_find (mim_idMap s) (info_id i) \<noteq> Some True"
  shows "AddMissionInfoInner i s =
      Inr (True, s\<lparr>mim_list := insert_desc info_time i (mim_list s),
                   mim_idMap := omap_put (info_id i) True (mim_idMap s),
                   mim_persist := Some (snd (submit (SaveTask i) p))\<rparr>)"
  using p fresh
  by (simp add: AddMissionInfoInner_def persist_SaveMissionInfo_def submit_ready Let_def)

lemma stored_insert:
  "mim_inv s \<Longrightarrow> omap_find (mim_idMap s) (info_id i) \<noteq> Some True \<Longrightarrow>
     stored (s\<lparr>mim_list := insert_desc info_time i (mim_list s)\<rparr>) = (stored s)(info_id i \<mapsto> i)"
  by (auto simp: stored_def fun_eq_iff find_insert_desc mim_invD(4))

lemma stored_erase:
  "mim_inv s \<Longrightarrow>
     stored (s\<lparr>mim_list := erase_first (\<lambda>x. info_id x = k) (mim_list s)\<rparr>) = (stored s)(k := None)"
  by (auto simp: stored_def fun_eq_iff find_erase_first_id mim_invD(3))

lemma stored_update:
  "(\<And>x. info_id x = k \<Longrightarrow> info_id (f x) = k) \<Longrightarrow>
     stored (s\<lparr>mim_list := update_first (\<lambda>x. info_id x = k) f (mim_list s)\<rparr>) =
       (stored s)(k := map_option f (stored s k))"
  by (auto simp: stored_def fun_eq_iff find_update_first_id)

lemma mim_okE:
  assumes "mim_ok base s"
  obtains p where "mim_inv s" "mim_persist s = Some p" "ready p"
    "\<And>k. map_option persistView (files base (the (pm_current p)) p k) = map_option persistView (stored s k)"
  using assms by (auto simp: mim_ok_def elim: syncedE)

lemma AddMissionInfoInner_mim_ok:
  assumes "mim_ok base s"
  shows "\<exists>b s'. AddMissionInfoInner i s = Inr (b, s') \<and> mim_ok base s'"
proof (cases "omap_find (mim_idMap s) (info_id i) = Some True")
  case True
  with assms show ?thesis by (auto simp: AddMissionInfoInner_def)
next
  case False
  from assms obtain p where p: "mim_inv s" "mim_persist s = Some p" "ready p"
    "\<And>k. map_option persistView (files base (the (pm_current p)) p k) = map_option persistView (stored s k)"
    by (rule mim_okE) blast
  let ?s = "s\<lparr>mim_list := insert_desc info_time i (mim_list s),
              mim_idMap := omap_put (info_id i) True (mim_idMap s),
              mim_persist := Some (snd (submit (SaveTask i) p))\<rparr>"
  have "synced base ?s"
    by (rule synced_submit [OF p(2,3), where t = "SaveTask i"]) (use stored_insert [OF p(1) False] p(4) in simp_all)
  moreover have "mim_inv ?s" using mim_inv_insert [OF p(1) False] by (simp add: mim_inv_def)
  ultimately show ?thesis using AddMissionInfoInner_ok [OF p(1,2,3) False] by (auto simp: mim_ok_def)
qed

lemma DeleteMissionInfo_saved:
  assumes "mim_persist s = Some p" "ready p" "omap_find (mim_idMap s) k = Some True"
  shows "DeleteMissionInfo k s =
     (True, s\<lparr>mim_list := erase_first (\<lambda>x. info_id x = k) (mim_list s),
              mim_idMap := omap_erase k (mim_idMap s), mim_persist := Some (snd (submit (DeleteTask k) p))\<rparr>)"
  using assms by (simp add: DeleteMissionInfo_def persist_DeleteMissionInfo_def submit_ready)

lemma DeleteMissionInfo_mim_ok:
  assumes "mim_ok base s"
  shows "mim_ok base (snd (DeleteMissionInfo k s))"
proof -
  from assms obtain p where p: "mim_inv s" "mim_persist s = Some p" "ready p"
    "\<And>k. map_option persistView (files base (the (pm_current p)) p k) = map_option persistView (stored s k)"
    by (rule mim_okE) blast
  show ?thesis
  proof (cases "omap_find (mim_idMap s) k")
    case None
    with assms show ?thesis by (simp add: DeleteMissionInfo_def)
  next
    case (Some saved)
    show ?thesis
    proof (cases saved)
      case True
      let ?s = "s\<lparr>mim_list := erase_first (\<lambda>x. info_id x = k) (mim_list s),
                  mim_idMap := omap_erase k (mim_idMap s), mim_persist := Some (snd (submit (DeleteTask k) p))\<rparr>"
      have "synced base ?s"
        by (rule synced_submit [OF p(2,3), where t = "DeleteTask k"]) (use stored_erase [OF p(1)] p(4) in simp_all)
      moreover have "mim_inv ?s" using mim_inv_erase [OF p(1), of k] by (simp add: mim_inv_def)
      ultimately show ?thesis
        using Some True DeleteMissionInfo_saved [OF p(2,3)] by (simp add: mim_ok_def)
    next
      case False
      have "mim_inv (s\<lparr>mim_idMap := omap_erase k (mim_idMap s)\<rparr>)"
        using p(1) Some False mim_invD(4) [OF p(1), of k]
        by (auto simp: mim_inv_def find_omap_erase omap_inv_erase simp del: image_iff)
      moreover have "synced base (s\<lparr>mim_idMap := omap_erase k (mim_idMap s)\<rparr>)"
        using assms by (auto simp: mim_ok_def intro: synced_same)
      ultimately show ?thesis using Some False by (simp add: DeleteMissionInfo_def mim_ok_def)
    qed
  qed
qed

text \<open>Erasing a record without the file operation is what the second half of an update repairs.\<close>

lemma UpdateMissionInfo_same_time:
  assumes "mim_ok base s" and "stored s (info_id i) = Some old" and "info_time i = info_time old"
  shows "\<exists>s'. UpdateMissionInfo i s = Inr (True, s') \<and> mim_ok base s' \<and> stored s' = (stored s)(info_id i \<mapsto> i)"
proof -
  from assms obtain p where p: "mim_inv s" "mim_persist s = Some p" "ready p"
    "\<And>k. map_option persistView (files base (the (pm_current p)) p k) = map_option persistView (stored s k)"
    by (auto elim: mim_okE)
  let ?s = "s\<lparr>mim_list := update_first (\<lambda>x. info_id x = info_id i) (\<lambda>_. i) (mim_list s),
              mim_persist := Some (snd (submit (SaveTask i) p))\<rparr>"
  have st: "stored ?s = (stored s)(info_id i \<mapsto> i)"
    using stored_update [where f = "\<lambda>_. i"] assms(2) by simp
  have "synced base ?s"
    by (rule synced_submit [OF p(2,3), where t = "SaveTask i"]) (use st p(4) in simp_all)
  moreover have "mim_inv ?s"
  proof -
    have "info_time x = info_time i" if "x \<in> set (mim_list s)" "info_id x = info_id i" for x
      using that assms(2,3) stored_Some_iff [OF p(1)] by (metis option.inject)
    then have "mim_inv (s\<lparr>mim_list := update_first (\<lambda>x. info_id x = info_id i) (\<lambda>_. i) (mim_list s)\<rparr>)"
      by (intro mim_inv_update_first [OF p(1)]) auto
    then show ?thesis by (simp add: mim_inv_def)
  qed
  moreover have "omap_find (mim_idMap s) (info_id i) = Some True"
    using stored_iff_saved [OF p(1), of "info_id i"] assms(2) by simp
  ultimately show ?thesis
    using assms(2,3) p(2,3) st
    by (simp add: UpdateMissionInfo_def stored_def persist_SaveMissionInfo_def submit_ready mim_ok_def Let_def)
qed

lemma UpdateMissionInfo_new_time:
  assumes "mim_ok base s" and "stored s (info_id i) = Some old" and "info_time i \<noteq> info_time old"
  shows "\<exists>s'. UpdateMissionInfo i s = Inr (True, s') \<and> mim_ok base s' \<and> stored s' = (stored s)(info_id i \<mapsto> i)"
proof -
  from assms obtain p where p: "mim_inv s" "mim_persist s = Some p" "ready p"
    "\<And>k. map_option persistView (files base (the (pm_current p)) p k) = map_option persistView (stored s k)"
    by (auto elim: mim_okE)
  let ?e = "s\<lparr>mim_list := erase_first (\<lambda>x. info_id x = info_id i) (mim_list s),
              mim_idMap := omap_erase (info_id i) (mim_idMap s)\<rparr>"
  have inv: "mim_inv ?e" using p(1) by (rule mim_inv_erase)
  have fresh: "omap_find (mim_idMap ?e) (info_id i) \<noteq> Some True" by (simp add: find_omap_erase)
  let ?s = "?e\<lparr>mim_list := insert_desc info_time i (mim_list ?e),
              mim_idMap := omap_put (info_id i) True (mim_idMap ?e),
              mim_persist := Some (snd (submit (SaveTask i) p))\<rparr>"
  have add: "AddMissionInfoInner i ?e = Inr (True, ?s)"
    by (rule AddMissionInfoInner_ok [OF inv _ p(3) fresh]) (simp add: p(2))
  have st: "stored ?s = (stored s)(info_id i \<mapsto> i)"
    using stored_insert [OF inv fresh] stored_erase [OF p(1), of "info_id i"]
    unfolding stored_def by (simp add: fun_eq_iff)
  have "synced base ?s"
    by (rule synced_submit [OF p(2,3), where t = "SaveTask i"]) (use st p(4) in simp_all)
  moreover have "mim_inv ?s" using mim_inv_insert [OF inv fresh] by (simp add: mim_inv_def)
  moreover have "omap_find (mim_idMap s) (info_id i) = Some True"
    using stored_iff_saved [OF p(1), of "info_id i"] assms(2) by simp
  ultimately show ?thesis
    using assms(2,3) add st by (simp add: UpdateMissionInfo_def stored_def mim_ok_def)
qed

lemma UpdateMissionInfo_absent:
  "stored s (info_id i) = None \<Longrightarrow> UpdateMissionInfo i s = Inr (False, s)"
  by (simp add: UpdateMissionInfo_def stored_def)

lemma UpdateMissionInfo_mim_ok:
  assumes "mim_ok base s"
  shows "\<exists>b s'. UpdateMissionInfo i s = Inr (b, s') \<and> mim_ok base s'"
proof (cases "stored s (info_id i)")
  case None
  with assms show ?thesis by (auto simp: UpdateMissionInfo_absent)
next
  case (Some old)
  with assms UpdateMissionInfo_same_time UpdateMissionInfo_new_time show ?thesis
    by (cases "info_time i = info_time old") blast+
qed

subsection \<open>Deleting all clearable missions\<close>

definition goneIds :: "(int \<Rightarrow> bool) \<Rightarrow> 'w inner_mission_info list \<Rightarrow> int list" where
  "goneIds bgTask is = map info_id (filter (clearable bgTask) is)"

definition submitDeletes :: "int list \<Rightarrow> 'w persist \<Rightarrow> 'w persist" where
  "submitDeletes ks p = fold (\<lambda>k p. snd (submit (DeleteTask k) p)) ks p"

lemma deleteAllLoop_eq:
  "deleteAllLoop bgTask is m p =
     (filter (\<lambda>i. \<not> clearable bgTask i) is, fold omap_erase (goneIds bgTask is) m,
      submitDeletes (goneIds bgTask is) p, goneIds bgTask is)"
  by (induction "is" arbitrary: m p) (simp_all add: goneIds_def submitDeletes_def persist_DeleteMissionInfo_def)

lemma fold_omap_erase:
  "omap_find (fold omap_erase ks m) k = (if k \<in> set ks then None else omap_find m k)"
  "omap_inv m \<Longrightarrow> omap_inv (fold omap_erase ks m)"
  by (induction ks arbitrary: m) (auto simp: find_omap_erase omap_inv_erase)

lemma submitDeletes_keeps:
  "ready (submitDeletes ks p) \<longleftrightarrow> ready p" "pm_current (submitDeletes ks p) = pm_current p"
  by (induction ks arbitrary: p) (simp_all add: submitDeletes_def submit_keeps)

lemma files_submitDeletes:
  "ready p \<Longrightarrow> files base (the (pm_current p)) (submitDeletes ks p) k =
     (if k \<in> set ks then None else files base (the (pm_current p)) p k)"
proof (induction ks arbitrary: p)
  case (Cons x ks)
  then show ?case
    using Cons.IH [of "snd (submit (DeleteTask x) p)"]
    by (simp add: submitDeletes_def submit_keeps files_submit)
qed (simp add: submitDeletes_def)

lemma set_goneIds:
  "distinct (map info_id is) \<Longrightarrow> i \<in> set is \<Longrightarrow> info_id i \<in> set (goneIds bgTask is) \<longleftrightarrow> clearable bgTask i"
  unfolding goneIds_def by (auto simp: distinct_map inj_on_def)

lemma DeleteAllMissionInfos_inv:
  assumes "mim_inv s"
  shows "mim_inv (s\<lparr>mim_list := filter (\<lambda>i. \<not> clearable bgTask i) (mim_list s),
                    mim_idMap := fold omap_erase (goneIds bgTask (mim_list s)) (mim_idMap s)\<rparr>)"
proof (rule mim_invI)
  fix k
  have "k \<in> info_id ` set (filter (\<lambda>i. \<not> clearable bgTask i) (mim_list s)) \<longleftrightarrow>
        k \<in> info_id ` set (mim_list s) \<and> k \<notin> set (goneIds bgTask (mim_list s))"
    using set_goneIds [OF mim_invD(3) [OF assms], of _ bgTask] by auto
  then show "omap_find (mim_idMap (s\<lparr>mim_list := filter (\<lambda>i. \<not> clearable bgTask i) (mim_list s),
            mim_idMap := fold omap_erase (goneIds bgTask (mim_list s)) (mim_idMap s)\<rparr>)) k = Some True \<longleftrightarrow>
        k \<in> info_id ` set (mim_list (s\<lparr>mim_list := filter (\<lambda>i. \<not> clearable bgTask i) (mim_list s),
            mim_idMap := fold omap_erase (goneIds bgTask (mim_list s)) (mim_idMap s)\<rparr>))"
    using mim_invD(4) [OF assms, of k] by (simp add: fold_omap_erase)
qed (use mim_invD [OF assms] in \<open>simp_all add: fold_omap_erase sorted_wrt_filter distinct_map_filter\<close>)

lemma DeleteAllMissionInfos_mim_ok:
  assumes "mim_ok base s"
  shows "mim_ok base (snd (snd (DeleteAllMissionInfos bgTask hasListener s)))"
proof -
  from assms obtain p where p: "mim_inv s" "mim_persist s = Some p" "ready p"
    "\<And>k. map_option persistView (files base (the (pm_current p)) p k) = map_option persistView (stored s k)"
    by (rule mim_okE) blast
  let ?gone = "goneIds bgTask (mim_list s)"
  let ?t = "s\<lparr>mim_list := filter (\<lambda>i. \<not> clearable bgTask i) (mim_list s),
              mim_idMap := fold omap_erase ?gone (mim_idMap s)\<rparr>"
  let ?s = "?t\<lparr>mim_persist := Some (submitDeletes ?gone p)\<rparr>"
  have inv: "mim_inv ?t" using p(1) by (rule DeleteAllMissionInfos_inv)
  have st: "stored ?t k = (if k \<in> set ?gone then None else stored s k)" for k
  proof (cases "k \<in> set ?gone")
    case True
    then show ?thesis
      using set_goneIds [OF mim_invD(3) [OF p(1)], of _ bgTask] by (auto simp: stored_None_iff)
  next
    case False
    then have "stored ?t k = Some i \<longleftrightarrow> stored s k = Some i" for i
      using set_goneIds [OF mim_invD(3) [OF p(1)], of i bgTask]
      by (auto simp: stored_def find_id_Some_iff mim_invD(3) [OF p(1)] distinct_map_filter)
    with False show ?thesis by (metis not_Some_eq)
  qed
  have "synced base ?s"
    using p st by (simp add: synced_def submitDeletes_keeps files_submitDeletes)
  moreover have "snd (snd (DeleteAllMissionInfos bgTask hasListener s)) = ?s"
    using p(2) by (simp add: DeleteAllMissionInfos_def deleteAllLoop_eq)
  ultimately show ?thesis using inv by (simp add: mim_ok_def)
qed

subsection \<open>The other operations\<close>

lemma UpdateMissionContinueState_mim_ok:
  "mim_ok base s \<Longrightarrow> mim_ok base (snd (UpdateMissionContinueState missionId state s))"
  by (auto simp: UpdateMissionContinueState_def mim_ok_def eq_id_commute stored_update
      option.map_comp comp_def intro!: mim_inv_update_first elim!: synced_same)

lemma SetMissionAbilityState_mim_ok:
  "mim_ok base s \<Longrightarrow> mim_ok base (SetMissionAbilityState missionId state s)"
  by (auto simp: SetMissionAbilityState_def mim_ok_def eq_id_commute stored_update
      option.map_comp comp_def intro!: mim_inv_update_first elim!: synced_same)

lemma UpdateMissionLabel_mim_ok:
  assumes "mim_ok base s"
  shows "mim_ok base (snd (UpdateMissionLabel missionId label s))"
proof -
  from assms obtain p where p: "mim_inv s" "mim_persist s = Some p" "ready p"
    "\<And>k. map_option persistView (files base (the (pm_current p)) p k) = map_option persistView (stored s k)"
    by (rule mim_okE) blast
  show ?thesis
  proof (cases "stored s missionId")
    case None
    with assms p(2) show ?thesis by (simp add: UpdateMissionLabel_def stored_def eq_id_commute)
  next
    case (Some i)
    then have i: "info_id i = missionId" "i \<in> set (mim_list s)" using stored_Some_iff [OF p(1)] by auto
    let ?i = "upd_info (\<lambda>m. m\<lparr>mi_label := label\<rparr>) i"
    let ?t = "s\<lparr>mim_list := update_first (\<lambda>x. info_id x = missionId) (\<lambda>_. ?i) (mim_list s)\<rparr>"
    let ?s = "?t\<lparr>mim_persist := Some (snd (submit (SaveTask ?i) p))\<rparr>"
    have st: "stored ?t = (stored s)(missionId \<mapsto> ?i)" using stored_update [where f = "\<lambda>_. ?i"] i Some by simp
    have "mim_inv ?t"
    proof (rule mim_inv_update_first [OF p(1)])
      fix x assume "x \<in> set (mim_list s)" "info_id x = missionId"
      then have "x = i" using Some stored_Some_iff [OF p(1)] by (metis option.inject)
      then show "info_id ?i = info_id x \<and> info_time ?i = info_time x" by simp
    qed
    moreover have "synced base ?s"
      by (rule synced_submit [OF p(2,3), where t = "SaveTask ?i"]) (use st p(4) i in simp_all)
    ultimately show ?thesis
      using Some p(2,3)
      by (simp add: UpdateMissionLabel_def stored_def eq_id_commute persist_SaveMissionInfo_def submit_ready
          mim_ok_def Let_def)
  qed
qed

lemma mim_HandleUnInstallApp_mim_ok:
  assumes "mim_ok base s"
  shows "mim_ok base (snd (mim_HandleUnInstallApp bundleName uid missions s))"
proof -
  have "mim_ok base t \<Longrightarrow> mim_ok base (fold (\<lambda>k st. snd (DeleteMissionInfo k st)) ks t)" for ks t
    by (induction ks arbitrary: t) (simp_all add: DeleteMissionInfo_mim_ok)
  with assms show ?thesis by (simp add: mim_HandleUnInstallApp_def Let_def)
qed

lemma GenerateMissionId_mim_ok:
  "mim_ok base s \<Longrightarrow> mim_ok base (snd (GenerateMissionId s))"
  using GenerateMissionId_inv [of s]
  by (auto simp: mim_ok_def GenerateMissionId_eq elim!: synced_same split: option.split)

section \<open>The store as a transition system\<close>

definition persist_new :: "'w persist" where
  "persist_new = \<lparr>pm_handler = False, pm_storages = [], pm_current = None, pm_userId = 0, pm_submitted = []\<rparr>"

definition mim_new :: "'w mission_info_mgr" where
  "mim_new = \<lparr>mim_list = [], mim_idMap = [], mim_current = MIN_MISSION_ID, mim_persist = None\<rparr>"

text \<open>
  The start is a successful \<open>Init\<close> of the constructed object, with one file per id (the file name is
  built from the id).  Afterwards any public operation may run with any argument.
\<close>

definition mim_start :: "(int \<rightharpoonup> 'w inner_mission_info) \<Rightarrow> 'w mission_info_mgr \<Rightarrow> bool" where
  "mim_start base s \<longleftrightarrow>
     (\<exists>infos loaded userId. loaded userId = Some infos \<and> distinct (map info_id infos) \<and>
        base = (\<lambda>k. find (\<lambda>x. info_id x = k) infos) \<and>
        mim_Init (Some persist_new) True loaded userId mim_new = (True, s))"

inductive mim_step :: "'w mission_info_mgr \<Rightarrow> 'w mission_info_mgr \<Rightarrow> bool" where
  st_generate: "GenerateMissionId s = (r, s') \<Longrightarrow> mim_step s s'"
| st_add: "AddMissionInfo i s = Inr (b, s') \<Longrightarrow> mim_step s s'"
| st_update: "UpdateMissionInfo i s = Inr (b, s') \<Longrightarrow> mim_step s s'"
| st_delete: "DeleteMissionInfo k s = (b, s') \<Longrightarrow> mim_step s s'"
| st_deleteAll: "DeleteAllMissionInfos bgTask hasListener s = (b, gone, s') \<Longrightarrow> mim_step s s'"
| st_continue: "UpdateMissionContinueState k c s = (r, s') \<Longrightarrow> mim_step s s'"
| st_label: "UpdateMissionLabel k label s = (r, s') \<Longrightarrow> mim_step s s'"
| st_state: "SetMissionAbilityState k c s = s' \<Longrightarrow> mim_step s s'"
| st_uninstall: "mim_HandleUnInstallApp bundleName uid missions s = (gone, s') \<Longrightarrow> mim_step s s'"

lemma fold_omap_put_True:
  "omap_inv m \<Longrightarrow> omap_inv (fold (\<lambda>i. omap_put (info_id i) True) xs m)"
  "omap_inv m \<Longrightarrow> omap_find (fold (\<lambda>i. omap_put (info_id i) True) xs m) k =
     (if k \<in> info_id ` set xs then Some True else omap_find m k)"
  by (induction xs arbitrary: m) (auto simp: omap_inv_put find_omap_put)

lemma mim_Init_eq:
  "loaded userId = Some infos \<Longrightarrow>
   mim_Init (Some persist_new) True loaded userId mim_new =
     (True, \<lparr>mim_list = sort_desc info_time infos,
       mim_idMap = fold (\<lambda>i. omap_put (info_id i) True) (sort_desc info_time infos) [],
       mim_current = MIN_MISSION_ID,
       mim_persist = Some \<lparr>pm_handler = True, pm_storages = [userId], pm_current = Some userId,
         pm_userId = userId, pm_submitted = []\<rparr>\<rparr>)"
  by (simp add: mim_Init_def persist_Init_def persist_new_def mim_new_def LoadAllMissionInfo_def
      persist_LoadAllMissionInfo_def Let_def)

lemma mim_start_ok:
  assumes "mim_start base s"
  shows "mim_ok base s"
proof -
  from assms obtain infos loaded userId where a: "loaded userId = Some infos" "distinct (map info_id infos)"
    "base = (\<lambda>k. find (\<lambda>x. info_id x = k) infos)" "mim_Init (Some persist_new) True loaded userId mim_new = (True, s)"
    by (auto simp: mim_start_def)
  have d: "distinct (map info_id (sort_desc info_time infos))" using a(2) by (simp add: distinct_map_sort_desc)
  have "find (\<lambda>x. info_id x = k) (sort_desc info_time infos) = find (\<lambda>x. info_id x = k) infos" for k
    by (rule find_id_cong) (simp_all add: d a(2))
  moreover have "mim_inv s"
    using a(4) d unfolding mim_Init_eq [of loaded userId infos, OF a(1)]
    by (auto simp: mim_inv_def fold_omap_put_True desc_sort_desc MIN_MISSION_ID_def MAX_MISSION_ID_def split: if_splits)
  ultimately show ?thesis
    using a(4) unfolding mim_Init_eq [of loaded userId infos, OF a(1)]
    by (auto simp: mim_ok_def synced_def ready_def files_def stored_def a(3))
qed

lemma mim_step_ok: "mim_ok base s \<Longrightarrow> mim_step s s' \<Longrightarrow> mim_ok base s'"
proof (erule mim_step.cases)
  fix i b t t' assume "mim_ok base s" "s = t" "s' = t'" "AddMissionInfo i t = Inr (b, t')"
  then show "mim_ok base s'"
    using AddMissionInfoInner_mim_ok [of base t i] by (auto simp: AddMissionInfo_def)
next
  fix i b t t' assume "mim_ok base s" "s = t" "s' = t'" "UpdateMissionInfo i t = Inr (b, t')"
  then show "mim_ok base s'" using UpdateMissionInfo_mim_ok [of base t i] by auto
qed (metis GenerateMissionId_mim_ok DeleteMissionInfo_mim_ok DeleteAllMissionInfos_mim_ok
    UpdateMissionContinueState_mim_ok UpdateMissionLabel_mim_ok SetMissionAbilityState_mim_ok
    mim_HandleUnInstallApp_mim_ok snd_conv)+

interpretation mim: machine "mim_start base" mim_step "mim_ok base" for base
  by unfold_locales (auto intro: mim_start_ok mim_step_ok)

section \<open>Properties\<close>


definition exWitInfo :: "int \<Rightarrow> string \<Rightarrow> nat inner_mission_info" where
  "exWitInfo k t = \<lparr>imi_bundleName = ''app'', imi_specifiedFlag = '''', imi_missionName = ''m'',
     imi_missionAffinity = '''',
     imi_missionInfo = \<lparr>mi_continueState = 0, mi_id = k, mi_runningState = 0, mi_lockedState = False,
       mi_continuable = False, mi_unclearable = False, mi_abilityState = 0, mi_time = t, mi_label = '''',
       mi_iconPath = '''', mi_want = 0\<rparr>,
     imi_launchMode = 1, imi_startMethod = 0, imi_collaboratorType = 0, imi_uid = 7,
     imi_isTemporary = False, imi_hasRecoverInfo = False\<rparr>"

definition exPersist :: "nat persist" where
  "exPersist = \<lparr>pm_handler = True, pm_storages = [100], pm_current = Some 100, pm_userId = 100,
     pm_submitted = []\<rparr>"

definition exStore :: "nat mission_info_mgr" where
  "exStore = \<lparr>mim_list = [exWitInfo 1 ''20'', exWitInfo 2 ''10''], mim_idMap = [(1, True), (2, True)],
     mim_current = 3, mim_persist = Some exPersist\<rparr>"


text \<open>
  C15: \<open>GenerateMissionId\<close> returns a positive \<open>int32_t\<close> that is not in use, reserves it and moves the
  counter behind it without overflow; it fails only when every id from the counter (from 1 after
  the counter reached \<open>INT_MAX\<close>) upwards is taken.
\<close>

theorem GenerateMissionId_fresh:
  assumes "mim_inv s"
  shows "case GenerateMissionId s of
      (Some i, s') \<Rightarrow> MIN_MISSION_ID \<le> i \<and> i < MAX_MISSION_ID \<and> omap_find (mim_idMap s) i = None \<and>
        omap_find (mim_idMap s') = (omap_find (mim_idMap s))(i \<mapsto> False) \<and>
        mim_current s' = i + 1 \<and> i + 1 \<le> MAX_MISSION_ID
    | (None, s') \<Rightarrow> {genStart s..<MAX_MISSION_ID} \<subseteq> dom (omap_find (mim_idMap s))"
proof (cases "genLoop (mim_idMap s) (genStart s)")
  case None
  then have "{genStart s..<MAX_MISSION_ID} \<subseteq> dom (omap_find (mim_idMap s))" by (auto simp: genLoop_None)
  with None show ?thesis by (simp add: GenerateMissionId_eq)
next
  case (Some i)
  with genStart_bounds [OF assms] genLoop_Some [OF Some] mim_invD(1) [OF assms] show ?thesis
    by (auto simp: GenerateMissionId_eq find_omap_put)
qed

lemma exStore_inv: "mim_inv exStore"
  by (auto simp: mim_inv_def exStore_def exWitInfo_def omap_inv_def MIN_MISSION_ID_def MAX_MISSION_ID_def)

theorem GenerateMissionId_fresh_witness:
  "fst (GenerateMissionId exStore) = Some 3 \<and> omap_find (mim_idMap exStore) 3 = None"
proof -
  have "GenerateMissionId exStore = (Some 3, exStore\<lparr>mim_idMap := [(1, True), (2, True), (3, False)], mim_current := 4\<rparr>)"
    by (simp add: GenerateMissionId_def exStore_def genLoop.simps MAX_MISSION_ID_def)
  with GenerateMissionId_fresh [OF exStore_inv] show ?thesis by simp
qed

text \<open>
  the counter wraps to 1 only from \<open>INT_MAX\<close> itself.  When it stands below and every id from it
  upwards is in use (loaded from the files, say), \<open>GenerateMissionId\<close> fails and leaves the store as
  it was, so it fails for ever although smaller ids are free.
\<close>

theorem GenerateMissionId_stuck:
  assumes "mim_current s \<noteq> MAX_MISSION_ID"
    and "{mim_current s..<MAX_MISSION_ID} \<subseteq> dom (omap_find (mim_idMap s))"
  shows "GenerateMissionId s = (None, s)"
proof -
  have "genLoop (mim_idMap s) (mim_current s) = None" using assms(2) by (auto simp: genLoop_None)
  with assms(1) show ?thesis by (simp add: GenerateMissionId_eq genStart_def)
qed

definition exFull :: "nat mission_info_mgr" where
  "exFull = exStore\<lparr>mim_list := [exWitInfo 2147483646 ''20''], mim_idMap := [(2147483646, True)],
     mim_current := 2147483646\<rparr>"

theorem GenerateMissionId_stuck_witness:
  "GenerateMissionId exFull = (None, exFull) \<and> mim_inv exFull \<and> omap_find (mim_idMap exFull) 1 = None"
proof -
  have "{mim_current exFull..<MAX_MISSION_ID} \<subseteq> dom (omap_find (mim_idMap exFull))"
    by (auto simp: exFull_def MAX_MISSION_ID_def)
  moreover have "mim_current exFull \<noteq> MAX_MISSION_ID" by (simp add: exFull_def MAX_MISSION_ID_def)
  ultimately have "GenerateMissionId exFull = (None, exFull)" by (intro GenerateMissionId_stuck)
  moreover have "mim_inv exFull"
    by (auto simp: mim_inv_def exFull_def exStore_def exWitInfo_def omap_inv_def MIN_MISSION_ID_def MAX_MISSION_ID_def)
  ultimately show ?thesis by (simp add: exFull_def)
qed

text \<open>
  updating a stored mission succeeds whether its time changed (it moves to its new place) or not,
  keeps the invariant and the agreement with the files, and afterwards a lookup by id returns the new
  record while every other id returns what it did before.
\<close>

theorem UpdateMissionInfo_roundtrip:
  assumes "mim_ok base s" and "stored s (info_id i) \<noteq> None"
  shows "\<exists>s'. UpdateMissionInfo i s = Inr (True, s') \<and> mim_ok base s' \<and>
    GetInnerMissionInfoById notFound (info_id i) s' = (0, Some i) \<and>
    (\<forall>k. k = info_id i \<or> stored s' k = stored s k)"
proof -
  from assms(2) obtain old where "stored s (info_id i) = Some old" by blast
  with assms(1) obtain s' where s': "UpdateMissionInfo i s = Inr (True, s')" "mim_ok base s'"
    "stored s' = (stored s)(info_id i \<mapsto> i)"
    using UpdateMissionInfo_same_time UpdateMissionInfo_new_time by (cases "info_time i = info_time old") blast+
  moreover from s' have "omap_find (mim_idMap s') (info_id i) = Some True"
    using stored_iff_saved [of s' "info_id i"] by (simp add: mim_ok_def)
  moreover from s'(3) have "find (\<lambda>x. info_id x = info_id i) (mim_list s') = Some i"
    by (metis fun_upd_same stored_def)
  ultimately show ?thesis by (simp add: GetInnerMissionInfoById_def)
qed

lemma exStore_ok: "mim_ok (\<lambda>k. find (\<lambda>x. info_id x = k) (mim_list exStore)) exStore"
  using exStore_inv
  by (simp add: mim_ok_def synced_def exStore_def exPersist_def ready_def files_def stored_def)

theorem UpdateMissionInfo_roundtrip_witness:
  "\<exists>s'. UpdateMissionInfo (exWitInfo 2 ''30'') exStore = Inr (True, s') \<and>
     GetInnerMissionInfoById 9 2 s' = (0, Some (exWitInfo 2 ''30''))"
proof -
  have "stored exStore (info_id (exWitInfo 2 ''30'')) \<noteq> None" by (simp add: stored_def exStore_def exWitInfo_def)
  from UpdateMissionInfo_roundtrip [OF exStore_ok this, of 9] show ?thesis by (auto simp: exWitInfo_def)
qed

text \<open>
  when the update has to move the record (its time changed) and the persistence manager refuses
  the save, \<open>UpdateMissionInfo\<close> returns false and the mission is gone from the list and from the id
  map: the failed update has deleted it.
\<close>

theorem UpdateMissionInfo_failed_save_drops:
  assumes "mim_inv s" "mim_persist s = Some p" "\<not> ready p"
    and "stored s (info_id i) = Some old" "info_time i \<noteq> info_time old"
  shows "\<exists>s'. UpdateMissionInfo i s = Inr (False, s') \<and> stored s' (info_id i) = None \<and>
    omap_find (mim_idMap s') (info_id i) = None"
proof -
  have sub: "submit (SaveTask i) p = (False, p)"
    using assms(3) by (auto simp: submit_def ready_def split: option.splits)
  have "omap_find (mim_idMap s) (info_id i) = Some True"
    using stored_iff_saved [OF assms(1), of "info_id i"] assms(4) by simp
  with assms sub show ?thesis
    using stored_erase [OF assms(1), of "info_id i"]
    by (simp add: UpdateMissionInfo_def stored_def AddMissionInfoInner_def find_omap_erase
        persist_SaveMissionInfo_def Let_def fun_eq_iff)
qed

theorem UpdateMissionInfo_failed_save_drops_witness:
  "\<exists>s'. UpdateMissionInfo (exWitInfo 2 ''30'') (exStore\<lparr>mim_persist := Some (exPersist\<lparr>pm_current := None\<rparr>)\<rparr>) = Inr (False, s') \<and>
     stored s' 2 = None"
proof -
  let ?s = "exStore\<lparr>mim_persist := Some (exPersist\<lparr>pm_current := None\<rparr>)\<rparr>"
  have "stored ?s (info_id (exWitInfo 2 ''30'')) = Some (exWitInfo 2 ''10'')"
    by (simp add: stored_def exStore_def exWitInfo_def)
  moreover have "mim_inv ?s" using exStore_inv by simp
  ultimately show ?thesis
    using UpdateMissionInfo_failed_save_drops [of ?s "exPersist\<lparr>pm_current := None\<rparr>" "exWitInfo 2 ''30''" "exWitInfo 2 ''10''"]
    by (auto simp: ready_def exWitInfo_def)
qed

text \<open>
  the record \<open>FindReusedMissionInfo\<close> returns matches the request and is the latest one that does:
  no other matching record of the store has a greater time.
\<close>

theorem FindReusedMissionInfo_latest:
  assumes "mim_inv s" and "FindReusedMissionInfo modeInt name flag recent s = Some i"
  shows "i \<in> set (mim_list s) \<and> reusable modeInt name flag recent i \<and>
    {x \<in> set (mim_list s). reusable modeInt name flag recent x} \<subseteq> {x. info_time x \<le> info_time i}"
proof -
  have f: "find (reusable modeInt name flag recent) (mim_list s) = Some i"
    using assms(2) by (simp add: FindReusedMissionInfo_def split: if_splits)
  have "desc_by info_time xs \<Longrightarrow> find P xs = Some i \<Longrightarrow> x \<in> set xs \<Longrightarrow> P x \<Longrightarrow> info_time x \<le> info_time i"
    for xs P x by (induction xs) (auto split: if_splits)
  from this [OF mim_invD(2) [OF assms(1)] f] find_SomeD [OF f] show ?thesis by blast
qed

theorem FindReusedMissionInfo_latest_witness:
  "FindReusedMissionInfo (\<lambda>m. case m of SINGLETON \<Rightarrow> 0 | STANDARD \<Rightarrow> 1 | SPECIFIED \<Rightarrow> 2) ''m'' '''' True exStore =
     Some (exWitInfo 1 ''20'') \<and> exWitInfo 1 ''20'' \<in> set (mim_list exStore)"
proof -
  have "FindReusedMissionInfo (\<lambda>m. case m of SINGLETON \<Rightarrow> 0 | STANDARD \<Rightarrow> 1 | SPECIFIED \<Rightarrow> 2) ''m'' '''' True exStore =
     Some (exWitInfo 1 ''20'')"
    by (simp add: FindReusedMissionInfo_def reusable_def exStore_def exWitInfo_def)
  with FindReusedMissionInfo_latest [OF exStore_inv this] show ?thesis by blast
qed

text \<open>
  \<open>DeleteAllMissionInfos\<close> keeps exactly the locked missions, those of background tasks and the
  running unclearable ones, in their order, releases the ids of the others, submits one delete per
  released id and reports these ids to the listener.
\<close>

theorem DeleteAllMissionInfos_exact:
  assumes "mim_inv s" and "mim_persist s = Some p"
  shows "\<exists>s'. DeleteAllMissionInfos bgTask True s = (True, goneIds bgTask (mim_list s), s') \<and> mim_inv s' \<and>
    mim_list s' = filter (\<lambda>i. \<not> clearable bgTask i) (mim_list s) \<and>
    mim_persist s' = Some (submitDeletes (goneIds bgTask (mim_list s)) p) \<and>
    omap_find (mim_idMap s') = (omap_find (mim_idMap s)) |` (- set (goneIds bgTask (mim_list s)))"
  using DeleteAllMissionInfos_inv [OF assms(1), of bgTask] assms(2)
  by (simp add: DeleteAllMissionInfos_def deleteAllLoop_eq fold_omap_erase fun_eq_iff restrict_map_def mim_inv_def)

theorem DeleteAllMissionInfos_exact_witness:
  "fst (snd (DeleteAllMissionInfos (\<lambda>_. False) True exStore)) = [1, 2]"
  using DeleteAllMissionInfos_exact [OF exStore_inv, of exPersist "\<lambda>_. False"]
  by (auto simp: exStore_def goneIds_def exWitInfo_def clearable_def)

definition ofApp :: "string \<Rightarrow> int \<Rightarrow> 'w inner_mission_info \<Rightarrow> bool" where
  "ofApp bundleName uid i \<longleftrightarrow> imi_bundleName i = bundleName \<and> imi_uid i = uid"

lemma ofApp_abs: "(\<lambda>i. imi_bundleName i = bundleName \<and> imi_uid i = uid) = ofApp bundleName uid"
  by (simp add: ofApp_def fun_eq_iff)

lemma foldDelete:
  assumes "mim_ok base s" and "set ks \<subseteq> info_id ` set (mim_list s)"
  shows "mim_list (fold (\<lambda>k st. snd (DeleteMissionInfo k st)) ks s) =
           filter (\<lambda>i. info_id i \<notin> set ks) (mim_list s) \<and>
         mim_idMap (fold (\<lambda>k st. snd (DeleteMissionInfo k st)) ks s) = fold omap_erase ks (mim_idMap s) \<or>
         \<not> distinct ks"
  using assms
proof (induction ks arbitrary: s)
  case (Cons k ks)
  from Cons.prems(1) obtain p where p: "mim_inv s" "mim_persist s = Some p" "ready p" by (rule mim_okE)
  have "omap_find (mim_idMap s) k = Some True" using mim_invD(4) [OF p(1), of k] Cons.prems(2) by auto
  note del = DeleteMissionInfo_saved [OF p(2,3) this]
  have l: "mim_list (snd (DeleteMissionInfo k s)) = filter (\<lambda>i. info_id i \<noteq> k) (mim_list s)"
    using del erase_first_filter [OF mim_invD(3) [OF p(1)], of "\<lambda>x. info_id x = k"] by simp
  show ?case
  proof (cases "k \<in> set ks")
    case False
    have "mim_ok base (snd (DeleteMissionInfo k s))" using Cons.prems(1) by (rule DeleteMissionInfo_mim_ok)
    moreover have "set ks \<subseteq> info_id ` set (mim_list (snd (DeleteMissionInfo k s)))"
    proof
      fix x assume "x \<in> set ks"
      moreover from this Cons.prems(2) obtain i where "i \<in> set (mim_list s)" "x = info_id i" by auto
      ultimately show "x \<in> info_id ` set (mim_list (snd (DeleteMissionInfo k s)))"
        unfolding l using False by (intro image_eqI [of _ _ i]) auto
    qed
    ultimately show ?thesis
      using Cons.IH [of "snd (DeleteMissionInfo k s)"] del l by (auto simp: conj_commute)
  qed simp
qed simp

text \<open>
  uninstalling an application removes from the list exactly the records of that bundle and user,
  returns their ids and frees them, and keeps the store consistent with its files.
\<close>

theorem mim_HandleUnInstallApp_exact:
  assumes "mim_ok base s"
  shows "\<exists>s'. mim_HandleUnInstallApp bundleName uid [] s =
      (map info_id (filter (ofApp bundleName uid) (mim_list s)), s') \<and>
    mim_list s' = filter (\<lambda>i. \<not> ofApp bundleName uid i) (mim_list s) \<and>
    omap_find (mim_idMap s') = omap_find (mim_idMap s) |` (- info_id ` {i \<in> set (mim_list s). ofApp bundleName uid i}) \<and>
    mim_ok base s'"
proof -
  from assms have d: "distinct (map info_id (mim_list s))" by (simp add: mim_ok_def mim_invD(3))
  let ?ks = "map info_id (filter (ofApp bundleName uid) (mim_list s))"
  have "distinct ?ks" using d by (rule distinct_map_filter)
  moreover have "set ?ks \<subseteq> info_id ` set (mim_list s)" by auto
  ultimately have f: "mim_list (fold (\<lambda>k st. snd (DeleteMissionInfo k st)) ?ks s) =
       filter (\<lambda>i. info_id i \<notin> set ?ks) (mim_list s)"
    "mim_idMap (fold (\<lambda>k st. snd (DeleteMissionInfo k st)) ?ks s) = fold omap_erase ?ks (mim_idMap s)"
    using foldDelete [OF assms, of ?ks] by blast+
  have "filter (\<lambda>i. info_id i \<notin> set ?ks) (mim_list s) = filter (\<lambda>i. \<not> ofApp bundleName uid i) (mim_list s)"
    using d by (intro filter_cong refl) (auto simp: distinct_map inj_on_def)
  moreover have "mim_HandleUnInstallApp bundleName uid [] s = (?ks, fold (\<lambda>k st. snd (DeleteMissionInfo k st)) ?ks s)"
    by (simp add: mim_HandleUnInstallApp_def GetMatchedMission_def ofApp_abs Let_def)
  ultimately show ?thesis
    using f mim_HandleUnInstallApp_mim_ok [OF assms, of bundleName uid "[]"]
    by (simp add: fun_eq_iff restrict_map_def fold_omap_erase)
qed

theorem mim_HandleUnInstallApp_exact_witness:
  "fst (mim_HandleUnInstallApp ''app'' 7 [] exStore) = [1, 2]"
  using mim_HandleUnInstallApp_exact [OF exStore_ok, of "''app''" 7]
  by (auto simp: exStore_def exWitInfo_def ofApp_def)

lemma getInfosLoop_eq:
  "getInfosLoop callToFg n ms acc =
     acc @ take (nat n - length acc)
       (map imi_missionInfo (filter (\<lambda>m. \<not> DoesNotShowInTheMissionList callToFg m) ms))"
proof (induction ms arbitrary: acc)
  case (Cons m ms)
  show ?case
  proof (cases "int (length acc) \<ge> n")
    case True
    then have "nat n - length acc = 0" by simp
    with True show ?thesis by simp
  next
    case False
    then have "nat n - length acc = Suc (nat n - Suc (length acc))" by linarith
    with False Cons show ?thesis by simp
  qed
qed simp

text \<open>
  \<open>GetMissionInfos\<close> with a bound \<open>numMax\<close> returns the first \<open>numMax\<close> visible missions, latest first;
  a mission started by call and not brought to the foreground does not use up the bound.
\<close>

theorem GetMissionInfos_bounded:
  "GetMissionInfos callToFg numMax [] s =
     (if numMax < 0 then (-1, [])
      else (0, take (nat numMax)
        (map imi_missionInfo (filter (\<lambda>m. \<not> DoesNotShowInTheMissionList callToFg m) (mim_list s)))))"
  by (simp add: GetMissionInfos_def getInfosLoop_eq)

end
