(* ===== verification/Mission_List_Manager.thy ===== *)
theory Mission_List_Manager
  imports Mission_List Mission_Info_Mgr
begin

text \<open>
  The mission stacks of one user: \<open>services/abilitymgr/src/mission/mission_list_manager.cpp\<close>, the
  functions that choose, search and rearrange the mission lists.

  \<open>mlm\<close> is the object: the lists on screen (\<open>currentMissionLists_\<close>, topmost first), the launcher list,
  the two default lists that hold missions popped from a stack, the abilities being terminated and
  the requests waiting.  The heap of \<open>Mission_List\<close> holds the objects, \<open>mg_next\<close> is the first unused
  list address (\<open>std::make_shared\<close>).

  \<open>Init\<close> creates the three fixed lists and nothing ever resets them, and the only insertions into
  \<open>currentMissionLists_\<close> are \<open>Init\<close> and \<open>MoveMissionListToTop\<close>, which refuses null; so these are
  addresses and not nullable pointers, and the null tests on them in the code are always true.
  The public functions hold \<open>managerLock_\<close>; each is one step.
\<close>

record ability_request =
  rq_abilityInfo :: ability_info
  rq_isLauncherApp :: bool
  rq_appIndex :: int
  rq_uid :: int
  rq_specifiedFlag :: string
  rq_startRecent :: bool

record mlm =
  mg_heap :: heap
  mg_current :: "nat list"
  mg_launcher :: nat
  mg_defStandard :: nat
  mg_defSingle :: nat
  mg_terminate :: "ptr list"
  mg_waiting :: "ability_request list"
  mg_next :: nat

definition new_list :: "mission_list_type \<Rightarrow> mlm \<Rightarrow> nat \<times> mlm" where
  "new_list t s = (let l = mg_next s; h = mg_heap s in
     (l, s\<lparr>mg_heap := h\<lparr>listAt := (listAt h)(l := \<lparr>ml_type = t, ml_missions = []\<rparr>),
                       listLive := (listLive h)(l := True)\<rparr>, mg_next := l + 1\<rparr>))"

definition mlm_Init :: "mlm \<Rightarrow> mlm" where
  "mlm_Init s =
     (let (launcher, s1) = new_list LAUNCHER s; (standard, s2) = new_list DEFAULT_STANDARD s1;
          (single, s3) = new_list DEFAULT_SINGLE s2
      in s3\<lparr>mg_launcher := launcher, mg_defStandard := standard, mg_defSingle := single,
            mg_current := launcher # mg_current s3\<rparr>)"

section \<open>Counting and limits\<close>

definition MAX_INSTANCE_COUNT :: int where
  "MAX_INSTANCE_COUNT = 512"

definition SINGLE_MAX_INSTANCE_COUNT :: int where
  "SINGLE_MAX_INSTANCE_COUNT = 128"

definition FindEarliestMission :: "mlm \<Rightarrow> ptr" where
  "FindEarliestMission s =
     (let h = mg_heap s; e1 = fold (\<lambda>l e. ml_FindEarliestMission h l e) (mg_current s) None;
          e2 = ml_FindEarliestMission h (mg_defStandard s) e1
      in ml_FindEarliestMission h (mg_defSingle s) e2)"

definition mlm_GetMissionCount :: "mlm \<Rightarrow> int" where
  "mlm_GetMissionCount s =
     (let h = mg_heap s in
      fold (\<lambda>l n. n + GetMissionCount h l) (mg_current s) 0
        + GetMissionCount h (mg_defStandard s) + GetMissionCount h (mg_defSingle s))"

definition IsReachToLimitLocked :: "mlm \<Rightarrow> bool" where
  "IsReachToLimitLocked s = (if mlm_GetMissionCount s \<ge> MAX_INSTANCE_COUNT then True else False)"

primrec singleLimitLoop :: "heap \<Rightarrow> int \<Rightarrow> nat list \<Rightarrow> int \<Rightarrow> int option" where
  "singleLimitLoop h uid [] n = Some n"
| "singleLimitLoop h uid (l # ls) n =
     (let n' = n + GetMissionCountByUid h l uid in
      if n' \<ge> SINGLE_MAX_INSTANCE_COUNT then None else singleLimitLoop h uid ls n')"

text \<open>\<open>None\<close> is the return in the middle of the loop.\<close>

definition IsReachToSingleLimitLocked :: "mlm \<Rightarrow> int \<Rightarrow> bool" where
  "IsReachToSingleLimitLocked s uid =
     (case singleLimitLoop (mg_heap s) uid (mg_current s) 0 of
        None \<Rightarrow> True
      | Some n \<Rightarrow>
          let n1 = n + GetMissionCountByUid (mg_heap s) (mg_defStandard s) uid in
          if n1 \<ge> SINGLE_MAX_INSTANCE_COUNT then True
          else let n2 = n1 + GetMissionCountByUid (mg_heap s) (mg_defSingle s) uid in
               if n2 \<ge> SINGLE_MAX_INSTANCE_COUNT then True else False)"

section \<open>Searching\<close>

text \<open>
  \<open>first_in\<close> is the loop \<open>for (list : currentMissionLists_) if ((r = f(list)) != nullptr) return r\<close>
  followed by the same test on further lists; \<open>first_in_cpp\<close> the same for a call that may fault.
\<close>

primrec first_in :: "(nat \<Rightarrow> ptr) \<Rightarrow> nat list \<Rightarrow> ptr" where
  "first_in f [] = None"
| "first_in f (l # ls) = (case f l of Some r \<Rightarrow> Some r | None \<Rightarrow> first_in f ls)"

primrec first_in_cpp :: "(nat \<Rightarrow> ptr cpp) \<Rightarrow> nat list \<Rightarrow> ptr cpp" where
  "first_in_cpp f [] = Inr None"
| "first_in_cpp f (l # ls) =
     cpp_bind (f l) (\<lambda>r. case r of Some a \<Rightarrow> Inr (Some a) | None \<Rightarrow> first_in_cpp f ls)"

definition GetMissionById :: "mlm \<Rightarrow> int \<Rightarrow> ptr" where
  "GetMissionById s i =
     first_in (\<lambda>l. ml_GetMissionById (mg_heap s) l i)
       (mg_current s @ [mg_defSingle s, mg_launcher s, mg_defStandard s])"

definition GetMissionBySpecifiedFlag :: "mlm \<Rightarrow> string \<Rightarrow> string \<Rightarrow> string \<Rightarrow> ptr" where
  "GetMissionBySpecifiedFlag s wantAbility wantBundle flag =
     first_in (\<lambda>l. ml_GetMissionBySpecifiedFlag (mg_heap s) l wantAbility wantBundle flag)
       (mg_current s @ [mg_defSingle s, mg_launcher s, mg_defStandard s])"

definition GetAliveAbilityRecordByToken :: "mlm \<Rightarrow> ptr \<Rightarrow> ptr cpp" where
  "GetAliveAbilityRecordByToken s token =
     (if token = None then Inr None
      else first_in_cpp (\<lambda>l. ml_GetAbilityRecordByToken (mg_heap s) l token)
             (mg_current s @ [mg_defSingle s, mg_defStandard s]))"

definition FromBaseRecord :: "heap \<Rightarrow> ptr \<Rightarrow> ptr" where
  "FromBaseRecord h p =
     (case p of None \<Rightarrow> None | Some a \<Rightarrow> if \<not> ar_isMissionAbility (abilityAt h a) then None else Some a)"

primrec terminatingByToken :: "heap \<Rightarrow> ptr \<Rightarrow> ptr list \<Rightarrow> ptr option cpp" where
  "terminatingByToken h token [] = Inr None"
| "terminatingByToken h token (p # ps) =
     (case p of
        None \<Rightarrow> terminatingByToken h token ps
      | Some a \<Rightarrow> cpp_bind (deref (ar_token (abilityAt h a))) (\<lambda>t.
          if token = Some t then Inr (Some (FromBaseRecord h p)) else terminatingByToken h token ps))"

definition GetAbilityRecordByTokenInner :: "mlm \<Rightarrow> ptr \<Rightarrow> ptr cpp" where
  "GetAbilityRecordByTokenInner s token =
     (if token = None then Inr None
      else cpp_bind (terminatingByToken (mg_heap s) token (mg_terminate s)) (\<lambda>r.
        case r of Some p \<Rightarrow> Inr p
        | None \<Rightarrow> cpp_bind (GetAliveAbilityRecordByToken s token) (\<lambda>p. Inr (FromBaseRecord (mg_heap s) p))))"

definition GetAbilityRecordByCaller :: "mlm \<Rightarrow> ptr \<Rightarrow> int \<Rightarrow> ptr cpp" where
  "GetAbilityRecordByCaller s caller requestCode =
     (if caller = None then Inr None
      else first_in_cpp (\<lambda>l. ml_GetAbilityRecordByCaller (mg_heap s) l caller requestCode)
             (mg_current s @ [mg_defSingle s, mg_defStandard s]))"

definition GetAbilityRecordById :: "mlm \<Rightarrow> int \<Rightarrow> ptr cpp" where
  "GetAbilityRecordById s i =
     first_in_cpp (\<lambda>l. ml_GetAbilityRecordById (mg_heap s) l i) (mg_current s @ [mg_defSingle s, mg_defStandard s])"

definition GetAbilityTokenByMissionId :: "mlm \<Rightarrow> int \<Rightarrow> ptr" where
  "GetAbilityTokenByMissionId s i =
     first_in (\<lambda>l. ml_GetAbilityTokenByMissionId (mg_heap s) l i)
       (mg_current s @ [mg_defSingle s, mg_defStandard s])"

definition GetAbilityRecordByName :: "'e elem_eq \<Rightarrow> mlm \<Rightarrow> 'e \<Rightarrow> ptr cpp" where
  "GetAbilityRecordByName elemIs s element =
     first_in_cpp (\<lambda>l. ml_GetAbilityRecordByName elemIs (mg_heap s) l element)
       (mg_current s @ [mg_launcher s, mg_defSingle s])"

definition GetAbilityRecordByNameFromCurrentMissionLists :: "'e elem_eq \<Rightarrow> mlm \<Rightarrow> 'e \<Rightarrow> ptr cpp" where
  "GetAbilityRecordByNameFromCurrentMissionLists elemIs s element =
     first_in_cpp (\<lambda>l. ml_GetAbilityRecordByName elemIs (mg_heap s) l element)
       (mg_current s @ [mg_defStandard s, mg_launcher s])"

definition GetAbilityRecordsByName :: "'e elem_eq \<Rightarrow> mlm \<Rightarrow> 'e \<Rightarrow> nat list" where
  "GetAbilityRecordsByName elemIs s element =
     (let h = mg_heap s;
          r1 = fold (\<lambda>l r. ml_GetAbilityRecordsByName elemIs h l element r) (mg_current s) [];
          r2 = ml_GetAbilityRecordsByName elemIs h (mg_launcher s) element r1;
          r3 = ml_GetAbilityRecordsByName elemIs h (mg_defStandard s) element r2
      in if r3 \<noteq> [] then r3 else ml_GetAbilityRecordsByName elemIs h (mg_defSingle s) element r3)"

primrec abilityNumberLoop :: "'e elem_eq \<Rightarrow> heap \<Rightarrow> 'e \<Rightarrow> nat list \<Rightarrow> int \<Rightarrow> int cpp" where
  "abilityNumberLoop elemIs h element [] n = Inr n"
| "abilityNumberLoop elemIs h element (l # ls) n =
     cpp_bind (ml_GetAbilityRecordByName elemIs h l element) (\<lambda>r.
       abilityNumberLoop elemIs h element ls (if r \<noteq> None then n + 1 else n))"

definition GetAbilityNumber :: "'e elem_eq \<Rightarrow> mlm \<Rightarrow> 'e \<Rightarrow> int cpp" where
  "GetAbilityNumber elemIs s element =
     abilityNumberLoop elemIs (mg_heap s) element (mg_current s @ [mg_defStandard s]) 0"

definition mlm_GetMissionList :: "mlm \<Rightarrow> int \<Rightarrow> ptr" where
  "mlm_GetMissionList s i =
     (case GetMissionById s i of None \<Rightarrow> None | Some m \<Rightarrow> GetMissionList (mg_heap s) m)"

definition GetCurrentTopAbilityLocked :: "mlm \<Rightarrow> ptr" where
  "GetCurrentTopAbilityLocked s = (case mg_current s of [] \<Rightarrow> None | l # ls \<Rightarrow> GetTopAbility (mg_heap s) l)"

definition IsStarted :: "mlm \<Rightarrow> bool" where
  "IsStarted s \<longleftrightarrow> GetLauncherRoot (mg_heap s) (mg_launcher s) \<noteq> None"

definition IsActiveState :: "ability_record \<Rightarrow> bool" where
  "IsActiveState a \<longleftrightarrow> ar_currentState a \<in> {ACTIVE, ACTIVATING, INITIAL, FOREGROUND, FOREGROUNDING}"

primrec GetForegroundAbilities :: "heap \<Rightarrow> ptr list \<Rightarrow> nat list \<Rightarrow> nat list" where
  "GetForegroundAbilities h [] acc = acc"
| "GetForegroundAbilities h (p # ps) acc =
     (case abilityOf h p of
        None \<Rightarrow> GetForegroundAbilities h ps acc
      | Some a \<Rightarrow> GetForegroundAbilities h ps (if IsActiveState (abilityAt h a) then acc @ [a] else acc))"

definition GetAllForegroundAbilities :: "mlm \<Rightarrow> nat list \<Rightarrow> nat list" where
  "GetAllForegroundAbilities s acc =
     (let h = mg_heap s in
      fold (\<lambda>l r. GetForegroundAbilities h (missions_of h l) r)
        (mg_current s @ [mg_defSingle s, mg_defStandard s]) acc)"

primrec unique_adj :: "string list \<Rightarrow> string list" where
  "unique_adj [] = []"
| "unique_adj (x # xs) = (case unique_adj xs of [] \<Rightarrow> [x] | y # ys \<Rightarrow> if x = y then y # ys else x # y # ys)"

text \<open>The names of the three groups of lists are appended, then \<open>sort\<close> and \<open>unique\<close>.\<close>

definition GetActiveAbilityList :: "mlm \<Rightarrow> int \<Rightarrow> string list \<Rightarrow> int \<Rightarrow> string list" where
  "GetActiveAbilityList s uid abilityList pid =
     (let h = mg_heap s;
          names = fold (\<lambda>l r. r @ ml_GetActiveAbilityList h l uid [] pid)
                    (mg_current s @ [mg_defStandard s, mg_defSingle s]) abilityList
      in if names \<noteq> [] then unique_adj (sort names) else names)"

definition IsAppLastAbility :: "mlm \<Rightarrow> ptr \<Rightarrow> bool" where
  "IsAppLastAbility s rec =
     (case rec of None \<Rightarrow> False
      | Some a \<Rightarrow>
          let h = mg_heap s; uid = ai_appUid (ar_abilityInfo (abilityAt h a)) in
          length (fold (\<lambda>l r. ml_GetActiveAbilityList h l uid r NO_PID) (mg_current s) []) = 1)"

section \<open>Reuse\<close>

definition ConvertBundleNameSingleton :: "string \<Rightarrow> string \<Rightarrow> string \<Rightarrow> int \<Rightarrow> string" where
  "ConvertBundleNameSingleton bundleName name moduleName appIndex =
     (if appIndex = 0 then ''#'' @ bundleName @ '':'' @ moduleName @ '':'' @ name
      else ''#'' @ bundleName @ '':'' @ to_string appIndex @ '':'' @ moduleName @ '':'' @ name)"

definition GetMissionName :: "ability_request \<Rightarrow> string" where
  "GetMissionName r =
     ConvertBundleNameSingleton (ai_bundleName (rq_abilityInfo r)) (ai_name (rq_abilityInfo r))
       (ai_moduleName (rq_abilityInfo r)) (rq_appIndex r)"

definition GetReusedSpecifiedMission :: "mlm \<Rightarrow> ability_request \<Rightarrow> ptr" where
  "GetReusedSpecifiedMission s r =
     (if ai_launchMode (rq_abilityInfo r) \<noteq> SPECIFIED then None
      else first_in (\<lambda>l. GetSpecifiedMission (mg_heap s) l (GetMissionName r) (rq_specifiedFlag r))
             ((if rq_isLauncherApp r then [mg_launcher s] else []) @ mg_current s @ [mg_defStandard s]))"

primrec recentListLoop :: "heap \<Rightarrow> string \<Rightarrow> nat list \<Rightarrow> string \<Rightarrow> ptr \<Rightarrow> string \<times> ptr" where
  "recentListLoop h name [] t reUsed = (t, reUsed)"
| "recentListLoop h name (l # ls) t reUsed =
     (case GetRecentStandardMission h l name of
        Some m \<Rightarrow> if ms_missionTime (missionAt h m) \<ge> t
                  then recentListLoop h name ls (ms_missionTime (missionAt h m)) (Some m)
                  else recentListLoop h name ls t reUsed
      | None \<Rightarrow> recentListLoop h name ls t reUsed)"

definition GetReusedStandardMission :: "mlm \<Rightarrow> ability_request \<Rightarrow> ptr" where
  "GetReusedStandardMission s r =
     (if ai_launchMode (rq_abilityInfo r) \<noteq> STANDARD then None
      else if \<not> rq_startRecent r then None
      else
        let h = mg_heap s; name = GetMissionName r;
            fromLauncher = (if rq_isLauncherApp r then GetRecentStandardMission h (mg_launcher s) name else None)
        in case fromLauncher of Some m \<Rightarrow> Some m
           | None \<Rightarrow>
               let (t, reUsed) = recentListLoop h name (mg_current s) ''0'' None
               in case GetRecentStandardMission h (mg_defStandard s) name of
                    Some m \<Rightarrow> if ms_missionTime (missionAt h m) \<ge> t then Some m else reUsed
                  | None \<Rightarrow> reUsed)"

definition GetReusedMission :: "mlm \<Rightarrow> ability_request \<Rightarrow> ptr" where
  "GetReusedMission s r =
     (case ai_launchMode (rq_abilityInfo r) of
        SPECIFIED \<Rightarrow> GetReusedSpecifiedMission s r
      | STANDARD \<Rightarrow> GetReusedStandardMission s r
      | SINGLETON \<Rightarrow>
          first_in (\<lambda>l. GetSingletonMissionByName (mg_heap s) l (GetMissionName r))
            ((if rq_isLauncherApp r then [mg_launcher s] else []) @ mg_current s @ [mg_defSingle s]))"

definition mlm_CheckSingleLimit :: "mlm \<Rightarrow> ability_request \<Rightarrow> bool" where
  "mlm_CheckSingleLimit s r =
     (if GetReusedMission s r = None then (if IsReachToSingleLimitLocked s (rq_uid r) then True else False)
      else False)"

section \<open>Choosing the target list\<close>

definition GetTargetMissionListByLauncher :: "ability_request \<Rightarrow> mlm \<Rightarrow> ptr \<times> mlm" where
  "GetTargetMissionListByLauncher r s =
     (let fresh = (let (l, s') = new_list CURRENT s in (Some l, s')) in
      case GetReusedMission s r of
        None \<Rightarrow> fresh
      | Some m \<Rightarrow>
          (case GetMissionList (mg_heap s) m of
             None \<Rightarrow> fresh
           | Some l \<Rightarrow> if l \<noteq> mg_defSingle s \<and> l \<noteq> mg_defStandard s then (Some l, s) else fresh))"

definition GetTargetMissionListByDefault :: "ptr \<Rightarrow> mlm \<Rightarrow> ptr \<times> mlm" where
  "GetTargetMissionListByDefault callerAbility s =
     (case callerAbility of None \<Rightarrow> (None, s)
      | Some a \<Rightarrow>
          (case GetMissionById s (ar_missionId (abilityAt (mg_heap s) a)) of None \<Rightarrow> (None, s)
           | Some callerMission \<Rightarrow>
               (case GetMissionList (mg_heap s) callerMission of None \<Rightarrow> (None, s)
                | Some callerList \<Rightarrow>
                    if callerList \<noteq> mg_defStandard s \<and> callerList \<noteq> mg_defSingle s then (Some callerList, s)
                    else let (l, s1) = new_list CURRENT s;
                             h1 = RemoveMission callerList (Some callerMission) (mg_heap s1);
                             h2 = AddMissionToTop l (Some callerMission) h1
                         in (Some l, s1\<lparr>mg_heap := h2\<rparr>))))"

definition GetTargetMissionList :: "ptr \<Rightarrow> ability_request \<Rightarrow> mlm \<Rightarrow> ptr \<times> mlm" where
  "GetTargetMissionList callerAbility r s =
     (if rq_isLauncherApp r then (Some (mg_launcher s), s)
      else case callerAbility of
        None \<Rightarrow> (let (l, s') = new_list CURRENT s in (Some l, s'))
      | Some a \<Rightarrow>
          if ar_isLauncherAbility (abilityAt (mg_heap s) a) then GetTargetMissionListByLauncher r s
          else GetTargetMissionListByDefault callerAbility s)"

section \<open>Moving missions\<close>

text \<open>
  The loop that pops the missions above \<open>mission\<close> into the default lists.  It would not end if
  \<open>missionList\<close> were itself the default list it pops into, so it is a partial function.
\<close>

partial_function (option) popLoop :: "nat \<Rightarrow> nat \<Rightarrow> nat \<Rightarrow> ptr \<Rightarrow> heap \<Rightarrow> heap option" where
  "popLoop single standard l mission h =
     (if IsEmpty h l then Some h
      else if GetTopMission h l = None \<or> GetTopMission h l = mission then Some h
      else popLoop single standard l mission
             (AddMissionToTop (if IsSingletonAbility (RemoveMission l (GetTopMission h l) h) (the (GetTopMission h l))
                               then single else standard)
                (GetTopMission h l) (RemoveMission l (GetTopMission h l) h)))"

definition MoveNoneTopMissionToDefaultList :: "ptr \<Rightarrow> mlm \<Rightarrow> mlm option" where
  "MoveNoneTopMissionToDefaultList mission s =
     (case mission of None \<Rightarrow> Some s
      | Some m \<Rightarrow>
          (case GetMissionList (mg_heap s) m of None \<Rightarrow> Some s
           | Some l \<Rightarrow>
               map_option (\<lambda>h. s\<lparr>mg_heap := h\<rparr>)
                 (popLoop (mg_defSingle s) (mg_defStandard s) l mission (mg_heap s))))"

text \<open>
  A list that is in no member any more loses its last owner when the function returns, so the
  \<open>weak_ptr\<close> of a mission to it expires.
\<close>

definition release :: "nat \<Rightarrow> mlm \<Rightarrow> mlm" where
  "release l s =
     (if l \<in> set (mg_current s) \<union> {mg_launcher s, mg_defStandard s, mg_defSingle s} then s
      else s\<lparr>mg_heap := (mg_heap s)\<lparr>listLive := (listLive (mg_heap s))(l := False)\<rparr>\<rparr>)"

definition MoveMissionToTargetList :: "bool \<Rightarrow> nat \<Rightarrow> ptr \<Rightarrow> mlm \<Rightarrow> mlm option" where
  "MoveMissionToTargetList isCallFromLauncher target mission s =
     (case mission of None \<Rightarrow> Some s
      | Some m \<Rightarrow>
          (case GetMissionList (mg_heap s) m of
             None \<Rightarrow> Some (s\<lparr>mg_heap := AddMissionToTop target mission (mg_heap s)\<rparr>)
           | Some l \<Rightarrow>
               if isCallFromLauncher \<and> target = mg_launcher s
               then Some (s\<lparr>mg_heap := AddMissionToTop target mission (mg_heap s)\<rparr>)
               else if l = mg_defSingle s \<or> l = mg_defStandard s
               then Some (s\<lparr>mg_heap := AddMissionToTop target mission (RemoveMission l mission (mg_heap s))\<rparr>)
               else
                 (case (if target \<noteq> l
                        then map_option (\<lambda>s1. s1\<lparr>mg_heap := RemoveMission l mission (mg_heap s1)\<rparr>)
                               (MoveNoneTopMissionToDefaultList mission s)
                        else if isCallFromLauncher then MoveNoneTopMissionToDefaultList mission s
                        else Some s) of
                    None \<Rightarrow> None
                  | Some s2 \<Rightarrow>
                      let s3 = s2\<lparr>mg_heap := AddMissionToTop target mission (mg_heap s2)\<rparr> in
                      Some (if IsEmpty (mg_heap s3) l
                            then release l (s3\<lparr>mg_current := removeAll l (mg_current s3)\<rparr>) else s3))))"

definition MoveMissionListToTop :: "nat \<Rightarrow> mlm \<Rightarrow> mlm" where
  "MoveMissionListToTop l s =
     (if mg_current s \<noteq> [] \<and> hd (mg_current s) = l then s
      else s\<lparr>mg_current := l # removeAll l (mg_current s)\<rparr>)"

definition RemoveMissionList :: "nat \<Rightarrow> mlm \<Rightarrow> mlm" where
  "RemoveMissionList l s = s\<lparr>mg_current := erase_first (\<lambda>x. x = l) (mg_current s)\<rparr>"

text \<open>
  \<open>RemoveBackgroundingAbility\<close> reads the top mission of the list, erases the mission of the ability,
  and puts the mission it read into a default list.
\<close>

definition RemoveBackgroundingAbility :: "ptr \<Rightarrow> mlm \<Rightarrow> mlm cpp" where
  "RemoveBackgroundingAbility rec s =
     (case rec of None \<Rightarrow> Inr s
      | Some a \<Rightarrow>
          (case mlm_GetMissionList s (ar_missionId (abilityAt (mg_heap s) a)) of None \<Rightarrow> Inr s
           | Some l \<Rightarrow>
               let mission = GetTopMission (mg_heap s) l in
               cpp_bind (RemoveMissionByAbilityRecord l rec (mg_heap s)) (\<lambda>h1.
               cpp_bind (deref mission) (\<lambda>m.
               let h2 = AddMissionToTop (if IsSingletonAbility h1 m then mg_defSingle s else mg_defStandard s) mission h1;
                   s1 = s\<lparr>mg_heap := h2\<rparr>
               in Inr (if IsEmpty h2 l then release l (RemoveMissionList l s1) else s1)))))"

section \<open>Applications\<close>

primrec uninstallLists :: "string \<Rightarrow> int \<Rightarrow> nat list \<Rightarrow> heap \<Rightarrow> nat list \<times> heap" where
  "uninstallLists bundleName uid [] h = ([], h)"
| "uninstallLists bundleName uid (l # ls) h =
     (let h1 = ml_HandleUnInstallApp l bundleName uid h;
          (rest, h2) = uninstallLists bundleName uid ls h1
      in (if IsEmpty h1 l then rest else l # rest, h2))"

definition EraseWaitingAbility :: "string \<Rightarrow> int \<Rightarrow> mlm \<Rightarrow> mlm" where
  "EraseWaitingAbility bundleName uid s =
     s\<lparr>mg_waiting := filter (\<lambda>r. \<not> (ai_bundleName (rq_abilityInfo r) = bundleName \<and> rq_uid r = uid)) (mg_waiting s)\<rparr>"

text \<open>The ids of the deleted records are returned; the listener controller is told about them.\<close>

definition AddUninstallTags ::
  "string \<Rightarrow> int \<Rightarrow> mlm \<Rightarrow> 'w mission_info_mgr \<Rightarrow> int list \<times> mlm \<times> 'w mission_info_mgr" where
  "AddUninstallTags bundleName uid s store =
     (let (current, h1) = uninstallLists bundleName uid (mg_current s) (mg_heap s);
          h2 = ml_HandleUnInstallApp (mg_defSingle s) bundleName uid h1;
          h3 = ml_HandleUnInstallApp (mg_defStandard s) bundleName uid h2;
          (matched, store') = mim_HandleUnInstallApp bundleName uid [] store
      in (matched, EraseWaitingAbility bundleName uid
            (fold release (mg_current s) (s\<lparr>mg_current := current, mg_heap := h3\<rparr>)), store'))"

definition mlm_SignRestartAppFlag :: "int \<Rightarrow> string \<Rightarrow> mlm \<Rightarrow> mlm" where
  "mlm_SignRestartAppFlag uid instanceKey s =
     s\<lparr>mg_heap := fold (\<lambda>l h. SignRestartAppFlag l uid instanceKey h)
        (mg_current s @ [mg_defStandard s, mg_defSingle s]) (mg_heap s)\<rparr>"

text \<open>The output list gets one entry per checked id: the id and whether it belongs to the caller.\<close>

primrec validLoop :: "int \<Rightarrow> int \<Rightarrow> 'w mission_info_mgr \<Rightarrow> int list \<Rightarrow> (int \<times> bool) list \<Rightarrow> (int \<times> bool) list" where
  "validLoop notFound callerUid store [] results = results"
| "validLoop notFound callerUid store (i # is) results =
     (case GetInnerMissionInfoById notFound i store of
        (code, Some info) \<Rightarrow>
          validLoop notFound callerUid store is
            (if callerUid \<noteq> imi_uid info then results @ [(i, False)] else results @ [(i, True)])
      | (code, None) \<Rightarrow> validLoop notFound callerUid store is (results @ [(i, False)]))"

definition IsValidMissionIds ::
  "int \<Rightarrow> int \<Rightarrow> 'w mission_info_mgr \<Rightarrow> int list \<Rightarrow> (int \<times> bool) list \<Rightarrow> (int \<times> bool) list" where
  "IsValidMissionIds notFound callerUid store missionIds results =
     validLoop notFound callerUid store (take 20 missionIds) results"

section \<open>Every mission is in exactly one list\<close>

text \<open>
  \<open>lists_ok L h\<close>: the lists of \<open>L\<close> hold no null and no duplicate, and a mission of a list has that
  list as its owner, so no two lists share a mission.  \<open>held L h\<close> are the missions in them.
\<close>

definition lists_ok :: "nat set \<Rightarrow> heap \<Rightarrow> bool" where
  "lists_ok L h \<longleftrightarrow> (\<forall>l\<in>L. distinct (missions_of h l) \<and> None \<notin> set (missions_of h l) \<and> listLive h l \<and>
     (\<forall>m. Some m \<in> set (missions_of h l) \<longrightarrow> ms_ownerMissionList (missionAt h m) = Some l))"

definition held :: "nat set \<Rightarrow> heap \<Rightarrow> nat set" where
  "held L h = {m. \<exists>l\<in>L. Some m \<in> set (missions_of h l)}"

lemma lists_okD:
  assumes "lists_ok L h" "l \<in> L"
  shows "distinct (missions_of h l)" "None \<notin> set (missions_of h l)" "listLive h l"
    "Some m \<in> set (missions_of h l) \<Longrightarrow> ms_ownerMissionList (missionAt h m) = Some l"
  using assms by (auto simp: lists_ok_def)

lemma lists_ok_disjoint:
  "lists_ok L h \<Longrightarrow> l \<in> L \<Longrightarrow> l' \<in> L \<Longrightarrow> Some m \<in> set (missions_of h l) \<Longrightarrow>
     Some m \<in> set (missions_of h l') \<Longrightarrow> l = l'"
  using lists_okD(4) by (metis option.inject)

lemma GetMissionList_in:
  "lists_ok L h \<Longrightarrow> l \<in> L \<Longrightarrow> Some m \<in> set (missions_of h l) \<Longrightarrow> GetMissionList h m = Some l"
  by (simp add: GetMissionList_def lists_okD)

lemma Add_lists_ok:
  assumes ok: "lists_ok L h" and l: "l \<in> L" and only: "\<And>l'. l' \<in> L \<Longrightarrow> Some m \<in> set (missions_of h l') \<Longrightarrow> l' = l"
  shows "lists_ok L (AddMissionToTop l (Some m) h)"
    and "held L (AddMissionToTop l (Some m) h) = insert m (held L h)"
proof -
  let ?h = "AddMissionToTop l (Some m) h"
  have ms: "missions_of ?h k = (if k = l then Some m # removeAll (Some m) (missions_of h l) else missions_of h k)" for k
    using AddMissionToTop_missions [OF lists_okD(1) [OF ok l]] AddMissionToTop_other by simp
  have own: "ms_ownerMissionList (missionAt ?h k) = (if k = m then Some l else ms_ownerMissionList (missionAt h k))" for k
  proof (cases "k = m")
    case True
    with AddMissionToTop_owner [OF lists_okD(4) [OF ok l]] show ?thesis by simp
  next
    case False
    with AddMissionToTop_owner_other [of k m l h] show ?thesis by simp
  qed
  show "lists_ok L ?h"
    unfolding lists_ok_def
  proof (intro ballI conjI allI impI)
    fix k assume k: "k \<in> L"
    note okk = lists_okD [OF ok k]
    show "distinct (missions_of ?h k)" unfolding ms using okk(1) by (auto simp: distinct_removeAll)
    show "None \<notin> set (missions_of ?h k)" unfolding ms using okk(2) by auto
    show "listLive ?h k" using okk(3) by simp
    fix x assume "Some x \<in> set (missions_of ?h k)"
    then have "x = m \<and> k = l \<or> x \<noteq> m \<and> Some x \<in> set (missions_of h k)"
      using only [OF k] unfolding ms by (auto split: if_splits)
    with okk(4) [of x] show "ms_ownerMissionList (missionAt ?h x) = Some k" unfolding own by auto
  qed
  show "held L ?h = insert m (held L h)"
    unfolding held_def ms using l by auto
qed

lemma Remove_lists_ok:
  assumes ok: "lists_ok L h"
  shows "lists_ok L (RemoveMission l p h)"
    and "l \<in> L \<Longrightarrow> Some m \<in> set (missions_of h l) \<Longrightarrow> held L (RemoveMission l (Some m) h) = held L h - {m}"
proof -
  have ms: "missions_of (RemoveMission l p h) k = (if k = l then removeAll p (missions_of h l) else missions_of h k)"
    if "k \<in> L" for k p
    using RemoveMission_missions [of h l p] lists_okD(1) [OF ok that] by (cases "k = l") auto
  show "lists_ok L (RemoveMission l p h)"
    using ok by (auto simp: lists_ok_def ms distinct_removeAll)
  assume "l \<in> L" "Some m \<in> set (missions_of h l)"
  then show "held L (RemoveMission l (Some m) h) = held L h - {m}"
    using lists_ok_disjoint [OF ok] by (fastforce simp: held_def ms split: if_splits)
qed

lemma Remove_gone:
  assumes "lists_ok L h" "l \<in> L" "Some m \<in> set (missions_of h l)" "l' \<in> L"
  shows "Some m \<notin> set (missions_of (RemoveMission l (Some m) h) l')"
proof -
  have "held L (RemoveMission l (Some m) h) = held L h - {m}" by (rule Remove_lists_ok(2) [OF assms(1,2,3)])
  with assms(4) show ?thesis by (auto simp: held_def)
qed

text \<open>Moving a mission from one list to the top of another keeps all missions.\<close>

lemma move_lists_ok:
  assumes "lists_ok L h" "l \<in> L" "Some m \<in> set (missions_of h l)" "l' \<in> L"
  shows "lists_ok L (AddMissionToTop l' (Some m) (RemoveMission l (Some m) h))"
    and "held L (AddMissionToTop l' (Some m) (RemoveMission l (Some m) h)) = held L h"
proof -
  have ok: "lists_ok L (RemoveMission l (Some m) h)" by (rule Remove_lists_ok(1) [OF assms(1)])
  have gone: "\<And>k. k \<in> L \<Longrightarrow> Some m \<in> set (missions_of (RemoveMission l (Some m) h) k) \<Longrightarrow> k = l'"
    using Remove_gone [OF assms(1,2,3)] by blast
  show "lists_ok L (AddMissionToTop l' (Some m) (RemoveMission l (Some m) h))"
    by (rule Add_lists_ok(1) [OF ok assms(4) gone])
  have "m \<in> held L h" using assms(2,3) by (auto simp: held_def)
  then show "held L (AddMissionToTop l' (Some m) (RemoveMission l (Some m) h)) = held L h"
    using Add_lists_ok(2) [OF ok assms(4) gone] Remove_lists_ok(2) [OF assms(1,2,3)] by auto
qed

section \<open>The popping loop\<close>

definition popOne :: "nat \<Rightarrow> nat \<Rightarrow> nat \<Rightarrow> ptr \<Rightarrow> heap \<Rightarrow> heap" where
  "popOne single standard l p h =
     AddMissionToTop (if IsSingletonAbility h (the p) then single else standard) p (RemoveMission l p h)"

lemma IsSingletonAbility_Remove [simp]: "IsSingletonAbility (RemoveMission l p h) = IsSingletonAbility h"
  by (simp add: IsSingletonAbility_def fun_eq_iff split: option.split)

lemma popOne_missions:
  assumes "distinct (missions_of h l)" "l \<noteq> single" "l \<noteq> standard" "missions_of h l = p # ps"
  shows "missions_of (popOne single standard l p h) l = ps"
  using assms by (auto simp: popOne_def AddMissionToTop_other RemoveMission_missions)

lemma popLoop_eq:
  assumes "l \<noteq> single" "l \<noteq> standard"
  shows "distinct (missions_of h l) \<Longrightarrow> None \<notin> set (missions_of h l) \<Longrightarrow>
     popLoop single standard l mission h =
       Some (fold (popOne single standard l) (takeWhile (\<lambda>p. p \<noteq> mission) (missions_of h l)) h)"
proof (induction "missions_of h l" arbitrary: h)
  case Nil
  from Nil.hyps have "missions_of h l = []" by simp
  then show ?case by (subst popLoop.simps) (simp add: IsEmpty_def)
next
  case (Cons p ps)
  then have ms: "missions_of h l = p # ps" by simp
  show ?case
  proof (cases "p = mission")
    case True
    with ms show ?thesis by (subst popLoop.simps) (simp add: IsEmpty_def GetTopMission_def)
  next
    case False
    let ?h = "popOne single standard l p h"
    have p: "p \<noteq> None" using Cons.prems(2) unfolding ms by (metis list.set_intros(1))
    have "popLoop single standard l mission h = popLoop single standard l mission ?h"
      using False ms p by (subst popLoop.simps) (auto simp: IsEmpty_def GetTopMission_def popOne_def)
    moreover have msh: "missions_of ?h l = ps" by (rule popOne_missions [OF Cons.prems(1) assms ms])
    ultimately show ?thesis
      using Cons.hyps(1) [of ?h] Cons.prems False ms by simp
  qed
qed

lemma pop_lists_ok:
  assumes "lists_ok L h" "l \<in> L" "single \<in> L" "standard \<in> L" "l \<noteq> single" "l \<noteq> standard"
    and "missions_of h l = ps @ rest"
  shows "lists_ok L (fold (popOne single standard l) ps h) \<and>
    held L (fold (popOne single standard l) ps h) = held L h \<and>
    missions_of (fold (popOne single standard l) ps h) l = rest"
  using assms(1,7)
proof (induction ps arbitrary: h)
  case (Cons p ps)
  then have d: "distinct (missions_of h l)" "None \<notin> set (missions_of h l)"
    using lists_okD [OF Cons.prems(1) assms(2)] by blast+
  with Cons.prems(2) obtain m where p: "p = Some m" by (cases p) auto
  let ?h = "popOne single standard l p h" and ?dest = "if IsSingletonAbility h m then single else standard"
  have "Some m \<in> set (missions_of h l)" using Cons.prems(2) p by simp
  moreover have "?dest \<in> L" using assms(3,4) by simp
  ultimately have "lists_ok L ?h" "held L ?h = held L h"
    using move_lists_ok [OF Cons.prems(1) assms(2)] p by (simp_all add: popOne_def)
  moreover have "missions_of ?h l = ps @ rest"
    using popOne_missions [OF d(1) assms(5,6)] Cons.prems(2) by simp
  ultimately show ?case using Cons.IH [of ?h] by simp
qed simp

lemma takeWhile_split: "x \<in> set xs \<Longrightarrow> \<exists>ys. xs = takeWhile (\<lambda>p. p \<noteq> x) xs @ x # ys"
  by (metis (mono_tags, lifting) dropWhile_eq_Cons_conv list.exhaust_sel takeWhile_dropWhile_id dropWhile_eq_Nil_conv hd_dropWhile)

lemma popLoop_lists_ok:
  assumes "lists_ok L h" "l \<in> L" "single \<in> L" "standard \<in> L" "l \<noteq> single" "l \<noteq> standard"
    and "Some m \<in> set (missions_of h l)"
  shows "\<exists>h1 ys. popLoop single standard l (Some m) h = Some h1 \<and> lists_ok L h1 \<and> held L h1 = held L h \<and>
    missions_of h1 l = Some m # ys"
proof -
  obtain ys where ys: "missions_of h l = takeWhile (\<lambda>p. p \<noteq> Some m) (missions_of h l) @ Some m # ys"
    using takeWhile_split [OF assms(7)] by blast
  show ?thesis
    using popLoop_eq [OF assms(5,6) lists_okD(1,2) [OF assms(1,2)], of "Some m"]
      pop_lists_ok [OF assms(1-6) ys] by blast
qed

section \<open>The manager's invariant\<close>

definition managed :: "mlm \<Rightarrow> nat set" where
  "managed s = set (mg_current s) \<union> {mg_launcher s, mg_defStandard s, mg_defSingle s}"

definition mlm_inv :: "mlm \<Rightarrow> bool" where
  "mlm_inv s \<longleftrightarrow> lists_ok (managed s) (mg_heap s) \<and> distinct (mg_current s) \<and>
     mg_defStandard s \<notin> set (mg_current s) \<and> mg_defSingle s \<notin> set (mg_current s) \<and>
     mg_defStandard s \<noteq> mg_defSingle s \<and> mg_launcher s \<noteq> mg_defStandard s \<and> mg_launcher s \<noteq> mg_defSingle s"

abbreviation heldBy :: "mlm \<Rightarrow> nat set" where
  "heldBy s \<equiv> held (managed s) (mg_heap s)"

lemma lists_ok_subset: "lists_ok L h \<Longrightarrow> L' \<subseteq> L \<Longrightarrow> lists_ok L' h"
  by (auto simp: lists_ok_def)

lemma lists_ok_insert_empty:
  "lists_ok L h \<Longrightarrow> missions_of h l = [] \<Longrightarrow> listLive h l \<Longrightarrow> lists_ok (insert l L) h"
  by (simp add: lists_ok_def)

lemma held_insert_empty: "missions_of h l = [] \<Longrightarrow> held (insert l L) h = held L h"
  by (simp add: held_def)

lemma lists_ok_kill:
  "lists_ok L h \<Longrightarrow> l \<notin> L \<Longrightarrow> lists_ok L (h\<lparr>listLive := (listLive h)(l := False)\<rparr>)"
  by (auto simp: lists_ok_def)

lemma held_kill [simp]: "held L (h\<lparr>listLive := f\<rparr>) = held L h"
  by (simp add: held_def)

lemma GetTopMission_Add:
  "distinct (missions_of h l) \<Longrightarrow> GetTopMission (AddMissionToTop l (Some m) h) l = Some m"
  by (simp add: GetTopMission_def AddMissionToTop_missions)

definition sameMembers :: "mlm \<Rightarrow> mlm \<Rightarrow> bool" where
  "sameMembers s s' \<longleftrightarrow> mg_launcher s' = mg_launcher s \<and> mg_defStandard s' = mg_defStandard s \<and>
     mg_defSingle s' = mg_defSingle s"

text \<open>
  The state a move leaves: every list of the manager and the target list are well formed, nothing
  is lost, the mission is on top of the target, and a list leaves the screen only when it is empty.
\<close>

definition moved :: "nat \<Rightarrow> nat \<Rightarrow> mlm \<Rightarrow> mlm \<Rightarrow> bool" where
  "moved target m s s' \<longleftrightarrow> sameMembers s s' \<and>
     lists_ok (insert target (managed s')) (mg_heap s') \<and>
     held (insert target (managed s')) (mg_heap s') = insert m (heldBy s) \<and>
     GetTopMission (mg_heap s') target = Some m \<and>
     (mg_current s' = mg_current s \<or> (\<exists>l. mg_current s' = removeAll l (mg_current s)))"

lemma moved_heap:
  assumes "lists_ok (insert target (managed s)) h'" "held (insert target (managed s)) h' = insert m (heldBy s)"
    "GetTopMission h' target = Some m"
  shows "moved target m s (s\<lparr>mg_heap := h'\<rparr>)"
  using assms by (simp add: moved_def sameMembers_def managed_def)

lemma moved_drop:
  assumes "moved target m s s'" "mg_current s' = mg_current s" "IsEmpty (mg_heap s') l" "l \<noteq> target"
  shows "moved target m s (release l (s'\<lparr>mg_current := removeAll l (mg_current s')\<rparr>))"
proof -
  let ?t = "s'\<lparr>mg_current := removeAll l (mg_current s')\<rparr>"
  have sub: "insert target (managed ?t) \<subseteq> insert target (managed s')" by (auto simp: managed_def)
  have ok: "lists_ok (insert target (managed ?t)) (mg_heap s')"
    using assms(1) sub by (auto simp: moved_def intro: lists_ok_subset)
  have "held (insert target (managed ?t)) (mg_heap s') = held (insert target (managed s')) (mg_heap s')"
    using assms(3) by (auto simp: held_def managed_def IsEmpty_def)
  with assms(1) have h: "held (insert target (managed ?t)) (mg_heap s') = insert m (heldBy s)" by (simp add: moved_def)
  show ?thesis
  proof (cases "l \<in> set (mg_current ?t) \<union> {mg_launcher ?t, mg_defStandard ?t, mg_defSingle ?t}")
    case True
    then have "release l ?t = ?t" by (simp add: release_def)
    then show ?thesis using assms(1,2) ok h by (simp add: moved_def sameMembers_def) blast
  next
    case False
    then have r: "release l ?t = ?t\<lparr>mg_heap := (mg_heap s')\<lparr>listLive := (listLive (mg_heap s'))(l := False)\<rparr>\<rparr>"
      by (simp add: release_def)
    have "l \<notin> insert target (managed ?t)" using False assms(4) by (auto simp: managed_def)
    then have "lists_ok (insert target (managed ?t)) ((mg_heap s')\<lparr>listLive := (listLive (mg_heap s'))(l := False)\<rparr>)"
      using ok by (rule lists_ok_kill [rotated])
    moreover have "managed (?t\<lparr>mg_heap := x\<rparr>) = managed ?t" for x by (simp add: managed_def)
    ultimately show ?thesis
      unfolding r using assms(1,2) h by (simp add: moved_def sameMembers_def GetTopMission_def) blast
  qed
qed

definition validTarget :: "nat \<Rightarrow> mlm \<Rightarrow> bool" where
  "validTarget target s \<longleftrightarrow> target \<noteq> mg_defStandard s \<and> target \<noteq> mg_defSingle s \<and>
     (target \<in> managed s \<or> missions_of (mg_heap s) target = [] \<and> listLive (mg_heap s) target)"

lemma validTarget_ok:
  assumes "mlm_inv s" "validTarget target s"
  shows "lists_ok (insert target (managed s)) (mg_heap s)"
    and "held (insert target (managed s)) (mg_heap s) = heldBy s"
  using assms lists_ok_insert_empty held_insert_empty
  by (auto simp: mlm_inv_def validTarget_def insert_absorb)

lemma MoveMissionToTargetList_new:
  assumes "mlm_inv s" "validTarget target s" "GetMissionList (mg_heap s) m = None"
  shows "\<exists>s'. MoveMissionToTargetList fl target (Some m) s = Some s' \<and> moved target m s s' \<and> mg_current s' = mg_current s"
proof -
  note ok = validTarget_ok [OF assms(1,2)]
  have none: "l' \<in> insert target (managed s) \<Longrightarrow> Some m \<in> set (missions_of (mg_heap s) l') \<Longrightarrow> l' = target" for l'
    using GetMissionList_in [OF ok(1)] assms(3) by force
  let ?h = "AddMissionToTop target (Some m) (mg_heap s)"
  have "moved target m s (s\<lparr>mg_heap := ?h\<rparr>)"
    by (rule moved_heap) (use Add_lists_ok [OF ok(1) insertI1 none] ok(2)
        GetTopMission_Add [OF lists_okD(1) [OF ok(1) insertI1]] in simp_all)
  then show ?thesis using assms(3) by (simp add: MoveMissionToTargetList_def)
qed

lemma MoveMissionToTargetList_default:
  assumes inv: "mlm_inv s" and tgt: "validTarget target s" and l: "l = mg_defSingle s \<or> l = mg_defStandard s"
    and m: "Some m \<in> set (missions_of (mg_heap s) l)" and nb: "\<not> (fl \<and> target = mg_launcher s)"
  shows "\<exists>s'. MoveMissionToTargetList fl target (Some m) s = Some s' \<and> moved target m s s' \<and> mg_current s' = mg_current s"
proof -
  note ok = validTarget_ok [OF inv tgt]
  have lm: "l \<in> insert target (managed s)" using l by (auto simp: managed_def)
  have g: "GetMissionList (mg_heap s) m = Some l" by (rule GetMissionList_in [OF ok(1) lm m])
  let ?h = "AddMissionToTop target (Some m) (RemoveMission l (Some m) (mg_heap s))"
  have mh: "m \<in> heldBy s" using m l by (auto simp: held_def managed_def)
  have "moved target m s (s\<lparr>mg_heap := ?h\<rparr>)"
    by (rule moved_heap) (use move_lists_ok [OF ok(1) lm m insertI1] ok(2) mh
        GetTopMission_Add [OF lists_okD(1) [OF Remove_lists_ok(1) [OF ok(1)] insertI1]] in \<open>simp_all add: insert_absorb\<close>)
  then show ?thesis using g l nb by (auto simp: MoveMissionToTargetList_def)
qed

lemma MoveMissionToTargetList_stay:
  assumes inv: "mlm_inv s" and tgt: "validTarget target s" and m: "Some m \<in> set (missions_of (mg_heap s) target)"
  shows "\<exists>s'. MoveMissionToTargetList fl target (Some m) s = Some s' \<and> moved target m s s'"
proof -
  note ok = validTarget_ok [OF inv tgt]
  have nd: "target \<noteq> mg_defSingle s" "target \<noteq> mg_defStandard s" using tgt by (auto simp: validTarget_def)
  have tm: "target \<in> managed s" using tgt m by (auto simp: validTarget_def)
  have mh: "m \<in> heldBy s" using m tm by (auto simp: held_def)
  have g: "GetMissionList (mg_heap s) m = Some target" by (rule GetMissionList_in [OF ok(1) insertI1 m])
  have add: "moved target m s (s\<lparr>mg_heap := AddMissionToTop target (Some m) h\<rparr>)"
    if h: "lists_ok (insert target (managed s)) h" "held (insert target (managed s)) h = heldBy s"
      "Some m \<in> set (missions_of h target)" for h
    by (rule moved_heap) (use Add_lists_ok [OF h(1) insertI1] lists_ok_disjoint [OF h(1) _ insertI1 _ h(3)] h(2) mh
        GetTopMission_Add [OF lists_okD(1) [OF h(1) insertI1]] in \<open>auto simp: insert_absorb\<close>)
  have ne: "\<not> IsEmpty (AddMissionToTop target (Some m) h) target"
    if "lists_ok (insert target (managed s)) h" for h
    using AddMissionToTop_missions [OF lists_okD(1) [OF that insertI1]] by (simp add: IsEmpty_def)
  obtain h1 ys where p: "popLoop (mg_defSingle s) (mg_defStandard s) target (Some m) (mg_heap s) = Some h1"
    "lists_ok (insert target (managed s)) h1" "held (insert target (managed s)) h1 = heldBy s" "missions_of h1 target = Some m # ys"
    using popLoop_lists_ok [OF ok(1) insertI1 _ _ nd m] ok(2) by (auto simp: managed_def)
  have pop: "MoveNoneTopMissionToDefaultList (Some m) s = Some (s\<lparr>mg_heap := h1\<rparr>)"
    using g p(1) by (simp add: MoveNoneTopMissionToDefaultList_def)
  show ?thesis
    using g nd pop ne [OF p(2)] ne [OF ok(1)] add [OF p(2,3)] add [OF ok m] p(4)
    by (cases fl; cases "target = mg_launcher s") (auto simp: MoveMissionToTargetList_def Let_def)
qed

lemma MoveMissionToTargetList_change:
  assumes inv: "mlm_inv s" and tgt: "validTarget target s" and l: "l \<in> managed s" "l \<noteq> target"
    and nd: "l \<noteq> mg_defSingle s" "l \<noteq> mg_defStandard s"
    and m: "Some m \<in> set (missions_of (mg_heap s) l)" and nb: "\<not> (fl \<and> target = mg_launcher s)"
  shows "\<exists>s'. MoveMissionToTargetList fl target (Some m) s = Some s' \<and> moved target m s s'"
proof -
  note ok = validTarget_ok [OF inv tgt]
  have lm: "l \<in> insert target (managed s)" using l by simp
  have mh: "m \<in> heldBy s" using m l by (auto simp: held_def)
  have g: "GetMissionList (mg_heap s) m = Some l" by (rule GetMissionList_in [OF ok(1) lm m])
  obtain h1 ys where p: "popLoop (mg_defSingle s) (mg_defStandard s) l (Some m) (mg_heap s) = Some h1"
    "lists_ok (insert target (managed s)) h1" "held (insert target (managed s)) h1 = heldBy s" "missions_of h1 l = Some m # ys"
    using popLoop_lists_ok [OF ok(1) lm _ _ nd m] ok(2) by (auto simp: managed_def)
  have pop: "MoveNoneTopMissionToDefaultList (Some m) s = Some (s\<lparr>mg_heap := h1\<rparr>)"
    using g p(1) by (simp add: MoveNoneTopMissionToDefaultList_def)
  let ?h = "AddMissionToTop target (Some m) (RemoveMission l (Some m) h1)"
  have mv: "moved target m s (s\<lparr>mg_heap := ?h\<rparr>)"
    by (rule moved_heap) (use move_lists_ok [OF p(2) lm _ insertI1, of m] p(3,4) mh
        GetTopMission_Add [OF lists_okD(1) [OF Remove_lists_ok(1) [OF p(2)] insertI1]] in \<open>simp_all add: insert_absorb\<close>)
  show ?thesis
    using g nd l(2) nb pop mv moved_drop [OF mv] by (auto simp: MoveMissionToTargetList_def Let_def)
qed

lemma MoveMissionListToTop_inv:
  assumes "moved target m s s'" "mlm_inv s" "validTarget target s"
  shows "mlm_inv (MoveMissionListToTop target s')" "heldBy (MoveMissionListToTop target s') = insert m (heldBy s)"
    "hd (mg_current (MoveMissionListToTop target s')) = target"
    "GetTopMission (mg_heap (MoveMissionListToTop target s')) target = Some m"
proof -
  let ?t = "MoveMissionListToTop target s'"
  have man: "managed ?t = insert target (managed s')" and heap: "mg_heap ?t = mg_heap s'"
    by (auto simp: MoveMissionListToTop_def managed_def dest: hd_in_set)
  have cur: "set (mg_current s') \<subseteq> set (mg_current s)" "distinct (mg_current s')"
    using assms(1,2) by (auto simp: moved_def mlm_inv_def distinct_removeAll)
  then have "distinct (mg_current ?t)" "set (mg_current ?t) \<subseteq> insert target (set (mg_current s))"
    by (auto simp: MoveMissionListToTop_def distinct_removeAll)
  with assms man heap show "mlm_inv ?t"
    by (auto simp: mlm_inv_def moved_def validTarget_def sameMembers_def MoveMissionListToTop_def)
  show "heldBy ?t = insert m (heldBy s)" "hd (mg_current ?t) = target" "GetTopMission (mg_heap ?t) target = Some m"
    using assms(1) man heap by (auto simp: moved_def MoveMissionListToTop_def)
qed

section \<open>Properties: moving missions\<close>

definition exAbility :: "nat \<Rightarrow> ability_record" where
  "exAbility i = \<lparr>ar_abilityInfo = \<lparr>ai_name = ''Main'', ai_bundleName = ''app'', ai_deviceId = '''', ai_moduleName = ''entry'',
       ai_launchMode = STANDARD, ai_appBundleName = ''app'', ai_appUid = 7\<rparr>,
     ar_token = Some i, ar_recordId = int i, ar_missionId = int i, ar_isMissionAbility = True,
     ar_isLauncherAbility = False, ar_uid = 7, ar_pid = 1, ar_specifiedFlag = '''', ar_instanceKey = '''',
     ar_isLauncherRoot = False, ar_currentState = BACKGROUND, ar_isUninstall = False, ar_isRestartApp = False,
     ar_callerList = []\<rparr>"

text \<open>Lists 0 (launcher), 1 and 2 (defaults) are empty or hold mission 4; list 3 holds missions 1 and 2.\<close>

definition exHeap :: heap where
  "exHeap = \<lparr>missionAt = (\<lambda>i. (new_Mission (int i) (Some i) ''#app:entry:Main'' 0)
        \<lparr>ms_ownerMissionList := (if i \<in> {1, 2} then Some 3 else if i = 4 then Some 1 else None),
         ms_missionTime := nat_str i\<rparr>),
     abilityAt = exAbility,
     listAt = (\<lambda>l. if l = 3 then \<lparr>ml_type = CURRENT, ml_missions = [Some 1, Some 2]\<rparr>
                  else if l = 1 then \<lparr>ml_type = DEFAULT_STANDARD, ml_missions = [Some 4]\<rparr>
                  else \<lparr>ml_type = (if l = 2 then DEFAULT_SINGLE else LAUNCHER), ml_missions = []\<rparr>),
     listLive = (\<lambda>_. True)\<rparr>"

definition exMlm :: mlm where
  "exMlm = \<lparr>mg_heap = exHeap, mg_current = [3, 0], mg_launcher = 0, mg_defStandard = 1, mg_defSingle = 2,
     mg_terminate = [], mg_waiting = [], mg_next = 9\<rparr>"

lemma exMlm_inv: "mlm_inv exMlm"
  by (auto simp: mlm_inv_def managed_def lists_ok_def exMlm_def exHeap_def new_Mission_def)



text \<open>
  when the launcher starts a launcher ability whose mission is in another list, the mission is
  put on the launcher list and not removed from the list it was in: afterwards it is in both.
\<close>

theorem MoveMission_launcher_duplicates:
  assumes "mlm_inv s" "l \<in> managed s" "l \<noteq> mg_launcher s" "Some m \<in> set (missions_of (mg_heap s) l)"
  shows "\<exists>s'. MoveMissionToTargetList True (mg_launcher s) (Some m) s = Some s' \<and>
    Some m \<in> set (missions_of (mg_heap s') l) \<and> Some m \<in> set (missions_of (mg_heap s') (mg_launcher s)) \<and> \<not> mlm_inv s'"
proof -
  have ok: "lists_ok (managed s) (mg_heap s)" and lm: "mg_launcher s \<in> managed s"
    using assms(1) by (simp_all add: mlm_inv_def managed_def)
  have g: "GetMissionList (mg_heap s) m = Some l" by (rule GetMissionList_in [OF ok assms(2,4)])
  let ?s = "s\<lparr>mg_heap := AddMissionToTop (mg_launcher s) (Some m) (mg_heap s)\<rparr>"
  have both: "Some m \<in> set (missions_of (mg_heap ?s) l)" "Some m \<in> set (missions_of (mg_heap ?s) (mg_launcher s))"
    using assms(3,4) by (simp_all add: AddMissionToTop_other AddMissionToTop_missions lists_okD(1) [OF ok lm])
  have "\<not> mlm_inv ?s"
  proof
    assume "mlm_inv ?s"
    then have "lists_ok (managed s) (mg_heap ?s)" by (simp add: mlm_inv_def managed_def)
    from lists_ok_disjoint [OF this assms(2) lm both] assms(3) show False by simp
  qed
  with both g show ?thesis by (simp add: MoveMissionToTargetList_def)
qed

theorem MoveMission_launcher_duplicates_witness:
  "\<exists>s'. MoveMissionToTargetList True 0 (Some 1) exMlm = Some s' \<and> \<not> mlm_inv s'"
  using MoveMission_launcher_duplicates [OF exMlm_inv, of 3 1]
  by (auto simp: managed_def exMlm_def exHeap_def)

text \<open>
  choosing the target list for a caller whose mission is in a default list takes that mission out
  of the default list and into a new list that no member of the manager holds yet.  If the start then
  fails before the list is put on top (the instance limit, a terminating target), the caller's mission
  is in no list of the manager.
\<close>

theorem GetTargetMissionListByDefault_unlinks:
  assumes "mlm_inv s" "mg_next s \<notin> managed s"
    and "GetMissionById s (ar_missionId (abilityAt (mg_heap s) a)) = Some m"
    and "l = mg_defStandard s \<or> l = mg_defSingle s" "Some m \<in> set (missions_of (mg_heap s) l)"
  shows "\<exists>s'. GetTargetMissionListByDefault (Some a) s = (Some (mg_next s), s') \<and>
    heldBy s' = heldBy s - {m} \<and> missions_of (mg_heap s') (mg_next s) = [Some m]"
proof -
  let ?n = "mg_next s" and ?h = "mg_heap s"
  have ok: "lists_ok (managed s) ?h" and lm: "l \<in> managed s" using assms(1,4) by (auto simp: mlm_inv_def managed_def)
  have g: "GetMissionList ?h m = Some l" by (rule GetMissionList_in [OF ok lm assms(5)])
  let ?h0 = "?h\<lparr>listAt := (listAt ?h)(?n := \<lparr>ml_type = CURRENT, ml_missions = []\<rparr>), listLive := (listLive ?h)(?n := True)\<rparr>"
  have ok0: "lists_ok (managed s) ?h0" and held0: "held (managed s) ?h0 = heldBy s"
  proof -
    have eq: "missions_of ?h0 k = missions_of ?h k" "listLive ?h0 k = listLive ?h k" if "k \<in> managed s" for k
      using that assms(2) by auto
    show "lists_ok (managed s) ?h0" using ok eq by (simp add: lists_ok_def)
    show "held (managed s) ?h0 = heldBy s" unfolding held_def using assms(2) by (auto split: if_splits) (metis assms(2))
  qed
  have m0: "Some m \<in> set (missions_of ?h0 l)" using assms(2,5) lm by auto
  let ?h2 = "AddMissionToTop ?n (Some m) (RemoveMission l (Some m) ?h0)"
  have nl: "?n \<noteq> l" using assms(2) lm by blast
  have "held (managed s) ?h2 = held (managed s) (RemoveMission l (Some m) ?h0)"
  proof -
    have "missions_of ?h2 k = missions_of (RemoveMission l (Some m) ?h0) k" if "k \<in> managed s" for k
      by (rule AddMissionToTop_other) (use that assms(2) in blast)
    then show ?thesis by (simp add: held_def)
  qed
  also have "\<dots> = heldBy s - {m}" using Remove_lists_ok(2) [OF ok0 lm m0] held0 by simp
  finally have "held (managed s) ?h2 = heldBy s - {m}" .
  moreover have "missions_of ?h2 ?n = [Some m]" using nl by (simp add: AddMissionToTop_missions)
  moreover have "GetTargetMissionListByDefault (Some a) s = (Some ?n, s\<lparr>mg_heap := ?h2, mg_next := ?n + 1\<rparr>)"
    using assms(3,4) g by (auto simp: GetTargetMissionListByDefault_def new_list_def Let_def)
  ultimately show ?thesis by (simp add: managed_def)
qed

theorem GetTargetMissionListByDefault_unlinks_witness:
  "4 \<in> heldBy exMlm \<and> 4 \<notin> heldBy (snd (GetTargetMissionListByDefault (Some 4) exMlm))"
proof -
  have h: "4 \<in> heldBy exMlm" by (auto simp: held_def managed_def exMlm_def exHeap_def)
  have "GetMissionById exMlm (ar_missionId (abilityAt (mg_heap exMlm) 4)) = Some 4"
    by (simp add: GetMissionById_def ml_GetMissionById_def exMlm_def exHeap_def exAbility_def new_Mission_def)
  moreover have "mg_next exMlm \<notin> managed exMlm" by (simp add: managed_def exMlm_def)
  moreover have one: "1 = mg_defStandard exMlm" by (simp add: exMlm_def)
  moreover have m: "Some 4 \<in> set (missions_of (mg_heap exMlm) 1)" by (simp add: exMlm_def exHeap_def)
  ultimately show ?thesis
    using GetTargetMissionListByDefault_unlinks [OF exMlm_inv, where a = 4 and m = 4 and l = 1] h
    by (metis Diff_iff insertI1 snd_conv)
qed

section \<open>Properties: searches\<close>

lemma earliest_fold:
  assumes "fold (\<lambda>l e. ml_FindEarliestMission h l e) ls target = Some m"
  shows "(target = Some m \<or> (\<exists>l\<in>set ls. Some m \<in> set (missions_of h l) \<and> earliestCand h (Some m))) \<and>
    (\<forall>x. target = Some x \<longrightarrow> ms_missionTime (missionAt h m) \<le> ms_missionTime (missionAt h x)) \<and>
    (\<forall>l\<in>set ls. \<forall>x. Some x \<in> set (missions_of h l) \<longrightarrow> earliestCand h (Some x) \<longrightarrow>
       ms_missionTime (missionAt h m) \<le> ms_missionTime (missionAt h x))"
  using assms
proof (induction ls arbitrary: target)
  case (Cons l ls)
  let ?t = "ml_FindEarliestMission h l target"
  have IH: "(?t = Some m \<or> (\<exists>l\<in>set ls. Some m \<in> set (missions_of h l) \<and> earliestCand h (Some m))) \<and>
    (\<forall>x. ?t = Some x \<longrightarrow> ms_missionTime (missionAt h m) \<le> ms_missionTime (missionAt h x)) \<and>
    (\<forall>l\<in>set ls. \<forall>x. Some x \<in> set (missions_of h l) \<longrightarrow> earliestCand h (Some x) \<longrightarrow>
       ms_missionTime (missionAt h m) \<le> ms_missionTime (missionAt h x))"
    by (rule Cons.IH) (use Cons.prems in simp)
  show ?case
  proof (cases ?t)
    case None
    then have "target = None" "\<forall>p\<in>set (missions_of h l). \<not> earliestCand h p"
      by (simp_all add: ml_FindEarliestMission_def earliestLoop_None)
    with IH None show ?thesis by auto
  next
    case (Some x)
    note step = earliestLoop_Some [OF Some [unfolded ml_FindEarliestMission_def]]
    have le: "ms_missionTime (missionAt h m) \<le> ms_missionTime (missionAt h x)" using IH Some by blast
    show ?thesis
      using IH step le Some by (auto intro: order.trans)
  qed
qed simp

lemma earliest_fold_None:
  "fold (\<lambda>l e. ml_FindEarliestMission h l e) ls target = None \<longleftrightarrow>
     target = None \<and> (\<forall>l\<in>set ls. \<forall>p\<in>set (missions_of h l). \<not> earliestCand h p)"
  by (induction ls arbitrary: target) (auto simp: ml_FindEarliestMission_def earliestLoop_None)

definition backgroundMissions :: "mlm \<Rightarrow> nat set" where
  "backgroundMissions s = {m. earliestCand (mg_heap s) (Some m) \<and>
     m \<in> held (set (mg_current s) \<union> {mg_defStandard s, mg_defSingle s}) (mg_heap s)}"

lemma FindEarliestMission_fold:
  "FindEarliestMission s =
     fold (\<lambda>l e. ml_FindEarliestMission (mg_heap s) l e) (mg_current s @ [mg_defStandard s, mg_defSingle s]) None"
  by (simp add: FindEarliestMission_def Let_def)

text \<open>
  the mission chosen for termination at the instance limit is a mission in the background, found in
  one of the lists, and no other background mission has an earlier time; there is none only if no
  mission is in the background.  Times are compared as strings, as the code does.
\<close>

theorem FindEarliestMission_minimal:
  "case FindEarliestMission s of
     Some m \<Rightarrow> m \<in> backgroundMissions s \<and>
       backgroundMissions s \<subseteq> {x. ms_missionTime (missionAt (mg_heap s) m) \<le> ms_missionTime (missionAt (mg_heap s) x)}
   | None \<Rightarrow> \<forall>l\<in>set (mg_current s) \<union> {mg_defStandard s, mg_defSingle s}.
       \<forall>p\<in>set (missions_of (mg_heap s) l). \<not> earliestCand (mg_heap s) p"
proof (cases "FindEarliestMission s")
  case None
  then show ?thesis
    using earliest_fold_None [of "mg_heap s" "mg_current s @ [mg_defStandard s, mg_defSingle s]" None]
    by (simp only: FindEarliestMission_fold) auto
next
  case (Some m)
  from earliest_fold [OF Some [unfolded FindEarliestMission_fold]] Some show ?thesis
    by (auto simp: backgroundMissions_def held_def)
qed

theorem FindEarliestMission_minimal_witness:
  "FindEarliestMission exMlm = Some 1 \<and> 1 \<in> backgroundMissions exMlm"
proof -
  have "FindEarliestMission exMlm = Some 1"
    by code_simp
  with FindEarliestMission_minimal [of exMlm] show ?thesis by simp
qed

lemma GetMissionCountByUid_nonneg: "0 \<le> GetMissionCountByUid h l uid"
  by (simp add: GetMissionCountByUid_eq)

lemma singleLimitLoop_eq:
  "singleLimitLoop h uid ls n =
     (if n + sum_list (map (\<lambda>l. GetMissionCountByUid h l uid) ls) \<ge> SINGLE_MAX_INSTANCE_COUNT \<and> ls \<noteq> []
      then None else Some (n + sum_list (map (\<lambda>l. GetMissionCountByUid h l uid) ls)))"
proof (induction ls arbitrary: n)
  case (Cons l ls)
  have "0 \<le> sum_list (map (\<lambda>l. GetMissionCountByUid h l uid) ls)"
    by (rule sum_list_nonneg) (auto simp: GetMissionCountByUid_nonneg)
  with Cons show ?case by (cases ls) (auto simp: Let_def)
qed simp

text \<open>
  the per-application limit test, which stops counting as soon as the limit is reached, answers
  whether the application has at least 128 missions in all lists together.
\<close>

theorem IsReachToSingleLimitLocked_eq:
  "IsReachToSingleLimitLocked s uid \<longleftrightarrow>
     sum_list (map (\<lambda>l. GetMissionCountByUid (mg_heap s) l uid) (mg_current s @ [mg_defStandard s, mg_defSingle s])) \<ge> 128"
  using GetMissionCountByUid_nonneg [of "mg_heap s" "mg_defStandard s" uid]
    GetMissionCountByUid_nonneg [of "mg_heap s" "mg_defSingle s" uid]
  by (auto simp: IsReachToSingleLimitLocked_def singleLimitLoop_eq SINGLE_MAX_INSTANCE_COUNT_def Let_def)

lemma set_unique_adj: "set (unique_adj xs) = set xs"
  by (induction xs) (auto split: list.splits)

lemma unique_adj_sorted: "sorted xs \<Longrightarrow> sorted_wrt (<) (unique_adj xs)"
proof (induction xs)
  case (Cons x xs)
  then have IH: "sorted_wrt (<) (unique_adj xs)" and le: "\<forall>y\<in>set (unique_adj xs). x \<le> y"
    by (auto simp: set_unique_adj)
  show ?case
  proof (cases "unique_adj xs")
    case (Cons y ys)
    with IH le show ?thesis by (auto intro: order.strict_trans1)
  qed simp
qed simp

lemma set_fold_active:
  "set (fold (\<lambda>l r. r @ ml_GetActiveAbilityList h l uid [] pid) ls acc) =
     set acc \<union> {name. \<exists>l\<in>set ls. \<exists>p\<in>set (missions_of h l). activeName h uid pid p name}"
  by (induction ls arbitrary: acc) (auto simp: set_ml_GetActiveAbilityList)

text \<open>
  the active ability list is strictly ascending (sorted, no duplicates) and holds exactly the
  given names and the names of the abilities of the application, of the given process if one is
  given, that have a mission in some list.
\<close>

theorem GetActiveAbilityList_exact:
  "sorted_wrt (<) (GetActiveAbilityList s uid acc pid) \<and>
   set (GetActiveAbilityList s uid acc pid) =
     set acc \<union> {name. \<exists>l\<in>set (mg_current s) \<union> {mg_defStandard s, mg_defSingle s}.
       \<exists>p\<in>set (missions_of (mg_heap s) l). activeName (mg_heap s) uid pid p name}"
proof -
  let ?names = "fold (\<lambda>l r. r @ ml_GetActiveAbilityList (mg_heap s) l uid [] pid) (mg_current s @ [mg_defStandard s, mg_defSingle s]) acc"
  have eq: "GetActiveAbilityList s uid acc pid = unique_adj (sort ?names)"
    by (simp add: GetActiveAbilityList_def Let_def)
  have "set (mg_current s @ [mg_defStandard s, mg_defSingle s]) = set (mg_current s) \<union> {mg_defStandard s, mg_defSingle s}" by simp
  then show ?thesis
    unfolding eq by (simp only: unique_adj_sorted sorted_sort set_unique_adj set_sort set_fold_active simp_thms)
qed

section \<open>Properties: background and uninstall\<close>

text \<open>
  \<open>RemoveBackgroundingAbility\<close> takes the top mission of the list instead of the mission of the
  ability.  When the ability is not on top, its own mission is in no list afterwards, and the top
  mission is in its stack and in a default list at the same time.
\<close>

theorem RemoveBackgroundingAbility_not_top:
  assumes inv: "mlm_inv s" and l: "l \<in> set (mg_current s)"
    and ms: "missions_of (mg_heap s) l = Some t # rest" "Some m \<in> set rest"
    and a: "ms_abilityRecord (missionAt (mg_heap s) m) = Some a"
    and d: "distinct (map (\<lambda>p. ms_abilityRecord (missionAt (mg_heap s) (the p))) (missions_of (mg_heap s) l))"
    and idm: "GetMissionById s (ar_missionId (abilityAt (mg_heap s) a)) = Some m"
  shows "\<exists>s'. RemoveBackgroundingAbility (Some a) s = Inr s' \<and> m \<notin> heldBy s' \<and>
    Some t \<in> set (missions_of (mg_heap s') l) \<and>
    (\<exists>d\<in>{mg_defSingle s, mg_defStandard s}. Some t \<in> set (missions_of (mg_heap s') d))"
proof -
  let ?h = "mg_heap s"
  have ok: "lists_ok (managed s) ?h" and lm: "l \<in> managed s" using inv l by (auto simp: mlm_inv_def managed_def)
  have ml: "Some m \<in> set (missions_of ?h l)" using ms by simp
  have g: "mlm_GetMissionList s (ar_missionId (abilityAt ?h a)) = Some l"
    using idm GetMissionList_in [OF ok lm ml] by (simp add: mlm_GetMissionList_def)
  define keep where "keep = filter (\<lambda>p. ms_abilityRecord (missionAt ?h (the p)) \<noteq> Some a) (missions_of ?h l)"
  have e: "eraseByAbility ?h (Some a) (missions_of ?h l) = Inr keep"
    unfolding keep_def by (rule eraseByAbility_filter [OF lists_okD(2) [OF ok lm] d])
  have ta: "ms_abilityRecord (missionAt ?h t) \<noteq> Some a" using d ms a by (auto simp: image_iff)
  have keep: "Some t \<in> set keep" "Some m \<notin> set keep" using ta a ms by (auto simp: keep_def)
  let ?h1 = "set_missions l keep ?h"
  let ?dd = "if IsSingletonAbility ?h1 t then mg_defSingle s else mg_defStandard s"
  let ?h2 = "AddMissionToTop ?dd (Some t) ?h1"
  have dd: "?dd \<in> {mg_defSingle s, mg_defStandard s}" "?dd \<noteq> l" "?dd \<in> managed s"
    using inv l by (auto simp: mlm_inv_def managed_def)
  have ddist: "distinct (missions_of ?h1 ?dd)" using lists_okD(1) [OF ok dd(3)] dd(2) by simp
  have h2l: "missions_of ?h2 l = keep" using dd(2) AddMissionToTop_other [of l ?dd "Some t" ?h1] by simp
  have h2d: "missions_of ?h2 ?dd = Some t # removeAll (Some t) (missions_of ?h ?dd)"
    using AddMissionToTop_missions [OF ddist, of t] dd(2) by simp
  have res: "RemoveBackgroundingAbility (Some a) s = Inr (s\<lparr>mg_heap := ?h2\<rparr>)"
    using g e ms(1) h2l keep(1)
    by (auto simp: RemoveBackgroundingAbility_def RemoveMissionByAbilityRecord_def GetTopMission_def IsEmpty_def Let_def)
  have tm: "t \<noteq> m" using lists_okD(1) [OF ok lm] ms by auto
  have "Some m \<notin> set (missions_of ?h2 k)" if "k \<in> managed s" for k
  proof (cases "k = l")
    case False
    then have "Some m \<notin> set (missions_of ?h k)" using lists_ok_disjoint [OF ok that lm _ ml] by blast
    with False tm h2d show ?thesis using AddMissionToTop_other [of k ?dd "Some t" ?h1] by (cases "k = ?dd") auto
  qed (use h2l keep in simp)
  then have "m \<notin> heldBy (s\<lparr>mg_heap := ?h2\<rparr>)" by (auto simp: held_def managed_def)
  with res h2l h2d keep dd(1) show ?thesis by (intro exI [of _ "s\<lparr>mg_heap := ?h2\<rparr>"]) auto
qed

theorem RemoveBackgroundingAbility_not_top_witness:
  "\<exists>s'. RemoveBackgroundingAbility (Some 2) exMlm = Inr s' \<and> 2 \<notin> heldBy s' \<and>
     Some 1 \<in> set (missions_of (mg_heap s') 3)"
proof -
  have "GetMissionById exMlm (ar_missionId (abilityAt (mg_heap exMlm) 2)) = Some 2"
    by (simp add: GetMissionById_def ml_GetMissionById_def exMlm_def exHeap_def exAbility_def new_Mission_def)
  then show ?thesis
    using RemoveBackgroundingAbility_not_top [OF exMlm_inv, of 3 1 "[Some 2]" 2 2]
    by (auto simp: exMlm_def exHeap_def new_Mission_def)
qed

lemma uninstalled_HandleUnInstallApp [simp]:
  "uninstalled (ml_HandleUnInstallApp l b u h) bundleName uid = uninstalled h bundleName uid"
  by (auto simp: uninstalled_def uninstallHit_def abilityOf_def ml_HandleUnInstallApp_abilityAt fun_eq_iff split: option.splits)

lemma uninstallLists_eq:
  "distinct ls \<Longrightarrow>
     fst (uninstallLists bundleName uid ls h) =
       filter (\<lambda>l. \<exists>p\<in>set (missions_of h l). \<not> uninstalled h bundleName uid p) ls \<and>
     (\<forall>l. missions_of (snd (uninstallLists bundleName uid ls h)) l =
       (if l \<in> set ls then filter (\<lambda>p. \<not> uninstalled h bundleName uid p) (missions_of h l) else missions_of h l)) \<and>
     uninstalled (snd (uninstallLists bundleName uid ls h)) bundleName uid = uninstalled h bundleName uid \<and>
     missionAt (snd (uninstallLists bundleName uid ls h)) = missionAt h \<and>
     listLive (snd (uninstallLists bundleName uid ls h)) = listLive h"
proof (induction ls arbitrary: h)
  case (Cons l ls)
  let ?h1 = "ml_HandleUnInstallApp l bundleName uid h"
  have same: "\<And>k. k \<in> set ls \<Longrightarrow> missions_of ?h1 k = missions_of h k"
    using Cons.prems by (auto simp: ml_HandleUnInstallApp_missions)
  have empty: "IsEmpty ?h1 l \<longleftrightarrow> \<not> (\<exists>p\<in>set (missions_of h l). \<not> uninstalled h bundleName uid p)"
    by (auto simp: IsEmpty_def ml_HandleUnInstallApp_missions filter_empty_conv)
  have IH: "fst (uninstallLists bundleName uid ls ?h1) =
       filter (\<lambda>l. \<exists>p\<in>set (missions_of h l). \<not> uninstalled h bundleName uid p) ls"
    "\<And>k. missions_of (snd (uninstallLists bundleName uid ls ?h1)) k =
       (if k \<in> set ls then filter (\<lambda>p. \<not> uninstalled h bundleName uid p) (missions_of ?h1 k) else missions_of ?h1 k)"
    "uninstalled (snd (uninstallLists bundleName uid ls ?h1)) bundleName uid = uninstalled h bundleName uid"
    "missionAt (snd (uninstallLists bundleName uid ls ?h1)) = missionAt h"
    "listLive (snd (uninstallLists bundleName uid ls ?h1)) = listLive h"
    using Cons.IH [of ?h1] Cons.prems same by (auto intro!: filter_cong)
  show ?case
    using IH empty Cons.prems
    by (auto simp: split_beta Let_def ml_HandleUnInstallApp_missions)
qed simp

lemma fold_release:
  "mg_current (fold release ls s) = mg_current s \<and> managed (fold release ls s) = managed s \<and>
   mg_launcher (fold release ls s) = mg_launcher s \<and> mg_defStandard (fold release ls s) = mg_defStandard s \<and>
   mg_defSingle (fold release ls s) = mg_defSingle s \<and>
   listAt (mg_heap (fold release ls s)) = listAt (mg_heap s) \<and>
   missionAt (mg_heap (fold release ls s)) = missionAt (mg_heap s) \<and>
   (\<forall>l\<in>managed s. listLive (mg_heap (fold release ls s)) l = listLive (mg_heap s) l) \<and>
   mg_waiting (fold release ls s) = mg_waiting s"
proof (induction ls arbitrary: s)
  case (Cons l ls)
  have "mg_current (release l s) = mg_current s \<and> managed (release l s) = managed s \<and>
    mg_launcher (release l s) = mg_launcher s \<and> mg_defStandard (release l s) = mg_defStandard s \<and>
    mg_defSingle (release l s) = mg_defSingle s \<and>
    listAt (mg_heap (release l s)) = listAt (mg_heap s) \<and> missionAt (mg_heap (release l s)) = missionAt (mg_heap s) \<and>
    (\<forall>k\<in>managed s. listLive (mg_heap (release l s)) k = listLive (mg_heap s) k) \<and> mg_waiting (release l s) = mg_waiting s"
    by (auto simp: release_def managed_def)
  with Cons.IH [of "release l s"] show ?case by simp
qed simp

lemma lists_ok_filter:
  assumes "lists_ok L h" "missionAt h' = missionAt h" "\<And>l. l \<in> L \<Longrightarrow> listLive h' l = listLive h l"
    "\<And>l. l \<in> L \<Longrightarrow> \<exists>P. missions_of h' l = filter P (missions_of h l)"
  shows "lists_ok L h'"
  unfolding lists_ok_def
proof
  fix l assume l: "l \<in> L"
  then obtain P where "missions_of h' l = filter P (missions_of h l)" using assms(4) by blast
  with lists_okD [OF assms(1) l] assms(2,3) l
  show "distinct (missions_of h' l) \<and> None \<notin> set (missions_of h' l) \<and> listLive h' l \<and>
    (\<forall>m. Some m \<in> set (missions_of h' l) \<longrightarrow> ms_ownerMissionList (missionAt h' m) = Some l)" by auto
qed

text \<open>
  uninstalling an application removes from the lists on screen and from the default lists exactly
  the missions of that application that have not left the initial state, takes the lists that became
  empty off the screen, drops the waiting requests of the application, and keeps every other mission
  in its list.
\<close>

theorem AddUninstallTags_exact:
  assumes inv: "mlm_inv s" and run: "AddUninstallTags bundleName uid s store = (gone, s', store')"
  shows "mlm_inv s' \<and>
    mg_current s' = filter (\<lambda>l. \<exists>p\<in>set (missions_of (mg_heap s) l). \<not> uninstalled (mg_heap s) bundleName uid p) (mg_current s) \<and>
    (\<forall>l\<in>set (mg_current s) \<union> {mg_defStandard s, mg_defSingle s}.
       missions_of (mg_heap s') l = filter (\<lambda>p. \<not> uninstalled (mg_heap s) bundleName uid p) (missions_of (mg_heap s) l)) \<and>
    mg_waiting s' = filter (\<lambda>r. \<not> (ai_bundleName (rq_abilityInfo r) = bundleName \<and> rq_uid r = uid)) (mg_waiting s)"
proof -
  let ?h = "mg_heap s" and ?u = "\<lambda>p. \<not> uninstalled (mg_heap s) bundleName uid p"
  define h1 where "h1 = snd (uninstallLists bundleName uid (mg_current s) ?h)"
  define h3 where "h3 = ml_HandleUnInstallApp (mg_defStandard s) bundleName uid (ml_HandleUnInstallApp (mg_defSingle s) bundleName uid h1)"
  define s1 where "s1 = s\<lparr>mg_current := fst (uninstallLists bundleName uid (mg_current s) ?h), mg_heap := h3\<rparr>"
  have d: "distinct (mg_current s)" and nd: "mg_defStandard s \<notin> set (mg_current s)" "mg_defSingle s \<notin> set (mg_current s)"
    "mg_defStandard s \<noteq> mg_defSingle s" and ok: "lists_ok (managed s) ?h"
    using inv by (simp_all add: mlm_inv_def)
  note u = uninstallLists_eq [OF d, of bundleName uid ?h]
  have s': "s' = EraseWaitingAbility bundleName uid (fold release (mg_current s) s1)"
    using run by (simp add: AddUninstallTags_def split_beta Let_def s1_def h1_def h3_def)
  have ms: "missions_of h3 l =
      (if l \<in> set (mg_current s) \<union> {mg_defStandard s, mg_defSingle s} then filter ?u (missions_of ?h l) else missions_of ?h l)" for l
    using u nd by (auto simp: h3_def ml_HandleUnInstallApp_missions h1_def)
  have fr: "missionAt h3 = missionAt ?h" "listLive h3 = listLive ?h" using u by (simp_all add: h3_def h1_def)
  have cur: "mg_current s1 = filter (\<lambda>l. \<exists>p\<in>set (missions_of ?h l). ?u p) (mg_current s)" using u by (simp add: s1_def)
  have man: "managed s1 \<subseteq> managed s" using cur by (auto simp: managed_def s1_def)
  have ok1: "lists_ok (managed s1) h3"
  proof (rule lists_ok_filter [OF lists_ok_subset [OF ok man]])
    fix l
    have "missions_of ?h l = filter (\<lambda>_. True) (missions_of ?h l)" by simp
    then show "\<exists>P. missions_of h3 l = filter P (missions_of ?h l)" unfolding ms by metis
  qed (simp_all add: fr)
  let ?s2 = "fold release (mg_current s) s1"
  note r = fold_release [of "mg_current s" s1]
  have "lists_ok (managed s1) (mg_heap ?s2)"
  proof (rule lists_ok_filter [OF ok1])
    fix l assume "l \<in> managed s1"
    with r show "listLive (mg_heap ?s2) l = listLive h3 l" by (simp add: s1_def)
    show "\<exists>P. missions_of (mg_heap ?s2) l = filter P (missions_of h3 l)"
      by (rule exI [of _ "\<lambda>_. True"]) (use r in \<open>simp add: s1_def\<close>)
  qed (use r in \<open>simp add: s1_def\<close>)
  then have "lists_ok (managed s') (mg_heap s')"
    using r by (simp add: s' EraseWaitingAbility_def managed_def)
  moreover have c': "mg_current s' = mg_current s1" using r by (simp add: s' EraseWaitingAbility_def)
  ultimately have "mlm_inv s'"
    using inv r cur by (simp add: mlm_inv_def s' EraseWaitingAbility_def s1_def)
  moreover have "missions_of (mg_heap s') l = missions_of h3 l" for l
    using r by (simp add: s' EraseWaitingAbility_def s1_def)
  moreover have "mg_waiting s' = filter (\<lambda>r. \<not> (ai_bundleName (rq_abilityInfo r) = bundleName \<and> rq_uid r = uid)) (mg_waiting s)"
    using r by (simp add: s' EraseWaitingAbility_def s1_def)
  ultimately show ?thesis using c' cur ms by simp
qed

theorem AddUninstallTags_exact_witness:
  "mlm_inv (fst (snd (AddUninstallTags ''app'' 7 exMlm exStore))) \<and>
   mg_current (fst (snd (AddUninstallTags ''app'' 7 exMlm exStore))) = [3]"
  using AddUninstallTags_exact [OF exMlm_inv, of "''app''" 7 exStore]
  by (cases "AddUninstallTags ''app'' 7 exMlm exStore")
    (auto simp: exMlm_def exHeap_def uninstalled_def abilityOf_def exAbility_def new_Mission_def)

end
