(* ===== verification/Rate_Limiter.thy ===== *)
theory Rate_Limiter
  imports Ordered_Map "HOL-Library.Sublist"
begin

text \<open>
  \<open>services/common/src/rate_limiter.cpp\<close>: the sliding-window limiter for extension starts, their
  reports and modular objects.

  A table maps a user id to the ascending vector of its call times (milliseconds, \<open>int64_t\<close>).  Every
  call of \<open>CurrentTimeMillis\<close> is an argument of the operation, in the order of the calls, since two
  calls may return different times.  \<open>lower_bound\<close> is the binary search of the standard library.
  The tables are \<open>unordered_map\<close>s; the code only looks up a key or visits every entry, so the order
  of \<open>omap\<close> does not show.
\<close>

section \<open>Binary search\<close>

function lbLoop :: "int list \<Rightarrow> int \<Rightarrow> nat \<Rightarrow> nat \<Rightarrow> nat" where
  "lbLoop xs v first len =
     (if len = 0 then first
      else let half = len div 2; mid = first + half in
           if xs ! mid < v then lbLoop xs v (mid + 1) (len - (half + 1))
           else lbLoop xs v first half)"
  by pat_completeness auto
termination by (relation "measure (\<lambda>(_, _, _, len). len)") auto

declare lbLoop.simps [simp del]

definition lower_bound :: "int list \<Rightarrow> int \<Rightarrow> nat" where
  "lower_bound xs v = lbLoop xs v 0 (length xs)"

text \<open>\<open>timestamps.erase(timestamps.begin(), lower_bound(...))\<close>\<close>

definition erase_before :: "int list \<Rightarrow> int \<Rightarrow> int list" where
  "erase_before xs v = drop (lower_bound xs v) xs"

section \<open>The limiter\<close>

definition CLEAN_INTERVAL_MS :: int where
  "CLEAN_INTERVAL_MS = 60000"

definition EXTENSION_LIMIT_INTERVAL_MS :: int where
  "EXTENSION_LIMIT_INTERVAL_MS = 1000"

definition EXTENSION_TIERS :: "int list" where
  "EXTENSION_TIERS = [50, 100, 200]"

definition REPORT_LIMIT_INTERVAL_MS :: int where
  "REPORT_LIMIT_INTERVAL_MS = 5000"

definition REPORT_MAX_LIMIT :: nat where
  "REPORT_MAX_LIMIT = 1"

definition MODULAR_OBJECT_LIMIT_INTERVAL_MS :: int where
  "MODULAR_OBJECT_LIMIT_INTERVAL_MS = 1000"

definition MODULAR_OBJECT_MAX_LIMIT :: nat where
  "MODULAR_OBJECT_MAX_LIMIT = 20"

type_synonym call_map = "(int, int list) omap"

record rate_limiter =
  rl_lastClean :: int
  rl_extension :: call_map
  rl_report :: "(int, call_map) omap"
  rl_modular :: call_map

definition entry :: "(int, 'v list) omap \<Rightarrow> int \<Rightarrow> 'v list" where
  "entry m k = (case omap_find m k of None \<Rightarrow> [] | Some ts \<Rightarrow> ts)"

definition CheckSingleLimit :: "int \<Rightarrow> int \<Rightarrow> call_map \<Rightarrow> int \<Rightarrow> nat \<Rightarrow> bool \<times> call_map" where
  "CheckSingleLimit now uid callMap limitInterval maxLimit =
     (let timeBefore = now - limitInterval; ts = erase_before (entry callMap uid) timeBefore in
      if length ts \<ge> maxLimit then (True, omap_put uid ts callMap)
      else (False, omap_put uid (ts @ [now]) callMap))"

primrec allExpired :: "int \<Rightarrow> int list \<Rightarrow> bool" where
  "allExpired timeBefore [] = True"
| "allExpired timeBefore (t # ts) = (if t \<ge> timeBefore then False else allExpired timeBefore ts)"

definition CleanSingleCallMap :: "int \<Rightarrow> call_map \<Rightarrow> int \<Rightarrow> call_map" where
  "CleanSingleCallMap now callMap limitInterval =
     (let timeBefore = now - limitInterval in
      omap_sweep (\<lambda>uid ts. if allExpired timeBefore ts then None else Some ts) callMap)"

definition CleanNestedCallMap :: "int \<Rightarrow> (int, call_map) omap \<Rightarrow> int \<Rightarrow> (int, call_map) omap" where
  "CleanNestedCallMap now nestedMap limitInterval =
     (let timeBefore = now - limitInterval in
      omap_sweep (\<lambda>uid inner.
        let inner' = omap_sweep (\<lambda>tier ts.
              let ts' = erase_before ts timeBefore in if ts' = [] then None else Some ts') inner
        in if inner' = [] then None else Some inner') nestedMap)"

text \<open>The four readings of the clock: the interval test and the three tables.\<close>

type_synonym clean_clock = "int \<times> int \<times> int \<times> int"

fun CleanCallMap :: "clean_clock \<Rightarrow> rate_limiter \<Rightarrow> rate_limiter" where
  "CleanCallMap (t0, t1, t2, t3) s =
     (if t0 - rl_lastClean s < CLEAN_INTERVAL_MS then s
      else s\<lparr>rl_lastClean := t0,
             rl_extension := CleanSingleCallMap t1 (rl_extension s) EXTENSION_LIMIT_INTERVAL_MS,
             rl_report := CleanNestedCallMap t2 (rl_report s) REPORT_LIMIT_INTERVAL_MS,
             rl_modular := CleanSingleCallMap t3 (rl_modular s) MODULAR_OBJECT_LIMIT_INTERVAL_MS\<rparr>)"

primrec tierLoop :: "int \<Rightarrow> int list \<Rightarrow> bool \<times> int" where
  "tierLoop currentCount [] = (False, 0)"
| "tierLoop currentCount (limit # ls) = (if currentCount \<ge> limit then (True, limit) else tierLoop currentCount ls)"

definition CheckExtensionLimit :: "clean_clock \<Rightarrow> int \<Rightarrow> int \<Rightarrow> rate_limiter \<Rightarrow> (bool \<times> int) \<times> rate_limiter" where
  "CheckExtensionLimit clk now uid s0 =
     (let s = CleanCallMap clk s0; timeBefore = now - EXTENSION_LIMIT_INTERVAL_MS;
          ts = erase_before (entry (rl_extension s) uid) timeBefore @ [now];
          currentCount = int (length ts)
      in (tierLoop currentCount (rev EXTENSION_TIERS), s\<lparr>rl_extension := omap_put uid ts (rl_extension s)\<rparr>))"

definition CheckReportLimit :: "int \<Rightarrow> int \<Rightarrow> int \<Rightarrow> rate_limiter \<Rightarrow> bool \<times> rate_limiter" where
  "CheckReportLimit now uid triggeredTier s =
     (let inner = entry (rl_report s) uid;
          ts = erase_before (entry inner triggeredTier) (now - REPORT_LIMIT_INTERVAL_MS) in
      if length ts \<ge> REPORT_MAX_LIMIT
      then (True, s\<lparr>rl_report := omap_put uid (omap_put triggeredTier ts inner) (rl_report s)\<rparr>)
      else (False, s\<lparr>rl_report := omap_put uid (omap_put triggeredTier (ts @ [now]) inner) (rl_report s)\<rparr>))"

definition CheckModularObjectLimit :: "clean_clock \<Rightarrow> int \<Rightarrow> int \<Rightarrow> rate_limiter \<Rightarrow> bool \<times> rate_limiter" where
  "CheckModularObjectLimit clk now uid s0 =
     (let s = CleanCallMap clk s0;
          (limited, m) = CheckSingleLimit now uid (rl_modular s) MODULAR_OBJECT_LIMIT_INTERVAL_MS MODULAR_OBJECT_MAX_LIMIT
      in (limited, s\<lparr>rl_modular := m\<rparr>))"

section \<open>The binary search finds the first element that is not smaller\<close>

lemma lbLoop_sorted:
  "sorted xs \<Longrightarrow> first + len \<le> length xs \<Longrightarrow> (\<forall>i<first. xs ! i < v) \<Longrightarrow>
    (\<forall>i. first + len \<le> i \<longrightarrow> i < length xs \<longrightarrow> v \<le> xs ! i) \<Longrightarrow>
    lbLoop xs v first len \<le> length xs \<and> (\<forall>i<lbLoop xs v first len. xs ! i < v) \<and>
    (\<forall>i. lbLoop xs v first len \<le> i \<longrightarrow> i < length xs \<longrightarrow> v \<le> xs ! i)"
proof (induction xs v first len rule: lbLoop.induct)
  case (1 xs v first len)
  show ?case
  proof (cases "len = 0")
    case True
    with "1.prems" show ?thesis by (simp add: lbLoop.simps [of xs v first 0])
  next
    case False
    let ?half = "len div 2" and ?mid = "first + len div 2"
    have mid: "?mid < length xs" using "1.prems"(2) False by linarith
    show ?thesis
    proof (cases "xs ! ?mid < v")
      case True
      have "\<forall>i<?mid + 1. xs ! i < v"
      proof (intro allI impI)
        fix i assume "i < ?mid + 1"
        then have "xs ! i \<le> xs ! ?mid" using "1.prems"(1) mid by (intro sorted_nth_mono) auto
        with True show "xs ! i < v" by simp
      qed
      moreover have "?mid + 1 + (len - (?half + 1)) = first + len" using False by (simp add: Suc_leI)
      ultimately show ?thesis
        using "1.IH"(1) [OF False refl refl True] "1.prems" False True by (simp add: lbLoop.simps [of xs v first len] Let_def)
    next
      case F: False
      have "v \<le> xs ! i" if "?mid \<le> i" "i < length xs" for i
        using F that sorted_nth_mono [of xs ?mid i] "1.prems"(1) by simp
      then have up: "\<forall>i. first + ?half \<le> i \<longrightarrow> i < length xs \<longrightarrow> v \<le> xs ! i" by blast
      have eq: "lbLoop xs v first len = lbLoop xs v first ?half"
        using False F by (subst lbLoop.simps) (simp add: Let_def)
      have "first + ?half \<le> length xs" using mid by simp
      then show ?thesis
        unfolding eq by (rule "1.IH"(2) [OF False refl refl F "1.prems"(1) _ "1.prems"(3) up])
    qed
  qed
qed

lemma drop_filter_sorted:
  assumes "k \<le> length xs" "\<forall>i<k. xs ! i < v" "\<forall>i. k \<le> i \<longrightarrow> i < length xs \<longrightarrow> (v::int) \<le> xs ! i"
  shows "drop k xs = filter (\<lambda>x. v \<le> x) xs"
proof -
  have "filter (\<lambda>x. v \<le> x) (take k xs) = []" using assms(1,2) by (fastforce simp: filter_empty_conv in_set_conv_nth)
  moreover have "filter (\<lambda>x. v \<le> x) (drop k xs) = drop k xs"
    using assms(3) by (auto simp: filter_id_conv in_set_conv_nth)
  ultimately show ?thesis by (metis append_Nil append_take_drop_id filter_append)
qed

lemma erase_before_sorted: "sorted xs \<Longrightarrow> erase_before xs v = filter (\<lambda>x. v \<le> x) xs"
  unfolding erase_before_def lower_bound_def
  using lbLoop_sorted [of xs 0 "length xs" v] by (intro drop_filter_sorted) auto

section \<open>Sliding windows\<close>

text \<open>
  The contract of a limited table for one key.  \<open>admit now ts\<close> answers whether a call at \<open>now\<close> is
  limited and gives the remembered times; \<open>purge now ts\<close> is what a cleaning pass leaves.  Under the
  contract the calls that were let through obey the limit in every window, cleaned or not.
\<close>

datatype window_action = Admit (action_time: int) | Purge (action_time: int)

locale sliding_window =
  fixes interval :: int and limit :: nat
    and admit :: "int \<Rightarrow> int list \<Rightarrow> bool \<times> int list"
    and purge :: "int \<Rightarrow> int list \<Rightarrow> int list"
  assumes interval_nonneg: "0 \<le> interval"
    and admit_eq: "sorted ts \<Longrightarrow> admit now ts =
      (let r = filter (\<lambda>x. now - interval \<le> x) ts in if limit \<le> length r then (True, r) else (False, r @ [now]))"
    and purge_keeps: "sorted ts \<Longrightarrow> sorted (purge now ts) \<and>
      filter (\<lambda>x. now - interval \<le> x) (purge now ts) = filter (\<lambda>x. now - interval \<le> x) ts"
begin

text \<open>\<open>ts\<close> remembers what matters of the admitted calls \<open>acc\<close> (latest last) at time \<open>now\<close> and later.\<close>

definition remembers :: "int \<Rightarrow> int list \<Rightarrow> int list \<Rightarrow> bool" where
  "remembers now acc ts \<longleftrightarrow> sorted acc \<and> sorted ts \<and> (\<forall>x\<in>set acc \<union> set ts. x \<le> now) \<and>
     filter (\<lambda>x. now - interval \<le> x) ts = filter (\<lambda>x. now - interval \<le> x) acc"

definition windowed :: "int list \<Rightarrow> bool" where
  "windowed acc \<longleftrightarrow> (\<forall>a. length (filter (\<lambda>x. a \<le> x \<and> x \<le> a + interval) acc) \<le> limit)"

lemma remembers_Nil: "remembers now [] []"
  by (simp add: remembers_def)

lemma remembers_mono:
  assumes "remembers t acc ts" "t \<le> now"
  shows "remembers now acc ts"
proof -
  have sub: "filter (\<lambda>x. now - interval \<le> x) zs = filter (\<lambda>x. now - interval \<le> x) (filter (\<lambda>x. t - interval \<le> x) zs)" for zs
    using assms(2) by (auto intro!: filter_cong)
  have "filter (\<lambda>x. t - interval \<le> x) ts = filter (\<lambda>x. t - interval \<le> x) acc" using assms(1) by (simp add: remembers_def)
  then have "filter (\<lambda>x. now - interval \<le> x) ts = filter (\<lambda>x. now - interval \<le> x) acc" using sub by metis
  moreover have "\<forall>x\<in>set acc \<union> set ts. x \<le> now" using assms by (force simp: remembers_def)
  ultimately show ?thesis using assms(1) by (simp add: remembers_def)
qed

lemma remembers_purge:
  assumes "remembers now acc ts" "set (purge now ts) \<subseteq> set ts"
  shows "remembers now acc (purge now ts)"
  using assms purge_keeps [of ts now] by (auto simp: remembers_def)

lemma admit_limited:
  assumes "remembers now acc ts" "admit now ts = (True, ts')"
  shows "remembers now acc ts'"
  using assms admit_eq [of ts now]
  by (auto simp: remembers_def Let_def sorted_wrt_filter split: if_splits)

lemma admit_passed:
  assumes "remembers now acc ts" "admit now ts = (False, ts')" "windowed acc"
  shows "remembers now (acc @ [now]) ts'" "windowed (acc @ [now])"
proof -
  let ?recent = "filter (\<lambda>x. now - interval \<le> x)"
  have eq: "?recent ts = ?recent acc" and short: "length (?recent acc) < limit" and ts': "ts' = ?recent acc @ [now]"
    using assms(1,2) admit_eq [of ts now] by (auto simp: remembers_def Let_def split: if_splits)
  show "remembers now (acc @ [now]) ts'"
    using assms(1) interval_nonneg unfolding ts'
    by (auto simp: remembers_def sorted_append sorted_wrt_filter)
  show "windowed (acc @ [now])"
    unfolding windowed_def
  proof
    fix a
    let ?w = "\<lambda>x. a \<le> x \<and> x \<le> a + interval"
    show "length (filter ?w (acc @ [now])) \<le> limit"
    proof (cases "?w now")
      case True
      have "filter ?w acc = filter ?w (?recent acc)" using True by (auto intro!: filter_cong)
      then have "length (filter ?w acc) \<le> length (?recent acc)" by (metis length_filter_le)
      with True short show ?thesis by simp
    next
      case False
      with assms(3) show ?thesis by (auto simp: windowed_def)
    qed
  qed
qed

text \<open>A key's life is a sequence of checks and cleaning passes; \<open>passed\<close> are the times let through.\<close>

primrec passed :: "window_action list \<Rightarrow> int list \<Rightarrow> int list" where
  "passed [] ts = []"
| "passed (a # as) ts =
     (case a of
        Purge now \<Rightarrow> passed as (purge now ts)
      | Admit now \<Rightarrow>
          (case admit now ts of
             (True, ts') \<Rightarrow> passed as ts'
           | (False, ts') \<Rightarrow> now # passed as ts'))"

lemma passed_windowed:
  assumes "remembers t acc ts" "windowed acc" "sorted (t # map action_time as)"
    and purge_sub: "\<And>now ts. set (purge now ts) \<subseteq> set ts"
  shows "windowed (acc @ passed as ts)"
  using assms(1-3)
proof (induction "as" arbitrary: t acc ts)
  case (Cons a as)
  let ?now = "action_time a"
  have le: "t \<le> ?now" and rest: "sorted (?now # map action_time as)" using Cons.prems(3) by auto
  have r: "remembers ?now acc ts" by (rule remembers_mono [OF Cons.prems(1) le])
  show ?case
  proof (cases a)
    case (Purge now)
    then show ?thesis
      using Cons.IH [OF remembers_purge [OF _ purge_sub] Cons.prems(2)] r rest by simp
  next
    case (Admit now)
    show ?thesis
    proof (cases "admit now ts")
      case (Pair limited ts')
      show ?thesis
      proof (cases limited)
        case True
        then show ?thesis
          using Cons.IH [OF admit_limited Cons.prems(2)] r rest Admit Pair by simp
      next
        case False
        then show ?thesis
          using Cons.IH [OF admit_passed(1) admit_passed(2)] r rest Admit Pair Cons.prems(2) by simp
      qed
    qed
  qed
qed simp

end

lemma allExpired_iff: "allExpired t ts \<longleftrightarrow> (\<forall>x\<in>set ts. x < t)"
  by (induction ts) auto

definition singleAdmit :: "int \<Rightarrow> nat \<Rightarrow> int \<Rightarrow> int list \<Rightarrow> bool \<times> int list" where
  "singleAdmit interval limit now ts =
     (let r = erase_before ts (now - interval) in if length r \<ge> limit then (True, r) else (False, r @ [now]))"

definition singlePurge :: "int \<Rightarrow> int \<Rightarrow> int list \<Rightarrow> int list" where
  "singlePurge interval now ts = (if allExpired (now - interval) ts then [] else ts)"

definition nestedPurge :: "int \<Rightarrow> int \<Rightarrow> int list \<Rightarrow> int list" where
  "nestedPurge interval now ts = erase_before ts (now - interval)"

interpretation modular: sliding_window MODULAR_OBJECT_LIMIT_INTERVAL_MS MODULAR_OBJECT_MAX_LIMIT
  "singleAdmit MODULAR_OBJECT_LIMIT_INTERVAL_MS MODULAR_OBJECT_MAX_LIMIT" "singlePurge MODULAR_OBJECT_LIMIT_INTERVAL_MS"
proof
  show "0 \<le> MODULAR_OBJECT_LIMIT_INTERVAL_MS" by (simp add: MODULAR_OBJECT_LIMIT_INTERVAL_MS_def)
qed (auto simp: singleAdmit_def singlePurge_def erase_before_sorted allExpired_iff filter_empty_conv eq_commute [of "[]"])

interpretation report: sliding_window REPORT_LIMIT_INTERVAL_MS REPORT_MAX_LIMIT
  "singleAdmit REPORT_LIMIT_INTERVAL_MS REPORT_MAX_LIMIT" "nestedPurge REPORT_LIMIT_INTERVAL_MS"
proof
  show "0 \<le> REPORT_LIMIT_INTERVAL_MS" by (simp add: REPORT_LIMIT_INTERVAL_MS_def)
qed (simp_all add: singleAdmit_def nestedPurge_def erase_before_sorted sorted_wrt_filter)

section \<open>Traces of calls\<close>

datatype rl_event =
    ExtensionCall clean_clock int int
  | ReportCall int int int
  | ModularCall clean_clock int int

fun readings :: "rl_event \<Rightarrow> int list" where
  "readings (ExtensionCall (t0, t1, t2, t3) now uid) = [t0, t1, t2, t3, now]"
| "readings (ReportCall now uid tier) = [now]"
| "readings (ModularCall (t0, t1, t2, t3) now uid) = [t0, t1, t2, t3, now]"

primrec rl_exec :: "rl_event \<Rightarrow> rate_limiter \<Rightarrow> bool \<times> rate_limiter" where
  "rl_exec (ExtensionCall clk now uid) s = (let ((limited, tier), s') = CheckExtensionLimit clk now uid s in (limited, s'))"
| "rl_exec (ReportCall now uid tier) s = CheckReportLimit now uid tier s"
| "rl_exec (ModularCall clk now uid) s = CheckModularObjectLimit clk now uid s"

definition rl_new :: rate_limiter where
  "rl_new = \<lparr>rl_lastClean = 0, rl_extension = [], rl_report = [], rl_modular = []\<rparr>"

text \<open>The times of the events that match \<open>key\<close> and were not limited.\<close>

primrec passedCalls :: "(rl_event \<Rightarrow> int option) \<Rightarrow> rl_event list \<Rightarrow> rate_limiter \<Rightarrow> int list" where
  "passedCalls key [] s = []"
| "passedCalls key (e # es) s =
     (let (limited, s') = rl_exec e s; rest = passedCalls key es s' in
      case key e of None \<Rightarrow> rest | Some now \<Rightarrow> if limited then rest else now # rest)"

definition modularKey :: "int \<Rightarrow> rl_event \<Rightarrow> int option" where
  "modularKey uid e = (case e of ModularCall clk now u \<Rightarrow> if u = uid then Some now else None | _ \<Rightarrow> None)"

definition reportKey :: "int \<Rightarrow> int \<Rightarrow> rl_event \<Rightarrow> int option" where
  "reportKey uid tier e =
     (case e of ReportCall now u t \<Rightarrow> if u = uid \<and> t = tier then Some now else None | _ \<Rightarrow> None)"

definition rl_inv :: "rate_limiter \<Rightarrow> bool" where
  "rl_inv s \<longleftrightarrow> omap_inv (rl_extension s) \<and> omap_inv (rl_report s) \<and> omap_inv (rl_modular s) \<and>
     (\<forall>uid m. omap_find (rl_report s) uid = Some m \<longrightarrow> omap_inv m)"

definition cleans :: "rl_event \<Rightarrow> rate_limiter \<Rightarrow> bool" where
  "cleans e s =
     (case e of
        ExtensionCall (t0, t1, t2, t3) now uid \<Rightarrow> \<not> t0 - rl_lastClean s < CLEAN_INTERVAL_MS
      | ModularCall (t0, t1, t2, t3) now uid \<Rightarrow> \<not> t0 - rl_lastClean s < CLEAN_INTERVAL_MS
      | ReportCall now uid tier \<Rightarrow> False)"

text \<open>What an event does to one key of a table.\<close>

definition actsOn :: "nat \<Rightarrow> (rl_event \<Rightarrow> int option) \<Rightarrow> rl_event \<Rightarrow> rate_limiter \<Rightarrow> window_action list" where
  "actsOn pos key e s =
     (if cleans e s then [Purge (readings e ! pos)] else []) @
     (case key e of None \<Rightarrow> [] | Some now \<Rightarrow> [Admit now])"

primrec actions :: "nat \<Rightarrow> (rl_event \<Rightarrow> int option) \<Rightarrow> rl_event list \<Rightarrow> rate_limiter \<Rightarrow> window_action list" where
  "actions pos key [] s = []"
| "actions pos key (e # es) s = actsOn pos key e s @ actions pos key es (snd (rl_exec e s))"

definition reportEntry :: "rate_limiter \<Rightarrow> int \<Rightarrow> int \<Rightarrow> int list" where
  "reportEntry s uid tier = entry (entry (rl_report s) uid) tier"

lemma entry_put: "omap_inv m \<Longrightarrow> entry (omap_put k v m) k' = (if k' = k then v else entry m k')"
  by (simp add: entry_def find_omap_put)

lemma entry_CleanSingle:
  "omap_inv m \<Longrightarrow> entry (CleanSingleCallMap now m interval) uid = singlePurge interval now (entry m uid)"
  by (simp add: entry_def CleanSingleCallMap_def singlePurge_def Let_def find_omap_sweep omap_inv_distinct split: option.split)

lemma entry_CleanNested:
  assumes "omap_inv m" "\<And>m'. omap_find m uid = Some m' \<Longrightarrow> omap_inv m'"
  shows "entry (entry (CleanNestedCallMap now m interval) uid) tier = nestedPurge interval now (entry (entry m uid) tier)"
proof (cases "omap_find m uid")
  case None
  then show ?thesis
    using assms(1) by (simp add: entry_def CleanNestedCallMap_def Let_def find_omap_sweep omap_inv_distinct nestedPurge_def erase_before_def)
next
  case (Some m')
  let ?g = "\<lambda>tier ts. let ts' = erase_before ts (now - interval) in if ts' = [] then None else Some ts'"
  have d: "distinct (map fst m')" using assms(2) [OF Some] by (rule omap_inv_distinct)
  have e1: "entry (CleanNestedCallMap now m interval) uid = omap_sweep ?g m'"
    using assms(1) Some
    by (simp add: entry_def CleanNestedCallMap_def Let_def find_omap_sweep omap_inv_distinct)
  have "entry (omap_sweep ?g m') tier = nestedPurge interval now (entry m' tier)"
    using find_omap_sweep [OF d, of ?g tier]
    by (simp add: entry_def nestedPurge_def erase_before_def Let_def split: option.split)
  moreover have "entry m uid = m'" using Some by (simp add: entry_def)
  ultimately show ?thesis using e1 by simp
qed

lemma sorted_subseq: "subseq xs ys \<Longrightarrow> sorted ys \<Longrightarrow> sorted (xs :: int list)"
proof (induction rule: list_emb.induct)
  case (list_emb_Cons2 x y xs ys)
  then have "set xs \<subseteq> set ys" by (auto dest: list_emb_set)
  with list_emb_Cons2 show ?case by auto
qed auto

definition keyOfReading :: "(rl_event \<Rightarrow> int option) \<Rightarrow> bool" where
  "keyOfReading key \<longleftrightarrow> (\<forall>e now. key e = Some now \<longrightarrow> now = last (readings e))"

lemma keyOfReading_keys: "keyOfReading (modularKey uid)" "keyOfReading (reportKey uid tier)"
  by (auto simp: keyOfReading_def modularKey_def reportKey_def split: rl_event.splits if_splits)

lemma cleans_readings: "cleans e s \<Longrightarrow> \<exists>a b c d n. readings e = [a, b, c, d, n]"
  by (cases e rule: readings.cases) (auto simp: cleans_def)

lemma readings_nonempty: "readings e \<noteq> []"
  by (cases e rule: readings.cases) auto

lemma subseq_actsOn:
  assumes "keyOfReading key" "pos < 4"
  shows "subseq (map action_time (actsOn pos key e s)) (readings e)"
proof (cases "cleans e s")
  case True
  then obtain a b c d n where r: "readings e = [a, b, c, d, n]" using cleans_readings by blast
  have "pos = 0 \<or> pos = 1 \<or> pos = 2 \<or> pos = 3" using assms(2) by linarith
  then have "subseq [readings e ! pos, n] (readings e)" "subseq [readings e ! pos] (readings e)" using r by auto
  moreover have "last (readings e) = n" using r by simp
  then have "key e = None \<or> key e = Some n" using assms(1) by (cases "key e") (auto simp: keyOfReading_def)
  ultimately show ?thesis using True by (auto simp: actsOn_def)
next
  case False
  have "key e = None \<or> key e = Some (last (readings e))"
    using assms(1) by (cases "key e") (auto simp: keyOfReading_def)
  then show ?thesis
    using False last_in_set [OF readings_nonempty [of e]] by (auto simp: actsOn_def subseq_singleton_left)
qed

lemma subseq_actions:
  assumes "keyOfReading key" "pos < 4"
  shows "subseq (map action_time (actions pos key es s)) (concat (map readings es))"
  by (induction es arbitrary: s) (auto intro: list_emb_append_mono subseq_actsOn [OF assms])

lemma rl_inv_CleanCallMap: "rl_inv s \<Longrightarrow> rl_inv (CleanCallMap clk s)"
proof (cases clk)
  case (fields t0 t1 t2 t3)
  assume inv: "rl_inv s"
  have "omap_inv m" if "omap_find (CleanNestedCallMap t2 (rl_report s) REPORT_LIMIT_INTERVAL_MS) uid = Some m" for uid m
    using that inv
    by (auto simp: rl_inv_def CleanNestedCallMap_def Let_def find_omap_sweep omap_inv_distinct omap_inv_sweep
        split: option.splits if_splits)
  with inv fields show ?thesis
    by (auto simp: rl_inv_def CleanSingleCallMap_def CleanNestedCallMap_def Let_def omap_inv_sweep)
qed

lemma rl_inv_entry: "rl_inv s \<Longrightarrow> omap_inv (entry (rl_report s) uid)"
  by (auto simp: rl_inv_def entry_def split: option.splits)

lemma rl_inv_exec: "rl_inv s \<Longrightarrow> rl_inv (snd (rl_exec e s))"
proof (cases e)
  case (ReportCall now uid tier)
  assume "rl_inv s"
  with rl_inv_entry [OF this, of uid] ReportCall show ?thesis
    by (auto simp: CheckReportLimit_def Let_def rl_inv_def omap_inv_put find_omap_put)
next
  case (ExtensionCall clk now uid)
  assume "rl_inv s"
  then have "rl_inv (CleanCallMap clk s)" by (rule rl_inv_CleanCallMap)
  with ExtensionCall show ?thesis by (simp add: CheckExtensionLimit_def Let_def split_beta rl_inv_def omap_inv_put)
next
  case (ModularCall clk now uid)
  assume "rl_inv s"
  then have "rl_inv (CleanCallMap clk s)" by (rule rl_inv_CleanCallMap)
  with ModularCall show ?thesis
    by (simp add: CheckModularObjectLimit_def CheckSingleLimit_def Let_def split_beta rl_inv_def omap_inv_put)
qed

text \<open>One event, seen from one key: the table entry changes as its actions say.\<close>

lemma modular_entry_clean:
  assumes "rl_inv s"
  shows "entry (rl_modular (CleanCallMap (t0, t1, t2, t3) s)) uid =
    (if t0 - rl_lastClean s < CLEAN_INTERVAL_MS then entry (rl_modular s) uid
     else singlePurge MODULAR_OBJECT_LIMIT_INTERVAL_MS t3 (entry (rl_modular s) uid))"
  using assms by (simp add: rl_inv_def entry_CleanSingle)

lemma report_entry_clean:
  assumes "rl_inv s"
  shows "reportEntry (CleanCallMap (t0, t1, t2, t3) s) uid tier =
    (if t0 - rl_lastClean s < CLEAN_INTERVAL_MS then reportEntry s uid tier
     else nestedPurge REPORT_LIMIT_INTERVAL_MS t2 (reportEntry s uid tier))"
  using assms by (simp add: rl_inv_def reportEntry_def entry_CleanNested)

lemma modular_step:
  assumes inv: "rl_inv s"
  shows "modular.passed (actsOn 3 (modularKey uid) e s @ as) (entry (rl_modular s) uid) =
    (case modularKey uid e of None \<Rightarrow> [] | Some now \<Rightarrow> if fst (rl_exec e s) then [] else [now]) @
    modular.passed as (entry (rl_modular (snd (rl_exec e s))) uid)"
proof (cases e)
  case (ReportCall now u tier)
  then show ?thesis by (simp add: actsOn_def cleans_def modularKey_def CheckReportLimit_def Let_def)
next
  case (ExtensionCall clk now u)
  obtain t0 t1 t2 t3 where "clk = (t0, t1, t2, t3)" by (cases clk)
  with ExtensionCall show ?thesis
    using modular_entry_clean [OF inv, of t0 t1 t2 t3 uid]
    by (simp add: actsOn_def cleans_def modularKey_def CheckExtensionLimit_def Let_def split_beta del: CleanCallMap.simps)
next
  case (ModularCall clk now u)
  obtain t0 t1 t2 t3 where clk: "clk = (t0, t1, t2, t3)" by (cases clk)
  have "omap_inv (rl_modular (CleanCallMap clk s))" using rl_inv_CleanCallMap [OF inv] by (simp add: rl_inv_def)
  with ModularCall clk show ?thesis
    using modular_entry_clean [OF inv, of t0 t1 t2 t3 uid]
    by (auto simp: actsOn_def cleans_def modularKey_def CheckModularObjectLimit_def CheckSingleLimit_def
        singleAdmit_def Let_def split_beta entry_put simp del: CleanCallMap.simps split: if_splits)
qed

lemma report_step:
  assumes inv: "rl_inv s"
  shows "report.passed (actsOn 2 (reportKey uid tier) e s @ as) (reportEntry s uid tier) =
    (case reportKey uid tier e of None \<Rightarrow> [] | Some now \<Rightarrow> if fst (rl_exec e s) then [] else [now]) @
    report.passed as (reportEntry (snd (rl_exec e s)) uid tier)"
proof (cases e)
  case (ReportCall now u t)
  have "omap_inv (rl_report s)" "omap_inv (entry (rl_report s) u)" using inv rl_inv_entry by (auto simp: rl_inv_def)
  with ReportCall show ?thesis
    by (auto simp: actsOn_def cleans_def reportKey_def CheckReportLimit_def singleAdmit_def reportEntry_def
        Let_def entry_put)
next
  case (ExtensionCall clk now u)
  obtain t0 t1 t2 t3 where "clk = (t0, t1, t2, t3)" by (cases clk)
  with ExtensionCall show ?thesis
    using report_entry_clean [OF inv, of t0 t1 t2 t3 uid tier]
    by (simp add: actsOn_def cleans_def reportKey_def CheckExtensionLimit_def reportEntry_def Let_def split_beta del: CleanCallMap.simps)
next
  case (ModularCall clk now u)
  obtain t0 t1 t2 t3 where "clk = (t0, t1, t2, t3)" by (cases clk)
  with ModularCall show ?thesis
    using report_entry_clean [OF inv, of t0 t1 t2 t3 uid tier]
    by (simp add: actsOn_def cleans_def reportKey_def CheckModularObjectLimit_def reportEntry_def Let_def split_beta del: CleanCallMap.simps)
qed

lemma passedCalls_modular:
  "rl_inv s \<Longrightarrow> passedCalls (modularKey uid) es s =
     modular.passed (actions 3 (modularKey uid) es s) (entry (rl_modular s) uid)"
proof (induction es arbitrary: s)
  case (Cons e es)
  then show ?case
    using modular_step [OF Cons.prems, of uid e] Cons.IH [OF rl_inv_exec [OF Cons.prems, of e]]
    by (simp add: split_beta Let_def split: option.split)
qed simp

lemma passedCalls_report:
  "rl_inv s \<Longrightarrow> passedCalls (reportKey uid tier) es s =
     report.passed (actions 2 (reportKey uid tier) es s) (reportEntry s uid tier)"
proof (induction es arbitrary: s)
  case (Cons e es)
  then show ?case
    using report_step [OF Cons.prems, of uid tier e] Cons.IH [OF rl_inv_exec [OF Cons.prems, of e]]
    by (simp add: split_beta Let_def split: option.split)
qed simp

lemma rl_inv_new: "rl_inv rl_new"
  by (simp add: rl_inv_def rl_new_def)

lemma entry_new: "entry (rl_modular rl_new) uid = []" "reportEntry rl_new uid tier = []"
  by (simp_all add: rl_new_def entry_def reportEntry_def)

lemma sorted_start: "sorted xs \<Longrightarrow> \<exists>t::int. sorted (t # xs)"
  by (cases xs) (auto intro: exI [of _ "hd xs"])

section \<open>Properties\<close>

text \<open>
  C34: over every sequence of calls to the limiter (starts, reports and modular objects of any user,
  with the cleaning passes they trigger) made with a clock that does not go back, at most 20 modular
  object calls of a user are let through in any window of 1000 ms.
\<close>

theorem modular_window_bound:
  assumes "sorted (concat (map readings es))"
  shows "length (filter (\<lambda>x. a \<le> x \<and> x \<le> a + 1000) (passedCalls (modularKey uid) es rl_new)) \<le> 20"
proof -
  let ?acts = "actions 3 (modularKey uid) es rl_new"
  have "sorted (map action_time ?acts)"
    by (rule sorted_subseq [OF subseq_actions assms]) (simp_all add: keyOfReading_keys)
  then obtain t where "sorted (t # map action_time ?acts)" using sorted_start by blast
  then have "modular.windowed ([] @ modular.passed ?acts [])"
    by (rule modular.passed_windowed [OF modular.remembers_Nil, rotated])
      (auto simp: modular.windowed_def singlePurge_def)
  then have "modular.windowed (passedCalls (modularKey uid) es rl_new)"
    by (simp add: passedCalls_modular [OF rl_inv_new] entry_new)
  then have "length (filter (\<lambda>x. a \<le> x \<and> x \<le> a + MODULAR_OBJECT_LIMIT_INTERVAL_MS) (passedCalls (modularKey uid) es rl_new)) \<le> MODULAR_OBJECT_MAX_LIMIT"
    unfolding modular.windowed_def by blast
  then show ?thesis by (simp only: MODULAR_OBJECT_LIMIT_INTERVAL_MS_def MODULAR_OBJECT_MAX_LIMIT_def)
qed

theorem modular_window_bound_witness:
  "length (filter (\<lambda>x. 5 \<le> x \<and> x \<le> 5 + 1000) (passedCalls (modularKey 7)
     [ModularCall (10, 10, 10, 10) 10 7, ModularCall (70000, 70000, 70000, 70001) 70002 7] rl_new)) \<le> 20"
  by (rule modular_window_bound) simp

text \<open>
  for one user and one tier, at most one report is let through in any window of 5000 ms, over
  every sequence of calls with a clock that does not go back.
\<close>

theorem report_window_bound:
  assumes "sorted (concat (map readings es))"
  shows "length (filter (\<lambda>x. a \<le> x \<and> x \<le> a + 5000) (passedCalls (reportKey uid tier) es rl_new)) \<le> 1"
proof -
  let ?acts = "actions 2 (reportKey uid tier) es rl_new"
  have "sorted (map action_time ?acts)"
    by (rule sorted_subseq [OF subseq_actions assms]) (simp_all add: keyOfReading_keys)
  then obtain t where "sorted (t # map action_time ?acts)" using sorted_start by blast
  then have "report.windowed ([] @ report.passed ?acts [])"
    by (rule report.passed_windowed [OF report.remembers_Nil, rotated])
      (auto simp: report.windowed_def nestedPurge_def erase_before_def dest: in_set_dropD)
  then have "report.windowed (passedCalls (reportKey uid tier) es rl_new)"
    by (simp add: passedCalls_report [OF rl_inv_new] entry_new)
  then have "length (filter (\<lambda>x. a \<le> x \<and> x \<le> a + REPORT_LIMIT_INTERVAL_MS) (passedCalls (reportKey uid tier) es rl_new)) \<le> REPORT_MAX_LIMIT"
    unfolding report.windowed_def by blast
  then show ?thesis by (simp only: REPORT_LIMIT_INTERVAL_MS_def REPORT_MAX_LIMIT_def)
qed

theorem report_window_bound_witness:
  "length (filter (\<lambda>x. 5 \<le> x \<and> x \<le> 5 + 5000) (passedCalls (reportKey 7 50) [ReportCall 10 7 50, ReportCall 11 7 50] rl_new)) \<le> 1"
  by (rule report_window_bound) simp

text \<open>
  \<open>CheckExtensionLimit\<close> counts the calls of the user in the last 1000 ms including this one, and
  reports the highest of the tiers 50, 100 and 200 that the count has reached, or no limit below 50.
\<close>

theorem CheckExtensionLimit_tier:
  assumes "sorted (entry (rl_extension (CleanCallMap clk s)) uid)"
  shows "fst (CheckExtensionLimit clk now uid s) =
    (let n = length (filter (\<lambda>t. now - 1000 \<le> t) (entry (rl_extension (CleanCallMap clk s)) uid)) + 1 in
     if n \<ge> 200 then (True, 200) else if n \<ge> 100 then (True, 100) else if n \<ge> 50 then (True, 50) else (False, 0))"
  using assms
  by (simp add: CheckExtensionLimit_def Let_def EXTENSION_TIERS_def erase_before_sorted EXTENSION_LIMIT_INTERVAL_MS_def)

theorem CheckExtensionLimit_tier_witness:
  "fst (CheckExtensionLimit (1, 1, 1, 1) 1000 7 (rl_new\<lparr>rl_extension := [(7, replicate 49 500)]\<rparr>)) = (True, 50)"
proof -
  let ?s = "rl_new\<lparr>rl_extension := [(7, replicate 49 500)]\<rparr>"
  have e: "entry (rl_extension (CleanCallMap (1, 1, 1, 1) ?s)) 7 = replicate 49 500"
    by (simp add: rl_new_def entry_def CLEAN_INTERVAL_MS_def)
  have "sorted (entry (rl_extension (CleanCallMap (1, 1, 1, 1) ?s)) 7)" unfolding e by (simp add: sorted_replicate)
  from CheckExtensionLimit_tier [OF this, of 1000] show ?thesis unfolding e by (simp add: filter_replicate)
qed

end
