(* ===== verification/Ability_Cache.thy ===== *)
theory Ability_Cache
  imports Ordered_Map "HOL-Library.Word"
begin

text \<open>
  \<open>services/abilitymgr/src/ability_cache_manager.cpp\<close>: the least-recently-used cache of extension
  records, bounded per device and per process (access token).

  Records are objects behind \<open>shared_ptr\<close>: a record is an address, and \<open>ac_rec\<close> gives its content.
  \<open>Put\<close> rejects null and is the only function that inserts, so the lists hold addresses and the null
  tests on their elements are always true.  The counters are \<open>uint32_t\<close>.  \<open>front()\<close> of an empty list
  and the use of an erased iterator are faults.  \<open>mutex_\<close> makes each function one step.
\<close>

section \<open>State\<close>

record ext_record =
  er_recordId :: int
  er_tokenId :: int
  er_moduleName :: string
  er_abilityName :: string
  er_bundleName :: string
  er_appBundleName :: string
  er_uri :: string
  er_frsIndex :: int
  er_sessionId :: string
  er_token :: "nat option"
  er_uid :: int
  er_pid :: int
  er_instanceKey :: string
  er_restartApp :: bool

record proc_info =
  pi_recList :: "nat list"
  pi_cnt :: "32 word"

record ability_cache =
  ac_rec :: "nat \<Rightarrow> ext_record"
  ac_devCnt :: "32 word"
  ac_devCap :: "32 word"
  ac_procCap :: "32 word"
  ac_dev :: "nat list"
  ac_proc :: "(int, proc_info) omap"

record cache_request =
  cr_tokenId :: int
  cr_moduleName :: string
  cr_abilityName :: string

section \<open>Operations\<close>

definition ac_Init :: "32 word \<Rightarrow> 32 word \<Rightarrow> ability_cache \<Rightarrow> ability_cache" where
  "ac_Init devCapacity procCapacity s = s\<lparr>ac_devCap := devCapacity, ac_procCap := procCapacity\<rparr>"

definition sameId :: "ability_cache \<Rightarrow> nat \<Rightarrow> nat \<Rightarrow> bool" where
  "sameId s r x \<longleftrightarrow> er_recordId (ac_rec s x) = er_recordId (ac_rec s r)"

definition RemoveAbilityRecInDevList :: "nat option \<Rightarrow> ability_cache \<Rightarrow> ability_cache" where
  "RemoveAbilityRecInDevList rec s =
     (case rec of None \<Rightarrow> s
      | Some r \<Rightarrow>
          if \<exists>x\<in>set (ac_dev s). sameId s r x
          then s\<lparr>ac_dev := erase_first (sameId s r) (ac_dev s), ac_devCnt := ac_devCnt s - 1\<rparr>
          else s)"

definition RemoveAbilityRecInProcList :: "nat option \<Rightarrow> ability_cache \<Rightarrow> ability_cache" where
  "RemoveAbilityRecInProcList rec s =
     (case rec of None \<Rightarrow> s
      | Some r \<Rightarrow>
          let accessTokenId = er_tokenId (ac_rec s r) in
          (case omap_find (ac_proc s) accessTokenId of
             None \<Rightarrow> s
           | Some info \<Rightarrow>
               if \<exists>x\<in>set (pi_recList info). sameId s r x
               then (let info' = info\<lparr>pi_recList := erase_first (sameId s r) (pi_recList info), pi_cnt := pi_cnt info - 1\<rparr>
                     in if pi_cnt info' = 0 then s\<lparr>ac_proc := omap_erase accessTokenId (ac_proc s)\<rparr>
                        else s\<lparr>ac_proc := omap_put accessTokenId info' (ac_proc s)\<rparr>)
               else s))"

definition AddToProcLru :: "nat option \<Rightarrow> ability_cache \<Rightarrow> (nat option \<times> ability_cache) cpp" where
  "AddToProcLru rec s =
     (case rec of None \<Rightarrow> Inr (None, s)
      | Some r \<Rightarrow>
          let tok = er_tokenId (ac_rec s r) in
          (case omap_find (ac_proc s) tok of
             None \<Rightarrow> Inr (None, s\<lparr>ac_proc := omap_put tok \<lparr>pi_recList = [r], pi_cnt = 1\<rparr> (ac_proc s)\<rparr>)
           | Some info \<Rightarrow>
               if pi_cnt info = ac_procCap s
               then (case pi_recList info of
                       [] \<Rightarrow> Inl OutOfRange
                     | old # rest \<Rightarrow>
                         let s1 = RemoveAbilityRecInDevList (Some old) s in
                         Inr (Some old, s1\<lparr>ac_proc := omap_put tok (info\<lparr>pi_recList := rest @ [r]\<rparr>) (ac_proc s1)\<rparr>))
               else Inr (None, s\<lparr>ac_proc := omap_put tok
                      (info\<lparr>pi_cnt := pi_cnt info + 1, pi_recList := pi_recList info @ [r]\<rparr>) (ac_proc s)\<rparr>)))"

definition AddToDevLru :: "nat \<Rightarrow> nat option \<Rightarrow> ability_cache \<Rightarrow> (nat option \<times> ability_cache) cpp" where
  "AddToDevLru r rec s =
     (let push = (\<lambda>s. s\<lparr>ac_dev := ac_dev s @ [r], ac_devCnt := ac_devCnt s + 1\<rparr>) in
      if rec \<noteq> None then Inr (rec, push s)
      else if ac_devCnt s = ac_devCap s \<and> ac_devCnt s > 0
      then (case ac_dev s of
              [] \<Rightarrow> Inl OutOfRange
            | old # rest \<Rightarrow>
                let s1 = RemoveAbilityRecInProcList (Some old) s
                in Inr (Some old, push (s1\<lparr>ac_dev := tl (ac_dev s1), ac_devCnt := ac_devCnt s1 - 1\<rparr>)))
      else Inr (rec, push s))"

definition Put :: "nat option \<Rightarrow> ability_cache \<Rightarrow> (nat option \<times> ability_cache) cpp" where
  "Put rec s =
     (case rec of None \<Rightarrow> Inr (None, s)
      | Some r \<Rightarrow> cpp_bind (AddToProcLru rec s) (\<lambda>(old, s1). AddToDevLru r old s1))"

definition ac_Remove :: "nat option \<Rightarrow> ability_cache \<Rightarrow> ability_cache" where
  "ac_Remove rec s = (if rec = None then s else RemoveAbilityRecInDevList rec (RemoveAbilityRecInProcList rec s))"

definition IsRecInfoSame :: "cache_request \<Rightarrow> ext_record \<Rightarrow> bool" where
  "IsRecInfoSame q rec \<longleftrightarrow> cr_moduleName q = er_moduleName rec \<and> cr_abilityName q = er_abilityName rec"

definition GetAbilityRecInProcList :: "cache_request \<Rightarrow> ability_cache \<Rightarrow> nat option \<times> ability_cache" where
  "GetAbilityRecInProcList q s =
     (case omap_find (ac_proc s) (cr_tokenId q) of
        None \<Rightarrow> (None, s)
      | Some info \<Rightarrow>
          (case find (\<lambda>x. IsRecInfoSame q (ac_rec s x)) (pi_recList info) of
             None \<Rightarrow> (None, s)
           | Some r \<Rightarrow>
               (Some r, s\<lparr>ac_proc := omap_put (cr_tokenId q)
                  (info\<lparr>pi_recList := erase_first (\<lambda>x. IsRecInfoSame q (ac_rec s x)) (pi_recList info),
                        pi_cnt := pi_cnt info - 1\<rparr>) (ac_proc s)\<rparr>)))"

definition ac_Get :: "cache_request \<Rightarrow> ability_cache \<Rightarrow> nat option \<times> ability_cache" where
  "ac_Get q s =
     (let (rec, s1) = GetAbilityRecInProcList q s in
      if rec = None then (None, s1) else (rec, RemoveAbilityRecInDevList rec s1))"

definition FindRecordByToken :: "nat option \<Rightarrow> ability_cache \<Rightarrow> nat option" where
  "FindRecordByToken token s =
     (if token = None then None else find (\<lambda>x. er_token (ac_rec s x) = token) (ac_dev s))"

definition FindRecordBySessionId :: "string \<Rightarrow> ability_cache \<Rightarrow> nat option" where
  "FindRecordBySessionId sessionId s = find (\<lambda>x. er_sessionId (ac_rec s x) = sessionId) (ac_dev s)"

definition FRS_BUNDLE_NAME :: string where
  "FRS_BUNDLE_NAME = ''com.ohos.formrenderservice''"

definition FindRecordByServiceKey :: "string \<Rightarrow> ability_cache \<Rightarrow> nat option" where
  "FindRecordByServiceKey serviceKey s =
     find (\<lambda>x. let rec = ac_rec s x;
                   curServiceKey = (if FRS_BUNDLE_NAME = er_bundleName rec
                                    then er_uri rec @ to_string (er_frsIndex rec) else er_uri rec)
               in curServiceKey = serviceKey) (ac_dev s)"

definition markRestart :: "(ext_record \<Rightarrow> bool) \<Rightarrow> ability_cache \<Rightarrow> ability_cache" where
  "markRestart p s =
     s\<lparr>ac_rec := (\<lambda>x. if x \<in> set (ac_dev s) \<and> p (ac_rec s x)
                     then (ac_rec s x)\<lparr>er_restartApp := True\<rparr> else ac_rec s x)\<rparr>"

definition ac_SignRestartAppFlag :: "int \<Rightarrow> string \<Rightarrow> ability_cache \<Rightarrow> ability_cache" where
  "ac_SignRestartAppFlag uid instanceKey s =
     markRestart (\<lambda>rec. er_uid rec = uid \<and> er_instanceKey rec = instanceKey) s"

definition SignRestartProcess :: "int \<Rightarrow> ability_cache \<Rightarrow> ability_cache" where
  "SignRestartProcess pid s = markRestart (\<lambda>rec. er_pid rec = pid) s"

text \<open>
  \<open>DeleteInvalidServiceRecord\<close> walks \<open>devRecLru_\<close> with an iterator (here the position) and erases through
  \<open>RemoveAbilityRecInDevList\<close>, which erases the first element with the record's id.  If that is the
  element the iterator stands on, the following \<open>it++\<close> uses an invalid iterator.
\<close>

definition position :: "('a \<Rightarrow> bool) \<Rightarrow> 'a list \<Rightarrow> nat" where
  "position p xs = length (takeWhile (\<lambda>x. \<not> p x) xs)"

lemma length_dev_RemoveProc [simp]: "ac_dev (RemoveAbilityRecInProcList rec s) = ac_dev s"
  by (simp add: RemoveAbilityRecInProcList_def Let_def split: option.split)

lemma ac_rec_RemoveProc [simp]: "ac_rec (RemoveAbilityRecInProcList rec s) = ac_rec s"
  by (simp add: RemoveAbilityRecInProcList_def Let_def split: option.split)

lemma length_dev_Remove:
  "r \<in> set (ac_dev s) \<Longrightarrow> length (ac_dev (RemoveAbilityRecInDevList (Some r) s)) = length (ac_dev s) - 1"
  by (auto simp: RemoveAbilityRecInDevList_def sameId_def length_erase_first)

function deleteInvalidLoop :: "string \<Rightarrow> nat \<Rightarrow> ability_cache \<Rightarrow> ability_cache cpp" where
  "deleteInvalidLoop bundleName it s =
     (if it < length (ac_dev s)
      then let r = ac_dev s ! it in
           if er_appBundleName (ac_rec s r) = bundleName
           then (if position (sameId s r) (ac_dev s) = it then Inl UseAfterErase
                 else deleteInvalidLoop bundleName it
                        (RemoveAbilityRecInDevList (Some r) (RemoveAbilityRecInProcList (Some r) s)))
           else deleteInvalidLoop bundleName (it + 1) s
      else Inr s)"
  by pat_completeness auto
termination
proof (relation "measure (\<lambda>(_, it, s). length (ac_dev s) - it)")
  fix bundleName it r and s :: ability_cache
  assume "it < length (ac_dev s)" "r = ac_dev s ! it"
  moreover from this have "r \<in> set (ac_dev (RemoveAbilityRecInProcList (Some r) s))" by simp
  ultimately show "((bundleName, it, RemoveAbilityRecInDevList (Some r) (RemoveAbilityRecInProcList (Some r) s)), bundleName, it, s)
      \<in> measure (\<lambda>(_, it, s). length (ac_dev s) - it)"
    using length_dev_Remove [of r "RemoveAbilityRecInProcList (Some r) s"] by simp
qed auto

declare deleteInvalidLoop.simps [simp del]

definition DeleteInvalidServiceRecord :: "string \<Rightarrow> ability_cache \<Rightarrow> ability_cache cpp" where
  "DeleteInvalidServiceRecord bundleName s = deleteInvalidLoop bundleName 0 s"

section \<open>The invariant\<close>

text \<open>
  The per-process lists are the device list split by access token, in the same order; the counters
  are the lengths, within the capacities.  A process entry may stay behind empty (after \<open>Get\<close>).
\<close>

definition tokOf :: "ability_cache \<Rightarrow> nat \<Rightarrow> int" where
  "tokOf s r = er_tokenId (ac_rec s r)"

definition procRecs :: "ability_cache \<Rightarrow> int \<Rightarrow> nat list" where
  "procRecs s tok = (case omap_find (ac_proc s) tok of None \<Rightarrow> [] | Some info \<Rightarrow> pi_recList info)"

definition ac_inv :: "ability_cache \<Rightarrow> bool" where
  "ac_inv s \<longleftrightarrow>
     0 < unat (ac_devCap s) \<and> 0 < unat (ac_procCap s) \<and> omap_inv (ac_proc s) \<and>
     distinct (map (\<lambda>r. er_recordId (ac_rec s r)) (ac_dev s)) \<and>
     length (ac_dev s) \<le> unat (ac_devCap s) \<and> ac_devCnt s = of_nat (length (ac_dev s)) \<and>
     (\<forall>tok. procRecs s tok = filter (\<lambda>r. tokOf s r = tok) (ac_dev s)) \<and>
     (\<forall>tok info. omap_find (ac_proc s) tok = Some info \<longrightarrow>
        pi_cnt info = of_nat (length (pi_recList info)) \<and> length (pi_recList info) \<le> unat (ac_procCap s))"

lemma ac_invD:
  assumes "ac_inv s"
  shows "0 < unat (ac_devCap s)" "0 < unat (ac_procCap s)" "omap_inv (ac_proc s)"
    "distinct (map (\<lambda>r. er_recordId (ac_rec s r)) (ac_dev s))"
    "length (ac_dev s) \<le> unat (ac_devCap s)" "ac_devCnt s = of_nat (length (ac_dev s))"
    "procRecs s tok = filter (\<lambda>r. tokOf s r = tok) (ac_dev s)"
    "omap_find (ac_proc s) tok = Some info \<Longrightarrow> pi_cnt info = of_nat (length (pi_recList info))"
    "omap_find (ac_proc s) tok = Some info \<Longrightarrow> length (pi_recList info) \<le> unat (ac_procCap s)"
    "omap_find (ac_proc s) tok = Some info \<Longrightarrow> pi_recList info = filter (\<lambda>r. tokOf s r = tok) (ac_dev s)"
  using assms by (auto simp: ac_inv_def procRecs_def split: option.splits)

text \<open>A counter below a \<open>uint32_t\<close> capacity equals the capacity exactly when the list has that length.\<close>

lemma unat_of_nat_cap:
  fixes cap :: "32 word"
  assumes "n \<le> unat cap"
  shows "unat (of_nat n :: 32 word) = n"
proof -
  have "unat cap < 2 ^ 32" using unsigned_less [of cap] by simp
  with assms show ?thesis by (simp add: unat_of_nat)
qed

lemma of_nat_eq_cap:
  fixes cap :: "32 word"
  assumes "n \<le> unat cap"
  shows "of_nat n = cap \<longleftrightarrow> n = unat cap"
  using unat_of_nat_cap [OF assms] by (metis word_unat_eq_iff)

lemma cnt_pos:
  fixes cap :: "32 word"
  assumes "n \<le> unat cap"
  shows "(0 < (of_nat n :: 32 word)) \<longleftrightarrow> 0 < n"
  using unat_of_nat_cap [OF assms] by (simp add: word_less_nat_alt)

lemma distinct_ids:
  "ac_inv s \<Longrightarrow> x \<in> set (ac_dev s) \<Longrightarrow> y \<in> set (ac_dev s) \<Longrightarrow> sameId s x y \<longleftrightarrow> x = y"
  using ac_invD(4) [of s] by (auto simp: sameId_def distinct_map inj_on_def)

lemma distinct_dev: "ac_inv s \<Longrightarrow> distinct (ac_dev s)"
  using ac_invD(4) [of s] by (simp add: distinct_map)

lemma erase_dev_eq:
  assumes "ac_inv s" "r \<in> set (ac_dev s)" "set xs \<subseteq> set (ac_dev s)" "distinct xs"
  shows "erase_first (sameId s r) xs = remove1 r xs"
  using assms(3,4) by (induction xs) (auto simp: distinct_ids [OF assms(1,2)])

lemma RemoveDev_eq:
  assumes "ac_inv s" "r \<in> set (ac_dev s)"
  shows "RemoveAbilityRecInDevList (Some r) s = s\<lparr>ac_dev := remove1 r (ac_dev s), ac_devCnt := ac_devCnt s - 1\<rparr>"
  using assms distinct_ids [OF assms assms(2)] erase_dev_eq [OF assms order.refl distinct_dev [OF assms(1)]]
  by (auto simp: RemoveAbilityRecInDevList_def)

text \<open>The process table represents the function \<open>P\<close> from tokens to record lists.\<close>

definition procTab :: "32 word \<Rightarrow> (int, proc_info) omap \<Rightarrow> (int \<Rightarrow> nat list) \<Rightarrow> bool" where
  "procTab cap m P \<longleftrightarrow> omap_inv m \<and>
     (\<forall>tok. (case omap_find m tok of None \<Rightarrow> [] | Some info \<Rightarrow> pi_recList info) = P tok \<and> length (P tok) \<le> unat cap) \<and>
     (\<forall>tok info. omap_find m tok = Some info \<longrightarrow> pi_cnt info = of_nat (length (pi_recList info)))"

lemma procTab_find:
  assumes "procTab cap m P" "omap_find m tok = Some info"
  shows "pi_recList info = P tok" "pi_cnt info = of_nat (length (P tok))"
proof -
  have "(case omap_find m tok of None \<Rightarrow> [] | Some info \<Rightarrow> pi_recList info) = P tok"
    using assms(1) by (simp add: procTab_def)
  with assms(2) show r: "pi_recList info = P tok" by simp
  have "pi_cnt info = of_nat (length (pi_recList info))" using assms by (simp add: procTab_def)
  with r show "pi_cnt info = of_nat (length (P tok))" by simp
qed

lemma procTab_None: "procTab cap m P \<Longrightarrow> omap_find m tok = None \<Longrightarrow> P tok = []"
  by (auto simp: procTab_def split: option.splits dest!: spec [of _ tok])

lemma procTab_len: "procTab cap m P \<Longrightarrow> length (P tok) \<le> unat cap"
  by (simp add: procTab_def)

lemma procTab_put:
  "procTab cap m P \<Longrightarrow> length xs \<le> unat cap \<Longrightarrow>
     procTab cap (omap_put tok \<lparr>pi_recList = xs, pi_cnt = of_nat (length xs)\<rparr> m) (P(tok := xs))"
  by (auto simp: procTab_def omap_inv_put find_omap_put)

lemma procTab_erase:
  "procTab cap m P \<Longrightarrow> procTab cap (omap_erase tok m) (P(tok := []))"
  by (auto simp: procTab_def omap_inv_erase find_omap_erase split: option.splits)

lemma ac_inv_procTab:
  "ac_inv s \<longleftrightarrow> 0 < unat (ac_devCap s) \<and> 0 < unat (ac_procCap s) \<and>
     distinct (map (\<lambda>r. er_recordId (ac_rec s r)) (ac_dev s)) \<and>
     length (ac_dev s) \<le> unat (ac_devCap s) \<and> ac_devCnt s = of_nat (length (ac_dev s)) \<and>
     procTab (ac_procCap s) (ac_proc s) (\<lambda>tok. filter (\<lambda>r. tokOf s r = tok) (ac_dev s))"
  unfolding ac_inv_def procTab_def procRecs_def by (auto split: option.splits)

lemma of_nat_dec: "0 < n \<Longrightarrow> (of_nat n :: 32 word) - 1 = of_nat (n - 1)"
  by (simp add: of_nat_diff)

lemma RemoveProc_eq:
  assumes tab: "procTab (ac_procCap s) (ac_proc s) P" and r: "r \<in> set (P (tokOf s r))"
    and ids: "\<And>x. x \<in> set (P (tokOf s r)) \<Longrightarrow> sameId s r x \<longleftrightarrow> x = r" and d: "distinct (P (tokOf s r))"
  shows "\<exists>m. RemoveAbilityRecInProcList (Some r) s = s\<lparr>ac_proc := m\<rparr> \<and>
    procTab (ac_procCap s) m (P(tokOf s r := remove1 r (P (tokOf s r))))"
proof -
  let ?t = "tokOf s r"
  obtain info where f: "omap_find (ac_proc s) ?t = Some info"
    using procTab_None [OF tab, of ?t] r by (cases "omap_find (ac_proc s) ?t") auto
  note i = procTab_find [OF tab f]
  have pos: "0 < length (P ?t)" using r by (cases "P ?t") auto
  have er: "erase_first (sameId s r) xs = remove1 r xs" if "set xs \<subseteq> set (P ?t)" for xs
    using that ids by (induction xs) auto
  have len: "length (remove1 r (P ?t)) = length (P ?t) - 1" using r by (simp add: length_remove1)
  have ex: "\<exists>x\<in>set (pi_recList info). sameId s r x" using r ids [OF r] i(1) by auto
  have cnt: "pi_cnt info - 1 = of_nat (length (remove1 r (P ?t)))" using i(2) of_nat_dec [OF pos] len by simp
  have le: "length (remove1 r (P ?t)) \<le> unat (ac_procCap s)" using procTab_len [OF tab, of ?t] len by simp
  have info': "info\<lparr>pi_recList := erase_first (sameId s r) (pi_recList info), pi_cnt := pi_cnt info - 1\<rparr> =
      \<lparr>pi_recList = remove1 r (P ?t), pi_cnt = of_nat (length (remove1 r (P ?t)))\<rparr>"
    using er [OF order.refl] i(1) cnt by (cases info) simp
  show ?thesis
  proof (cases "of_nat (length (remove1 r (P ?t))) = (0 :: 32 word)")
    case True
    then have "length (remove1 r (P ?t)) = 0" using unat_of_nat_cap [OF le] by simp
    then have e: "remove1 r (P ?t) = []" by simp
    have "RemoveAbilityRecInProcList (Some r) s = s\<lparr>ac_proc := omap_erase ?t (ac_proc s)\<rparr>"
      using f ex info' True by (simp add: RemoveAbilityRecInProcList_def Let_def tokOf_def)
    with procTab_erase [OF tab, of ?t] show ?thesis unfolding e by blast
  next
    case False
    have "RemoveAbilityRecInProcList (Some r) s = s\<lparr>ac_proc := omap_put ?t
        \<lparr>pi_recList = remove1 r (P ?t), pi_cnt = of_nat (length (remove1 r (P ?t)))\<rparr> (ac_proc s)\<rparr>"
      using f ex info' False by (simp add: RemoveAbilityRecInProcList_def Let_def tokOf_def)
    with procTab_put [OF tab le, of ?t] show ?thesis by blast
  qed
qed

section \<open>The cache as one list\<close>

text \<open>
  What the two levels of lists promise together: a list of records, oldest first.  A new record
  evicts the oldest of its process if the process is at its limit, else the oldest of all if the
  device is.
\<close>

definition cachePut :: "nat \<Rightarrow> nat \<Rightarrow> (nat \<Rightarrow> int) \<Rightarrow> nat \<Rightarrow> nat list \<Rightarrow> nat option \<times> nat list" where
  "cachePut devCap procCap tok r xs =
     (let same = filter (\<lambda>x. tok x = tok r) xs in
      if length same = procCap then (Some (hd same), remove1 (hd same) xs @ [r])
      else if length xs = devCap then (Some (hd xs), tl xs @ [r])
      else (None, xs @ [r]))"

lemma filter_remove1_other: "\<not> p x \<Longrightarrow> filter p (remove1 x xs) = filter p xs"
  by (induction xs) auto

lemma filter_remove1: "p x \<Longrightarrow> filter p (remove1 x xs) = remove1 x (filter p xs)"
  by (induction xs) auto

lemma AddToProcLru_full:
  assumes inv: "ac_inv s" and full: "length (filter (\<lambda>x. tokOf s x = tokOf s r) (ac_dev s)) = unat (ac_procCap s)"
  defines "same \<equiv> filter (\<lambda>x. tokOf s x = tokOf s r) (ac_dev s)"
  shows "\<exists>m. AddToProcLru (Some r) s =
      Inr (Some (hd same), s\<lparr>ac_dev := remove1 (hd same) (ac_dev s), ac_devCnt := ac_devCnt s - 1, ac_proc := m\<rparr>) \<and>
    procTab (ac_procCap s) m ((\<lambda>tok. filter (\<lambda>x. tokOf s x = tok) (ac_dev s))(tokOf s r := tl same @ [r]))"
proof -
  have tab: "procTab (ac_procCap s) (ac_proc s) (\<lambda>tok. filter (\<lambda>x. tokOf s x = tok) (ac_dev s))"
    using inv by (simp add: ac_inv_procTab)
  have pos: "0 < unat (ac_procCap s)" using inv by (rule ac_invD(2))
  then obtain old rest where same: "same = old # rest" using full unfolding same_def by (metis length_greater_0_conv list.exhaust)
  then have old: "old \<in> set (ac_dev s)" unfolding same_def by (metis filter_is_subset list.set_intros(1) subsetD)
  obtain info where f: "omap_find (ac_proc s) (tokOf s r) = Some info"
    using procTab_None [OF tab, of "tokOf s r"] same unfolding same_def by (cases "omap_find (ac_proc s) (tokOf s r)") auto
  have "pi_cnt info = of_nat (unat (ac_procCap s))" using procTab_find(2) [OF tab f] full by simp
  then have i: "pi_recList info = old # rest" "pi_cnt info = ac_procCap s"
    using procTab_find(1) [OF tab f] same unfolding same_def by simp_all
  have info': "info\<lparr>pi_recList := rest @ [r]\<rparr> = \<lparr>pi_recList = rest @ [r], pi_cnt = of_nat (length (rest @ [r]))\<rparr>"
    using i procTab_find(2) [OF tab f] same unfolding same_def by (cases info) simp
  have le: "length (rest @ [r]) \<le> unat (ac_procCap s)" using full same unfolding same_def by simp
  have "AddToProcLru (Some r) s = Inr (Some old, s\<lparr>ac_dev := remove1 old (ac_dev s), ac_devCnt := ac_devCnt s - 1,
      ac_proc := omap_put (tokOf s r) \<lparr>pi_recList = rest @ [r], pi_cnt = of_nat (length (rest @ [r]))\<rparr> (ac_proc s)\<rparr>)"
    using f i info' RemoveDev_eq [OF inv old] by (simp add: AddToProcLru_def tokOf_def Let_def)
  moreover have "procTab (ac_procCap s) (omap_put (tokOf s r) \<lparr>pi_recList = rest @ [r], pi_cnt = of_nat (length (rest @ [r]))\<rparr> (ac_proc s))
      ((\<lambda>tok. filter (\<lambda>x. tokOf s x = tok) (ac_dev s))(tokOf s r := rest @ [r]))"
    by (rule procTab_put [OF tab le])
  ultimately show ?thesis using same by auto
qed

lemma AddToProcLru_room:
  assumes inv: "ac_inv s" and room: "length (filter (\<lambda>x. tokOf s x = tokOf s r) (ac_dev s)) \<noteq> unat (ac_procCap s)"
  shows "\<exists>m. AddToProcLru (Some r) s = Inr (None, s\<lparr>ac_proc := m\<rparr>) \<and>
    procTab (ac_procCap s) m ((\<lambda>tok. filter (\<lambda>x. tokOf s x = tok) (ac_dev s))
      (tokOf s r := filter (\<lambda>x. tokOf s x = tokOf s r) (ac_dev s) @ [r]))"
proof -
  have tab: "procTab (ac_procCap s) (ac_proc s) (\<lambda>tok. filter (\<lambda>x. tokOf s x = tok) (ac_dev s))"
    using inv by (simp add: ac_inv_procTab)
  let ?same = "filter (\<lambda>x. tokOf s x = tokOf s r) (ac_dev s)"
  have le: "length (?same @ [r]) \<le> unat (ac_procCap s)" using room procTab_len [OF tab, of "tokOf s r"] by simp
  let ?i = "\<lparr>pi_recList = ?same @ [r], pi_cnt = of_nat (length (?same @ [r]))\<rparr>"
  have "AddToProcLru (Some r) s = Inr (None, s\<lparr>ac_proc := omap_put (tokOf s r) ?i (ac_proc s)\<rparr>)"
  proof (cases "omap_find (ac_proc s) (tokOf s r)")
    case None
    then show ?thesis using procTab_None [OF tab None] by (simp add: AddToProcLru_def tokOf_def Let_def)
  next
    case (Some info)
    note i = procTab_find [OF tab Some]
    have "pi_cnt info \<noteq> ac_procCap s" using i room of_nat_eq_cap [OF procTab_len [OF tab, of "tokOf s r"]] by simp
    moreover have "info\<lparr>pi_cnt := pi_cnt info + 1, pi_recList := pi_recList info @ [r]\<rparr> = ?i"
      using i by (cases info) (simp add: add.commute)
    ultimately show ?thesis using Some by (simp add: AddToProcLru_def tokOf_def Let_def)
  qed
  with procTab_put [OF tab le, of "tokOf s r"] show ?thesis by blast
qed

lemma ac_inv_push:
  assumes "0 < unat (ac_devCap s)" "0 < unat (ac_procCap s)"
    "distinct (map (\<lambda>x. er_recordId (ac_rec s x)) (xs @ [r]))" "length (xs @ [r]) \<le> unat (ac_devCap s)"
    "procTab (ac_procCap s) m (\<lambda>tok. filter (\<lambda>x. tokOf s x = tok) (xs @ [r]))"
    "c = of_nat (length xs)"
  shows "ac_inv (s\<lparr>ac_proc := m, ac_dev := xs @ [r], ac_devCnt := c + 1\<rparr>)"
  using assms by (simp add: ac_inv_procTab tokOf_def add.commute)

lemma split_append:
  "(\<lambda>tok. filter (\<lambda>x. tokOf s x = tok) (xs @ [r])) =
     (\<lambda>tok. filter (\<lambda>x. tokOf s x = tok) xs)(tokOf s r := filter (\<lambda>x. tokOf s x = tokOf s r) xs @ [r])"
  by (auto simp: fun_eq_iff)

lemma Put_proc_full:
  assumes inv: "ac_inv s" and fresh: "er_recordId (ac_rec s r) \<notin> (\<lambda>x. er_recordId (ac_rec s x)) ` set (ac_dev s)"
    and full: "length (filter (\<lambda>x. tokOf s x = tokOf s r) (ac_dev s)) = unat (ac_procCap s)"
  defines "old \<equiv> hd (filter (\<lambda>x. tokOf s x = tokOf s r) (ac_dev s))"
  shows "\<exists>m. Put (Some r) s = Inr (Some old, s\<lparr>ac_proc := m, ac_dev := remove1 old (ac_dev s) @ [r],
      ac_devCnt := ac_devCnt s - 1 + 1\<rparr>) \<and>
    ac_inv (s\<lparr>ac_proc := m, ac_dev := remove1 old (ac_dev s) @ [r], ac_devCnt := ac_devCnt s - 1 + 1\<rparr>)"
proof -
  let ?same = "filter (\<lambda>x. tokOf s x = tokOf s r) (ac_dev s)" and ?xs = "remove1 old (ac_dev s)"
  obtain m where m: "AddToProcLru (Some r) s = Inr (Some old, s\<lparr>ac_dev := ?xs, ac_devCnt := ac_devCnt s - 1, ac_proc := m\<rparr>)"
    "procTab (ac_procCap s) m ((\<lambda>tok. filter (\<lambda>x. tokOf s x = tok) (ac_dev s))(tokOf s r := tl ?same @ [r]))"
    using AddToProcLru_full [OF inv full] unfolding old_def by blast
  have ne: "?same \<noteq> []" using full ac_invD(2) [OF inv] by auto
  then have old: "old \<in> set ?same" unfolding old_def by (rule hd_in_set)
  then have o2: "old \<in> set (ac_dev s)" "tokOf s old = tokOf s r" by auto
  have tl: "filter (\<lambda>x. tokOf s x = tokOf s r) ?xs = tl ?same"
    using ne o2 filter_remove1 [of "\<lambda>x. tokOf s x = tokOf s r" old "ac_dev s"]
    unfolding old_def by (metis (no_types, lifting) list.collapse remove1.simps(2))
  have tab: "procTab (ac_procCap s) m (\<lambda>tok. filter (\<lambda>x. tokOf s x = tok) (?xs @ [r]))"
  proof -
    have "(\<lambda>tok. filter (\<lambda>x. tokOf s x = tok) (?xs @ [r])) =
        (\<lambda>tok. filter (\<lambda>x. tokOf s x = tok) (ac_dev s))(tokOf s r := tl ?same @ [r])"
      unfolding split_append using tl o2(2) by (auto simp: fun_eq_iff filter_remove1_other)
    with m(2) show ?thesis by simp
  qed
  have len: "length ?xs = length (ac_dev s) - 1" "0 < length (ac_dev s)" using o2(1) by (auto simp: length_remove1)
  have "ac_inv (s\<lparr>ac_proc := m, ac_dev := ?xs @ [r], ac_devCnt := (ac_devCnt s - 1) + 1\<rparr>)"
  proof (rule ac_inv_push [OF ac_invD(1,2) [OF inv] _ _ tab])
    show "length (?xs @ [r]) \<le> unat (ac_devCap s)" using len ac_invD(5) [OF inv] by simp
    show "ac_devCnt s - 1 = of_nat (length ?xs)" using len ac_invD(6) [OF inv] of_nat_dec [OF len(2)] by simp
    show "distinct (map (\<lambda>x. er_recordId (ac_rec s x)) (?xs @ [r]))"
      using ac_invD(4) [OF inv] fresh distinct_dev [OF inv]
      by (auto simp: distinct_map inj_on_def dest: notin_set_remove1)
  qed
  moreover have "Put (Some r) s = Inr (Some old, s\<lparr>ac_proc := m, ac_dev := ?xs @ [r], ac_devCnt := (ac_devCnt s - 1) + 1\<rparr>)"
    using m(1) by (simp add: Put_def AddToDevLru_def Let_def)
  ultimately show ?thesis by blast
qed

lemma Put_dev_full:
  assumes inv: "ac_inv s" and fresh: "er_recordId (ac_rec s r) \<notin> (\<lambda>x. er_recordId (ac_rec s x)) ` set (ac_dev s)"
    and room: "length (filter (\<lambda>x. tokOf s x = tokOf s r) (ac_dev s)) \<noteq> unat (ac_procCap s)"
    and full: "length (ac_dev s) = unat (ac_devCap s)"
  shows "\<exists>m. Put (Some r) s = Inr (Some (hd (ac_dev s)), s\<lparr>ac_proc := m, ac_dev := tl (ac_dev s) @ [r],
      ac_devCnt := ac_devCnt s - 1 + 1\<rparr>) \<and>
    ac_inv (s\<lparr>ac_proc := m, ac_dev := tl (ac_dev s) @ [r], ac_devCnt := ac_devCnt s - 1 + 1\<rparr>)"
proof -
  obtain old rest where dev: "ac_dev s = old # rest" using full ac_invD(1) [OF inv] by (cases "ac_dev s") auto
  define P where "P = (\<lambda>tok. filter (\<lambda>x. tokOf s x = tok) (ac_dev s @ [r]))"
  obtain m1 where m1: "AddToProcLru (Some r) s = Inr (None, s\<lparr>ac_proc := m1\<rparr>)" "procTab (ac_procCap s) m1 P"
    using AddToProcLru_room [OF inv room] unfolding P_def split_append by blast
  let ?s1 = "s\<lparr>ac_proc := m1\<rparr>"
  have tok: "tokOf ?s1 = tokOf s" and same: "sameId ?s1 = sameId s" by (auto simp: tokOf_def sameId_def fun_eq_iff)
  have dd: "distinct (ac_dev s @ [r])" using distinct_dev [OF inv] fresh by auto
  have ids: "sameId s old x \<longleftrightarrow> x = old" if "x \<in> set (ac_dev s @ [r])" for x
    using that distinct_ids [OF inv, of old x] fresh dev by (auto simp: sameId_def)
  have old: "old \<in> set (P (tokOf s old))" using dev by (simp add: P_def)
  have sub: "set (P t) \<subseteq> set (ac_dev s @ [r])" and dP: "distinct (P t)" for t
    using dd unfolding P_def by (auto simp only: set_filter distinct_filter)
  obtain m2 where m2: "RemoveAbilityRecInProcList (Some old) ?s1 = ?s1\<lparr>ac_proc := m2\<rparr>"
    "procTab (ac_procCap s) m2 (P(tokOf s old := remove1 old (P (tokOf s old))))"
    using RemoveProc_eq [of ?s1 P old, unfolded tok same, OF _ old _ dP] m1(2) ids [OF subsetD [OF sub]] by auto
  have P2: "P(tokOf s old := remove1 old (P (tokOf s old))) = (\<lambda>tok. filter (\<lambda>x. tokOf s x = tok) (rest @ [r]))"
    using dev by (auto simp: P_def fun_eq_iff)
  have cnt: "ac_devCnt s = ac_devCap s" "0 < ac_devCnt s"
    using ac_invD(6) [OF inv] of_nat_eq_cap [OF ac_invD(5) [OF inv]] cnt_pos [OF ac_invD(5) [OF inv]] full dev by auto
  have "ac_inv (s\<lparr>ac_proc := m2, ac_dev := rest @ [r], ac_devCnt := (ac_devCnt s - 1) + 1\<rparr>)"
  proof (rule ac_inv_push [OF ac_invD(1,2) [OF inv]])
    show "procTab (ac_procCap s) m2 (\<lambda>tok. filter (\<lambda>x. tokOf s x = tok) (rest @ [r]))" using m2(2) unfolding P2 .
    show "length (rest @ [r]) \<le> unat (ac_devCap s)" using full dev by simp
    show "ac_devCnt s - 1 = of_nat (length rest)" using ac_invD(6) [OF inv] dev by simp
    show "distinct (map (\<lambda>x. er_recordId (ac_rec s x)) (rest @ [r]))"
      using ac_invD(4) [OF inv] fresh dev by (auto simp: distinct_map inj_on_def)
  qed
  moreover have "Put (Some r) s = Inr (Some old, s\<lparr>ac_proc := m2, ac_dev := rest @ [r], ac_devCnt := (ac_devCnt s - 1) + 1\<rparr>)"
    using m1(1) m2(1) cnt dev by (simp add: Put_def AddToDevLru_def Let_def)
  ultimately show ?thesis using dev by auto
qed

lemma Put_room:
  assumes inv: "ac_inv s" and fresh: "er_recordId (ac_rec s r) \<notin> (\<lambda>x. er_recordId (ac_rec s x)) ` set (ac_dev s)"
    and room: "length (filter (\<lambda>x. tokOf s x = tokOf s r) (ac_dev s)) \<noteq> unat (ac_procCap s)"
    "length (ac_dev s) \<noteq> unat (ac_devCap s)"
  shows "\<exists>m. Put (Some r) s = Inr (None, s\<lparr>ac_proc := m, ac_dev := ac_dev s @ [r], ac_devCnt := ac_devCnt s + 1\<rparr>) \<and>
    ac_inv (s\<lparr>ac_proc := m, ac_dev := ac_dev s @ [r], ac_devCnt := ac_devCnt s + 1\<rparr>)"
proof -
  obtain m where m: "AddToProcLru (Some r) s = Inr (None, s\<lparr>ac_proc := m\<rparr>)"
    "procTab (ac_procCap s) m (\<lambda>tok. filter (\<lambda>x. tokOf s x = tok) (ac_dev s @ [r]))"
    using AddToProcLru_room [OF inv room(1)] unfolding split_append by blast
  have cnt: "ac_devCnt s \<noteq> ac_devCap s"
    using ac_invD(6) [OF inv] of_nat_eq_cap [OF ac_invD(5) [OF inv]] room(2) by simp
  have "ac_inv (s\<lparr>ac_proc := m, ac_dev := ac_dev s @ [r], ac_devCnt := ac_devCnt s + 1\<rparr>)"
  proof (rule ac_inv_push [OF ac_invD(1,2) [OF inv] _ _ m(2) ac_invD(6) [OF inv]])
    show "length (ac_dev s @ [r]) \<le> unat (ac_devCap s)" using room(2) ac_invD(5) [OF inv] by simp
    show "distinct (map (\<lambda>x. er_recordId (ac_rec s x)) (ac_dev s @ [r]))"
      using ac_invD(4) [OF inv] fresh by auto
  qed
  moreover have "Put (Some r) s = Inr (None, s\<lparr>ac_proc := m, ac_dev := ac_dev s @ [r], ac_devCnt := ac_devCnt s + 1\<rparr>)"
    using m(1) cnt by (simp add: Put_def AddToDevLru_def Let_def)
  ultimately show ?thesis by blast
qed

lemma ac_inv_shrink:
  assumes inv: "ac_inv s" and r: "r \<in> set (ac_dev s)"
    and tab: "procTab (ac_procCap s) m (\<lambda>tok. filter (\<lambda>x. tokOf s x = tok) (remove1 r (ac_dev s)))"
  shows "ac_inv (s\<lparr>ac_proc := m, ac_dev := remove1 r (ac_dev s), ac_devCnt := ac_devCnt s - 1\<rparr>)"
proof -
  have len: "length (remove1 r (ac_dev s)) = length (ac_dev s) - 1" "0 < length (ac_dev s)"
    using r by (auto simp: length_remove1)
  have "distinct (map (\<lambda>x. er_recordId (ac_rec s x)) (remove1 r (ac_dev s)))"
    using ac_invD(4) [OF inv] by (auto simp: distinct_map inj_on_def dest: notin_set_remove1)
  moreover have "length (ac_dev s) - Suc 0 \<le> unat (ac_devCap s)" using ac_invD(5) [OF inv] by simp
  ultimately show ?thesis
    using inv tab len of_nat_dec [OF len(2)] by (simp add: ac_inv_procTab tokOf_def)
qed

lemma split_remove:
  "r \<in> set xs \<Longrightarrow> (\<lambda>tok. filter (\<lambda>x. tokOf s x = tok) (remove1 r xs)) =
     (\<lambda>tok. filter (\<lambda>x. tokOf s x = tok) xs)(tokOf s r := remove1 r (filter (\<lambda>x. tokOf s x = tokOf s r) xs))"
  by (auto simp: fun_eq_iff filter_remove1 filter_remove1_other)

lemma ac_Remove_ok:
  assumes inv: "ac_inv s" and r: "r \<in> set (ac_dev s)"
  shows "ac_inv (ac_Remove (Some r) s)" "ac_dev (ac_Remove (Some r) s) = remove1 r (ac_dev s)"
proof -
  let ?P = "\<lambda>tok. filter (\<lambda>x. tokOf s x = tok) (ac_dev s)"
  have tab: "procTab (ac_procCap s) (ac_proc s) ?P" using inv by (simp add: ac_inv_procTab)
  obtain m where m: "RemoveAbilityRecInProcList (Some r) s = s\<lparr>ac_proc := m\<rparr>"
    "procTab (ac_procCap s) m (?P(tokOf s r := remove1 r (?P (tokOf s r))))"
    using RemoveProc_eq [OF tab] r distinct_ids [OF inv r] distinct_dev [OF inv] by auto
  let ?s = "s\<lparr>ac_proc := m\<rparr>"
  have same: "sameId ?s = sameId s" by (simp add: sameId_def fun_eq_iff)
  have "RemoveAbilityRecInDevList (Some r) ?s = s\<lparr>ac_proc := m, ac_dev := remove1 r (ac_dev s), ac_devCnt := ac_devCnt s - 1\<rparr>"
    using r distinct_ids [OF inv r r] erase_dev_eq [OF inv r order.refl distinct_dev [OF inv]]
    unfolding RemoveAbilityRecInDevList_def same by auto
  then have eq: "ac_Remove (Some r) s = s\<lparr>ac_proc := m, ac_dev := remove1 r (ac_dev s), ac_devCnt := ac_devCnt s - 1\<rparr>"
    by (simp add: ac_Remove_def m(1))
  show "ac_inv (ac_Remove (Some r) s)"
    unfolding eq by (rule ac_inv_shrink [OF inv r]) (use m(2) in \<open>simp add: split_remove [OF r]\<close>)
  show "ac_dev (ac_Remove (Some r) s) = remove1 r (ac_dev s)" unfolding eq by simp
qed

lemma find_first_erase: "find p xs = Some r \<Longrightarrow> distinct xs \<Longrightarrow> erase_first p xs = remove1 r xs"
  by (induction xs) (auto split: if_splits dest: find_SomeD)

lemma ac_Get_none:
  assumes "ac_inv s" "find (\<lambda>x. IsRecInfoSame q (ac_rec s x)) (filter (\<lambda>x. tokOf s x = cr_tokenId q) (ac_dev s)) = None"
  shows "ac_Get q s = (None, s)"
proof (cases "omap_find (ac_proc s) (cr_tokenId q)")
  case (Some info)
  then show ?thesis using ac_invD(10) [OF assms(1) Some] assms(2) by (simp add: ac_Get_def GetAbilityRecInProcList_def)
qed (simp add: ac_Get_def GetAbilityRecInProcList_def)

lemma ac_Get_some:
  assumes inv: "ac_inv s"
    and f: "find (\<lambda>x. IsRecInfoSame q (ac_rec s x)) (filter (\<lambda>x. tokOf s x = cr_tokenId q) (ac_dev s)) = Some r"
  shows "\<exists>s'. ac_Get q s = (Some r, s') \<and> ac_inv s' \<and> ac_dev s' = remove1 r (ac_dev s)"
proof -
  let ?t = "cr_tokenId q" and ?xs = "filter (\<lambda>x. tokOf s x = cr_tokenId q) (ac_dev s)"
  let ?P = "\<lambda>tok. filter (\<lambda>x. tokOf s x = tok) (ac_dev s)"
  have tab: "procTab (ac_procCap s) (ac_proc s) ?P" using inv by (simp add: ac_inv_procTab)
  have r: "r \<in> set (ac_dev s)" "tokOf s r = ?t" using find_SomeD [OF f] by auto
  obtain info where i: "omap_find (ac_proc s) ?t = Some info"
    using procTab_None [OF tab, of ?t] f by (cases "omap_find (ac_proc s) ?t") auto
  note il = procTab_find [OF tab i]
  have len: "length (remove1 r ?xs) = length ?xs - 1" "0 < length ?xs"
    using r length_pos_if_in_set [of r ?xs] by (simp_all add: length_remove1)
  have cnt: "pi_cnt info - 1 = of_nat (length (remove1 r ?xs))" using il(2) of_nat_dec [OF len(2)] len(1) by simp
  have "erase_first (\<lambda>x. IsRecInfoSame q (ac_rec s x)) (pi_recList info) = remove1 r ?xs"
    using il(1) find_first_erase [OF f] distinct_dev [OF inv] by simp
  with cnt have info': "info\<lparr>pi_recList := erase_first (\<lambda>x. IsRecInfoSame q (ac_rec s x)) (pi_recList info), pi_cnt := pi_cnt info - 1\<rparr> =
      \<lparr>pi_recList = remove1 r ?xs, pi_cnt = of_nat (length (remove1 r ?xs))\<rparr>"
    by (cases info) simp
  define m where "m = omap_put ?t \<lparr>pi_recList = remove1 r ?xs, pi_cnt = of_nat (length (remove1 r ?xs))\<rparr> (ac_proc s)"
  have tab': "procTab (ac_procCap s) m (?P(?t := remove1 r ?xs))"
    unfolding m_def by (rule procTab_put [OF tab]) (use procTab_len [OF tab, of ?t] len in simp)
  have g: "GetAbilityRecInProcList q s = (Some r, s\<lparr>ac_proc := m\<rparr>)"
    using i f il(1) info' by (simp add: GetAbilityRecInProcList_def m_def)
  have same: "sameId (s\<lparr>ac_proc := m\<rparr>) = sameId s" by (simp add: sameId_def fun_eq_iff)
  have "RemoveAbilityRecInDevList (Some r) (s\<lparr>ac_proc := m\<rparr>) =
      s\<lparr>ac_proc := m, ac_dev := remove1 r (ac_dev s), ac_devCnt := ac_devCnt s - 1\<rparr>"
    using r(1) distinct_ids [OF inv r(1) r(1)] erase_dev_eq [OF inv r(1) order.refl distinct_dev [OF inv]]
    unfolding RemoveAbilityRecInDevList_def same by auto
  moreover have "ac_inv (s\<lparr>ac_proc := m, ac_dev := remove1 r (ac_dev s), ac_devCnt := ac_devCnt s - 1\<rparr>)"
    by (rule ac_inv_shrink [OF inv r(1)]) (use tab' r(2) in \<open>simp add: split_remove [OF r(1)]\<close>)
  ultimately show ?thesis using g by (simp add: ac_Get_def)
qed

lemma ac_Remove_absent:
  assumes "ac_inv s" "er_recordId (ac_rec s r) \<notin> (\<lambda>x. er_recordId (ac_rec s x)) ` set (ac_dev s)"
  shows "ac_Remove (Some r) s = s"
proof -
  have no: "\<not> (\<exists>x\<in>set (ac_dev s). sameId s r x)" using assms(2) by (force simp: sameId_def image_iff)
  have "RemoveAbilityRecInProcList (Some r) s = s"
  proof (cases "omap_find (ac_proc s) (er_tokenId (ac_rec s r))")
    case (Some info)
    with ac_invD(10) [OF assms(1) Some] no show ?thesis by (auto simp: RemoveAbilityRecInProcList_def Let_def)
  qed (simp add: RemoveAbilityRecInProcList_def Let_def)
  with no show ?thesis by (simp add: ac_Remove_def RemoveAbilityRecInDevList_def)
qed

lemma Put_cases:
  assumes "ac_inv s" and "er_recordId (ac_rec s r) \<notin> (\<lambda>x. er_recordId (ac_rec s x)) ` set (ac_dev s)"
  shows "\<exists>s'. Put (Some r) s =
      Inr (fst (cachePut (unat (ac_devCap s)) (unat (ac_procCap s)) (tokOf s) r (ac_dev s)), s') \<and>
    ac_dev s' = snd (cachePut (unat (ac_devCap s)) (unat (ac_procCap s)) (tokOf s) r (ac_dev s)) \<and> ac_inv s'"
proof (cases "length (filter (\<lambda>x. tokOf s x = tokOf s r) (ac_dev s)) = unat (ac_procCap s)")
  case True
  from Put_proc_full [OF assms True] True show ?thesis by (auto simp: cachePut_def Let_def)
next
  case room: False
  show ?thesis
  proof (cases "length (ac_dev s) = unat (ac_devCap s)")
    case True
    from Put_dev_full [OF assms room True] True room show ?thesis by (auto simp: cachePut_def Let_def)
  next
    case False
    from Put_room [OF assms room False] False room show ?thesis by (auto simp: cachePut_def Let_def)
  qed
qed

section \<open>Properties\<close>

text \<open>
  C35: \<open>Put\<close> of a record that is not cached implements the one-list specification: it returns the victim
  the specification names (the oldest of the process when the process is full, else the oldest of all
  when the device is full, else none), appends the record, and keeps the two levels of lists and their
  \<open>uint32_t\<close> counters consistent and within the capacities.
\<close>

theorem Put_refines_cache:
  assumes "ac_inv s" and "er_recordId (ac_rec s r) \<notin> (\<lambda>x. er_recordId (ac_rec s x)) ` set (ac_dev s)"
  shows "\<exists>s'. Put (Some r) s =
      Inr (fst (cachePut (unat (ac_devCap s)) (unat (ac_procCap s)) (tokOf s) r (ac_dev s)), s') \<and>
    ac_dev s' = snd (cachePut (unat (ac_devCap s)) (unat (ac_procCap s)) (tokOf s) r (ac_dev s)) \<and> ac_inv s'"
  by (rule Put_cases [OF assms])

definition exRec :: "nat \<Rightarrow> ext_record" where
  "exRec i = \<lparr>er_recordId = int i, er_tokenId = (if i < 3 then 100 else 200), er_moduleName = ''entry'',
     er_abilityName = nat_str i, er_bundleName = ''app'', er_appBundleName = ''app'', er_uri = '''', er_frsIndex = 0,
     er_sessionId = '''', er_token = Some i, er_uid = 7, er_pid = 1, er_instanceKey = '''', er_restartApp = False\<rparr>"

definition exCache :: ability_cache where
  "exCache = \<lparr>ac_rec = exRec, ac_devCnt = 3, ac_devCap = 3, ac_procCap = 2, ac_dev = [1, 3, 2],
     ac_proc = [(100, \<lparr>pi_recList = [1, 2], pi_cnt = 2\<rparr>), (200, \<lparr>pi_recList = [3], pi_cnt = 1\<rparr>)]\<rparr>"

lemma exCache_sel: "ac_dev exCache = [1, 3, 2]" "ac_rec exCache = exRec"
  by (simp_all add: exCache_def)

lemma exCache_inv: "ac_inv exCache"
  by (auto simp: ac_inv_procTab procTab_def exCache_def exRec_def tokOf_def omap_inv_def)

theorem Put_refines_cache_witness:
  "\<exists>s'. Put (Some 4) exCache = Inr (Some 1, s') \<and> ac_dev s' = [3, 2, 4] \<and> ac_inv s'"
proof -
  have "er_recordId (ac_rec exCache 4) \<notin> (\<lambda>x. er_recordId (ac_rec exCache x)) ` set (ac_dev exCache)"
    by (simp add: exCache_def exRec_def)
  from Put_refines_cache [OF exCache_inv this] show ?thesis
    by (simp add: cachePut_def exCache_def exRec_def tokOf_def)
qed

text \<open>
  \<open>Get\<close> returns the oldest cached record of the requesting process with the requested module and
  ability and takes exactly that record out of the cache; it returns nothing, and changes nothing,
  when there is no such record.
\<close>

theorem ac_Get_oldest:
  assumes "ac_inv s"
  shows "let hit = find (\<lambda>x. IsRecInfoSame q (ac_rec s x) \<and> tokOf s x = cr_tokenId q) (ac_dev s)
    in \<exists>s'. ac_Get q s = (hit, s') \<and> ac_inv s' \<and>
      ac_dev s' = (case hit of None \<Rightarrow> ac_dev s | Some r \<Rightarrow> remove1 r (ac_dev s))"
proof -
  let ?hit = "find (\<lambda>x. IsRecInfoSame q (ac_rec s x) \<and> tokOf s x = cr_tokenId q) (ac_dev s)"
  have "find p (filter t xs) = find (\<lambda>x. p x \<and> t x) xs" for p t and xs :: "nat list" by (induction xs) auto
  then have hit: "?hit = find (\<lambda>x. IsRecInfoSame q (ac_rec s x)) (filter (\<lambda>x. tokOf s x = cr_tokenId q) (ac_dev s))"
    by simp
  show ?thesis
  proof (cases ?hit)
    case None
    with ac_Get_none [OF assms, of q] hit assms show ?thesis by simp
  next
    case (Some r)
    from ac_Get_some [OF assms, of q r] Some hit have "\<exists>s'. ac_Get q s = (Some r, s') \<and> ac_inv s' \<and> ac_dev s' = remove1 r (ac_dev s)"
      by metis
    then show ?thesis by (simp add: Some)
  qed
qed

theorem ac_Get_oldest_witness:
  "\<exists>s'. ac_Get \<lparr>cr_tokenId = 200, cr_moduleName = ''entry'', cr_abilityName = nat_str 3\<rparr> exCache = (Some 3, s') \<and>
     ac_dev s' = [1, 2]"
  using ac_Get_oldest [OF exCache_inv, of "\<lparr>cr_tokenId = 200, cr_moduleName = ''entry'', cr_abilityName = nat_str 3\<rparr>"]
  by (auto simp: exCache_sel exRec_def tokOf_def IsRecInfoSame_def nat_str.simps)

lemma deleteInvalidLoop_skip:
  "(\<And>r. r \<in> set (drop it (ac_dev s)) \<Longrightarrow> er_appBundleName (ac_rec s r) \<noteq> bundleName) \<Longrightarrow>
     deleteInvalidLoop bundleName it s = Inr s"
proof (induction "length (ac_dev s) - it" arbitrary: it)
  case 0
  then show ?case by (subst deleteInvalidLoop.simps) simp
next
  case (Suc n)
  have it: "it < length (ac_dev s)" using Suc.hyps(2) by simp
  then have d: "drop it (ac_dev s) = ac_dev s ! it # drop (it + 1) (ac_dev s)" by (simp add: Cons_nth_drop_Suc)
  have "deleteInvalidLoop bundleName (it + 1) s = Inr s"
    by (rule Suc.hyps(1)) (use Suc.hyps(2) Suc.prems d in auto)
  moreover have "er_appBundleName (ac_rec s (ac_dev s ! it)) \<noteq> bundleName" using Suc.prems d by auto
  ultimately show ?case using it by (subst deleteInvalidLoop.simps) simp
qed

lemma deleteInvalidLoop_hit:
  assumes inv: "ac_inv s"
  shows "\<exists>r\<in>set (drop it (ac_dev s)). er_appBundleName (ac_rec s r) = bundleName \<Longrightarrow>
    deleteInvalidLoop bundleName it s = Inl UseAfterErase"
proof (induction "length (ac_dev s) - it" arbitrary: it)
  case (Suc n)
  have it: "it < length (ac_dev s)" using Suc.hyps(2) by simp
  then have d: "drop it (ac_dev s) = ac_dev s ! it # drop (it + 1) (ac_dev s)" by (simp add: Cons_nth_drop_Suc)
  let ?r = "ac_dev s ! it"
  show ?case
  proof (cases "er_appBundleName (ac_rec s ?r) = bundleName")
    case True
    have "takeWhile (\<lambda>x. \<not> sameId s ?r x) (ac_dev s) = take it (ac_dev s)"
    proof (rule takeWhile_eq_take_P_nth)
      fix i assume "i < it" "i < length (ac_dev s)"
      then show "\<not> sameId s ?r (ac_dev s ! i)"
        using it distinct_ids [OF inv, of ?r "ac_dev s ! i"] distinct_dev [OF inv] by (auto simp: nth_eq_iff_index_eq)
    next
      assume "it < length (ac_dev s)"
      then show "\<not> \<not> sameId s ?r (ac_dev s ! it)" by (simp add: sameId_def)
    qed
    then have "position (sameId s ?r) (ac_dev s) = it" using it by (simp add: position_def)
    with True it show ?thesis by (subst deleteInvalidLoop.simps) simp
  next
    case False
    then have "deleteInvalidLoop bundleName (it + 1) s = Inl UseAfterErase"
      using Suc.prems d Suc.hyps(2) by (intro Suc.hyps(1)) auto
    with False it show ?thesis by (subst deleteInvalidLoop.simps) simp
  qed
qed simp

lemma deleteInvalidLoop_cases:
  assumes "ac_inv s"
  shows "deleteInvalidLoop bundleName 0 s =
    (if \<exists>r\<in>set (ac_dev s). er_appBundleName (ac_rec s r) = bundleName then Inl UseAfterErase else Inr s)"
  using deleteInvalidLoop_hit [OF assms, of 0 bundleName] deleteInvalidLoop_skip [of 0 s bundleName]
  by (cases "\<exists>r\<in>set (ac_dev s). er_appBundleName (ac_rec s r) = bundleName") auto

text \<open>
  C37: when a cached record belongs to the bundle, \<open>DeleteInvalidServiceRecord\<close> advances an iterator to an
  element it has just erased: the first such record makes the loop fault (undefined behaviour).  It is
  harmless only when no cached record belongs to the bundle.
\<close>

theorem DeleteInvalidServiceRecord_faults:
  assumes "ac_inv s"
  shows "DeleteInvalidServiceRecord bundleName s =
    (if \<exists>r\<in>set (ac_dev s). er_appBundleName (ac_rec s r) = bundleName then Inl UseAfterErase else Inr s)"
  unfolding DeleteInvalidServiceRecord_def by (rule deleteInvalidLoop_cases [OF assms])

theorem DeleteInvalidServiceRecord_faults_witness:
  "DeleteInvalidServiceRecord ''app'' exCache = Inl UseAfterErase \<and>
   DeleteInvalidServiceRecord ''other'' exCache = Inr exCache"
  using DeleteInvalidServiceRecord_faults [OF exCache_inv, of "''app''"]
    DeleteInvalidServiceRecord_faults [OF exCache_inv, of "''other''"]
  by (auto simp: exCache_sel exRec_def)

section \<open>Runs of the cache\<close>

lemma markRestart_fields [simp]:
  "ac_dev (markRestart p s) = ac_dev s" "ac_proc (markRestart p s) = ac_proc s"
  "ac_devCnt (markRestart p s) = ac_devCnt s" "ac_devCap (markRestart p s) = ac_devCap s"
  "ac_procCap (markRestart p s) = ac_procCap s" "tokOf (markRestart p s) = tokOf s"
  "er_recordId (ac_rec (markRestart p s) r) = er_recordId (ac_rec s r)"
  by (auto simp: markRestart_def tokOf_def fun_eq_iff)

lemma ac_inv_markRestart: "ac_inv s \<Longrightarrow> ac_inv (markRestart p s)"
  by (simp add: ac_inv_procTab)

definition cache_start :: "ability_cache \<Rightarrow> bool" where
  "cache_start s \<longleftrightarrow> (\<exists>s0 d p. s = ac_Init d p s0 \<and> 0 < unat d \<and> 0 < unat p \<and>
     ac_dev s0 = [] \<and> ac_proc s0 = [] \<and> ac_devCnt s0 = 0)"

text \<open>
  One call of the cache.  \<open>cput\<close> is for a record that is not cached: an extension record is cached when its
  last connection ends and is taken out before it is used again.
\<close>

inductive cache_step :: "ability_cache \<Rightarrow> ability_cache \<Rightarrow> bool" where
  cput: "er_recordId (ac_rec s r) \<notin> (\<lambda>x. er_recordId (ac_rec s x)) ` set (ac_dev s) \<Longrightarrow>
     Put (Some r) s = Inr (old, s') \<Longrightarrow> cache_step s s'"
| cremove: "r \<in> set (ac_dev s) \<or> er_recordId (ac_rec s r) \<notin> (\<lambda>x. er_recordId (ac_rec s x)) ` set (ac_dev s) \<Longrightarrow>
     cache_step s (ac_Remove (Some r) s)"
| cget: "ac_Get q s = (res, s') \<Longrightarrow> cache_step s s'"
| csignApp: "cache_step s (ac_SignRestartAppFlag uid key s)"
| csignProc: "cache_step s (SignRestartProcess pid s)"
| cdelete: "DeleteInvalidServiceRecord bundleName s = Inr s' \<Longrightarrow> cache_step s s'"


lemma cache_inv_start: "cache_start s \<Longrightarrow> ac_inv s"
  by (auto simp: cache_start_def ac_Init_def ac_inv_procTab procTab_def omap_inv_def)

lemma cache_inv_step:
  assumes "ac_inv s" "cache_step s t"
  shows "ac_inv t"
  using assms(2)
proof cases
  case (cput r old)
  with Put_cases [OF assms(1) cput(1)] show ?thesis by auto
next
  case (cremove r)
  then show ?thesis using ac_Remove_ok(1) [OF assms(1)] ac_Remove_absent [OF assms(1)] assms(1) by auto
next
  case (cget q res)
  show ?thesis
  proof (cases "find (\<lambda>x. IsRecInfoSame q (ac_rec s x)) (filter (\<lambda>x. tokOf s x = cr_tokenId q) (ac_dev s))")
    case None
    with ac_Get_none [OF assms(1), of q] assms(1) cget show ?thesis by simp
  next
    case (Some r)
    with ac_Get_some [OF assms(1) Some] cget show ?thesis by auto
  qed
next
  case (cdelete bundleName)
  from deleteInvalidLoop_cases [OF assms(1), of bundleName] cdelete assms(1) show ?thesis
    by (simp add: DeleteInvalidServiceRecord_def split: if_splits)
qed (simp_all add: ac_SignRestartAppFlag_def SignRestartProcess_def ac_inv_markRestart assms(1))

interpretation cache: machine cache_start cache_step ac_inv
  by unfold_locales (rule cache_inv_start, assumption, rule cache_inv_step)



end
