(* ===== verification/Observer_Registry.thy ===== *)
theory Observer_Registry
  imports Main
begin

text \<open>
  The contract of the two observer registries of \<open>services/dataobsmgr\<close>: the flat one
  (\<open>DataObsMgrInner\<close>, \<open>DataObsMgrInnerPref\<close>) and the tree (\<open>DataObsMgrInnerExt\<close>).

  A registry promises to be a relation between URIs and live objects: a successful registration adds
  one pair, an unregistration removes one, the death of an object removes its pairs.  \<open>runRegistry\<close>
  runs a sequence of calls, \<open>trackRegistry\<close> computes the relation from the calls and their results.
  The locale derives the refinement from the three laws; both registries interpret it.
\<close>

datatype ('u, 'n, 'o) registry_event = Register 'u 'n | Unregister 'u 'n | Died 'o

fun runRegistry ::
  "('u \<Rightarrow> 'n \<Rightarrow> 's \<Rightarrow> bool \<times> 's) \<Rightarrow> ('u \<Rightarrow> 'n \<Rightarrow> 's \<Rightarrow> 's) \<Rightarrow> ('o \<Rightarrow> 's \<Rightarrow> 's) \<Rightarrow>
   ('u, 'n, 'o) registry_event list \<Rightarrow> 's \<Rightarrow> bool list \<times> 's" where
  "runRegistry reg unreg died [] s = ([], s)"
| "runRegistry reg unreg died (Register u n # es) s =
     (let (ok, s1) = reg u n s; (oks, s2) = runRegistry reg unreg died es s1 in (ok # oks, s2))"
| "runRegistry reg unreg died (Unregister u n # es) s =
     (let (oks, s2) = runRegistry reg unreg died es (unreg u n s) in (True # oks, s2))"
| "runRegistry reg unreg died (Died x # es) s =
     (let (oks, s2) = runRegistry reg unreg died es (died x s) in (True # oks, s2))"

fun trackRegistry ::
  "('n \<Rightarrow> 'o option) \<Rightarrow> ('u, 'n, 'o) registry_event list \<Rightarrow> bool list \<Rightarrow> ('u \<times> 'o) set \<Rightarrow> ('u \<times> 'o) set" where
  "trackRegistry objOf (Register u n # es) (ok # oks) R =
     trackRegistry objOf es oks (R \<union> {(u', x). ok \<and> u' = u \<and> objOf n = Some x})"
| "trackRegistry objOf (Unregister u n # es) (ok # oks) R =
     trackRegistry objOf es oks (R - {(u', x). u' = u \<and> objOf n = Some x})"
| "trackRegistry objOf (Died x # es) (ok # oks) R = trackRegistry objOf es oks {p \<in> R. snd p \<noteq> x}"
| "trackRegistry objOf _ _ R = R"

locale observer_registry =
  fixes register :: "'u \<Rightarrow> 'n \<Rightarrow> 's \<Rightarrow> bool \<times> 's"
    and unregister :: "'u \<Rightarrow> 'n \<Rightarrow> 's \<Rightarrow> 's"
    and died :: "'o \<Rightarrow> 's \<Rightarrow> 's"
    and objOf :: "'n \<Rightarrow> 'o option"
    and has :: "'s \<Rightarrow> 'u \<Rightarrow> 'o \<Rightarrow> bool"
    and inv :: "'s \<Rightarrow> bool"
  assumes inv_register: "inv s \<Longrightarrow> inv (snd (register u n s))"
    and inv_unregister: "inv s \<Longrightarrow> inv (unregister u n s)"
    and inv_died: "inv s \<Longrightarrow> inv (died x s)"
    and has_register: "inv s \<Longrightarrow> has (snd (register u n s)) u' x \<longleftrightarrow>
      has s u' x \<or> fst (register u n s) \<and> u' = u \<and> objOf n = Some x"
    and has_unregister: "inv s \<Longrightarrow> has (unregister u n s) u' x \<longleftrightarrow> has s u' x \<and> \<not> (u' = u \<and> objOf n = Some x)"
    and has_died: "inv s \<Longrightarrow> has (died y s) u x \<longleftrightarrow> has s u x \<and> x \<noteq> y"
begin

definition holds :: "'s \<Rightarrow> ('u \<times> 'o) set" where
  "holds s = {(u, x). has s u x}"

lemma holds_register:
  "inv s \<Longrightarrow> holds (snd (register u n s)) = holds s \<union> {(u', x). fst (register u n s) \<and> u' = u \<and> objOf n = Some x}"
  by (auto simp: holds_def has_register)

lemma holds_unregister: "inv s \<Longrightarrow> holds (unregister u n s) = holds s - {(u', x). u' = u \<and> objOf n = Some x}"
  by (auto simp: holds_def has_unregister)

lemma holds_died: "inv s \<Longrightarrow> holds (died x s) = {p \<in> holds s. snd p \<noteq> x}"
  by (auto simp: holds_def has_died)

lemma run_inv: "inv s \<Longrightarrow> inv (snd (runRegistry register unregister died es s))"
proof (induction es arbitrary: s)
  case (Cons e es)
  then show ?case
    using inv_register [of s] by (cases e) (simp_all add: case_prod_beta Let_def inv_unregister inv_died)
qed simp

lemma run_tracks:
  "inv s \<Longrightarrow> holds (snd (runRegistry register unregister died es s)) =
     trackRegistry objOf es (fst (runRegistry register unregister died es s)) (holds s)"
proof (induction es arbitrary: s)
  case (Cons e es)
  show ?case
  proof (cases e)
    case (Register u n)
    with Cons.IH [of "snd (register u n s)"] Cons.prems show ?thesis
      by (simp add: case_prod_beta Let_def inv_register holds_register)
  next
    case (Unregister u n)
    with Cons.IH [of "unregister u n s"] Cons.prems show ?thesis
      by (simp add: case_prod_beta Let_def inv_unregister holds_unregister)
  next
    case (Died x)
    with Cons.IH [of "died x s"] Cons.prems show ?thesis
      by (simp add: case_prod_beta Let_def inv_died holds_died)
  qed
qed simp

end

end
