(* ===== verification/Data_Obs.thy ===== *)
theory Data_Obs
  imports Ordered_Map Observer_Registry
begin

text \<open>
  \<open>services/dataobsmgr\<close>, the flat observer registries \<open>DataObsMgrInner\<close> (data share and relational
  store URIs) and \<open>DataObsMgrInnerPref\<close> (preferences), and \<open>ObsPermissionVerifier\<close>.

  An \<open>sptr<IDataAbilityObserver>\<close> is the address of a proxy; \<open>ev_asObject\<close> gives the remote object behind
  it (\<open>AsObject\<close>, null as \<open>None\<close>).  Several proxies may stand for one object.  \<open>DataObsMgrService\<close> rejects a
  null observer before it calls the registries, so the stored observers are not null and the null
  tests on them hold.  The access token kit, the bundle manager, the data share permission library
  and the \<open>Uri\<close> class are outside the repository: the record \<open>obs_env\<close> holds what they answer.
  The effect of \<open>OnChange\<close> is the list of notified nodes.  Each function holds the registry's mutex.
\<close>

section \<open>Data\<close>

datatype obs_status =
  NO_ERROR | SUCCESS | INVALID_PARAM | OBS_EXIST | NO_OBS_FOR_URI | DATAOBS_SERVICE_OBS_LIMMIT
  | DATAOBS_INVALID_URI | DATA_OBSERVER_IS_NULL

datatype token_type = TOKEN_HAP | TOKEN_NATIVE | TOKEN_SHELL | TOKEN_INVALID

record obs_env =
  ev_asObject :: "nat \<Rightarrow> nat option"
  ev_tokenType :: "int \<Rightarrow> token_type"
  ev_hapBundle :: "int \<Rightarrow> string option"
  ev_groups :: "string \<Rightarrow> int \<Rightarrow> string list option"
  ev_scheme :: "string \<Rightarrow> string"
  ev_authority :: "string \<Rightarrow> string"
  ev_query :: "string \<Rightarrow> string"
  ev_singletonTrust :: "string \<Rightarrow> bool"
  ev_dataShareVerify :: "string \<Rightarrow> int \<Rightarrow> string \<Rightarrow> bool \<Rightarrow> bool"

record observer_node =
  on_observer :: nat
  on_userId :: int
  on_tokenId :: int
  on_isFromExtension :: bool
  on_permission :: string
  on_pid :: int
  on_nodeId :: int

definition node_eq :: "observer_node \<Rightarrow> observer_node \<Rightarrow> bool" where
  "node_eq a b \<longleftrightarrow> on_observer a = on_observer b \<and> on_userId a = on_userId b \<and> on_tokenId a = on_tokenId b"

record obs_mgr =
  om_observers :: "(string, observer_node list) omap"
  om_recipients :: "nat set"

definition OBS_NUM_MAX :: nat where
  "OBS_NUM_MAX = 50"

definition OBS_ALL_NUM_MAX :: nat where
  "OBS_ALL_NUM_MAX = OBS_NUM_MAX * OBS_NUM_MAX"

abbreviation AsObject :: "obs_env \<Rightarrow> observer_node \<Rightarrow> nat option" where
  "AsObject ev n \<equiv> ev_asObject ev (on_observer n)"

section \<open>DataObsMgrInner\<close>

definition AddObsDeathRecipient :: "obs_env \<Rightarrow> nat \<Rightarrow> obs_mgr \<Rightarrow> obs_mgr" where
  "AddObsDeathRecipient ev dataObserver s =
     (case ev_asObject ev dataObserver of
        None \<Rightarrow> s
      | Some obj \<Rightarrow> if obj \<in> om_recipients s then s else s\<lparr>om_recipients := insert obj (om_recipients s)\<rparr>)"

definition RemoveObsDeathRecipient :: "nat option \<Rightarrow> obs_mgr \<Rightarrow> obs_mgr" where
  "RemoveObsDeathRecipient dataObserver s =
     (case dataObserver of
        None \<Rightarrow> s
      | Some obj \<Rightarrow> if obj \<in> om_recipients s then s\<lparr>om_recipients := om_recipients s - {obj}\<rparr> else s)"

definition HaveRegistered :: "nat \<Rightarrow> obs_mgr \<Rightarrow> bool" where
  "HaveRegistered dataObserver s \<longleftrightarrow>
     (\<exists>e\<in>set (om_observers s). \<exists>node\<in>set (snd e). on_observer node = dataObserver)"

definition RemoveObs :: "obs_env \<Rightarrow> nat option \<Rightarrow> obs_mgr \<Rightarrow> obs_mgr" where
  "RemoveObs ev dataObserver s =
     RemoveObsDeathRecipient dataObserver
       (s\<lparr>om_observers := omap_sweep
            (\<lambda>_ obsList. let l = erase_first (\<lambda>n. AsObject ev n = dataObserver) obsList
                        in if length l = 0 then None else Some l) (om_observers s)\<rparr>)"

definition OnCallBackDied :: "obs_env \<Rightarrow> nat option \<Rightarrow> obs_mgr \<Rightarrow> obs_mgr" where
  "OnCallBackDied ev dataObserver s = (if dataObserver = None then s else RemoveObs ev dataObserver s)"

fun registerLoop :: "obs_env \<Rightarrow> observer_node \<Rightarrow> nat \<Rightarrow> observer_node list \<Rightarrow> obs_status option" where
  "registerLoop ev observerNode tokenCount [] = None"
| "registerLoop ev observerNode tokenCount (obs # rest) =
     (if AsObject ev obs = AsObject ev observerNode then Some OBS_EXIST
      else if on_tokenId obs = on_tokenId observerNode
      then (if tokenCount + 1 > OBS_NUM_MAX then Some DATAOBS_SERVICE_OBS_LIMMIT
            else registerLoop ev observerNode (tokenCount + 1) rest)
      else registerLoop ev observerNode tokenCount rest)"

definition HandleRegisterObserver :: "obs_env \<Rightarrow> string \<Rightarrow> observer_node \<Rightarrow> obs_mgr \<Rightarrow> obs_status \<times> obs_mgr" where
  "HandleRegisterObserver ev uri observerNode s =
     (let flag = (omap_find (om_observers s) uri = None);
          obsList = (case omap_find (om_observers s) uri of None \<Rightarrow> [] | Some l \<Rightarrow> l);
          s0 = (if flag then s\<lparr>om_observers := omap_put uri [] (om_observers s)\<rparr> else s)
      in if \<not> flag \<and> length obsList \<ge> OBS_ALL_NUM_MAX then (DATAOBS_SERVICE_OBS_LIMMIT, s0)
         else case registerLoop ev observerNode 0 obsList of
                Some err \<Rightarrow> (err, s0)
              | None \<Rightarrow>
                  (NO_ERROR, AddObsDeathRecipient ev (on_observer observerNode)
                     (s0\<lparr>om_observers := omap_put uri (obsList @ [observerNode]) (om_observers s0)\<rparr>)))"

definition HandleUnregisterObserver :: "obs_env \<Rightarrow> string \<Rightarrow> observer_node \<Rightarrow> obs_mgr \<Rightarrow> obs_status \<times> obs_mgr" where
  "HandleUnregisterObserver ev uri observerNode s =
     (case omap_find (om_observers s) uri of
        None \<Rightarrow> (NO_OBS_FOR_URI, s)
      | Some obsList \<Rightarrow>
          (case find (\<lambda>n. AsObject ev n = AsObject ev observerNode) obsList of
             None \<Rightarrow> (NO_OBS_FOR_URI, s)
           | Some obs \<Rightarrow>
               let l = filter (\<lambda>n. \<not> node_eq n obs) obsList;
                   s1 = s\<lparr>om_observers := (if l = [] then omap_erase uri (om_observers s)
                                          else omap_put uri l (om_observers s))\<rparr>;
                   s2 = (if \<not> HaveRegistered (on_observer observerNode) s1
                         then RemoveObsDeathRecipient (AsObject ev observerNode) s1 else s1)
               in (NO_ERROR, s2)))"

section \<open>ObsPermissionVerifier\<close>

type_synonym groups_cache = "(string \<times> string list) list"

definition RELATIONAL_STORE :: string where
  "RELATIONAL_STORE = ''rdb''"

definition CACHE_SIZE_THRESHOLD :: nat where
  "CACHE_SIZE_THRESHOLD = 50"

definition GetCallingInfo :: "obs_env \<Rightarrow> int \<Rightarrow> bool \<times> string" where
  "GetCallingInfo ev callingTokenId =
     (case ev_tokenType ev callingTokenId of
        TOKEN_HAP \<Rightarrow> (False, case ev_hapBundle ev callingTokenId of None \<Rightarrow> [] | Some b \<Rightarrow> b)
      | TOKEN_NATIVE \<Rightarrow> (True, [])
      | TOKEN_SHELL \<Rightarrow> (True, [])
      | TOKEN_INVALID \<Rightarrow> (False, []))"

definition groupsKey :: "string \<Rightarrow> int \<Rightarrow> string" where
  "groupsKey bundleName userId = bundleName @ '':'' @ to_string userId"

text \<open>The section under the write lock: look again, make room, append.\<close>

definition groupsStore :: "string \<Rightarrow> string list \<Rightarrow> groups_cache \<Rightarrow> string list \<times> groups_cache" where
  "groupsStore key groupIds cache =
     (case map_of cache key of
        Some ids \<Rightarrow> (ids, cache)
      | None \<Rightarrow> (groupIds, drop (length cache - (CACHE_SIZE_THRESHOLD - 1)) cache @ [(key, groupIds)]))"

definition GetGroupInfosFromCache :: "obs_env \<Rightarrow> string \<Rightarrow> int \<Rightarrow> groups_cache \<Rightarrow> string list \<times> groups_cache" where
  "GetGroupInfosFromCache ev bundleName userId cache =
     (let key = groupsKey bundleName userId in
      case map_of cache key of
        Some ids \<Rightarrow> (ids, cache)
      | None \<Rightarrow>
          (case ev_groups ev bundleName userId of
             None \<Rightarrow> ([], cache)
           | Some groupIds \<Rightarrow> groupsStore key groupIds cache))"

definition VerifyPermission :: "obs_env \<Rightarrow> int \<Rightarrow> int \<Rightarrow> string \<Rightarrow> int \<Rightarrow> groups_cache \<Rightarrow> bool \<times> groups_cache" where
  "VerifyPermission ev listenerTokenId userId uri tokenId cache =
     (if listenerTokenId = tokenId then (True, cache)
      else let (isSA, listenerCallingName) = GetCallingInfo ev listenerTokenId in
           if isSA then (True, cache)
           else let (listenerGroupIds, cache') = GetGroupInfosFromCache ev listenerCallingName userId cache
                in (ev_authority ev uri \<in> set listenerGroupIds, cache'))"

section \<open>Notification\<close>

fun notifyLoop ::
  "obs_env \<Rightarrow> string \<Rightarrow> int \<Rightarrow> string \<Rightarrow> bool \<Rightarrow> int \<Rightarrow> observer_node list \<Rightarrow> groups_cache \<Rightarrow>
   observer_node list \<times> groups_cache" where
  "notifyLoop ev uri userId readPermission isSilentUri tokenId [] cache = ([], cache)"
| "notifyLoop ev uri userId readPermission isSilentUri tokenId (obs # rest) cache =
     (let (allowed, cache1) =
        (if ev_scheme ev uri = RELATIONAL_STORE
         then VerifyPermission ev (on_tokenId obs) userId uri tokenId cache
         else if \<not> ev_singletonTrust ev uri \<and> on_userId obs \<noteq> 0 \<and> userId \<noteq> 0 \<and> on_userId obs \<noteq> userId
         then (False, cache)
         else (ev_dataShareVerify ev uri (on_tokenId obs) readPermission isSilentUri, cache));
          (sent, cache2) = notifyLoop ev uri userId readPermission isSilentUri tokenId rest cache1
      in ((if allowed then [obs] else []) @ sent, cache2))"

definition HandleNotifyChange ::
  "obs_env \<Rightarrow> string \<Rightarrow> int \<Rightarrow> string \<Rightarrow> bool \<Rightarrow> int \<Rightarrow> obs_mgr \<Rightarrow> groups_cache \<Rightarrow>
   obs_status \<times> observer_node list \<times> groups_cache" where
  "HandleNotifyChange ev uri userId readPermission isSilentUri tokenId s cache =
     (case omap_find (om_observers s) uri of
        None \<Rightarrow> (NO_OBS_FOR_URI, [], cache)
      | Some obsList \<Rightarrow> (NO_ERROR, notifyLoop ev uri userId readPermission isSilentUri tokenId obsList cache))"

section \<open>DataObsMgrInnerPref\<close>

text \<open>
  The preference registry repeats the registration code of \<open>DataObsMgrInner\<close> statement by statement on
  members of the same types; only the notification differs, which looks the URI up without its query.
\<close>

definition pref_AddObsDeathRecipient :: "obs_env \<Rightarrow> nat \<Rightarrow> obs_mgr \<Rightarrow> obs_mgr" where
  "pref_AddObsDeathRecipient = AddObsDeathRecipient"

definition pref_RemoveObsDeathRecipient :: "nat option \<Rightarrow> obs_mgr \<Rightarrow> obs_mgr" where
  "pref_RemoveObsDeathRecipient = RemoveObsDeathRecipient"

definition pref_HandleRegisterObserver :: "obs_env \<Rightarrow> string \<Rightarrow> observer_node \<Rightarrow> obs_mgr \<Rightarrow> obs_status \<times> obs_mgr" where
  "pref_HandleRegisterObserver = HandleRegisterObserver"

definition pref_HandleUnregisterObserver :: "obs_env \<Rightarrow> string \<Rightarrow> observer_node \<Rightarrow> obs_mgr \<Rightarrow> obs_status \<times> obs_mgr" where
  "pref_HandleUnregisterObserver = HandleUnregisterObserver"

definition pref_OnCallBackDied :: "obs_env \<Rightarrow> nat option \<Rightarrow> obs_mgr \<Rightarrow> obs_mgr" where
  "pref_OnCallBackDied = OnCallBackDied"

fun prefNotifyLoop ::
  "obs_env \<Rightarrow> string \<Rightarrow> int \<Rightarrow> int \<Rightarrow> observer_node list \<Rightarrow> groups_cache \<Rightarrow>
   (observer_node \<times> string) list \<times> groups_cache" where
  "prefNotifyLoop ev uri userId tokenId [] cache = ([], cache)"
| "prefNotifyLoop ev uri userId tokenId (obs # rest) cache =
     (if on_userId obs \<noteq> 0 \<and> userId \<noteq> 0 \<and> on_userId obs \<noteq> userId
      then prefNotifyLoop ev uri userId tokenId rest cache
      else let (allowed, cache1) = VerifyPermission ev (on_tokenId obs) (on_userId obs) uri tokenId cache;
               (sent, cache2) = prefNotifyLoop ev uri userId tokenId rest cache1
           in ((if allowed then [(obs, ev_query ev uri)] else []) @ sent, cache2))"

definition pref_HandleNotifyChange ::
  "obs_env \<Rightarrow> string \<Rightarrow> int \<Rightarrow> int \<Rightarrow> obs_mgr \<Rightarrow> groups_cache \<Rightarrow>
   obs_status \<times> (observer_node \<times> string) list \<times> groups_cache" where
  "pref_HandleNotifyChange ev uri userId tokenId s cache =
     (if CHR ''?'' \<notin> set uri then (INVALID_PARAM, [], cache)
      else case omap_find (om_observers s) (takeWhile (\<lambda>c. c \<noteq> CHR ''?'') uri) of
             None \<Rightarrow> (NO_OBS_FOR_URI, [], cache)
           | Some obsList \<Rightarrow> (NO_ERROR, prefNotifyLoop ev uri userId tokenId obsList cache))"

section \<open>The registration invariant\<close>

definition nodesOf :: "obs_mgr \<Rightarrow> string \<Rightarrow> observer_node list" where
  "nodesOf s uri = (case omap_find (om_observers s) uri of None \<Rightarrow> [] | Some l \<Rightarrow> l)"

definition obsListOk :: "obs_env \<Rightarrow> observer_node list \<Rightarrow> bool" where
  "obsListOk ev l \<longleftrightarrow> distinct (map (AsObject ev) l) \<and> length l \<le> OBS_ALL_NUM_MAX \<and>
     (\<forall>tok. length (filter (\<lambda>n. on_tokenId n = tok) l) \<le> OBS_NUM_MAX + 1)"

definition obs_inv :: "obs_env \<Rightarrow> obs_mgr \<Rightarrow> bool" where
  "obs_inv ev s \<longleftrightarrow> omap_inv (om_observers s) \<and>
     (\<forall>uri l. omap_find (om_observers s) uri = Some l \<longrightarrow> l \<noteq> [] \<and> obsListOk ev l)"

definition obs_has :: "obs_env \<Rightarrow> obs_mgr \<Rightarrow> string \<Rightarrow> nat \<Rightarrow> bool" where
  "obs_has ev s uri obj \<longleftrightarrow> (\<exists>n\<in>set (nodesOf s uri). AsObject ev n = Some obj)"

lemma OBS_NUM_MAX_pos [simp]: "0 < OBS_NUM_MAX" "0 < OBS_ALL_NUM_MAX"
  by (simp_all add: OBS_NUM_MAX_def OBS_ALL_NUM_MAX_def)

lemma obsListOk_Nil [simp]: "obsListOk ev []"
  by (simp add: obsListOk_def)

lemma obsListOk_filter: "obsListOk ev l \<Longrightarrow> obsListOk ev (filter p l)"
proof -
  have le: "length (filter q (filter p l)) \<le> length (filter q l)" for q by (induction l) auto
  assume "obsListOk ev l"
  then show ?thesis
    unfolding obsListOk_def
    by (meson distinct_map_filter le le_trans length_filter_le)
qed

lemma obs_invD:
  assumes "obs_inv ev s"
  shows "omap_inv (om_observers s)" "obsListOk ev (nodesOf s uri)"
    "omap_find (om_observers s) uri = Some l \<Longrightarrow> l \<noteq> []"
  using assms by (auto simp: obs_inv_def nodesOf_def split: option.splits)

lemma AddObsDeathRecipient_observers [simp]: "om_observers (AddObsDeathRecipient ev p s) = om_observers s"
  by (simp add: AddObsDeathRecipient_def split: option.split)

lemma RemoveObsDeathRecipient_observers [simp]: "om_observers (RemoveObsDeathRecipient x s) = om_observers s"
  by (simp add: RemoveObsDeathRecipient_def split: option.split)

lemma obs_inv_observers: "om_observers s = om_observers t \<Longrightarrow> obs_inv ev s = obs_inv ev t"
  by (simp add: obs_inv_def)

lemma nodesOf_observers: "om_observers s = om_observers t \<Longrightarrow> nodesOf s = nodesOf t"
  by (simp add: nodesOf_def fun_eq_iff)

lemma nodesOf_recipients [simp]:
  "nodesOf (AddObsDeathRecipient ev p s) = nodesOf s" "nodesOf (RemoveObsDeathRecipient x s) = nodesOf s"
  by (rule nodesOf_observers, simp)+

text \<open>What the registration loop decides.\<close>

lemma registerLoop_None:
  "registerLoop ev node cnt l = None \<longleftrightarrow> AsObject ev node \<notin> AsObject ev ` set l \<and>
     (length (filter (\<lambda>n. on_tokenId n = on_tokenId node) l) = 0 \<or>
      cnt + length (filter (\<lambda>n. on_tokenId n = on_tokenId node) l) \<le> OBS_NUM_MAX)"
  by (induction l arbitrary: cnt) auto

lemma registerLoop_errors: "registerLoop ev node cnt l \<in> {None, Some OBS_EXIST, Some DATAOBS_SERVICE_OBS_LIMMIT}"
  by (induction l arbitrary: cnt) auto

definition registrable :: "obs_env \<Rightarrow> string \<Rightarrow> observer_node \<Rightarrow> obs_mgr \<Rightarrow> bool" where
  "registrable ev uri node s \<longleftrightarrow> length (nodesOf s uri) < OBS_ALL_NUM_MAX \<and>
     AsObject ev node \<notin> AsObject ev ` set (nodesOf s uri) \<and>
     length (filter (\<lambda>n. on_tokenId n = on_tokenId node) (nodesOf s uri)) \<le> OBS_NUM_MAX"

lemma registerLoop_registrable:
  "length (nodesOf s uri) < OBS_ALL_NUM_MAX \<Longrightarrow>
     registerLoop ev node 0 (nodesOf s uri) = None \<longleftrightarrow> registrable ev uri node s"
  by (auto simp: registrable_def registerLoop_None)

lemma HandleRegister_ok:
  assumes "obs_inv ev s" "registrable ev uri node s"
  shows "HandleRegisterObserver ev uri node s = (NO_ERROR, AddObsDeathRecipient ev (on_observer node)
    (s\<lparr>om_observers := omap_put uri (nodesOf s uri @ [node]) (om_observers s)\<rparr>))"
proof -
  have len: "length (nodesOf s uri) < OBS_ALL_NUM_MAX" using assms(2) by (simp add: registrable_def)
  then have loop: "registerLoop ev node 0 (nodesOf s uri) = None"
    using assms(2) by (simp add: registerLoop_registrable)
  show ?thesis
    using len loop
    by (cases "omap_find (om_observers s) uri") (simp_all add: omap_put_put HandleRegisterObserver_def nodesOf_def)
qed

lemma HandleRegister_refused:
  assumes "obs_inv ev s" "\<not> registrable ev uri node s"
  shows "snd (HandleRegisterObserver ev uri node s) = s \<and>
    fst (HandleRegisterObserver ev uri node s) \<in> {OBS_EXIST, DATAOBS_SERVICE_OBS_LIMMIT}"
proof (cases "omap_find (om_observers s) uri")
  case None
  with assms(2) show ?thesis by (simp add: registrable_def nodesOf_def)
next
  case (Some l)
  then have l: "nodesOf s uri = l" by (simp add: nodesOf_def)
  show ?thesis
  proof (cases "OBS_ALL_NUM_MAX \<le> length l")
    case True
    with Some show ?thesis by (simp add: HandleRegisterObserver_def)
  next
    case False
    then obtain err where "registerLoop ev node 0 l = Some err"
      using registerLoop_registrable [of s uri ev node] l assms(2) by auto
    with False Some registerLoop_errors [of ev node 0 l] show ?thesis by (simp add: HandleRegisterObserver_def)
  qed
qed

lemma nodesOf_put:
  "omap_inv (om_observers s) \<Longrightarrow>
     nodesOf (s\<lparr>om_observers := omap_put uri l (om_observers s)\<rparr>) = (nodesOf s)(uri := l)"
  by (auto simp: nodesOf_def find_omap_put fun_eq_iff)

lemma nodesOf_erase: "nodesOf (s\<lparr>om_observers := omap_erase uri (om_observers s)\<rparr>) = (nodesOf s)(uri := [])"
  by (auto simp: nodesOf_def find_omap_erase fun_eq_iff)

lemma obs_inv_put:
  "obs_inv ev s \<Longrightarrow> l \<noteq> [] \<Longrightarrow> obsListOk ev l \<Longrightarrow> obs_inv ev (s\<lparr>om_observers := omap_put uri l (om_observers s)\<rparr>)"
  by (auto simp: obs_inv_def omap_inv_put find_omap_put)

lemma obs_inv_erase: "obs_inv ev s \<Longrightarrow> obs_inv ev (s\<lparr>om_observers := omap_erase uri (om_observers s)\<rparr>)"
  by (auto simp: obs_inv_def omap_inv_erase find_omap_erase)

lemma obsListOk_snoc:
  "obsListOk ev (nodesOf s uri) \<Longrightarrow> registrable ev uri node s \<Longrightarrow> obsListOk ev (nodesOf s uri @ [node])"
  by (auto simp: obsListOk_def registrable_def)

lemma HandleRegister_inv:
  assumes "obs_inv ev s"
  shows "obs_inv ev (snd (HandleRegisterObserver ev uri node s))"
proof (cases "registrable ev uri node s")
  case True
  from obs_inv_put [OF assms _ obsListOk_snoc [OF obs_invD(2) [OF assms] True]]
  have "obs_inv ev (s\<lparr>om_observers := omap_put uri (nodesOf s uri @ [node]) (om_observers s)\<rparr>)" by simp
  with HandleRegister_ok [OF assms True] show ?thesis by (simp add: obs_inv_def)
qed (use assms HandleRegister_refused [OF assms] in auto)

lemma HandleRegister_nodes:
  assumes "obs_inv ev s"
  shows "nodesOf (snd (HandleRegisterObserver ev uri node s)) =
    (if fst (HandleRegisterObserver ev uri node s) = NO_ERROR then (nodesOf s)(uri := nodesOf s uri @ [node]) else nodesOf s)"
proof (cases "registrable ev uri node s")
  case True
  from nodesOf_put [OF obs_invD(1) [OF assms], of uri "nodesOf s uri @ [node]"] HandleRegister_ok [OF assms True]
  show ?thesis by simp
next
  case False
  from HandleRegister_refused [OF assms False] show ?thesis by auto
qed

section \<open>Unregistration and death\<close>

lemma remove_eq_filter:
  assumes "distinct (map (AsObject ev) l)" "n \<in> set l"
  shows "filter (\<lambda>m. \<not> node_eq m n) l = filter (\<lambda>m. AsObject ev m \<noteq> AsObject ev n) l"
proof (rule filter_cong [OF refl])
  fix m assume "m \<in> set l"
  then show "(\<not> node_eq m n) = (AsObject ev m \<noteq> AsObject ev n)"
    using assms by (auto simp: node_eq_def distinct_map inj_on_def)
qed

lemma HandleUnregister_observers:
  assumes "obs_inv ev s"
  shows "om_observers (snd (HandleUnregisterObserver ev uri node s)) =
    (let l = filter (\<lambda>m. AsObject ev m \<noteq> AsObject ev node) (nodesOf s uri)
     in if l = nodesOf s uri then om_observers s
        else if l = [] then omap_erase uri (om_observers s) else omap_put uri l (om_observers s))"
proof (cases "find (\<lambda>n. AsObject ev n = AsObject ev node) (nodesOf s uri)")
  case None
  then have "filter (\<lambda>m. AsObject ev m \<noteq> AsObject ev node) (nodesOf s uri) = nodesOf s uri"
    by (simp add: find_None_conv filter_id_conv)
  with None show ?thesis
    by (cases "omap_find (om_observers s) uri") (simp_all add: HandleUnregisterObserver_def nodesOf_def)
next
  case (Some n)
  from find_SomeD [OF Some] have n: "n \<in> set (nodesOf s uri)" "AsObject ev n = AsObject ev node" by auto
  then obtain l where l: "omap_find (om_observers s) uri = Some l" "nodesOf s uri = l"
    by (cases "omap_find (om_observers s) uri") (simp_all add: nodesOf_def)
  have "distinct (map (AsObject ev) l)" using obs_invD(2) [OF assms, of uri] l by (simp add: obsListOk_def)
  from remove_eq_filter [OF this, of n] n l
  have f: "filter (\<lambda>m. \<not> node_eq m n) l = filter (\<lambda>m. AsObject ev m \<noteq> AsObject ev node) l" by simp
  moreover have "filter (\<lambda>m. AsObject ev m \<noteq> AsObject ev node) l \<noteq> l" using n l by (auto simp: filter_id_conv)
  ultimately show ?thesis using Some l by (simp add: HandleUnregisterObserver_def Let_def)
qed

lemma HandleUnregister_nodes:
  assumes "obs_inv ev s"
  shows "nodesOf (snd (HandleUnregisterObserver ev uri node s)) =
    (nodesOf s)(uri := filter (\<lambda>m. AsObject ev m \<noteq> AsObject ev node) (nodesOf s uri))"
proof -
  let ?l = "filter (\<lambda>m. AsObject ev m \<noteq> AsObject ev node) (nodesOf s uri)"
  have "nodesOf (snd (HandleUnregisterObserver ev uri node s)) =
      nodesOf (s\<lparr>om_observers := om_observers (snd (HandleUnregisterObserver ev uri node s))\<rparr>)"
    by (rule nodesOf_observers) simp
  also have "\<dots> = (nodesOf s)(uri := ?l)"
    unfolding HandleUnregister_observers [OF assms] Let_def
    by (auto simp: nodesOf_put [OF obs_invD(1) [OF assms]] nodesOf_erase)
  finally show ?thesis .
qed

lemma HandleUnregister_inv:
  assumes "obs_inv ev s"
  shows "obs_inv ev (snd (HandleUnregisterObserver ev uri node s))"
proof -
  let ?l = "filter (\<lambda>m. AsObject ev m \<noteq> AsObject ev node) (nodesOf s uri)"
  have "obs_inv ev (s\<lparr>om_observers := om_observers (snd (HandleUnregisterObserver ev uri node s))\<rparr>)"
    unfolding HandleUnregister_observers [OF assms] Let_def
    using assms obs_inv_put [OF assms _ obsListOk_filter [OF obs_invD(2) [OF assms]]] obs_inv_erase [OF assms]
    by simp
  then show ?thesis by (simp add: obs_inv_def)
qed

lemma RemoveObs_nodes:
  assumes "obs_inv ev s"
  shows "nodesOf (RemoveObs ev x s) = (\<lambda>uri. filter (\<lambda>m. AsObject ev m \<noteq> x) (nodesOf s uri))"
proof
  fix uri
  have "erase_first (\<lambda>n. AsObject ev n = x) (nodesOf s uri) = filter (\<lambda>m. AsObject ev m \<noteq> x) (nodesOf s uri)"
    by (rule erase_first_filter [where f = "AsObject ev"])
      (use obs_invD(2) [OF assms, of uri] in \<open>auto simp: obsListOk_def\<close>)
  then show "nodesOf (RemoveObs ev x s) uri = filter (\<lambda>m. AsObject ev m \<noteq> x) (nodesOf s uri)"
    using find_omap_sweep [OF omap_inv_distinct [OF obs_invD(1) [OF assms]]]
    by (cases "omap_find (om_observers s) uri") (simp_all add: RemoveObs_def nodesOf_def Let_def)
qed

lemma RemoveObs_inv:
  assumes "obs_inv ev s"
  shows "obs_inv ev (RemoveObs ev x s)"
proof -
  have "obsListOk ev (nodesOf (RemoveObs ev x s) uri)" for uri
    by (simp add: RemoveObs_nodes [OF assms] obsListOk_filter obs_invD(2) [OF assms])
  moreover have "omap_inv (om_observers (RemoveObs ev x s))"
    by (simp add: RemoveObs_def omap_inv_sweep obs_invD(1) [OF assms])
  moreover have "omap_find (om_observers (RemoveObs ev x s)) uri = Some l \<Longrightarrow> l \<noteq> []" for uri l
    using find_omap_sweep [OF omap_inv_distinct [OF obs_invD(1) [OF assms]]]
    by (auto simp: RemoveObs_def Let_def split: option.splits if_splits)
  ultimately show ?thesis unfolding obs_inv_def nodesOf_def by (metis option.simps(5))
qed


section \<open>The registry contract\<close>

definition obsRegister :: "obs_env \<Rightarrow> string \<Rightarrow> observer_node \<Rightarrow> obs_mgr \<Rightarrow> bool \<times> obs_mgr" where
  "obsRegister ev uri node s = (fst (HandleRegisterObserver ev uri node s) = NO_ERROR, snd (HandleRegisterObserver ev uri node s))"

definition obsUnregister :: "obs_env \<Rightarrow> string \<Rightarrow> observer_node \<Rightarrow> obs_mgr \<Rightarrow> obs_mgr" where
  "obsUnregister ev uri node s = snd (HandleUnregisterObserver ev uri node s)"

definition obsDied :: "obs_env \<Rightarrow> nat \<Rightarrow> obs_mgr \<Rightarrow> obs_mgr" where
  "obsDied ev x s = OnCallBackDied ev (Some x) s"

interpretation inner: observer_registry "obsRegister ev" "obsUnregister ev" "obsDied ev" "AsObject ev" "obs_has ev" "obs_inv ev"
  for ev
proof (unfold_locales, goal_cases)
  case (4 s u n u' x)
  then show ?case by (auto simp: obsRegister_def obs_has_def HandleRegister_nodes)
next
  case (5 s u n u' x)
  then show ?case by (auto simp: obsUnregister_def obs_has_def HandleUnregister_nodes)
next
  case (6 s y u x)
  then show ?case by (auto simp: obsDied_def OnCallBackDied_def obs_has_def RemoveObs_nodes)
qed (simp_all add: obsRegister_def obsUnregister_def obsDied_def OnCallBackDied_def
    HandleRegister_inv HandleUnregister_inv RemoveObs_inv)

text \<open>
  C38: over every sequence of registrations, unregistrations and deaths, the observer map of
  \<open>DataObsMgrInner\<close> holds exactly the (URI, remote object) pairs that the calls and their results
  imply: a death or an unregistration takes away its pairs and nothing else, a refused registration
  changes nothing.
\<close>

theorem DataObsMgrInner_refines:
  assumes "obs_inv ev s"
  shows "let (oks, s') = runRegistry (obsRegister ev) (obsUnregister ev) (obsDied ev) es s
    in {(u, x). obs_has ev s' u x} = trackRegistry (AsObject ev) es oks {(u, x). obs_has ev s u x} \<and> obs_inv ev s'"
  using inner.run_tracks [OF assms, of es] inner.run_inv [OF assms, of es]
  by (simp add: inner.holds_def case_prod_beta)

definition exEnv :: obs_env where
  "exEnv = \<lparr>ev_asObject = (\<lambda>p. Some (p div 10)), ev_tokenType = (\<lambda>t. if t < 100 then TOKEN_NATIVE else TOKEN_HAP),
     ev_hapBundle = (\<lambda>t. Some ''app''), ev_groups = (\<lambda>b u. Some [''group'']), ev_scheme = (\<lambda>u. ''datashare''),
     ev_authority = (\<lambda>u. ''group''), ev_query = (\<lambda>u. ''q''), ev_singletonTrust = (\<lambda>u. False),
     ev_dataShareVerify = (\<lambda>u t p silent. True)\<rparr>"

definition exNode :: "nat \<Rightarrow> observer_node" where
  "exNode p = \<lparr>on_observer = p, on_userId = 100, on_tokenId = 7, on_isFromExtension = False, on_permission = [],
     on_pid = 1, on_nodeId = int p\<rparr>"

definition obs_new :: obs_mgr where
  "obs_new = \<lparr>om_observers = [], om_recipients = {}\<rparr>"

lemma obs_inv_new: "obs_inv ev obs_new"
  by (simp add: obs_inv_def obs_new_def)

theorem DataObsMgrInner_refines_witness:
  "let (oks, s') = runRegistry (obsRegister exEnv) (obsUnregister exEnv) (obsDied exEnv)
       [Register ''a'' (exNode 10), Register ''b'' (exNode 20), Unregister ''a'' (exNode 11)] obs_new
   in {(u, x). obs_has exEnv s' u x} = {(''b'', 2)}"
proof -
  let ?es = "[Register ''a'' (exNode 10), Register ''b'' (exNode 20), Unregister ''a'' (exNode 11)]"
  have oks: "fst (runRegistry (obsRegister exEnv) (obsUnregister exEnv) (obsDied exEnv) ?es obs_new) = [True, True, True]"
    by (simp add: obsRegister_def HandleRegisterObserver_def obs_new_def exEnv_def exNode_def AddObsDeathRecipient_def Let_def)
  have "{(u, x). obs_has exEnv obs_new u x} = {}" by (simp add: obs_has_def nodesOf_def obs_new_def)
  moreover have "AsObject exEnv (exNode p) = Some (p div 10)" for p by (simp add: exEnv_def exNode_def)
  ultimately have "trackRegistry (AsObject exEnv) ?es [True, True, True] {(u, x). obs_has exEnv obs_new u x} = {(''b'', 2)}"
    by auto
  with DataObsMgrInner_refines [OF obs_inv_new, of exEnv ?es] oks show ?thesis by (simp only: case_prod_beta Let_def)
qed

section \<open>Registration on every branch\<close>

lemma HandleRegister_cases:
  assumes "obs_inv ev s"
  shows "let (code, s') = HandleRegisterObserver ev uri node s in
    if registrable ev uri node s
    then code = NO_ERROR \<and> nodesOf s' = (nodesOf s)(uri := nodesOf s uri @ [node]) \<and>
      om_recipients s' = om_recipients s \<union> set_option (AsObject ev node)
    else code \<in> {OBS_EXIST, DATAOBS_SERVICE_OBS_LIMMIT} \<and> s' = s"
proof (cases "registrable ev uri node s")
  case True
  with HandleRegister_ok [OF assms True] HandleRegister_nodes [OF assms, of uri node] show ?thesis
    by (auto simp: AddObsDeathRecipient_def split: option.splits)
next
  case False
  from HandleRegister_refused [OF assms False] False show ?thesis by (simp add: case_prod_beta)
qed

text \<open>
  registration is decided by three tests on the observers of the URI: fewer than 2500 of them, none
  with the same remote object, and at most 50 of the caller's token.  It then appends the observer and
  watches its death; otherwise it reports a limit or a duplicate and changes nothing.
\<close>

theorem HandleRegisterObserver_decides:
  assumes "obs_inv ev s"
  shows "let (code, s') = HandleRegisterObserver ev uri node s in
    if length (nodesOf s uri) < 2500 \<and> AsObject ev node \<notin> AsObject ev ` set (nodesOf s uri) \<and>
       length (filter (\<lambda>n. on_tokenId n = on_tokenId node) (nodesOf s uri)) \<le> 50
    then code = NO_ERROR \<and> nodesOf s' = (nodesOf s)(uri := nodesOf s uri @ [node]) \<and>
      om_recipients s' = om_recipients s \<union> set_option (AsObject ev node)
    else code \<in> {OBS_EXIST, DATAOBS_SERVICE_OBS_LIMMIT} \<and> s' = s"
  using HandleRegister_cases [OF assms, of uri node]
  by (simp add: registrable_def OBS_ALL_NUM_MAX_def OBS_NUM_MAX_def)

theorem HandleRegisterObserver_decides_witness:
  "HandleRegisterObserver exEnv ''a'' (exNode 10) obs_new =
     (NO_ERROR, snd (HandleRegisterObserver exEnv ''a'' (exNode 10) obs_new)) \<and>
   om_recipients (snd (HandleRegisterObserver exEnv ''a'' (exNode 10) obs_new)) = {1}"
  using HandleRegisterObserver_decides [OF obs_inv_new, of exEnv "''a''" "exNode 10"]
  by (auto simp: case_prod_beta nodesOf_def obs_new_def exEnv_def exNode_def prod_eq_iff)


section \<open>Death recipients\<close>

text \<open>
  An object is watched from its first registration to its last unregistration, provided every
  registered object has one proxy: \<open>HaveRegistered\<close> compares proxies, the rest of the code objects.
\<close>

definition oneProxy :: "obs_env \<Rightarrow> bool" where
  "oneProxy ev \<longleftrightarrow> (\<forall>p q x. ev_asObject ev p = Some x \<and> ev_asObject ev q = Some x \<longrightarrow> p = q)"

definition watched_inv :: "obs_env \<Rightarrow> obs_mgr \<Rightarrow> bool" where
  "watched_inv ev s \<longleftrightarrow> obs_inv ev s \<and> om_recipients s = {x. \<exists>uri. obs_has ev s uri x}"

lemma HaveRegistered_iff:
  assumes "obs_inv ev s"
  shows "HaveRegistered p s \<longleftrightarrow> (\<exists>uri. \<exists>n\<in>set (nodesOf s uri). on_observer n = p)"
proof -
  have "n \<in> set (nodesOf s uri) \<longleftrightarrow> (\<exists>l. (uri, l) \<in> set (om_observers s) \<and> n \<in> set l)" for n uri
    unfolding omap_find_iff [OF obs_invD(1) [OF assms], symmetric] by (cases "omap_find (om_observers s) uri") (simp_all add: nodesOf_def)
  then show ?thesis by (force simp: HaveRegistered_def)
qed

lemma HandleUnregister_recipients:
  assumes "obs_inv ev s"
  shows "om_recipients (snd (HandleUnregisterObserver ev uri node s)) =
    (if AsObject ev node \<in> AsObject ev ` set (nodesOf s uri) \<and>
        \<not> HaveRegistered (on_observer node) (snd (HandleUnregisterObserver ev uri node s))
     then om_recipients s - set_option (AsObject ev node) else om_recipients s)"
proof (cases "find (\<lambda>n. AsObject ev n = AsObject ev node) (nodesOf s uri)")
  case None
  then have "AsObject ev node \<notin> AsObject ev ` set (nodesOf s uri)" by (auto simp: find_None_conv)
  with None show ?thesis
    by (cases "omap_find (om_observers s) uri") (simp_all add: HandleUnregisterObserver_def nodesOf_def)
next
  case (Some n)
  from find_SomeD [OF Some] have n: "AsObject ev node \<in> AsObject ev ` set (nodesOf s uri)" by (metis image_eqI)
  then obtain l where l: "omap_find (om_observers s) uri = Some l" "nodesOf s uri = l"
    by (cases "omap_find (om_observers s) uri") (simp_all add: nodesOf_def)
  have "HaveRegistered p (RemoveObsDeathRecipient x t) = HaveRegistered p t" for p x t by (simp add: HaveRegistered_def)
  then show ?thesis
    using Some l n by (auto simp: HandleUnregisterObserver_def Let_def RemoveObsDeathRecipient_def split: option.split)
qed

lemma watched_register:
  assumes "watched_inv ev s"
  shows "watched_inv ev (snd (HandleRegisterObserver ev uri node s))"
proof -
  have inv: "obs_inv ev s" and rec: "om_recipients s = {x. \<exists>uri. obs_has ev s uri x}"
    using assms by (simp_all add: watched_inv_def)
  show ?thesis
  proof (cases "registrable ev uri node s")
    case True
    with HandleRegister_cases [OF inv, of uri node]
    have "om_recipients (snd (HandleRegisterObserver ev uri node s)) = om_recipients s \<union> set_option (AsObject ev node)"
      and n: "nodesOf (snd (HandleRegisterObserver ev uri node s)) = (nodesOf s)(uri := nodesOf s uri @ [node])"
      by (simp_all add: case_prod_beta)
    moreover have "{x. \<exists>u. obs_has ev (snd (HandleRegisterObserver ev uri node s)) u x} =
        {x. \<exists>u. obs_has ev s u x} \<union> set_option (AsObject ev node)"
      unfolding obs_has_def n by (auto simp: ex_disj_distrib)
    ultimately show ?thesis using rec by (simp add: watched_inv_def HandleRegister_inv [OF inv])
  next
    case False
    with HandleRegister_cases [OF inv, of uri node] assms show ?thesis by (simp add: case_prod_beta)
  qed
qed

lemma watched_unregister:
  assumes "watched_inv ev s" "oneProxy ev"
  shows "watched_inv ev (snd (HandleUnregisterObserver ev uri node s))"
proof -
  let ?t = "snd (HandleUnregisterObserver ev uri node s)"
  have inv: "obs_inv ev s" and rec: "om_recipients s = {x. \<exists>uri. obs_has ev s uri x}"
    using assms(1) by (simp_all add: watched_inv_def)
  have has: "obs_has ev ?t u x \<longleftrightarrow> obs_has ev s u x \<and> \<not> (u = uri \<and> AsObject ev node = Some x)" for u x
    using inner.has_unregister [OF inv] by (simp add: obsUnregister_def)
  have reg: "HaveRegistered (on_observer node) ?t \<longleftrightarrow> (\<exists>u. obs_has ev ?t u x)" if "AsObject ev node = Some x" for x
    unfolding HaveRegistered_iff [OF HandleUnregister_inv [OF inv]] obs_has_def
    using assms(2) that by (metis oneProxy_def)
  have absent: "om_recipients ?t = om_recipients s" if "AsObject ev node \<notin> AsObject ev ` set (nodesOf s uri)"
    using that by (simp add: HandleUnregister_recipients [OF inv])
  show ?thesis
  proof (cases "AsObject ev node")
    case None
    then show ?thesis using rec has
      by (simp add: watched_inv_def HandleUnregister_inv [OF inv] HandleUnregister_recipients [OF inv])
  next
    case (Some x)
    show ?thesis
    proof (cases "AsObject ev node \<in> AsObject ev ` set (nodesOf s uri)")
      case True
      have "om_recipients ?t = {y. \<exists>u. obs_has ev ?t u y}"
        using True Some reg [OF Some] rec has by (auto simp: HandleUnregister_recipients [OF inv])
      then show ?thesis by (simp add: watched_inv_def HandleUnregister_inv [OF inv])
    next
      case False
      then have "\<not> obs_has ev s uri x" using Some by (force simp: obs_has_def)
      then have "obs_has ev ?t = obs_has ev s" using has Some by (auto simp: fun_eq_iff)
      with absent [OF False] rec show ?thesis by (simp add: watched_inv_def HandleUnregister_inv [OF inv])
    qed
  qed
qed

lemma watched_died:
  assumes "watched_inv ev s"
  shows "watched_inv ev (OnCallBackDied ev x s)"
proof (cases x)
  case (Some y)
  have inv: "obs_inv ev s" and rec: "om_recipients s = {x. \<exists>uri. obs_has ev s uri x}"
    using assms by (simp_all add: watched_inv_def)
  have "om_recipients (OnCallBackDied ev (Some y) s) = om_recipients s - {y}"
    by (auto simp: OnCallBackDied_def RemoveObs_def RemoveObsDeathRecipient_def)
  moreover have "obs_has ev (OnCallBackDied ev (Some y) s) u z \<longleftrightarrow> obs_has ev s u z \<and> z \<noteq> y" for u z
    using inner.has_died [OF inv] by (simp add: obsDied_def)
  moreover have "obs_inv ev (OnCallBackDied ev (Some y) s)" using inv by (simp add: OnCallBackDied_def RemoveObs_inv)
  ultimately show ?thesis using Some rec by (auto simp: watched_inv_def)
qed (use assms in \<open>simp add: OnCallBackDied_def\<close>)

inductive obs_step :: "obs_env \<Rightarrow> obs_mgr \<Rightarrow> obs_mgr \<Rightarrow> bool" for ev where
  oregister: "obs_step ev s (snd (HandleRegisterObserver ev uri node s))"
| ounregister: "obs_step ev s (snd (HandleUnregisterObserver ev uri node s))"
| odied: "x \<in> om_recipients s \<Longrightarrow> obs_step ev s (OnCallBackDied ev (Some x) s)"

inductive_cases obs_stepE: "obs_step ev s t"

interpretation obsreg: machine "\<lambda>s. s = obs_new" "obs_step ev" "obs_inv ev" for ev
  by unfold_locales
    (auto simp: obs_inv_new OnCallBackDied_def HandleRegister_inv HandleUnregister_inv RemoveObs_inv elim!: obs_stepE)

lemma watched_reach:
  assumes "oneProxy ev" "reach (\<lambda>s. s = obs_new) (obs_step ev) s"
  shows "watched_inv ev s"
  using assms(2)
proof (induction rule: reach.induct)
  case (reach_start s)
  then show ?case by (simp add: watched_inv_def obs_inv_new) (simp add: obs_new_def obs_has_def nodesOf_def)
next
  case (reach_step s t)
  from reach_step(2) reach_step.IH show ?case
    by cases (auto intro: watched_register watched_unregister [OF _ assms(1)] watched_died)
qed

text \<open>
  in every reachable state of the registry no URI has more than 2500 observers, an object is
  registered at most once per URI, no URI keeps an empty list, and a token has at most 51 observers on a
  URI; and if every object has one proxy, the watched objects are exactly the registered ones.
\<close>

theorem observers_reachable:
  assumes "reach (\<lambda>s. s = obs_new) (obs_step ev) s"
  shows "length (nodesOf s uri) \<le> 2500 \<and> distinct (map (AsObject ev) (nodesOf s uri)) \<and>
    length (filter (\<lambda>n. on_tokenId n = tok) (nodesOf s uri)) \<le> 51 \<and>
    omap_find (om_observers s) uri \<noteq> Some [] \<and>
    (oneProxy ev \<longrightarrow> om_recipients s = {x. \<exists>uri. obs_has ev s uri x})"
proof -
  have inv: "obs_inv ev s" by (rule obsreg.reach_inv [OF assms])
  have "oneProxy ev \<Longrightarrow> om_recipients s = {x. \<exists>uri. obs_has ev s uri x}"
    using watched_reach [OF _ assms] by (simp add: watched_inv_def)
  moreover have "length (nodesOf s uri) \<le> 2500 \<and> distinct (map (AsObject ev) (nodesOf s uri)) \<and>
      length (filter (\<lambda>n. on_tokenId n = tok) (nodesOf s uri)) \<le> 51"
    using obs_invD(2) [OF inv, of uri] unfolding obsListOk_def OBS_ALL_NUM_MAX_def OBS_NUM_MAX_def by simp
  ultimately show ?thesis using obs_invD(3) [OF inv, of uri] by blast
qed

theorem observers_reachable_witness:
  "\<exists>s. reach (\<lambda>s. s = obs_new) (obs_step (exEnv\<lparr>ev_asObject := Some\<rparr>)) s \<and> om_recipients s = {5} \<and>
     om_recipients s = {x. \<exists>uri. obs_has (exEnv\<lparr>ev_asObject := Some\<rparr>) s uri x}"
proof -
  let ?ev = "exEnv\<lparr>ev_asObject := Some\<rparr>" and ?s = "snd (HandleRegisterObserver (exEnv\<lparr>ev_asObject := Some\<rparr>) ''a'' (exNode 5) obs_new)"
  have r: "reach (\<lambda>s. s = obs_new) (obs_step ?ev) ?s" by (rule reach_step, rule reach_start, rule refl, rule oregister)
  have "om_recipients ?s = {5}"
    using HandleRegister_cases [OF obs_inv_new, of ?ev "''a''" "exNode 5"]
    by (simp add: case_prod_beta registrable_def nodesOf_def obs_new_def exNode_def)
  moreover have "oneProxy ?ev" by (simp add: oneProxy_def)
  ultimately show ?thesis using observers_reachable [OF r] r by blast
qed

text \<open>
  when an object is registered for two URIs and is unregistered for one of them through another
  proxy, \<open>HaveRegistered\<close> does not see the other registration: the death recipient is removed although the
  object is still registered, so its death is no longer noticed.
\<close>

theorem HandleUnregister_drops_recipient:
  assumes "obs_inv ev s" "obs_has ev s uri1 x" "obs_has ev s uri2 x" "uri1 \<noteq> uri2"
    and "AsObject ev node = Some x" "\<And>uri n. n \<in> set (nodesOf s uri) \<Longrightarrow> on_observer n \<noteq> on_observer node"
  shows "let s' = snd (HandleUnregisterObserver ev uri1 node s) in obs_has ev s' uri2 x \<and> x \<notin> om_recipients s'"
proof -
  let ?t = "snd (HandleUnregisterObserver ev uri1 node s)"
  have "\<not> HaveRegistered (on_observer node) ?t"
    unfolding HaveRegistered_iff [OF HandleUnregister_inv [OF assms(1)]] HandleUnregister_nodes [OF assms(1)]
    using assms(6) by (auto split: if_splits)
  moreover have "Some x \<in> AsObject ev ` set (nodesOf s uri1)" using assms(2) by (force simp: obs_has_def)
  ultimately have "x \<notin> om_recipients ?t" by (simp add: HandleUnregister_recipients [OF assms(1)] assms(5))
  moreover have "obs_has ev ?t uri2 x" using inner.has_unregister [OF assms(1)] assms(3,4) by (simp add: obsUnregister_def)
  ultimately show ?thesis by simp
qed

theorem HandleUnregister_drops_recipient_witness:
  "let s = \<lparr>om_observers = [(''a'', [exNode 10]), (''b'', [exNode 11])], om_recipients = {1}\<rparr>;
       s' = snd (HandleUnregisterObserver exEnv ''a'' (exNode 12) s)
   in obs_has exEnv s' ''b'' 1 \<and> 1 \<notin> om_recipients s'"
proof -
  let ?s = "\<lparr>om_observers = [(''a'', [exNode 10]), (''b'', [exNode 11])], om_recipients = {1}\<rparr>"
  have "obs_inv exEnv ?s" by (simp add: obs_inv_def omap_inv_def obsListOk_def OBS_ALL_NUM_MAX_def OBS_NUM_MAX_def)
  then show ?thesis
    unfolding Let_def by (rule HandleUnregister_drops_recipient [unfolded Let_def])
      (auto simp: obs_has_def nodesOf_def exEnv_def exNode_def split: if_splits)
qed


section \<open>The group cache\<close>

lemma groupsKey_inj: "groupsKey b u = groupsKey b' u' \<longleftrightarrow> b = b' \<and> u = u'"
proof
  assume eq: "groupsKey b u = groupsKey b' u'"
  have last: "takeWhile (\<lambda>c. c \<noteq> CHR '':'') (rev (groupsKey b u)) = rev (to_string u)" for b u
    using to_string_no_colon [of u] by (simp add: groupsKey_def takeWhile_append takeWhile_eq_all_conv)
  from eq last [of b u] last [of b' u'] have "to_string u = to_string u'" by simp
  with eq to_string_inj show "b = b' \<and> u = u'" by (auto simp: groupsKey_def)
qed simp

definition groups_inv :: "obs_env \<Rightarrow> groups_cache \<Rightarrow> bool" where
  "groups_inv ev cache \<longleftrightarrow> length cache \<le> CACHE_SIZE_THRESHOLD \<and> distinct (map fst cache) \<and>
     (\<forall>(key, ids)\<in>set cache. \<exists>b u. key = groupsKey b u \<and> ev_groups ev b u = Some ids)"

lemma groups_inv_hit:
  "groups_inv ev cache \<Longrightarrow> map_of cache (groupsKey b u) = Some ids \<Longrightarrow> ev_groups ev b u = Some ids"
  by (fastforce simp: groups_inv_def groupsKey_inj dest!: map_of_SomeD)

lemma groupsStore_inv:
  assumes "groups_inv ev cache" "ev_groups ev b u = Some ids"
  shows "fst (groupsStore (groupsKey b u) ids cache) = ids \<and> groups_inv ev (snd (groupsStore (groupsKey b u) ids cache))"
proof (cases "map_of cache (groupsKey b u)")
  case None
  then have new: "groupsKey b u \<notin> fst ` set cache" by (simp add: map_of_eq_None_iff)
  let ?c = "drop (length cache - (CACHE_SIZE_THRESHOLD - 1)) cache"
  have "distinct (map fst ?c)" "set ?c \<subseteq> set cache" "length ?c \<le> CACHE_SIZE_THRESHOLD - 1"
    using assms(1) by (auto simp: groups_inv_def drop_map [symmetric] dest: in_set_dropD)
  with None new assms show ?thesis
    by (fastforce simp: groupsStore_def groups_inv_def CACHE_SIZE_THRESHOLD_def)
next
  case (Some ids')
  with groups_inv_hit [OF assms(1) Some] assms show ?thesis by (simp add: groupsStore_def)
qed

definition groupsOf :: "obs_env \<Rightarrow> string \<Rightarrow> int \<Rightarrow> string list" where
  "groupsOf ev bundleName userId = (case ev_groups ev bundleName userId of None \<Rightarrow> [] | Some ids \<Rightarrow> ids)"

lemma GetGroupInfos_exact:
  assumes "groups_inv ev cache"
  shows "fst (GetGroupInfosFromCache ev b u cache) = groupsOf ev b u \<and> groups_inv ev (snd (GetGroupInfosFromCache ev b u cache))"
proof (cases "map_of cache (groupsKey b u)")
  case None
  with groupsStore_inv [OF assms, of b u] assms show ?thesis
    by (simp add: GetGroupInfosFromCache_def groupsOf_def split: option.split)
next
  case (Some ids)
  with groups_inv_hit [OF assms Some] assms show ?thesis by (simp add: GetGroupInfosFromCache_def groupsOf_def)
qed

definition mayListen :: "obs_env \<Rightarrow> int \<Rightarrow> int \<Rightarrow> string \<Rightarrow> int \<Rightarrow> bool" where
  "mayListen ev listener userId uri tokenId \<longleftrightarrow> listener = tokenId \<or> fst (GetCallingInfo ev listener) \<or>
     ev_authority ev uri \<in> set (groupsOf ev (snd (GetCallingInfo ev listener)) userId)"

lemma VerifyPermission_spec:
  "groups_inv ev cache \<Longrightarrow> fst (VerifyPermission ev listener userId uri tokenId cache) = mayListen ev listener userId uri tokenId \<and>
     groups_inv ev (snd (VerifyPermission ev listener userId uri tokenId cache))"
  using GetGroupInfos_exact [of ev cache "snd (GetCallingInfo ev listener)" userId]
  by (auto simp: VerifyPermission_def mayListen_def case_prod_beta Let_def)

text \<open>
  the group cache never changes an answer: with the cache in any state built by the verifier,
  \<open>VerifyPermission\<close> lets a listener pass exactly if it is the notifier itself, a system ability, or an
  application one of whose data groups is the authority of the URI; the cache keeps at most 50 entries
  with different keys, each the bundle manager's answer for one bundle and user.
\<close>

theorem VerifyPermission_exact:
  assumes "groups_inv ev cache"
  shows "let (allowed, cache') = VerifyPermission ev listener userId uri tokenId cache in
    allowed = (listener = tokenId \<or> ev_tokenType ev listener \<in> {TOKEN_NATIVE, TOKEN_SHELL} \<or>
      ev_authority ev uri \<in> set (groupsOf ev (snd (GetCallingInfo ev listener)) userId)) \<and>
    groups_inv ev cache' \<and> length cache' \<le> 50"
proof -
  have "fst (GetCallingInfo ev listener) \<longleftrightarrow> ev_tokenType ev listener \<in> {TOKEN_NATIVE, TOKEN_SHELL}"
    by (cases "ev_tokenType ev listener") (simp_all add: GetCallingInfo_def)
  with VerifyPermission_spec [OF assms, of listener userId uri tokenId] show ?thesis
    by (simp add: case_prod_beta mayListen_def groups_inv_def CACHE_SIZE_THRESHOLD_def)
qed

theorem VerifyPermission_exact_witness:
  "fst (VerifyPermission exEnv 200 100 ''rdb://group'' 300 [(groupsKey ''app'' 100, [''group''])]) = True"
proof -
  have "groups_inv exEnv [(groupsKey ''app'' 100, [''group''])]"
    by (auto simp: groups_inv_def CACHE_SIZE_THRESHOLD_def exEnv_def intro!: exI [of _ "''app''"] exI [of _ "100 :: int"])
  from VerifyPermission_exact [OF this, of 200 100 "''rdb://group''" 300] show ?thesis
    by (simp add: case_prod_beta groupsOf_def exEnv_def)
qed

section \<open>Who is notified\<close>

definition notifies :: "obs_env \<Rightarrow> string \<Rightarrow> int \<Rightarrow> string \<Rightarrow> bool \<Rightarrow> int \<Rightarrow> observer_node \<Rightarrow> bool" where
  "notifies ev uri userId readPermission isSilentUri tokenId obs \<longleftrightarrow>
     (if ev_scheme ev uri = ''rdb'' then mayListen ev (on_tokenId obs) userId uri tokenId
      else (ev_singletonTrust ev uri \<or> on_userId obs = 0 \<or> userId = 0 \<or> on_userId obs = userId) \<and>
        ev_dataShareVerify ev uri (on_tokenId obs) readPermission isSilentUri)"

lemma notifyLoop_filter:
  "groups_inv ev cache \<Longrightarrow>
     fst (notifyLoop ev uri userId perm silent tokenId l cache) = filter (notifies ev uri userId perm silent tokenId) l \<and>
     groups_inv ev (snd (notifyLoop ev uri userId perm silent tokenId l cache))"
proof (induction l arbitrary: cache)
  case (Cons obs l)
  show ?case
  proof (cases "ev_scheme ev uri = RELATIONAL_STORE")
    case True
    with VerifyPermission_spec [OF Cons.prems, of "on_tokenId obs" userId uri tokenId] Cons.IH show ?thesis
      by (simp add: case_prod_beta Let_def notifies_def RELATIONAL_STORE_def)
  next
    case False
    with Cons.IH [OF Cons.prems] show ?thesis
      by (auto simp: case_prod_beta Let_def notifies_def RELATIONAL_STORE_def)
  qed
qed simp

text \<open>
  a change notification reaches exactly the registered observers that may see it, each once and in
  the order of registration; across users only trusted singleton URIs and the system user pass.
\<close>

theorem HandleNotifyChange_exact:
  assumes "groups_inv ev cache"
  shows "let (code, sent, cache') = HandleNotifyChange ev uri userId perm silent tokenId s cache in
    sent = filter (notifies ev uri userId perm silent tokenId) (nodesOf s uri) \<and>
    code = (if omap_find (om_observers s) uri = None then NO_OBS_FOR_URI else NO_ERROR) \<and> groups_inv ev cache'"
  using notifyLoop_filter [OF assms, of uri userId perm silent tokenId] assms
  by (cases "omap_find (om_observers s) uri") (simp_all add: HandleNotifyChange_def nodesOf_def case_prod_beta)

theorem HandleNotifyChange_exact_witness:
  "fst (snd (HandleNotifyChange exEnv ''a'' 100 [] False 1
     \<lparr>om_observers = [(''a'', [exNode 10, (exNode 11)\<lparr>on_userId := 101\<rparr>])], om_recipients = {1}\<rparr> [])) = [exNode 10]"
proof -
  have "groups_inv exEnv []" by (simp add: groups_inv_def)
  from HandleNotifyChange_exact [OF this, of "''a''" 100 "[]" False 1
    "\<lparr>om_observers = [(''a'', [exNode 10, (exNode 11)\<lparr>on_userId := 101\<rparr>])], om_recipients = {1}\<rparr>"]
  show ?thesis by (simp add: case_prod_beta nodesOf_def notifies_def exEnv_def exNode_def)
qed

lemma prefNotifyLoop_filter:
  "groups_inv ev cache \<Longrightarrow>
     fst (prefNotifyLoop ev uri userId tokenId l cache) =
       map (\<lambda>n. (n, ev_query ev uri)) (filter (\<lambda>n. (on_userId n = 0 \<or> userId = 0 \<or> on_userId n = userId) \<and>
         mayListen ev (on_tokenId n) (on_userId n) uri tokenId) l) \<and>
     groups_inv ev (snd (prefNotifyLoop ev uri userId tokenId l cache))"
proof (induction l arbitrary: cache)
  case (Cons obs l)
  show ?case
  proof (cases "on_userId obs \<noteq> 0 \<and> userId \<noteq> 0 \<and> on_userId obs \<noteq> userId")
    case True
    with Cons.IH [OF Cons.prems] show ?thesis by simp
  next
    case False
    with VerifyPermission_spec [OF Cons.prems, of "on_tokenId obs" "on_userId obs" uri tokenId] Cons.IH show ?thesis
      by (auto simp: case_prod_beta Let_def)
  qed
qed simp

text \<open>
  a preference change is announced with the query of its URI to exactly the observers registered
  for the URI without the query, of the same user (or the system user), that may listen; a URI without a
  query is refused.
\<close>

theorem pref_HandleNotifyChange_exact:
  assumes "groups_inv ev cache"
  shows "pref_HandleNotifyChange ev (base @ ''?'' @ q) userId tokenId s cache =
      (code, sent, cache') \<Longrightarrow> CHR ''?'' \<notin> set base \<Longrightarrow>
    sent = map (\<lambda>n. (n, ev_query ev (base @ ''?'' @ q)))
      (filter (\<lambda>n. (on_userId n = 0 \<or> userId = 0 \<or> on_userId n = userId) \<and>
         mayListen ev (on_tokenId n) (on_userId n) (base @ ''?'' @ q) tokenId) (nodesOf s base)) \<and>
    groups_inv ev cache' \<and> pref_HandleNotifyChange ev base userId tokenId s cache = (INVALID_PARAM, [], cache)"
proof -
  assume run: "pref_HandleNotifyChange ev (base @ ''?'' @ q) userId tokenId s cache = (code, sent, cache')"
    and base: "CHR ''?'' \<notin> set base"
  have key: "takeWhile (\<lambda>c. c \<noteq> CHR ''?'') (base @ ''?'' @ q) = base"
    using base by (induction base) auto
  have "pref_HandleNotifyChange ev base userId tokenId s cache = (INVALID_PARAM, [], cache)"
    using base by (simp add: pref_HandleNotifyChange_def)
  moreover have run': "(code, sent, cache') = (case omap_find (om_observers s) base of None \<Rightarrow> (NO_OBS_FOR_URI, [], cache)
      | Some l \<Rightarrow> (NO_ERROR, prefNotifyLoop ev (base @ ''?'' @ q) userId tokenId l cache))"
    unfolding run [symmetric] pref_HandleNotifyChange_def key by simp
  ultimately show ?thesis
    using prefNotifyLoop_filter [OF assms, of "base @ ''?'' @ q" userId tokenId] assms
    by (cases "omap_find (om_observers s) base") (simp_all add: nodesOf_def prod_eq_iff)
qed

theorem pref_HandleNotifyChange_exact_witness:
  "fst (snd (pref_HandleNotifyChange exEnv (''a'' @ ''?'' @ ''k'') 100 1
     \<lparr>om_observers = [(''a'', [exNode 10])], om_recipients = {1}\<rparr> [])) = [(exNode 10, ''q'')]"
proof -
  let ?s = "\<lparr>om_observers = [(''a'', [exNode 10])], om_recipients = {1}\<rparr>"
  let ?r = "pref_HandleNotifyChange exEnv (''a'' @ ''?'' @ ''k'') 100 1 ?s []"
  have "groups_inv exEnv []" by (simp add: groups_inv_def)
  from pref_HandleNotifyChange_exact [OF this, of "''a''" "''k''" 100 1 ?s "fst ?r" "fst (snd ?r)" "snd (snd ?r)"]
  show ?thesis by (simp add: nodesOf_def exEnv_def exNode_def mayListen_def GetCallingInfo_def)
qed

end
