(* ===== verification/Data_Obs_Ext.thy ===== *)
theory Data_Obs_Ext
  imports Data_Obs "HOL-Library.Word" "HOL-Library.Multiset"
begin

text \<open>
  \<open>services/dataobsmgr/src/dataobs_mgr_inner_ext.cpp\<close>: the observer registry for data share URIs with
  descendants.  The nodes of the tree are indexed by scheme, authority and path segments; an entry may
  ask for the changes below its node.  A death recipient is shared by the entries of an object through
  a counter object: the entries and the map \<open>obsRecipientRefs\<close> hold its address, \<open>ex_ref\<close> its \<open>uint32_t\<close>
  value.  The index that the member functions of \<open>Node\<close> count up is the recursion on the rest of the path.
  The split of a URI into its parts (\<open>Uri\<close>) is outside the repository, as is the permission library.
\<close>

section \<open>Data\<close>

record ext_env = obs_env +
  ev_segments :: "string \<Rightarrow> string list"

record ext_entry =
  en_observer :: nat
  en_userId :: int
  en_tokenId :: int
  en_ref :: nat
  en_isDescendants :: bool
  en_permission :: string
  en_pid :: int
  en_entryId :: int

datatype obs_node = Node string "ext_entry list" "(string \<times> obs_node) list"

record obs_ext =
  ex_root :: obs_node
  ex_recipients :: "(nat, nat) omap"
  ex_ref :: "nat \<Rightarrow> 32 word"
  ex_next :: nat
  ex_nextId :: int

record ext_request =
  rq_observer :: nat
  rq_userId :: int
  rq_tokenId :: int
  rq_pid :: int
  rq_isDescendants :: bool

record notify_info =
  ni_uri :: string
  ni_readPermission :: string
  ni_isSilentUri :: bool

record obs_notify_info =
  oi_tokenId :: int
  oi_pid :: int
  oi_uriList :: "notify_info list"

definition MAX_URI_PATH_SIZE :: nat where
  "MAX_URI_PATH_SIZE = 25"

definition uriPath :: "ext_env \<Rightarrow> string \<Rightarrow> string list" where
  "uriPath ev uri = [ev_scheme ev uri, ev_authority ev uri] @ ev_segments ev uri"

abbreviation entryObject :: "('a obs_env_scheme) \<Rightarrow> ext_entry \<Rightarrow> nat option" where
  "entryObject ev e \<equiv> ev_asObject ev (en_observer e)"

section \<open>Nodes\<close>

fun limitLoop :: "int \<Rightarrow> nat \<Rightarrow> ext_entry list \<Rightarrow> bool" where
  "limitLoop tokenId cnt [] = False"
| "limitLoop tokenId cnt (e # es) =
     (if en_tokenId e = tokenId
      then (if cnt + 1 > OBS_NUM_MAX then True else limitLoop tokenId (cnt + 1) es)
      else limitLoop tokenId cnt es)"

definition IsLimit :: "ext_entry \<Rightarrow> ext_entry list \<Rightarrow> bool" where
  "IsLimit entry entrys \<longleftrightarrow>
     (if length entrys \<ge> OBS_ALL_NUM_MAX then True else limitLoop (en_tokenId entry) 0 entrys)"

fun AddObserver :: "string list \<Rightarrow> ext_entry \<Rightarrow> obs_node \<Rightarrow> (nat \<Rightarrow> 32 word) \<Rightarrow> bool \<times> obs_node \<times> (nat \<Rightarrow> 32 word)" where
  "AddObserver [] entry (Node name entrys childrens) ref =
     (if IsLimit entry entrys then (False, Node name entrys childrens, ref)
      else (True, Node name (entrys @ [entry]) childrens, ref(en_ref entry := ref (en_ref entry) + 1)))"
| "AddObserver (p # path) entry (Node name entrys childrens) ref =
     (let child = (case omap_find childrens p of None \<Rightarrow> Node p [] [] | Some c \<Rightarrow> c);
          (ok, child', ref') = AddObserver path entry child ref
      in (ok, Node name entrys (omap_put p child' childrens), ref'))"

text \<open>\<open>remove_if\<close> with the lambda that decrements the counter of each removed entry.\<close>

definition decRefs :: "ext_entry list \<Rightarrow> (nat \<Rightarrow> 32 word) \<Rightarrow> nat \<Rightarrow> 32 word" where
  "decRefs removed ref = fold (\<lambda>e r. r(en_ref e := r (en_ref e) - 1)) removed ref"

fun RemoveObserverAt ::
  "('a obs_env_scheme) \<Rightarrow> nat option \<Rightarrow> string list \<Rightarrow> obs_node \<Rightarrow> (nat \<Rightarrow> 32 word) \<Rightarrow> bool \<times> obs_node \<times> (nat \<Rightarrow> 32 word)" where
  "RemoveObserverAt ev obj [] (Node name entrys childrens) ref =
     (let entrys' = filter (\<lambda>e. entryObject ev e \<noteq> obj) entrys
      in (entrys' = [] \<and> childrens = [], Node name entrys' childrens,
          decRefs (filter (\<lambda>e. entryObject ev e = obj) entrys) ref))"
| "RemoveObserverAt ev obj (p # path) (Node name entrys childrens) ref =
     (case omap_find childrens p of
        None \<Rightarrow> (entrys = [] \<and> childrens = [], Node name entrys childrens, ref)
      | Some child \<Rightarrow>
          let (spent, child', ref') = RemoveObserverAt ev obj path child ref;
              childrens' = (if spent then omap_erase p childrens else omap_put p child' childrens)
          in (entrys = [] \<and> childrens' = [], Node name entrys childrens', ref'))"

fun RemoveObserverAll ::
  "('a obs_env_scheme) \<Rightarrow> nat option \<Rightarrow> obs_node \<Rightarrow> (nat \<Rightarrow> 32 word) \<Rightarrow> bool \<times> obs_node \<times> (nat \<Rightarrow> 32 word)"
  and removeInChildrens ::
  "('a obs_env_scheme) \<Rightarrow> nat option \<Rightarrow> (string \<times> obs_node) list \<Rightarrow> (nat \<Rightarrow> 32 word) \<Rightarrow>
   (string \<times> obs_node) list \<times> (nat \<Rightarrow> 32 word)" where
  "RemoveObserverAll ev obj (Node name entrys childrens) ref =
     (let (childrens', ref1) = removeInChildrens ev obj childrens ref;
          entrys' = filter (\<lambda>e. entryObject ev e \<noteq> obj) entrys
      in (entrys' = [] \<and> childrens' = [], Node name entrys' childrens',
          decRefs (filter (\<lambda>e. entryObject ev e = obj) entrys) ref1))"
| "removeInChildrens ev obj [] ref = ([], ref)"
| "removeInChildrens ev obj ((k, c) # rest) ref =
     (let (spent, c', ref1) = RemoveObserverAll ev obj c ref;
          (rest', ref2) = removeInChildrens ev obj rest ref1
      in ((if spent then rest' else (k, c') # rest'), ref2))"

type_synonym obs_map = "(nat, obs_notify_info) omap"

definition collectObs :: "notify_info \<Rightarrow> int \<Rightarrow> ext_entry list \<Rightarrow> obs_map \<Rightarrow> obs_map" where
  "collectObs info userId entrys res =
     foldl (\<lambda>res e.
        if en_userId e \<noteq> userId \<and> en_userId e \<noteq> 0 \<and> userId \<noteq> 0 then res
        else let old = (case omap_find res (en_observer e) of
                          None \<Rightarrow> \<lparr>oi_tokenId = 0, oi_pid = 0, oi_uriList = []\<rparr> | Some i \<Rightarrow> i)
             in omap_put (en_observer e)
                  \<lparr>oi_tokenId = en_tokenId e, oi_pid = en_pid e, oi_uriList = oi_uriList old @ [info]\<rparr> res) res entrys"

fun GetObs :: "string list \<Rightarrow> notify_info \<Rightarrow> int \<Rightarrow> obs_node \<Rightarrow> obs_map \<Rightarrow> obs_map" where
  "GetObs [] info userId (Node name entrys childrens) res = collectObs info userId entrys res"
| "GetObs (p # path) info userId (Node name entrys childrens) res =
     (let res1 = collectObs info userId (filter en_isDescendants entrys) res in
      case omap_find childrens p of None \<Rightarrow> res1 | Some c \<Rightarrow> GetObs path info userId c res1)"

section \<open>The registry\<close>

definition ext_AddObsDeathRecipient :: "nat \<Rightarrow> obs_ext \<Rightarrow> nat option \<times> obs_ext" where
  "ext_AddObsDeathRecipient dataObserver s =
     (case omap_find (ex_recipients s) dataObserver of
        Some a \<Rightarrow> if - 1 - 1 < ex_ref s a then (None, s) else (Some a, s)
      | None \<Rightarrow>
          let a = ex_next s in
          (Some a, s\<lparr>ex_next := a + 1, ex_ref := (ex_ref s)(a := 1),
                    ex_recipients := omap_put dataObserver a (ex_recipients s)\<rparr>))"

definition ext_RemoveObsDeathRecipient :: "nat \<Rightarrow> bool \<Rightarrow> obs_ext \<Rightarrow> obs_ext" where
  "ext_RemoveObsDeathRecipient dataObserver isForce s =
     (case omap_find (ex_recipients s) dataObserver of
        None \<Rightarrow> s
      | Some a \<Rightarrow> if isForce \<or> ex_ref s a \<le> 1 then s\<lparr>ex_recipients := omap_erase dataObserver (ex_recipients s)\<rparr> else s)"

definition registerAt :: "('a obs_env_scheme) \<Rightarrow> string list \<Rightarrow> ext_request \<Rightarrow> obs_ext \<Rightarrow> obs_status \<times> obs_ext" where
  "registerAt ev path rq s =
     (case ev_asObject ev (rq_observer rq) of
        None \<Rightarrow> (DATA_OBSERVER_IS_NULL, s)
      | Some obj \<Rightarrow>
          let (deathRecipientRef, s1) = ext_AddObsDeathRecipient obj s in
          (case deathRecipientRef of
             None \<Rightarrow> (DATAOBS_SERVICE_OBS_LIMMIT, s1)
           | Some a \<Rightarrow>
               if length path \<ge> MAX_URI_PATH_SIZE then (DATAOBS_INVALID_URI, s1)
               else let entry = \<lparr>en_observer = rq_observer rq, en_userId = rq_userId rq, en_tokenId = rq_tokenId rq,
                                 en_ref = a, en_isDescendants = rq_isDescendants rq, en_permission = [],
                                 en_pid = rq_pid rq, en_entryId = ex_nextId s1\<rparr>;
                        (ok, root, ref) = AddObserver path entry (ex_root s1) (ex_ref s1);
                        s2 = s1\<lparr>ex_root := root, ex_ref := ref, ex_nextId := ex_nextId s1 + 1\<rparr>
                    in if \<not> ok then (DATAOBS_SERVICE_OBS_LIMMIT, ext_RemoveObsDeathRecipient obj False s2)
                       else (SUCCESS, s2)))"

definition ext_HandleRegisterObserver :: "ext_env \<Rightarrow> string \<Rightarrow> ext_request \<Rightarrow> obs_ext \<Rightarrow> obs_status \<times> obs_ext" where
  "ext_HandleRegisterObserver ev uri rq s = registerAt ev (uriPath ev uri) rq s"

definition unregisterAt :: "('a obs_env_scheme) \<Rightarrow> string list \<Rightarrow> nat \<Rightarrow> obs_ext \<Rightarrow> obs_status \<times> obs_ext" where
  "unregisterAt ev path dataObserver s =
     (case ev_asObject ev dataObserver of
        None \<Rightarrow> (DATA_OBSERVER_IS_NULL, s)
      | Some obj \<Rightarrow>
          if length path \<ge> MAX_URI_PATH_SIZE then (DATAOBS_INVALID_URI, s)
          else let (_, root, ref) = RemoveObserverAt ev (Some obj) path (ex_root s) (ex_ref s)
               in (SUCCESS, ext_RemoveObsDeathRecipient obj False (s\<lparr>ex_root := root, ex_ref := ref\<rparr>)))"

definition ext_HandleUnregisterObserver :: "ext_env \<Rightarrow> string \<Rightarrow> nat \<Rightarrow> obs_ext \<Rightarrow> obs_status \<times> obs_ext" where
  "ext_HandleUnregisterObserver ev uri dataObserver s = unregisterAt ev (uriPath ev uri) dataObserver s"

definition removeEverywhere :: "('a obs_env_scheme) \<Rightarrow> nat \<Rightarrow> obs_ext \<Rightarrow> obs_ext" where
  "removeEverywhere ev obj s =
     (let (_, root, ref) = RemoveObserverAll ev (Some obj) (ex_root s) (ex_ref s)
      in ext_RemoveObsDeathRecipient obj True (s\<lparr>ex_root := root, ex_ref := ref\<rparr>))"

definition ext_HandleUnregisterObserverAll :: "('a obs_env_scheme) \<Rightarrow> nat \<Rightarrow> obs_ext \<Rightarrow> obs_status \<times> obs_ext" where
  "ext_HandleUnregisterObserverAll ev dataObserver s =
     (case ev_asObject ev dataObserver of
        None \<Rightarrow> (DATA_OBSERVER_IS_NULL, s) | Some obj \<Rightarrow> (SUCCESS, removeEverywhere ev obj s))"

definition ext_OnCallBackDied :: "('a obs_env_scheme) \<Rightarrow> nat option \<Rightarrow> obs_ext \<Rightarrow> obs_ext" where
  "ext_OnCallBackDied ev remote s = (case remote of None \<Rightarrow> s | Some obj \<Rightarrow> removeEverywhere ev obj s)"

definition NotifyObserver :: "ext_env \<Rightarrow> nat \<Rightarrow> obs_notify_info \<Rightarrow> (nat \<times> string list) list" where
  "NotifyObserver ev obs info =
     (let sendUriList = map ni_uri (filter (\<lambda>i. ev_dataShareVerify ev (ni_uri i) (oi_tokenId info)
                          (ni_readPermission i) (ni_isSilentUri i)) (oi_uriList info))
      in if sendUriList = [] then [] else [(obs, sendUriList)])"

definition ext_HandleNotifyChange ::
  "ext_env \<Rightarrow> string list \<Rightarrow> int \<Rightarrow> notify_info list \<Rightarrow> obs_ext \<Rightarrow> obs_status \<times> (nat \<times> string list) list" where
  "ext_HandleNotifyChange ev uris userId notifyInfo s =
     (if length uris \<noteq> length notifyInfo then (INVALID_PARAM, [])
      else let changeRes = foldl (\<lambda>res (uri, info). GetObs (uriPath ev uri) (info\<lparr>ni_uri := uri\<rparr>) userId (ex_root s) res)
                             [] (zip uris notifyInfo)
           in if changeRes = [] then (NO_OBS_FOR_URI, [])
              else (SUCCESS, concat (map (\<lambda>(obs, value). if oi_uriList value = [] then [] else NotifyObserver ev obs value) changeRes)))"

section \<open>Entries of the tree\<close>

fun entriesAt :: "obs_node \<Rightarrow> string list \<Rightarrow> ext_entry list" where
  "entriesAt (Node name entrys childrens) [] = entrys"
| "entriesAt (Node name entrys childrens) (p # path) =
     (case omap_find childrens p of None \<Rightarrow> [] | Some c \<Rightarrow> entriesAt c path)"

fun entriesIn :: "obs_node \<Rightarrow> ext_entry multiset" and entriesBelow :: "(string \<times> obs_node) list \<Rightarrow> ext_entry multiset" where
  "entriesIn (Node name entrys childrens) = mset entrys + entriesBelow childrens"
| "entriesBelow [] = {#}"
| "entriesBelow ((k, c) # rest) = entriesIn c + entriesBelow rest"

text \<open>Well-formed trees: ordered children, and no node below the root without entries or children.\<close>

fun bare :: "obs_node \<Rightarrow> bool" where
  "bare (Node name entrys childrens) \<longleftrightarrow> entrys = [] \<and> childrens = []"

fun treeOk :: "obs_node \<Rightarrow> bool" and forestOk :: "(string \<times> obs_node) list \<Rightarrow> bool" where
  "treeOk (Node name entrys childrens) \<longleftrightarrow> omap_inv childrens \<and> forestOk childrens"
| "forestOk [] \<longleftrightarrow> True"
| "forestOk ((k, c) # rest) \<longleftrightarrow> treeOk c \<and> \<not> bare c \<and> forestOk rest"

lemma forestOk_iff: "forestOk ch \<longleftrightarrow> (\<forall>(k, c)\<in>set ch. treeOk c \<and> \<not> bare c)"
  by (induction ch) auto

lemma forestOk_find: "forestOk ch \<Longrightarrow> omap_find ch p = Some c \<Longrightarrow> treeOk c \<and> \<not> bare c"
  by (auto simp: forestOk_iff dest: map_of_SomeD)

lemma forestOk_put: "omap_inv ch \<Longrightarrow> forestOk ch \<Longrightarrow> treeOk c \<Longrightarrow> \<not> bare c \<Longrightarrow> forestOk (omap_put p c ch)"
  by (auto simp: forestOk_iff set_omap_put)

lemma forestOk_erase: "forestOk ch \<Longrightarrow> forestOk (omap_erase p ch)"
  by (auto simp: forestOk_iff set_omap_erase)

lemma entriesBelow_put:
  "omap_inv ch \<Longrightarrow> entriesBelow (omap_put p c ch) + (case omap_find ch p of None \<Rightarrow> {#} | Some o' \<Rightarrow> entriesIn o') =
     entriesBelow ch + entriesIn c"
proof (induction p c ch rule: omap_put.induct)
  case (2 k v k' v' m)
  have "k < k' \<Longrightarrow> omap_find m k = None" using "2.prems" by (force simp: omap_inv_Cons map_of_eq_None_iff)
  moreover have "omap_find m k' = None" using "2.prems" by (force simp: omap_inv_Cons map_of_eq_None_iff)
  moreover have "k' < k \<Longrightarrow> entriesBelow (omap_put k v m) + (case omap_find m k of None \<Rightarrow> {#} | Some o' \<Rightarrow> entriesIn o') =
      entriesBelow m + entriesIn v" using 2 by (auto simp: omap_inv_Cons)
  ultimately show ?case by (cases k k' rule: linorder_cases) (auto simp: ac_simps)
qed simp

lemma omap_erase_absent: "k \<notin> fst ` set m \<Longrightarrow> omap_erase k m = m"
  by (force simp: omap_erase_def filter_id_conv)

lemma entriesBelow_erase:
  "omap_inv ch \<Longrightarrow> entriesBelow (omap_erase p ch) + (case omap_find ch p of None \<Rightarrow> {#} | Some o' \<Rightarrow> entriesIn o') = entriesBelow ch"
proof (induction ch)
  case (Cons e ch)
  obtain k c where e: "e = (k, c)" by (cases e)
  show ?case
  proof (cases "k = p")
    case True
    then have "omap_erase p ch = ch" using Cons.prems e by (intro omap_erase_absent) (auto simp: omap_inv_Cons)
    with True e show ?thesis by (simp add: omap_erase_def ac_simps)
  next
    case False
    with Cons e show ?thesis by (simp add: omap_inv_Cons omap_erase_def add.assoc)
  qed
qed (simp add: omap_erase_def)

lemma bare_entries: "treeOk t \<Longrightarrow> bare t \<longleftrightarrow> entriesIn t = {#}"
  and forest_entries: "forestOk ch \<Longrightarrow> ch = [] \<longleftrightarrow> entriesBelow ch = {#}"
  by (induction t and ch rule: treeOk_forestOk.induct) auto

lemma entriesAt_in: "e \<in> set (entriesAt t path) \<Longrightarrow> e \<in># entriesIn t"
proof (induction t path rule: entriesAt.induct)
  case (2 name es ch p path)
  then obtain c where c: "omap_find ch p = Some c" "e \<in># entriesIn c" by (cases "omap_find ch p") auto
  have "(k, c) \<in> set ch \<Longrightarrow> e \<in># entriesBelow ch" for k using c(2) by (induction ch) auto
  with c map_of_SomeD show ?case by fastforce
qed simp

lemma entriesIn_at: "treeOk t \<Longrightarrow> e \<in># entriesIn t \<Longrightarrow> \<exists>path. e \<in> set (entriesAt t path)"
  and entriesBelow_at: "forestOk ch \<Longrightarrow> omap_inv ch \<Longrightarrow> e \<in># entriesBelow ch \<Longrightarrow>
    \<exists>p c path. omap_find ch p = Some c \<and> e \<in> set (entriesAt c path)"
proof (induction t and ch rule: treeOk_forestOk.induct)
  case (1 name es ch)
  show ?case
  proof (cases "e \<in> set es")
    case True
    then show ?thesis by (intro exI [of _ "[]"]) simp
  next
    case False
    with 1 obtain p c path where "omap_find ch p = Some c" "e \<in> set (entriesAt c path)" by auto
    then show ?thesis by (intro exI [of _ "p # path"]) simp
  qed
next
  case (3 k c rest)
  show ?case
  proof (cases "e \<in># entriesIn c")
    case True
    with 3 obtain path where "e \<in> set (entriesAt c path)" by auto
    then show ?thesis by (intro exI [of _ k] exI [of _ c]) auto
  next
    case False
    with 3 obtain p c' path where p: "omap_find rest p = Some c'" "e \<in> set (entriesAt c' path)" by (auto simp: omap_inv_Cons)
    then have "p \<noteq> k" using 3(4) by (force simp: omap_inv_Cons dest: map_of_SomeD)
    with p show ?thesis by (intro exI [of _ p] exI [of _ c']) auto
  qed
qed simp


lemma bare_entriesAt: "bare t \<Longrightarrow> entriesAt t path = []"
  by (cases t; cases path) auto

section \<open>What the node operations do\<close>

lemma IsLimit_Nil [simp]: "\<not> IsLimit e []"
  by (simp add: IsLimit_def)

lemma limitLoop_iff:
  "limitLoop tok cnt es \<longleftrightarrow> (length (filter (\<lambda>e. en_tokenId e = tok) es) > 0 \<and>
     cnt + length (filter (\<lambda>e. en_tokenId e = tok) es) > OBS_NUM_MAX)"
  by (induction es arbitrary: cnt) auto

lemma IsLimit_iff:
  "IsLimit e es \<longleftrightarrow> OBS_ALL_NUM_MAX \<le> length es \<or> OBS_NUM_MAX < length (filter (\<lambda>x. en_tokenId x = en_tokenId e) es)"
  by (auto simp: IsLimit_def limitLoop_iff)

lemma AddObserver_limit:
  "treeOk t \<Longrightarrow> IsLimit e (entriesAt t path) \<Longrightarrow> AddObserver path e t ref = (False, t, ref)"
proof (induction path e t ref rule: AddObserver.induct)
  case (2 p path e name es ch ref)
  then obtain c where c: "omap_find ch p = Some c" by (cases "omap_find ch p") auto
  with 2 have "AddObserver path e c ref = (False, c, ref)" using forestOk_find [of ch p c] by auto
  with c 2(2) show ?case by (simp add: omap_put_same)
qed simp

lemma AddObserver_ok:
  "treeOk t \<Longrightarrow> \<not> IsLimit e (entriesAt t path) \<Longrightarrow>
     \<exists>t'. AddObserver path e t ref = (True, t', ref(en_ref e := ref (en_ref e) + 1)) \<and> treeOk t' \<and> \<not> bare t' \<and>
       entriesIn t' = add_mset e (entriesIn t) \<and> entriesAt t' = (entriesAt t)(path := entriesAt t path @ [e])"
proof (induction path e t ref rule: AddObserver.induct)
  case (1 e name es ch ref)
  have "entriesAt (Node name (es @ [e]) ch) q = ((entriesAt (Node name es ch))([] := es @ [e])) q" for q
    by (cases q) auto
  with 1 show ?case by auto
next
  case (2 p path e name es ch ref)
  define c where "c = (case omap_find ch p of None \<Rightarrow> Node p [] [] | Some c \<Rightarrow> c)"
  have inv: "omap_inv ch" "forestOk ch" using "2.prems"(1) by auto
  have c: "treeOk c" "\<not> IsLimit e (entriesAt c path)"
    using "2.prems" forestOk_find [OF inv(2), of p] by (auto simp: c_def bare_entriesAt split: option.splits)
  from "2.IH" [OF c_def c] obtain c' where c': "AddObserver path e c ref = (True, c', ref(en_ref e := ref (en_ref e) + 1))"
    "treeOk c'" "\<not> bare c'" "entriesIn c' = add_mset e (entriesIn c)" "entriesAt c' = (entriesAt c)(path := entriesAt c path @ [e])"
    by blast
  let ?t = "Node name es (omap_put p c' ch)"
  have "AddObserver (p # path) e (Node name es ch) ref = (True, ?t, ref(en_ref e := ref (en_ref e) + 1))"
    using c'(1) by (simp add: c_def)
  moreover have "treeOk ?t" "\<not> bare ?t" using inv c' by (auto simp: omap_inv_put forestOk_put)
  moreover have "entriesBelow (omap_put p c' ch) = add_mset e (entriesBelow ch)"
    using entriesBelow_put [OF inv(1), of p c'] c'(4) by (auto simp: c_def split: option.splits)
  moreover have "entriesAt ?t q = ((entriesAt (Node name es ch))(p # path := entriesAt (Node name es ch) (p # path) @ [e])) q" for q
    using c'(5) by (cases q) (auto simp: find_omap_put [OF inv(1)] c_def bare_entriesAt split: option.splits)
  ultimately show ?case by auto
qed

lemma decRefs_eq: "decRefs es ref a = ref a - of_nat (length (filter (\<lambda>e. en_ref e = a) es))"
  by (induction es arbitrary: ref) (auto simp: decRefs_def)

lemma RemoveObserverAt_ok:
  "treeOk t \<Longrightarrow>
     \<exists>t'. RemoveObserverAt ev obj path t ref = (bare t', t', decRefs (filter (\<lambda>e. entryObject ev e = obj) (entriesAt t path)) ref) \<and>
       treeOk t' \<and> entriesIn t' + mset (filter (\<lambda>e. entryObject ev e = obj) (entriesAt t path)) = entriesIn t \<and>
       entriesAt t' = (entriesAt t)(path := filter (\<lambda>e. entryObject ev e \<noteq> obj) (entriesAt t path))"
proof (induction ev obj path t ref rule: RemoveObserverAt.induct)
  case (1 ev obj name es ch ref)
  let ?t = "Node name (filter (\<lambda>e. entryObject ev e \<noteq> obj) es) ch"
  have "entriesAt ?t q = ((entriesAt (Node name es ch))([] := filter (\<lambda>e. entryObject ev e \<noteq> obj) es)) q" for q
    by (cases q) auto
  moreover have "mset (filter (\<lambda>e. entryObject ev e \<noteq> obj) es) + mset (filter (\<lambda>e. entryObject ev e = obj) es) = mset es"
    using multiset_partition [of "mset es" "\<lambda>e. entryObject ev e = obj"] by (simp add: ac_simps)
  then have "entriesIn ?t + mset (filter (\<lambda>e. entryObject ev e = obj) es) = entriesIn (Node name es ch)"
    by (simp add: ac_simps)
  ultimately show ?case using 1 by (intro exI [of _ ?t]) (auto simp: Let_def)
next
  case (2 ev obj p path name es ch ref)
  have inv: "omap_inv ch" "forestOk ch" using "2.prems"(1) by auto
  show ?case
  proof (cases "omap_find ch p")
    case None
    then show ?thesis using "2.prems" by (intro exI [of _ "Node name es ch"]) (auto simp: decRefs_def)
  next
    case (Some c)
    have c: "treeOk c" using forestOk_find [OF inv(2) Some] by simp
    let ?f = "filter (\<lambda>e. entryObject ev e = obj) (entriesAt c path)"
    from "2.IH" [OF Some c] obtain c' where c': "RemoveObserverAt ev obj path c ref = (bare c', c', decRefs ?f ref)"
      "treeOk c'" "entriesIn c' + mset ?f = entriesIn c"
      "entriesAt c' = (entriesAt c)(path := filter (\<lambda>e. entryObject ev e \<noteq> obj) (entriesAt c path))" by blast
    let ?ch = "if bare c' then omap_erase p ch else omap_put p c' ch"
    let ?t = "Node name es ?ch"
    have "RemoveObserverAt ev obj (p # path) (Node name es ch) ref = (bare ?t, ?t, decRefs ?f ref)"
      using Some c'(1) by (simp add: Let_def)
    moreover have "treeOk ?t" using inv c'(2) by (simp add: omap_inv_put omap_inv_erase forestOk_put forestOk_erase)
    moreover have "entriesBelow ?ch + mset ?f = entriesBelow ch"
    proof (cases "bare c'")
      case True
      then have "mset ?f = entriesIn c" using c'(3) bare_entries [OF c'(2)] by simp
      with True entriesBelow_erase [OF inv(1), of p] Some show ?thesis by simp
    next
      case False
      have "entriesBelow (omap_put p c' ch) + mset ?f + entriesIn c = entriesBelow ch + (entriesIn c' + mset ?f)"
        using entriesBelow_put [OF inv(1), of p c'] Some by (simp add: ac_simps)
      with False show ?thesis unfolding c'(3) by simp
    qed
    then have "entriesIn ?t + mset ?f = entriesIn (Node name es ch)" by (simp add: ac_simps)
    moreover have "entriesAt ?t q = ((entriesAt (Node name es ch))(p # path := filter (\<lambda>e. entryObject ev e \<noteq> obj) (entriesAt c path))) q" for q
    proof (cases q)
      case (Cons p' qs)
      have "entriesAt ?t q = (if p' = p then entriesAt c' qs else entriesAt (Node name es ch) q)"
        using Cons bare_entriesAt [of c' qs] by (auto simp: find_omap_put [OF inv(1)] find_omap_erase)
      then show ?thesis using Cons Some c'(4) by simp
    qed simp
    ultimately show ?thesis using Some by (intro exI [of _ ?t]) (auto simp: fun_eq_iff)
  qed
qed


definition below :: "(string \<times> obs_node) list \<Rightarrow> string \<Rightarrow> string list \<Rightarrow> ext_entry list" where
  "below ch p path = (case omap_find ch p of None \<Rightarrow> [] | Some c \<Rightarrow> entriesAt c path)"

definition dropped :: "('a obs_env_scheme) \<Rightarrow> nat option \<Rightarrow> nat \<Rightarrow> ext_entry multiset \<Rightarrow> 32 word" where
  "dropped ev obj a M = of_nat (size {#e \<in># M. entryObject ev e = obj \<and> en_ref e = a#})"

lemma dropped_add: "dropped ev obj a (M + N) = dropped ev obj a M + dropped ev obj a N"
  by (simp add: dropped_def)

lemma dropped_mset:
  "decRefs (filter (\<lambda>e. entryObject ev e = obj) es) ref a = ref a - dropped ev obj a (mset es)"
proof -
  have "length (filter (\<lambda>e. en_ref e = a) (filter (\<lambda>e. entryObject ev e = obj) es)) =
      size {#e \<in># mset es. entryObject ev e = obj \<and> en_ref e = a#}"
    by (induction es) auto
  then show ?thesis by (simp add: decRefs_eq dropped_def)
qed

lemma RemoveObserverAll_ok:
  "treeOk t \<Longrightarrow> \<exists>t' ref'. RemoveObserverAll ev obj t ref = (bare t', t', ref') \<and> treeOk t' \<and>
     entriesIn t' = {#e \<in># entriesIn t. entryObject ev e \<noteq> obj#} \<and>
     (\<forall>q. entriesAt t' q = filter (\<lambda>e. entryObject ev e \<noteq> obj) (entriesAt t q)) \<and>
     (\<forall>a. ref' a = ref a - dropped ev obj a (entriesIn t))"
  and removeInChildrens_ok:
  "omap_inv ch \<Longrightarrow> forestOk ch \<Longrightarrow> \<exists>ch' ref'. removeInChildrens ev obj ch ref = (ch', ref') \<and> omap_inv ch' \<and> forestOk ch' \<and>
     fst ` set ch' \<subseteq> fst ` set ch \<and>
     entriesBelow ch' = {#e \<in># entriesBelow ch. entryObject ev e \<noteq> obj#} \<and>
     (\<forall>p q. below ch' p q = filter (\<lambda>e. entryObject ev e \<noteq> obj) (below ch p q)) \<and>
     (\<forall>a. ref' a = ref a - dropped ev obj a (entriesBelow ch))"
proof (induction ev obj t ref and ev obj ch ref rule: RemoveObserverAll_removeInChildrens.induct)
  case (1 ev obj name es ch ref)
  then obtain ch' ref' where c: "removeInChildrens ev obj ch ref = (ch', ref')" "omap_inv ch'" "forestOk ch'"
    "entriesBelow ch' = {#e \<in># entriesBelow ch. entryObject ev e \<noteq> obj#}"
    "\<And>p q. below ch' p q = filter (\<lambda>e. entryObject ev e \<noteq> obj) (below ch p q)"
    "\<And>a. ref' a = ref a - dropped ev obj a (entriesBelow ch)"
    by auto
  let ?t = "Node name (filter (\<lambda>e. entryObject ev e \<noteq> obj) es) ch'"
  have at: "entriesAt ?t q = filter (\<lambda>e. entryObject ev e \<noteq> obj) (entriesAt (Node name es ch) q)" for q
    using c(5) by (cases q) (simp_all add: below_def)
  have "RemoveObserverAll ev obj (Node name es ch) ref =
      (bare ?t, ?t, decRefs (filter (\<lambda>e. entryObject ev e = obj) es) ref')"
    using c(1) by (simp add: Let_def)
  moreover have "decRefs (filter (\<lambda>e. entryObject ev e = obj) es) ref' a = ref a - dropped ev obj a (entriesIn (Node name es ch))" for a
    using c(6) by (simp add: dropped_mset dropped_add)
  ultimately show ?case using c at
    by (intro exI [of _ ?t] exI [of _ "decRefs (filter (\<lambda>e. entryObject ev e = obj) es) ref'"]) (simp add: fun_eq_iff)
next
  case (2 ev obj ref)
  then show ?case by (simp add: below_def dropped_def)
next
  case (3 ev obj k c rest ref)
  have prems: "treeOk c" "omap_inv rest" "forestOk rest" "\<forall>k'\<in>fst ` set rest. k < k'"
    using "3.prems" by (auto simp: omap_inv_Cons)
  from "3.IH"(1) [OF prems(1)] obtain c' ref1 where c: "RemoveObserverAll ev obj c ref = (bare c', c', ref1)" "treeOk c'"
    "entriesIn c' = {#e \<in># entriesIn c. entryObject ev e \<noteq> obj#}"
    "\<And>q. entriesAt c' q = filter (\<lambda>e. entryObject ev e \<noteq> obj) (entriesAt c q)"
    "\<And>a. ref1 a = ref a - dropped ev obj a (entriesIn c)" by blast
  from "3.IH"(2) [OF c(1) [symmetric] refl refl prems(2,3)] obtain r' ref2 where r: "removeInChildrens ev obj rest ref1 = (r', ref2)"
    "omap_inv r'" "forestOk r'" "fst ` set r' \<subseteq> fst ` set rest"
    "entriesBelow r' = {#e \<in># entriesBelow rest. entryObject ev e \<noteq> obj#}"
    "\<And>p q. below r' p q = filter (\<lambda>e. entryObject ev e \<noteq> obj) (below rest p q)"
    "\<And>a. ref2 a = ref1 a - dropped ev obj a (entriesBelow rest)" by blast
  let ?ch = "if bare c' then r' else (k, c') # r'"
  have k: "k \<notin> fst ` set r'" and k': "\<forall>j\<in>fst ` set r'. k < j" using prems(4) r(4) by blast+
  then have b: "below r' k q = []" for q by (simp add: below_def map_of_eq_None_iff [THEN iffD2])
  have "removeInChildrens ev obj ((k, c) # rest) ref = (?ch, ref2)" using c(1) r(1) by simp
  moreover have "omap_inv ?ch" "forestOk ?ch" "fst ` set ?ch \<subseteq> fst ` set ((k, c) # rest)"
    using r(2,3,4) c(2) k' by (auto simp: omap_inv_Cons)
  moreover have "entriesBelow ?ch = {#e \<in># entriesBelow ((k, c) # rest). entryObject ev e \<noteq> obj#}"
    using r(5) c(3) bare_entries [OF c(2)] by simp
  moreover have "below ?ch p q = filter (\<lambda>e. entryObject ev e \<noteq> obj) (below ((k, c) # rest) p q)" for p q
    using r(6) [of p q] b [of q] c(4) [of q] bare_entriesAt [of c' q] by (auto simp: below_def)
  moreover have "ref2 a = ref a - dropped ev obj a (entriesBelow ((k, c) # rest))" for a
    using r(7) c(5) by (simp add: dropped_add)
  ultimately show ?case by (intro exI [of _ ?ch] exI [of _ ref2]) blast
qed


section \<open>The invariant\<close>

text \<open>
  Every entry belongs to a watched object and shares that object's counter; the counter is one more
  than the number of its entries, so it never wraps; the limits hold at every node.
\<close>

abbreviation entriesFor :: "('a obs_env_scheme) \<Rightarrow> nat \<Rightarrow> obs_node \<Rightarrow> nat" where
  "entriesFor ev x t \<equiv> size {#e \<in># entriesIn t. entryObject ev e = Some x#}"

definition entriesOk :: "ext_entry list \<Rightarrow> bool" where
  "entriesOk es \<longleftrightarrow> length es \<le> OBS_ALL_NUM_MAX \<and> (\<forall>tok. length (filter (\<lambda>e. en_tokenId e = tok) es) \<le> OBS_NUM_MAX + 1)"

definition refsOk :: "('a obs_env_scheme) \<Rightarrow> obs_node \<Rightarrow> (nat, nat) omap \<Rightarrow> (nat \<Rightarrow> 32 word) \<Rightarrow> bool" where
  "refsOk ev root rec ref \<longleftrightarrow>
     (\<forall>e\<in>#entriesIn root. \<exists>x. entryObject ev e = Some x \<and> omap_find rec x = Some (en_ref e)) \<and>
     (\<forall>x a. omap_find rec x = Some a \<longrightarrow> unat (ref a) = 1 + entriesFor ev x root)"

definition ext_inv :: "('a obs_env_scheme) \<Rightarrow> obs_ext \<Rightarrow> bool" where
  "ext_inv ev s \<longleftrightarrow> treeOk (ex_root s) \<and> omap_inv (ex_recipients s) \<and>
     (\<forall>x y a. omap_find (ex_recipients s) x = Some a \<and> omap_find (ex_recipients s) y = Some a \<longrightarrow> x = y) \<and>
     (\<forall>x a. omap_find (ex_recipients s) x = Some a \<longrightarrow> a < ex_next s) \<and>
     refsOk ev (ex_root s) (ex_recipients s) (ex_ref s) \<and> (\<forall>path. entriesOk (entriesAt (ex_root s) path))"

lemma entriesOk_filter: "entriesOk es \<Longrightarrow> entriesOk (filter p es)"
proof -
  have le: "length (filter q (filter p es)) \<le> length (filter q es)" for q by (induction es) auto
  assume "entriesOk es"
  then show ?thesis unfolding entriesOk_def by (meson le le_trans length_filter_le)
qed

lemma entriesOk_snoc: "entriesOk es \<Longrightarrow> \<not> IsLimit e es \<Longrightarrow> entriesOk (es @ [e])"
  by (auto simp: entriesOk_def IsLimit_iff)

lemma ext_invD:
  assumes "ext_inv ev s"
  shows "treeOk (ex_root s)" "omap_inv (ex_recipients s)"
    "omap_find (ex_recipients s) x = Some a \<Longrightarrow> omap_find (ex_recipients s) y = Some a \<Longrightarrow> x = y"
    "omap_find (ex_recipients s) x = Some a \<Longrightarrow> a < ex_next s"
    "e \<in># entriesIn (ex_root s) \<Longrightarrow> entryObject ev e = Some x \<Longrightarrow> omap_find (ex_recipients s) x = Some (en_ref e)"
    "omap_find (ex_recipients s) x = Some a \<Longrightarrow> unat (ex_ref s a) = 1 + entriesFor ev x (ex_root s)"
    "entriesOk (entriesAt (ex_root s) path)"
    "e \<in># entriesIn (ex_root s) \<Longrightarrow> \<exists>x. entryObject ev e = Some x \<and> omap_find (ex_recipients s) x = Some (en_ref e)"
  using assms by (force simp: ext_inv_def refsOk_def)+

text \<open>Dropping the recipient of an object without entries.\<close>

lemma ext_inv_forget:
  assumes "ext_inv ev s" "entriesFor ev x (ex_root s) = 0"
  shows "ext_inv ev (s\<lparr>ex_recipients := omap_erase x (ex_recipients s)\<rparr>)"
proof -
  have "entryObject ev e \<noteq> Some x" if "e \<in># entriesIn (ex_root s)" for e
    using assms(2) that by (auto simp: filter_mset_eq_conv)
  then have "refsOk ev (ex_root s) (omap_erase x (ex_recipients s)) (ex_ref s)"
    using assms(1) by (fastforce simp: ext_inv_def refsOk_def find_omap_erase)
  with assms(1) show ?thesis by (auto simp: ext_inv_def omap_inv_erase find_omap_erase)
qed

lemma ext_inv_RemoveRecipient:
  assumes "ext_inv ev s" "f \<Longrightarrow> entriesFor ev x (ex_root s) = 0"
  shows "ext_inv ev (ext_RemoveObsDeathRecipient x f s)"
proof (cases "omap_find (ex_recipients s) x")
  case (Some a)
  show ?thesis
  proof (cases "f \<or> ex_ref s a \<le> 1")
    case True
    then have "entriesFor ev x (ex_root s) = 0"
      using assms(2) ext_invD(6) [OF assms(1) Some] by (auto simp: word_le_nat_alt)
    from ext_inv_forget [OF assms(1) this] True Some show ?thesis by (simp add: ext_RemoveObsDeathRecipient_def)
  next
    case False
    with Some assms(1) show ?thesis by (simp add: ext_RemoveObsDeathRecipient_def)
  qed
qed (use assms(1) in \<open>simp add: ext_RemoveObsDeathRecipient_def\<close>)

lemma RemoveRecipient_root [simp]: "ex_root (ext_RemoveObsDeathRecipient x f s) = ex_root s"
  by (simp add: ext_RemoveObsDeathRecipient_def split: option.split)

lemma AddRecipient_ok:
  assumes inv: "ext_inv ev s" and add: "ext_AddObsDeathRecipient x s = (r, s1)"
  shows "ext_inv ev s1" "ex_root s1 = ex_root s" "r = None \<Longrightarrow> s1 = s"
    "r = Some a \<Longrightarrow> omap_find (ex_recipients s1) x = Some a \<and> unat (ex_ref s1 a) < 2 ^ 32 - 1"
proof -
  have *: "ext_inv ev s1 \<and> ex_root s1 = ex_root s \<and> (r = None \<longrightarrow> s1 = s) \<and>
    (\<forall>a. r = Some a \<longrightarrow> omap_find (ex_recipients s1) x = Some a \<and> unat (ex_ref s1 a) < 2 ^ 32 - 1)"
  proof (cases "omap_find (ex_recipients s) x")
    case (Some b)
    show ?thesis
    proof (cases "- 1 - 1 < ex_ref s b")
      case False
      then have "unat (ex_ref s b) < 2 ^ 32 - 1" by (simp add: word_less_nat_alt)
      with add Some False inv show ?thesis by (auto simp: ext_AddObsDeathRecipient_def)
    qed (use add Some inv in \<open>auto simp: ext_AddObsDeathRecipient_def\<close>)
  next
    case None
    have s1: "s1 = s\<lparr>ex_next := ex_next s + 1, ex_ref := (ex_ref s)(ex_next s := 1),
        ex_recipients := omap_put x (ex_next s) (ex_recipients s)\<rparr>" "r = Some (ex_next s)"
      using add None by (simp_all add: ext_AddObsDeathRecipient_def Let_def)
    note find = find_omap_put [OF ext_invD(2) [OF inv]]
    have fresh: "omap_find (ex_recipients s) y \<noteq> Some (ex_next s)" for y using ext_invD(4) [OF inv, of y] by blast
    have no: "entryObject ev e \<noteq> Some x" if "e \<in># entriesIn (ex_root s)" for e
      using ext_invD(5) [OF inv that] None by force
    then have "entriesFor ev x (ex_root s) = 0" by (auto simp: filter_mset_eq_conv)
    moreover have "refsOk ev (ex_root s) (omap_put x (ex_next s) (ex_recipients s)) ((ex_ref s)(ex_next s := 1))"
      using inv no fresh calculation by (fastforce simp: ext_inv_def refsOk_def find)
    ultimately have "ext_inv ev s1"
      using inv fresh unfolding s1(1) by (auto simp: ext_inv_def omap_inv_put find less_Suc_eq)
    then show ?thesis using s1 by (simp add: find)
  qed
  then show "ext_inv ev s1" "ex_root s1 = ex_root s" "r = None \<Longrightarrow> s1 = s"
    "r = Some a \<Longrightarrow> omap_find (ex_recipients s1) x = Some a \<and> unat (ex_ref s1 a) < 2 ^ 32 - 1" by auto
qed


lemma ext_inv_add:
  assumes inv: "ext_inv ev s" and e: "entryObject ev e = Some x" "omap_find (ex_recipients s) x = Some (en_ref e)"
    and room: "unat (ex_ref s (en_ref e)) < 2 ^ 32 - 1" and t: "treeOk t" "entriesIn t = add_mset e (entriesIn (ex_root s))"
    "entriesAt t = (entriesAt (ex_root s))(path := entriesAt (ex_root s) path @ [e])" "\<not> IsLimit e (entriesAt (ex_root s) path)"
  shows "ext_inv ev (s\<lparr>ex_root := t, ex_ref := (ex_ref s)(en_ref e := ex_ref s (en_ref e) + 1), ex_nextId := i\<rparr>)"
proof -
  have up: "unat (ex_ref s (en_ref e) + 1) = unat (ex_ref s (en_ref e)) + 1"
    using room by (simp add: unat_plus_if_size word_size)
  have "refsOk ev t (ex_recipients s) ((ex_ref s)(en_ref e := ex_ref s (en_ref e) + 1))"
    unfolding refsOk_def
  proof (intro conjI allI impI)
    show "\<forall>f\<in>#entriesIn t. \<exists>x. entryObject ev f = Some x \<and> omap_find (ex_recipients s) x = Some (en_ref f)"
      using ext_invD(8) [OF inv] e t(2) by auto
    fix y a assume y: "omap_find (ex_recipients s) y = Some a"
    show "unat (((ex_ref s)(en_ref e := ex_ref s (en_ref e) + 1)) a) = 1 + entriesFor ev y t"
    proof (cases "y = x")
      case True
      with y e up ext_invD(6) [OF inv e(2)] t(2) show ?thesis by simp
    next
      case False
      then have "a \<noteq> en_ref e" using ext_invD(3) [OF inv y, of x] e(2) by blast
      with False y e(1) ext_invD(6) [OF inv y] t(2) show ?thesis by simp
    qed
  qed
  moreover have "entriesOk (entriesAt t q)" for q
    using ext_invD(7) [OF inv] entriesOk_snoc [OF ext_invD(7) [OF inv] t(4)] by (simp add: t(3))
  ultimately show ?thesis using inv t(1) by (simp add: ext_inv_def)
qed

definition ext_has :: "('a obs_env_scheme) \<Rightarrow> obs_ext \<Rightarrow> string list \<Rightarrow> nat \<Rightarrow> bool" where
  "ext_has ev s path x \<longleftrightarrow> (\<exists>e\<in>set (entriesAt (ex_root s) path). entryObject ev e = Some x)"

lemma registerAt_cases:
  assumes inv: "ext_inv ev s"
  obtains
    (refused) "fst (registerAt ev path rq s) \<noteq> SUCCESS" "ext_inv ev (snd (registerAt ev path rq s))"
      "ex_root (snd (registerAt ev path rq s)) = ex_root s"
  | (added) x e where "fst (registerAt ev path rq s) = SUCCESS" "ext_inv ev (snd (registerAt ev path rq s))"
      "ev_asObject ev (rq_observer rq) = Some x" "en_observer e = rq_observer rq" "en_isDescendants e = rq_isDescendants rq"
      "en_userId e = rq_userId rq" "en_tokenId e = rq_tokenId rq" "en_pid e = rq_pid rq"
      "entriesAt (ex_root (snd (registerAt ev path rq s))) = (entriesAt (ex_root s))(path := entriesAt (ex_root s) path @ [e])"
      "length path < MAX_URI_PATH_SIZE" "\<not> IsLimit e (entriesAt (ex_root s) path)"
proof -
  show thesis
  proof (cases "ev_asObject ev (rq_observer rq)")
    case None
    then show thesis by (intro refused) (simp_all add: registerAt_def inv)
  next
    case (Some x)
    obtain r s1 where add: "ext_AddObsDeathRecipient x s = (r, s1)" by fastforce
    note ok = AddRecipient_ok [OF inv add]
    show thesis
    proof (cases r)
      case None
      with Some add ok show thesis by (intro refused) (simp_all add: registerAt_def)
    next
      case r: (Some a)
      note a = ok(4) [OF r]
      show thesis
      proof (cases "length path \<ge> MAX_URI_PATH_SIZE")
        case True
        with Some add ok r show thesis by (intro refused) (simp_all add: registerAt_def)
      next
        case len: False
        define e where "e = \<lparr>en_observer = rq_observer rq, en_userId = rq_userId rq, en_tokenId = rq_tokenId rq,
           en_ref = a, en_isDescendants = rq_isDescendants rq, en_permission = [],
           en_pid = rq_pid rq, en_entryId = ex_nextId s1\<rparr>"
        show thesis
        proof (cases "IsLimit e (entriesAt (ex_root s1) path)")
          case True
          have "registerAt ev path rq s = (DATAOBS_SERVICE_OBS_LIMMIT,
              ext_RemoveObsDeathRecipient x False (s1\<lparr>ex_nextId := ex_nextId s1 + 1\<rparr>))"
            using Some add r len AddObserver_limit [OF ext_invD(1) [OF ok(1)] True, of "ex_ref s1"]
            by (simp add: registerAt_def e_def Let_def)
          moreover have "ext_inv ev (s1\<lparr>ex_nextId := ex_nextId s1 + 1\<rparr>)" using ok(1) by (simp add: ext_inv_def)
          ultimately show thesis using ok(2) ext_inv_RemoveRecipient [of ev _ False x] by (intro refused) simp_all
        next
          case False
          from AddObserver_ok [OF ext_invD(1) [OF ok(1)] False, of "ex_ref s1"] obtain t where
            t: "AddObserver path e (ex_root s1) (ex_ref s1) = (True, t, (ex_ref s1)(a := ex_ref s1 a + 1))" "treeOk t"
            "entriesIn t = add_mset e (entriesIn (ex_root s1))"
            "entriesAt t = (entriesAt (ex_root s1))(path := entriesAt (ex_root s1) path @ [e])"
            by (auto simp: e_def)
          have "registerAt ev path rq s = (SUCCESS,
              s1\<lparr>ex_root := t, ex_ref := (ex_ref s1)(a := ex_ref s1 a + 1), ex_nextId := ex_nextId s1 + 1\<rparr>)"
            using Some add r len t(1) by (simp add: registerAt_def e_def Let_def)
          moreover have "ext_inv ev (s1\<lparr>ex_root := t, ex_ref := (ex_ref s1)(a := ex_ref s1 a + 1), ex_nextId := ex_nextId s1 + 1\<rparr>)"
            using ext_inv_add [OF ok(1), of e x t path "ex_nextId s1 + 1"] t(2,3,4) a Some False by (simp add: e_def)
          ultimately show thesis using Some t(4) ok(2) len False by (intro added [of x e]) (simp_all add: e_def)
        qed
      qed
    qed
  qed
qed

lemma ext_inv_drop:
  assumes inv: "ext_inv ev s" and t: "treeOk t" "entriesIn t + R = entriesIn (ex_root s)"
    and R: "\<And>e. e \<in># R \<Longrightarrow> entryObject ev e = Some x"
    and at: "\<And>q. \<exists>P. entriesAt t q = filter P (entriesAt (ex_root s) q)"
    and ref: "\<And>a. ref a = ex_ref s a - of_nat (size {#e \<in># R. en_ref e = a#})"
  shows "ext_inv ev (s\<lparr>ex_root := t, ex_ref := ref\<rparr>)"
proof -
  have sub: "e \<in># entriesIn (ex_root s)" if "e \<in># R \<or> e \<in># entriesIn t" for e using that t(2) [symmetric] by auto
  have "unat (ref a) = 1 + entriesFor ev y t" if y: "omap_find (ex_recipients s) y = Some a" for y a
  proof -
    have cnt: "unat (ex_ref s a) = 1 + entriesFor ev y t + size {#e \<in># R. entryObject ev e = Some y#}"
      using ext_invD(6) [OF inv y] unfolding t(2) [symmetric] by simp
    have "{#e \<in># R. en_ref e = a#} = {#e \<in># R. entryObject ev e = Some y#}"
    proof (rule filter_mset_cong [OF refl])
      fix e assume e: "e \<in># R"
      show "(en_ref e = a) = (entryObject ev e = Some y)"
        using R [OF e] ext_invD(5) [OF inv, of e x] sub [of e] e y ext_invD(3) [OF inv y, of x] by auto
    qed
    then have "ref a = ex_ref s a - of_nat (size {#e \<in># R. entryObject ev e = Some y#})" by (simp add: ref)
    moreover have "unat (of_nat (size {#e \<in># R. entryObject ev e = Some y#}) :: 32 word) = size {#e \<in># R. entryObject ev e = Some y#}"
    proof -
      have "unat (ex_ref s a) < 2 ^ 32" using unsigned_less [of "ex_ref s a"] by simp
      with cnt show ?thesis by (simp add: unat_of_nat)
    qed
    ultimately show ?thesis using cnt by (simp add: unat_sub word_le_nat_alt)
  qed
  then have "refsOk ev t (ex_recipients s) ref" using ext_invD(8) [OF inv] sub by (auto simp: refsOk_def)
  moreover have "entriesOk (entriesAt t q)" for q using at [of q] entriesOk_filter [OF ext_invD(7) [OF inv]] by auto
  ultimately show ?thesis using inv t(1) by (simp add: ext_inv_def)
qed

lemma unregisterAt_ok:
  assumes inv: "ext_inv ev s"
  shows "ext_inv ev (snd (unregisterAt ev path p s))"
    "entriesAt (ex_root (snd (unregisterAt ev path p s))) q =
       (if q = path \<and> ev_asObject ev p \<noteq> None \<and> length path < MAX_URI_PATH_SIZE
        then filter (\<lambda>e. entryObject ev e \<noteq> ev_asObject ev p) (entriesAt (ex_root s) q) else entriesAt (ex_root s) q)"
proof -
  have "ext_inv ev (snd (unregisterAt ev path p s)) \<and> entriesAt (ex_root (snd (unregisterAt ev path p s))) q =
       (if q = path \<and> ev_asObject ev p \<noteq> None \<and> length path < MAX_URI_PATH_SIZE
        then filter (\<lambda>e. entryObject ev e \<noteq> ev_asObject ev p) (entriesAt (ex_root s) q) else entriesAt (ex_root s) q)"
  proof (cases "ev_asObject ev p = None \<or> length path \<ge> MAX_URI_PATH_SIZE")
    case True
    then show ?thesis using inv by (auto simp: unregisterAt_def split: option.splits)
  next
    case False
    then obtain x where x: "ev_asObject ev p = Some x" "length path < MAX_URI_PATH_SIZE" by auto
    let ?R = "filter (\<lambda>e. entryObject ev e = Some x) (entriesAt (ex_root s) path)"
    from RemoveObserverAt_ok [OF ext_invD(1) [OF inv], of ev "Some x" path "ex_ref s"] obtain t where
      t: "RemoveObserverAt ev (Some x) path (ex_root s) (ex_ref s) = (bare t, t, decRefs ?R (ex_ref s))" "treeOk t"
      "entriesIn t + mset ?R = entriesIn (ex_root s)"
      "entriesAt t = (entriesAt (ex_root s))(path := filter (\<lambda>e. entryObject ev e \<noteq> Some x) (entriesAt (ex_root s) path))"
      by blast
    have "ext_inv ev (s\<lparr>ex_root := t, ex_ref := decRefs ?R (ex_ref s)\<rparr>)"
    proof (rule ext_inv_drop [OF inv t(2,3)])
      show "decRefs ?R (ex_ref s) a = ex_ref s a - of_nat (size {#e \<in># mset ?R. en_ref e = a#})" for a
        by (simp add: decRefs_eq flip: mset_filter)
      show "\<exists>P. entriesAt t q = filter P (entriesAt (ex_root s) q)" for q
        unfolding t(4) by (cases "q = path") (auto intro: exI [of _ "\<lambda>_. True"])
    qed auto
    from ext_inv_RemoveRecipient [OF this, of False x] t(1,4) x show ?thesis by (simp add: unregisterAt_def)
  qed
  then show "ext_inv ev (snd (unregisterAt ev path p s))"
    "entriesAt (ex_root (snd (unregisterAt ev path p s))) q =
       (if q = path \<and> ev_asObject ev p \<noteq> None \<and> length path < MAX_URI_PATH_SIZE
        then filter (\<lambda>e. entryObject ev e \<noteq> ev_asObject ev p) (entriesAt (ex_root s) q) else entriesAt (ex_root s) q)"
    by auto
qed

lemma removeEverywhere_ok:
  assumes inv: "ext_inv ev s"
  shows "ext_inv ev (removeEverywhere ev x s)"
    "entriesAt (ex_root (removeEverywhere ev x s)) q = filter (\<lambda>e. entryObject ev e \<noteq> Some x) (entriesAt (ex_root s) q)"
proof -
  let ?R = "{#e \<in># entriesIn (ex_root s). entryObject ev e = Some x#}"
  from RemoveObserverAll_ok [OF ext_invD(1) [OF inv], of ev "Some x" "ex_ref s"] obtain t ref where
    t: "RemoveObserverAll ev (Some x) (ex_root s) (ex_ref s) = (bare t, t, ref)" "treeOk t"
    "entriesIn t = {#e \<in># entriesIn (ex_root s). entryObject ev e \<noteq> Some x#}"
    "\<And>q. entriesAt t q = filter (\<lambda>e. entryObject ev e \<noteq> Some x) (entriesAt (ex_root s) q)"
    "\<And>a. ref a = ex_ref s a - dropped ev (Some x) a (entriesIn (ex_root s))" by blast
  have "ext_inv ev (s\<lparr>ex_root := t, ex_ref := ref\<rparr>)"
  proof (rule ext_inv_drop [OF inv t(2), of ?R x])
    show "entriesIn t + ?R = entriesIn (ex_root s)"
      using multiset_partition [of "entriesIn (ex_root s)" "\<lambda>e. entryObject ev e = Some x"] t(3) by (simp add: add.commute)
    show "ref a = ex_ref s a - of_nat (size {#e \<in># ?R. en_ref e = a#})" for a
      by (simp add: t(5) dropped_def filter_filter_mset conj_commute)
  qed (use t(4) in auto)
  moreover have "entriesFor ev x t = 0" by (simp add: t(3) filter_filter_mset)
  ultimately show "ext_inv ev (removeEverywhere ev x s)"
    using ext_inv_RemoveRecipient [of ev "s\<lparr>ex_root := t, ex_ref := ref\<rparr>" True x] t(1) by (simp add: removeEverywhere_def)
  show "entriesAt (ex_root (removeEverywhere ev x s)) q = filter (\<lambda>e. entryObject ev e \<noteq> Some x) (entriesAt (ex_root s) q)"
    using t(1,4) by (simp add: removeEverywhere_def)
qed


section \<open>The registry contract\<close>

definition ext_ok :: "('a obs_env_scheme) \<Rightarrow> obs_ext \<Rightarrow> bool" where
  "ext_ok ev s \<longleftrightarrow> ext_inv ev s \<and> (\<forall>path. entriesAt (ex_root s) path \<noteq> [] \<longrightarrow> length path < MAX_URI_PATH_SIZE)"

definition extRegister :: "('a obs_env_scheme) \<Rightarrow> string list \<Rightarrow> ext_request \<Rightarrow> obs_ext \<Rightarrow> bool \<times> obs_ext" where
  "extRegister ev path rq s = (fst (registerAt ev path rq s) = SUCCESS, snd (registerAt ev path rq s))"

definition extUnregister :: "('a obs_env_scheme) \<Rightarrow> string list \<Rightarrow> ext_request \<Rightarrow> obs_ext \<Rightarrow> obs_ext" where
  "extUnregister ev path rq s = snd (unregisterAt ev path (rq_observer rq) s)"

definition extDied :: "('a obs_env_scheme) \<Rightarrow> nat \<Rightarrow> obs_ext \<Rightarrow> obs_ext" where
  "extDied ev x s = ext_OnCallBackDied ev (Some x) s"

lemma ext_okD:
  "ext_ok ev s \<Longrightarrow> ext_inv ev s" "ext_ok ev s \<Longrightarrow> ext_has ev s path x \<Longrightarrow> length path < MAX_URI_PATH_SIZE"
  by (auto simp: ext_ok_def ext_has_def) (metis empty_iff list.set(1))

lemma ext_ok_register:
  assumes "ext_ok ev s"
  shows "ext_ok ev (snd (registerAt ev path rq s))"
    "ext_has ev (snd (registerAt ev path rq s)) q x \<longleftrightarrow> ext_has ev s q x \<or>
       fst (registerAt ev path rq s) = SUCCESS \<and> q = path \<and> ev_asObject ev (rq_observer rq) = Some x"
  using assms by (cases rule: registerAt_cases [OF ext_okD(1) [OF assms], of path rq]; auto simp: ext_ok_def ext_has_def)+

lemma ext_ok_unregister:
  assumes "ext_ok ev s"
  shows "ext_ok ev (snd (unregisterAt ev path p s))"
    "ext_has ev (snd (unregisterAt ev path p s)) q x \<longleftrightarrow> ext_has ev s q x \<and> \<not> (q = path \<and> ev_asObject ev p = Some x)"
  using assms ext_okD(2) [OF assms, of q x] by (auto simp: ext_ok_def ext_has_def unregisterAt_ok [OF ext_okD(1) [OF assms]])

lemma ext_ok_died:
  assumes "ext_ok ev s"
  shows "ext_ok ev (removeEverywhere ev y s)" "ext_has ev (removeEverywhere ev y s) q x \<longleftrightarrow> ext_has ev s q x \<and> x \<noteq> y"
  using assms by (auto simp: ext_ok_def ext_has_def removeEverywhere_ok [OF ext_okD(1) [OF assms]])
    (metis filter.simps(1))

interpretation extreg: observer_registry "extRegister ev" "extUnregister ev" "extDied ev"
  "\<lambda>rq. ev_asObject ev (rq_observer rq)" "ext_has ev" "ext_ok ev" for ev :: "'a obs_env_scheme"
  by unfold_locales
    (simp_all add: extRegister_def extUnregister_def extDied_def ext_OnCallBackDied_def ext_ok_register ext_ok_unregister ext_ok_died)

text \<open>
  C39: the observer tree of \<open>DataObsMgrInnerExt\<close> fulfils the same contract as the flat registry: over every
  sequence of registrations, unregistrations and deaths the nodes hold exactly the (path, object) pairs
  that the calls and their results imply.
\<close>

theorem DataObsMgrInnerExt_refines:
  fixes ev :: ext_env
  assumes "ext_ok ev s"
  shows "let (oks, s') = runRegistry (extRegister ev) (extUnregister ev) (extDied ev) es s
    in {(u, x). ext_has ev s' u x} =
         trackRegistry (\<lambda>rq. ev_asObject ev (rq_observer rq)) es oks {(u, x). ext_has ev s u x} \<and> ext_ok ev s'"
  using extreg.run_tracks [OF assms, of es] extreg.run_inv [OF assms, of es]
  by (simp add: extreg.holds_def case_prod_beta)

definition ext_new :: obs_ext where
  "ext_new = \<lparr>ex_root = Node ''root'' [] [], ex_recipients = [], ex_ref = (\<lambda>_. 0), ex_next = 0, ex_nextId = 1\<rparr>"

lemma ext_new_at: "entriesAt (ex_root ext_new) path = []"
  by (rule bare_entriesAt) (simp add: ext_new_def)

lemma ext_new_ok: "ext_ok ev ext_new"
  using ext_new_at by (auto simp: ext_ok_def ext_inv_def refsOk_def entriesOk_def) (auto simp: ext_new_def)

definition exExtEnv :: ext_env where
  "exExtEnv = \<lparr>ev_asObject = (\<lambda>p. Some (p div 10)), ev_tokenType = (\<lambda>t. TOKEN_HAP),
     ev_hapBundle = (\<lambda>t. None), ev_groups = (\<lambda>b u. None), ev_scheme = (\<lambda>u. ''datashare''),
     ev_authority = (\<lambda>u. ''host''), ev_query = (\<lambda>u. []), ev_singletonTrust = (\<lambda>u. False),
     ev_dataShareVerify = (\<lambda>u t p silent. True), ev_segments = (\<lambda>u. [u])\<rparr>"

definition exRq :: "nat \<Rightarrow> bool \<Rightarrow> ext_request" where
  "exRq p d = \<lparr>rq_observer = p, rq_userId = 100, rq_tokenId = 7, rq_pid = 1, rq_isDescendants = d\<rparr>"

theorem DataObsMgrInnerExt_refines_witness:
  "let (oks, s') = runRegistry (extRegister exExtEnv) (extUnregister exExtEnv) (extDied exExtEnv)
       [Register [''a'', ''b''] (exRq 10 True), Register [''a''] (exRq 20 False), Died 2] ext_new
   in {(u, x). ext_has exExtEnv s' u x} = {([''a'', ''b''], 1)}"
proof -
  let ?es = "[Register [''a'', ''b''] (exRq 10 True), Register [''a''] (exRq 20 False), Died 2]"
  have oks: "fst (runRegistry (extRegister exExtEnv) (extUnregister exExtEnv) (extDied exExtEnv) ?es ext_new) = [True, True, True]"
    by (simp add: extRegister_def registerAt_def ext_AddObsDeathRecipient_def ext_new_def exExtEnv_def exRq_def MAX_URI_PATH_SIZE_def
        IsLimit_iff OBS_ALL_NUM_MAX_def OBS_NUM_MAX_def)
  have "{(u, x). ext_has exExtEnv ext_new u x} = {}" by (simp add: ext_has_def ext_new_at)
  moreover have "ev_asObject exExtEnv (rq_observer (exRq p d)) = Some (p div 10)" for p d by (simp add: exExtEnv_def exRq_def)
  ultimately have "trackRegistry (\<lambda>rq. ev_asObject exExtEnv (rq_observer rq)) ?es [True, True, True]
      {(u, x). ext_has exExtEnv ext_new u x} = {([''a'', ''b''], 1)}"
    by auto
  with DataObsMgrInnerExt_refines [OF ext_new_ok, of exExtEnv ?es] oks show ?thesis by (simp only: case_prod_beta Let_def)
qed

section \<open>Runs of the registry\<close>

inductive ext_step :: "ext_env \<Rightarrow> obs_ext \<Rightarrow> obs_ext \<Rightarrow> bool" for ev where
  eregister: "ext_step ev s (snd (ext_HandleRegisterObserver ev uri rq s))"
| eunregister: "ext_step ev s (snd (ext_HandleUnregisterObserver ev uri p s))"
| eunregisterAll: "ext_step ev s (snd (ext_HandleUnregisterObserverAll ev p s))"
| edied: "omap_find (ex_recipients s) x \<noteq> None \<Longrightarrow> ext_step ev s (ext_OnCallBackDied ev (Some x) s)"

inductive_cases ext_stepE: "ext_step ev s t"

interpretation exttree: machine "\<lambda>s. s = ext_new" "ext_step ev" "ext_ok ev" for ev
proof (unfold_locales, goal_cases)
  case (2 s t)
  from 2(2) show ?case
    using ext_ok_register(1) [OF 2(1)] ext_ok_unregister(1) [OF 2(1)] ext_ok_died(1) [OF 2(1)] 2(1)
    by cases (simp_all add: ext_HandleRegisterObserver_def ext_HandleUnregisterObserver_def
        ext_HandleUnregisterObserverAll_def ext_OnCallBackDied_def split: option.split)
qed (simp add: ext_new_ok)

text \<open>
  C40: in every reachable state of the observer tree, each registered object has a death recipient whose
  32-bit counter is one more than the number of its entries in the whole tree (so it neither wraps nor
  drops to one while entries remain), no node has more than 2500 entries or 51 of one token, and no
  path has 25 or more parts.
\<close>

theorem ext_reachable:
  assumes "reach (\<lambda>s. s = ext_new) (ext_step ev) s" and "e \<in> set (entriesAt (ex_root s) path)"
  shows "(\<exists>x a. ev_asObject ev (en_observer e) = Some x \<and> omap_find (ex_recipients s) x = Some a \<and> en_ref e = a \<and>
      unat (ex_ref s a) = 1 + size {#f \<in># entriesIn (ex_root s). ev_asObject ev (en_observer f) = Some x#}) \<and>
    length (entriesAt (ex_root s) path) \<le> 2500 \<and> length path < 25 \<and>
    length (filter (\<lambda>f. en_tokenId f = tok) (entriesAt (ex_root s) path)) \<le> 51"
proof -
  have ok: "ext_ok ev s" by (rule exttree.reach_inv [OF assms(1)])
  note inv = ext_okD(1) [OF ok]
  have "\<exists>x a. ev_asObject ev (en_observer e) = Some x \<and> omap_find (ex_recipients s) x = Some a \<and> en_ref e = a \<and>
      unat (ex_ref s a) = 1 + size {#f \<in># entriesIn (ex_root s). ev_asObject ev (en_observer f) = Some x#}"
    using ext_invD(8) [OF inv entriesAt_in [OF assms(2)]] ext_invD(6) [OF inv] by blast
  moreover have "length (entriesAt (ex_root s) path) \<le> 2500 \<and>
      length (filter (\<lambda>f. en_tokenId f = tok) (entriesAt (ex_root s) path)) \<le> 51"
    using ext_invD(7) [OF inv, of path] unfolding entriesOk_def OBS_ALL_NUM_MAX_def OBS_NUM_MAX_def by simp
  moreover have "length path < 25" using ok assms(2) by (force simp: ext_ok_def MAX_URI_PATH_SIZE_def)
  ultimately show ?thesis by blast
qed

definition exEntry :: ext_entry where
  "exEntry = \<lparr>en_observer = 10, en_userId = 100, en_tokenId = 7, en_ref = 0, en_isDescendants = True, en_permission = [],
     en_pid = 1, en_entryId = 1\<rparr>"

definition exTree :: obs_ext where
  "exTree = \<lparr>ex_root = Node ''root'' [] [(''datashare'', Node ''datashare'' [] [(''host'', Node ''host'' []
       [(''a'', Node ''a'' [exEntry] [])])])],
     ex_recipients = [(1, 0)], ex_ref = (\<lambda>_. 0)(0 := 2), ex_next = 1, ex_nextId = 2\<rparr>"

lemma exTree_register: "ext_HandleRegisterObserver exExtEnv ''a'' (exRq 10 True) ext_new = (SUCCESS, exTree)"
  by (simp add: ext_HandleRegisterObserver_def registerAt_def ext_AddObsDeathRecipient_def ext_new_def exExtEnv_def exRq_def
      MAX_URI_PATH_SIZE_def uriPath_def exTree_def exEntry_def)

theorem ext_reachable_witness:
  "reach (\<lambda>s. s = ext_new) (ext_step exExtEnv) exTree \<and>
   unat (ex_ref exTree 0) = 1 + size {#f \<in># entriesIn (ex_root exTree). ev_asObject exExtEnv (en_observer f) = Some 1#}"
proof -
  have "ext_step exExtEnv ext_new exTree"
    using eregister [of exExtEnv ext_new "''a''" "exRq 10 True"] by (simp add: exTree_register)
  then have r: "reach (\<lambda>s. s = ext_new) (ext_step exExtEnv) exTree"
    by (rule reach_step [rotated]) (rule reach_start, rule refl)
  have "exEntry \<in> set (entriesAt (ex_root exTree) [''datashare'', ''host'', ''a''])" by (simp add: exTree_def)
  from ext_reachable [OF r this] r show ?thesis by (simp add: exTree_def exExtEnv_def exEntry_def)
qed

text \<open>
  a registration with a path of 25 or more parts is refused after the death recipient was added, and
  the recipient is not taken back: the registry goes on watching an object that has no entry.
\<close>

theorem register_long_path_keeps_recipient:
  assumes "ext_ok ev s" "ev_asObject ev (rq_observer rq) = Some x" "omap_find (ex_recipients s) x = None"
    and "length (uriPath ev uri) \<ge> 25"
  shows "let (code, s') = ext_HandleRegisterObserver ev uri rq s in
    code = DATAOBS_INVALID_URI \<and> omap_find (ex_recipients s') x \<noteq> None \<and> (\<forall>path. \<not> ext_has ev s' path x)"
proof -
  have "\<not> ext_has ev s path x" for path
  proof
    assume "ext_has ev s path x"
    then obtain e where e: "e \<in> set (entriesAt (ex_root s) path)" "entryObject ev e = Some x" by (auto simp: ext_has_def)
    from ext_invD(5) [OF ext_okD(1) [OF assms(1)] entriesAt_in [OF e(1)] e(2)] assms(3) show False by simp
  qed
  then show ?thesis using assms(2-4) ext_invD(2) [OF ext_okD(1) [OF assms(1)]]
    by (simp add: ext_HandleRegisterObserver_def registerAt_def ext_AddObsDeathRecipient_def Let_def MAX_URI_PATH_SIZE_def
        find_omap_put ext_has_def)
qed

theorem register_long_path_keeps_recipient_witness:
  "let ev = exExtEnv\<lparr>ev_segments := (\<lambda>_. replicate 23 ''d'')\<rparr>;
       (code, s') = ext_HandleRegisterObserver ev ''u'' (exRq 10 True) ext_new
   in code = DATAOBS_INVALID_URI \<and> omap_find (ex_recipients s') 1 \<noteq> None"
  using register_long_path_keeps_recipient [OF ext_new_ok, of "exExtEnv\<lparr>ev_segments := (\<lambda>_. replicate 23 ''d'')\<rparr>" "exRq 10 True" 1 "''u''"]
  by (simp add: case_prod_beta uriPath_def exExtEnv_def exRq_def ext_new_def)

section \<open>Who is notified\<close>

abbreviation userSees :: "int \<Rightarrow> ext_entry \<Rightarrow> bool" where
  "userSees userId e \<equiv> en_userId e = userId \<or> en_userId e = 0 \<or> userId = 0"

definition hears :: "obs_node \<Rightarrow> string list \<Rightarrow> int \<Rightarrow> ext_entry \<Rightarrow> bool" where
  "hears t path userId e \<longleftrightarrow>
     (\<exists>k\<le>length path. e \<in> set (entriesAt t (take k path)) \<and> (k = length path \<or> en_isDescendants e)) \<and> userSees userId e"

lemma collectObs_Cons:
  "collectObs info userId (e # es) res = collectObs info userId es
     (if userSees userId e
      then omap_put (en_observer e)
        \<lparr>oi_tokenId = en_tokenId e, oi_pid = en_pid e,
         oi_uriList = (case omap_find res (en_observer e) of None \<Rightarrow> [] | Some i \<Rightarrow> oi_uriList i) @ [info]\<rparr> res
      else res)"
  by (auto simp: collectObs_def Let_def split: option.split)

lemma collectObs_keys:
  "fst ` set (collectObs info userId es res) = fst ` set res \<union> en_observer ` {e \<in> set es. userSees userId e}"
proof (induction es arbitrary: res)
  case (Cons e es)
  show ?case
    by (cases "userSees userId e") (auto simp: collectObs_Cons Cons.IH keys_omap_put)
qed (simp add: collectObs_def)

lemma hears_Nil: "hears t [] userId e \<longleftrightarrow> e \<in> set (entriesAt t []) \<and> userSees userId e"
  by (simp add: hears_def)

lemma hears_Cons:
  "hears (Node name es ch) (p # path) userId e \<longleftrightarrow>
     e \<in> set es \<and> en_isDescendants e \<and> userSees userId e \<or>
     (\<exists>c. omap_find ch p = Some c \<and> hears c path userId e)"
proof -
  have "(\<exists>k\<le>length (p # path). e \<in> set (entriesAt (Node name es ch) (take k (p # path))) \<and> (k = length (p # path) \<or> en_isDescendants e)) \<longleftrightarrow>
      e \<in> set es \<and> en_isDescendants e \<or>
      (\<exists>k\<le>length path. e \<in> set (entriesAt (Node name es ch) (p # take k path)) \<and> (k = length path \<or> en_isDescendants e))"
    (is "?L \<longleftrightarrow> ?R")
  proof
    assume ?L
    then obtain k where k: "k \<le> length (p # path)" "e \<in> set (entriesAt (Node name es ch) (take k (p # path)))"
      "k = length (p # path) \<or> en_isDescendants e" by blast
    then show ?R by (cases k) auto
  next
    assume ?R
    then show ?L
    proof
      assume "e \<in> set es \<and> en_isDescendants e"
      then show ?L by (intro exI [of _ 0]) simp
    next
      assume "\<exists>k\<le>length path. e \<in> set (entriesAt (Node name es ch) (p # take k path)) \<and> (k = length path \<or> en_isDescendants e)"
      then obtain k where "k \<le> length path" "e \<in> set (entriesAt (Node name es ch) (p # take k path))" "k = length path \<or> en_isDescendants e"
        by blast
      then show ?L by (intro exI [of _ "Suc k"]) simp
    qed
  qed
  then show ?thesis unfolding hears_def by (cases "omap_find ch p") auto
qed

text \<open>
  a change of a URI reaches exactly the observers with an entry at the URI's own path, or at one of
  its ancestors with the descendants flag, whose user may see the notifier's user.
\<close>

theorem GetObs_exact:
  "fst ` set (GetObs path info userId t res) = fst ` set res \<union> en_observer ` {e. hears t path userId e}"
proof (induction path info userId t res rule: GetObs.induct)
  case (1 info userId name es ch res)
  then show ?case by (auto simp: collectObs_keys hears_Nil)
next
  case (2 p path info userId name es ch res)
  then show ?case by (cases "omap_find ch p") (auto simp: collectObs_keys hears_Cons)
qed


text \<open>What the collected map says of an observer: every URI in its list is one it hears.\<close>

definition collected :: "(nat \<Rightarrow> notify_info \<Rightarrow> bool) \<Rightarrow> obs_map \<Rightarrow> bool" where
  "collected P res \<longleftrightarrow> omap_inv res \<and> (\<forall>(p, i)\<in>set res. \<forall>n\<in>set (oi_uriList i). P p n)"

lemma collected_put:
  "collected P res \<Longrightarrow> P p info \<Longrightarrow>
     collected P (omap_put p \<lparr>oi_tokenId = tok, oi_pid = pid,
       oi_uriList = (case omap_find res p of None \<Rightarrow> [] | Some i \<Rightarrow> oi_uriList i) @ [info]\<rparr> res)"
proof (cases "omap_find res p")
  case None
  assume "collected P res" "P p info"
  with None show ?thesis by (auto simp: collected_def omap_inv_put set_omap_put)
next
  case (Some i)
  assume "collected P res" "P p info"
  with Some map_of_SomeD [OF Some] show ?thesis by (auto simp: collected_def omap_inv_put set_omap_put)
qed

lemma collected_collectObs:
  "collected P res \<Longrightarrow> (\<And>e. e \<in> set es \<Longrightarrow> userSees userId e \<Longrightarrow> P (en_observer e) info) \<Longrightarrow>
     collected P (collectObs info userId es res)"
proof (induction es arbitrary: res)
  case (Cons e es)
  show ?case
  proof (cases "userSees userId e")
    case True
    from collected_put [OF Cons.prems(1) Cons.prems(2) [OF list.set_intros(1) True]] show ?thesis
      using True Cons.prems(2) by (simp add: collectObs_Cons Cons.IH)
  next
    case False
    with Cons show ?thesis by (simp add: collectObs_Cons)
  qed
qed (simp add: collectObs_def)

lemma collected_GetObs:
  "collected P res \<Longrightarrow> (\<And>e. hears t path userId e \<Longrightarrow> P (en_observer e) info) \<Longrightarrow>
     collected P (GetObs path info userId t res)"
proof (induction path info userId t res rule: GetObs.induct)
  case (1 info userId name es ch res)
  then show ?case by (simp add: collected_collectObs hears_Nil)
next
  case (2 p path info userId name es ch res)
  have "collected P (collectObs info userId (filter en_isDescendants es) res)"
    using 2(2,3) by (intro collected_collectObs) (auto simp: hears_Cons)
  with 2 show ?case by (cases "omap_find ch p") (simp_all add: hears_Cons)
qed

lemma collected_fold:
  "collected P res \<Longrightarrow> (\<And>uri info e. (uri, info) \<in> set us \<Longrightarrow> hears t (uriPath ev uri) userId e \<Longrightarrow> P (en_observer e) (info\<lparr>ni_uri := uri\<rparr>)) \<Longrightarrow>
     collected P (foldl (\<lambda>res (uri, info). GetObs (uriPath ev uri) (info\<lparr>ni_uri := uri\<rparr>) userId t res) res us)"
proof (induction us arbitrary: res)
  case (Cons u us)
  obtain uri info where u: "u = (uri, info)" by (cases u)
  have "collected P (GetObs (uriPath ev uri) (info\<lparr>ni_uri := uri\<rparr>) userId t res)"
    by (rule collected_GetObs [OF Cons.prems(1)]) (use Cons.prems(2) u in auto)
  then have "collected P (foldl (\<lambda>res (uri, info). GetObs (uriPath ev uri) (info\<lparr>ni_uri := uri\<rparr>) userId t res)
      (GetObs (uriPath ev uri) (info\<lparr>ni_uri := uri\<rparr>) userId t res) us)"
    by (rule Cons.IH) (use Cons.prems(2) u in auto)
  with u show ?case by simp
qed simp

text \<open>
  every message that a batch of changes sends to an observer is not empty and lists only URIs of the
  batch that the observer has an entry for (exactly or through an ancestor) and whose read permission
  was verified.
\<close>

theorem ext_HandleNotifyChange_safe:
  assumes "(p, sent) \<in> set (snd (ext_HandleNotifyChange ev uris userId infos s))"
  shows "sent \<noteq> [] \<and> (\<forall>uri\<in>set sent.
    (\<exists>e. hears (ex_root s) (uriPath ev uri) userId e \<and> en_observer e = p) \<and>
    (\<exists>info tok. (uri, info) \<in> set (zip uris infos) \<and>
       ev_dataShareVerify ev uri tok (ni_readPermission info) (ni_isSilentUri info)))"
proof -
  let ?res = "foldl (\<lambda>res (uri, info). GetObs (uriPath ev uri) (info\<lparr>ni_uri := uri\<rparr>) userId (ex_root s) res) [] (zip uris infos)"
  let ?P = "\<lambda>p n. (\<exists>info. (ni_uri n, info) \<in> set (zip uris infos) \<and> n = info\<lparr>ni_uri := ni_uri n\<rparr>) \<and>
      (\<exists>e. hears (ex_root s) (uriPath ev (ni_uri n)) userId e \<and> en_observer e = p)"
  have "collected ?P ?res"
    by (rule collected_fold) (auto simp: collected_def)
  moreover obtain i where i: "(p, i) \<in> set ?res" "(p, sent) \<in> set (NotifyObserver ev p i)"
    using assms by (auto simp: ext_HandleNotifyChange_def NotifyObserver_def Let_def split: if_splits)
  ultimately have "\<forall>n\<in>set (oi_uriList i). ?P p n" by (auto simp: collected_def)
  then have n: "\<exists>e. hears (ex_root s) (uriPath ev (ni_uri n)) userId e \<and> en_observer e = p"
    "\<exists>info. (ni_uri n, info) \<in> set (zip uris infos) \<and> ni_readPermission n = ni_readPermission info \<and> ni_isSilentUri n = ni_isSilentUri info"
    if "n \<in> set (oi_uriList i)" for n using that by (auto, metis notify_info.select_convs(2,3) notify_info.surjective notify_info.update_convs(1))
  have "sent = map ni_uri (filter (\<lambda>n. ev_dataShareVerify ev (ni_uri n) (oi_tokenId i) (ni_readPermission n) (ni_isSilentUri n)) (oi_uriList i))"
    "sent \<noteq> []" using i(2) by (auto simp: NotifyObserver_def Let_def split: if_splits)
  then show ?thesis using n by fastforce
qed

theorem ext_HandleNotifyChange_safe_witness:
  "snd (ext_HandleNotifyChange exExtEnv [''a''] 100 [\<lparr>ni_uri = [], ni_readPermission = [], ni_isSilentUri = False\<rparr>] exTree) = [(10, [''a''])] \<and>
   (\<exists>e. hears (ex_root exTree) (uriPath exExtEnv ''a'') 100 e \<and> en_observer e = 10)"
proof -
  have "snd (ext_HandleNotifyChange exExtEnv [''a''] 100 [\<lparr>ni_uri = [], ni_readPermission = [], ni_isSilentUri = False\<rparr>] exTree) = [(10, [''a''])]"
    by (simp add: ext_HandleNotifyChange_def NotifyObserver_def collectObs_def uriPath_def exTree_def exExtEnv_def exEntry_def)
  moreover from this have "(10, [''a'']) \<in> set (snd (ext_HandleNotifyChange exExtEnv [''a''] 100
      [\<lparr>ni_uri = [], ni_readPermission = [], ni_isSilentUri = False\<rparr>] exTree))" by simp
  from ext_HandleNotifyChange_safe [OF this]
  have "\<exists>e. hears (ex_root exTree) (uriPath exExtEnv ''a'') 100 e \<and> en_observer e = 10" by simp
  ultimately show ?thesis by blast
qed

end
