(* ===== verification/Uri_Permission.thy ===== *)
theory Uri_Permission
  imports Ordered_Map "HOL-Library.Word"
begin

text \<open>
  \<open>services/uripermmgr/src/uri_permission_manager_stub_impl.cpp\<close>: the records of temporary URI permissions.
  \<open>uriMap_\<close> holds the grants for distributed documents, \<open>policyMap_\<close> the sandbox policies that can be revoked by
  hand, \<open>permissionTokenMap_\<close> indexes the tokens with grants so that the exit of other applications costs
  nothing, \<open>contentTokenIdSet_\<close> the tokens with content URIs.  The build with the sandbox manager is modelled.

  The storage manager, the sandbox manager, the collaborator, the identity of the caller and the
  resolution of names and paths are answered by the record \<open>upm_env\<close>; the calls that delete share files are
  part of the result.  Flags are \<open>uint32_t\<close>; return codes are integers.
\<close>

unbundle bit_operations_syntax

section \<open>State\<close>

record grant_info =
  gi_flag :: "32 word"
  gi_from :: int
  gi_target :: int

record grant_policy =
  gp_caller :: int
  gp_target :: int

text \<open>\<open>PolicyInfo\<close> and \<open>FUDAppInfo\<close>; the mode is masked to the read and write bits of a flag, so 32 bits hold it.\<close>

record policy =
  pl_path :: string
  pl_mode :: "32 word"
  pl_type :: int

record fud_app =
  fa_tokenId :: int
  fa_bundleName :: string
  fa_alterBundleName :: string
  fa_userId :: int
  fa_isSA :: bool

record upm =
  um_uriMap :: "(string, grant_info list) omap"
  um_policyMap :: "(string, grant_policy list) omap"
  um_tokens :: "int set"
  um_content :: "int set"

record upm_env =
  pe_createShareFile :: "string list \<Rightarrow> int \<Rightarrow> 32 word \<Rightarrow> int list option"
  pe_deleteShareFile :: "int \<Rightarrow> string list \<Rightarrow> int option"
  pe_setPolicy :: "policy list \<Rightarrow> bool \<Rightarrow> string \<Rightarrow> int \<Rightarrow> int \<Rightarrow> int list option"
  pe_unSetPolicy :: "int \<Rightarrow> string \<Rightarrow> int"
  pe_unSetAll :: "int \<Rightarrow> int"
  pe_contentGrant :: "string list \<Rightarrow> 32 word \<Rightarrow> int \<Rightarrow> string \<Rightarrow> int option"
  pe_contentRevoke :: "int \<Rightarrow> int option"
  pe_isFoundation :: bool
  pe_isUdmfOrPasteboard :: bool
  pe_callingToken :: int
  pe_bundleOf :: "int \<Rightarrow> string"
  pe_authority :: "string \<Rightarrow> string"
  pe_path :: "string \<Rightarrow> string"

definition EEXIST :: int where
  "EEXIST = 17"

definition FLAG_READ_URI :: "32 word" where
  "FLAG_READ_URI = 1"

definition FLAG_WRITE_URI :: "32 word" where
  "FLAG_WRITE_URI = 2"

definition FLAG_READ_WRITE_URI :: "32 word" where
  "FLAG_READ_WRITE_URI = FLAG_READ_URI OR FLAG_WRITE_URI"

definition FLAG_PERSIST_URI :: "32 word" where
  "FLAG_PERSIST_URI = 64"

text \<open>The codes of \<open>ability_manager_errors.h\<close> that the functions return; only that they are not \<open>ERR_OK\<close> matters.\<close>

record upm_codes =
  INNER_ERR :: int
  CHECK_PERMISSION_FAILED :: int
  ERR_PERMISSION_DENIED :: int
  ERR_NOT_SYSTEM_APP :: int
  ERR_CODE_INVALID_URI_FLAG :: int
  ERR_CODE_INVALID_URI_TYPE :: int
  ERR_CODE_GRANT_URI_PERMISSION :: int
  ERR_CAPABILITY_NOT_SUPPORT :: int
  ERR_LIST_OUT_OF_RANGE :: int
  ERR_GET_TARGET_BUNDLE_INFO_FAILED :: int
  DEAD_OBJECT_CODE :: int
  INVALID_PARAMETERS_CODE :: int

definition codes_ok :: "upm_codes \<Rightarrow> bool" where
  "codes_ok k \<longleftrightarrow> ERR_OK \<notin> {INNER_ERR k, CHECK_PERMISSION_FAILED k, ERR_PERMISSION_DENIED k, ERR_NOT_SYSTEM_APP k,
     ERR_CODE_INVALID_URI_FLAG k, ERR_CODE_INVALID_URI_TYPE k, ERR_CODE_GRANT_URI_PERMISSION k,
     ERR_CAPABILITY_NOT_SUPPORT k, ERR_LIST_OUT_OF_RANGE k, ERR_GET_TARGET_BUNDLE_INFO_FAILED k,
     DEAD_OBJECT_CODE k, INVALID_PARAMETERS_CODE k}"

lemma codes_okD:
  assumes "codes_ok k"
  shows "INNER_ERR k \<noteq> ERR_OK" "CHECK_PERMISSION_FAILED k \<noteq> ERR_OK" "ERR_PERMISSION_DENIED k \<noteq> ERR_OK"
    "ERR_NOT_SYSTEM_APP k \<noteq> ERR_OK" "ERR_CODE_INVALID_URI_FLAG k \<noteq> ERR_OK" "ERR_CODE_INVALID_URI_TYPE k \<noteq> ERR_OK"
    "ERR_CODE_GRANT_URI_PERMISSION k \<noteq> ERR_OK" "ERR_CAPABILITY_NOT_SUPPORT k \<noteq> ERR_OK" "ERR_LIST_OUT_OF_RANGE k \<noteq> ERR_OK"
    "ERR_GET_TARGET_BUNDLE_INFO_FAILED k \<noteq> ERR_OK" "DEAD_OBJECT_CODE k \<noteq> ERR_OK" "INVALID_PARAMETERS_CODE k \<noteq> ERR_OK"
  using assms unfolding codes_ok_def by auto

section \<open>Verification\<close>

definition DISTRIBUTED_DOCS_URI_MARK :: string where
  "DISTRIBUTED_DOCS_URI_MARK = ''?networkid=''"

fun str_find :: "string \<Rightarrow> string \<Rightarrow> nat option" where
  "str_find pat [] = (if pat = [] then Some 0 else None)"
| "str_find pat (c # cs) =
     (if take (length pat) (c # cs) = pat then Some 0 else map_option Suc (str_find pat cs))"

definition IsDistributedSubDirUri :: "string \<Rightarrow> string \<Rightarrow> bool" where
  "IsDistributedSubDirUri inputUri cachedUri =
     (case (str_find DISTRIBUTED_DOCS_URI_MARK inputUri, str_find DISTRIBUTED_DOCS_URI_MARK cachedUri) of
        (Some iPos, Some cPos) \<Rightarrow>
          str_find (take cPos cachedUri @ ''/'') (take iPos inputUri) = Some 0 \<and> drop iPos inputUri = drop cPos cachedUri
      | _ \<Rightarrow> False)"

definition grantCovers :: "32 word \<Rightarrow> int \<Rightarrow> grant_info \<Rightarrow> bool" where
  "grantCovers flag tokenId g \<longleftrightarrow> gi_target g = tokenId \<and> (gi_flag g OR FLAG_READ_URI) AND flag \<noteq> 0"

fun subDirLoop :: "string \<Rightarrow> 32 word \<Rightarrow> int \<Rightarrow> (string \<times> grant_info list) list \<Rightarrow> bool" where
  "subDirLoop uriStr newFlag tokenId [] = False"
| "subDirLoop uriStr newFlag tokenId ((key, list) # rest) =
     (if \<not> IsDistributedSubDirUri uriStr key then subDirLoop uriStr newFlag tokenId rest
      else \<exists>g\<in>set list. grantCovers newFlag tokenId g)"

definition VerifySubDirUriPermission :: "string \<Rightarrow> 32 word \<Rightarrow> int \<Rightarrow> upm \<Rightarrow> bool" where
  "VerifySubDirUriPermission uriStr newFlag tokenId s =
     (if str_find DISTRIBUTED_DOCS_URI_MARK uriStr = None then False
      else subDirLoop uriStr newFlag tokenId (rev (um_uriMap s)))"

definition VerifySingleUriPermissionByMap :: "string \<Rightarrow> 32 word \<Rightarrow> int \<Rightarrow> upm \<Rightarrow> bool" where
  "VerifySingleUriPermissionByMap uri flag tokenId s =
     ((case omap_find (um_uriMap s) uri of None \<Rightarrow> False | Some list \<Rightarrow> \<exists>g\<in>set list. grantCovers flag tokenId g) \<or>
      VerifySubDirUriPermission uri flag tokenId s)"

definition VerifyUriPermissionByMap :: "string list \<Rightarrow> 32 word \<Rightarrow> int \<Rightarrow> upm \<Rightarrow> bool list" where
  "VerifyUriPermissionByMap uriVec flag tokenId s =
     (let newFlag = (if flag AND FLAG_WRITE_URI \<noteq> 0 then FLAG_WRITE_URI else FLAG_READ_URI)
      in map (\<lambda>uri. VerifySingleUriPermissionByMap uri newFlag tokenId s) uriVec)"

section \<open>Grant\<close>

definition AddTempUriPermission :: "string \<Rightarrow> 32 word \<Rightarrow> int \<Rightarrow> int \<Rightarrow> upm \<Rightarrow> upm" where
  "AddTempUriPermission uri flag fromTokenId targetTokenId s =
     (let info = \<lparr>gi_flag = flag, gi_from = fromTokenId, gi_target = targetTokenId\<rparr>;
          same = (\<lambda>item. gi_from item = fromTokenId \<and> gi_target item = targetTokenId)
      in case omap_find (um_uriMap s) uri of
           None \<Rightarrow> s\<lparr>um_uriMap := omap_put uri [info] (um_uriMap s)\<rparr>
         | Some infoList \<Rightarrow>
             if \<exists>item\<in>set infoList. same item
             then s\<lparr>um_uriMap := omap_put uri
                     (update_first same (\<lambda>item. if gi_flag item AND flag \<noteq> flag
                                               then item\<lparr>gi_flag := gi_flag item OR flag\<rparr> else item) infoList) (um_uriMap s)\<rparr>
             else s\<lparr>um_uriMap := omap_put uri (infoList @ [info]) (um_uriMap s)\<rparr>)"

fun grantLoop :: "32 word \<Rightarrow> int \<Rightarrow> int \<Rightarrow> (string \<times> int) list \<Rightarrow> nat \<Rightarrow> upm \<Rightarrow> nat \<times> upm" where
  "grantLoop flag callerTokenId targetTokenId [] successCount s = (successCount, s)"
| "grantLoop flag callerTokenId targetTokenId ((uri, ret) # rest) successCount s =
     (if ret \<noteq> 0 \<and> ret \<noteq> - EEXIST \<and> successCount = 0
      then grantLoop flag callerTokenId targetTokenId rest successCount s
      else grantLoop flag callerTokenId targetTokenId rest (successCount + 1)
             (AddTempUriPermission uri flag callerTokenId targetTokenId s))"

definition GrantBatchUriPermissionImpl ::
  "upm_codes \<Rightarrow> upm_env \<Rightarrow> string list \<Rightarrow> 32 word \<Rightarrow> int \<Rightarrow> int \<Rightarrow> upm \<Rightarrow> int \<times> upm" where
  "GrantBatchUriPermissionImpl k ev uriVec flag callerTokenId targetTokenId s =
     (if uriVec = [] then (INNER_ERR k, s)
      else let flag = flag AND FLAG_READ_WRITE_URI in
      case pe_createShareFile ev uriVec targetTokenId flag of
        None \<Rightarrow> (INNER_ERR k, s)
      | Some resVec \<Rightarrow>
          if length resVec = 0 then (INNER_ERR k, s)
          else if length resVec \<noteq> length uriVec then (resVec ! 0, s)
          else let (successCount, s1) = grantLoop flag callerTokenId targetTokenId (zip uriVec resVec) 0 s in
               if successCount = 0 then (INNER_ERR k, s1)
               else (ERR_OK, s1\<lparr>um_tokens := insert targetTokenId (um_tokens s1)\<rparr>))"

definition AddPolicyRecordCache :: "upm_env \<Rightarrow> int \<Rightarrow> int \<Rightarrow> string \<Rightarrow> upm \<Rightarrow> upm" where
  "AddPolicyRecordCache ev callerTokenId targetTokenId path s =
     (let callerTokenId = (if pe_isUdmfOrPasteboard ev then pe_callingToken ev else callerTokenId);
          info = \<lparr>gp_caller = callerTokenId, gp_target = targetTokenId\<rparr>
      in case omap_find (um_policyMap s) path of
           None \<Rightarrow> s\<lparr>um_policyMap := omap_put path [info] (um_policyMap s)\<rparr>
         | Some l \<Rightarrow>
             if \<exists>p\<in>set l. gp_caller p = callerTokenId \<and> gp_target p = targetTokenId then s
             else s\<lparr>um_policyMap := omap_put path (l @ [info]) (um_policyMap s)\<rparr>)"

text \<open>
  \<open>SandboxManagerSetPolicy\<close> answers one code per policy, or fails (\<open>None\<close>: an error or a wrong number of codes).
  The sandbox manager gets the policies, whether they may be persisted, the granting bundle and its user,
  and the target token.
\<close>

definition SandboxManagerSetPolicy ::
  "upm_env \<Rightarrow> policy list \<Rightarrow> 32 word \<Rightarrow> fud_app \<Rightarrow> fud_app \<Rightarrow> int \<Rightarrow> int list option" where
  "SandboxManagerSetPolicy ev policyInfoVec flag callerInfo targetInfo userId =
     (if policyInfoVec = [] then None
      else case pe_setPolicy ev policyInfoVec (flag AND FLAG_PERSIST_URI \<noteq> 0) (fa_alterBundleName callerInfo) userId
                  (fa_tokenId targetInfo) of
             None \<Rightarrow> None
           | Some result \<Rightarrow> if length result \<noteq> length policyInfoVec then None else Some result)"

definition GrantBatchUriPermissionImplByPolicy ::
  "upm_codes \<Rightarrow> upm_env \<Rightarrow> policy list \<Rightarrow> 32 word \<Rightarrow> fud_app \<Rightarrow> fud_app \<Rightarrow> upm \<Rightarrow> int \<times> upm" where
  "GrantBatchUriPermissionImplByPolicy k ev policyInfoVec flag callerInfo targetInfo s =
     (if policyInfoVec = [] then (INNER_ERR k, s)
      else case SandboxManagerSetPolicy ev policyInfoVec flag callerInfo targetInfo (fa_userId callerInfo) of
        None \<Rightarrow> (INNER_ERR k, s)
      | Some result \<Rightarrow>
          let s1 = s\<lparr>um_tokens := insert (fa_tokenId targetInfo) (um_tokens s)\<rparr>;
              granted = map (pl_path \<circ> fst) (filter (\<lambda>e. snd e = ERR_OK) (zip policyInfoVec result));
              s2 = (if \<not> pe_isFoundation ev
                    then fold (AddPolicyRecordCache ev (fa_tokenId callerInfo) (fa_tokenId targetInfo)) granted s1 else s1)
          in if granted = [] then (INNER_ERR k, s2) else (ERR_OK, s2))"

definition GrantBatchUriPermissionImplByPolicyWithoutCache ::
  "upm_codes \<Rightarrow> upm_env \<Rightarrow> policy list \<Rightarrow> 32 word \<Rightarrow> fud_app \<Rightarrow> fud_app \<Rightarrow> upm \<Rightarrow> int \<times> upm" where
  "GrantBatchUriPermissionImplByPolicyWithoutCache k ev policyInfos flag callerInfo targetInfo s =
     (case SandboxManagerSetPolicy ev policyInfos flag callerInfo targetInfo (fa_userId callerInfo) of
        None \<Rightarrow> (INNER_ERR k, s)
      | Some result \<Rightarrow>
          let s1 = s\<lparr>um_tokens := insert (fa_tokenId targetInfo) (um_tokens s)\<rparr>
          in (case find (\<lambda>r. r \<noteq> ERR_OK) result of Some r \<Rightarrow> (r, s1) | None \<Rightarrow> (ERR_OK, s1)))"

definition GrantBatchContentUriPermissionImpl ::
  "upm_codes \<Rightarrow> upm_env \<Rightarrow> string list \<Rightarrow> 32 word \<Rightarrow> int \<Rightarrow> string \<Rightarrow> upm \<Rightarrow> int \<times> upm" where
  "GrantBatchContentUriPermissionImpl k ev contentUris flag targetTokenId targetBundleName s =
     (if contentUris = [] then (INNER_ERR k, s)
      else case pe_contentGrant ev contentUris flag targetTokenId targetBundleName of
        None \<Rightarrow> (INNER_ERR k, s)
      | Some ret \<Rightarrow> if ret \<noteq> ERR_OK then (ret, s) else (ERR_OK, s\<lparr>um_content := insert targetTokenId (um_content s)\<rparr>))"

section \<open>Revocation\<close>

type_synonym share_calls = "(int \<times> string list) list"

definition DeleteShareFile :: "upm_codes \<Rightarrow> upm_env \<Rightarrow> int \<Rightarrow> string list \<Rightarrow> int" where
  "DeleteShareFile k ev targetTokenId uriVec =
     (case pe_deleteShareFile ev targetTokenId uriVec of None \<Rightarrow> INNER_ERR k | Some ret \<Rightarrow> ret)"

definition nonempty :: "'a list \<Rightarrow> 'a list option" where
  "nonempty l = (if l = [] then None else Some l)"

definition RevokeMapUriPermission :: "int \<Rightarrow> upm \<Rightarrow> share_calls \<times> upm" where
  "RevokeMapUriPermission tokenId s =
     (let uriList = map fst (filter (\<lambda>e. \<exists>g\<in>set (snd e). gi_target g = tokenId) (um_uriMap s));
          s1 = s\<lparr>um_uriMap := omap_sweep (\<lambda>_ l. nonempty (filter (\<lambda>g. gi_target g \<noteq> tokenId) l)) (um_uriMap s)\<rparr>
      in (if uriList \<noteq> [] then [(tokenId, uriList)] else [], s1))"

definition RevokePolicyUriPermission :: "int \<Rightarrow> upm \<Rightarrow> upm" where
  "RevokePolicyUriPermission tokenId s =
     s\<lparr>um_policyMap := omap_sweep (\<lambda>_ l. nonempty (filter (\<lambda>p. gp_target p \<noteq> tokenId) l)) (um_policyMap s)\<rparr>"

definition RevokeAllPolicyUriPermissions :: "int \<Rightarrow> upm \<Rightarrow> upm" where
  "RevokeAllPolicyUriPermissions tokenId s =
     s\<lparr>um_policyMap := omap_sweep
         (\<lambda>_ l. nonempty (filter (\<lambda>p. \<not> (gp_caller p = tokenId \<or> gp_target p = tokenId)) l)) (um_policyMap s)\<rparr>"

definition addUri :: "int \<Rightarrow> string \<Rightarrow> (int, string list) omap \<Rightarrow> (int, string list) omap" where
  "addUri tokenId uri m = omap_put tokenId ((case omap_find m tokenId of None \<Rightarrow> [] | Some l \<Rightarrow> l) @ [uri]) m"

definition revokedBy :: "upm_env \<Rightarrow> int \<Rightarrow> string \<Rightarrow> grant_info \<Rightarrow> bool" where
  "revokedBy ev tokenId uri g \<longleftrightarrow>
     pe_bundleOf ev tokenId = pe_authority ev uri \<or> gi_target g = tokenId \<or> gi_from g = tokenId"

fun deleteLoop :: "upm_codes \<Rightarrow> upm_env \<Rightarrow> (int, string list) omap \<Rightarrow> int \<times> share_calls" where
  "deleteLoop k ev [] = (ERR_OK, [])"
| "deleteLoop k ev ((tokenId, uris) # rest) =
     (if DeleteShareFile k ev tokenId uris \<noteq> ERR_OK then (INNER_ERR k, [(tokenId, uris)])
      else let (ret, calls) = deleteLoop k ev rest in (ret, (tokenId, uris) # calls))"

definition RevokeAllMapUriPermissions :: "upm_codes \<Rightarrow> upm_env \<Rightarrow> int \<Rightarrow> upm \<Rightarrow> (int \<times> share_calls) \<times> upm" where
  "RevokeAllMapUriPermissions k ev tokenId s =
     (let uriLists = fold (\<lambda>(uri, l) m. fold (\<lambda>g m. addUri (gi_target g) uri m) (filter (revokedBy ev tokenId uri) l) m) (um_uriMap s) [];
          s1 = s\<lparr>um_uriMap := omap_sweep
                 (\<lambda>uri l. if pe_bundleOf ev tokenId = pe_authority ev uri then None
                          else nonempty (filter (\<lambda>g. \<not> (gi_target g = tokenId \<or> gi_from g = tokenId)) l)) (um_uriMap s)\<rparr>
      in (deleteLoop k ev uriLists, s1))"

definition RevokeContentUriPermission :: "upm_codes \<Rightarrow> upm_env \<Rightarrow> int \<Rightarrow> upm \<Rightarrow> int \<times> upm" where
  "RevokeContentUriPermission k ev tokenId s =
     (if tokenId \<notin> um_content s then (ERR_OK, s)
      else case pe_contentRevoke ev tokenId of
        None \<Rightarrow> (INNER_ERR k, s)
      | Some ret \<Rightarrow> (ret, s\<lparr>um_content := um_content s - {tokenId}\<rparr>))"

definition RevokeAllUriPermissions :: "upm_codes \<Rightarrow> upm_env \<Rightarrow> int \<Rightarrow> upm \<Rightarrow> int \<times> upm" where
  "RevokeAllUriPermissions k ev tokenId s =
     (if \<not> pe_isFoundation ev then (CHECK_PERMISSION_FAILED k, s)
      else let s1 = RevokeAllPolicyUriPermissions tokenId s;
               s2 = snd (RevokeAllMapUriPermissions k ev tokenId s1);
               s3 = snd (RevokeContentUriPermission k ev tokenId s2)
           in (ERR_OK, s3))"

definition RevokeMapUriPermissionManually ::
  "upm_codes \<Rightarrow> upm_env \<Rightarrow> int \<Rightarrow> int \<Rightarrow> string \<Rightarrow> upm \<Rightarrow> (int \<times> share_calls) \<times> upm" where
  "RevokeMapUriPermissionManually k ev callerTokenId targetTokenId uri s =
     (let isRevokeSelfUri = (callerTokenId = targetTokenId \<or> pe_bundleOf ev callerTokenId = pe_authority ev uri);
          hit = (\<lambda>g. gi_target g = targetTokenId \<and> (callerTokenId = gi_from g \<or> isRevokeSelfUri))
      in case omap_find (um_uriMap s) uri of
           None \<Rightarrow> ((ERR_OK, []), s)
         | Some l \<Rightarrow>
             let uriList = (if \<exists>g\<in>set l. hit g then [uri] else []);
                 l' = erase_first hit l;
                 s1 = s\<lparr>um_uriMap := (if l' = [] then omap_erase uri (um_uriMap s) else omap_put uri l' (um_uriMap s))\<rparr>
             in ((DeleteShareFile k ev targetTokenId uriList, [(targetTokenId, uriList)]), s1))"

definition RevokePolicyUriPermissionManually :: "upm_env \<Rightarrow> int \<Rightarrow> int \<Rightarrow> string \<Rightarrow> upm \<Rightarrow> int \<times> upm" where
  "RevokePolicyUriPermissionManually ev callerTokenId targetTokenId uri s =
     (let path = pe_path ev uri;
          hit = (\<lambda>p. targetTokenId = gp_target p \<and> (callerTokenId = gp_target p \<or> callerTokenId = gp_caller p))
      in case omap_find (um_policyMap s) path of
           None \<Rightarrow> (ERR_OK, s)
         | Some l \<Rightarrow>
             let l' = filter (\<lambda>p. \<not> hit p) l;
                 s1 = s\<lparr>um_policyMap := (if l' = [] then omap_erase path (um_policyMap s) else omap_put path l' (um_policyMap s))\<rparr>
             in if \<exists>p\<in>set l. hit p then (pe_unSetPolicy ev targetTokenId path, s1) else (ERR_OK, s1))"

definition RevokeFileUriPermission :: "upm_env \<Rightarrow> int \<Rightarrow> upm \<Rightarrow> (int \<times> share_calls) \<times> upm" where
  "RevokeFileUriPermission ev tokenId s =
     (if tokenId \<notin> um_tokens s then ((ERR_OK, []), s)
      else let (calls, s1) = RevokeMapUriPermission tokenId s;
               s2 = RevokePolicyUriPermission tokenId s1
           in if pe_unSetAll ev tokenId \<noteq> ERR_OK then ((pe_unSetAll ev tokenId, calls), s2)
              else ((ERR_OK, calls), s2\<lparr>um_tokens := um_tokens s2 - {tokenId}\<rparr>))"

definition ClearPermissionTokenByMap :: "upm_codes \<Rightarrow> upm_env \<Rightarrow> int \<Rightarrow> upm \<Rightarrow> (int \<times> share_calls) \<times> upm" where
  "ClearPermissionTokenByMap k ev tokenId s =
     (if \<not> pe_isFoundation ev then ((ERR_PERMISSION_DENIED k, []), s)
      else let s1 = snd (RevokeContentUriPermission k ev tokenId s);
               (r, s2) = RevokeFileUriPermission ev tokenId s1
           in ((ERR_OK, snd r), s2))"

section \<open>The record maps\<close>

text \<open>Both maps hold lists that are never empty; a missing key stands for the empty list.\<close>

definition listOf :: "(string, 'a list) omap \<Rightarrow> string \<Rightarrow> 'a list" where
  "listOf m k = (case omap_find m k of None \<Rightarrow> [] | Some l \<Rightarrow> l)"

definition listMap :: "('a \<Rightarrow> 'b) \<Rightarrow> ('a \<Rightarrow> bool) \<Rightarrow> (string, 'a list) omap \<Rightarrow> bool" where
  "listMap key p m \<longleftrightarrow> omap_inv m \<and>
     (\<forall>k l. omap_find m k = Some l \<longrightarrow> l \<noteq> [] \<and> distinct (map key l) \<and> (\<forall>x\<in>set l. p x))"

named_theorems list_map \<open>the record maps as functions to lists\<close>

lemma listMapD:
  assumes "listMap key p m"
  shows "omap_inv m" "distinct (map key (listOf m k))" "x \<in> set (listOf m k) \<Longrightarrow> p x"
    "omap_find m k = Some l \<Longrightarrow> l \<noteq> []" "omap_find m k = None \<longleftrightarrow> listOf m k = []"
  using assms unfolding listMap_def listOf_def by (cases "omap_find m k"; auto)+

lemma listMap_Nil: "listMap key p []"
  by (simp add: listMap_def)

lemma listMap_mono: "listMap key p m \<Longrightarrow> (\<And>x. p x \<Longrightarrow> q x) \<Longrightarrow> listMap key q m"
  by (auto simp: listMap_def)

lemma listOf_put [list_map]: "listMap key p m \<Longrightarrow> listOf (omap_put k l m) = (listOf m)(k := l)"
  by (auto simp: listMap_def listOf_def find_omap_put fun_eq_iff)

lemma listOf_erase [list_map]: "listOf (omap_erase k m) = (listOf m)(k := [])"
  by (auto simp: listOf_def find_omap_erase fun_eq_iff)

lemma listMap_put:
  "listMap key p m \<Longrightarrow> l \<noteq> [] \<Longrightarrow> distinct (map key l) \<Longrightarrow> (\<And>x. x \<in> set l \<Longrightarrow> p x) \<Longrightarrow> listMap key p (omap_put k l m)"
  by (auto simp: listMap_def omap_inv_put find_omap_put)

lemma listMap_erase: "listMap key p m \<Longrightarrow> listMap key p (omap_erase k m)"
  by (auto simp: listMap_def omap_inv_erase find_omap_erase)

lemma listOf_sweep [list_map]:
  assumes "listMap key p m"
  shows "listOf (omap_sweep (\<lambda>k l. if d k then None else nonempty (filter (q k) l)) m) =
    (\<lambda>k. if d k then [] else filter (q k) (listOf m k))"
proof
  fix k
  show "listOf (omap_sweep (\<lambda>k l. if d k then None else nonempty (filter (q k) l)) m) k =
      (if d k then [] else filter (q k) (listOf m k))"
    using find_omap_sweep [OF omap_inv_distinct [OF listMapD(1) [OF assms]]]
    by (cases "omap_find m k") (simp_all add: listOf_def nonempty_def)
qed

lemma listMap_sweep:
  assumes "listMap key p m"
  shows "listMap key (\<lambda>x. p x) (omap_sweep (\<lambda>k l. if d k then None else nonempty (filter (q k) l)) m)"
  unfolding listMap_def
proof (intro conjI allI impI ballI)
  note find = find_omap_sweep [OF omap_inv_distinct [OF listMapD(1) [OF assms]]]
  show "omap_inv (omap_sweep (\<lambda>k l. if d k then None else nonempty (filter (q k) l)) m)"
    using listMapD(1) [OF assms] by (rule omap_inv_sweep)
  fix k l assume "omap_find (omap_sweep (\<lambda>k l. if d k then None else nonempty (filter (q k) l)) m) k = Some l"
  then obtain l0 where l0: "omap_find m k = Some l0" "l = filter (q k) l0" "l \<noteq> []"
    by (auto simp: find nonempty_def split: option.splits if_splits)
  show "l \<noteq> []" by (rule l0(3))
  show "distinct (map key l)" using assms l0 by (auto simp: listMap_def distinct_map_filter)
  show "p x" if "x \<in> set l" for x using assms l0 that by (auto simp: listMap_def)
qed

text \<open>The sweeps without the test on the key, and a sweep after which no element has a property.\<close>

lemma sweep_filter: "omap_sweep (\<lambda>_ l. nonempty (filter q l)) m = omap_sweep (\<lambda>k l. if False then None else nonempty (filter q l)) m"
  by simp

lemma listMap_sweep_filter: "listMap key p m \<Longrightarrow> listMap key p (omap_sweep (\<lambda>_ l. nonempty (filter q l)) m)"
  unfolding sweep_filter by (rule listMap_sweep)

lemma listOf_sweep_filter [list_map]:
  "listMap key p m \<Longrightarrow> listOf (omap_sweep (\<lambda>_ l. nonempty (filter q l)) m) = (\<lambda>k. filter q (listOf m k))"
  unfolding sweep_filter by (subst listOf_sweep) auto

lemma listMap_strengthen:
  "listMap key p m \<Longrightarrow> (\<And>k x. x \<in> set (listOf m k) \<Longrightarrow> q x) \<Longrightarrow> listMap key q m"
  unfolding listMap_def listOf_def by (metis option.simps(5))

section \<open>The invariant\<close>

text \<open>
  Every token with a record in one of the maps is indexed in \<open>permissionTokenMap_\<close>; a grant is recorded
  once per URI, granting and target token.
\<close>

abbreviation uriMapOk :: "int set \<Rightarrow> (string, grant_info list) omap \<Rightarrow> bool" where
  "uriMapOk toks \<equiv> listMap (\<lambda>g. (gi_from g, gi_target g)) (\<lambda>g. gi_target g \<in> toks)"

abbreviation policyMapOk :: "int set \<Rightarrow> (string, grant_policy list) omap \<Rightarrow> bool" where
  "policyMapOk toks \<equiv> listMap (\<lambda>p. (gp_caller p, gp_target p)) (\<lambda>p. gp_target p \<in> toks)"

definition upm_inv :: "upm \<Rightarrow> bool" where
  "upm_inv s \<longleftrightarrow> uriMapOk (um_tokens s) (um_uriMap s) \<and> policyMapOk (um_tokens s) (um_policyMap s)"

abbreviation grantsOf :: "upm \<Rightarrow> string \<Rightarrow> grant_info list" where
  "grantsOf s \<equiv> listOf (um_uriMap s)"

abbreviation policiesOf :: "upm \<Rightarrow> string \<Rightarrow> grant_policy list" where
  "policiesOf s \<equiv> listOf (um_policyMap s)"

definition grantBits :: "upm \<Rightarrow> string \<Rightarrow> int \<Rightarrow> int \<Rightarrow> 32 word" where
  "grantBits s uri from target =
     (case find (\<lambda>g. gi_from g = from \<and> gi_target g = target) (grantsOf s uri) of None \<Rightarrow> 0 | Some g \<Rightarrow> gi_flag g)"

lemma uriMapOk_mono: "uriMapOk toks m \<Longrightarrow> toks \<subseteq> toks' \<Longrightarrow> uriMapOk toks' m"
  by (erule listMap_mono) auto

lemma policyMapOk_mono: "policyMapOk toks m \<Longrightarrow> toks \<subseteq> toks' \<Longrightarrow> policyMapOk toks' m"
  by (erule listMap_mono) auto

lemma or_absorb: "(a :: 32 word) AND b = b \<Longrightarrow> a OR b = a"
  by (simp add: bit_eq_iff bit_simps) blast

text \<open>The list that \<open>AddTempUriPermission\<close> leaves for the URI.\<close>

definition addGrant :: "32 word \<Rightarrow> int \<Rightarrow> int \<Rightarrow> grant_info list \<Rightarrow> grant_info list" where
  "addGrant flag from target l =
     (if \<exists>g\<in>set l. gi_from g = from \<and> gi_target g = target
      then update_first (\<lambda>g. gi_from g = from \<and> gi_target g = target) (\<lambda>g. g\<lparr>gi_flag := gi_flag g OR flag\<rparr>) l
      else l @ [\<lparr>gi_flag = flag, gi_from = from, gi_target = target\<rparr>])"

lemma AddTemp_list:
  "AddTempUriPermission uri flag from target s = s\<lparr>um_uriMap := omap_put uri (addGrant flag from target (grantsOf s uri)) (um_uriMap s)\<rparr>"
proof -
  have eq: "(\<lambda>item. if gi_flag item AND flag \<noteq> flag then item\<lparr>gi_flag := gi_flag item OR flag\<rparr> else item) =
      (\<lambda>g. g\<lparr>gi_flag := gi_flag g OR flag\<rparr>)"
    by (auto simp: fun_eq_iff or_absorb)
  show ?thesis
    unfolding AddTempUriPermission_def eq Let_def by (cases "omap_find (um_uriMap s) uri") (auto simp: addGrant_def listOf_def)
qed

lemma addGrant_not_Nil: "addGrant flag from target l \<noteq> []"
proof (cases "\<exists>g\<in>set l. gi_from g = from \<and> gi_target g = target")
  case True
  then have "length (addGrant flag from target l) > 0" by (auto simp: addGrant_def intro: length_pos_if_in_set)
  then show ?thesis by auto
qed (auto simp: addGrant_def)

lemma addGrant_keys:
  "map (\<lambda>g. (gi_from g, gi_target g)) (addGrant flag from target l) =
     map (\<lambda>g. (gi_from g, gi_target g)) l @ (if (from, target) \<in> (\<lambda>g. (gi_from g, gi_target g)) ` set l then [] else [(from, target)])"
proof (cases "\<exists>g\<in>set l. gi_from g = from \<and> gi_target g = target")
  case True
  have "map (\<lambda>g. (gi_from g, gi_target g)) (update_first (\<lambda>g. gi_from g = from \<and> gi_target g = target) (\<lambda>g. g\<lparr>gi_flag := gi_flag g OR flag\<rparr>) l) =
      map (\<lambda>g. (gi_from g, gi_target g)) l"
    by (rule map_update_first) simp
  with True show ?thesis by (auto simp: addGrant_def image_iff)
qed (auto simp: addGrant_def)

lemma addGrant_ok:
  assumes "uriMapOk toks m"
  shows "uriMapOk (insert target toks) (omap_put uri (addGrant flag from target (listOf m uri)) m)"
proof (rule listMap_put [OF uriMapOk_mono [OF assms subset_insertI] addGrant_not_Nil])
  show "distinct (map (\<lambda>g. (gi_from g, gi_target g)) (addGrant flag from target (listOf m uri)))"
    using listMapD(2) [OF assms, of uri] by (auto simp: addGrant_keys)
  fix g assume "g \<in> set (addGrant flag from target (listOf m uri))"
  then have "(gi_from g, gi_target g) \<in> set (map (\<lambda>g. (gi_from g, gi_target g)) (addGrant flag from target (listOf m uri)))" by auto
  then have "gi_target g = target \<or> (\<exists>h\<in>set (listOf m uri). gi_target h = gi_target g)"
    unfolding addGrant_keys by (auto split: if_splits)
  then show "gi_target g \<in> insert target toks" using listMapD(3) [OF assms, of _ uri] by (metis insertCI)
qed

lemma find_update_first:
  "find p (update_first p f l) = map_option f (find p l)" if "\<And>x. p x \<Longrightarrow> p (f x)"
  using that by (induction l) auto

lemma find_update_first_other:
  "find q (update_first p f l) = find q l" if "\<And>x. p x \<Longrightarrow> \<not> q x \<and> \<not> q (f x)"
  using that by (induction l) auto

lemma addGrant_bits:
  "(case find (\<lambda>g. gi_from g = f' \<and> gi_target g = t') (addGrant flag from target l) of None \<Rightarrow> 0 | Some g \<Rightarrow> gi_flag g) =
     (case find (\<lambda>g. gi_from g = f' \<and> gi_target g = t') l of None \<Rightarrow> 0 | Some g \<Rightarrow> gi_flag g) OR
     (if f' = from \<and> t' = target then flag else 0)"
proof (cases "f' = from \<and> t' = target")
  case True
  show ?thesis
  proof (cases "\<exists>g\<in>set l. gi_from g = from \<and> gi_target g = target")
    case hit: True
    then obtain g where "find (\<lambda>g. gi_from g = from \<and> gi_target g = target) l = Some g"
      by (cases "find (\<lambda>g. gi_from g = from \<and> gi_target g = target) l") (auto simp: find_None_conv)
    with True hit show ?thesis by (simp add: addGrant_def find_update_first)
  next
    case False
    then have "find (\<lambda>g. gi_from g = from \<and> gi_target g = target) l = None" by (auto simp: find_None_conv)
    moreover from this have "find (\<lambda>g. gi_from g = from \<and> gi_target g = target) (l @ [h]) = (if gi_from h = from \<and> gi_target h = target then Some h else None)" for h
      by (induction l) (auto split: if_splits)
    ultimately show ?thesis using True unfolding addGrant_def if_not_P [OF False] by simp
  qed
next
  case False
  have "find (\<lambda>g. gi_from g = f' \<and> gi_target g = t') (l @ [\<lparr>gi_flag = flag, gi_from = from, gi_target = target\<rparr>]) =
      find (\<lambda>g. gi_from g = f' \<and> gi_target g = t') l" using False by (induction l) auto
  moreover have "find (\<lambda>g. gi_from g = f' \<and> gi_target g = t') (update_first (\<lambda>g. gi_from g = from \<and> gi_target g = target) (\<lambda>g. g\<lparr>gi_flag := gi_flag g OR flag\<rparr>) l) =
      find (\<lambda>g. gi_from g = f' \<and> gi_target g = t') l" using False by (intro find_update_first_other) auto
  ultimately show ?thesis using False by (auto simp: addGrant_def)
qed


section \<open>Every operation keeps the invariant\<close>

lemma grantLoop_props:
  "uriMapOk (insert target (um_tokens s)) (um_uriMap s) \<Longrightarrow> grantLoop flag caller target us n s = (m, s') \<Longrightarrow>
     uriMapOk (insert target (um_tokens s)) (um_uriMap s') \<and> um_tokens s' = um_tokens s \<and>
     um_policyMap s' = um_policyMap s \<and> um_content s' = um_content s \<and> n \<le> m \<and>
     (m = n \<longrightarrow> s' = s)"
proof (induction us arbitrary: n s)
  case (Cons u us)
  obtain uri ret where u: "u = (uri, ret)" by (cases u)
  show ?case
  proof (cases "ret \<noteq> 0 \<and> ret \<noteq> - EEXIST \<and> n = 0")
    case True
    with Cons.prems u have "grantLoop flag caller target us n s = (m, s')" by simp
    then show ?thesis by (rule Cons.IH [OF Cons.prems(1)])
  next
    case False
    let ?s = "AddTempUriPermission uri flag caller target s"
    have s: "um_tokens ?s = um_tokens s" "um_policyMap ?s = um_policyMap s" "um_content ?s = um_content s" by (simp_all add: AddTemp_list)
    have "uriMapOk (insert target (um_tokens s)) (um_uriMap ?s)"
      using addGrant_ok [OF Cons.prems(1), of target uri flag caller] by (simp add: AddTemp_list)
    moreover have "grantLoop flag caller target us (n + 1) ?s = (m, s')" using Cons.prems(2) u False by simp
    ultimately show ?thesis using Cons.IH [of ?s "n + 1"] by (auto simp: s)
  qed
qed simp

lemma GrantBatch_inv:
  assumes "upm_inv s"
  shows "upm_inv (snd (GrantBatchUriPermissionImpl k ev uris flag caller target s))"
proof -
  have ok: "uriMapOk (insert target (um_tokens s)) (um_uriMap s)"
    using assms uriMapOk_mono [OF _ subset_insertI] unfolding upm_inv_def by blast
  have pol: "policyMapOk (insert target (um_tokens s)) (um_policyMap s)"
    using assms policyMapOk_mono [OF _ subset_insertI] unfolding upm_inv_def by blast
  show ?thesis
  proof (cases "pe_createShareFile ev uris target (flag AND FLAG_READ_WRITE_URI)")
    case (Some res)
    obtain m s' where l: "grantLoop (flag AND FLAG_READ_WRITE_URI) caller target (zip uris res) 0 s = (m, s')" by fastforce
    from grantLoop_props [OF ok l] assms Some l pol show ?thesis
      by (auto simp: GrantBatchUriPermissionImpl_def Let_def upm_inv_def)
  qed (use assms in \<open>simp add: GrantBatchUriPermissionImpl_def\<close>)
qed

lemma AddPolicy_ok:
  assumes "policyMapOk toks (um_policyMap s)" "target \<in> toks"
  shows "policyMapOk toks (um_policyMap (AddPolicyRecordCache ev caller target path s)) \<and>
    um_uriMap (AddPolicyRecordCache ev caller target path s) = um_uriMap s \<and>
    um_tokens (AddPolicyRecordCache ev caller target path s) = um_tokens s"
proof -
  define c where "c = (if pe_isUdmfOrPasteboard ev then pe_callingToken ev else caller)"
  let ?l = "listOf (um_policyMap s) path"
  show ?thesis
  proof (cases "\<exists>p\<in>set ?l. gp_caller p = c \<and> gp_target p = target")
    case True
    then show ?thesis using assms by (auto simp: AddPolicyRecordCache_def Let_def c_def listOf_def split: option.splits)
  next
    case False
    have "policyMapOk toks (omap_put path (?l @ [\<lparr>gp_caller = c, gp_target = target\<rparr>]) (um_policyMap s))"
    proof (rule listMap_put [OF assms(1)])
      show "distinct (map (\<lambda>p. (gp_caller p, gp_target p)) (?l @ [\<lparr>gp_caller = c, gp_target = target\<rparr>]))"
        using listMapD(2) [OF assms(1), of path] False by auto
      show "gp_target p \<in> toks" if "p \<in> set (?l @ [\<lparr>gp_caller = c, gp_target = target\<rparr>])" for p
        using that listMapD(3) [OF assms(1), of p path] assms(2) by auto
    qed simp
    then show ?thesis using False
      by (cases "omap_find (um_policyMap s) path") (auto simp: AddPolicyRecordCache_def Let_def c_def listOf_def)
  qed
qed

lemma AddPolicies_ok:
  "policyMapOk toks (um_policyMap s) \<Longrightarrow> target \<in> toks \<Longrightarrow>
     policyMapOk toks (um_policyMap (fold (AddPolicyRecordCache ev caller target) paths s)) \<and>
     um_uriMap (fold (AddPolicyRecordCache ev caller target) paths s) = um_uriMap s \<and>
     um_tokens (fold (AddPolicyRecordCache ev caller target) paths s) = um_tokens s"
  by (induction paths arbitrary: s) (simp_all add: AddPolicy_ok)

lemma upm_inv_token:
  "upm_inv s \<Longrightarrow> upm_inv (s\<lparr>um_tokens := insert tok (um_tokens s)\<rparr>)"
  using uriMapOk_mono [OF _ subset_insertI] policyMapOk_mono [OF _ subset_insertI] by (simp add: upm_inv_def del: insert_iff)

lemma GrantByPolicy_inv:
  assumes "upm_inv s"
  shows "upm_inv (snd (GrantBatchUriPermissionImplByPolicy k ev ps flag caller target s))"
proof (cases "SandboxManagerSetPolicy ev ps flag caller target (fa_userId caller)")
  case (Some res)
  let ?t = "fa_tokenId target"
  let ?s = "s\<lparr>um_tokens := insert ?t (um_tokens s)\<rparr>"
  have inv: "upm_inv ?s" using assms by (rule upm_inv_token)
  then have "upm_inv (fold (AddPolicyRecordCache ev (fa_tokenId caller) ?t) paths ?s)" for paths
    using AddPolicies_ok [of "insert ?t (um_tokens s)" ?s ?t ev "fa_tokenId caller" paths] by (simp add: upm_inv_def)
  with Some inv assms show ?thesis by (simp add: GrantBatchUriPermissionImplByPolicy_def Let_def)
qed (use assms in \<open>simp add: GrantBatchUriPermissionImplByPolicy_def\<close>)

lemma GrantWithoutCache_inv:
  "upm_inv s \<Longrightarrow> upm_inv (snd (GrantBatchUriPermissionImplByPolicyWithoutCache k ev ps flag caller target s))"
  by (simp add: GrantBatchUriPermissionImplByPolicyWithoutCache_def upm_inv_token Let_def split: option.split)

lemma GrantContent_inv: "upm_inv s \<Longrightarrow> upm_inv (snd (GrantBatchContentUriPermissionImpl k ev uris flag target name s))"
  by (simp add: GrantBatchContentUriPermissionImpl_def upm_inv_def split: option.split)

lemma RevokeContent_maps:
  "um_uriMap (snd (RevokeContentUriPermission k ev tok s)) = um_uriMap s"
  "um_policyMap (snd (RevokeContentUriPermission k ev tok s)) = um_policyMap s"
  "um_tokens (snd (RevokeContentUriPermission k ev tok s)) = um_tokens s"
  by (simp_all add: RevokeContentUriPermission_def split: option.split)

lemma RevokeAll_inv: "upm_inv s \<Longrightarrow> upm_inv (snd (RevokeAllUriPermissions k ev tok s))"
  by (simp add: RevokeAllUriPermissions_def RevokeContent_maps RevokeAllMapUriPermissions_def RevokeAllPolicyUriPermissions_def
      upm_inv_def Let_def listMap_sweep listMap_sweep_filter)

lemma RevokeMapManually_inv:
  assumes "upm_inv s"
  shows "upm_inv (snd (RevokeMapUriPermissionManually k ev caller target uri s))"
proof (cases "omap_find (um_uriMap s) uri")
  case (Some l)
  have ok: "uriMapOk (um_tokens s) (um_uriMap s)" using assms by (simp add: upm_inv_def)
  then have l: "listOf (um_uriMap s) uri = l" using Some by (simp add: listOf_def)
  have "uriMapOk (um_tokens s) (omap_put uri (erase_first p l) (um_uriMap s))" if "erase_first p l \<noteq> []" for p
    using listMapD(2) [OF ok, of uri] listMapD(3) [OF ok, of _ uri] l that
    by (intro listMap_put [OF ok]) (auto simp: distinct_map_erase_first dest: in_set_erase_firstD)
  with Some assms listMap_erase [OF ok] show ?thesis by (simp add: RevokeMapUriPermissionManually_def Let_def upm_inv_def)
qed (use assms in \<open>simp add: RevokeMapUriPermissionManually_def\<close>)

lemma RevokePolicyManually_inv:
  assumes "upm_inv s"
  shows "upm_inv (snd (RevokePolicyUriPermissionManually ev caller target uri s))"
proof (cases "omap_find (um_policyMap s) (pe_path ev uri)")
  case (Some l)
  have ok: "policyMapOk (um_tokens s) (um_policyMap s)" using assms by (simp add: upm_inv_def)
  then have l: "listOf (um_policyMap s) (pe_path ev uri) = l" using Some by (simp add: listOf_def)
  have "policyMapOk (um_tokens s) (omap_put (pe_path ev uri) (filter p l) (um_policyMap s))" if "filter p l \<noteq> []" for p
    using listMapD(2) [OF ok, of "pe_path ev uri"] listMapD(3) [OF ok, of _ "pe_path ev uri"] l that
    by (intro listMap_put [OF ok]) (auto simp: distinct_map_filter)
  from this this [of "\<lambda>_. True"] Some assms listMap_erase [OF ok] listMapD(4) [OF ok Some] show ?thesis
    by (simp add: RevokePolicyUriPermissionManually_def Let_def upm_inv_def)
qed (use assms in \<open>simp add: RevokePolicyUriPermissionManually_def\<close>)

lemma RevokeFile_maps:
  assumes "upm_inv s"
  shows "grantsOf (snd (RevokeFileUriPermission ev tok s)) uri = filter (\<lambda>g. gi_target g \<noteq> tok) (grantsOf s uri)"
    "policiesOf (snd (RevokeFileUriPermission ev tok s)) path = filter (\<lambda>p. gp_target p \<noteq> tok) (policiesOf s path)"
    "upm_inv (snd (RevokeFileUriPermission ev tok s))"
proof -
  have u: "uriMapOk (um_tokens s) (um_uriMap s)" and p: "policyMapOk (um_tokens s) (um_policyMap s)"
    using assms by (simp_all add: upm_inv_def)
  let ?m = "omap_sweep (\<lambda>_ l. nonempty (filter (\<lambda>g. gi_target g \<noteq> tok) l)) (um_uriMap s)"
  let ?q = "omap_sweep (\<lambda>_ l. nonempty (filter (\<lambda>p. gp_target p \<noteq> tok) l)) (um_policyMap s)"
  have *: "grantsOf (snd (RevokeFileUriPermission ev tok s)) uri = filter (\<lambda>g. gi_target g \<noteq> tok) (grantsOf s uri) \<and>
    policiesOf (snd (RevokeFileUriPermission ev tok s)) path = filter (\<lambda>p. gp_target p \<noteq> tok) (policiesOf s path) \<and>
    upm_inv (snd (RevokeFileUriPermission ev tok s))"
  proof (cases "tok \<in> um_tokens s")
    case True
    have "uriMapOk (um_tokens s - {tok}) ?m" "policyMapOk (um_tokens s - {tok}) ?q"
      using listMapD(3) [OF u] listMapD(3) [OF p]
      by (auto intro!: listMap_strengthen [OF listMap_sweep_filter [OF u]] listMap_strengthen [OF listMap_sweep_filter [OF p]]
          simp: listOf_sweep_filter [OF u] listOf_sweep_filter [OF p])
    with True assms u p show ?thesis
      by (simp add: RevokeFileUriPermission_def RevokeMapUriPermission_def RevokePolicyUriPermission_def Let_def upm_inv_def
          listOf_sweep_filter [OF u] listOf_sweep_filter [OF p] listMap_sweep_filter)
  next
    case False
    then have "\<forall>g\<in>set (grantsOf s uri). gi_target g \<noteq> tok" "\<forall>q\<in>set (policiesOf s path). gp_target q \<noteq> tok"
      using listMapD(3) [OF u] listMapD(3) [OF p] by blast+
    with False assms show ?thesis by (simp add: RevokeFileUriPermission_def filter_id_conv)
  qed
  then show "grantsOf (snd (RevokeFileUriPermission ev tok s)) uri = filter (\<lambda>g. gi_target g \<noteq> tok) (grantsOf s uri)"
    "policiesOf (snd (RevokeFileUriPermission ev tok s)) path = filter (\<lambda>p. gp_target p \<noteq> tok) (policiesOf s path)"
    "upm_inv (snd (RevokeFileUriPermission ev tok s))" by auto
qed

lemma upm_inv_content: "upm_inv (snd (RevokeContentUriPermission k ev tok s)) \<longleftrightarrow> upm_inv s"
  by (simp add: upm_inv_def RevokeContent_maps)

lemma Clear_inv: "upm_inv s \<Longrightarrow> upm_inv (snd (ClearPermissionTokenByMap k ev tok s))"
  using RevokeFile_maps(3) [of "snd (RevokeContentUriPermission k ev tok s)" ev tok]
  by (simp add: ClearPermissionTokenByMap_def case_prod_beta Let_def upm_inv_content)


section \<open>The initial state\<close>

definition upm_new :: "upm \<Rightarrow> bool" where
  "upm_new s \<longleftrightarrow> um_uriMap s = [] \<and> um_policyMap s = [] \<and> um_tokens s = {} \<and> um_content s = {}"

section \<open>Verification after an exit\<close>

lemma subDirLoop_False:
  "\<forall>e\<in>set es. \<not> (\<exists>g\<in>set (snd e). grantCovers flag tok g) \<Longrightarrow> \<not> subDirLoop uri flag tok es"
  by (induction es) (auto split: if_splits)

lemma verify_needs_grant:
  assumes "omap_inv (um_uriMap s)" "VerifySingleUriPermissionByMap uri flag tok s"
  shows "\<exists>key. \<exists>g\<in>set (grantsOf s key). grantCovers flag tok g"
proof (rule ccontr)
  assume *: "\<not> (\<exists>key. \<exists>g\<in>set (grantsOf s key). grantCovers flag tok g)"
  have "\<not> (\<exists>g\<in>set l. grantCovers flag tok g)" if "(key, l) \<in> set (um_uriMap s)" for key l
  proof -
    have "grantsOf s key = l"
      using omap_find_iff [OF assms(1), THEN iffD2, OF that] by (simp add: listOf_def)
    with * show ?thesis by metis
  qed
  then have "\<forall>e\<in>set (rev (um_uriMap s)). \<not> (\<exists>g\<in>set (snd e). grantCovers flag tok g)" by force
  then have "\<not> VerifySubDirUriPermission uri flag tok s"
    using subDirLoop_False [of "rev (um_uriMap s)" flag tok uri] by (auto simp: VerifySubDirUriPermission_def)
  moreover have "\<not> (\<exists>g\<in>set (grantsOf s uri). grantCovers flag tok g)" using * by blast
  ultimately show False using assms(2)
    by (simp add: VerifySingleUriPermissionByMap_def listOf_def split: option.splits)
qed

lemma Clear_maps:
  assumes "upm_inv s" "pe_isFoundation ev"
  shows "grantsOf (snd (ClearPermissionTokenByMap k ev tok s)) uri = filter (\<lambda>g. gi_target g \<noteq> tok) (grantsOf s uri)"
    "policiesOf (snd (ClearPermissionTokenByMap k ev tok s)) path = filter (\<lambda>p. gp_target p \<noteq> tok) (policiesOf s path)"
  using RevokeFile_maps [of "snd (RevokeContentUriPermission k ev tok s)" ev tok] assms
  by (simp_all add: ClearPermissionTokenByMap_def case_prod_beta Let_def upm_inv_content RevokeContent_maps)

lemma grantBits_AddTemp:
  assumes "uriMapOk toks (um_uriMap s)"
  shows "grantBits (AddTempUriPermission uri flag from target s) u f t =
    grantBits s u f t OR (if u = uri \<and> f = from \<and> t = target then flag else 0)"
proof -
  have g: "grantsOf (AddTempUriPermission uri flag from target s) = (grantsOf s)(uri := addGrant flag from target (grantsOf s uri))"
    by (simp add: AddTemp_list listOf_put [OF assms])
  show ?thesis
  proof (cases "u = uri")
    case True
    then show ?thesis unfolding grantBits_def g fun_upd_apply using addGrant_bits [of f t flag "from" target "grantsOf s uri"] by simp
  qed (simp add: grantBits_def g)
qed

text \<open>The loop grants everything from the first code that is not a failure on.\<close>

abbreviation failed :: "string \<times> int \<Rightarrow> bool" where
  "failed e \<equiv> snd e \<noteq> 0 \<and> snd e \<noteq> - EEXIST"

lemma grantLoop_bits:
  assumes "uriMapOk (insert target (um_tokens s)) (um_uriMap s)" "grantLoop flag caller target us n s = (m, s')"
  shows "m = n + length (if n = 0 then dropWhile failed us else us) \<and>
    grantBits s' u f t = grantBits s u f t OR
      (if u \<in> fst ` set (if n = 0 then dropWhile failed us else us) \<and> f = caller \<and> t = target then flag else 0)"
  using assms
proof (induction us arbitrary: n s)
  case (Cons e us)
  obtain uri ret where e: "e = (uri, ret)" by (cases e)
  show ?case
  proof (cases "failed e \<and> n = 0")
    case True
    with Cons.prems(2) e have "grantLoop flag caller target us n s = (m, s')" by simp
    from Cons.IH [OF Cons.prems(1) this] True show ?thesis by simp
  next
    case False
    let ?s = "AddTempUriPermission uri flag caller target s"
    have "uriMapOk (insert target (um_tokens ?s)) (um_uriMap ?s)"
      using addGrant_ok [OF Cons.prems(1), of target uri flag caller] by (simp add: AddTemp_list)
    moreover have "grantLoop flag caller target us (n + 1) ?s = (m, s')" using Cons.prems(2) e False by auto
    ultimately show ?thesis
      using Cons.IH [of ?s "n + 1"] False e by (auto simp: grantBits_AddTemp [OF Cons.prems(1)] or.assoc)
  qed
qed simp

section \<open>Properties\<close>

definition exEnv :: upm_env where
  "exEnv = \<lparr>pe_createShareFile = (\<lambda>us _ _. Some (replicate (length us) 0)), pe_deleteShareFile = (\<lambda>_ _. Some 0),
     pe_setPolicy = (\<lambda>ps _ _ _ _. Some (replicate (length ps) 0)), pe_unSetPolicy = (\<lambda>_ _. 0), pe_unSetAll = (\<lambda>_. 0),
     pe_contentGrant = (\<lambda>_ _ _ _. Some 0), pe_contentRevoke = (\<lambda>_. Some 0), pe_isFoundation = True,
     pe_isUdmfOrPasteboard = False, pe_callingToken = 1, pe_bundleOf = (\<lambda>_. ''app''), pe_authority = (\<lambda>_. ''docs''),
     pe_path = (\<lambda>u. u)\<rparr>"

definition exCodes :: upm_codes where
  "exCodes = \<lparr>INNER_ERR = 22, CHECK_PERMISSION_FAILED = 23, ERR_PERMISSION_DENIED = 1, ERR_NOT_SYSTEM_APP = 24,
     ERR_CODE_INVALID_URI_FLAG = 25, ERR_CODE_INVALID_URI_TYPE = 26, ERR_CODE_GRANT_URI_PERMISSION = 27,
     ERR_CAPABILITY_NOT_SUPPORT = 28, ERR_LIST_OUT_OF_RANGE = 29, ERR_GET_TARGET_BUNDLE_INFO_FAILED = 30,
     DEAD_OBJECT_CODE = 31, INVALID_PARAMETERS_CODE = 32\<rparr>"

definition exUpm :: upm where
  "exUpm = \<lparr>um_uriMap = [], um_policyMap = [], um_tokens = {}, um_content = {}\<rparr>"

text \<open>
  C5: \<open>GrantBatchUriPermissionImpl\<close> ors the requested read and write bits into the grant of exactly the caller and
  the target, for every URI from the first one whose code from the storage manager is success or
  \<open>-EEXIST\<close> on.  A failure code after that first success does not keep the URI out: the guard of the loop
  stops skipping once one URI was counted.  The call succeeds iff some URI has such a code.
\<close>

theorem GrantBatchUriPermissionImpl_exact:
  assumes "upm_inv s" "uris \<noteq> []" "INNER_ERR k \<noteq> ERR_OK"
    and "pe_createShareFile ev uris target (flag AND FLAG_READ_WRITE_URI) = Some res" "length res = length uris"
  shows "let (ret, s') = GrantBatchUriPermissionImpl k ev uris flag caller target s;
             granted = map fst (dropWhile failed (zip uris res))
    in (ret = ERR_OK \<longleftrightarrow> (\<exists>r\<in>set res. r = 0 \<or> r = - EEXIST)) \<and>
       grantBits s' u f t = grantBits s u f t OR
         (if u \<in> set granted \<and> f = caller \<and> t = target then flag AND FLAG_READ_WRITE_URI else 0)"
proof -
  have ok: "uriMapOk (insert target (um_tokens s)) (um_uriMap s)"
    using assms(1) uriMapOk_mono [OF _ subset_insertI] unfolding upm_inv_def by blast
  obtain m s1 where l: "grantLoop (flag AND FLAG_READ_WRITE_URI) caller target (zip uris res) 0 s = (m, s1)" by fastforce
  have "m = 0 \<longleftrightarrow> (\<forall>e\<in>set (zip uris res). failed e)"
    using grantLoop_bits [OF ok l] by (simp add: dropWhile_eq_Nil_conv)
  also have "\<dots> \<longleftrightarrow> (\<forall>r\<in>set (map snd (zip uris res)). r \<noteq> 0 \<and> r \<noteq> - EEXIST)" by auto
  also have "map snd (zip uris res) = res" using assms(5) by simp
  finally have m: "m = 0 \<longleftrightarrow> \<not> (\<exists>r\<in>set res. r = 0 \<or> r = - EEXIST)" by blast
  have b: "grantBits (s1\<lparr>um_tokens := T\<rparr>) u f t = grantBits s1 u f t" for T by (simp add: grantBits_def)
  have "length res \<noteq> 0" using assms(2,5) by simp
  with assms l have eq: "GrantBatchUriPermissionImpl k ev uris flag caller target s =
      (if m = 0 then (INNER_ERR k, s1) else (ERR_OK, s1\<lparr>um_tokens := insert target (um_tokens s1)\<rparr>))"
    by (simp add: GrantBatchUriPermissionImpl_def Let_def)
  show ?thesis
    unfolding eq using grantLoop_bits [OF ok l, of u f t] m assms(3) by (cases "m = 0") (simp_all add: b Let_def)
qed

theorem GrantBatchUriPermissionImpl_exact_witness:
  "let ev = exEnv\<lparr>pe_createShareFile := (\<lambda>_ _ _. Some [5, 0, 5])\<rparr>;
       (ret, s') = GrantBatchUriPermissionImpl exCodes ev [''a'', ''b'', ''c''] 2 1 9 exUpm
   in ret = ERR_OK \<and> grantBits s' ''a'' 1 9 = 0 \<and> grantBits s' ''b'' 1 9 = 2 \<and> grantBits s' ''c'' 1 9 = 2"
proof -
  let ?ev = "exEnv\<lparr>pe_createShareFile := (\<lambda>_ _ _. Some [5, 0, 5])\<rparr>"
  have r: "upm_inv exUpm" by (simp add: upm_inv_def exUpm_def listMap_Nil)
  have k: "INNER_ERR exCodes \<noteq> ERR_OK" by (simp add: exCodes_def ERR_OK_def)
  have c: "pe_createShareFile ?ev [''a'', ''b'', ''c''] 9 (2 AND FLAG_READ_WRITE_URI) = Some [5, 0, 5]" by simp
  have z: "grantBits exUpm u f t = 0" for u f t by (simp add: grantBits_def exUpm_def listOf_def)
  have w: "2 AND FLAG_READ_WRITE_URI = 2" by code_simp
  note exact = GrantBatchUriPermissionImpl_exact [OF r _ k c, of 1]
  from exact [of "''a''" 1 9] exact [of "''b''" 1 9] exact [of "''c''" 1 9] show ?thesis
    by (simp add: z w EEXIST_def Let_def case_prod_beta)
qed

text \<open>
  \<open>VerifySubDirUriPermission\<close> stops at the greatest key that is an ancestor of the URI, which is the outermost
  one because \<open>?\<close> sorts after \<open>/\<close>.  A grant to another application on an outer directory therefore takes away
  the access that a grant on an inner directory gave.
\<close>

theorem VerifySubDirUriPermission_shadowed:
  "let dir = ''file://docs/a/b?networkid=1''; outer = ''file://docs/a?networkid=1''; uri = ''file://docs/a/b/c?networkid=1'';
       s1 = snd (GrantBatchUriPermissionImpl exCodes exEnv [dir] 1 1 2 exUpm);
       s2 = snd (GrantBatchUriPermissionImpl exCodes exEnv [outer] 1 1 3 s1)
   in VerifyUriPermissionByMap [uri] 1 2 s1 = [True] \<and> VerifyUriPermissionByMap [uri] 1 2 s2 = [False] \<and>
      VerifyUriPermissionByMap [dir] 1 2 s2 = [True]"
  by code_simp

text \<open>
  Revoking by hand as the owner of the URI removes only the first grant of the target, and the share file is
  deleted: a grant that the same target has from another application stays recorded and is still verified.
\<close>

theorem RevokeMapUriPermissionManually_leaves_grant:
  "let ev = exEnv\<lparr>pe_authority := (\<lambda>_. ''app'')\<rparr>;
       s1 = snd (GrantBatchUriPermissionImpl exCodes ev [''a''] 1 1 2 exUpm);
       s2 = snd (GrantBatchUriPermissionImpl exCodes ev [''a''] 1 5 2 s1);
       (r, s3) = RevokeMapUriPermissionManually exCodes ev 1 2 ''a'' s2
   in r = (ERR_OK, [(2, [''a''])]) \<and> VerifyUriPermissionByMap [''a''] 1 2 s3 = [True]"
  by code_simp

end
