(* ===== verification/Batch_Uri.thy ===== *)
theory Batch_Uri
  imports Uri_Permission
begin

text \<open>
  \<open>services/uripermmgr/src/batch_uri.cpp\<close>, \<open>file_permission_manager.cpp\<close>, \<open>media_permission_manager.cpp\<close> and the checks of
  \<open>uri_permission_manager_stub_impl.cpp\<close> that decide which URIs of a request the granting application may share.

  \<open>BatchUri\<close> splits a request by scheme and authority into media, content and other (docs and bundle) URIs,
  remembering for each group the positions in the request; the answers of the checks come back as one
  vector per group and are scattered to \<open>checkResult\<close>.  Reading a vector out of range is the fault
  \<open>OutOfRange\<close>.  Positions and counters are \<open>nat\<close>: a request has at most \<open>MAX_URI_COUNT\<close> URIs.

  The class \<open>Uri\<close>, the real path of a file URI, the access token kit, the sandbox manager, the media
  library, the collaborator and the library \<open>libams_broker_ext\<close> are answered by the record \<open>uri_env\<close>.
\<close>

section \<open>Data\<close>

record uri =
  uri_str :: string
  uri_scheme :: string
  uri_authority :: string

record check_result =
  cr_result :: bool
  cr_permissionType :: int

record batch_uri =
  bu_mediaUris :: "string list"
  bu_mediaIndexes :: "nat list"
  bu_otherUris :: "uri list"
  bu_otherIndexes :: "nat list"
  bu_otherPolicyInfos :: "policy list"
  bu_contentUris :: "string list"
  bu_contentIndexes :: "nat list"
  bu_selfBundlePolicyInfos :: "policy list"
  bu_proxyIndexesByPolicy :: "nat list"
  bu_checkResult :: "check_result list"
  bu_isDocsUriVec :: "bool list"
  bu_targetBundleUriCount :: nat
  bu_isTargetBundleUri :: "bool list"
  bu_validUriCount :: nat
  bu_totalUriCount :: nat

datatype perm =
  PERMISSION_PROXY_AUTHORIZATION_URI | PERMISSION_AGENT_FILE_ACCESS | PERMISSION_FILE_ACCESS_MANAGER |
  PERMISSION_READ_WRITE_DOWNLOAD | PERMISSION_READ_WRITE_DESKTOP | PERMISSION_READ_WRITE_DOCUMENTS |
  PERMISSION_SANDBOX_ACCESS_MANAGER | PERMISSION_GRANT_URI_PERMISSION_PRIVILEGED |
  PERMISSION_GRANT_URI_PERMISSION_AS_CALLER | PERMISSION_FILE_ACCESS_PERSIST

record uri_env =
  ue_parse :: "string \<Rightarrow> uri"
  ue_realPath :: "string \<Rightarrow> string"
  ue_permission :: "int \<Rightarrow> perm \<Rightarrow> bool"
  ue_requested :: "int \<Rightarrow> perm \<Rightarrow> bool"
  ue_isSystemApp :: "int \<Rightarrow> bool"
  ue_collaboratorCheck :: "(string \<Rightarrow> int \<Rightarrow> int) option"
  ue_checkPersistPolicy :: "int \<Rightarrow> policy list \<Rightarrow> int \<times> bool list"
  ue_checkPolicy :: "int \<Rightarrow> policy list \<Rightarrow> int \<times> bool list"
  ue_checkPhoto :: "(int \<Rightarrow> string list \<Rightarrow> 32 word \<Rightarrow> int \<times> bool list) option"
  ue_contentVerify :: "(string list \<Rightarrow> 32 word \<Rightarrow> int \<Rightarrow> int \<times> bool list) option"

definition SELF_PATH :: int where
  "SELF_PATH = 1"

definition AUTHORIZATION_PATH :: int where
  "AUTHORIZATION_PATH = 2"

definition FILE_SCHEME :: string where
  "FILE_SCHEME = ''file''"

definition ANCO_SCHEME :: string where
  "ANCO_SCHEME = ''content''"

definition DOCS_AUTHORITY :: string where
  "DOCS_AUTHORITY = ''docs''"

definition MEDIA_AUTHORITY :: string where
  "MEDIA_AUTHORITY = ''media''"

definition emptyBatch :: batch_uri where
  "emptyBatch = \<lparr>bu_mediaUris = [], bu_mediaIndexes = [], bu_otherUris = [], bu_otherIndexes = [], bu_otherPolicyInfos = [],
     bu_contentUris = [], bu_contentIndexes = [], bu_selfBundlePolicyInfos = [], bu_proxyIndexesByPolicy = [],
     bu_checkResult = [], bu_isDocsUriVec = [], bu_targetBundleUriCount = 0, bu_isTargetBundleUri = [],
     bu_validUriCount = 0, bu_totalUriCount = 0\<rparr>"

section \<open>Splitting a request\<close>

definition GetPathPolicyInfoFromUri :: "uri_env \<Rightarrow> uri \<Rightarrow> 32 word \<Rightarrow> policy" where
  "GetPathPolicyInfoFromUri ev u flag = \<lparr>pl_path = ue_realPath ev (uri_str u), pl_mode = flag AND (1 OR 2), pl_type = 0\<rparr>"

definition InitFileUriInfo ::
  "uri_env \<Rightarrow> uri \<Rightarrow> nat \<Rightarrow> 32 word \<Rightarrow> string \<Rightarrow> string \<Rightarrow> bool \<Rightarrow> batch_uri \<Rightarrow> batch_uri" where
  "InitFileUriInfo ev uriInner index mode callerAlterBundleName targetAlterBundleName haveSandboxAccessPermission b =
     (let authority = uri_authority uriInner in
      if authority = MEDIA_AUTHORITY
      then b\<lparr>bu_mediaUris := bu_mediaUris b @ [uri_str uriInner], bu_mediaIndexes := bu_mediaIndexes b @ [index]\<rparr>
      else if authority = DOCS_AUTHORITY
      then b\<lparr>bu_isDocsUriVec := (bu_isDocsUriVec b)[index := True],
             bu_otherUris := bu_otherUris b @ [uriInner], bu_otherIndexes := bu_otherIndexes b @ [index]\<rparr>
      else
      let isTarget = (targetAlterBundleName \<noteq> '''' \<and> authority = targetAlterBundleName);
          b1 = b\<lparr>bu_isTargetBundleUri := (bu_isTargetBundleUri b)[index := isTarget]\<rparr> in
      if authority \<noteq> '''' \<and> (haveSandboxAccessPermission \<or> authority = callerAlterBundleName) then
        let old = bu_checkResult b1 ! index;
            typ = (if authority = callerAlterBundleName then SELF_PATH else cr_permissionType old);
            b2 = b1\<lparr>bu_checkResult := (bu_checkResult b1)[index := \<lparr>cr_result = True, cr_permissionType = typ\<rparr>]\<rparr> in
        if isTarget then b2\<lparr>bu_targetBundleUriCount := bu_targetBundleUriCount b2 + 1\<rparr>
        else if mode > 0
        then b2\<lparr>bu_selfBundlePolicyInfos :=
                 bu_selfBundlePolicyInfos b2 @ [(GetPathPolicyInfoFromUri ev uriInner mode)\<lparr>pl_type := typ\<rparr>]\<rparr>
        else b2
      else b1\<lparr>bu_otherUris := bu_otherUris b1 @ [uriInner], bu_otherIndexes := bu_otherIndexes b1 @ [index]\<rparr>)"

definition InitUri ::
  "uri_env \<Rightarrow> 32 word \<Rightarrow> string \<Rightarrow> string \<Rightarrow> bool \<Rightarrow> nat \<Rightarrow> string \<Rightarrow> batch_uri \<Rightarrow> batch_uri" where
  "InitUri ev mode callerName targetName haveSandbox index str b =
     (let uriInner = ue_parse ev str; scheme = uri_scheme uriInner in
      if scheme \<noteq> FILE_SCHEME \<and> scheme \<noteq> ANCO_SCHEME then b
      else
      let b1 = b\<lparr>bu_validUriCount := bu_validUriCount b + 1\<rparr> in
      if scheme = ANCO_SCHEME
      then b1\<lparr>bu_contentUris := bu_contentUris b1 @ [uri_str uriInner], bu_contentIndexes := bu_contentIndexes b1 @ [index]\<rparr>
      else InitFileUriInfo ev uriInner index mode callerName targetName haveSandbox b1)"

fun initLoop ::
  "uri_env \<Rightarrow> 32 word \<Rightarrow> string \<Rightarrow> string \<Rightarrow> bool \<Rightarrow> nat \<Rightarrow> string list \<Rightarrow> batch_uri \<Rightarrow> batch_uri" where
  "initLoop ev mode callerName targetName haveSandbox index [] b = b"
| "initLoop ev mode callerName targetName haveSandbox index (str # uris) b =
     initLoop ev mode callerName targetName haveSandbox (index + 1) uris
       (InitUri ev mode callerName targetName haveSandbox index str b)"

definition bu_Init :: "uri_env \<Rightarrow> string list \<Rightarrow> 32 word \<Rightarrow> string \<Rightarrow> string \<Rightarrow> bool \<Rightarrow> batch_uri \<Rightarrow> nat \<times> batch_uri" where
  "bu_Init ev uriVec mode callerName targetName haveSandbox b =
     (if uriVec = [] then (0, b)
      else
      let n = length uriVec;
          b1 = b\<lparr>bu_totalUriCount := n, bu_validUriCount := 0,
                 bu_checkResult := replicate n \<lparr>cr_result = False, cr_permissionType = 0\<rparr>,
                 bu_isDocsUriVec := replicate n False, bu_isTargetBundleUri := replicate n False\<rparr>;
          b2 = initLoop ev mode callerName targetName haveSandbox 0 uriVec b1
      in (bu_validUriCount b2, b2))"

section \<open>Scattering the answers\<close>

text \<open>Each loop walks the answers and the positions together; a missing position or one outside \<open>checkResult\<close> is a fault.\<close>

definition setResult :: "bool \<Rightarrow> check_result \<Rightarrow> check_result" where
  "setResult r c = c\<lparr>cr_result := r\<rparr>"

fun SetMediaUriCheckResult :: "bool list \<Rightarrow> nat list \<Rightarrow> batch_uri \<Rightarrow> batch_uri cpp" where
  "SetMediaUriCheckResult [] idx b = Inr b"
| "SetMediaUriCheckResult (r # rs) [] b = Inl OutOfRange"
| "SetMediaUriCheckResult (r # rs) (i # idx) b =
     (if i < length (bu_checkResult b)
      then SetMediaUriCheckResult rs idx (b\<lparr>bu_checkResult := (bu_checkResult b)[i := setResult r (bu_checkResult b ! i)]\<rparr>)
      else Inl OutOfRange)"

fun SetOtherUriCheckResult :: "bool list \<Rightarrow> nat list \<Rightarrow> batch_uri \<Rightarrow> batch_uri cpp" where
  "SetOtherUriCheckResult [] idx b = Inr b"
| "SetOtherUriCheckResult (r # rs) [] b = Inl OutOfRange"
| "SetOtherUriCheckResult (r # rs) (i # idx) b =
     (if i < length (bu_checkResult b) \<and> (r \<longrightarrow> i < length (bu_isTargetBundleUri b))
      then SetOtherUriCheckResult rs idx
             (b\<lparr>bu_checkResult := (bu_checkResult b)[i := setResult r (bu_checkResult b ! i)],
                bu_targetBundleUriCount := (if r \<and> bu_isTargetBundleUri b ! i then bu_targetBundleUriCount b + 1 else bu_targetBundleUriCount b)\<rparr>)
      else Inl OutOfRange)"

fun needProxyLoop :: "nat list \<Rightarrow> policy list \<Rightarrow> batch_uri \<Rightarrow> (nat list \<times> policy list) cpp" where
  "needProxyLoop [] ps b = Inr ([], [])"
| "needProxyLoop (i # idx) ps b =
     (if i \<ge> length (bu_checkResult b) then Inl OutOfRange
      else if cr_result (bu_checkResult b ! i) then needProxyLoop idx (tl ps) b
      else case ps of
             [] \<Rightarrow> Inl OutOfRange
           | p # ps' \<Rightarrow> cpp_bind (needProxyLoop idx ps' b) (\<lambda>(is, qs). Inr (i # is, p # qs)))"

definition GetNeedCheckProxyPermissionURI :: "batch_uri \<Rightarrow> (policy list \<times> batch_uri) cpp" where
  "GetNeedCheckProxyPermissionURI b =
     cpp_bind (needProxyLoop (bu_otherIndexes b) (bu_otherPolicyInfos b) b)
       (\<lambda>(is, ps). Inr (ps, b\<lparr>bu_proxyIndexesByPolicy := bu_proxyIndexesByPolicy b @ is\<rparr>))"

definition setAuthorized :: "bool \<Rightarrow> check_result \<Rightarrow> check_result" where
  "setAuthorized r c = (if r then \<lparr>cr_result = True, cr_permissionType = AUTHORIZATION_PATH\<rparr> else c\<lparr>cr_result := False\<rparr>)"

fun proxyLoop :: "bool list \<Rightarrow> nat list \<Rightarrow> batch_uri \<Rightarrow> batch_uri cpp" where
  "proxyLoop [] idx b = Inr b"
| "proxyLoop (r # rs) [] b = Inl OutOfRange"
| "proxyLoop (r # rs) (i # idx) b =
     (if i < length (bu_checkResult b) \<and> (r \<longrightarrow> i < length (bu_isTargetBundleUri b))
      then proxyLoop rs idx
             (b\<lparr>bu_checkResult := (bu_checkResult b)[i := setAuthorized r (bu_checkResult b ! i)],
                bu_targetBundleUriCount := (if r \<and> bu_isTargetBundleUri b ! i then bu_targetBundleUriCount b + 1 else bu_targetBundleUriCount b)\<rparr>)
      else Inl OutOfRange)"

definition SetCheckProxyByPolicyResult :: "bool list \<Rightarrow> batch_uri \<Rightarrow> (bool \<times> batch_uri) cpp" where
  "SetCheckProxyByPolicyResult proxyResultByPolicy b =
     (if length proxyResultByPolicy \<noteq> length (bu_proxyIndexesByPolicy b) then Inr (False, b)
      else cpp_bind (proxyLoop proxyResultByPolicy (bu_proxyIndexesByPolicy b) b)
             (\<lambda>b1. Inr (True, b1\<lparr>bu_proxyIndexesByPolicy := []\<rparr>)))"

fun contentLoop :: "bool list \<Rightarrow> nat list \<Rightarrow> batch_uri \<Rightarrow> batch_uri cpp" where
  "contentLoop [] idx b = Inr b"
| "contentLoop (r # rs) [] b = Inl OutOfRange"
| "contentLoop (r # rs) (i # idx) b =
     (if i < length (bu_checkResult b)
      then contentLoop rs idx (b\<lparr>bu_checkResult := (bu_checkResult b)[i := setAuthorized r (bu_checkResult b ! i)]\<rparr>)
      else Inl OutOfRange)"

definition SetCheckProxyByContentUriResult :: "bool list \<Rightarrow> batch_uri \<Rightarrow> (bool \<times> batch_uri) cpp" where
  "SetCheckProxyByContentUriResult contentUriResult b =
     (if length contentUriResult \<noteq> length (bu_contentIndexes b) then Inr (False, b)
      else cpp_bind (contentLoop contentUriResult (bu_contentIndexes b) b) (\<lambda>b1. Inr (True, b1)))"

section \<open>Reading the results\<close>

fun GetMediaUriToGrant :: "string list \<Rightarrow> nat list \<Rightarrow> batch_uri \<Rightarrow> string list cpp" where
  "GetMediaUriToGrant us [] b = Inr []"
| "GetMediaUriToGrant us (i # idx) b =
     (if i \<ge> length (bu_checkResult b) then Inl OutOfRange
      else if \<not> cr_result (bu_checkResult b ! i) then GetMediaUriToGrant (tl us) idx b
      else case us of
             [] \<Rightarrow> Inl OutOfRange
           | u # us' \<Rightarrow> cpp_bind (GetMediaUriToGrant us' idx b) (\<lambda>vs. Inr (u # vs)))"

text \<open>
  The loops of \<open>GetUriToGrantByPolicy\<close> walk \<open>otherPolicyInfos\<close> and read \<open>otherIndexes\<close> at the same place; the type of a
  policy is set from the check result before it is handed out.
\<close>

fun grantByPolicyLoop :: "policy list \<Rightarrow> nat list \<Rightarrow> batch_uri \<Rightarrow> (policy list \<times> policy list) cpp" where
  "grantByPolicyLoop [] idx b = Inr ([], [])"
| "grantByPolicyLoop (p # ps) [] b = Inl OutOfRange"
| "grantByPolicyLoop (p # ps) (i # idx) b =
     (if i \<ge> length (bu_checkResult b) then Inl OutOfRange
      else if \<not> cr_result (bu_checkResult b ! i) then grantByPolicyLoop ps idx b
      else if i \<ge> length (bu_isTargetBundleUri b) then Inl OutOfRange
      else if bu_isTargetBundleUri b ! i then grantByPolicyLoop ps idx b
      else if i \<ge> length (bu_isDocsUriVec b) then Inl OutOfRange
      else let p' = p\<lparr>pl_type := cr_permissionType (bu_checkResult b ! i)\<rparr> in
           cpp_bind (grantByPolicyLoop ps idx b)
             (\<lambda>(docs, bundle). Inr (if bu_isDocsUriVec b ! i then (p' # docs, bundle) else (docs, p' # bundle))))"

definition GetUriToGrantByPolicy :: "batch_uri \<Rightarrow> (policy list \<times> policy list) cpp" where
  "GetUriToGrantByPolicy b =
     cpp_bind (grantByPolicyLoop (bu_otherPolicyInfos b) (bu_otherIndexes b) b)
       (\<lambda>(docs, bundle). Inr (docs, bu_selfBundlePolicyInfos b @ bundle))"

fun grantAllLoop :: "policy list \<Rightarrow> nat list \<Rightarrow> batch_uri \<Rightarrow> (bool \<times> policy list) cpp" where
  "grantAllLoop [] idx b = Inr (True, [])"
| "grantAllLoop (p # ps) [] b = Inl OutOfRange"
| "grantAllLoop (p # ps) (i # idx) b =
     (if i \<ge> length (bu_checkResult b) then Inl OutOfRange
      else if \<not> cr_result (bu_checkResult b ! i) then Inr (False, [])
      else if i \<ge> length (bu_isTargetBundleUri b) then Inl OutOfRange
      else if bu_isTargetBundleUri b ! i then grantAllLoop ps idx b
      else cpp_bind (grantAllLoop ps idx b)
             (\<lambda>(ok, qs). Inr (ok, p\<lparr>pl_type := cr_permissionType (bu_checkResult b ! i)\<rparr> # qs)))"

definition GetAllUriToGrantByPolicy :: "batch_uri \<Rightarrow> (bool \<times> policy list) cpp" where
  "GetAllUriToGrantByPolicy b =
     cpp_bind (grantAllLoop (bu_otherPolicyInfos b) (bu_otherIndexes b) b)
       (\<lambda>(ok, ps). Inr (ok, bu_selfBundlePolicyInfos b @ ps))"

definition SetCheckUriAuthorizationResult :: "bool list \<Rightarrow> batch_uri \<Rightarrow> bool \<times> bool list" where
  "SetCheckUriAuthorizationResult funcResult b =
     (if length (bu_checkResult b) \<noteq> length funcResult then (False, funcResult)
      else (True, map cr_result (bu_checkResult b)))"

definition GetPermissionedUriCount :: "batch_uri \<Rightarrow> nat" where
  "GetPermissionedUriCount b = length (filter cr_result (bu_checkResult b))"

definition IsAllUriValid :: "batch_uri \<Rightarrow> bool" where
  "IsAllUriValid b \<longleftrightarrow> bu_validUriCount b = bu_totalUriCount b"

definition IsAllUriPermissioned :: "batch_uri \<Rightarrow> bool" where
  "IsAllUriPermissioned b \<longleftrightarrow> (\<forall>c\<in>set (bu_checkResult b). cr_result c)"


section \<open>Checks of the granting application\<close>

definition STORAGE_URI :: string where
  "STORAGE_URI = ''/storage''"

definition APPDATA_URI :: string where
  "APPDATA_URI = ''/storage/Users/currentUser/appdata/''"

definition DOWNLOAD_PATH :: string where
  "DOWNLOAD_PATH = ''/storage/Users/currentUser/Download''"

definition DESKTOP_PATH :: string where
  "DESKTOP_PATH = ''/storage/Users/currentUser/Desktop''"

definition DOCUMENTS_PATH :: string where
  "DOCUMENTS_PATH = ''/storage/Users/currentUser/Documents''"

definition char_lower :: "char \<Rightarrow> char" where
  "char_lower c = (let n = of_char c :: nat in if 65 \<le> n \<and> n \<le> 90 then char_of (n + 32) else c)"

definition StartsWithIgnoreCase :: "string \<Rightarrow> string \<Rightarrow> bool" where
  "StartsWithIgnoreCase path pre \<longleftrightarrow>
     length path \<ge> length pre \<and> map char_lower (take (length pre) path) = map char_lower pre"

definition IsPathInDir :: "string \<Rightarrow> string \<Rightarrow> bool" where
  "IsPathInDir path dir =
     (if take (length dir) path \<noteq> dir then False
      else length path = length dir \<or> path ! length dir = CHR ''/'')"

definition VerifyFileAccessManagerPermission :: "uri_env \<Rightarrow> int \<Rightarrow> bool" where
  "VerifyFileAccessManagerPermission ev tokenId =
     (let declaredAgentFileAccess = (ue_requested ev tokenId PERMISSION_AGENT_FILE_ACCESS \<and> ue_isSystemApp ev tokenId)
      in if declaredAgentFileAccess then ue_permission ev tokenId PERMISSION_AGENT_FILE_ACCESS
         else ue_permission ev tokenId PERMISSION_FILE_ACCESS_MANAGER)"

definition CheckDocsUriPermission :: "uri_env \<Rightarrow> int \<Rightarrow> string \<Rightarrow> bool" where
  "CheckDocsUriPermission ev tokenId path =
     (if StartsWithIgnoreCase path APPDATA_URI then ue_permission ev tokenId PERMISSION_SANDBOX_ACCESS_MANAGER
      else
      let ret = (case ue_collaboratorCheck ev of None \<Rightarrow> 0 | Some func \<Rightarrow> func path tokenId) in
      if ue_collaboratorCheck ev \<noteq> None \<and> ret = 1 then True
      else if ue_collaboratorCheck ev \<noteq> None \<and> ret = 2 then False
      else if str_find STORAGE_URI path = Some 0 then VerifyFileAccessManagerPermission ev tokenId
      else False)"

definition CheckFileManagerUriPermission :: "uri_env \<Rightarrow> int \<Rightarrow> string \<Rightarrow> string \<Rightarrow> bool" where
  "CheckFileManagerUriPermission ev tokenId filePath bundleName =
     (if IsPathInDir filePath DOWNLOAD_PATH then
        let path = drop (length DOWNLOAD_PATH) filePath;
            path1 = (if str_find ''/'' path = Some 0 then drop 1 path else path);
            dirname = (case str_find ''/'' path1 of Some pos \<Rightarrow> take pos path1 | None \<Rightarrow> path1)
        in if dirname \<noteq> '''' \<and> bundleName \<noteq> '''' \<and> dirname = bundleName then True
           else ue_permission ev tokenId PERMISSION_READ_WRITE_DOWNLOAD
      else if IsPathInDir filePath DESKTOP_PATH then ue_permission ev tokenId PERMISSION_READ_WRITE_DESKTOP
      else if IsPathInDir filePath DOCUMENTS_PATH then ue_permission ev tokenId PERMISSION_READ_WRITE_DOCUMENTS
      else False)"

definition ownCheck :: "uri_env \<Rightarrow> int \<Rightarrow> string \<Rightarrow> uri \<Rightarrow> policy \<Rightarrow> bool" where
  "ownCheck ev callerTokenId bundleName u p \<longleftrightarrow>
     uri_authority u = DOCS_AUTHORITY \<and>
     (CheckFileManagerUriPermission ev callerTokenId (pl_path p) bundleName \<or> CheckDocsUriPermission ev callerTokenId (pl_path p))"

text \<open>The loop gives the policies, the result codes and the positions and policies still to be asked of the sandbox manager.\<close>

fun persistLoop ::
  "uri_env \<Rightarrow> int \<Rightarrow> 32 word \<Rightarrow> string \<Rightarrow> nat \<Rightarrow> uri list \<Rightarrow> policy list \<times> bool list \<times> nat list \<times> policy list" where
  "persistLoop ev callerTokenId flag bundleName i [] = ([], [], [], [])"
| "persistLoop ev callerTokenId flag bundleName i (u # us) =
     (let policyInfo = GetPathPolicyInfoFromUri ev u flag;
          (pathPolicies, resultCodes, resultIndex, persistPolicys) = persistLoop ev callerTokenId flag bundleName (i + 1) us
      in if ownCheck ev callerTokenId bundleName u policyInfo
         then (policyInfo # pathPolicies, True # resultCodes, resultIndex, persistPolicys)
         else (policyInfo # pathPolicies, False # resultCodes, i # resultIndex, policyInfo # persistPolicys))"

definition CheckUriPersistentPermission ::
  "uri_env \<Rightarrow> uri list \<Rightarrow> int \<Rightarrow> 32 word \<Rightarrow> string \<Rightarrow> bool list \<times> policy list" where
  "CheckUriPersistentPermission ev uriVec callerTokenId flag bundleName =
     (let (pathPolicies, resultCodes, resultIndex, persistPolicys) = persistLoop ev callerTokenId flag bundleName 0 uriVec
      in if persistPolicys = [] then (resultCodes, pathPolicies)
         else let (ret, persistResultCodes) = ue_checkPersistPolicy ev callerTokenId persistPolicys
              in if ret = 0 \<and> length persistResultCodes = length resultIndex
                 then (fold (\<lambda>(i, r) codes. codes[i := r]) (zip resultIndex persistResultCodes) resultCodes, pathPolicies)
                 else (resultCodes, pathPolicies))"

definition MediaCheckUriPermission :: "uri_env \<Rightarrow> string list \<Rightarrow> int \<Rightarrow> 32 word \<Rightarrow> bool list" where
  "MediaCheckUriPermission ev uriVec callerTokenId flag =
     (case ue_checkPhoto ev of
        None \<Rightarrow> replicate (length uriVec) False
      | Some check \<Rightarrow>
          let (ret, results) = check callerTokenId uriVec (flag AND FLAG_READ_WRITE_URI)
          in if ret \<noteq> ERR_OK then replicate (length uriVec) False
             else if length results \<noteq> length uriVec then replicate (length uriVec) False
             else results)"

definition VerifyUriPermissionByPolicy :: "uri_env \<Rightarrow> policy list \<Rightarrow> int \<Rightarrow> bool list" where
  "VerifyUriPermissionByPolicy ev policyVec tokenId =
     (let (ret, result) = ue_checkPolicy ev tokenId policyVec
      in if ret \<noteq> ERR_OK \<or> length result \<noteq> length policyVec then replicate (length policyVec) False else result)"

definition VerifyContentUriPermission :: "upm_codes \<Rightarrow> uri_env \<Rightarrow> string list \<Rightarrow> 32 word \<Rightarrow> int \<Rightarrow> int \<times> bool list" where
  "VerifyContentUriPermission k ev contentUris flag tokenId =
     (if contentUris = [] then (ERR_OK, [])
      else case ue_contentVerify ev of
        None \<Rightarrow> (INNER_ERR k, [])
      | Some verify \<Rightarrow> let (ret, checkResults) = verify contentUris flag tokenId
                       in if ret \<noteq> ERR_OK then (ret, checkResults) else (ERR_OK, checkResults))"

definition CheckProxyUriPermission :: "upm_codes \<Rightarrow> uri_env \<Rightarrow> int \<Rightarrow> 32 word \<Rightarrow> batch_uri \<Rightarrow> (int \<times> batch_uri) cpp" where
  "CheckProxyUriPermission k ev callerTokenId flag b =
     (if \<not> ue_permission ev callerTokenId PERMISSION_PROXY_AUTHORIZATION_URI then Inr (CHECK_PERMISSION_FAILED k, b)
      else
      cpp_bind (GetNeedCheckProxyPermissionURI b) (\<lambda>(proxyUrisByPolicy, b1).
      cpp_bind (if proxyUrisByPolicy \<noteq> []
                then SetCheckProxyByPolicyResult (VerifyUriPermissionByPolicy ev proxyUrisByPolicy callerTokenId) b1
                else Inr (True, b1)) (\<lambda>(ok, b2).
      cpp_bind (if bu_contentUris b2 \<noteq> []
                then let (ret, contentUriResults) = VerifyContentUriPermission k ev (bu_contentUris b2) flag callerTokenId
                     in if ret = ERR_OK then SetCheckProxyByContentUriResult contentUriResults b2 else Inr (True, b2)
                else Inr (True, b2)) (\<lambda>(ok, b3).
      Inr (ERR_OK, b3)))))"

definition CheckUriPermission ::
  "upm_codes \<Rightarrow> uri_env \<Rightarrow> 32 word \<Rightarrow> int \<Rightarrow> string \<Rightarrow> batch_uri \<Rightarrow> (int \<times> batch_uri) cpp" where
  "CheckUriPermission k ev flag callerTokenId callerAlterableBundleName b =
     (let flag = flag AND FLAG_READ_WRITE_URI in
      cpp_bind (if bu_mediaUris b \<noteq> []
                then SetMediaUriCheckResult (MediaCheckUriPermission ev (bu_mediaUris b) callerTokenId flag) (bu_mediaIndexes b) b
                else Inr b) (\<lambda>b1.
      cpp_bind (if bu_otherUris b1 \<noteq> []
                then let (otherUriResult, policies) =
                           CheckUriPersistentPermission ev (bu_otherUris b1) callerTokenId flag callerAlterableBundleName;
                         b2 = b1\<lparr>bu_otherPolicyInfos := policies\<rparr>
                     in SetOtherUriCheckResult otherUriResult (bu_otherIndexes b2) b2
                else Inr b1) (\<lambda>b2.
      cpp_bind (if GetPermissionedUriCount b2 \<noteq> bu_validUriCount b2
                then cpp_bind (CheckProxyUriPermission k ev callerTokenId flag b2) (\<lambda>(ret, b3). Inr b3)
                else Inr b2) (\<lambda>b3.
      if GetPermissionedUriCount b3 = 0 then Inr (CHECK_PERMISSION_FAILED k, b3) else Inr (ERR_OK, b3)))))"


section \<open>What \<open>Init\<close> establishes\<close>

definition isMedia :: "uri \<Rightarrow> bool" where
  "isMedia u \<longleftrightarrow> uri_scheme u = FILE_SCHEME \<and> uri_authority u = MEDIA_AUTHORITY"

definition isContent :: "uri \<Rightarrow> bool" where
  "isContent u \<longleftrightarrow> uri_scheme u = ANCO_SCHEME"

definition isBundle :: "uri \<Rightarrow> bool" where
  "isBundle u \<longleftrightarrow> uri_scheme u = FILE_SCHEME \<and> uri_authority u \<noteq> MEDIA_AUTHORITY \<and> uri_authority u \<noteq> DOCS_AUTHORITY"

definition isDocs :: "uri \<Rightarrow> bool" where
  "isDocs u \<longleftrightarrow> uri_scheme u = FILE_SCHEME \<and> uri_authority u = DOCS_AUTHORITY"

definition isOwn :: "string \<Rightarrow> bool \<Rightarrow> uri \<Rightarrow> bool" where
  "isOwn caller sandbox u \<longleftrightarrow> isBundle u \<and> uri_authority u \<noteq> '''' \<and> (sandbox \<or> uri_authority u = caller)"

definition isOther :: "string \<Rightarrow> bool \<Rightarrow> uri \<Rightarrow> bool" where
  "isOther caller sandbox u \<longleftrightarrow> isDocs u \<or> isBundle u \<and> \<not> isOwn caller sandbox u"

definition isTargets :: "string \<Rightarrow> uri \<Rightarrow> bool" where
  "isTargets target u \<longleftrightarrow> isBundle u \<and> target \<noteq> '''' \<and> uri_authority u = target"

definition isValid :: "uri \<Rightarrow> bool" where
  "isValid u \<longleftrightarrow> uri_scheme u = FILE_SCHEME \<or> uri_scheme u = ANCO_SCHEME"

lemmas kind_defs = isMedia_def isContent_def isBundle_def isDocs_def isOwn_def isOther_def isTargets_def isValid_def

lemma schemes_differ [simp]: "FILE_SCHEME \<noteq> ANCO_SCHEME" "ANCO_SCHEME \<noteq> FILE_SCHEME"
  "MEDIA_AUTHORITY \<noteq> DOCS_AUTHORITY" "DOCS_AUTHORITY \<noteq> MEDIA_AUTHORITY"
  by (simp_all add: FILE_SCHEME_def ANCO_SCHEME_def MEDIA_AUTHORITY_def DOCS_AUTHORITY_def)

text \<open>The groups of the first \<open>m\<close> URIs, and the state of the three vectors of the length of the request.\<close>

definition ownType :: "string \<Rightarrow> uri \<Rightarrow> int" where
  "ownType caller u = (if uri_authority u = caller then SELF_PATH else 0)"

definition selfPolicies :: "uri_env \<Rightarrow> 32 word \<Rightarrow> string \<Rightarrow> string \<Rightarrow> bool \<Rightarrow> uri list \<Rightarrow> policy list" where
  "selfPolicies ev mode caller target sandbox us =
     (if mode > 0
      then map (\<lambda>u. (GetPathPolicyInfoFromUri ev u mode)\<lparr>pl_type := ownType caller u\<rparr>)
             (filter (\<lambda>u. isOwn caller sandbox u \<and> \<not> isTargets target u) us)
      else [])"

definition shape ::
  "uri_env \<Rightarrow> uri list \<Rightarrow> 32 word \<Rightarrow> string \<Rightarrow> string \<Rightarrow> bool \<Rightarrow> nat \<Rightarrow> batch_uri \<Rightarrow> bool" where
  "shape ev us mode caller target sandbox m b \<longleftrightarrow>
     bu_mediaIndexes b = filter (\<lambda>i. isMedia (us ! i)) [0..<m] \<and>
     bu_mediaUris b = map (\<lambda>i. uri_str (us ! i)) (filter (\<lambda>i. isMedia (us ! i)) [0..<m]) \<and>
     bu_contentIndexes b = filter (\<lambda>i. isContent (us ! i)) [0..<m] \<and>
     bu_contentUris b = map (\<lambda>i. uri_str (us ! i)) (filter (\<lambda>i. isContent (us ! i)) [0..<m]) \<and>
     bu_otherIndexes b = filter (\<lambda>i. isOther caller sandbox (us ! i)) [0..<m] \<and>
     bu_otherUris b = map ((!) us) (filter (\<lambda>i. isOther caller sandbox (us ! i)) [0..<m]) \<and>
     bu_selfBundlePolicyInfos b = selfPolicies ev mode caller target sandbox (take m us) \<and>
     length (bu_isDocsUriVec b) = length us \<and> length (bu_isTargetBundleUri b) = length us \<and>
     length (bu_checkResult b) = length us \<and>
     (\<forall>i<length us. bu_isDocsUriVec b ! i = (i < m \<and> isDocs (us ! i))) \<and>
     (\<forall>i<length us. bu_isTargetBundleUri b ! i = (i < m \<and> isTargets target (us ! i))) \<and>
     bu_validUriCount b = length (filter isValid (take m us)) \<and>
     bu_totalUriCount b = length us"

definition ownResults :: "string \<Rightarrow> bool \<Rightarrow> uri list \<Rightarrow> nat \<Rightarrow> batch_uri \<Rightarrow> bool" where
  "ownResults caller sandbox us m b \<longleftrightarrow>
     (\<forall>i<length us. bu_checkResult b ! i =
        (if i < m \<and> isOwn caller sandbox (us ! i) then \<lparr>cr_result = True, cr_permissionType = ownType caller (us ! i)\<rparr>
         else \<lparr>cr_result = False, cr_permissionType = 0\<rparr>))"

lemma selfPolicies_snoc:
  "m < length us \<Longrightarrow> selfPolicies ev mode caller target sandbox (take (Suc m) us) =
     selfPolicies ev mode caller target sandbox (take m us) @
     (if mode > 0 \<and> isOwn caller sandbox (us ! m) \<and> \<not> isTargets target (us ! m)
      then [(GetPathPolicyInfoFromUri ev (us ! m) mode)\<lparr>pl_type := ownType caller (us ! m)\<rparr>] else [])"
  by (simp add: selfPolicies_def take_Suc_conv_app_nth)

lemma valid_snoc:
  "m < length us \<Longrightarrow> length (filter isValid (take (Suc m) us)) = length (filter isValid (take m us)) + (if isValid (us ! m) then 1 else 0)"
  by (simp add: take_Suc_conv_app_nth)

lemma InitUri_eqs:
  "\<not> isValid (ue_parse ev str) \<Longrightarrow> InitUri ev mode caller target sandbox m str b = b"
  "isContent (ue_parse ev str) \<Longrightarrow> InitUri ev mode caller target sandbox m str b =
     b\<lparr>bu_validUriCount := bu_validUriCount b + 1, bu_contentUris := bu_contentUris b @ [uri_str (ue_parse ev str)],
       bu_contentIndexes := bu_contentIndexes b @ [m]\<rparr>"
  "isMedia (ue_parse ev str) \<Longrightarrow> InitUri ev mode caller target sandbox m str b =
     b\<lparr>bu_validUriCount := bu_validUriCount b + 1, bu_mediaUris := bu_mediaUris b @ [uri_str (ue_parse ev str)],
       bu_mediaIndexes := bu_mediaIndexes b @ [m]\<rparr>"
  "isDocs (ue_parse ev str) \<Longrightarrow> InitUri ev mode caller target sandbox m str b =
     b\<lparr>bu_validUriCount := bu_validUriCount b + 1, bu_isDocsUriVec := (bu_isDocsUriVec b)[m := True],
       bu_otherUris := bu_otherUris b @ [ue_parse ev str], bu_otherIndexes := bu_otherIndexes b @ [m]\<rparr>"
  "isBundle (ue_parse ev str) \<Longrightarrow> \<not> isOwn caller sandbox (ue_parse ev str) \<Longrightarrow> InitUri ev mode caller target sandbox m str b =
     b\<lparr>bu_validUriCount := bu_validUriCount b + 1,
       bu_isTargetBundleUri := (bu_isTargetBundleUri b)[m := isTargets target (ue_parse ev str)],
       bu_otherUris := bu_otherUris b @ [ue_parse ev str], bu_otherIndexes := bu_otherIndexes b @ [m]\<rparr>"
  by (auto simp: InitUri_def InitFileUriInfo_def Let_def kind_defs)

lemma InitUri_own:
  assumes "isOwn caller sandbox (ue_parse ev str)" "cr_permissionType (bu_checkResult b ! m) = 0"
  shows "InitUri ev mode caller target sandbox m str b =
     b\<lparr>bu_validUriCount := bu_validUriCount b + 1,
       bu_isTargetBundleUri := (bu_isTargetBundleUri b)[m := isTargets target (ue_parse ev str)],
       bu_checkResult := (bu_checkResult b)[m := \<lparr>cr_result = True, cr_permissionType = ownType caller (ue_parse ev str)\<rparr>],
       bu_targetBundleUriCount := bu_targetBundleUriCount b + (if isTargets target (ue_parse ev str) then 1 else 0),
       bu_selfBundlePolicyInfos := bu_selfBundlePolicyInfos b @
         (if mode > 0 \<and> \<not> isTargets target (ue_parse ev str)
          then [(GetPathPolicyInfoFromUri ev (ue_parse ev str) mode)\<lparr>pl_type := ownType caller (ue_parse ev str)\<rparr>] else [])\<rparr>"
  using assms by (auto simp: InitUri_def InitFileUriInfo_def Let_def kind_defs ownType_def)

lemma InitUri_step:
  assumes b: "shape ev us mode caller target sandbox m b" "ownResults caller sandbox us m b"
    and m: "m < length us" and str: "ue_parse ev str = us ! m"
  shows "shape ev us mode caller target sandbox (Suc m) (InitUri ev mode caller target sandbox m str b) \<and>
    ownResults caller sandbox us (Suc m) (InitUri ev mode caller target sandbox m str b)"
proof -
  let ?u = "us ! m"
  note step_simps = shape_def ownResults_def nth_list_update less_Suc_eq selfPolicies_snoc valid_snoc InitUri_eqs InitUri_own str m
  have ty: "cr_permissionType (bu_checkResult b ! m) = 0" using b(2) m by (simp add: ownResults_def)
  consider "\<not> isValid ?u" | "isContent ?u" | "isMedia ?u" | "isDocs ?u" | "isOwn caller sandbox ?u"
    | "isBundle ?u" "\<not> isOwn caller sandbox ?u"
    by (auto simp: kind_defs)
  then show ?thesis
  proof cases
    case 1
    then have "\<not> isContent ?u" "\<not> isMedia ?u" "\<not> isDocs ?u" "\<not> isOwn caller sandbox ?u" "\<not> isOther caller sandbox ?u" "\<not> isTargets target ?u"
      by (auto simp: kind_defs)
    with 1 b show ?thesis by (auto simp: step_simps)
  next
    case 2
    then have "isValid ?u" "\<not> isMedia ?u" "\<not> isDocs ?u" "\<not> isOwn caller sandbox ?u" "\<not> isOther caller sandbox ?u" "\<not> isTargets target ?u"
      by (auto simp: kind_defs)
    with 2 b show ?thesis by (auto simp: step_simps)
  next
    case 3
    then have "isValid ?u" "\<not> isContent ?u" "\<not> isDocs ?u" "\<not> isOwn caller sandbox ?u" "\<not> isOther caller sandbox ?u" "\<not> isTargets target ?u"
      by (auto simp: kind_defs)
    with 3 b show ?thesis by (auto simp: step_simps)
  next
    case 4
    then have "isValid ?u" "\<not> isContent ?u" "\<not> isMedia ?u" "\<not> isOwn caller sandbox ?u" "isOther caller sandbox ?u" "\<not> isTargets target ?u"
      by (auto simp: kind_defs)
    with 4 b show ?thesis by (auto simp: step_simps)
  next
    case 5
    then have "isValid ?u" "\<not> isContent ?u" "\<not> isMedia ?u" "\<not> isDocs ?u" "\<not> isOther caller sandbox ?u"
      by (auto simp: kind_defs)
    with 5 b ty show ?thesis by (auto simp: step_simps)
  next
    case 6
    then have "isValid ?u" "\<not> isContent ?u" "\<not> isMedia ?u" "\<not> isDocs ?u" "isOther caller sandbox ?u"
      by (auto simp: kind_defs)
    with 6 b show ?thesis by (auto simp: step_simps)
  qed
qed

lemma initLoop_shape:
  assumes "shape ev us mode caller target sandbox m b" "ownResults caller sandbox us m b" "map (ue_parse ev) strs = drop m us" and "m \<le> length us"
  shows "shape ev us mode caller target sandbox (length us) (initLoop ev mode caller target sandbox m strs b) \<and>
    ownResults caller sandbox us (length us) (initLoop ev mode caller target sandbox m strs b)"
  using assms
proof (induction strs arbitrary: m b)
  case (Cons str strs)
  then have m: "m < length us" "ue_parse ev str = us ! m" "map (ue_parse ev) strs = drop (Suc m) us"
    by (simp_all add: Cons_nth_drop_Suc [symmetric] drop_eq_Nil2 [symmetric] del: drop_eq_Nil2) (metis Cons_nth_drop_Suc drop_eq_Nil list.distinct(1) list.inject not_le)+
  from InitUri_step [OF Cons.prems(1,2) m(1,2)] show ?case using Cons.IH m by (simp add: Suc_leI)
qed simp

lemma InitUri_untouched:
  "bu_otherPolicyInfos (InitUri ev mode caller target sandbox i str b) = bu_otherPolicyInfos b"
  "bu_proxyIndexesByPolicy (InitUri ev mode caller target sandbox i str b) = bu_proxyIndexesByPolicy b"
  by (simp_all add: InitUri_def InitFileUriInfo_def Let_def)

lemma initLoop_untouched:
  "bu_otherPolicyInfos (initLoop ev mode caller target sandbox i strs b) = bu_otherPolicyInfos b \<and>
   bu_proxyIndexesByPolicy (initLoop ev mode caller target sandbox i strs b) = bu_proxyIndexesByPolicy b"
  by (induction strs arbitrary: i b) (simp_all add: InitUri_untouched)

lemma Init_untouched:
  "bu_otherPolicyInfos (snd (bu_Init ev strs mode caller target sandbox b)) = bu_otherPolicyInfos b"
  "bu_proxyIndexesByPolicy (snd (bu_Init ev strs mode caller target sandbox b)) = bu_proxyIndexesByPolicy b"
  by (simp_all add: bu_Init_def Let_def initLoop_untouched)

abbreviation parsed :: "uri_env \<Rightarrow> string list \<Rightarrow> uri list" where
  "parsed ev strs \<equiv> map (ue_parse ev) strs"

lemma Init_shape:
  assumes "strs \<noteq> []" "bu_Init ev strs mode caller target sandbox emptyBatch = (n, b)"
  shows "shape ev (parsed ev strs) mode caller target sandbox (length strs) b"
    "ownResults caller sandbox (parsed ev strs) (length strs) b" "n = bu_validUriCount b"
proof -
  let ?n = "length strs"
  let ?b = "emptyBatch\<lparr>bu_totalUriCount := ?n, bu_validUriCount := 0,
    bu_checkResult := replicate ?n \<lparr>cr_result = False, cr_permissionType = 0\<rparr>,
    bu_isDocsUriVec := replicate ?n False, bu_isTargetBundleUri := replicate ?n False\<rparr>"
  have b: "b = initLoop ev mode caller target sandbox 0 strs ?b" "n = bu_validUriCount b"
    using assms by (auto simp: bu_Init_def Let_def)
  have "shape ev (parsed ev strs) mode caller target sandbox 0 ?b" "ownResults caller sandbox (parsed ev strs) 0 ?b"
    by (simp_all add: shape_def ownResults_def emptyBatch_def selfPolicies_def)
  from initLoop_shape [OF this, of strs]
  show "shape ev (parsed ev strs) mode caller target sandbox (length strs) b"
    "ownResults caller sandbox (parsed ev strs) (length strs) b" "n = bu_validUriCount b" by (simp_all add: b)
qed


section \<open>Scattering as a function\<close>

fun scatter :: "('r \<Rightarrow> 'c \<Rightarrow> 'c) \<Rightarrow> 'r list \<Rightarrow> nat list \<Rightarrow> 'c list \<Rightarrow> 'c list" where
  "scatter g (r # rs) (i # idx) v = scatter g rs idx (v[i := g r (v ! i)])"
| "scatter g _ _ v = v"

lemma length_scatter [simp]: "length (scatter g rs idx v) = length v"
  by (induction g rs idx v rule: scatter.induct) auto

lemma scatter_Nil [simp]: "scatter g [] idx v = v" "scatter g rs [] v = v"
  by (cases rs; simp)+

lemma nth_scatter_notin: "j \<notin> set idx \<Longrightarrow> scatter g rs idx v ! j = v ! j"
  by (induction g rs idx v rule: scatter.induct) auto

lemma nth_scatter_map:
  "distinct idx \<Longrightarrow> j < length v \<Longrightarrow> scatter g (map R idx) idx v ! j = (if j \<in> set idx then g (R j) (v ! j) else v ! j)"
proof (induction idx arbitrary: v)
  case (Cons i idx)
  then show ?case by (cases "j = i") (auto simp: nth_scatter_notin)
qed simp

lemma nth_scatter_ex:
  "distinct idx \<Longrightarrow> j < length v \<Longrightarrow> length rs = length idx \<Longrightarrow> \<exists>R. scatter g rs idx v ! j = (if j \<in> set idx then g (R j) (v ! j) else v ! j)"
proof -
  assume *: "distinct idx" "j < length v" "length rs = length idx"
  let ?R = "\<lambda>i. the (map_of (zip idx rs) i)"
  have "rs = map ?R idx" using * by (auto intro!: nth_equalityI simp: map_of_zip_nth)
  then show ?thesis using nth_scatter_map [OF *(1,2), of g ?R] by metis
qed

abbreviation in_range :: "nat list \<Rightarrow> batch_uri \<Rightarrow> bool" where
  "in_range idx b \<equiv> (\<forall>i\<in>set idx. i < length (bu_checkResult b))"

lemma SetMedia_scatter:
  "length rs \<le> length idx \<Longrightarrow> in_range idx b \<Longrightarrow>
     SetMediaUriCheckResult rs idx b = Inr (b\<lparr>bu_checkResult := scatter setResult rs idx (bu_checkResult b)\<rparr>)"
  by (induction rs idx b rule: SetMediaUriCheckResult.induct) auto

lemma content_scatter:
  "length rs \<le> length idx \<Longrightarrow> in_range idx b \<Longrightarrow>
     contentLoop rs idx b = Inr (b\<lparr>bu_checkResult := scatter setAuthorized rs idx (bu_checkResult b)\<rparr>)"
  by (induction rs idx b rule: contentLoop.induct) auto

lemma SetOther_scatter:
  "length rs \<le> length idx \<Longrightarrow> in_range idx b \<Longrightarrow> length (bu_isTargetBundleUri b) = length (bu_checkResult b) \<Longrightarrow>
     \<exists>c. SetOtherUriCheckResult rs idx b =
       Inr (b\<lparr>bu_checkResult := scatter setResult rs idx (bu_checkResult b), bu_targetBundleUriCount := c\<rparr>)"
proof (induction rs idx b rule: SetOtherUriCheckResult.induct)
  case (1 idx b)
  show ?case by (rule exI [of _ "bu_targetBundleUriCount b"]) simp
qed auto

lemma proxy_scatter:
  "length rs \<le> length idx \<Longrightarrow> in_range idx b \<Longrightarrow> length (bu_isTargetBundleUri b) = length (bu_checkResult b) \<Longrightarrow>
     \<exists>c. proxyLoop rs idx b =
       Inr (b\<lparr>bu_checkResult := scatter setAuthorized rs idx (bu_checkResult b), bu_targetBundleUriCount := c\<rparr>)"
proof (induction rs idx b rule: proxyLoop.induct)
  case (1 idx b)
  show ?case by (rule exI [of _ "bu_targetBundleUriCount b"]) simp
qed auto

lemma needProxyLoop_run:
  "length ps = length idx \<Longrightarrow> in_range idx b \<Longrightarrow>
     needProxyLoop idx ps b = Inr (filter (\<lambda>i. \<not> cr_result (bu_checkResult b ! i)) idx,
       map fst (filter (\<lambda>(p, i). \<not> cr_result (bu_checkResult b ! i)) (zip ps idx)))"
  by (induction idx ps b rule: needProxyLoop.induct) (auto split: list.splits)

section \<open>The check of persisted permissions\<close>

lemma persistLoop_run:
  "persistLoop ev tok flag name i us =
     (map (\<lambda>u. GetPathPolicyInfoFromUri ev u flag) us,
      map (\<lambda>u. ownCheck ev tok name u (GetPathPolicyInfoFromUri ev u flag)) us,
      map (\<lambda>j. i + j) (filter (\<lambda>j. \<not> ownCheck ev tok name (us ! j) (GetPathPolicyInfoFromUri ev (us ! j) flag)) [0..<length us]),
      map (\<lambda>j. GetPathPolicyInfoFromUri ev (us ! j) flag)
        (filter (\<lambda>j. \<not> ownCheck ev tok name (us ! j) (GetPathPolicyInfoFromUri ev (us ! j) flag)) [0..<length us]))"
proof (induction us arbitrary: i)
  case (Cons u us)
  have upt: "[0..<length (u # us)] = 0 # map Suc [0..<length us]" by (simp add: upt_conv_Cons map_Suc_upt del: upt_Suc)
  show ?case unfolding upt by (simp add: Cons.IH Let_def filter_map comp_def)
qed simp

lemma fold_scatter:
  "fold (\<lambda>(i, r) codes. codes[i := r]) (zip idx rs) v = scatter (\<lambda>r _. r) rs idx v"
  by (induction "\<lambda>(r::'a) (c::'a). r" rs idx v rule: scatter.induct) auto

lemma CheckPersist_length:
  "length (fst (CheckUriPersistentPermission ev us tok flag name)) = length us"
  "snd (CheckUriPersistentPermission ev us tok flag name) = map (\<lambda>u. GetPathPolicyInfoFromUri ev u flag) us"
  by (simp_all add: CheckUriPersistentPermission_def persistLoop_run fold_scatter Let_def split: prod.split)

lemma CheckPersist_pointwise:
  assumes "\<And>ps. ue_checkPersistPolicy ev tok ps = (0, map persisted ps)"
  shows "fst (CheckUriPersistentPermission ev us tok flag name) =
    map (\<lambda>u. ownCheck ev tok name u (GetPathPolicyInfoFromUri ev u flag) \<or> persisted (GetPathPolicyInfoFromUri ev u flag)) us"
proof -
  let ?p = "\<lambda>u. GetPathPolicyInfoFromUri ev u flag"
  let ?own = "\<lambda>u. ownCheck ev tok name u (?p u)"
  let ?idx = "filter (\<lambda>j. \<not> ?own (us ! j)) [0..<length us]"
  have "scatter (\<lambda>r _. r) (map (\<lambda>j. persisted (?p (us ! j))) ?idx) ?idx (map ?own us) = map (\<lambda>u. ?own u \<or> persisted (?p u)) us"
    by (rule nth_equalityI) (auto simp: nth_scatter_map)
  moreover have "map ?own us = map (\<lambda>u. ?own u \<or> persisted (?p u)) us" if "?idx = []"
    using that by (auto simp: filter_empty_conv in_set_conv_nth)
  ultimately show ?thesis
    by (simp add: CheckUriPersistentPermission_def persistLoop_run fold_scatter Let_def assms comp_def)
qed


section \<open>The check of a request\<close>

lemma shape_update:
  "shape ev us mode caller target sandbox m b \<Longrightarrow> length cr = length us \<Longrightarrow>
     shape ev us mode caller target sandbox m
       (b\<lparr>bu_checkResult := cr, bu_targetBundleUriCount := c, bu_otherPolicyInfos := ps, bu_proxyIndexesByPolicy := qs\<rparr>)"
  by (simp add: shape_def)

text \<open>The results as vectors over the request, the answers of each group scattered in turn.\<close>

definition groupAt :: "(uri \<Rightarrow> bool) \<Rightarrow> uri list \<Rightarrow> nat list" where
  "groupAt p us = filter (\<lambda>i. p (us ! i)) [0..<length us]"

lemma groupAt_facts [simp]:
  "distinct (groupAt p us)" "set (groupAt p us) = {i. i < length us \<and> p (us ! i)}"
  by (auto simp: groupAt_def)

definition proxyAnswers ::
  "upm_codes \<Rightarrow> uri_env \<Rightarrow> 32 word \<Rightarrow> int \<Rightarrow> string \<Rightarrow> bool \<Rightarrow> uri list \<Rightarrow> check_result list \<Rightarrow> check_result list" where
  "proxyAnswers k ev flag tok caller sandbox us v =
     (let need = filter (\<lambda>i. \<not> cr_result (v ! i)) (groupAt (isOther caller sandbox) us);
          v1 = scatter setAuthorized
                 (VerifyUriPermissionByPolicy ev (map (\<lambda>i. GetPathPolicyInfoFromUri ev (us ! i) flag) need) tok) need v;
          content = groupAt isContent us;
          (ret, answers) = VerifyContentUriPermission k ev (map (\<lambda>i. uri_str (us ! i)) content) flag tok
      in if ret = ERR_OK \<and> length answers = length content then scatter setAuthorized answers content v1 else v1)"

definition requestAnswers ::
  "upm_codes \<Rightarrow> uri_env \<Rightarrow> 32 word \<Rightarrow> int \<Rightarrow> string \<Rightarrow> string \<Rightarrow> bool \<Rightarrow> uri list \<Rightarrow> check_result list \<Rightarrow> check_result list" where
  "requestAnswers k ev flag tok name caller sandbox us v =
     (let media = groupAt isMedia us; other = groupAt (isOther caller sandbox) us;
          v1 = scatter setResult (MediaCheckUriPermission ev (map (\<lambda>i. uri_str (us ! i)) media) tok flag) media v;
          v2 = scatter setResult (fst (CheckUriPersistentPermission ev (map ((!) us) other) tok flag name)) other v1
      in if length (filter cr_result v2) \<noteq> length (filter isValid us) \<and> ue_permission ev tok PERMISSION_PROXY_AUTHORIZATION_URI
         then proxyAnswers k ev flag tok caller sandbox us v2 else v2)"

lemma length_MediaCheck: "length (MediaCheckUriPermission ev us tok flag) = length us"
  by (simp add: MediaCheckUriPermission_def Let_def split: option.split prod.split)

lemma length_VerifyByPolicy: "length (VerifyUriPermissionByPolicy ev ps tok) = length ps"
  by (simp add: VerifyUriPermissionByPolicy_def Let_def split: prod.split)

lemma length_proxyAnswers [simp]: "length (proxyAnswers k ev flag tok caller sandbox us v) = length v"
  by (simp add: proxyAnswers_def Let_def split: prod.split)

lemma length_requestAnswers [simp]: "length (requestAnswers k ev flag tok name caller sandbox us v) = length v"
  by (simp add: requestAnswers_def Let_def)

lemma zip_filter_map:
  "map fst (filter (\<lambda>(p, i). q i) (zip (map f idx) idx)) = map f (filter q idx)"
  by (induction idx) auto

lemma SetCheckProxy_run:
  assumes "length rs = length (bu_proxyIndexesByPolicy b)" "in_range (bu_proxyIndexesByPolicy b) b"
    and "length (bu_isTargetBundleUri b) = length (bu_checkResult b)"
  shows "\<exists>c. SetCheckProxyByPolicyResult rs b =
    Inr (True, b\<lparr>bu_checkResult := scatter setAuthorized rs (bu_proxyIndexesByPolicy b) (bu_checkResult b),
                 bu_targetBundleUriCount := c, bu_proxyIndexesByPolicy := []\<rparr>)"
proof -
  from proxy_scatter [of rs "bu_proxyIndexesByPolicy b" b] assms obtain c where
    "proxyLoop rs (bu_proxyIndexesByPolicy b) b =
      Inr (b\<lparr>bu_checkResult := scatter setAuthorized rs (bu_proxyIndexesByPolicy b) (bu_checkResult b), bu_targetBundleUriCount := c\<rparr>)"
    by auto
  with assms(1) show ?thesis by (intro exI [of _ c]) (simp add: SetCheckProxyByPolicyResult_def)
qed

lemma CheckProxy_run:
  assumes sh: "shape ev us mode caller target sandbox (length us) b"
    and pol: "bu_otherPolicyInfos b = map (\<lambda>u. GetPathPolicyInfoFromUri ev u flag) (bu_otherUris b)"
    and idx: "bu_proxyIndexesByPolicy b = []" and perm: "ue_permission ev tok PERMISSION_PROXY_AUTHORIZATION_URI"
  shows "\<exists>c. CheckProxyUriPermission k ev tok flag b =
    Inr (ERR_OK, b\<lparr>bu_checkResult := proxyAnswers k ev flag tok caller sandbox us (bu_checkResult b),
                   bu_targetBundleUriCount := c\<rparr>)"
proof -
  let ?other = "groupAt (isOther caller sandbox) us" and ?content = "groupAt isContent us" and ?v = "bu_checkResult b"
  let ?path = "\<lambda>i. GetPathPolicyInfoFromUri ev (us ! i) flag"
  let ?need = "filter (\<lambda>i. \<not> cr_result (?v ! i)) ?other"
  note s = sh [unfolded shape_def, folded groupAt_def]
  have other: "bu_otherIndexes b = ?other" "bu_otherPolicyInfos b = map ?path ?other" using s pol by (simp_all add: comp_def)
  have content: "bu_contentIndexes b = ?content" "bu_contentUris b = map (\<lambda>i. uri_str (us ! i)) ?content" using s by simp_all
  have len: "length ?v = length us" "length (bu_isTargetBundleUri b) = length ?v" using s by simp_all
  have need: "GetNeedCheckProxyPermissionURI b = Inr (map ?path ?need, b\<lparr>bu_proxyIndexesByPolicy := ?need\<rparr>)"
    using needProxyLoop_run [of "map ?path ?other" ?other b] len
    by (simp add: GetNeedCheckProxyPermissionURI_def other idx zip_filter_map)
  let ?rs = "VerifyUriPermissionByPolicy ev (map ?path ?need) tok"
  let ?v1 = "scatter setAuthorized ?rs ?need ?v"
  obtain c where proxy: "(if map ?path ?need \<noteq> [] then SetCheckProxyByPolicyResult ?rs (b\<lparr>bu_proxyIndexesByPolicy := ?need\<rparr>)
      else Inr (True, b\<lparr>bu_proxyIndexesByPolicy := ?need\<rparr>)) = Inr (True, b\<lparr>bu_checkResult := ?v1, bu_targetBundleUriCount := c, bu_proxyIndexesByPolicy := []\<rparr>)"
  proof (cases "?need = []")
    case True
    then show ?thesis using that [of "bu_targetBundleUriCount b"] by simp
  next
    case False
    from SetCheckProxy_run [of ?rs "b\<lparr>bu_proxyIndexesByPolicy := ?need\<rparr>"] len False that show ?thesis
      by (auto simp: length_VerifyByPolicy)
  qed
  obtain ret answers where v: "VerifyContentUriPermission k ev (map (\<lambda>i. uri_str (us ! i)) ?content) flag tok = (ret, answers)" by fastforce
  show ?thesis
    apply (rule exI [of _ c])
    apply (simp only: CheckProxyUriPermission_def perm need not_True_eq_False if_False cpp_bind_Inr case_prod_conv proxy)
    using content_scatter [of answers ?content "b\<lparr>bu_checkResult := ?v1, bu_targetBundleUriCount := c, bu_proxyIndexesByPolicy := []\<rparr>"] len v idx
    by (auto simp: proxyAnswers_def Let_def content SetCheckProxyByContentUriResult_def VerifyContentUriPermission_def)
qed

lemma CheckUriPermission_run:
  assumes sh: "shape ev us mode caller target sandbox (length us) b"
    and "bu_otherPolicyInfos b = []" "bu_proxyIndexesByPolicy b = []"
  shows "let fl = flag AND FLAG_READ_WRITE_URI; v = requestAnswers k ev fl tok name caller sandbox us (bu_checkResult b) in
    \<exists>c. CheckUriPermission k ev flag tok name b =
      Inr (if length (filter cr_result v) = 0 then CHECK_PERMISSION_FAILED k else ERR_OK,
           b\<lparr>bu_checkResult := v, bu_targetBundleUriCount := c,
             bu_otherPolicyInfos := map (\<lambda>u. GetPathPolicyInfoFromUri ev u fl) (bu_otherUris b)\<rparr>)"
proof -
  define fl where "fl = flag AND FLAG_READ_WRITE_URI"
  let ?media = "groupAt isMedia us" and ?other = "groupAt (isOther caller sandbox) us" and ?v = "bu_checkResult b"
  note s = sh [unfolded shape_def, folded groupAt_def]
  have len: "length ?v = length us" "length (bu_isTargetBundleUri b) = length ?v" "bu_validUriCount b = length (filter isValid us)"
    using s by simp_all
  have media: "bu_mediaIndexes b = ?media" "bu_mediaUris b = map (\<lambda>i. uri_str (us ! i)) ?media" using s by simp_all
  have other: "bu_otherIndexes b = ?other" "bu_otherUris b = map ((!) us) ?other" using s by simp_all
  let ?med = "MediaCheckUriPermission ev (bu_mediaUris b) tok fl"
  let ?v1 = "scatter setResult ?med ?media ?v"
  let ?b1 = "b\<lparr>bu_checkResult := ?v1\<rparr>"
  have 1: "(if bu_mediaUris b \<noteq> [] then SetMediaUriCheckResult ?med (bu_mediaIndexes b) b else Inr b) = Inr ?b1"
    using SetMedia_scatter [of ?med ?media b] len by (auto simp: media length_MediaCheck)
  obtain oth pol where op: "CheckUriPersistentPermission ev (bu_otherUris b) tok fl name = (oth, pol)" by fastforce
  have pol: "pol = map (\<lambda>u. GetPathPolicyInfoFromUri ev u fl) (bu_otherUris b)" "length oth = length ?other"
    using CheckPersist_length [of ev "bu_otherUris b" tok fl name, unfolded op] by (simp_all add: other(2))
  let ?v2 = "scatter setResult oth ?other ?v1"
  obtain c where 2: "(if bu_otherUris ?b1 \<noteq> [] then let (r, ps) = CheckUriPersistentPermission ev (bu_otherUris ?b1) tok fl name;
          b2 = ?b1\<lparr>bu_otherPolicyInfos := ps\<rparr> in SetOtherUriCheckResult r (bu_otherIndexes b2) b2 else Inr ?b1) =
      Inr (b\<lparr>bu_checkResult := ?v2, bu_targetBundleUriCount := c, bu_otherPolicyInfos := pol\<rparr>)"
  proof (cases "?other = []")
    case True
    then show ?thesis using that [of "bu_targetBundleUriCount b"] pol assms(2) by (simp add: other)
  next
    case False
    from SetOther_scatter [of oth ?other "?b1\<lparr>bu_otherPolicyInfos := pol\<rparr>"] len obtain c where
      "SetOtherUriCheckResult oth ?other (?b1\<lparr>bu_otherPolicyInfos := pol\<rparr>) =
        Inr (?b1\<lparr>bu_otherPolicyInfos := pol, bu_checkResult := ?v2, bu_targetBundleUriCount := c\<rparr>)"
      by (auto simp: pol(2))
    with False show ?thesis by (intro that [of c]) (simp add: other op [unfolded other] Let_def)
  qed
  let ?b2 = "b\<lparr>bu_checkResult := ?v2, bu_targetBundleUriCount := c, bu_otherPolicyInfos := pol\<rparr>"
  let ?r = "requestAnswers k ev fl tok name caller sandbox us ?v"
  have sh2: "shape ev us mode caller target sandbox (length us) ?b2"
    using shape_update [OF sh, where cr = ?v2 and c = c and ps = pol and qs = "bu_proxyIndexesByPolicy b"] len by simp
  have r: "?r = (if length (filter cr_result ?v2) \<noteq> length (filter isValid us) \<and> ue_permission ev tok PERMISSION_PROXY_AUTHORIZATION_URI
      then proxyAnswers k ev fl tok caller sandbox us ?v2 else ?v2)"
    using op by (simp add: requestAnswers_def Let_def media other)
  obtain c' where 3: "(if GetPermissionedUriCount ?b2 \<noteq> bu_validUriCount ?b2
      then cpp_bind (CheckProxyUriPermission k ev tok fl ?b2) (\<lambda>(ret, b3). Inr b3) else Inr ?b2) =
      Inr (b\<lparr>bu_checkResult := ?r, bu_targetBundleUriCount := c', bu_otherPolicyInfos := pol\<rparr>)"
  proof (cases "length (filter cr_result ?v2) \<noteq> length (filter isValid us) \<and> ue_permission ev tok PERMISSION_PROXY_AUTHORIZATION_URI")
    case True
    with CheckProxy_run [OF sh2, of fl tok k] pol assms(3) obtain d where
      "CheckProxyUriPermission k ev tok fl ?b2 = Inr (ERR_OK, ?b2\<lparr>bu_checkResult := ?r, bu_targetBundleUriCount := d\<rparr>)"
      by (auto simp: r)
    with True len show ?thesis by (intro that [of d]) (simp add: GetPermissionedUriCount_def)
  next
    case False
    then show ?thesis using that [of c] len by (auto simp: GetPermissionedUriCount_def r CheckProxyUriPermission_def)
  qed
  show ?thesis
    unfolding Let_def fl_def [symmetric]
    by (rule exI [of _ c'], simp only: CheckUriPermission_def Let_def fl_def [symmetric] 1 cpp_bind_Inr 2 [unfolded Let_def] 3)
      (simp add: GetPermissionedUriCount_def pol(1))
qed


section \<open>Which URIs may be granted\<close>

text \<open>
  What is relied on of the services: each answers one result per element, and the result of an element does not
  depend on the others of the batch.  \<open>photo\<close>, \<open>persisted\<close>, \<open>proxied\<close> and \<open>content\<close> are those results.
\<close>

definition pointwise ::
  "uri_env \<Rightarrow> int \<Rightarrow> (string \<Rightarrow> bool) \<Rightarrow> (policy \<Rightarrow> bool) \<Rightarrow> (policy \<Rightarrow> bool) \<Rightarrow> (string \<Rightarrow> bool) \<Rightarrow> bool" where
  "pointwise ev tok photo persisted proxied content \<longleftrightarrow>
     (\<exists>c. ue_checkPhoto ev = Some c \<and> (\<forall>us fl. c tok us fl = (0, map photo us))) \<and>
     (\<forall>ps. ue_checkPersistPolicy ev tok ps = (0, map persisted ps)) \<and>
     (\<forall>ps. ue_checkPolicy ev tok ps = (0, map proxied ps)) \<and>
     (\<exists>c. ue_contentVerify ev = Some c \<and> (\<forall>us fl. c us fl tok = (0, map content us)))"

definition permitted ::
  "uri_env \<Rightarrow> 32 word \<Rightarrow> int \<Rightarrow> string \<Rightarrow> bool \<Rightarrow> (string \<Rightarrow> bool) \<Rightarrow> (policy \<Rightarrow> bool) \<Rightarrow> (policy \<Rightarrow> bool) \<Rightarrow>
     (string \<Rightarrow> bool) \<Rightarrow> uri \<Rightarrow> bool" where
  "permitted ev flag tok caller sandbox photo persisted proxied content u \<longleftrightarrow>
     (let p = GetPathPolicyInfoFromUri ev u flag; proxy = ue_permission ev tok PERMISSION_PROXY_AUTHORIZATION_URI in
      isOwn caller sandbox u \<or> isMedia u \<and> photo (uri_str u) \<or>
      isOther caller sandbox u \<and> (ownCheck ev tok caller u p \<or> persisted p \<or> proxy \<and> proxied p) \<or>
      isContent u \<and> proxy \<and> content (uri_str u))"

lemma cr_setResult [simp]: "cr_result (setResult r c) = r"
  by (simp add: setResult_def)

lemma cr_setAuthorized [simp]: "cr_result (setAuthorized r c) = r"
  by (simp add: setAuthorized_def)

lemma kinds_disjoint:
  "isMedia u \<Longrightarrow> \<not> isOther c s u" "isMedia u \<Longrightarrow> \<not> isOwn c s u" "isOther c s u \<Longrightarrow> \<not> isOwn c s u"
  "isContent u \<Longrightarrow> \<not> isMedia u \<and> \<not> isOther c s u \<and> \<not> isOwn c s u"
  "isMedia u \<or> isOther c s u \<or> isOwn c s u \<or> isContent u \<longleftrightarrow> isValid u"
  by (auto simp: kind_defs)

lemma direct_answers:
  fixes name :: string and fl :: "32 word"
  assumes pw: "pointwise ev tok photo persisted proxied content" and "length v = length us"
    and own: "\<forall>j<length us. cr_result (v ! j) = isOwn caller sandbox (us ! j)"
  defines "v1 \<equiv> scatter setResult (MediaCheckUriPermission ev (map (\<lambda>i. uri_str (us ! i)) (groupAt isMedia us)) tok fl) (groupAt isMedia us) v"
  defines "v2 \<equiv> scatter setResult (fst (CheckUriPersistentPermission ev (map ((!) us) (groupAt (isOther caller sandbox) us)) tok fl name))
      (groupAt (isOther caller sandbox) us) v1"
  assumes j: "j < length us"
  shows "cr_result (v2 ! j) \<longleftrightarrow> isOwn caller sandbox (us ! j) \<or> isMedia (us ! j) \<and> photo (uri_str (us ! j)) \<or>
    isOther caller sandbox (us ! j) \<and> (ownCheck ev tok name (us ! j) (GetPathPolicyInfoFromUri ev (us ! j) fl) \<or>
      persisted (GetPathPolicyInfoFromUri ev (us ! j) fl))"
proof -
  have med: "MediaCheckUriPermission ev us' tok fl = map photo us'" for us'
    using pw by (auto simp: pointwise_def MediaCheckUriPermission_def ERR_OK_def Let_def)
  have pers: "fst (CheckUriPersistentPermission ev us' tok fl name) = map (\<lambda>u. ownCheck ev tok name u (GetPathPolicyInfoFromUri ev u fl)
      \<or> persisted (GetPathPolicyInfoFromUri ev u fl)) us'" for us'
    using pw by (intro CheckPersist_pointwise) (auto simp: pointwise_def)
  have "cr_result (v1 ! j) \<longleftrightarrow> isOwn caller sandbox (us ! j) \<or> isMedia (us ! j) \<and> photo (uri_str (us ! j))"
    using assms(2) own j kinds_disjoint by (auto simp: v1_def med nth_scatter_map comp_def)
  moreover have "length v1 = length us" by (simp add: v1_def assms(2))
  ultimately show ?thesis
    using j kinds_disjoint by (auto simp: v2_def pers nth_scatter_map comp_def)
qed

lemma proxy_answers:
  assumes pw: "pointwise ev tok photo persisted proxied content" and "length v = length us" and j: "j < length us"
    and proxy: "ue_permission ev tok PERMISSION_PROXY_AUTHORIZATION_URI"
    and c: "isContent (us ! j) \<Longrightarrow> \<not> cr_result (v ! j)"
  shows "cr_result (proxyAnswers k ev fl tok caller sandbox us v ! j) \<longleftrightarrow>
    cr_result (v ! j) \<or> isOther caller sandbox (us ! j) \<and> proxied (GetPathPolicyInfoFromUri ev (us ! j) fl) \<or>
    isContent (us ! j) \<and> content (uri_str (us ! j))"
proof -
  let ?other = "groupAt (isOther caller sandbox) us" and ?content = "groupAt isContent us"
  let ?need = "filter (\<lambda>i. \<not> cr_result (v ! i)) ?other"
  have ver: "VerifyUriPermissionByPolicy ev ps tok = map proxied ps" for ps
    using pw by (simp add: pointwise_def VerifyUriPermissionByPolicy_def ERR_OK_def)
  have con: "VerifyContentUriPermission k ev us' fl tok = (ERR_OK, map content us')" for us'
    using pw by (auto simp: pointwise_def VerifyContentUriPermission_def ERR_OK_def)
  let ?v1 = "scatter setAuthorized (map (\<lambda>i. proxied (GetPathPolicyInfoFromUri ev (us ! i) fl)) ?need) ?need v"
  have eq: "proxyAnswers k ev fl tok caller sandbox us v =
      scatter setAuthorized (map (\<lambda>i. content (uri_str (us ! i))) ?content) ?content ?v1"
    by (simp add: proxyAnswers_def Let_def ver con comp_def)
  have "cr_result (?v1 ! j) \<longleftrightarrow> cr_result (v ! j) \<or> isOther caller sandbox (us ! j) \<and> proxied (GetPathPolicyInfoFromUri ev (us ! j) fl)"
    using assms(2) j by (subst nth_scatter_map) auto
  then show ?thesis
    unfolding eq using assms(2) j c kinds_disjoint(4) by (subst nth_scatter_map) auto
qed

lemma request_answers:
  assumes pw: "pointwise ev tok photo persisted proxied content" and len: "length v = length us"
    and own: "\<forall>j<length us. cr_result (v ! j) = isOwn caller sandbox (us ! j)" and j: "j < length us"
  shows "cr_result (requestAnswers k ev fl tok caller caller sandbox us v ! j) =
    permitted ev fl tok caller sandbox photo persisted proxied content (us ! j)"
proof -
  let ?v1 = "scatter setResult (MediaCheckUriPermission ev (map (\<lambda>i. uri_str (us ! i)) (groupAt isMedia us)) tok fl) (groupAt isMedia us) v"
  let ?v2 = "scatter setResult (fst (CheckUriPersistentPermission ev (map ((!) us) (groupAt (isOther caller sandbox) us)) tok fl caller))
      (groupAt (isOther caller sandbox) us) ?v1"
  let ?proxy = "ue_permission ev tok PERMISSION_PROXY_AUTHORIZATION_URI"
  note v2 = direct_answers [OF pw len own, of _ fl caller]
  have len2: "length ?v2 = length us" by (simp add: len)
  show ?thesis
  proof (cases "length (filter cr_result ?v2) \<noteq> length (filter isValid us) \<and> ?proxy")
    case True
    then have "requestAnswers k ev fl tok caller caller sandbox us v = proxyAnswers k ev fl tok caller sandbox us ?v2"
      by (simp add: requestAnswers_def Let_def)
    moreover have "isContent (us ! j) \<Longrightarrow> \<not> cr_result (?v2 ! j)" using v2 [OF j] kinds_disjoint(4) by blast
    ultimately show ?thesis
      using True proxy_answers [OF pw len2 j, of k fl caller sandbox] v2 [OF j] by (auto simp: permitted_def Let_def)
  next
    case False
    then have eq: "requestAnswers k ev fl tok caller caller sandbox us v = ?v2" by (auto simp: requestAnswers_def Let_def)
    have "cr_result (?v2 ! j)" if "isValid (us ! j)" ?proxy
    proof -
      let ?R = "{i. i < length us \<and> cr_result (?v2 ! i)}" and ?V = "{i. i < length us \<and> isValid (us ! i)}"
      have "card ?R = card ?V" using False that(2) len2 by (simp add: length_filter_conv_card)
      moreover have "?R \<subseteq> ?V" using v2 kinds_disjoint(5) by blast
      ultimately have "?R = ?V" by (intro card_subset_eq) auto
      with that(1) j show ?thesis by blast
    qed
    then show ?thesis unfolding eq using v2 [OF j] kinds_disjoint(5) [of "us ! j" caller sandbox] by (auto simp: permitted_def Let_def)
  qed
qed

text \<open>A checked batch: the shape of \<open>Init\<close>, one policy per other URI, and the results.\<close>

definition checked ::
  "uri_env \<Rightarrow> uri list \<Rightarrow> 32 word \<Rightarrow> 32 word \<Rightarrow> string \<Rightarrow> string \<Rightarrow> bool \<Rightarrow> (uri \<Rightarrow> bool) \<Rightarrow> batch_uri \<Rightarrow> bool" where
  "checked ev us mode fl caller target sandbox may b \<longleftrightarrow>
     shape ev us mode caller target sandbox (length us) b \<and>
     bu_otherPolicyInfos b = map (\<lambda>u. GetPathPolicyInfoFromUri ev u fl) (bu_otherUris b) \<and>
     map cr_result (bu_checkResult b) = map may us"

lemma checked_check:
  fixes flag :: "32 word"
  assumes "strs \<noteq> []" "pointwise ev tok photo persisted proxied content"
    and b: "bu_Init ev strs mode caller target sandbox emptyBatch = (n, b)"
  defines "fl \<equiv> flag AND FLAG_READ_WRITE_URI"
  defines "may \<equiv> permitted ev fl tok caller sandbox photo persisted proxied content"
  shows "\<exists>b'. CheckUriPermission k ev flag tok caller b =
      Inr (if \<exists>u\<in>set (parsed ev strs). may u then ERR_OK else CHECK_PERMISSION_FAILED k, b') \<and>
    checked ev (parsed ev strs) mode fl caller target sandbox may b'"
proof -
  let ?us = "parsed ev strs"
  let ?v = "requestAnswers k ev fl tok caller caller sandbox ?us (bu_checkResult b)"
  note init = Init_shape [OF assms(1) b]
  have len: "length (bu_checkResult b) = length ?us" using init(1) by (simp add: shape_def)
  have own: "\<forall>j<length ?us. cr_result (bu_checkResult b ! j) = isOwn caller sandbox (?us ! j)"
    using init(2) by (simp add: ownResults_def)
  have empty: "bu_otherPolicyInfos b = []" "bu_proxyIndexesByPolicy b = []"
    using Init_untouched [of ev strs mode caller target sandbox emptyBatch, unfolded b] by (simp_all add: emptyBatch_def)
  let ?b' = "\<lambda>c. b\<lparr>bu_checkResult := ?v, bu_targetBundleUriCount := c,
          bu_otherPolicyInfos := map (\<lambda>u. GetPathPolicyInfoFromUri ev u fl) (bu_otherUris b)\<rparr>"
  obtain c where run: "CheckUriPermission k ev flag tok caller b =
      Inr (if length (filter cr_result ?v) = 0 then CHECK_PERMISSION_FAILED k else ERR_OK, ?b' c)"
    using CheckUriPermission_run [of ev ?us mode caller target sandbox b flag k tok caller] init(1) empty by (auto simp: Let_def fl_def)
  have res: "map cr_result ?v = map may ?us"
    by (rule nth_equalityI) (use len request_answers [OF assms(2) len own] in \<open>auto simp: may_def\<close>)
  have "length (filter cr_result ?v) = 0 \<longleftrightarrow> True \<notin> set (map cr_result ?v)" by (auto simp: filter_empty_conv)
  also have "\<dots> \<longleftrightarrow> \<not> (\<exists>u\<in>set ?us. may u)" unfolding res by auto
  finally have cnt: "length (filter cr_result ?v) = 0 \<longleftrightarrow> \<not> (\<exists>u\<in>set ?us. may u)" .
  have "checked ev ?us mode fl caller target sandbox may (?b' c)"
    using shape_update [OF init(1), where cr = ?v and c = c and qs = "bu_proxyIndexesByPolicy b"] len res by (simp add: checked_def)
  with run [unfolded cnt] show ?thesis by (auto split: if_splits)
qed


definition exUri :: "string \<Rightarrow> uri" where
  "exUri s = \<lparr>uri_str = s, uri_scheme = ''file'', uri_authority =
     (if s = ''own'' then ''app'' else if s = ''doc'' then ''docs'' else if s = ''pic'' then ''media'' else ''else'')\<rparr>"

definition exUriEnv :: uri_env where
  "exUriEnv = \<lparr>ue_parse = exUri, ue_realPath = (\<lambda>s. s), ue_permission = (\<lambda>_ _. False), ue_requested = (\<lambda>_ _. False),
     ue_isSystemApp = (\<lambda>_. True), ue_collaboratorCheck = None,
     ue_checkPersistPolicy = (\<lambda>_ ps. (0, map (\<lambda>p. pl_path p = ''doc'') ps)),
     ue_checkPolicy = (\<lambda>_ ps. (0, map (\<lambda>p. False) ps)),
     ue_checkPhoto = Some (\<lambda>_ us _. (0, map (\<lambda>u. True) us)),
     ue_contentVerify = Some (\<lambda>us _ _. (0, map (\<lambda>u. False) us))\<rparr>"

lemma exUriEnv_pointwise:
  "pointwise exUriEnv tok (\<lambda>_. True) (\<lambda>p. pl_path p = ''doc'') (\<lambda>_. False) (\<lambda>_. False)"
  by (simp add: pointwise_def exUriEnv_def)


end
