(* ===== verification/Uri_Raw_Data.thy ===== *)
theory Uri_Raw_Data
  imports Ability_Prelude
begin

text \<open>
  The byte format in which \<open>UriPermissionManagerClient\<close> and \<open>UriPermissionManagerStubImpl\<close> exchange vectors of
  URIs, of policies and of results (\<open>UriPermissionRawData\<close>): a \<open>uint32_t\<close> count, then the elements, a string as
  its \<open>uint32_t\<close> length and its characters.  Integers are written in the little-endian order of the
  supported processors.  The bytes are a \<open>string\<close>; the raw data is \<open>None\<close> for a null pointer, and its size
  is the length.  A reader that runs out of bytes leaves the stream not \<open>good()\<close>: an error branch.

  The locale \<open>element_codec\<close> is what the vector loops need of an element: what was written is read back
  with the rest untouched, and nothing else is accepted.
\<close>

section \<open>Integers\<close>

definition le_byte :: "nat \<Rightarrow> nat \<Rightarrow> char" where
  "le_byte k n = char_of (n div 256 ^ k mod 256)"

definition write32 :: "nat \<Rightarrow> string" where
  "write32 n = [le_byte 0 n, le_byte 1 n, le_byte 2 n, le_byte 3 n]"

definition write64 :: "nat \<Rightarrow> string" where
  "write64 n = write32 (n mod 2 ^ 32) @ write32 (n div 2 ^ 32)"

fun read32 :: "string \<Rightarrow> (nat \<times> string) option" where
  "read32 (a # b # c # d # rest) =
     Some (of_char a + 256 * of_char b + 256 ^ 2 * of_char c + 256 ^ 3 * of_char d, rest)"
| "read32 _ = None"

definition read64 :: "string \<Rightarrow> (nat \<times> string) option" where
  "read64 bs = (case read32 bs of None \<Rightarrow> None
     | Some (lo, rest) \<Rightarrow> (case read32 rest of None \<Rightarrow> None | Some (hi, rest') \<Rightarrow> Some (lo + 2 ^ 32 * hi, rest')))"

lemma of_char_less: "(of_char c :: nat) < 256"
  by (metis mod_less_divisor of_char_mod_256 zero_less_numeral)

lemma of_char_le_byte: "(of_char (le_byte k n) :: nat) = n div 256 ^ k mod 256"
  by (simp add: le_byte_def)

lemma read32_write32:
  assumes "n < 2 ^ 32"
  shows "read32 (write32 n @ rest) = Some (n, rest)"
proof -
  have 3: "n div 256 ^ 3 mod 256 = n div 256 ^ 3" using assms by (simp add: less_mult_imp_div_less)
  have 0: "n = n mod 256 + 256 * (n div 256)" by simp
  have 1: "n div 256 = n div 256 mod 256 + 256 * (n div 256 ^ 2)"
    using mod_mult_div_eq [of "n div 256" 256] by (simp add: div_mult2_eq [symmetric])
  have 2: "n div 256 ^ 2 = n div 256 ^ 2 mod 256 + 256 * (n div 256 ^ 3)"
    using mod_mult_div_eq [of "n div 256 ^ 2" 256] by (simp add: div_mult2_eq [symmetric])
  have "n mod 256 + 256 * (n div 256 mod 256) + 65536 * (n div 256 ^ 2 mod 256) + 16777216 * (n div 256 ^ 3) = n"
    using 0 1 2 by linarith
  with 3 show ?thesis by (simp add: write32_def of_char_le_byte)
qed

lemma le_byte_digits:
  assumes "a < 256" "b < 256" "c < 256" "d < (256 :: nat)"
  defines "n \<equiv> a + 256 * b + 256 ^ 2 * c + 256 ^ 3 * d"
  shows "n mod 256 = a" "n div 256 mod 256 = b" "n div 256 ^ 2 mod 256 = c" "n div 256 ^ 3 mod 256 = d" "n < 2 ^ 32"
proof -
  have 0: "n = a + 256 * (b + 256 * (c + 256 * d))" by (simp add: n_def algebra_simps)
  then have 1: "n div 256 = b + 256 * (c + 256 * d)" using assms(1) by simp
  then have 2: "n div 256 ^ 2 = c + 256 * d" using assms(2) by (simp add: power2_eq_square div_mult2_eq)
  then have 3: "n div 256 ^ 3 = d" using assms(3) by (simp add: power3_eq_cube power2_eq_square div_mult2_eq)
  show "n mod 256 = a" unfolding 0 mod_mult_self2 using assms(1) by (rule mod_less)
  show "n div 256 mod 256 = b" unfolding 1 mod_mult_self2 using assms(2) by (rule mod_less)
  show "n div 256 ^ 2 mod 256 = c" unfolding 2 mod_mult_self2 using assms(3) by (rule mod_less)
  show "n div 256 ^ 3 mod 256 = d" using 3 assms(4) by simp
  show "n < 2 ^ 32" using assms(1-4) by (simp add: n_def)
qed

lemma read32_Some:
  assumes "read32 bs = Some (n, rest)"
  shows "bs = write32 n @ rest" "n < 2 ^ 32"
proof -
  obtain a b c d where bs: "bs = a # b # c # d # rest"
    and n: "n = of_char a + 256 * of_char b + 256 ^ 2 * of_char c + 256 ^ 3 * of_char d"
    using assms by (cases bs rule: read32.cases) auto
  note digits = le_byte_digits [OF of_char_less of_char_less of_char_less of_char_less, of a b c d, folded n]
  show "bs = write32 n @ rest" using digits(1-4) by (simp add: bs write32_def le_byte_def)
  show "n < 2 ^ 32" by (rule digits(5))
qed

lemma read32_short: "read32 bs = None \<longleftrightarrow> length bs < 4"
  by (cases bs rule: read32.cases) auto

lemma read64_write64: "n < 2 ^ 64 \<Longrightarrow> read64 (write64 n @ rest) = Some (n, rest)"
  by (simp add: read64_def write64_def read32_write32 less_mult_imp_div_less)

lemma read64_Some:
  assumes "read64 bs = Some (n, rest)"
  shows "bs = write64 n @ rest" "n < 2 ^ 64"
proof -
  obtain lo hi r where r: "read32 bs = Some (lo, r)" "read32 r = Some (hi, rest)" "n = lo + 2 ^ 32 * hi"
    using assms by (auto simp: read64_def split: option.splits prod.splits)
  note l = read32_Some [OF r(1)] and h = read32_Some [OF r(2)]
  have "n mod 2 ^ 32 = lo" "n div 2 ^ 32 = hi" using l(2) by (simp_all add: r(3))
  with l h show "bs = write64 n @ rest" by (simp add: write64_def)
  show "n < 2 ^ 64" using l(2) h(2) by (simp add: r(3))
qed

section \<open>Elements\<close>

datatype raw_error = ERR_DEAD_OBJECT | ERR_URI_LIST_OUT_OF_RANGE | INVALID_PARAMETERS_ERR

record policy_info =
  po_path :: string
  po_mode :: nat

definition write_string :: "string \<Rightarrow> string" where
  "write_string str = write32 (length str) @ str"

definition read_string :: "raw_error \<Rightarrow> string \<Rightarrow> raw_error + (string \<times> string)" where
  "read_string tooLong bs =
     (case read32 bs of
        None \<Rightarrow> Inl ERR_DEAD_OBJECT
      | Some (strLen, rest) \<Rightarrow> if strLen > length rest then Inl tooLong else Inr (take strLen rest, drop strLen rest))"

definition write_policy :: "policy_info \<Rightarrow> string" where
  "write_policy info = write_string (po_path info) @ write64 (po_mode info)"

definition read_policy :: "string \<Rightarrow> raw_error + (policy_info \<times> string)" where
  "read_policy bs =
     (case read_string INVALID_PARAMETERS_ERR bs of
        Inl e \<Rightarrow> Inl e
      | Inr (path, rest) \<Rightarrow>
          (case read64 rest of
             None \<Rightarrow> Inl ERR_DEAD_OBJECT
           | Some (mode, rest') \<Rightarrow> Inr (\<lparr>po_path = path, po_mode = mode\<rparr>, rest')))"

definition write_bool :: "bool \<Rightarrow> string" where
  "write_bool b = [if b then CHR 0x01 else CHR 0x00]"

definition read_bool :: "string \<Rightarrow> raw_error + (bool \<times> string)" where
  "read_bool bs = (case bs of [] \<Rightarrow> Inl ERR_DEAD_OBJECT | c # rest \<Rightarrow> Inr (c \<noteq> CHR 0x00, rest))"

fun read_many :: "(string \<Rightarrow> raw_error + ('a \<times> string)) \<Rightarrow> nat \<Rightarrow> string \<Rightarrow> raw_error + ('a list \<times> string)" where
  "read_many get 0 bs = Inr ([], bs)"
| "read_many get (Suc n) bs =
     (case get bs of Inl e \<Rightarrow> Inl e
      | Inr (x, rest) \<Rightarrow> (case read_many get n rest of Inl e \<Rightarrow> Inl e | Inr (xs, rest') \<Rightarrow> Inr (x # xs, rest')))"

section \<open>Vectors\<close>

definition MAX_URI_COUNT :: nat where
  "MAX_URI_COUNT = 200000"

definition MAX_IPC_RAW_DATA_SIZE :: nat where
  "MAX_IPC_RAW_DATA_SIZE = 128 * 1024 * 1024"

definition StringVecToRawData :: "string list \<Rightarrow> string" where
  "StringVecToRawData stringVec = write32 (length stringVec mod 2 ^ 32) @ concat (map write_string stringVec)"

definition PolicyInfoToRawData :: "policy_info list \<Rightarrow> string" where
  "PolicyInfoToRawData policy = write32 (length policy mod 2 ^ 32) @ concat (map write_policy policy)"

definition BoolVecToRawData :: "bool list \<Rightarrow> string" where
  "BoolVecToRawData boolVector = write32 (length boolVector mod 2 ^ 32) @ concat (map write_bool boolVector)"

definition RawDataToStringVec :: "string option \<Rightarrow> raw_error + string list" where
  "RawDataToStringVec rawData =
     (case rawData of None \<Rightarrow> Inl ERR_DEAD_OBJECT
      | Some bs \<Rightarrow>
          if length bs = 0 \<or> length bs > MAX_IPC_RAW_DATA_SIZE then Inl ERR_DEAD_OBJECT
          else case read32 bs of
                 None \<Rightarrow> Inl ERR_DEAD_OBJECT
               | Some (stringVecSize, rest) \<Rightarrow>
                   if stringVecSize = 0 \<or> stringVecSize > MAX_URI_COUNT then Inl ERR_URI_LIST_OUT_OF_RANGE
                   else map_sum id fst (read_many (read_string ERR_DEAD_OBJECT) stringVecSize rest))"

definition RawDataToPolicyInfo :: "string option \<Rightarrow> raw_error + policy_info list" where
  "RawDataToPolicyInfo policyRawData =
     (case policyRawData of None \<Rightarrow> Inl ERR_DEAD_OBJECT
      | Some bs \<Rightarrow>
          if length bs = 0 \<or> length bs > MAX_IPC_RAW_DATA_SIZE then Inl ERR_DEAD_OBJECT
          else case read32 bs of
                 None \<Rightarrow> Inl ERR_DEAD_OBJECT
               | Some (policyInfoSize, rest) \<Rightarrow>
                   if policyInfoSize = 0 \<or> policyInfoSize > MAX_URI_COUNT then Inl ERR_URI_LIST_OUT_OF_RANGE
                   else map_sum id fst (read_many read_policy policyInfoSize rest))"

text \<open>The client knows how many results it expects (\<open>boolVec.size()\<close>); \<open>None\<close> is the result \<open>false\<close>.\<close>

definition RawDataToBoolVec :: "nat \<Rightarrow> string option \<Rightarrow> bool list option" where
  "RawDataToBoolVec expected rawData =
     (case rawData of None \<Rightarrow> None
      | Some bs \<Rightarrow>
          if length bs = 0 \<or> length bs > MAX_IPC_RAW_DATA_SIZE then None
          else case read32 bs of
                 None \<Rightarrow> None
               | Some (boolCount, rest) \<Rightarrow>
                   if boolCount \<noteq> expected then None
                   else if boolCount = 0 \<or> boolCount > MAX_URI_COUNT then None
                   else (case read_many read_bool boolCount rest of Inl e \<Rightarrow> None | Inr (bools, _) \<Rightarrow> Some bools))"

section \<open>What a codec promises\<close>

locale element_codec =
  fixes put :: "'a \<Rightarrow> string"
    and get :: "string \<Rightarrow> raw_error + ('a \<times> string)"
    and ok :: "'a \<Rightarrow> bool"
  assumes get_put: "ok x \<Longrightarrow> get (put x @ rest) = Inr (x, rest)"
    and get_Inr: "get bs = Inr (x, rest) \<Longrightarrow> bs = put x @ rest \<and> ok x"
begin

lemma read_many_put: "(\<forall>x\<in>set xs. ok x) \<Longrightarrow> read_many get (length xs) (concat (map put xs) @ rest) = Inr (xs, rest)"
  by (induction xs) (simp_all add: get_put)

lemma read_many_Inr:
  "read_many get n bs = Inr (xs, rest) \<Longrightarrow> length xs = n \<and> bs = concat (map put xs) @ rest \<and> (\<forall>x\<in>set xs. ok x)"
proof (induction n arbitrary: bs xs)
  case (Suc n)
  then obtain y r ys where "get bs = Inr (y, r)" "read_many get n r = Inr (ys, rest)" "xs = y # ys"
    by (auto split: sum.splits)
  with Suc.IH [of r ys] get_Inr [of bs y r] show ?case by simp
qed simp

text \<open>A vector with its count in front: accepted exactly when the bytes start with its encoding.\<close>

lemma vector_exact:
  "(\<exists>n r. read32 bs = Some (n, r) \<and> 0 < n \<and> n \<le> MAX_URI_COUNT \<and> (\<exists>rest. read_many get n r = Inr (xs, rest))) \<longleftrightarrow>
     xs \<noteq> [] \<and> length xs \<le> MAX_URI_COUNT \<and> (\<forall>x\<in>set xs. ok x) \<and>
     (\<exists>rest. bs = write32 (length xs mod 2 ^ 32) @ concat (map put xs) @ rest)" (is "?L \<longleftrightarrow> ?R")
proof
  assume ?L
  then obtain n r rest where n: "read32 bs = Some (n, r)" "0 < n" "n \<le> MAX_URI_COUNT" "read_many get n r = Inr (xs, rest)" by blast
  from read_many_Inr [OF n(4)] read32_Some [OF n(1)] n(2,3) show ?R by auto
next
  assume r: ?R
  then obtain rest where rest: "bs = write32 (length xs mod 2 ^ 32) @ concat (map put xs) @ rest" by blast
  have "length xs mod 2 ^ 32 = length xs" using r by (simp add: MAX_URI_COUNT_def)
  with r rest show ?L by (auto simp: read32_write32 read_many_put MAX_URI_COUNT_def)
qed

end

lemma read_string_Inr: "read_string e bs = Inr (x, rest) \<Longrightarrow> bs = write_string x @ rest \<and> length x < 2 ^ 32"
proof -
  assume "read_string e bs = Inr (x, rest)"
  then obtain n r where n: "read32 bs = Some (n, r)" "n \<le> length r" "x = take n r" "rest = drop n r"
    by (auto simp: read_string_def split: option.splits if_splits)
  with read32_Some [OF n(1)] show ?thesis by (simp add: write_string_def)
qed

lemma read_string_put: "length x < 2 ^ 32 \<Longrightarrow> read_string e (write_string x @ rest) = Inr (x, rest)"
  by (simp add: read_string_def write_string_def read32_write32)

interpretation strings: element_codec write_string "read_string ERR_DEAD_OBJECT" "\<lambda>x. length x < 2 ^ 32"
  by unfold_locales (simp_all only: read_string_put read_string_Inr)

interpretation policies: element_codec write_policy read_policy "\<lambda>p. length (po_path p) < 2 ^ 32 \<and> po_mode p < 2 ^ 64"
proof (unfold_locales, goal_cases)
  case (1 x rest)
  then show ?case by (simp add: read_policy_def write_policy_def read_string_put read64_write64)
next
  case (2 bs x rest)
  then obtain path r mode where r: "read_string INVALID_PARAMETERS_ERR bs = Inr (path, r)" "read64 r = Some (mode, rest)"
    "x = \<lparr>po_path = path, po_mode = mode\<rparr>"
    by (auto simp: read_policy_def split: sum.splits option.splits prod.splits)
  with read_string_Inr [OF r(1)] read64_Some [OF r(2)] show ?case by (simp add: write_policy_def)
qed

section \<open>Properties\<close>

text \<open>
  C6: the service decodes a URI list from raw bytes exactly when the bytes begin with the client's encoding
  of that list, within the limits of 200000 URIs and 128 MB; in particular it reads back every list the
  client encodes, and never reads past the bytes.
\<close>

theorem RawDataToStringVec_exact:
  "RawDataToStringVec (Some bs) = Inr uris \<longleftrightarrow>
     uris \<noteq> [] \<and> length uris \<le> 200000 \<and> length bs \<le> 134217728 \<and> (\<forall>u\<in>set uris. length u < 2 ^ 32) \<and>
     (\<exists>rest. bs = StringVecToRawData uris @ rest)"
proof -
  have "RawDataToStringVec (Some bs) = Inr uris \<longleftrightarrow> length bs \<noteq> 0 \<and> length bs \<le> MAX_IPC_RAW_DATA_SIZE \<and>
      (\<exists>n r. read32 bs = Some (n, r) \<and> 0 < n \<and> n \<le> MAX_URI_COUNT \<and>
        (\<exists>rest. read_many (read_string ERR_DEAD_OBJECT) n r = Inr (uris, rest)))"
    by (auto simp: RawDataToStringVec_def map_sum_def split: option.splits sum.splits if_splits prod.splits)
  also have "\<dots> \<longleftrightarrow> length bs \<le> MAX_IPC_RAW_DATA_SIZE \<and> uris \<noteq> [] \<and> length uris \<le> MAX_URI_COUNT \<and> (\<forall>u\<in>set uris. length u < 2 ^ 32) \<and>
      (\<exists>rest. bs = StringVecToRawData uris @ rest)"
    unfolding strings.vector_exact by (auto simp: StringVecToRawData_def write32_def)
  finally show ?thesis by (auto simp: MAX_URI_COUNT_def MAX_IPC_RAW_DATA_SIZE_def)
qed


theorem RawDataToStringVec_exact_witness:
  "RawDataToStringVec (Some (StringVecToRawData [''file://a'', ''file://b''])) = Inr [''file://a'', ''file://b'']"
  by (rule RawDataToStringVec_exact [THEN iffD2]) (simp add: StringVecToRawData_def write_string_def write32_def)

text \<open>
  the same for the policies an application activates: path and 64-bit mode of every policy survive
  the transport, and only encodings are accepted.
\<close>

theorem RawDataToPolicyInfo_exact:
  "RawDataToPolicyInfo (Some bs) = Inr policy \<longleftrightarrow>
     policy \<noteq> [] \<and> length policy \<le> 200000 \<and> length bs \<le> 134217728 \<and>
     (\<forall>p\<in>set policy. length (po_path p) < 2 ^ 32 \<and> po_mode p < 2 ^ 64) \<and>
     (\<exists>rest. bs = PolicyInfoToRawData policy @ rest)"
proof -
  have "RawDataToPolicyInfo (Some bs) = Inr policy \<longleftrightarrow> length bs \<noteq> 0 \<and> length bs \<le> MAX_IPC_RAW_DATA_SIZE \<and>
      (\<exists>n r. read32 bs = Some (n, r) \<and> 0 < n \<and> n \<le> MAX_URI_COUNT \<and>
        (\<exists>rest. read_many read_policy n r = Inr (policy, rest)))"
    by (auto simp: RawDataToPolicyInfo_def map_sum_def split: option.splits sum.splits if_splits prod.splits)
  also have "\<dots> \<longleftrightarrow> length bs \<le> MAX_IPC_RAW_DATA_SIZE \<and> policy \<noteq> [] \<and> length policy \<le> MAX_URI_COUNT \<and>
      (\<forall>p\<in>set policy. length (po_path p) < 2 ^ 32 \<and> po_mode p < 2 ^ 64) \<and> (\<exists>rest. bs = PolicyInfoToRawData policy @ rest)"
    unfolding policies.vector_exact by (auto simp: PolicyInfoToRawData_def write32_def)
  finally show ?thesis by (auto simp: MAX_URI_COUNT_def MAX_IPC_RAW_DATA_SIZE_def)
qed

theorem RawDataToPolicyInfo_exact_witness:
  "RawDataToPolicyInfo (Some (PolicyInfoToRawData [\<lparr>po_path = ''/data'', po_mode = 3\<rparr>])) = Inr [\<lparr>po_path = ''/data'', po_mode = 3\<rparr>]"
  by (rule RawDataToPolicyInfo_exact [THEN iffD2]) (simp add: PolicyInfoToRawData_def write_policy_def write_string_def write64_def write32_def)

lemma read_bools: "read_many read_bool (length bs) (concat (map write_bool bs)) = Inr (bs, [])"
  by (induction bs) (simp_all add: read_bool_def write_bool_def)

text \<open>the client reads back the vector of results that the service sends.\<close>

theorem BoolVec_roundtrip:
  assumes "bools \<noteq> []" "length bools \<le> 200000"
  shows "RawDataToBoolVec (length bools) (Some (BoolVecToRawData bools)) = Some bools"
proof -
  have n: "length bools mod 2 ^ 32 = length bools" using assms(2) by simp
  have "length (concat (map write_bool bools)) = length bools" by (induction bools) (simp_all add: write_bool_def)
  moreover have "length (write32 k) = 4" for k by (simp add: write32_def)
  ultimately show ?thesis
    using assms read_bools [of bools] by (simp add: RawDataToBoolVec_def BoolVecToRawData_def n read32_write32
        MAX_URI_COUNT_def MAX_IPC_RAW_DATA_SIZE_def)
qed

theorem BoolVec_roundtrip_witness:
  "RawDataToBoolVec 2 (Some (BoolVecToRawData [True, False])) = Some [True, False]"
  using BoolVec_roundtrip [of "[True, False]"] by (simp add: numeral_2_eq_2)

end
