(* ===== verification/Uri_Grant.thy ===== *)
theory Uri_Grant
  imports Batch_Uri Uri_Raw_Data
begin

text \<open>
  The entry points of the URI permission service (\<open>uri_permission_manager_stub_impl.cpp\<close>) and the identification of
  callers and applications they use (\<open>file_uri_distribution_utils.cpp\<close>, \<open>global_constant.h\<close>), in the build with
  the media library, the sandbox manager and UDMF.

  An entry point returns its \<open>ErrCode\<close> and the value it stored in \<open>funcResult\<close> (\<open>None\<close> when it stored none), the
  grants it asked the other services for, in order, and the new state.  The bundle manager, the access
  token kit and the identity of the calling process are answered by \<open>call_env\<close>.
\<close>

section \<open>Callers and applications\<close>

datatype token_type = TOKEN_HAP | TOKEN_NATIVE | TOKEN_OTHER

record hap_info =
  hi_userID :: int
  hi_bundleName :: string
  hi_instIndex :: int

record call_env =
  ce_upm :: upm_env
  ce_uri :: uri_env
  ce_uid :: int
  ce_token :: int
  ce_isSystemAppCall :: bool
  ce_isSACall :: bool
  ce_tokenType :: "int \<Rightarrow> token_type"
  ce_hapInfo :: "int \<Rightarrow> hap_info option"
  ce_dir :: "string \<Rightarrow> int \<Rightarrow> string option"
  ce_account :: int
  ce_bundleToken :: "string \<Rightarrow> int \<Rightarrow> int option"
  ce_cloneToken :: "string \<Rightarrow> int \<Rightarrow> int \<Rightarrow> int option"
  ce_sandboxToken :: "string \<Rightarrow> int \<Rightarrow> int \<Rightarrow> int option"
  ce_mediaGrant :: "(string list \<Rightarrow> 32 word \<Rightarrow> int \<Rightarrow> int \<Rightarrow> int \<Rightarrow> int) option"
  ce_mediaRevoke :: "(int \<Rightarrow> int \<Rightarrow> string \<Rightarrow> int) option"
  ce_supportGrant :: bool
  ce_udKeyBundle :: "string \<Rightarrow> string"
  ce_addPrivilege :: "string \<Rightarrow> int \<Rightarrow> string \<Rightarrow> int"
  ce_selfToken :: int
  ce_batchData :: "string \<Rightarrow> int \<times> string option list list"
  ce_startAccessing :: "policy_info list \<Rightarrow> int \<Rightarrow> int \<times> int list"

definition IsFoundationCall :: "call_env \<Rightarrow> bool" where
  "IsFoundationCall ce \<longleftrightarrow> ce_uid ce = 5523"

definition IsSAOrSystemAppCall :: "call_env \<Rightarrow> bool" where
  "IsSAOrSystemAppCall ce \<longleftrightarrow> ce_isSystemAppCall ce \<or> ce_isSACall ce"

definition IsPrivilegedSACall :: "call_env \<Rightarrow> bool" where
  "IsPrivilegedSACall ce \<longleftrightarrow>
     ue_permission (ce_uri ce) (ce_token ce) PERMISSION_GRANT_URI_PERMISSION_PRIVILEGED \<or> ce_uid ce = 5520"

definition IsUdmfOrPasteboardCall :: "call_env \<Rightarrow> bool" where
  "IsUdmfOrPasteboardCall ce \<longleftrightarrow> ce_uid ce = 3012 \<or> ce_uid ce = 3816 \<or> ce_uid ce = 5557"

definition IsBrokerCaller :: "call_env \<Rightarrow> bool" where
  "IsBrokerCaller ce \<longleftrightarrow> ce_uid ce = 5557"

definition IsDFSCall :: "call_env \<Rightarrow> bool" where
  "IsDFSCall ce \<longleftrightarrow> ce_uid ce = 1009"

definition GetDirByBundleNameAndAppIndex :: "call_env \<Rightarrow> string \<Rightarrow> int \<Rightarrow> bool \<times> string" where
  "GetDirByBundleNameAndAppIndex ce bundleName appIndex =
     (case ce_dir ce bundleName appIndex of None \<Rightarrow> (False, bundleName) | Some dirName \<Rightarrow> (True, dirName))"

definition GetAlterableBundleNameByTokenId :: "call_env \<Rightarrow> int \<Rightarrow> string" where
  "GetAlterableBundleNameByTokenId ce tokenId =
     (if ce_tokenType ce tokenId = TOKEN_HAP
      then case ce_hapInfo ce tokenId of
             None \<Rightarrow> ''''
           | Some h \<Rightarrow> snd (GetDirByBundleNameAndAppIndex ce (hi_bundleName h) (hi_instIndex h))
      else '''')"

definition GenerateFUDAppInfo :: "call_env \<Rightarrow> fud_app \<Rightarrow> bool \<Rightarrow> bool \<times> fud_app" where
  "GenerateFUDAppInfo ce info supportSA =
     (if ce_tokenType ce (fa_tokenId info) = TOKEN_HAP
      then case ce_hapInfo ce (fa_tokenId info) of
             None \<Rightarrow> (False, info)
           | Some h \<Rightarrow> let (ok, dir) = GetDirByBundleNameAndAppIndex ce (hi_bundleName h) (hi_instIndex h)
                       in (ok, info\<lparr>fa_userId := hi_userID h, fa_bundleName := hi_bundleName h, fa_alterBundleName := dir\<rparr>)
      else if supportSA \<and> ce_tokenType ce (fa_tokenId info) = TOKEN_NATIVE
      then (True, info\<lparr>fa_isSA := True, fa_userId := 0\<rparr>)
      else (False, info))"

definition IsSandboxApp :: "call_env \<Rightarrow> int \<Rightarrow> bool" where
  "IsSandboxApp ce tokenId =
     (if ce_tokenType ce tokenId = TOKEN_HAP
      then case ce_hapInfo ce tokenId of None \<Rightarrow> False | Some h \<Rightarrow> IsDlpIndex (hi_instIndex h)
      else False)"

definition GetTokenIdByBundleName :: "upm_codes \<Rightarrow> call_env \<Rightarrow> string \<Rightarrow> int \<Rightarrow> int \<Rightarrow> int \<times> int" where
  "GetTokenIdByBundleName k ce bundleName appIndex userId =
     (let found = (if appIndex = 0 then ce_bundleToken ce bundleName userId
                   else if IsAppCloneIndex appIndex \<or> IsSandboxCloneIndex appIndex then ce_cloneToken ce bundleName appIndex userId
                   else ce_sandboxToken ce bundleName appIndex userId)
      in case found of None \<Rightarrow> (ERR_GET_TARGET_BUNDLE_INFO_FAILED k, 0) | Some tokenId \<Rightarrow> (ERR_OK, tokenId))"

definition CheckUriTypeIsValid :: "uri \<Rightarrow> bool" where
  "CheckUriTypeIsValid u = (if uri_scheme u \<noteq> FILE_SCHEME \<and> uri_scheme u \<noteq> ANCO_SCHEME then False else True)"

definition IsDocsCloudUri :: "uri \<Rightarrow> bool" where
  "IsDocsCloudUri u \<longleftrightarrow> uri_authority u = DOCS_AUTHORITY \<and> str_find DISTRIBUTED_DOCS_URI_MARK (uri_str u) \<noteq> None"

text \<open>The environment of the record maps, as the calling process and the token kit determine it.\<close>

definition upmEnv :: "call_env \<Rightarrow> upm_env" where
  "upmEnv ce = (ce_upm ce)\<lparr>pe_isFoundation := IsFoundationCall ce, pe_isUdmfOrPasteboard := IsUdmfOrPasteboardCall ce,
     pe_callingToken := ce_token ce, pe_bundleOf := GetAlterableBundleNameByTokenId ce,
     pe_authority := (\<lambda>str. uri_authority (ue_parse (ce_uri ce) str)),
     pe_path := (\<lambda>str. pl_path (GetPathPolicyInfoFromUri (ce_uri ce) (ue_parse (ce_uri ce) str) FLAG_READ_WRITE_URI))\<rparr>"

section \<open>Granting what was checked\<close>

datatype grant_call = MediaGrant "string list" | SetPolicy "policy list" | ContentGrant "string list" | ShareFiles "string list"

type_synonym reply = "int \<times> int option"

definition WrapErrorCode :: "int \<Rightarrow> reply" where
  "WrapErrorCode errorCode = (ERR_OK, Some errorCode)"

definition called :: "('a list \<Rightarrow> grant_call) \<Rightarrow> 'a list \<Rightarrow> grant_call list" where
  "called f xs = (if xs = [] then [] else [f xs])"

definition GrantBatchMediaUriPermissionImpl :: "upm_codes \<Rightarrow> call_env \<Rightarrow> string list \<Rightarrow> 32 word \<Rightarrow> int \<Rightarrow> int \<Rightarrow> int \<Rightarrow> int" where
  "GrantBatchMediaUriPermissionImpl k ce mediaUris flag callerTokenId targetTokenId hideSensitiveType =
     (if mediaUris = [] then INNER_ERR k
      else case ce_mediaGrant ce of
        None \<Rightarrow> INNER_ERR k
      | Some grant \<Rightarrow> grant mediaUris (flag AND FLAG_READ_WRITE_URI) callerTokenId targetTokenId hideSensitiveType)"

definition DEFAULT_HIDE_SENSITIVE_TYPE :: int where
  "DEFAULT_HIDE_SENSITIVE_TYPE = 4"

definition GrantUriPermissionInner ::
  "upm_codes \<Rightarrow> call_env \<Rightarrow> batch_uri \<Rightarrow> 32 word \<Rightarrow> fud_app \<Rightarrow> fud_app \<Rightarrow> upm \<Rightarrow> (int \<times> grant_call list \<times> upm) cpp" where
  "GrantUriPermissionInner k ce b flag callerInfo targetInfo s =
     cpp_bind (GetMediaUriToGrant (bu_mediaUris b) (bu_mediaIndexes b) b) (\<lambda>mediaUriVec.
     cpp_bind (GetUriToGrantByPolicy b) (\<lambda>(docs, bundle).
     let ok0 = (bu_targetBundleUriCount b > 0);
         ok1 = (length mediaUriVec > 0 \<and> GrantBatchMediaUriPermissionImpl k ce mediaUriVec flag (fa_tokenId callerInfo)
                  (fa_tokenId targetInfo) DEFAULT_HIDE_SENSITIVE_TYPE = ERR_OK);
         (ret2, s2) = GrantBatchUriPermissionImplByPolicy k (upmEnv ce) bundle flag callerInfo targetInfo s;
         (ret3, s3) = GrantBatchUriPermissionImplByPolicy k (upmEnv ce) docs flag callerInfo targetInfo s2;
         ok3 = (ok0 \<or> ok1 \<or> ret2 = ERR_OK \<or> ret3 = ERR_OK);
         calls = called MediaGrant mediaUriVec @ called SetPolicy bundle @ called SetPolicy docs
     in if \<not> IsUdmfOrPasteboardCall ce then Inr (if ok3 then ERR_OK else INNER_ERR k, calls, s3)
        else let (ret4, s4) = GrantBatchContentUriPermissionImpl k (upmEnv ce) (bu_contentUris b) flag
                                (fa_tokenId targetInfo) (fa_bundleName targetInfo) s3
             in Inr (if ok3 \<or> ret4 = ERR_OK then ERR_OK else INNER_ERR k,
                     calls @ called ContentGrant (bu_contentUris b), s4)))"

section \<open>Grants by applications\<close>

definition CheckCalledBySandBox :: "upm_codes \<Rightarrow> call_env \<Rightarrow> int" where
  "CheckCalledBySandBox k ce = (if IsSandboxApp ce (ce_token ce) then ERR_CODE_GRANT_URI_PERMISSION k else ERR_OK)"

definition CheckGrantUriPermission :: "upm_codes \<Rightarrow> call_env \<Rightarrow> string list \<Rightarrow> 32 word \<Rightarrow> int" where
  "CheckGrantUriPermission k ce uriVec flag =
     (if \<not> IsSAOrSystemAppCall ce then ERR_NOT_SYSTEM_APP k
      else if CheckCalledBySandBox k ce \<noteq> ERR_OK then CheckCalledBySandBox k ce
      else if uriVec = [] \<or> length uriVec > MAX_URI_COUNT then ERR_LIST_OUT_OF_RANGE k
      else if flag AND FLAG_READ_WRITE_URI = 0 then ERR_CODE_INVALID_URI_FLAG k
      else ERR_OK)"

definition rwMode :: "32 word \<Rightarrow> 32 word" where
  "rwMode flag = (flag OR FLAG_READ_URI) AND (FLAG_READ_WRITE_URI OR FLAG_PERSIST_URI)"

text \<open>The common end of the grants on behalf of an application: split, check, grant.\<close>

definition checkAndGrant ::
  "upm_codes \<Rightarrow> call_env \<Rightarrow> string list \<Rightarrow> 32 word \<Rightarrow> fud_app \<Rightarrow> fud_app \<Rightarrow> upm \<Rightarrow> (reply \<times> grant_call list \<times> upm) cpp" where
  "checkAndGrant k ce uriVec flag callerInfo targetInfo s =
     (let haveSandboxAccessPermission = ue_permission (ce_uri ce) (fa_tokenId callerInfo) PERMISSION_SANDBOX_ACCESS_MANAGER;
          (valid, b) = bu_Init (ce_uri ce) uriVec (rwMode flag) (fa_alterBundleName callerInfo) (fa_alterBundleName targetInfo)
                         haveSandboxAccessPermission emptyBatch
      in if valid = 0 then Inr (WrapErrorCode (ERR_CODE_INVALID_URI_TYPE k), [], s)
         else
         cpp_bind (CheckUriPermission k (ce_uri ce) flag (fa_tokenId callerInfo) (fa_alterBundleName callerInfo) b) (\<lambda>(checkRet, b1).
         if checkRet \<noteq> ERR_OK \<and> (\<not> IsUdmfOrPasteboardCall ce \<or> bu_contentUris b1 = [])
         then Inr (WrapErrorCode checkRet, [], s)
         else cpp_bind (GrantUriPermissionInner k ce b1 flag callerInfo targetInfo s) (\<lambda>(grantRet, calls, s1).
              Inr (WrapErrorCode grantRet, calls, s1))))"

definition GrantUriPermission ::
  "upm_codes \<Rightarrow> call_env \<Rightarrow> string list \<Rightarrow> 32 word \<Rightarrow> string \<Rightarrow> int \<Rightarrow> int \<Rightarrow> upm \<Rightarrow> (reply \<times> grant_call list \<times> upm) cpp" where
  "GrantUriPermission k ce uriVec flag targetBundleName appIndex initiatorTokenId s =
     (let ret = CheckGrantUriPermission k ce uriVec flag in
      if ret \<noteq> ERR_OK then Inr (WrapErrorCode ret, [], s)
      else
      let curUserId = ce_account ce;
          (ret, targetTokenId) = GetTokenIdByBundleName k ce targetBundleName appIndex curUserId in
      if ret \<noteq> ERR_OK then Inr (WrapErrorCode ret, [], s)
      else
      let callerTokenId = (if \<not> IsPrivilegedSACall ce then ce_token ce else initiatorTokenId)
      in checkAndGrant k ce uriVec flag
           \<lparr>fa_tokenId = callerTokenId, fa_bundleName = '''', fa_alterBundleName = GetAlterableBundleNameByTokenId ce callerTokenId,
            fa_userId = curUserId, fa_isSA = False\<rparr>
           \<lparr>fa_tokenId = targetTokenId, fa_bundleName = targetBundleName,
            fa_alterBundleName = snd (GetDirByBundleNameAndAppIndex ce targetBundleName appIndex),
            fa_userId = curUserId, fa_isSA = False\<rparr> s)"

definition GrantUriPermissionSingle ::
  "upm_codes \<Rightarrow> call_env \<Rightarrow> uri \<Rightarrow> 32 word \<Rightarrow> string \<Rightarrow> int \<Rightarrow> int \<Rightarrow> upm \<Rightarrow> (reply \<times> grant_call list \<times> upm) cpp" where
  "GrantUriPermissionSingle k ce u flag targetBundleName appIndex initiatorTokenId s =
     (if ce_isSystemAppCall ce \<and> uri_scheme u \<noteq> FILE_SCHEME
      then Inr (WrapErrorCode (ERR_CODE_INVALID_URI_TYPE k), [], s)
      else cpp_bind (GrantUriPermission k ce [uri_str u] flag targetBundleName appIndex initiatorTokenId s)
             (\<lambda>((_, funcResult), calls, s1). Inr ((ERR_OK, funcResult), calls, s1)))"

definition rawCode :: "upm_codes \<Rightarrow> raw_error \<Rightarrow> int" where
  "rawCode k e = (case e of ERR_DEAD_OBJECT \<Rightarrow> DEAD_OBJECT_CODE k | ERR_URI_LIST_OUT_OF_RANGE \<Rightarrow> ERR_LIST_OUT_OF_RANGE k
     | INVALID_PARAMETERS_ERR \<Rightarrow> INVALID_PARAMETERS_CODE k)"

definition GrantUriPermissionRaw ::
  "upm_codes \<Rightarrow> call_env \<Rightarrow> string option \<Rightarrow> 32 word \<Rightarrow> string \<Rightarrow> int \<Rightarrow> int \<Rightarrow> upm \<Rightarrow> (reply \<times> grant_call list \<times> upm) cpp" where
  "GrantUriPermissionRaw k ce rawData flag targetBundleName appIndex initiatorTokenId s =
     (if \<not> IsSAOrSystemAppCall ce then Inr (WrapErrorCode (ERR_NOT_SYSTEM_APP k), [], s)
      else case RawDataToStringVec rawData of
        Inl e \<Rightarrow> Inr (WrapErrorCode (rawCode k e), [], s)
      | Inr uriVec \<Rightarrow> GrantUriPermission k ce uriVec flag targetBundleName appIndex initiatorTokenId s)"


text \<open>Grants between tokens; some parameter errors are returned as \<open>ErrCode\<close> without a \<open>funcResult\<close>.\<close>

definition ERR_UPMS_GET_FILE_URIS_BY_KEY_FAILED :: int where
  "ERR_UPMS_GET_FILE_URIS_BY_KEY_FAILED = 2097340"

definition ERR_UPMS_NO_PERMISSION_GRANT_URI :: int where
  "ERR_UPMS_NO_PERMISSION_GRANT_URI = 2097341"

definition ERR_UPMS_INVALID_CALLER_TOKENID :: int where
  "ERR_UPMS_INVALID_CALLER_TOKENID = 2097342"

definition ERR_UPMS_INVALID_TARGET_TOKENID :: int where
  "ERR_UPMS_INVALID_TARGET_TOKENID = 2097343"

definition ERR_UPMS_ADD_PRIVILEGED_FAILED :: int where
  "ERR_UPMS_ADD_PRIVILEGED_FAILED = 2097344"

definition ERR_UPMS_GET_ORI_URI_FAILED :: int where
  "ERR_UPMS_GET_ORI_URI_FAILED = 2097345"

definition ERR_UPMS_NOT_FILE_URI :: int where
  "ERR_UPMS_NOT_FILE_URI = 2097346"

definition ERR_UPMS_KEY_IS_NOT_CREATE_BY_CALLER :: int where
  "ERR_UPMS_KEY_IS_NOT_CREATE_BY_CALLER = 2097348"

definition ERR_UPMS_GRANT_URI_PERMISSION_FAILED :: int where
  "ERR_UPMS_GRANT_URI_PERMISSION_FAILED = 2097347"

lemmas upms_codes = ERR_UPMS_GET_FILE_URIS_BY_KEY_FAILED_def ERR_UPMS_NO_PERMISSION_GRANT_URI_def
  ERR_UPMS_INVALID_CALLER_TOKENID_def ERR_UPMS_INVALID_TARGET_TOKENID_def ERR_UPMS_ADD_PRIVILEGED_FAILED_def ERR_UPMS_GET_ORI_URI_FAILED_def
  ERR_UPMS_NOT_FILE_URI_def ERR_UPMS_KEY_IS_NOT_CREATE_BY_CALLER_def ERR_UPMS_GRANT_URI_PERMISSION_FAILED_def

definition fudApp :: "int \<Rightarrow> fud_app" where
  "fudApp tokenId = \<lparr>fa_tokenId = tokenId, fa_bundleName = '''', fa_alterBundleName = '''', fa_userId = -1, fa_isSA = False\<rparr>"

definition CheckGrantUriPermissionParamsWithTokenId ::
  "upm_codes \<Rightarrow> call_env \<Rightarrow> string list \<Rightarrow> 32 word \<Rightarrow> int \<Rightarrow> int \<Rightarrow> int" where
  "CheckGrantUriPermissionParamsWithTokenId k ce uriVec flag oriCallerTokenId targetTokenId =
     (if \<not> ue_permission (ce_uri ce) (ce_token ce) PERMISSION_GRANT_URI_PERMISSION_PRIVILEGED then CHECK_PERMISSION_FAILED k
      else if CheckCalledBySandBox k ce \<noteq> ERR_OK then CheckCalledBySandBox k ce
      else if flag AND FLAG_READ_WRITE_URI = 0 then ERR_CODE_INVALID_URI_FLAG k
      else if uriVec = [] \<or> length uriVec > MAX_URI_COUNT then ERR_LIST_OUT_OF_RANGE k
      else if oriCallerTokenId = 0 then ERR_UPMS_INVALID_CALLER_TOKENID
      else if targetTokenId = 0 then ERR_UPMS_INVALID_TARGET_TOKENID
      else ERR_OK)"

definition GrantUriPermissionToken ::
  "upm_codes \<Rightarrow> call_env \<Rightarrow> string list \<Rightarrow> 32 word \<Rightarrow> int \<Rightarrow> int \<Rightarrow> upm \<Rightarrow> (reply \<times> grant_call list \<times> upm) cpp" where
  "GrantUriPermissionToken k ce uriVec flag targetTokenId oriCallerTokenId s =
     (let ret = CheckGrantUriPermissionParamsWithTokenId k ce uriVec flag oriCallerTokenId targetTokenId in
      if ret \<noteq> ERR_OK then Inr (WrapErrorCode ret, [], s)
      else
      let (callerOk, callerInfo) = GenerateFUDAppInfo ce (fudApp oriCallerTokenId) True in
      if \<not> callerOk then Inr ((ERR_UPMS_INVALID_CALLER_TOKENID, None), [], s)
      else
      let (targetOk, targetInfo) = GenerateFUDAppInfo ce (fudApp targetTokenId) False in
      if \<not> targetOk then Inr ((ERR_UPMS_INVALID_TARGET_TOKENID, None), [], s)
      else if fa_userId callerInfo \<noteq> fa_userId targetInfo \<and> \<not> fa_isSA callerInfo \<and> fa_userId callerInfo \<noteq> 0 \<and> fa_userId targetInfo \<noteq> 0
      then Inr ((ERR_UPMS_INVALID_TARGET_TOKENID, None), [], s)
      else checkAndGrant k ce uriVec flag callerInfo targetInfo s)"

definition GrantUriPermissionTokenRaw ::
  "upm_codes \<Rightarrow> call_env \<Rightarrow> string option \<Rightarrow> 32 word \<Rightarrow> int \<Rightarrow> int \<Rightarrow> upm \<Rightarrow> (reply \<times> grant_call list \<times> upm) cpp" where
  "GrantUriPermissionTokenRaw k ce rawData flag targetTokenId oriCallerTokenId s =
     (if \<not> ue_permission (ce_uri ce) (ce_token ce) PERMISSION_GRANT_URI_PERMISSION_PRIVILEGED
      then Inr (WrapErrorCode (CHECK_PERMISSION_FAILED k), [], s)
      else case RawDataToStringVec rawData of
        Inl e \<Rightarrow> Inr (WrapErrorCode (rawCode k e), [], s)
      | Inr uriVec \<Rightarrow> GrantUriPermissionToken k ce uriVec flag targetTokenId oriCallerTokenId s)"

section \<open>Privileged grants\<close>

text \<open>\<open>BatchStringUri\<close>: the URIs of a privileged request by kind; no permission of the granting application is checked.\<close>

record batch_string_uri =
  bs_uriStrVec :: "string list"
  bs_contentUris :: "string list"
  bs_mediaUriVec :: "string list"
  bs_policyVec :: "policy list"

definition CheckGrantUriPermissionPrivileged :: "upm_codes \<Rightarrow> call_env \<Rightarrow> int \<Rightarrow> 32 word \<Rightarrow> int" where
  "CheckGrantUriPermissionPrivileged k ce callerTokenId flag =
     (if \<not> ue_permission (ce_uri ce) callerTokenId PERMISSION_GRANT_URI_PERMISSION_PRIVILEGED then CHECK_PERMISSION_FAILED k
      else if flag AND FLAG_READ_WRITE_URI = 0 then ERR_CODE_INVALID_URI_FLAG k
      else ERR_OK)"

definition GrantUriPermissionPrivilegedImpl ::
  "upm_codes \<Rightarrow> call_env \<Rightarrow> batch_string_uri \<Rightarrow> 32 word \<Rightarrow> fud_app \<Rightarrow> fud_app \<Rightarrow> int \<Rightarrow> upm \<Rightarrow> int \<times> grant_call list \<times> upm" where
  "GrantUriPermissionPrivilegedImpl k ce batchUris flag callerInfo targetAppInfo hideSensitiveType s =
     (let (ret1, s1) = GrantBatchUriPermissionImpl k (upmEnv ce) (bs_uriStrVec batchUris) flag (fa_tokenId callerInfo) (fa_tokenId targetAppInfo) s;
          ret2 = GrantBatchMediaUriPermissionImpl k ce (bs_mediaUriVec batchUris) flag (fa_tokenId callerInfo) (fa_tokenId targetAppInfo) hideSensitiveType;
          (ret3, s3) = GrantBatchUriPermissionImplByPolicy k (upmEnv ce) (bs_policyVec batchUris) flag callerInfo targetAppInfo s1;
          (ret4, s4) = GrantBatchContentUriPermissionImpl k (upmEnv ce) (bs_contentUris batchUris) flag
                         (fa_tokenId targetAppInfo) (fa_bundleName targetAppInfo) s3
      in (if ret1 = ERR_OK \<or> ret2 = ERR_OK \<or> ret3 = ERR_OK \<or> ret4 = ERR_OK then ERR_OK else INNER_ERR k,
          called ShareFiles (bs_uriStrVec batchUris) @ called MediaGrant (bs_mediaUriVec batchUris) @
          called SetPolicy (bs_policyVec batchUris) @ called ContentGrant (bs_contentUris batchUris), s4))"

text \<open>The loop gives the number of valid URIs, whether one belongs to the target, and the groups; a missing type is a fault.\<close>

fun privilegedLoop ::
  "uri_env \<Rightarrow> 32 word \<Rightarrow> string \<Rightarrow> uri list \<Rightarrow> int list \<Rightarrow> nat \<times> bool \<times> batch_string_uri \<Rightarrow> (nat \<times> bool \<times> batch_string_uri) cpp" where
  "privilegedLoop ev mode targetName [] types acc = Inr acc"
| "privilegedLoop ev mode targetName (u # us) types (n, ok, bs) =
     (if \<not> CheckUriTypeIsValid u then privilegedLoop ev mode targetName us (tl types) (n, ok, bs)
      else if uri_scheme u = ANCO_SCHEME
      then privilegedLoop ev mode targetName us (tl types) (n + 1, ok, bs\<lparr>bs_contentUris := bs_contentUris bs @ [uri_str u]\<rparr>)
      else if IsDocsCloudUri u
      then privilegedLoop ev mode targetName us (tl types) (n + 1, ok, bs\<lparr>bs_uriStrVec := bs_uriStrVec bs @ [uri_str u]\<rparr>)
      else if uri_authority u = targetName then privilegedLoop ev mode targetName us (tl types) (n + 1, True, bs)
      else if uri_authority u = MEDIA_AUTHORITY
      then privilegedLoop ev mode targetName us (tl types) (n + 1, ok, bs\<lparr>bs_mediaUriVec := bs_mediaUriVec bs @ [uri_str u]\<rparr>)
      else case types of
             [] \<Rightarrow> Inl OutOfRange
           | ty # types' \<Rightarrow> privilegedLoop ev mode targetName us types'
               (n + 1, ok, bs\<lparr>bs_policyVec := bs_policyVec bs @ [(GetPathPolicyInfoFromUri ev u mode)\<lparr>pl_type := ty\<rparr>]\<rparr>))"

definition emptyStrings :: batch_string_uri where
  "emptyStrings = \<lparr>bs_uriStrVec = [], bs_contentUris = [], bs_mediaUriVec = [], bs_policyVec = []\<rparr>"

definition GrantUriPermissionPrivilegedInner ::
  "upm_codes \<Rightarrow> call_env \<Rightarrow> uri list \<Rightarrow> 32 word \<Rightarrow> fud_app \<Rightarrow> fud_app \<Rightarrow> int \<Rightarrow> int list \<Rightarrow> upm \<Rightarrow> (int \<times> grant_call list \<times> upm) cpp" where
  "GrantUriPermissionPrivilegedInner k ce uriVec flag callerInfo targetAppInfo hideSensitiveType permissionTypes s =
     cpp_bind (privilegedLoop (ce_uri ce) (rwMode flag) (fa_alterBundleName targetAppInfo) uriVec permissionTypes (0, False, emptyStrings))
       (\<lambda>(validUriCount, ok, batchUris).
        if validUriCount = 0 then Inr (ERR_CODE_INVALID_URI_TYPE k, [], s)
        else let (ret, calls, s1) = GrantUriPermissionPrivilegedImpl k ce batchUris flag callerInfo targetAppInfo hideSensitiveType s
             in Inr (if ret = ERR_OK \<or> ok then ERR_OK else INNER_ERR k, calls, s1))"

definition GrantUriPermissionPrivileged ::
  "upm_codes \<Rightarrow> call_env \<Rightarrow> string list \<Rightarrow> 32 word \<Rightarrow> string \<Rightarrow> int \<Rightarrow> int \<Rightarrow> int \<Rightarrow> upm \<Rightarrow> (reply \<times> grant_call list \<times> upm) cpp" where
  "GrantUriPermissionPrivileged k ce uriVec flag targetBundleName appIndex initiatorTokenId hideSensitiveType s =
     (if length uriVec = 0 \<or> length uriVec > MAX_URI_COUNT then Inr ((ERR_LIST_OUT_OF_RANGE k, Some (ERR_LIST_OUT_OF_RANGE k)), [], s)
      else
      let checkRes = CheckGrantUriPermissionPrivileged k ce (ce_token ce) flag in
      if checkRes \<noteq> ERR_OK then Inr (WrapErrorCode checkRes, [], s)
      else
      let curUserId = ce_account ce;
          (ret, targetTokenId) = GetTokenIdByBundleName k ce targetBundleName appIndex curUserId in
      if ret \<noteq> ERR_OK then Inr (WrapErrorCode ret, [], s)
      else
      let callerTokenId = (if IsFoundationCall ce then initiatorTokenId else ce_token ce);
          hideType = (if IsFoundationCall ce then hideSensitiveType else DEFAULT_HIDE_SENSITIVE_TYPE);
          callerInfo = \<lparr>fa_tokenId = callerTokenId, fa_bundleName = '''',
            fa_alterBundleName = GetAlterableBundleNameByTokenId ce callerTokenId, fa_userId = curUserId, fa_isSA = False\<rparr>;
          targetInfo = \<lparr>fa_tokenId = targetTokenId, fa_bundleName = targetBundleName,
            fa_alterBundleName = snd (GetDirByBundleNameAndAppIndex ce targetBundleName appIndex), fa_userId = curUserId, fa_isSA = False\<rparr>
      in cpp_bind (GrantUriPermissionPrivilegedInner k ce (parsed (ce_uri ce) uriVec) flag callerInfo targetInfo hideType
                     (replicate (length uriVec) 0) s)
           (\<lambda>(ret, calls, s1). Inr (WrapErrorCode ret, calls, s1)))"

definition GrantUriPermissionPrivilegedRaw ::
  "upm_codes \<Rightarrow> call_env \<Rightarrow> string option \<Rightarrow> 32 word \<Rightarrow> string \<Rightarrow> int \<Rightarrow> int \<Rightarrow> int \<Rightarrow> upm \<Rightarrow> (reply \<times> grant_call list \<times> upm) cpp" where
  "GrantUriPermissionPrivilegedRaw k ce rawData flag targetBundleName appIndex initiatorTokenId hideSensitiveType s =
     (let checkRes = CheckGrantUriPermissionPrivileged k ce (ce_token ce) flag in
      if checkRes \<noteq> ERR_OK then Inr (WrapErrorCode checkRes, [], s)
      else case RawDataToStringVec rawData of
        Inl e \<Rightarrow> Inr ((rawCode k e, Some (rawCode k e)), [], s)
      | Inr uriVec \<Rightarrow> GrantUriPermissionPrivileged k ce uriVec flag targetBundleName appIndex initiatorTokenId hideSensitiveType s)"

definition GrantUriPermissionWithType ::
  "upm_codes \<Rightarrow> call_env \<Rightarrow> uri list \<Rightarrow> 32 word \<Rightarrow> string \<Rightarrow> int \<Rightarrow> int \<Rightarrow> int \<Rightarrow> int list \<Rightarrow> upm \<Rightarrow> (reply \<times> grant_call list \<times> upm) cpp" where
  "GrantUriPermissionWithType k ce uriVec flag targetBundleName appIndex initiatorTokenId hideSensitiveType permissionTypes s =
     (if \<not> IsFoundationCall ce then Inr (WrapErrorCode (CHECK_PERMISSION_FAILED k), [], s)
      else if uriVec = [] \<or> length uriVec > MAX_URI_COUNT \<or> length uriVec \<noteq> length permissionTypes
      then Inr (WrapErrorCode (ERR_LIST_OUT_OF_RANGE k), [], s)
      else if flag AND FLAG_READ_WRITE_URI = 0 then Inr (WrapErrorCode (ERR_CODE_INVALID_URI_FLAG k), [], s)
      else if initiatorTokenId = 0 then Inr (WrapErrorCode ERR_UPMS_INVALID_CALLER_TOKENID, [], s)
      else
      let curUserId = ce_account ce;
          (ret, targetTokenId) = GetTokenIdByBundleName k ce targetBundleName appIndex curUserId in
      if ret \<noteq> ERR_OK then Inr (WrapErrorCode ret, [], s)
      else
      let targetInfo = \<lparr>fa_tokenId = targetTokenId, fa_bundleName = targetBundleName,
            fa_alterBundleName = snd (GetDirByBundleNameAndAppIndex ce targetBundleName appIndex), fa_userId = curUserId, fa_isSA = False\<rparr>;
          callerInfo = \<lparr>fa_tokenId = initiatorTokenId, fa_bundleName = '''',
            fa_alterBundleName = GetAlterableBundleNameByTokenId ce initiatorTokenId, fa_userId = curUserId, fa_isSA = False\<rparr>
      in cpp_bind (GrantUriPermissionPrivilegedInner k ce uriVec flag callerInfo targetInfo hideSensitiveType permissionTypes s)
           (\<lambda>(ret, calls, s1). Inr (WrapErrorCode ret, calls, s1)))"

section \<open>Grants by a UDMF key\<close>

text \<open>
  \<open>upms_udmf_utils.cpp\<close>: the URIs of a unified data key; a record is \<open>None\<close> when it has no file entry.  The URIs of a
  key are handed over only when the caller created the key.
\<close>

fun batchLoop :: "uri_env \<Rightarrow> string option list \<Rightarrow> string list \<Rightarrow> int \<times> string list" where
  "batchLoop ev [] uris = (ERR_OK, uris)"
| "batchLoop ev (None # records) uris = (ERR_UPMS_GET_ORI_URI_FAILED, uris)"
| "batchLoop ev (Some oriUri # records) uris =
     (if oriUri = '''' then (ERR_UPMS_GET_ORI_URI_FAILED, uris)
      else if uri_scheme (ue_parse ev oriUri) \<noteq> FILE_SCHEME then (ERR_UPMS_NOT_FILE_URI, uris)
      else batchLoop ev records (uris @ [oriUri]))"

definition GetBatchData :: "call_env \<Rightarrow> string \<Rightarrow> int \<times> string list" where
  "GetBatchData ce key =
     (let (ret, unifiedDataset) = ce_batchData ce key in
      if ret \<noteq> ERR_OK then (ret, [])
      else let (ret, uris) = batchLoop (ce_uri ce) (concat unifiedDataset) [] in
           if ret \<noteq> ERR_OK then (ret, uris)
           else if uris = [] then (ERR_UPMS_GET_FILE_URIS_BY_KEY_FAILED, uris)
           else (ERR_OK, uris))"

definition IsUdKeyCreateByCaller :: "call_env \<Rightarrow> int \<Rightarrow> string \<Rightarrow> bool" where
  "IsUdKeyCreateByCaller ce callerTokenId key \<longleftrightarrow> GetAlterableBundleNameByTokenId ce callerTokenId = ce_udKeyBundle ce key"

definition ProcessUdmfKey :: "call_env \<Rightarrow> string \<Rightarrow> int \<Rightarrow> int \<Rightarrow> int \<times> string list" where
  "ProcessUdmfKey ce key callerTokenId targetTokenId =
     (if \<not> IsUdKeyCreateByCaller ce callerTokenId key then (ERR_UPMS_KEY_IS_NOT_CREATE_BY_CALLER, [])
      else if ce_addPrivilege ce key targetTokenId '''' \<noteq> ERR_OK then (ERR_UPMS_ADD_PRIVILEGED_FAILED, [])
      else if ce_addPrivilege ce key (ce_selfToken ce) ''readAndKeep'' \<noteq> ERR_OK then (ERR_UPMS_ADD_PRIVILEGED_FAILED, [])
      else let (ret, uris) = GetBatchData ce key in
           if ret \<noteq> ERR_OK then (ERR_UPMS_GET_FILE_URIS_BY_KEY_FAILED, uris) else (ERR_OK, uris))"

definition CheckGrantUriPermissionByKey :: "upm_codes \<Rightarrow> call_env \<Rightarrow> int" where
  "CheckGrantUriPermissionByKey k ce =
     (if \<not> ce_supportGrant ce then ERR_CAPABILITY_NOT_SUPPORT k
      else if \<not> ce_isSystemAppCall ce then ERR_NOT_SYSTEM_APP k
      else if CheckCalledBySandBox k ce \<noteq> ERR_OK then CheckCalledBySandBox k ce
      else ERR_OK)"

definition CheckGrantUriPermissionByKeyAsCaller :: "upm_codes \<Rightarrow> call_env \<Rightarrow> int" where
  "CheckGrantUriPermissionByKeyAsCaller k ce =
     (if \<not> ce_supportGrant ce then ERR_CAPABILITY_NOT_SUPPORT k
      else if \<not> ce_isSystemAppCall ce then ERR_NOT_SYSTEM_APP k
      else if \<not> ue_permission (ce_uri ce) (ce_token ce) PERMISSION_GRANT_URI_PERMISSION_AS_CALLER then CHECK_PERMISSION_FAILED k
      else if CheckCalledBySandBox k ce \<noteq> ERR_OK then CheckCalledBySandBox k ce
      else ERR_OK)"

definition CheckGrantUriPermissionByKeyParams ::
  "upm_codes \<Rightarrow> call_env \<Rightarrow> string \<Rightarrow> 32 word \<Rightarrow> int \<Rightarrow> int \<Rightarrow> int + (fud_app \<times> fud_app \<times> string list)" where
  "CheckGrantUriPermissionByKeyParams k ce key flag callerTokenId targetTokenId =
     (if flag AND FLAG_READ_WRITE_URI = 0 then Inl (ERR_CODE_INVALID_URI_FLAG k)
      else if callerTokenId = targetTokenId then Inl ERR_UPMS_INVALID_TARGET_TOKENID
      else
      let (callerOk, callerInfo) = GenerateFUDAppInfo ce (fudApp callerTokenId) False in
      if \<not> callerOk then Inl ERR_UPMS_INVALID_CALLER_TOKENID
      else
      let (targetOk, targetInfo) = GenerateFUDAppInfo ce (fudApp targetTokenId) False in
      if \<not> targetOk then Inl ERR_UPMS_INVALID_TARGET_TOKENID
      else if fa_userId callerInfo \<noteq> fa_userId targetInfo then Inl ERR_UPMS_INVALID_TARGET_TOKENID
      else
      let (ret, uris) = ProcessUdmfKey ce key callerTokenId targetTokenId in
      if ret \<noteq> ERR_OK then Inl ERR_UPMS_GET_FILE_URIS_BY_KEY_FAILED else Inr (callerInfo, targetInfo, uris))"

definition GrantUriPermissionByKeyInner ::
  "upm_codes \<Rightarrow> call_env \<Rightarrow> string \<Rightarrow> 32 word \<Rightarrow> int \<Rightarrow> int \<Rightarrow> upm \<Rightarrow> (int \<times> grant_call list \<times> upm) cpp" where
  "GrantUriPermissionByKeyInner k ce key flag callerTokenId targetTokenId s =
     (case CheckGrantUriPermissionByKeyParams k ce key flag callerTokenId targetTokenId of
        Inl ret \<Rightarrow> Inr (ret, [], s)
      | Inr (callerInfo, targetInfo, uris) \<Rightarrow>
          let haveSandboxAccessPermission = ue_permission (ce_uri ce) callerTokenId PERMISSION_SANDBOX_ACCESS_MANAGER;
              b = snd (bu_Init (ce_uri ce) uris (rwMode flag) (fa_alterBundleName callerInfo) (fa_alterBundleName targetInfo)
                         haveSandboxAccessPermission emptyBatch)
          in if \<not> IsAllUriValid b then Inr (ERR_UPMS_GET_FILE_URIS_BY_KEY_FAILED, [], s)
             else
             cpp_bind (CheckUriPermission k (ce_uri ce) flag callerTokenId (fa_alterBundleName callerInfo) b) (\<lambda>(_, b1).
             if \<not> IsAllUriPermissioned b1 then Inr (ERR_UPMS_NO_PERMISSION_GRANT_URI, [], s)
             else
             cpp_bind (GetAllUriToGrantByPolicy b1) (\<lambda>(_, policyVec).
             let (ret1, s1) = (if policyVec = [] then (ERR_OK, s)
                               else GrantBatchUriPermissionImplByPolicyWithoutCache k (upmEnv ce) policyVec flag callerInfo targetInfo s) in
             if ret1 \<noteq> ERR_OK then Inr (ERR_UPMS_GRANT_URI_PERMISSION_FAILED, called SetPolicy policyVec, s1)
             else
             cpp_bind (GetMediaUriToGrant (bu_mediaUris b1) (bu_mediaIndexes b1) b1) (\<lambda>mediaUriVec.
             let calls = called SetPolicy policyVec @ called MediaGrant mediaUriVec in
             if length mediaUriVec > 0 \<and>
                GrantBatchMediaUriPermissionImpl k ce mediaUriVec flag callerTokenId targetTokenId DEFAULT_HIDE_SENSITIVE_TYPE \<noteq> ERR_OK
             then Inr (ERR_UPMS_GRANT_URI_PERMISSION_FAILED, calls, s1)
             else Inr (ERR_OK, calls, s1)))))"

definition GrantUriPermissionByKey ::
  "upm_codes \<Rightarrow> call_env \<Rightarrow> string \<Rightarrow> 32 word \<Rightarrow> int \<Rightarrow> upm \<Rightarrow> (reply \<times> grant_call list \<times> upm) cpp" where
  "GrantUriPermissionByKey k ce key flag targetTokenId s =
     (let ret = CheckGrantUriPermissionByKey k ce in
      if ret \<noteq> ERR_OK then Inr (WrapErrorCode ret, [], s)
      else cpp_bind (GrantUriPermissionByKeyInner k ce key flag (ce_token ce) targetTokenId s) (\<lambda>(ret, calls, s1).
           Inr (WrapErrorCode (if ret = ERR_UPMS_INVALID_CALLER_TOKENID then INNER_ERR k else ret), calls, s1)))"

definition GrantUriPermissionByKeyAsCaller ::
  "upm_codes \<Rightarrow> call_env \<Rightarrow> string \<Rightarrow> 32 word \<Rightarrow> int \<Rightarrow> int \<Rightarrow> upm \<Rightarrow> (reply \<times> grant_call list \<times> upm) cpp" where
  "GrantUriPermissionByKeyAsCaller k ce key flag callerTokenId targetTokenId s =
     (let ret = CheckGrantUriPermissionByKeyAsCaller k ce in
      if ret \<noteq> ERR_OK then Inr (WrapErrorCode ret, [], s)
      else cpp_bind (GrantUriPermissionByKeyInner k ce key flag callerTokenId targetTokenId s) (\<lambda>(ret, calls, s1).
           Inr (WrapErrorCode ret, calls, s1)))"

section \<open>Checks, verification, revocation and activation\<close>

definition CheckUriAuthorizationWithType ::
  "upm_codes \<Rightarrow> call_env \<Rightarrow> string list \<Rightarrow> 32 word \<Rightarrow> int \<Rightarrow> (int \<times> check_result list) cpp" where
  "CheckUriAuthorizationWithType k ce uriVec flag tokenId =
     (let none = replicate (length uriVec) \<lparr>cr_result = False, cr_permissionType = 0\<rparr>; name = GetAlterableBundleNameByTokenId ce tokenId in
      if \<not> IsFoundationCall ce then Inr (CHECK_PERMISSION_FAILED k, none)
      else if uriVec = [] \<or> length uriVec > MAX_URI_COUNT then Inr (ERR_LIST_OUT_OF_RANGE k, none)
      else if flag AND FLAG_READ_WRITE_URI = 0 then Inr (ERR_CODE_INVALID_URI_FLAG k, none)
      else if tokenId = 0 then Inr (ERR_UPMS_INVALID_CALLER_TOKENID, none)
      else
      let (valid, b) = bu_Init (ce_uri ce) uriVec 0 name '''' (ue_permission (ce_uri ce) tokenId PERMISSION_SANDBOX_ACCESS_MANAGER) emptyBatch in
      if valid = 0 then Inr (ERR_OK, none)
      else cpp_bind (CheckUriPermission k (ce_uri ce) flag tokenId name b) (\<lambda>(_, b1). Inr (ERR_OK, bu_checkResult b1)))"

definition CheckUriAuthorization :: "upm_codes \<Rightarrow> call_env \<Rightarrow> string list \<Rightarrow> 32 word \<Rightarrow> int \<Rightarrow> (int \<times> bool list) cpp" where
  "CheckUriAuthorization k ce uriStrVec flag tokenId =
     (let funcResult = replicate (length uriStrVec) False; name = GetAlterableBundleNameByTokenId ce tokenId in
      if length uriStrVec = 0 \<or> length uriStrVec > MAX_URI_COUNT then Inr (ERR_LIST_OUT_OF_RANGE k, funcResult)
      else if \<not> IsPrivilegedSACall ce then Inr (ERR_OK, funcResult)
      else if flag AND FLAG_READ_WRITE_URI = 0 then Inr (ERR_OK, funcResult)
      else
      let (valid, b) = bu_Init (ce_uri ce) uriStrVec 0 name '''' (ue_permission (ce_uri ce) tokenId PERMISSION_SANDBOX_ACCESS_MANAGER) emptyBatch in
      if valid = 0 then Inr (ERR_OK, funcResult)
      else cpp_bind (CheckUriPermission k (ce_uri ce) flag tokenId name b) (\<lambda>(_, b1).
           Inr (ERR_OK, snd (SetCheckUriAuthorizationResult funcResult b1))))"

definition CheckUriAuthorizationRaw :: "upm_codes \<Rightarrow> call_env \<Rightarrow> string option \<Rightarrow> 32 word \<Rightarrow> int \<Rightarrow> (int \<times> string option) cpp" where
  "CheckUriAuthorizationRaw k ce rawData flag tokenId =
     (if \<not> IsPrivilegedSACall ce then Inr (ERR_OK, Some (BoolVecToRawData [False]))
      else case RawDataToStringVec rawData of
        Inl e \<Rightarrow> Inr (rawCode k e, Some (BoolVecToRawData [False]))
      | Inr uriStringVec \<Rightarrow>
          cpp_bind (CheckUriAuthorization k ce uriStringVec flag tokenId) (\<lambda>(errCode, resultBoolVec).
          if errCode \<noteq> ERR_OK then Inr (errCode, None)
          else let raw = BoolVecToRawData resultBoolVec in
               if length raw > MAX_IPC_RAW_DATA_SIZE then Inr (DEAD_OBJECT_CODE k, Some (BoolVecToRawData [False]))
               else Inr (ERR_OK, Some raw)))"

definition VerifyUriPermissionInner :: "call_env \<Rightarrow> uri \<Rightarrow> 32 word \<Rightarrow> int \<Rightarrow> upm \<Rightarrow> bool" where
  "VerifyUriPermissionInner ce u flag tokenId s =
     (if flag AND FLAG_READ_WRITE_URI = 0 then False
      else
      let flag = flag AND FLAG_READ_WRITE_URI in
      if uri_scheme u \<noteq> FILE_SCHEME then False
      else if uri_authority u = MEDIA_AUTHORITY then False
      else if IsDocsCloudUri u then hd (VerifyUriPermissionByMap [uri_str u] flag tokenId s)
      else hd (VerifyUriPermissionByPolicy (ce_uri ce) [GetPathPolicyInfoFromUri (ce_uri ce) u flag] tokenId))"

definition VerifyUriPermission :: "call_env \<Rightarrow> uri \<Rightarrow> 32 word \<Rightarrow> int \<Rightarrow> upm \<Rightarrow> bool" where
  "VerifyUriPermission ce u flag tokenId s =
     (if \<not> IsDFSCall ce then False else VerifyUriPermissionInner ce u flag tokenId s)"

definition RevokeMediaUriPermissionManually :: "upm_codes \<Rightarrow> call_env \<Rightarrow> int \<Rightarrow> int \<Rightarrow> string \<Rightarrow> int" where
  "RevokeMediaUriPermissionManually k ce callerTokenId targetTokenId str =
     (case ce_mediaRevoke ce of None \<Rightarrow> INNER_ERR k | Some revoke \<Rightarrow> revoke callerTokenId targetTokenId str)"

definition RevokeUriPermissionManuallyInner :: "upm_codes \<Rightarrow> call_env \<Rightarrow> uri \<Rightarrow> int \<Rightarrow> upm \<Rightarrow> int \<times> upm" where
  "RevokeUriPermissionManuallyInner k ce u targetTokenId s =
     (let callerTokenId = ce_token ce;
          ev = (upmEnv ce)\<lparr>pe_authority := (\<lambda>_. uri_authority u),
                 pe_path := (\<lambda>_. pl_path (GetPathPolicyInfoFromUri (ce_uri ce) u FLAG_READ_WRITE_URI))\<rparr> in
      if IsDocsCloudUri u
      then let (r, s1) = RevokeMapUriPermissionManually k ev callerTokenId targetTokenId (uri_str u) s in (fst r, s1)
      else if uri_authority u = MEDIA_AUTHORITY then (RevokeMediaUriPermissionManually k ce callerTokenId targetTokenId (uri_str u), s)
      else RevokePolicyUriPermissionManually ev callerTokenId targetTokenId (uri_str u) s)"

definition RevokeUriPermissionManually :: "upm_codes \<Rightarrow> call_env \<Rightarrow> uri \<Rightarrow> string \<Rightarrow> int \<Rightarrow> upm \<Rightarrow> reply \<times> upm" where
  "RevokeUriPermissionManually k ce u bundleName appIndex s =
     (if \<not> ce_isSystemAppCall ce \<and> \<not> IsBrokerCaller ce then (WrapErrorCode (CHECK_PERMISSION_FAILED k), s)
      else if \<not> CheckUriTypeIsValid u then (WrapErrorCode (ERR_CODE_INVALID_URI_TYPE k), s)
      else
      let (ret, targetTokenId) = GetTokenIdByBundleName k ce bundleName appIndex (ce_account ce) in
      if ret \<noteq> ERR_OK then (WrapErrorCode ret, s)
      else let (ret, s1) = RevokeUriPermissionManuallyInner k ce u targetTokenId s in (WrapErrorCode ret, s1))"

definition SANDBOX_MANAGER_PERMISSION_DENIED :: int where
  "SANDBOX_MANAGER_PERMISSION_DENIED = 1"

definition Active :: "upm_codes \<Rightarrow> call_env \<Rightarrow> string option \<Rightarrow> upm \<Rightarrow> (reply \<times> int list) \<times> upm" where
  "Active k ce policyRawData s =
     (if \<not> ue_permission (ce_uri ce) (ce_token ce) PERMISSION_FILE_ACCESS_PERSIST
      then ((WrapErrorCode SANDBOX_MANAGER_PERMISSION_DENIED, []), s)
      else case RawDataToPolicyInfo policyRawData of
        Inl e \<Rightarrow> (((rawCode k e, Some (rawCode k e)), []), s)
      | Inr policy \<Rightarrow>
          let (ret, res) = ce_startAccessing ce policy (ce_token ce) in
          if ret \<noteq> ERR_OK then ((WrapErrorCode ret, res), s)
          else ((WrapErrorCode ERR_OK, res), s\<lparr>um_tokens := insert (ce_token ce) (um_tokens s)\<rparr>))"


section \<open>What is handed out\<close>

definition typed :: "batch_uri \<Rightarrow> policy \<times> nat \<Rightarrow> policy" where
  "typed b e = (fst e)\<lparr>pl_type := cr_permissionType (bu_checkResult b ! snd e)\<rparr>"

lemma grantByPolicyLoop_run:
  assumes "length ps = length idx" "in_range idx b"
    and "length (bu_isTargetBundleUri b) = length (bu_checkResult b)" "length (bu_isDocsUriVec b) = length (bu_checkResult b)"
  defines "sel \<equiv> \<lambda>d. filter (\<lambda>e. cr_result (bu_checkResult b ! snd e) \<and> \<not> bu_isTargetBundleUri b ! snd e \<and> bu_isDocsUriVec b ! snd e = d)"
  shows "grantByPolicyLoop ps idx b = Inr (map (typed b) (sel True (zip ps idx)), map (typed b) (sel False (zip ps idx)))"
  using assms(1-4) unfolding sel_def
  by (induction ps idx b rule: grantByPolicyLoop.induct) (auto simp: Let_def typed_def split: if_splits)

lemma grantAllLoop_run:
  assumes "length ps = length idx" "in_range idx b" "length (bu_isTargetBundleUri b) = length (bu_checkResult b)"
    and "\<forall>i\<in>set idx. cr_result (bu_checkResult b ! i)"
  shows "grantAllLoop ps idx b = Inr (True, map (typed b) (filter (\<lambda>e. \<not> bu_isTargetBundleUri b ! snd e) (zip ps idx)))"
  using assms
  by (induction ps idx b rule: grantAllLoop.induct) (auto simp: Let_def typed_def split: if_splits)

lemma GetMedia_run:
  assumes "length us = length idx" "in_range idx b"
  shows "GetMediaUriToGrant us idx b = Inr (map fst (filter (\<lambda>e. cr_result (bu_checkResult b ! snd e)) (zip us idx)))"
  using assms
  by (induction us idx b rule: GetMediaUriToGrant.induct) (auto split: list.splits)

lemma checkedD:
  assumes "checked ev us mode fl caller target sandbox may b"
  defines "other \<equiv> groupAt (isOther caller sandbox) us" and "media \<equiv> groupAt isMedia us"
  shows "bu_otherIndexes b = other" "bu_otherPolicyInfos b = map (\<lambda>i. GetPathPolicyInfoFromUri ev (us ! i) fl) other"
    "bu_mediaIndexes b = media" "bu_mediaUris b = map (\<lambda>i. uri_str (us ! i)) media"
    "length (bu_checkResult b) = length us" "length (bu_isTargetBundleUri b) = length (bu_checkResult b)"
    "length (bu_isDocsUriVec b) = length (bu_checkResult b)"
    "bu_selfBundlePolicyInfos b = selfPolicies ev mode caller target sandbox us"
    "i < length us \<Longrightarrow> cr_result (bu_checkResult b ! i) = may (us ! i)"
    "i < length us \<Longrightarrow> bu_isTargetBundleUri b ! i = isTargets target (us ! i)"
    "i < length us \<Longrightarrow> bu_isDocsUriVec b ! i = isDocs (us ! i)"
    "bu_contentUris b = map (\<lambda>i. uri_str (us ! i)) (groupAt isContent us)"
proof -
  note c = assms(1) [unfolded checked_def shape_def, folded groupAt_def]
  show "bu_otherIndexes b = other" "bu_otherPolicyInfos b = map (\<lambda>i. GetPathPolicyInfoFromUri ev (us ! i) fl) other"
    "bu_mediaIndexes b = media" "bu_mediaUris b = map (\<lambda>i. uri_str (us ! i)) media"
    "length (bu_checkResult b) = length us" "length (bu_isTargetBundleUri b) = length (bu_checkResult b)"
    "length (bu_isDocsUriVec b) = length (bu_checkResult b)"
    "bu_selfBundlePolicyInfos b = selfPolicies ev mode caller target sandbox us"
    "bu_contentUris b = map (\<lambda>i. uri_str (us ! i)) (groupAt isContent us)"
    using c by (simp_all add: other_def media_def comp_def)
  show "bu_isTargetBundleUri b ! i = isTargets target (us ! i)" "bu_isDocsUriVec b ! i = isDocs (us ! i)" if "i < length us"
    using c that by simp_all
  show "cr_result (bu_checkResult b ! i) = may (us ! i)" if "i < length us"
  proof -
    have "map cr_result (bu_checkResult b) = map may us" "length (bu_checkResult b) = length us" using c by simp_all
    with that show ?thesis by (metis nth_map)
  qed
qed

lemma filter_groupAt: "(\<And>i. i < length us \<Longrightarrow> P i = Q i) \<Longrightarrow> filter P (groupAt q us) = filter Q (groupAt q us)"
  by (rule filter_cong) auto

lemma zip_map_self: "zip (map f idx) idx = map (\<lambda>i. (f i, i)) idx"
  by (induction idx) auto

lemma handed_policies:
  assumes c: "checked ev us mode fl caller target sandbox may b"
  shows "\<exists>docs bundle. GetUriToGrantByPolicy b = Inr (docs, bundle) \<and>
    map pl_path docs = map (\<lambda>i. ue_realPath ev (uri_str (us ! i)))
      (filter (\<lambda>i. may (us ! i) \<and> isDocs (us ! i)) (groupAt (isOther caller sandbox) us)) \<and>
    map pl_path bundle = map pl_path (selfPolicies ev mode caller target sandbox us) @ map (\<lambda>i. ue_realPath ev (uri_str (us ! i)))
      (filter (\<lambda>i. may (us ! i) \<and> \<not> isTargets target (us ! i) \<and> \<not> isDocs (us ! i)) (groupAt (isOther caller sandbox) us)) \<and>
    (\<forall>p\<in>set docs. pl_mode p = fl AND 3)"
proof -
  note d = checkedD [OF c]
  let ?other = "groupAt (isOther caller sandbox) us"
  have 3: "1 OR 2 = (3 :: 32 word)" by simp
  have path: "pl_path (typed b (GetPathPolicyInfoFromUri ev (us ! i) fl, i)) = ue_realPath ev (uri_str (us ! i))"
    "pl_mode (typed b (GetPathPolicyInfoFromUri ev (us ! i) fl, i)) = fl AND 3" for i
    by (simp_all add: typed_def GetPathPolicyInfoFromUri_def 3)
  have docs: "isDocs u \<Longrightarrow> \<not> isTargets target u" for u by (auto simp: isDocs_def isTargets_def isBundle_def)
  have run: "GetUriToGrantByPolicy b = Inr (map (\<lambda>i. typed b (GetPathPolicyInfoFromUri ev (us ! i) fl, i))
        (filter (\<lambda>i. may (us ! i) \<and> \<not> isTargets target (us ! i) \<and> isDocs (us ! i)) ?other),
      selfPolicies ev mode caller target sandbox us @ map (\<lambda>i. typed b (GetPathPolicyInfoFromUri ev (us ! i) fl, i))
        (filter (\<lambda>i. may (us ! i) \<and> \<not> isTargets target (us ! i) \<and> \<not> isDocs (us ! i)) ?other))"
  proof -
    have eq: "filter (\<lambda>i. cr_result (bu_checkResult b ! i) \<and> \<not> bu_isTargetBundleUri b ! i \<and> bu_isDocsUriVec b ! i = x) ?other =
        filter (\<lambda>i. may (us ! i) \<and> \<not> isTargets target (us ! i) \<and> isDocs (us ! i) = x) ?other" for x
      by (rule filter_groupAt) (simp add: d(9-11))
    show ?thesis
      using grantByPolicyLoop_run [of "bu_otherPolicyInfos b" "bu_otherIndexes b" b] d(5-7) eq [of True] eq [of False]
      by (simp add: GetUriToGrantByPolicy_def d(1,2,8) zip_map_self filter_map comp_def)
  qed
  then show ?thesis
    by (intro exI, intro conjI, assumption) (auto simp: path comp_def docs intro!: arg_cong [where f = "map _"] filter_cong)
qed

lemma handed_media:
  assumes c: "checked ev us mode fl caller target sandbox may b"
  shows "GetMediaUriToGrant (bu_mediaUris b) (bu_mediaIndexes b) b =
    Inr (map (\<lambda>i. uri_str (us ! i)) (filter (\<lambda>i. may (us ! i)) (groupAt isMedia us)))"
  using GetMedia_run [of "bu_mediaUris b" "bu_mediaIndexes b" b] checkedD(3-5) [OF c]
    filter_groupAt [OF checkedD(9) [OF c], where q = isMedia]
  by (simp add: zip_map_self filter_map comp_def)


fun policyPaths :: "grant_call list \<Rightarrow> string list" where
  "policyPaths [] = []"
| "policyPaths (SetPolicy ps # cs) = map pl_path ps @ policyPaths cs"
| "policyPaths (_ # cs) = policyPaths cs"

fun mediaCalled :: "grant_call list \<Rightarrow> string list" where
  "mediaCalled [] = []"
| "mediaCalled (MediaGrant us # cs) = us @ mediaCalled cs"
| "mediaCalled (_ # cs) = mediaCalled cs"

lemma policyPaths_append [simp]: "policyPaths (xs @ ys) = policyPaths xs @ policyPaths ys"
  by (induction xs rule: policyPaths.induct) auto

lemma mediaCalled_append [simp]: "mediaCalled (xs @ ys) = mediaCalled xs @ mediaCalled ys"
  by (induction xs rule: mediaCalled.induct) auto

lemma called_simps [simp]:
  "policyPaths (called SetPolicy ps) = map pl_path ps" "policyPaths (called MediaGrant us) = []"
  "policyPaths (called ContentGrant us) = []" "mediaCalled (called SetPolicy ps) = []"
  "mediaCalled (called MediaGrant us) = us" "mediaCalled (called ContentGrant us) = []"
  by (simp_all add: called_def)

text \<open>The file paths and media URIs of a request that may be handed to the target.\<close>

definition sharedPaths :: "uri_env \<Rightarrow> (uri \<Rightarrow> bool) \<Rightarrow> string \<Rightarrow> uri list \<Rightarrow> string set" where
  "sharedPaths ev may target us =
     set (map (\<lambda>u. ue_realPath ev (uri_str u)) (filter (\<lambda>u. (isDocs u \<or> isBundle u) \<and> may u \<and> \<not> isTargets target u) us))"

definition sharedMedia :: "(uri \<Rightarrow> bool) \<Rightarrow> uri list \<Rightarrow> string set" where
  "sharedMedia may us = set (map uri_str (filter (\<lambda>u. isMedia u \<and> may u) us))"

lemma rwMode_pos: "rwMode flag > 0"
proof -
  have "bit (rwMode flag) 0" by (simp add: rwMode_def bit_simps FLAG_READ_URI_def FLAG_READ_WRITE_URI_def FLAG_PERSIST_URI_def)
  then have "rwMode flag \<noteq> 0" by (metis bit_0_eq bot_apply bot_bool_def)
  then show ?thesis by (simp add: word_gt_0)
qed

lemma selfPolicies_paths:
  assumes "mode > 0"
  shows "pl_path ` set (selfPolicies ev mode caller target sandbox us) =
    {ue_realPath ev (uri_str u) |u. u \<in> set us \<and> isOwn caller sandbox u \<and> \<not> isTargets target u}"
  using assms by (auto simp: selfPolicies_def GetPathPolicyInfoFromUri_def image_iff)

lemma groupAt_image: "f ` set (filter (\<lambda>i. P (us ! i)) (groupAt q us)) = {f i |i. i < length us \<and> q (us ! i) \<and> P (us ! i)}"
  by auto

lemma GrantInner_calls:
  assumes c: "checked (ce_uri ce) us mode fl caller target sandbox may b" and mode: "mode > 0"
    and own: "\<And>u. isOwn caller sandbox u \<Longrightarrow> may u"
  shows "\<exists>ret calls s'. GrantUriPermissionInner k ce b flag callerInfo targetInfo s = Inr (ret, calls, s') \<and>
    set (policyPaths calls) = sharedPaths (ce_uri ce) may target us \<and> set (mediaCalled calls) = sharedMedia may us"
proof -
  let ?p = "\<lambda>i. ue_realPath (ce_uri ce) (uri_str (us ! i))" and ?other = "groupAt (isOther caller sandbox) us"
  obtain docs bundles where run: "GetUriToGrantByPolicy b = Inr (docs, bundles)"
    and d: "map pl_path docs = map ?p (filter (\<lambda>i. may (us ! i) \<and> isDocs (us ! i)) ?other)"
    and bn: "map pl_path bundles = map pl_path (selfPolicies (ce_uri ce) mode caller target sandbox us) @
      map ?p (filter (\<lambda>i. may (us ! i) \<and> \<not> isTargets target (us ! i) \<and> \<not> isDocs (us ! i)) ?other)"
    using handed_policies [OF c] by blast
  have media: "GetMediaUriToGrant (bu_mediaUris b) (bu_mediaIndexes b) b =
      Inr (map (\<lambda>i. uri_str (us ! i)) (filter (\<lambda>i. may (us ! i)) (groupAt isMedia us)))"
    by (rule handed_media [OF c])
  have kinds: "isDocs u \<or> isBundle u \<longleftrightarrow> isOwn caller sandbox u \<or> isOther caller sandbox u"
    "isDocs u \<Longrightarrow> \<not> isTargets target u" for u by (auto simp: kind_defs)
  have paths: "pl_path ` set bundles \<union> pl_path ` set docs = sharedPaths (ce_uri ce) may target us"
  proof -
    have "pl_path ` set bundles = set (map pl_path bundles)" "pl_path ` set docs = set (map pl_path docs)" by simp_all
    then show ?thesis
      unfolding d bn set_append set_map selfPolicies_paths [OF mode] groupAt_image sharedPaths_def kinds(1)
      using own kinds(2) by (auto simp: in_set_conv_nth)
  qed
  have m: "set (map (\<lambda>i. uri_str (us ! i)) (filter (\<lambda>i. may (us ! i)) (groupAt isMedia us))) = sharedMedia may us"
    by (auto simp: sharedMedia_def in_set_conv_nth)
  show ?thesis
    unfolding GrantUriPermissionInner_def media run cpp_bind_Inr case_prod_conv Let_def
    using paths m by (auto simp: case_prod_beta)
qed


lemma own_permitted: "isOwn caller sandbox u \<Longrightarrow> permitted ev fl tok caller sandbox photo persisted proxied content u"
  by (simp add: permitted_def Let_def)

lemma permitted_valid: "permitted ev fl tok caller sandbox photo persisted proxied content u \<Longrightarrow> isValid u"
  by (auto simp: permitted_def Let_def kind_defs)

lemma sharedNone: "(\<And>u. u \<in> set us \<Longrightarrow> \<not> may u) \<Longrightarrow> sharedPaths ev may target us = {} \<and> sharedMedia may us = {}"
  by (auto simp: sharedPaths_def sharedMedia_def)

definition mayShare ::
  "call_env \<Rightarrow> 32 word \<Rightarrow> fud_app \<Rightarrow> (string \<Rightarrow> bool) \<Rightarrow> (policy \<Rightarrow> bool) \<Rightarrow> (policy \<Rightarrow> bool) \<Rightarrow> (string \<Rightarrow> bool) \<Rightarrow> uri \<Rightarrow> bool" where
  "mayShare ce flag callerInfo photo persisted proxied content =
     permitted (ce_uri ce) (flag AND FLAG_READ_WRITE_URI) (fa_tokenId callerInfo) (fa_alterBundleName callerInfo)
       (ue_permission (ce_uri ce) (fa_tokenId callerInfo) PERMISSION_SANDBOX_ACCESS_MANAGER) photo persisted proxied content"

lemma checkAndGrant_calls:
  assumes "strs \<noteq> []" "pointwise (ce_uri ce) (fa_tokenId callerInfo) photo persisted proxied content"
  shows "\<exists>r calls s'. checkAndGrant k ce strs flag callerInfo targetInfo s = Inr (r, calls, s') \<and>
    set (policyPaths calls) = sharedPaths (ce_uri ce) (mayShare ce flag callerInfo photo persisted proxied content)
      (fa_alterBundleName targetInfo) (parsed (ce_uri ce) strs) \<and>
    set (mediaCalled calls) = sharedMedia (mayShare ce flag callerInfo photo persisted proxied content) (parsed (ce_uri ce) strs)"
proof -
  let ?ev = "ce_uri ce" and ?us = "parsed (ce_uri ce) strs"
  let ?sandbox = "ue_permission ?ev (fa_tokenId callerInfo) PERMISSION_SANDBOX_ACCESS_MANAGER"
  define may where "may = mayShare ce flag callerInfo photo persisted proxied content"
  obtain n b where b: "bu_Init ?ev strs (rwMode flag) (fa_alterBundleName callerInfo) (fa_alterBundleName targetInfo) ?sandbox emptyBatch = (n, b)"
    by fastforce
  obtain b' where run: "CheckUriPermission k ?ev flag (fa_tokenId callerInfo) (fa_alterBundleName callerInfo) b =
      Inr (if \<exists>u\<in>set ?us. may u then ERR_OK else CHECK_PERMISSION_FAILED k, b')"
    and c: "checked ?ev ?us (rwMode flag) (flag AND FLAG_READ_WRITE_URI) (fa_alterBundleName callerInfo) (fa_alterBundleName targetInfo) ?sandbox may b'"
    using checked_check [OF assms b, of k flag] unfolding may_def mayShare_def by blast
  show ?thesis
  proof (cases "n = 0 \<or> \<not> (\<exists>u\<in>set ?us. may u) \<and> CHECK_PERMISSION_FAILED k \<noteq> ERR_OK \<and> (\<not> IsUdmfOrPasteboardCall ce \<or> bu_contentUris b' = [])")
    case True
    have none: "\<not> (\<exists>u\<in>set ?us. may u)"
    proof (cases "n = 0")
      case True
      then have "filter isValid ?us = []"
        using Init_shape [OF assms(1) b] by (simp add: shape_def filter_map)
      then show ?thesis using permitted_valid by (auto simp: may_def mayShare_def filter_empty_conv)
    qed (use True in auto)
    then have "sharedPaths ?ev may (fa_alterBundleName targetInfo) ?us = {} \<and> sharedMedia may ?us = {}"
      by (intro sharedNone) blast
    moreover have "\<exists>r. checkAndGrant k ce strs flag callerInfo targetInfo s = Inr (r, [], s)"
      using True run none by (cases "n = 0") (auto simp: checkAndGrant_def Let_def b)
    ultimately show ?thesis by (auto simp: may_def [symmetric])
  next
    case False
    obtain ret calls s' where g: "GrantUriPermissionInner k ce b' flag callerInfo targetInfo s = Inr (ret, calls, s')"
      "set (policyPaths calls) = sharedPaths ?ev may (fa_alterBundleName targetInfo) ?us" "set (mediaCalled calls) = sharedMedia may ?us"
      using GrantInner_calls [OF c rwMode_pos, of k flag callerInfo targetInfo s] own_permitted unfolding may_def mayShare_def by blast
    with False run b show ?thesis by (auto simp: checkAndGrant_def Let_def may_def [symmetric])
  qed
qed



definition exCall :: call_env where
  "exCall = \<lparr>ce_upm = exEnv, ce_uri = exUriEnv, ce_uid = 20010001, ce_token = 7, ce_isSystemAppCall = True, ce_isSACall = False,
     ce_tokenType = (\<lambda>_. TOKEN_HAP),
     ce_hapInfo = (\<lambda>t. Some \<lparr>hi_userID = 100, hi_bundleName = (if t = 7 then ''app'' else ''tgt''), hi_instIndex = 0\<rparr>),
     ce_dir = (\<lambda>n _. Some n), ce_account = 100, ce_bundleToken = (\<lambda>_ _. Some 8), ce_cloneToken = (\<lambda>_ _ _. None),
     ce_sandboxToken = (\<lambda>_ _ _. None), ce_mediaGrant = Some (\<lambda>_ _ _ _ _. 0), ce_mediaRevoke = None, ce_supportGrant = True,
     ce_udKeyBundle = (\<lambda>_. ''app''), ce_addPrivilege = (\<lambda>_ _ _. 0), ce_selfToken = 1,
     ce_batchData = (\<lambda>_. (0, [[Some ''own'', Some ''doc'']])), ce_startAccessing = (\<lambda>_ _. (0, []))\<rparr>"

lemma exCall_pointwise:
  "pointwise (ce_uri exCall) tok (\<lambda>_. True) (\<lambda>p. pl_path p = ''doc'') (\<lambda>_. False) (\<lambda>_. False)"
  using exUriEnv_pointwise by (simp add: exCall_def)

lemma exCall_ok:
  "uris \<noteq> [] \<Longrightarrow> length uris \<le> 200000 \<Longrightarrow> flag AND FLAG_READ_WRITE_URI \<noteq> 0 \<Longrightarrow> CheckGrantUriPermission exCodes exCall uris flag = ERR_OK"
  "GetTokenIdByBundleName exCodes exCall ''tgt'' 0 100 = (ERR_OK, 8)"
  by (simp_all add: CheckGrantUriPermission_def IsSAOrSystemAppCall_def CheckCalledBySandBox_def IsSandboxApp_def IsDlpIndex_def
      IsAppCloneIndex_def MAX_URI_COUNT_def GetTokenIdByBundleName_def exCall_def)

lemma exCall_facts:
  "ce_account exCall = 100" "GetDirByBundleNameAndAppIndex exCall n i = (True, n)" "IsPrivilegedSACall exCall = False"
  "ce_token exCall = 7" "GetAlterableBundleNameByTokenId exCall 7 = ''app''"
  by (simp_all add: GetDirByBundleNameAndAppIndex_def GetAlterableBundleNameByTokenId_def IsPrivilegedSACall_def exCall_def exUriEnv_def)


text \<open>
  The mode that is to let a write grant also read (\<open>rwMode\<close>) reaches only the policies of URIs in the caller's own bundle;
  for docs URIs and those of other bundles the policy is built from the plain flag, so a write-only grant
  gives the sandbox manager a policy without read.
\<close>

theorem GrantUriPermission_write_only_modes:
  "\<exists>s'. GrantUriPermission exCodes exCall [''own'', ''doc''] 2 ''tgt'' 0 0 exUpm =
     Inr (WrapErrorCode ERR_OK, [SetPolicy [\<lparr>pl_path = ''own'', pl_mode = 3, pl_type = SELF_PATH\<rparr>],
                                 SetPolicy [\<lparr>pl_path = ''doc'', pl_mode = 2, pl_type = 0\<rparr>]], s')"
proof -
  let ?c = "\<lparr>fa_tokenId = 7, fa_bundleName = [], fa_alterBundleName = ''app'', fa_userId = 100, fa_isSA = False\<rparr>"
  let ?t = "\<lparr>fa_tokenId = 8, fa_bundleName = ''tgt'', fa_alterBundleName = ''tgt'', fa_userId = 100, fa_isSA = False\<rparr>"
  have "GrantUriPermission exCodes exCall [''own'', ''doc''] 2 ''tgt'' 0 0 exUpm = checkAndGrant exCodes exCall [''own'', ''doc''] 2 ?c ?t exUpm"
    using exCall_ok(1) [of "[''own'', ''doc'']" 2]
    by (simp add: GrantUriPermission_def Let_def FLAG_READ_WRITE_URI_def FLAG_READ_URI_def FLAG_WRITE_URI_def exCall_facts exCall_ok(2))
  moreover have "(case checkAndGrant exCodes exCall [''own'', ''doc''] 2 ?c ?t exUpm of Inl _ \<Rightarrow> False
    | Inr (r, calls, s') \<Rightarrow> r = WrapErrorCode ERR_OK \<and> calls = [SetPolicy [\<lparr>pl_path = ''own'', pl_mode = 3, pl_type = SELF_PATH\<rparr>],
                                 SetPolicy [\<lparr>pl_path = ''doc'', pl_mode = 2, pl_type = 0\<rparr>]])"
    by code_simp
  ultimately show ?thesis by (auto split: sum.splits)
qed


section \<open>Grants by key are all or nothing\<close>

lemma batchLoop_ok: "batchLoop ev records uris = (ERR_OK, uris') \<Longrightarrow> \<exists>us. uris' = uris @ us \<and> (\<forall>u\<in>set us. uri_scheme (ue_parse ev u) = FILE_SCHEME)"
  by (induction ev records uris rule: batchLoop.induct) (auto simp: upms_codes ERR_OK_def split: if_splits)

lemma ProcessUdmfKey_ok:
  assumes "ProcessUdmfKey ce key callerTokenId targetTokenId = (ERR_OK, uris)"
  shows "IsUdKeyCreateByCaller ce callerTokenId key" "uris \<noteq> []" "\<forall>u\<in>set uris. uri_scheme (ue_parse (ce_uri ce) u) = FILE_SCHEME"
proof -
  obtain ret data where d: "ce_batchData ce key = (ret, data)" by fastforce
  obtain ret' us where l: "batchLoop (ce_uri ce) (concat data) [] = (ret', us)" by fastforce
  show "IsUdKeyCreateByCaller ce callerTokenId key" using assms by (auto simp: ProcessUdmfKey_def upms_codes ERR_OK_def split: if_splits)
  have "ret' = ERR_OK" "us = uris" "uris \<noteq> []"
    using assms d l by (auto simp: ProcessUdmfKey_def GetBatchData_def upms_codes ERR_OK_def Let_def split: if_splits prod.splits)
  then show "uris \<noteq> []" "\<forall>u\<in>set uris. uri_scheme (ue_parse (ce_uri ce) u) = FILE_SCHEME"
    using batchLoop_ok [of "ce_uri ce" "concat data" "[]" uris] l by auto
qed

lemma Generate_token: "GenerateFUDAppInfo ce info sa = (ok, info') \<Longrightarrow> fa_tokenId info' = fa_tokenId info"
  by (auto simp: GenerateFUDAppInfo_def Let_def split: if_splits option.splits prod.splits)

lemma ByKeyParams_ok:
  assumes "CheckGrantUriPermissionByKeyParams k ce key flag callerTokenId targetTokenId = Inr (callerInfo, targetInfo, uris)"
  shows "fa_tokenId callerInfo = callerTokenId" "IsUdKeyCreateByCaller ce callerTokenId key" "uris \<noteq> []"
    "\<forall>u\<in>set uris. uri_scheme (ue_parse (ce_uri ce) u) = FILE_SCHEME"
proof -
  have "fa_tokenId callerInfo = callerTokenId \<and> ProcessUdmfKey ce key callerTokenId targetTokenId = (ERR_OK, uris)"
    using assms Generate_token [of ce "fudApp callerTokenId" False]
    by (auto simp: CheckGrantUriPermissionByKeyParams_def Let_def fudApp_def split: if_splits prod.splits)
  with ProcessUdmfKey_ok show "fa_tokenId callerInfo = callerTokenId" "IsUdKeyCreateByCaller ce callerTokenId key" "uris \<noteq> []"
    "\<forall>u\<in>set uris. uri_scheme (ue_parse (ce_uri ce) u) = FILE_SCHEME" by blast+
qed

lemma ByKeyParams_err:
  "CheckGrantUriPermissionByKeyParams k ce key flag callerTokenId targetTokenId = Inl ret \<Longrightarrow> codes_ok k \<Longrightarrow> ret \<noteq> ERR_OK"
  by (auto simp: CheckGrantUriPermissionByKeyParams_def Let_def upms_codes ERR_OK_def codes_ok_def split: if_splits prod.splits)

lemma all_permissioned:
  assumes "checked ev us mode fl caller target sandbox may b"
  shows "IsAllUriPermissioned b \<longleftrightarrow> (\<forall>u\<in>set us. may u)"
proof -
  have "map cr_result (bu_checkResult b) = map may us" using assms by (simp add: checked_def)
  then have "cr_result ` set (bu_checkResult b) = may ` set us" by (metis set_map)
  then have "False \<in> cr_result ` set (bu_checkResult b) \<longleftrightarrow> False \<in> may ` set us" by simp
  then show ?thesis by (auto simp: IsAllUriPermissioned_def image_iff)
qed

lemma GetAll_run:
  assumes "checked ev us mode fl caller target sandbox may b" "\<forall>u\<in>set us. may u"
  shows "\<exists>ps. GetAllUriToGrantByPolicy b = Inr (True, ps)"
  using grantAllLoop_run [of "bu_otherPolicyInfos b" "bu_otherIndexes b" b] checkedD [OF assms(1)] assms(2)
  by (simp add: GetAllUriToGrantByPolicy_def)




section \<open>The service as a transition system\<close>

definition keeps :: "('r \<times> grant_call list \<times> upm) cpp \<Rightarrow> bool" where
  "keeps x \<longleftrightarrow> (\<forall>r calls s. x = Inr (r, calls, s) \<longrightarrow> upm_inv s)"

lemma keeps_simps [simp]: "keeps (Inl e)" "keeps (Inr (r, calls, s)) \<longleftrightarrow> upm_inv s"
  by (auto simp: keeps_def)

lemma keepsD: "keeps x \<Longrightarrow> x = Inr (r, calls, s) \<Longrightarrow> upm_inv s"
  by (simp add: keeps_def)

lemma keeps_bind: "(\<And>y. x = Inr y \<Longrightarrow> keeps (f y)) \<Longrightarrow> keeps (cpp_bind x f)"
  by (cases x) auto

lemma keeps_map: "keeps x \<Longrightarrow> (\<And>r calls s. upm_inv s \<Longrightarrow> keeps (f (r, calls, s))) \<Longrightarrow> keeps (cpp_bind x f)"
  by (rule keeps_bind) (auto simp: keeps_def)

lemmas grant_invs = GrantBatch_inv GrantByPolicy_inv GrantWithoutCache_inv GrantContent_inv

lemma GrantInner_keeps: "upm_inv s \<Longrightarrow> keeps (GrantUriPermissionInner k ce b flag callerInfo targetInfo s)"
  unfolding GrantUriPermissionInner_def by (intro keeps_bind) (simp add: case_prod_beta Let_def grant_invs split: if_split)

lemma checkAndGrant_keeps:
  assumes "upm_inv s"
  shows "keeps (checkAndGrant k ce uris flag callerInfo targetInfo s)"
proof -
  have "keeps (cpp_bind (GrantUriPermissionInner k ce b flag callerInfo targetInfo s)
      (\<lambda>(grantRet, calls, s1). Inr (WrapErrorCode grantRet, calls, s1)))" for b
    by (rule keeps_map [OF GrantInner_keeps [OF assms]]) simp
  with assms show ?thesis
    unfolding checkAndGrant_def Let_def
    by (auto split: prod.split intro!: keeps_bind [of "CheckUriPermission k ce' fl tok name b" for ce' fl tok name b])
qed

lemma GrantUriPermission_keeps: "upm_inv s \<Longrightarrow> keeps (GrantUriPermission k ce uris flag name i init s)"
  by (simp add: GrantUriPermission_def Let_def case_prod_beta checkAndGrant_keeps)

lemma GrantToken_keeps: "upm_inv s \<Longrightarrow> keeps (GrantUriPermissionToken k ce uris flag target caller s)"
  by (simp add: GrantUriPermissionToken_def Let_def case_prod_beta checkAndGrant_keeps)

lemma PrivilegedInner_keeps: "upm_inv s \<Longrightarrow> keeps (GrantUriPermissionPrivilegedInner k ce us flag callerInfo targetInfo hide types s)"
  unfolding GrantUriPermissionPrivilegedInner_def
  by (intro keeps_bind) (simp add: case_prod_beta Let_def GrantUriPermissionPrivilegedImpl_def grant_invs)

lemma Privileged_keeps: "upm_inv s \<Longrightarrow> keeps (GrantUriPermissionPrivileged k ce uris flag name i init hide s)"
  by (auto simp: GrantUriPermissionPrivileged_def Let_def case_prod_beta intro!: keeps_map [OF PrivilegedInner_keeps])

lemma WithType_keeps: "upm_inv s \<Longrightarrow> keeps (GrantUriPermissionWithType k ce us flag name i init hide types s)"
  by (auto simp: GrantUriPermissionWithType_def Let_def case_prod_beta intro!: keeps_map [OF PrivilegedInner_keeps])

lemma ByKeyInner_keeps: "upm_inv s \<Longrightarrow> keeps (GrantUriPermissionByKeyInner k ce key flag caller target s)"
  unfolding GrantUriPermissionByKeyInner_def
  by (auto simp: Let_def case_prod_beta grant_invs intro!: keeps_bind split: sum.split prod.split)

lemma Active_inv: "upm_inv s \<Longrightarrow> upm_inv (snd (Active k ce raw s))"
  by (simp add: Active_def Let_def case_prod_beta upm_inv_token split: sum.split)

lemma RevokeManually_inv: "upm_inv s \<Longrightarrow> upm_inv (snd (RevokeUriPermissionManually k ce u name i s))"
  by (simp add: RevokeUriPermissionManually_def RevokeUriPermissionManuallyInner_def Let_def case_prod_beta
      RevokeMapManually_inv RevokePolicyManually_inv)

inductive service_step :: "upm_codes \<Rightarrow> upm \<Rightarrow> upm \<Rightarrow> bool" for k where
  svc_grant: "GrantUriPermission k ce uris flag name i init s = Inr (r, calls, s') \<Longrightarrow> service_step k s s'"
| svc_grantSingle: "GrantUriPermissionSingle k ce u flag name i init s = Inr (r, calls, s') \<Longrightarrow> service_step k s s'"
| svc_grantRaw: "GrantUriPermissionRaw k ce raw flag name i init s = Inr (r, calls, s') \<Longrightarrow> service_step k s s'"
| svc_token: "GrantUriPermissionToken k ce uris flag target caller s = Inr (r, calls, s') \<Longrightarrow> service_step k s s'"
| svc_tokenRaw: "GrantUriPermissionTokenRaw k ce raw flag target caller s = Inr (r, calls, s') \<Longrightarrow> service_step k s s'"
| svc_privileged: "GrantUriPermissionPrivileged k ce uris flag name i init hide s = Inr (r, calls, s') \<Longrightarrow> service_step k s s'"
| svc_privilegedRaw: "GrantUriPermissionPrivilegedRaw k ce raw flag name i init hide s = Inr (r, calls, s') \<Longrightarrow> service_step k s s'"
| svc_withType: "GrantUriPermissionWithType k ce us flag name i init hide types s = Inr (r, calls, s') \<Longrightarrow> service_step k s s'"
| svc_key: "GrantUriPermissionByKey k ce key flag target s = Inr (r, calls, s') \<Longrightarrow> service_step k s s'"
| svc_keyAsCaller: "GrantUriPermissionByKeyAsCaller k ce key flag caller target s = Inr (r, calls, s') \<Longrightarrow> service_step k s s'"
| svc_revoke: "service_step k s (snd (RevokeUriPermissionManually k ce u name i s))"
| svc_revokeAll: "service_step k s (snd (RevokeAllUriPermissions k (upmEnv ce) tok s))"
| svc_clear: "service_step k s (snd (ClearPermissionTokenByMap k (upmEnv ce) tok s))"
| svc_active: "service_step k s (snd (Active k ce raw s))"

lemma entry_keeps:
  assumes "upm_inv s"
  shows "keeps (GrantUriPermissionSingle k ce u flag name i init s)" "keeps (GrantUriPermissionRaw k ce raw flag name i init s)"
    "keeps (GrantUriPermissionTokenRaw k ce raw flag target caller s)" "keeps (GrantUriPermissionPrivilegedRaw k ce raw flag name i init hide s)"
    "keeps (GrantUriPermissionByKey k ce key flag target s)" "keeps (GrantUriPermissionByKeyAsCaller k ce key flag caller target s)"
proof -
  show "keeps (GrantUriPermissionSingle k ce u flag name i init s)"
    using assms by (auto simp: GrantUriPermissionSingle_def intro!: keeps_map [OF GrantUriPermission_keeps [OF assms]])
  show "keeps (GrantUriPermissionRaw k ce raw flag name i init s)"
    using assms by (simp add: GrantUriPermissionRaw_def GrantUriPermission_keeps split: sum.split)
  show "keeps (GrantUriPermissionTokenRaw k ce raw flag target caller s)"
    using assms by (simp add: GrantUriPermissionTokenRaw_def GrantToken_keeps split: sum.split)
  show "keeps (GrantUriPermissionPrivilegedRaw k ce raw flag name i init hide s)"
    using assms by (simp add: GrantUriPermissionPrivilegedRaw_def Let_def Privileged_keeps split: sum.split)
  show "keeps (GrantUriPermissionByKey k ce key flag target s)"
    using assms by (auto simp: GrantUriPermissionByKey_def Let_def intro!: keeps_map [OF ByKeyInner_keeps [OF assms]])
  show "keeps (GrantUriPermissionByKeyAsCaller k ce key flag caller target s)"
    using assms by (auto simp: GrantUriPermissionByKeyAsCaller_def Let_def intro!: keeps_map [OF ByKeyInner_keeps [OF assms]])
qed

lemmas entry_invs = keepsD [OF GrantUriPermission_keeps] keepsD [OF GrantToken_keeps] keepsD [OF Privileged_keeps] keepsD [OF WithType_keeps]
  keepsD [OF entry_keeps(1)] keepsD [OF entry_keeps(2)] keepsD [OF entry_keeps(3)] keepsD [OF entry_keeps(4)] keepsD [OF entry_keeps(5)]
  keepsD [OF entry_keeps(6)]

lemma service_step_inv: "service_step k s t \<Longrightarrow> upm_inv s \<Longrightarrow> upm_inv t"
  by (induction rule: service_step.induct)
    (erule (1) entry_invs | simp add: RevokeManually_inv RevokeAll_inv Clear_inv Active_inv)+

interpretation service: machine upm_new "service_step k" upm_inv
  by unfold_locales (simp add: upm_new_def upm_inv_def listMap_Nil, rule service_step_inv)

lemmas service_reach_inv = service.reach_inv

text \<open>
  C2: In every state the service can reach through its entry points, when the foundation process reports the exit of an
  application, exactly the records whose target is its token disappear from the map of grants and from the map
  of policies, although only tokens indexed in the token map are looked at; no other record changes, and the
  distributed file service is then refused every cloud document for the token.
\<close>

theorem exit_clears_exactly:
  assumes "reach upm_new (service_step k) s" "IsFoundationCall ce"
  shows "let s' = snd (ClearPermissionTokenByMap k (upmEnv ce) tok s) in
    grantsOf s' path = filter (\<lambda>g. gi_target g \<noteq> tok) (grantsOf s path) \<and>
    policiesOf s' path = filter (\<lambda>p. gp_target p \<noteq> tok) (policiesOf s path) \<and>
    (IsDocsCloudUri u \<longrightarrow> \<not> VerifyUriPermission dfs u flag tok s')"
proof -
  let ?s' = "snd (ClearPermissionTokenByMap k (upmEnv ce) tok s)"
  have inv: "upm_inv s" using assms(1) by (rule service_reach_inv)
  have f: "pe_isFoundation (upmEnv ce)" using assms(2) by (simp add: upmEnv_def)
  note maps = Clear_maps [OF inv f, of k tok]
  have "omap_inv (um_uriMap ?s')" using Clear_inv [OF inv] by (auto simp: upm_inv_def dest: listMapD(1))
  then have "\<not> VerifySingleUriPermissionByMap v fl tok ?s'" for v fl
    using verify_needs_grant [of ?s' v fl tok] by (auto simp: maps grantCovers_def)
  then show ?thesis by (auto simp: Let_def maps VerifyUriPermission_def VerifyUriPermissionInner_def VerifyUriPermissionByMap_def)
qed


definition exCloud :: uri where
  "exCloud = \<lparr>uri_str = ''file://docs/a?networkid=1'', uri_scheme = ''file'', uri_authority = ''docs''\<rparr>"

definition exFoundation :: call_env where
  "exFoundation = exCall\<lparr>ce_uid := 5523\<rparr>"

definition exDfs :: call_env where
  "exDfs = exCall\<lparr>ce_uid := 1009\<rparr>"

definition exGranted :: upm where
  "exGranted = exUpm\<lparr>um_uriMap := [(uri_str exCloud, [\<lparr>gi_flag = 1, gi_from = 7, gi_target = 8\<rparr>])], um_tokens := {8}\<rparr>"

lemma exGranted_reach: "reach upm_new (service_step exCodes) exGranted"
proof (rule reach_step [where s = exUpm])
  show "reach upm_new (service_step exCodes) exUpm" by (rule reach_start) (simp add: upm_new_def exUpm_def)
  let ?c = "\<lparr>fa_tokenId = 7, fa_bundleName = [], fa_alterBundleName = ''app'', fa_userId = 100, fa_isSA = False\<rparr>"
  let ?t = "\<lparr>fa_tokenId = 8, fa_bundleName = ''tgt'', fa_alterBundleName = ''tgt'', fa_userId = 100, fa_isSA = False\<rparr>"
  have "GrantUriPermissionPrivilegedInner exCodes exFoundation [exCloud] 1 ?c ?t 4 [0] exUpm = Inr (ERR_OK, [ShareFiles [uri_str exCloud]], exGranted)"
    by code_simp
  then have "GrantUriPermissionWithType exCodes exFoundation [exCloud] 1 ''tgt'' 0 7 4 [0] exUpm =
      Inr (WrapErrorCode ERR_OK, [ShareFiles [uri_str exCloud]], exGranted)"
    by (simp add: GrantUriPermissionWithType_def exFoundation_def IsFoundationCall_def MAX_URI_COUNT_def Let_def GetTokenIdByBundleName_def
        GetDirByBundleNameAndAppIndex_def GetAlterableBundleNameByTokenId_def exCall_def FLAG_READ_WRITE_URI_def FLAG_READ_URI_def FLAG_WRITE_URI_def)
  then show "service_step exCodes exUpm exGranted" by (rule svc_withType)
qed

theorem exit_clears_exactly_witness:
  "VerifyUriPermission exDfs exCloud 1 8 exGranted \<and>
   \<not> VerifyUriPermission exDfs exCloud 1 8 (snd (ClearPermissionTokenByMap exCodes (upmEnv exFoundation) 8 exGranted)) \<and>
   IsFoundationCall exFoundation"
proof -
  have f: "IsFoundationCall exFoundation" by (simp add: IsFoundationCall_def exFoundation_def)
  have "IsDocsCloudUri exCloud" "VerifyUriPermission exDfs exCloud 1 8 exGranted" by code_simp+
  with exit_clears_exactly [OF exGranted_reach f, of 8 _ exCloud exDfs 1] f show ?thesis by (simp add: Let_def)
qed

end
