(* ===== verification/Startup_Task.thy ===== *)
theory Startup_Task
  imports Ordered_Map "HOL-Library.Word"
begin

text \<open>
  Start-up tasks of an application
  (\<open>frameworks/native/appkit/app_startup/startup_task.cpp\<close>, \<open>startup_task_result.cpp\<close>,
  \<open>startup_utils.cpp\<close> and the synchronous \<open>preload_so_startup_task.cpp\<close>).

  A task is a record with its dependencies, its result and a state
  \<open>CREATED \<rightarrow> INITIALIZING \<rightarrow> INITIALIZED\<close> (back to \<open>CREATED\<close> when the task fails or its result is
  removed).  \<open>st_extraCallbacks\<close> holds the callbacks that wait for a task another dispatcher has
  started: such a callback is \<open>Dispatch(name, \<cdot>)\<close> of the waiting dispatcher and is represented by
  that name.

  \<open>RunTaskInit\<close> of a task is virtual.  What one call of it does to the callback it is given is the
  type \<open>init_outcome\<close>: it calls the callback before it returns, keeps it for later, or drops it.
  \<open>PreloadSo_RunTaskInit\<close> is the override that loads a native library.
\<close>

section \<open>Codes and results\<close>

definition ERR_STARTUP_INVALID_VALUE :: int where "ERR_STARTUP_INVALID_VALUE = 401"
definition ERR_STARTUP_INTERNAL_ERROR :: int where "ERR_STARTUP_INTERNAL_ERROR = 16000050"
definition ERR_STARTUP_DEPENDENCY_NOT_FOUND :: int where "ERR_STARTUP_DEPENDENCY_NOT_FOUND = 28800001"
definition ERR_STARTUP_CIRCULAR_DEPENDENCY :: int where "ERR_STARTUP_CIRCULAR_DEPENDENCY = 28800002"
definition ERR_STARTUP_FAILED_TO_EXECUTE_STARTUP :: int where
  "ERR_STARTUP_FAILED_TO_EXECUTE_STARTUP = 28800003"
definition ERR_STARTUP_TIMEOUT :: int where "ERR_STARTUP_TIMEOUT = 28800004"

lemmas startup_codes = ERR_OK_def ERR_STARTUP_INVALID_VALUE_def ERR_STARTUP_INTERNAL_ERROR_def
  ERR_STARTUP_DEPENDENCY_NOT_FOUND_def ERR_STARTUP_CIRCULAR_DEPENDENCY_def
  ERR_STARTUP_FAILED_TO_EXECUTE_STARTUP_def ERR_STARTUP_TIMEOUT_def

definition ERR_MSG_MAP :: "(int \<times> string) list" where
  "ERR_MSG_MAP =
     [(ERR_STARTUP_INVALID_VALUE, ''invalid parameter.''),
      (ERR_STARTUP_INTERNAL_ERROR, ''internal error.''),
      (ERR_STARTUP_DEPENDENCY_NOT_FOUND, ''startup task or its dependency not found.''),
      (ERR_STARTUP_CIRCULAR_DEPENDENCY, ''the startup tasks have circular dependencies.''),
      (ERR_STARTUP_FAILED_TO_EXECUTE_STARTUP, ''an error occurred while running the startup tasks.''),
      (ERR_STARTUP_TIMEOUT, ''running startup tasks timeout.'')]"

definition GetErrorMessage :: "int \<Rightarrow> string" where
  "GetErrorMessage errCode =
     (case map_of ERR_MSG_MAP errCode of
        None \<Rightarrow> the (map_of ERR_MSG_MAP ERR_STARTUP_INTERNAL_ERROR)
      | Some msg \<Rightarrow> msg)"

record startup_result =
  resultCode :: int
  resultMessage :: string

text \<open>\<open>OnCompletedCallback\<close>: the function runs on the first call only.  \<open>oc_calls\<close> lists the results it
  was run with.\<close>

record on_completed =
  isCalled :: bool
  oc_calls :: "startup_result list"

definition newOnCompleted :: on_completed where
  "newOnCompleted = \<lparr>isCalled = False, oc_calls = []\<rparr>"

definition OnCompleted_Call :: "startup_result \<Rightarrow> on_completed \<Rightarrow> on_completed" where
  "OnCompleted_Call result cb =
     (if isCalled cb then cb else cb\<lparr>isCalled := True, oc_calls := oc_calls cb @ [result]\<rparr>)"

section \<open>Tasks\<close>

datatype task_state = INVALID | CREATED | INITIALIZING | INITIALIZED

datatype module_type = MT_UNKNOWN | MT_ENTRY | MT_FEATURE | MT_SHARED

record match_rules =
  mr_uris :: "string list"
  mr_insightIntents :: "string list"
  mr_actions :: "string list"
  mr_customization :: "string list"

text \<open>The part an \<open>AppStartupTask\<close> adds to a \<open>StartupTask\<close>.\<close>

record app_part =
  at_isExcludeFromAutoStart :: bool
  at_preAbilityStageLoad :: bool
  at_moduleName :: string
  at_moduleType :: module_type
  at_matchRules :: match_rules

record startup_task =
  st_name :: string
  st_dependencies :: "string list"
  st_waitOnMainThread :: bool
  st_callCreateOnMainThread :: bool
  st_result :: "startup_result option"
  st_state :: task_state
  st_extraCallbacks :: "string list"
  st_app :: "app_part option"

type_synonym task_map = "(string, startup_task option) omap"

definition newStartupTask :: "string \<Rightarrow> startup_task" where
  "newStartupTask name = \<lparr>st_name = name, st_dependencies = [], st_waitOnMainThread = True,
     st_callCreateOnMainThread = True, st_result = None, st_state = CREATED,
     st_extraCallbacks = [], st_app = None\<rparr>"

text \<open>\<open>st_dependencies.size()\<close> is returned as a \<open>uint32_t\<close>.\<close>

definition GetDependenciesCount :: "startup_task \<Rightarrow> 32 word" where
  "GetDependenciesCount t = of_nat (length (st_dependencies t))"

definition SaveResult :: "startup_result option \<Rightarrow> startup_task \<Rightarrow> startup_task" where
  "SaveResult result t =
     (case result of
        None \<Rightarrow> t
      | Some r \<Rightarrow> t\<lparr>st_result := Some r,
                    st_state := (if resultCode r = ERR_OK then INITIALIZED else CREATED)\<rparr>)"

definition RemoveResult :: "startup_task \<Rightarrow> int \<times> startup_task" where
  "RemoveResult t =
     (if st_state t \<noteq> INITIALIZED then (ERR_STARTUP_INTERNAL_ERROR, t)
      else (ERR_OK, t\<lparr>st_result := None, st_state := CREATED\<rparr>))"

definition AddExtraCallback :: "string \<Rightarrow> startup_task \<Rightarrow> int \<times> startup_task" where
  "AddExtraCallback callback t =
     (if st_state t \<noteq> INITIALIZING then (ERR_STARTUP_INTERNAL_ERROR, t)
      else (ERR_OK, t\<lparr>st_extraCallbacks := st_extraCallbacks t @ [callback]\<rparr>))"

text \<open>The state change of \<open>RunTaskPreInit\<close>; the callback it pushes (\<open>SaveResult\<close>, then the extra
  callbacks) runs before the one the dispatcher pushed, because the callbacks form a stack.\<close>

definition RunTaskPreInit :: "startup_task \<Rightarrow> int \<times> startup_task" where
  "RunTaskPreInit t =
     (if st_state t \<noteq> CREATED then (ERR_STARTUP_INTERNAL_ERROR, t)
      else (ERR_OK, t\<lparr>st_state := INITIALIZING\<rparr>))"

section \<open>Loading a native library\<close>

datatype init_outcome =
  InitSync "startup_result option" int  \<comment> \<open>the callback is called with the result, then the code is returned\<close>
| InitAsync int  \<comment> \<open>the callback is kept, the code is returned\<close>
| InitDropped int  \<comment> \<open>the callback is destroyed without having been called, the code is returned\<close>

definition StringStartWith :: "string \<Rightarrow> string \<Rightarrow> bool" where
  "StringStartWith str startStr \<longleftrightarrow>
     length startStr \<le> length str \<and> take (length startStr) str = startStr"

text \<open>The loop that cuts a string at every \<open>&\<close>.\<close>

function split_tag :: "char \<Rightarrow> string \<Rightarrow> string list" where
  "split_tag c s =
     (case dropWhile (\<lambda>x. x \<noteq> c) s of
        [] \<Rightarrow> [s]
      | _ # rest \<Rightarrow> takeWhile (\<lambda>x. x \<noteq> c) s # split_tag c rest)"
  by pat_completeness auto

termination
proof (relation "measure (\<lambda>(c, s). length s)")
  fix c s x rest
  assume "dropWhile (\<lambda>x. x \<noteq> c) s = x # rest"
  with length_dropWhile_le [of "\<lambda>x. x \<noteq> c" s] show "((c, rest), c, s) \<in> measure (\<lambda>(c, s). length s)" by simp
qed simp

declare split_tag.simps [simp del]

text \<open>\<open>s.substr(pos, count)\<close>: throws \<open>std::out_of_range\<close> when \<open>pos\<close> is past the end; \<open>count\<close> is a
  64-bit \<open>size_t\<close>, so that a difference below zero is a huge count.\<close>

definition substr :: "nat \<Rightarrow> nat \<Rightarrow> string \<Rightarrow> string cpp" where
  "substr pos count s = (if length s < pos then Inl OutOfRange else Inr (take count (drop pos s)))"

definition size_minus :: "nat \<Rightarrow> nat \<Rightarrow> nat" where
  "size_minus a b = nat ((int a - int b) mod 2 ^ 64)"

definition ParseNormalizedOhmUrl :: "string \<Rightarrow> (int \<times> string) cpp" where
  "ParseNormalizedOhmUrl ohmUrl =
     (let res = split_tag (CHR ''&'') ohmUrl
      in if length res \<noteq> 5 then Inr (ERR_STARTUP_INVALID_VALUE, '''')
         else let soName = res ! 3
              in cpp_bind (substr 3 (size_minus (size_minus (length soName) 3) 3) soName)
                   (\<lambda>soName. Inr (ERR_OK, soName)))"

definition ParseAppOhmUrl :: "string \<Rightarrow> int \<times> string" where
  "ParseAppOhmUrl ohmUrl =
     (case dropWhile (\<lambda>x. x \<noteq> CHR '':'') ohmUrl of
        [] \<Rightarrow> (ERR_STARTUP_INVALID_VALUE, '''')
      | _ # soFullPath \<Rightarrow>
          if CHR ''/'' \<notin> set soFullPath then (ERR_STARTUP_INVALID_VALUE, '''')
          else (ERR_OK, rev (takeWhile (\<lambda>x. x \<noteq> CHR ''/'') (rev soFullPath))))"

definition ParseOhmUrl :: "string \<Rightarrow> (int \<times> string) cpp" where
  "ParseOhmUrl ohmUrl =
     (if ohmUrl = '''' then Inr (ERR_STARTUP_INVALID_VALUE, '''')
      else if StringStartWith ohmUrl ''@normalized:Y'' then ParseNormalizedOhmUrl ohmUrl
      else if StringStartWith ohmUrl ''@app:'' then Inr (ParseAppOhmUrl ohmUrl)
      else Inr (ERR_STARTUP_INVALID_VALUE, ''''))"

text \<open>\<open>load\<close> is the native module manager of the JavaScript engine: \<open>None\<close> when there is no manager,
  otherwise whether \<open>LoadNativeModule\<close> found the library.\<close>

definition PreloadSo_RunTaskInit :: "(string \<Rightarrow> string \<Rightarrow> bool) option \<Rightarrow> string \<Rightarrow> string \<Rightarrow> init_outcome cpp" where
  "PreloadSo_RunTaskInit load ohmUrl path =
     cpp_bind (ParseOhmUrl ohmUrl) (\<lambda>(code, soName).
       Inr (if code \<noteq> ERR_OK then InitDropped ERR_OK
            else case load of
              None \<Rightarrow> InitSync (Some \<lparr>resultCode = ERR_STARTUP_INTERNAL_ERROR, resultMessage = ''''\<rparr>)
                        ERR_STARTUP_INTERNAL_ERROR
            | Some LoadNativeModule \<Rightarrow>
                if \<not> LoadNativeModule soName path
                then InitSync (Some \<lparr>resultCode = ERR_OK, resultMessage = ''''\<rparr>) ERR_STARTUP_INTERNAL_ERROR
                else InitSync (Some \<lparr>resultCode = ERR_OK, resultMessage = ''''\<rparr>) ERR_OK))"

end
