(* ===== verification/Startup_Sort.thy ===== *)
theory Startup_Sort
  imports Startup_Task
begin

text \<open>
  The topological sort of the start-up tasks
  (\<open>frameworks/native/appkit/app_startup/startup_topologysort.cpp\<close>).

  \<open>Sort\<close> counts the dependencies of every task, then takes tasks without open dependencies from a
  deque and decrements the counters of their children.  The counters and the two totals are 32-bit
  unsigned integers.  The loop is a partial function (\<open>None\<close> would be a loop that does not end);
  \<open>Sort_terminates\<close> shows that it always ends, \<open>Sort_exact\<close> that the verdict is the right one.

  The locale \<open>dep_graph\<close> is the theory of a finite dependency graph both the sort and the dispatcher
  rest on.
\<close>

section \<open>The code\<close>

record sort_result =
  sr_startupChildrenMap :: "(string, string list) omap"
  sr_zeroDequeResult :: "string list"

type_synonym degree_map = "(string, 32 word) omap"

fun addParents :: "string \<Rightarrow> task_map \<Rightarrow> string list \<Rightarrow> sort_result \<Rightarrow> int \<times> sort_result" where
  "addParents key startupMap [] sr = (ERR_OK, sr)"
| "addParents key startupMap (parentName # ps) sr =
     (if omap_find startupMap parentName = None then (ERR_STARTUP_DEPENDENCY_NOT_FOUND, sr)
      else addParents key startupMap ps
             (sr\<lparr>sr_startupChildrenMap :=
                   omap_put parentName (omap_at [] parentName (sr_startupChildrenMap sr) @ [key])
                     (sr_startupChildrenMap sr)\<rparr>))"

definition SortZeroDeque ::
  "startup_task \<Rightarrow> task_map \<Rightarrow> degree_map \<Rightarrow> string list \<Rightarrow> sort_result \<Rightarrow>
   int \<times> degree_map \<times> string list \<times> sort_result" where
  "SortZeroDeque startup startupMap inDegreeMap zeroDeque sr =
     (let key = st_name startup
      in if omap_find inDegreeMap key \<noteq> None then (ERR_STARTUP_INTERNAL_ERROR, inDegreeMap, zeroDeque, sr)
         else let inDegreeMap = omap_put key (GetDependenciesCount startup) inDegreeMap;
                  dependencies = st_dependencies startup
              in if dependencies = []
                 then (ERR_OK, inDegreeMap, zeroDeque @ [key], sr\<lparr>sr_zeroDequeResult := sr_zeroDequeResult sr @ [key]\<rparr>)
                 else let (ret, sr) = addParents key startupMap dependencies sr
                      in (ret, inDegreeMap, zeroDeque, sr))"

fun sortInit ::
  "task_map \<Rightarrow> task_map \<Rightarrow> degree_map \<Rightarrow> string list \<Rightarrow> sort_result \<Rightarrow>
   int \<times> degree_map \<times> string list \<times> sort_result" where
  "sortInit startupMap [] inDegreeMap zeroDeque sr = (ERR_OK, inDegreeMap, zeroDeque, sr)"
| "sortInit startupMap (iter # rest) inDegreeMap zeroDeque sr =
     (case snd iter of
        None \<Rightarrow> (ERR_STARTUP_INTERNAL_ERROR, inDegreeMap, zeroDeque, sr)
      | Some startup \<Rightarrow>
          let (result, inDegreeMap, zeroDeque, sr) = SortZeroDeque startup startupMap inDegreeMap zeroDeque sr
          in if result \<noteq> ERR_OK then (result, inDegreeMap, zeroDeque, sr)
             else sortInit startupMap rest inDegreeMap zeroDeque sr)"

fun relaxChildren :: "string list \<Rightarrow> degree_map \<Rightarrow> string list \<Rightarrow> degree_map \<times> string list" where
  "relaxChildren [] inDegreeMap zeroDeque = (inDegreeMap, zeroDeque)"
| "relaxChildren (child # cs) inDegreeMap zeroDeque =
     (let inDegreeMap = omap_put child (omap_at 0 child inDegreeMap - 1) inDegreeMap
      in relaxChildren cs inDegreeMap
           (if omap_at 0 child inDegreeMap = 0 then zeroDeque @ [child] else zeroDeque))"

partial_function (option) topoLoop ::
  "task_map \<Rightarrow> degree_map \<Rightarrow> string list \<Rightarrow> sort_result \<Rightarrow> 32 word \<Rightarrow> 32 word \<Rightarrow>
   (int \<times> sort_result \<times> 32 word \<times> 32 word) cpp option" where
  "topoLoop startupMap inDegreeMap zeroDeque sr mainStartupCount threadStartupCount =
     (case zeroDeque of
        [] \<Rightarrow> Some (Inr (ERR_OK, sr, mainStartupCount, threadStartupCount))
      | key # rest \<Rightarrow>
          (case omap_find startupMap key of
             None \<Rightarrow> Some (Inr (ERR_STARTUP_INTERNAL_ERROR, sr, mainStartupCount, threadStartupCount))
           | Some None \<Rightarrow> Some (Inl NullDeref)
           | Some (Some task) \<Rightarrow>
               let onMain = st_callCreateOnMainThread task;
                   childrenStartupVector = omap_at [] key (sr_startupChildrenMap sr);
                   sr = sr\<lparr>sr_startupChildrenMap := omap_put key childrenStartupVector (sr_startupChildrenMap sr)\<rparr>;
                   (inDegreeMap, zeroDeque) = relaxChildren childrenStartupVector inDegreeMap rest
               in topoLoop startupMap inDegreeMap zeroDeque sr
                    (if onMain then mainStartupCount + 1 else mainStartupCount)
                    (if onMain then threadStartupCount else threadStartupCount + 1)))"

declare topoLoop.simps [code]

definition emptySortResult :: sort_result where
  "emptySortResult = \<lparr>sr_startupChildrenMap = [], sr_zeroDequeResult = []\<rparr>"

definition Sort :: "task_map \<Rightarrow> (int \<times> sort_result) cpp option" where
  "Sort startupMap =
     (let (result, inDegreeMap, zeroDeque, sr) = sortInit startupMap startupMap [] [] emptySortResult
      in if result \<noteq> ERR_OK then Some (Inr (result, sr))
         else case topoLoop startupMap inDegreeMap zeroDeque sr 0 0 of
           None \<Rightarrow> None
         | Some (Inl e) \<Rightarrow> Some (Inl e)
         | Some (Inr (result, sr, mainStartupCount, threadStartupCount)) \<Rightarrow>
             Some (Inr (if result \<noteq> ERR_OK then (result, sr)
                        else if unat (mainStartupCount + threadStartupCount) \<noteq> length startupMap
                        then (ERR_STARTUP_CIRCULAR_DEPENDENCY, sr)
                        else (ERR_OK, sr))))"

section \<open>Dependency graphs\<close>

text \<open>\<open>open_deps D c\<close> are the dependencies of \<open>c\<close> that are not in \<open>D\<close>; \<open>ready D\<close> are the nodes without any.\<close>

locale dep_graph =
  fixes nodes :: "'a set" and deps :: "'a \<Rightarrow> 'a list"
  assumes finite_nodes: "finite nodes"
begin

definition open_deps :: "'a set \<Rightarrow> 'a \<Rightarrow> 'a list" where
  "open_deps D c = filter (\<lambda>p. p \<notin> D) (deps c)"

definition ready :: "'a set \<Rightarrow> 'a set" where
  "ready D = {c \<in> nodes. set (deps c) \<subseteq> D}"

definition dep_rel :: "('a \<times> 'a) set" where
  "dep_rel = {(p, c). c \<in> nodes \<and> p \<in> set (deps c)}"

definition in_order :: "'a list \<Rightarrow> bool" where
  "in_order ds \<longleftrightarrow> (\<forall>i<length ds. set (deps (ds ! i)) \<subseteq> set (take i ds))"

lemma ready_iff: "c \<in> ready D \<longleftrightarrow> c \<in> nodes \<and> open_deps D c = []"
  by (auto simp: ready_def open_deps_def filter_empty_conv)

lemma ready_nodes: "ready D \<subseteq> nodes"
  by (auto simp: ready_def)

lemma ready_mono: "D \<subseteq> E \<Longrightarrow> ready D \<subseteq> ready E"
  by (auto simp: ready_def)

lemma open_deps_insert:
  "p \<notin> D \<Longrightarrow> length (open_deps D c) = length (open_deps (insert p D) c) + count_list (deps c) p"
proof -
  have "length (filter (\<lambda>q. q \<notin> D) xs) = length (filter (\<lambda>q. q \<notin> insert p D) xs) + count_list xs p"
    if "p \<notin> D" for xs
    using that by (induction xs) auto
  then show "p \<notin> D \<Longrightarrow> ?thesis" by (simp add: open_deps_def)
qed

lemma open_deps_le: "length (open_deps D c) \<le> length (deps c)"
  by (simp add: open_deps_def)

text \<open>The nodes that become ready when \<open>p\<close> is done are the children of \<open>p\<close> left without dependencies.\<close>

lemma ready_insert:
  "ready (insert p D) = ready D \<union> {c \<in> nodes. p \<in> set (deps c) \<and> open_deps (insert p D) c = []}"
  by (auto simp: ready_def open_deps_def filter_empty_conv)

lemma newly_ready_disjoint:
  "p \<notin> D \<Longrightarrow> {c \<in> nodes. p \<in> set (deps c) \<and> open_deps (insert p D) c = []} \<inter> ready D = {}"
  by (auto simp: ready_def)

text \<open>An order in which every node follows its dependencies exists only without cycles, and a set of
  nodes closed under readiness is the whole graph when there is none.\<close>

lemma in_order_acyclic:
  assumes ord: "in_order ds" and all: "set ds = nodes"
  shows "acyclic dep_rel"
proof -
  define pos where "pos c = (LEAST i. i < length ds \<and> ds ! i = c)" for c
  have pos: "pos c < length ds \<and> ds ! pos c = c" if "c \<in> set ds" for c
  proof -
    from that obtain i where "i < length ds \<and> ds ! i = c" by (auto simp: in_set_conv_nth)
    then show ?thesis unfolding pos_def by (rule LeastI)
  qed
  have "dep_rel \<subseteq> measure pos"
  proof (rule subrelI)
    fix p c assume "(p, c) \<in> dep_rel"
    then have c: "c \<in> set ds" and p: "p \<in> set (deps c)" using all by (auto simp: dep_rel_def)
    then have "p \<in> set (take (pos c) ds)" using ord pos [OF c] by (metis in_order_def subsetD)
    then obtain j where "j < pos c" "j < length ds" "ds ! j = p" by (auto simp: in_set_conv_nth)
    then have "pos p \<le> j" unfolding pos_def by (simp add: Least_le)
    with \<open>j < pos c\<close> show "(p, c) \<in> measure pos" by simp
  qed
  then show ?thesis by (rule acyclic_subset [rotated]) (simp add: wf_acyclic)
qed

lemma finite_dep_rel: "(\<And>c. c \<in> nodes \<Longrightarrow> set (deps c) \<subseteq> nodes) \<Longrightarrow> finite dep_rel"
  by (rule finite_subset [of _ "nodes \<times> nodes"]) (auto simp: dep_rel_def finite_nodes)

lemma closed_everything:
  assumes acyc: "acyclic dep_rel" and deps: "\<And>c. c \<in> nodes \<Longrightarrow> set (deps c) \<subseteq> nodes"
    and closed: "ready D \<subseteq> D"
  shows "nodes \<subseteq> D"
proof
  have "wf dep_rel" by (rule finite_acyclic_wf [OF finite_dep_rel [OF deps] acyc])
  then show "c \<in> D" if "c \<in> nodes" for c
    using that
  proof (induction c rule: wf_induct_rule)
    case (less c)
    then have "set (deps c) \<subseteq> D" using deps by (auto simp: dep_rel_def)
    with less.prems closed show ?case by (auto simp: ready_def)
  qed
qed

lemma in_order_snoc: "in_order (ds @ [c]) \<longleftrightarrow> in_order ds \<and> set (deps c) \<subseteq> set ds"
  by (auto simp: in_order_def nth_append less_Suc_eq)

lemma in_order_Nil [simp]: "in_order []"
  by (simp add: in_order_def)

end


section \<open>The graph of a task map\<close>

definition tasks_of :: "task_map \<Rightarrow> startup_task list" where
  "tasks_of m = map (\<lambda>e. the (snd e)) m"

definition task_names :: "task_map \<Rightarrow> string list" where
  "task_names m = map st_name (tasks_of m)"

definition deps_of :: "task_map \<Rightarrow> string \<Rightarrow> string list" where
  "deps_of m c = (case find (\<lambda>t. st_name t = c) (tasks_of m) of None \<Rightarrow> [] | Some t \<Rightarrow> st_dependencies t)"

definition children_of :: "startup_task list \<Rightarrow> string \<Rightarrow> string list" where
  "children_of ts p = concat (map (\<lambda>t. replicate (count_list (st_dependencies t) p) (st_name t)) ts)"

interpretation sg: dep_graph "set (task_names m)" "deps_of m" for m
  by unfold_locales simp

lemma deps_of_task:
  "distinct (map st_name (tasks_of m)) \<Longrightarrow> t \<in> set (tasks_of m) \<Longrightarrow> deps_of m (st_name t) = st_dependencies t"
  by (subst deps_of_def, subst find_Some_if_distinct [where f = st_name and x = t]) auto

lemma children_of_Cons:
  "children_of (t # ts) p = replicate (count_list (st_dependencies t) p) (st_name t) @ children_of ts p"
  by (simp add: children_of_def)

lemma count_children_notin: "c \<notin> st_name ` set ts \<Longrightarrow> count_list (children_of ts p) c = 0"
  by (induction ts) (auto simp: children_of_def count_list_0_iff)

lemma count_list_replicate: "count_list (replicate n x) y = (if x = y then n else 0)"
  by (induction n) auto

lemma count_children:
  "distinct (map st_name ts) \<Longrightarrow> t \<in> set ts \<Longrightarrow>
     count_list (children_of ts p) (st_name t) = count_list (st_dependencies t) p"
proof (induction ts)
  case (Cons u ts)
  then have "t \<noteq> u \<Longrightarrow> st_name t \<noteq> st_name u" by (metis distinct.simps(2) image_eqI list.set_map list.simps(9) set_ConsD)
  with Cons show ?case by (auto simp: children_of_Cons count_children_notin count_list_replicate)
qed simp

lemma set_children_of: "set (children_of ts p) = {st_name t |t. t \<in> set ts \<and> p \<in> set (st_dependencies t)}"
  by (auto simp: children_of_def count_list_0_iff)

section \<open>The counting pass\<close>

lemma addParents_ok:
  assumes "set ps \<subseteq> fst ` set m" and "omap_inv (sr_startupChildrenMap sr)"
  shows "\<exists>sr'. addParents key m ps sr = (ERR_OK, sr') \<and> omap_inv (sr_startupChildrenMap sr') \<and>
           sr_zeroDequeResult sr' = sr_zeroDequeResult sr \<and>
           (\<forall>p. omap_at [] p (sr_startupChildrenMap sr') =
                  omap_at [] p (sr_startupChildrenMap sr) @ replicate (count_list ps p) key)"
  using assms
proof (induction ps arbitrary: sr)
  case (Cons p ps)
  let ?sr = "sr\<lparr>sr_startupChildrenMap :=
    omap_put p (omap_at [] p (sr_startupChildrenMap sr) @ [key]) (sr_startupChildrenMap sr)\<rparr>"
  have "omap_find m p \<noteq> None" using Cons.prems by (auto simp: map_of_eq_None_iff)
  with Cons.IH [of ?sr] Cons.prems show ?case
    by (auto simp: omap_inv_put omap_at_put replicate_app_Cons_same)
qed simp

lemma addParents_missing:
  "\<not> set ps \<subseteq> fst ` set m \<Longrightarrow> fst (addParents key m ps sr) = ERR_STARTUP_DEPENDENCY_NOT_FOUND"
  by (induction ps arbitrary: sr) (auto simp: map_of_eq_None_iff)

lemma addParents_codes:
  "fst (addParents key m ps sr) = ERR_OK \<longleftrightarrow> set ps \<subseteq> fst ` set m"
  by (induction ps arbitrary: sr) (auto simp: map_of_eq_None_iff startup_codes)

text \<open>What the counters, the deque and the children map hold after the tasks \<open>ts\<close> were counted.\<close>

definition counted :: "startup_task list \<Rightarrow> degree_map \<Rightarrow> string list \<Rightarrow> sort_result \<Rightarrow> bool" where
  "counted ts deg q sr \<longleftrightarrow>
     omap_inv deg \<and> omap_inv (sr_startupChildrenMap sr) \<and> distinct (map st_name ts) \<and>
     omap_find deg = (\<lambda>c. map_option GetDependenciesCount (find (\<lambda>t. st_name t = c) ts)) \<and>
     q = map st_name (filter (\<lambda>t. st_dependencies t = []) ts) \<and> sr_zeroDequeResult sr = q \<and>
     (\<forall>p. omap_at [] p (sr_startupChildrenMap sr) = children_of ts p)"

lemma counted_Nil: "counted [] [] [] emptySortResult"
  by (auto simp: counted_def emptySortResult_def omap_at_def children_of_def)

lemma find_snoc: "find P (xs @ [x]) = (case find P xs of None \<Rightarrow> if P x then Some x else None | Some y \<Rightarrow> Some y)"
  by (induction xs) auto

lemma children_of_snoc:
  "children_of (ts @ [t]) p = children_of ts p @ replicate (count_list (st_dependencies t) p) (st_name t)"
  by (simp add: children_of_def)

lemma SortZeroDeque_counted:
  assumes "counted ts deg q sr" and "SortZeroDeque t m deg q sr = (ERR_OK, deg', q', sr')"
  shows "counted (ts @ [t]) deg' q' sr' \<and> set (st_dependencies t) \<subseteq> fst ` set m"
proof -
  have fresh: "omap_find deg (st_name t) = None"
    using assms(2) by (auto simp: SortZeroDeque_def Let_def startup_codes split: if_splits)
  then have names: "find (\<lambda>u. st_name u = st_name t) ts = None" using assms(1) by (simp add: counted_def)
  then have new: "st_name t \<notin> st_name ` set ts" by (auto simp: find_None_conv)
  have deg: "omap_find (omap_put (st_name t) (GetDependenciesCount t) deg) =
      (\<lambda>c. map_option GetDependenciesCount (find (\<lambda>t. st_name t = c) (ts @ [t])))"
    using assms(1) names by (auto simp: counted_def find_omap_put find_snoc fun_eq_iff split: option.splits)
  show ?thesis
  proof (cases "st_dependencies t = []")
    case True
    with assms fresh deg new show ?thesis
      by (auto simp: counted_def SortZeroDeque_def Let_def omap_inv_put children_of_snoc)
  next
    case False
    then obtain sr2 where r: "addParents (st_name t) m (st_dependencies t) sr = (ERR_OK, sr2)"
      and eq: "deg' = omap_put (st_name t) (GetDependenciesCount t) deg" "q' = q" "sr' = sr2"
      using assms(2) fresh by (auto simp: SortZeroDeque_def Let_def split: prod.splits)
    then have sub: "set (st_dependencies t) \<subseteq> fst ` set m" using addParents_codes [of "st_name t" m "st_dependencies t" sr] by simp
    with addParents_ok [OF sub, of sr "st_name t"] assms(1) r False deg new eq show ?thesis
      by (auto simp: counted_def omap_inv_put children_of_snoc)
  qed
qed

lemma sortInit_counted:
  assumes "counted ts deg q sr" and "sortInit m rest deg q sr = (ERR_OK, deg', q', sr')"
  shows "counted (ts @ tasks_of rest) deg' q' sr' \<and> (\<forall>e\<in>set rest. snd e \<noteq> None) \<and>
         (\<forall>t\<in>set (tasks_of rest). set (st_dependencies t) \<subseteq> fst ` set m)"
  using assms
proof (induction rest arbitrary: ts deg q sr)
  case (Cons e rest)
  then obtain t deg1 q1 sr1 where e: "snd e = Some t"
    and one: "SortZeroDeque t m deg q sr = (ERR_OK, deg1, q1, sr1)"
    and rest: "sortInit m rest deg1 q1 sr1 = (ERR_OK, deg', q', sr')"
    by (auto simp: startup_codes split: option.splits prod.splits if_splits)
  from Cons.IH [OF conjunct1 [OF SortZeroDeque_counted [OF Cons.prems(1) one]] rest]
    SortZeroDeque_counted [OF Cons.prems(1) one] e show ?case
    by (simp add: tasks_of_def)
qed (simp add: tasks_of_def)


lemma sortInit_codes:
  "fst (sortInit m rest deg q sr) \<in> {ERR_OK, ERR_STARTUP_INTERNAL_ERROR, ERR_STARTUP_DEPENDENCY_NOT_FOUND}"
proof (induction rest arbitrary: deg q sr)
  case (Cons e rest)
  have "fst (addParents k m ps s) \<in> {ERR_OK, ERR_STARTUP_DEPENDENCY_NOT_FOUND}" for k ps s
    by (induction ps arbitrary: s) auto
  then have "fst (SortZeroDeque t m deg q sr) \<in> {ERR_OK, ERR_STARTUP_INTERNAL_ERROR, ERR_STARTUP_DEPENDENCY_NOT_FOUND}" for t
    by (auto simp: SortZeroDeque_def Let_def split: prod.splits) (metis fst_conv insertE singletonD)
  with Cons show ?case by (auto split: option.splits prod.splits) (metis fst_conv insertE singletonD)+
qed simp

section \<open>The deque loop\<close>

lemma word32_of_nat_0: "n < 2 ^ 32 \<Longrightarrow> (of_nat n :: 32 word) = 0 \<longleftrightarrow> n = 0"
  by (auto simp: word_of_nat_eq_0_iff dest: nat_dvd_not_less)

lemma relaxChildren_ok:
  assumes "omap_inv deg"
    and "\<forall>c\<in>set cs. omap_find deg c = Some (of_nat (base c + count_list cs c)) \<and> base c + count_list cs c < 2 ^ 32"
  shows "\<exists>deg' new. relaxChildren cs deg q = (deg', q @ new) \<and> omap_inv deg' \<and> distinct new \<and>
           set new = {c \<in> set cs. base c = 0} \<and>
           omap_find deg' = (\<lambda>c. if c \<in> set cs then Some (of_nat (base c)) else omap_find deg c)"
  using assms
proof (induction cs arbitrary: deg q)
  case (Cons c cs)
  let ?n = "base c + count_list cs c"
  let ?deg = "omap_put c (of_nat ?n) deg"
  have c: "omap_find deg c = Some (of_nat (Suc ?n))" "?n < 2 ^ 32" using Cons.prems(2) by (simp_all del: of_nat_add)
  then have val: "omap_at 0 c deg - 1 = of_nat ?n" by (simp add: omap_at_def)
  have zero: "(of_nat ?n :: 32 word) = 0 \<longleftrightarrow> base c = 0 \<and> c \<notin> set cs"
    unfolding word32_of_nat_0 [OF c(2)] by (simp add: count_list_0_iff)
  let ?q = "if base c = 0 \<and> c \<notin> set cs then q @ [c] else q"
  have step: "relaxChildren (c # cs) deg q = relaxChildren cs ?deg ?q"
    using Cons.prems(1) val zero by (simp add: Let_def omap_at_put)
  have pre: "\<forall>d\<in>set cs. omap_find ?deg d = Some (of_nat (base d + count_list cs d)) \<and> base d + count_list cs d < 2 ^ 32"
    using Cons.prems c(2) by (auto simp: find_omap_put simp del: of_nat_add split: if_splits)
  from Cons.IH [OF omap_inv_put [OF Cons.prems(1)] pre, of ?q]
  obtain deg' new where res: "relaxChildren cs ?deg ?q = (deg', ?q @ new)" "omap_inv deg'" "distinct new"
      "set new = {c \<in> set cs. base c = 0}"
    and fin: "omap_find deg' = (\<lambda>d. if d \<in> set cs then Some (of_nat (base d)) else omap_find ?deg d)" by blast
  have "omap_find deg' = (\<lambda>d. if d \<in> set (c # cs) then Some (of_nat (base d)) else omap_find deg d)"
    using fin Cons.prems(1) by (auto simp: fun_eq_iff find_omap_put count_list_0_iff)
  moreover define new' where "new' = (if base c = 0 \<and> c \<notin> set cs then [c] else []) @ new"
  moreover have "relaxChildren (c # cs) deg q = (deg', q @ new')" using step res(1) by (simp add: new'_def)
  moreover have "distinct new'" "set new' = {d \<in> set (c # cs). base d = 0}" using res(3,4) by (auto simp: new'_def)
  ultimately show ?case using res(2) by blast
qed simp

text \<open>Invariant of the loop: \<open>ds\<close> are the tasks taken from the deque so far.\<close>

definition topo_inv :: "task_map \<Rightarrow> string list \<Rightarrow> degree_map \<Rightarrow> string list \<Rightarrow> sort_result \<Rightarrow> bool" where
  "topo_inv m ds deg q sr \<longleftrightarrow>
     omap_inv deg \<and> omap_inv (sr_startupChildrenMap sr) \<and>
     distinct (ds @ q) \<and> set (ds @ q) = sg.ready m (set ds) \<and> sg.in_order m ds \<and>
     (\<forall>c\<in>set (task_names m). omap_find deg c = Some (of_nat (length (sg.open_deps m (set ds) c)))) \<and>
     (\<forall>p. omap_at [] p (sr_startupChildrenMap sr) = children_of (tasks_of m) p) \<and>
     set ds \<subseteq> fst ` set (sr_startupChildrenMap sr)"

lemmas topo_invD = topo_inv_def [THEN iffD1]

definition small_deps :: "task_map \<Rightarrow> bool" where
  "small_deps m \<longleftrightarrow> (\<forall>e\<in>set m. case snd e of None \<Rightarrow> True | Some t \<Rightarrow> length (st_dependencies t) < 2 ^ 32)"

lemma children_count:
  assumes "distinct (task_names m)" and "c \<in> set (task_names m)"
  shows "count_list (children_of (tasks_of m) p) c = count_list (deps_of m c) p"
  using assms deps_of_task count_children by (fastforce simp: task_names_def)

lemma children_set:
  assumes "distinct (task_names m)"
  shows "set (children_of (tasks_of m) p) = {c \<in> set (task_names m). p \<in> set (deps_of m c)}"
  using assms deps_of_task by (fastforce simp: set_children_of task_names_def)

lemma small_deps_of:
  assumes "distinct (task_names m)" and "small_deps m" and "\<forall>e\<in>set m. snd e \<noteq> None"
  shows "length (deps_of m c) < 2 ^ 32"
proof (cases "c \<in> set (task_names m)")
  case True
  then obtain e t where "e \<in> set m" "snd e = Some t" "st_name t = c"
    using assms(3) by (fastforce simp: task_names_def tasks_of_def)
  moreover from this have "t \<in> set (tasks_of m)" by (force simp: tasks_of_def)
  ultimately show ?thesis using assms deps_of_task [of m t] by (auto simp: task_names_def small_deps_def)
next
  case False
  then have "find (\<lambda>t. st_name t = c) (tasks_of m) = None" by (auto simp: find_None_conv task_names_def)
  then show ?thesis by (simp add: deps_of_def)
qed

text \<open>One task is done: its children's counters go down, and the children pushed are those that
  become ready.\<close>

lemma relax_ready:
  assumes key: "key \<notin> D" and om: "omap_inv deg" and dist: "distinct (task_names m)"
    and small: "\<And>c. length (deps_of m c) < 2 ^ 32"
    and deg: "\<forall>c\<in>set (task_names m). omap_find deg c = Some (of_nat (length (sg.open_deps m D c)))"
  shows "\<exists>deg' new. relaxChildren (children_of (tasks_of m) key) deg q = (deg', q @ new) \<and> omap_inv deg' \<and>
           distinct new \<and> set new \<inter> sg.ready m D = {} \<and> sg.ready m (insert key D) = sg.ready m D \<union> set new \<and>
           (\<forall>c\<in>set (task_names m). omap_find deg' c = Some (of_nat (length (sg.open_deps m (insert key D) c))))"
proof -
  let ?cs = "children_of (tasks_of m) key"
  let ?base = "\<lambda>c. length (sg.open_deps m (insert key D) c)"
  have split: "length (sg.open_deps m D c) = ?base c + count_list ?cs c" if "c \<in> set (task_names m)" for c
    using sg.open_deps_insert [OF key] children_count [OF dist that] by simp
  have bound: "?base c + count_list ?cs c < 2 ^ 32" if "c \<in> set (task_names m)" for c
    using split [OF that] sg.open_deps_le [of m D c] small [of c] by linarith
  have "\<forall>c\<in>set ?cs. omap_find deg c = Some (of_nat (?base c + count_list ?cs c)) \<and> ?base c + count_list ?cs c < 2 ^ 32"
    using deg split bound children_set [OF dist] by simp
  from relaxChildren_ok [OF om this, of q]
  obtain deg' new where res: "relaxChildren ?cs deg q = (deg', q @ new)" "omap_inv deg'" "distinct new"
      and new: "set new = {c \<in> set ?cs. ?base c = 0}"
      and fin: "omap_find deg' = (\<lambda>c. if c \<in> set ?cs then Some (of_nat (?base c)) else omap_find deg c)" by blast
  have newset: "set new = {c \<in> set (task_names m). key \<in> set (deps_of m c) \<and> sg.open_deps m (insert key D) c = []}"
    using new children_set [OF dist] by auto
  have degs: "omap_find deg' c = Some (of_nat (?base c))" if "c \<in> set (task_names m)" for c
  proof (cases "c \<in> set ?cs")
    case False
    then have "count_list ?cs c = 0" by (simp add: count_list_0_iff)
    with False that deg split [OF that] fin show ?thesis by simp
  qed (simp add: fin)
  have "sg.ready m (insert key D) = sg.ready m D \<union> set new" unfolding sg.ready_insert newset ..
  moreover have "set new \<inter> sg.ready m D = {}" using sg.newly_ready_disjoint [OF key, of m] newset by simp
  ultimately show ?thesis using res degs by blast
qed

lemma topo_inv_step:
  assumes inv: "topo_inv m ds deg (key # q) sr" and dist: "distinct (task_names m)"
    and small: "\<And>c. length (deps_of m c) < 2 ^ 32"
  shows "\<exists>deg' q'. relaxChildren (children_of (tasks_of m) key) deg q = (deg', q') \<and>
           topo_inv m (ds @ [key]) deg' q'
             (sr\<lparr>sr_startupChildrenMap := omap_put key (children_of (tasks_of m) key) (sr_startupChildrenMap sr)\<rparr>)"
proof -
  have key: "key \<notin> set ds" and rdy: "insert key (set ds \<union> set q) = sg.ready m (set ds)"
    and om: "omap_inv deg" and deg: "\<forall>c\<in>set (task_names m). omap_find deg c = Some (of_nat (length (sg.open_deps m (set ds) c)))"
    using inv by (auto simp: topo_inv_def)
  obtain deg' new where res: "relaxChildren (children_of (tasks_of m) key) deg q = (deg', q @ new)" "omap_inv deg'"
      "distinct new" "set new \<inter> sg.ready m (set ds) = {}" "sg.ready m (insert key (set ds)) = sg.ready m (set ds) \<union> set new"
      "\<forall>c\<in>set (task_names m). omap_find deg' c = Some (of_nat (length (sg.open_deps m (insert key (set ds)) c)))"
    using relax_ready [OF key om dist small deg] by blast
  have ord: "set (deps_of m key) \<subseteq> set ds" using rdy by (auto simp: sg.ready_def)
  have "topo_inv m (ds @ [key]) deg' (q @ new)
      (sr\<lparr>sr_startupChildrenMap := omap_put key (children_of (tasks_of m) key) (sr_startupChildrenMap sr)\<rparr>)"
    using inv res(2-) rdy ord
    by (auto simp: topo_inv_def sg.in_order_snoc omap_inv_put omap_at_put keys_omap_put)
  with res(1) show ?thesis by blast
qed

lemma topoLoop_Nil [simp]: "topoLoop m deg [] sr a b = Some (Inr (ERR_OK, sr, a, b))"
  by (subst topoLoop.simps) simp

lemma topo_inv_length: "topo_inv m ds deg q sr \<Longrightarrow> length (ds @ q) \<le> length m"
proof -
  assume inv: "topo_inv m ds deg q sr"
  then have "set (ds @ q) \<subseteq> set (task_names m)" using sg.ready_nodes by (fastforce simp: topo_inv_def)
  then have "card (set (ds @ q)) \<le> card (set (task_names m))" by (intro card_mono) auto
  also have "\<dots> \<le> length m" using card_length [of "task_names m"] by (simp add: task_names_def tasks_of_def)
  finally have "card (set (ds @ q)) \<le> length m" .
  moreover have "distinct (ds @ q)" using inv by (simp add: topo_inv_def)
  ultimately show ?thesis by (metis distinct_card)
qed

lemma topoLoop_ok:
  assumes "topo_inv m ds deg q sr" and "distinct (task_names m)"
    and "\<And>c. length (deps_of m c) < 2 ^ 32" and "\<forall>e\<in>set m. snd e \<noteq> None"
  shows "\<exists>ret sr' a' b'. topoLoop m deg q sr a b = Some (Inr (ret, sr', a', b')) \<and>
           (ret = ERR_OK \<or> ret = ERR_STARTUP_INTERNAL_ERROR \<and> \<not> set (task_names m) \<subseteq> fst ` set m) \<and>
           (ret = ERR_OK \<longrightarrow> (\<exists>ds' deg'. topo_inv m ds' deg' [] sr' \<and>
              a' + b' + of_nat (length ds) = a + b + of_nat (length ds') \<and>
              sr_zeroDequeResult sr' = sr_zeroDequeResult sr))"
  using assms(1)
proof (induction "length m - length ds" arbitrary: ds deg q sr a b rule: less_induct)
  case less
  show ?case
  proof (cases q)
    case Nil
    with less.prems show ?thesis by auto
  next
    case (Cons key rest)
    have keyN: "key \<in> set (task_names m)"
      using less.prems Cons sg.ready_nodes by (fastforce simp: topo_inv_def)
    show ?thesis
    proof (cases "omap_find m key")
      case None
      then have "topoLoop m deg q sr a b = Some (Inr (ERR_STARTUP_INTERNAL_ERROR, sr, a, b))"
        using Cons by (subst topoLoop.simps) simp
      moreover have "key \<notin> fst ` set m" using None by (simp add: map_of_eq_None_iff)
      ultimately show ?thesis using keyN by (auto simp: startup_codes)
    next
      case (Some v)
      then obtain t where t: "omap_find m key = Some (Some t)" using assms(4) map_of_SomeD [OF Some] by (cases v) auto
      let ?cs = "children_of (tasks_of m) key"
      have at: "omap_at [] key (sr_startupChildrenMap sr) = ?cs" using less.prems by (simp add: topo_inv_def)
      let ?sr = "sr\<lparr>sr_startupChildrenMap := omap_put key ?cs (sr_startupChildrenMap sr)\<rparr>"
      let ?a = "if st_callCreateOnMainThread t then a + 1 else a"
      let ?b = "if st_callCreateOnMainThread t then b else b + 1"
      obtain deg' q' where rel: "relaxChildren ?cs deg rest = (deg', q')" and inv: "topo_inv m (ds @ [key]) deg' q' ?sr"
        using topo_inv_step [OF _ assms(2,3)] less.prems Cons by blast
      have step: "topoLoop m deg q sr a b = topoLoop m deg' q' ?sr ?a ?b"
        using Cons t at rel by (subst topoLoop.simps) (simp add: Let_def)
      have "length m - length (ds @ [key]) < length m - length ds"
        using topo_inv_length [OF less.prems] Cons by simp
      from less.hyps [OF this inv, of ?a ?b] obtain ret sr' a' b' where
        r: "topoLoop m deg' q' ?sr ?a ?b = Some (Inr (ret, sr', a', b'))"
          "ret = ERR_OK \<or> ret = ERR_STARTUP_INTERNAL_ERROR \<and> \<not> set (task_names m) \<subseteq> fst ` set m"
        and ok: "ret = ERR_OK \<longrightarrow> (\<exists>ds' deg'. topo_inv m ds' deg' [] sr' \<and>
              a' + b' + of_nat (length (ds @ [key])) = ?a + ?b + of_nat (length ds') \<and>
              sr_zeroDequeResult sr' = sr_zeroDequeResult ?sr)" by blast
      have "?a + ?b = a + b + 1" by simp
      then have "x + of_nat (length (ds @ [key])) = ?a + ?b + y \<longleftrightarrow> x + of_nat (length ds) = a + b + y" for x y :: "32 word"
        by (simp add: algebra_simps)
      with ok have "ret = ERR_OK \<longrightarrow> (\<exists>ds' deg'. topo_inv m ds' deg' [] sr' \<and>
              a' + b' + of_nat (length ds) = a + b + of_nat (length ds') \<and>
              sr_zeroDequeResult sr' = sr_zeroDequeResult sr)" by simp
      with r step show ?thesis by simp
    qed
  qed
qed

lemma counted_topo_inv:
  assumes "counted (tasks_of m) deg q sr" and "\<forall>e\<in>set m. snd e \<noteq> None"
  shows "topo_inv m [] deg q sr"
proof -
  have dist: "distinct (map st_name (tasks_of m))" using assms by (simp add: counted_def)
  have "set q = {c \<in> set (task_names m). deps_of m c = []}"
    using assms(1) deps_of_task [OF dist] by (fastforce simp: counted_def task_names_def)
  then have "set q = sg.ready m {}" by (simp add: sg.ready_def)
  moreover have "distinct q" using assms(1) dist by (simp add: counted_def distinct_map_filter)
  moreover have "omap_find deg c = Some (of_nat (length (deps_of m c)))" if c: "c \<in> set (task_names m)" for c
  proof -
    from c obtain t where t: "t \<in> set (tasks_of m)" "st_name t = c" by (auto simp: task_names_def)
    then have "find (\<lambda>t. st_name t = c) (tasks_of m) = Some t" using find_Some_if_distinct [OF dist] by auto
    with assms(1) t deps_of_task [OF dist t(1)] show ?thesis by (simp add: counted_def GetDependenciesCount_def)
  qed
  ultimately show ?thesis using assms(1) by (simp add: topo_inv_def counted_def sg.open_deps_def)
qed


section \<open>Correctness of the sort\<close>

definition task_rel :: "task_map \<Rightarrow> (string \<times> string) set" where
  "task_rel m = {(p, c). \<exists>t\<in>set (tasks_of m). st_name t = c \<and> p \<in> set (st_dependencies t)}"

definition deps_found :: "task_map \<Rightarrow> bool" where
  "deps_found m \<longleftrightarrow> (\<forall>t\<in>set (tasks_of m). set (st_dependencies t) \<subseteq> set (map fst m))"

text \<open>A map of tasks under their own names, as the start-up managers build it.\<close>

definition well_named :: "task_map \<Rightarrow> bool" where
  "well_named m \<longleftrightarrow>
     omap_inv m \<and> (\<forall>e\<in>set m. case snd e of None \<Rightarrow> False | Some t \<Rightarrow> st_name t = fst e)"

text \<open>What a successful sort hands to the dispatcher.\<close>

definition sort_result_ok :: "task_map \<Rightarrow> sort_result \<Rightarrow> bool" where
  "sort_result_ok m sr \<longleftrightarrow>
     sr_zeroDequeResult sr = map st_name (filter (\<lambda>t. st_dependencies t = []) (tasks_of m)) \<and>
     (\<forall>c\<in>set (map fst m). omap_find (sr_startupChildrenMap sr) c = Some (children_of (tasks_of m) c))"

lemma well_named_names: "well_named m \<Longrightarrow> task_names m = map fst m"
  by (auto simp: well_named_def task_names_def tasks_of_def split: option.splits)

lemma well_named_nonnull: "well_named m \<Longrightarrow> \<forall>e\<in>set m. snd e \<noteq> None"
  by (auto simp: well_named_def split: option.splits)

lemma well_named_distinct: "well_named m \<Longrightarrow> distinct (task_names m)"
  by (simp add: well_named_names, simp add: well_named_def omap_inv_distinct)

lemma task_rel_eq: "distinct (task_names m) \<Longrightarrow> task_rel m = sg.dep_rel m"
  unfolding task_rel_def sg.dep_rel_def using deps_of_task by (fastforce simp: task_names_def)

lemma deps_found_of:
  assumes "deps_found m" and "well_named m" and "c \<in> set (task_names m)"
  shows "set (deps_of m c) \<subseteq> set (task_names m)"
proof -
  from assms(3) obtain t where t: "t \<in> set (tasks_of m)" "c = st_name t" by (auto simp: task_names_def)
  have "deps_of m c = st_dependencies t"
    using deps_of_task [OF _ t(1)] well_named_distinct [OF assms(2)] t(2) by (simp add: task_names_def)
  then show ?thesis using assms(1) t(1) by (simp add: deps_found_def well_named_names [OF assms(2)])
qed

lemma counted_fresh: "counted ts deg q sr \<Longrightarrow> n \<notin> st_name ` set ts \<Longrightarrow> omap_find deg n = None"
  by (auto simp: counted_def find_None_conv)

lemma SortZeroDeque_ret:
  assumes "omap_find deg (st_name t) = None"
  shows "\<exists>deg' q' sr'. SortZeroDeque t m deg q sr =
    (if set (st_dependencies t) \<subseteq> fst ` set m then ERR_OK else ERR_STARTUP_DEPENDENCY_NOT_FOUND, deg', q', sr')"
  using assms addParents_codes [of "st_name t" m "st_dependencies t" sr] addParents_missing [of "st_dependencies t" m "st_name t" sr]
  by (cases "st_dependencies t = []"; cases "addParents (st_name t) m (st_dependencies t) sr")
    (auto simp: SortZeroDeque_def Let_def)

lemma sortInit_ok:
  assumes wn: "well_named m" and found: "deps_found m"
  shows "\<exists>deg q sr. sortInit m m [] [] emptySortResult = (ERR_OK, deg, q, sr)"
proof -
  have "\<exists>deg' q' sr'. sortInit m rest deg q sr = (ERR_OK, deg', q', sr')"
    if "counted ts deg q sr" "distinct (map st_name (ts @ tasks_of rest))" "\<forall>e\<in>set rest. snd e \<noteq> None"
      "\<forall>t\<in>set (tasks_of rest). set (st_dependencies t) \<subseteq> fst ` set m" for ts deg q sr rest
    using that
  proof (induction rest arbitrary: ts deg q sr)
    case (Cons e rest)
    then obtain t where t: "snd e = Some t" by auto
    have "omap_find deg (st_name t) = None"
      using counted_fresh [OF Cons.prems(1)] Cons.prems(2) t by (simp add: tasks_of_def)
    then obtain deg1 q1 sr1 where one: "SortZeroDeque t m deg q sr = (ERR_OK, deg1, q1, sr1)"
      using Cons.prems(4) t SortZeroDeque_ret [of deg t m q sr] by (auto simp: tasks_of_def)
    from Cons.IH [OF conjunct1 [OF SortZeroDeque_counted [OF Cons.prems(1) one]]] Cons.prems t one show ?case
      by (simp add: tasks_of_def)
  qed simp
  from this [OF counted_Nil, of m] show ?thesis
    using well_named_distinct [OF wn] well_named_nonnull [OF wn] found
    by (simp add: deps_found_def task_names_def)
qed

lemma sortInit_missing:
  assumes wn: "well_named m" and missing: "\<not> deps_found m"
  shows "fst (sortInit m m [] [] emptySortResult) = ERR_STARTUP_DEPENDENCY_NOT_FOUND"
proof -
  have "fst (sortInit m rest deg q sr) = ERR_STARTUP_DEPENDENCY_NOT_FOUND"
    if "counted ts deg q sr" "distinct (map st_name (ts @ tasks_of rest))" "\<forall>e\<in>set rest. snd e \<noteq> None"
      "\<exists>t\<in>set (tasks_of rest). \<not> set (st_dependencies t) \<subseteq> fst ` set m" for ts deg q sr rest
    using that
  proof (induction rest arbitrary: ts deg q sr)
    case (Cons e rest)
    then obtain t where t: "snd e = Some t" by auto
    have fresh: "omap_find deg (st_name t) = None"
      using counted_fresh [OF Cons.prems(1)] Cons.prems(2) t by (simp add: tasks_of_def)
    show ?case
    proof (cases "set (st_dependencies t) \<subseteq> fst ` set m")
      case True
      then obtain deg1 q1 sr1 where one: "SortZeroDeque t m deg q sr = (ERR_OK, deg1, q1, sr1)"
        using SortZeroDeque_ret [OF fresh, of m q sr] by auto
      from Cons.IH [OF conjunct1 [OF SortZeroDeque_counted [OF Cons.prems(1) one]]] Cons.prems t one True show ?thesis
        by (simp add: tasks_of_def)
    next
      case False
      with t SortZeroDeque_ret [OF fresh, of m q sr] show ?thesis by (auto simp: startup_codes)
    qed
  qed (simp add: tasks_of_def)
  from this [OF counted_Nil, of m] show ?thesis
    using well_named_distinct [OF wn] well_named_nonnull [OF wn] missing
    by (auto simp: deps_found_def task_names_def)
qed

text \<open>The sort of any task map returns: the deque loop runs out of tasks, and it never dereferences a
  null task.\<close>

theorem Sort_terminates:
  assumes "small_deps m"
  shows "\<exists>code sr. Sort m = Some (Inr (code, sr)) \<and>
           code \<in> {ERR_OK, ERR_STARTUP_INTERNAL_ERROR, ERR_STARTUP_DEPENDENCY_NOT_FOUND, ERR_STARTUP_CIRCULAR_DEPENDENCY}"
proof -
  obtain ret deg q sr where init: "sortInit m m [] [] emptySortResult = (ret, deg, q, sr)" by (metis prod.exhaust)
  show ?thesis
  proof (cases "ret = ERR_OK")
    case False
    with init sortInit_codes [of m m "[]" "[]" emptySortResult] show ?thesis by (auto simp: Sort_def)
  next
    case True
    with init sortInit_counted [OF counted_Nil, of m m deg q sr]
    have cnt: "counted (tasks_of m) deg q sr" and nn: "\<forall>e\<in>set m. snd e \<noteq> None" by auto
    then have dist: "distinct (task_names m)" by (simp add: counted_def task_names_def)
    from topoLoop_ok [OF counted_topo_inv [OF cnt nn] dist small_deps_of [OF dist assms nn] nn, of 0 0]
    obtain ret' sr' a b where "topoLoop m deg q sr 0 0 = Some (Inr (ret', sr', a, b))"
      "ret' = ERR_OK \<or> ret' = ERR_STARTUP_INTERNAL_ERROR" by blast
    with init True show ?thesis by (simp add: Sort_def) metis
  qed
qed

lemma Sort_spec:
  assumes wn: "well_named m" and small: "small_deps m" and len: "length m < 2 ^ 32"
  shows "\<exists>code sr. Sort m = Some (Inr (code, sr)) \<and>
           code = (if \<not> deps_found m then ERR_STARTUP_DEPENDENCY_NOT_FOUND
                   else if acyclic (task_rel m) then ERR_OK else ERR_STARTUP_CIRCULAR_DEPENDENCY) \<and>
           (code = ERR_OK \<longrightarrow> sort_result_ok m sr)"
proof (cases "deps_found m")
  case False
  obtain ret deg q sr where init: "sortInit m m [] [] emptySortResult = (ret, deg, q, sr)" by (metis prod.exhaust)
  with sortInit_missing [OF wn False] have "ret = ERR_STARTUP_DEPENDENCY_NOT_FOUND" by simp
  with False init show ?thesis by (simp add: Sort_def startup_codes)
next
  case True
  obtain deg q sr where init: "sortInit m m [] [] emptySortResult = (ERR_OK, deg, q, sr)"
    using sortInit_ok [OF wn True] by blast
  note nn = well_named_nonnull [OF wn] and dist = well_named_distinct [OF wn] and nm = well_named_names [OF wn]
  have cnt: "counted (tasks_of m) deg q sr" using sortInit_counted [OF counted_Nil init] by simp
  have "set (task_names m) \<subseteq> fst ` set m" by (simp add: nm)
  with topoLoop_ok [OF counted_topo_inv [OF cnt nn] dist small_deps_of [OF dist small nn] nn, of 0 0]
  obtain sr' a b ds deg' where loop: "topoLoop m deg q sr 0 0 = Some (Inr (ERR_OK, sr', a, b))"
    and inv: "topo_inv m ds deg' [] sr'" and sum: "a + b = of_nat (length ds)"
    and zero: "sr_zeroDequeResult sr' = sr_zeroDequeResult sr" by (auto simp: startup_codes)
  have "length ds \<le> length m" using topo_inv_length [OF inv] by simp
  then have tot: "unat (a + b) = length ds" using len sum by (simp add: unat_of_nat)
  have setds: "set ds \<subseteq> set (task_names m)" "distinct ds" "sg.ready m (set ds) = set ds" "sg.in_order m ds"
    using inv sg.ready_nodes by (fastforce simp: topo_inv_def)+
  have full: "length ds = length m \<longleftrightarrow> set ds = set (task_names m)"
    using setds(1,2) dist nm by (metis card_subset_eq distinct_card length_map List.finite_set)
  have acyc: "acyclic (task_rel m) \<longleftrightarrow> length ds = length m"
  proof
    assume "acyclic (task_rel m)"
    then have "set (task_names m) \<subseteq> set ds"
      using setds(3) deps_found_of [OF True wn] by (intro sg.closed_everything) (auto simp: task_rel_eq [OF dist])
    with setds(1) full show "length ds = length m" by blast
  next
    assume "length ds = length m"
    then show "acyclic (task_rel m)" using sg.in_order_acyclic [OF setds(4)] full by (simp add: task_rel_eq [OF dist])
  qed
  have res: "sort_result_ok m sr'" if "length ds = length m"
  proof -
    have "omap_find (sr_startupChildrenMap sr') c = Some (children_of (tasks_of m) c)" if "c \<in> set (task_names m)" for c
    proof -
      have "c \<in> fst ` set (sr_startupChildrenMap sr')"
        using inv that \<open>length ds = length m\<close> full by (auto simp: topo_inv_def)
      then obtain v where v: "omap_find (sr_startupChildrenMap sr') c = Some v"
        by (metis map_of_eq_None_iff not_None_eq)
      have "omap_at [] c (sr_startupChildrenMap sr') = children_of (tasks_of m) c" using inv by (simp add: topo_inv_def)
      with v show ?thesis by (simp add: omap_at_def)
    qed
    with zero cnt nm show ?thesis by (simp add: sort_result_ok_def counted_def)
  qed
  show ?thesis using init loop tot acyc True res by (auto simp: Sort_def startup_codes)
qed

text \<open>C10: The verdict of the sort is exact: it is an error when a dependency is missing, the circularity
  error when the dependencies have a cycle, and success otherwise; on success every task has its
  list of children, one entry for each time it is named as a dependency.\<close>

theorem Sort_exact:
  assumes wn: "well_named m" and small: "small_deps m" and len: "length m < 2 ^ 32"
  shows "\<exists>code sr. Sort m = Some (Inr (code, sr)) \<and>
           code = (if \<not> deps_found m then ERR_STARTUP_DEPENDENCY_NOT_FOUND
                   else if acyclic (task_rel m) then ERR_OK else ERR_STARTUP_CIRCULAR_DEPENDENCY) \<and>
           (code = ERR_OK \<longrightarrow> sort_result_ok m sr)"
  using Sort_spec [OF assms] .


section \<open>A small task map\<close>

definition exTask :: "string \<Rightarrow> string list \<Rightarrow> string \<times> startup_task option" where
  "exTask name deps = (name, Some ((newStartupTask name)\<lparr>st_dependencies := deps\<rparr>))"

definition exTasks :: task_map where
  "exTasks = [exTask ''config'' [], exTask ''so_a'' [''config''], exTask ''so_b'' [''config'', ''so_a'']]"

definition exSort :: sort_result where
  "exSort = \<lparr>sr_startupChildrenMap = [(''config'', [''so_a'', ''so_b'']), (''so_a'', [''so_b'']), (''so_b'', [])],
     sr_zeroDequeResult = [''config'']\<rparr>"

lemma exTasks_wf: "well_named exTasks" "small_deps exTasks" "length exTasks < 2 ^ 32" "deps_found exTasks" "exTasks \<noteq> []"
proof -
  show "well_named exTasks" "deps_found exTasks" "exTasks \<noteq> []" by code_simp+
  show "small_deps exTasks" "length exTasks < 2 ^ 32"
    by (simp_all add: small_deps_def exTasks_def exTask_def newStartupTask_def)
qed

lemma exTasks_sort: "Sort exTasks = Some (Inr (ERR_OK, exSort))"
  by code_simp

theorem Sort_terminates_witness: "\<exists>code sr. Sort exTasks = Some (Inr (code, sr))"
  using Sort_terminates [OF exTasks_wf(2)] by blast

theorem Sort_exact_witness: "acyclic (task_rel exTasks) \<and> sort_result_ok exTasks exSort"
  using Sort_exact [OF exTasks_wf(1,2,3)] exTasks_sort exTasks_wf(4) by (auto simp: startup_codes split: if_splits)

end
