(* ===== verification/Startup_Dispatch.thy ===== *)
theory Startup_Dispatch
  imports Startup_Sort
begin

text \<open>
  The dispatcher of start-up tasks
  (\<open>frameworks/native/appkit/app_startup/startup_task_dispatcher.cpp\<close> with the callbacks of
  \<open>startup_task.cpp\<close>).

  \<open>Run\<close> starts the tasks without dependencies; when a task completes, its callback saves the result
  and calls \<open>Dispatch\<close>, which decrements the counters of the children and starts those that have
  become ready.  A task may complete while \<open>RunTaskInit\<close> runs (then the calls nest:
  \<open>RunTaskInit \<rightarrow> Dispatch \<rightarrow> NotifyChildren \<rightarrow> RunTaskInit\<close>) or later.

  \<^item> The virtual \<open>RunTaskInit\<close> of the tasks is the parameter \<open>beh\<close> (\<open>init_outcome\<close>).
  \<^item> The recursion through the callbacks is open: \<open>Dispatch\<close>, \<open>NotifyChildren\<close> and the loops take the
    function \<open>run\<close> that starts a task, and \<open>RunTaskInit\<close> ties the knot with a bound on the nesting depth
    (\<open>None\<close>: the bound was exceeded).  A depth of the number of tasks is enough, because a task that is
    dispatched is never dispatched again (\<open>Run_total\<close>, \<open>dispatcher_reachable\<close>).
  \<^item> The callbacks that tasks keep are \<open>dp_pending\<close> (the name a callback dispatches and its task); what other dispatchers do to shared tasks
    (start one, complete one, remove a result) are steps of the environment.
  \<^item> \<open>dp_log\<close> records what the code writes to its debug log: a task is started (\<open>EvInit\<close>), told of a
    dependency (\<open>EvDependency\<close>), dispatched with a result (\<open>EvDispatch\<close>) and counted as completed
    (\<open>EvCounted\<close>).

  A failing task's result is also kept by the task; the code prefixes its message with the name of
  the task in place.  The copy in the task is not tracked here: a task that is not \<open>INITIALIZED\<close> never
  hands out its result.
\<close>

section \<open>The code\<close>

datatype startup_event =
  EvInit string
| EvDependency string string
| EvDispatch string "startup_result option"
| EvCounted string

record dispatcher =
  dp_tasks :: task_map
  dp_sortResult :: "sort_result option"
  dp_inDegreeMap :: degree_map
  dp_mainThreadAwaitCount :: "32 word"
  dp_tasksCount :: "32 word"
  dp_completedCallback :: "on_completed option"
  dp_mainThreadAwaitCallback :: "on_completed option"
  dp_isTimeoutStopped :: bool
  dp_pending :: "(string \<times> string) list"
  dp_mainPosts :: "startup_result list"
  dp_log :: "startup_event list"

definition newDispatcher :: "task_map \<Rightarrow> sort_result option \<Rightarrow> dispatcher" where
  "newDispatcher tasks sortResult = \<lparr>dp_tasks = tasks, dp_sortResult = sortResult, dp_inDegreeMap = [],
     dp_mainThreadAwaitCount = 0, dp_tasksCount = 0, dp_completedCallback = None,
     dp_mainThreadAwaitCallback = None, dp_isTimeoutStopped = False, dp_pending = [],
     dp_mainPosts = [], dp_log = []\<rparr>"

definition logEv :: "startup_event \<Rightarrow> dispatcher \<Rightarrow> dispatcher" where
  "logEv ev d = d\<lparr>dp_log := dp_log d @ [ev]\<rparr>"

definition callCompleted :: "startup_result \<Rightarrow> dispatcher \<Rightarrow> dispatcher" where
  "callCompleted result d = d\<lparr>dp_completedCallback := map_option (OnCompleted_Call result) (dp_completedCallback d)\<rparr>"

definition callAwait :: "startup_result \<Rightarrow> dispatcher \<Rightarrow> dispatcher" where
  "callAwait result d =
     d\<lparr>dp_mainThreadAwaitCallback := map_option (OnCompleted_Call result) (dp_mainThreadAwaitCallback d)\<rparr>"

text \<open>Both \<open>OnError\<close> overloads: the completion callback is called at once, the other one on the main thread.\<close>

definition reportError :: "startup_result \<Rightarrow> dispatcher \<Rightarrow> dispatcher" where
  "reportError result d = (callCompleted result d)\<lparr>dp_mainPosts := dp_mainPosts d @ [result]\<rparr>"

definition OnErrorResult :: "string \<Rightarrow> startup_result \<Rightarrow> dispatcher \<Rightarrow> dispatcher" where
  "OnErrorResult name result d =
     reportError (result\<lparr>resultMessage := name @ '': '' @ resultMessage result\<rparr>) d"

definition OnErrorCode :: "int \<Rightarrow> string \<Rightarrow> dispatcher \<Rightarrow> dispatcher" where
  "OnErrorCode errorCode errorMessage d =
     reportError \<lparr>resultCode = errorCode, resultMessage = errorMessage\<rparr> d"

text \<open>The task behind a pointer the callers have checked, named by its key in \<open>tasks_\<close>.\<close>

definition taskAt :: "string \<Rightarrow> dispatcher \<Rightarrow> startup_task" where
  "taskAt key d = (case omap_find (dp_tasks d) key of Some (Some t) \<Rightarrow> t | _ \<Rightarrow> newStartupTask key)"

definition setTask :: "string \<Rightarrow> startup_task \<Rightarrow> dispatcher \<Rightarrow> dispatcher" where
  "setTask key t d = d\<lparr>dp_tasks := omap_put key (Some t) (dp_tasks d)\<rparr>"

type_synonym runner = "string \<Rightarrow> string \<Rightarrow> dispatcher \<Rightarrow> (int \<times> dispatcher) option"

fun childrenLoop :: "string \<Rightarrow> string list \<Rightarrow> string list \<Rightarrow> dispatcher \<Rightarrow> int \<times> string list \<times> dispatcher" where
  "childrenLoop name [] zeroInDegree d = (ERR_OK, zeroInDegree, d)"
| "childrenLoop name (child # cs) zeroInDegree d =
     (case omap_find (dp_inDegreeMap d) child of
        None \<Rightarrow> (ERR_STARTUP_INTERNAL_ERROR, zeroInDegree,
                 OnErrorCode ERR_STARTUP_INTERNAL_ERROR (child @ ''is not found in inDegreeMap_.'') d)
      | Some n \<Rightarrow>
          (case omap_find (dp_tasks d) child of
             None \<Rightarrow> (ERR_STARTUP_INTERNAL_ERROR, zeroInDegree,
                      OnErrorCode ERR_STARTUP_INTERNAL_ERROR (child @ ''is not found in tasks_.'') d)
           | Some None \<Rightarrow> (ERR_STARTUP_INTERNAL_ERROR, zeroInDegree,
                           OnErrorCode ERR_STARTUP_INTERNAL_ERROR (child @ '' task is null.'') d)
           | Some (Some _) \<Rightarrow>
               childrenLoop name cs (if n - 1 = 0 then zeroInDegree @ [child] else zeroInDegree)
                 ((logEv (EvDependency child name) d)\<lparr>dp_inDegreeMap := omap_put child (n - 1) (dp_inDegreeMap d)\<rparr>)))"

fun runZero :: "runner \<Rightarrow> string list \<Rightarrow> dispatcher \<Rightarrow> (int \<times> dispatcher) option" where
  "runZero run [] d = Some (ERR_OK, d)"
| "runZero run (key # ks) d =
     (if dp_isTimeoutStopped d then Some (ERR_STARTUP_TIMEOUT, d)
      else case run (st_name (taskAt key d)) key d of
        None \<Rightarrow> None
      | Some (runResult, d) \<Rightarrow> if runResult \<noteq> ERR_OK then Some (runResult, d) else runZero run ks d)"

definition NotifyChildren :: "runner \<Rightarrow> string \<Rightarrow> dispatcher \<Rightarrow> (int \<times> dispatcher) option" where
  "NotifyChildren run name d =
     (case dp_sortResult d of
        None \<Rightarrow> Some (ERR_STARTUP_INTERNAL_ERROR,
                  OnErrorCode ERR_STARTUP_INTERNAL_ERROR (name @ '': sort result is null'') d)
      | Some sr \<Rightarrow>
          (case omap_find (sr_startupChildrenMap sr) name of
             None \<Rightarrow> Some (ERR_STARTUP_INTERNAL_ERROR,
                       OnErrorCode ERR_STARTUP_INTERNAL_ERROR (name @ '' is not found'') d)
           | Some children \<Rightarrow>
               let (ret, zeroInDegree, d) = childrenLoop name children [] d
               in if ret \<noteq> ERR_OK then Some (ret, d) else runZero run zeroInDegree d))"

text \<open>The end of \<open>Dispatch\<close>: the two atomic counters go down, and whoever takes one to zero calls the
  callback.\<close>

definition countDown :: "string \<Rightarrow> bool \<Rightarrow> startup_result \<Rightarrow> dispatcher \<Rightarrow> dispatcher" where
  "countDown name wait r d =
     (let oldAwaitCount = dp_mainThreadAwaitCount d;
          d = (if wait
               then (let d = d\<lparr>dp_mainThreadAwaitCount := oldAwaitCount - 1\<rparr>
                     in if oldAwaitCount = 1 then callAwait r d else d)
               else d);
          oldTaskCount = dp_tasksCount d;
          d = logEv (EvCounted name) (d\<lparr>dp_tasksCount := oldTaskCount - 1\<rparr>)
      in if oldTaskCount = 1 then callCompleted r d else d)"

definition Dispatch :: "runner \<Rightarrow> string \<Rightarrow> startup_result option \<Rightarrow> dispatcher \<Rightarrow> dispatcher option" where
  "Dispatch run name result d =
     (let d = logEv (EvDispatch name result) d
      in case result of
        None \<Rightarrow> Some (OnErrorCode ERR_STARTUP_INTERNAL_ERROR (name @ '': result is null'') d)
      | Some r \<Rightarrow>
          if resultCode r \<noteq> ERR_OK then Some (OnErrorResult name r d)
          else (case omap_find (dp_tasks d) name of
             Some (Some t) \<Rightarrow>
               (case NotifyChildren run name d of
                  None \<Rightarrow> None
                | Some (ret, d) \<Rightarrow>
                    Some (if ret \<noteq> ERR_OK then d else countDown name (st_waitOnMainThread t) r d))
           | _ \<Rightarrow> Some (OnErrorCode ERR_STARTUP_INTERNAL_ERROR (name @ '' not found'') d)))"

fun callExtra :: "runner \<Rightarrow> startup_result option \<Rightarrow> string list \<Rightarrow> dispatcher \<Rightarrow> dispatcher option" where
  "callExtra run result [] d = Some d"
| "callExtra run result (callback # cbs) d =
     (case Dispatch run callback result d of None \<Rightarrow> None | Some d \<Rightarrow> callExtra run result cbs d)"

text \<open>The callback \<open>RunTaskPreInit\<close> pushes: save the result, call the extra callbacks, forget them.\<close>

definition taskCompleted :: "runner \<Rightarrow> string \<Rightarrow> startup_result option \<Rightarrow> dispatcher \<Rightarrow> dispatcher option" where
  "taskCompleted run key result d =
     (let d = setTask key (SaveResult result (taskAt key d)) d
      in case callExtra run result (st_extraCallbacks (taskAt key d)) d of
           None \<Rightarrow> None
         | Some d \<Rightarrow> Some (setTask key ((taskAt key d)\<lparr>st_extraCallbacks := []\<rparr>) d))"

text \<open>The callback stack of a task this dispatcher has started, from the top.\<close>

definition callbackCall :: "runner \<Rightarrow> string \<Rightarrow> string \<Rightarrow> startup_result option \<Rightarrow> dispatcher \<Rightarrow> dispatcher option" where
  "callbackCall run name key result d =
     (case taskCompleted run key result d of None \<Rightarrow> None | Some d \<Rightarrow> Dispatch run name result d)"

text \<open>The branch of \<open>RunTaskInit\<close> for a task in the state \<open>CREATED\<close>; \<open>outcome\<close> is what the task does.\<close>

definition runCreated :: "runner \<Rightarrow> init_outcome \<Rightarrow> runner" where
  "runCreated run outcome name key d =
     (let (result, task) = RunTaskPreInit (taskAt key d); d = setTask key task d
      in if result \<noteq> ERR_OK then Some (result, d)
         else case outcome of
           InitSync res ret \<Rightarrow> (case callbackCall run name key res d of None \<Rightarrow> None | Some d \<Rightarrow> Some (ret, d))
         | InitAsync ret \<Rightarrow> Some (ret, d\<lparr>dp_pending := dp_pending d @ [(name, key)]\<rparr>)
         | InitDropped ret \<Rightarrow> Some (ret, d))"

primrec RunTaskInit :: "(string \<Rightarrow> init_outcome) \<Rightarrow> nat \<Rightarrow> runner" where
  "RunTaskInit beh 0 = (\<lambda>name key d. None)"
| "RunTaskInit beh (Suc n) = (\<lambda>name key d.
     let d = logEv (EvInit name) d; task = taskAt key d
     in case st_state task of
       CREATED \<Rightarrow> runCreated (RunTaskInit beh n) (beh key) name key d
     | INITIALIZED \<Rightarrow>
         (case Dispatch (RunTaskInit beh n) name (st_result task) d of None \<Rightarrow> None | Some d \<Rightarrow> Some (ERR_OK, d))
     | INITIALIZING \<Rightarrow> (let (ret, task) = AddExtraCallback name task in Some (ret, setTask key task d))
     | INVALID \<Rightarrow> Some (ERR_STARTUP_INTERNAL_ERROR, d))"

fun runInit :: "(string \<times> startup_task option) list \<Rightarrow> dispatcher \<Rightarrow> int \<times> dispatcher" where
  "runInit [] d = (ERR_OK, d)"
| "runInit (iter # rest) d =
     (case snd iter of
        None \<Rightarrow> (ERR_STARTUP_INTERNAL_ERROR, d)
      | Some t \<Rightarrow>
          runInit rest
            (d\<lparr>dp_inDegreeMap := (if omap_find (dp_inDegreeMap d) (fst iter) = None
                                   then omap_put (fst iter) (GetDependenciesCount t) (dp_inDegreeMap d)
                                   else dp_inDegreeMap d),
               dp_mainThreadAwaitCount := dp_mainThreadAwaitCount d + (if st_waitOnMainThread t then 1 else 0)\<rparr>))"

fun runZeroDeque :: "runner \<Rightarrow> string list \<Rightarrow> dispatcher \<Rightarrow> (int \<times> dispatcher) option" where
  "runZeroDeque run [] d = Some (ERR_OK, d)"
| "runZeroDeque run (key # ks) d =
     (case omap_find (dp_tasks d) key of
        Some (Some t) \<Rightarrow>
          if dp_isTimeoutStopped d then Some (ERR_STARTUP_TIMEOUT, d)
          else (case run key key d of
                  None \<Rightarrow> None
                | Some (result, d) \<Rightarrow> if result \<noteq> ERR_OK then Some (result, d) else runZeroDeque run ks d)
      | _ \<Rightarrow> Some (ERR_STARTUP_INTERNAL_ERROR, d))"

definition Run :: "runner \<Rightarrow> on_completed option \<Rightarrow> on_completed option \<Rightarrow> dispatcher \<Rightarrow> (int \<times> dispatcher) option" where
  "Run run completedCallback mainThreadAwaitCallback d =
     (case dp_sortResult d of
        None \<Rightarrow> Some (ERR_STARTUP_INTERNAL_ERROR, d)
      | Some sr \<Rightarrow>
          let (ret, d) = runInit (dp_tasks d) d
          in if ret \<noteq> ERR_OK then Some (ret, d)
             else let d = d\<lparr>dp_tasksCount := of_nat (length (dp_tasks d)),
                            dp_completedCallback := completedCallback,
                            dp_mainThreadAwaitCallback := mainThreadAwaitCallback\<rparr>;
                      d = (if dp_mainThreadAwaitCount d = 0
                           then callAwait \<lparr>resultCode = ERR_OK, resultMessage = ''''\<rparr> d else d)
                  in runZeroDeque run (sr_zeroDequeResult sr) d)"

definition TimeoutStop :: "dispatcher \<Rightarrow> dispatcher" where
  "TimeoutStop d = d\<lparr>dp_isTimeoutStopped := True\<rparr>"


section \<open>The dispatcher and its environment\<close>

datatype env_event =
  TaskDone string string "startup_result option"
| OtherStart string
| OtherDone string "startup_result option"
| OtherRemove string
| StopByTimeout
| MainPost

definition taskIn :: "string \<Rightarrow> dispatcher \<Rightarrow> bool" where
  "taskIn key d = (case omap_find (dp_tasks d) key of Some (Some _) \<Rightarrow> True | _ \<Rightarrow> False)"

fun enabled :: "env_event \<Rightarrow> dispatcher \<Rightarrow> bool" where
  "enabled (TaskDone name key result) d \<longleftrightarrow> (name, key) \<in> set (dp_pending d)"
| "enabled (OtherStart key) d \<longleftrightarrow> taskIn key d \<and> st_state (taskAt key d) = CREATED"
| "enabled (OtherDone key result) d \<longleftrightarrow>
     taskIn key d \<and> st_state (taskAt key d) = INITIALIZING \<and> key \<notin> snd ` set (dp_pending d)"
| "enabled (OtherRemove key) d \<longleftrightarrow> taskIn key d"
| "enabled StopByTimeout d \<longleftrightarrow> True"
| "enabled MainPost d \<longleftrightarrow> dp_mainPosts d \<noteq> []"

fun handle :: "runner \<Rightarrow> env_event \<Rightarrow> dispatcher \<Rightarrow> dispatcher option" where
  "handle run (TaskDone name key result) d =
     callbackCall run name key result (d\<lparr>dp_pending := remove1 (name, key) (dp_pending d)\<rparr>)"
| "handle run (OtherStart key) d = Some (setTask key (snd (RunTaskPreInit (taskAt key d))) d)"
| "handle run (OtherDone key result) d = taskCompleted run key result d"
| "handle run (OtherRemove key) d = Some (setTask key (snd (RemoveResult (taskAt key d))) d)"
| "handle run StopByTimeout d = Some (TimeoutStop d)"
| "handle run MainPost d = Some (callAwait (hd (dp_mainPosts d)) (d\<lparr>dp_mainPosts := tl (dp_mainPosts d)\<rparr>))"

section \<open>Reading the log\<close>

definition inited :: "startup_event list \<Rightarrow> string set" where
  "inited l = {c. EvInit c \<in> set l}"

definition dispatches :: "startup_event list \<Rightarrow> string set" where
  "dispatches l = {c. \<exists>r. EvDispatch c r \<in> set l}"

text \<open>The tasks that completed successfully.\<close>

definition dispatched :: "startup_event list \<Rightarrow> string set" where
  "dispatched l = {c. \<exists>r. EvDispatch c (Some r) \<in> set l \<and> resultCode r = ERR_OK}"

definition finished :: "startup_event list \<Rightarrow> string set" where
  "finished l = {c. EvCounted c \<in> set l}"

definition ev_ok :: "task_map \<Rightarrow> startup_event list \<Rightarrow> startup_event \<Rightarrow> bool" where
  "ev_ok m l ev =
     (case ev of
        EvInit c \<Rightarrow> c \<in> set (task_names m) \<and> c \<notin> inited l \<and> set (deps_of m c) \<subseteq> dispatched l
      | EvDependency c p \<Rightarrow> c \<notin> inited l \<and> p \<in> set (deps_of m c) \<and> p \<in> dispatched l
      | EvDispatch c r \<Rightarrow> c \<in> inited l \<and> c \<notin> dispatches l
      | EvCounted c \<Rightarrow> c \<in> dispatched l \<and> c \<notin> finished l)"

text \<open>Every entry of the log is justified by the entries before it: a task is started once, after all
  its dependencies have completed; it hears of a dependency before it starts; it is dispatched once,
  after it was started; it is counted once, after it completed successfully.\<close>

definition log_wf :: "task_map \<Rightarrow> startup_event list \<Rightarrow> bool" where
  "log_wf m l \<longleftrightarrow> (\<forall>i<length l. ev_ok m (take i l) (l ! i))"

named_theorems log_simps \<open>how the sets read from the log grow\<close>

lemma log_wf_Nil [simp]: "log_wf m []"
  by (simp add: log_wf_def)

lemma log_wf_snoc [log_simps]: "log_wf m (l @ [ev]) \<longleftrightarrow> log_wf m l \<and> ev_ok m l ev"
  by (auto simp: log_wf_def nth_append less_Suc_eq)

lemma inited_snoc [log_simps]: "inited (l @ [ev]) = (case ev of EvInit c \<Rightarrow> insert c (inited l) | _ \<Rightarrow> inited l)"
  by (auto simp: inited_def split: startup_event.splits)

lemma dispatches_snoc [log_simps]:
  "dispatches (l @ [ev]) = (case ev of EvDispatch c r \<Rightarrow> insert c (dispatches l) | _ \<Rightarrow> dispatches l)"
  by (auto simp: dispatches_def split: startup_event.splits)

lemma dispatched_snoc [log_simps]:
  "dispatched (l @ [ev]) = (case ev of EvDispatch c (Some r) \<Rightarrow>
     if resultCode r = ERR_OK then insert c (dispatched l) else dispatched l | _ \<Rightarrow> dispatched l)"
  by (auto simp: dispatched_def split: startup_event.splits option.splits)

lemma finished_snoc [log_simps]: "finished (l @ [ev]) = (case ev of EvCounted c \<Rightarrow> insert c (finished l) | _ \<Rightarrow> finished l)"
  by (auto simp: finished_def split: startup_event.splits)

lemma log_sets_Nil [simp]: "inited [] = {}" "dispatches [] = {}" "dispatched [] = {}" "finished [] = {}"
  by (simp_all add: inited_def dispatches_def dispatched_def finished_def)

lemma dispatched_dispatches: "dispatched l \<subseteq> dispatches l"
  by (auto simp: dispatched_def dispatches_def)

lemma log_wf_sets:
  assumes "log_wf m l"
  shows "inited l \<subseteq> sg.ready m (dispatched l)" "dispatches l \<subseteq> inited l" "finished l \<subseteq> dispatched l"
proof -
  have "inited l \<subseteq> sg.ready m (dispatched l) \<and> dispatches l \<subseteq> inited l \<and> finished l \<subseteq> dispatched l"
    using assms
  proof (induction l rule: rev_induct)
    case (snoc ev l)
    then have IH: "inited l \<subseteq> sg.ready m (dispatched l)" "dispatches l \<subseteq> inited l" "finished l \<subseteq> dispatched l"
      and ev: "ev_ok m l ev" by (auto simp: log_wf_snoc)
    have "dispatched l \<subseteq> dispatched (l @ [ev])" by (auto simp: dispatched_def)
    with IH(1) sg.ready_mono have "inited l \<subseteq> sg.ready m (dispatched (l @ [ev]))" by blast
    with IH(2,3) ev show ?case
      by (cases ev) (auto simp: ev_ok_def log_simps sg.ready_def split: option.splits)
  qed simp
  then show "inited l \<subseteq> sg.ready m (dispatched l)" "dispatches l \<subseteq> inited l" "finished l \<subseteq> dispatched l" by auto
qed

lemmas log_wf_inited = log_wf_sets(1)
lemmas log_wf_dispatches = log_wf_sets(2)
lemmas log_wf_finished = log_wf_sets(3)

lemma log_wf_nodes: "log_wf m l \<Longrightarrow> dispatched l \<subseteq> set (task_names m)"
  using log_wf_sets [of m l] dispatched_dispatches [of l] sg.ready_nodes [of m "dispatched l"] by blast


section \<open>The invariant\<close>

definition taskShape :: "task_map \<Rightarrow> string \<Rightarrow> (string \<times> string list \<times> bool) option" where
  "taskShape m k = (case omap_find m k of
     Some (Some t) \<Rightarrow> Some (st_name t, st_dependencies t, st_waitOnMainThread t) | _ \<Rightarrow> None)"

definition waits :: "task_map \<Rightarrow> string set" where
  "waits m = {c. \<exists>n ds. taskShape m c = Some (n, ds, True)}"

definition extras :: "dispatcher \<Rightarrow> string \<Rightarrow> string list" where
  "extras d k = (case omap_find (dp_tasks d) k of Some (Some t) \<Rightarrow> st_extraCallbacks t | _ \<Rightarrow> [])"

definition valid_task :: "startup_task \<Rightarrow> bool" where
  "valid_task t \<longleftrightarrow> st_state t \<noteq> INVALID \<and>
     (st_state t = INITIALIZED \<longrightarrow> (case st_result t of None \<Rightarrow> False | Some r \<Rightarrow> resultCode r = ERR_OK))"

definition called_once :: "on_completed \<Rightarrow> bool" where
  "called_once cb \<longleftrightarrow> length (oc_calls cb) = (if isCalled cb then 1 else 0)"

text \<open>A callback that reports success exactly when \<open>done\<close> holds.\<close>

definition reports :: "bool \<Rightarrow> on_completed option \<Rightarrow> bool" where
  "reports done cbo = (case cbo of None \<Rightarrow> True | Some cb \<Rightarrow>
     called_once cb \<and> (\<forall>r\<in>set (oc_calls cb). resultCode r = ERR_OK \<longrightarrow> done) \<and> (done \<longrightarrow> isCalled cb))"

text \<open>The graph the dispatcher works on, as \<open>Sort\<close> leaves it.\<close>

definition prepared :: "task_map \<Rightarrow> sort_result \<Rightarrow> bool" where
  "prepared m sr \<longleftrightarrow> well_named m \<and> small_deps m \<and> length m < 2 ^ 32 \<and> m \<noteq> [] \<and> deps_found m \<and>
     acyclic (task_rel m) \<and> sort_result_ok m sr"

definition inv_graph :: "task_map \<Rightarrow> sort_result \<Rightarrow> dispatcher \<Rightarrow> bool" where
  "inv_graph m sr d \<longleftrightarrow>
     omap_inv (dp_tasks d) \<and> taskShape (dp_tasks d) = taskShape m \<and> dp_sortResult d = Some sr \<and>
     omap_inv (dp_inDegreeMap d) \<and>
     (\<forall>c\<in>set (task_names m). omap_find (dp_inDegreeMap d) c =
        Some (of_nat (length (sg.open_deps m (dispatched (dp_log d)) c))))"

text \<open>\<open>P\<close>: ready tasks the callers up the stack are about to start; \<open>A\<close>: tasks whose \<open>Dispatch\<close> is still
  running.\<close>

definition inv_log :: "task_map \<Rightarrow> string set \<Rightarrow> string set \<Rightarrow> dispatcher \<Rightarrow> bool" where
  "inv_log m P A d \<longleftrightarrow>
     log_wf m (dp_log d) \<and> P \<inter> inited (dp_log d) = {} \<and> P \<subseteq> sg.ready m (dispatched (dp_log d)) \<and>
     A \<subseteq> dispatched (dp_log d) - finished (dp_log d)"

definition inv_count :: "task_map \<Rightarrow> dispatcher \<Rightarrow> bool" where
  "inv_count m d \<longleftrightarrow>
     dp_tasksCount d = of_nat (card (set (task_names m) - finished (dp_log d))) \<and>
     dp_mainThreadAwaitCount d = of_nat (card (waits m - finished (dp_log d))) \<and>
     reports (set (task_names m) \<subseteq> finished (dp_log d)) (dp_completedCallback d) \<and>
     reports (waits m \<subseteq> finished (dp_log d)) (dp_mainThreadAwaitCallback d) \<and>
     (\<forall>r\<in>set (dp_mainPosts d). resultCode r \<noteq> ERR_OK)"

text \<open>\<open>X\<close>: tasks whose extra callbacks are being called.\<close>

definition inv_wait :: "string set \<Rightarrow> dispatcher \<Rightarrow> bool" where
  "inv_wait X d \<longleftrightarrow>
     distinct (dp_pending d) \<and>
     (\<forall>e\<in>set (dp_pending d). fst e = snd e \<and> snd e \<in> inited (dp_log d) - dispatches (dp_log d)) \<and>
     (\<forall>k. extras d k = [] \<or>
        extras d k = [k] \<and> k \<in> inited (dp_log d) \<and> (k \<in> dispatches (dp_log d) \<longrightarrow> k \<in> X) \<and> (k, k) \<notin> set (dp_pending d))"

definition waiting :: "dispatcher \<Rightarrow> string set" where
  "waiting d = fst ` set (dp_pending d) \<union> {k. extras d k \<noteq> []}"

text \<open>What holds besides while every task succeeds (\<open>ok\<close>) and nothing times out: no ready task is
  lost.  \<open>Y\<close>: started tasks whose callback is running.\<close>

definition inv_ok :: "task_map \<Rightarrow> string set \<Rightarrow> string set \<Rightarrow> string set \<Rightarrow> dispatcher \<Rightarrow> bool" where
  "inv_ok m P A Y d \<longleftrightarrow>
     \<not> dp_isTimeoutStopped d \<and>
     sg.ready m (dispatched (dp_log d)) \<subseteq> inited (dp_log d) \<union> P \<and>
     dispatches (dp_log d) \<subseteq> dispatched (dp_log d) \<and>
     dispatched (dp_log d) \<subseteq> finished (dp_log d) \<union> A \<and>
     inited (dp_log d) \<subseteq> dispatches (dp_log d) \<union> waiting d \<union> Y \<and>
     (\<forall>k\<in>set (task_names m). valid_task (taskAt k d)) \<and>
     (\<forall>cb. dp_completedCallback d = Some cb \<longrightarrow> (\<forall>r\<in>set (oc_calls cb). resultCode r = ERR_OK)) \<and>
     dp_mainPosts d = []"

definition disp_inv ::
  "bool \<Rightarrow> task_map \<Rightarrow> sort_result \<Rightarrow> string set \<Rightarrow> string set \<Rightarrow> string set \<Rightarrow> string set \<Rightarrow> dispatcher \<Rightarrow> bool" where
  "disp_inv ok m sr P A X Y d \<longleftrightarrow>
     inv_graph m sr d \<and> inv_log m P A d \<and> inv_count m d \<and> inv_wait X d \<and> (ok \<longrightarrow> inv_ok m P A Y d)"

lemmas inv_defs = inv_graph_def inv_log_def inv_count_def inv_wait_def inv_ok_def

lemma disp_invI:
  "inv_graph m sr d \<Longrightarrow> inv_log m P A d \<Longrightarrow> inv_count m d \<Longrightarrow> inv_wait X d \<Longrightarrow> (ok \<Longrightarrow> inv_ok m P A Y d) \<Longrightarrow>
     disp_inv ok m sr P A X Y d"
  by (simp add: disp_inv_def)

lemma disp_invD:
  assumes "disp_inv ok m sr P A X Y d"
  shows "inv_graph m sr d" "inv_log m P A d" "inv_count m d" "inv_wait X d" "ok \<Longrightarrow> inv_ok m P A Y d"
  using assms by (simp_all add: disp_inv_def)

text \<open>The pieces of the invariant depend on few fields.\<close>

lemma prepared_names: "prepared m sr \<Longrightarrow> task_names m = map fst m"
  by (simp add: prepared_def well_named_names)

lemma prepared_find:
  assumes "prepared m sr"
  shows "c \<in> set (task_names m) \<longleftrightarrow> (\<exists>t. omap_find m c = Some (Some t))"
    and "omap_find m c = Some (Some t) \<Longrightarrow> st_name t = c \<and> deps_of m c = st_dependencies t"
proof -
  have wn: "well_named m" using assms by (simp add: prepared_def)
  show "c \<in> set (task_names m) \<longleftrightarrow> (\<exists>t. omap_find m c = Some (Some t))"
  proof
    assume "c \<in> set (task_names m)"
    then have "omap_find m c \<noteq> None" by (simp add: well_named_names [OF wn] map_of_eq_None_iff)
    then show "\<exists>t. omap_find m c = Some (Some t)" using well_named_nonnull [OF wn] by (force dest: map_of_SomeD)
  next
    assume "\<exists>t. omap_find m c = Some (Some t)"
    then show "c \<in> set (task_names m)" using well_named_names [OF wn] by (force dest: map_of_SomeD)
  qed
  assume t: "omap_find m c = Some (Some t)"
  then have mem: "(c, Some t) \<in> set m" by (rule map_of_SomeD)
  then have "st_name t = c" using wn by (auto simp: well_named_def)
  moreover have "t \<in> set (tasks_of m)" using mem by (force simp: tasks_of_def)
  moreover have "distinct (map st_name (tasks_of m))" using well_named_distinct [OF wn] by (simp add: task_names_def)
  ultimately show "st_name t = c \<and> deps_of m c = st_dependencies t" using deps_of_task by force
qed

lemma task_found:
  assumes pr: "prepared m sr" and g: "inv_graph m sr d" and c: "c \<in> set (task_names m)"
  shows "omap_find (dp_tasks d) c = Some (Some (taskAt c d))" "st_name (taskAt c d) = c"
    "st_waitOnMainThread (taskAt c d) \<longleftrightarrow> c \<in> waits m"
proof -
  obtain t where t: "omap_find m c = Some (Some t)" using prepared_find(1) [OF pr] c by blast
  have sh: "taskShape (dp_tasks d) c = taskShape m c" using g by (simp add: inv_graph_def)
  then obtain t' where t': "omap_find (dp_tasks d) c = Some (Some t')"
    using t by (auto simp: taskShape_def split: option.splits)
  then have at: "taskAt c d = t'" by (simp add: taskAt_def)
  show "omap_find (dp_tasks d) c = Some (Some (taskAt c d))" using t' at by simp
  show "st_name (taskAt c d) = c" using sh t t' at prepared_find(2) [OF pr t] by (simp add: taskShape_def)
  show "st_waitOnMainThread (taskAt c d) \<longleftrightarrow> c \<in> waits m" using sh t t' at by (auto simp: waits_def taskShape_def)
qed

lemma waits_nodes: "prepared m sr \<Longrightarrow> waits m \<subseteq> set (task_names m)"
  using prepared_find(1) by (fastforce simp: waits_def taskShape_def split: option.splits)

text \<open>An update of a task that keeps its name, dependencies and flag.\<close>

definition same_task :: "startup_task \<Rightarrow> startup_task \<Rightarrow> bool" where
  "same_task t t' \<longleftrightarrow> st_name t' = st_name t \<and> st_dependencies t' = st_dependencies t \<and>
     st_waitOnMainThread t' = st_waitOnMainThread t"

lemma setTask_fields [simp]:
  "dp_sortResult (setTask k t d) = dp_sortResult d" "dp_inDegreeMap (setTask k t d) = dp_inDegreeMap d"
  "dp_log (setTask k t d) = dp_log d" "dp_pending (setTask k t d) = dp_pending d"
  "dp_tasksCount (setTask k t d) = dp_tasksCount d" "dp_mainThreadAwaitCount (setTask k t d) = dp_mainThreadAwaitCount d"
  "dp_completedCallback (setTask k t d) = dp_completedCallback d"
  "dp_mainThreadAwaitCallback (setTask k t d) = dp_mainThreadAwaitCallback d"
  "dp_mainPosts (setTask k t d) = dp_mainPosts d" "dp_isTimeoutStopped (setTask k t d) = dp_isTimeoutStopped d"
  by (simp_all add: setTask_def)

lemma setTask_reads:
  assumes "omap_inv (dp_tasks d)"
  shows "taskAt c (setTask k t d) = (if c = k then t else taskAt c d)"
    and "extras (setTask k t d) c = (if c = k then st_extraCallbacks t else extras d c)"
  using assms by (simp_all add: setTask_def taskAt_def extras_def find_omap_put)

lemma inv_graph_setTask:
  assumes pr: "prepared m sr" and g: "inv_graph m sr d" and k: "k \<in> set (task_names m)" and t: "same_task (taskAt k d) t"
  shows "inv_graph m sr (setTask k t d)"
proof -
  have "omap_inv (dp_tasks d)" using g by (simp add: inv_graph_def)
  then have "taskShape (omap_put k (Some t) (dp_tasks d)) c = taskShape (dp_tasks d) c" for c
    using t task_found(1) [OF pr g k] by (simp add: taskShape_def find_omap_put same_task_def)
  then show ?thesis using g by (simp add: inv_graph_def setTask_def omap_inv_put fun_eq_iff)
qed

lemma extras_taskAt: "prepared m sr \<Longrightarrow> inv_graph m sr d \<Longrightarrow> k \<in> set (task_names m) \<Longrightarrow> extras d k = st_extraCallbacks (taskAt k d)"
  using task_found(1) by (simp add: extras_def)

lemma disp_inv_setTask:
  assumes pr: "prepared m sr" and inv: "disp_inv ok m sr P A X Y d" and k: "k \<in> set (task_names m)"
    and t: "same_task (taskAt k d) t" "st_extraCallbacks t = extras d k" "ok \<Longrightarrow> valid_task t"
  shows "disp_inv ok m sr P A X Y (setTask k t d)"
proof (rule disp_invI)
  note D = disp_invD [OF inv]
  have om: "omap_inv (dp_tasks d)" using D(1) by (simp add: inv_graph_def)
  have ex: "extras (setTask k t d) = extras d" using t(2) by (auto simp: setTask_reads(2) [OF om])
  show "inv_graph m sr (setTask k t d)" by (rule inv_graph_setTask [OF pr D(1) k t(1)])
  show "inv_log m P A (setTask k t d)" "inv_count m (setTask k t d)" "inv_wait X (setTask k t d)"
    using D(2,3,4) ex by (simp_all add: inv_log_def inv_count_def inv_wait_def)
  show "inv_ok m P A Y (setTask k t d)" if ok
    using D(5) [OF that] t(3) [OF that] ex by (simp add: inv_ok_def waiting_def setTask_reads(1) [OF om])
qed


section \<open>Notifying the children\<close>

lemma childrenLoop_relax:
  assumes "omap_inv (dp_inDegreeMap d)"
    and "\<forall>c\<in>set cs. omap_find (dp_inDegreeMap d) c \<noteq> None \<and> (\<exists>t. omap_find (dp_tasks d) c = Some (Some t))"
  shows "childrenLoop name cs zs d =
    (ERR_OK, snd (relaxChildren cs (dp_inDegreeMap d) zs),
     d\<lparr>dp_inDegreeMap := fst (relaxChildren cs (dp_inDegreeMap d) zs),
       dp_log := dp_log d @ map (\<lambda>c. EvDependency c name) cs\<rparr>)"
  using assms
proof (induction cs arbitrary: zs d)
  case (Cons c cs)
  then obtain n t where n: "omap_find (dp_inDegreeMap d) c = Some n" and t: "omap_find (dp_tasks d) c = Some (Some t)"
    by auto
  let ?d = "(logEv (EvDependency c name) d)\<lparr>dp_inDegreeMap := omap_put c (n - 1) (dp_inDegreeMap d)\<rparr>"
  have "\<forall>c\<in>set cs. omap_find (dp_inDegreeMap ?d) c \<noteq> None \<and> (\<exists>t. omap_find (dp_tasks ?d) c = Some (Some t))"
    using Cons.prems by (simp add: logEv_def find_omap_put)
  with Cons.IH [of ?d] Cons.prems(1) n t show ?case
    by (simp add: Let_def omap_at_def find_omap_put omap_inv_put logEv_def)
qed simp

lemma log_dependencies:
  "inited (l @ map (\<lambda>c. EvDependency c p) cs) = inited l"
  "dispatches (l @ map (\<lambda>c. EvDependency c p) cs) = dispatches l"
  "dispatched (l @ map (\<lambda>c. EvDependency c p) cs) = dispatched l"
  "finished (l @ map (\<lambda>c. EvDependency c p) cs) = finished l"
  by (auto simp: inited_def dispatches_def dispatched_def finished_def)

lemma log_dispatch_dependencies:
  assumes "resultCode r = ERR_OK"
  shows "inited (l @ EvDispatch n (Some r) # map (\<lambda>c. EvDependency c p) cs) = inited l"
    "dispatches (l @ EvDispatch n (Some r) # map (\<lambda>c. EvDependency c p) cs) = insert n (dispatches l)"
    "dispatched (l @ EvDispatch n (Some r) # map (\<lambda>c. EvDependency c p) cs) = insert n (dispatched l)"
    "finished (l @ EvDispatch n (Some r) # map (\<lambda>c. EvDependency c p) cs) = finished l"
  using assms by (auto simp: inited_def dispatches_def dispatched_def finished_def)

lemma log_wf_dependencies:
  assumes "log_wf m l" and "\<forall>c\<in>set cs. c \<notin> inited l \<and> p \<in> set (deps_of m c)" and "p \<in> dispatched l"
  shows "log_wf m (l @ map (\<lambda>c. EvDependency c p) cs)"
  using assms(2)
proof (induction cs rule: rev_induct)
  case (snoc c cs)
  then have "log_wf m ((l @ map (\<lambda>c. EvDependency c p) cs) @ [EvDependency c p])"
    using assms(3) by (subst log_wf_snoc) (simp add: ev_ok_def log_dependencies)
  then show ?case by simp
qed (simp add: assms(1))

lemma logEv_fields [simp]:
  "dp_tasks (logEv ev d) = dp_tasks d" "dp_sortResult (logEv ev d) = dp_sortResult d"
  "dp_inDegreeMap (logEv ev d) = dp_inDegreeMap d" "dp_log (logEv ev d) = dp_log d @ [ev]"
  "dp_pending (logEv ev d) = dp_pending d" "dp_tasksCount (logEv ev d) = dp_tasksCount d"
  "dp_mainThreadAwaitCount (logEv ev d) = dp_mainThreadAwaitCount d"
  "dp_completedCallback (logEv ev d) = dp_completedCallback d"
  "dp_mainThreadAwaitCallback (logEv ev d) = dp_mainThreadAwaitCallback d"
  "dp_mainPosts (logEv ev d) = dp_mainPosts d" "dp_isTimeoutStopped (logEv ev d) = dp_isTimeoutStopped d"
  "taskAt k (logEv ev d) = taskAt k d" "extras (logEv ev d) k = extras d k"
  by (simp_all add: logEv_def taskAt_def extras_def)

lemma prepared_small: "prepared m sr \<Longrightarrow> length (deps_of m c) < 2 ^ 32"
  unfolding prepared_def using small_deps_of well_named_distinct well_named_nonnull by blast

lemma notify_step:
  assumes pr: "prepared m sr" and g: "inv_graph m sr d" and l: "inv_log m P A d"
    and name: "name \<in> inited (dp_log d) - dispatches (dp_log d)" and r: "resultCode r = ERR_OK"
  shows "\<exists>zs deg'. let d1 = logEv (EvDispatch name (Some r)) d;
            d2 = d1\<lparr>dp_inDegreeMap := deg', dp_log := dp_log d1 @ map (\<lambda>c. EvDependency c name) (children_of (tasks_of m) name)\<rparr>
          in childrenLoop name (children_of (tasks_of m) name) [] d1 = (ERR_OK, zs, d2) \<and>
             distinct zs \<and> set zs \<inter> P = {} \<and> inv_graph m sr d2 \<and> inv_log m (P \<union> set zs) (insert name A) d2 \<and>
             sg.ready m (insert name (dispatched (dp_log d))) = sg.ready m (dispatched (dp_log d)) \<union> set zs"
proof -
  let ?cs = "children_of (tasks_of m) name"
  let ?D = "dispatched (dp_log d)"
  let ?d1 = "logEv (EvDispatch name (Some r)) d"
  have dist: "distinct (task_names m)" using pr by (simp add: prepared_def well_named_distinct)
  have wf: "log_wf m (dp_log d)" using l by (simp add: inv_log_def)
  have nD: "name \<notin> ?D" using name dispatched_dispatches by blast
  have om: "omap_inv (dp_inDegreeMap d)"
    and deg: "\<forall>c\<in>set (task_names m). omap_find (dp_inDegreeMap d) c = Some (of_nat (length (sg.open_deps m ?D c)))"
    using g by (simp_all add: inv_graph_def)
  obtain deg' zs where rel: "relaxChildren ?cs (dp_inDegreeMap d) [] = (deg', [] @ zs)" "omap_inv deg'" "distinct zs"
      "set zs \<inter> sg.ready m ?D = {}" and rdy: "sg.ready m (insert name ?D) = sg.ready m ?D \<union> set zs"
      and degs: "\<forall>c\<in>set (task_names m). omap_find deg' c = Some (of_nat (length (sg.open_deps m (insert name ?D) c)))"
    using relax_ready [OF nD om dist prepared_small [OF pr] deg] by blast
  let ?d2 = "?d1\<lparr>dp_inDegreeMap := deg', dp_log := dp_log ?d1 @ map (\<lambda>c. EvDependency c name) ?cs\<rparr>"
  have cs: "set ?cs = {c \<in> set (task_names m). name \<in> set (deps_of m c)}" by (rule children_set [OF dist])
  have "\<forall>c\<in>set ?cs. omap_find (dp_inDegreeMap ?d1) c \<noteq> None \<and> (\<exists>t. omap_find (dp_tasks ?d1) c = Some (Some t))"
    using cs deg task_found(1) [OF pr g] by simp
  with childrenLoop_relax [of ?d1 ?cs name "[]"] om rel(1)
  have loop: "childrenLoop name ?cs [] ?d1 = (ERR_OK, zs, ?d2)" by simp
  have sets: "dispatched (dp_log ?d1) = insert name ?D" "inited (dp_log ?d1) = inited (dp_log d)"
      "finished (dp_log ?d1) = finished (dp_log d)" using r by (simp_all add: log_simps)
  have fresh: "c \<notin> inited (dp_log d)" if "c \<in> set ?cs" for c
    using that log_wf_inited [OF wf] cs nD by (auto simp: sg.ready_def)
  have "log_wf m (dp_log ?d1)" using wf name by (simp add: log_wf_snoc ev_ok_def)
  then have wf2: "log_wf m (dp_log ?d2)"
    using log_wf_dependencies [of m "dp_log ?d1" ?cs name] fresh cs sets by simp
  have "name \<notin> finished (dp_log d)" using log_wf_finished [OF wf] nD by blast
  then have "inv_log m (P \<union> set zs) (insert name A) ?d2"
    using l wf2 rel(4) rdy log_wf_inited [OF wf] by (auto simp: inv_log_def log_dispatch_dependencies [OF r])
  moreover have "inv_graph m sr ?d2" using g rel(2) degs by (simp add: inv_graph_def log_dispatch_dependencies [OF r])
  moreover have "set zs \<inter> P = {}" using l rel(4) by (auto simp: inv_log_def)
  ultimately show ?thesis using loop rel(3) rdy by (auto simp: Let_def)
qed


section \<open>Counting down\<close>

lemma reports_call:
  assumes "reports done cb" and "done \<Longrightarrow> done'" and "resultCode r = ERR_OK \<Longrightarrow> done'"
  shows "reports done' (map_option (OnCompleted_Call r) cb)"
  using assms by (cases cb) (auto simp: reports_def called_once_def OnCompleted_Call_def)

lemma count_dec:
  fixes S F :: "string set"
  assumes "finite S" and "card S < 2 ^ 32" and "c \<in> S - F"
  shows "(of_nat (card (S - F)) :: 32 word) - 1 = of_nat (card (S - insert c F))"
    and "(of_nat (card (S - F)) :: 32 word) = 1 \<longleftrightarrow> S \<subseteq> insert c F"
proof -
  have eq: "S - F = insert c (S - insert c F)" using assms(3) by blast
  have fin: "finite (S - insert c F)" using assms(1) by simp
  have c: "card (S - F) = Suc (card (S - insert c F))" using card_insert_disjoint [OF fin, of c] by (subst eq) blast
  then show "(of_nat (card (S - F)) :: 32 word) - 1 = of_nat (card (S - insert c F))" by simp
  have "card (S - insert c F) < 2 ^ 32" using card_mono [OF assms(1), of "S - insert c F"] assms(2) by auto
  then have "(of_nat (card (S - insert c F)) :: 32 word) = 0 \<longleftrightarrow> S \<subseteq> insert c F"
    using word32_of_nat_0 fin by (simp add: card_eq_0_iff)
  with c show "(of_nat (card (S - F)) :: 32 word) = 1 \<longleftrightarrow> S \<subseteq> insert c F" by simp
qed

lemma callback_fields [simp]:
  "dp_tasks (callCompleted r d) = dp_tasks d" "dp_sortResult (callCompleted r d) = dp_sortResult d"
  "dp_inDegreeMap (callCompleted r d) = dp_inDegreeMap d" "dp_log (callCompleted r d) = dp_log d"
  "dp_pending (callCompleted r d) = dp_pending d" "dp_tasksCount (callCompleted r d) = dp_tasksCount d"
  "dp_mainThreadAwaitCount (callCompleted r d) = dp_mainThreadAwaitCount d"
  "dp_completedCallback (callCompleted r d) = map_option (OnCompleted_Call r) (dp_completedCallback d)"
  "dp_mainThreadAwaitCallback (callCompleted r d) = dp_mainThreadAwaitCallback d"
  "dp_mainPosts (callCompleted r d) = dp_mainPosts d" "dp_isTimeoutStopped (callCompleted r d) = dp_isTimeoutStopped d"
  "dp_tasks (callAwait r d) = dp_tasks d" "dp_sortResult (callAwait r d) = dp_sortResult d"
  "dp_inDegreeMap (callAwait r d) = dp_inDegreeMap d" "dp_log (callAwait r d) = dp_log d"
  "dp_pending (callAwait r d) = dp_pending d" "dp_tasksCount (callAwait r d) = dp_tasksCount d"
  "dp_mainThreadAwaitCount (callAwait r d) = dp_mainThreadAwaitCount d"
  "dp_completedCallback (callAwait r d) = dp_completedCallback d"
  "dp_mainThreadAwaitCallback (callAwait r d) = map_option (OnCompleted_Call r) (dp_mainThreadAwaitCallback d)"
  "dp_mainPosts (callAwait r d) = dp_mainPosts d" "dp_isTimeoutStopped (callAwait r d) = dp_isTimeoutStopped d"
  by (simp_all add: callCompleted_def callAwait_def)

lemma task_reads_cong: "dp_tasks d' = dp_tasks d \<Longrightarrow> extras d' = extras d \<and> (\<forall>k. taskAt k d' = taskAt k d)"
  by (auto simp: extras_def taskAt_def)

lemma inv_graph_cong:
  "dp_tasks d' = dp_tasks d \<Longrightarrow> dp_sortResult d' = dp_sortResult d \<Longrightarrow> dp_inDegreeMap d' = dp_inDegreeMap d \<Longrightarrow>
     dispatched (dp_log d') = dispatched (dp_log d) \<Longrightarrow> inv_graph m sr d' = inv_graph m sr d"
  by (simp add: inv_graph_def)

lemma countDown_fields:
  "dp_tasks (countDown name wait r d) = dp_tasks d" "dp_sortResult (countDown name wait r d) = dp_sortResult d"
  "dp_inDegreeMap (countDown name wait r d) = dp_inDegreeMap d" "dp_log (countDown name wait r d) = dp_log d @ [EvCounted name]"
  "dp_pending (countDown name wait r d) = dp_pending d" "dp_mainPosts (countDown name wait r d) = dp_mainPosts d"
  "dp_isTimeoutStopped (countDown name wait r d) = dp_isTimeoutStopped d"
  "dp_tasksCount (countDown name wait r d) = dp_tasksCount d - 1"
  "dp_mainThreadAwaitCount (countDown name wait r d) = (if wait then dp_mainThreadAwaitCount d - 1 else dp_mainThreadAwaitCount d)"
  "dp_completedCallback (countDown name wait r d) =
     (if dp_tasksCount d = 1 then map_option (OnCompleted_Call r) (dp_completedCallback d) else dp_completedCallback d)"
  "dp_mainThreadAwaitCallback (countDown name wait r d) =
     (if wait \<and> dp_mainThreadAwaitCount d = 1 then map_option (OnCompleted_Call r) (dp_mainThreadAwaitCallback d)
      else dp_mainThreadAwaitCallback d)"
  by (simp_all add: countDown_def Let_def)

lemma prepared_card: "prepared m sr \<Longrightarrow> card (set (task_names m)) < 2 ^ 32"
  using card_length [of "task_names m"] by (simp add: prepared_def task_names_def tasks_of_def)

lemma inv_count_countDown:
  assumes pr: "prepared m sr" and c: "inv_count m d" and n: "name \<in> set (task_names m) - finished (dp_log d)"
    and w: "wait \<longleftrightarrow> name \<in> waits m" and r: "resultCode r = ERR_OK"
  shows "inv_count m (countDown name wait r d)"
proof -
  let ?F = "finished (dp_log d)" and ?K = "set (task_names m)"
  have wK: "waits m \<subseteq> ?K" by (rule waits_nodes [OF pr])
  then have fin: "finite (waits m)" "card (waits m) < 2 ^ 32"
    using prepared_card [OF pr] card_mono [OF _ wK] by (auto intro: finite_subset)
  note K = count_dec [OF _ prepared_card [OF pr] n, simplified]
  have F: "finished (dp_log (countDown name wait r d)) = insert name ?F" by (simp add: countDown_fields log_simps)
  have posts: "\<forall>r\<in>set (dp_mainPosts d). resultCode r \<noteq> ERR_OK" using c by (simp add: inv_count_def)
  have old: "dp_tasksCount d = of_nat (card (?K - ?F))" "dp_mainThreadAwaitCount d = of_nat (card (waits m - ?F))"
    and rep: "reports (?K \<subseteq> ?F) (dp_completedCallback d)" "reports (waits m \<subseteq> ?F) (dp_mainThreadAwaitCallback d)"
    using c by (simp_all add: inv_count_def)
  have "\<not> ?K \<subseteq> ?F" using n by blast
  then have comp: "reports (?K \<subseteq> insert name ?F) (dp_completedCallback (countDown name wait r d))"
    using rep(1) reports_call [OF rep(1), of True r] K(2) old(1) by (simp add: countDown_fields)
  have await: "reports (waits m \<subseteq> insert name ?F) (dp_mainThreadAwaitCallback (countDown name wait r d)) \<and>
      dp_mainThreadAwaitCount (countDown name wait r d) = of_nat (card (waits m - insert name ?F))"
  proof (cases wait)
    case True
    with w n have nw: "name \<in> waits m - ?F" by blast
    then have "\<not> waits m \<subseteq> ?F" by blast
    then show ?thesis
      using True rep(2) reports_call [OF rep(2), of True r] count_dec [OF fin nw] old(2)
      by (simp add: countDown_fields)
  next
    case False
    with w have "waits m - insert name ?F = waits m - ?F" "waits m \<subseteq> insert name ?F \<longleftrightarrow> waits m \<subseteq> ?F" by blast+
    then show ?thesis using False rep(2) old(2) by (simp add: countDown_fields)
  qed
  show ?thesis unfolding inv_count_def F using comp await K(1) old(1) posts by (simp add: countDown_fields)
qed

lemma disp_inv_countDown:
  assumes pr: "prepared m sr" and inv: "disp_inv ok m sr P (insert name A) X {} d" and A: "name \<notin> A"
    and w: "wait \<longleftrightarrow> name \<in> waits m" and r: "resultCode r = ERR_OK"
  shows "disp_inv ok m sr P A X {} (countDown name wait r d)"
proof (rule disp_invI)
  note D = disp_invD [OF inv]
  let ?d = "countDown name wait r d"
  have sets: "finished (dp_log ?d) = insert name (finished (dp_log d))" "inited (dp_log ?d) = inited (dp_log d)"
    "dispatches (dp_log ?d) = dispatches (dp_log d)" "dispatched (dp_log ?d) = dispatched (dp_log d)"
    by (simp_all add: countDown_fields log_simps)
  have ex: "extras ?d = extras d" "\<And>k. taskAt k ?d = taskAt k d"
    using task_reads_cong [of ?d d] by (simp_all add: countDown_fields)
  have n: "name \<in> dispatched (dp_log d) - finished (dp_log d)" using D(2) by (simp add: inv_log_def)
  then have nK: "name \<in> set (task_names m) - finished (dp_log d)" using D(2) log_wf_nodes by (auto simp: inv_log_def)
  show "inv_graph m sr ?d" using D(1) inv_graph_cong [of ?d d] sets by (simp add: countDown_fields)
  have "log_wf m (dp_log ?d)" using D(2) n by (simp add: countDown_fields log_wf_snoc ev_ok_def inv_log_def)
  then show "inv_log m P A ?d" using D(2) A sets by (auto simp: inv_log_def)
  show "inv_count m ?d" by (rule inv_count_countDown [OF pr D(3) nK w r])
  show "inv_wait X ?d" using D(4) sets ex by (simp add: inv_wait_def countDown_fields)
  show "inv_ok m P A {} ?d" if ok
    using D(5) [OF that] sets ex r
    by (auto simp: inv_ok_def waiting_def countDown_fields OnCompleted_Call_def split: if_splits)
qed


section \<open>Starting and dispatching tasks\<close>

text \<open>What the callers rely on when they start a ready task.\<close>

definition runner_spec :: "bool \<Rightarrow> task_map \<Rightarrow> sort_result \<Rightarrow> nat \<Rightarrow> runner \<Rightarrow> bool" where
  "runner_spec ok m sr n run \<longleftrightarrow>
     (\<forall>d P A X c. disp_inv ok m sr (insert c P) A X {} d \<longrightarrow> c \<notin> P \<longrightarrow>
        card (set (task_names m) - dispatched (dp_log d)) \<le> n \<longrightarrow>
        (\<exists>ret d'. run c c d = Some (ret, d') \<and> disp_inv ok m sr P A X {} d' \<and>
           dispatched (dp_log d) \<subseteq> dispatched (dp_log d') \<and> (ok \<longrightarrow> ret = ERR_OK)))"

lemma runner_specD:
  assumes "runner_spec ok m sr n run" and "disp_inv ok m sr (insert c P) A X {} d" and "c \<notin> P"
    and "card (set (task_names m) - dispatched (dp_log d)) \<le> n"
  obtains ret d' where "run c c d = Some (ret, d')" "disp_inv ok m sr P A X {} d'"
    "dispatched (dp_log d) \<subseteq> dispatched (dp_log d')" "ok \<Longrightarrow> ret = ERR_OK"
  using assms unfolding runner_spec_def by blast

lemma disp_inv_weaken:
  assumes "disp_inv ok m sr P A X Y d" and "\<not> ok" and "P' \<subseteq> P" and "A' \<subseteq> A"
  shows "disp_inv ok m sr P' A' X Y' d"
  using assms by (auto simp: disp_inv_def inv_log_def)

lemma card_open_mono:
  "D \<subseteq> D' \<Longrightarrow> card (set (task_names m) - D) \<le> n \<Longrightarrow> card (set (task_names m) - D') \<le> n"
  by (rule order_trans [OF card_mono]) auto

lemma disp_inv_pending_nodes: "disp_inv ok m sr P A X Y d \<Longrightarrow> P \<subseteq> set (task_names m)"
  using sg.ready_nodes by (fastforce simp: disp_inv_def inv_log_def)

lemma runZero_spec:
  assumes pr: "prepared m sr" and run: "runner_spec ok m sr n run"
  shows "disp_inv ok m sr (P \<union> set zs) A X {} d \<Longrightarrow> distinct zs \<Longrightarrow> set zs \<inter> P = {} \<Longrightarrow>
     card (set (task_names m) - dispatched (dp_log d)) \<le> n \<Longrightarrow>
     \<exists>ret d'. runZero run zs d = Some (ret, d') \<and> runZeroDeque run zs d = Some (ret, d') \<and>
       disp_inv ok m sr P A X {} d' \<and> dispatched (dp_log d) \<subseteq> dispatched (dp_log d') \<and> (ok \<longrightarrow> ret = ERR_OK)"
proof (induction zs arbitrary: d)
  case (Cons z zs)
  then have inv: "disp_inv ok m sr (insert z (P \<union> set zs)) A X {} d" and z: "z \<notin> P \<union> set zs" by auto
  note found = task_found(1,2) [OF pr disp_invD(1) [OF inv] disp_inv_pending_nodes [OF inv, THEN subsetD, of z], simplified]
  show ?case
  proof (cases "dp_isTimeoutStopped d")
    case True
    then have "\<not> ok" using disp_invD(5) [OF inv] by (auto simp: inv_ok_def)
    with disp_inv_weaken [OF Cons.prems(1), of P A "{}"] True found show ?thesis by auto
  next
    case False
    from runner_specD [OF run inv z Cons.prems(4)] obtain ret d' where
      r: "run z z d = Some (ret, d')" "disp_inv ok m sr (P \<union> set zs) A X {} d'"
        "dispatched (dp_log d) \<subseteq> dispatched (dp_log d')" "ok \<Longrightarrow> ret = ERR_OK" by metis
    show ?thesis
    proof (cases "ret = ERR_OK")
      case True
      with Cons.IH [OF r(2)] Cons.prems card_open_mono [OF r(3) Cons.prems(4)] r(1,3) found False show ?thesis by auto
    next
      case ret: False
      then have "\<not> ok" using r(4) by blast
      with ret disp_inv_weaken [OF r(2), of P A "{}"] r(1,3) found False show ?thesis by auto
    qed
  qed
qed auto

lemma reportError_inv:
  assumes "disp_inv ok m sr P A X Y d" and "\<not> ok" and "resultCode r \<noteq> ERR_OK"
  shows "disp_inv ok m sr P A X Y' (reportError r d)"
proof -
  have "extras (reportError r d) = extras d" using task_reads_cong [of "reportError r d" d] by (simp add: reportError_def)
  moreover have "reports b cb \<Longrightarrow> reports b (map_option (OnCompleted_Call r) cb)" for b cb
    using reports_call assms(3) by blast
  ultimately show ?thesis using assms
    by (auto simp: disp_inv_def inv_graph_def inv_log_def inv_count_def inv_wait_def reportError_def)
qed

lemma Dispatch_failed:
  assumes inv: "disp_inv ok m sr P A X Y d" and nok: "\<not> ok"
    and name: "name \<in> inited (dp_log d) - dispatches (dp_log d)" "(name, name) \<notin> set (dp_pending d)"
    and ex: "extras d name = [] \<or> name \<in> X" and res: "\<forall>r. res = Some r \<longrightarrow> resultCode r \<noteq> ERR_OK"
  shows "disp_inv ok m sr P A X {} (logEv (EvDispatch name res) d)"
proof (rule disp_invI)
  note D = disp_invD [OF inv]
  let ?d = "logEv (EvDispatch name res) d"
  have sets: "inited (dp_log ?d) = inited (dp_log d)" "dispatches (dp_log ?d) = insert name (dispatches (dp_log d))"
    "dispatched (dp_log ?d) = dispatched (dp_log d)" "finished (dp_log ?d) = finished (dp_log d)"
    using res by (simp_all add: log_simps split: option.splits)
  show "inv_graph m sr ?d" using D(1) inv_graph_cong [of ?d d] sets by simp
  have "log_wf m (dp_log ?d)" using D(2) name by (simp add: log_wf_snoc ev_ok_def inv_log_def)
  then show "inv_log m P A ?d" using D(2) sets by (simp add: inv_log_def)
  show "inv_count m ?d" using D(3) sets by (simp add: inv_count_def)
  have "\<forall>e\<in>set (dp_pending d). snd e \<noteq> name" using D(4) name(2) by (force simp: inv_wait_def)
  with D(4) ex sets show "inv_wait X ?d" by (auto simp: inv_wait_def)
qed (use nok in simp)

lemma notified_inv:
  assumes pr: "prepared m sr" and inv: "disp_inv ok m sr P A X {name} d"
    and name: "name \<in> inited (dp_log d) - dispatches (dp_log d)" "(name, name) \<notin> set (dp_pending d)"
    and ex: "extras d name = [] \<or> name \<in> X" and r: "resultCode r = ERR_OK"
  shows "\<exists>zs d2. childrenLoop name (children_of (tasks_of m) name) [] (logEv (EvDispatch name (Some r)) d) = (ERR_OK, zs, d2) \<and>
     distinct zs \<and> set zs \<inter> P = {} \<and> disp_inv ok m sr (P \<union> set zs) (insert name A) X {} d2 \<and>
     dispatched (dp_log d2) = insert name (dispatched (dp_log d))"
proof -
  note D = disp_invD [OF inv]
  let ?d1 = "logEv (EvDispatch name (Some r)) d" and ?cs = "children_of (tasks_of m) name"
  from notify_step [OF pr D(1,2) name(1) r] obtain zs deg' d2 where
    d2: "d2 = ?d1\<lparr>dp_inDegreeMap := deg', dp_log := dp_log ?d1 @ map (\<lambda>c. EvDependency c name) ?cs\<rparr>"
    and loop: "childrenLoop name ?cs [] ?d1 = (ERR_OK, zs, d2)"
    and zs: "distinct zs" "set zs \<inter> P = {}" and gl: "inv_graph m sr d2" "inv_log m (P \<union> set zs) (insert name A) d2"
    and rdy: "sg.ready m (insert name (dispatched (dp_log d))) = sg.ready m (dispatched (dp_log d)) \<union> set zs"
    unfolding Let_def by blast
  have tasks: "extras d2 = extras d" "\<And>k. taskAt k d2 = taskAt k d" using task_reads_cong [of d2 d] d2 by simp_all
  note sets = log_dispatch_dependencies [OF r]
  have nopend: "\<forall>e\<in>set (dp_pending d). snd e \<noteq> name" using D(4) name(2) by (force simp: inv_wait_def)
  have "disp_inv ok m sr (P \<union> set zs) (insert name A) X {} d2"
  proof (rule disp_invI [OF gl])
    show "inv_count m d2" using D(3) by (simp add: inv_count_def d2 sets)
    show "inv_wait X d2" using D(4) nopend ex tasks by (auto simp: inv_wait_def d2 sets)
    show "inv_ok m (P \<union> set zs) (insert name A) {} d2" if ok
      using D(5) [OF that] rdy tasks by (auto simp: inv_ok_def waiting_def d2 sets)
  qed
  moreover have "dispatched (dp_log d2) = insert name (dispatched (dp_log d))" by (simp add: d2 sets)
  ultimately show ?thesis using loop zs by blast
qed


text \<open>The contract of \<open>Dispatch\<close> for a started task that was not dispatched yet.\<close>

definition dispatchable :: "task_map \<Rightarrow> string set \<Rightarrow> nat \<Rightarrow> string \<Rightarrow> dispatcher \<Rightarrow> bool" where
  "dispatchable m X n name d \<longleftrightarrow>
     name \<in> inited (dp_log d) - dispatches (dp_log d) \<and> (name, name) \<notin> set (dp_pending d) \<and>
     (extras d name = [] \<or> name \<in> X) \<and> card (set (task_names m) - insert name (dispatched (dp_log d))) \<le> n"

definition good_result :: "startup_result option \<Rightarrow> bool" where
  "good_result res = (case res of None \<Rightarrow> False | Some r \<Rightarrow> resultCode r = ERR_OK)"

lemma started_node:
  assumes "disp_inv ok m sr P A X Y d" and "c \<in> inited (dp_log d)"
  shows "c \<in> set (task_names m)"
  using assms log_wf_inited sg.ready_nodes by (fastforce simp: disp_inv_def inv_log_def)

lemma Dispatch_ok:
  assumes pr: "prepared m sr" and run: "runner_spec ok m sr n run" and inv: "disp_inv ok m sr P A X {name} d"
    and da: "dispatchable m X n name d" and r: "resultCode r = ERR_OK"
  shows "\<exists>d'. Dispatch run name (Some r) d = Some d' \<and> disp_inv ok m sr P A X {} d' \<and>
           insert name (dispatched (dp_log d)) \<subseteq> dispatched (dp_log d')"
proof -
  let ?d1 = "logEv (EvDispatch name (Some r)) d"
  have name: "name \<in> inited (dp_log d) - dispatches (dp_log d)" "(name, name) \<notin> set (dp_pending d)"
    and ex: "extras d name = [] \<or> name \<in> X"
    and card: "card (set (task_names m) - insert name (dispatched (dp_log d))) \<le> n"
    using da by (auto simp: dispatchable_def)
  have nK: "name \<in> set (task_names m)" using started_node [OF inv] name by blast
  note found = task_found [OF pr disp_invD(1) [OF inv] nK]
  obtain zs d2 where loop: "childrenLoop name (children_of (tasks_of m) name) [] ?d1 = (ERR_OK, zs, d2)"
      and zs: "distinct zs" "set zs \<inter> P = {}" and inv2: "disp_inv ok m sr (P \<union> set zs) (insert name A) X {} d2"
      and D2: "dispatched (dp_log d2) = insert name (dispatched (dp_log d))"
    using notified_inv [OF pr inv name ex r] by blast
  from runZero_spec [OF pr run inv2 zs] card D2 obtain ret d3 where
    rz: "runZero run zs d2 = Some (ret, d3)" and inv3: "disp_inv ok m sr P (insert name A) X {} d3"
    and D3: "insert name (dispatched (dp_log d)) \<subseteq> dispatched (dp_log d3)" and ret: "ok \<longrightarrow> ret = ERR_OK" by auto
  have "dp_sortResult ?d1 = Some sr" using disp_invD(1) [OF inv] by (simp add: inv_graph_def)
  moreover have "omap_find (sr_startupChildrenMap sr) name = Some (children_of (tasks_of m) name)"
    using pr nK prepared_names [OF pr] by (simp add: prepared_def sort_result_ok_def) force
  ultimately have nc: "NotifyChildren run name ?d1 = Some (ret, d3)" using loop rz by (simp add: NotifyChildren_def)
  have "name \<notin> A" using disp_invD(2) [OF inv] name dispatched_dispatches [of "dp_log d"] by (auto simp: inv_log_def)
  then have "disp_inv ok m sr P A X {} (if ret \<noteq> ERR_OK then d3 else countDown name (st_waitOnMainThread (taskAt name d)) r d3)"
    using disp_inv_countDown [OF pr inv3 _ found(3) r] disp_inv_weaken [OF inv3 _ subset_refl subset_insertI, of "{}"] ret
    by auto
  moreover have "dispatched (dp_log (countDown name w r d3)) = dispatched (dp_log d3)" for w
    by (simp add: countDown_fields log_simps)
  ultimately show ?thesis using nc found(1) r D3 by (simp add: Dispatch_def)
qed

lemma Dispatch_spec:
  assumes pr: "prepared m sr" and run: "runner_spec ok m sr n run" and inv: "disp_inv ok m sr P A X {name} d"
    and da: "dispatchable m X n name d" and res: "ok \<Longrightarrow> good_result res"
  shows "\<exists>d'. Dispatch run name res d = Some d' \<and> disp_inv ok m sr P A X {} d' \<and>
           dispatched (dp_log d) \<subseteq> dispatched (dp_log d') \<and> (ok \<longrightarrow> name \<in> dispatched (dp_log d'))"
proof (cases "good_result res")
  case True
  then obtain r where "res = Some r" "resultCode r = ERR_OK" by (auto simp: good_result_def split: option.splits)
  with Dispatch_ok [OF pr run inv da] show ?thesis by blast
next
  case False
  then have nok: "\<not> ok" using res by blast
  have bad: "\<forall>r. res = Some r \<longrightarrow> resultCode r \<noteq> ERR_OK" using False by (auto simp: good_result_def)
  let ?d1 = "logEv (EvDispatch name res) d"
  have inv1: "disp_inv ok m sr P A X {} ?d1"
    using Dispatch_failed [OF inv nok] da bad by (simp add: dispatchable_def)
  obtain e where e: "Dispatch run name res d = Some (reportError e ?d1)" "resultCode e \<noteq> ERR_OK"
    using bad by (cases res) (auto simp: Dispatch_def OnErrorCode_def OnErrorResult_def startup_codes)
  have "dispatched (dp_log (reportError e ?d1)) = dispatched (dp_log d)"
    using bad by (simp add: reportError_def log_simps split: option.splits)
  then show ?thesis using e reportError_inv [OF inv1 nok e(2), of "{}"] nok by auto
qed

lemma SaveResult_task:
  "same_task t (SaveResult res t)" "st_extraCallbacks (SaveResult res t) = st_extraCallbacks t"
  "good_result res \<Longrightarrow> valid_task (SaveResult res t)"
  by (auto simp: SaveResult_def same_task_def valid_task_def good_result_def split: option.splits)

lemma disp_inv_more_exempt:
  "disp_inv ok m sr P A X Y d \<Longrightarrow> X \<subseteq> X' \<Longrightarrow> Y \<subseteq> Y' \<Longrightarrow> disp_inv ok m sr P A X' Y' d"
  by (auto simp: disp_inv_def inv_wait_def inv_ok_def)

lemma saved_inv:
  assumes pr: "prepared m sr" and inv: "disp_inv ok m sr P A X Y d" and k: "key \<in> set (task_names m)"
    and res: "ok \<Longrightarrow> good_result res"
  shows "disp_inv ok m sr P A X Y (setTask key (SaveResult res (taskAt key d)) d)"
    and "extras (setTask key (SaveResult res (taskAt key d)) d) = extras d"
proof -
  have ex: "st_extraCallbacks (SaveResult res (taskAt key d)) = extras d key"
    using SaveResult_task(2) extras_taskAt [OF pr disp_invD(1) [OF inv] k] by simp
  then show "disp_inv ok m sr P A X Y (setTask key (SaveResult res (taskAt key d)) d)"
    using disp_inv_setTask [OF pr inv k SaveResult_task(1)] SaveResult_task(3) res by blast
  have "omap_inv (dp_tasks d)" using disp_invD(1) [OF inv] by (simp add: inv_graph_def)
  then show "extras (setTask key (SaveResult res (taskAt key d)) d) = extras d"
    using ex by (auto simp: setTask_reads(2))
qed

lemma taskCompleted_alone:
  assumes pr: "prepared m sr" and inv: "disp_inv ok m sr P A X Y d" and k: "key \<in> set (task_names m)"
    and res: "ok \<Longrightarrow> good_result res" and ex: "extras d key = []"
  shows "\<exists>d'. taskCompleted run key res d = Some d' \<and> disp_inv ok m sr P A X Y d' \<and>
           dp_log d' = dp_log d \<and> dp_pending d' = dp_pending d \<and> extras d' = extras d"
proof -
  let ?d1 = "setTask key (SaveResult res (taskAt key d)) d"
  let ?d2 = "setTask key ((taskAt key ?d1)\<lparr>st_extraCallbacks := []\<rparr>) ?d1"
  have inv1: "disp_inv ok m sr P A X Y ?d1" and ex1: "extras ?d1 = extras d"
    using saved_inv [OF pr inv k res] by auto
  have om: "omap_inv (dp_tasks ?d1)" using disp_invD(1) [OF inv1] by (simp add: inv_graph_def)
  have empty: "st_extraCallbacks (taskAt key ?d1) = []"
    using extras_taskAt [OF pr disp_invD(1) [OF inv1] k] ex ex1 by simp
  have "ok \<Longrightarrow> valid_task (taskAt key ?d1)" using disp_invD(5) [OF inv1] k by (simp add: inv_ok_def)
  then have "disp_inv ok m sr P A X Y ?d2"
    using disp_inv_setTask [OF pr inv1 k] ex ex1 by (simp add: same_task_def valid_task_def)
  moreover have "extras ?d2 = extras d" using ex ex1 by (auto simp: setTask_reads(2) [OF om])
  ultimately show ?thesis using empty by (simp add: taskCompleted_def Let_def)
qed

lemma callbackCall_spec:
  assumes pr: "prepared m sr" and run: "runner_spec ok m sr n run" and inv: "disp_inv ok m sr P A X {key} d"
    and da: "dispatchable m {} n key d" and res: "ok \<Longrightarrow> good_result res"
  shows "\<exists>d'. callbackCall run key key res d = Some d' \<and> disp_inv ok m sr P A X {} d' \<and>
           dispatched (dp_log d) \<subseteq> dispatched (dp_log d')"
proof -
  have k: "key \<in> set (task_names m)" using started_node [OF inv] da by (auto simp: dispatchable_def)
  have ex: "extras d key = []" using da by (simp add: dispatchable_def)
  from taskCompleted_alone [OF pr inv k res ex, of run] obtain d1 where
    d1: "taskCompleted run key res d = Some d1" "disp_inv ok m sr P A X {key} d1"
      "dp_log d1 = dp_log d" "dp_pending d1 = dp_pending d" "extras d1 = extras d" by auto
  have "dispatchable m X n key d1" using da d1(3-) by (auto simp: dispatchable_def)
  from Dispatch_spec [OF pr run d1(2) this res] d1(1,3) show ?thesis by (auto simp: callbackCall_def)
qed


text \<open>A task that succeeds, now or later.\<close>

definition good_outcome :: "init_outcome \<Rightarrow> bool" where
  "good_outcome oc = (case oc of
     InitSync res ret \<Rightarrow> good_result res \<and> ret = ERR_OK | InitAsync ret \<Rightarrow> ret = ERR_OK | InitDropped ret \<Rightarrow> False)"

lemma started_inv:
  assumes inv: "disp_inv ok m sr (insert c P) A X {} d" and c: "c \<notin> P"
  shows "disp_inv ok m sr P A X {c} (logEv (EvInit c) d)"
proof (rule disp_invI)
  note D = disp_invD [OF inv]
  let ?d = "logEv (EvInit c) d"
  have rdy: "c \<in> sg.ready m (dispatched (dp_log d))" and fresh: "c \<notin> inited (dp_log d)"
    and wf: "log_wf m (dp_log d)" using D(2) by (auto simp: inv_log_def)
  have sets: "inited (dp_log ?d) = insert c (inited (dp_log d))" "dispatches (dp_log ?d) = dispatches (dp_log d)"
    "dispatched (dp_log ?d) = dispatched (dp_log d)" "finished (dp_log ?d) = finished (dp_log d)" by (simp_all add: log_simps)
  show "inv_graph m sr ?d" using D(1) inv_graph_cong [of ?d d] sets by simp
  have "log_wf m (dp_log ?d)" using wf rdy fresh by (simp add: log_wf_snoc ev_ok_def sg.ready_def)
  then show "inv_log m P A ?d" using D(2) c sets by (auto simp: inv_log_def)
  show "inv_count m ?d" using D(3) sets by (simp add: inv_count_def)
  show "inv_wait X ?d" using D(4) sets by (auto simp: inv_wait_def)
  show "inv_ok m P A {c} ?d" if ok
    using D(5) [OF that] sets by (auto simp: inv_ok_def waiting_def)
qed

lemma unstarted:
  assumes "disp_inv ok m sr (insert c P) A X Y d"
  shows "c \<in> set (task_names m)" "c \<notin> inited (dp_log d)" "c \<notin> dispatches (dp_log d)" "c \<notin> dispatched (dp_log d)"
    "extras d c = []" "(c, c) \<notin> set (dp_pending d)"
proof -
  note D = disp_invD [OF assms]
  show "c \<in> set (task_names m)" using disp_inv_pending_nodes [OF assms] by simp
  show c: "c \<notin> inited (dp_log d)" using D(2) by (auto simp: inv_log_def)
  show "c \<notin> dispatches (dp_log d)" using D(2) c log_wf_dispatches by (auto simp: inv_log_def)
  then show "c \<notin> dispatched (dp_log d)" using dispatched_dispatches by blast
  show "extras d c = []" "(c, c) \<notin> set (dp_pending d)" using D(4) c by (auto simp: inv_wait_def)
qed

lemma pended_inv:
  assumes inv: "disp_inv ok m sr P A X {c} d" and c: "c \<in> inited (dp_log d) - dispatches (dp_log d)" "extras d c = []"
    "(c, c) \<notin> set (dp_pending d)"
  shows "disp_inv ok m sr P A X {} (d\<lparr>dp_pending := dp_pending d @ [(c, c)]\<rparr>)"
proof (rule disp_invI)
  note D = disp_invD [OF inv]
  let ?d = "d\<lparr>dp_pending := dp_pending d @ [(c, c)]\<rparr>"
  have ex: "extras ?d = extras d" "\<And>k. taskAt k ?d = taskAt k d" using task_reads_cong [of ?d d] by simp_all
  show "inv_graph m sr ?d" "inv_log m P A ?d" "inv_count m ?d"
    using D(1,2,3) by (simp_all add: inv_graph_def inv_log_def inv_count_def)
  show "inv_wait X ?d" using D(4) c ex by (auto simp: inv_wait_def)
  show "inv_ok m P A {} ?d" if ok using D(5) [OF that] ex by (auto simp: inv_ok_def waiting_def)
qed

lemma extra_added_inv:
  assumes pr: "prepared m sr" and inv: "disp_inv ok m sr P A X {c} d"
    and c: "c \<in> inited (dp_log d) - dispatches (dp_log d)" "extras d c = []" "(c, c) \<notin> set (dp_pending d)"
  shows "disp_inv ok m sr P A X {} (setTask c ((taskAt c d)\<lparr>st_extraCallbacks := [c]\<rparr>) d)"
proof (rule disp_invI)
  note D = disp_invD [OF inv]
  let ?t = "(taskAt c d)\<lparr>st_extraCallbacks := [c]\<rparr>"
  have cK: "c \<in> set (task_names m)" using started_node [OF inv] c by blast
  have om: "omap_inv (dp_tasks d)" using D(1) by (simp add: inv_graph_def)
  have ex: "extras (setTask c ?t d) k = (if k = c then [c] else extras d k)" for k by (simp add: setTask_reads(2) [OF om])
  show "inv_graph m sr (setTask c ?t d)" by (rule inv_graph_setTask [OF pr D(1) cK]) (simp add: same_task_def)
  show "inv_log m P A (setTask c ?t d)" "inv_count m (setTask c ?t d)"
    using D(2,3) by (simp_all add: inv_log_def inv_count_def)
  show "inv_wait X (setTask c ?t d)" using D(4) c by (auto simp: inv_wait_def ex)
  show "inv_ok m P A {} (setTask c ?t d)" if ok
    using D(5) [OF that] by (auto simp: inv_ok_def waiting_def ex setTask_reads(1) [OF om] valid_task_def)
qed

text \<open>The two ways to start a task; \<open>d\<close> is the state after the start was logged.\<close>

lemma runCreated_spec:
  assumes pr: "prepared m sr" and run: "runner_spec ok m sr n run" and inv: "disp_inv ok m sr P A X {c} d"
    and da: "dispatchable m {} n c d" and st: "st_state (taskAt c d) = CREATED" and good: "ok \<Longrightarrow> good_outcome oc"
  shows "\<exists>ret d'. runCreated run oc c c d = Some (ret, d') \<and> disp_inv ok m sr P A X {} d' \<and>
           dispatched (dp_log d) \<subseteq> dispatched (dp_log d') \<and> (ok \<longrightarrow> ret = ERR_OK)"
proof -
  let ?d = "setTask c ((taskAt c d)\<lparr>st_state := INITIALIZING\<rparr>) d"
  note g = disp_invD(1) [OF inv]
  have c: "c \<in> inited (dp_log d) - dispatches (dp_log d)" "extras d c = []" "(c, c) \<notin> set (dp_pending d)"
    using da by (auto simp: dispatchable_def)
  have cK: "c \<in> set (task_names m)" using started_node [OF inv] c by blast
  have inv2: "disp_inv ok m sr P A X {c} ?d"
    using disp_inv_setTask [OF pr inv cK] extras_taskAt [OF pr g cK] by (simp add: same_task_def valid_task_def)
  have om: "omap_inv (dp_tasks d)" using g by (simp add: inv_graph_def)
  have ex2: "extras ?d c = []" using extras_taskAt [OF pr g cK] c(2) by (simp add: setTask_reads(2) [OF om])
  show ?thesis
  proof (cases oc)
    case (InitSync res ret)
    have "ok \<Longrightarrow> good_result res" using good InitSync by (simp add: good_outcome_def)
    moreover have "dispatchable m {} n c ?d" using da ex2 by (simp add: dispatchable_def)
    ultimately show ?thesis using callbackCall_spec [OF pr run inv2, of res] st InitSync good
      by (auto simp: runCreated_def RunTaskPreInit_def good_outcome_def)
  next
    case (InitAsync ret)
    with pended_inv [OF inv2] c ex2 st good show ?thesis
      by (auto simp: runCreated_def RunTaskPreInit_def good_outcome_def)
  next
    case (InitDropped ret)
    with good have "\<not> ok" by (auto simp: good_outcome_def)
    with InitDropped st disp_inv_weaken [OF inv2, of P A "{}"] show ?thesis
      by (simp add: runCreated_def RunTaskPreInit_def)
  qed
qed

lemma runStarted_spec:
  assumes pr: "prepared m sr" and run: "runner_spec ok m sr n (RunTaskInit beh n)"
    and beh: "ok \<Longrightarrow> \<forall>k\<in>set (task_names m). good_outcome (beh k)"
    and inv: "disp_inv ok m sr P A X {c} (logEv (EvInit c) d)" and da: "dispatchable m {} n c (logEv (EvInit c) d)"
    and cK: "c \<in> set (task_names m)"
  shows "\<exists>ret d'. RunTaskInit beh (Suc n) c c d = Some (ret, d') \<and> disp_inv ok m sr P A X {} d' \<and>
           dispatched (dp_log d) \<subseteq> dispatched (dp_log d') \<and> (ok \<longrightarrow> ret = ERR_OK)"
proof -
  let ?d = "logEv (EvInit c) d" and ?t = "taskAt c d"
  have log: "dispatched (dp_log ?d) = dispatched (dp_log d)" by (simp add: log_simps)
  have valid: "ok \<Longrightarrow> valid_task ?t" using disp_invD(5) [OF inv] cK by (simp add: inv_ok_def)
  show ?thesis
  proof (cases "st_state ?t")
    case INVALID
    then have "\<not> ok" using valid by (auto simp: valid_task_def)
    with INVALID disp_inv_weaken [OF inv, of P A "{}"] log show ?thesis by (simp add: Let_def)
  next
    case INITIALIZED
    have "ok \<Longrightarrow> good_result (st_result ?t)" using valid INITIALIZED by (simp add: valid_task_def good_result_def)
    moreover have "dispatchable m X n c ?d" using da by (auto simp: dispatchable_def)
    ultimately show ?thesis using Dispatch_spec [OF pr run inv, of "st_result ?t"] INITIALIZED log by (auto simp: Let_def)
  next
    case INITIALIZING
    have c: "c \<in> inited (dp_log ?d) - dispatches (dp_log ?d)" "extras ?d c = []" "(c, c) \<notin> set (dp_pending ?d)"
      using da by (auto simp: dispatchable_def)
    have "st_extraCallbacks ?t = []" using extras_taskAt [OF pr disp_invD(1) [OF inv] cK] c(2) by simp
    then show ?thesis using extra_added_inv [OF pr inv c] INITIALIZING log by (simp add: Let_def AddExtraCallback_def)
  next
    case CREATED
    with runCreated_spec [OF pr run inv da] beh cK log show ?thesis by (simp add: Let_def)
  qed
qed

lemma RunTaskInit_spec:
  assumes pr: "prepared m sr" and beh: "ok \<Longrightarrow> \<forall>k\<in>set (task_names m). good_outcome (beh k)"
  shows "runner_spec ok m sr n (RunTaskInit beh n)"
proof (induction n)
  case 0
  have "card (set (task_names m) - dispatched (dp_log d)) \<noteq> 0" if "disp_inv ok m sr (insert c P) A X {} d" for d P A X c
    using unstarted(1,4) [OF that] by (auto simp: card_eq_0_iff)
  then show ?case by (auto simp: runner_spec_def)
next
  case (Suc n)
  show ?case unfolding runner_spec_def
  proof (intro allI impI)
    fix d P A X c
    assume inv: "disp_inv ok m sr (insert c P) A X {} d" and c: "c \<notin> P"
      and card: "card (set (task_names m) - dispatched (dp_log d)) \<le> Suc n"
    note u = unstarted [OF inv]
    have "card (set (task_names m) - dispatched (dp_log d) - {c}) = card (set (task_names m) - dispatched (dp_log d)) - 1"
      using u(1,4) by (intro card_Diff_singleton) auto
    moreover have "set (task_names m) - insert c (dispatched (dp_log d)) = set (task_names m) - dispatched (dp_log d) - {c}"
      by auto
    ultimately have "dispatchable m {} n c (logEv (EvInit c) d)"
      using card u by (simp add: dispatchable_def log_simps)
    from runStarted_spec [OF pr Suc beh started_inv [OF inv c] this u(1)]
    show "\<exists>ret d'. RunTaskInit beh (Suc n) c c d = Some (ret, d') \<and> disp_inv ok m sr P A X {} d' \<and>
           dispatched (dp_log d) \<subseteq> dispatched (dp_log d') \<and> (ok \<longrightarrow> ret = ERR_OK)" by blast
  qed
qed

section \<open>Events of the environment\<close>

fun good_event :: "env_event \<Rightarrow> bool" where
  "good_event (TaskDone name key res) \<longleftrightarrow> good_result res"
| "good_event (OtherDone key res) \<longleftrightarrow> good_result res"
| "good_event StopByTimeout \<longleftrightarrow> False"
| "good_event _ \<longleftrightarrow> True"

lemma taskIn_node:
  assumes "prepared m sr" and "inv_graph m sr d" and "taskIn k d"
  shows "k \<in> set (task_names m)"
proof -
  have "taskShape (dp_tasks d) k \<noteq> None" using assms(3) by (auto simp: taskIn_def taskShape_def split: option.splits)
  then have "taskShape m k \<noteq> None" using assms(2) by (simp add: inv_graph_def)
  then show ?thesis using prepared_find(1) [OF assms(1)] by (auto simp: taskShape_def split: option.splits)
qed

lemma unpended_inv:
  assumes inv: "disp_inv ok m sr {} {} {} {} d" and e: "(c, c) \<in> set (dp_pending d)"
  shows "disp_inv ok m sr {} {} {} {c} (d\<lparr>dp_pending := remove1 (c, c) (dp_pending d)\<rparr>)"
    and "dispatchable m {} (length m) c (d\<lparr>dp_pending := remove1 (c, c) (dp_pending d)\<rparr>)"
proof -
  note D = disp_invD [OF inv]
  let ?d = "d\<lparr>dp_pending := remove1 (c, c) (dp_pending d)\<rparr>"
  have ex: "extras ?d = extras d" "\<And>k. taskAt k ?d = taskAt k d" using task_reads_cong [of ?d d] by simp_all
  have dist: "distinct (dp_pending d)" using D(4) by (simp add: inv_wait_def)
  have "\<And>e. e \<in> set (dp_pending d) \<Longrightarrow> fst e = snd e" using D(4) by (simp add: inv_wait_def)
  then have "fst ` set (dp_pending d) \<subseteq> insert c (fst ` set (dp_pending ?d))" using dist by force
  then have w: "waiting d \<subseteq> insert c (waiting ?d)" using ex(1) by (auto simp: waiting_def)
  show "disp_inv ok m sr {} {} {} {c} ?d"
  proof (rule disp_invI)
    show "inv_graph m sr ?d" "inv_log m {} {} ?d" "inv_count m ?d"
      using D(1,2,3) by (simp_all add: inv_graph_def inv_log_def inv_count_def)
    show "inv_wait {} ?d" using D(4) ex dist by (auto simp: inv_wait_def)
    show "inv_ok m {} {} {c} ?d" if ok using D(5) [OF that] ex(2) w by (simp add: inv_ok_def) blast
  qed
  have "card (set (task_names m) - insert c (dispatched (dp_log d))) \<le> card (set (task_names m))" by (rule card_mono) auto
  also have "\<dots> \<le> length m" using card_length [of "task_names m"] by (simp add: task_names_def tasks_of_def)
  finally show "dispatchable m {} (length m) c ?d"
    using D(4) e dist ex by (auto simp: dispatchable_def inv_wait_def)
qed

lemma extras_cleared_inv:
  assumes pr: "prepared m sr" and inv: "disp_inv ok m sr {} {} {c} {} d" and c: "c \<in> set (task_names m)"
    and D: "ok \<Longrightarrow> c \<in> dispatched (dp_log d)"
  shows "disp_inv ok m sr {} {} {} {} (setTask c ((taskAt c d)\<lparr>st_extraCallbacks := []\<rparr>) d)"
proof (rule disp_invI)
  note I = disp_invD [OF inv]
  let ?t = "(taskAt c d)\<lparr>st_extraCallbacks := []\<rparr>"
  have om: "omap_inv (dp_tasks d)" using I(1) by (simp add: inv_graph_def)
  have ex: "extras (setTask c ?t d) k = (if k = c then [] else extras d k)" for k by (simp add: setTask_reads(2) [OF om])
  show "inv_graph m sr (setTask c ?t d)" by (rule inv_graph_setTask [OF pr I(1) c]) (simp add: same_task_def)
  show "inv_log m {} {} (setTask c ?t d)" "inv_count m (setTask c ?t d)"
    using I(2,3) by (simp_all add: inv_log_def inv_count_def)
  show "inv_wait {} (setTask c ?t d)" using I(4) by (auto simp: inv_wait_def ex)
  show "inv_ok m {} {} {} (setTask c ?t d)" if ok
    using I(5) [OF that] D [OF that] dispatched_dispatches [of "dp_log d"]
    by (auto simp: inv_ok_def waiting_def ex setTask_reads(1) [OF om] valid_task_def)
qed

lemma OtherDone_spec:
  assumes pr: "prepared m sr" and run: "runner_spec ok m sr (length m) run" and inv: "disp_inv ok m sr {} {} {} {} d"
    and k: "k \<in> set (task_names m)" and res: "ok \<Longrightarrow> good_result res"
  shows "\<exists>d'. taskCompleted run k res d = Some d' \<and> disp_inv ok m sr {} {} {} {} d'"
proof (cases "extras d k = []")
  case True
  with taskCompleted_alone [OF pr inv k res] show ?thesis by blast
next
  case False
  note I = disp_invD [OF inv]
  have ex: "extras d k = [k]" and st: "k \<in> inited (dp_log d) - dispatches (dp_log d)" "(k, k) \<notin> set (dp_pending d)"
    using False I(4) by (auto simp: inv_wait_def)
  let ?d1 = "setTask k (SaveResult res (taskAt k d)) d"
  have inv1: "disp_inv ok m sr {} {} {k} {k} ?d1" and ex1: "extras ?d1 = extras d"
    using disp_inv_more_exempt [OF saved_inv(1) [OF pr inv k res], of "{k}" "{k}"] saved_inv(2) [OF pr inv k res] by auto
  have "card (set (task_names m) - insert k (dispatched (dp_log d))) \<le> card (set (task_names m))" by (rule card_mono) auto
  also have "\<dots> \<le> length m" using card_length [of "task_names m"] by (simp add: task_names_def tasks_of_def)
  finally have "dispatchable m {k} (length m) k ?d1" using st by (auto simp: dispatchable_def)
  from Dispatch_spec [OF pr run inv1 this res] obtain d2 where
    d2: "Dispatch run k res ?d1 = Some d2" "disp_inv ok m sr {} {} {k} {} d2" "ok \<longrightarrow> k \<in> dispatched (dp_log d2)" by auto
  have "st_extraCallbacks (taskAt k ?d1) = [k]" using extras_taskAt [OF pr disp_invD(1) [OF inv1] k] ex ex1 by simp
  then have "taskCompleted run k res d = Some (setTask k ((taskAt k d2)\<lparr>st_extraCallbacks := []\<rparr>) d2)"
    using d2(1) by (simp add: taskCompleted_def Let_def)
  with extras_cleared_inv [OF pr d2(2) k] d2(3) show ?thesis by blast
qed

lemma handle_spec:
  assumes pr: "prepared m sr" and run: "runner_spec ok m sr (length m) run" and inv: "disp_inv ok m sr {} {} {} {} d"
    and en: "enabled ev d" and good: "ok \<Longrightarrow> good_event ev"
  shows "\<exists>d'. handle run ev d = Some d' \<and> disp_inv ok m sr {} {} {} {} d'"
proof (cases ev)
  case (TaskDone name key res)
  then have "name = key" using en disp_invD(4) [OF inv] by (auto simp: inv_wait_def)
  with TaskDone en callbackCall_spec [OF pr run unpended_inv(1) [OF inv] unpended_inv(2) [OF inv], of key res] good
  show ?thesis by auto
next
  case (OtherStart key)
  then have k: "key \<in> set (task_names m)" using en taskIn_node [OF pr disp_invD(1) [OF inv]] by simp
  have "st_state (taskAt key d) = CREATED" using OtherStart en by simp
  then show ?thesis using disp_inv_setTask [OF pr inv k, of "snd (RunTaskPreInit (taskAt key d))"] OtherStart
      extras_taskAt [OF pr disp_invD(1) [OF inv] k]
    by (simp add: RunTaskPreInit_def same_task_def valid_task_def)
next
  case (OtherDone key res)
  then have k: "key \<in> set (task_names m)" using en taskIn_node [OF pr disp_invD(1) [OF inv]] by simp
  show ?thesis using OtherDone_spec [OF pr run inv k, of res] OtherDone good by simp
next
  case (OtherRemove key)
  then have k: "key \<in> set (task_names m)" using en taskIn_node [OF pr disp_invD(1) [OF inv]] by simp
  have "ok \<Longrightarrow> valid_task (taskAt key d)" using disp_invD(5) [OF inv] k by (simp add: inv_ok_def)
  then show ?thesis using disp_inv_setTask [OF pr inv k, of "snd (RemoveResult (taskAt key d))"] OtherRemove
      extras_taskAt [OF pr disp_invD(1) [OF inv] k]
    by (simp add: RemoveResult_def same_task_def valid_task_def)
next
  case StopByTimeout
  then have nok: "\<not> ok" using good by auto
  have "extras (TimeoutStop d) = extras d" using task_reads_cong [of "TimeoutStop d" d] by (simp add: TimeoutStop_def)
  then show ?thesis using StopByTimeout nok inv
    by (simp add: disp_inv_def inv_graph_def inv_log_def inv_count_def inv_wait_def TimeoutStop_def)
next
  case MainPost
  then have post: "dp_mainPosts d \<noteq> []" using en by simp
  then have nok: "\<not> ok" using disp_invD(5) [OF inv] by (auto simp: inv_ok_def)
  let ?r = "hd (dp_mainPosts d)"
  let ?d = "callAwait ?r (d\<lparr>dp_mainPosts := tl (dp_mainPosts d)\<rparr>)"
  have r: "resultCode ?r \<noteq> ERR_OK" using post disp_invD(3) [OF inv] by (simp add: inv_count_def)
  have "reports b cb \<Longrightarrow> reports b (map_option (OnCompleted_Call ?r) cb)" for b cb using reports_call r by blast
  moreover have "extras ?d = extras d" using task_reads_cong [of ?d d] by simp
  moreover have "set (tl (dp_mainPosts d)) \<subseteq> set (dp_mainPosts d)" using post by (simp add: list.set_sel(2) subsetI)
  ultimately show ?thesis using MainPost nok inv
    by (auto simp: disp_inv_def inv_graph_def inv_log_def inv_count_def inv_wait_def)
qed


section \<open>Run\<close>

lemma runInit_ok:
  assumes "\<forall>e\<in>set xs. snd e \<noteq> None" and "omap_inv (dp_inDegreeMap d)"
  shows "\<exists>deg'. runInit xs d = (ERR_OK, d\<lparr>dp_inDegreeMap := deg', dp_mainThreadAwaitCount := dp_mainThreadAwaitCount d +
             of_nat (length (filter (\<lambda>e. st_waitOnMainThread (the (snd e))) xs))\<rparr>) \<and> omap_inv deg' \<and>
           (\<forall>k. omap_find deg' k = (case omap_find (dp_inDegreeMap d) k of
              None \<Rightarrow> map_option (\<lambda>v. GetDependenciesCount (the v)) (omap_find xs k) | Some v \<Rightarrow> Some v))"
  using assms
proof (induction xs arbitrary: d)
  case (Cons e xs)
  then obtain t where t: "snd e = Some t" by auto
  let ?deg = "if omap_find (dp_inDegreeMap d) (fst e) = None
    then omap_put (fst e) (GetDependenciesCount t) (dp_inDegreeMap d) else dp_inDegreeMap d"
  let ?d = "d\<lparr>dp_inDegreeMap := ?deg, dp_mainThreadAwaitCount := dp_mainThreadAwaitCount d + (if st_waitOnMainThread t then 1 else 0)\<rparr>"
  have om: "omap_inv (dp_inDegreeMap ?d)" using Cons.prems by (simp add: omap_inv_put)
  obtain deg' where r: "runInit xs ?d = (ERR_OK, ?d\<lparr>dp_inDegreeMap := deg', dp_mainThreadAwaitCount := dp_mainThreadAwaitCount ?d +
        of_nat (length (filter (\<lambda>e. st_waitOnMainThread (the (snd e))) xs))\<rparr>)" and inv: "omap_inv deg'"
      and f: "\<forall>k. omap_find deg' k = (case omap_find ?deg k of
              None \<Rightarrow> map_option (\<lambda>v. GetDependenciesCount (the v)) (omap_find xs k) | Some v \<Rightarrow> Some v)"
    using Cons.IH [OF _ om] Cons.prems(1) by auto
  have "runInit (e # xs) d = (ERR_OK, d\<lparr>dp_inDegreeMap := deg', dp_mainThreadAwaitCount := dp_mainThreadAwaitCount d +
             of_nat (length (filter (\<lambda>e. st_waitOnMainThread (the (snd e))) (e # xs)))\<rparr>)"
    using r t by (simp add: algebra_simps)
  moreover have "omap_find deg' k = (case omap_find (dp_inDegreeMap d) k of
      None \<Rightarrow> map_option (\<lambda>v. GetDependenciesCount (the v)) (omap_find (e # xs) k) | Some v \<Rightarrow> Some v)" for k
    using f t Cons.prems(2) by (cases e) (auto simp: find_omap_put split: option.splits)
  ultimately show ?case using inv by blast
next
  case (Nil d)
  then show ?case by (intro exI [of _ "dp_inDegreeMap d"]) (auto split: option.splits)
qed

lemma waits_count:
  assumes "prepared m sr"
  shows "card (waits m) = length (filter (\<lambda>e. st_waitOnMainThread (the (snd e))) m)"
proof -
  have wn: "well_named m" using assms by (simp add: prepared_def)
  then have dist: "distinct (map fst m)" by (simp add: well_named_def omap_inv_distinct)
  have "c \<in> waits m \<longleftrightarrow> c \<in> fst ` set (filter (\<lambda>e. st_waitOnMainThread (the (snd e))) m)" for c
  proof
    assume "c \<in> waits m"
    then obtain t where "omap_find m c = Some (Some t)" "st_waitOnMainThread t"
      by (auto simp: waits_def taskShape_def split: option.splits)
    then show "c \<in> fst ` set (filter (\<lambda>e. st_waitOnMainThread (the (snd e))) m)" by (force dest: map_of_SomeD)
  next
    assume "c \<in> fst ` set (filter (\<lambda>e. st_waitOnMainThread (the (snd e))) m)"
    then obtain v where v: "(c, v) \<in> set m" "st_waitOnMainThread (the v)" by auto
    then obtain t where "v = Some t" using well_named_nonnull [OF wn] by fastforce
    with v dist show "c \<in> waits m" by (auto simp: waits_def taskShape_def)
  qed
  then have "waits m = set (map fst (filter (\<lambda>e. st_waitOnMainThread (the (snd e))) m))" by auto
  then show ?thesis using distinct_card [OF distinct_map_filter [OF dist]] by simp
qed

lemma card_task_names: "prepared m sr \<Longrightarrow> card (set (task_names m)) = length m"
  using distinct_card [OF well_named_distinct, of m] prepared_names [of m sr] by (simp add: prepared_def)

text \<open>The state in which \<open>Run\<close> starts the first tasks.\<close>

definition fresh_tasks :: "task_map \<Rightarrow> bool" where
  "fresh_tasks m \<longleftrightarrow> (\<forall>t\<in>set (tasks_of m). st_extraCallbacks t = [])"

definition fresh_callback :: "on_completed option \<Rightarrow> bool" where
  "fresh_callback cbo = (case cbo of None \<Rightarrow> True | Some cb \<Rightarrow> cb = newOnCompleted)"

lemma Run_start_inv:
  assumes pr: "prepared m sr" and fr: "fresh_tasks m" and cb: "fresh_callback cb" "fresh_callback acb"
    and valid: "ok \<Longrightarrow> \<forall>t\<in>set (tasks_of m). valid_task t"
    and deg: "omap_inv deg" "\<forall>k. omap_find deg k = map_option (\<lambda>v. GetDependenciesCount (the v)) (omap_find m k)"
    and d: "dp_tasks d = m" "dp_sortResult d = Some sr" "dp_inDegreeMap d = deg" "dp_log d = []" "dp_pending d = []"
      "dp_mainPosts d = []" "\<not> dp_isTimeoutStopped d" "dp_tasksCount d = of_nat (length m)"
      "dp_mainThreadAwaitCount d = of_nat (card (waits m))" "dp_completedCallback d = cb"
      "dp_mainThreadAwaitCallback d = (if waits m = {}
         then map_option (OnCompleted_Call \<lparr>resultCode = ERR_OK, resultMessage = ''''\<rparr>) acb else acb)"
  shows "disp_inv ok m sr (set (sr_zeroDequeResult sr)) {} {} {} d"
proof (rule disp_invI)
  have task: "omap_find m k = Some (Some t) \<Longrightarrow> t \<in> set (tasks_of m)" for k t
    by (force simp: tasks_of_def dest: map_of_SomeD)
  have ex: "extras d k = []" for k
    using fr task by (auto simp: extras_def d fresh_tasks_def split: option.splits)
  have K: "set (task_names m) \<noteq> {}" using pr card_task_names [OF pr] by (auto simp: prepared_def)
  have dist: "distinct (map st_name (tasks_of m))"
    using pr by (simp add: prepared_def well_named_distinct task_names_def [symmetric])
  have "set (sr_zeroDequeResult sr) = {c \<in> set (task_names m). deps_of m c = []}"
    using pr deps_of_task [OF dist] by (fastforce simp: prepared_def sort_result_ok_def task_names_def)
  then have zero: "set (sr_zeroDequeResult sr) = sg.ready m {}" by (simp add: sg.ready_def)
  have degs: "omap_find deg c = Some (of_nat (length (deps_of m c)))" if "c \<in> set (task_names m)" for c
    using that prepared_find [OF pr, of c] deg(2) by (auto simp: GetDependenciesCount_def)
  have om: "omap_inv m" using pr by (simp add: prepared_def well_named_def)
  show "inv_graph m sr d" using om deg(1) degs by (simp add: inv_graph_def d sg.open_deps_def)
  show "inv_log m (set (sr_zeroDequeResult sr)) {} d" using zero by (simp add: inv_log_def d)
  have "reports False cb" "reports False acb" using cb
    by (auto simp: reports_def fresh_callback_def newOnCompleted_def called_once_def split: option.splits)
  then show "inv_count m d"
    using K card_task_names [OF pr] reports_call [of False acb True] by (simp add: inv_count_def d)
  show "inv_wait {} d" by (simp add: inv_wait_def d ex)
  show "inv_ok m (set (sr_zeroDequeResult sr)) {} {} d" if ok
  proof -
    have "valid_task (taskAt k d)" if "k \<in> set (task_names m)" for k
      using prepared_find(1) [OF pr, of k] that valid [OF \<open>ok\<close>] task by (auto simp: taskAt_def d)
    moreover have "dp_completedCallback d = Some c \<Longrightarrow> oc_calls c = []" for c
      using cb(1) by (simp add: d fresh_callback_def newOnCompleted_def)
    ultimately show ?thesis using zero by (auto simp: inv_ok_def waiting_def d ex)
  qed
qed

lemma Run_spec:
  assumes pr: "prepared m sr" and fr: "fresh_tasks m" and cb: "fresh_callback cb" "fresh_callback acb"
    and valid: "ok \<Longrightarrow> \<forall>t\<in>set (tasks_of m). valid_task t" and run: "runner_spec ok m sr (length m) run"
  shows "\<exists>ret d. Run run cb acb (newDispatcher m (Some sr)) = Some (ret, d) \<and> disp_inv ok m sr {} {} {} {} d \<and>
           (ok \<longrightarrow> ret = ERR_OK)"
proof -
  let ?d0 = "newDispatcher m (Some sr)"
  have nn: "\<forall>e\<in>set m. snd e \<noteq> None" using pr well_named_nonnull [of m] by (simp add: prepared_def)
  obtain deg where init: "runInit m ?d0 = (ERR_OK, ?d0\<lparr>dp_inDegreeMap := deg, dp_mainThreadAwaitCount := of_nat (card (waits m))\<rparr>)"
      and deg: "omap_inv deg" "\<forall>k. omap_find deg k = map_option (\<lambda>v. GetDependenciesCount (the v)) (omap_find m k)"
    using runInit_ok [OF nn, of ?d0] waits_count [OF pr] by (auto simp: newDispatcher_def)
  let ?d1 = "?d0\<lparr>dp_inDegreeMap := deg, dp_mainThreadAwaitCount := of_nat (card (waits m)),
    dp_tasksCount := of_nat (length m), dp_completedCallback := cb, dp_mainThreadAwaitCallback := acb\<rparr>"
  let ?d2 = "if dp_mainThreadAwaitCount ?d1 = 0 then callAwait \<lparr>resultCode = ERR_OK, resultMessage = ''''\<rparr> ?d1 else ?d1"
  have "finite (waits m)" using waits_nodes [OF pr] by (rule finite_subset) simp
  moreover have "card (waits m) < 2 ^ 32"
    using card_mono [OF _ waits_nodes [OF pr]] prepared_card [OF pr] by simp
  ultimately have w0: "(of_nat (card (waits m)) :: 32 word) = 0 \<longleftrightarrow> waits m = {}" by (simp add: word32_of_nat_0)
  have inv: "disp_inv ok m sr (set (sr_zeroDequeResult sr)) {} {} {} ?d2"
    using w0 by (intro Run_start_inv [OF pr fr cb valid deg]) (simp_all add: newDispatcher_def)
  have "distinct (sr_zeroDequeResult sr)"
    using pr distinct_map_filter [of st_name "tasks_of m"]
    by (simp add: prepared_def sort_result_ok_def well_named_distinct task_names_def [symmetric])
  moreover have "card (set (task_names m) - dispatched (dp_log ?d2)) \<le> length m"
    using card_task_names [OF pr] by (simp add: newDispatcher_def)
  ultimately obtain ret d where "runZeroDeque run (sr_zeroDequeResult sr) ?d2 = Some (ret, d)"
      "disp_inv ok m sr {} {} {} {} d" "ok \<longrightarrow> ret = ERR_OK"
    using runZero_spec [OF pr run, of "{}" "sr_zeroDequeResult sr" "{}" "{}" ?d2] inv by auto
  moreover have "Run run cb acb ?d0 = runZeroDeque run (sr_zeroDequeResult sr) ?d2"
    using init by (simp add: Run_def Let_def newDispatcher_def)
  ultimately show ?thesis by auto
qed


section \<open>The dispatcher as a machine\<close>

text \<open>A dispatcher made and run on tasks that \<open>Sort\<close> accepted.  With \<open>ok\<close> the tasks succeed and nothing
  times out; without it they may do anything.\<close>

definition disp_start ::
  "bool \<Rightarrow> (string \<Rightarrow> init_outcome) \<Rightarrow> on_completed option \<Rightarrow> on_completed option \<Rightarrow> task_map \<Rightarrow> dispatcher \<Rightarrow> bool" where
  "disp_start ok beh cb acb m d \<longleftrightarrow>
     well_named m \<and> small_deps m \<and> length m < 2 ^ 32 \<and> m \<noteq> [] \<and> fresh_tasks m \<and>
     fresh_callback cb \<and> fresh_callback acb \<and>
     (ok \<longrightarrow> (\<forall>t\<in>set (tasks_of m). valid_task t) \<and> (\<forall>k\<in>set (map fst m). good_outcome (beh k))) \<and>
     (\<exists>sr ret. Sort m = Some (Inr (ERR_OK, sr)) \<and>
        Run (RunTaskInit beh (length m)) cb acb (newDispatcher m (Some sr)) = Some (ret, d))"

definition disp_step :: "bool \<Rightarrow> (string \<Rightarrow> init_outcome) \<Rightarrow> task_map \<Rightarrow> dispatcher \<Rightarrow> dispatcher \<Rightarrow> bool" where
  "disp_step ok beh m d d' \<longleftrightarrow>
     (\<exists>ev. enabled ev d \<and> (ok \<longrightarrow> good_event ev) \<and> handle (RunTaskInit beh (length m)) ev d = Some d')"

definition disp_ready :: "bool \<Rightarrow> (string \<Rightarrow> init_outcome) \<Rightarrow> task_map \<Rightarrow> dispatcher \<Rightarrow> bool" where
  "disp_ready ok beh m d \<longleftrightarrow>
     (\<exists>sr. prepared m sr \<and> runner_spec ok m sr (length m) (RunTaskInit beh (length m)) \<and> disp_inv ok m sr {} {} {} {} d)"

lemma sorted_prepared:
  assumes "well_named m" "small_deps m" "length m < 2 ^ 32" "m \<noteq> []" "Sort m = Some (Inr (ERR_OK, sr))"
  shows "prepared m sr"
  using Sort_spec [OF assms(1,2,3)] assms by (auto simp: prepared_def startup_codes split: if_splits)

lemma disp_start_ready:
  assumes "disp_start ok beh cb acb m d"
  shows "disp_ready ok beh m d"
proof -
  obtain sr ret where sort: "Sort m = Some (Inr (ERR_OK, sr))"
    and R: "Run (RunTaskInit beh (length m)) cb acb (newDispatcher m (Some sr)) = Some (ret, d)"
    using assms by (auto simp: disp_start_def)
  have pr: "prepared m sr" using sorted_prepared sort assms by (simp add: disp_start_def)
  have run: "runner_spec ok m sr (length m) (RunTaskInit beh (length m))"
    using RunTaskInit_spec [OF pr] assms prepared_names [OF pr] by (simp add: disp_start_def)
  from Run_spec [OF pr _ _ _ _ run, of cb acb] R assms have "disp_inv ok m sr {} {} {} {} d"
    by (auto simp: disp_start_def)
  with pr run show ?thesis by (auto simp: disp_ready_def)
qed

interpretation dm: machine "disp_start ok beh cb acb m" "disp_step ok beh m" "disp_ready ok beh m" for ok beh cb acb m
proof
  show "disp_start ok beh cb acb m d \<Longrightarrow> disp_ready ok beh m d" for d by (rule disp_start_ready)
next
  fix d d'
  assume "disp_ready ok beh m d" and "disp_step ok beh m d d'"
  then obtain sr ev where pr: "prepared m sr" and run: "runner_spec ok m sr (length m) (RunTaskInit beh (length m))"
      and inv: "disp_inv ok m sr {} {} {} {} d" and ev: "enabled ev d" "ok \<longrightarrow> good_event ev"
      and h: "handle (RunTaskInit beh (length m)) ev d = Some d'"
    by (auto simp: disp_ready_def disp_step_def)
  from handle_spec [OF pr run inv ev(1)] ev(2) h have "disp_inv ok m sr {} {} {} {} d'" by auto
  with pr run show "disp_ready ok beh m d'" by (auto simp: disp_ready_def)
qed

definition told_once :: "on_completed option \<Rightarrow> bool \<Rightarrow> bool" where
  "told_once cbo complete = (case cbo of None \<Rightarrow> True | Some cb \<Rightarrow>
     length (oc_calls cb) \<le> 1 \<and> (\<forall>r\<in>set (oc_calls cb). resultCode r = ERR_OK \<longrightarrow> complete))"

lemma reports_told: "reports b cbo \<Longrightarrow> told_once cbo b"
  by (auto simp: reports_def told_once_def called_once_def split: option.splits)

text \<open>C7: Whatever the tasks, the other dispatchers and the timer do: every entry of the log is justified,
  so that no task starts before its dependencies have succeeded and none starts twice; each
  callback is called at most once, and with success only when all tasks (all awaited tasks) have
  completed.\<close>

theorem dispatcher_safe:
  assumes "reach (disp_start False beh cb acb m) (disp_step False beh m) d"
  shows "log_wf m (dp_log d) \<and>
         told_once (dp_completedCallback d) (set (map fst m) \<subseteq> finished (dp_log d)) \<and>
         told_once (dp_mainThreadAwaitCallback d) (waits m \<subseteq> finished (dp_log d))"
proof -
  from dm.reach_inv [OF assms] obtain sr where pr: "prepared m sr" and inv: "disp_inv False m sr {} {} {} {} d"
    by (auto simp: disp_ready_def)
  then show ?thesis using disp_invD(2,3) [OF inv] prepared_names [OF pr]
    by (auto simp: inv_log_def inv_count_def intro: reports_told)
qed

text \<open>C9: No call of the dispatcher nests deeper than the number of tasks: \<open>Run\<close> returns, and so does the
  handling of every event in every reachable state.\<close>

theorem dispatcher_total:
  assumes wn: "well_named m" "small_deps m" "length m < 2 ^ 32" "m \<noteq> []" "fresh_tasks m"
    and cb: "fresh_callback cb" "fresh_callback acb" and sort: "Sort m = Some (Inr (ERR_OK, sr))"
  shows "Run (RunTaskInit beh (length m)) cb acb (newDispatcher m (Some sr)) \<noteq> None \<and>
         (\<forall>d ev. reach (disp_start False beh cb acb m) (disp_step False beh m) d \<longrightarrow> enabled ev d \<longrightarrow>
            handle (RunTaskInit beh (length m)) ev d \<noteq> None)"
proof (intro conjI allI impI)
  have pr: "prepared m sr" by (rule sorted_prepared [OF wn(1-4) sort])
  have run: "runner_spec False m sr (length m) (RunTaskInit beh (length m))" by (rule RunTaskInit_spec [OF pr]) simp
  from Run_spec [OF pr wn(5) cb _ run]
  show "Run (RunTaskInit beh (length m)) cb acb (newDispatcher m (Some sr)) \<noteq> None" by auto
  fix d ev assume r: "reach (disp_start False beh cb acb m) (disp_step False beh m) d" and en: "enabled ev d"
  from dm.reach_inv [OF r] obtain sr' where "prepared m sr'" "disp_inv False m sr' {} {} {} {} d"
      "runner_spec False m sr' (length m) (RunTaskInit beh (length m))" by (auto simp: disp_ready_def)
  with handle_spec [OF _ _ _ en, of m sr' False] show "handle (RunTaskInit beh (length m)) ev d \<noteq> None" by fastforce
qed

text \<open>C8: While the tasks succeed and nothing times out, no ready task is lost: when no callback is
  outstanding, all tasks have completed and the completion callback was called once, with success.\<close>

theorem dispatcher_live:
  assumes "reach (disp_start True beh cb acb m) (disp_step True beh m) d" and "waiting d = {}"
  shows "finished (dp_log d) = set (map fst m) \<and>
         (\<forall>c. dp_completedCallback d = Some c \<longrightarrow> (\<exists>r. oc_calls c = [r] \<and> resultCode r = ERR_OK))"
proof -
  from dm.reach_inv [OF assms(1)] obtain sr where pr: "prepared m sr" and inv: "disp_inv True m sr {} {} {} {} d"
    by (auto simp: disp_ready_def)
  let ?D = "dispatched (dp_log d)" and ?F = "finished (dp_log d)"
  have o: "inv_ok m {} {} {} d" and l: "log_wf m (dp_log d)" and c: "inv_count m d"
    using disp_invD [OF inv] by (simp_all add: inv_log_def)
  have wn: "well_named m" using pr by (simp add: prepared_def)
  have closed: "sg.ready m ?D \<subseteq> ?D" using o assms(2) by (auto simp: inv_ok_def)
  have "acyclic (sg.dep_rel m)" using pr task_rel_eq [OF well_named_distinct [OF wn]] by (simp add: prepared_def)
  moreover have "\<And>c. c \<in> set (task_names m) \<Longrightarrow> set (deps_of m c) \<subseteq> set (task_names m)"
    using deps_found_of pr by (simp add: prepared_def)
  ultimately have all: "set (task_names m) \<subseteq> ?D" by (rule sg.closed_everything [OF _ _ closed])
  then have fin: "?F = set (task_names m)" using o log_wf_finished [OF l] log_wf_nodes [OF l] by (auto simp: inv_ok_def)
  have "\<exists>r. oc_calls cb' = [r] \<and> resultCode r = ERR_OK" if "dp_completedCallback d = Some cb'" for cb'
  proof -
    have "isCalled cb'" "called_once cb'" using c that fin by (auto simp: inv_count_def reports_def)
    then obtain r where "oc_calls cb' = [r]" by (auto simp: called_once_def length_Suc_conv)
    moreover have "\<forall>r\<in>set (oc_calls cb'). resultCode r = ERR_OK" using o that by (simp add: inv_ok_def)
    ultimately show ?thesis by auto
  qed
  then show ?thesis using fin prepared_names [OF pr] by auto
qed


text \<open>The number of tasks left bounds the completions that are still to come: each one is handled, and
  brings that number down.\<close>

theorem dispatcher_progress:
  assumes "reach (disp_start True beh cb acb m) (disp_step True beh m) d"
    and "(name, key) \<in> set (dp_pending d)" and "good_result res"
  shows "\<exists>d'. handle (RunTaskInit beh (length m)) (TaskDone name key res) d = Some d' \<and>
           card (set (map fst m) - dispatched (dp_log d')) < card (set (map fst m) - dispatched (dp_log d))"
proof -
  from dm.reach_inv [OF assms(1)] obtain sr where pr: "prepared m sr" and inv: "disp_inv True m sr {} {} {} {} d"
      and run: "runner_spec True m sr (length m) (RunTaskInit beh (length m))" by (auto simp: disp_ready_def)
  have eq: "name = key" and key: "key \<in> inited (dp_log d) - dispatches (dp_log d)"
    using disp_invD(4) [OF inv] assms(2) by (auto simp: inv_wait_def)
  let ?d = "d\<lparr>dp_pending := remove1 (key, key) (dp_pending d)\<rparr>"
  have pend: "(key, key) \<in> set (dp_pending d)" using assms(2) eq by simp
  note I = unpended_inv(1) [OF inv pend] and da = unpended_inv(2) [OF inv pend]
  have k: "key \<in> set (task_names m)" using started_node [OF inv] key by blast
  have ex: "extras ?d key = []" using da by (simp add: dispatchable_def)
  from taskCompleted_alone [OF pr I k _ ex, of res "RunTaskInit beh (length m)"] assms(3) obtain d1 where
    d1: "taskCompleted (RunTaskInit beh (length m)) key res ?d = Some d1" "disp_inv True m sr {} {} {} {key} d1"
      "dp_log d1 = dp_log d" "dp_pending d1 = dp_pending ?d" "extras d1 = extras ?d" by auto
  have "dispatchable m {} (length m) key d1" using da d1(3-) by (simp add: dispatchable_def)
  from Dispatch_spec [OF pr run d1(2) this, of res] assms(3) d1(3) obtain d' where
    d': "Dispatch (RunTaskInit beh (length m)) key res d1 = Some d'" "dispatched (dp_log d) \<subseteq> dispatched (dp_log d')"
      "key \<in> dispatched (dp_log d')" by auto
  have "key \<notin> dispatched (dp_log d)" using key dispatched_dispatches by blast
  then have "set (task_names m) - dispatched (dp_log d') \<subset> set (task_names m) - dispatched (dp_log d)" using d' k by blast
  then have "card (set (task_names m) - dispatched (dp_log d')) < card (set (task_names m) - dispatched (dp_log d))"
    by (intro psubset_card_mono) auto
  with d1(1) d'(1) eq prepared_names [OF pr] show ?thesis by (simp add: callbackCall_def)
qed

section \<open>A small run\<close>

definition okResult :: startup_result where
  "okResult = \<lparr>resultCode = ERR_OK, resultMessage = ''''\<rparr>"

text \<open>The first task completes later, the other two while they are started.\<close>

definition exBeh :: "string \<Rightarrow> init_outcome" where
  "exBeh k = (if k = ''config'' then InitAsync ERR_OK else InitSync (Some okResult) ERR_OK)"

definition exRun :: "(int \<times> dispatcher) option" where
  "exRun = Run (RunTaskInit exBeh 3) (Some newOnCompleted) (Some newOnCompleted) (newDispatcher exTasks (Some exSort))"

definition exD0 :: dispatcher where
  "exD0 = snd (the exRun)"

definition exD1 :: dispatcher where
  "exD1 = the (handle (RunTaskInit exBeh 3) (TaskDone ''config'' ''config'' (Some okResult)) exD0)"

lemma exRun_result: "exRun = Some (ERR_OK, exD0)"
  by code_simp

lemma exD1_result: "handle (RunTaskInit exBeh 3) (TaskDone ''config'' ''config'' (Some okResult)) exD0 = Some exD1"
  by code_simp

lemma exD0_pending: "dp_pending exD0 = [(''config'', ''config'')]" "dp_log exD0 = [EvInit ''config'']"
  by code_simp+

lemma exTasks_fresh: "fresh_tasks exTasks" "fresh_callback (Some newOnCompleted)"
  "\<forall>t\<in>set (tasks_of exTasks). valid_task t" "\<forall>k\<in>set (map fst exTasks). good_outcome (exBeh k)" "length exTasks = 3"
  by code_simp+

lemma exD0_start: "disp_start ok exBeh (Some newOnCompleted) (Some newOnCompleted) exTasks exD0"
  unfolding disp_start_def using exTasks_wf exTasks_sort exTasks_fresh exRun_result by (simp add: exRun_def)

lemma exD0_reach: "reach (disp_start ok exBeh (Some newOnCompleted) (Some newOnCompleted) exTasks) (disp_step ok exBeh exTasks) exD0"
  by (rule reach_start) (rule exD0_start)

lemma good_okResult: "good_result (Some okResult)"
  by (simp add: good_result_def okResult_def)

lemma exD1_reach: "reach (disp_start ok exBeh (Some newOnCompleted) (Some newOnCompleted) exTasks) (disp_step ok exBeh exTasks) exD1"
proof (rule reach_step [OF exD0_reach])
  show "disp_step ok exBeh exTasks exD0 exD1"
    unfolding disp_step_def using exD1_result exD0_pending exTasks_fresh(5) good_okResult
    by (intro exI [of _ "TaskDone ''config'' ''config'' (Some okResult)"]) simp
qed

theorem dispatcher_safe_witness:
  "log_wf exTasks (dp_log exD1) \<and> EvInit ''so_b'' \<in> set (dp_log exD1)"
proof -
  have "EvInit ''so_b'' \<in> set (dp_log exD1)" by code_simp
  then show ?thesis using dispatcher_safe [OF exD1_reach] by blast
qed

theorem dispatcher_total_witness:
  "Run (RunTaskInit exBeh (length exTasks)) (Some newOnCompleted) (Some newOnCompleted) (newDispatcher exTasks (Some exSort)) \<noteq> None"
  using dispatcher_total [OF exTasks_wf(1,2,3,5) exTasks_fresh(1,2,2) exTasks_sort] by blast

theorem dispatcher_live_witness:
  "finished (dp_log exD1) = {''config'', ''so_a'', ''so_b''}"
proof -
  have tasks: "\<forall>e\<in>set (dp_tasks exD1). case snd e of None \<Rightarrow> True | Some t \<Rightarrow> st_extraCallbacks t = []" "dp_pending exD1 = []"
    by code_simp+
  then have "waiting exD1 = {}"
    by (auto simp: waiting_def extras_def split: option.splits dest!: map_of_SomeD)
  then have "finished (dp_log exD1) = set (map fst exTasks)" using dispatcher_live [OF exD1_reach] by blast
  then show ?thesis by (simp add: exTasks_def exTask_def)
qed

theorem dispatcher_progress_witness:
  "\<exists>d'. handle (RunTaskInit exBeh (length exTasks)) (TaskDone ''config'' ''config'' (Some okResult)) exD0 = Some d' \<and>
     card (set (map fst exTasks) - dispatched (dp_log d')) < card (set (map fst exTasks) - dispatched (dp_log exD0))"
  by (rule dispatcher_progress [OF exD0_reach]) (simp_all add: exD0_pending good_okResult)

end
