(* ===== verification/Startup_Manager.thy ===== *)
theory Startup_Manager
  imports Startup_Dispatch
begin

text \<open>
  Choosing and managing the start-up tasks of an application
  (\<open>frameworks/native/appkit/app_startup/startup_manager.cpp\<close>, \<open>app_startup_task_matcher.cpp\<close>,
  \<open>startup_task_manager.cpp\<close>).

  The manager keeps the registered tasks; a request (explicit names, or a want matched against the
  rules of the tasks) selects some of them, adds their dependencies with an explicit stack
  (\<open>AddStartupTask\<close>) and makes a \<open>StartupTaskManager\<close>, which sorts them (\<open>Prepare\<close>), runs the dispatcher and
  tells the listener of the configuration how it ended.

  A map of tasks holds shared pointers; the maps here hold the tasks themselves, which is the same
  for everything below because nothing below changes a task that two maps share.  A parsed
  \<open>Uri\<close> is a record of its parts.  Reading the configuration (JSON files in the application package)
  and the preload threads are not modelled.
\<close>

section \<open>Matching tasks\<close>

record uri_parts =
  up_string :: string
  up_scheme :: string
  up_host :: string
  up_path :: string

definition emptyAppPart :: app_part where
  "emptyAppPart = \<lparr>at_isExcludeFromAutoStart = False, at_preAbilityStageLoad = False, at_moduleName = '''',
     at_moduleType = MT_UNKNOWN,
     at_matchRules = \<lparr>mr_uris = [], mr_insightIntents = [], mr_actions = [], mr_customization = []\<rparr>\<rparr>"

text \<open>The \<open>AppStartupTask\<close> part of a task; every registered task has one.\<close>

definition appPart :: "startup_task \<Rightarrow> app_part" where
  "appPart t = (case st_app t of None \<Rightarrow> emptyAppPart | Some a \<Rightarrow> a)"

definition ModuleStart_Match :: "string \<Rightarrow> startup_task \<Rightarrow> bool" where
  "ModuleStart_Match moduleName t \<longleftrightarrow>
     at_moduleName (appPart t) = moduleName \<or> at_moduleType (appPart t) = MT_SHARED"

definition ExcludeFromAutoStart_Match :: "startup_task \<Rightarrow> bool" where
  "ExcludeFromAutoStart_Match t \<longleftrightarrow> \<not> at_isExcludeFromAutoStart (appPart t)"

definition Uri_Match :: "uri_parts option \<Rightarrow> startup_task \<Rightarrow> bool" where
  "Uri_Match uri t =
     (case uri of
        None \<Rightarrow> False
      | Some u \<Rightarrow>
          if up_string u = '''' then False
          else let uriToMatch = up_scheme u @ ''://'' @ up_host u @ up_path u
               in list_ex (\<lambda>rule. uriToMatch = rule) (mr_uris (at_matchRules (appPart t))))"

definition InsightIntent_Match :: "string \<Rightarrow> startup_task \<Rightarrow> bool" where
  "InsightIntent_Match insightIntentName t =
     (if insightIntentName = '''' then False
      else list_ex (\<lambda>rule. insightIntentName = rule) (mr_insightIntents (at_matchRules (appPart t))))"

definition Action_Match :: "string \<Rightarrow> startup_task \<Rightarrow> bool" where
  "Action_Match action t =
     (if action = '''' then False
      else list_ex (\<lambda>rule. action = rule) (mr_actions (at_matchRules (appPart t))))"

definition Customization_Match :: "string \<Rightarrow> startup_task \<Rightarrow> bool" where
  "Customization_Match customization t =
     (if customization = '''' then False
      else list_ex (\<lambda>rule. customization = rule) (mr_customization (at_matchRules (appPart t))))"

text \<open>The rule matcher: its three matchers are made from the same want, in this order.\<close>

record rule_matcher =
  rm_uri :: "uri_parts option"
  rm_action :: string
  rm_insightIntent :: string
  rm_module :: "string option"
  rm_customization :: "string option"

definition MatchRules_Match :: "rule_matcher \<Rightarrow> startup_task \<Rightarrow> bool" where
  "MatchRules_Match rm t =
     (if (case rm_module rm of None \<Rightarrow> False | Some mn \<Rightarrow> \<not> ModuleStart_Match mn t) then False
      else if Uri_Match (rm_uri rm) t \<or> Action_Match (rm_action rm) t \<or> InsightIntent_Match (rm_insightIntent rm) t then True
      else case rm_customization rm of None \<Rightarrow> False | Some c \<Rightarrow> Customization_Match c t)"

definition SchedulerPhase_Match :: "bool \<Rightarrow> startup_task \<Rightarrow> bool" where
  "SchedulerPhase_Match preAbilityStageLoad t \<longleftrightarrow> at_preAbilityStageLoad (appPart t) = preAbilityStageLoad"

definition Default_Match :: "string \<Rightarrow> bool \<Rightarrow> startup_task \<Rightarrow> bool" where
  "Default_Match moduleName preAbilityStageLoad t =
     (if \<not> ModuleStart_Match moduleName t then False
      else if \<not> SchedulerPhase_Match preAbilityStageLoad t then False
      else ExcludeFromAutoStart_Match t)"

section \<open>Selecting tasks\<close>

text \<open>\<open>map.emplace\<close> leaves an entry that is there; \<open>set.insert\<close> keeps the set ordered.\<close>

definition omap_emplace :: "'k::linorder \<Rightarrow> 'v \<Rightarrow> ('k, 'v) omap \<Rightarrow> ('k, 'v) omap" where
  "omap_emplace k v m = (if omap_find m k = None then omap_put k v m else m)"

fun FilterMatchedStartupTask ::
  "(startup_task \<Rightarrow> bool) \<Rightarrow> task_map \<Rightarrow> task_map \<Rightarrow> string list option \<Rightarrow> bool \<times> task_map \<times> string list option" where
  "FilterMatchedStartupTask Match [] outTasks dependenciesSet = (False, outTasks, dependenciesSet)"
| "FilterMatchedStartupTask Match (iter # inTasks) outTasks dependenciesSet =
     (case snd iter of
        None \<Rightarrow> FilterMatchedStartupTask Match inTasks outTasks dependenciesSet
      | Some t \<Rightarrow>
          if \<not> Match t then FilterMatchedStartupTask Match inTasks outTasks dependenciesSet
          else let (_, outTasks, dependenciesSet) =
                     FilterMatchedStartupTask Match inTasks (omap_emplace (fst iter) (Some t) outTasks)
                       (map_option (\<lambda>ds. fold insort_insert (st_dependencies t) ds) dependenciesSet)
               in (True, outTasks, dependenciesSet))"

text \<open>The loop of \<open>AddStartupTask\<close>; the top of the stack is the head of the list.\<close>

definition unadded :: "task_map \<Rightarrow> task_map \<Rightarrow> nat" where
  "unadded allTasks taskMap = length (filter (\<lambda>e. omap_find taskMap (fst e) = None) allTasks)"

lemma find_emplace: "omap_find (omap_emplace k v m) x = None \<longleftrightarrow> x \<noteq> k \<and> omap_find m x = None"
  by (auto simp: omap_emplace_def map_of_eq_None_iff keys_omap_put)

lemma unadded_emplace:
  assumes "omap_find allTasks k = Some v" and "omap_find taskMap k = None"
  shows "unadded allTasks (omap_emplace k v taskMap) < unadded allTasks taskMap"
proof -
  let ?open = "filter (\<lambda>e. omap_find taskMap (fst e) = None) allTasks"
  have "(k, v) \<in> set ?open" using map_of_SomeD [OF assms(1)] assms(2) by simp
  then have "length (filter (\<lambda>e. fst e \<noteq> k) ?open) < length ?open" by (rule length_filter_less) simp
  then show ?thesis by (simp add: unadded_def find_emplace conj_commute)
qed

function addLoop :: "task_map \<Rightarrow> string list \<Rightarrow> task_map \<Rightarrow> int \<times> task_map" where
  "addLoop allTasks [] taskMap = (ERR_OK, taskMap)"
| "addLoop allTasks (taskName # taskStack) taskMap =
     (case omap_find allTasks taskName of
        None \<Rightarrow> (ERR_STARTUP_DEPENDENCY_NOT_FOUND, taskMap)
      | Some v \<Rightarrow>
          let taskMap = omap_emplace taskName v taskMap
          in case v of
               None \<Rightarrow> (ERR_STARTUP_INTERNAL_ERROR, taskMap)
             | Some t \<Rightarrow>
                 addLoop allTasks
                   (rev (filter (\<lambda>dep. omap_find taskMap dep = None) (st_dependencies t)) @ taskStack) taskMap)"
  by pat_completeness auto

text \<open>A task may be on the stack several times.  Each round adds a task, or, when the top was added
  before, leaves a top that was not, or a shorter stack.\<close>

termination
proof (relation "measures [\<lambda>(a, s, m). unadded a m,
    \<lambda>(a, s, m). case s of [] \<Rightarrow> 0 | x # _ \<Rightarrow> if omap_find m x = None then 0 else length s]")
  fix allTasks :: task_map and taskName taskStack taskMap v x t
  assume v: "omap_find allTasks taskName = Some v" and x: "x = omap_emplace taskName v taskMap" and t: "v = Some t"
  let ?new = "filter (\<lambda>dep. omap_find x dep = None) (st_dependencies t)"
  show "((allTasks, rev ?new @ taskStack, x), allTasks, taskName # taskStack, taskMap) \<in>
     measures [\<lambda>(a, s, m). unadded a m,
       \<lambda>(a, s, m). case s of [] \<Rightarrow> 0 | x # _ \<Rightarrow> if omap_find m x = None then 0 else length s]"
  proof (cases "omap_find taskMap taskName")
    case None
    with unadded_emplace [OF v None] x show ?thesis by simp
  next
    case (Some w)
    then have same: "x = taskMap" using x by (simp add: omap_emplace_def)
    show ?thesis
    proof (cases "rev ?new")
      case Nil
      with Some same show ?thesis by (auto split: list.splits)
    next
      case (Cons y ys)
      then have "y \<in> set (rev ?new)" by simp
      then have "omap_find x y = None" by simp
      with Cons Some same show ?thesis by simp
    qed
  qed
qed simp


definition AddStartupTask :: "string \<Rightarrow> task_map \<Rightarrow> task_map \<Rightarrow> int \<times> task_map" where
  "AddStartupTask name taskMap allTasks =
     (if omap_find taskMap name \<noteq> None then (ERR_OK, taskMap) else addLoop allTasks [name] taskMap)"

section \<open>The managers\<close>

record startup_config =
  sc_awaitTimeoutMs :: int
  sc_hasListener :: bool
  sc_customization :: string

text \<open>\<open>StartupTaskManager\<close>: \<open>tm_told\<close> lists what its listener was told, \<open>tm_completed\<close> counts the calls of
  \<open>OnStartupTaskManagerComplete\<close> and \<open>tm_timeoutCalls\<close> those of the timeout callback, when one is set.\<close>

record task_manager =
  tm_id :: "32 word"
  tm_tasks :: task_map
  tm_config :: "startup_config option"
  tm_dispatcher :: "dispatcher option"
  tm_timer :: bool
  tm_hasTimeoutCallback :: bool
  tm_timeoutCalls :: nat
  tm_told :: "startup_result list"
  tm_completed :: nat

definition newTaskManager :: "32 word \<Rightarrow> task_map \<Rightarrow> task_manager" where
  "newTaskManager i tasks = \<lparr>tm_id = i, tm_tasks = tasks, tm_config = None, tm_dispatcher = None,
     tm_timer = False, tm_hasTimeoutCallback = False, tm_timeoutCalls = 0, tm_told = [], tm_completed = 0\<rparr>"

definition AddTask :: "startup_task option \<Rightarrow> task_manager \<Rightarrow> int \<times> task_manager" where
  "AddTask task tm =
     (case task of
        None \<Rightarrow> (ERR_STARTUP_INVALID_VALUE, tm)
      | Some t \<Rightarrow>
          if omap_find (tm_tasks tm) (st_name t) \<noteq> None then (ERR_STARTUP_INVALID_VALUE, tm)
          else (ERR_OK, tm\<lparr>tm_tasks := omap_put (st_name t) (Some t) (tm_tasks tm)\<rparr>))"

definition CallListenerOnCompleted :: "int \<Rightarrow> string \<Rightarrow> task_manager \<Rightarrow> task_manager" where
  "CallListenerOnCompleted result msg tm =
     (case tm_config tm of
        None \<Rightarrow> tm
      | Some config \<Rightarrow>
          let r = \<lparr>resultCode = result,
                   resultMessage = (if msg = '''' then GetErrorMessage result else msg)\<rparr>
          in tm\<lparr>tm_told := (if sc_hasListener config then tm_told tm @ [r] else tm_told tm),
                tm_completed := tm_completed tm + 1\<rparr>)"

definition Prepare :: "task_manager \<Rightarrow> (int \<times> task_manager) cpp option" where
  "Prepare tm =
     (case Sort (tm_tasks tm) of
        None \<Rightarrow> None
      | Some (Inl e) \<Rightarrow> Some (Inl e)
      | Some (Inr (result, sr)) \<Rightarrow>
          Some (Inr
            (if result \<noteq> ERR_OK then (result, CallListenerOnCompleted result '''' tm)
             else if tm_tasks tm = [] then (ERR_STARTUP_INTERNAL_ERROR, tm)
             else (ERR_OK, tm\<lparr>tm_dispatcher := Some (newDispatcher (tm_tasks tm) (Some sr))\<rparr>))))"

definition AddAsyncTimeoutTimer :: "task_manager \<Rightarrow> task_manager" where
  "AddAsyncTimeoutTimer tm =
     (let timeoutMs = (case tm_config tm of None \<Rightarrow> 10000 | Some c \<Rightarrow> sc_awaitTimeoutMs c)
      in if timeoutMs = -1 then tm else tm\<lparr>tm_timer := True\<rparr>)"

definition CancelAsyncTimeoutTimer :: "task_manager \<Rightarrow> task_manager" where
  "CancelAsyncTimeoutTimer tm = tm\<lparr>tm_timer := False\<rparr>"

text \<open>The function behind the completion callback of the dispatcher, for the result it is called with.\<close>

definition onCompleted :: "startup_result \<Rightarrow> task_manager \<Rightarrow> task_manager" where
  "onCompleted r tm = CallListenerOnCompleted (resultCode r) (resultMessage r) (CancelAsyncTimeoutTimer tm)"

definition tm_Run :: "runner \<Rightarrow> on_completed option \<Rightarrow> task_manager \<Rightarrow> (int \<times> task_manager) option" where
  "tm_Run run mainThreadAwaitCallback tm =
     (case tm_dispatcher tm of
        None \<Rightarrow> Some (ERR_STARTUP_INTERNAL_ERROR, CallListenerOnCompleted ERR_STARTUP_INTERNAL_ERROR '''' tm)
      | Some d \<Rightarrow>
          let tm = AddAsyncTimeoutTimer tm
          in case Run run (Some newOnCompleted) mainThreadAwaitCallback d of
               None \<Rightarrow> None
             | Some (result, d) \<Rightarrow>
                 let calls = (case dp_completedCallback d of None \<Rightarrow> [] | Some cb \<Rightarrow> oc_calls cb);
                     tm = fold onCompleted calls (tm\<lparr>tm_dispatcher := Some d\<rparr>)
                 in Some (result,
                      if result \<noteq> ERR_OK
                      then (let tm = CancelAsyncTimeoutTimer tm
                            in if calls = [] then CallListenerOnCompleted result '''' tm else tm)
                      else tm))"

definition OnTimeout :: "task_manager \<Rightarrow> task_manager" where
  "OnTimeout tm =
     (let tm = CallListenerOnCompleted ERR_STARTUP_TIMEOUT (GetErrorMessage ERR_STARTUP_TIMEOUT) tm
      in tm\<lparr>tm_timeoutCalls := tm_timeoutCalls tm + (if tm_hasTimeoutCallback tm then 1 else 0),
            tm_completed := tm_completed tm + 1\<rparr>)"

definition SetTimeoutCallback :: "bool \<Rightarrow> task_manager \<Rightarrow> task_manager" where
  "SetTimeoutCallback callback tm = tm\<lparr>tm_hasTimeoutCallback := callback\<rparr>"

definition tm_TimeoutStop :: "task_manager \<Rightarrow> task_manager" where
  "tm_TimeoutStop tm = tm\<lparr>tm_dispatcher := map_option TimeoutStop (tm_dispatcher tm)\<rparr>"


text \<open>\<open>StartupManager\<close>: the registered tasks, the managers it made and the configurations.\<close>

record startup_manager =
  sm_preloadSoStartupTasks :: task_map
  sm_appStartupTasks :: task_map
  sm_nextId :: "32 word"
  sm_managers :: "(32 word, task_manager) omap"
  sm_defaultConfig :: "startup_config option"
  sm_moduleConfigs :: "(string, startup_config option) omap"

definition RegisterPreloadSoStartupTask :: "string \<Rightarrow> startup_task option \<Rightarrow> startup_manager \<Rightarrow> int \<times> startup_manager" where
  "RegisterPreloadSoStartupTask name startupTask s =
     (if omap_find (sm_appStartupTasks s) name \<noteq> None then (ERR_STARTUP_INVALID_VALUE, s)
      else if omap_find (sm_preloadSoStartupTasks s) name \<noteq> None then (ERR_STARTUP_INVALID_VALUE, s)
      else (ERR_OK, s\<lparr>sm_preloadSoStartupTasks := omap_put name startupTask (sm_preloadSoStartupTasks s)\<rparr>))"

definition RegisterAppStartupTask :: "string \<Rightarrow> startup_task option \<Rightarrow> startup_manager \<Rightarrow> int \<times> startup_manager" where
  "RegisterAppStartupTask name startupTask s =
     (if omap_find (sm_preloadSoStartupTasks s) name \<noteq> None then (ERR_STARTUP_INVALID_VALUE, s)
      else if omap_find (sm_appStartupTasks s) name \<noteq> None then (ERR_STARTUP_INVALID_VALUE, s)
      else (ERR_OK, s\<lparr>sm_appStartupTasks := omap_put name startupTask (sm_appStartupTasks s)\<rparr>))"

definition OnStartupTaskManagerComplete :: "32 word \<Rightarrow> startup_manager \<Rightarrow> int \<times> startup_manager" where
  "OnStartupTaskManagerComplete i s =
     (if omap_find (sm_managers s) i = None then (ERR_STARTUP_INTERNAL_ERROR, s)
      else (ERR_OK, s\<lparr>sm_managers := omap_erase i (sm_managers s)\<rparr>))"

definition GetStartupTaskManagerById :: "32 word \<Rightarrow> startup_manager \<Rightarrow> int \<times> task_manager option" where
  "GetStartupTaskManagerById i s =
     (case omap_find (sm_managers s) i of None \<Rightarrow> (ERR_STARTUP_INTERNAL_ERROR, None) | Some tm \<Rightarrow> (ERR_OK, Some tm))"

definition SetModuleConfig :: "startup_config option \<Rightarrow> string \<Rightarrow> bool \<Rightarrow> startup_manager \<Rightarrow> startup_manager" where
  "SetModuleConfig config moduleName isDefaultConfig s =
     (let s = s\<lparr>sm_moduleConfigs := omap_put moduleName config (sm_moduleConfigs s)\<rparr>
      in if isDefaultConfig then s\<lparr>sm_defaultConfig := config\<rparr> else s)"

definition SetDefaultConfig :: "startup_config option \<Rightarrow> startup_manager \<Rightarrow> startup_manager" where
  "SetDefaultConfig config s = s\<lparr>sm_defaultConfig := config\<rparr>"

text \<open>A registered, non-null task of either kind.\<close>

definition findTask :: "string \<Rightarrow> startup_manager \<Rightarrow> startup_task option" where
  "findTask name s =
     (case omap_find (sm_appStartupTasks s) name of
        Some (Some t) \<Rightarrow> Some t
      | _ \<Rightarrow> (case omap_find (sm_preloadSoStartupTasks s) name of Some (Some t) \<Rightarrow> Some t | _ \<Rightarrow> None))"

definition setRegistered :: "string \<Rightarrow> startup_task \<Rightarrow> startup_manager \<Rightarrow> startup_manager" where
  "setRegistered name t s =
     (case omap_find (sm_appStartupTasks s) name of
        Some (Some _) \<Rightarrow> s\<lparr>sm_appStartupTasks := omap_put name (Some t) (sm_appStartupTasks s)\<rparr>
      | _ \<Rightarrow> s\<lparr>sm_preloadSoStartupTasks := omap_put name (Some t) (sm_preloadSoStartupTasks s)\<rparr>)"

definition sm_RemoveAllResult :: "startup_manager \<Rightarrow> int \<times> startup_manager" where
  "sm_RemoveAllResult s =
     (ERR_OK, s\<lparr>sm_appStartupTasks := map (\<lambda>(k, v). (k, map_option (\<lambda>t. snd (RemoveResult t)) v)) (sm_appStartupTasks s),
                sm_preloadSoStartupTasks := map (\<lambda>(k, v). (k, map_option (\<lambda>t. snd (RemoveResult t)) v)) (sm_preloadSoStartupTasks s)\<rparr>)"

definition sm_RemoveResult :: "string \<Rightarrow> startup_manager \<Rightarrow> int \<times> startup_manager" where
  "sm_RemoveResult name s =
     (case findTask name s of
        None \<Rightarrow> (ERR_STARTUP_INVALID_VALUE, s)
      | Some t \<Rightarrow> let (ret, t) = RemoveResult t in (ret, setRegistered name t s))"

definition sm_GetResult :: "string \<Rightarrow> startup_manager \<Rightarrow> int \<times> startup_result option" where
  "sm_GetResult name s =
     (case findTask name s of
        None \<Rightarrow> (ERR_STARTUP_INVALID_VALUE, None)
      | Some t \<Rightarrow> if st_state t \<noteq> INITIALIZED then (ERR_STARTUP_INVALID_VALUE, None) else (ERR_OK, st_result t))"

definition sm_IsInitialized :: "string \<Rightarrow> startup_manager \<Rightarrow> int \<times> bool" where
  "sm_IsInitialized name s =
     (case findTask name s of
        None \<Rightarrow> (ERR_STARTUP_INVALID_VALUE, False)
      | Some t \<Rightarrow> (ERR_OK, st_state t = INITIALIZED))"

text \<open>The end of the three builders: a manager with the next id is made and stored.\<close>

definition storeManager :: "task_map \<Rightarrow> startup_config option \<Rightarrow> startup_manager \<Rightarrow> task_manager \<times> startup_manager" where
  "storeManager tasks config s =
     (let tm = (newTaskManager (sm_nextId s) tasks)\<lparr>tm_config := config\<rparr>
      in (tm, s\<lparr>sm_managers := omap_emplace (sm_nextId s) tm (sm_managers s), sm_nextId := sm_nextId s + 1\<rparr>))"

definition BuildStartupTaskManager :: "task_map \<Rightarrow> startup_manager \<Rightarrow> int \<times> task_manager option \<times> startup_manager" where
  "BuildStartupTaskManager tasks s =
     (if tasks = [] then (ERR_STARTUP_INTERNAL_ERROR, None, s)
      else let (tm, s) = storeManager tasks
                 (Some \<lparr>sc_awaitTimeoutMs = -1, sc_hasListener = False, sc_customization = ''''\<rparr>) s
           in (ERR_OK, Some tm, s))"

fun addAll :: "bool \<Rightarrow> string list \<Rightarrow> task_map \<Rightarrow> task_map \<Rightarrow> int \<times> task_map" where
  "addAll stop [] allTasks taskMap = (ERR_OK, taskMap)"
| "addAll stop (dep # deps) allTasks taskMap =
     (if omap_find taskMap dep \<noteq> None then addAll stop deps allTasks taskMap
      else let (result, taskMap) = AddStartupTask dep taskMap allTasks
           in if stop \<and> result \<noteq> ERR_OK then (result, taskMap) else addAll stop deps allTasks taskMap)"

fun preloadLoop :: "task_map \<Rightarrow> string list \<Rightarrow> task_map \<Rightarrow> string list \<Rightarrow> int \<times> task_map \<times> string list" where
  "preloadLoop allTasks [] tasks deps = (ERR_OK, tasks, deps)"
| "preloadLoop allTasks (iter # names) tasks deps =
     (case omap_find allTasks iter of
        None \<Rightarrow> (ERR_STARTUP_DEPENDENCY_NOT_FOUND, tasks, deps)
      | Some None \<Rightarrow> (ERR_STARTUP_INTERNAL_ERROR, tasks, deps)
      | Some (Some t) \<Rightarrow>
          preloadLoop allTasks names (omap_emplace iter (Some t) tasks) (fold insort_insert (st_dependencies t) deps))"

definition APP_PRELOAD_SO_TASK :: string where
  "APP_PRELOAD_SO_TASK = ''_AppLoadSoTask''"

text \<open>The task added to the current ones runs the preload tasks chosen here; they are returned as well.\<close>

definition AddAppPreloadSoTask :: "startup_manager \<Rightarrow> string list \<Rightarrow> task_map \<Rightarrow> int \<times> task_map \<times> task_map" where
  "AddAppPreloadSoTask s preloadSoList currentStartupTasks =
     (let (ret, tasks, deps) = preloadLoop (sm_preloadSoStartupTasks s) preloadSoList [] []
      in if ret \<noteq> ERR_OK then (ret, currentStartupTasks, [])
         else let (ret, tasks) = addAll True deps (sm_preloadSoStartupTasks s) tasks
              in if ret \<noteq> ERR_OK then (ret, currentStartupTasks, [])
                 else if tasks = [] then (ERR_OK, currentStartupTasks, [])
                 else (ERR_OK,
                       omap_emplace APP_PRELOAD_SO_TASK
                         (Some ((newStartupTask APP_PRELOAD_SO_TASK)\<lparr>st_waitOnMainThread := False\<rparr>)) currentStartupTasks,
                       tasks))"

fun inputLoop ::
  "bool \<Rightarrow> task_map \<Rightarrow> string list \<Rightarrow> task_map \<Rightarrow> string list \<Rightarrow> string list \<Rightarrow>
   int \<times> task_map \<times> string list \<times> string list" where
  "inputLoop supportFeatureModule allTasks [] tasks deps preload = (ERR_OK, tasks, deps, preload)"
| "inputLoop supportFeatureModule allTasks (iter # names) tasks deps preload =
     (case omap_find allTasks iter of
        None \<Rightarrow> inputLoop supportFeatureModule allTasks names tasks deps (preload @ [iter])
      | Some None \<Rightarrow> (ERR_STARTUP_INTERNAL_ERROR, tasks, deps, preload)
      | Some (Some t) \<Rightarrow>
          if \<not> supportFeatureModule \<and> at_moduleType (appPart t) = MT_FEATURE
          then (ERR_STARTUP_DEPENDENCY_NOT_FOUND, tasks, deps, preload)
          else inputLoop supportFeatureModule allTasks names (omap_emplace iter (Some t) tasks)
                 (fold insort_insert (st_dependencies t) deps) preload)"

definition BuildAppStartupTaskManager ::
  "string list \<Rightarrow> bool \<Rightarrow> startup_manager \<Rightarrow> int \<times> task_manager option \<times> startup_manager" where
  "BuildAppStartupTaskManager inputDependencies supportFeatureModule s =
     (let (ret, tasks, deps, preload) =
            inputLoop supportFeatureModule (sm_appStartupTasks s) inputDependencies [] [] []
      in if ret \<noteq> ERR_OK then (ret, None, s)
         else let (_, tasks) = addAll False deps (sm_appStartupTasks s) tasks;
                  (result, tasks, _) = AddAppPreloadSoTask s preload tasks
              in if result \<noteq> ERR_OK then (result, None, s)
                 else let (tm, s) = storeManager tasks (sm_defaultConfig s) s
                      in (ERR_OK, Some tm, s))"

text \<open>\<open>want\<close> is the rule matcher made from the want of the request.\<close>

definition BuildAutoAppStartupTaskManager ::
  "rule_matcher option \<Rightarrow> string \<Rightarrow> bool \<Rightarrow> startup_manager \<Rightarrow> int \<times> task_manager option \<times> startup_manager" where
  "BuildAutoAppStartupTaskManager want moduleName preAbilityStageLoad s =
     (let startupConfig = omap_at None moduleName (sm_moduleConfigs s);
          s = s\<lparr>sm_moduleConfigs := omap_emplace moduleName None (sm_moduleConfigs s)\<rparr>;
          (filteredByMatchRules, filteredTasks, _) =
            (case want of
               None \<Rightarrow> (False, [], None)
             | Some rm \<Rightarrow>
                 FilterMatchedStartupTask
                   (MatchRules_Match (rm\<lparr>rm_module := Some moduleName,
                      rm_customization := map_option sc_customization startupConfig\<rparr>))
                   (sm_appStartupTasks s) [] None);
          (_, autoStartupTasks, dependenciesSet) =
            (if filteredByMatchRules
             then FilterMatchedStartupTask (SchedulerPhase_Match preAbilityStageLoad) filteredTasks [] (Some [])
             else FilterMatchedStartupTask (Default_Match moduleName preAbilityStageLoad) (sm_appStartupTasks s) [] (Some []));
          (_, autoStartupTasks) =
            addAll False (case dependenciesSet of None \<Rightarrow> [] | Some ds \<Rightarrow> ds) (sm_appStartupTasks s) autoStartupTasks;
          (tm, s) = storeManager autoStartupTasks startupConfig s
      in (ERR_OK, Some tm, s))"

definition GetAppAutoPreloadSoTasks :: "rule_matcher option \<Rightarrow> startup_manager \<Rightarrow> int \<times> task_map" where
  "GetAppAutoPreloadSoTasks startupTaskData s =
     (let (filtered, tasks, deps) =
            (case startupTaskData of
               None \<Rightarrow> (False, [], Some [])
             | Some rm \<Rightarrow>
                 FilterMatchedStartupTask (MatchRules_Match (rm\<lparr>rm_module := None, rm_customization := None\<rparr>))
                   (sm_preloadSoStartupTasks s) [] (Some []));
          (_, tasks, deps) =
            (if \<not> filtered
             then FilterMatchedStartupTask ExcludeFromAutoStart_Match (sm_preloadSoStartupTasks s) tasks deps
             else (True, tasks, deps))
      in addAll True (case deps of None \<Rightarrow> [] | Some ds \<Rightarrow> ds) (sm_preloadSoStartupTasks s) tasks)"


section \<open>Adding dependencies\<close>

text \<open>From a task to its dependencies, through the registered tasks.\<close>

definition dep_step :: "task_map \<Rightarrow> (string \<times> string) set" where
  "dep_step m = {(c, p). \<exists>t. omap_find m c = Some (Some t) \<and> p \<in> set (st_dependencies t)}"

definition sub_map :: "task_map \<Rightarrow> task_map \<Rightarrow> bool" where
  "sub_map m m' \<longleftrightarrow> (\<forall>k v. omap_find m k = Some v \<longrightarrow> omap_find m' k = Some v)"

lemma sub_mapD: "sub_map m m' \<Longrightarrow> omap_find m k = Some v \<Longrightarrow> omap_find m' k = Some v"
  by (simp add: sub_map_def)

lemma sub_map_refl [simp]: "sub_map m m"
  by (simp add: sub_map_def)

lemma sub_map_trans: "sub_map a b \<Longrightarrow> sub_map b c \<Longrightarrow> sub_map a c"
  by (simp add: sub_map_def)

lemma find_omap_emplace:
  "omap_inv m \<Longrightarrow> omap_find (omap_emplace k v m) x = (if x = k \<and> omap_find m k = None then Some v else omap_find m x)"
  by (auto simp: omap_emplace_def find_omap_put)

lemma omap_inv_emplace: "omap_inv m \<Longrightarrow> omap_inv (omap_emplace k v m)"
  by (simp add: omap_emplace_def omap_inv_put)

lemma sub_map_emplace: "omap_inv m \<Longrightarrow> sub_map m (omap_emplace k v m)"
  by (simp add: sub_map_def find_omap_emplace)

text \<open>What \<open>added m ms m'\<close> says of a map \<open>m'\<close> that grew from \<open>m\<close> by the tasks reachable from \<open>ms\<close>.\<close>

definition added :: "task_map \<Rightarrow> task_map \<Rightarrow> string set \<Rightarrow> task_map \<Rightarrow> bool" where
  "added allTasks m ns m' \<longleftrightarrow> omap_inv m' \<and> sub_map m m' \<and>
     (\<forall>k v. omap_find m' k = Some v \<longrightarrow> omap_find m k = None \<longrightarrow>
        omap_find allTasks k = Some v \<and> (\<exists>n\<in>ns. (n, k) \<in> (dep_step allTasks)\<^sup>*))"

definition complete_for :: "task_map \<Rightarrow> string set \<Rightarrow> task_map \<Rightarrow> bool" where
  "complete_for m ns m' \<longleftrightarrow> (\<forall>n\<in>ns. omap_find m' n \<noteq> None) \<and>
     (\<forall>k v. omap_find m' k = Some v \<longrightarrow> omap_find m k = None \<longrightarrow>
        (\<exists>t. v = Some t \<and> (\<forall>p\<in>set (st_dependencies t). omap_find m' p \<noteq> None)))"

definition lacking :: "task_map \<Rightarrow> string set \<Rightarrow> bool" where
  "lacking allTasks ns \<longleftrightarrow> (\<exists>n\<in>ns. \<exists>k. (n, k) \<in> (dep_step allTasks)\<^sup>* \<and> (\<forall>t. omap_find allTasks k \<noteq> Some (Some t)))"

lemma addedD:
  assumes "added allTasks m ns m'" and "omap_find m' k = Some v" and "omap_find m k = None"
  shows "omap_find allTasks k = Some v" and "\<exists>n\<in>ns. (n, k) \<in> (dep_step allTasks)\<^sup>*"
  using assms by (simp_all add: added_def)

lemma complete_forD:
  assumes "complete_for m ns m'" and "omap_find m' k = Some v" and "omap_find m k = None"
  shows "\<exists>t. v = Some t \<and> (\<forall>p\<in>set (st_dependencies t). omap_find m' p \<noteq> None)"
  using assms by (simp add: complete_for_def)

lemma added_refl: "omap_inv m \<Longrightarrow> added allTasks m ns m"
  by (auto simp: added_def)

lemma dep_step_start:
  "omap_find allTasks c = Some (Some t) \<Longrightarrow> p \<in> set (st_dependencies t) \<Longrightarrow> (p, k) \<in> (dep_step allTasks)\<^sup>* \<Longrightarrow>
     (c, k) \<in> (dep_step allTasks)\<^sup>*"
  by (rule converse_rtrancl_into_rtrancl [of c p]) (auto simp: dep_step_def)

text \<open>One round of the loop: the top \<open>n\<close> is added and its missing dependencies are pushed.\<close>

lemma added_push:
  assumes om: "omap_inv m" and n: "omap_find allTasks n = Some (Some t)" and new: "new \<subseteq> set (st_dependencies t)"
    and a: "added allTasks (omap_emplace n (Some t) m) (new \<union> ns) m'"
  shows "added allTasks m (insert n ns) m'"
proof -
  let ?m = "omap_emplace n (Some t) m"
  have sub: "sub_map ?m m'" and inv: "omap_inv m'" using a by (simp_all add: added_def)
  have "omap_find allTasks k = Some v \<and> (\<exists>s\<in>insert n ns. (s, k) \<in> (dep_step allTasks)\<^sup>*)"
    if k: "omap_find m' k = Some v" "omap_find m k = None" for k v
  proof (cases "k = n")
    case True
    then have "omap_find ?m k = Some (Some t)" using k(2) by (simp add: find_omap_emplace [OF om])
    with sub_mapD [OF sub this] True k(1) n show ?thesis by auto
  next
    case False
    then have "omap_find ?m k = None" using k(2) by (simp add: find_omap_emplace [OF om])
    then obtain s where "omap_find allTasks k = Some v" "s \<in> new \<union> ns" "(s, k) \<in> (dep_step allTasks)\<^sup>*"
      using a k(1) by (auto simp: added_def)
    then show ?thesis using dep_step_start [OF n, of s k] new by blast
  qed
  then show ?thesis using inv sub_map_trans [OF sub_map_emplace [OF om] sub] by (simp add: added_def)
qed

lemma complete_push:
  assumes om: "omap_inv m" and sub: "sub_map (omap_emplace n (Some t) m) m'"
    and new: "new = {p \<in> set (st_dependencies t). omap_find (omap_emplace n (Some t) m) p = None}"
    and c: "complete_for (omap_emplace n (Some t) m) (new \<union> ns) m'"
  shows "complete_for m (insert n ns) m'"
proof -
  let ?m = "omap_emplace n (Some t) m"
  have keep: "omap_find m' p \<noteq> None" if "omap_find ?m p \<noteq> None" for p using that sub by (auto simp: sub_map_def)
  have deps: "omap_find m' p \<noteq> None" if "p \<in> set (st_dependencies t)" for p
    using that c keep [of p] by (cases "omap_find (omap_emplace n (Some t) m) p") (simp_all add: complete_for_def new)
  have "\<exists>u. v = Some u \<and> (\<forall>p\<in>set (st_dependencies u). omap_find m' p \<noteq> None)"
    if k: "omap_find m' k = Some v" "omap_find m k = None" for k v
  proof (cases "k = n")
    case True
    then have "omap_find ?m k = Some (Some t)" using k(2) by (simp add: find_omap_emplace [OF om])
    with sub_mapD [OF sub this] k(1) deps show ?thesis by simp
  next
    case False
    then have "omap_find ?m k = None" using k(2) by (simp add: find_omap_emplace [OF om])
    with c k(1) show ?thesis by (simp add: complete_for_def)
  qed
  moreover have "omap_find m' n \<noteq> None" by (rule keep) (auto simp: find_omap_emplace [OF om])
  ultimately show ?thesis using c by (simp add: complete_for_def)
qed

lemma lacking_push:
  assumes "omap_find allTasks n = Some (Some t)" and "new \<subseteq> set (st_dependencies t)" and "lacking allTasks (new \<union> ns)"
  shows "lacking allTasks (insert n ns)"
  using assms(2,3) dep_step_start [OF assms(1)] unfolding lacking_def by blast

lemma lackingI: "n \<in> ns \<Longrightarrow> (\<forall>t. omap_find allTasks n \<noteq> Some (Some t)) \<Longrightarrow> lacking allTasks ns"
  unfolding lacking_def by blast

lemma addLoop_spec:
  "omap_inv m \<Longrightarrow> addLoop allTasks st m = (ret, m') \<Longrightarrow>
     added allTasks m (set st) m' \<and> (ret = ERR_OK \<longrightarrow> complete_for m (set st) m') \<and>
     (ret \<noteq> ERR_OK \<longrightarrow> lacking allTasks (set st))"
proof (induction allTasks st m rule: addLoop.induct)
  case (1 allTasks m)
  then show ?case by (auto simp: added_refl complete_for_def)
next
  case (2 allTasks n st m)
  note om = "2.prems"(1)
  consider (missing) "omap_find allTasks n = None" | (null) "omap_find allTasks n = Some None"
    | (task) t where "omap_find allTasks n = Some (Some t)" by (cases "omap_find allTasks n") auto
  then show ?case
  proof cases
    case missing
    with 2 lackingI [of n "set (n # st)" allTasks] show ?thesis by (auto simp: added_refl startup_codes)
  next
    case null
    then have "added allTasks m (set (n # st)) (omap_emplace n None m)"
      using omap_inv_emplace [OF om] sub_map_emplace [OF om] by (auto simp: added_def find_omap_emplace [OF om] split: if_splits)
    with null 2 lackingI [of n "set (n # st)" allTasks] show ?thesis by (auto simp: startup_codes)
  next
    case (task t)
    let ?m = "omap_emplace n (Some t) m"
    let ?new = "filter (\<lambda>dep. omap_find ?m dep = None) (st_dependencies t)"
    have "addLoop allTasks (rev ?new @ st) ?m = (ret, m')" using "2.prems"(2) task by (simp add: Let_def)
    from "2.IH" [OF task refl refl omap_inv_emplace [OF om] this] have
      a: "added allTasks ?m (set ?new \<union> set st) m'" and c: "ret = ERR_OK \<longrightarrow> complete_for ?m (set ?new \<union> set st) m'"
      and l: "ret \<noteq> ERR_OK \<longrightarrow> lacking allTasks (set ?new \<union> set st)" by simp_all
    have new: "set ?new \<subseteq> set (st_dependencies t)" by auto
    have sub: "sub_map ?m m'" using a by (simp add: added_def)
    show ?thesis
      using added_push [OF om task new a] complete_push [OF om sub, of "set ?new" "set st"] c l lacking_push [OF task new] by auto
  qed
qed

lemma AddStartupTask_spec:
  assumes om: "omap_inv taskMap" and r: "AddStartupTask name taskMap allTasks = (ret, m)"
  shows "added allTasks taskMap {name} m \<and> (ret = ERR_OK \<longrightarrow> complete_for taskMap {name} m) \<and>
         (ret \<noteq> ERR_OK \<longrightarrow> lacking allTasks {name})"
proof (cases "omap_find taskMap name")
  case None
  with addLoop_spec [OF om, of allTasks "[name]" ret m] r show ?thesis by (simp add: AddStartupTask_def)
next
  case (Some v)
  with om r show ?thesis by (auto simp: AddStartupTask_def added_refl complete_for_def)
qed

section \<open>The tasks of a manager\<close>

text \<open>A registry in which every dependency is registered.\<close>

definition registry_ok :: "task_map \<Rightarrow> bool" where
  "registry_ok m \<longleftrightarrow> well_named m \<and> deps_found m"

lemma registry_find:
  assumes "well_named m"
  shows "omap_find m k \<noteq> None \<longleftrightarrow> k \<in> fst ` set m"
    and "omap_find m k = Some v \<Longrightarrow> \<exists>t. v = Some t \<and> st_name t = k"
  using assms map_of_SomeD [of m k v] by (auto simp: map_of_eq_None_iff well_named_def split: option.splits)

lemma registry_reach:
  assumes reg: "registry_ok m" and k: "(n, k) \<in> (dep_step m)\<^sup>*" and n: "omap_find m n \<noteq> None"
  shows "\<exists>t. omap_find m k = Some (Some t)"
  using k
proof (induction rule: rtrancl_induct)
  case base
  then show ?case using n registry_find(2) [of m n] reg by (auto simp: registry_ok_def)
next
  case (step c k)
  then obtain t where t: "omap_find m c = Some (Some t)" "k \<in> set (st_dependencies t)" by (auto simp: dep_step_def)
  have "t \<in> set (tasks_of m)" using map_of_SomeD [OF t(1)] by (force simp: tasks_of_def)
  then have "k \<in> fst ` set m" using t(2) reg by (auto simp: registry_ok_def deps_found_def)
  then have "omap_find m k \<noteq> None" using registry_find(1) [of m k] reg by (simp add: registry_ok_def)
  then show ?case using registry_find(2) [of m k] reg by (auto simp: registry_ok_def)
qed

lemma registry_not_lacking: "registry_ok m \<Longrightarrow> (\<forall>n\<in>ns. omap_find m n \<noteq> None) \<Longrightarrow> \<not> lacking m ns"
  unfolding lacking_def using registry_reach by metis

lemma added_trans:
  assumes "added allTasks a ns b" and "added allTasks b ns' c"
  shows "added allTasks a (ns \<union> ns') c"
proof -
  have sub: "sub_map a b" "sub_map b c" and om: "omap_inv c" using assms by (simp_all add: added_def)
  have "omap_find allTasks k = Some v \<and> (\<exists>n\<in>ns \<union> ns'. (n, k) \<in> (dep_step allTasks)\<^sup>*)"
    if k: "omap_find c k = Some v" "omap_find a k = None" for k v
  proof (cases "omap_find b k")
    case None
    with addedD [OF assms(2) k(1)] show ?thesis by blast
  next
    case (Some w)
    with addedD [OF assms(1) Some k(2)] sub_mapD [OF sub(2) Some] k(1) show ?thesis by auto
  qed
  then show ?thesis using om sub_map_trans [OF sub] by (simp add: added_def)
qed

lemma complete_trans:
  assumes "complete_for a ns b" and "complete_for b ns' c" and sub: "sub_map b c"
  shows "complete_for a (ns \<union> ns') c"
proof -
  have keep: "omap_find b x \<noteq> None \<Longrightarrow> omap_find c x \<noteq> None" for x using sub by (auto simp: sub_map_def)
  have "\<exists>t. v = Some t \<and> (\<forall>p\<in>set (st_dependencies t). omap_find c p \<noteq> None)"
    if k: "omap_find c k = Some v" "omap_find a k = None" for k v
  proof (cases "omap_find b k")
    case None
    with complete_forD [OF assms(2) k(1)] show ?thesis by blast
  next
    case (Some w)
    then have "w = v" using k(1) sub_mapD [OF sub Some] by simp
    with complete_forD [OF assms(1) Some k(2)] keep show ?thesis by blast
  qed
  then show ?thesis using assms(1,2) keep by (auto simp: complete_for_def)
qed

lemma complete_more: "complete_for a ns b \<Longrightarrow> omap_find b n \<noteq> None \<Longrightarrow> complete_for a (insert n ns) b"
  by (simp add: complete_for_def)

lemma added_more: "added allTasks a ns b \<Longrightarrow> ns \<subseteq> ns' \<Longrightarrow> added allTasks a ns' b"
  by (fastforce simp: added_def)

lemma addAll_spec:
  assumes "registry_ok allTasks"
  shows "omap_inv m \<Longrightarrow> \<forall>d\<in>set ds. omap_find allTasks d \<noteq> None \<Longrightarrow>
    \<exists>m'. addAll stop ds allTasks m = (ERR_OK, m') \<and> added allTasks m (set ds) m' \<and> complete_for m (set ds) m'"
proof (induction ds arbitrary: m)
  case Nil
  then show ?case by (simp add: added_refl complete_for_def)
next
  case (Cons d ds)
  show ?case
  proof (cases "omap_find m d")
    case None
    obtain ret m1 where one: "AddStartupTask d m allTasks = (ret, m1)" by (cases "AddStartupTask d m allTasks")
    note sp = AddStartupTask_spec [OF Cons.prems(1) one]
    have ok: "ret = ERR_OK" using sp registry_not_lacking [OF assms, of "{d}"] Cons.prems(2) by auto
    have "omap_inv m1" using sp by (simp add: added_def)
    from Cons.IH [OF this] Cons.prems(2) obtain m' where
      r: "addAll stop ds allTasks m1 = (ERR_OK, m')" "added allTasks m1 (set ds) m'" "complete_for m1 (set ds) m'" by auto
    have "sub_map m1 m'" using r(2) by (simp add: added_def)
    with added_trans [of allTasks m "{d}" m1 "set ds" m'] complete_trans [of m "{d}" m1 "set ds" m'] sp r ok one None
    show ?thesis by simp
  next
    case (Some v)
    with Cons.IH [OF Cons.prems(1)] Cons.prems(2) obtain m' where
      r: "addAll stop ds allTasks m = (ERR_OK, m')" "added allTasks m (set ds) m'" "complete_for m (set ds) m'" by auto
    have "omap_find m' d \<noteq> None" using Some r(2) by (auto simp: added_def sub_map_def)
    with complete_more [OF r(3)] added_more [OF r(2), of "set (d # ds)"] r(1) Some show ?thesis by auto
  qed
qed


lemma set_insort_fold: "set (fold insort_insert xs ys) = set xs \<union> set ys"
  by (induction xs arbitrary: ys) (auto simp: set_insort_insert)

lemma inputLoop_spec:
  "inputLoop sf allTasks names m ds ps = (ERR_OK, m', ds', ps') \<Longrightarrow> omap_inv m \<Longrightarrow> sub_map m allTasks \<Longrightarrow>
     omap_inv m' \<and> sub_map m' allTasks \<and>
     (\<forall>k. omap_find m' k \<noteq> None \<longleftrightarrow> omap_find m k \<noteq> None \<or> k \<in> set names \<and> omap_find allTasks k \<noteq> None) \<and>
     (\<forall>p. p \<in> set ds' \<longleftrightarrow> p \<in> set ds \<or>
        (\<exists>k\<in>set names. \<exists>t. omap_find allTasks k = Some (Some t) \<and> p \<in> set (st_dependencies t))) \<and>
     set ps' = set ps \<union> {k \<in> set names. omap_find allTasks k = None}"
proof (induction sf allTasks names m ds ps rule: inputLoop.induct)
  case (2 sf allTasks n names m ds ps)
  consider (missing) "omap_find allTasks n = None" | (null) "omap_find allTasks n = Some None"
    | (task) t where "omap_find allTasks n = Some (Some t)" by (cases "omap_find allTasks n") auto
  then show ?case
  proof cases
    case missing
    with "2.IH"(1) [OF missing] "2.prems" show ?thesis by auto
  next
    case null
    with "2.prems" show ?thesis by (auto simp: startup_codes)
  next
    case (task t)
    then have nf: "\<not> (\<not> sf \<and> at_moduleType (appPart t) = MT_FEATURE)"
      and rec: "inputLoop sf allTasks names (omap_emplace n (Some t) m) (fold insort_insert (st_dependencies t) ds) ps = (ERR_OK, m', ds', ps')"
      using "2.prems"(1) by (auto simp: startup_codes split: if_splits)
    have sub: "sub_map (omap_emplace n (Some t) m) allTasks"
      using "2.prems"(2,3) task by (auto simp: sub_map_def find_omap_emplace)
    from "2.IH"(2) [OF task refl nf rec omap_inv_emplace [OF "2.prems"(2)] sub] task show ?thesis
      by (auto simp: find_omap_emplace [OF "2.prems"(2)] set_insort_fold)
  qed
qed auto

lemma preloadLoop_nonempty:
  "preloadLoop allTasks names m ds = (ERR_OK, m', ds') \<Longrightarrow> names \<noteq> [] \<or> m \<noteq> [] \<Longrightarrow> m' \<noteq> []"
proof (induction allTasks names m ds rule: preloadLoop.induct)
  case (2 allTasks n names m ds)
  have "omap_emplace n v m \<noteq> []" for v
  proof -
    have "omap_find (omap_emplace n v m) n \<noteq> None" by (simp add: find_emplace)
    then show ?thesis by auto
  qed
  with 2 show ?case by (auto simp: startup_codes split: option.splits)
qed auto

lemma addAll_nonempty: "addAll stop ds allTasks m = (ret, m') \<Longrightarrow> omap_inv m \<Longrightarrow> m \<noteq> [] \<Longrightarrow> m' \<noteq> []"
proof (induction ds arbitrary: m)
  case (Cons d ds)
  obtain r1 m1 where one: "AddStartupTask d m allTasks = (r1, m1)" by (cases "AddStartupTask d m allTasks")
  have a: "added allTasks m {d} m1" using AddStartupTask_spec [OF Cons.prems(2) one] by simp
  obtain e m0 where "m = e # m0" using Cons.prems(3) by (cases m) auto
  then have "omap_find m (fst e) = Some (snd e)" by simp
  then have "m1 \<noteq> []" using a by (auto simp: added_def sub_map_def)
  moreover have "omap_inv m1" using a by (simp add: added_def)
  ultimately show ?case using Cons one by (auto split: if_splits)
qed simp

lemma preloadLoop_inv: "preloadLoop allTasks names m ds = (ret, m', ds') \<Longrightarrow> omap_inv m \<Longrightarrow> omap_inv m'"
  by (induction allTasks names m ds rule: preloadLoop.induct) (auto simp: omap_inv_emplace split: option.splits)

lemma AddAppPreloadSoTask_ok:
  assumes "AddAppPreloadSoTask s names m = (ERR_OK, m', pre)"
  shows "m' = (if names = [] then m
          else omap_emplace APP_PRELOAD_SO_TASK
                 (Some ((newStartupTask APP_PRELOAD_SO_TASK)\<lparr>st_waitOnMainThread := False\<rparr>)) m)"
proof (cases "names = []")
  case True
  with assms show ?thesis by (auto simp: AddAppPreloadSoTask_def)
next
  case False
  obtain tasks ds where l: "preloadLoop (sm_preloadSoStartupTasks s) names [] [] = (ERR_OK, tasks, ds)"
    using assms by (auto simp: AddAppPreloadSoTask_def Let_def split: prod.splits if_splits)
  obtain r tasks' where a: "addAll True ds (sm_preloadSoStartupTasks s) tasks = (r, tasks')" by (metis prod.exhaust)
  have "tasks \<noteq> []" using preloadLoop_nonempty [OF l] False by simp
  then have "tasks' \<noteq> []" using addAll_nonempty [OF a] preloadLoop_inv [OF l] by simp
  with assms l a False show ?thesis by (auto simp: AddAppPreloadSoTask_def Let_def split: if_splits)
qed


text \<open>Well-formed task maps, by their lookups.\<close>

lemma well_named_find:
  "omap_inv m \<Longrightarrow> well_named m \<longleftrightarrow> (\<forall>k v. omap_find m k = Some v \<longrightarrow> (\<exists>t. v = Some t \<and> st_name t = k))"
  by (auto simp: well_named_def omap_find_iff split: option.splits) blast+

lemma tasks_of_find: "well_named m \<Longrightarrow> t \<in> set (tasks_of m) \<longleftrightarrow> (\<exists>k. omap_find m k = Some (Some t))"
  by (force simp: tasks_of_def well_named_def omap_find_iff split: option.splits)

lemma deps_found_find:
  assumes "well_named m"
  shows "deps_found m \<longleftrightarrow> (\<forall>k t. omap_find m k = Some (Some t) \<longrightarrow> (\<forall>p\<in>set (st_dependencies t). omap_find m p \<noteq> None))"
proof -
  have key: "p \<in> set (map fst m) \<longleftrightarrow> omap_find m p \<noteq> None" for p by (simp add: map_of_eq_None_iff)
  show ?thesis unfolding deps_found_def subset_iff key
    by (intro iffI ballI allI impI) (metis tasks_of_find [OF assms])+
qed

lemma small_deps_find:
  "omap_inv m \<Longrightarrow> small_deps m \<longleftrightarrow> (\<forall>k t. omap_find m k = Some (Some t) \<longrightarrow> length (st_dependencies t) < 2 ^ 32)"
  by (force simp: small_deps_def omap_find_iff split: option.splits)

lemma keys_length:
  assumes "omap_inv m" and "omap_inv m'" and "\<forall>k. omap_find m k \<noteq> None \<longrightarrow> k \<in> insert x (fst ` set m')"
  shows "length m \<le> length m' + 1"
proof -
  have "fst ` set m \<subseteq> insert x (fst ` set m')" using assms(3) by (simp add: map_of_eq_None_iff subset_iff)
  then have "card (fst ` set m) \<le> card (insert x (fst ` set m'))" by (intro card_mono) auto
  also have "\<dots> \<le> card (fst ` set m') + 1" by (simp add: card_insert_if)
  finally show ?thesis
    using assms(1,2) omap_inv_distinct [of m] omap_inv_distinct [of m'] distinct_card [of "map fst m"] distinct_card [of "map fst m'"]
    by simp
qed

definition preloadTask :: "startup_task option" where
  "preloadTask = Some ((newStartupTask APP_PRELOAD_SO_TASK)\<lparr>st_waitOnMainThread := False\<rparr>)"

text \<open>The tasks collected from the registry: the requested ones and everything they depend on.\<close>

lemma collected_tasks:
  assumes reg: "registry_ok allTasks" and i: "inputLoop sf allTasks names [] [] [] = (ERR_OK, m, ds, ps)"
    and a: "addAll False ds allTasks m = (ret, m')"
  shows "omap_inv m' \<and> sub_map m' allTasks \<and>
    (\<forall>k t. omap_find m' k = Some (Some t) \<longrightarrow> (\<forall>p\<in>set (st_dependencies t). omap_find m' p \<noteq> None)) \<and>
    (\<forall>k. omap_find m' k \<noteq> None \<longleftrightarrow>
       (\<exists>n\<in>set names. omap_find allTasks n \<noteq> None \<and> (n, k) \<in> (dep_step allTasks)\<^sup>*))"
proof -
  from inputLoop_spec [OF i] have om: "omap_inv m" and sub: "sub_map m allTasks"
    and keys: "\<forall>k. omap_find m k \<noteq> None \<longleftrightarrow> k \<in> set names \<and> omap_find allTasks k \<noteq> None"
    and ds: "\<forall>p. p \<in> set ds \<longleftrightarrow> (\<exists>k\<in>set names. \<exists>t. omap_find allTasks k = Some (Some t) \<and> p \<in> set (st_dependencies t))"
    by (auto simp: sub_map_def)
  have "\<forall>d\<in>set ds. omap_find allTasks d \<noteq> None"
    using ds reg deps_found_find by (fastforce simp: registry_ok_def)
  from addAll_spec [OF reg om this, of False] a have ad: "added allTasks m (set ds) m'" and c: "complete_for m (set ds) m'" by auto
  have sub': "sub_map m' allTasks"
    unfolding sub_map_def
  proof (intro allI impI)
    fix k v assume k: "omap_find m' k = Some v"
    show "omap_find allTasks k = Some v"
    proof (cases "omap_find m k")
      case None
      with addedD(1) [OF ad k] show ?thesis by simp
    next
      case (Some w)
      then have "omap_find m' k = Some w" using ad by (auto simp: added_def sub_map_def)
      with k sub_mapD [OF sub Some] show ?thesis by simp
    qed
  qed
  have closed: "omap_find m' p \<noteq> None" if k: "omap_find m' k = Some (Some t)" "p \<in> set (st_dependencies t)" for k t p
  proof (cases "omap_find m k")
    case None
    with complete_forD [OF c k(1)] k(2) show ?thesis by auto
  next
    case (Some w)
    then have "k \<in> set names" using keys by blast
    then have "p \<in> set ds" using ds k(2) sub_mapD [OF sub' k(1)] by blast
    with c show ?thesis by (simp add: complete_for_def)
  qed
  have from_names: "\<exists>n\<in>set names. omap_find allTasks n \<noteq> None \<and> (n, k) \<in> (dep_step allTasks)\<^sup>*" if k: "omap_find m' k \<noteq> None" for k
  proof (cases "omap_find m k")
    case None
    then obtain d where d: "d \<in> set ds" "(d, k) \<in> (dep_step allTasks)\<^sup>*" using addedD(2) [OF ad] k by blast
    then obtain n t where "n \<in> set names" "omap_find allTasks n = Some (Some t)" "d \<in> set (st_dependencies t)" using ds by blast
    with dep_step_start [of allTasks n t d k] d(2) show ?thesis by auto
  next
    case (Some w)
    with keys show ?thesis by blast
  qed
  have to_map: "omap_find m' k \<noteq> None" if n: "n \<in> set names" "omap_find allTasks n \<noteq> None" and nk: "(n, k) \<in> (dep_step allTasks)\<^sup>*" for n k
    using nk
  proof (induction rule: rtrancl_induct)
    case base
    have "omap_find m n \<noteq> None" using keys n by simp
    then show ?case using ad by (auto simp: added_def sub_map_def)
  next
    case (step x y)
    then obtain t where "omap_find allTasks x = Some (Some t)" "y \<in> set (st_dependencies t)" by (auto simp: dep_step_def)
    moreover obtain v where "omap_find m' x = Some v" using step by auto
    ultimately show ?case using closed [of x t y] sub_mapD [OF sub'] by fastforce
  qed
  show ?thesis using ad sub' closed from_names to_map by (auto simp: added_def)
qed

text \<open>The map a manager is made with: the collected tasks, with the preload task when there are names
  that are not tasks of the application.\<close>

lemma manager_tasks_ok:
  assumes reg: "registry_ok allTasks" "small_deps allTasks" "length allTasks + 1 < 2 ^ 32"
    and om: "omap_inv m" and sub: "sub_map m allTasks"
    and closed: "\<forall>k t. omap_find m k = Some (Some t) \<longrightarrow> (\<forall>p\<in>set (st_dependencies t). omap_find m p \<noteq> None)"
    and m': "m' = m \<or> m' = omap_emplace APP_PRELOAD_SO_TASK preloadTask m"
  shows "well_named m'" and "small_deps m'" and "deps_found m'" and "length m' < 2 ^ 32"
proof -
  have wn: "well_named allTasks" using reg(1) by (simp add: registry_ok_def)
  then have oma: "omap_inv allTasks" by (simp add: well_named_def)
  have om': "omap_inv m'" using m' omap_inv_emplace [OF om] by (elim disjE) (simp_all add: om)
  have new: "omap_find allTasks k = Some v \<or> k = APP_PRELOAD_SO_TASK \<and> v = preloadTask" if "omap_find m' k = Some v" for k v
    using that m' sub_mapD [OF sub, of k v] by (auto simp: find_omap_emplace [OF om] split: if_splits)
  have pre: "preloadTask = Some t \<Longrightarrow> st_name t = APP_PRELOAD_SO_TASK \<and> st_dependencies t = []" for t
    by (auto simp: preloadTask_def newStartupTask_def)
  have "\<exists>t. v = Some t \<and> st_name t = k" if v: "omap_find m' k = Some v" for k v
    using new [OF v]
  proof
    assume "omap_find allTasks k = Some v"
    then show ?thesis by (rule registry_find(2) [OF wn])
  qed (simp add: preloadTask_def newStartupTask_def)
  then show wn': "well_named m'" by (simp add: well_named_find [OF om'])
  show "small_deps m'" using reg(2) new pre unfolding small_deps_find [OF om'] small_deps_find [OF oma] by fastforce
  have keep: "omap_find m p \<noteq> None \<Longrightarrow> omap_find m' p \<noteq> None" for p using m' by (auto simp: find_omap_emplace [OF om])
  have old: "omap_find m k = Some v \<or> v = preloadTask" if "omap_find m' k = Some v" for k v
    using that m' by (auto simp: find_omap_emplace [OF om] split: if_splits)
  have "omap_find m' p \<noteq> None" if t: "omap_find m' k = Some (Some t)" and p: "p \<in> set (st_dependencies t)" for k t p
    using old [OF t]
  proof
    assume "omap_find m k = Some (Some t)"
    then show ?thesis using closed p by (intro keep) blast
  qed (use p pre [of t] in simp)
  then show "deps_found m'" by (simp add: deps_found_find [OF wn'])
  have keys: "k \<in> fst ` set allTasks" if "omap_find allTasks k = Some v" for k v
    using that registry_find(1) [OF wn, of k] by simp
  have "\<forall>k. omap_find m' k \<noteq> None \<longrightarrow> k \<in> insert APP_PRELOAD_SO_TASK (fst ` set allTasks)"
  proof (intro allI impI)
    fix k assume "omap_find m' k \<noteq> None"
    then obtain v where "omap_find m' k = Some v" by auto
    from new [OF this] keys show "k \<in> insert APP_PRELOAD_SO_TASK (fst ` set allTasks)" by blast
  qed
  from keys_length [OF om' oma this] reg(3) show "length m' < 2 ^ 32" by simp
qed

lemma Prepare_spec:
  assumes "well_named (tm_tasks tm)" "small_deps (tm_tasks tm)" "length (tm_tasks tm) < 2 ^ 32" "deps_found (tm_tasks tm)"
  shows "\<exists>sr. Prepare tm = Some (Inr
    (if \<not> acyclic (task_rel (tm_tasks tm))
     then (ERR_STARTUP_CIRCULAR_DEPENDENCY, CallListenerOnCompleted ERR_STARTUP_CIRCULAR_DEPENDENCY '''' tm)
     else if tm_tasks tm = [] then (ERR_STARTUP_INTERNAL_ERROR, tm)
     else (ERR_OK, tm\<lparr>tm_dispatcher := Some (newDispatcher (tm_tasks tm) (Some sr))\<rparr>))) \<and>
    (tm_tasks tm \<noteq> [] \<and> acyclic (task_rel (tm_tasks tm)) \<longrightarrow> prepared (tm_tasks tm) sr)"
proof -
  from Sort_spec [OF assms(1-3)] assms(4) obtain code sr where
    s: "Sort (tm_tasks tm) = Some (Inr (code, sr))"
      "code = (if acyclic (task_rel (tm_tasks tm)) then ERR_OK else ERR_STARTUP_CIRCULAR_DEPENDENCY)"
      "code = ERR_OK \<longrightarrow> sort_result_ok (tm_tasks tm) sr" by auto
  then show ?thesis using assms
    by (intro exI [of _ sr]) (auto simp: Prepare_def prepared_def startup_codes)
qed

lemma BuildApp_tasks:
  assumes reg: "registry_ok (sm_appStartupTasks s)" "small_deps (sm_appStartupTasks s)"
      "length (sm_appStartupTasks s) + 1 < 2 ^ 32"
    and b: "BuildAppStartupTaskManager names sf s = (ERR_OK, Some tm, s')"
  shows "well_named (tm_tasks tm)" and "small_deps (tm_tasks tm)" and "deps_found (tm_tasks tm)"
    and "length (tm_tasks tm) < 2 ^ 32"
    and "fst ` set (tm_tasks tm) =
      {k. \<exists>n\<in>set names. omap_find (sm_appStartupTasks s) n \<noteq> None \<and> (n, k) \<in> (dep_step (sm_appStartupTasks s))\<^sup>*} \<union>
      (if \<exists>n\<in>set names. omap_find (sm_appStartupTasks s) n = None then {APP_PRELOAD_SO_TASK} else {})"
proof -
  let ?all = "sm_appStartupTasks s"
  obtain m ds ps where i: "inputLoop sf ?all names [] [] [] = (ERR_OK, m, ds, ps)"
    using b by (auto simp: BuildAppStartupTaskManager_def Let_def split: prod.splits if_splits)
  obtain r m1 where a: "addAll False ds ?all m = (r, m1)" by (metis prod.exhaust)
  obtain m2 pre where p: "AddAppPreloadSoTask s ps m1 = (ERR_OK, m2, pre)" and tm: "tm_tasks tm = m2"
    using b i a by (auto simp: BuildAppStartupTaskManager_def storeManager_def newTaskManager_def Let_def split: prod.splits if_splits)
  note col = collected_tasks [OF reg(1) i a]
  have om: "omap_inv m1" and m2: "m2 = (if ps = [] then m1 else omap_emplace APP_PRELOAD_SO_TASK preloadTask m1)"
    using col AddAppPreloadSoTask_ok [OF p] by (simp_all add: preloadTask_def)
  have "set ps = {k \<in> set names. omap_find ?all k = None}" using inputLoop_spec [OF i] by (auto simp: sub_map_def)
  then have ps: "ps = [] \<longleftrightarrow> \<not> (\<exists>n\<in>set names. omap_find ?all n = None)" using set_empty [of ps] by auto
  have "k \<in> fst ` set m2 \<longleftrightarrow> omap_find m2 k \<noteq> None" for k by (simp add: map_of_eq_None_iff)
  then have "k \<in> fst ` set m2 \<longleftrightarrow> omap_find m1 k \<noteq> None \<or> ps \<noteq> [] \<and> k = APP_PRELOAD_SO_TASK" for k
    using m2 find_emplace [of APP_PRELOAD_SO_TASK preloadTask m1 k] by auto
  then have "fst ` set m2 = {k. omap_find m1 k \<noteq> None} \<union> (if ps \<noteq> [] then {APP_PRELOAD_SO_TASK} else {})" by (intro set_eqI) auto
  also have "{k. omap_find m1 k \<noteq> None} = {k. \<exists>n\<in>set names. omap_find ?all n \<noteq> None \<and> (n, k) \<in> (dep_step ?all)\<^sup>*}"
    using col by (intro Collect_cong) blast
  finally show "fst ` set (tm_tasks tm) = {k. \<exists>n\<in>set names. omap_find ?all n \<noteq> None \<and> (n, k) \<in> (dep_step ?all)\<^sup>*} \<union>
      (if \<exists>n\<in>set names. omap_find ?all n = None then {APP_PRELOAD_SO_TASK} else {})" unfolding tm ps by simp
  show "well_named (tm_tasks tm)" "small_deps (tm_tasks tm)" "deps_found (tm_tasks tm)" "length (tm_tasks tm) < 2 ^ 32"
    using manager_tasks_ok [OF reg om, of m2] col m2 tm by auto
qed

section \<open>Main results\<close>

text \<open>\<open>AddStartupTask\<close> always ends.  On success the map has grown by tasks reachable from \<open>name\<close> only, it
  has \<open>name\<close>, and every task that came in has all its dependencies there; it fails only when
  something reachable from \<open>name\<close> is not a registered task.\<close>

theorem AddStartupTask_exact:
  assumes om: "omap_inv taskMap" and r: "AddStartupTask name taskMap allTasks = (ret, m)"
  shows "added allTasks taskMap {name} m \<and> (ret = ERR_OK \<longrightarrow> complete_for taskMap {name} m) \<and>
         (ret \<noteq> ERR_OK \<longrightarrow> lacking allTasks {name})"
  using AddStartupTask_spec [OF assms] .



text \<open>C12: Whatever the tasks do, a run that returns an error tells the listener exactly once, and one that
  returns success at most once; the manager is reported complete as often as the listener is told.\<close>

theorem Run_tells_listener:
  assumes "prepared m sr" and "fresh_tasks m" and "fresh_callback acb"
    and "tm_tasks tm = m" and "tm_dispatcher tm = Some (newDispatcher m (Some sr))"
    and "tm_config tm = Some config" and "sc_hasListener config" and "tm_told tm = []" and "tm_completed tm = 0"
  shows "\<exists>ret tm'. tm_Run (RunTaskInit beh (length m)) acb tm = Some (ret, tm') \<and>
           length (tm_told tm') \<le> 1 \<and> (ret \<noteq> ERR_OK \<longrightarrow> length (tm_told tm') = 1) \<and>
           tm_completed tm' = length (tm_told tm')"
proof -
  have run: "runner_spec False m sr (length m) (RunTaskInit beh (length m))" by (rule RunTaskInit_spec [OF assms(1)]) simp
  have "fresh_callback (Some newOnCompleted)" by code_simp
  from Run_spec [OF assms(1,2) this assms(3) _ run] obtain ret d where
    R: "Run (RunTaskInit beh (length m)) (Some newOnCompleted) acb (newDispatcher m (Some sr)) = Some (ret, d)"
    and inv: "disp_inv False m sr {} {} {} {} d" by auto
  have told: "told_once (dp_completedCallback d) (set (task_names m) \<subseteq> finished (dp_log d))"
    using disp_invD(3) [OF inv] by (auto simp: inv_count_def intro: reports_told)
  define calls where "calls = (case dp_completedCallback d of None \<Rightarrow> [] | Some cb \<Rightarrow> oc_calls cb)"
  have "calls = [] \<or> (\<exists>r. calls = [r])"
    using told by (cases "dp_completedCallback d") (auto simp: calls_def told_once_def le_Suc_eq length_Suc_conv)
  then show ?thesis using R assms(4-)
    by (auto simp: tm_Run_def Let_def calls_def [symmetric] onCompleted_def CallListenerOnCompleted_def
        CancelAsyncTimeoutTimer_def AddAsyncTimeoutTimer_def)
qed


section \<open>A small request\<close>

text \<open>A task of the application and a library, by name.\<close>

definition exManager :: startup_manager where
  "exManager = \<lparr>sm_preloadSoStartupTasks = [exTask ''libx'' []], sm_appStartupTasks = exTasks, sm_nextId = 0,
     sm_managers = [], sm_defaultConfig = Some \<lparr>sc_awaitTimeoutMs = 10000, sc_hasListener = True, sc_customization = ''''\<rparr>,
     sm_moduleConfigs = []\<rparr>"

definition exBuilt :: task_manager where
  "exBuilt = the (fst (snd (BuildAppStartupTaskManager [''so_a'', ''libx''] True exManager)))"

definition exAfter :: startup_manager where
  "exAfter = snd (snd (BuildAppStartupTaskManager [''so_a'', ''libx''] True exManager))"

lemma exBuilt_result: "BuildAppStartupTaskManager [''so_a'', ''libx''] True exManager = (ERR_OK, Some exBuilt, exAfter)"
  by code_simp

lemma exRegistry: "registry_ok (sm_appStartupTasks exManager)" "small_deps (sm_appStartupTasks exManager)"
  "length (sm_appStartupTasks exManager) + 1 < 2 ^ 32" "omap_inv ([] :: task_map)"
  using exTasks_wf exTasks_fresh(5) by (simp_all add: exManager_def registry_ok_def)

theorem AddStartupTask_exact_witness:
  "complete_for [] {''so_b''} (snd (AddStartupTask ''so_b'' [] exTasks)) \<and>
   added exTasks [] {''so_b''} (snd (AddStartupTask ''so_b'' [] exTasks))"
proof -
  have "AddStartupTask ''so_b'' [] exTasks = (ERR_OK, snd (AddStartupTask ''so_b'' [] exTasks))" by code_simp
  from AddStartupTask_exact [OF exRegistry(4) this] show ?thesis by simp
qed


definition exReady :: task_manager where
  "exReady = (newTaskManager 0 exTasks)\<lparr>tm_config := sm_defaultConfig exManager,
     tm_dispatcher := Some (newDispatcher exTasks (Some exSort))\<rparr>"

text \<open>A task that fails while it is started.\<close>

definition exFails :: "string \<Rightarrow> init_outcome" where
  "exFails k = InitSync (Some \<lparr>resultCode = 5, resultMessage = ''failed''\<rparr>) 5"

theorem Run_tells_listener_witness:
  "\<exists>ret tm'. tm_Run (RunTaskInit exFails (length exTasks)) None exReady = Some (ret, tm') \<and>
     ret \<noteq> ERR_OK \<and> length (tm_told tm') = 1"
proof -
  have pr: "prepared exTasks exSort" by (rule sorted_prepared [OF exTasks_wf(1,2,3,5) exTasks_sort])
  have cb: "fresh_callback None" by code_simp
  have "\<exists>ret tm'. tm_Run (RunTaskInit exFails (length exTasks)) None exReady = Some (ret, tm') \<and> length (tm_told tm') \<le> 1 \<and>
     (ret \<noteq> ERR_OK \<longrightarrow> length (tm_told tm') = 1) \<and> tm_completed tm' = length (tm_told tm')"
    by (rule Run_tells_listener [OF pr exTasks_fresh(1) cb]) (simp_all add: exReady_def newTaskManager_def exManager_def)+
  moreover have "map_option fst (tm_Run (RunTaskInit exFails (length exTasks)) None exReady) = Some 5" by code_simp
  ultimately show ?thesis by (auto simp: startup_codes ERR_OK_def)
qed


section \<open>A library with a malformed url\<close>

definition soTask :: "string \<Rightarrow> task_map" where
  "soTask n = [(n, Some (newStartupTask n))]"

definition soManager :: "string \<Rightarrow> task_manager" where
  "soManager n = (newTaskManager 0 (soTask n))\<lparr>
     tm_config := Some \<lparr>sc_awaitTimeoutMs = -1, sc_hasListener = False, sc_customization = ''''\<rparr>,
     tm_dispatcher := Some (newDispatcher (soTask n) (Some \<lparr>sr_startupChildrenMap = [(n, [])], sr_zeroDequeResult = [n]\<rparr>))\<rparr>"

lemmas one_task_run = Run_def newDispatcher_def Let_def runCreated_def taskAt_def setTask_def logEv_def RunTaskPreInit_def
  newStartupTask_def callAwait_def callCompleted_def

lemma soTask_dropped:
  assumes "beh n = InitDropped ERR_OK"
  shows "\<exists>d. Run (RunTaskInit beh (Suc 0)) (Some newOnCompleted) None
      (newDispatcher (soTask n) (Some \<lparr>sr_startupChildrenMap = [(n, [])], sr_zeroDequeResult = [n]\<rparr>)) = Some (ERR_OK, d) \<and>
    dp_completedCallback d = Some newOnCompleted"
  using assms by (simp add: soTask_def one_task_run)

lemma soTask_sync:
  assumes "beh n = InitSync (Some \<lparr>resultCode = ERR_OK, resultMessage = ''''\<rparr>) ERR_OK"
  shows "\<exists>d. Run (RunTaskInit beh (Suc 0)) (Some newOnCompleted) None
      (newDispatcher (soTask n) (Some \<lparr>sr_startupChildrenMap = [(n, [])], sr_zeroDequeResult = [n]\<rparr>)) = Some (ERR_OK, d) \<and>
    dp_completedCallback d = Some (OnCompleted_Call \<lparr>resultCode = ERR_OK, resultMessage = ''''\<rparr> newOnCompleted)"
  using assms
  by (simp add: soTask_def one_task_run callbackCall_def taskCompleted_def SaveResult_def Dispatch_def NotifyChildren_def countDown_def)

text \<open>When the url of a library cannot be parsed, its task drops the callback and returns success: the
  manager of the libraries, which has no timer, returns success and is never completed.  With a url
  that can be parsed and a library that is found it is completed once.\<close>

theorem PreloadSo_bad_url_silent:
  assumes "ParseOhmUrl ohmUrl = Inr (code, soName)"
    and "PreloadSo_RunTaskInit (Some (\<lambda>so p. True)) ohmUrl path = Inr (beh n)"
  shows "\<exists>tm. tm_Run (RunTaskInit beh (length (soTask n))) None (soManager n) = Some (ERR_OK, tm) \<and> \<not> tm_timer tm \<and>
           tm_completed tm = (if code = ERR_OK then 1 else 0)"
proof (cases "code = ERR_OK")
  case True
  then have "beh n = InitSync (Some \<lparr>resultCode = ERR_OK, resultMessage = ''''\<rparr>) ERR_OK"
    using assms by (simp add: PreloadSo_RunTaskInit_def)
  from soTask_sync [of beh, OF this] True show ?thesis
    by (auto simp: tm_Run_def soManager_def newTaskManager_def AddAsyncTimeoutTimer_def OnCompleted_Call_def newOnCompleted_def
        onCompleted_def CallListenerOnCompleted_def CancelAsyncTimeoutTimer_def Let_def soTask_def)
next
  case False
  then have "beh n = InitDropped ERR_OK" using assms by (simp add: PreloadSo_RunTaskInit_def)
  from soTask_dropped [of beh, OF this] False show ?thesis
    by (auto simp: tm_Run_def soManager_def newTaskManager_def AddAsyncTimeoutTimer_def newOnCompleted_def Let_def soTask_def)
qed

theorem PreloadSo_bad_url_silent_witness:
  "\<exists>tm. tm_Run (RunTaskInit (\<lambda>k. InitDropped ERR_OK) (length (soTask ''libx''))) None (soManager ''libx'') = Some (ERR_OK, tm) \<and>
     tm_completed tm = 0"
proof -
  have "case ParseOhmUrl ''libx.so'' of Inr r \<Rightarrow> fst r \<noteq> ERR_OK | Inl e \<Rightarrow> False" by code_simp
  then obtain code so where p: "ParseOhmUrl ''libx.so'' = Inr (code, so)" and bad: "code \<noteq> ERR_OK"
    by (auto split: sum.splits)
  then have "PreloadSo_RunTaskInit (Some (\<lambda>so p. True)) ''libx.so'' ''entry'' = Inr (InitDropped ERR_OK)"
    by (simp add: PreloadSo_RunTaskInit_def)
  from PreloadSo_bad_url_silent [OF p, where beh = "\<lambda>k. InitDropped ERR_OK", OF this, of "''libx''"] bad show ?thesis by auto
qed

end
