(* ===== verification/Cache_Process.thy ===== *)
theory Cache_Process
  imports Ordered_Map "HOL-Library.Signed_Division"
begin

text \<open>
  The cache of idle application processes (\<open>services/appmgr/src/cache_process_manager.cpp\<close>).

  A process without abilities may be kept instead of killed: it is appended to a queue and to the set
  of cached processes of its application (bundle name and uid).  When the queue is longer than
  allowed, the processes at its front are killed.

  \<^item> A record of a running process is an address; \<open>cp_apps\<close> is the heap.  A \<open>std::set\<close> of records is ordered
    by address.
  \<^item> What the application manager is asked to do is logged in \<open>cp_calls\<close>.
  \<^item> \<open>ShrinkAndKillCache\<close> pops the front of the queue and goes on using the reference to it.  What reading
    such a reference gives is the parameter \<open>popped\<close>: \<open>dangling\<close> is the rule of the language (undefined
    behaviour), \<open>still_there\<close> an implementation that leaves the popped slot as it is.
\<close>

section \<open>The code\<close>

datatype support_state = UNSPECIFIED | SUPPORT | NOT_SUPPORT

text \<open>What the manager reads of a module: whether it has abilities, for each ability whether it is
  declared as an extension and as a service, for each extension whether it is a service.\<close>

record app_module =
  am_abilitiesEmpty :: bool
  am_abilityInfos :: "(bool \<times> bool) list"
  am_extensionInfos :: "bool list"

record app_running =
  ar_bundleName :: string
  ar_uid :: int
  ar_apiTargetVersion :: "int option"
  ar_modules :: "app_module option list"
  ar_isKeepAlive :: bool
  ar_isAttachedToStatusBar :: bool
  ar_hasParent :: bool
  ar_isTerminating :: bool
  ar_hasPriorityObject :: bool
  ar_hasUIAbilityLaunched :: bool
  ar_isUIExtension :: bool
  ar_enableProcessCache :: bool
  ar_supportState :: support_state
  ar_processCacheBlocked :: bool
  ar_isCaching :: bool

datatype cache_call =
  StateChanged nat bool  \<comment> \<open>\<open>OnAppCacheStateChanged\<close>, with \<open>APP_STATE_CACHED\<close> or \<open>APP_STATE_READY\<close>\<close>
| KillApplication nat
| ScheduleCache nat
| PostNotify nat

record cache_mgr =
  cp_maxProcCacheNum :: int
  cp_allowedCacheNum :: int
  cp_warmStartProcesEnable :: bool
  cp_shouldCheckApi :: bool
  cp_shouldCheckSupport :: bool
  cp_queue :: "nat list"
  cp_sameAppSet :: "(string, (int, nat list) omap) omap"
  cp_srvExtRecords :: "nat list"
  cp_srvExtCheckedFlag :: "nat list"
  cp_hasAppMgr :: bool
  cp_apps :: "nat \<Rightarrow> app_running"
  cp_running :: "nat option list"
  cp_calls :: "cache_call list"

text \<open>The constructor, with the values of the five system parameters.\<close>

definition newCacheProcessManager :: "int \<Rightarrow> bool \<Rightarrow> bool \<Rightarrow> bool \<Rightarrow> int \<Rightarrow> (nat \<Rightarrow> app_running) \<Rightarrow> cache_mgr" where
  "newCacheProcessManager maxNum checkApi checkSupport warm allowed apps =
     \<lparr>cp_maxProcCacheNum = maxNum,
      cp_allowedCacheNum = (if maxNum > 0 then maxNum else allowed),
      cp_warmStartProcesEnable = warm, cp_shouldCheckApi = checkApi, cp_shouldCheckSupport = checkSupport,
      cp_queue = [], cp_sameAppSet = [], cp_srvExtRecords = [], cp_srvExtCheckedFlag = [],
      cp_hasAppMgr = False, cp_apps = apps, cp_running = [], cp_calls = []\<rparr>"

definition RefreshCacheNum :: "int \<Rightarrow> cache_mgr \<Rightarrow> cache_mgr" where
  "RefreshCacheNum maxNum s = s\<lparr>cp_maxProcCacheNum := maxNum, cp_allowedCacheNum := maxNum\<rparr>"

definition QueryEnableProcessCache :: "cache_mgr \<Rightarrow> bool" where
  "QueryEnableProcessCache s \<longleftrightarrow> cp_maxProcCacheNum s > 0 \<or> cp_warmStartProcesEnable s"

definition setApp :: "nat \<Rightarrow> (app_running \<Rightarrow> app_running) \<Rightarrow> cache_mgr \<Rightarrow> cache_mgr" where
  "setApp p f s = s\<lparr>cp_apps := (cp_apps s)(p := f (cp_apps s p))\<rparr>"

definition SetProcessCaching :: "bool \<Rightarrow> nat \<Rightarrow> cache_mgr \<Rightarrow> cache_mgr" where
  "SetProcessCaching c p s = setApp p (\<lambda>a. a\<lparr>ar_isCaching := c\<rparr>) s"

definition logCall :: "cache_call \<Rightarrow> cache_mgr \<Rightarrow> cache_mgr" where
  "logCall c s = s\<lparr>cp_calls := cp_calls s @ [c]\<rparr>"

definition IsCachedProcess :: "nat option \<Rightarrow> cache_mgr \<Rightarrow> bool" where
  "IsCachedProcess appRecord s =
     (case appRecord of None \<Rightarrow> False | Some p \<Rightarrow> list_ex (\<lambda>tmpAppRecord. tmpAppRecord = p) (cp_queue s))"

definition AddToApplicationSet :: "nat \<Rightarrow> cache_mgr \<Rightarrow> cache_mgr" where
  "AddToApplicationSet p s =
     (let bundleName = ar_bundleName (cp_apps s p); uid = ar_uid (cp_apps s p);
          sets = (if omap_find (cp_sameAppSet s) bundleName = None
                  then omap_put bundleName [(uid, [p])] (cp_sameAppSet s) else cp_sameAppSet s);
          uidMap = omap_at [] bundleName sets
      in s\<lparr>cp_sameAppSet := omap_put bundleName
             (if omap_find uidMap uid = None then omap_put uid [p] uidMap
              else omap_put uid (insort_insert p (omap_at [] uid uidMap)) uidMap) sets\<rparr>)"

definition RemoveFromApplicationSet :: "nat \<Rightarrow> cache_mgr \<Rightarrow> cache_mgr" where
  "RemoveFromApplicationSet p s =
     (let bundleName = ar_bundleName (cp_apps s p); uid = ar_uid (cp_apps s p)
      in case omap_find (cp_sameAppSet s) bundleName of
           None \<Rightarrow> s
         | Some uidMap \<Rightarrow>
             (case omap_find uidMap uid of
                None \<Rightarrow> s
              | Some recordSet \<Rightarrow>
                  let recordSet = removeAll p recordSet;
                      uidMap = (if recordSet = [] then omap_erase uid uidMap else omap_put uid recordSet uidMap)
                  in s\<lparr>cp_sameAppSet := (if uidMap = [] then omap_erase bundleName (cp_sameAppSet s)
                                          else omap_put bundleName uidMap (cp_sameAppSet s))\<rparr>))"

fun removeLoop :: "nat \<Rightarrow> nat list \<Rightarrow> cache_mgr \<Rightarrow> nat list \<times> cache_mgr" where
  "removeLoop p [] s = ([], s)"
| "removeLoop p (q # qs) s =
     (if p = q then removeLoop p qs (RemoveFromApplicationSet q s)
      else let (rest, s) = removeLoop p qs s in (q # rest, s))"

definition RemoveCacheRecord :: "nat \<Rightarrow> cache_mgr \<Rightarrow> cache_mgr" where
  "RemoveCacheRecord p s = (let (queue, s) = removeLoop p (cp_queue s) s in s\<lparr>cp_queue := queue\<rparr>)"

definition KillProcessByRecord :: "nat \<Rightarrow> cache_mgr \<Rightarrow> bool \<times> cache_mgr" where
  "KillProcessByRecord p s =
     (if \<not> cp_hasAppMgr s then (False, s)
      else (True, logCall (KillApplication p) (logCall (StateChanged p False) (SetProcessCaching False p s))))"

text \<open>Reading a reference to an element that was popped.\<close>

definition dangling :: "nat \<Rightarrow> nat cpp" where
  "dangling p = Inl UseAfterErase"

definition still_there :: "nat \<Rightarrow> nat cpp" where
  "still_there p = Inr p"

text \<open>The loop; \<open>front\<close> of an empty deque is undefined as well.\<close>

fun shrinkLoop :: "(nat \<Rightarrow> nat cpp) \<Rightarrow> nat list \<Rightarrow> cache_mgr \<Rightarrow> nat list \<Rightarrow> (cache_mgr \<times> nat list) cpp" where
  "shrinkLoop popped [] s cleanList =
     (if 0 > cp_allowedCacheNum s then Inl OutOfRange else Inr (s\<lparr>cp_queue := []\<rparr>, cleanList))"
| "shrinkLoop popped (q # qs) s cleanList =
     (if int (length (q # qs)) > cp_allowedCacheNum s
      then cpp_bind (popped q) (\<lambda>tmpAppRecord.
             shrinkLoop popped qs (RemoveFromApplicationSet tmpAppRecord s) (cleanList @ [tmpAppRecord]))
      else Inr (s\<lparr>cp_queue := q # qs\<rparr>, cleanList))"

fun killAll :: "nat list \<Rightarrow> cache_mgr \<Rightarrow> cache_mgr cpp" where
  "killAll [] s = Inr s"
| "killAll (p # ps) s =
     cpp_bind (deref (ar_apiTargetVersion (cp_apps s p))) (\<lambda>appInfo. killAll ps (snd (KillProcessByRecord p s)))"

definition ShrinkAndKillCache :: "(nat \<Rightarrow> nat cpp) \<Rightarrow> cache_mgr \<Rightarrow> cache_mgr cpp" where
  "ShrinkAndKillCache popped s =
     (if cp_maxProcCacheNum s \<le> 0 \<and> \<not> cp_warmStartProcesEnable s then Inr s
      else cpp_bind (shrinkLoop popped (cp_queue s) s []) (\<lambda>(s, cleanList). killAll cleanList s))"

definition PenddingCacheProcess :: "(nat \<Rightarrow> nat cpp) \<Rightarrow> nat option \<Rightarrow> cache_mgr \<Rightarrow> (bool \<times> cache_mgr) cpp" where
  "PenddingCacheProcess popped appRecord s =
     (if \<not> QueryEnableProcessCache s then Inr (False, s)
      else case appRecord of
        None \<Rightarrow> Inr (False, s)
      | Some p \<Rightarrow>
          if IsCachedProcess (Some p) s then Inr (False, s)
          else if ar_isKeepAlive (cp_apps s p) then Inr (False, s)
          else let s = AddToApplicationSet p (s\<lparr>cp_queue := cp_queue s @ [p]\<rparr>);
                   s = (if cp_warmStartProcesEnable s then SetProcessCaching True p s else s)
               in cpp_bind (ShrinkAndKillCache popped s) (\<lambda>s. Inr (True, s)))"

definition IsAppAbilitiesEmpty :: "nat \<Rightarrow> cache_mgr \<Rightarrow> bool" where
  "IsAppAbilitiesEmpty p s \<longleftrightarrow>
     list_all (\<lambda>moduleRecord. case moduleRecord of None \<Rightarrow> True | Some mr \<Rightarrow> am_abilitiesEmpty mr) (ar_modules (cp_apps s p))"

text \<open>\<open>ApplicationInfo\<close> is read for the event report; the delayed task is posted under the name of the process.\<close>

definition CheckAndCacheProcess :: "nat option \<Rightarrow> cache_mgr \<Rightarrow> (bool \<times> cache_mgr) cpp" where
  "CheckAndCacheProcess appRecord s =
     (if \<not> QueryEnableProcessCache s then Inr (False, s)
      else case appRecord of
        None \<Rightarrow> Inr (False, s)
      | Some p \<Rightarrow>
          let s = SetProcessCaching False p s
          in if \<not> IsCachedProcess (Some p) s then Inr (False, s)
             else if \<not> IsAppAbilitiesEmpty p s then Inr (True, s)
             else let s = (if \<not> cp_warmStartProcesEnable s then logCall (ScheduleCache p) s else s)
                  in cpp_bind (deref (ar_apiTargetVersion (cp_apps s p))) (\<lambda>appInfo. Inr (True, logCall (PostNotify p) s)))"


definition CheckSupportState :: "nat \<Rightarrow> cache_mgr \<Rightarrow> bool" where
  "CheckSupportState p s =
     (case ar_supportState (cp_apps s p) of
        UNSPECIFIED \<Rightarrow> \<not> cp_shouldCheckSupport s
      | SUPPORT \<Rightarrow> True
      | NOT_SUPPORT \<Rightarrow> False)"

definition IsProcessSupportHotStart :: "nat \<Rightarrow> cache_mgr \<Rightarrow> bool" where
  "IsProcessSupportHotStart p s =
     (case ar_apiTargetVersion (cp_apps s p) of
        None \<Rightarrow> False
      | Some apiTargetVersion \<Rightarrow>
          let actualVer = apiTargetVersion smod 100
          in if cp_shouldCheckApi s \<and> actualVer < 12 then False
             else ar_hasUIAbilityLaunched (cp_apps s p) \<or> ar_isUIExtension (cp_apps s p))"

definition IsAppSupportProcessCacheInnerFirst :: "string \<Rightarrow> nat \<Rightarrow> cache_mgr \<Rightarrow> bool" where
  "IsAppSupportProcessCacheInnerFirst brokerBundle p s =
     (let a = cp_apps s p
      in if ar_bundleName a = brokerBundle then False
         else if ar_processCacheBlocked a then False
         else if cp_warmStartProcesEnable s \<and> \<not> ar_hasUIAbilityLaunched a \<and> \<not> ar_isUIExtension a then False
         else CheckSupportState p s)"

definition IsAppSupportProcessCache :: "string \<Rightarrow> nat option \<Rightarrow> cache_mgr \<Rightarrow> bool" where
  "IsAppSupportProcessCache brokerBundle appRecord s =
     (case appRecord of
        None \<Rightarrow> False
      | Some p \<Rightarrow>
          let a = cp_apps s p
          in if ar_isAttachedToStatusBar a then False
             else if ar_isKeepAlive a then False
             else if ar_hasParent a then False
             else if cp_maxProcCacheNum s > 0 \<and> \<not> IsProcessSupportHotStart p s then False
             else IsAppSupportProcessCacheInnerFirst brokerBundle p s)"

definition IsAppShouldCache :: "string \<Rightarrow> nat option \<Rightarrow> cache_mgr \<Rightarrow> bool" where
  "IsAppShouldCache brokerBundle appRecord s =
     (case appRecord of
        None \<Rightarrow> False
      | Some p \<Rightarrow>
          if ar_isTerminating (cp_apps s p) then False
          else if \<not> QueryEnableProcessCache s then False
          else if \<not> CheckSupportState p s then False
          else if IsCachedProcess (Some p) s \<and> \<not> ar_processCacheBlocked (cp_apps s p) then True
          else if \<not> IsAppSupportProcessCache brokerBundle (Some p) s then False
          else ar_enableProcessCache (cp_apps s p))"

text \<open>\<open>AppRunningManager::IsAppProcessesAllCached\<close>, over the running records.\<close>

definition IsAppProcessesAllCached :: "string \<Rightarrow> string \<Rightarrow> int \<Rightarrow> nat list \<Rightarrow> cache_mgr \<Rightarrow> bool" where
  "IsAppProcessesAllCached brokerBundle bundleName uid cachedSet s \<longleftrightarrow>
     cachedSet \<noteq> [] \<and>
     list_all (\<lambda>item. case item of
         None \<Rightarrow> True
       | Some itemRecord \<Rightarrow>
           if ar_bundleName (cp_apps s itemRecord) = bundleName \<and> ar_uid (cp_apps s itemRecord) = uid
           then let supportCache = IsAppSupportProcessCache brokerBundle (Some itemRecord) s
                in \<not> (itemRecord \<notin> set cachedSet \<and> supportCache \<or> \<not> supportCache)
           else True) (cp_running s)"

definition CheckAndNotifyCachedState :: "string \<Rightarrow> nat option \<Rightarrow> cache_mgr \<Rightarrow> bool \<times> cache_mgr" where
  "CheckAndNotifyCachedState brokerBundle appRecord s =
     (case appRecord of
        None \<Rightarrow> (False, s)
      | Some p \<Rightarrow>
          if \<not> cp_hasAppMgr s then (False, s)
          else let bundleName = ar_bundleName (cp_apps s p); uid = ar_uid (cp_apps s p)
               in case omap_find (cp_sameAppSet s) bundleName of
                    None \<Rightarrow> (False, s)
                  | Some uidMap \<Rightarrow>
                      (case omap_find uidMap uid of
                         None \<Rightarrow> (False, s)
                       | Some recordSet \<Rightarrow>
                           if recordSet = [] then (False, s)
                           else if \<not> IsAppProcessesAllCached brokerBundle bundleName uid recordSet s then (False, s)
                           else (True, logCall (StateChanged (hd recordSet) True) (SetProcessCaching False p s))))"

definition OnProcessKilled :: "string \<Rightarrow> nat option \<Rightarrow> cache_mgr \<Rightarrow> cache_mgr cpp" where
  "OnProcessKilled brokerBundle appRecord s =
     (if \<not> QueryEnableProcessCache s then Inr s
      else case appRecord of
        None \<Rightarrow> Inr s
      | Some p \<Rightarrow>
          let s = snd (CheckAndNotifyCachedState brokerBundle (Some p) s);
              s = s\<lparr>cp_srvExtRecords := removeAll p (cp_srvExtRecords s),
                    cp_srvExtCheckedFlag := removeAll p (cp_srvExtCheckedFlag s)\<rparr>
          in if \<not> IsCachedProcess (Some p) s then Inr s
             else let s = RemoveCacheRecord p s
                  in cpp_bind (deref (ar_apiTargetVersion (cp_apps s p))) (\<lambda>appInfo. Inr s))"

definition ReuseCachedProcess :: "nat option \<Rightarrow> cache_mgr \<Rightarrow> (bool \<times> cache_mgr) cpp" where
  "ReuseCachedProcess appRecord s =
     (if \<not> QueryEnableProcessCache s then Inr (False, s)
      else case appRecord of
        None \<Rightarrow> Inr (False, s)
      | Some p \<Rightarrow>
          if \<not> IsCachedProcess (Some p) s then Inr (False, s)
          else let s = RemoveCacheRecord p s
               in cpp_bind (deref (ar_apiTargetVersion (cp_apps s p))) (\<lambda>appInfo.
                    Inr (True, if \<not> cp_hasAppMgr s then s else logCall (StateChanged p False) s)))"

text \<open>\<open>forceKill\<close> is the answer of the resource scheduler for a process.\<close>

definition CheckAndSetProcessCacheEnable :: "(nat \<Rightarrow> bool) \<Rightarrow> nat option \<Rightarrow> cache_mgr \<Rightarrow> cache_mgr" where
  "CheckAndSetProcessCacheEnable forceKill appRecord s =
     (case appRecord of
        None \<Rightarrow> s
      | Some p \<Rightarrow>
          if \<not> cp_warmStartProcesEnable s then s
          else if ar_supportState (cp_apps s p) \<noteq> SUPPORT then s
          else if \<not> ar_enableProcessCache (cp_apps s p) then s
          else if \<not> ar_hasPriorityObject (cp_apps s p) then s
          else if ar_processCacheBlocked (cp_apps s p) then s
          else if forceKill p then setApp p (\<lambda>a. a\<lparr>ar_processCacheBlocked := True\<rparr>) s
          else s)"

definition PrepareActivateCache :: "nat option \<Rightarrow> cache_mgr \<Rightarrow> cache_mgr" where
  "PrepareActivateCache appRecord s =
     (if \<not> QueryEnableProcessCache s then s
      else case appRecord of
        None \<Rightarrow> s
      | Some p \<Rightarrow>
          if \<not> IsCachedProcess (Some p) s then s
          else if \<not> cp_hasAppMgr s then s
          else logCall (StateChanged p False) s)"

definition OnAppProcessCacheBlocked :: "nat option \<Rightarrow> cache_mgr \<Rightarrow> cache_mgr" where
  "OnAppProcessCacheBlocked appRecord s =
     (if \<not> QueryEnableProcessCache s then s
      else if \<not> IsCachedProcess appRecord s then s
      else case appRecord of
        None \<Rightarrow> s
      | Some p \<Rightarrow> snd (KillProcessByRecord p (RemoveCacheRecord p s)))"

definition serviceModule :: "app_module option \<Rightarrow> bool" where
  "serviceModule moduleRecord =
     (case moduleRecord of
        None \<Rightarrow> False
      | Some mr \<Rightarrow> list_ex (\<lambda>(extension, service). extension \<and> service) (am_abilityInfos mr) \<or> list_ex id (am_extensionInfos mr))"

definition IsAppContainsSrvExt :: "nat option \<Rightarrow> cache_mgr \<Rightarrow> bool \<times> cache_mgr" where
  "IsAppContainsSrvExt appRecord s =
     (case appRecord of
        None \<Rightarrow> (False, s)
      | Some p \<Rightarrow>
          if p \<in> set (cp_srvExtCheckedFlag s) then (p \<in> set (cp_srvExtRecords s), s)
          else let s = (if list_ex serviceModule (ar_modules (cp_apps s p))
                        then s\<lparr>cp_srvExtRecords := List.insert p (cp_srvExtRecords s)\<rparr> else s);
                   s = s\<lparr>cp_srvExtCheckedFlag := List.insert p (cp_srvExtCheckedFlag s)\<rparr>
               in (p \<in> set (cp_srvExtRecords s), s))"

definition cp_SetAppMgr :: "bool \<Rightarrow> cache_mgr \<Rightarrow> cache_mgr" where
  "cp_SetAppMgr appMgr s = s\<lparr>cp_hasAppMgr := appMgr\<rparr>"

section \<open>The sets of an application\<close>

definition cachedOf :: "cache_mgr \<Rightarrow> string \<Rightarrow> int \<Rightarrow> nat list option" where
  "cachedOf s b u = (case omap_find (cp_sameAppSet s) b of None \<Rightarrow> None | Some uidMap \<Rightarrow> omap_find uidMap u)"

definition sets_wf :: "cache_mgr \<Rightarrow> bool" where
  "sets_wf s \<longleftrightarrow> omap_inv (cp_sameAppSet s) \<and>
     (\<forall>b uidMap. omap_find (cp_sameAppSet s) b = Some uidMap \<longrightarrow> omap_inv uidMap \<and> uidMap \<noteq> [])"

definition sameApp :: "cache_mgr \<Rightarrow> nat \<Rightarrow> string \<Rightarrow> int \<Rightarrow> bool" where
  "sameApp s p b u \<longleftrightarrow> ar_bundleName (cp_apps s p) = b \<and> ar_uid (cp_apps s p) = u"

lemma sets_wfD: "sets_wf s \<Longrightarrow> omap_find (cp_sameAppSet s) b = Some um \<Longrightarrow> omap_inv um \<and> um \<noteq> []"
  by (simp add: sets_wf_def)

text \<open>The entry for a set of cached processes: ordered by address, and absent when it is empty.\<close>

definition listed :: "nat set \<Rightarrow> nat list option" where
  "listed A = (if A = {} then None else Some (sorted_list_of_set A))"

definition groups :: "cache_mgr \<Rightarrow> nat list \<Rightarrow> bool" where
  "groups s q \<longleftrightarrow> sets_wf s \<and> (\<forall>b u. cachedOf s b u = listed {p \<in> set q. sameApp s p b u})"

lemma listed_insert:
  assumes "finite A"
  shows "listed (insert p A) = Some (case listed A of None \<Rightarrow> [p] | Some l \<Rightarrow> insort_insert p l)"
proof -
  have "insort_insert p (sorted_list_of_set A) = sorted_list_of_set (insert p A)"
    using assms by (intro sorted_distinct_set_unique)
      (simp_all add: sorted_insort_insert distinct_insort_insert set_insort_insert del: sorted_list_of_set_insert_remove)
  then show ?thesis by (simp add: listed_def del: sorted_list_of_set_insert_remove)
qed

lemma listed_remove:
  assumes "finite A"
  shows "listed (A - {p}) = (case listed A of None \<Rightarrow> None | Some l \<Rightarrow> if removeAll p l = [] then None else Some (removeAll p l))"
proof -
  have "removeAll p (sorted_list_of_set A) = sorted_list_of_set (A - {p})"
    using assms by (intro sorted_distinct_set_unique) (auto simp: sorted_filter [of "\<lambda>x. x", simplified] removeAll_filter_not_eq)
  moreover have "sorted_list_of_set (A - {p}) = [] \<longleftrightarrow> A - {p} = {}" using assms by (intro sorted_list_of_set_eq_Nil_iff) simp
  ultimately show ?thesis by (auto simp: listed_def)
qed

lemma cachedOf_Add:
  assumes "sets_wf s"
  shows "sets_wf (AddToApplicationSet p s)"
    and "cachedOf (AddToApplicationSet p s) b u =
      (if sameApp s p b u then Some (case cachedOf s b u of None \<Rightarrow> [p] | Some l \<Rightarrow> insort_insert p l) else cachedOf s b u)"
proof -
  let ?b = "ar_bundleName (cp_apps s p)" and ?u = "ar_uid (cp_apps s p)"
  have om: "omap_inv (cp_sameAppSet s)" using assms by (simp add: sets_wf_def)
  obtain um where um: "omap_inv um" "omap_find (cp_sameAppSet s) ?b = Some um \<or> omap_find (cp_sameAppSet s) ?b = None \<and> um = []"
    using sets_wfD [OF assms, of ?b] by (cases "omap_find (cp_sameAppSet s) ?b") auto
  define l where "l = (case omap_find um ?u of None \<Rightarrow> [p] | Some l \<Rightarrow> insort_insert p l)"
  have ii: "insort_insert p [p] = [p]" by (simp add: insort_insert_key_def)
  have put: "AddToApplicationSet p s = s\<lparr>cp_sameAppSet := omap_put ?b (omap_put ?u l um) (cp_sameAppSet s)\<rparr>"
  proof (cases "omap_find (cp_sameAppSet s) ?b")
    case None
    with um ii show ?thesis by (simp add: AddToApplicationSet_def omap_at_def om.lookup_put om omap_put_put l_def)
  next
    case (Some um')
    then have "um' = um" using um by simp
    with Some show ?thesis by (cases "omap_find um ?u") (simp_all add: AddToApplicationSet_def omap_at_def l_def)
  qed
  show "sets_wf (AddToApplicationSet p s)"
    unfolding put using assms um(1) by (auto simp: sets_wf_def om.lookup_put om omap_inv_put) 
  show "cachedOf (AddToApplicationSet p s) b u =
      (if sameApp s p b u then Some (case cachedOf s b u of None \<Rightarrow> [p] | Some l \<Rightarrow> insort_insert p l) else cachedOf s b u)"
    unfolding put using um by (auto simp: cachedOf_def sameApp_def om.lookup_put om l_def split: option.splits)
qed


lemma cachedOf_Remove:
  assumes "sets_wf s"
  shows "sets_wf (RemoveFromApplicationSet p s)"
    and "cachedOf (RemoveFromApplicationSet p s) b u =
      (if sameApp s p b u
       then (case cachedOf s b u of None \<Rightarrow> None
             | Some l \<Rightarrow> if removeAll p l = [] then None else Some (removeAll p l))
       else cachedOf s b u)"
proof -
  have om: "omap_inv (cp_sameAppSet s)" using assms by (simp add: sets_wf_def)
  note wf = sets_wfD [OF assms]
  show "sets_wf (RemoveFromApplicationSet p s)"
    using assms wf by (auto simp: RemoveFromApplicationSet_def Let_def sets_wf_def omap_laws om
        split: option.splits if_splits)
  show "cachedOf (RemoveFromApplicationSet p s) b u =
      (if sameApp s p b u
       then (case cachedOf s b u of None \<Rightarrow> None
             | Some l \<Rightarrow> if removeAll p l = [] then None else Some (removeAll p l))
       else cachedOf s b u)"
  proof (cases "omap_find (cp_sameAppSet s) (ar_bundleName (cp_apps s p))")
    case None
    then show ?thesis by (auto simp: RemoveFromApplicationSet_def cachedOf_def sameApp_def)
  next
    case (Some um)
    then have um: "omap_inv um" using wf by simp
    show ?thesis
    proof (cases "omap_find um (ar_uid (cp_apps s p))")
      case None
      with Some show ?thesis by (auto simp: RemoveFromApplicationSet_def cachedOf_def sameApp_def)
    next
      case (Some l)
      have "omap_erase (ar_uid (cp_apps s p)) um = [] \<Longrightarrow> omap_find um v = None" if "v \<noteq> ar_uid (cp_apps s p)" for v
        using that find_omap_erase [of "ar_uid (cp_apps s p)" um] by (metis fun_upd_other map_of.simps(1))
      with Some \<open>omap_find (cp_sameAppSet s) (ar_bundleName (cp_apps s p)) = Some um\<close> um om show ?thesis
        by (auto simp: RemoveFromApplicationSet_def cachedOf_def sameApp_def Let_def omap_laws)
    qed
  qed
qed

text \<open>Neither the queue nor the records change.\<close>

lemma application_set_frame [simp]:
  "cp_queue (AddToApplicationSet p s) = cp_queue s" "cp_apps (AddToApplicationSet p s) = cp_apps s"
  "cp_queue (RemoveFromApplicationSet p s) = cp_queue s" "cp_apps (RemoveFromApplicationSet p s) = cp_apps s"
  "cp_calls (AddToApplicationSet p s) = cp_calls s" "cp_calls (RemoveFromApplicationSet p s) = cp_calls s"
  "cp_allowedCacheNum (AddToApplicationSet p s) = cp_allowedCacheNum s"
  "cp_allowedCacheNum (RemoveFromApplicationSet p s) = cp_allowedCacheNum s"
  "cp_hasAppMgr (AddToApplicationSet p s) = cp_hasAppMgr s" "cp_hasAppMgr (RemoveFromApplicationSet p s) = cp_hasAppMgr s"
  "cp_maxProcCacheNum (AddToApplicationSet p s) = cp_maxProcCacheNum s"
  "cp_warmStartProcesEnable (AddToApplicationSet p s) = cp_warmStartProcesEnable s"
  by (simp_all add: AddToApplicationSet_def RemoveFromApplicationSet_def Let_def split: option.splits)

lemma sameApp_frame [simp]:
  "sameApp (AddToApplicationSet p s) = sameApp s" "sameApp (RemoveFromApplicationSet p s) = sameApp s"
  by (simp_all add: sameApp_def fun_eq_iff)

lemma groups_cong:
  assumes "cp_sameAppSet s' = cp_sameAppSet s" and "\<And>p. ar_bundleName (cp_apps s' p) = ar_bundleName (cp_apps s p)"
    and "\<And>p. ar_uid (cp_apps s' p) = ar_uid (cp_apps s p)"
  shows "groups s' q = groups s q"
  using assms by (simp add: groups_def sets_wf_def cachedOf_def sameApp_def)

lemma groups_Add:
  assumes "groups s q"
  shows "groups (AddToApplicationSet p s) (q @ [p])"
proof -
  have wf: "sets_wf s" using assms by (simp add: groups_def)
  have "cachedOf (AddToApplicationSet p s) b u = listed {r \<in> set (q @ [p]). sameApp s r b u}" for b u
  proof -
    have "{r \<in> set (q @ [p]). sameApp s r b u} =
        (if sameApp s p b u then insert p {r \<in> set q. sameApp s r b u} else {r \<in> set q. sameApp s r b u})" by auto
    then show ?thesis using assms by (simp add: cachedOf_Add(2) [OF wf] listed_insert groups_def)
  qed
  then show ?thesis using cachedOf_Add(1) [OF wf] by (simp add: groups_def)
qed

lemma groups_Remove:
  assumes "groups s q"
  shows "groups (RemoveFromApplicationSet p s) (filter (\<lambda>r. r \<noteq> p) q)"
proof -
  have wf: "sets_wf s" using assms by (simp add: groups_def)
  have "cachedOf (RemoveFromApplicationSet p s) b u = listed {r \<in> set (filter (\<lambda>r. r \<noteq> p) q). sameApp s r b u}" for b u
  proof -
    have "{r \<in> set (filter (\<lambda>r. r \<noteq> p) q). sameApp s r b u} =
        (if sameApp s p b u then {r \<in> set q. sameApp s r b u} - {p} else {r \<in> set q. sameApp s r b u})" by auto
    then show ?thesis using assms by (simp add: cachedOf_Remove(2) [OF wf] listed_remove groups_def)
  qed
  then show ?thesis using cachedOf_Remove(1) [OF wf] by (simp add: groups_def)
qed


section \<open>The invariant\<close>

text \<open>No process is cached twice, and the sets per application are the queue, grouped.\<close>

definition cache_inv :: "cache_mgr \<Rightarrow> bool" where
  "cache_inv s \<longleftrightarrow> distinct (cp_queue s) \<and> groups s (cp_queue s)"

text \<open>Changes that keep the queue, the sets and the identity of the applications.\<close>

definition same_cache :: "cache_mgr \<Rightarrow> cache_mgr \<Rightarrow> bool" where
  "same_cache s s' \<longleftrightarrow> cp_queue s' = cp_queue s \<and> cp_sameAppSet s' = cp_sameAppSet s \<and>
     (\<forall>p. ar_bundleName (cp_apps s' p) = ar_bundleName (cp_apps s p) \<and> ar_uid (cp_apps s' p) = ar_uid (cp_apps s p))"

lemma same_cache_inv: "same_cache s s' \<Longrightarrow> cache_inv s \<Longrightarrow> cache_inv s'"
  using groups_cong [of s' s] by (simp add: same_cache_def cache_inv_def)

lemma same_cache_refl [simp]: "same_cache s s"
  by (simp add: same_cache_def)

lemma same_cache_trans: "same_cache s s' \<Longrightarrow> same_cache s' s'' \<Longrightarrow> same_cache s s''"
  by (simp add: same_cache_def)

lemma same_cache_simps [simp]:
  "same_cache s (SetProcessCaching c p s') = same_cache s s'"
  "same_cache s (logCall call s') = same_cache s s'"
  by (auto simp: same_cache_def SetProcessCaching_def setApp_def logCall_def)

lemma same_cache_ops:
  "same_cache s (snd (KillProcessByRecord p s))"
  "same_cache s (RefreshCacheNum n s)"
  "same_cache s (snd (CheckAndNotifyCachedState bk ap s))"
  "same_cache s (CheckAndSetProcessCacheEnable fk ap s)"
  "same_cache s (PrepareActivateCache ap s)"
  "same_cache s (snd (IsAppContainsSrvExt ap s))"
  "same_cache s (cp_SetAppMgr b s)"
  by (auto simp: KillProcessByRecord_def RefreshCacheNum_def CheckAndNotifyCachedState_def CheckAndSetProcessCacheEnable_def
      PrepareActivateCache_def IsAppContainsSrvExt_def cp_SetAppMgr_def setApp_def Let_def same_cache_def
      SetProcessCaching_def logCall_def split: option.splits)

lemma CheckAndCacheProcess_same: "CheckAndCacheProcess ap s = Inr (r, s') \<Longrightarrow> same_cache s s'"
  by (auto simp: CheckAndCacheProcess_def Let_def cpp_bind_eq_Inr split: option.splits if_splits)

lemma removeLoop_frame:
  "fst (removeLoop p qs s) = filter (\<lambda>q. q \<noteq> p) qs" "cp_apps (snd (removeLoop p qs s)) = cp_apps s"
  "cp_queue (snd (removeLoop p qs s)) = cp_queue s" "cp_calls (snd (removeLoop p qs s)) = cp_calls s"
  "cp_hasAppMgr (snd (removeLoop p qs s)) = cp_hasAppMgr s"
  by (induction p qs s rule: removeLoop.induct) (auto simp: split_beta)

lemma removeLoop_groups:
  "groups s q \<Longrightarrow> groups (snd (removeLoop p qs s)) (if p \<in> set qs then filter (\<lambda>r. r \<noteq> p) q else q)"
proof (induction p qs s arbitrary: q rule: removeLoop.induct)
  case (2 p r qs s)
  show ?case
  proof (cases "p = r")
    case True
    have "groups (snd (removeLoop p qs (RemoveFromApplicationSet r s))) (filter (\<lambda>r. r \<noteq> p) q)"
      using "2.IH"(1) [OF True groups_Remove [OF "2.prems", of r]] True by (simp cong: if_cong)
    with True show ?thesis by simp
  next
    case False
    with 2 show ?thesis by (auto simp: split_beta)
  qed
qed simp

lemma RemoveCacheRecord_inv:
  assumes "cache_inv s"
  shows "cache_inv (RemoveCacheRecord p s) \<and> cp_queue (RemoveCacheRecord p s) = filter (\<lambda>q. q \<noteq> p) (cp_queue s)"
proof -
  let ?s = "snd (removeLoop p (cp_queue s) s)"
  have "groups ?s (if p \<in> set (cp_queue s) then filter (\<lambda>r. r \<noteq> p) (cp_queue s) else cp_queue s)"
    using assms by (intro removeLoop_groups) (simp add: cache_inv_def)
  moreover have "p \<notin> set (cp_queue s) \<Longrightarrow> filter (\<lambda>r. r \<noteq> p) (cp_queue s) = cp_queue s" by (auto simp: filter_id_conv)
  ultimately have "groups ?s (filter (\<lambda>r. r \<noteq> p) (cp_queue s))" by (auto split: if_splits)
  then have "groups (?s\<lparr>cp_queue := filter (\<lambda>r. r \<noteq> p) (cp_queue s)\<rparr>) (filter (\<lambda>r. r \<noteq> p) (cp_queue s))"
    by (subst groups_cong [of _ ?s]) simp_all
  with assms show ?thesis by (simp add: RemoveCacheRecord_def split_beta removeLoop_frame cache_inv_def)
qed

section \<open>Shrinking\<close>

lemma groups_queue_update [simp]: "groups (s\<lparr>cp_queue := q'\<rparr>) q = groups s q"
  by (rule groups_cong) simp_all

lemma same_sets [simp]: "s\<lparr>cp_sameAppSet := cp_sameAppSet s\<rparr> = s" for s :: cache_mgr
  by (cases s) simp

lemma popped_simps [simp]: "cpp_bind (still_there p) f = f p" "cpp_bind (dangling p) f = Inl UseAfterErase"
  by (simp_all add: still_there_def dangling_def)

text \<open>What the loop does where the popped slot can still be read: the oldest processes beyond the limit
  leave the queue, in order.\<close>

lemma shrinkLoop_ok:
  "0 \<le> cp_allowedCacheNum s \<Longrightarrow> distinct q \<Longrightarrow> groups s q \<Longrightarrow> n = length q - nat (cp_allowedCacheNum s) \<Longrightarrow>
     \<exists>sets. shrinkLoop still_there q s clean = Inr (s\<lparr>cp_sameAppSet := sets, cp_queue := drop n q\<rparr>, clean @ take n q) \<and>
       groups (s\<lparr>cp_sameAppSet := sets\<rparr>) (drop n q)"
proof (induction q arbitrary: s clean n)
  case Nil
  then show ?case by (intro exI [of _ "cp_sameAppSet s"]) simp
next
  case (Cons p q)
  show ?case
  proof (cases "int (length (p # q)) > cp_allowedCacheNum s")
    case True
    let ?s = "RemoveFromApplicationSet p s"
    have "filter (\<lambda>r. r \<noteq> p) (p # q) = q" using Cons.prems(2) by (auto simp: filter_id_conv)
    then have g: "groups ?s q" using groups_Remove [OF Cons.prems(3), of p] by simp
    define m where "m = length q - nat (cp_allowedCacheNum ?s)"
    have n: "n = Suc m" using True Cons.prems(1,4) by (simp add: m_def)
    obtain sets where sets: "shrinkLoop still_there q ?s (clean @ [p]) =
        Inr (?s\<lparr>cp_sameAppSet := sets, cp_queue := drop m q\<rparr>, (clean @ [p]) @ take m q)"
      "groups (?s\<lparr>cp_sameAppSet := sets\<rparr>) (drop m q)"
      using Cons.IH [of ?s m "clean @ [p]"] g Cons.prems(1,2) m_def by auto
    have "?s\<lparr>cp_sameAppSet := x\<rparr> = s\<lparr>cp_sameAppSet := x\<rparr>" for x
      by (simp add: RemoveFromApplicationSet_def Let_def split: option.splits)
    with sets True n show ?thesis by (intro exI [of _ sets]) simp
  next
    case False
    then have "n = 0" using Cons.prems(4) by simp
    with False Cons.prems(3) show ?thesis
      by (intro exI [of _ "cp_sameAppSet s"]) simp
  qed
qed

lemma shrinkLoop_negative: "cp_allowedCacheNum s < 0 \<Longrightarrow> shrinkLoop still_there q s clean = Inl OutOfRange"
  by (induction q arbitrary: s clean) simp_all


text \<open>Reading the popped slot gives the popped process or is undefined; a defined result is the same.\<close>

definition honest :: "(nat \<Rightarrow> nat cpp) \<Rightarrow> bool" where
  "honest popped \<longleftrightarrow> (\<forall>p. popped p = Inr p \<or> (\<exists>e. popped p = Inl e))"

lemma honest_still: "honest popped \<Longrightarrow> shrinkLoop popped q s clean = Inr r \<Longrightarrow> shrinkLoop still_there q s clean = Inr r"
proof (induction q arbitrary: s clean)
  case (Cons p q)
  then show ?case by (auto simp: cpp_bind_eq_Inr honest_def split: if_splits) (metis Inl_Inr_False Inr_inject)
qed simp

lemma killAll_same: "killAll ps s = Inr s' \<Longrightarrow> same_cache s s'"
proof (induction ps arbitrary: s)
  case (Cons p ps)
  then show ?case using same_cache_trans [OF same_cache_ops(1) [of s p]] by (auto simp: cpp_bind_eq_Inr)
qed simp

definition killCalls :: "nat list \<Rightarrow> cache_call list" where
  "killCalls ps = concat (map (\<lambda>p. [StateChanged p False, KillApplication p]) ps)"

lemma killAll_ok:
  "cp_hasAppMgr s \<Longrightarrow> (\<forall>p\<in>set ps. ar_apiTargetVersion (cp_apps s p) \<noteq> None) \<Longrightarrow>
     \<exists>s'. killAll ps s = Inr s' \<and> cp_calls s' = cp_calls s @ killCalls ps"
proof (induction ps arbitrary: s)
  case (Cons p ps)
  let ?s = "snd (KillProcessByRecord p s)"
  have "cp_hasAppMgr ?s" "cp_calls ?s = cp_calls s @ [StateChanged p False, KillApplication p]"
    "\<forall>q. ar_apiTargetVersion (cp_apps ?s q) = ar_apiTargetVersion (cp_apps s q)"
    using Cons.prems(1) by (auto simp: KillProcessByRecord_def logCall_def SetProcessCaching_def setApp_def)
  with Cons.IH [of ?s] Cons.prems show ?case by (auto simp: killCalls_def)
qed (simp add: killCalls_def)

lemma ShrinkAndKillCache_inv:
  assumes "honest popped" and "ShrinkAndKillCache popped s = Inr s'" and "cache_inv s"
  shows "cache_inv s'"
proof (cases "cp_maxProcCacheNum s \<le> 0 \<and> \<not> cp_warmStartProcesEnable s")
  case True
  with assms show ?thesis by (simp add: ShrinkAndKillCache_def)
next
  case False
  with assms(2) obtain s1 ps where l: "shrinkLoop popped (cp_queue s) s [] = Inr (s1, ps)" "killAll ps s1 = Inr s'"
    by (auto simp: ShrinkAndKillCache_def cpp_bind_eq_Inr)
  note st = honest_still [OF assms(1) l(1)]
  have "0 \<le> cp_allowedCacheNum s" using st shrinkLoop_negative [of s "cp_queue s" "[]"] by fastforce
  from shrinkLoop_ok [OF this _ _ refl, of "cp_queue s" "[]"] assms(3) st obtain sets n where
    "s1 = s\<lparr>cp_sameAppSet := sets, cp_queue := drop n (cp_queue s)\<rparr>" "groups (s\<lparr>cp_sameAppSet := sets\<rparr>) (drop n (cp_queue s))"
    by (auto simp: cache_inv_def)
  then have "cache_inv s1" using assms(3) by (simp add: cache_inv_def distinct_drop)
  with same_cache_inv [OF killAll_same [OF l(2)]] show ?thesis by blast
qed

definition enqueued :: "nat \<Rightarrow> cache_mgr \<Rightarrow> cache_mgr" where
  "enqueued p s = (let s = AddToApplicationSet p (s\<lparr>cp_queue := cp_queue s @ [p]\<rparr>)
     in if cp_warmStartProcesEnable s then SetProcessCaching True p s else s)"

lemma enqueued_queue [simp]: "cp_queue (enqueued p s) = cp_queue s @ [p]"
  "cp_allowedCacheNum (enqueued p s) = cp_allowedCacheNum s" "cp_hasAppMgr (enqueued p s) = cp_hasAppMgr s"
  "cp_calls (enqueued p s) = cp_calls s" "ar_apiTargetVersion (cp_apps (enqueued p s) q) = ar_apiTargetVersion (cp_apps s q)"
  "QueryEnableProcessCache (enqueued p s) = QueryEnableProcessCache s"
  by (auto simp: enqueued_def Let_def SetProcessCaching_def setApp_def AddToApplicationSet_def QueryEnableProcessCache_def)

lemma enqueued_inv:
  assumes "cache_inv s" and "p \<notin> set (cp_queue s)"
  shows "cache_inv (enqueued p s)"
proof -
  have "groups s (cp_queue s)" using assms(1) by (simp add: cache_inv_def)
  then have "groups (AddToApplicationSet p (s\<lparr>cp_queue := cp_queue s @ [p]\<rparr>)) (cp_queue s @ [p])" by (intro groups_Add) simp
  then have "cache_inv (AddToApplicationSet p (s\<lparr>cp_queue := cp_queue s @ [p]\<rparr>))" using assms by (simp add: cache_inv_def)
  moreover have "same_cache (AddToApplicationSet p (s\<lparr>cp_queue := cp_queue s @ [p]\<rparr>)) (enqueued p s)"
    by (simp add: enqueued_def Let_def)
  ultimately show ?thesis by (rule same_cache_inv [rotated])
qed

lemma Pendding_enqueued:
  assumes "QueryEnableProcessCache s" and "p \<notin> set (cp_queue s)" and "\<not> ar_isKeepAlive (cp_apps s p)"
  shows "PenddingCacheProcess popped (Some p) s = cpp_bind (ShrinkAndKillCache popped (enqueued p s)) (\<lambda>s. Inr (True, s))"
proof -
  have "\<not> IsCachedProcess (Some p) s" using assms(2) by (auto simp: IsCachedProcess_def list_ex_iff)
  with assms show ?thesis by (simp add: PenddingCacheProcess_def enqueued_def Let_def)
qed

lemma PenddingCacheProcess_inv:
  assumes "honest popped" and "PenddingCacheProcess popped ap s = Inr (r, s')" and "cache_inv s"
  shows "cache_inv s'"
proof (cases "QueryEnableProcessCache s \<and> (\<exists>p. ap = Some p \<and> p \<notin> set (cp_queue s) \<and> \<not> ar_isKeepAlive (cp_apps s p))")
  case True
  then obtain p where p: "ap = Some p" "p \<notin> set (cp_queue s)" "\<not> ar_isKeepAlive (cp_apps s p)" by blast
  with assms(2) True Pendding_enqueued [of s p popped] have "ShrinkAndKillCache popped (enqueued p s) = Inr s'"
    by (auto simp: cpp_bind_eq_Inr)
  from ShrinkAndKillCache_inv [OF assms(1) this enqueued_inv [OF assms(3) p(2)]] show ?thesis .
next
  case False
  have "IsCachedProcess (Some p) s \<longleftrightarrow> p \<in> set (cp_queue s)" for p by (auto simp: IsCachedProcess_def list_ex_iff)
  with False assms(2) have "s' = s" by (auto simp: PenddingCacheProcess_def split: option.splits if_splits)
  with assms(3) show ?thesis by simp
qed


section \<open>The cache as a machine\<close>

text \<open>The entry points, the delayed notification, and the changes of the records and of the list of
  running processes by the rest of the application manager; a record keeps its bundle name and uid.\<close>

datatype cache_event =
  PendEvent "nat option"
| CacheEvent "nat option"
| NotifyEvent "nat option"
| KilledEvent "nat option"
| ReuseEvent "nat option"
| EnableEvent "nat option"
| ActivateEvent "nat option"
| BlockedEvent "nat option"
| SrvExtEvent "nat option"
| RefreshEvent int
| AppMgrEvent bool
| RecordEvent "nat \<Rightarrow> app_running"
| RunningEvent "nat option list"

fun cache_enabled :: "cache_event \<Rightarrow> cache_mgr \<Rightarrow> bool" where
  "cache_enabled (RecordEvent apps) s \<longleftrightarrow>
     (\<forall>p. ar_bundleName (apps p) = ar_bundleName (cp_apps s p) \<and> ar_uid (apps p) = ar_uid (cp_apps s p))"
| "cache_enabled ev s \<longleftrightarrow> True"

fun cache_handle :: "(nat \<Rightarrow> nat cpp) \<Rightarrow> string \<Rightarrow> (nat \<Rightarrow> bool) \<Rightarrow> cache_event \<Rightarrow> cache_mgr \<Rightarrow> cache_mgr cpp" where
  "cache_handle popped bk fk (PendEvent ap) s = cpp_bind (PenddingCacheProcess popped ap s) (\<lambda>r. Inr (snd r))"
| "cache_handle popped bk fk (CacheEvent ap) s = cpp_bind (CheckAndCacheProcess ap s) (\<lambda>r. Inr (snd r))"
| "cache_handle popped bk fk (NotifyEvent ap) s = Inr (snd (CheckAndNotifyCachedState bk ap s))"
| "cache_handle popped bk fk (KilledEvent ap) s = OnProcessKilled bk ap s"
| "cache_handle popped bk fk (ReuseEvent ap) s = cpp_bind (ReuseCachedProcess ap s) (\<lambda>r. Inr (snd r))"
| "cache_handle popped bk fk (EnableEvent ap) s = Inr (CheckAndSetProcessCacheEnable fk ap s)"
| "cache_handle popped bk fk (ActivateEvent ap) s = Inr (PrepareActivateCache ap s)"
| "cache_handle popped bk fk (BlockedEvent ap) s = Inr (OnAppProcessCacheBlocked ap s)"
| "cache_handle popped bk fk (SrvExtEvent ap) s = Inr (snd (IsAppContainsSrvExt ap s))"
| "cache_handle popped bk fk (RefreshEvent n) s = Inr (RefreshCacheNum n s)"
| "cache_handle popped bk fk (AppMgrEvent b) s = Inr (cp_SetAppMgr b s)"
| "cache_handle popped bk fk (RecordEvent apps) s = Inr (s\<lparr>cp_apps := apps\<rparr>)"
| "cache_handle popped bk fk (RunningEvent rs) s = Inr (s\<lparr>cp_running := rs\<rparr>)"

lemma OnProcessKilled_inv:
  assumes "OnProcessKilled bk ap s = Inr s'" and "cache_inv s"
  shows "cache_inv s'"
proof (cases ap)
  case (Some p)
  let ?s = "snd (CheckAndNotifyCachedState bk (Some p) s)"
  let ?t = "?s\<lparr>cp_srvExtRecords := removeAll p (cp_srvExtRecords ?s), cp_srvExtCheckedFlag := removeAll p (cp_srvExtCheckedFlag ?s)\<rparr>"
  have "same_cache s ?t" using same_cache_ops(3) [of s bk "Some p"] by (simp add: same_cache_def)
  then have "cache_inv ?t" using assms(2) same_cache_inv by blast
  moreover from this have "cache_inv (RemoveCacheRecord p ?t)" using RemoveCacheRecord_inv by blast
  ultimately show ?thesis using assms Some
    by (auto simp: OnProcessKilled_def Let_def cpp_bind_eq_Inr split: if_splits)
qed (use assms in \<open>auto simp: OnProcessKilled_def split: if_splits\<close>)

lemma ReuseCachedProcess_inv: "ReuseCachedProcess ap s = Inr (r, s') \<Longrightarrow> cache_inv s \<Longrightarrow> cache_inv s'"
  using RemoveCacheRecord_inv same_cache_inv [of "RemoveCacheRecord (the ap) s"]
  by (auto simp: ReuseCachedProcess_def Let_def cpp_bind_eq_Inr split: if_splits option.splits)

lemma OnAppProcessCacheBlocked_inv: "cache_inv s \<Longrightarrow> cache_inv (OnAppProcessCacheBlocked ap s)"
  using RemoveCacheRecord_inv same_cache_inv [OF same_cache_ops(1) [of "RemoveCacheRecord (the ap) s" "the ap"]]
  by (auto simp: OnAppProcessCacheBlocked_def split: option.splits)

lemma cache_handle_inv:
  assumes "honest popped" and "cache_enabled ev s" and "cache_handle popped bk fk ev s = Inr s'" and "cache_inv s"
  shows "cache_inv s'"
proof (cases ev)
  case (PendEvent ap)
  with assms PenddingCacheProcess_inv [OF assms(1), of ap s _ s'] show ?thesis by (auto simp: cpp_bind_eq_Inr)
next
  case (CacheEvent ap)
  with assms same_cache_inv [OF CheckAndCacheProcess_same, of ap s _ s'] show ?thesis by (auto simp: cpp_bind_eq_Inr)
next
  case (KilledEvent ap)
  with assms OnProcessKilled_inv show ?thesis by simp
next
  case (ReuseEvent ap)
  with assms ReuseCachedProcess_inv [of ap s _ s'] show ?thesis by (auto simp: cpp_bind_eq_Inr)
next
  case (BlockedEvent ap)
  with assms OnAppProcessCacheBlocked_inv show ?thesis by auto
next
  case (RecordEvent apps)
  with assms same_cache_inv [of s "s\<lparr>cp_apps := apps\<rparr>"] show ?thesis by (auto simp: same_cache_def)
next
  case (RunningEvent rs)
  with assms same_cache_inv [of s "s\<lparr>cp_running := rs\<rparr>"] show ?thesis by (auto simp: same_cache_def)
qed (use assms same_cache_inv [OF same_cache_ops(2)] same_cache_inv [OF same_cache_ops(3)] same_cache_inv [OF same_cache_ops(4)]
       same_cache_inv [OF same_cache_ops(5)] same_cache_inv [OF same_cache_ops(6)] same_cache_inv [OF same_cache_ops(7)] in auto)

definition cache_start :: "cache_mgr \<Rightarrow> bool" where
  "cache_start s \<longleftrightarrow> (\<exists>n api sup warm allowed apps. s = newCacheProcessManager n api sup warm allowed apps)"

definition cache_step :: "string \<Rightarrow> cache_mgr \<Rightarrow> cache_mgr \<Rightarrow> bool" where
  "cache_step bk s s' \<longleftrightarrow>
     (\<exists>popped fk ev. honest popped \<and> cache_enabled ev s \<and> cache_handle popped bk fk ev s = Inr s')"

interpretation cm: machine cache_start "cache_step bk" cache_inv for bk
proof
  show "cache_inv s" if "cache_start s" for s
    using that by (auto simp: cache_start_def newCacheProcessManager_def cache_inv_def groups_def sets_wf_def cachedOf_def listed_def)
  show "cache_inv s'" if "cache_inv s" "cache_step bk s s'" for s s'
    using that cache_handle_inv by (auto simp: cache_step_def)
qed

section \<open>Main results\<close>

text \<open>C16: In every reachable state no process is cached twice, and the sets kept per application are exactly the
  cached processes of that application, ordered by address, with no empty set left behind.\<close>

theorem process_cache_reachable:
  assumes "reach cache_start (cache_step bk) s"
  shows "distinct (cp_queue s) \<and>
         (\<forall>b u. cachedOf s b u = listed {p \<in> set (cp_queue s). ar_bundleName (cp_apps s p) = b \<and> ar_uid (cp_apps s p) = u}) \<and>
         (\<forall>b uidMap. omap_find (cp_sameAppSet s) b = Some uidMap \<longrightarrow> uidMap \<noteq> [])"
  using cm.reach_inv [OF assms] by (simp add: cache_inv_def groups_def sets_wf_def sameApp_def)

lemma ShrinkAndKillCache_ok:
  assumes inv: "cache_inv s" and en: "QueryEnableProcessCache s" and nonneg: "0 \<le> cp_allowedCacheNum s"
    and mgr: "cp_hasAppMgr s" and info: "\<forall>q\<in>set (cp_queue s). ar_apiTargetVersion (cp_apps s q) \<noteq> None"
    and n: "n = length (cp_queue s) - nat (cp_allowedCacheNum s)"
  shows "\<exists>s'. ShrinkAndKillCache still_there s = Inr s' \<and> cp_queue s' = drop n (cp_queue s) \<and>
           cp_calls s' = cp_calls s @ killCalls (take n (cp_queue s))"
proof -
  obtain sets where l: "shrinkLoop still_there (cp_queue s) s [] =
      Inr (s\<lparr>cp_sameAppSet := sets, cp_queue := drop n (cp_queue s)\<rparr>, take n (cp_queue s))"
    using shrinkLoop_ok [OF nonneg _ _ n, of "[]"] inv by (auto simp: cache_inv_def)
  let ?s = "s\<lparr>cp_sameAppSet := sets, cp_queue := drop n (cp_queue s)\<rparr>"
  obtain s' where k: "killAll (take n (cp_queue s)) ?s = Inr s'" "cp_calls s' = cp_calls ?s @ killCalls (take n (cp_queue s))"
    using killAll_ok [of ?s "take n (cp_queue s)"] mgr info by (auto dest: in_set_takeD)
  have "cp_queue s' = drop n (cp_queue s)" using killAll_same [OF k(1)] by (simp add: same_cache_def)
  moreover have "\<not> (cp_maxProcCacheNum s \<le> 0 \<and> \<not> cp_warmStartProcesEnable s)"
    using en by (auto simp: QueryEnableProcessCache_def)
  ultimately show ?thesis using l k unfolding ShrinkAndKillCache_def by (intro exI [of _ s']) auto
qed

lemma Pendding_ok:
  assumes "cache_inv s" and "QueryEnableProcessCache s" and "p \<notin> set (cp_queue s)" and "\<not> ar_isKeepAlive (cp_apps s p)"
    and "0 \<le> cp_allowedCacheNum s" and "cp_hasAppMgr s"
    and "\<forall>q\<in>insert p (set (cp_queue s)). ar_apiTargetVersion (cp_apps s q) \<noteq> None"
    and n: "n = length (cp_queue s) + 1 - nat (cp_allowedCacheNum s)"
  shows "\<exists>s'. PenddingCacheProcess still_there (Some p) s = Inr (True, s') \<and>
           cp_queue s' = drop n (cp_queue s @ [p]) \<and> int (length (cp_queue s')) \<le> cp_allowedCacheNum s \<and>
           cp_calls s' = cp_calls s @ killCalls (take n (cp_queue s @ [p]))"
proof -
  from ShrinkAndKillCache_ok [of "enqueued p s", OF enqueued_inv] assms obtain s' where
    "ShrinkAndKillCache still_there (enqueued p s) = Inr s'" "cp_queue s' = drop n (cp_queue s @ [p])"
    "cp_calls s' = cp_calls s @ killCalls (take n (cp_queue s @ [p]))" by auto
  moreover have "int (length (drop n (cp_queue s @ [p]))) \<le> cp_allowedCacheNum s"
    using n assms(5) by (simp only: length_drop length_append) auto
  ultimately show ?thesis using Pendding_enqueued [OF assms(2-4), of still_there] by (intro exI [of _ s']) simp
qed


text \<open>C18: By the rules of the language the same call is undefined as soon as the cache is full: the loop uses a
  reference to the element it has popped.\<close>

theorem PenddingCacheProcess_dangles:
  assumes "QueryEnableProcessCache s" and "p \<notin> set (cp_queue s)" and "\<not> ar_isKeepAlive (cp_apps s p)"
    and "cp_allowedCacheNum s \<le> int (length (cp_queue s))"
  shows "PenddingCacheProcess dangling (Some p) s = Inl UseAfterErase"
proof -
  obtain r q where rq: "cp_queue s @ [p] = r # q" by (cases "cp_queue s @ [p]") auto
  then have "length (r # q) = length (cp_queue s) + 1" by (metis length_append_singleton Suc_eq_plus1)
  then have "shrinkLoop dangling (r # q) (enqueued p s) [] = Inl UseAfterErase" using assms(4) by simp
  moreover have "\<not> (cp_maxProcCacheNum (enqueued p s) \<le> 0 \<and> \<not> cp_warmStartProcesEnable (enqueued p s))"
    using assms(1) enqueued_queue(6) [of p s] by (auto simp: QueryEnableProcessCache_def simp del: enqueued_queue)
  ultimately show ?thesis
    using Pendding_enqueued [OF assms(1-3), of dangling] rq by (simp add: ShrinkAndKillCache_def)
qed

text \<open>After the number of cached processes is refreshed to 0 while warm starts are enabled, the cache is
  still on but holds nothing: caching a process kills it and everything cached, and reports success.
  (The constructor keeps the limit of the resource scheduler in this case.)\<close>

theorem RefreshCacheNum_zero_kills:
  assumes "reach cache_start (cache_step bk) s" and "cp_warmStartProcesEnable s" and "p \<notin> set (cp_queue s)"
    and "\<not> ar_isKeepAlive (cp_apps s p)" and "cp_hasAppMgr s"
    and "\<forall>q\<in>insert p (set (cp_queue s)). ar_apiTargetVersion (cp_apps s q) \<noteq> None"
  shows "\<exists>s'. PenddingCacheProcess still_there (Some p) (RefreshCacheNum 0 s) = Inr (True, s') \<and>
           cp_queue s' = [] \<and> KillApplication p \<in> set (cp_calls s')"
proof -
  let ?s = "RefreshCacheNum 0 s"
  have "cache_inv ?s" using same_cache_inv [OF same_cache_ops(2)] cm.reach_inv [OF assms(1)] by blast
  moreover have "QueryEnableProcessCache ?s" "cp_queue ?s = cp_queue s" "cp_apps ?s = cp_apps s" "cp_allowedCacheNum ?s = 0"
      "cp_hasAppMgr ?s = cp_hasAppMgr s"
    using assms(2) by (simp_all add: QueryEnableProcessCache_def RefreshCacheNum_def)
  ultimately show ?thesis using Pendding_ok [of ?s p "length (cp_queue s) + 1"] assms by (auto simp: killCalls_def)
qed

text \<open>The application is reported as cached exactly when it has a cached process and all its running
  processes are cached and may be cached; the report names its cached process with the lowest address,
  and nothing else is asked of the application manager.\<close>

theorem CheckAndNotifyCachedState_exact:
  assumes "reach cache_start (cache_step bk) s" and "cp_hasAppMgr s"
    and "CheckAndNotifyCachedState bk (Some p) s = (ok, s')"
    and app: "app = (\<lambda>q. ar_bundleName (cp_apps s q) = ar_bundleName (cp_apps s p) \<and> ar_uid (cp_apps s q) = ar_uid (cp_apps s p))"
  shows "(ok \<longleftrightarrow> (\<exists>q\<in>set (cp_queue s). app q) \<and>
             (\<forall>q. Some q \<in> set (cp_running s) \<and> app q \<longrightarrow> q \<in> set (cp_queue s) \<and> IsAppSupportProcessCache bk (Some q) s)) \<and>
         cp_calls s' = cp_calls s @ (if ok then [StateChanged (Min {q \<in> set (cp_queue s). app q}) True] else [])"
proof -
  let ?b = "ar_bundleName (cp_apps s p)" and ?u = "ar_uid (cp_apps s p)"
  let ?A = "{q \<in> set (cp_queue s). app q}"
  have "cachedOf s ?b ?u = listed ?A"
    using cm.reach_inv [OF assms(1)] by (simp add: cache_inv_def groups_def sameApp_def app)
  show ?thesis
  proof (cases "?A = {}")
    case True
    with \<open>cachedOf s ?b ?u = listed ?A\<close> have "cachedOf s ?b ?u = None" by (simp add: listed_def)
    then have "ok = False \<and> s' = s"
      using assms(2,3) by (auto simp: CheckAndNotifyCachedState_def cachedOf_def Let_def split: option.splits)
    with True show ?thesis by auto
  next
    case False
    let ?l = "sorted_list_of_set ?A"
    have l: "cachedOf s ?b ?u = Some ?l" using \<open>cachedOf s ?b ?u = listed ?A\<close> False by (simp add: listed_def)
    have ne: "?l \<noteq> []" using False by (subst sorted_list_of_set_eq_Nil_iff) auto
    have sl: "set ?l = ?A" by simp
    have all: "IsAppProcessesAllCached bk ?b ?u ?l s \<longleftrightarrow>
        (\<forall>q. Some q \<in> set (cp_running s) \<and> app q \<longrightarrow> q \<in> set (cp_queue s) \<and> IsAppSupportProcessCache bk (Some q) s)"
      unfolding IsAppProcessesAllCached_def list_all_iff sl using ne app
      by (auto simp: Let_def split: option.splits)
    have "hd ?l = Min ?A" using False by (intro sorted_list_of_set_nonempty [THEN arg_cong [of _ _ hd], simplified]) auto
    moreover obtain um where "omap_find (cp_sameAppSet s) ?b = Some um" "omap_find um ?u = Some ?l"
      using l by (auto simp: cachedOf_def split: option.splits)
    ultimately have "CheckAndNotifyCachedState bk (Some p) s =
        (if IsAppProcessesAllCached bk ?b ?u ?l s
         then (True, logCall (StateChanged (Min ?A) True) (SetProcessCaching False p s)) else (False, s))"
      using assms(2) ne by (simp add: CheckAndNotifyCachedState_def Let_def del: sorted_list_of_set_eq_Nil_iff)
    with assms(3) all False show ?thesis by (auto simp: logCall_def SetProcessCaching_def setApp_def split: if_splits)
  qed
qed


section \<open>A small cache\<close>

text \<open>Room for one process, warm starts on; the processes 5 and 6 belong to one application.\<close>

definition exApp :: app_running where
  "exApp = \<lparr>ar_bundleName = ''app'', ar_uid = 1, ar_apiTargetVersion = Some 12, ar_modules = [], ar_isKeepAlive = False,
     ar_isAttachedToStatusBar = False, ar_hasParent = False, ar_isTerminating = False, ar_hasPriorityObject = True,
     ar_hasUIAbilityLaunched = True, ar_isUIExtension = False, ar_enableProcessCache = True, ar_supportState = SUPPORT,
     ar_processCacheBlocked = False, ar_isCaching = False\<rparr>"

definition exCache0 :: cache_mgr where
  "exCache0 = cp_SetAppMgr True (newCacheProcessManager 1 True True True 64 (\<lambda>p. exApp))"

definition exCache1 :: cache_mgr where
  "exCache1 = snd (projr (PenddingCacheProcess still_there (Some 5) exCache0))"

lemma exCache0_reach: "reach cache_start (cache_step bk) exCache0"
proof (rule reach_step [OF reach_start])
  show "cache_start (newCacheProcessManager 1 True True True 64 (\<lambda>p. exApp))" unfolding cache_start_def by blast
  show "cache_step bk (newCacheProcessManager 1 True True True 64 (\<lambda>p. exApp)) exCache0"
    unfolding cache_step_def exCache0_def
    by (intro exI [of _ still_there] exI [of _ "\<lambda>p. False"] exI [of _ "AppMgrEvent True"]) (simp add: honest_def still_there_def)
qed

lemma exCache1_pend: "PenddingCacheProcess still_there (Some 5) exCache0 = Inr (True, exCache1)"
proof -
  have "case PenddingCacheProcess still_there (Some 5) exCache0 of Inl e \<Rightarrow> False | Inr r \<Rightarrow> fst r" by code_simp
  then show ?thesis by (auto simp: exCache1_def split: sum.splits)
qed

lemma exCache1_reach: "reach cache_start (cache_step bk) exCache1"
proof (rule reach_step [OF exCache0_reach])
  show "cache_step bk exCache0 exCache1"
    unfolding cache_step_def
    by (intro exI [of _ still_there] exI [of _ "\<lambda>p. False"] exI [of _ "PendEvent (Some 5)"])
      (simp add: honest_def exCache1_pend, simp add: still_there_def)
qed

lemma exCache1_values: "cp_queue exCache1 = [5]" "QueryEnableProcessCache exCache1" "cp_hasAppMgr exCache1"
  "cp_allowedCacheNum exCache1 = 1" "cp_warmStartProcesEnable exCache1" "cp_running exCache1 = []"
  "\<not> ar_isKeepAlive (cp_apps exCache1 6)" "ar_apiTargetVersion (cp_apps exCache1 5) = Some 12"
  "ar_apiTargetVersion (cp_apps exCache1 6) = Some 12" "cp_calls exCache1 = []"
  "ar_bundleName (cp_apps exCache1 5) = ''app''" "ar_uid (cp_apps exCache1 5) = 1"
  by code_simp+

theorem process_cache_reachable_witness:
  "cachedOf exCache1 ''app'' 1 = listed {p \<in> {5}. ar_bundleName (cp_apps exCache1 p) = ''app'' \<and> ar_uid (cp_apps exCache1 p) = 1}"
  using process_cache_reachable [OF exCache1_reach] by (simp add: exCache1_values)


theorem PenddingCacheProcess_dangles_witness: "PenddingCacheProcess dangling (Some 6) exCache1 = Inl UseAfterErase"
  by (rule PenddingCacheProcess_dangles) (simp_all add: exCache1_values)

theorem RefreshCacheNum_zero_kills_witness:
  "\<exists>s'. PenddingCacheProcess still_there (Some 6) (RefreshCacheNum 0 exCache1) = Inr (True, s') \<and>
     cp_queue s' = [] \<and> KillApplication 6 \<in> set (cp_calls s')"
  by (rule RefreshCacheNum_zero_kills [OF exCache1_reach exCache1_values(5)]) (simp_all add: exCache1_values)

theorem CheckAndNotifyCachedState_exact_witness:
  "fst (CheckAndNotifyCachedState ''broker'' (Some 5) exCache1) \<and>
   cp_calls (snd (CheckAndNotifyCachedState ''broker'' (Some 5) exCache1)) = [StateChanged 5 True]"
proof -
  let ?app = "\<lambda>q. ar_bundleName (cp_apps exCache1 q) = ar_bundleName (cp_apps exCache1 5) \<and>
    ar_uid (cp_apps exCache1 q) = ar_uid (cp_apps exCache1 5)"
  have "CheckAndNotifyCachedState ''broker'' (Some 5) exCache1 =
    (fst (CheckAndNotifyCachedState ''broker'' (Some 5) exCache1), snd (CheckAndNotifyCachedState ''broker'' (Some 5) exCache1))"
    by simp
  from CheckAndNotifyCachedState_exact [OF exCache1_reach exCache1_values(3) this refl]
  have "fst (CheckAndNotifyCachedState ''broker'' (Some 5) exCache1)"
    "cp_calls (snd (CheckAndNotifyCachedState ''broker'' (Some 5) exCache1)) =
       [StateChanged (Min {q \<in> set (cp_queue exCache1). ?app q}) True]"
    by (auto simp: exCache1_values)
  moreover have "{q \<in> set (cp_queue exCache1). ?app q} = {5}" by (auto simp: exCache1_values)
  ultimately show ?thesis by simp
qed

end
