(* ===== verification/Pending_Want.thy ===== *)
theory Pending_Want
  imports Ordered_Map "HOL-Library.Word"
begin

unbundle bit_operations_syntax

text \<open>
  Pending wants (\<open>services/abilitymgr/src/pending_want_manager.cpp\<close>, \<open>pending_want_record.cpp\<close>,
  \<open>pending_want_key.cpp\<close>).

  A want agent is a record of an operation that another application may trigger later: start an ability,
  start several, publish an event.  The manager keeps the records by key; asking for an agent
  with an equal key gives the same record, unless the flags ask to cancel or update it.

  \<^item> A record and its key are two heap objects made together; both live at one address of \<open>pw_heap\<close>.
    \<open>wantRecords_\<close> maps key pointers to records: it is the ordered list \<open>pw_records\<close> of addresses.  The
    address of a new record is an argument.
  \<^item> \<open>Want\<close> is a class outside the repository: the record \<open>want\<close> has the parts the code reads and writes, and
    its equality test is the parameter \<open>eq\<close>.
  \<^item> The caller and the other services are the record \<open>pending_env\<close>; what they are asked to do is logged in
    \<open>pw_log\<close>.
  \<^item> The counter of record ids is kept unreduced; a code is its value at the width of an \<open>int32_t\<close>.
\<close>

section \<open>Data\<close>

datatype want_param = IntParam int | StrParam string | OtherParam nat

record want =
  w_bundleName :: string
  w_deviceId :: string
  w_flags :: "32 word"
  w_params :: "(string, want_param) omap"
  w_rest :: nat

definition emptyWant :: want where
  "emptyWant = \<lparr>w_bundleName = '''', w_deviceId = '''', w_flags = 0, w_params = [], w_rest = 0\<rparr>"

record wants_info =
  wi_want :: want
  wi_resolvedTypes :: string

definition UNKNOWN_TYPE :: int where "UNKNOWN_TYPE = 0"
definition START_ABILITY :: int where "START_ABILITY = 1"
definition START_ABILITIES :: int where "START_ABILITIES = 2"
definition START_SERVICE :: int where "START_SERVICE = 3"
definition SEND_COMMON_EVENT :: int where "SEND_COMMON_EVENT = 4"
definition START_FOREGROUND_SERVICE :: int where "START_FOREGROUND_SERVICE = 5"
definition START_SERVICE_EXTENSION :: int where "START_SERVICE_EXTENSION = 6"

lemmas operation_types = UNKNOWN_TYPE_def START_ABILITY_def START_ABILITIES_def START_SERVICE_def SEND_COMMON_EVENT_def
  START_FOREGROUND_SERVICE_def START_SERVICE_EXTENSION_def

definition ONE_TIME_FLAG :: "32 word" where "ONE_TIME_FLAG = push_bit 30 1"
definition NO_BUILD_FLAG :: "32 word" where "NO_BUILD_FLAG = push_bit 29 1"
definition CANCEL_PRESENT_FLAG :: "32 word" where "CANCEL_PRESENT_FLAG = push_bit 28 1"
definition UPDATE_PRESENT_FLAG :: "32 word" where "UPDATE_PRESENT_FLAG = push_bit 27 1"
definition CONSTANT_FLAG :: "32 word" where "CONSTANT_FLAG = push_bit 26 1"
definition ALLOW_CANCEL_FLAG :: "32 word" where "ALLOW_CANCEL_FLAG = push_bit 20 1"

definition hasFlag :: "32 word \<Rightarrow> 32 word \<Rightarrow> bool" where
  "hasFlag f flags \<longleftrightarrow> flags AND f \<noteq> 0"

text \<open>Of the codes only the two comparisons with \<open>NO_ERROR\<close> and \<open>ERR_WANTAGENT_CANCELED\<close> matter.\<close>

definition NO_ERROR :: int where "NO_ERROR = 0"
definition ERR_WANTAGENT_CANCELED :: int where "ERR_WANTAGENT_CANCELED = 2097335"
definition PW_INVALID_VALUE :: int where "PW_INVALID_VALUE = 22"

record want_sender_info =
  ws_type :: int
  ws_requestCode :: int
  ws_flags :: "32 word"
  ws_userId :: int
  ws_appIndex :: int
  ws_bundleName :: string
  ws_resultWho :: string
  ws_allWants :: "wants_info list"

record pending_key =
  pk_type :: int
  pk_bundleName :: string
  pk_requestWho :: string
  pk_requestCode :: int
  pk_requestWant :: want
  pk_requestResolvedType :: string
  pk_allWantsInfos :: "wants_info list"
  pk_flags :: "32 word"
  pk_code :: "32 word"
  pk_userId :: int
  pk_appIndex :: int

record pending_record =
  pr_uid :: int
  pr_callerTokenId :: int
  pr_callerUid :: int
  pr_publisherUid :: int
  pr_canceled :: bool
  pr_cancelCallbacks :: "nat list"
  pr_key :: pending_key

record agent_count =
  ag_currentNumber :: int
  ag_latestMinNumber :: int
  ag_DFXFlag :: bool

datatype pending_effect =
  CancelSent nat nat int  \<comment> \<open>a cancel callback of the record is called with the request code\<close>
| ClosedFds nat
| NumberEvent string int
| Received want int string  \<comment> \<open>\<open>PerformReceive\<close>\<close>
| Executes nat int  \<comment> \<open>the start of \<open>ExecuteOperation\<close> for the record, with its type\<close>
| StartLocal want bool int int
| StartRemote want
| StartExtension want
| Publish want int int

record pending_mgr =
  pw_heap :: "nat \<Rightarrow> pending_record option"
  pw_records :: "nat list"
  pw_agentCount :: "(string, agent_count) omap"
  pw_idCount :: nat
  pw_log :: "pending_effect list"

text \<open>A sender handed in over IPC: null, a proxy (or without object), or a record of this process.\<close>

datatype sender = NullSender | ProxySender | LocalSender nat

record pending_env =
  pe_isSACall :: bool
  pe_isSystemAppCall :: bool
  pe_callingTokenId :: int
  pe_localDeviceId :: string
  pe_startLocal :: "want \<Rightarrow> bool \<Rightarrow> int \<Rightarrow> int \<Rightarrow> int"
  pe_startRemote :: "(want \<Rightarrow> int) option"
  pe_startExtension :: "want \<Rightarrow> int"
  pe_publish :: "want \<Rightarrow> bool"
  pe_nameAndIndexForUid :: "int \<Rightarrow> (string \<times> int) option"
  pe_instanceKeys :: "string \<Rightarrow> string list option"
  pe_isFocused :: bool
  pe_isAbilityForegrounding :: bool
  pe_windowStates :: "(bool \<times> bool) list option"
  pe_backgroundPermission :: bool
  pe_managerAlive :: bool
  pe_MAX_USER_ID :: int

record sender_info =
  si_code :: int
  si_want :: want
  si_hasFinishedReceiver :: bool
  si_hasStartOptions :: bool
  si_operType :: int
  si_tokenId :: int

definition logEffect :: "pending_effect \<Rightarrow> pending_mgr \<Rightarrow> pending_mgr" where
  "logEffect e s = s\<lparr>pw_log := pw_log s @ [e]\<rparr>"

definition setRecord :: "nat \<Rightarrow> pending_record \<Rightarrow> pending_mgr \<Rightarrow> pending_mgr" where
  "setRecord a r s = s\<lparr>pw_heap := (pw_heap s)(a \<mapsto> r)\<rparr>"

section \<open>Counting agents\<close>

definition HandleAddWantAgentNumber :: "string \<Rightarrow> pending_mgr \<Rightarrow> pending_mgr" where
  "HandleAddWantAgentNumber bundleName s =
     (case omap_find (pw_agentCount s) bundleName of
        None \<Rightarrow> s\<lparr>pw_agentCount := omap_put bundleName \<lparr>ag_currentNumber = 1, ag_latestMinNumber = 1, ag_DFXFlag = False\<rparr> (pw_agentCount s)\<rparr>
      | Some c \<Rightarrow>
          let c = c\<lparr>ag_currentNumber := ag_currentNumber c + 1\<rparr>
          in if ag_DFXFlag c
             then let s = s\<lparr>pw_agentCount := omap_put bundleName c (pw_agentCount s)\<rparr>
                  in if ag_currentNumber c > 288 \<and> ag_currentNumber c - ag_latestMinNumber c > 40 \<and> ag_currentNumber c mod 10 = 0
                     then logEffect (NumberEvent bundleName (ag_currentNumber c)) s else s
             else if ag_currentNumber c > 288
             then logEffect (NumberEvent bundleName (ag_currentNumber c))
                    (s\<lparr>pw_agentCount := omap_put bundleName (c\<lparr>ag_DFXFlag := True\<rparr>) (pw_agentCount s)\<rparr>)
             else s\<lparr>pw_agentCount := omap_put bundleName c (pw_agentCount s)\<rparr>)"

definition AddWantAgentNumber :: "pending_env \<Rightarrow> string \<Rightarrow> pending_mgr \<Rightarrow> pending_mgr" where
  "AddWantAgentNumber ev bundleName s =
     (if pe_isSystemAppCall ev \<or> pe_isSACall ev then s else HandleAddWantAgentNumber bundleName s)"

definition HandleReduceWantAgentNumber :: "string \<Rightarrow> pending_mgr \<Rightarrow> pending_mgr" where
  "HandleReduceWantAgentNumber bundleName s =
     (case omap_find (pw_agentCount s) bundleName of
        None \<Rightarrow> s
      | Some c \<Rightarrow>
          if ag_currentNumber c = 1 then s\<lparr>pw_agentCount := omap_erase bundleName (pw_agentCount s)\<rparr>
          else s\<lparr>pw_agentCount := omap_put bundleName
                   (c\<lparr>ag_currentNumber := ag_currentNumber c - 1, ag_latestMinNumber := ag_currentNumber c - 1\<rparr>) (pw_agentCount s)\<rparr>)"

definition ReduceWantAgentNumber :: "pending_env \<Rightarrow> string \<Rightarrow> pending_mgr \<Rightarrow> pending_mgr" where
  "ReduceWantAgentNumber ev bundleName s =
     (if pe_isSystemAppCall ev \<or> pe_isSACall ev then s else HandleReduceWantAgentNumber bundleName s)"

section \<open>Records\<close>

definition CheckPendingWantRecordByKey :: "(want \<Rightarrow> want \<Rightarrow> bool) \<Rightarrow> pending_key \<Rightarrow> pending_key \<Rightarrow> bool" where
  "CheckPendingWantRecordByKey eq inputKey key =
     (if pk_appIndex inputKey \<noteq> pk_appIndex key then False
      else if pk_bundleName inputKey \<noteq> pk_bundleName key then False
      else if pk_type inputKey \<noteq> pk_type key then False
      else if pk_requestWho inputKey \<noteq> pk_requestWho key then False
      else if pk_requestCode inputKey \<noteq> pk_requestCode key then False
      else if pk_requestResolvedType inputKey \<noteq> pk_requestResolvedType key then False
      else if pk_userId inputKey \<noteq> pk_userId key then False
      else eq (pk_requestWant inputKey) (pk_requestWant key))"

definition GetPendingWantRecordByKey :: "(want \<Rightarrow> want \<Rightarrow> bool) \<Rightarrow> pending_key \<Rightarrow> pending_mgr \<Rightarrow> nat option" where
  "GetPendingWantRecordByKey eq key s =
     find (\<lambda>a. case pw_heap s a of None \<Rightarrow> False | Some r \<Rightarrow> CheckPendingWantRecordByKey eq (pr_key r) key) (pw_records s)"

definition MakeWantSenderCanceledLocked :: "nat \<Rightarrow> pending_mgr \<Rightarrow> pending_mgr cpp" where
  "MakeWantSenderCanceledLocked a s =
     cpp_bind (deref (pw_heap s a)) (\<lambda>r.
       let s = setRecord a (r\<lparr>pr_canceled := True\<rparr>) s;
           s = fold (\<lambda>callback. logEffect (CancelSent a callback (pk_requestCode (pr_key r)))) (pr_cancelCallbacks r) s
       in Inr (if 0 <s pk_code (pr_key r) then logEffect (ClosedFds a) s else s))"

definition CancelWantSenderLocked :: "pending_env \<Rightarrow> nat \<Rightarrow> bool \<Rightarrow> pending_mgr \<Rightarrow> pending_mgr cpp" where
  "CancelWantSenderLocked ev a cleanAbility s =
     cpp_bind (MakeWantSenderCanceledLocked a s) (\<lambda>s.
       if cleanAbility
       then cpp_bind (deref (pw_heap s a)) (\<lambda>r.
              let s = ReduceWantAgentNumber ev (pk_bundleName (pr_key r)) s
              in Inr (s\<lparr>pw_records := removeAll a (pw_records s)\<rparr>))
       else Inr s)"

definition CancelWantSender :: "pending_env \<Rightarrow> bool \<Rightarrow> sender \<Rightarrow> pending_mgr \<Rightarrow> pending_mgr cpp" where
  "CancelWantSender ev isSystemAppCall sender s =
     (case sender of
        NullSender \<Rightarrow> Inr s
      | ProxySender \<Rightarrow> Inr s
      | LocalSender a \<Rightarrow>
          if \<not> pe_isSACall ev \<and> \<not> isSystemAppCall then Inr s
          else CancelWantSenderLocked ev a True s)"

definition makeKey :: "want_sender_info \<Rightarrow> int \<Rightarrow> pending_key" where
  "makeKey info appIndex = \<lparr>pk_type = ws_type info, pk_bundleName = ws_bundleName info, pk_requestWho = ws_resultWho info,
     pk_requestCode = ws_requestCode info,
     pk_requestWant = (if ws_allWants info \<noteq> [] then wi_want (last (ws_allWants info)) else emptyWant),
     pk_requestResolvedType = (if ws_allWants info \<noteq> [] then wi_resolvedTypes (last (ws_allWants info)) else ''''),
     pk_allWantsInfos = ws_allWants info, pk_flags = ws_flags info, pk_code = 0, pk_userId = ws_userId info,
     pk_appIndex = appIndex\<rparr>"

text \<open>An existing record that is not cancelled: updated in place when asked.\<close>

definition updateRecord :: "want_sender_info \<Rightarrow> int \<Rightarrow> int \<Rightarrow> nat \<Rightarrow> pending_mgr \<Rightarrow> pending_mgr cpp" where
  "updateRecord info callingUid publisherUid a s =
     cpp_bind (deref (pw_heap s a)) (\<lambda>r.
       if hasFlag UPDATE_PRESENT_FLAG (ws_flags info) \<and> ws_allWants info \<noteq> []
       then Inr (setRecord a (r\<lparr>pr_key := (pr_key r)\<lparr>pk_requestWant := wi_want (last (ws_allWants info)),
                    pk_requestResolvedType := wi_resolvedTypes (last (ws_allWants info)),
                    pk_allWantsInfos := ws_allWants info\<rparr>,
                  pr_callerUid := callingUid, pr_publisherUid := publisherUid\<rparr>) s)
       else Inr s)"

text \<open>A new record at the fresh address \<open>addr\<close>.\<close>

definition createRecord ::
  "pending_env \<Rightarrow> want_sender_info \<Rightarrow> int \<Rightarrow> int \<Rightarrow> int \<Rightarrow> int \<Rightarrow> nat \<Rightarrow> pending_mgr \<Rightarrow> pending_mgr" where
  "createRecord ev info callingUid uid appIndex publisherUid addr s =
     (let code = word_of_nat (pw_idCount s + 1);
          r = \<lparr>pr_uid = uid, pr_callerTokenId = pe_callingTokenId ev, pr_callerUid = callingUid, pr_publisherUid = publisherUid,
               pr_canceled = False, pr_cancelCallbacks = [], pr_key = (makeKey info appIndex)\<lparr>pk_code := code\<rparr>\<rparr>;
          s = setRecord addr r (s\<lparr>pw_idCount := pw_idCount s + 1\<rparr>);
          s = AddWantAgentNumber ev (ws_bundleName info) s
      in s\<lparr>pw_records := insort_insert addr (pw_records s)\<rparr>)"

definition GetWantSenderLocked ::
  "(want \<Rightarrow> want \<Rightarrow> bool) \<Rightarrow> pending_env \<Rightarrow> int \<Rightarrow> int \<Rightarrow> want_sender_info \<Rightarrow> int \<Rightarrow> int \<Rightarrow> nat \<Rightarrow> pending_mgr \<Rightarrow>
   (nat option \<times> pending_mgr) cpp" where
  "GetWantSenderLocked eq ev callingUid uid info appIndex publisherUid addr s =
     (let needCreate = \<not> hasFlag NO_BUILD_FLAG (ws_flags info);
          needCancel = hasFlag CANCEL_PRESENT_FLAG (ws_flags info);
          ref = GetPendingWantRecordByKey eq (makeKey info appIndex) s
      in case ref of
           Some a \<Rightarrow>
             if \<not> needCancel then cpp_bind (updateRecord info callingUid publisherUid a s) (\<lambda>s. Inr (Some a, s))
             else cpp_bind (CancelWantSenderLocked ev a True s) (\<lambda>s.
                    if \<not> needCreate then Inr (Some a, s)
                    else Inr (Some addr, createRecord ev info callingUid uid appIndex publisherUid addr s))
         | None \<Rightarrow>
             if \<not> needCreate then Inr (None, s)
             else Inr (Some addr, createRecord ev info callingUid uid appIndex publisherUid addr s))"

text \<open>A third-party application may only use wants of its own bundle.\<close>

definition ownWants :: "want_sender_info \<Rightarrow> want_sender_info" where
  "ownWants info = info\<lparr>ws_allWants := map (\<lambda>i. i\<lparr>wi_want := (wi_want i)\<lparr>w_params :=
       omap_erase ''ohos.extra.param.key.appCloneIndex'' (w_params (wi_want i))\<rparr>\<rparr>)
     (filter (\<lambda>i. ws_bundleName info = w_bundleName (wi_want i)) (ws_allWants info))\<rparr>"

definition GetWantSender ::
  "(want \<Rightarrow> want \<Rightarrow> bool) \<Rightarrow> pending_env \<Rightarrow> int \<Rightarrow> int \<Rightarrow> bool \<Rightarrow> want_sender_info \<Rightarrow> int \<Rightarrow> int \<Rightarrow> nat \<Rightarrow> pending_mgr \<Rightarrow>
   (nat option \<times> pending_mgr) cpp" where
  "GetWantSender eq ev callingUid uid isSystemApp info appIndex publisherUid addr s =
     (if ws_type info \<noteq> SEND_COMMON_EVENT \<and> callingUid \<noteq> uid \<and> \<not> isSystemApp \<and> \<not> pe_isSACall ev then Inr (None, s)
      else if ws_type info = START_SERVICE_EXTENSION \<and> \<not> isSystemApp \<and> \<not> pe_isSACall ev then Inr (None, s)
      else GetWantSenderLocked eq ev callingUid uid
             (if ws_type info \<noteq> SEND_COMMON_EVENT \<and> \<not> isSystemApp \<and> \<not> pe_isSACall ev then ownWants info else info)
             appIndex publisherUid addr s)"


section \<open>Building the want to send\<close>

definition APP_MULTI_INSTANCE :: string where
  "APP_MULTI_INSTANCE = ''ohos.extra.param.key.appInstance''"

definition PARAM_APP_CLONE_INDEX_KEY :: string where
  "PARAM_APP_CLONE_INDEX_KEY = ''ohos.extra.param.key.appCloneIndex''"

text \<open>The out-parameter \<open>appIndex\<close> is written by the bundle manager whether or not the bundle matches.\<close>

definition GetAppIndexbyUid :: "pending_env \<Rightarrow> int \<Rightarrow> string \<Rightarrow> int \<Rightarrow> int \<times> int" where
  "GetAppIndexbyUid ev uid bundleName appIndex =
     (case pe_nameAndIndexForUid ev uid of
        None \<Rightarrow> (PW_INVALID_VALUE, appIndex)
      | Some (getBundleName, i) \<Rightarrow> if getBundleName \<noteq> bundleName then (PW_INVALID_VALUE, i) else (NO_ERROR, i))"

definition GetStringParam :: "string \<Rightarrow> (string, want_param) omap \<Rightarrow> string" where
  "GetStringParam k ps = (case omap_find ps k of Some (StrParam v) \<Rightarrow> v | _ \<Rightarrow> '''')"

definition GetAllRunningInstanceKeysByBundleName :: "pending_env \<Rightarrow> string \<Rightarrow> string list option" where
  "GetAllRunningInstanceKeysByBundleName ev bundleName =
     (if bundleName = '''' then None else pe_instanceKeys ev bundleName)"

definition CheckAppInstanceKey ::
  "pending_env \<Rightarrow> pending_key \<Rightarrow> string \<Rightarrow> (string, want_param) omap \<Rightarrow> (string, want_param) omap" where
  "CheckAppInstanceKey ev key bundleName wantParams =
     (if \<not> (START_ABILITY = pk_type key \<or> START_ABILITIES = pk_type key) then wantParams
      else let appKey = GetStringParam APP_MULTI_INSTANCE wantParams
           in if appKey = '''' then wantParams
              else if \<not> pe_managerAlive ev then wantParams
              else if bundleName = '''' then wantParams
              else case GetAllRunningInstanceKeysByBundleName ev bundleName of
                None \<Rightarrow> wantParams
              | Some appKeyVec \<Rightarrow> if appKey \<notin> set appKeyVec then omap_erase APP_MULTI_INSTANCE wantParams else wantParams)"

text \<open>The loop adds what the stored want does not have.\<close>

definition addParams ::
  "(string, want_param) omap \<Rightarrow> (string, want_param) omap \<Rightarrow> (string, want_param) omap \<Rightarrow> (string, want_param) omap" where
  "addParams stored sent wantParams =
     fold (\<lambda>mapIter ps. if omap_find stored (fst mapIter) = None then omap_put (fst mapIter) (snd mapIter) ps else ps) sent wantParams"

definition BuildSendWant :: "pending_env \<Rightarrow> pending_record \<Rightarrow> sender_info \<Rightarrow> want" where
  "BuildSendWant ev r senderInfo =
     (let key = pr_key r;
          want = (if pk_allWantsInfos key \<noteq> [] then pk_requestWant key else emptyWant);
          flags = pk_flags key;
          immutable = hasFlag CONSTANT_FLAG flags \<or> hasFlag ALLOW_CANCEL_FLAG flags;
          constant = hasFlag CONSTANT_FLAG flags;
          want = (if \<not> immutable then want\<lparr>w_flags := w_flags want OR flags\<rparr> else want);
          wantParams = w_params want;
          wantParams = (if \<not> constant then addParams (w_params want) (w_params (si_want senderInfo)) wantParams else wantParams);
          wantParams = (if omap_find wantParams PARAM_APP_CLONE_INDEX_KEY = None
                        then let appIndex = (if pr_uid r \<noteq> -1 \<and> w_bundleName want \<noteq> ''''
                                             then snd (GetAppIndexbyUid ev (pr_uid r) (w_bundleName want) (pk_appIndex key))
                                             else pk_appIndex key)
                             in omap_put PARAM_APP_CLONE_INDEX_KEY (IntParam appIndex) wantParams
                        else wantParams);
          wantParams = CheckAppInstanceKey ev key (w_bundleName want) wantParams
      in want\<lparr>w_params := wantParams\<rparr>)"

section \<open>Triggering\<close>

definition START_ABILITY_WAITING :: int where
  "START_ABILITY_WAITING = 2097159"

definition DeviceIdDetermine :: "pending_env \<Rightarrow> want \<Rightarrow> bool \<Rightarrow> int \<Rightarrow> int \<Rightarrow> pending_mgr \<Rightarrow> int \<times> pending_mgr" where
  "DeviceIdDetermine ev want startOptions callerTokenId userId s =
     (if w_deviceId want = '''' \<or> w_deviceId want = pe_localDeviceId ev
      then (pe_startLocal ev want startOptions callerTokenId userId, logEffect (StartLocal want startOptions callerTokenId userId) s)
      else case pe_startRemote ev of
        None \<Rightarrow> (PW_INVALID_VALUE, s)
      | Some StartRemoteAbility \<Rightarrow> (StartRemoteAbility want, logEffect (StartRemote want) s))"

definition PendingWantStartAbility :: "pending_env \<Rightarrow> want \<Rightarrow> bool \<Rightarrow> int \<Rightarrow> int \<Rightarrow> pending_mgr \<Rightarrow> int \<times> pending_mgr" where
  "PendingWantStartAbility ev want startOptions callerTokenId userId s =
     DeviceIdDetermine ev want startOptions callerTokenId userId s"

definition PendingWantStartServiceExtension :: "pending_env \<Rightarrow> want \<Rightarrow> pending_mgr \<Rightarrow> int \<times> pending_mgr" where
  "PendingWantStartServiceExtension ev want s =
     (if \<not> pe_isSystemAppCall ev \<and> \<not> pe_isSACall ev then (PW_INVALID_VALUE, s)
      else let want = want\<lparr>w_flags := 0\<rparr> in (pe_startExtension ev want, logEffect (StartExtension want) s))"

fun startLoop :: "pending_env \<Rightarrow> wants_info list \<Rightarrow> bool \<Rightarrow> int \<Rightarrow> int \<Rightarrow> int \<Rightarrow> pending_mgr \<Rightarrow> int \<times> pending_mgr" where
  "startLoop ev [] startOptions callerTokenId userId result s = (result, s)"
| "startLoop ev (item # wantsInfo) startOptions callerTokenId userId result s =
     (let (res, s) = DeviceIdDetermine ev (wi_want item) startOptions callerTokenId userId s
      in startLoop ev wantsInfo startOptions callerTokenId userId
           (if res \<noteq> NO_ERROR \<and> res \<noteq> START_ABILITY_WAITING then res else result) s)"

definition PendingWantStartAbilitys :: "pending_env \<Rightarrow> wants_info list \<Rightarrow> bool \<Rightarrow> int \<Rightarrow> int \<Rightarrow> pending_mgr \<Rightarrow> int \<times> pending_mgr" where
  "PendingWantStartAbilitys ev wantsInfo startOptions callerTokenId userId s =
     startLoop ev wantsInfo startOptions callerTokenId userId NO_ERROR s"

definition PendingWantPublishCommonEvent :: "pending_env \<Rightarrow> want \<Rightarrow> int \<Rightarrow> int \<Rightarrow> pending_mgr \<Rightarrow> int \<times> pending_mgr" where
  "PendingWantPublishCommonEvent ev want publisherUid callerTokenId s =
     (if pe_publish ev want then NO_ERROR else -1, logEffect (Publish want publisherUid callerTokenId) s)"

definition ExecuteOperation ::
  "pending_env \<Rightarrow> nat \<Rightarrow> pending_record \<Rightarrow> sender_info \<Rightarrow> want \<Rightarrow> pending_mgr \<Rightarrow> int \<times> pending_mgr" where
  "ExecuteOperation ev a r senderInfo want s =
     (let key = pr_key r; s = logEffect (Executes a (pk_type key)) s;
          userId = (if pk_userId key \<le> 0 \<or> pk_userId key > pe_MAX_USER_ID ev then -1 else pk_userId key)
      in if pk_type key = START_ABILITY
         then PendingWantStartAbility ev want (si_hasStartOptions senderInfo) (pr_callerTokenId r) userId s
         else if pk_type key = START_ABILITIES
         then if pk_allWantsInfos key = [] then (PW_INVALID_VALUE, s)
              else PendingWantStartAbilitys ev
                     (butlast (pk_allWantsInfos key) @ [(last (pk_allWantsInfos key))\<lparr>wi_want := want\<rparr>])
                     (si_hasStartOptions senderInfo) (pr_callerTokenId r) userId s
         else if pk_type key = START_SERVICE \<or> pk_type key = START_FOREGROUND_SERVICE
         then PendingWantStartAbility ev want False (pr_callerTokenId r) userId s
         else if pk_type key = SEND_COMMON_EVENT
         then PendingWantPublishCommonEvent ev want (pr_publisherUid r) (pr_callerTokenId r) s
         else if pk_type key = START_SERVICE_EXTENSION
         then PendingWantStartServiceExtension ev want s
         else (NO_ERROR, s))"

definition receive :: "sender_info \<Rightarrow> want \<Rightarrow> string \<Rightarrow> pending_mgr \<Rightarrow> pending_mgr" where
  "receive senderInfo want data s =
     (if si_hasFinishedReceiver senderInfo then logEffect (Received want (si_code senderInfo) data) s else s)"

definition SenderInner :: "pending_env \<Rightarrow> nat \<Rightarrow> sender_info \<Rightarrow> pending_mgr \<Rightarrow> (int \<times> pending_mgr) cpp" where
  "SenderInner ev a senderInfo s =
     cpp_bind (deref (pw_heap s a)) (\<lambda>r.
       if pr_canceled r then Inr (ERR_WANTAGENT_CANCELED, receive senderInfo emptyWant ''canceled'' s)
       else if \<not> pe_managerAlive ev then Inr (PW_INVALID_VALUE, s)
       else cpp_bind (if hasFlag ONE_TIME_FLAG (pk_flags (pr_key r)) then CancelWantSenderLocked ev a True s else Inr s) (\<lambda>s.
              let want = BuildSendWant ev r senderInfo;
                  (res, s) = ExecuteOperation ev a r senderInfo want s;
                  s = (if res \<noteq> ERR_WANTAGENT_CANCELED then receive senderInfo want '''' s else s)
              in Inr (if res \<noteq> NO_ERROR then PW_INVALID_VALUE else res, s)))"

definition CheckWindowState :: "pending_env \<Rightarrow> bool" where
  "CheckWindowState ev =
     (case pe_windowStates ev of
        None \<Rightarrow> False
      | Some windowStates \<Rightarrow>
          windowStates \<noteq> [] \<and> list_all (\<lambda>(isPcOrPadEnableActivation, isForegroundInteractive).
             isPcOrPadEnableActivation \<or> isForegroundInteractive) windowStates)"

definition CheckCallerPermission :: "pending_env \<Rightarrow> bool" where
  "CheckCallerPermission ev =
     (if (\<not> pe_isFocused ev \<and> \<not> pe_isAbilityForegrounding ev) \<or> (\<not> pe_isSystemAppCall ev \<and> \<not> CheckWindowState ev)
      then pe_backgroundPermission ev \<or> pe_isSACall ev
      else True)"

definition CheckPermission :: "pending_env \<Rightarrow> pending_record \<Rightarrow> bool" where
  "CheckPermission ev r =
     (let type = (if pr_canceled r then UNKNOWN_TYPE else pk_type (pr_key r))
      in if type = START_ABILITY \<or> type = START_ABILITIES \<or> type = START_SERVICE \<or> type = START_FOREGROUND_SERVICE
         then CheckCallerPermission ev else True)"

definition SendWantSender :: "pending_env \<Rightarrow> sender \<Rightarrow> sender_info \<Rightarrow> pending_mgr \<Rightarrow> (int \<times> pending_mgr) cpp" where
  "SendWantSender ev target senderInfo s =
     (case target of
        LocalSender a \<Rightarrow>
          cpp_bind (deref (pw_heap s a)) (\<lambda>r.
            if \<not> CheckPermission ev r
            then Inr (PW_INVALID_VALUE, receive senderInfo (BuildSendWant ev r senderInfo) '''' s)
            else SenderInner ev a senderInfo s)
      | _ \<Rightarrow> Inr (PW_INVALID_VALUE, receive senderInfo emptyWant ''canceled'' s))"

definition SendLocalWantSender :: "pending_env \<Rightarrow> sender_info \<Rightarrow> pending_mgr \<Rightarrow> int \<times> pending_mgr" where
  "SendLocalWantSender ev senderInfo s =
     (let (result, s) =
            (if si_operType senderInfo = START_ABILITY
             then PendingWantStartAbility ev (si_want senderInfo) (si_hasStartOptions senderInfo) (si_tokenId senderInfo) (-1) s
             else if si_operType senderInfo = START_SERVICE
             then PendingWantStartAbility ev (si_want senderInfo) False (si_tokenId senderInfo) (-1) s
             else (NO_ERROR, s))
      in (result, if result \<noteq> ERR_WANTAGENT_CANCELED then receive senderInfo (si_want senderInfo) '''' s else s))"

section \<open>Queries and listeners\<close>

definition GetPendingWantRecordByCode :: "32 word \<Rightarrow> pending_mgr \<Rightarrow> nat option" where
  "GetPendingWantRecordByCode code s =
     find (\<lambda>a. case pw_heap s a of None \<Rightarrow> False | Some r \<Rightarrow> pk_code (pr_key r) = code) (pw_records s)"

text \<open>The common part of the queries: the registered record with the code of the sender's record.\<close>

definition targetRecord :: "sender \<Rightarrow> pending_mgr \<Rightarrow> (nat \<times> pending_record) option cpp" where
  "targetRecord target s =
     (case target of
        LocalSender a \<Rightarrow>
          cpp_bind (deref (pw_heap s a)) (\<lambda>r.
            Inr (case GetPendingWantRecordByCode (pk_code (pr_key r)) s of
                   None \<Rightarrow> None | Some b \<Rightarrow> map_option (Pair b) (pw_heap s b)))
      | _ \<Rightarrow> Inr None)"

definition GetPendingWantUid :: "sender \<Rightarrow> pending_mgr \<Rightarrow> int cpp" where
  "GetPendingWantUid target s =
     cpp_bind (targetRecord target s) (\<lambda>x. Inr (case x of None \<Rightarrow> -1 | Some (_, record) \<Rightarrow> pr_uid record))"

definition GetPendingWantUserId :: "sender \<Rightarrow> pending_mgr \<Rightarrow> int cpp" where
  "GetPendingWantUserId target s =
     cpp_bind (targetRecord target s) (\<lambda>x. Inr (case x of None \<Rightarrow> -1 | Some (_, record) \<Rightarrow> pk_userId (pr_key record)))"

definition GetPendingWantBundleName :: "sender \<Rightarrow> pending_mgr \<Rightarrow> string cpp" where
  "GetPendingWantBundleName target s =
     cpp_bind (targetRecord target s) (\<lambda>x. Inr (case x of None \<Rightarrow> '''' | Some (_, record) \<Rightarrow> pk_bundleName (pr_key record)))"

definition GetPendingWantCode :: "sender \<Rightarrow> pending_mgr \<Rightarrow> int cpp" where
  "GetPendingWantCode target s =
     cpp_bind (targetRecord target s) (\<lambda>x. Inr (case x of None \<Rightarrow> -1 | Some (_, record) \<Rightarrow> sint (pk_code (pr_key record))))"

definition GetPendingWantType :: "sender \<Rightarrow> pending_mgr \<Rightarrow> int cpp" where
  "GetPendingWantType target s =
     cpp_bind (targetRecord target s) (\<lambda>x. Inr (case x of None \<Rightarrow> -1 | Some (_, record) \<Rightarrow> pk_type (pr_key record)))"

definition GetPendingRequestWant :: "sender \<Rightarrow> pending_mgr \<Rightarrow> (int \<times> want option) cpp" where
  "GetPendingRequestWant target s =
     cpp_bind (targetRecord target s) (\<lambda>x.
       Inr (case x of None \<Rightarrow> (PW_INVALID_VALUE, None) | Some (_, record) \<Rightarrow> (NO_ERROR, Some (pk_requestWant (pr_key record)))))"

definition GetPendingRequestWantFromProxy :: "sender \<Rightarrow> pending_mgr \<Rightarrow> (int \<times> want option) cpp" where
  "GetPendingRequestWantFromProxy target s =
     (case target of
        LocalSender a \<Rightarrow> cpp_bind (deref (pw_heap s a)) (\<lambda>r. Inr (NO_ERROR, Some (pk_requestWant (pr_key r))))
      | _ \<Rightarrow> Inr (PW_INVALID_VALUE, None))"

definition GetWantSenderInfo :: "sender \<Rightarrow> pending_mgr \<Rightarrow> (int \<times> want_sender_info option) cpp" where
  "GetWantSenderInfo target s =
     cpp_bind (targetRecord target s) (\<lambda>x.
       Inr (case x of
              None \<Rightarrow> (PW_INVALID_VALUE, None)
            | Some (_, record) \<Rightarrow>
                let key = pr_key record
                in (NO_ERROR, Some \<lparr>ws_type = pk_type key, ws_requestCode = pk_requestCode key, ws_flags = pk_flags key,
                      ws_userId = pk_userId key, ws_appIndex = pk_appIndex key, ws_bundleName = [], ws_resultWho = [], ws_allWants = pk_allWantsInfos key\<rparr>)))"

definition pw_RegisterCancelListener :: "sender \<Rightarrow> nat option \<Rightarrow> pending_mgr \<Rightarrow> pending_mgr cpp" where
  "pw_RegisterCancelListener sender recevier s =
     (case recevier of
        None \<Rightarrow> Inr s
      | Some c \<Rightarrow>
          cpp_bind (targetRecord sender s) (\<lambda>x.
            Inr (case x of
                   None \<Rightarrow> s
                 | Some (b, record) \<Rightarrow>
                     if \<not> pr_canceled record then setRecord b (record\<lparr>pr_cancelCallbacks := pr_cancelCallbacks record @ [c]\<rparr>) s else s)))"

definition pw_UnregisterCancelListener :: "sender \<Rightarrow> nat option \<Rightarrow> pending_mgr \<Rightarrow> pending_mgr cpp" where
  "pw_UnregisterCancelListener sender recevier s =
     (case recevier of
        None \<Rightarrow> Inr s
      | Some c \<Rightarrow>
          cpp_bind (targetRecord sender s) (\<lambda>x.
            Inr (case x of
                   None \<Rightarrow> s
                 | Some (b, record) \<Rightarrow> setRecord b (record\<lparr>pr_cancelCallbacks := remove1 c (pr_cancelCallbacks record)\<rparr>) s)))"

text \<open>The records of an uninstalled application leave the map; they are not cancelled.\<close>

definition hasBundle :: "string \<Rightarrow> int \<Rightarrow> pending_record \<Rightarrow> bool" where
  "hasBundle bundleName uid r \<longleftrightarrow>
     list_ex (\<lambda>bundleItem. bundleItem = bundleName \<and> uid = pr_uid r) (map (\<lambda>i. w_bundleName (wi_want i)) (pk_allWantsInfos (pr_key r)))"

fun clearLoop :: "pending_env \<Rightarrow> string \<Rightarrow> int \<Rightarrow> nat list \<Rightarrow> pending_mgr \<Rightarrow> nat list \<times> pending_mgr" where
  "clearLoop ev bundleName uid [] s = ([], s)"
| "clearLoop ev bundleName uid (a # rest) s =
     (case pw_heap s a of
        Some r \<Rightarrow>
          if hasBundle bundleName uid r
          then clearLoop ev bundleName uid rest (ReduceWantAgentNumber ev (pk_bundleName (pr_key r)) s)
          else (let (kept, s) = clearLoop ev bundleName uid rest s in (a # kept, s))
      | None \<Rightarrow> (let (kept, s) = clearLoop ev bundleName uid rest s in (a # kept, s)))"

definition ClearPendingWantRecordTask :: "pending_env \<Rightarrow> string \<Rightarrow> int \<Rightarrow> pending_mgr \<Rightarrow> pending_mgr" where
  "ClearPendingWantRecordTask ev bundleName uid s =
     (let (kept, s) = clearLoop ev bundleName uid (pw_records s) s in s\<lparr>pw_records := kept\<rparr>)"


section \<open>The invariant\<close>

text \<open>How often the operation of a record was executed.\<close>

definition execs :: "nat \<Rightarrow> pending_mgr \<Rightarrow> nat" where
  "execs a s = length (filter (\<lambda>e. case e of Executes b t \<Rightarrow> b = a | _ \<Rightarrow> False) (pw_log s))"

definition one_time :: "pending_record \<Rightarrow> bool" where
  "one_time r \<longleftrightarrow> hasFlag ONE_TIME_FLAG (pk_flags (pr_key r))"

text \<open>No two registered records have keys that match.\<close>

definition unique_keys :: "(want \<Rightarrow> want \<Rightarrow> bool) \<Rightarrow> pending_mgr \<Rightarrow> bool" where
  "unique_keys eq s \<longleftrightarrow> (\<forall>a\<in>set (pw_records s). \<forall>b\<in>set (pw_records s). \<forall>r r'. pw_heap s a = Some r \<longrightarrow> pw_heap s b = Some r' \<longrightarrow>
     CheckPendingWantRecordByKey eq (pr_key r) (pr_key r') \<longrightarrow> a = b)"

text \<open>Records are numbered in the order they were made.\<close>

definition numbered :: "pending_mgr \<Rightarrow> bool" where
  "numbered s \<longleftrightarrow> (\<exists>ix. inj_on ix (dom (pw_heap s)) \<and>
     (\<forall>a r. pw_heap s a = Some r \<longrightarrow> 1 \<le> ix a \<and> ix a \<le> pw_idCount s \<and> pk_code (pr_key r) = word_of_nat (ix a)))"

definition registered_live :: "pending_mgr \<Rightarrow> bool" where
  "registered_live s \<longleftrightarrow> sorted_wrt (<) (pw_records s) \<and>
     (\<forall>a\<in>set (pw_records s). \<exists>r. pw_heap s a = Some r \<and> \<not> pr_canceled r)"

definition fired_once :: "pending_mgr \<Rightarrow> bool" where
  "fired_once s \<longleftrightarrow> (\<forall>a. case pw_heap s a of
       None \<Rightarrow> execs a s = 0
     | Some r \<Rightarrow> one_time r \<longrightarrow> execs a s \<le> (if pr_canceled r then 1 else 0))"

definition pending_inv :: "(want \<Rightarrow> want \<Rightarrow> bool) \<Rightarrow> pending_mgr \<Rightarrow> bool" where
  "pending_inv eq s \<longleftrightarrow> registered_live s \<and> unique_keys eq s \<and> numbered s \<and> fired_once s"

text \<open>Matching is an equivalence when the equality of wants is one.\<close>

lemma match_iff:
  "CheckPendingWantRecordByKey eq k k' \<longleftrightarrow>
     pk_appIndex k = pk_appIndex k' \<and> pk_bundleName k = pk_bundleName k' \<and> pk_type k = pk_type k' \<and>
     pk_requestWho k = pk_requestWho k' \<and> pk_requestCode k = pk_requestCode k' \<and>
     pk_requestResolvedType k = pk_requestResolvedType k' \<and> pk_userId k = pk_userId k' \<and>
     eq (pk_requestWant k) (pk_requestWant k')"
  by (auto simp: CheckPendingWantRecordByKey_def)

lemma match_sym: "equivp eq \<Longrightarrow> CheckPendingWantRecordByKey eq k k' \<Longrightarrow> CheckPendingWantRecordByKey eq k' k"
  by (auto simp: match_iff dest: equivp_symp)

lemma match_trans:
  "equivp eq \<Longrightarrow> CheckPendingWantRecordByKey eq k k' \<Longrightarrow> CheckPendingWantRecordByKey eq k' k'' \<Longrightarrow> CheckPendingWantRecordByKey eq k k''"
  by (auto simp: match_iff dest: equivp_transp)

section \<open>Frames\<close>

named_theorems pw_frame \<open>what an operation leaves unchanged\<close>

lemma logEffect_frame [pw_frame, simp]:
  "pw_heap (logEffect e s) = pw_heap s" "pw_records (logEffect e s) = pw_records s" "pw_idCount (logEffect e s) = pw_idCount s"
  "pw_agentCount (logEffect e s) = pw_agentCount s"
  "execs a (logEffect e s) = execs a s + (case e of Executes b t \<Rightarrow> if b = a then 1 else 0 | _ \<Rightarrow> 0)"
  by (simp_all add: logEffect_def execs_def split: pending_effect.splits)

lemma setRecord_frame [pw_frame, simp]:
  "pw_heap (setRecord a r s) = (pw_heap s)(a \<mapsto> r)" "pw_records (setRecord a r s) = pw_records s"
  "pw_idCount (setRecord a r s) = pw_idCount s" "pw_agentCount (setRecord a r s) = pw_agentCount s" "execs b (setRecord a r s) = execs b s"
  by (simp_all add: setRecord_def execs_def)

lemma execs_update [simp]:
  "execs a (s\<lparr>pw_records := rs\<rparr>) = execs a s" "execs a (s\<lparr>pw_idCount := n\<rparr>) = execs a s" "execs a (s\<lparr>pw_agentCount := c\<rparr>) = execs a s"
  by (simp_all add: execs_def)

lemma count_frame [pw_frame, simp]:
  "pw_heap (AddWantAgentNumber ev b s) = pw_heap s" "pw_records (AddWantAgentNumber ev b s) = pw_records s"
  "pw_idCount (AddWantAgentNumber ev b s) = pw_idCount s" "execs a (AddWantAgentNumber ev b s) = execs a s"
  "pw_heap (ReduceWantAgentNumber ev b s) = pw_heap s" "pw_records (ReduceWantAgentNumber ev b s) = pw_records s"
  "pw_idCount (ReduceWantAgentNumber ev b s) = pw_idCount s" "execs a (ReduceWantAgentNumber ev b s) = execs a s"
  by (auto simp: AddWantAgentNumber_def HandleAddWantAgentNumber_def ReduceWantAgentNumber_def HandleReduceWantAgentNumber_def Let_def
      split: option.splits)

lemma receive_frame [pw_frame, simp]:
  "pw_heap (receive si w d s) = pw_heap s" "pw_records (receive si w d s) = pw_records s" "pw_idCount (receive si w d s) = pw_idCount s"
  "execs a (receive si w d s) = execs a s"
  by (simp_all add: receive_def)

lemma start_frame [pw_frame, simp]:
  "pw_heap (snd (DeviceIdDetermine ev w b t u s)) = pw_heap s" "pw_records (snd (DeviceIdDetermine ev w b t u s)) = pw_records s"
  "pw_idCount (snd (DeviceIdDetermine ev w b t u s)) = pw_idCount s" "execs a (snd (DeviceIdDetermine ev w b t u s)) = execs a s"
  by (auto simp: DeviceIdDetermine_def split: option.splits)

lemma startLoop_frame [pw_frame, simp]:
  "pw_heap (snd (startLoop ev ws b t u r s)) = pw_heap s" "pw_records (snd (startLoop ev ws b t u r s)) = pw_records s"
  "pw_idCount (snd (startLoop ev ws b t u r s)) = pw_idCount s" "execs a (snd (startLoop ev ws b t u r s)) = execs a s"
  by (induction ev ws b t u r s rule: startLoop.induct) (auto simp: split_beta)

lemma ExecuteOperation_frame [pw_frame, simp]:
  "pw_heap (snd (ExecuteOperation ev a r si w s)) = pw_heap s" "pw_records (snd (ExecuteOperation ev a r si w s)) = pw_records s"
  "pw_idCount (snd (ExecuteOperation ev a r si w s)) = pw_idCount s"
  "execs b (snd (ExecuteOperation ev a r si w s)) = execs b s + (if b = a then 1 else 0)"
  by (simp_all add: ExecuteOperation_def Let_def PendingWantStartAbility_def PendingWantStartAbilitys_def
      PendingWantPublishCommonEvent_def PendingWantStartServiceExtension_def)

lemma SendLocal_frame [pw_frame, simp]:
  "pw_heap (snd (SendLocalWantSender ev si s)) = pw_heap s" "pw_records (snd (SendLocalWantSender ev si s)) = pw_records s"
  "pw_idCount (snd (SendLocalWantSender ev si s)) = pw_idCount s" "execs a (snd (SendLocalWantSender ev si s)) = execs a s"
  by (simp_all add: SendLocalWantSender_def split_beta PendingWantStartAbility_def)

lemma fold_log_frame [simp]:
  "pw_heap (fold (\<lambda>c. logEffect (CancelSent a c n)) cs s) = pw_heap s"
  "pw_records (fold (\<lambda>c. logEffect (CancelSent a c n)) cs s) = pw_records s"
  "pw_idCount (fold (\<lambda>c. logEffect (CancelSent a c n)) cs s) = pw_idCount s"
  "pw_agentCount (fold (\<lambda>c. logEffect (CancelSent a c n)) cs s) = pw_agentCount s"
  "execs b (fold (\<lambda>c. logEffect (CancelSent a c n)) cs s) = execs b s"
  by (induction cs arbitrary: s) simp_all

lemma Cancel_spec:
  assumes "pw_heap s a = Some r"
  shows "\<exists>s'. CancelWantSenderLocked ev a True s = Inr s' \<and> pw_heap s' = (pw_heap s)(a \<mapsto> r\<lparr>pr_canceled := True\<rparr>) \<and>
    pw_records s' = removeAll a (pw_records s) \<and> pw_idCount s' = pw_idCount s \<and> (\<forall>b. execs b s' = execs b s)"
  using assms by (auto simp: CancelWantSenderLocked_def MakeWantSenderCanceledLocked_def Let_def)


text \<open>Changes that make no record: every record keeps its code and its one-time flag and is never
  uncancelled; what stays registered is not cancelled and keeps what its key matches.\<close>

definition pw_change :: "(want \<Rightarrow> want \<Rightarrow> bool) \<Rightarrow> pending_mgr \<Rightarrow> pending_mgr \<Rightarrow> bool" where
  "pw_change eq s s' \<longleftrightarrow> dom (pw_heap s') = dom (pw_heap s) \<and> pw_idCount s' = pw_idCount s \<and>
     set (pw_records s') \<subseteq> set (pw_records s) \<and> sorted_wrt (<) (pw_records s') \<and>
     (\<forall>b r. pw_heap s b = Some r \<longrightarrow> (\<exists>r'. pw_heap s' b = Some r' \<and> pk_code (pr_key r') = pk_code (pr_key r) \<and>
        one_time r' = one_time r \<and> (pr_canceled r \<longrightarrow> pr_canceled r') \<and>
        (b \<in> set (pw_records s') \<longrightarrow> \<not> pr_canceled r' \<and>
           (\<forall>k. CheckPendingWantRecordByKey eq (pr_key r') k = CheckPendingWantRecordByKey eq (pr_key r) k \<and>
                CheckPendingWantRecordByKey eq k (pr_key r') = CheckPendingWantRecordByKey eq k (pr_key r)))))"

lemma pw_changeD:
  assumes "pw_change eq s s'" and "pw_heap s b = Some r"
  shows "\<exists>r'. pw_heap s' b = Some r' \<and> pk_code (pr_key r') = pk_code (pr_key r) \<and>
        one_time r' = one_time r \<and> (pr_canceled r \<longrightarrow> pr_canceled r') \<and>
        (b \<in> set (pw_records s') \<longrightarrow> \<not> pr_canceled r' \<and>
           (\<forall>k. CheckPendingWantRecordByKey eq (pr_key r') k = CheckPendingWantRecordByKey eq (pr_key r) k \<and>
                CheckPendingWantRecordByKey eq k (pr_key r') = CheckPendingWantRecordByKey eq k (pr_key r)))"
  using assms by (simp add: pw_change_def)

lemma unique_keysD:
  "unique_keys eq s \<Longrightarrow> a \<in> set (pw_records s) \<Longrightarrow> pw_heap s a = Some r \<Longrightarrow> b \<in> set (pw_records s) \<Longrightarrow> pw_heap s b = Some r' \<Longrightarrow>
     CheckPendingWantRecordByKey eq (pr_key r) (pr_key r') \<Longrightarrow> a = b"
  unfolding unique_keys_def by blast

lemma change_inv:
  assumes inv: "pending_inv eq s" and ch: "pw_change eq s s'" and fired: "fired_once s'"
  shows "pending_inv eq s'"
proof -
  have sub: "set (pw_records s') \<subseteq> set (pw_records s)" and dom: "dom (pw_heap s') = dom (pw_heap s)"
    and n: "pw_idCount s' = pw_idCount s" using ch by (simp_all add: pw_change_def)
  have prev: "\<exists>r. pw_heap s b = Some r" if "pw_heap s' b = Some r'" for b r' using that dom by blast
  have "registered_live s'" unfolding registered_live_def
  proof (intro conjI ballI)
    show "sorted_wrt (<) (pw_records s')" using ch by (simp add: pw_change_def)
    fix b assume b: "b \<in> set (pw_records s')"
    then obtain r where "pw_heap s b = Some r" using sub inv by (auto simp: pending_inv_def registered_live_def)
    from pw_changeD [OF ch this] b show "\<exists>r. pw_heap s' b = Some r \<and> \<not> pr_canceled r" by blast
  qed
  moreover have "unique_keys eq s'" unfolding unique_keys_def
  proof (intro ballI allI impI)
    fix a b ra rb
    assume a: "a \<in> set (pw_records s')" "pw_heap s' a = Some ra" and b: "b \<in> set (pw_records s')" "pw_heap s' b = Some rb"
      and m: "CheckPendingWantRecordByKey eq (pr_key ra) (pr_key rb)"
    obtain qa qb where q: "pw_heap s a = Some qa" "pw_heap s b = Some qb" using prev a b by blast
    have "CheckPendingWantRecordByKey eq (pr_key qa) (pr_key qb)"
      using pw_changeD [OF ch q(1)] pw_changeD [OF ch q(2)] a b m by auto
    then show "a = b" using unique_keysD [of eq s a qa b qb] inv a(1) b(1) q sub by (auto simp: pending_inv_def)
  qed
  moreover have "numbered s'"
  proof -
    obtain ix where ix: "inj_on ix (dom (pw_heap s))"
      "\<forall>a r. pw_heap s a = Some r \<longrightarrow> 1 \<le> ix a \<and> ix a \<le> pw_idCount s \<and> pk_code (pr_key r) = word_of_nat (ix a)"
      using inv by (auto simp: pending_inv_def numbered_def)
    have "1 \<le> ix a \<and> ix a \<le> pw_idCount s' \<and> pk_code (pr_key r') = word_of_nat (ix a)" if r': "pw_heap s' a = Some r'" for a r'
    proof -
      obtain r where r: "pw_heap s a = Some r" using prev [OF r'] by blast
      from pw_changeD [OF ch r] r' have "pk_code (pr_key r') = pk_code (pr_key r)" by auto
      with ix(2) r n show ?thesis by auto
    qed
    with ix(1) dom show ?thesis by (auto simp: numbered_def)
  qed
  ultimately show ?thesis using fired by (simp add: pending_inv_def)
qed

lemma change_same:
  assumes "pending_inv eq s" and "pw_heap s' = pw_heap s" and "pw_records s' = pw_records s" and "pw_idCount s' = pw_idCount s"
  shows "pw_change eq s s'"
  using assms by (auto simp: pw_change_def pending_inv_def registered_live_def)

lemma sorted_lt_distinct: "sorted_wrt (<) xs \<Longrightarrow> distinct (xs :: nat list)"
  by (simp add: strict_sorted_iff)

lemma change_cancel:
  assumes "pending_inv eq s" and "pw_heap s a = Some r" and "pw_heap s' = (pw_heap s)(a \<mapsto> r\<lparr>pr_canceled := True\<rparr>)"
    and "pw_records s' = removeAll a (pw_records s)" and "pw_idCount s' = pw_idCount s"
  shows "pw_change eq s s'"
  using assms by (auto simp: pw_change_def pending_inv_def registered_live_def one_time_def removeAll_filter_not_eq
      intro: sorted_wrt_filter)

lemma pending_invD:
  assumes "pending_inv eq s"
  shows "registered_live s" "unique_keys eq s" "numbered s" "fired_once s"
  using assms by (simp_all add: pending_inv_def)

lemma registered_record:
  assumes "pending_inv eq s" and "a \<in> set (pw_records s)"
  shows "\<exists>r. pw_heap s a = Some r \<and> \<not> pr_canceled r"
  using assms by (simp add: pending_inv_def registered_live_def)

lemma fired_keep:
  assumes "fired_once s" and "\<forall>b. execs b s' = execs b s"
    and "\<forall>b r. pw_heap s b = Some r \<longrightarrow> (\<exists>r'. pw_heap s' b = Some r' \<and> one_time r' = one_time r \<and> (pr_canceled r \<longrightarrow> pr_canceled r'))"
    and "dom (pw_heap s') = dom (pw_heap s)"
  shows "fired_once s'"
  unfolding fired_once_def
proof (intro allI)
  fix a
  show "case pw_heap s' a of None \<Rightarrow> execs a s' = 0 | Some r \<Rightarrow> one_time r \<longrightarrow> execs a s' \<le> (if pr_canceled r then 1 else 0)"
  proof (cases "pw_heap s a")
    case None
    then have "pw_heap s' a = None" using assms(4) by blast
    moreover have "execs a s = 0" using assms(1) [unfolded fired_once_def, rule_format, of a] None by simp
    ultimately show ?thesis using assms(2) by simp
  next
    case (Some r)
    with assms(3) obtain r' where r': "pw_heap s' a = Some r'" "one_time r' = one_time r" "pr_canceled r \<longrightarrow> pr_canceled r'" by blast
    have "one_time r \<longrightarrow> execs a s \<le> (if pr_canceled r then 1 else 0)"
      using assms(1) [unfolded fired_once_def, rule_format, of a] Some by simp
    with r' assms(2) show ?thesis by (auto split: if_splits)
  qed
qed

lemma change_quiet_inv:
  assumes "pending_inv eq s" and "pw_change eq s s'" and "\<forall>b. execs b s' = execs b s"
  shows "pending_inv eq s'"
proof (rule change_inv [OF assms(1,2)], rule fired_keep [OF pending_invD(4) [OF assms(1)] assms(3)])
  show "dom (pw_heap s') = dom (pw_heap s)" using assms(2) by (simp add: pw_change_def)
qed (use pw_changeD [OF assms(2)] in blast)


section \<open>Operations keep the invariant\<close>

lemma CancelLocked_inv:
  assumes "pending_inv eq s" and "pw_heap s a = Some r" and "CancelWantSenderLocked ev a True s = Inr s'"
  shows "pending_inv eq s'" and "pw_change eq s s'"
proof -
  from Cancel_spec [OF assms(2), of ev] assms(3) have c: "pw_heap s' = (pw_heap s)(a \<mapsto> r\<lparr>pr_canceled := True\<rparr>)"
    "pw_records s' = removeAll a (pw_records s)" "pw_idCount s' = pw_idCount s" "\<forall>b. execs b s' = execs b s" by auto
  show ch: "pw_change eq s s'" by (rule change_cancel [OF assms(1,2) c(1-3)])
  show "pending_inv eq s'" by (rule change_quiet_inv [OF assms(1) ch c(4)])
qed

text \<open>One trigger of a record: refused, or executed once; a one-time record is cancelled with it.\<close>

lemma SenderInner_spec:
  assumes "pw_heap s a = Some r"
  shows "\<exists>res s'. SenderInner ev a si s = Inr (res, s') \<and> pw_idCount s' = pw_idCount s \<and>
    (if pr_canceled r \<or> \<not> pe_managerAlive ev
     then pw_heap s' = pw_heap s \<and> pw_records s' = pw_records s \<and> (\<forall>b. execs b s' = execs b s)
     else (\<forall>b. execs b s' = execs b s + (if b = a then 1 else 0)) \<and>
          (if one_time r then pw_heap s' = (pw_heap s)(a \<mapsto> r\<lparr>pr_canceled := True\<rparr>) \<and> pw_records s' = removeAll a (pw_records s)
           else pw_heap s' = pw_heap s \<and> pw_records s' = pw_records s))"
proof (cases "pr_canceled r \<or> \<not> pe_managerAlive ev")
  case True
  with assms show ?thesis by (auto simp: SenderInner_def)
next
  case False
  obtain s1 where s1: "(if one_time r then CancelWantSenderLocked ev a True s else Inr s) = Inr s1"
      "pw_idCount s1 = pw_idCount s" "\<forall>b. execs b s1 = execs b s"
      "if one_time r then pw_heap s1 = (pw_heap s)(a \<mapsto> r\<lparr>pr_canceled := True\<rparr>) \<and> pw_records s1 = removeAll a (pw_records s)
       else pw_heap s1 = pw_heap s \<and> pw_records s1 = pw_records s"
    using Cancel_spec [OF assms, of ev] by (cases "one_time r") auto
  have "SenderInner ev a si s = cpp_bind (if one_time r then CancelWantSenderLocked ev a True s else Inr s) (\<lambda>s.
              let want = BuildSendWant ev r si;
                  (res, s) = ExecuteOperation ev a r si want s;
                  s = (if res \<noteq> ERR_WANTAGENT_CANCELED then receive si want '''' s else s)
              in Inr (if res \<noteq> NO_ERROR then PW_INVALID_VALUE else res, s))"
    using False assms by (simp add: SenderInner_def one_time_def)
  then show ?thesis using False s1 by (auto simp: Let_def split_beta)
qed

lemma SenderInner_inv:
  assumes inv: "pending_inv eq s" and "SenderInner ev a si s = Inr (res, s')"
  shows "pending_inv eq s'" and "pw_change eq s s'"
proof -
  obtain r where r: "pw_heap s a = Some r" using assms(2) by (auto simp: SenderInner_def cpp_bind_eq_Inr)
  note sp = SenderInner_spec [OF r, of ev si]
  have n: "pw_idCount s' = pw_idCount s" using sp assms(2) by auto
  show ch: "pw_change eq s s'"
  proof (cases "(pr_canceled r \<or> \<not> pe_managerAlive ev) \<or> \<not> one_time r")
    case True
    then show ?thesis using sp assms(2) by (intro change_same [OF inv]) (auto split: if_splits)
  next
    case False
    then show ?thesis using sp assms(2) by (intro change_cancel [OF inv r]) auto
  qed
  show "pending_inv eq s'"
  proof (cases "pr_canceled r \<or> \<not> pe_managerAlive ev")
    case True
    then show ?thesis using sp assms(2) by (intro change_quiet_inv [OF inv ch]) auto
  next
    case False
    then have e: "\<forall>b. execs b s' = execs b s + (if b = a then 1 else 0)"
      and h: "if one_time r then pw_heap s' = (pw_heap s)(a \<mapsto> r\<lparr>pr_canceled := True\<rparr>) else pw_heap s' = pw_heap s"
      using sp assms(2) by auto
    have f: "case pw_heap s b of None \<Rightarrow> execs b s = 0 | Some r \<Rightarrow> one_time r \<longrightarrow> execs b s \<le> (if pr_canceled r then 1 else 0)" for b
      using pending_invD(4) [OF inv] by (simp add: fired_once_def)
    have "one_time r \<longrightarrow> execs a s = 0" using f [of a] r False by simp
    have "case pw_heap s' b of None \<Rightarrow> execs b s' = 0 | Some r \<Rightarrow> one_time r \<longrightarrow> execs b s' \<le> (if pr_canceled r then 1 else 0)" for b
    proof (cases "b = a")
      case True
      with e h r \<open>one_time r \<longrightarrow> execs a s = 0\<close> show ?thesis by (cases "one_time r") (simp_all add: one_time_def)
    next
      case False
      then have same: "pw_heap s' b = pw_heap s b" "execs b s' = execs b s" using e h by (auto split: if_splits)
      show ?thesis unfolding same by (rule f)
    qed
    then have "fired_once s'" by (simp add: fired_once_def)
    then show ?thesis by (rule change_inv [OF inv ch])
  qed
qed

lemma SendWantSender_inv:
  assumes "pending_inv eq s" and "SendWantSender ev t si s = Inr (res, s')"
  shows "pending_inv eq s'" and "pw_change eq s s'"
proof -
  have "pending_inv eq s' \<and> pw_change eq s s'"
  proof (cases "\<exists>a. t = LocalSender a \<and> SenderInner ev a si s = Inr (res, s')")
    case True
    with SenderInner_inv [OF assms(1)] show ?thesis by blast
  next
    case False
    then have "\<exists>w d. s' = receive si w d s"
      using assms(2) by (auto simp: SendWantSender_def cpp_bind_eq_Inr split: sender.splits if_splits)
    then have c: "pw_heap s' = pw_heap s" "pw_records s' = pw_records s" "pw_idCount s' = pw_idCount s" "\<forall>b. execs b s' = execs b s"
      by auto
    from change_same [OF assms(1) c(1-3)] change_quiet_inv [OF assms(1) _ c(4)] show ?thesis by blast
  qed
  then show "pending_inv eq s'" and "pw_change eq s s'" by blast+
qed

lemma CancelWantSender_inv:
  assumes "pending_inv eq s" and "CancelWantSender ev sys t s = Inr s'"
  shows "pending_inv eq s'" and "pw_change eq s s'"
proof -
  have "pending_inv eq s' \<and> pw_change eq s s'"
  proof (cases "\<exists>a. t = LocalSender a \<and> CancelWantSenderLocked ev a True s = Inr s'")
    case True
    then obtain a where a: "CancelWantSenderLocked ev a True s = Inr s'" by blast
    then obtain r where "pw_heap s a = Some r" by (auto simp: CancelWantSenderLocked_def MakeWantSenderCanceledLocked_def cpp_bind_eq_Inr)
    with CancelLocked_inv [OF assms(1) this a] show ?thesis by blast
  next
    case False
    then have "s' = s" using assms(2) by (auto simp: CancelWantSender_def split: sender.splits if_splits)
    then show ?thesis using assms(1) change_same [OF assms(1)] by blast
  qed
  then show "pending_inv eq s'" and "pw_change eq s s'" by blast+
qed


lemma ByKey_Some:
  assumes "GetPendingWantRecordByKey eq k s = Some a"
  shows "a \<in> set (pw_records s) \<and> (\<exists>r. pw_heap s a = Some r \<and> CheckPendingWantRecordByKey eq (pr_key r) k)"
  using find_SomeD [OF assms [unfolded GetPendingWantRecordByKey_def]] by (auto split: option.splits)

lemma ByKey_None:
  "GetPendingWantRecordByKey eq k s = None \<longleftrightarrow>
     (\<forall>a\<in>set (pw_records s). \<forall>r. pw_heap s a = Some r \<longrightarrow> \<not> CheckPendingWantRecordByKey eq (pr_key r) k)"
  by (auto simp: GetPendingWantRecordByKey_def find_None_conv split: option.splits)

lemma match_keep:
  assumes "equivp eq" and "CheckPendingWantRecordByKey eq k k'"
  shows "CheckPendingWantRecordByKey eq k' l = CheckPendingWantRecordByKey eq k l"
    and "CheckPendingWantRecordByKey eq l k' = CheckPendingWantRecordByKey eq l k"
  using match_trans [OF assms(1)] match_sym [OF assms(1)] assms(2) by blast+

lemma updateRecord_total: "pw_heap s a = Some r \<Longrightarrow> \<exists>s'. updateRecord info c pu a s = Inr s'"
  by (auto simp: updateRecord_def)

lemma updateRecord_inv:
  assumes eq: "equivp eq" and inv: "pending_inv eq s" and r: "pw_heap s a = Some r"
    and m: "CheckPendingWantRecordByKey eq (pr_key r) (makeKey info appIndex)"
    and u: "updateRecord info callingUid publisherUid a s = Inr s'"
  shows "pending_inv eq s'" and "pw_change eq s s'" and "pw_records s' = pw_records s"
proof -
  have live: "registered_live s" using inv by (simp add: pending_inv_def)
  have "pw_change eq s s' \<and> (\<forall>b. execs b s' = execs b s) \<and> pw_records s' = pw_records s"
  proof (cases "hasFlag UPDATE_PRESENT_FLAG (ws_flags info) \<and> ws_allWants info \<noteq> []")
    case False
    then have "s' = s" using u r by (auto simp: updateRecord_def)
    then show ?thesis using change_same [OF inv] by simp
  next
    case True
    define r' where "r' = r\<lparr>pr_key := (pr_key r)\<lparr>pk_requestWant := wi_want (last (ws_allWants info)),
        pk_requestResolvedType := wi_resolvedTypes (last (ws_allWants info)), pk_allWantsInfos := ws_allWants info\<rparr>,
      pr_callerUid := callingUid, pr_publisherUid := publisherUid\<rparr>"
    have s': "s' = setRecord a r' s" using u r True by (auto simp: updateRecord_def r'_def)
    have "CheckPendingWantRecordByKey eq (pr_key r) (pr_key r')"
      using m True by (auto simp: match_iff makeKey_def r'_def)
    note keep = match_keep [OF eq this]
    have "pw_change eq s s'"
      using live r keep by (auto simp: pw_change_def s' registered_live_def r'_def one_time_def)
    then show ?thesis by (simp add: s')
  qed
  then show "pw_change eq s s'" "pw_records s' = pw_records s" and "pending_inv eq s'" using change_quiet_inv [OF inv] by blast+
qed

text \<open>A new record: nothing registered matches its key.\<close>

lemma createRecord_inv:
  assumes eq: "equivp eq" and inv: "pending_inv eq s" and fresh: "pw_heap s addr = None"
    and none: "GetPendingWantRecordByKey eq (makeKey info appIndex) s = None"
  shows "pending_inv eq (createRecord ev info callingUid uid appIndex publisherUid addr s)"
proof -
  let ?s = "createRecord ev info callingUid uid appIndex publisherUid addr s"
  define r where "r = \<lparr>pr_uid = uid, pr_callerTokenId = pe_callingTokenId ev, pr_callerUid = callingUid, pr_publisherUid = publisherUid,
    pr_canceled = False, pr_cancelCallbacks = [], pr_key = (makeKey info appIndex)\<lparr>pk_code := word_of_nat (pw_idCount s + 1)\<rparr>\<rparr>"
  have s': "pw_heap ?s = (pw_heap s)(addr \<mapsto> r)" "pw_records ?s = insort_insert addr (pw_records s)"
    "pw_idCount ?s = pw_idCount s + 1" "\<forall>b. execs b ?s = execs b s"
    by (simp_all add: createRecord_def Let_def r_def)
  have not_reg: "addr \<notin> set (pw_records s)" using registered_record [OF inv] fresh by fastforce
  have set': "set (pw_records ?s) = insert addr (set (pw_records s))" by (simp add: s' set_insort_insert)
  have "registered_live ?s"
  proof -
    have "sorted_wrt (<) (pw_records s)" using inv by (simp add: pending_inv_def registered_live_def)
    then have "sorted_wrt (<) (pw_records ?s)" by (simp add: s'(2) strict_sorted_iff sorted_insort_insert distinct_insort_insert)
    moreover have "\<not> pr_canceled r" by (simp add: r_def)
    ultimately show ?thesis using registered_record [OF inv] not_reg by (auto simp: registered_live_def set' s'(1))
  qed
  moreover have "unique_keys eq ?s"
  proof -
    have no: "\<not> CheckPendingWantRecordByKey eq (pr_key q) (pr_key r)" "\<not> CheckPendingWantRecordByKey eq (pr_key r) (pr_key q)"
      if "b \<in> set (pw_records s)" "pw_heap s b = Some q" for b q
    proof -
      have "\<not> CheckPendingWantRecordByKey eq (pr_key q) (makeKey info appIndex)" using none that by (simp add: ByKey_None)
      then show n1: "\<not> CheckPendingWantRecordByKey eq (pr_key q) (pr_key r)" by (simp add: match_iff r_def)
      then show "\<not> CheckPendingWantRecordByKey eq (pr_key r) (pr_key q)" using match_sym [OF eq] by blast
    qed
    show ?thesis unfolding unique_keys_def set' s'(1)
    proof (intro ballI allI impI)
      fix x y qx qy
      assume "x \<in> insert addr (set (pw_records s))" "y \<in> insert addr (set (pw_records s))"
        "((pw_heap s)(addr \<mapsto> r)) x = Some qx" "((pw_heap s)(addr \<mapsto> r)) y = Some qy"
        "CheckPendingWantRecordByKey eq (pr_key qx) (pr_key qy)"
      then show "x = y" using no not_reg unique_keysD [OF pending_invD(2) [OF inv], of x qx y qy] by (auto split: if_splits)
    qed
  qed
  moreover have "numbered ?s"
  proof -
    obtain ix where ix: "inj_on ix (dom (pw_heap s))"
      "\<forall>a r. pw_heap s a = Some r \<longrightarrow> 1 \<le> ix a \<and> ix a \<le> pw_idCount s \<and> pk_code (pr_key r) = word_of_nat (ix a)"
      using inv by (auto simp: pending_inv_def numbered_def)
    let ?ix = "ix(addr := pw_idCount s + 1)"
    have "inj_on ?ix (dom (pw_heap ?s))"
    proof (rule inj_onI)
      fix x y assume xy: "x \<in> dom (pw_heap ?s)" "y \<in> dom (pw_heap ?s)" "?ix x = ?ix y"
      have le: "z \<in> dom (pw_heap s) \<Longrightarrow> ix z \<le> pw_idCount s" for z using ix(2) by auto
      show "x = y"
        using xy le [of x] le [of y] inj_onD [OF ix(1), of x y] by (auto simp: s'(1) split: if_splits)
    qed
    moreover have "\<forall>a q. pw_heap ?s a = Some q \<longrightarrow> 1 \<le> ?ix a \<and> ?ix a \<le> pw_idCount ?s \<and> pk_code (pr_key q) = word_of_nat (?ix a)"
      using ix(2) by (auto simp: s' r_def le_Suc_eq)
    ultimately show ?thesis unfolding numbered_def by blast
  qed
  moreover have "fired_once ?s"
  proof -
    have f: "case pw_heap s b of None \<Rightarrow> execs b s = 0 | Some r \<Rightarrow> one_time r \<longrightarrow> execs b s \<le> (if pr_canceled r then 1 else 0)" for b
      using pending_invD(4) [OF inv] by (simp add: fired_once_def)
    have "execs addr s = 0" using f [of addr] fresh by simp
    then show ?thesis using f unfolding fired_once_def s'(1) s'(4) [rule_format] by (simp add: r_def)
  qed
  ultimately show ?thesis by (simp add: pending_inv_def)
qed


text \<open>Over any step a cancelled record stays cancelled and is not executed.\<close>

definition evolves :: "pending_mgr \<Rightarrow> pending_mgr \<Rightarrow> bool" where
  "evolves s s' \<longleftrightarrow> (\<forall>b r. pw_heap s b = Some r \<longrightarrow> (\<exists>r'. pw_heap s' b = Some r' \<and> one_time r' = one_time r \<and>
     (pr_canceled r \<longrightarrow> pr_canceled r' \<and> execs b s' = execs b s)))"

lemma evolvesD: "evolves s s' \<Longrightarrow> pw_heap s b = Some r \<Longrightarrow> \<exists>r'. pw_heap s' b = Some r' \<and> one_time r' = one_time r \<and>
     (pr_canceled r \<longrightarrow> pr_canceled r' \<and> execs b s' = execs b s)"
  by (simp add: evolves_def)

lemma evolves_trans: "evolves s s' \<Longrightarrow> evolves s' s'' \<Longrightarrow> evolves s s''"
  unfolding evolves_def by metis

lemma change_evolves: "pw_change eq s s' \<Longrightarrow> (\<forall>b. execs b s' = execs b s) \<Longrightarrow> evolves s s'"
  unfolding evolves_def using pw_changeD by metis

lemma SendWantSender_evolves:
  assumes inv: "pending_inv eq s" and send: "SendWantSender ev t si s = Inr (res, s')"
  shows "evolves s s'"
proof -
  have ex: "execs b s' = execs b s" if "pw_heap s b = Some r" "pr_canceled r" for b r
  proof (cases "\<exists>a. t = LocalSender a \<and> SenderInner ev a si s = Inr (res, s')")
    case True
    then obtain a where a: "SenderInner ev a si s = Inr (res, s')" by blast
    then obtain q where "pw_heap s a = Some q" by (auto simp: SenderInner_def cpp_bind_eq_Inr)
    from SenderInner_spec [OF this, of ev si] a that \<open>pw_heap s a = Some q\<close> show ?thesis by (cases "b = a") (auto split: if_splits)
  next
    case False
    then show ?thesis using send by (auto simp: SendWantSender_def cpp_bind_eq_Inr split: sender.splits if_splits)
  qed
  show ?thesis unfolding evolves_def
  proof (intro allI impI)
    fix b r assume "pw_heap s b = Some r"
    from pw_changeD [OF SendWantSender_inv(2) [OF inv send] this] ex [OF this]
    show "\<exists>r'. pw_heap s' b = Some r' \<and> one_time r' = one_time r \<and> (pr_canceled r \<longrightarrow> pr_canceled r' \<and> execs b s' = execs b s)" by blast
  qed
qed

lemma create_evolves:
  assumes "pw_heap s addr = None"
  shows "evolves s (createRecord ev info callingUid uid appIndex publisherUid addr s)"
  using assms by (auto simp: evolves_def createRecord_def Let_def)

lemma GetWantSenderLocked_step:
  assumes eq: "equivp eq" and inv: "pending_inv eq s" and fresh: "pw_heap s addr = None"
    and g: "GetWantSenderLocked eq ev callingUid uid info appIndex publisherUid addr s = Inr (res, s')"
  shows "pending_inv eq s' \<and> evolves s s'"
proof (cases "GetPendingWantRecordByKey eq (makeKey info appIndex) s")
  case None
  then have "s' = s \<or> s' = createRecord ev info callingUid uid appIndex publisherUid addr s"
    using g by (auto simp: GetWantSenderLocked_def Let_def split: if_splits)
  then show ?thesis
    using inv createRecord_inv [OF eq inv fresh None] create_evolves [OF fresh] change_evolves [OF change_same [OF inv]] by auto
next
  case (Some a)
  from ByKey_Some [OF Some] obtain r where
    a: "a \<in> set (pw_records s)" and r: "pw_heap s a = Some r" and m: "CheckPendingWantRecordByKey eq (pr_key r) (makeKey info appIndex)" by blast
  show ?thesis
  proof (cases "hasFlag CANCEL_PRESENT_FLAG (ws_flags info)")
    case False
    then have u: "updateRecord info callingUid publisherUid a s = Inr s'"
      using g Some by (auto simp: GetWantSenderLocked_def Let_def cpp_bind_eq_Inr)
    then have "\<forall>b. execs b s' = execs b s" by (auto simp: updateRecord_def cpp_bind_eq_Inr split: if_splits)
    with updateRecord_inv [OF eq inv r m u] change_evolves show ?thesis by blast
  next
    case True
    then obtain s1 where c: "CancelWantSenderLocked ev a True s = Inr s1"
      and s': "s' = s1 \<or> s' = createRecord ev info callingUid uid appIndex publisherUid addr s1"
      using g Some by (auto simp: GetWantSenderLocked_def Let_def cpp_bind_eq_Inr split: if_splits)
    have c1: "pw_heap s1 = (pw_heap s)(a \<mapsto> r\<lparr>pr_canceled := True\<rparr>)" "pw_records s1 = removeAll a (pw_records s)" "\<forall>b. execs b s1 = execs b s"
      using Cancel_spec [OF r, of ev] c by auto
    have inv1: "pending_inv eq s1" and e1: "evolves s s1"
      using CancelLocked_inv [OF inv r c] change_evolves [OF _ c1(3)] by blast+
    have fresh1: "pw_heap s1 addr = None" using fresh r c1(1) by auto
    have "GetPendingWantRecordByKey eq (makeKey info appIndex) s1 = None" unfolding ByKey_None
    proof (intro ballI allI impI notI)
      fix b q assume b: "b \<in> set (pw_records s1)" "pw_heap s1 b = Some q" "CheckPendingWantRecordByKey eq (pr_key q) (makeKey info appIndex)"
      then have "b \<noteq> a" "b \<in> set (pw_records s)" "pw_heap s b = Some q" using c1 by auto
      moreover have "CheckPendingWantRecordByKey eq (pr_key q) (pr_key r)" using b(3) m match_sym [OF eq] match_trans [OF eq] by blast
      ultimately show False using unique_keysD [OF pending_invD(2) [OF inv], of b q a r] a r by blast
    qed
    from createRecord_inv [OF eq inv1 fresh1 this] create_evolves [OF fresh1] s' inv1 e1 evolves_trans show ?thesis by blast
  qed
qed

lemma listener_change:
  assumes inv: "pending_inv eq s" and r: "pw_heap s a = Some r"
  shows "pending_inv eq (setRecord a (r\<lparr>pr_cancelCallbacks := cs\<rparr>) s) \<and> evolves s (setRecord a (r\<lparr>pr_cancelCallbacks := cs\<rparr>) s)"
proof -
  have "registered_live s" using inv by (simp add: pending_inv_def)
  then have "pw_change eq s (setRecord a (r\<lparr>pr_cancelCallbacks := cs\<rparr>) s)"
    using r by (auto simp: pw_change_def registered_live_def one_time_def)
  with change_quiet_inv [OF inv] change_evolves show ?thesis by auto
qed

lemma targetRecord_Some: "targetRecord t s = Inr (Some (b, r)) \<Longrightarrow> pw_heap s b = Some r"
  by (auto simp: targetRecord_def cpp_bind_eq_Inr split: sender.splits option.splits)

lemma Register_step:
  assumes "pending_inv eq s" and "pw_RegisterCancelListener t c s = Inr s'"
  shows "pending_inv eq s' \<and> evolves s s'"
proof -
  have "s' = s \<or> (\<exists>a r cs. pw_heap s a = Some r \<and> s' = setRecord a (r\<lparr>pr_cancelCallbacks := cs\<rparr>) s)"
    using assms(2) targetRecord_Some by (fastforce simp: pw_RegisterCancelListener_def cpp_bind_eq_Inr split: option.splits if_splits)
  then show ?thesis using listener_change [OF assms(1)] assms(1) change_evolves [OF change_same [OF assms(1)]] by auto
qed

lemma Unregister_step:
  assumes "pending_inv eq s" and "pw_UnregisterCancelListener t c s = Inr s'"
  shows "pending_inv eq s' \<and> evolves s s'"
proof -
  have "s' = s \<or> (\<exists>a r cs. pw_heap s a = Some r \<and> s' = setRecord a (r\<lparr>pr_cancelCallbacks := cs\<rparr>) s)"
    using assms(2) targetRecord_Some by (fastforce simp: pw_UnregisterCancelListener_def cpp_bind_eq_Inr split: option.splits)
  then show ?thesis using listener_change [OF assms(1)] assms(1) change_evolves [OF change_same [OF assms(1)]] by auto
qed

lemma clearLoop_frame:
  "pw_heap (snd (clearLoop ev b u as s)) = pw_heap s" "pw_records (snd (clearLoop ev b u as s)) = pw_records s"
  "pw_idCount (snd (clearLoop ev b u as s)) = pw_idCount s" "execs a (snd (clearLoop ev b u as s)) = execs a s"
  "fst (clearLoop ev b u as s) = filter (\<lambda>a. case pw_heap s a of None \<Rightarrow> True | Some r \<Rightarrow> \<not> hasBundle b u r) as"
  by (induction ev b u as s rule: clearLoop.induct) (auto simp: split_beta split: option.splits)

lemma Clear_spec:
  "pw_heap (ClearPendingWantRecordTask ev b u s) = pw_heap s"
  "pw_records (ClearPendingWantRecordTask ev b u s) =
     filter (\<lambda>a. case pw_heap s a of None \<Rightarrow> True | Some r \<Rightarrow> \<not> hasBundle b u r) (pw_records s)"
  "pw_idCount (ClearPendingWantRecordTask ev b u s) = pw_idCount s"
  "execs a (ClearPendingWantRecordTask ev b u s) = execs a s"
  by (simp_all add: ClearPendingWantRecordTask_def split_beta clearLoop_frame)

lemma Clear_step:
  assumes "pending_inv eq s"
  shows "pending_inv eq (ClearPendingWantRecordTask ev b u s) \<and> evolves s (ClearPendingWantRecordTask ev b u s)"
proof -
  have "registered_live s" using assms by (simp add: pending_inv_def)
  then have "pw_change eq s (ClearPendingWantRecordTask ev b u s)"
    by (auto simp: pw_change_def Clear_spec registered_live_def intro: sorted_wrt_filter)
  with change_quiet_inv [OF assms] change_evolves show ?thesis by (auto simp: Clear_spec)
qed


section \<open>The manager as a machine\<close>

datatype pending_event =
  GetEvent int int bool want_sender_info int int nat
| SendEvent sender sender_info
| SendLocalEvent sender_info
| CancelEvent bool sender
| RegisterEvent sender "nat option"
| UnregisterEvent sender "nat option"
| ClearEvent string int

fun pending_enabled :: "pending_event \<Rightarrow> pending_mgr \<Rightarrow> bool" where
  "pending_enabled (GetEvent c u sys info ai pu addr) s \<longleftrightarrow> pw_heap s addr = None"
| "pending_enabled e s \<longleftrightarrow> True"

fun pending_handle :: "(want \<Rightarrow> want \<Rightarrow> bool) \<Rightarrow> pending_env \<Rightarrow> pending_event \<Rightarrow> pending_mgr \<Rightarrow> pending_mgr cpp" where
  "pending_handle eq ev (GetEvent c u sys info ai pu addr) s = cpp_bind (GetWantSender eq ev c u sys info ai pu addr s) (\<lambda>r. Inr (snd r))"
| "pending_handle eq ev (SendEvent t si) s = cpp_bind (SendWantSender ev t si s) (\<lambda>r. Inr (snd r))"
| "pending_handle eq ev (SendLocalEvent si) s = Inr (snd (SendLocalWantSender ev si s))"
| "pending_handle eq ev (CancelEvent sys t) s = CancelWantSender ev sys t s"
| "pending_handle eq ev (RegisterEvent t c) s = pw_RegisterCancelListener t c s"
| "pending_handle eq ev (UnregisterEvent t c) s = pw_UnregisterCancelListener t c s"
| "pending_handle eq ev (ClearEvent b u) s = Inr (ClearPendingWantRecordTask ev b u s)"

definition pending_start :: "pending_mgr \<Rightarrow> bool" where
  "pending_start s \<longleftrightarrow> s = \<lparr>pw_heap = (\<lambda>a. None), pw_records = [], pw_agentCount = [], pw_idCount = 0, pw_log = []\<rparr>"

definition pending_step :: "(want \<Rightarrow> want \<Rightarrow> bool) \<Rightarrow> pending_mgr \<Rightarrow> pending_mgr \<Rightarrow> bool" where
  "pending_step eq s s' \<longleftrightarrow> (\<exists>ev e. pending_enabled e s \<and> pending_handle eq ev e s = Inr s')"

lemma CancelWantSender_evolves:
  assumes "pending_inv eq s" and "CancelWantSender ev sys t s = Inr s'"
  shows "evolves s s'"
proof (rule change_evolves [OF CancelWantSender_inv(2) [OF assms]])
  show "\<forall>b. execs b s' = execs b s"
    using assms(2) by (auto simp: CancelWantSender_def CancelWantSenderLocked_def MakeWantSenderCanceledLocked_def cpp_bind_eq_Inr Let_def
        split: sender.splits if_splits)
qed

lemma pending_handle_step:
  assumes "equivp eq" and "pending_inv eq s" and "pending_enabled e s" and "pending_handle eq ev e s = Inr s'"
  shows "pending_inv eq s' \<and> evolves s s'"
proof (cases e)
  case (GetEvent c u sys info ai pu addr)
  then obtain x where "GetWantSender eq ev c u sys info ai pu addr s = Inr (x, s')" using assms(4) by (auto simp: cpp_bind_eq_Inr)
  then have "s' = s \<or> (\<exists>info'. GetWantSenderLocked eq ev c u info' ai pu addr s = Inr (x, s'))"
    by (auto simp: GetWantSender_def split: if_splits)
  then show ?thesis
    using GetWantSenderLocked_step [OF assms(1,2)] GetEvent assms(2,3) change_evolves [OF change_same [OF assms(2)]] by fastforce
next
  case (SendEvent t si)
  with assms(4) SendWantSender_inv(1) [OF assms(2)] SendWantSender_evolves [OF assms(2)] show ?thesis by (auto simp: cpp_bind_eq_Inr)
next
  case (SendLocalEvent si)
  then have "s' = snd (SendLocalWantSender ev si s)" using assms(4) by simp
  then have "pw_change eq s s'" "\<forall>b. execs b s' = execs b s" using change_same [OF assms(2)] by auto
  with change_quiet_inv [OF assms(2)] change_evolves show ?thesis by blast
next
  case (CancelEvent sys t)
  with assms(4) CancelWantSender_inv(1) [OF assms(2)] CancelWantSender_evolves [OF assms(2)] show ?thesis by auto
next
  case (RegisterEvent t c)
  with assms(4) Register_step [OF assms(2)] show ?thesis by auto
next
  case (UnregisterEvent t c)
  with assms(4) Unregister_step [OF assms(2)] show ?thesis by auto
next
  case (ClearEvent b u)
  with assms(4) Clear_step [OF assms(2)] show ?thesis by auto
qed

interpretation pm: machine pending_start "pending_step eq" "\<lambda>s. equivp eq \<longrightarrow> pending_inv eq s" for eq
proof
  show "equivp eq \<longrightarrow> pending_inv eq s" if "pending_start s" for s
    using that by (auto simp: pending_start_def pending_inv_def registered_live_def unique_keys_def numbered_def fired_once_def execs_def)
  show "equivp eq \<longrightarrow> pending_inv eq s'" if "equivp eq \<longrightarrow> pending_inv eq s" "pending_step eq s s'" for s s'
    using that pending_handle_step by (auto simp: pending_step_def)
qed

lemma reach_pending_inv: "equivp eq \<Longrightarrow> reach pending_start (pending_step eq) s \<Longrightarrow> pending_inv eq s"
  using pm.reach_inv by blast

section \<open>Main results\<close>

lemma same_code:
  assumes "numbered s" and "pw_idCount s < 2 ^ 32" and "pw_heap s a = Some r" and "pw_heap s b = Some r'"
    and "pk_code (pr_key r) = pk_code (pr_key r')"
  shows "a = b"
proof -
  obtain ix where ix: "inj_on ix (dom (pw_heap s))"
    "\<forall>a r. pw_heap s a = Some r \<longrightarrow> 1 \<le> ix a \<and> ix a \<le> pw_idCount s \<and> pk_code (pr_key r) = word_of_nat (ix a)"
    using assms(1) by (auto simp: numbered_def)
  have "ix a < 2 ^ 32" "ix b < 2 ^ 32" using ix(2) assms(2-4) by fastforce+
  moreover have "(word_of_nat (ix a) :: 32 word) = word_of_nat (ix b)" using ix(2) assms(3-5) by auto
  then have "unat (word_of_nat (ix a) :: 32 word) = unat (word_of_nat (ix b) :: 32 word)" by simp
  ultimately have "ix a = ix b" by (simp add: unat_of_nat)
  with inj_onD [OF ix(1), of a b] assms(3,4) show ?thesis by blast
qed


text \<open>C19: In every reachable state the registered records exist and are not cancelled, no two of them have
  matching keys, and codes identify records until the counter has gone round.\<close>

theorem pending_wants_reachable:
  assumes "equivp eq" and "reach pending_start (pending_step eq) s"
  shows "(\<forall>a\<in>set (pw_records s). \<exists>r. pw_heap s a = Some r \<and> \<not> pr_canceled r) \<and> distinct (pw_records s) \<and>
         (\<forall>a\<in>set (pw_records s). \<forall>b\<in>set (pw_records s). \<forall>r r'. pw_heap s a = Some r \<longrightarrow> pw_heap s b = Some r' \<longrightarrow>
            CheckPendingWantRecordByKey eq (pr_key r) (pr_key r') \<longrightarrow> a = b) \<and>
         (pw_idCount s < 2 ^ 32 \<longrightarrow> (\<forall>a b r r'. pw_heap s a = Some r \<longrightarrow> pw_heap s b = Some r' \<longrightarrow>
            pk_code (pr_key r) = pk_code (pr_key r') \<longrightarrow> a = b))"
proof -
  have inv: "pending_inv eq s" by (rule reach_pending_inv [OF assms])
  then have "registered_live s" "unique_keys eq s" "numbered s" by (simp_all add: pending_inv_def)
  then show ?thesis using same_code [of s] sorted_lt_distinct [of "pw_records s"]
    unfolding registered_live_def unique_keys_def by blast
qed

lemma Locked_registers:
  assumes eq: "equivp eq" and inv: "pending_inv eq s" and fresh: "pw_heap s addr = None"
    and g: "GetWantSenderLocked eq ev c u info ai pu addr s = Inr (Some a, s')"
    and ok: "\<not> hasFlag CANCEL_PRESENT_FLAG (ws_flags info) \<or> \<not> hasFlag NO_BUILD_FLAG (ws_flags info)"
  shows "a \<in> set (pw_records s') \<and> (\<exists>r. pw_heap s' a = Some r \<and> CheckPendingWantRecordByKey eq (pr_key r) (makeKey info ai))"
proof -
  have self: "CheckPendingWantRecordByKey eq ((makeKey info ai)\<lparr>pk_code := n\<rparr>) (makeKey info ai)" for n
    using equivp_reflp [OF eq] by (simp add: match_iff)
  have new: "addr \<in> set (pw_records s1) \<and> (\<exists>r. pw_heap s1 addr = Some r \<and> CheckPendingWantRecordByKey eq (pr_key r) (makeKey info ai))"
    if "s1 = createRecord ev info c u ai pu addr s0" for s0 s1
    using that self by (simp add: createRecord_def Let_def set_insort_insert)
  show ?thesis
  proof (cases "GetPendingWantRecordByKey eq (makeKey info ai) s")
    case None
    with g new show ?thesis by (auto simp: GetWantSenderLocked_def Let_def split: if_splits)
  next
    case (Some b)
    from ByKey_Some [OF Some] obtain r where b: "b \<in> set (pw_records s)" "pw_heap s b = Some r"
      and m: "CheckPendingWantRecordByKey eq (pr_key r) (makeKey info ai)" by blast
    show ?thesis
    proof (cases "hasFlag CANCEL_PRESENT_FLAG (ws_flags info)")
      case True
      with g Some ok new show ?thesis by (auto simp: GetWantSenderLocked_def Let_def cpp_bind_eq_Inr split: if_splits)
    next
      case False
      then have u: "updateRecord info c pu b s = Inr s'" and ab: "a = b"
        using g Some by (auto simp: GetWantSenderLocked_def Let_def cpp_bind_eq_Inr)
      note up = updateRecord_inv [OF eq inv b(2) m u]
      have "b \<in> set (pw_records s')" using up(3) b(1) by simp
      with pw_changeD [OF up(2) b(2)] m ab show ?thesis by auto
    qed
  qed
qed

text \<open>C20: Asking twice: when a request has given a want agent, asking again with other flags that do not ask to
  cancel it gives the same one, and no other is made.\<close>

theorem GetWantSender_again:
  assumes "equivp eq" and "reach pending_start (pending_step eq) s" and "pw_heap s addr = None"
    and "GetWantSender eq ev c u sys info ai pu addr s = Inr (Some a, s')"
    and "\<not> hasFlag CANCEL_PRESENT_FLAG (ws_flags info) \<or> \<not> hasFlag NO_BUILD_FLAG (ws_flags info)"
    and "\<not> hasFlag CANCEL_PRESENT_FLAG fl"
  shows "\<exists>s''. GetWantSender eq ev c u sys (info\<lparr>ws_flags := fl\<rparr>) ai pu addr' s' = Inr (Some a, s'') \<and> pw_records s'' = pw_records s'"
proof -
  let ?sel = "\<lambda>i. if ws_type i \<noteq> SEND_COMMON_EVENT \<and> \<not> sys \<and> \<not> pe_isSACall ev then ownWants i else i"
  have inv: "pending_inv eq s" by (rule reach_pending_inv [OF assms(1,2)])
  have g: "GetWantSenderLocked eq ev c u (?sel info) ai pu addr s = Inr (Some a, s')"
    and pass: "GetWantSender eq ev c u sys (info\<lparr>ws_flags := fl\<rparr>) ai pu addr' s' =
      GetWantSenderLocked eq ev c u (?sel (info\<lparr>ws_flags := fl\<rparr>)) ai pu addr' s'"
    using assms(4) by (auto simp: GetWantSender_def split: if_splits)
  have fl: "ws_flags (?sel info) = ws_flags info" "ws_flags (?sel (info\<lparr>ws_flags := fl\<rparr>)) = fl"
    "makeKey (?sel (info\<lparr>ws_flags := fl\<rparr>)) ai = (makeKey (?sel info) ai)\<lparr>pk_flags := fl\<rparr>"
    by (simp_all add: ownWants_def makeKey_def)
  from Locked_registers [OF assms(1) inv assms(3) g] assms(5) fl(1) obtain r where
    a: "a \<in> set (pw_records s')" and r: "pw_heap s' a = Some r" and m: "CheckPendingWantRecordByKey eq (pr_key r) (makeKey (?sel info) ai)" by auto
  have inv': "pending_inv eq s'" using GetWantSenderLocked_step [OF assms(1) inv assms(3) g] by blast
  let ?k = "makeKey (?sel (info\<lparr>ws_flags := fl\<rparr>)) ai"
  have mk: "CheckPendingWantRecordByKey eq (pr_key r) ?k" using m unfolding fl(3) by (simp add: match_iff)
  have "GetPendingWantRecordByKey eq ?k s' \<noteq> None" unfolding ByKey_None using a r mk by blast
  then obtain b where b: "GetPendingWantRecordByKey eq ?k s' = Some b" by auto
  from ByKey_Some [OF b] obtain q where q: "b \<in> set (pw_records s')" "pw_heap s' b = Some q" "CheckPendingWantRecordByKey eq (pr_key q) ?k" by blast
  have "CheckPendingWantRecordByKey eq (pr_key q) (pr_key r)" using q(3) mk match_sym [OF assms(1)] match_trans [OF assms(1)] by blast
  then have "b = a" using unique_keysD [OF pending_invD(2) [OF inv'], of b q a r] q a r by blast
  obtain s'' where u: "updateRecord (?sel (info\<lparr>ws_flags := fl\<rparr>)) c pu a s' = Inr s''" using updateRecord_total [OF r] by blast
  have "GetWantSenderLocked eq ev c u (?sel (info\<lparr>ws_flags := fl\<rparr>)) ai pu addr' s' = Inr (Some a, s'')"
    using b u assms(6) fl(2) unfolding GetWantSenderLocked_def Let_def \<open>b = a\<close> by simp
  with pass updateRecord_inv(3) [OF assms(1) inv' r mk u] show ?thesis by auto
qed

text \<open>C21: Over any run the operation of a one-time want agent is executed at most once.\<close>

theorem one_time_once:
  assumes "equivp eq" and "reach pending_start (pending_step eq) s" and "pw_heap s a = Some r"
    and "hasFlag ONE_TIME_FLAG (pk_flags (pr_key r))"
  shows "execs a s \<le> 1"
  using reach_pending_inv [OF assms(1,2)] assms(3,4) spec [of _ a]
  by (auto simp: pending_inv_def fired_once_def one_time_def split: option.splits if_splits) (metis le_zero_eq zero_le)

lemma reach_evolves:
  assumes "equivp eq" and "pending_inv eq s" and "reach (\<lambda>x. x = s) (pending_step eq) s'"
  shows "pending_inv eq s' \<and> evolves s s'"
  using assms(3)
proof (induction rule: reach.induct)
  case (reach_start x)
  then show ?case using assms(2) change_evolves [OF change_same [OF assms(2)]] by auto
next
  case (reach_step x y)
  then obtain ev e where "pending_enabled e x" "pending_handle eq ev e x = Inr y" by (auto simp: pending_step_def)
  with pending_handle_step [OF assms(1), of x e ev y] reach_step.IH evolves_trans show ?case by blast
qed

text \<open>C22: Cancelling is final: whatever is called afterwards, a cancelled want agent stays cancelled, is never
  executed again, and every attempt to trigger it is answered with the code for it.\<close>

theorem cancel_final:
  assumes "equivp eq" and "reach pending_start (pending_step eq) s" and "CancelWantSenderLocked ev a True s = Inr s1"
    and "reach (\<lambda>x. x = s1) (pending_step eq) s'"
  shows "\<exists>r. pw_heap s' a = Some r \<and> pr_canceled r \<and> execs a s' = execs a s \<and> a \<notin> set (pw_records s') \<and>
           (\<forall>ev' si. \<exists>s''. SendWantSender ev' (LocalSender a) si s' = Inr (ERR_WANTAGENT_CANCELED, s'') \<and> execs a s'' = execs a s)"
proof -
  have inv: "pending_inv eq s" by (rule reach_pending_inv [OF assms(1,2)])
  obtain q where q: "pw_heap s a = Some q"
    using assms(3) by (auto simp: CancelWantSenderLocked_def MakeWantSenderCanceledLocked_def cpp_bind_eq_Inr)
  have c: "pw_heap s1 a = Some (q\<lparr>pr_canceled := True\<rparr>)" "execs a s1 = execs a s"
    using Cancel_spec [OF q, of ev] assms(3) by auto
  have inv1: "pending_inv eq s1" by (rule CancelLocked_inv(1) [OF inv q assms(3)])
  from reach_evolves [OF assms(1) inv1 assms(4)] have inv': "pending_inv eq s'" and e: "evolves s1 s'" by blast+
  from evolvesD [OF e c(1)] c(2) obtain r where r: "pw_heap s' a = Some r" "pr_canceled r" "execs a s' = execs a s" by auto
  have "a \<notin> set (pw_records s')" using registered_record [OF inv', of a] r by auto
  moreover have "\<exists>s''. SendWantSender ev' (LocalSender a) si s' = Inr (ERR_WANTAGENT_CANCELED, s'') \<and> execs a s'' = execs a s" for ev' si
    using r by (simp add: SendWantSender_def SenderInner_def CheckPermission_def operation_types)
  ultimately show ?thesis using r by blast
qed

text \<open>Uninstalling an application removes exactly the records that name its bundle and have its uid, but
  does not cancel them: whoever holds one can still trigger it.\<close>

theorem Clear_keeps_alive:
  assumes "equivp eq" and "reach pending_start (pending_step eq) s" and "a \<in> set (pw_records s)" and "pw_heap s a = Some r"
    and "CheckPermission ev r" and "pe_managerAlive ev"
  shows "set (pw_records (ClearPendingWantRecordTask ev' b u s)) =
           {x \<in> set (pw_records s). \<forall>q. pw_heap s x = Some q \<longrightarrow>
              \<not> (u = pr_uid q \<and> (\<exists>i\<in>set (pk_allWantsInfos (pr_key q)). w_bundleName (wi_want i) = b))} \<and>
         (\<exists>res s'. SendWantSender ev (LocalSender a) si (ClearPendingWantRecordTask ev' b u s) = Inr (res, s') \<and>
            execs a s' = execs a s + 1)"
proof -
  let ?s = "ClearPendingWantRecordTask ev' b u s"
  have inv: "pending_inv eq s" by (rule reach_pending_inv [OF assms(1,2)])
  have live: "\<not> pr_canceled r" using registered_record [OF inv assms(3)] assms(4) by auto
  have "set (pw_records ?s) = {x \<in> set (pw_records s). \<forall>q. pw_heap s x = Some q \<longrightarrow>
      \<not> (u = pr_uid q \<and> (\<exists>i\<in>set (pk_allWantsInfos (pr_key q)). w_bundleName (wi_want i) = b))}"
    by (auto simp: Clear_spec hasBundle_def list_ex_iff split: option.splits)
  moreover have "pw_heap ?s a = Some r" using assms(4) by (simp add: Clear_spec)
  then have "\<exists>res s'. SendWantSender ev (LocalSender a) si ?s = Inr (res, s') \<and> execs a s' = execs a ?s + 1"
    using SenderInner_spec [of ?s a r ev si] assms(5,6) live by (auto simp: SendWantSender_def)
  ultimately show ?thesis by (simp add: Clear_spec)
qed

text \<open>The number of want agents kept for a bundle is never lowered by cancelling a want agent, since only
  callers that are not counted may cancel, nor by the task that clears the records of an application,
  which the service runs itself.\<close>

theorem Cancel_keeps_count:
  assumes "CancelWantSender ev (pe_isSystemAppCall ev) t s = Inr s'" and "pe_isSACall ev'"
  shows "pw_agentCount s' = pw_agentCount s \<and> pw_agentCount (ClearPendingWantRecordTask ev' b u s) = pw_agentCount s"
proof -
  have "pw_agentCount (snd (clearLoop ev' b u as x)) = pw_agentCount x" for as x
    using assms(2) by (induction ev' b u as x rule: clearLoop.induct) (auto simp: split_beta ReduceWantAgentNumber_def split: option.splits)
  then have "pw_agentCount (ClearPendingWantRecordTask ev' b u s) = pw_agentCount s"
    by (simp add: ClearPendingWantRecordTask_def split_beta)
  moreover have "pw_agentCount s' = pw_agentCount s"
    using assms(1) by (auto simp: CancelWantSender_def CancelWantSenderLocked_def MakeWantSenderCanceledLocked_def
        cpp_bind_eq_Inr Let_def ReduceWantAgentNumber_def split: sender.splits if_splits)
  ultimately show ?thesis by simp
qed


lemma addParams_find:
  assumes "omap_inv ps" and "distinct (map fst sent)"
  shows "omap_inv (addParams stored sent ps) \<and>
    omap_find (addParams stored sent ps) k =
      (if omap_find stored k = None \<and> omap_find sent k \<noteq> None then omap_find sent k else omap_find ps k)"
  using assms
proof (induction sent arbitrary: ps)
  case Nil
  then show ?case by (simp add: addParams_def)
next
  case (Cons e sent)
  let ?ps = "if omap_find stored (fst e) = None then omap_put (fst e) (snd e) ps else ps"
  have step: "addParams stored (e # sent) ps = addParams stored sent ?ps" by (simp add: addParams_def)
  have "omap_inv ?ps" using Cons.prems(1) by (simp add: omap_inv_put)
  note IH = Cons.IH [OF this]
  have "k = fst e \<Longrightarrow> omap_find sent k = None" using Cons.prems(2) by (auto simp: map_of_eq_None_iff)
  then show ?case unfolding step using IH Cons.prems
    by (cases e) (auto simp: find_omap_put)
qed

text \<open>Triggering a want agent cannot change what was stored: the target is the stored one, a stored parameter
  keeps its value, and a constant want agent takes no parameter from the sender.  (The clone index
  is filled in, and the instance key may be removed.)\<close>

theorem BuildSendWant_keeps_stored:
  assumes stored: "stored = (if pk_allWantsInfos (pr_key r) \<noteq> [] then pk_requestWant (pr_key r) else emptyWant)"
    and inv: "omap_inv (w_params stored)" "omap_inv (w_params (si_want si))"
    and k: "k \<notin> {PARAM_APP_CLONE_INDEX_KEY, APP_MULTI_INSTANCE}"
  shows "w_bundleName (BuildSendWant ev r si) = w_bundleName stored \<and> w_deviceId (BuildSendWant ev r si) = w_deviceId stored \<and>
         omap_find (w_params (BuildSendWant ev r si)) k =
           (case omap_find (w_params stored) k of
              Some v \<Rightarrow> Some v
            | None \<Rightarrow> if hasFlag CONSTANT_FLAG (pk_flags (pr_key r)) then None else omap_find (w_params (si_want si)) k)"
proof -
  define ps where "ps = (if \<not> hasFlag CONSTANT_FLAG (pk_flags (pr_key r))
    then addParams (w_params stored) (w_params (si_want si)) (w_params stored) else w_params stored)"
  have ps: "omap_inv ps" "omap_find ps k = (case omap_find (w_params stored) k of Some v \<Rightarrow> Some v
      | None \<Rightarrow> if hasFlag CONSTANT_FLAG (pk_flags (pr_key r)) then None else omap_find (w_params (si_want si)) k)"
    using addParams_find [OF inv(1) omap_inv_distinct [OF inv(2)], of "w_params stored" k] inv(1)
    by (auto simp: ps_def split: option.splits)
  have keep: "omap_find (CheckAppInstanceKey ev key b qs) k = omap_find qs k" for key b qs
    using k by (auto simp: CheckAppInstanceKey_def Let_def find_omap_erase split: option.splits)
  have fl: "w_params (if x then w\<lparr>w_flags := f\<rparr> else w) = w_params w" "w_bundleName (if x then w\<lparr>w_flags := f\<rparr> else w) = w_bundleName w"
    "w_params (w\<lparr>w_params := qs\<rparr>) = qs" for x w f qs by simp_all
  have "\<exists>i. w_params (BuildSendWant ev r si) = CheckAppInstanceKey ev (pr_key r) (w_bundleName stored)
      (if omap_find ps PARAM_APP_CLONE_INDEX_KEY = None then omap_put PARAM_APP_CLONE_INDEX_KEY (IntParam i) ps else ps)"
    unfolding BuildSendWant_def Let_def stored [symmetric] fl ps_def [symmetric] by blast
  then have "omap_find (w_params (BuildSendWant ev r si)) k = omap_find ps k" using k ps(1) by (auto simp: keep find_omap_put)
  moreover have "w_bundleName (BuildSendWant ev r si) = w_bundleName stored" "w_deviceId (BuildSendWant ev r si) = w_deviceId stored"
    by (simp_all add: BuildSendWant_def Let_def stored)
  ultimately show ?thesis using ps(2) by simp
qed


section \<open>A small run\<close>

text \<open>An application asks for a one-time want agent that starts one of its abilities, and triggers it.\<close>

definition exWant :: want where
  "exWant = \<lparr>w_bundleName = ''app'', w_deviceId = '''', w_flags = 0, w_params = [(''page'', IntParam 3)], w_rest = 0\<rparr>"

definition exInfo :: want_sender_info where
  "exInfo = \<lparr>ws_type = START_ABILITY, ws_requestCode = 1, ws_flags = ONE_TIME_FLAG, ws_userId = 100, ws_appIndex = 0, ws_bundleName = ''app'',
     ws_resultWho = '''', ws_allWants = [\<lparr>wi_want = exWant, wi_resolvedTypes = ''''\<rparr>]\<rparr>"

definition exEnv :: pending_env where
  "exEnv = \<lparr>pe_isSACall = False, pe_isSystemAppCall = False, pe_callingTokenId = 9, pe_localDeviceId = ''here'',
     pe_startLocal = (\<lambda>w b t u. 0), pe_startRemote = None, pe_startExtension = (\<lambda>w. 0), pe_publish = (\<lambda>w. True),
     pe_nameAndIndexForUid = (\<lambda>u. None), pe_instanceKeys = (\<lambda>b. None), pe_isFocused = True, pe_isAbilityForegrounding = True,
     pe_windowStates = Some [(True, True)], pe_backgroundPermission = False, pe_managerAlive = True, pe_MAX_USER_ID = 10000\<rparr>"

definition exPend0 :: pending_mgr where
  "exPend0 = \<lparr>pw_heap = (\<lambda>a. None), pw_records = [], pw_agentCount = [], pw_idCount = 0, pw_log = []\<rparr>"

definition exGet :: "nat option \<times> pending_mgr" where
  "exGet = projr (GetWantSender (=) exEnv 20 20 False exInfo 0 20 7 exPend0)"

definition exPend1 :: pending_mgr where
  "exPend1 = snd exGet"

definition exSend :: sender_info where
  "exSend = \<lparr>si_code = 0, si_want = exWant, si_hasFinishedReceiver = False, si_hasStartOptions = False, si_operType = 0, si_tokenId = 0\<rparr>"

definition exPend2 :: pending_mgr where
  "exPend2 = snd (projr (SendWantSender exEnv (LocalSender 7) exSend exPend1))"

definition exRecord :: pending_record where
  "exRecord = the (pw_heap exPend1 7)"

lemma eq_equivp: "equivp ((=) :: want \<Rightarrow> want \<Rightarrow> bool)"
  by (rule identity_equivp)

lemma exPend0_reach: "reach pending_start (pending_step (=)) exPend0"
  by (rule reach_start) (simp add: pending_start_def exPend0_def)

lemma exGet_result: "GetWantSender (=) exEnv 20 20 False exInfo 0 20 7 exPend0 = Inr (Some 7, exPend1)"
proof -
  have "case GetWantSender (=) exEnv 20 20 False exInfo 0 20 7 exPend0 of Inl e \<Rightarrow> False | Inr r \<Rightarrow> fst r = Some 7" by code_simp
  then show ?thesis by (auto simp: exPend1_def exGet_def split: sum.splits)
qed

lemma exPend1_step: "pending_step (=) exPend0 exPend1"
  unfolding pending_step_def
  by (intro exI [of _ exEnv] exI [of _ "GetEvent 20 20 False exInfo 0 20 7"]) (simp add: exGet_result, simp add: exPend0_def)

lemma exPend1_reach: "reach pending_start (pending_step (=)) exPend1"
  by (rule reach_step [OF exPend0_reach exPend1_step])

lemma exPend1_record: "pw_heap exPend1 7 = Some exRecord" "pw_records exPend1 = [7]" "pr_canceled exRecord = False"
  "hasFlag ONE_TIME_FLAG (pk_flags (pr_key exRecord))" "CheckPermission exEnv exRecord"
proof -
  have "pw_heap exPend1 7 \<noteq> None" by code_simp
  then show "pw_heap exPend1 7 = Some exRecord" by (auto simp: exRecord_def)
  show "pw_records exPend1 = [7]" "pr_canceled exRecord = False" "hasFlag ONE_TIME_FLAG (pk_flags (pr_key exRecord))"
    "CheckPermission exEnv exRecord" by code_simp+
qed

lemma exSend_result: "\<exists>res. SendWantSender exEnv (LocalSender 7) exSend exPend1 = Inr (res, exPend2)"
proof -
  have "case SendWantSender exEnv (LocalSender 7) exSend exPend1 of Inl e \<Rightarrow> False | Inr r \<Rightarrow> True" by code_simp
  then show ?thesis by (cases "SendWantSender exEnv (LocalSender 7) exSend exPend1") (auto simp: exPend2_def)
qed

lemma exPend2_reach: "reach pending_start (pending_step (=)) exPend2"
proof (rule reach_step [OF exPend1_reach])
  show "pending_step (=) exPend1 exPend2"
    unfolding pending_step_def using exSend_result
    by (intro exI [of _ exEnv] exI [of _ "SendEvent (LocalSender 7) exSend"]) (auto simp: cpp_bind_eq_Inr)
qed

theorem pending_wants_reachable_witness: "pw_records exPend1 = [7] \<and> (\<exists>r. pw_heap exPend1 7 = Some r \<and> \<not> pr_canceled r)"
  using pending_wants_reachable [OF eq_equivp exPend1_reach] by (simp add: exPend1_record)

theorem GetWantSender_again_witness:
  "\<exists>s''. GetWantSender (=) exEnv 20 20 False (exInfo\<lparr>ws_flags := 0\<rparr>) 0 20 8 exPend1 = Inr (Some 7, s'') \<and> pw_records s'' = [7]"
proof -
  have fresh: "pw_heap exPend0 7 = None" by (simp add: exPend0_def)
  have f1: "\<not> hasFlag CANCEL_PRESENT_FLAG (ws_flags exInfo) \<or> \<not> hasFlag NO_BUILD_FLAG (ws_flags exInfo)" by code_simp
  have f2: "\<not> hasFlag CANCEL_PRESENT_FLAG 0" by code_simp
  from GetWantSender_again [OF eq_equivp exPend0_reach fresh exGet_result f1 f2, of 8] show ?thesis by (simp add: exPend1_record)
qed

theorem one_time_once_witness: "execs 7 exPend2 = 1"
proof -
  have rec: "pw_heap exPend2 7 = Some (the (pw_heap exPend2 7))" "hasFlag ONE_TIME_FLAG (pk_flags (pr_key (the (pw_heap exPend2 7))))"
    by code_simp+
  have "execs 7 exPend2 \<noteq> 0" by code_simp
  with one_time_once [OF eq_equivp exPend2_reach rec] show ?thesis by simp
qed

theorem cancel_final_witness:
  "\<exists>s1. CancelWantSenderLocked exEnv 7 True exPend1 = Inr s1 \<and> 7 \<notin> set (pw_records s1) \<and> execs 7 s1 = execs 7 exPend1"
proof -
  obtain s1 where c: "CancelWantSenderLocked exEnv 7 True exPend1 = Inr s1" using Cancel_spec [OF exPend1_record(1), of exEnv] by blast
  have "reach (\<lambda>x. x = s1) (pending_step (=)) s1" by (rule reach_start) simp
  from cancel_final [OF eq_equivp exPend1_reach c this] c show ?thesis by blast
qed

theorem Clear_keeps_alive_witness:
  "pw_records (ClearPendingWantRecordTask exEnv ''app'' 20 exPend1) = [] \<and>
   (\<exists>res s'. SendWantSender exEnv (LocalSender 7) exSend (ClearPendingWantRecordTask exEnv ''app'' 20 exPend1) = Inr (res, s') \<and> execs 7 s' = 1)"
proof -
  have m: "7 \<in> set (pw_records exPend1)" "pe_managerAlive exEnv" by (simp_all add: exPend1_record exEnv_def)
  have "execs 7 exPend1 = 0" "pw_records (ClearPendingWantRecordTask exEnv ''app'' 20 exPend1) = []" by code_simp+
  with Clear_keeps_alive [OF eq_equivp exPend1_reach m(1) exPend1_record(1,5) m(2), of exEnv "''app''" 20 exSend] show ?thesis by simp
qed

theorem Cancel_keeps_count_witness:
  "\<exists>s'. CancelWantSender (exEnv\<lparr>pe_isSACall := True\<rparr>) False (LocalSender 7) exPend1 = Inr s' \<and> pw_records s' = [] \<and>
     omap_find (pw_agentCount s') ''app'' \<noteq> None"
proof -
  have sys: "pe_isSystemAppCall (exEnv\<lparr>pe_isSACall := True\<rparr>) = False" "pe_isSACall (exEnv\<lparr>pe_isSACall := True\<rparr>)"
    by (simp_all add: exEnv_def)
  from Cancel_spec [OF exPend1_record(1), of "exEnv\<lparr>pe_isSACall := True\<rparr>"] obtain s' where
    c: "CancelWantSender (exEnv\<lparr>pe_isSACall := True\<rparr>) (pe_isSystemAppCall (exEnv\<lparr>pe_isSACall := True\<rparr>)) (LocalSender 7) exPend1 = Inr s'"
      "pw_records s' = []" using sys(2) by (auto simp: CancelWantSender_def exPend1_record)
  have "omap_find (pw_agentCount exPend1) ''app'' \<noteq> None" by code_simp
  with Cancel_keeps_count [OF c(1) sys(2)] c sys(1) show ?thesis by auto
qed

theorem BuildSendWant_keeps_stored_witness:
  "omap_find (w_params (BuildSendWant exEnv exRecord (exSend\<lparr>si_want := exWant\<lparr>w_params := [(''page'', IntParam 4)]\<rparr>\<rparr>))) ''page'' = Some (IntParam 3)"
proof -
  let ?si = "exSend\<lparr>si_want := exWant\<lparr>w_params := [(''page'', IntParam 4)]\<rparr>\<rparr>"
  let ?st = "if pk_allWantsInfos (pr_key exRecord) \<noteq> [] then pk_requestWant (pr_key exRecord) else emptyWant"
  have p: "w_params ?st = [(''page'', IntParam 3)]" by code_simp
  have i: "omap_inv (w_params ?st)" "omap_inv (w_params (si_want ?si))" unfolding p by (simp_all add: omap_inv_def)
  have k: "''page'' \<notin> {PARAM_APP_CLONE_INDEX_KEY, APP_MULTI_INSTANCE}" by code_simp
  from BuildSendWant_keeps_stored [OF refl i k, of exEnv] p show ?thesis by simp
qed

end
