(* ===== verification/Connection_State.thy ===== *)
theory Connection_State
  imports Ordered_Map
begin

text \<open>
  The connection states of the ability manager: \<open>connection_state_item.cpp\<close>, \<open>connection_state_manager.cpp\<close>,
  \<open>connection_observer_controller.cpp\<close> and \<open>dlp_state_item.cpp\<close>.  For every calling process the manager keeps the
  extensions and data abilities it is connected to and tells its observers when a connection begins, ends, is
  suspended or resumed.

  \<^item> Remote objects (tokens, connection callbacks) are numbers, a null pointer is \<open>None\<close>.  Maps keyed by pointers are
    ordered by these numbers; so is the hash table of the processes, on whose order nothing below depends.
  \<^item> Of ability records the fields that are read are the record \<open>target_record\<close>.
  \<^item> \<open>cm_log\<close> holds each report with the observers it was sent to.  \<open>cm_observers\<close> is \<open>None\<close> before \<open>Init\<close>.
  \<^item> The shared pointers kept in the maps are never null, so the tests for null there have no branch.
\<close>

section \<open>Data\<close>

datatype ability_type = PAGE | SERVICE | DATA | EXTENSION | OTHER_ABILITY nat

datatype extension_type = EXT_SERVICE | EXT_DATASHARE | EXT_UNSPECIFIED | EXT_UI_SERVICE | EXT_AGENT | EXT_MODULAR_OBJECT
  | EXT_WINDOW | EXT_OTHER nat

record target_record =
  tr_token :: "nat option"
  tr_pid :: int
  tr_uid :: int
  tr_bundleName :: string
  tr_moduleName :: string
  tr_name :: string
  tr_extensionAbilityType :: extension_type
  tr_type :: ability_type
  tr_appIndex :: int
  tr_ownerMissionUserId :: int

record connection_record =
  cr_callerUid :: int
  cr_callerPid :: int
  cr_callerName :: string
  cr_targetService :: "target_record option"
  cr_connection :: "nat option"

definition GetTargetToken :: "connection_record \<Rightarrow> nat option" where
  "GetTargetToken record = (case cr_targetService record of None \<Rightarrow> None | Some targetService \<Rightarrow> tr_token targetService)"

record ext_info =
  ei_extensionPid :: int
  ei_extensionUid :: int
  ei_extensionBundleName :: string
  ei_extensionModuleName :: string
  ei_extensionName :: string
  ei_extensionType :: extension_type

record connection_data =
  cd_isSuspended :: bool
  cd_extension :: ext_info
  cd_callerUid :: int
  cd_callerPid :: int
  cd_callerName :: string

definition newConnectionData :: connection_data where
  "newConnectionData = \<lparr>cd_isSuspended = False,
     cd_extension = \<lparr>ei_extensionPid = -1, ei_extensionUid = 0, ei_extensionBundleName = [], ei_extensionModuleName = [],
       ei_extensionName = [], ei_extensionType = EXT_UNSPECIFIED\<rparr>,
     cd_callerUid = 0, cd_callerPid = 0, cd_callerName = []\<rparr>"

record connection_event =
  connectedEvent :: bool
  disconnectedEvent :: bool
  suspendedEvent :: bool
  resumedEvent :: bool

definition newConnectionEvent :: connection_event where
  "newConnectionEvent = \<lparr>connectedEvent = False, disconnectedEvent = False, suspendedEvent = False, resumedEvent = False\<rparr>"

section \<open>Connected extensions\<close>

record connected_extension =
  ce_info :: ext_info
  ce_connections :: "(nat, bool) omap"  \<comment> \<open>connection callback to whether it is suspended\<close>

definition newConnectedExtension :: "target_record \<Rightarrow> connected_extension" where
  "newConnectedExtension target = \<lparr>ce_info = \<lparr>ei_extensionPid = tr_pid target, ei_extensionUid = tr_uid target,
       ei_extensionBundleName = tr_bundleName target, ei_extensionModuleName = tr_moduleName target,
       ei_extensionName = tr_name target,
       ei_extensionType = (if tr_type target = SERVICE then EXT_SERVICE
                           else if tr_type target = DATA then EXT_DATASHARE
                           else tr_extensionAbilityType target)\<rparr>,
     ce_connections = []\<rparr>"

definition CreateConnectedExtension :: "connection_record \<Rightarrow> connected_extension option" where
  "CreateConnectedExtension record = map_option newConnectedExtension (cr_targetService record)"

text \<open>Whether some connection is not suspended: the \<open>find_if\<close> of the code.\<close>

definition someActive :: "(nat, bool) omap \<Rightarrow> bool" where
  "someActive connections \<longleftrightarrow> list_ex (\<lambda>p. \<not> snd p) connections"

definition ce_AddConnection ::
  "nat option \<Rightarrow> connected_extension \<Rightarrow> connection_event \<Rightarrow> bool \<times> connected_extension \<times> connection_event" where
  "ce_AddConnection connection ce event =
     (case connection of
        None \<Rightarrow> (False, ce, event)
      | Some c \<Rightarrow>
          if ce_connections ce = []
          then (True, ce\<lparr>ce_connections := omap_put c False (ce_connections ce)\<rparr>, event\<lparr>connectedEvent := True\<rparr>)
          else let needNotify = \<not> someActive (ce_connections ce);
                   ce = ce\<lparr>ce_connections := omap_put c False (ce_connections ce)\<rparr>
               in if needNotify then (True, ce, event\<lparr>resumedEvent := True\<rparr>) else (False, ce, event))"

definition ce_RemoveConnection ::
  "nat option \<Rightarrow> connected_extension \<Rightarrow> connection_event \<Rightarrow> bool \<times> connected_extension \<times> connection_event" where
  "ce_RemoveConnection connection ce event =
     (case connection of
        None \<Rightarrow> (False, ce, event)
      | Some c \<Rightarrow>
          (case omap_find (ce_connections ce) c of
             None \<Rightarrow> (False, ce, event)
           | Some isUnAvaliable \<Rightarrow>
               let ce = ce\<lparr>ce_connections := omap_erase c (ce_connections ce)\<rparr>
               in if ce_connections ce = [] then (True, ce, event\<lparr>disconnectedEvent := True\<rparr>)
                  else if isUnAvaliable then (False, ce, event)
                  else if \<not> someActive (ce_connections ce) then (True, ce, event\<lparr>suspendedEvent := True\<rparr>)
                  else (False, ce, event)))"

definition ce_SuspendConnection :: "nat option \<Rightarrow> connected_extension \<Rightarrow> bool \<times> connected_extension" where
  "ce_SuspendConnection connection ce =
     (case connection of
        None \<Rightarrow> (False, ce)
      | Some c \<Rightarrow>
          (case omap_find (ce_connections ce) c of
             None \<Rightarrow> (False, ce)
           | Some suspended \<Rightarrow>
               if suspended then (False, ce)
               else let ce = ce\<lparr>ce_connections := omap_put c True (ce_connections ce)\<rparr>
                    in (\<not> someActive (ce_connections ce), ce)))"

definition ce_ResumeConnection :: "nat option \<Rightarrow> connected_extension \<Rightarrow> bool \<times> connected_extension" where
  "ce_ResumeConnection connection ce =
     (case connection of
        None \<Rightarrow> (False, ce)
      | Some c \<Rightarrow>
          (case omap_find (ce_connections ce) c of
             None \<Rightarrow> (False, ce)
           | Some _ \<Rightarrow>
               let needNotify = \<not> someActive (ce_connections ce)
               in (needNotify, ce\<lparr>ce_connections := omap_put c False (ce_connections ce)\<rparr>)))"

definition ce_GenerateExtensionInfo :: "connected_extension \<Rightarrow> connection_data \<Rightarrow> connection_data" where
  "ce_GenerateExtensionInfo ce data =
     (let data = (if \<not> someActive (ce_connections ce) then data\<lparr>cd_isSuspended := True\<rparr> else data)
      in data\<lparr>cd_extension := ce_info ce\<rparr>)"

section \<open>Connected data abilities\<close>

record data_ability_caller =
  dc_callerPid :: int
  dc_callerUid :: int
  dc_callerName :: string
  dc_callerToken :: "nat option"
  dc_isNotHap :: bool

record caller_info =
  ci_isNotHap :: bool
  ci_callerPid :: int
  ci_callerToken :: "nat option"

record connected_data =
  cda_info :: ext_info
  cda_callers :: "caller_info list"

text \<open>A data ability record: its token, and the ability record when it is loaded.\<close>

record data_ability_record =
  da_token :: "nat option"
  da_abilityRecord :: "target_record option"

definition CreateConnectedDataAbility :: "data_ability_record \<Rightarrow> connected_data option" where
  "CreateConnectedDataAbility record =
     map_option (\<lambda>target. \<lparr>cda_info = \<lparr>ei_extensionPid = tr_pid target, ei_extensionUid = tr_uid target,
         ei_extensionBundleName = tr_bundleName target, ei_extensionModuleName = tr_moduleName target,
         ei_extensionName = tr_name target, ei_extensionType = EXT_DATASHARE\<rparr>, cda_callers = []\<rparr>) (da_abilityRecord record)"

definition isCaller :: "data_ability_caller \<Rightarrow> caller_info \<Rightarrow> bool" where
  "isCaller caller info =
     (if dc_isNotHap caller then ci_isNotHap info \<and> ci_callerPid info = dc_callerPid caller
      else ci_callerToken info = dc_callerToken caller)"

definition AddCaller :: "data_ability_caller \<Rightarrow> connected_data \<Rightarrow> bool \<times> connected_data" where
  "AddCaller caller cda =
     (if \<not> dc_isNotHap caller \<and> dc_callerToken caller = None then (False, cda)
      else let needNotify = cda_callers cda = []
           in (needNotify,
               if list_ex (isCaller caller) (cda_callers cda) then cda
               else cda\<lparr>cda_callers := cda_callers cda @
                      [\<lparr>ci_isNotHap = dc_isNotHap caller, ci_callerPid = dc_callerPid caller, ci_callerToken = dc_callerToken caller\<rparr>]\<rparr>))"

definition RemoveCaller :: "data_ability_caller \<Rightarrow> connected_data \<Rightarrow> bool \<times> connected_data" where
  "RemoveCaller caller cda =
     (if \<not> dc_isNotHap caller \<and> dc_callerToken caller = None then (False, cda)
      else let callers = erase_first (isCaller caller) (cda_callers cda)
           in (callers = [], cda\<lparr>cda_callers := callers\<rparr>))"

definition cda_GenerateExtensionInfo :: "connected_data \<Rightarrow> connection_data \<Rightarrow> connection_data" where
  "cda_GenerateExtensionInfo cda data = data\<lparr>cd_extension := cda_info cda\<rparr>"

section \<open>The connections of a process\<close>

record connection_item =
  it_callerUid :: int
  it_callerPid :: int
  it_callerName :: string
  it_connectionMap :: "(nat, connected_extension) omap"
  it_dataAbilityMap :: "(nat, connected_data) omap"

definition CreateConnectionStateItem :: "connection_record \<Rightarrow> connection_item" where
  "CreateConnectionStateItem record = \<lparr>it_callerUid = cr_callerUid record, it_callerPid = cr_callerPid record,
     it_callerName = cr_callerName record, it_connectionMap = [], it_dataAbilityMap = []\<rparr>"

definition CreateConnectionStateItemData :: "data_ability_caller \<Rightarrow> connection_item" where
  "CreateConnectionStateItemData caller = \<lparr>it_callerUid = dc_callerUid caller, it_callerPid = dc_callerPid caller,
     it_callerName = dc_callerName caller, it_connectionMap = [], it_dataAbilityMap = []\<rparr>"

definition setCaller :: "connection_item \<Rightarrow> connection_data \<Rightarrow> connection_data" where
  "setCaller it data = data\<lparr>cd_callerUid := it_callerUid it, cd_callerPid := it_callerPid it, cd_callerName := it_callerName it\<rparr>"

definition csi_GenerateConnectionData :: "connection_item \<Rightarrow> connected_extension \<Rightarrow> connection_data \<Rightarrow> connection_data" where
  "csi_GenerateConnectionData it ce data = setCaller it (ce_GenerateExtensionInfo ce data)"

definition csi_GenerateConnectionDataAbility :: "connection_item \<Rightarrow> connected_data \<Rightarrow> connection_data \<Rightarrow> connection_data" where
  "csi_GenerateConnectionDataAbility it cda data = setCaller it (cda_GenerateExtensionInfo cda data)"

definition csi_AddConnection ::
  "connection_record \<Rightarrow> connection_item \<Rightarrow> connection_data \<Rightarrow> connection_event \<Rightarrow>
   bool \<times> connection_item \<times> connection_data \<times> connection_event" where
  "csi_AddConnection record it data event =
     (case (GetTargetToken record, cr_connection record) of
        (Some token, Some connectionObj) \<Rightarrow>
          (case (case omap_find (it_connectionMap it) token of
                   None \<Rightarrow> CreateConnectedExtension record
                 | Some ce \<Rightarrow> Some ce) of
             None \<Rightarrow> (False, it, data, event)
           | Some connectedExtension \<Rightarrow>
               let (needNotify, ce, event) = ce_AddConnection (Some connectionObj) connectedExtension event;
                   it = it\<lparr>it_connectionMap := omap_put token ce (it_connectionMap it)\<rparr>
               in (needNotify, it, if needNotify then csi_GenerateConnectionData it ce data else data, event))
      | _ \<Rightarrow> (False, it, data, event))"

definition csi_RemoveConnection ::
  "connection_record \<Rightarrow> connection_item \<Rightarrow> connection_data \<Rightarrow> connection_event \<Rightarrow>
   bool \<times> connection_item \<times> connection_data \<times> connection_event" where
  "csi_RemoveConnection record it data event =
     (case (GetTargetToken record, cr_connection record) of
        (Some token, Some connectionObj) \<Rightarrow>
          (case omap_find (it_connectionMap it) token of
             None \<Rightarrow> (False, it, data, event)
           | Some connectedExtension \<Rightarrow>
               let (needNotify, ce, event) = ce_RemoveConnection (Some connectionObj) connectedExtension event
               in if needNotify
                  then let it = it\<lparr>it_connectionMap := omap_erase token (it_connectionMap it)\<rparr>
                       in (True, it, csi_GenerateConnectionData it ce data, event)
                  else (False, it\<lparr>it_connectionMap := omap_put token ce (it_connectionMap it)\<rparr>, data, event))
      | _ \<Rightarrow> (False, it, data, event))"

text \<open>\<open>SuspendConnection\<close> and \<open>ResumeConnection\<close> have the same body around the operation of the extension.\<close>

definition csi_change ::
  "(nat option \<Rightarrow> connected_extension \<Rightarrow> bool \<times> connected_extension) \<Rightarrow> connection_record \<Rightarrow> connection_item \<Rightarrow> connection_data \<Rightarrow>
   bool \<times> connection_item \<times> connection_data" where
  "csi_change change record it data =
     (case (GetTargetToken record, cr_connection record) of
        (Some token, Some connectionObj) \<Rightarrow>
          (case omap_find (it_connectionMap it) token of
             None \<Rightarrow> (False, it, data)
           | Some connectedExtension \<Rightarrow>
               let (needNotify, ce) = change (Some connectionObj) connectedExtension;
                   it = it\<lparr>it_connectionMap := omap_put token ce (it_connectionMap it)\<rparr>
               in (needNotify, it, if needNotify then csi_GenerateConnectionData it ce data else data))
      | _ \<Rightarrow> (False, it, data))"

definition csi_SuspendConnection :: "connection_record \<Rightarrow> connection_item \<Rightarrow> connection_data \<Rightarrow> bool \<times> connection_item \<times> connection_data" where
  "csi_SuspendConnection = csi_change ce_SuspendConnection"

definition csi_ResumeConnection :: "connection_record \<Rightarrow> connection_item \<Rightarrow> connection_data \<Rightarrow> bool \<times> connection_item \<times> connection_data" where
  "csi_ResumeConnection = csi_change ce_ResumeConnection"

definition csi_AddDataAbilityConnection ::
  "data_ability_caller \<Rightarrow> data_ability_record \<Rightarrow> connection_item \<Rightarrow> connection_data \<Rightarrow> bool \<times> connection_item \<times> connection_data" where
  "csi_AddDataAbilityConnection caller dataAbility it data =
     (case da_token dataAbility of
        None \<Rightarrow> (False, it, data)
      | Some token \<Rightarrow>
          (case (case omap_find (it_dataAbilityMap it) token of
                   None \<Rightarrow> CreateConnectedDataAbility dataAbility
                 | Some cda \<Rightarrow> Some cda) of
             None \<Rightarrow> (False, it, data)
           | Some connectedAbility \<Rightarrow>
               let (needNotify, cda) = AddCaller caller connectedAbility;
                   it = it\<lparr>it_dataAbilityMap := omap_put token cda (it_dataAbilityMap it)\<rparr>
               in (needNotify, it, if needNotify then csi_GenerateConnectionDataAbility it cda data else data)))"

definition csi_RemoveDataAbilityConnection ::
  "data_ability_caller \<Rightarrow> data_ability_record \<Rightarrow> connection_item \<Rightarrow> connection_data \<Rightarrow> bool \<times> connection_item \<times> connection_data" where
  "csi_RemoveDataAbilityConnection caller dataAbility it data =
     (case da_token dataAbility of
        None \<Rightarrow> (False, it, data)
      | Some token \<Rightarrow>
          (case omap_find (it_dataAbilityMap it) token of
             None \<Rightarrow> (False, it, data)
           | Some connectedDataAbility \<Rightarrow>
               let (needNotify, cda) = RemoveCaller caller connectedDataAbility
               in if needNotify
                  then let it = it\<lparr>it_dataAbilityMap := omap_erase token (it_dataAbilityMap it)\<rparr>
                       in (True, it, csi_GenerateConnectionDataAbility it cda data)
                  else (False, it\<lparr>it_dataAbilityMap := omap_put token cda (it_dataAbilityMap it)\<rparr>, data)))"

definition csi_HandleDataAbilityDied :: "nat \<Rightarrow> connection_item \<Rightarrow> connection_data \<Rightarrow> bool \<times> connection_item \<times> connection_data" where
  "csi_HandleDataAbilityDied token it data =
     (case omap_find (it_dataAbilityMap it) token of
        None \<Rightarrow> (False, it, data)
      | Some cda \<Rightarrow>
          let it = it\<lparr>it_dataAbilityMap := omap_erase token (it_dataAbilityMap it)\<rparr>
          in (True, it, csi_GenerateConnectionDataAbility it cda data))"

definition csi_IsEmpty :: "connection_item \<Rightarrow> bool" where
  "csi_IsEmpty it \<longleftrightarrow> it_connectionMap it = [] \<and> it_dataAbilityMap it = []"

text \<open>The two loops share one \<open>ConnectionData\<close>.\<close>

fun generateLoop :: "('v \<Rightarrow> connection_data \<Rightarrow> connection_data) \<Rightarrow> (nat, 'v) omap \<Rightarrow> connection_data \<Rightarrow> connection_data list \<Rightarrow>
    connection_data \<times> connection_data list" where
  "generateLoop gen [] data datas = (data, datas)"
| "generateLoop gen (e # m) data datas = (let data = gen (snd e) data in generateLoop gen m data (datas @ [data]))"

definition GenerateAllConnectionData :: "connection_item \<Rightarrow> connection_data list" where
  "GenerateAllConnectionData it =
     (let (data, datas) = generateLoop (csi_GenerateConnectionData it) (it_connectionMap it) newConnectionData [];
          (data, datas) = generateLoop (csi_GenerateConnectionDataAbility it) (it_dataAbilityMap it) data datas
      in datas)"

section \<open>The observers\<close>

record dlp_data =
  dd_targetPid :: int
  dd_targetUid :: int
  dd_callerUid :: int
  dd_callerPid :: int
  dd_callerName :: string
  dd_targetBundleName :: string
  dd_targetModuleName :: string
  dd_targetAbilityName :: string

datatype report_kind = ExtensionConnected | ExtensionDisconnected | ExtensionSuspended | ExtensionResumed

datatype report = ExtensionReport report_kind connection_data | DlpReport bool dlp_data

record dlp_item =
  dl_dlpUid :: int
  dl_dlpPid :: int
  dl_dlpAbilities :: "nat list"

record connection_mgr =
  cm_observers :: "nat list option"
  cm_states :: "(int, connection_item) omap"
  cm_dlpItems :: "(int, dlp_item) omap"
  cm_hasAppStateObserver :: bool
  cm_retry :: nat
  cm_initTasks :: nat
  cm_log :: "(nat list \<times> report) list"

definition newConnectionStateManager :: connection_mgr where
  "newConnectionStateManager = \<lparr>cm_observers = None, cm_states = [], cm_dlpItems = [], cm_hasAppStateObserver = False,
     cm_retry = 0, cm_initTasks = 0, cm_log = []\<rparr>"

definition ERR_INVALID_OBSERVER :: int where "ERR_INVALID_OBSERVER = 2228225"
definition ERR_SERVICE_NOT_INIT :: int where "ERR_SERVICE_NOT_INIT = 2228230"

text \<open>\<open>ConnectionObserverController\<close>; \<open>asObject\<close> is the remote object of an observer.\<close>

definition oc_AddObserver :: "(nat \<Rightarrow> nat option) \<Rightarrow> nat option \<Rightarrow> nat list \<Rightarrow> int \<times> nat list" where
  "oc_AddObserver asObject observer observers =
     (case observer of
        None \<Rightarrow> (ERR_INVALID_OBSERVER, observers)
      | Some ob \<Rightarrow>
          if list_ex (\<lambda>item. asObject item = asObject ob) observers then (0, observers)
          else (0, observers @ [ob]))"

definition oc_RemoveObserver :: "(nat \<Rightarrow> nat option) \<Rightarrow> nat option \<Rightarrow> nat list \<Rightarrow> nat list" where
  "oc_RemoveObserver asObject observer observers =
     (case observer of
        None \<Rightarrow> observers
      | Some ob \<Rightarrow> erase_first (\<lambda>item. asObject item = asObject ob) observers)"

definition oc_HandleRemoteDied :: "(nat \<Rightarrow> nat option) \<Rightarrow> nat option \<Rightarrow> nat list \<Rightarrow> nat list" where
  "oc_HandleRemoteDied asObject remote observers =
     (case remote of
        None \<Rightarrow> observers
      | Some remoteObj \<Rightarrow> erase_first (\<lambda>item. asObject item = Some remoteObj) observers)"

definition CallObservers :: "report \<Rightarrow> connection_mgr \<Rightarrow> connection_mgr" where
  "CallObservers r s = (case cm_observers s of None \<Rightarrow> s | Some observers \<Rightarrow> s\<lparr>cm_log := cm_log s @ [(observers, r)]\<rparr>)"

section \<open>The manager\<close>

definition MAX_RETRY :: nat where "MAX_RETRY = 10"

text \<open>\<open>appManager\<close> is \<open>None\<close> when the application manager is not there, else the result of the registration.\<close>

definition InitAppStateObserver :: "int option \<Rightarrow> bool \<Rightarrow> connection_mgr \<Rightarrow> connection_mgr" where
  "InitAppStateObserver appManager hasHandler s =
     (if cm_hasAppStateObserver s then s
      else case appManager of
        None \<Rightarrow>
          if cm_retry s < MAX_RETRY \<and> hasHandler
          then s\<lparr>cm_initTasks := cm_initTasks s + 1, cm_retry := cm_retry s + 1\<rparr>
          else s
      | Some err \<Rightarrow> if err \<noteq> 0 then s else s\<lparr>cm_hasAppStateObserver := True\<rparr>)"

text \<open>With a handler the registration is a task of its own.\<close>

definition csm_Init :: "int option \<Rightarrow> bool \<Rightarrow> connection_mgr \<Rightarrow> connection_mgr" where
  "csm_Init appManager hasHandler s =
     (let s = (if cm_observers s = None then s\<lparr>cm_observers := Some []\<rparr> else s)
      in if \<not> hasHandler then InitAppStateObserver appManager hasHandler s
         else s\<lparr>cm_initTasks := cm_initTasks s + 1\<rparr>)"

definition csm_RegisterObserver :: "(nat \<Rightarrow> nat option) \<Rightarrow> nat option \<Rightarrow> connection_mgr \<Rightarrow> int \<times> connection_mgr" where
  "csm_RegisterObserver asObject observer s =
     (case cm_observers s of
        None \<Rightarrow> (ERR_SERVICE_NOT_INIT, s)
      | Some observers \<Rightarrow>
          let (res, observers) = oc_AddObserver asObject observer observers
          in (res, s\<lparr>cm_observers := Some observers\<rparr>))"

definition csm_UnregisterObserver :: "(nat \<Rightarrow> nat option) \<Rightarrow> nat option \<Rightarrow> connection_mgr \<Rightarrow> int \<times> connection_mgr" where
  "csm_UnregisterObserver asObject observer s =
     (case cm_observers s of
        None \<Rightarrow> (ERR_SERVICE_NOT_INIT, s)
      | Some observers \<Rightarrow> (0, s\<lparr>cm_observers := Some (oc_RemoveObserver asObject observer observers)\<rparr>))"

definition AddConnectionInner ::
  "connection_record \<Rightarrow> connection_mgr \<Rightarrow> bool \<times> connection_mgr \<times> connection_data \<times> connection_event" where
  "AddConnectionInner record s =
     (let callerPid = cr_callerPid record;
          targetItem = (case omap_find (cm_states s) callerPid of
                          None \<Rightarrow> CreateConnectionStateItem record
                        | Some it \<Rightarrow> it);
          (needNotify, it, data, event) = csi_AddConnection record targetItem newConnectionData newConnectionEvent
      in (needNotify, s\<lparr>cm_states := omap_put callerPid it (cm_states s)\<rparr>, data, event))"

definition csm_AddConnection :: "connection_record option \<Rightarrow> connection_mgr \<Rightarrow> connection_mgr" where
  "csm_AddConnection connectionRecord s =
     (if cm_observers s = None then s
      else case connectionRecord of
        None \<Rightarrow> s
      | Some record \<Rightarrow>
          let (needNotify, s, data, event) = AddConnectionInner record s
          in if \<not> needNotify then s
             else let s = (if connectedEvent event then CallObservers (ExtensionReport ExtensionConnected data) s else s)
                  in if resumedEvent event then CallObservers (ExtensionReport ExtensionResumed data) s else s)"

definition RemoveConnectionInner ::
  "connection_record \<Rightarrow> connection_mgr \<Rightarrow> bool \<times> connection_mgr \<times> connection_data \<times> connection_event" where
  "RemoveConnectionInner record s =
     (let callerPid = cr_callerPid record
      in case omap_find (cm_states s) callerPid of
           None \<Rightarrow> (False, s, newConnectionData, newConnectionEvent)
         | Some targetItem \<Rightarrow>
             let (result, it, data, event) = csi_RemoveConnection record targetItem newConnectionData newConnectionEvent
             in (result,
                 s\<lparr>cm_states := (if result \<and> csi_IsEmpty it then omap_erase callerPid (cm_states s)
                                else omap_put callerPid it (cm_states s))\<rparr>,
                 data, event))"

definition RemoveDiedCaller :: "int \<Rightarrow> connection_mgr \<Rightarrow> connection_item option \<times> connection_mgr" where
  "RemoveDiedCaller callerPid s =
     (case omap_find (cm_states s) callerPid of
        None \<Rightarrow> (None, s)
      | Some stateItem \<Rightarrow> (Some stateItem, s\<lparr>cm_states := omap_erase callerPid (cm_states s)\<rparr>))"

definition HandleCallerDied :: "int \<Rightarrow> connection_mgr \<Rightarrow> connection_mgr" where
  "HandleCallerDied callerPid s =
     (let (item, s) = RemoveDiedCaller callerPid s
      in case item of
           None \<Rightarrow> s
         | Some it \<Rightarrow> fold (\<lambda>data. CallObservers (ExtensionReport ExtensionDisconnected data)) (GenerateAllConnectionData it) s)"

definition csm_RemoveConnection :: "connection_record option \<Rightarrow> bool \<Rightarrow> connection_mgr \<Rightarrow> connection_mgr" where
  "csm_RemoveConnection connectionRecord isCallerDied s =
     (if cm_observers s = None then s
      else case connectionRecord of
        None \<Rightarrow> s
      | Some record \<Rightarrow>
          if isCallerDied then HandleCallerDied (cr_callerPid record) s
          else let (needNotify, s, data, event) = RemoveConnectionInner record s
               in if \<not> needNotify then s
                  else let s = (if disconnectedEvent event then CallObservers (ExtensionReport ExtensionDisconnected data) s else s)
                       in if suspendedEvent event then CallObservers (ExtensionReport ExtensionSuspended data) s else s)"

text \<open>\<open>SuspendConnectionInner\<close> and \<open>ResumeConnectionInner\<close> around the operation of the item.\<close>

definition changeInner ::
  "(connection_record \<Rightarrow> connection_item \<Rightarrow> connection_data \<Rightarrow> bool \<times> connection_item \<times> connection_data) \<Rightarrow>
   connection_record \<Rightarrow> connection_mgr \<Rightarrow> bool \<times> connection_mgr \<times> connection_data" where
  "changeInner change record s =
     (let callerPid = cr_callerPid record
      in case omap_find (cm_states s) callerPid of
           None \<Rightarrow> (False, s, newConnectionData)
         | Some targetItem \<Rightarrow>
             let (needNotify, it, data) = change record targetItem newConnectionData
             in (needNotify, s\<lparr>cm_states := omap_put callerPid it (cm_states s)\<rparr>, data))"

definition csm_SuspendConnection :: "connection_record option \<Rightarrow> connection_mgr \<Rightarrow> connection_mgr" where
  "csm_SuspendConnection connectionRecord s =
     (if cm_observers s = None then s
      else case connectionRecord of
        None \<Rightarrow> s
      | Some record \<Rightarrow>
          let (needNotify, s, data) = changeInner csi_SuspendConnection record s
          in if needNotify then CallObservers (ExtensionReport ExtensionSuspended data) s else s)"

definition csm_ResumeConnection :: "connection_record option \<Rightarrow> connection_mgr \<Rightarrow> connection_mgr" where
  "csm_ResumeConnection connectionRecord s =
     (if cm_observers s = None then s
      else case connectionRecord of
        None \<Rightarrow> s
      | Some record \<Rightarrow>
          let (needNotify, s, data) = changeInner csi_ResumeConnection record s
          in if needNotify then CallObservers (ExtensionReport ExtensionResumed data) s else s)"

definition CheckDataAbilityConnectionParams :: "data_ability_caller \<Rightarrow> data_ability_record option \<Rightarrow> connection_mgr \<Rightarrow> bool" where
  "CheckDataAbilityConnectionParams caller record s \<longleftrightarrow> cm_observers s \<noteq> None \<and> record \<noteq> None \<and> dc_callerPid caller \<noteq> 0"

definition AddDataAbilityConnectionInner ::
  "data_ability_caller \<Rightarrow> data_ability_record \<Rightarrow> connection_mgr \<Rightarrow> bool \<times> connection_mgr \<times> connection_data" where
  "AddDataAbilityConnectionInner caller record s =
     (let targetItem = (case omap_find (cm_states s) (dc_callerPid caller) of
                          None \<Rightarrow> CreateConnectionStateItemData caller
                        | Some it \<Rightarrow> it);
          (needNotify, it, data) = csi_AddDataAbilityConnection caller record targetItem newConnectionData
      in (needNotify, s\<lparr>cm_states := omap_put (dc_callerPid caller) it (cm_states s)\<rparr>, data))"

definition csm_AddDataAbilityConnection :: "data_ability_caller \<Rightarrow> data_ability_record option \<Rightarrow> connection_mgr \<Rightarrow> connection_mgr" where
  "csm_AddDataAbilityConnection caller record s =
     (if \<not> CheckDataAbilityConnectionParams caller record s then s
      else let (needNotify, s, data) = AddDataAbilityConnectionInner caller (the record) s
           in if needNotify then CallObservers (ExtensionReport ExtensionConnected data) s else s)"

definition RemoveDataAbilityConnectionInner ::
  "data_ability_caller \<Rightarrow> data_ability_record \<Rightarrow> connection_mgr \<Rightarrow> bool \<times> connection_mgr \<times> connection_data" where
  "RemoveDataAbilityConnectionInner caller record s =
     (case omap_find (cm_states s) (dc_callerPid caller) of
        None \<Rightarrow> (False, s, newConnectionData)
      | Some targetItem \<Rightarrow>
          let (result, it, data) = csi_RemoveDataAbilityConnection caller record targetItem newConnectionData
          in (result,
              s\<lparr>cm_states := (if result \<and> csi_IsEmpty it then omap_erase (dc_callerPid caller) (cm_states s)
                             else omap_put (dc_callerPid caller) it (cm_states s))\<rparr>, data))"

definition csm_RemoveDataAbilityConnection :: "data_ability_caller \<Rightarrow> data_ability_record option \<Rightarrow> connection_mgr \<Rightarrow> connection_mgr" where
  "csm_RemoveDataAbilityConnection caller record s =
     (if \<not> CheckDataAbilityConnectionParams caller record s then s
      else let (needNotify, s, data) = RemoveDataAbilityConnectionInner caller (the record) s
           in if needNotify then CallObservers (ExtensionReport ExtensionDisconnected data) s else s)"

fun HandleDataAbilityDiedInner ::
  "nat \<Rightarrow> (int, connection_item) omap \<Rightarrow> (int, connection_item) omap \<times> connection_data list" where
  "HandleDataAbilityDiedInner token [] = ([], [])"
| "HandleDataAbilityDiedInner token ((pid, item) # states) =
     (let (found, item, data) = csi_HandleDataAbilityDied token item newConnectionData;
          (states, allData) = HandleDataAbilityDiedInner token states
      in (if csi_IsEmpty item then states else (pid, item) # states, if found then data # allData else allData))"

definition csm_HandleDataAbilityDied :: "data_ability_record option \<Rightarrow> connection_mgr \<Rightarrow> connection_mgr" where
  "csm_HandleDataAbilityDied record s =
     (case record of
        None \<Rightarrow> s
      | Some r \<Rightarrow>
          (case da_token r of
             None \<Rightarrow> s
           | Some token \<Rightarrow>
               let (states, allData) = HandleDataAbilityDiedInner token (cm_states s);
                   s = s\<lparr>cm_states := states\<rparr>
               in fold (\<lambda>data. CallObservers (ExtensionReport ExtensionDisconnected data)) allData s))"

definition HandleDataAbilityCallerDied :: "int \<Rightarrow> connection_mgr \<Rightarrow> connection_mgr" where
  "HandleDataAbilityCallerDied callerPid s = (if callerPid \<le> 0 then s else HandleCallerDied callerPid s)"

definition csm_HandleAppDied :: "int \<Rightarrow> connection_mgr \<Rightarrow> connection_mgr" where
  "csm_HandleAppDied pid s = HandleCallerDied pid s"

definition GetConnectionData :: "connection_mgr \<Rightarrow> connection_data list" where
  "GetConnectionData s = concat (map (\<lambda>stateItem. GenerateAllConnectionData (snd stateItem)) (cm_states s))"

section \<open>Sandboxed abilities\<close>

definition DLP_BUNDLE_NAME :: string where "DLP_BUNDLE_NAME = ''com.ohos.dlpmanager''"

definition GenerateDlpStateData :: "target_record \<Rightarrow> dlp_item \<Rightarrow> dlp_data" where
  "GenerateDlpStateData dlpAbility item = \<lparr>dd_targetPid = tr_pid dlpAbility, dd_targetUid = tr_uid dlpAbility,
     dd_callerUid = dl_dlpUid item, dd_callerPid = dl_dlpPid item, dd_callerName = DLP_BUNDLE_NAME,
     dd_targetBundleName = tr_bundleName dlpAbility, dd_targetModuleName = tr_moduleName dlpAbility,
     dd_targetAbilityName = tr_name dlpAbility\<rparr>"

definition HandleDlpConnectionState :: "target_record \<Rightarrow> bool \<Rightarrow> dlp_item \<Rightarrow> dlp_data option \<times> dlp_item" where
  "HandleDlpConnectionState record isAdd item =
     (if \<not> IsDlpIndex (tr_appIndex record) then (None, item)
      else if dl_dlpUid item = 0 \<or> dl_dlpPid item = 0 then (None, item)
      else case tr_token record of
        None \<Rightarrow> (None, item)
      | Some tokenObj \<Rightarrow>
          let found = list_ex (\<lambda>i. tokenObj = i) (dl_dlpAbilities item)
          in if isAdd
             then if found then (None, item)
                  else let item = item\<lparr>dl_dlpAbilities := dl_dlpAbilities item @ [tokenObj]\<rparr>
                       in (Some (GenerateDlpStateData record item), item)
             else if \<not> found then (None, item)
                  else let item = item\<lparr>dl_dlpAbilities := erase_first (\<lambda>i. tokenObj = i) (dl_dlpAbilities item)\<rparr>
                       in (Some (GenerateDlpStateData record item), item))"

definition HandleDlpAbilityInner :: "target_record option \<Rightarrow> bool \<Rightarrow> connection_mgr \<Rightarrow> dlp_data option \<times> connection_mgr" where
  "HandleDlpAbilityInner dlpAbility isAdd s =
     (case dlpAbility of
        None \<Rightarrow> (None, s)
      | Some ability \<Rightarrow>
          if \<not> IsDlpIndex (tr_appIndex ability) then (None, s)
          else case omap_find (cm_dlpItems s) (tr_ownerMissionUserId ability) of
            None \<Rightarrow> (None, s)
          | Some dlpItem \<Rightarrow>
              let (data, item) = HandleDlpConnectionState ability isAdd dlpItem
              in (data, s\<lparr>cm_dlpItems := omap_put (tr_ownerMissionUserId ability) item (cm_dlpItems s)\<rparr>))"

definition AddDlpManager :: "target_record option \<Rightarrow> connection_mgr \<Rightarrow> connection_mgr" where
  "AddDlpManager dlpManger s =
     (case dlpManger of
        None \<Rightarrow> s
      | Some m \<Rightarrow>
          if omap_find (cm_dlpItems s) (tr_ownerMissionUserId m) = None
          then s\<lparr>cm_dlpItems := omap_put (tr_ownerMissionUserId m)
                   \<lparr>dl_dlpUid = tr_uid m, dl_dlpPid = tr_pid m, dl_dlpAbilities = []\<rparr> (cm_dlpItems s)\<rparr>
          else s)"

definition RemoveDlpManager :: "target_record option \<Rightarrow> connection_mgr \<Rightarrow> connection_mgr" where
  "RemoveDlpManager dlpManger s =
     (case dlpManger of
        None \<Rightarrow> s
      | Some m \<Rightarrow> s\<lparr>cm_dlpItems := omap_erase (tr_ownerMissionUserId m) (cm_dlpItems s)\<rparr>)"

definition AddDlpAbility :: "target_record option \<Rightarrow> connection_mgr \<Rightarrow> connection_mgr" where
  "AddDlpAbility dlpAbility s =
     (if cm_observers s = None then s
      else case HandleDlpAbilityInner dlpAbility True s of
        (None, s) \<Rightarrow> s
      | (Some dlpData, s) \<Rightarrow> CallObservers (DlpReport True dlpData) s)"

definition RemoveDlpAbility :: "target_record option \<Rightarrow> connection_mgr \<Rightarrow> connection_mgr" where
  "RemoveDlpAbility dlpAbility s =
     (if cm_observers s = None then s
      else case HandleDlpAbilityInner dlpAbility False s of
        (None, s) \<Rightarrow> s
      | (Some dlpData, s) \<Rightarrow> CallObservers (DlpReport False dlpData) s)"

definition GetDlpConnectionInfos :: "connection_mgr \<Rightarrow> (int \<times> int) list" where
  "GetDlpConnectionInfos s = map (\<lambda>(_, item). (dl_dlpUid item, int (length (dl_dlpAbilities item)))) (cm_dlpItems s)"


end
