(* ===== verification/Report_Traces.thy ===== *)
theory Report_Traces
  imports Ability_Prelude "HOL-Library.Multiset"
begin

text \<open>
  Components that keep a relation and report its changes to observers.  Each component is a function on its
  state that appends reports to a log; its contract is a function on an abstract state together with the reports
  that a call has to cause.  Reports of one call are compared as a multiset: where a call causes several, their
  order is that of a hash table or of addresses.

  \<^item> Locale \<open>reporting\<close>: when every call keeps the contract, so does every sequence of calls; interpreted in
    \<open>Connection_State\<close> and \<open>Foreground_Connection\<close>.
  \<^item> Locale \<open>callback_list\<close>: the list of observers, compared by their remote object; interpreted in the same theories.
\<close>

section \<open>Traces of calls\<close>

text \<open>The reports that each call adds to the log.\<close>

primrec trace :: "('e \<Rightarrow> 's \<Rightarrow> 's) \<Rightarrow> ('s \<Rightarrow> 'n list) \<Rightarrow> 'e list \<Rightarrow> 's \<Rightarrow> 'n list list" where
  "trace handle out [] s = []"
| "trace handle out (e # es) s = drop (length (out s)) (out (handle e s)) # trace handle out es (handle e s)"

primrec expected :: "('e \<Rightarrow> 'a \<Rightarrow> 'a) \<Rightarrow> ('e \<Rightarrow> 'a \<Rightarrow> 'n multiset) \<Rightarrow> 'e list \<Rightarrow> 'a \<Rightarrow> 'n multiset list" where
  "expected nxt due [] a = []"
| "expected nxt due (e # es) a = due e a # expected nxt due es (nxt e a)"

primrec all_ok :: "('e \<Rightarrow> 'a \<Rightarrow> bool) \<Rightarrow> ('e \<Rightarrow> 'a \<Rightarrow> 'a) \<Rightarrow> 'e list \<Rightarrow> 'a \<Rightarrow> bool" where
  "all_ok ok nxt [] a = True"
| "all_ok ok nxt (e # es) a = (ok e a \<and> all_ok ok nxt es (nxt e a))"

locale reporting =
  fixes handle :: "'e \<Rightarrow> 's \<Rightarrow> 's"
    and out :: "'s \<Rightarrow> 'n list"
    and abs :: "'s \<Rightarrow> 'a"
    and nxt :: "'e \<Rightarrow> 'a \<Rightarrow> 'a"
    and due :: "'e \<Rightarrow> 'a \<Rightarrow> 'n multiset"
    and ok :: "'e \<Rightarrow> 'a \<Rightarrow> bool"
    and inv :: "'s \<Rightarrow> bool"
  assumes inv_handle: "inv s \<Longrightarrow> ok e (abs s) \<Longrightarrow> inv (handle e s)"
    and abs_handle: "inv s \<Longrightarrow> ok e (abs s) \<Longrightarrow> abs (handle e s) = nxt e (abs s)"
    and out_handle: "inv s \<Longrightarrow> ok e (abs s) \<Longrightarrow> \<exists>new. out (handle e s) = out s @ new \<and> mset new = due e (abs s)"
begin

lemma run_refines:
  assumes "inv s" and "all_ok ok nxt es (abs s)"
  shows "inv (fold handle es s) \<and> abs (fold handle es s) = fold nxt es (abs s) \<and>
    map mset (trace handle out es s) = expected nxt due es (abs s)"
  using assms
proof (induction es arbitrary: s)
  case (Cons e es)
  then have ok: "ok e (abs s)" "all_ok ok nxt es (abs (handle e s))" by (simp_all add: abs_handle)
  obtain new where "out (handle e s) = out s @ new" "mset new = due e (abs s)" using out_handle [OF Cons.prems(1) ok(1)] by blast
  then show ?case
    using Cons.IH [OF inv_handle [OF Cons.prems(1) ok(1)] ok(2)] Cons.prems(1) ok(1) by (simp add: abs_handle)
qed simp

end

section \<open>Lists of observers\<close>

locale callback_list =
  fixes asObject :: "nat \<Rightarrow> nat option"
    and valid :: "nat \<Rightarrow> bool"
    and add :: "nat \<Rightarrow> 's \<Rightarrow> 's"
    and remove :: "nat \<Rightarrow> 's \<Rightarrow> 's"
    and died :: "nat \<Rightarrow> 's \<Rightarrow> 's"
    and observers :: "'s \<Rightarrow> nat list"
  assumes add_observers: "observers (add ob s) =
      (if \<not> valid ob \<or> (\<exists>x\<in>set (observers s). asObject x = asObject ob) then observers s else observers s @ [ob])"
    and remove_observers: "observers (remove ob s) =
      (if valid ob then erase_first (\<lambda>x. asObject x = asObject ob) (observers s) else observers s)"
    and died_observers: "observers (died obj s) = erase_first (\<lambda>x. asObject x = Some obj) (observers s)"
begin

definition once :: "'s \<Rightarrow> bool" where
  "once s \<longleftrightarrow> distinct (map asObject (observers s))"

definition listening :: "'s \<Rightarrow> nat option set" where
  "listening s = asObject ` set (observers s)"

lemma once_add: "once s \<Longrightarrow> once (add ob s)"
  by (auto simp: once_def add_observers)

lemma once_remove: "once s \<Longrightarrow> once (remove ob s)"
  by (simp add: once_def remove_observers distinct_map_erase_first)

lemma once_died: "once s \<Longrightarrow> once (died obj s)"
  by (simp add: once_def died_observers distinct_map_erase_first)

lemma listening_add: "valid ob \<Longrightarrow> listening (add ob s) = insert (asObject ob) (listening s)"
  by (auto simp: listening_def add_observers image_iff dest: sym)

lemma erase_first_image:
  "distinct (map f xs) \<Longrightarrow> f ` set (erase_first (\<lambda>x. f x = y) xs) = f ` set xs - {y}"
  by (induction xs) (auto simp: image_iff)

lemma listening_remove: "once s \<Longrightarrow> valid ob \<Longrightarrow> listening (remove ob s) = listening s - {asObject ob}"
  by (simp add: once_def listening_def remove_observers erase_first_image)

lemma listening_died: "once s \<Longrightarrow> listening (died obj s) = listening s - {Some obj}"
  by (simp add: once_def listening_def died_observers erase_first_image)

end

end
