(* ===== verification/Connection_Reports.thy ===== *)
theory Connection_Reports
  imports Connection_State Report_Traces
begin

text \<open>
  What the connection state manager promises its observers: an abstract state with the connections of every process, the
  reports that each call has to cause, and the proof that the code of \<open>Connection_State\<close> sends exactly these
  reports over every sequence of calls, except for the calls that \<open>keeps\<close> names; what goes wrong there is shown
  as well.
\<close>

section \<open>The contract\<close>

text \<open>
  Between a process and an extension there are connections, each suspended or not: the pair is absent without
  connections, active when one is not suspended, else paused.  The observers are to be told of each change
  between these three.  A data ability is connected while it has callers.
\<close>

datatype phase = Absent | Active | Paused

definition phase_of :: "(nat \<rightharpoonup> bool) \<Rightarrow> phase" where
  "phase_of m = (if m = Map.empty then Absent else if False \<in> ran m then Active else Paused)"

definition change_kind :: "phase \<Rightarrow> phase \<Rightarrow> report_kind option" where
  "change_kind p q =
     (if p = q then None
      else Some (case q of
             Absent \<Rightarrow> ExtensionDisconnected
           | Active \<Rightarrow> if p = Absent then ExtensionConnected else ExtensionResumed
           | Paused \<Rightarrow> ExtensionSuspended))"

record conn_spec =
  sp_live :: "int \<times> nat \<Rightarrow> (ext_info \<times> (nat \<rightharpoonup> bool)) option"
  sp_data :: "int \<times> nat \<Rightarrow> (ext_info \<times> caller_info list) option"

definition spec_empty :: conn_spec where
  "spec_empty = \<lparr>sp_live = \<lambda>_. None, sp_data = \<lambda>_. None\<rparr>"

definition conns_at :: "conn_spec \<Rightarrow> int \<times> nat \<Rightarrow> (nat \<rightharpoonup> bool)" where
  "conns_at A k = (case sp_live A k of None \<Rightarrow> Map.empty | Some (_, m) \<Rightarrow> m)"

text \<open>What a report tells: the kind of change, the calling process, the extension, and the suspended flag.\<close>

type_synonym conn_note = "report_kind \<times> int \<times> ext_info \<times> bool"

definition set_conns :: "int \<times> nat \<Rightarrow> ext_info \<Rightarrow> (nat \<rightharpoonup> bool) \<Rightarrow> conn_spec \<Rightarrow> conn_spec" where
  "set_conns k i m A = A\<lparr>sp_live := (sp_live A)(k := if m = Map.empty then None else Some (i, m))\<rparr>"

definition change_due :: "int \<times> nat \<Rightarrow> ext_info \<Rightarrow> (nat \<rightharpoonup> bool) \<Rightarrow> conn_spec \<Rightarrow> conn_note multiset" where
  "change_due k i m A =
     (case change_kind (phase_of (conns_at A k)) (phase_of m) of
        None \<Rightarrow> {#}
      | Some kind \<Rightarrow> {#(kind, fst k, i, phase_of m \<noteq> Active)#})"

definition key_of :: "connection_record \<Rightarrow> ((int \<times> nat) \<times> nat) option" where
  "key_of r = (case (GetTargetToken r, cr_connection r) of (Some t, Some c) \<Rightarrow> Some ((cr_callerPid r, t), c) | _ \<Rightarrow> None)"

datatype conn_call =
  Connect connection_record
| Disconnect connection_record
| Suspend connection_record
| Resume connection_record
| CallerDied int
| DataConnect data_ability_caller data_ability_record
| DataDisconnect data_ability_caller data_ability_record
| DataDied data_ability_record
| Register nat
| Unregister nat
| ObserverDied nat
| DlpManager bool target_record
| DlpAbility bool target_record

text \<open>The connections that a call leaves between the process and the extension it names.\<close>

fun new_conns :: "conn_call \<Rightarrow> nat \<Rightarrow> (nat \<rightharpoonup> bool) \<Rightarrow> (nat \<rightharpoonup> bool)" where
  "new_conns (Connect r) c m = m(c \<mapsto> False)"
| "new_conns (Disconnect r) c m = m(c := None)"
| "new_conns (Suspend r) c m = (if m c = None then m else m(c \<mapsto> True))"
| "new_conns (Resume r) c m = (if m c = None then m else m(c \<mapsto> False))"
| "new_conns _ c m = m"

fun call_record :: "conn_call \<Rightarrow> connection_record option" where
  "call_record (Connect r) = Some r"
| "call_record (Disconnect r) = Some r"
| "call_record (Suspend r) = Some r"
| "call_record (Resume r) = Some r"
| "call_record _ = None"

definition info_at :: "connection_record \<Rightarrow> int \<times> nat \<Rightarrow> conn_spec \<Rightarrow> ext_info" where
  "info_at r k A = (case sp_live A k of None \<Rightarrow> ce_info (newConnectedExtension (the (cr_targetService r))) | Some (i, _) \<Rightarrow> i)"

text \<open>The same for data abilities: \<open>None\<close> when the call is refused.\<close>

fun data_edit :: "conn_call \<Rightarrow> conn_spec \<Rightarrow> ((int \<times> nat) \<times> ext_info \<times> caller_info list) option" where
  "data_edit (DataConnect caller r) A =
     (if dc_callerPid caller = 0 then None
      else case da_token r of
        None \<Rightarrow> None
      | Some t \<Rightarrow>
          (case (sp_data A (dc_callerPid caller, t), CreateConnectedDataAbility r) of
             (None, None) \<Rightarrow> None
           | (None, Some cda) \<Rightarrow> Some ((dc_callerPid caller, t), cda_info cda, cda_callers (snd (AddCaller caller cda)))
           | (Some (i, cs), _) \<Rightarrow>
               Some ((dc_callerPid caller, t), i, cda_callers (snd (AddCaller caller \<lparr>cda_info = i, cda_callers = cs\<rparr>)))))"
| "data_edit (DataDisconnect caller r) A =
     (if dc_callerPid caller = 0 then None
      else case da_token r of
        None \<Rightarrow> None
      | Some t \<Rightarrow>
          (case sp_data A (dc_callerPid caller, t) of
             None \<Rightarrow> None
           | Some (i, cs) \<Rightarrow>
               Some ((dc_callerPid caller, t), i, cda_callers (snd (RemoveCaller caller \<lparr>cda_info = i, cda_callers = cs\<rparr>)))))"
| "data_edit _ A = None"

definition set_callers :: "int \<times> nat \<Rightarrow> ext_info \<Rightarrow> caller_info list \<Rightarrow> conn_spec \<Rightarrow> conn_spec" where
  "set_callers k i cs A = A\<lparr>sp_data := (sp_data A)(k := if cs = [] then None else Some (i, cs))\<rparr>"

definition callers_due :: "int \<times> nat \<Rightarrow> ext_info \<Rightarrow> caller_info list \<Rightarrow> conn_spec \<Rightarrow> conn_note multiset" where
  "callers_due k i cs A =
     (if sp_data A k = None \<and> cs \<noteq> [] then {#(ExtensionConnected, fst k, i, False)#}
      else if sp_data A k \<noteq> None \<and> cs = [] then {#(ExtensionDisconnected, fst k, i, False)#}
      else {#})"

definition gone :: "(int \<times> nat \<Rightarrow> (ext_info \<times> 'v) option) \<Rightarrow> (int \<times> nat) set \<Rightarrow> conn_note multiset" where
  "gone f K = image_mset (\<lambda>k. (ExtensionDisconnected, fst k, fst (the (f k)), False)) (mset_set {k \<in> K. f k \<noteq> None})"

fun spec_next :: "conn_call \<Rightarrow> conn_spec \<Rightarrow> conn_spec" where
  "spec_next (CallerDied pid) A = A\<lparr>sp_live := \<lambda>k. if fst k = pid then None else sp_live A k,
                                    sp_data := \<lambda>k. if fst k = pid then None else sp_data A k\<rparr>"
| "spec_next (DataDied r) A =
     (case da_token r of None \<Rightarrow> A | Some t \<Rightarrow> A\<lparr>sp_data := \<lambda>k. if snd k = t then None else sp_data A k\<rparr>)"
| "spec_next e A =
     (case data_edit e A of
        Some (k, i, cs) \<Rightarrow> set_callers k i cs A
      | None \<Rightarrow>
          (case call_record e of
             None \<Rightarrow> A
           | Some r \<Rightarrow>
               (case key_of r of
                  None \<Rightarrow> A
                | Some (k, c) \<Rightarrow> set_conns k (info_at r k A) (new_conns e c (conns_at A k)) A)))"

fun spec_due :: "conn_call \<Rightarrow> conn_spec \<Rightarrow> conn_note multiset" where
  "spec_due (CallerDied pid) A = gone (sp_live A) {k. fst k = pid} + gone (sp_data A) {k. fst k = pid}"
| "spec_due (DataDied r) A =
     (case da_token r of None \<Rightarrow> {#} | Some t \<Rightarrow> gone (sp_data A) {k. snd k = t})"
| "spec_due e A =
     (case data_edit e A of
        Some (k, i, cs) \<Rightarrow> callers_due k i cs A
      | None \<Rightarrow>
          (case call_record e of
             None \<Rightarrow> {#}
           | Some r \<Rightarrow>
               (case key_of r of
                  None \<Rightarrow> {#}
                | Some (k, c) \<Rightarrow> change_due k (info_at r k A) (new_conns e c (conns_at A k)) A)))"

text \<open>The calls on which the code keeps the contract.  It does not when the last connection that is not suspended
  is removed and suspended ones remain, when a process dies that has a paused extension, and when a data
  ability is acquired by a caller without a token.\<close>

fun keeps :: "conn_call \<Rightarrow> conn_spec \<Rightarrow> bool" where
  "keeps (Disconnect r) A =
     (case key_of r of
        None \<Rightarrow> True
      | Some (k, c) \<Rightarrow> \<not> (phase_of (conns_at A k) = Active \<and> phase_of ((conns_at A k)(c := None)) = Paused))"
| "keeps (CallerDied pid) A = (\<forall>t. phase_of (conns_at A (pid, t)) \<noteq> Paused)"
| "keeps (DataConnect caller r) A = (dc_isNotHap caller \<or> dc_callerToken caller \<noteq> None)"
| "keeps _ A = True"

fun conn_handle :: "(nat \<Rightarrow> nat option) \<Rightarrow> conn_call \<Rightarrow> connection_mgr \<Rightarrow> connection_mgr" where
  "conn_handle asObject (Connect r) s = csm_AddConnection (Some r) s"
| "conn_handle asObject (Disconnect r) s = csm_RemoveConnection (Some r) False s"
| "conn_handle asObject (Suspend r) s = csm_SuspendConnection (Some r) s"
| "conn_handle asObject (Resume r) s = csm_ResumeConnection (Some r) s"
| "conn_handle asObject (CallerDied pid) s = csm_HandleAppDied pid s"
| "conn_handle asObject (DataConnect caller r) s = csm_AddDataAbilityConnection caller (Some r) s"
| "conn_handle asObject (DataDisconnect caller r) s = csm_RemoveDataAbilityConnection caller (Some r) s"
| "conn_handle asObject (DataDied r) s = csm_HandleDataAbilityDied (Some r) s"
| "conn_handle asObject (Register ob) s = snd (csm_RegisterObserver asObject (Some ob) s)"
| "conn_handle asObject (Unregister ob) s = snd (csm_UnregisterObserver asObject (Some ob) s)"
| "conn_handle asObject (ObserverDied obj) s = s\<lparr>cm_observers := map_option (oc_HandleRemoteDied asObject (Some obj)) (cm_observers s)\<rparr>"
| "conn_handle asObject (DlpManager add m) s = (if add then AddDlpManager (Some m) s else RemoveDlpManager (Some m) s)"
| "conn_handle asObject (DlpAbility add a) s = (if add then AddDlpAbility (Some a) s else RemoveDlpAbility (Some a) s)"

fun core :: "report \<Rightarrow> conn_note list" where
  "core (ExtensionReport kind data) = [(kind, cd_callerPid data, cd_extension data, cd_isSuspended data)]"
| "core (DlpReport opened data) = []"

definition reported :: "connection_mgr \<Rightarrow> conn_note list" where
  "reported s = concat (map (\<lambda>e. core (snd e)) (cm_log s))"

definition entry :: "connection_mgr \<Rightarrow> int \<times> nat \<Rightarrow> connected_extension option" where
  "entry s k = (case omap_find (cm_states s) (fst k) of None \<Rightarrow> None | Some it \<Rightarrow> omap_find (it_connectionMap it) (snd k))"

definition dentry :: "connection_mgr \<Rightarrow> int \<times> nat \<Rightarrow> connected_data option" where
  "dentry s k = (case omap_find (cm_states s) (fst k) of None \<Rightarrow> None | Some it \<Rightarrow> omap_find (it_dataAbilityMap it) (snd k))"

definition conn_abs :: "connection_mgr \<Rightarrow> conn_spec" where
  "conn_abs s = \<lparr>sp_live = \<lambda>k. map_option (\<lambda>ce. (ce_info ce, omap_find (ce_connections ce))) (entry s k),
                 sp_data = \<lambda>k. map_option (\<lambda>cda. (cda_info cda, cda_callers cda)) (dentry s k)\<rparr>"

definition ce_ok :: "connected_extension \<Rightarrow> bool" where
  "ce_ok ce \<longleftrightarrow> omap_inv (ce_connections ce) \<and> ce_connections ce \<noteq> []"

definition item_ok :: "int \<Rightarrow> connection_item \<Rightarrow> bool" where
  "item_ok p it \<longleftrightarrow> it_callerPid it = p \<and> omap_inv (it_connectionMap it) \<and> omap_inv (it_dataAbilityMap it) \<and>
     (\<forall>t ce. omap_find (it_connectionMap it) t = Some ce \<longrightarrow> ce_ok ce) \<and>
     (\<forall>t cda. omap_find (it_dataAbilityMap it) t = Some cda \<longrightarrow> cda_callers cda \<noteq> [])"

definition conn_inv :: "connection_mgr \<Rightarrow> bool" where
  "conn_inv s \<longleftrightarrow> cm_observers s \<noteq> None \<and> omap_inv (cm_states s) \<and>
     (\<forall>p it. omap_find (cm_states s) p = Some it \<longrightarrow> item_ok p it)"


section \<open>Lookups after an update\<close>

lemma someActive_ran: "omap_inv m \<Longrightarrow> someActive m \<longleftrightarrow> False \<in> ran (omap_find m)"
  by (force simp: someActive_def list_ex_iff ran_def omap_find_iff)

lemma phase_of_list: "omap_inv m \<Longrightarrow> phase_of (omap_find m) = (if m = [] then Absent else if someActive m then Active else Paused)"
  by (auto simp: phase_of_def someActive_ran)

lemma conn_invD:
  assumes "conn_inv s"
  shows "cm_observers s \<noteq> None" "omap_inv (cm_states s)" "omap_find (cm_states s) p = Some it \<Longrightarrow> item_ok p it"
  using assms by (simp_all add: conn_inv_def)

lemma item_okD:
  assumes "item_ok p it"
  shows "it_callerPid it = p" "omap_inv (it_connectionMap it)" "omap_inv (it_dataAbilityMap it)"
    "omap_find (it_connectionMap it) t = Some ce \<Longrightarrow> ce_ok ce"
    "omap_find (it_dataAbilityMap it) t = Some cda \<Longrightarrow> cda_callers cda \<noteq> []"
  using assms by (auto simp: item_ok_def)

lemma ce_ok_conns: "ce_ok ce \<Longrightarrow> omap_find (ce_connections ce) \<noteq> Map.empty"
  by (simp add: ce_ok_def)

lemma entry_ok: "conn_inv s \<Longrightarrow> entry s k = Some ce \<Longrightarrow> ce_ok ce"
  by (auto simp: entry_def conn_inv_def item_ok_def split: option.splits)

lemma dentry_ok: "conn_inv s \<Longrightarrow> dentry s k = Some cda \<Longrightarrow> cda_callers cda \<noteq> []"
  by (auto simp: dentry_def conn_inv_def item_ok_def split: option.splits)

text \<open>The item of a process, or the fresh one a call creates.\<close>

definition item_at :: "connection_mgr \<Rightarrow> int \<Rightarrow> connection_item \<Rightarrow> bool" where
  "item_at s p it \<longleftrightarrow> (case omap_find (cm_states s) p of
       None \<Rightarrow> it_callerPid it = p \<and> it_connectionMap it = [] \<and> it_dataAbilityMap it = []
     | Some it' \<Rightarrow> it = it')"

lemma item_at_ok: "conn_inv s \<Longrightarrow> item_at s p it \<Longrightarrow> item_ok p it"
  by (auto simp: item_at_def conn_inv_def item_ok_def split: option.splits)

lemma item_at_entry: "item_at s p it \<Longrightarrow> omap_find (it_connectionMap it) t = entry s (p, t)"
  by (auto simp: item_at_def entry_def split: option.splits)

lemma item_at_dentry: "item_at s p it \<Longrightarrow> omap_find (it_dataAbilityMap it) t = dentry s (p, t)"
  by (auto simp: item_at_def dentry_def split: option.splits)

definition store :: "int \<Rightarrow> connection_item \<Rightarrow> connection_mgr \<Rightarrow> connection_mgr" where
  "store p it s = s\<lparr>cm_states := omap_put p it (cm_states s)\<rparr>"

definition unstore :: "int \<Rightarrow> connection_mgr \<Rightarrow> connection_mgr" where
  "unstore p s = s\<lparr>cm_states := omap_erase p (cm_states s)\<rparr>"

lemma store_frame [simp]: "cm_log (store p it s) = cm_log s" "cm_log (unstore p s) = cm_log s"
  "cm_observers (store p it s) = cm_observers s" "cm_observers (unstore p s) = cm_observers s"
  by (simp_all add: store_def unstore_def)

lemma write_item:
  fixes b :: bool
  assumes "conn_inv s" "item_ok p it"
  defines "s' \<equiv> if b \<and> csi_IsEmpty it then unstore p s else store p it s"
  shows "conn_inv s'" "entry s' = (\<lambda>k. if fst k = p then omap_find (it_connectionMap it) (snd k) else entry s k)"
    "dentry s' = (\<lambda>k. if fst k = p then omap_find (it_dataAbilityMap it) (snd k) else dentry s k)"
    "cm_log s' = cm_log s" "cm_observers s' = cm_observers s"
  using assms(1,2)
  by (auto simp: s'_def conn_inv_def store_def unstore_def find_omap_put omap_inv_put find_omap_erase omap_inv_erase
      entry_def dentry_def csi_IsEmpty_def fun_eq_iff split: if_splits)

text \<open>Writing and erasing one entry of the item of a process.\<close>

lemma put_entry:
  fixes t :: nat
  assumes "conn_inv s" "item_at s p it" "ce_ok ce"
  defines "it' \<equiv> it\<lparr>it_connectionMap := omap_put t ce (it_connectionMap it)\<rparr>"
  shows "conn_inv (store p it' s)" "entry (store p it' s) = (entry s)((p, t) \<mapsto> ce)" "dentry (store p it' s) = dentry s"
proof -
  have ok: "item_ok p it'"
    using item_at_ok [OF assms(1,2)] assms(3) by (auto simp: item_ok_def it'_def omap_inv_put find_omap_put split: if_splits)
  show "conn_inv (store p it' s)" "entry (store p it' s) = (entry s)((p, t) \<mapsto> ce)" "dentry (store p it' s) = dentry s"
    using write_item [OF assms(1) ok, of False] item_at_entry [OF assms(2)] item_at_dentry [OF assms(2)]
      item_okD(2) [OF item_at_ok [OF assms(1,2)]]
    by (auto simp: it'_def find_omap_put fun_eq_iff)
qed

lemma erase_entry:
  fixes t :: nat
  assumes "conn_inv s" "item_at s p it"
  defines "it' \<equiv> it\<lparr>it_connectionMap := omap_erase t (it_connectionMap it)\<rparr>"
  defines "s' \<equiv> if csi_IsEmpty it' then unstore p s else store p it' s"
  shows "conn_inv s'" "entry s' = (entry s)((p, t) := None)" "dentry s' = dentry s" "cm_log s' = cm_log s" "cm_observers s' = cm_observers s"
proof -
  have ok: "item_ok p it'"
    using item_at_ok [OF assms(1,2)] by (auto simp: item_ok_def it'_def omap_inv_erase find_omap_erase split: if_splits)
  show "conn_inv s'" "entry s' = (entry s)((p, t) := None)" "dentry s' = dentry s" "cm_log s' = cm_log s" "cm_observers s' = cm_observers s"
    using write_item [OF assms(1) ok, of True] item_at_entry [OF assms(2)] item_at_dentry [OF assms(2)]
    by (auto simp: s'_def it'_def find_omap_erase fun_eq_iff)
qed

lemma put_dentry:
  fixes t :: nat
  assumes "conn_inv s" "item_at s p it" "cda_callers cda \<noteq> []"
  defines "it' \<equiv> it\<lparr>it_dataAbilityMap := omap_put t cda (it_dataAbilityMap it)\<rparr>"
  shows "conn_inv (store p it' s)" "dentry (store p it' s) = (dentry s)((p, t) \<mapsto> cda)" "entry (store p it' s) = entry s"
proof -
  have ok: "item_ok p it'"
    using item_at_ok [OF assms(1,2)] assms(3) by (auto simp: item_ok_def it'_def omap_inv_put find_omap_put split: if_splits)
  show "conn_inv (store p it' s)" "dentry (store p it' s) = (dentry s)((p, t) \<mapsto> cda)" "entry (store p it' s) = entry s"
    using write_item [OF assms(1) ok, of False] item_at_entry [OF assms(2)] item_at_dentry [OF assms(2)]
      item_okD(3) [OF item_at_ok [OF assms(1,2)]]
    by (auto simp: it'_def find_omap_put fun_eq_iff)
qed

lemma erase_dentry:
  fixes t :: nat
  assumes "conn_inv s" "item_at s p it"
  defines "it' \<equiv> it\<lparr>it_dataAbilityMap := omap_erase t (it_dataAbilityMap it)\<rparr>"
  defines "s' \<equiv> if csi_IsEmpty it' then unstore p s else store p it' s"
  shows "conn_inv s'" "dentry s' = (dentry s)((p, t) := None)" "entry s' = entry s" "cm_log s' = cm_log s" "cm_observers s' = cm_observers s"
proof -
  have ok: "item_ok p it'"
    using item_at_ok [OF assms(1,2)] by (auto simp: item_ok_def it'_def omap_inv_erase find_omap_erase split: if_splits)
  show "conn_inv s'" "dentry s' = (dentry s)((p, t) := None)" "entry s' = entry s" "cm_log s' = cm_log s" "cm_observers s' = cm_observers s"
    using write_item [OF assms(1) ok, of True] item_at_entry [OF assms(2)] item_at_dentry [OF assms(2)]
    by (auto simp: s'_def it'_def find_omap_erase fun_eq_iff)
qed

section \<open>One call\<close>

lemma CallObservers_frame [simp]:
  "cm_states (CallObservers r s) = cm_states s" "cm_observers (CallObservers r s) = cm_observers s"
  "cm_dlpItems (CallObservers r s) = cm_dlpItems s"
  by (simp_all add: CallObservers_def split: option.splits)

lemma entry_cong: "cm_states s' = cm_states s \<Longrightarrow> entry s' = entry s" "cm_states s' = cm_states s \<Longrightarrow> dentry s' = dentry s"
  by (simp_all add: entry_def dentry_def fun_eq_iff)

lemma reported_CallObservers: "cm_observers s \<noteq> None \<Longrightarrow> reported (CallObservers r s) = reported s @ core r"
  by (auto simp: CallObservers_def reported_def)

lemma reported_cong: "cm_log s' = cm_log s \<Longrightarrow> reported s' = reported s"
  by (simp add: reported_def)

definition emit :: "report_kind option \<Rightarrow> connection_data \<Rightarrow> connection_mgr \<Rightarrow> connection_mgr" where
  "emit kind data s = (case kind of None \<Rightarrow> s | Some k \<Rightarrow> CallObservers (ExtensionReport k data) s)"

lemma emit_frame [simp]: "cm_states (emit kind data s) = cm_states s" "cm_observers (emit kind data s) = cm_observers s"
  by (simp_all add: emit_def split: option.splits)

lemma reported_emit: "cm_observers s \<noteq> None \<Longrightarrow> reported (emit kind data s) =
    reported s @ (case kind of None \<Rightarrow> [] | Some k \<Rightarrow> [(k, cd_callerPid data, cd_extension data, cd_isSuspended data)])"
  by (simp add: emit_def reported_CallObservers split: option.splits)

lemma conn_inv_cong: "conn_inv s \<Longrightarrow> cm_states s' = cm_states s \<Longrightarrow> cm_observers s' \<noteq> None \<Longrightarrow> conn_inv s'"
  by (simp add: conn_inv_def)

text \<open>What a call has to achieve.\<close>

definition sim :: "conn_call \<Rightarrow> connection_mgr \<Rightarrow> connection_mgr \<Rightarrow> bool" where
  "sim e s s' \<longleftrightarrow> conn_inv s' \<and> conn_abs s' = spec_next e (conn_abs s) \<and>
     (\<exists>new. reported s' = reported s @ new \<and> mset new = spec_due e (conn_abs s))"

lemma abs_put:
  "entry s' = (entry s)(k \<mapsto> ce) \<Longrightarrow> dentry s' = dentry s \<Longrightarrow> ce_ok ce \<Longrightarrow>
     conn_abs s' = set_conns k (ce_info ce) (omap_find (ce_connections ce)) (conn_abs s)"
  using ce_ok_conns [of ce] by (auto simp: conn_abs_def set_conns_def)

lemma abs_erase:
  "entry s' = (entry s)(k := None) \<Longrightarrow> dentry s' = dentry s \<Longrightarrow> conn_abs s' = set_conns k i Map.empty (conn_abs s)"
  by (auto simp: conn_abs_def set_conns_def)

lemma abs_same: "entry s' = entry s \<Longrightarrow> dentry s' = dentry s \<Longrightarrow> conn_abs s' = conn_abs s"
  by (simp add: conn_abs_def)

lemma sp_abs:
  "sp_live (conn_abs s) k = map_option (\<lambda>ce. (ce_info ce, omap_find (ce_connections ce))) (entry s k)"
  "sp_data (conn_abs s) k = map_option (\<lambda>cda. (cda_info cda, cda_callers cda)) (dentry s k)"
  by (simp_all add: conn_abs_def)

lemma conns_at_abs: "conns_at (conn_abs s) k = (case entry s k of None \<Rightarrow> Map.empty | Some ce \<Rightarrow> omap_find (ce_connections ce))"
  by (simp add: conns_at_def conn_abs_def split: option.splits)

lemma info_at_abs: "info_at r k (conn_abs s) =
    (case entry s k of None \<Rightarrow> ce_info (newConnectedExtension (the (cr_targetService r))) | Some ce \<Rightarrow> ce_info ce)"
  by (simp add: info_at_def conn_abs_def split: option.splits)

lemma spec_call_next:
  "call_record e = Some r \<Longrightarrow> spec_next e A = (case key_of r of None \<Rightarrow> A
      | Some (k, c) \<Rightarrow> set_conns k (info_at r k A) (new_conns e c (conns_at A k)) A)"
  by (cases e) (auto split: option.split)

lemma spec_call_due:
  "call_record e = Some r \<Longrightarrow> spec_due e A = (case key_of r of None \<Rightarrow> {#}
      | Some (k, c) \<Rightarrow> change_due k (info_at r k A) (new_conns e c (conns_at A k)) A)"
  by (cases e) (auto split: option.split)

lemmas spec_call = spec_call_next spec_call_due

lemma set_conns_same: "ce_ok ce \<Longrightarrow> entry s k = Some ce \<Longrightarrow>
    set_conns k (ce_info ce) (omap_find (ce_connections ce)) (conn_abs s) = conn_abs s"
  using ce_ok_conns [of ce] by (auto simp: set_conns_def conn_abs_def fun_upd_idem_iff)

lemma data_core: "cd_callerPid (csi_GenerateConnectionData it ce newConnectionData) = it_callerPid it"
  "cd_extension (csi_GenerateConnectionData it ce newConnectionData) = ce_info ce"
  "cd_isSuspended (csi_GenerateConnectionData it ce newConnectionData) \<longleftrightarrow> \<not> someActive (ce_connections ce)"
  by (simp_all add: csi_GenerateConnectionData_def setCaller_def ce_GenerateExtensionInfo_def newConnectionData_def Let_def)

lemma sim_put:
  assumes inv: "conn_inv s" and r: "call_record e = Some r" "key_of r = Some ((p, t), c)" and it: "item_at s p it" and ok: "ce_ok ce"
    and info: "ce_info ce = info_at r (p, t) (conn_abs s)"
    and conns: "omap_find (ce_connections ce) = new_conns e c (conns_at (conn_abs s) (p, t))"
    and it': "it' = it\<lparr>it_connectionMap := omap_put t ce (it_connectionMap it)\<rparr>"
    and kind: "kind = change_kind (phase_of (conns_at (conn_abs s) (p, t))) (phase_of (omap_find (ce_connections ce)))"
  shows "sim e s (emit kind (csi_GenerateConnectionData it' ce newConnectionData) (store p it' s))"
proof -
  let ?s = "emit kind (csi_GenerateConnectionData it' ce newConnectionData) (store p it' s)"
  note put = put_entry [OF inv it ok, of t, folded it']
  have pid: "it_callerPid it' = p" using item_okD(1) [OF item_at_ok [OF inv it]] by (simp add: it')
  have "entry ?s = (entry s)((p, t) \<mapsto> ce)" "dentry ?s = dentry s"
    using put entry_cong [of ?s "store p it' s"] by simp_all
  from abs_put [OF this ok] have abs: "conn_abs ?s = spec_next e (conn_abs s)" by (simp add: spec_call [OF r(1)] r(2) info conns)
  have "reported ?s = reported s @ (case kind of None \<Rightarrow> [] | Some k \<Rightarrow> [(k, p, ce_info ce, \<not> someActive (ce_connections ce))])"
    using reported_cong [of "store p it' s" s] conn_invD(1) [OF inv] by (simp add: reported_emit data_core pid split: option.splits)
  moreover have "phase_of (omap_find (ce_connections ce)) \<noteq> Active \<longleftrightarrow> \<not> someActive (ce_connections ce)"
    using ok by (auto simp: phase_of_list ce_ok_def)
  ultimately have "\<exists>new. reported ?s = reported s @ new \<and> mset new = spec_due e (conn_abs s)"
    by (auto simp: spec_call [OF r(1)] r(2) change_due_def kind info conns [symmetric] split: option.splits)
  then show ?thesis using abs conn_inv_cong [OF put(1), of ?s] conn_invD(1) [OF inv] by (simp add: sim_def)
qed

lemma sim_same:
  assumes "conn_inv s" "conn_inv s'" "entry s' = entry s" "dentry s' = dentry s" "cm_log s' = cm_log s"
    and "spec_next e (conn_abs s) = conn_abs s" "spec_due e (conn_abs s) = {#}"
  shows "sim e s s'"
  using assms reported_cong [OF assms(5)] abs_same [OF assms(3,4)] by (simp add: sim_def)

lemma store_same:
  assumes "conn_inv s" "item_at s p it"
  shows "conn_inv (store p it s)" "entry (store p it s) = entry s" "dentry (store p it s) = dentry s"
  using write_item [OF assms(1) item_at_ok [OF assms], of False] item_at_entry [OF assms(2)] item_at_dentry [OF assms(2)]
  by (auto simp: fun_eq_iff)

lemma sim_skip: "conn_inv s \<Longrightarrow> call_record e = Some r \<Longrightarrow> key_of r = None \<Longrightarrow> sim e s s"
  by (rule sim_same) (simp_all add: spec_call)

lemma sim_skip_store:
  "conn_inv s \<Longrightarrow> call_record e = Some r \<Longrightarrow> key_of r = None \<Longrightarrow> item_at s p it \<Longrightarrow> sim e s (store p it s)"
  by (rule sim_same) (simp_all add: spec_call store_same)


lemma phase_add [simp]: "phase_of (m(c \<mapsto> False)) = Active"
  by (auto simp: phase_of_def ran_def dest: fun_cong [of _ _ c])

lemma change_to_active: "change_kind p Active =
    (case p of Absent \<Rightarrow> Some ExtensionConnected | Active \<Rightarrow> None | Paused \<Rightarrow> Some ExtensionResumed)"
  by (simp add: change_kind_def split: phase.split)

lemma newConnectionEvent_sel [simp]: "\<not> connectedEvent newConnectionEvent" "\<not> disconnectedEvent newConnectionEvent"
  "\<not> suspendedEvent newConnectionEvent" "\<not> resumedEvent newConnectionEvent"
  by (simp_all add: newConnectionEvent_def)

lemma ce_Add_spec:
  assumes "omap_inv (ce_connections ce)"
  defines "kind \<equiv> change_kind (phase_of (omap_find (ce_connections ce))) Active"
  shows "ce_AddConnection (Some c) ce newConnectionEvent =
    (kind \<noteq> None, ce\<lparr>ce_connections := omap_put c False (ce_connections ce)\<rparr>,
     newConnectionEvent\<lparr>connectedEvent := (kind = Some ExtensionConnected), resumedEvent := (kind = Some ExtensionResumed)\<rparr>)"
  using assms(1)
  by (simp add: ce_AddConnection_def kind_def change_to_active phase_of_list newConnectionEvent_def)

lemma key_ofD:
  assumes "key_of r = Some ((p, t), c)"
  shows "cr_callerPid r = p" "GetTargetToken r = Some t" "cr_connection r = Some c" "\<exists>ts. cr_targetService r = Some ts"
  using assms by (auto simp: key_of_def GetTargetToken_def split: option.splits)

lemma key_of_None: "key_of r = None \<Longrightarrow> GetTargetToken r = None \<or> cr_connection r = None"
  by (auto simp: key_of_def split: option.splits)

lemma item_at_record: "item_at s (cr_callerPid r) (case omap_find (cm_states s) (cr_callerPid r) of None \<Rightarrow> CreateConnectionStateItem r | Some it \<Rightarrow> it)"
  by (simp add: item_at_def CreateConnectionStateItem_def split: option.split)

lemma item_at_found: "omap_find (cm_states s) p = Some it \<Longrightarrow> item_at s p it"
  by (simp add: item_at_def)

lemma Connect_sim:
  assumes inv: "conn_inv s"
  shows "sim (Connect r) s (csm_AddConnection (Some r) s)"
proof -
  define it where "it = (case omap_find (cm_states s) (cr_callerPid r) of None \<Rightarrow> CreateConnectionStateItem r | Some it \<Rightarrow> it)"
  note at = item_at_record [of s r, folded it_def]
  obtain obs where obs: "cm_observers s = Some obs" using conn_invD(1) [OF inv] by blast
  have run: "csm_AddConnection (Some r) s =
      (let (needNotify, it', data, event) = csi_AddConnection r it newConnectionData newConnectionEvent;
           s = store (cr_callerPid r) it' s
       in if \<not> needNotify then s
          else let s = (if connectedEvent event then CallObservers (ExtensionReport ExtensionConnected data) s else s)
               in if resumedEvent event then CallObservers (ExtensionReport ExtensionResumed data) s else s)"
    by (simp add: obs csm_AddConnection_def AddConnectionInner_def it_def [symmetric] store_def Let_def split_beta)
  show ?thesis
  proof (cases "key_of r")
    case None
    then have "csi_AddConnection r it newConnectionData newConnectionEvent = (False, it, newConnectionData, newConnectionEvent)"
      using key_of_None [OF None] by (auto simp: csi_AddConnection_def split: option.splits)
    then show ?thesis using sim_skip_store [OF inv _ None at, of "Connect r"] by (simp add: run)
  next
    case (Some kc)
    then obtain p t c where key: "key_of r = Some ((p, t), c)" by (cases kc) auto
    note r = key_ofD [OF key]
    define ce where "ce = (case entry s (p, t) of None \<Rightarrow> newConnectedExtension (the (cr_targetService r)) | Some ce \<Rightarrow> ce)"
    define ce' where "ce' = ce\<lparr>ce_connections := omap_put c False (ce_connections ce)\<rparr>"
    define it' where "it' = it\<lparr>it_connectionMap := omap_put t ce' (it_connectionMap it)\<rparr>"
    have ce: "omap_inv (ce_connections ce)" "omap_find (ce_connections ce) = conns_at (conn_abs s) (p, t)"
      using entry_ok [OF inv, of "(p, t)"]
      by (auto simp: ce_def conns_at_abs ce_ok_def newConnectedExtension_def split: option.splits)
    have ok: "ce_ok ce'" using ce(1) by (simp add: ce_ok_def ce'_def omap_inv_put)
    have conns: "omap_find (ce_connections ce') = new_conns (Connect r) c (conns_at (conn_abs s) (p, t))"
      using ce by (simp add: ce'_def find_omap_put)
    have info: "ce_info ce' = info_at r (p, t) (conn_abs s)"
      by (simp add: ce'_def ce_def info_at_abs split: option.split)
    have csi: "csi_AddConnection r it newConnectionData newConnectionEvent =
        (let (needNotify, ce, event) = ce_AddConnection (Some c) ce newConnectionEvent;
             it = it\<lparr>it_connectionMap := omap_put t ce (it_connectionMap it)\<rparr>
         in (needNotify, it, if needNotify then csi_GenerateConnectionData it ce newConnectionData else newConnectionData, event))"
      using r at by (auto simp: csi_AddConnection_def ce_def item_at_entry CreateConnectedExtension_def split: option.splits)
    show ?thesis
      using sim_put [OF inv _ key _ ok info conns it'_def refl] at r(1) conns
      by (auto simp: run csi ce_Add_spec [OF ce(1)] ce(2) ce'_def [symmetric] it'_def [symmetric] Let_def emit_def
          change_to_active split: phase.splits)
  qed
qed


lemma sim_set:
  assumes inv: "conn_inv s" and r: "call_record e = Some r" "key_of r = Some ((p, t), c)" and found: "entry s (p, t) = Some ce"
    and it: "item_at s p it" and conns: "omap_inv conns" "conns \<noteq> []" "omap_find conns = new_conns e c (omap_find (ce_connections ce))"
    and kind: "kind = change_kind (phase_of (omap_find (ce_connections ce))) (phase_of (omap_find conns))"
    and ce': "ce' = ce\<lparr>ce_connections := conns\<rparr>" and it': "it' = it\<lparr>it_connectionMap := omap_put t ce' (it_connectionMap it)\<rparr>"
  shows "sim e s (emit kind (csi_GenerateConnectionData it' ce' newConnectionData) (store p it' s))"
  using conns by (intro sim_put [OF inv r it _ _ _ it'])
    (simp_all add: ce' ce_ok_def info_at_abs conns_at_abs found kind)

lemma change_refl [simp]: "change_kind p p = None"
  by (simp add: change_kind_def)

text \<open>Suspending and resuming: the operation of the extension reports the change of phase.\<close>

lemma phase_set: "omap_inv m \<Longrightarrow> omap_find m c = Some b \<Longrightarrow> phase_of ((omap_find m)(c \<mapsto> True)) \<noteq> Absent"
  by (auto simp: phase_of_def dest: fun_cong [of _ _ c])

lemma phase_Absent: "m c = Some b \<Longrightarrow> phase_of m \<noteq> Absent"
  by (auto simp: phase_of_def)

lemma phase_Active: "m c = Some False \<Longrightarrow> phase_of m = Active"
  by (auto simp: phase_of_def ran_def)

lemma ce_Suspend_spec:
  assumes "omap_inv (ce_connections ce)" "omap_find (ce_connections ce) c = Some b"
  defines "conns \<equiv> omap_put c True (ce_connections ce)"
  shows "ce_SuspendConnection (Some c) ce =
    (change_kind (phase_of (omap_find (ce_connections ce))) (phase_of (omap_find conns)) \<noteq> None, ce\<lparr>ce_connections := conns\<rparr>)"
    and "change_kind (phase_of (omap_find (ce_connections ce))) (phase_of (omap_find conns)) \<in> {None, Some ExtensionSuspended}"
proof -
  have inv: "omap_inv conns" "conns \<noteq> []" using assms(1) by (simp_all add: conns_def omap_inv_put)
  have old: "b = False \<Longrightarrow> phase_of (omap_find (ce_connections ce)) = Active"
    using assms(2) by (auto intro: phase_Active)
  have "b \<Longrightarrow> (omap_find (ce_connections ce))(c \<mapsto> True) = omap_find (ce_connections ce)"
    using assms(2) by (auto simp: fun_upd_idem_iff)
  moreover have "b \<Longrightarrow> omap_put c True (ce_connections ce) = ce_connections ce"
    using assms(1,2) by (auto simp: omap_put_same)
  ultimately show "ce_SuspendConnection (Some c) ce =
    (change_kind (phase_of (omap_find (ce_connections ce))) (phase_of (omap_find conns)) \<noteq> None, ce\<lparr>ce_connections := conns\<rparr>)"
    "change_kind (phase_of (omap_find (ce_connections ce))) (phase_of (omap_find conns)) \<in> {None, Some ExtensionSuspended}"
    using inv old assms(2) by (cases b; auto simp: ce_SuspendConnection_def Let_def conns_def phase_of_list change_kind_def)+
qed

lemma ce_Resume_spec:
  assumes "omap_inv (ce_connections ce)" "omap_find (ce_connections ce) c = Some b"
  defines "conns \<equiv> omap_put c False (ce_connections ce)"
  shows "ce_ResumeConnection (Some c) ce =
    (change_kind (phase_of (omap_find (ce_connections ce))) (phase_of (omap_find conns)) \<noteq> None, ce\<lparr>ce_connections := conns\<rparr>)"
    and "change_kind (phase_of (omap_find (ce_connections ce))) (phase_of (omap_find conns)) \<in> {None, Some ExtensionResumed}"
proof -
  have "ce_connections ce \<noteq> []" "omap_find conns = (omap_find (ce_connections ce))(c \<mapsto> False)"
    using assms by (auto simp: conns_def find_omap_put)
  then show "ce_ResumeConnection (Some c) ce =
    (change_kind (phase_of (omap_find (ce_connections ce))) (phase_of (omap_find conns)) \<noteq> None, ce\<lparr>ce_connections := conns\<rparr>)"
    "change_kind (phase_of (omap_find (ce_connections ce))) (phase_of (omap_find conns)) \<in> {None, Some ExtensionResumed}"
    using assms(1,2) by (simp_all add: ce_ResumeConnection_def conns_def phase_of_list change_to_active)
qed

lemma change_sim:
  assumes inv: "conn_inv s" and r: "call_record e = Some r"
    and spec: "\<And>ce c b. ce_ok ce \<Longrightarrow> omap_find (ce_connections ce) c = Some b \<Longrightarrow>
       change (Some c) ce = (change_kind (phase_of (omap_find (ce_connections ce))) (phase_of (omap_find (omap_put c f (ce_connections ce)))) \<noteq> None,
         ce\<lparr>ce_connections := omap_put c f (ce_connections ce)\<rparr>) \<and>
       change_kind (phase_of (omap_find (ce_connections ce))) (phase_of (omap_find (omap_put c f (ce_connections ce)))) \<in> {None, Some kd}"
    and absent: "\<And>ce c. omap_find (ce_connections ce) c = None \<Longrightarrow> change (Some c) ce = (False, ce)"
    and new: "\<And>c m. new_conns e c m = (if m c = None then m else m(c \<mapsto> f))"
  shows "sim e s (let (needNotify, s, data) = changeInner (csi_change change) r s
     in if needNotify then CallObservers (ExtensionReport kd data) s else s)"
proof (cases "omap_find (cm_states s) (cr_callerPid r)")
  case None
  then have "entry s (cr_callerPid r, t) = None" for t by (simp add: entry_def)
  then have "key_of r = Some (k, c) \<Longrightarrow> conns_at (conn_abs s) k = Map.empty \<and> sp_live (conn_abs s) k = None" for k c
    using key_ofD(1) [of r "fst k" "snd k" c] by (cases k) (simp add: conns_at_abs sp_abs)
  then have "spec_next e (conn_abs s) = conn_abs s" "spec_due e (conn_abs s) = {#}"
    by (auto simp: spec_call [OF r] new set_conns_def change_due_def fun_upd_idem_iff split: option.splits)
  then show ?thesis using None by (simp add: changeInner_def sim_same [OF inv inv])
next
  case (Some it)
  note at = item_at_found [OF Some]
  have run: "changeInner (csi_change change) r s =
      (let (needNotify, it', data) = csi_change change r it newConnectionData in (needNotify, store (cr_callerPid r) it' s, data))"
    by (simp add: changeInner_def Some store_def)
  show ?thesis
  proof (cases "key_of r")
    case None
    then have "csi_change change r it newConnectionData = (False, it, newConnectionData)"
      using key_of_None [OF None] by (auto simp: csi_change_def split: option.splits)
    then show ?thesis using sim_skip_store [OF inv r None at] by (simp add: run)
  next
    case (Some kc)
    then obtain p t c where key: "key_of r = Some ((p, t), c)" by (cases kc) auto
    note rr = key_ofD [OF key]
    show ?thesis
    proof (cases "entry s (p, t)")
      case None
      then have "csi_change change r it newConnectionData = (False, it, newConnectionData)"
        using rr item_at_entry [OF at, of t] by (simp add: csi_change_def)
      moreover have "spec_next e (conn_abs s) = conn_abs s" "spec_due e (conn_abs s) = {#}"
        using None by (auto simp: spec_call [OF r] key new set_conns_def change_due_def conns_at_abs sp_abs fun_upd_idem_iff)
      ultimately show ?thesis using sim_same [OF inv store_same(1) [OF inv at] store_same(2,3) [OF inv at]] by (simp add: run)
    next
      case (Some ce)
      note ok = entry_ok [OF inv Some]
      have csi: "csi_change change r it newConnectionData =
          (let (needNotify, ce) = change (Some c) ce; it = it\<lparr>it_connectionMap := omap_put t ce (it_connectionMap it)\<rparr>
           in (needNotify, it, if needNotify then csi_GenerateConnectionData it ce newConnectionData else newConnectionData))"
        using rr item_at_entry [OF at, of t] Some by (simp add: csi_change_def)
      define conns where "conns = (if omap_find (ce_connections ce) c = None then ce_connections ce else omap_put c f (ce_connections ce))"
      define ce' where "ce' = ce\<lparr>ce_connections := conns\<rparr>"
      define it' where "it' = it\<lparr>it_connectionMap := omap_put t ce' (it_connectionMap it)\<rparr>"
      define kind where "kind = change_kind (phase_of (omap_find (ce_connections ce))) (phase_of (omap_find conns))"
      have conns: "omap_inv conns" "conns \<noteq> []" "omap_find conns = new_conns e c (omap_find (ce_connections ce))"
        using ok by (simp_all add: conns_def ce_ok_def omap_inv_put new find_omap_put)
      have change: "change (Some c) ce = (kind \<noteq> None, ce')" "kind \<in> {None, Some kd}"
        using spec [OF ok, of c] absent [of ce c] by (cases "omap_find (ce_connections ce) c"; auto simp: conns_def kind_def ce'_def)+
      have "sim e s (emit kind (csi_GenerateConnectionData it' ce' newConnectionData) (store p it' s))"
        by (rule sim_set [OF inv r key Some _ conns kind_def ce'_def it'_def]) (use at rr(1) in simp)
      then show ?thesis using change(2) rr(1) by (auto simp: run csi change(1) it'_def [symmetric] emit_def)
    qed
  qed
qed

lemma Suspend_sim: "conn_inv s \<Longrightarrow> sim (Suspend r) s (csm_SuspendConnection (Some r) s)"
  using change_sim [of s "Suspend r" r ce_SuspendConnection True ExtensionSuspended] ce_Suspend_spec conn_invD(1) [of s]
  by (auto simp: csm_SuspendConnection_def csi_SuspendConnection_def ce_ok_def ce_SuspendConnection_def)

lemma Resume_sim: "conn_inv s \<Longrightarrow> sim (Resume r) s (csm_ResumeConnection (Some r) s)"
  using change_sim [of s "Resume r" r ce_ResumeConnection False ExtensionResumed] ce_Resume_spec conn_invD(1) [of s]
  by (auto simp: csm_ResumeConnection_def csi_ResumeConnection_def ce_ok_def ce_ResumeConnection_def)


text \<open>Removing a connection.\<close>

lemma phase_erase_suspended:
  assumes "m c = Some True" "m(c := None) \<noteq> Map.empty"
  shows "phase_of (m(c := None)) = phase_of m"
proof -
  have "m \<noteq> Map.empty" using assms(1) by auto
  moreover have "False \<in> ran (m(c := None)) \<longleftrightarrow> False \<in> ran m" using assms(1) by (force simp: ran_def)
  ultimately show ?thesis using assms(2) by (simp add: phase_of_def)
qed

lemma ce_Remove_spec:
  assumes "omap_inv (ce_connections ce)" "omap_find (ce_connections ce) c = Some b"
  defines "conns \<equiv> omap_erase c (ce_connections ce)"
  defines "kind \<equiv> change_kind (phase_of (omap_find (ce_connections ce))) (phase_of (omap_find conns))"
  shows "ce_RemoveConnection (Some c) ce newConnectionEvent =
    (kind \<noteq> None, ce\<lparr>ce_connections := conns\<rparr>,
     newConnectionEvent\<lparr>disconnectedEvent := (kind = Some ExtensionDisconnected), suspendedEvent := (kind = Some ExtensionSuspended)\<rparr>)"
proof (cases "b \<and> conns \<noteq> []")
  case True
  have conns: "omap_find conns = (omap_find (ce_connections ce))(c := None)" by (simp add: conns_def find_omap_erase)
  have "omap_find conns \<noteq> Map.empty" using True by simp
  then have "phase_of (omap_find conns) = phase_of (omap_find (ce_connections ce))"
    unfolding conns using assms(2) True by (intro phase_erase_suspended) auto
  then show ?thesis using True assms(2) by (simp add: ce_RemoveConnection_def conns_def [symmetric] kind_def newConnectionEvent_def)
next
  case False
  have "omap_inv conns" using assms(1) by (simp add: conns_def omap_inv_erase)
  note new = phase_of_list [OF this]
  have "\<not> b \<Longrightarrow> phase_of (omap_find (ce_connections ce)) = Active" using assms(2) by (auto intro: phase_Active)
  moreover have "phase_of (omap_find (ce_connections ce)) \<noteq> Absent"
    using phase_Absent [of "omap_find (ce_connections ce)" c b] assms(2) by simp
  ultimately show ?thesis using False assms(2)
    by (auto simp: ce_RemoveConnection_def conns_def [symmetric] kind_def change_kind_def new newConnectionEvent_def)
qed

lemma csm_Remove_eq:
  assumes inv: "conn_inv s" and key: "key_of r = Some ((p, t), c)" and it: "omap_find (cm_states s) p = Some it"
    and ce: "entry s (p, t) = Some ce" "omap_find (ce_connections ce) c = Some b"
  defines "ce' \<equiv> ce\<lparr>ce_connections := omap_erase c (ce_connections ce)\<rparr>"
  defines "it' \<equiv> it\<lparr>it_connectionMap := omap_erase t (it_connectionMap it)\<rparr>"
  defines "kind \<equiv> change_kind (phase_of (omap_find (ce_connections ce))) (phase_of (omap_find (ce_connections ce')))"
  shows "csm_RemoveConnection (Some r) False s =
    (if kind = None then store p (it\<lparr>it_connectionMap := omap_put t ce' (it_connectionMap it)\<rparr>) s
     else emit kind (csi_GenerateConnectionData it' ce' newConnectionData) (if csi_IsEmpty it' then unstore p s else store p it' s))"
proof -
  obtain obs where obs: "cm_observers s = Some obs" using conn_invD(1) [OF inv] by blast
  have "omap_inv (ce_connections ce)" using entry_ok [OF inv ce(1)] by (simp add: ce_ok_def)
  note rem = ce_Remove_spec [OF this ce(2), folded ce'_def]
  have conns: "ce_connections ce' = omap_erase c (ce_connections ce)" by (simp add: ce'_def)
  have "kind \<noteq> None \<Longrightarrow> kind = Some ExtensionDisconnected \<or> kind = Some ExtensionSuspended"
    using phase_Absent [of "omap_find (ce_connections ce)" c b] ce(2) phase_Active [of "omap_find (ce_connections ce)"] entry_ok [OF inv ce(1)]
    by (auto simp: kind_def change_kind_def conns find_omap_erase phase_of_def ran_def split: phase.splits if_splits)
  then show ?thesis
    using key_ofD [OF key] it item_at_entry [OF item_at_found [OF it], of t] ce(1) rem
    by (auto simp: csm_RemoveConnection_def RemoveConnectionInner_def obs csi_RemoveConnection_def kind_def [symmetric] conns [symmetric]
        it'_def [symmetric] Let_def emit_def store_def unstore_def)
qed

lemma sim_drop:
  assumes inv: "conn_inv s" and key: "key_of r = Some ((p, t), c)" and it: "item_at s p it" and ce: "entry s (p, t) = Some ce"
    and last: "(omap_find (ce_connections ce))(c := None) = Map.empty"
  defines "ce' \<equiv> ce\<lparr>ce_connections := []\<rparr>" and "it' \<equiv> it\<lparr>it_connectionMap := omap_erase t (it_connectionMap it)\<rparr>"
  shows "sim (Disconnect r) s (emit (Some ExtensionDisconnected) (csi_GenerateConnectionData it' ce' newConnectionData)
     (if csi_IsEmpty it' then unstore p s else store p it' s))"
proof -
  let ?s = "if csi_IsEmpty it' then unstore p s else store p it' s"
  let ?s' = "emit (Some ExtensionDisconnected) (csi_GenerateConnectionData it' ce' newConnectionData) ?s"
  note er = erase_entry [OF inv it, of t, folded it'_def]
  have "entry ?s' = (entry s)((p, t) := None)" "dentry ?s' = dentry s" using er entry_cong [of ?s' ?s] by simp_all
  from abs_erase [OF this, of "ce_info ce"] have abs: "conn_abs ?s' = spec_next (Disconnect r) (conn_abs s)"
    using last by (simp add: key info_at_abs ce conns_at_abs)
  have "it_callerPid it' = p" using item_okD(1) [OF item_at_ok [OF inv it]] by (simp add: it'_def)
  then have "reported ?s' = reported s @ [(ExtensionDisconnected, p, ce_info ce, True)]"
    using reported_cong [OF er(4)] conn_invD(1) [OF er(1)]
    by (simp add: reported_emit data_core ce'_def someActive_def)
  moreover have "phase_of (omap_find (ce_connections ce)) \<noteq> Absent"
    using entry_ok [OF inv ce] by (simp add: phase_of_list ce_ok_def)
  ultimately have "\<exists>new. reported ?s' = reported s @ new \<and> mset new = spec_due (Disconnect r) (conn_abs s)"
    using last by (auto simp: key change_due_def info_at_abs ce conns_at_abs change_kind_def phase_of_def split: if_splits)
  moreover have "conn_inv ?s'" using er(1) conn_invD(1) [OF er(1)] by (auto intro: conn_inv_cong)
  ultimately show ?thesis using abs by (simp add: sim_def)
qed


lemma sim_absent:
  assumes "conn_inv s" "call_record e = Some r" "\<And>k c. key_of r = Some (k, c) \<Longrightarrow> entry s k = None"
    and "\<And>c. new_conns e c Map.empty = Map.empty"
  shows "sim e s s"
proof (rule sim_same [OF assms(1,1) refl refl refl])
  have "key_of r = Some (k, c) \<Longrightarrow> conns_at (conn_abs s) k = Map.empty \<and> sp_live (conn_abs s) k = None" for k c
    using assms(3) by (simp add: conns_at_abs sp_abs)
  then show "spec_next e (conn_abs s) = conn_abs s" "spec_due e (conn_abs s) = {#}"
    using assms(4) by (auto simp: spec_call [OF assms(2)] set_conns_def change_due_def fun_upd_idem_iff split: option.splits)
qed

lemma sim_entries: "sim e s s \<Longrightarrow> conn_inv s' \<Longrightarrow> entry s' = entry s \<Longrightarrow> dentry s' = dentry s \<Longrightarrow> cm_log s' = cm_log s \<Longrightarrow> sim e s s'"
  using abs_same [of s' s] reported_cong [of s' s] by (simp add: sim_def)

lemma remove_unchanged:
  assumes "m c = Some b" "m(c := None) \<noteq> Map.empty" "\<not> (phase_of m = Active \<and> phase_of (m(c := None)) = Paused)"
  shows "change_kind (phase_of m) (phase_of (m(c := None))) = None"
proof (cases b)
  case True
  then show ?thesis using phase_erase_suspended [of m c] assms(1,2) by (simp del: fun_upd_apply)
next
  case False
  then have "phase_of m = Active" using phase_Active [of m c] assms(1) by simp
  moreover have "phase_of (m(c := None)) \<noteq> Absent" using assms(2) by (simp add: phase_of_def)
  ultimately show ?thesis using assms(3) by (cases "phase_of (m(c := None))") simp_all
qed

text \<open>The extension is connected.\<close>

lemma Disconnect_entry_sim:
  assumes inv: "conn_inv s" and keeps: "keeps (Disconnect r) (conn_abs s)" and key: "key_of r = Some ((p, t), c)"
    and it: "omap_find (cm_states s) p = Some it" and ce: "entry s (p, t) = Some ce"
  shows "sim (Disconnect r) s (csm_RemoveConnection (Some r) False s)"
proof (cases "omap_find (ce_connections ce) c")
  case None
  note at = item_at_found [OF it]
  have "(omap_find (ce_connections ce))(c := None) = omap_find (ce_connections ce)" using None by (simp add: fun_upd_idem_iff)
  then have "sim (Disconnect r) s (store p (it\<lparr>it_connectionMap := omap_put t ce (it_connectionMap it)\<rparr>) s)"
    using sim_set [OF inv _ key ce at, of "Disconnect r" "ce_connections ce" None] entry_ok [OF inv ce] by (simp add: ce_ok_def emit_def)
  moreover have "csm_RemoveConnection (Some r) False s = store p (it\<lparr>it_connectionMap := omap_put t ce (it_connectionMap it)\<rparr>) s"
    using None key_ofD [OF key] it item_at_entry [OF at, of t] ce conn_invD(1) [OF inv]
    by (auto simp: csm_RemoveConnection_def RemoveConnectionInner_def csi_RemoveConnection_def ce_RemoveConnection_def store_def)
  ultimately show ?thesis by simp
next
  case (Some b)
  note at = item_at_found [OF it] and ok = entry_ok [OF inv ce]
  define conns where "conns = omap_erase c (ce_connections ce)"
  have conns: "omap_find conns = (omap_find (ce_connections ce))(c := None)" by (simp add: conns_def find_omap_erase)
  define kind where "kind = change_kind (phase_of (omap_find (ce_connections ce))) (phase_of (omap_find conns))"
  note run = csm_Remove_eq [OF inv key it ce Some]
  show ?thesis
  proof (cases "conns = []")
    case True
    then have "phase_of (omap_find (ce_connections ce)) \<noteq> Absent" "phase_of (omap_find conns) = Absent"
      using ok by (auto simp: phase_of_list ce_ok_def phase_of_def)
    then have "kind = Some ExtensionDisconnected" by (simp add: kind_def change_kind_def)
    then show ?thesis using sim_drop [OF inv key at ce] conns True run by (simp add: kind_def conns_def)
  next
    case False
    have "kind = None"
      using remove_unchanged [of "omap_find (ce_connections ce)" c b] Some False keeps
      by (simp add: kind_def key conns_at_abs ce conns [symmetric])
    moreover have "omap_inv conns" using ok by (simp add: conns_def omap_inv_erase ce_ok_def)
    ultimately show ?thesis
      using sim_set [OF inv _ key ce at _ False _ kind_def refl refl, of "Disconnect r"] conns run by (simp add: kind_def conns_def emit_def)
  qed
qed

lemma Disconnect_sim:
  assumes inv: "conn_inv s" and keeps: "keeps (Disconnect r) (conn_abs s)"
  shows "sim (Disconnect r) s (csm_RemoveConnection (Some r) False s)"
proof (cases "\<exists>k c ce. key_of r = Some (k, c) \<and> entry s k = Some ce")
  case True
  then obtain p t c ce where key: "key_of r = Some ((p, t), c)" and ce: "entry s (p, t) = Some ce" by auto
  then obtain it where "omap_find (cm_states s) p = Some it" by (auto simp: entry_def split: option.splits)
  then show ?thesis by (rule Disconnect_entry_sim [OF inv keeps key _ ce])
next
  case False
  then have sim: "sim (Disconnect r) s s"
    using sim_absent [OF inv, of "Disconnect r" r] sim_skip [OF inv, of "Disconnect r" r] by (cases "key_of r") auto
  obtain obs where obs: "cm_observers s = Some obs" using conn_invD(1) [OF inv] by blast
  show ?thesis
  proof (cases "omap_find (cm_states s) (cr_callerPid r)")
    case None
    then show ?thesis using sim by (simp add: csm_RemoveConnection_def RemoveConnectionInner_def obs)
  next
    case (Some it)
    note at = item_at_found [OF Some]
    have "csi_RemoveConnection r it newConnectionData newConnectionEvent = (False, it, newConnectionData, newConnectionEvent)"
      using False item_at_entry [OF at] by (auto simp: csi_RemoveConnection_def key_of_def split: option.splits)
    then show ?thesis using store_same [OF inv at] Some
      by (auto simp: csm_RemoveConnection_def RemoveConnectionInner_def obs store_def intro: sim_entries [OF sim])
  qed
qed

section \<open>All connections of a process\<close>

definition mkData :: "connection_item \<Rightarrow> ext_info \<Rightarrow> bool \<Rightarrow> connection_data" where
  "mkData it i suspended = \<lparr>cd_isSuspended = suspended, cd_extension = i, cd_callerUid = it_callerUid it,
     cd_callerPid = it_callerPid it, cd_callerName = it_callerName it\<rparr>"

lemma gen_mkData:
  "csi_GenerateConnectionData it ce d = mkData it (ce_info ce) (cd_isSuspended d \<or> \<not> someActive (ce_connections ce))"
  "csi_GenerateConnectionDataAbility it cda d = mkData it (cda_info cda) (cd_isSuspended d \<or> False)"
  by (simp_all add: csi_GenerateConnectionData_def csi_GenerateConnectionDataAbility_def setCaller_def ce_GenerateExtensionInfo_def
      cda_GenerateExtensionInfo_def mkData_def Let_def)

text \<open>The flag of a report is that of its own connection or of one generated before it.\<close>

lemma generateLoop_eq:
  assumes "\<And>v d. gen v d = mkData it (i v) (cd_isSuspended d \<or> q v)"
  shows "snd (generateLoop gen m d ds) =
      ds @ map (\<lambda>n. mkData it (i (snd (m ! n))) (cd_isSuspended d \<or> list_ex (\<lambda>e. q (snd e)) (take (Suc n) m))) [0..<length m]"
    and "cd_isSuspended (fst (generateLoop gen m d ds)) \<longleftrightarrow> cd_isSuspended d \<or> list_ex (\<lambda>e. q (snd e)) m"
proof (induction m arbitrary: d ds)
  case (Cons e m)
  define D where "D d = mkData it (i (snd e)) (cd_isSuspended d \<or> q (snd e))" for d :: connection_data
  have step: "generateLoop gen (e # m) d ds = generateLoop gen m (D d) (ds @ [D d])" for d ds
    by (simp add: assms [of "snd e" d] Let_def D_def)
  have flag: "cd_isSuspended (D d) \<longleftrightarrow> cd_isSuspended d \<or> q (snd e)" for d by (simp add: mkData_def D_def)
  have upt: "[0..<Suc (length m)] = 0 # map Suc [0..<length m]" by (simp add: map_Suc_upt upt_conv_Cons del: upt_Suc)
  {
    case 1
    show ?case unfolding step Cons(1) flag by (simp add: upt disj_assoc D_def del: upt_Suc)
  next
    case 2
    show ?case unfolding step Cons(2) flag by (simp add: disj_assoc)
  }
qed simp_all

lemma newConnectionData_flag [simp]: "\<not> cd_isSuspended newConnectionData"
  by (simp add: newConnectionData_def)

definition paused :: "nat \<times> connected_extension \<Rightarrow> bool" where
  "paused e \<longleftrightarrow> \<not> someActive (ce_connections (snd e))"

lemma GenerateAll_eq:
  "GenerateAllConnectionData it =
     map (\<lambda>n. mkData it (ce_info (snd (it_connectionMap it ! n))) (list_ex paused (take (Suc n) (it_connectionMap it))))
       [0..<length (it_connectionMap it)] @
     map (\<lambda>e. mkData it (cda_info (snd e)) (list_ex paused (it_connectionMap it))) (it_dataAbilityMap it)"
proof -
  have "map (\<lambda>n. f (snd (m ! n))) [0..<length m] = map (\<lambda>e. f (snd e)) m" for f :: "connected_data \<Rightarrow> connection_data" and m :: "(nat, connected_data) omap"
    by (rule nth_equalityI) simp_all
  then show ?thesis
    using generateLoop_eq [OF gen_mkData(1) [of it], where m = "it_connectionMap it" and d = newConnectionData and ds = "[]"]
      generateLoop_eq [OF gen_mkData(2) [of it], where m = "it_dataAbilityMap it"]
    by (simp add: GenerateAllConnectionData_def split_beta paused_def list_ex_iff)
qed

lemma GenerateAll_active:
  assumes "\<not> list_ex paused (it_connectionMap it)"
  shows "GenerateAllConnectionData it = map (\<lambda>e. mkData it (ce_info (snd e)) False) (it_connectionMap it) @
    map (\<lambda>e. mkData it (cda_info (snd e)) False) (it_dataAbilityMap it)"
proof -
  have "\<not> list_ex paused (take n (it_connectionMap it))" for n using assms by (auto simp: list_ex_iff dest: in_set_takeD)
  then show ?thesis using assms unfolding GenerateAll_eq by (auto intro: nth_equalityI)
qed

lemma gone_ks:
  assumes "distinct ks" "set ks = {k \<in> K. f k \<noteq> None}"
  shows "gone f K = mset (map (\<lambda>k. (ExtensionDisconnected, fst k, fst (the (f k)), False)) ks)"
  using mset_set_set [OF assms(1)] assms(2) by (simp add: gone_def)

lemma gone_process:
  assumes "omap_inv m" "\<And>t. f (p, t) = map_option g (omap_find m t)"
  shows "gone f {k. fst k = p} = mset (map (\<lambda>e. (ExtensionDisconnected, p, fst (g (snd e)), False)) m)"
proof -
  let ?ks = "map (\<lambda>e. (p, fst e)) m"
  have d: "distinct ?ks" using omap_inv_distinct [OF assms(1)] by (auto simp: distinct_map inj_on_def)
  have f: "f (p, t) = Some (g v)" if "(t, v) \<in> set m" for t v
    using assms(2) [of t] omap_find_iff [OF assms(1), of t v] that by simp
  have "f (p, t) \<noteq> None \<Longrightarrow> (p, t) \<in> set ?ks" for t
    using assms(2) [of t] by (cases "omap_find m t") (auto dest: omap_find_in_set intro: rev_image_eqI)
  then have s: "set ?ks = {k \<in> {k. fst k = p}. f k \<noteq> None}" using f by auto
  have "map (\<lambda>k. (ExtensionDisconnected, fst k, fst (the (f k)), False)) ?ks =
      map (\<lambda>e. (ExtensionDisconnected, p, fst (g (snd e)), False)) m"
    using f by auto
  then show ?thesis unfolding gone_ks [OF d s] by (rule arg_cong)
qed

lemma reported_fold:
  "cm_observers s \<noteq> None \<Longrightarrow>
     reported (fold (\<lambda>data. CallObservers (ExtensionReport k data)) ds s) =
       reported s @ map (\<lambda>d. (k, cd_callerPid d, cd_extension d, cd_isSuspended d)) ds"
  by (induction ds arbitrary: s) (simp_all add: reported_CallObservers)

lemma fold_frame [simp]:
  "cm_states (fold (\<lambda>data. CallObservers (ExtensionReport k data)) ds s) = cm_states s"
  "cm_observers (fold (\<lambda>data. CallObservers (ExtensionReport k data)) ds s) = cm_observers s"
  by (induction ds arbitrary: s) simp_all

lemma CallerDied_sim:
  assumes inv: "conn_inv s" and keeps: "keeps (CallerDied p) (conn_abs s)"
  shows "sim (CallerDied p) s (csm_HandleAppDied p s)"
proof (cases "omap_find (cm_states s) p")
  case None
  then have e: "entry s (p, t) = None" "dentry s (p, t) = None" for t by (simp_all add: entry_def dentry_def)
  then have "spec_next (CallerDied p) (conn_abs s) = conn_abs s" by (auto simp: conn_abs_def fun_eq_iff)
  moreover have "gone (sp_live (conn_abs s)) {k. fst k = p} = {#}" "gone (sp_data (conn_abs s)) {k. fst k = p} = {#}"
    using e by (auto intro!: gone_ks [of "[]", simplified] simp: sp_abs)
  then have "spec_due (CallerDied p) (conn_abs s) = {#}" by simp
  ultimately show ?thesis using None
    by (simp add: csm_HandleAppDied_def HandleCallerDied_def RemoveDiedCaller_def sim_same [OF inv inv])
next
  case (Some it)
  note at = item_at_found [OF Some] and ok = conn_invD(3) [OF inv Some]
  let ?s = "csm_HandleAppDied p s"
  have run: "?s = fold (\<lambda>data. CallObservers (ExtensionReport ExtensionDisconnected data)) (GenerateAllConnectionData it) (unstore p s)"
    by (simp add: csm_HandleAppDied_def HandleCallerDied_def RemoveDiedCaller_def Some unstore_def)
  have frame: "cm_states ?s = cm_states (unstore p s)" by (simp add: run)
  have inv': "conn_inv (unstore p s)"
    using inv by (auto simp: conn_inv_def unstore_def find_omap_erase omap_inv_erase split: if_splits)
  have "conn_inv ?s" using conn_inv_cong [OF inv' frame] conn_invD(1) [OF inv'] by (simp add: run)
  moreover have "entry ?s = (\<lambda>k. if fst k = p then None else entry s k)" "dentry ?s = (\<lambda>k. if fst k = p then None else dentry s k)"
    unfolding entry_cong [OF frame] by (auto simp: entry_def dentry_def unstore_def find_omap_erase fun_eq_iff)
  then have "conn_abs ?s = spec_next (CallerDied p) (conn_abs s)" by (auto simp: conn_abs_def fun_eq_iff)
  moreover have "\<not> list_ex paused (it_connectionMap it)"
  proof
    assume "list_ex paused (it_connectionMap it)"
    then obtain t ce where e: "(t, ce) \<in> set (it_connectionMap it)" "paused (t, ce)" by (auto simp: list_ex_iff)
    then have "entry s (p, t) = Some ce" using item_at_entry [OF at, of t] omap_find_iff [OF item_okD(2) [OF ok], of t ce] by simp
    then show False using keeps e(2) entry_ok [OF inv, of "(p, t)" ce]
      by (auto simp: conns_at_abs phase_of_list ce_ok_def paused_def dest!: spec [of _ t])
  qed
  note all = GenerateAll_active [OF this]
  have "gone (sp_live (conn_abs s)) {k. fst k = p} = mset (map (\<lambda>e. (ExtensionDisconnected, p, ce_info (snd e), False)) (it_connectionMap it))"
    "gone (sp_data (conn_abs s)) {k. fst k = p} = mset (map (\<lambda>e. (ExtensionDisconnected, p, cda_info (snd e), False)) (it_dataAbilityMap it))"
    using gone_process [OF item_okD(2) [OF ok], of "sp_live (conn_abs s)" p "\<lambda>ce. (ce_info ce, omap_find (ce_connections ce))"]
      gone_process [OF item_okD(3) [OF ok], of "sp_data (conn_abs s)" p "\<lambda>cda. (cda_info cda, cda_callers cda)"]
    by (simp_all only: sp_abs item_at_entry [OF at] item_at_dentry [OF at] fst_conv)
  then have "\<exists>new. reported ?s = reported s @ new \<and> mset new = spec_due (CallerDied p) (conn_abs s)"
    using conn_invD(1) [OF inv] reported_cong [of "unstore p s" s] item_okD(1) [OF ok]
    by (simp add: run reported_fold all mkData_def comp_def)
  ultimately show ?thesis by (simp add: sim_def)
qed


section \<open>Data abilities\<close>

lemma spec_data:
  assumes "data_edit e A = Some (k, i, cs)"
  shows "spec_next e A = set_callers k i cs A" "spec_due e A = callers_due k i cs A"
  using assms by (cases e; simp)+

lemma cda_surj [simp]: "\<lparr>cda_info = cda_info cda, cda_callers = cda_callers cda\<rparr> = (cda :: connected_data)"
  by (cases cda) simp

lemma dentry_core: "cd_callerPid (csi_GenerateConnectionDataAbility it cda newConnectionData) = it_callerPid it"
  "cd_extension (csi_GenerateConnectionDataAbility it cda newConnectionData) = cda_info cda"
  "\<not> cd_isSuspended (csi_GenerateConnectionDataAbility it cda newConnectionData)"
  by (simp_all add: gen_mkData mkData_def)

lemma sim_data_put:
  assumes inv: "conn_inv s" and edit: "data_edit e (conn_abs s) = Some ((p, t), cda_info cda, cda_callers cda)"
    and it: "item_at s p it" and cs: "cda_callers cda \<noteq> []"
    and it': "it' = it\<lparr>it_dataAbilityMap := omap_put t cda (it_dataAbilityMap it)\<rparr>"
    and kind: "kind = (if dentry s (p, t) = None then Some ExtensionConnected else None)"
  shows "sim e s (emit kind (csi_GenerateConnectionDataAbility it' cda newConnectionData) (store p it' s))"
proof -
  let ?s = "emit kind (csi_GenerateConnectionDataAbility it' cda newConnectionData) (store p it' s)"
  note put = put_dentry [OF inv it cs, of t, folded it']
  have "dentry ?s = (dentry s)((p, t) \<mapsto> cda)" "entry ?s = entry s" using put entry_cong [of ?s "store p it' s"] by simp_all
  then have "conn_abs ?s = spec_next e (conn_abs s)"
    unfolding spec_data(1) [OF edit] using cs by (auto simp: set_callers_def conn_abs_def)
  moreover have "it_callerPid it' = p" using item_okD(1) [OF item_at_ok [OF inv it]] by (simp add: it')
  then have "reported ?s = reported s @ (case kind of None \<Rightarrow> [] | Some k \<Rightarrow> [(k, p, cda_info cda, False)])"
    using reported_cong [of "store p it' s" s] conn_invD(1) [OF inv] by (simp add: reported_emit dentry_core split: option.splits)
  then have "\<exists>new. reported ?s = reported s @ new \<and> mset new = spec_due e (conn_abs s)"
    using cs by (auto simp: spec_data [OF edit] callers_due_def sp_abs kind)
  ultimately show ?thesis using conn_inv_cong [OF put(1), of ?s] conn_invD(1) [OF inv] by (simp add: sim_def)
qed

lemma sim_data_drop:
  assumes inv: "conn_inv s" and edit: "data_edit e (conn_abs s) = Some ((p, t), cda_info cda, [])"
    and it: "item_at s p it" and found: "dentry s (p, t) \<noteq> None"
    and it': "it' = it\<lparr>it_dataAbilityMap := omap_erase t (it_dataAbilityMap it)\<rparr>"
  shows "sim e s (emit (Some ExtensionDisconnected) (csi_GenerateConnectionDataAbility it' cda newConnectionData)
     (if csi_IsEmpty it' then unstore p s else store p it' s))"
proof -
  let ?s = "if csi_IsEmpty it' then unstore p s else store p it' s"
  let ?s' = "emit (Some ExtensionDisconnected) (csi_GenerateConnectionDataAbility it' cda newConnectionData) ?s"
  note er = erase_dentry [OF inv it, of t, folded it']
  have "dentry ?s' = (dentry s)((p, t) := None)" "entry ?s' = entry s" using er entry_cong [of ?s' ?s] by simp_all
  then have "conn_abs ?s' = spec_next e (conn_abs s)"
    unfolding spec_data(1) [OF edit] by (auto simp: set_callers_def conn_abs_def)
  moreover have "it_callerPid it' = p" using item_okD(1) [OF item_at_ok [OF inv it]] by (simp add: it')
  then have "reported ?s' = reported s @ [(ExtensionDisconnected, p, cda_info cda, False)]"
    using reported_cong [OF er(4)] conn_invD(1) [OF er(1)] by (simp add: reported_emit dentry_core)
  then have "\<exists>new. reported ?s' = reported s @ new \<and> mset new = spec_due e (conn_abs s)"
    using found by (simp add: spec_data [OF edit] callers_due_def sp_abs)
  moreover have "conn_inv ?s'" using er(1) conn_invD(1) [OF er(1)] by (auto intro: conn_inv_cong)
  ultimately show ?thesis by (simp add: sim_def)
qed

lemma sim_refused:
  assumes "conn_inv s" "data_edit e (conn_abs s) = None" "e = DataConnect caller r \<or> e = DataDisconnect caller r"
  shows "sim e s s"
  using assms by (intro sim_same [OF assms(1,1) refl refl refl]) auto

lemma AddCaller_valid:
  assumes "dc_isNotHap caller \<or> dc_callerToken caller \<noteq> None"
  shows "fst (AddCaller caller cda) \<longleftrightarrow> cda_callers cda = []" "cda_callers (snd (AddCaller caller cda)) \<noteq> []"
    "cda_info (snd (AddCaller caller cda)) = cda_info cda"
  using assms by (auto simp: AddCaller_def Let_def)

lemma item_at_caller: "item_at s (dc_callerPid caller)
    (case omap_find (cm_states s) (dc_callerPid caller) of None \<Rightarrow> CreateConnectionStateItemData caller | Some it \<Rightarrow> it)"
  by (simp add: item_at_def CreateConnectionStateItemData_def split: option.split)

lemma DataConnect_sim:
  assumes inv: "conn_inv s" and valid: "dc_isNotHap caller \<or> dc_callerToken caller \<noteq> None"
  shows "sim (DataConnect caller r) s (csm_AddDataAbilityConnection caller (Some r) s)"
proof (cases "dc_callerPid caller = 0")
  case True
  then show ?thesis using sim_refused [OF inv, of "DataConnect caller r"]
    by (simp add: csm_AddDataAbilityConnection_def CheckDataAbilityConnectionParams_def)
next
  case pid: False
  define p where "p = dc_callerPid caller"
  define it where "it = (case omap_find (cm_states s) p of None \<Rightarrow> CreateConnectionStateItemData caller | Some it \<Rightarrow> it)"
  have at: "item_at s p it" unfolding it_def p_def by (rule item_at_caller)
  have run: "csm_AddDataAbilityConnection caller (Some r) s =
      (let (needNotify, it', data) = csi_AddDataAbilityConnection caller r it newConnectionData
       in if needNotify then CallObservers (ExtensionReport ExtensionConnected data) (store p it' s) else store p it' s)"
    using conn_invD(1) [OF inv] pid
    by (auto simp: csm_AddDataAbilityConnection_def CheckDataAbilityConnectionParams_def AddDataAbilityConnectionInner_def
        p_def [symmetric] it_def [symmetric] store_def Let_def split_beta)
  have refused: ?thesis if "csi_AddDataAbilityConnection caller r it newConnectionData = (False, it, newConnectionData)"
    and "data_edit (DataConnect caller r) (conn_abs s) = None"
    using sim_entries [OF sim_refused [OF inv that(2)] store_same(1) [OF inv at] store_same(2,3) [OF inv at]]
    by (simp add: run that(1))
  show ?thesis
  proof (cases "\<exists>t cda. da_token r = Some t \<and> (case dentry s (p, t) of None \<Rightarrow> CreateConnectedDataAbility r | Some c \<Rightarrow> Some c) = Some cda")
    case False
    then show ?thesis using pid item_at_dentry [OF at]
      by (intro refused) (auto simp: csi_AddDataAbilityConnection_def sp_abs p_def [symmetric] split: option.splits)
  next
    case True
    then obtain t cda where t: "da_token r = Some t"
      and cda: "(case dentry s (p, t) of None \<Rightarrow> CreateConnectedDataAbility r | Some c \<Rightarrow> Some c) = Some cda" by blast
    define cda' where "cda' = snd (AddCaller caller cda)"
    define it' where "it' = it\<lparr>it_dataAbilityMap := omap_put t cda' (it_dataAbilityMap it)\<rparr>"
    have edit: "data_edit (DataConnect caller r) (conn_abs s) = Some ((p, t), cda_info cda', cda_callers cda')"
      using cda pid t AddCaller_valid(3) [OF valid, of cda]
      by (auto simp: sp_abs p_def [symmetric] cda'_def split: option.splits)
    have fresh: "cda_callers cda = [] \<longleftrightarrow> dentry s (p, t) = None"
      using cda dentry_ok [OF inv, of "(p, t)"] by (auto simp: CreateConnectedDataAbility_def split: option.splits)
    have "csi_AddDataAbilityConnection caller r it newConnectionData = (dentry s (p, t) = None, it',
        if dentry s (p, t) = None then csi_GenerateConnectionDataAbility it' cda' newConnectionData else newConnectionData)"
      using t cda item_at_dentry [OF at, of t] AddCaller_valid(1) [OF valid, of cda] fresh
      by (simp add: csi_AddDataAbilityConnection_def cda'_def it'_def Let_def split_beta)
    then show ?thesis using sim_data_put [OF inv edit at _ it'_def refl] AddCaller_valid(2) [OF valid, of cda]
      by (auto simp: run emit_def cda'_def [symmetric] split: if_splits)
  qed
qed

lemma DataDisconnect_sim:
  assumes inv: "conn_inv s"
  shows "sim (DataDisconnect caller r) s (csm_RemoveDataAbilityConnection caller (Some r) s)"
proof (cases "\<exists>t cda. dc_callerPid caller \<noteq> 0 \<and> da_token r = Some t \<and> dentry s (dc_callerPid caller, t) = Some cda")
  case False
  then have "data_edit (DataDisconnect caller r) (conn_abs s) = None"
    by (auto simp: sp_abs split: option.splits)
  note same = sim_refused [OF inv this]
  show ?thesis
  proof (cases "dc_callerPid caller = 0 \<or> omap_find (cm_states s) (dc_callerPid caller) = None")
    case True
    then show ?thesis using same
      by (auto simp: csm_RemoveDataAbilityConnection_def CheckDataAbilityConnectionParams_def RemoveDataAbilityConnectionInner_def)
  next
    case ok: False
    then obtain it where it: "omap_find (cm_states s) (dc_callerPid caller) = Some it" by auto
    note at = item_at_found [OF it]
    have "csi_RemoveDataAbilityConnection caller r it newConnectionData = (False, it, newConnectionData)"
      using False ok item_at_dentry [OF at] by (auto simp: csi_RemoveDataAbilityConnection_def split: option.splits)
    then have "csm_RemoveDataAbilityConnection caller (Some r) s = store (dc_callerPid caller) it s"
      using it ok conn_invD(1) [OF inv]
      by (auto simp: csm_RemoveDataAbilityConnection_def CheckDataAbilityConnectionParams_def RemoveDataAbilityConnectionInner_def store_def)
    then show ?thesis using store_same [OF inv at] same by (auto intro: sim_entries)
  qed
next
  case True
  then obtain t cda where pid: "dc_callerPid caller \<noteq> 0" and t: "da_token r = Some t"
    and cda: "dentry s (dc_callerPid caller, t) = Some cda" by blast
  define p where "p = dc_callerPid caller"
  obtain it where it: "omap_find (cm_states s) p = Some it" using cda by (auto simp: dentry_def p_def split: option.splits)
  note at = item_at_found [OF it] and cda = cda [folded p_def]
  define cda' where "cda' = snd (RemoveCaller caller cda)"
  have rm: "RemoveCaller caller cda = (cda_callers cda' = [], cda')" "cda_info cda' = cda_info cda"
    using dentry_ok [OF inv cda] by (auto simp: cda'_def RemoveCaller_def Let_def)
  have edit: "data_edit (DataDisconnect caller r) (conn_abs s) = Some ((p, t), cda_info cda', cda_callers cda')"
    using cda pid t rm by (cases cda) (simp add: sp_abs p_def [symmetric] cda'_def)
  have run: "csm_RemoveDataAbilityConnection caller (Some r) s = (if cda_callers cda' = []
      then let it' = it\<lparr>it_dataAbilityMap := omap_erase t (it_dataAbilityMap it)\<rparr>
           in CallObservers (ExtensionReport ExtensionDisconnected (csi_GenerateConnectionDataAbility it' cda' newConnectionData))
                (if csi_IsEmpty it' then unstore p s else store p it' s)
      else store p (it\<lparr>it_dataAbilityMap := omap_put t cda' (it_dataAbilityMap it)\<rparr>) s)"
    using t cda it pid item_at_dentry [OF at, of t] rm(1) conn_invD(1) [OF inv]
    by (auto simp: csm_RemoveDataAbilityConnection_def CheckDataAbilityConnectionParams_def RemoveDataAbilityConnectionInner_def
        csi_RemoveDataAbilityConnection_def p_def [symmetric] store_def unstore_def Let_def)
  show ?thesis
    using sim_data_drop [OF inv _ at _ refl, of "DataDisconnect caller r" t cda'] sim_data_put [OF inv edit at _ refl refl] edit cda
    by (auto simp: run Let_def emit_def)
qed


lemma DiedInner_spec:
  assumes "HandleDataAbilityDiedInner t st = (st', ds)" "omap_inv st" "\<And>p it. (p, it) \<in> set st \<Longrightarrow> item_ok p it"
  shows "st' = filter (\<lambda>e. \<not> csi_IsEmpty (snd e)) (map (\<lambda>e. (fst e, snd e\<lparr>it_dataAbilityMap := omap_erase t (it_dataAbilityMap (snd e))\<rparr>)) st)"
    and "map (\<lambda>d. (cd_callerPid d, cd_extension d, cd_isSuspended d)) ds =
      map (\<lambda>e. (fst e, cda_info (the (omap_find (it_dataAbilityMap (snd e)) t)), False))
        (filter (\<lambda>e. omap_find (it_dataAbilityMap (snd e)) t \<noteq> None) st)"
proof -
  have erase: "omap_find (it_dataAbilityMap it) t = None \<Longrightarrow> it\<lparr>it_dataAbilityMap := omap_erase t (it_dataAbilityMap it)\<rparr> = it" for it :: connection_item
    by (cases it) (auto simp: omap_erase_def filter_id_conv map_of_eq_None_iff)
  show "st' = filter (\<lambda>e. \<not> csi_IsEmpty (snd e)) (map (\<lambda>e. (fst e, snd e\<lparr>it_dataAbilityMap := omap_erase t (it_dataAbilityMap (snd e))\<rparr>)) st)"
    using assms(1)
    by (induction st arbitrary: st' ds) (auto simp: csi_HandleDataAbilityDied_def Let_def erase split: option.splits prod.splits if_splits)
  show "map (\<lambda>d. (cd_callerPid d, cd_extension d, cd_isSuspended d)) ds =
      map (\<lambda>e. (fst e, cda_info (the (omap_find (it_dataAbilityMap (snd e)) t)), False))
        (filter (\<lambda>e. omap_find (it_dataAbilityMap (snd e)) t \<noteq> None) st)"
    using assms
  proof (induction st arbitrary: st' ds)
    case (Cons e st)
    obtain p it where e: "e = (p, it)" by (cases e)
    obtain st1 ds1 where IH: "HandleDataAbilityDiedInner t st = (st1, ds1)" by (cases "HandleDataAbilityDiedInner t st")
    have "it_callerPid it = p" using Cons.prems(3) [of p it] by (simp add: e item_ok_def)
    then show ?case using Cons.IH [OF IH] Cons.prems IH
      by (auto simp: e omap_inv_Cons csi_HandleDataAbilityDied_def Let_def gen_mkData mkData_def split: option.splits if_splits)
  qed simp
qed

lemma omap_find_map_value: "omap_find (map (\<lambda>e. (fst e, f (snd e))) m) k = map_option f (omap_find m k)"
  by (induction m) auto

lemma omap_find_filter:
  "omap_inv m \<Longrightarrow> omap_find (filter (\<lambda>e. P (snd e)) m) k = (case omap_find m k of None \<Rightarrow> None | Some v \<Rightarrow> if P v then Some v else None)"
proof (induction m)
  case (Cons e m)
  obtain k' v where e: "e = (k', v)" by (cases e)
  then have "omap_find m k' = None" using Cons.prems by (auto simp: omap_inv_Cons map_of_eq_None_iff)
  with Cons show ?case by (auto simp: e omap_inv_Cons)
qed simp

lemma gone_token:
  assumes "omap_inv st" "\<And>p. f (p, t) = (case omap_find st p of None \<Rightarrow> None | Some it \<Rightarrow> h it)"
  shows "gone f {k. snd k = t} = mset (map (\<lambda>e. (ExtensionDisconnected, fst e, fst (the (h (snd e))), False)) (filter (\<lambda>e. h (snd e) \<noteq> None) st))"
proof -
  let ?ks = "map (\<lambda>e. (fst e, t)) (filter (\<lambda>e. h (snd e) \<noteq> None) st)"
  have "distinct (map fst (filter (\<lambda>e. h (snd e) \<noteq> None) st))" using omap_inv_distinct [OF assms(1)] by (rule distinct_map_filter)
  then have d: "distinct ?ks" by (auto simp: distinct_map inj_on_def)
  have f: "f (p, t) = h it" if "(p, it) \<in> set st" for p it
    using assms(2) [of p] omap_find_iff [OF assms(1), of p it] that by simp
  have "f (p, t) \<noteq> None \<Longrightarrow> (p, t) \<in> set ?ks" for p
    using assms(2) [of p] by (cases "omap_find st p") (auto dest: omap_find_in_set intro: rev_image_eqI)
  then have s: "set ?ks = {k \<in> {k. snd k = t}. f k \<noteq> None}" using f by auto
  have "map (\<lambda>k. (ExtensionDisconnected, fst k, fst (the (f k)), False)) ?ks =
      map (\<lambda>e. (ExtensionDisconnected, fst e, fst (the (h (snd e))), False)) (filter (\<lambda>e. h (snd e) \<noteq> None) st)"
    using f by auto
  then show ?thesis unfolding gone_ks [OF d s] by (rule arg_cong)
qed

lemma DataDied_sim:
  assumes inv: "conn_inv s"
  shows "sim (DataDied r) s (csm_HandleDataAbilityDied (Some r) s)"
proof (cases "da_token r")
  case None
  then show ?thesis by (simp add: csm_HandleDataAbilityDied_def sim_same [OF inv inv])
next
  case (Some t)
  obtain st ds where died: "HandleDataAbilityDiedInner t (cm_states s) = (st, ds)" by (cases "HandleDataAbilityDiedInner t (cm_states s)")
  note om = conn_invD(2) [OF inv]
  have "(p, it) \<in> set (cm_states s) \<Longrightarrow> item_ok p it" for p it using conn_invD(3) [OF inv] omap_find_iff [OF om] by blast
  note spec = DiedInner_spec [OF died om this]
  let ?s = "csm_HandleDataAbilityDied (Some r) s"
  have run: "?s = fold (\<lambda>data. CallObservers (ExtensionReport ExtensionDisconnected data)) ds (s\<lparr>cm_states := st\<rparr>)"
    by (simp add: csm_HandleDataAbilityDied_def Some died)
  define er :: "connection_item \<Rightarrow> connection_item" where "er it = it\<lparr>it_dataAbilityMap := omap_erase t (it_dataAbilityMap it)\<rparr>" for it
  have om': "omap_inv (map (\<lambda>e. (fst e, er (snd e))) (cm_states s))" using om by (simp add: omap_inv_def comp_def)
  have states: "cm_states ?s = filter (\<lambda>e. \<not> csi_IsEmpty (snd e)) (map (\<lambda>e. (fst e, er (snd e))) (cm_states s))"
    "cm_observers ?s = cm_observers s" by (simp_all add: run spec(1) er_def)
  have find: "omap_find (cm_states ?s) p = (case omap_find (cm_states s) p of None \<Rightarrow> None
      | Some it \<Rightarrow> if csi_IsEmpty (er it) then None else Some (er it))" for p
    using omap_find_filter [OF om', of "\<lambda>it. \<not> csi_IsEmpty it" p]
    by (simp add: states(1) omap_find_map_value split: option.splits)
  have "item_ok p it \<Longrightarrow> item_ok p (er it)" for p it
    by (auto simp: er_def item_ok_def omap_inv_erase find_omap_erase split: if_splits)
  moreover have "omap_inv (cm_states ?s)" unfolding states(1) by (rule omap_inv_filter [OF om'])
  ultimately have "conn_inv ?s" using inv by (auto simp: conn_inv_def find states(2) split: option.splits if_splits)
  moreover have "entry ?s k = entry s k" "dentry ?s k = (if snd k = t then None else dentry s k)" for k
    by (auto simp: entry_def dentry_def find er_def csi_IsEmpty_def find_omap_erase split: option.splits if_splits)
      (metis find_omap_erase fun_upd_other map_of.simps(1))+
  then have "conn_abs ?s = spec_next (DataDied r) (conn_abs s)" by (auto simp: conn_abs_def Some fun_eq_iff)
  moreover have "mset (map (\<lambda>d. (ExtensionDisconnected, cd_callerPid d, cd_extension d, cd_isSuspended d)) ds) =
      spec_due (DataDied r) (conn_abs s)"
  proof -
    let ?h = "\<lambda>it. map_option (\<lambda>cda. (cda_info cda, cda_callers cda)) (omap_find (it_dataAbilityMap it) t)"
    have "sp_data (conn_abs s) (p, t) = (case omap_find (cm_states s) p of None \<Rightarrow> None | Some it \<Rightarrow> ?h it)" for p
      by (simp add: sp_abs dentry_def split: option.split)
    note g = gone_token [OF om this]
    have "map (\<lambda>d. (ExtensionDisconnected, cd_callerPid d, cd_extension d, cd_isSuspended d)) ds =
        map (Pair ExtensionDisconnected) (map (\<lambda>d. (cd_callerPid d, cd_extension d, cd_isSuspended d)) ds)" by simp
    also have "\<dots> = map (\<lambda>e. (ExtensionDisconnected, fst e, fst (the (?h (snd e))), False)) (filter (\<lambda>e. ?h (snd e) \<noteq> None) (cm_states s))"
      by (subst spec(2)) (auto simp: option.map_sel)
    finally show ?thesis using g by (simp add: Some)
  qed
  then have "\<exists>new. reported ?s = reported s @ new \<and> mset new = spec_due (DataDied r) (conn_abs s)"
    using conn_invD(1) [OF inv] reported_cong [of "s\<lparr>cm_states := st\<rparr>" s] by (auto simp: run reported_fold)
  ultimately show ?thesis by (simp add: sim_def)
qed


section \<open>All calls\<close>

lemma conn_handle_sim:
  assumes inv: "conn_inv s" and keeps: "keeps e (conn_abs s)"
  shows "sim e s (conn_handle asObject e s)"
proof -
  obtain obs where obs: "cm_observers s = Some obs" using conn_invD(1) [OF inv] by blast
  have quiet: "sim e s s'" if "cm_states s' = cm_states s" "cm_observers s' \<noteq> None" "reported s' = reported s"
    and "spec_next e (conn_abs s) = conn_abs s" "spec_due e (conn_abs s) = {#}" for s'
    using that conn_inv_cong [OF inv that(1,2)] abs_same [OF entry_cong [OF that(1)]] by (simp add: sim_def)
  have dlp: "cm_states (CallObservers (DlpReport b d) x) = cm_states x" "cm_observers (CallObservers (DlpReport b d) x) = cm_observers x"
    "cm_observers x \<noteq> None \<Longrightarrow> reported (CallObservers (DlpReport b d) x) = reported x" for b d x
    by (simp_all add: reported_CallObservers)
  have inner: "cm_states (snd (HandleDlpAbilityInner a b s)) = cm_states s" "cm_observers (snd (HandleDlpAbilityInner a b s)) = cm_observers s"
    "reported (snd (HandleDlpAbilityInner a b s)) = reported s" for a b
    by (auto simp: HandleDlpAbilityInner_def Let_def split_beta reported_def split: option.splits)
  show ?thesis
  proof (cases e)
    case (DlpAbility b a)
    then show ?thesis using inner [of "Some a" True] inner [of "Some a" False] obs
      by (intro quiet) (auto simp: AddDlpAbility_def RemoveDlpAbility_def dlp split: prod.splits option.splits)
  next
    case (DlpManager b m)
    then show ?thesis using obs by (intro quiet) (auto simp: AddDlpManager_def RemoveDlpManager_def reported_def)
  next
    case (Register ob)
    then show ?thesis using obs by (intro quiet) (simp_all add: csm_RegisterObserver_def split_beta reported_def)
  next
    case (Unregister ob)
    then show ?thesis using obs by (intro quiet) (simp_all add: csm_UnregisterObserver_def reported_def)
  next
    case (ObserverDied obj)
    then show ?thesis using obs by (intro quiet) (simp_all add: reported_def)
  qed (use keeps Connect_sim [OF inv] Disconnect_sim [OF inv] Suspend_sim [OF inv] Resume_sim [OF inv] CallerDied_sim [OF inv]
        DataConnect_sim [OF inv] DataDisconnect_sim [OF inv] DataDied_sim [OF inv] in simp_all)
qed

interpretation cr: reporting "conn_handle asObject" reported conn_abs spec_next spec_due keeps conn_inv for asObject
  by unfold_locales (use conn_handle_sim in \<open>auto simp: sim_def\<close>)

interpretation oc: callback_list asObject "\<lambda>_. True" "\<lambda>ob l. snd (oc_AddObserver asObject (Some ob) l)"
  "\<lambda>ob. oc_RemoveObserver asObject (Some ob)" "\<lambda>obj. oc_HandleRemoteDied asObject (Some obj)" "\<lambda>l. l" for asObject
  by unfold_locales (auto simp: oc_AddObserver_def oc_RemoveObserver_def oc_HandleRemoteDied_def list_ex_iff)

definition conn_init :: "connection_mgr \<Rightarrow> bool" where
  "conn_init s \<longleftrightarrow> cm_observers s = Some [] \<and> cm_states s = [] \<and> cm_log s = []"

lemma conn_init_inv: "conn_init s \<Longrightarrow> conn_inv s" "conn_init s \<Longrightarrow> conn_abs s = spec_empty"
  by (simp_all add: conn_init_def conn_inv_def conn_abs_def spec_empty_def entry_def dentry_def)



section \<open>Where the contract breaks\<close>

lemma sim_silent: "sim e s s' \<Longrightarrow> spec_due e (conn_abs s) = {#} \<Longrightarrow> reported s' = reported s"
  by (auto simp: sim_def)

text \<open>C26: Removing the last connection that is not suspended drops the suspended ones with it: the extension is reported
  suspended, but it is no longer known, and neither resuming nor removing the remaining connections is reported.\<close>

theorem RemoveConnection_forgets_suspended:
  assumes "conn_init s0" and "all_ok keeps spec_next es spec_empty" and s: "s = fold (conn_handle asObject) es s0"
    and key: "key_of r = Some (k, c)" and "phase_of (conns_at (conn_abs s) k) = Active"
    and "phase_of ((conns_at (conn_abs s) k)(c := None)) = Paused" and s': "s' = csm_RemoveConnection (Some r) False s"
  shows "(\<exists>i. reported s' = reported s @ [(ExtensionSuspended, fst k, i, True)]) \<and> entry s' k = None \<and>
    (\<forall>r' d. key_of r' = Some (k, d) \<longrightarrow> reported (csm_ResumeConnection (Some r') s') = reported s' \<and>
       reported (csm_RemoveConnection (Some r') False s') = reported s')"
proof -
  have inv: "conn_inv s" using cr.run_refines [of s0 es asObject] conn_init_inv [OF assms(1)] assms(2) by (simp add: s)
  obtain p t where k: "k = (p, t)" by (cases k)
  obtain ce where ce: "entry s (p, t) = Some ce" using assms(5) by (auto simp: conns_at_abs k phase_of_def split: option.splits)
  have phases: "phase_of (omap_find (ce_connections ce)) = Active" "phase_of ((omap_find (ce_connections ce))(c := None)) = Paused"
    using assms(5,6) by (simp_all add: conns_at_abs k ce)
  obtain b where b: "omap_find (ce_connections ce) c = Some b"
    using phases by (cases "omap_find (ce_connections ce) c") (simp_all add: fun_upd_idem)
  obtain it where it: "omap_find (cm_states s) p = Some it" using ce by (auto simp: entry_def split: option.splits)
  define it' where "it' = it\<lparr>it_connectionMap := omap_erase t (it_connectionMap it)\<rparr>"
  define ce' where "ce' = ce\<lparr>ce_connections := omap_erase c (ce_connections ce)\<rparr>"
  let ?u = "if csi_IsEmpty it' then unstore p s else store p it' s"
  have run: "s' = emit (Some ExtensionSuspended) (csi_GenerateConnectionData it' ce' newConnectionData) ?u"
    using csm_Remove_eq [OF inv key [unfolded k] it ce b] phases
    by (simp add: s' it'_def ce'_def find_omap_erase change_kind_def)
  note er = erase_entry [OF inv item_at_found [OF it], of t, folded it'_def]
  have inv': "conn_inv s'" using conn_inv_cong [OF er(1), of s'] conn_invD(1) [OF er(1)] by (simp add: run)
  have gone: "entry s' k = None" using er(2) entry_cong(1) [of s' ?u] by (simp add: run k)
  have "\<not> someActive (ce_connections ce')"
    using phases(2) entry_ok [OF inv ce] phase_of_list [OF omap_inv_erase, of "ce_connections ce" c]
    by (auto simp: ce'_def ce_ok_def find_omap_erase split: if_splits)
  then have "reported s' = reported s @ [(ExtensionSuspended, p, ce_info ce', True)]"
    using reported_cong [OF er(4)] conn_invD(1) [OF er(1)] item_okD(1) [OF conn_invD(3) [OF inv it]]
    by (simp add: run reported_emit data_core it'_def)
  moreover have "reported (csm_ResumeConnection (Some r') s') = reported s' \<and> reported (csm_RemoveConnection (Some r') False s') = reported s'"
    if "key_of r' = Some (k, d)" for r' d
    using that gone sim_silent [OF Resume_sim [OF inv']] sim_silent [OF Disconnect_sim [OF inv']]
    by (simp add: change_due_def conns_at_abs phase_of_def)
  ultimately show ?thesis using gone by (auto simp: k)
qed

text \<open>The list of all connections of a process marks an extension as suspended as soon as one listed before it is.\<close>

theorem GenerateAll_flags:
  assumes "n < length (GenerateAllConnectionData it)"
  shows "cd_isSuspended (GenerateAllConnectionData it ! n) \<longleftrightarrow>
    (\<exists>m\<le>n. m < length (it_connectionMap it) \<and> \<not> someActive (ce_connections (snd (it_connectionMap it ! m))))"
proof (cases "n < length (it_connectionMap it)")
  case True
  then have "list_ex paused (take (Suc n) (it_connectionMap it)) \<longleftrightarrow> (\<exists>m\<le>n. m < length (it_connectionMap it) \<and> paused (it_connectionMap it ! m))"
    by (auto simp: list_ex_iff nth_image [of "Suc n", symmetric]) (meson le_less_trans less_Suc_eq_le)
  with True show ?thesis by (simp add: GenerateAll_eq nth_append mkData_def paused_def)
next
  case False
  then have "list_ex paused (it_connectionMap it) \<longleftrightarrow> (\<exists>m\<le>n. m < length (it_connectionMap it) \<and> paused (it_connectionMap it ! m))"
    unfolding list_ex_length by (meson less_imp_le linorder_not_less order_less_le_trans)
  with False assms show ?thesis by (simp add: GenerateAll_eq nth_append mkData_def paused_def)
qed

section \<open>Who is told\<close>

definition told :: "connection_mgr \<Rightarrow> connection_mgr \<Rightarrow> bool" where
  "told s s' \<longleftrightarrow> cm_observers s' = cm_observers s \<and> (\<exists>rs. cm_log s' = cm_log s @ map (Pair (the (cm_observers s))) rs)"

lemma told_cong: "cm_observers s' = cm_observers s \<Longrightarrow> cm_log s' = cm_log s \<Longrightarrow> told s s'"
  by (simp add: told_def)

lemma told_Call: "told s s' \<Longrightarrow> told s (CallObservers r s')"
  unfolding told_def by (cases "cm_observers s") (auto simp: CallObservers_def intro: exI [of _ "_ @ [r]"])

lemma told_fold: "told s s' \<Longrightarrow> told s (fold (\<lambda>d. CallObservers (f d)) ds s')"
  by (induction ds arbitrary: s') (auto intro: told_Call)

lemmas told_intros = told_Call told_fold told_cong

lemma conn_handle_told:
  assumes "\<And>ob. e \<noteq> Register ob" "\<And>ob. e \<noteq> Unregister ob" "\<And>obj. e \<noteq> ObserverDied obj"
  shows "told s (conn_handle asObject e s)"
  using assms
  by (cases e)
    (auto simp: csm_AddConnection_def AddConnectionInner_def csm_RemoveConnection_def RemoveConnectionInner_def csm_SuspendConnection_def
      csm_ResumeConnection_def changeInner_def csm_HandleAppDied_def HandleCallerDied_def RemoveDiedCaller_def
      csm_AddDataAbilityConnection_def AddDataAbilityConnectionInner_def csm_RemoveDataAbilityConnection_def
      RemoveDataAbilityConnectionInner_def csm_HandleDataAbilityDied_def AddDlpManager_def RemoveDlpManager_def AddDlpAbility_def
      RemoveDlpAbility_def HandleDlpAbilityInner_def Let_def split: option.splits prod.splits intro!: told_intros)

lemma silent_fold: "cm_observers s = None \<Longrightarrow> fold (\<lambda>d. CallObservers (f d)) ds s = s"
  by (induction ds arbitrary: s) (simp_all add: CallObservers_def)

lemma conn_handle_silent:
  assumes "cm_observers s = None"
  shows "cm_log (conn_handle asObject e s) = cm_log s"
  using assms
  by (cases e)
    (auto simp: csm_AddConnection_def csm_RemoveConnection_def csm_SuspendConnection_def csm_ResumeConnection_def csm_HandleAppDied_def
      HandleCallerDied_def RemoveDiedCaller_def csm_AddDataAbilityConnection_def csm_RemoveDataAbilityConnection_def
      CheckDataAbilityConnectionParams_def csm_HandleDataAbilityDied_def AddDlpManager_def RemoveDlpManager_def AddDlpAbility_def
      RemoveDlpAbility_def csm_RegisterObserver_def csm_UnregisterObserver_def silent_fold split: option.splits prod.splits)

definition once_inv :: "(nat \<Rightarrow> nat option) \<Rightarrow> connection_mgr \<Rightarrow> bool" where
  "once_inv asObject s \<longleftrightarrow> (\<forall>obs. cm_observers s = Some obs \<longrightarrow> oc.once asObject obs) \<and>
     (\<forall>e\<in>set (cm_log s). distinct (map asObject (fst e)))"


lemma once_inv_step:
  assumes "once_inv asObject s"
  shows "once_inv asObject (conn_handle asObject e s)"
proof (cases "(\<exists>ob. e = Register ob) \<or> (\<exists>ob. e = Unregister ob) \<or> (\<exists>obj. e = ObserverDied obj)")
  case True
  then show ?thesis using assms oc.once_add [of asObject] oc.once_remove [of asObject] oc.once_died [of asObject]
    by (auto simp: once_inv_def csm_RegisterObserver_def csm_UnregisterObserver_def split_beta split: option.splits)
next
  case False
  then have t: "told s (conn_handle asObject e s)" by (intro conn_handle_told) auto
  show ?thesis
  proof (cases "cm_observers s")
    case None
    then have "cm_log (conn_handle asObject e s) = cm_log s" "cm_observers (conn_handle asObject e s) = None"
      using conn_handle_silent [OF None] False t by (auto simp: told_def)
    then show ?thesis using assms by (simp add: once_inv_def)
  next
    case (Some obs)
    then show ?thesis using t assms by (auto simp: told_def once_inv_def oc.once_def)
  qed
qed

text \<open>Every report goes to each registered remote object exactly once, however often its observers are registered,
  unregistered or die.\<close>

theorem reports_told_once:
  assumes "conn_init s" and "(obs, r) \<in> set (cm_log (fold (conn_handle asObject) es s))"
  shows "distinct (map asObject obs)"
proof -
  have "once_inv asObject x \<Longrightarrow> once_inv asObject (fold (conn_handle asObject) es x)" for x
    by (induction es arbitrary: x) (simp_all add: once_inv_step)
  moreover have "once_inv asObject s" using assms(1) by (simp add: conn_init_def once_inv_def oc.once_def)
  ultimately have "once_inv asObject (fold (conn_handle asObject) es s)" by blast
  then have "\<forall>e\<in>set (cm_log (fold (conn_handle asObject) es s)). distinct (map asObject (fst e))" by (simp add: once_inv_def)
  from bspec [OF this assms(2)] show ?thesis by simp
qed

section \<open>Examples\<close>

definition exTarget :: target_record where
  "exTarget = \<lparr>tr_token = Some 3, tr_pid = 40, tr_uid = 20, tr_bundleName = ''ext'', tr_moduleName = ''m'', tr_name = ''a'',
     tr_extensionAbilityType = EXT_OTHER 5, tr_type = OTHER_ABILITY 2, tr_appIndex = 0, tr_ownerMissionUserId = 100\<rparr>"

definition exRec :: "nat \<Rightarrow> connection_record" where
  "exRec c = \<lparr>cr_callerUid = 10, cr_callerPid = 7, cr_callerName = ''app'', cr_targetService = Some exTarget, cr_connection = Some c\<rparr>"

definition exConn :: connection_mgr where
  "exConn = csm_Init (Some 0) False newConnectionStateManager"

definition exConnCalls :: "conn_call list" where
  "exConnCalls = [Register 2, Connect (exRec 11), Connect (exRec 12), Suspend (exRec 12)]"

lemma exConn_init: "conn_init exConn"
  by (simp add: conn_init_def exConn_def csm_Init_def newConnectionStateManager_def InitAppStateObserver_def)

lemma exKey: "key_of (exRec c) = Some ((7, 3), c)"
  by (simp add: key_of_def exRec_def GetTargetToken_def exTarget_def)

lemma exConnCalls_ok: "all_ok keeps spec_next exConnCalls spec_empty"
  by (simp add: exConnCalls_def)

lemma exConn_spec: "conns_at (fold spec_next exConnCalls spec_empty) (7, 3) = [11 \<mapsto> False, 12 \<mapsto> True]"
  by (simp add: exConnCalls_def exKey set_conns_def conns_at_def spec_empty_def fun_eq_iff)


theorem RemoveConnection_forgets_suspended_witness:
  "entry (csm_RemoveConnection (Some (exRec 11)) False (fold (conn_handle Some) exConnCalls exConn)) (7, 3) = None \<and>
   reported (csm_RemoveConnection (Some (exRec 12)) False (csm_RemoveConnection (Some (exRec 11)) False (fold (conn_handle Some) exConnCalls exConn))) =
   reported (csm_RemoveConnection (Some (exRec 11)) False (fold (conn_handle Some) exConnCalls exConn))"
proof -
  have "conn_abs (fold (conn_handle Some) exConnCalls exConn) = fold spec_next exConnCalls spec_empty"
    using cr.run_refines [of exConn exConnCalls Some] conn_init_inv [OF exConn_init] exConnCalls_ok by simp
  then have conns: "conns_at (conn_abs (fold (conn_handle Some) exConnCalls exConn)) (7, 3) = [11 \<mapsto> False, 12 \<mapsto> True]"
    by (simp add: exConn_spec)
  have "phase_of [11 \<mapsto> False, 12 \<mapsto> True] = Active" using phase_Active [of "[11 \<mapsto> False, 12 \<mapsto> True]" 11] by simp
  moreover have "phase_of ([11 \<mapsto> False, 12 \<mapsto> True](11 := None)) = Paused" by (auto simp: phase_of_def ran_def fun_eq_iff)
  ultimately show ?thesis
    using RemoveConnection_forgets_suspended [OF exConn_init exConnCalls_ok refl exKey [of 11], of Some, unfolded conns] exKey [of 12] by blast
qed

theorem GenerateAll_flags_witness:
  "cd_isSuspended (GenerateAllConnectionData (CreateConnectionStateItem (exRec 11)
     \<lparr>it_connectionMap := [(3, (newConnectedExtension exTarget)\<lparr>ce_connections := [(11, True)]\<rparr>),
        (4, (newConnectedExtension exTarget)\<lparr>ce_connections := [(12, False)]\<rparr>)]\<rparr>) ! 1)"
proof -
  let ?it = "CreateConnectionStateItem (exRec 11)
     \<lparr>it_connectionMap := [(3, (newConnectedExtension exTarget)\<lparr>ce_connections := [(11, True)]\<rparr>),
        (4, (newConnectedExtension exTarget)\<lparr>ce_connections := [(12, False)]\<rparr>)]\<rparr>"
  have "1 < length (GenerateAllConnectionData ?it)" by code_simp
  from GenerateAll_flags [OF this] show ?thesis by (auto simp: someActive_def intro: exI [of _ 0])
qed

theorem reports_told_once_witness:
  "\<exists>obs r. (obs, r) \<in> set (cm_log (fold (conn_handle Some) exConnCalls exConn)) \<and> distinct (map Some obs) \<and> obs = [2]"
proof -
  have "map fst (cm_log (fold (conn_handle Some) exConnCalls exConn)) = [[2]]" by code_simp
  then obtain r where "cm_log (fold (conn_handle Some) exConnCalls exConn) = [([2], r)]" by auto
  then show ?thesis using reports_told_once [OF exConn_init, of "[2]" r Some exConnCalls] by auto
qed


end
