(* ===== verification/Foreground_Connection.thy ===== *)
theory Foreground_Connection
  imports Connection_Reports
begin

text \<open>
  The connections between foreground applications: \<open>foreground_app_connection_manager.cpp\<close>.  A pair of processes is
  connected while some ability record of the target was started by the caller; the manager keeps one entry per
  pair, under a key made of both process ids, and tells its observers when a pair begins and ends.

  The abstract state maps each pair to its data and the set of ability records.  Shown: over every sequence of calls
  the reports are exactly the changes of the pairs, and the death of a process, which the application manager
  reports to this manager and to the connection states together, leaves no connection of it in either.

  \<open>UIExtensionWrapper::IsUIExtension\<close> (a table of the window extensions) is a parameter.
\<close>

section \<open>The code\<close>

record fg_info =
  fi_callerPid :: int
  fi_targetPid :: int
  fi_callerUid :: int
  fi_targetUid :: int
  fi_callerBundleName :: string
  fi_targetBundleName :: string
  fi_abilityRecordIds :: "int list"

definition newForegroundAppConnectionInfo :: "int \<Rightarrow> int \<Rightarrow> int \<Rightarrow> int \<Rightarrow> string \<Rightarrow> string \<Rightarrow> fg_info" where
  "newForegroundAppConnectionInfo callerPid targetPid callerUid targetUid callerBundleName targetBundleName =
     \<lparr>fi_callerPid = callerPid, fi_targetPid = targetPid, fi_callerUid = callerUid, fi_targetUid = targetUid,
      fi_callerBundleName = callerBundleName, fi_targetBundleName = targetBundleName, fi_abilityRecordIds = []\<rparr>"

definition AddAbilityRecordId :: "int \<Rightarrow> fg_info \<Rightarrow> fg_info" where
  "AddAbilityRecordId abilityRecordId info =
     (if list_ex (\<lambda>i. i = abilityRecordId) (fi_abilityRecordIds info) then info
      else info\<lparr>fi_abilityRecordIds := fi_abilityRecordIds info @ [abilityRecordId]\<rparr>)"

definition RemoveAbilityRecordId :: "int \<Rightarrow> fg_info \<Rightarrow> fg_info" where
  "RemoveAbilityRecordId abilityRecordId info =
     info\<lparr>fi_abilityRecordIds := filter (\<lambda>i. i \<noteq> abilityRecordId) (fi_abilityRecordIds info)\<rparr>"

record fg_data =
  fd_callerPid :: int
  fd_targetPid :: int
  fd_callerUid :: int
  fd_targetUid :: int
  fd_callerBundleName :: string
  fd_targetBundleName :: string

definition fg_GenerateConnectionData :: "fg_info \<Rightarrow> fg_data" where
  "fg_GenerateConnectionData info = \<lparr>fd_callerPid = fi_callerPid info, fd_targetPid = fi_targetPid info,
     fd_callerUid = fi_callerUid info, fd_targetUid = fi_targetUid info,
     fd_callerBundleName = fi_callerBundleName info, fd_targetBundleName = fi_targetBundleName info\<rparr>"

datatype fg_report = FgConnected fg_data | FgDisconnected fg_data | FgCallerStarted int int string

record fg_mgr =
  fg_observers :: "nat list"
  fg_pidMap :: "(string, fg_info) omap"
  fg_log :: "(nat list \<times> fg_report) list"

definition newForegroundAppConnectionManager :: fg_mgr where
  "newForegroundAppConnectionManager = \<lparr>fg_observers = [], fg_pidMap = [], fg_log = []\<rparr>"

definition IsForegroundAppConnection :: "(extension_type \<Rightarrow> bool) \<Rightarrow> target_record \<Rightarrow> bool \<Rightarrow> target_record option \<Rightarrow> bool" where
  "IsForegroundAppConnection isUIExtension target isSystemApp caller =
     (case caller of
        None \<Rightarrow> False
      | Some c \<Rightarrow>
          let targetIsSystemUIAbility = tr_type target = PAGE \<and> isSystemApp;
              targetIsUIExtension = isUIExtension (tr_extensionAbilityType target);
              callerIsUIAbility = tr_type c = PAGE;
              callerIsUIExtension = isUIExtension (tr_extensionAbilityType c)
          in (targetIsSystemUIAbility \<or> targetIsUIExtension) \<and> (callerIsUIAbility \<or> callerIsUIExtension))"

definition FG_NULL_OBJECT :: int where "FG_NULL_OBJECT = 22"

definition fg_RegisterObserver :: "(nat \<Rightarrow> nat option) \<Rightarrow> nat option \<Rightarrow> fg_mgr \<Rightarrow> int \<times> fg_mgr" where
  "fg_RegisterObserver asObject observer s =
     (case observer of
        None \<Rightarrow> (FG_NULL_OBJECT, s)
      | Some ob \<Rightarrow>
          if asObject ob = None then (FG_NULL_OBJECT, s)
          else if list_ex (\<lambda>x. asObject x = asObject ob) (fg_observers s) then (0, s)
          else (0, s\<lparr>fg_observers := fg_observers s @ [ob]\<rparr>))"

definition fg_UnregisterObserver :: "(nat \<Rightarrow> nat option) \<Rightarrow> nat option \<Rightarrow> fg_mgr \<Rightarrow> int \<times> fg_mgr" where
  "fg_UnregisterObserver asObject observer s =
     (case observer of
        None \<Rightarrow> (FG_NULL_OBJECT, s)
      | Some ob \<Rightarrow>
          if asObject ob = None then (FG_NULL_OBJECT, s)
          else (0, s\<lparr>fg_observers := erase_first (\<lambda>x. asObject x = asObject ob) (fg_observers s)\<rparr>))"

definition fg_HandleRemoteDied :: "(nat \<Rightarrow> nat option) \<Rightarrow> nat option \<Rightarrow> fg_mgr \<Rightarrow> fg_mgr" where
  "fg_HandleRemoteDied asObject remote s =
     (case remote of
        None \<Rightarrow> s
      | Some obj \<Rightarrow> s\<lparr>fg_observers := erase_first (\<lambda>x. asObject x = Some obj) (fg_observers s)\<rparr>)"

definition fg_tell :: "fg_report \<Rightarrow> fg_mgr \<Rightarrow> fg_mgr" where
  "fg_tell r s = s\<lparr>fg_log := fg_log s @ [(fg_observers s, r)]\<rparr>"

definition OnConnected :: "fg_data \<Rightarrow> fg_mgr \<Rightarrow> fg_mgr" where
  "OnConnected data = fg_tell (FgConnected data)"

definition OnDisconnected :: "fg_data \<Rightarrow> fg_mgr \<Rightarrow> fg_mgr" where
  "OnDisconnected data = fg_tell (FgDisconnected data)"

definition OnCallerStarted :: "int \<Rightarrow> int \<Rightarrow> string \<Rightarrow> fg_mgr \<Rightarrow> fg_mgr" where
  "OnCallerStarted callerPid callerUid bundleName = fg_tell (FgCallerStarted callerPid callerUid bundleName)"

definition pidKey :: "int \<Rightarrow> int \<Rightarrow> string" where
  "pidKey callerPid targetPid = to_string callerPid @ CHR ''_'' # to_string targetPid"

definition AbilityAddPidConnection :: "fg_info \<Rightarrow> int \<Rightarrow> fg_mgr \<Rightarrow> fg_mgr" where
  "AbilityAddPidConnection info abilityRecordId s =
     (if fi_callerPid info \<le> 0 \<or> fi_targetPid info \<le> 0 then s
      else let curObserverKey = pidKey (fi_callerPid info) (fi_targetPid info)
           in case omap_find (fg_pidMap s) curObserverKey of
                Some i \<Rightarrow> s\<lparr>fg_pidMap := omap_put curObserverKey (AddAbilityRecordId abilityRecordId i) (fg_pidMap s)\<rparr>
              | None \<Rightarrow>
                  let info = AddAbilityRecordId abilityRecordId info;
                      s = OnConnected (fg_GenerateConnectionData info) s
                  in s\<lparr>fg_pidMap := omap_put curObserverKey info (fg_pidMap s)\<rparr>)"

definition AbilityRemovePidConnection :: "int \<Rightarrow> int \<Rightarrow> int \<Rightarrow> fg_mgr \<Rightarrow> fg_mgr" where
  "AbilityRemovePidConnection callerPid targetPid abilityRecordId s =
     (let curObserverKey = pidKey callerPid targetPid
      in case omap_find (fg_pidMap s) curObserverKey of
           None \<Rightarrow> s
         | Some i \<Rightarrow>
             let info = RemoveAbilityRecordId abilityRecordId i
             in if fi_abilityRecordIds info = []
                then let s = OnDisconnected (fg_GenerateConnectionData info) s
                     in s\<lparr>fg_pidMap := omap_erase curObserverKey (fg_pidMap s)\<rparr>
                else s\<lparr>fg_pidMap := omap_put curObserverKey info (fg_pidMap s)\<rparr>)"

text \<open>The loop over the map: the entries that stay, and the data of the others in their order.\<close>

fun processLoop :: "int \<Rightarrow> (string, fg_info) omap \<Rightarrow> fg_mgr \<Rightarrow> (string, fg_info) omap \<times> fg_mgr" where
  "processLoop diedPid [] s = ([], s)"
| "processLoop diedPid (e # m) s =
     (if fi_callerPid (snd e) = diedPid \<or> fi_targetPid (snd e) = diedPid
      then processLoop diedPid m (OnDisconnected (fg_GenerateConnectionData (snd e)) s)
      else let (m, s) = processLoop diedPid m s in (e # m, s))"

definition ProcessRemovePidConnection :: "int \<Rightarrow> fg_mgr \<Rightarrow> fg_mgr" where
  "ProcessRemovePidConnection diedPid s =
     (if diedPid \<le> 0 then s
      else let (m, s) = processLoop diedPid (fg_pidMap s) s in s\<lparr>fg_pidMap := m\<rparr>)"

text \<open>The observer that the connection states register with the application manager (\<open>InitAppStateObserver\<close>).\<close>

definition OnProcessDied :: "int \<Rightarrow> connection_mgr \<times> fg_mgr \<Rightarrow> connection_mgr \<times> fg_mgr" where
  "OnProcessDied pid s = (csm_HandleAppDied pid (fst s), ProcessRemovePidConnection pid (snd s))"

section \<open>The contract\<close>

datatype fg_call =
  FgAdd int int int int string string int
| FgRemove int int int
| FgProcessDied int
| FgStarted int int string
| FgRegister nat
| FgUnregister nat
| FgObserverDied nat

fun fg_handle :: "(nat \<Rightarrow> nat option) \<Rightarrow> fg_call \<Rightarrow> fg_mgr \<Rightarrow> fg_mgr" where
  "fg_handle asObject (FgAdd c t cu tu cb tb i) s = AbilityAddPidConnection (newForegroundAppConnectionInfo c t cu tu cb tb) i s"
| "fg_handle asObject (FgRemove c t i) s = AbilityRemovePidConnection c t i s"
| "fg_handle asObject (FgProcessDied pid) s = ProcessRemovePidConnection pid s"
| "fg_handle asObject (FgStarted p u b) s = OnCallerStarted p u b s"
| "fg_handle asObject (FgRegister ob) s = snd (fg_RegisterObserver asObject (Some ob) s)"
| "fg_handle asObject (FgUnregister ob) s = snd (fg_UnregisterObserver asObject (Some ob) s)"
| "fg_handle asObject (FgObserverDied obj) s = fg_HandleRemoteDied asObject (Some obj) s"

text \<open>The pairs of connected processes with their data and ability records.\<close>

type_synonym fg_spec = "int \<times> int \<Rightarrow> (fg_data \<times> int set) option"

fun fg_next :: "fg_call \<Rightarrow> fg_spec \<Rightarrow> fg_spec" where
  "fg_next (FgAdd c t cu tu cb tb i) A =
     (if c \<le> 0 \<or> t \<le> 0 then A
      else A((c, t) \<mapsto> (case A (c, t) of
               None \<Rightarrow> (fg_GenerateConnectionData (newForegroundAppConnectionInfo c t cu tu cb tb), {i})
             | Some (d, I) \<Rightarrow> (d, insert i I))))"
| "fg_next (FgRemove c t i) A =
     A((c, t) := (case A (c, t) of None \<Rightarrow> None | Some (d, I) \<Rightarrow> if I \<subseteq> {i} then None else Some (d, I - {i})))"
| "fg_next (FgProcessDied pid) A = (\<lambda>k. if pid > 0 \<and> (fst k = pid \<or> snd k = pid) then None else A k)"
| "fg_next _ A = A"

fun fg_due :: "fg_call \<Rightarrow> fg_spec \<Rightarrow> fg_report multiset" where
  "fg_due (FgAdd c t cu tu cb tb i) A =
     (if c > 0 \<and> t > 0 \<and> A (c, t) = None
      then {#FgConnected (fg_GenerateConnectionData (newForegroundAppConnectionInfo c t cu tu cb tb))#} else {#})"
| "fg_due (FgRemove c t i) A =
     (case A (c, t) of None \<Rightarrow> {#} | Some (d, I) \<Rightarrow> if I \<subseteq> {i} then {#FgDisconnected d#} else {#})"
| "fg_due (FgProcessDied pid) A =
     image_mset (\<lambda>k. FgDisconnected (fst (the (A k)))) (mset_set {k. pid > 0 \<and> (fst k = pid \<or> snd k = pid) \<and> A k \<noteq> None})"
| "fg_due (FgStarted p u b) A = {#FgCallerStarted p u b#}"
| "fg_due _ A = {#}"

definition fg_abs :: "fg_mgr \<Rightarrow> fg_spec" where
  "fg_abs s = (\<lambda>(c, t). map_option (\<lambda>i. (fg_GenerateConnectionData i, set (fi_abilityRecordIds i))) (omap_find (fg_pidMap s) (pidKey c t)))"

definition fg_inv :: "fg_mgr \<Rightarrow> bool" where
  "fg_inv s \<longleftrightarrow> omap_inv (fg_pidMap s) \<and>
     (\<forall>k i. omap_find (fg_pidMap s) k = Some i \<longrightarrow> k = pidKey (fi_callerPid i) (fi_targetPid i) \<and>
        fi_callerPid i > 0 \<and> fi_targetPid i > 0 \<and> fi_abilityRecordIds i \<noteq> [] \<and> distinct (fi_abilityRecordIds i))"

definition fg_reported :: "fg_mgr \<Rightarrow> fg_report list" where
  "fg_reported s = map snd (fg_log s)"

section \<open>Keys\<close>

lemma to_string_no_underscore: "CHR ''_'' \<notin> set (to_string i)"
  using nat_str_code [of "CHR ''_''"] by (auto simp: to_string_def)

lemma pidKey_inj [simp]: "pidKey c t = pidKey c' t' \<longleftrightarrow> c = c' \<and> t = t'"
proof
  assume eq: "pidKey c t = pidKey c' t'"
  have fst: "takeWhile (\<lambda>x. x \<noteq> CHR ''_'') (pidKey c t) = to_string c" for c t
    using to_string_no_underscore [of c] by (simp add: pidKey_def takeWhile_append takeWhile_eq_all_conv)
  have "to_string c = to_string c'" using eq fst [of c t] fst [of c' t'] by simp
  with eq to_string_inj show "c = c' \<and> t = t'" by (auto simp: pidKey_def)
qed simp

section \<open>One call\<close>

definition fg_sim :: "fg_call \<Rightarrow> fg_mgr \<Rightarrow> fg_mgr \<Rightarrow> bool" where
  "fg_sim e s s' \<longleftrightarrow> fg_inv s' \<and> fg_abs s' = fg_next e (fg_abs s) \<and>
     (\<exists>new. fg_reported s' = fg_reported s @ new \<and> mset new = fg_due e (fg_abs s))"

lemma fg_tell_frame [simp]: "fg_pidMap (fg_tell r s) = fg_pidMap s" "fg_observers (fg_tell r s) = fg_observers s"
  "fg_reported (fg_tell r s) = fg_reported s @ [r]"
  by (simp_all add: fg_tell_def fg_reported_def)

lemma fg_reported_upd [simp]: "fg_reported (s\<lparr>fg_pidMap := m\<rparr>) = fg_reported s" "fg_reported (s\<lparr>fg_observers := obs\<rparr>) = fg_reported s"
  by (simp_all add: fg_reported_def)

lemma fg_invD:
  assumes "fg_inv s"
  shows "omap_inv (fg_pidMap s)"
    and "omap_find (fg_pidMap s) k = Some i \<Longrightarrow> k = pidKey (fi_callerPid i) (fi_targetPid i) \<and>
        fi_callerPid i > 0 \<and> fi_targetPid i > 0 \<and> fi_abilityRecordIds i \<noteq> [] \<and> distinct (fi_abilityRecordIds i)"
  using assms by (simp_all add: fg_inv_def)

lemma fg_abs_at: "fg_abs s (c, t) = map_option (\<lambda>i. (fg_GenerateConnectionData i, set (fi_abilityRecordIds i))) (omap_find (fg_pidMap s) (pidKey c t))"
  by (simp add: fg_abs_def)

lemma fg_put:
  assumes "fg_inv s" "fg_pidMap s' = omap_put (pidKey c t) i (fg_pidMap s)"
    and "fi_callerPid i = c" "fi_targetPid i = t" "c > 0" "t > 0" "fi_abilityRecordIds i \<noteq> []" "distinct (fi_abilityRecordIds i)"
  shows "fg_inv s'" "fg_abs s' = (fg_abs s)((c, t) \<mapsto> (fg_GenerateConnectionData i, set (fi_abilityRecordIds i)))"
  using assms by (auto simp: fg_inv_def fg_abs_def find_omap_put omap_inv_put fun_eq_iff split: if_splits)

lemma fg_erase:
  assumes "fg_inv s" "fg_pidMap s' = omap_erase (pidKey c t) (fg_pidMap s)"
  shows "fg_inv s'" "fg_abs s' = (fg_abs s)((c, t) := None)"
  using assms by (auto simp: fg_inv_def fg_abs_def find_omap_erase omap_inv_erase fun_eq_iff split: if_splits)

lemma AddAbilityRecordId_sel [simp]:
  "fi_callerPid (AddAbilityRecordId i info) = fi_callerPid info" "fi_targetPid (AddAbilityRecordId i info) = fi_targetPid info"
  "fg_GenerateConnectionData (AddAbilityRecordId i info) = fg_GenerateConnectionData info"
  "set (fi_abilityRecordIds (AddAbilityRecordId i info)) = insert i (set (fi_abilityRecordIds info))"
  "fi_abilityRecordIds (AddAbilityRecordId i info) \<noteq> []"
  "distinct (fi_abilityRecordIds info) \<Longrightarrow> distinct (fi_abilityRecordIds (AddAbilityRecordId i info))"
  by (auto simp: AddAbilityRecordId_def fg_GenerateConnectionData_def list_ex_iff)

lemma RemoveAbilityRecordId_sel [simp]:
  "fi_callerPid (RemoveAbilityRecordId i info) = fi_callerPid info" "fi_targetPid (RemoveAbilityRecordId i info) = fi_targetPid info"
  "fg_GenerateConnectionData (RemoveAbilityRecordId i info) = fg_GenerateConnectionData info"
  "set (fi_abilityRecordIds (RemoveAbilityRecordId i info)) = set (fi_abilityRecordIds info) - {i}"
  "distinct (fi_abilityRecordIds info) \<Longrightarrow> distinct (fi_abilityRecordIds (RemoveAbilityRecordId i info))"
  by (auto simp: RemoveAbilityRecordId_def fg_GenerateConnectionData_def)

lemma FgAdd_sim:
  assumes inv: "fg_inv s" and e: "e = FgAdd c t cu tu cb tb i"
  shows "fg_sim e s (fg_handle asObject e s)"
proof (cases "c \<le> 0 \<or> t \<le> 0")
  case True
  then show ?thesis using inv
    by (auto simp: fg_sim_def e AbilityAddPidConnection_def newForegroundAppConnectionInfo_def)
next
  case pos: False
  let ?info = "newForegroundAppConnectionInfo c t cu tu cb tb"
  have new: "fi_callerPid ?info = c" "fi_targetPid ?info = t" "fi_abilityRecordIds ?info = []"
    by (simp_all add: newForegroundAppConnectionInfo_def)
  let ?s = "fg_handle asObject e s"
  show ?thesis
  proof (cases "omap_find (fg_pidMap s) (pidKey c t)")
    case None
    have "fg_pidMap ?s = omap_put (pidKey c t) (AddAbilityRecordId i ?info) (fg_pidMap s)"
      "fg_reported ?s = fg_reported s @ [FgConnected (fg_GenerateConnectionData ?info)]"
      using None pos new by (simp_all add: e AbilityAddPidConnection_def OnConnected_def Let_def)
    then show ?thesis using fg_put [OF inv, of ?s c t "AddAbilityRecordId i ?info"] pos None new
      by (simp add: fg_sim_def e fg_abs_at)
  next
    case (Some x)
    note ok = fg_invD(2) [OF inv Some]
    have "fg_pidMap ?s = omap_put (pidKey c t) (AddAbilityRecordId i x) (fg_pidMap s)" "fg_reported ?s = fg_reported s"
      using Some pos new by (simp_all add: e AbilityAddPidConnection_def Let_def)
    then show ?thesis using fg_put [OF inv, of ?s c t "AddAbilityRecordId i x"] pos Some ok
      by (simp add: fg_sim_def e fg_abs_at)
  qed
qed

lemma FgRemove_sim:
  assumes inv: "fg_inv s" and e: "e = FgRemove c t i"
  shows "fg_sim e s (fg_handle asObject e s)"
proof (cases "omap_find (fg_pidMap s) (pidKey c t)")
  case None
  then have "fg_abs s (c, t) = None" by (simp add: fg_abs_at)
  then show ?thesis using inv None by (auto simp: fg_sim_def e AbilityRemovePidConnection_def fun_upd_idem)
next
  case (Some x)
  note ok = fg_invD(2) [OF inv Some]
  let ?s = "fg_handle asObject e s"
  have last: "fi_abilityRecordIds (RemoveAbilityRecordId i x) = [] \<longleftrightarrow> set (fi_abilityRecordIds x) \<subseteq> {i}"
    using RemoveAbilityRecordId_sel(4) [of i x] by (metis Diff_eq_empty_iff set_empty)
  show ?thesis
  proof (cases "set (fi_abilityRecordIds x) \<subseteq> {i}")
    case True
    have "fg_pidMap ?s = omap_erase (pidKey c t) (fg_pidMap s)" "fg_reported ?s = fg_reported s @ [FgDisconnected (fg_GenerateConnectionData x)]"
      using Some True last by (simp_all add: e AbilityRemovePidConnection_def OnDisconnected_def Let_def)
    then show ?thesis using fg_erase [OF inv, of ?s c t] Some True by (simp add: fg_sim_def e fg_abs_at)
  next
    case False
    have "fg_pidMap ?s = omap_put (pidKey c t) (RemoveAbilityRecordId i x) (fg_pidMap s)" "fg_reported ?s = fg_reported s"
      using Some False last by (simp_all add: e AbilityRemovePidConnection_def Let_def)
    then show ?thesis using fg_put [OF inv, of ?s c t "RemoveAbilityRecordId i x"] Some False ok last by (simp add: fg_sim_def e fg_abs_at)
  qed
qed

lemma processLoop_eq:
  "fst (processLoop p m s) = filter (\<lambda>e. \<not> (fi_callerPid (snd e) = p \<or> fi_targetPid (snd e) = p)) m"
  "fg_reported (snd (processLoop p m s)) = fg_reported s @
     map (\<lambda>e. FgDisconnected (fg_GenerateConnectionData (snd e))) (filter (\<lambda>e. fi_callerPid (snd e) = p \<or> fi_targetPid (snd e) = p) m)"
  "fg_observers (snd (processLoop p m s)) = fg_observers s"
  by (induction p m s rule: processLoop.induct) (auto simp: OnDisconnected_def split_beta)

lemma FgProcessDied_sim:
  assumes inv: "fg_inv s" and e: "e = FgProcessDied p"
  shows "fg_sim e s (fg_handle asObject e s)"
proof (cases "p \<le> 0")
  case True
  then show ?thesis using inv by (simp add: fg_sim_def e ProcessRemovePidConnection_def)
next
  case False
  let ?s = "fg_handle asObject e s" and ?hit = "\<lambda>i. fi_callerPid i = p \<or> fi_targetPid i = p"
  let ?es = "filter (\<lambda>e. ?hit (snd e)) (fg_pidMap s)"
  note om = fg_invD(1) [OF inv]
  have run: "fg_pidMap ?s = filter (\<lambda>e. \<not> ?hit (snd e)) (fg_pidMap s)"
    "fg_reported ?s = fg_reported s @ map (\<lambda>e. FgDisconnected (fg_GenerateConnectionData (snd e))) ?es"
    using False processLoop_eq [of p "fg_pidMap s" s] by (simp_all add: e ProcessRemovePidConnection_def split_beta)
  have find: "omap_find (fg_pidMap ?s) k = (case omap_find (fg_pidMap s) k of None \<Rightarrow> None | Some i \<Rightarrow> if ?hit i then None else Some i)" for k
    using omap_find_filter [OF om, of "\<lambda>i. \<not> ?hit i" k] by (auto simp: run(1) split: option.splits)
  have "fg_inv ?s" using inv omap_inv_filter [OF om] by (auto simp: fg_inv_def find split: option.splits if_splits) (simp add: run(1))
  moreover have "fg_abs ?s = fg_next e (fg_abs s)"
  proof
    fix k :: "int \<times> int"
    obtain c t where k: "k = (c, t)" by (cases k)
    show "fg_abs ?s k = fg_next e (fg_abs s) k"
    proof (cases "omap_find (fg_pidMap s) (pidKey c t)")
      case None
      then show ?thesis using find [of "pidKey c t"] by (simp add: k fg_abs_at e)
    next
      case (Some i)
      then show ?thesis using fg_invD(2) [OF inv Some] False find [of "pidKey c t"] by (simp add: k fg_abs_at e)
    qed
  qed
  moreover have "mset (map (\<lambda>e. FgDisconnected (fg_GenerateConnectionData (snd e))) ?es) = fg_due e (fg_abs s)"
  proof -
    let ?ks = "map (\<lambda>e. (fi_callerPid (snd e), fi_targetPid (snd e))) ?es"
    have key: "fst x = pidKey (fi_callerPid (snd x)) (fi_targetPid (snd x))" if "x \<in> set (fg_pidMap s)" for x
      using fg_invD(2) [OF inv, of "fst x" "snd x"] omap_find_iff [OF om] that by (cases x) auto
    have abs: "fg_abs s (fi_callerPid (snd x), fi_targetPid (snd x)) = Some (fg_GenerateConnectionData (snd x), set (fi_abilityRecordIds (snd x)))"
      if "x \<in> set (fg_pidMap s)" for x
      using omap_find_iff [OF om, of "fst x" "snd x"] key [OF that] that by (cases x) (simp add: fg_abs_at)
    have "distinct (map fst ?es)" using omap_inv_distinct [OF om] by (rule distinct_map_filter)
    moreover have "map fst ?es = map (\<lambda>(c, t). pidKey c t) ?ks" using key by auto
    ultimately have "distinct (map (\<lambda>(c, t). pidKey c t) ?ks)" by (simp only:)
    then have d: "distinct ?ks" unfolding distinct_map by (rule conjunct1)
    have "set ?ks = {k. p > 0 \<and> (fst k = p \<or> snd k = p) \<and> fg_abs s k \<noteq> None}"
    proof (intro set_eqI iffI)
      fix k assume "k \<in> {k. p > 0 \<and> (fst k = p \<or> snd k = p) \<and> fg_abs s k \<noteq> None}"
      then obtain i where "omap_find (fg_pidMap s) (pidKey (fst k) (snd k)) = Some i" "fst k = p \<or> snd k = p"
        by (cases k) (auto simp: fg_abs_at)
      then show "k \<in> set ?ks" using fg_invD(2) [OF inv] omap_find_in_set by (cases k) (fastforce simp: image_iff)
    qed (use False abs in auto)
    then have ms: "mset_set {k. p > 0 \<and> (fst k = p \<or> snd k = p) \<and> fg_abs s k \<noteq> None} = mset ?ks" using mset_set_set [OF d] by simp
    have ev: "map (\<lambda>k. FgDisconnected (fst (the (fg_abs s k)))) ?ks = map (\<lambda>e. FgDisconnected (fg_GenerateConnectionData (snd e))) ?es"
      using abs by auto
    show ?thesis by (simp only: e fg_due.simps ms mset_map [symmetric] ev)
  qed
  ultimately show ?thesis using run(2) by (auto simp: fg_sim_def)
qed

lemma fg_handle_sim:
  assumes inv: "fg_inv s"
  shows "fg_sim e s (fg_handle asObject e s)"
proof -
  have quiet: "fg_sim e s s'" if "fg_pidMap s' = fg_pidMap s" "fg_next e (fg_abs s) = fg_abs s"
    "\<exists>new. fg_reported s' = fg_reported s @ new \<and> mset new = fg_due e (fg_abs s)" for s'
    using that inv by (simp add: fg_sim_def fg_inv_def fg_abs_def)
  have same: "fg_pidMap (fg_handle asObject e s) = fg_pidMap s" "fg_reported (fg_handle asObject e s) = fg_reported s"
    if "(\<exists>ob. e = FgRegister ob) \<or> (\<exists>ob. e = FgUnregister ob) \<or> (\<exists>obj. e = FgObserverDied obj)"
    using that by (auto simp: fg_RegisterObserver_def fg_UnregisterObserver_def fg_HandleRemoteDied_def)
  show ?thesis
  proof (cases e)
    case (FgStarted p u b)
    then show ?thesis by (intro quiet) (simp_all add: OnCallerStarted_def)
  next
    case (FgRegister ob)
    then show ?thesis using same by (intro quiet) (simp_all del: fg_handle.simps)
  next
    case (FgUnregister ob)
    then show ?thesis using same by (intro quiet) (simp_all del: fg_handle.simps)
  next
    case (FgObserverDied obj)
    then show ?thesis using same by (intro quiet) (simp_all del: fg_handle.simps)
  qed (blast intro: FgAdd_sim [OF inv] FgRemove_sim [OF inv] FgProcessDied_sim [OF inv])+
qed

interpretation fg: reporting "fg_handle asObject" fg_reported fg_abs fg_next fg_due "\<lambda>_ _. True" fg_inv for asObject
  by unfold_locales (use fg_handle_sim in \<open>auto simp: fg_sim_def\<close>)

interpretation fgo: callback_list asObject "\<lambda>ob. asObject ob \<noteq> None" "\<lambda>ob s. snd (fg_RegisterObserver asObject (Some ob) s)"
  "\<lambda>ob s. snd (fg_UnregisterObserver asObject (Some ob) s)" "\<lambda>obj. fg_HandleRemoteDied asObject (Some obj)" fg_observers for asObject
  by unfold_locales (auto simp: fg_RegisterObserver_def fg_UnregisterObserver_def fg_HandleRemoteDied_def list_ex_iff)


section \<open>All calls\<close>

definition fg_none :: fg_spec where
  "fg_none = (\<lambda>_. None)"

lemma fg_new: "fg_inv newForegroundAppConnectionManager" "fg_abs newForegroundAppConnectionManager = fg_none"
  by (simp_all add: newForegroundAppConnectionManager_def fg_inv_def fg_abs_def fg_none_def fun_eq_iff)

lemma all_ok_True: "all_ok (\<lambda>_ _. True) nxt es a"
  by (induction es arbitrary: a) simp_all

lemmas fg_run = fg.run_refines [OF fg_new(1) all_ok_True, unfolded fg_new(2)]

text \<open>C24: Over any sequence of calls a pair of processes is reported connected with its first ability record and
  disconnected with its last or with the death of either process, and never else.\<close>

theorem foreground_reports_exact:
  "fg_abs (fold (fg_handle asObject) es newForegroundAppConnectionManager) = fold fg_next es fg_none \<and>
   map mset (trace (fg_handle asObject) fg_reported es newForegroundAppConnectionManager) = expected fg_next fg_due es fg_none"
  using fg_run [of asObject es] by blast




end
