(* ===== verification/Connect_Manager.thy ===== *)
theory Connect_Manager
  imports Connection_State Ability_Cache
begin

text \<open>
  The connections between clients and service extensions: \<open>services/abilitymgr/src/ability_connect_manager.cpp\<close> (as
  \<open>CommonExtensionManager\<close> runs it), \<open>connection_record.cpp\<close> and the connection list of \<open>extension_record/base_extension_record.cpp\<close>.

  A client connects a callback object to an extension.  The manager makes a connection record, keeps it in a list
  per callback (\<open>connectMap_\<close>) and in the list of the extension (\<open>connRecordList_\<close>), loads the extension when it has to, and
  moves the record through \<open>CONNECTING\<close>, \<open>CONNECTED\<close>, \<open>DISCONNECTING\<close>, \<open>DISCONNECTED\<close> as calls and answers arrive.

  \<^item> Connection records and extension records are addresses of two heaps; an address is also the record id.  The part
    of an extension record that the cache of idle extensions reads is its \<open>ext_record\<close> there (\<open>Ability_Cache\<close>), the rest is
    a \<open>service\<close>.  A token is the address of the record it was made for.  A callback is its remote object.
  \<^item> The connection states that observers see (\<open>Connection_State\<close>) are part of the state: \<open>CompleteConnect\<close> and
    \<open>CompleteDisconnect\<close> tell them.
  \<^item> Calls to other processes, submitted tasks and restarts of resident extensions are entries of \<open>am_out\<close>; what a task does
    later is a call of its own, as are the answers of extensions and all timeouts.  The one task whose
    cancellation matters, the delayed disconnection, is kept in \<open>am_delay\<close>.
  \<^item> What other services and the configuration answer during a call is the record \<open>ca_env\<close> of that call.
  \<^item> The handlers run under \<open>serialMutex_\<close>, one at a time; what some of them read just before they take it
    (\<open>CleanActivatingTimeoutAbility\<close> the list of connections, \<open>HandleCallBackDiedTask\<close> the map) is read in the same step here.  The handlers of tasks and events are present.  The target of a
    connection record is never null: the only call that makes one passes a tested pointer.
\<close>

section \<open>Data\<close>

datatype connection_state = INIT | CONNECTING | CONNECTED | DISCONNECTING | DISCONNECTED

text \<open>The parameters of a want that are read here; the others are \<open>wt_rest\<close>.\<close>

record ca_want =
  wt_element :: string
  wt_hostProxy :: "nat option"
  wt_connectorProxy :: "nat option"
  wt_agentId :: "string option"
  wt_cardType :: "int option"
  wt_nonce :: "int option"
  wt_frsIndex :: "int option"
  wt_callerAppId :: "nat option"
  wt_rest :: nat

record conn_rec =
  cn_state :: connection_state
  cn_callerToken :: "nat option"
  cn_targetService :: nat
  cn_connCallback :: "nat option"
  cn_connectWant :: ca_want
  cn_pending :: "(ca_want \<times> nat option) list"
  cn_callerTokenId :: int
  cn_callerUid :: int
  cn_callerPid :: int
  cn_callerName :: string
  cn_directCallerTokenId :: int
  cn_directCallerUid :: int
  cn_directCallerPid :: int
  cn_directCallerName :: string

record service =
  sv_type :: ability_type
  sv_extType :: extension_type
  sv_state :: ability_state
  sv_connRecordList :: "nat list"
  sv_isConnected :: bool
  sv_connRemoteObject :: "nat option"
  sv_startId :: nat
  sv_createByConnect :: bool
  sv_want :: ca_want
  sv_connectWant :: "ca_want option"
  sv_requestId :: string
  sv_sessionInfo :: "nat option"
  sv_clientPid :: int
  sv_appIndex :: int
  sv_ownerMissionUserId :: int
  sv_isSystemApp :: bool
  sv_isTerminating :: bool  \<comment> \<open>\<open>isTerminating_\<close>: no code of this component sets it\<close>

record ca_request =
  rq_want :: ca_want
  rq_deviceId :: string
  rq_bundleName :: string
  rq_moduleName :: string
  rq_abilityName :: string
  rq_type :: ability_type
  rq_extType :: extension_type
  rq_instanceKey :: "string option"  \<comment> \<open>of an application with several instances\<close>
  rq_cloneIndex :: int
  rq_appIndex :: int
  rq_accessTokenId :: int
  rq_uid :: int
  rq_isSystemApp :: bool
  rq_sessionInfo :: "nat option"
  rq_uiConnectInfo :: bool

datatype ca_out =
    LoadAbilityOut nat
  | LifecycleConnect nat
  | LifecycleDisconnect nat
  | LifecycleCommand nat
  | LifecycleTerminate nat
  | ConnectDone nat nat nat
  | LowCodeDone nat nat nat
  | AgentInvoked nat string
  | DisconnectDone nat "nat option" int
  | ScheduleDisconnect nat
  | TerminateAbilityOut nat
  | AttachTimeOut nat
  | RestartAbilityOut nat
  | KeepAbilityAliveOut nat
  | KillProcessesByUserId
  | MoveToBackgroundOut nat
  | CompleteForegroundTask nat
  | CompleteBackgroundTask nat

record ca_mgr =
  am_conn :: "nat \<Rightarrow> conn_rec"
  am_nextConn :: nat
  am_svc :: "nat \<Rightarrow> service"
  am_nextSvc :: nat
  am_cache :: ability_cache
  am_connectMap :: "(nat, nat list) omap"
  am_recipientMap :: "nat list"
  am_windowExt :: "(nat, int \<times> nat) omap"
  am_counts :: "(int, int) omap"
  am_serviceMap :: "(string, nat) omap"
  am_terminating :: "nat list"
  am_startReqs :: "(string, ca_request list) omap"
  am_delay :: "nat list"
  am_cs :: connection_mgr
  am_userId :: int
  am_out :: "ca_out list"

record ca_env =
  ev_callingTokenId :: int
  ev_selfTokenId :: int
  ev_callingUid :: int
  ev_callingPid :: int
  ev_callerRecord :: "(int \<times> int \<times> string) option"  \<comment> \<open>uid, pid and bundle of the ability of the caller token\<close>
  ev_GetURI :: "string \<Rightarrow> string \<Rightarrow> string \<Rightarrow> string \<Rightarrow> string"
  ev_IsSupportAppClone :: "extension_type \<Rightarrow> bool"
  ev_IsUIExtension :: "extension_type \<Rightarrow> bool"
  ev_IsCacheExtension :: "extension_type \<Rightarrow> string \<Rightarrow> string \<Rightarrow> bool"
  ev_IsForbidStart :: bool
  ev_CheckMultiInstanceKey :: int
  ev_GetProcessRunningInfos :: int
  ev_VerifyAgentDisconnect :: "nat \<Rightarrow> int"
  ev_ApplyIdentity :: "nat \<Rightarrow> int"
  ev_AutoDisconnect :: "extension_type \<Rightarrow> bool"
  ev_GetRequestId :: string
  ev_SetupNewRecord :: int
  ev_CanRestartRootLauncher :: "nat \<Rightarrow> bool"
  ev_IsKeepAliveBundle :: "nat \<Rightarrow> bool"
  ev_IsForegroundUser :: bool

definition CONNECTION_NOT_EXIST :: int where "CONNECTION_NOT_EXIST = 2097161"
definition INVALID_CONNECTION_STATE :: int where "INVALID_CONNECTION_STATE = 2097162"
definition CA_INNER_ERR :: int where "CA_INNER_ERR = 2097167"
definition ERR_INVALID_VALUE :: int where "ERR_INVALID_VALUE = 22"
definition ERR_CONNECT_MANAGER_NULL_ABILITY_RECORD :: int where "ERR_CONNECT_MANAGER_NULL_ABILITY_RECORD = 2098001"
definition ERR_MOE_CONNECTION_LIMIT :: int where "ERR_MOE_CONNECTION_LIMIT = 2099415"
definition ERR_MOE_INSTANCE_LIMIT :: int where "ERR_MOE_INSTANCE_LIMIT = 2099416"
definition LOW_CODE :: int where "LOW_CODE = 2"

definition updConn :: "nat \<Rightarrow> (conn_rec \<Rightarrow> conn_rec) \<Rightarrow> ca_mgr \<Rightarrow> ca_mgr" where
  "updConn r f s = s\<lparr>am_conn := (am_conn s)(r := f (am_conn s r))\<rparr>"

definition updSvc :: "nat \<Rightarrow> (service \<Rightarrow> service) \<Rightarrow> ca_mgr \<Rightarrow> ca_mgr" where
  "updSvc sid f s = s\<lparr>am_svc := (am_svc s)(sid := f (am_svc s sid))\<rparr>"

definition emit :: "ca_out \<Rightarrow> ca_mgr \<Rightarrow> ca_mgr" where
  "emit out s = s\<lparr>am_out := am_out s @ [out]\<rparr>"

definition SetConnectState :: "connection_state \<Rightarrow> nat \<Rightarrow> ca_mgr \<Rightarrow> ca_mgr" where
  "SetConnectState st r = updConn r (\<lambda>c. c\<lparr>cn_state := st\<rparr>)"

definition stateOf :: "ca_mgr \<Rightarrow> nat \<Rightarrow> connection_state" where
  "stateOf s r = cn_state (am_conn s r)"

definition targetOf :: "ca_mgr \<Rightarrow> nat \<Rightarrow> nat" where
  "targetOf s r = cn_targetService (am_conn s r)"

definition listOf :: "ca_mgr \<Rightarrow> nat \<Rightarrow> nat list" where
  "listOf s sid = sv_connRecordList (am_svc s sid)"

definition infoOf :: "ca_mgr \<Rightarrow> nat \<Rightarrow> ext_record" where
  "infoOf s sid = ac_rec (am_cache s) sid"

definition isPerConnectionType :: "extension_type \<Rightarrow> bool" where
  "isPerConnectionType t \<longleftrightarrow> t = EXT_UI_SERVICE \<or> t = EXT_AGENT"



section \<open>The connection list of an extension\<close>

definition AddConnectRecordToList :: "nat \<Rightarrow> nat \<Rightarrow> ca_mgr \<Rightarrow> ca_mgr" where
  "AddConnectRecordToList r sid s =
     (if r \<in> set (listOf s sid) then s else updSvc sid (\<lambda>v. v\<lparr>sv_connRecordList := sv_connRecordList v @ [r]\<rparr>) s)"

definition RemoveConnectRecordFromList :: "nat \<Rightarrow> nat \<Rightarrow> ca_mgr \<Rightarrow> ca_mgr" where
  "RemoveConnectRecordFromList r sid s =
     updSvc sid (\<lambda>v. let l = removeAll r (sv_connRecordList v)
                     in v\<lparr>sv_connRecordList := l, sv_isConnected := (if l = [] then False else sv_isConnected v)\<rparr>) s"

definition GetConnectingRecordList :: "nat \<Rightarrow> ca_mgr \<Rightarrow> nat list" where
  "GetConnectingRecordList sid s = filter (\<lambda>r. stateOf s r = CONNECTING) (listOf s sid)"

definition GetConnectingRecord :: "nat \<Rightarrow> ca_mgr \<Rightarrow> nat option" where
  "GetConnectingRecord sid s = find (\<lambda>r. stateOf s r = CONNECTING) (listOf s sid)"

definition GetDisconnectingRecord :: "nat \<Rightarrow> ca_mgr \<Rightarrow> nat option" where
  "GetDisconnectingRecord sid s = find (\<lambda>r. stateOf s r = DISCONNECTING) (listOf s sid)"

definition GetConnectedListSize :: "nat \<Rightarrow> ca_mgr \<Rightarrow> nat" where
  "GetConnectedListSize sid s = length (filter (\<lambda>r. stateOf s r = CONNECTED) (listOf s sid))"

definition GetConnectingListSize :: "nat \<Rightarrow> ca_mgr \<Rightarrow> nat" where
  "GetConnectingListSize sid s = length (GetConnectingRecordList sid s)"

definition GetInProgressRecordCount :: "nat \<Rightarrow> ca_mgr \<Rightarrow> nat" where
  "GetInProgressRecordCount sid s = length (filter (\<lambda>r. stateOf s r = CONNECTING \<or> stateOf s r = CONNECTED) (listOf s sid))"

definition NeedConnectAfterCommand :: "nat \<Rightarrow> ca_mgr \<Rightarrow> bool" where
  "NeedConnectAfterCommand sid s \<longleftrightarrow> listOf s sid \<noteq> [] \<and> \<not> sv_isConnected (am_svc s sid)"

definition svc_DisconnectAbility :: "nat \<Rightarrow> ca_mgr \<Rightarrow> ca_mgr" where
  "svc_DisconnectAbility sid s =
     (let s = emit (LifecycleDisconnect sid) s
      in if \<not> isPerConnectionType (sv_extType (am_svc s sid)) \<or> GetInProgressRecordCount sid s = 0
         then updSvc sid (\<lambda>v. v\<lparr>sv_isConnected := False\<rparr>) s else s)"

definition DisconnectAbilityWithWant :: "nat \<Rightarrow> ca_mgr \<Rightarrow> ca_mgr" where
  "DisconnectAbilityWithWant sid s =
     (let s = emit (LifecycleDisconnect sid) s
      in if GetInProgressRecordCount sid s = 0 then updSvc sid (\<lambda>v. v\<lparr>sv_isConnected := False\<rparr>) s else s)"

definition ConnectAbilityWithWant :: "nat \<Rightarrow> ca_mgr \<Rightarrow> ca_mgr" where
  "ConnectAbilityWithWant sid s = updSvc sid (\<lambda>v. v\<lparr>sv_isConnected := True\<rparr>) (emit (LifecycleConnect sid) s)"

section \<open>Connection records\<close>

text \<open>What the connection states read of a record.\<close>

definition asConnectionRecord :: "ca_mgr \<Rightarrow> nat \<Rightarrow> connection_record" where
  "asConnectionRecord s r =
     (let c = am_conn s r; sid = cn_targetService c; i = infoOf s sid; v = am_svc s sid
      in \<lparr>cr_callerUid = cn_callerUid c, cr_callerPid = cn_callerPid c, cr_callerName = cn_callerName c,
          cr_targetService = Some \<lparr>tr_token = er_token i, tr_pid = er_pid i, tr_uid = er_uid i, tr_bundleName = er_bundleName i,
            tr_moduleName = er_moduleName i, tr_name = er_abilityName i, tr_extensionAbilityType = sv_extType v,
            tr_type = sv_type v, tr_appIndex = sv_appIndex v, tr_ownerMissionUserId = sv_ownerMissionUserId v\<rparr>,
          cr_connection = cn_connCallback c\<rparr>)"

definition IsLowCodeAgentWant :: "nat \<Rightarrow> ca_want \<Rightarrow> ca_mgr \<Rightarrow> bool" where
  "IsLowCodeAgentWant r want s \<longleftrightarrow> sv_extType (am_svc s (targetOf s r)) = EXT_AGENT \<and> wt_cardType want = Some LOW_CODE"

definition SetConnectWant :: "nat \<Rightarrow> ca_want \<Rightarrow> ca_mgr \<Rightarrow> ca_mgr" where
  "SetConnectWant r want s =
     updConn r (\<lambda>c. c\<lparr>cn_connectWant := (if IsLowCodeAgentWant r want s then want\<lparr>wt_nonce := None\<rparr> else want)\<rparr>) s"

definition DisconnectAbility :: "nat \<Rightarrow> ca_mgr \<Rightarrow> int \<times> ca_mgr" where
  "DisconnectAbility r s =
     (if stateOf s r \<noteq> CONNECTED then (INVALID_CONNECTION_STATE, s)
      else let s = SetConnectState DISCONNECTING r s; sid = targetOf s r; per = isPerConnectionType (sv_extType (am_svc s sid))
           in if length (listOf s sid) = 1 \<or> per
              then (ERR_OK, if per then DisconnectAbilityWithWant sid s else svc_DisconnectAbility sid s)
              else (ERR_OK, SetConnectState DISCONNECTED r (RemoveConnectRecordFromList r sid s)))"

definition CompleteConnect :: "nat \<Rightarrow> ca_mgr \<Rightarrow> ca_mgr" where
  "CompleteConnect r s =
     (let s = SetConnectState CONNECTED r s; sid = targetOf s r;
          s = updSvc sid (\<lambda>v. v\<lparr>sv_state := ACTIVE\<rparr>) s
      in case sv_connRemoteObject (am_svc s sid) of
           None \<Rightarrow> emit (ScheduleDisconnect sid) (SetConnectState DISCONNECTING r s)
         | Some remoteObject \<Rightarrow>
             let s = (case cn_connCallback (am_conn s r) of None \<Rightarrow> s | Some callback \<Rightarrow> emit (ConnectDone r callback remoteObject) s)
             in s\<lparr>am_cs := csm_AddConnection (Some (asConnectionRecord s r)) (am_cs s)\<rparr>)"

definition CompleteConnectAndOnlyCallConnectDone :: "nat \<Rightarrow> ca_mgr \<Rightarrow> ca_mgr" where
  "CompleteConnectAndOnlyCallConnectDone r s =
     (if stateOf s r \<noteq> CONNECTED then s
      else case sv_connRemoteObject (am_svc s (targetOf s r)) of
             None \<Rightarrow> s
           | Some remoteObject \<Rightarrow>
               (case cn_connCallback (am_conn s r) of None \<Rightarrow> s | Some callback \<Rightarrow> emit (ConnectDone r callback remoteObject) s))"

definition NotifyLowCodeAgentInvoked :: "nat \<Rightarrow> nat option \<Rightarrow> ca_want \<Rightarrow> ca_mgr \<Rightarrow> ca_mgr" where
  "NotifyLowCodeAgentInvoked r remoteObject want s =
     (if \<not> IsLowCodeAgentWant r want s \<or> \<not> sv_isSystemApp (am_svc s (targetOf s r)) then s
      else case (wt_agentId want, remoteObject) of
             (Some agentId, Some receiver) \<Rightarrow> if agentId = [] then s else emit (AgentInvoked receiver agentId) s
           | _ \<Rightarrow> s)"

definition CompleteLowCodeAgentInvocation :: "nat \<Rightarrow> ca_want \<Rightarrow> nat option \<Rightarrow> ca_mgr \<Rightarrow> ca_mgr" where
  "CompleteLowCodeAgentInvocation r want callback s =
     (case sv_connRemoteObject (am_svc s (targetOf s r)) of
        None \<Rightarrow> s
      | Some remoteObject \<Rightarrow>
          let s = NotifyLowCodeAgentInvoked r (Some remoteObject) want s
          in case callback of None \<Rightarrow> s | Some cb \<Rightarrow> emit (LowCodeDone r cb remoteObject) s)"

definition QueueLowCodeAgentInvocation :: "nat \<Rightarrow> ca_want \<Rightarrow> nat option \<Rightarrow> ca_mgr \<Rightarrow> ca_mgr" where
  "QueueLowCodeAgentInvocation r want callback s =
     (if \<not> IsLowCodeAgentWant r want s then s
      else if stateOf s r = CONNECTED then CompleteLowCodeAgentInvocation r want callback s
      else if stateOf s r \<noteq> CONNECTING then s
      else updConn r (\<lambda>c. c\<lparr>cn_pending := cn_pending c @ [(want, callback)]\<rparr>) s)"

definition FlushPendingLowCodeAgentInvocations :: "nat \<Rightarrow> ca_mgr \<Rightarrow> ca_mgr" where
  "FlushPendingLowCodeAgentInvocations r s =
     fold (\<lambda>(want, callback). CompleteLowCodeAgentInvocation r want callback) (cn_pending (am_conn s r))
       (updConn r (\<lambda>c. c\<lparr>cn_pending := []\<rparr>) s)"

text \<open>The want of a record once its connection is done: only what a later disconnection needs.\<close>

definition strippedWant :: "nat \<Rightarrow> ca_mgr \<Rightarrow> ca_want" where
  "strippedWant r s =
     (let w = cn_connectWant (am_conn s r)
      in \<lparr>wt_element = wt_element w, wt_hostProxy = wt_hostProxy w, wt_connectorProxy = wt_connectorProxy w,
          wt_agentId = (if wt_agentId w = Some [] then None else wt_agentId w), wt_cardType = wt_cardType w,
          wt_nonce = (if IsLowCodeAgentWant r w s then None else wt_nonce w), wt_frsIndex = None, wt_callerAppId = None, wt_rest = 0\<rparr>)"

definition ScheduleConnectAbilityDone :: "nat \<Rightarrow> ca_mgr \<Rightarrow> ca_mgr" where
  "ScheduleConnectAbilityDone r s =
     (if stateOf s r \<noteq> CONNECTING then s
      else let s = updConn r (\<lambda>c. c\<lparr>cn_connectWant := strippedWant r s\<rparr>) s;
               s = NotifyLowCodeAgentInvoked r (sv_connRemoteObject (am_svc s (targetOf s r))) (cn_connectWant (am_conn s r)) s;
               s = CompleteConnect r s
           in if stateOf s r = CONNECTED then FlushPendingLowCodeAgentInvocations r s else s)"

definition CompleteDisconnect :: "int \<Rightarrow> bool \<Rightarrow> bool \<Rightarrow> nat \<Rightarrow> ca_mgr \<Rightarrow> ca_mgr" where
  "CompleteDisconnect resultCode isCallerDied isTargetDied r s =
     (let s = (if resultCode = ERR_OK then SetConnectState DISCONNECTED r s else s);
          s = emit (DisconnectDone r (cn_connCallback (am_conn s r)) (if isTargetDied then resultCode - 1 else resultCode)) s
      in s\<lparr>am_cs := csm_RemoveConnection (Some (asConnectionRecord s r)) isCallerDied (am_cs s)\<rparr>)"

definition rec_ScheduleDisconnectAbilityDone :: "nat \<Rightarrow> ca_mgr \<Rightarrow> ca_mgr" where
  "rec_ScheduleDisconnectAbilityDone r s =
     (if stateOf s r \<noteq> DISCONNECTING then s else CompleteDisconnect ERR_OK (cn_connCallback (am_conn s r) = None) False r s)"

definition SuspendExtensionAbility :: "nat \<Rightarrow> ca_mgr \<Rightarrow> int \<times> ca_mgr" where
  "SuspendExtensionAbility r s =
     (if stateOf s r \<noteq> CONNECTED then (INVALID_CONNECTION_STATE, s)
      else (ERR_OK, s\<lparr>am_cs := csm_SuspendConnection (Some (asConnectionRecord s r)) (am_cs s)\<rparr>))"

definition ResumeExtensionAbility :: "nat \<Rightarrow> ca_mgr \<Rightarrow> int \<times> ca_mgr" where
  "ResumeExtensionAbility r s =
     (if stateOf s r \<noteq> CONNECTED then (INVALID_CONNECTION_STATE, s)
      else (ERR_OK, s\<lparr>am_cs := csm_ResumeConnection (Some (asConnectionRecord s r)) (am_cs s)\<rparr>))"

text \<open>The new record: \<open>AttachCallerInfo\<close> fills in the direct caller and, where a service connects for another process, that one.\<close>

definition SetDirectCallerInfo :: "ca_env \<Rightarrow> conn_rec \<Rightarrow> conn_rec" where
  "SetDirectCallerInfo ev c =
     (case ev_callerRecord ev of
        Some (uid, pid, bundleName) \<Rightarrow>
          c\<lparr>cn_directCallerTokenId := ev_callingTokenId ev, cn_directCallerUid := uid, cn_directCallerPid := pid, cn_directCallerName := bundleName\<rparr>
      | None \<Rightarrow>
          c\<lparr>cn_directCallerTokenId := ev_callingTokenId ev, cn_directCallerUid := ev_callingUid ev,
            cn_directCallerPid := ev_callingPid ev, cn_directCallerName := to_string (ev_callingPid ev)\<rparr>)"

definition AttachCallerInfo :: "ca_env \<Rightarrow> (int \<times> int \<times> int) option \<Rightarrow> conn_rec \<Rightarrow> conn_rec" where
  "AttachCallerInfo ev indirectCallerInfo c =
     (let c = SetDirectCallerInfo ev c
      in case indirectCallerInfo of
           Some (tokenId, uid, pid) \<Rightarrow>
             c\<lparr>cn_callerTokenId := tokenId, cn_callerUid := uid, cn_callerPid := pid, cn_callerName := to_string pid\<rparr>
         | None \<Rightarrow>
             c\<lparr>cn_callerTokenId := cn_directCallerTokenId c, cn_callerUid := cn_directCallerUid c,
               cn_callerPid := cn_directCallerPid c, cn_callerName := cn_directCallerName c\<rparr>)"

definition emptyWant :: ca_want where
  "emptyWant = \<lparr>wt_element = [], wt_hostProxy = None, wt_connectorProxy = None, wt_agentId = None, wt_cardType = None,
     wt_nonce = None, wt_frsIndex = None, wt_callerAppId = None, wt_rest = 0\<rparr>"

definition newConnectionRecord :: "nat option \<Rightarrow> nat \<Rightarrow> nat \<Rightarrow> conn_rec" where
  "newConnectionRecord callerToken targetService connCallback =
     \<lparr>cn_state = INIT, cn_callerToken = callerToken, cn_targetService = targetService, cn_connCallback = Some connCallback,
      cn_connectWant = emptyWant, cn_pending = [], cn_callerTokenId = 0, cn_callerUid = 0, cn_callerPid = 0, cn_callerName = [],
      cn_directCallerTokenId = 0, cn_directCallerUid = 0, cn_directCallerPid = 0, cn_directCallerName = []\<rparr>"


section \<open>The maps of the manager\<close>

definition GetConnectRecordListFromMap :: "nat \<Rightarrow> ca_mgr \<Rightarrow> nat list" where
  "GetConnectRecordListFromMap connect s = (case omap_find (am_connectMap s) connect of None \<Rightarrow> [] | Some l \<Rightarrow> l)"

definition HandleConnectionCountIncrement :: "int \<Rightarrow> ca_mgr \<Rightarrow> ca_mgr" where
  "HandleConnectionCountIncrement pid s = s\<lparr>am_counts := omap_put pid (omap_at 0 pid (am_counts s) + 1) (am_counts s)\<rparr>"

definition DecrementConnectionCountAndCleanup :: "int \<Rightarrow> ca_mgr \<Rightarrow> ca_mgr" where
  "DecrementConnectionCountAndCleanup pid s =
     (case omap_find (am_counts s) pid of
        None \<Rightarrow> s
      | Some n \<Rightarrow> let currentCount = n - 1
                  in if currentCount = 0 then s\<lparr>am_counts := omap_erase pid (am_counts s)\<rparr>
                     else s\<lparr>am_counts := omap_put pid currentCount (am_counts s)\<rparr>)"

definition AddConnectDeathRecipient :: "nat \<Rightarrow> ca_mgr \<Rightarrow> ca_mgr" where
  "AddConnectDeathRecipient connectObject s =
     (if connectObject \<in> set (am_recipientMap s) then s else s\<lparr>am_recipientMap := connectObject # am_recipientMap s\<rparr>)"

definition RemoveConnectDeathRecipient :: "nat \<Rightarrow> ca_mgr \<Rightarrow> ca_mgr" where
  "RemoveConnectDeathRecipient connectObject s = s\<lparr>am_recipientMap := removeAll connectObject (am_recipientMap s)\<rparr>"

definition AddConnectObjectToMap :: "nat \<Rightarrow> nat list \<Rightarrow> bool \<Rightarrow> ca_mgr \<Rightarrow> ca_mgr" where
  "AddConnectObjectToMap connectObject connectRecordList updateOnly s =
     (let s = (if updateOnly then s else AddConnectDeathRecipient connectObject s)
      in s\<lparr>am_connectMap := omap_put connectObject connectRecordList (am_connectMap s)\<rparr>)"

definition RemoveConnectionRecordFromMap :: "nat \<Rightarrow> ca_mgr \<Rightarrow> ca_mgr" where
  "RemoveConnectionRecordFromMap connection s =
     (case find (\<lambda>e. connection \<in> set (snd e)) (am_connectMap s) of
        None \<Rightarrow> s
      | Some (object, connectList) \<Rightarrow>
          let connectList = removeAll connection connectList;
              s = s\<lparr>am_connectMap := omap_put object connectList (am_connectMap s)\<rparr>;
              s = DecrementConnectionCountAndCleanup (cn_directCallerPid (am_conn s connection)) s
          in if connectList = []
             then let s = RemoveConnectDeathRecipient object s in s\<lparr>am_connectMap := omap_erase object (am_connectMap s)\<rparr>
             else s)"

definition GetAbilityConnectedRecordFromRecordList :: "nat \<Rightarrow> nat list \<Rightarrow> ca_mgr \<Rightarrow> nat option" where
  "GetAbilityConnectedRecordFromRecordList sid connectRecordList s =
     find (\<lambda>r. targetOf s r = sid \<and>
       (sv_extType (am_svc s sid) \<noteq> EXT_AGENT \<or> (stateOf s r \<noteq> DISCONNECTING \<and> stateOf s r \<noteq> DISCONNECTED))) connectRecordList"

definition GenerateBundleName :: "ca_env \<Rightarrow> ca_request \<Rightarrow> string" where
  "GenerateBundleName ev rq =
     (case rq_instanceKey rq of
        Some key \<Rightarrow> rq_bundleName rq @ CHR ''-'' # key
      | None \<Rightarrow> if ev_IsSupportAppClone ev (rq_extType rq) \<and> rq_cloneIndex rq > 0
                then to_string (rq_cloneIndex rq) @ rq_bundleName rq else rq_bundleName rq)"

definition elementURI :: "ca_env \<Rightarrow> ca_request \<Rightarrow> string" where
  "elementURI ev rq = ev_GetURI ev (rq_deviceId rq) (GenerateBundleName ev rq) (rq_abilityName rq) (rq_moduleName rq)"

definition GetServiceKeyOfRequest :: "ca_env \<Rightarrow> ca_request \<Rightarrow> string" where
  "GetServiceKeyOfRequest ev rq =
     (let serviceKey = elementURI ev rq; w = rq_want rq
      in if rq_bundleName rq = FRS_BUNDLE_NAME then serviceKey @ to_string (case wt_frsIndex w of None \<Rightarrow> 0 | Some i \<Rightarrow> i)
         else if rq_extType rq = EXT_AGENT \<and> wt_cardType w \<noteq> Some LOW_CODE
         then serviceKey @ (case wt_agentId w of None \<Rightarrow> [] | Some a \<Rightarrow> a)
         else if rq_extType rq = EXT_MODULAR_OBJECT then serviceKey @ CHR ''_'' # ev_GetRequestId ev
         else serviceKey)"

definition GetServiceKey :: "ca_mgr \<Rightarrow> nat \<Rightarrow> string" where
  "GetServiceKey s sid =
     (let i = infoOf s sid; v = am_svc s sid; serviceKey = er_uri i; w = sv_want v
      in if er_bundleName i = FRS_BUNDLE_NAME then serviceKey @ to_string (case wt_frsIndex w of None \<Rightarrow> 0 | Some i \<Rightarrow> i)
         else if sv_extType v = EXT_AGENT \<and> wt_cardType w \<noteq> Some LOW_CODE
         then serviceKey @ (case wt_agentId w of None \<Rightarrow> [] | Some a \<Rightarrow> a)
         else if sv_extType v = EXT_MODULAR_OBJECT \<and> sv_requestId v \<noteq> [] then serviceKey @ CHR ''_'' # sv_requestId v
         else serviceKey)"

definition AddToServiceMap :: "string \<Rightarrow> nat \<Rightarrow> ca_mgr \<Rightarrow> ca_mgr" where
  "AddToServiceMap key sid s =
     (if omap_find (am_serviceMap s) key = None then s\<lparr>am_serviceMap := omap_put key sid (am_serviceMap s)\<rparr> else s)"

definition RemoveServiceFromMapSafe :: "string \<Rightarrow> ca_mgr \<Rightarrow> ca_mgr" where
  "RemoveServiceFromMapSafe serviceKey s = s\<lparr>am_serviceMap := omap_erase serviceKey (am_serviceMap s)\<rparr>"

definition RemoveServiceAbility :: "nat \<Rightarrow> ca_mgr \<Rightarrow> ca_mgr" where
  "RemoveServiceAbility sid s = s\<lparr>am_terminating := removeAll sid (am_terminating s)\<rparr>"

definition GetExtensionByTokenFromServiceMap :: "nat \<Rightarrow> ca_mgr \<Rightarrow> nat option" where
  "GetExtensionByTokenFromServiceMap token s = find (\<lambda>sid. er_token (infoOf s sid) = Some token) (map snd (am_serviceMap s))"

definition GetExtensionByIdFromServiceMap :: "int \<Rightarrow> ca_mgr \<Rightarrow> nat option" where
  "GetExtensionByIdFromServiceMap abilityRecordId s =
     find (\<lambda>sid. er_recordId (infoOf s sid) = abilityRecordId) (map snd (am_serviceMap s))"

definition GetExtensionByTokenFromTerminatingMap :: "nat \<Rightarrow> ca_mgr \<Rightarrow> nat option" where
  "GetExtensionByTokenFromTerminatingMap token s = find (\<lambda>sid. er_token (infoOf s sid) = Some token) (am_terminating s)"

definition GetAbilityRecordByToken :: "nat \<Rightarrow> ca_mgr \<Rightarrow> nat option" where
  "GetAbilityRecordByToken token s = (if token < am_nextSvc s then Some token else None)"

definition MoveToTerminatingMap :: "nat \<Rightarrow> ca_mgr \<Rightarrow> ca_mgr" where
  "MoveToTerminatingMap sid s =
     (let s = s\<lparr>am_terminating := am_terminating s @ [sid]\<rparr>; serviceKey = GetServiceKey s sid;
          s = (if omap_find (am_serviceMap s) serviceKey = Some sid
               then s\<lparr>am_serviceMap := omap_erase serviceKey (am_serviceMap s)\<rparr> else s)
      in s\<lparr>am_cache := ac_Remove (Some sid) (am_cache s)\<rparr>)"

section \<open>Extensions\<close>

definition IsSpecialAbility :: "string \<Rightarrow> string \<Rightarrow> bool" where
  "IsSpecialAbility bundleName name \<longleftrightarrow>
     (bundleName, name) \<in> {(''com.ohos.sceneboard'', ''com.ohos.sceneboard.MainAbility''),
       (''com.ohos.systemui'', ''com.ohos.systemui.ServiceExtAbility''), (''com.ohos.launcher'', ''com.ohos.launcher.MainAbility'')}"

definition IsSceneBoard :: "nat \<Rightarrow> ca_mgr \<Rightarrow> bool" where
  "IsSceneBoard sid s \<longleftrightarrow> er_bundleName (infoOf s sid) = ''com.ohos.sceneboard'' \<and>
     er_abilityName (infoOf s sid) = ''com.ohos.sceneboard.MainAbility''"

definition IsNeverStarted :: "ca_env \<Rightarrow> nat \<Rightarrow> ca_mgr \<Rightarrow> bool" where
  "IsNeverStarted ev sid s \<longleftrightarrow> sv_startId (am_svc s sid) = 0 \<and>
     (ev_IsUIExtension ev (sv_extType (am_svc s sid)) \<or> sv_createByConnect (am_svc s sid))"

definition IsAbilityNeedKeepAlive :: "ca_env \<Rightarrow> nat \<Rightarrow> ca_mgr \<Rightarrow> bool" where
  "IsAbilityNeedKeepAlive ev sid s \<longleftrightarrow>
     IsSpecialAbility (er_bundleName (infoOf s sid)) (er_abilityName (infoOf s sid)) \<or> ev_IsKeepAliveBundle ev sid"

definition IsCacheExtensionAbility :: "ca_env \<Rightarrow> nat \<Rightarrow> ca_mgr \<Rightarrow> bool" where
  "IsCacheExtensionAbility ev sid s \<longleftrightarrow>
     ev_IsCacheExtension ev (sv_extType (am_svc s sid)) (er_bundleName (infoOf s sid)) (er_abilityName (infoOf s sid))"

definition svc_Terminate :: "nat \<Rightarrow> ca_mgr \<Rightarrow> ca_mgr" where
  "svc_Terminate sid s = emit (LifecycleTerminate sid) (updSvc sid (\<lambda>v. v\<lparr>sv_state := TERMINATING\<rparr>) s)"

definition TerminateRecord :: "nat \<Rightarrow> ca_mgr \<Rightarrow> ca_mgr" where
  "TerminateRecord sid s =
     (if GetExtensionByIdFromServiceMap (er_recordId (infoOf s sid)) s = None \<and>
         FindRecordByToken (er_token (infoOf s sid)) (am_cache s) = None then s
      else svc_Terminate sid (MoveToTerminatingMap sid s))"

definition ProcessEliminateAbilityRecord :: "nat \<Rightarrow> ca_mgr \<Rightarrow> ca_mgr" where
  "ProcessEliminateAbilityRecord sid s = TerminateRecord sid (AddToServiceMap (GetServiceKey s sid) sid s)"

definition TerminateOrCacheAbility :: "ca_env \<Rightarrow> nat \<Rightarrow> ca_mgr \<Rightarrow> ca_mgr cpp" where
  "TerminateOrCacheAbility ev sid s =
     (if IsSceneBoard sid s then Inr s
      else if IsCacheExtensionAbility ev sid s
      then let s = RemoveServiceFromMapSafe (GetServiceKey s sid) s
           in cpp_bind (Put (Some sid) (am_cache s)) (\<lambda>(eliminateRecord, c).
                let s = s\<lparr>am_cache := c\<rparr>
                in Inr (case eliminateRecord of None \<Rightarrow> s | Some old \<Rightarrow> ProcessEliminateAbilityRecord old s))
      else Inr (TerminateRecord sid s))"

definition SetWant :: "nat \<Rightarrow> ca_want \<Rightarrow> ca_mgr \<Rightarrow> ca_mgr" where
  "SetWant sid want s = updSvc sid (\<lambda>v. v\<lparr>sv_want := want\<rparr>) s"

definition SaveConnectWant :: "nat \<Rightarrow> ca_want \<Rightarrow> ca_mgr \<Rightarrow> ca_mgr" where
  "SaveConnectWant sid want s = (if sv_connectWant (am_svc s sid) = None then updSvc sid (\<lambda>v. v\<lparr>sv_connectWant := Some want\<rparr>) s else s)"

definition UpdateConnectWant :: "nat \<Rightarrow> ca_mgr \<Rightarrow> ca_mgr" where
  "UpdateConnectWant sid s = (case sv_connectWant (am_svc s sid) of None \<Rightarrow> s | Some want \<Rightarrow> SetWant sid want s)"

definition RemoveConnectWant :: "nat \<Rightarrow> ca_mgr \<Rightarrow> ca_mgr" where
  "RemoveConnectWant sid s = updSvc sid (\<lambda>v. v\<lparr>sv_connectWant := None\<rparr>) s"

definition RemoveSignatureInfo :: "nat \<Rightarrow> ca_mgr \<Rightarrow> ca_mgr" where
  "RemoveSignatureInfo sid s = updSvc sid (\<lambda>v. v\<lparr>sv_want := (sv_want v)\<lparr>wt_callerAppId := None\<rparr>\<rparr>) s"

text \<open>Where the extension comes from: the map, the cache, or a new record.\<close>

definition afterLastUnderscore :: "string \<Rightarrow> string" where
  "afterLastUnderscore str = (if CHR ''_'' \<in> set str then rev (takeWhile (\<lambda>c. c \<noteq> CHR ''_'') (rev str)) else [])"

definition recordURI :: "ca_env \<Rightarrow> ca_request \<Rightarrow> string" where
  "recordURI ev rq =
     ev_GetURI ev (rq_deviceId rq)
       (case rq_instanceKey rq of
          Some key \<Rightarrow> rq_bundleName rq @ CHR ''-'' # key
        | None \<Rightarrow> if ev_IsSupportAppClone ev (rq_extType rq) \<and> rq_appIndex rq > 0
                  then to_string (rq_appIndex rq) @ rq_bundleName rq else rq_bundleName rq)
       (rq_abilityName rq) (rq_moduleName rq)"

definition CreateBaseExtensionRecord :: "ca_env \<Rightarrow> ca_request \<Rightarrow> bool \<Rightarrow> ca_mgr \<Rightarrow> nat \<times> ca_mgr" where
  "CreateBaseExtensionRecord ev rq isCreatedByConnect s =
     (let sid = am_nextSvc s;
          info = \<lparr>er_recordId = int sid, er_tokenId = rq_accessTokenId rq, er_moduleName = rq_moduleName rq,
            er_abilityName = rq_abilityName rq, er_bundleName = rq_bundleName rq, er_appBundleName = rq_bundleName rq,
            er_uri = recordURI ev rq, er_frsIndex = (case wt_frsIndex (rq_want rq) of None \<Rightarrow> 0 | Some i \<Rightarrow> i), er_sessionId = [],
            er_token = Some sid, er_uid = rq_uid rq, er_pid = 0,
            er_instanceKey = (case rq_instanceKey rq of None \<Rightarrow> [] | Some key \<Rightarrow> key), er_restartApp = False\<rparr>;
          v = \<lparr>sv_type = rq_type rq, sv_extType = rq_extType rq, sv_state = INITIAL, sv_connRecordList = [], sv_isConnected = False,
            sv_connRemoteObject = None, sv_startId = 0, sv_createByConnect = isCreatedByConnect, sv_want = rq_want rq,
            sv_connectWant = None, sv_requestId = [], sv_sessionInfo = None, sv_clientPid = -1, sv_appIndex = rq_appIndex rq,
            sv_ownerMissionUserId = am_userId s, sv_isSystemApp = rq_isSystemApp rq,
            sv_isTerminating = False\<rparr>
      in (sid, s\<lparr>am_nextSvc := Suc sid, am_svc := (am_svc s)(sid := v),
               am_cache := (am_cache s)\<lparr>ac_rec := (ac_rec (am_cache s))(sid := info)\<rparr>\<rparr>))"

definition HandleExtensionSetup :: "ca_env \<Rightarrow> ca_request \<Rightarrow> nat \<Rightarrow> string \<Rightarrow> ca_mgr \<Rightarrow> int \<times> ca_mgr" where
  "HandleExtensionSetup ev rq sid serviceKey s =
     (if rq_extType rq \<noteq> EXT_MODULAR_OBJECT then (ERR_OK, s)
      else if ev_SetupNewRecord ev \<noteq> ERR_OK then (ev_SetupNewRecord ev, s)
      else (ERR_OK, if CHR ''_'' \<in> set serviceKey
                    then updSvc sid (\<lambda>v. v\<lparr>sv_requestId := afterLastUnderscore serviceKey\<rparr>) s else s))"

definition cachedService :: "ca_env \<Rightarrow> ca_request \<Rightarrow> string \<Rightarrow> ca_mgr \<Rightarrow> nat option \<times> ca_mgr" where
  "cachedService ev rq serviceKey s =
     (if \<not> ev_IsCacheExtension ev (rq_extType rq) (rq_bundleName rq) (rq_abilityName rq) then (None, s)
      else let (rec, c) = ac_Get \<lparr>cr_tokenId = rq_accessTokenId rq, cr_moduleName = rq_moduleName rq, cr_abilityName = rq_abilityName rq\<rparr> (am_cache s);
               s = s\<lparr>am_cache := c\<rparr>
           in (rec, case rec of None \<Rightarrow> s | Some t \<Rightarrow> AddToServiceMap serviceKey t s))"

definition GetOrCreateServiceRecord :: "ca_env \<Rightarrow> ca_request \<Rightarrow> bool \<Rightarrow> ca_mgr \<Rightarrow> (nat option \<times> bool) \<times> ca_mgr" where
  "GetOrCreateServiceRecord ev rq isCreatedByConnect s =
     (let noReuse = (rq_extType rq = EXT_WINDOW); serviceKey = GetServiceKeyOfRequest ev rq;
          (t, s) = (case omap_find (am_serviceMap s) serviceKey of
                      Some t \<Rightarrow> (Some t, s) | None \<Rightarrow> cachedService ev rq serviceKey s);
          (t, s) = (case t of
                      Some x \<Rightarrow> if rq_extType rq = EXT_AGENT \<and> sv_state (am_svc s x) = TERMINATING
                                then let s = RemoveServiceFromMapSafe serviceKey s in (None, s\<lparr>am_cache := ac_Remove (Some x) (am_cache s)\<rparr>)
                                else (Some x, s)
                    | None \<Rightarrow> (None, s));
          s = (if noReuse \<and> t \<noteq> None then RemoveServiceFromMapSafe serviceKey s else s)
      in if noReuse \<or> t = None
         then let (sid, s) = CreateBaseExtensionRecord ev rq isCreatedByConnect s;
                  (setupRet, s) = HandleExtensionSetup ev rq sid serviceKey s
              in if setupRet \<noteq> ERR_OK then ((None, False), s) else ((Some sid, False), AddToServiceMap serviceKey sid s)
         else ((t, True), s))"


section \<open>Starting and connecting\<close>

definition svc_SetPid :: "nat \<Rightarrow> int \<Rightarrow> ca_mgr \<Rightarrow> ca_mgr" where
  "svc_SetPid sid pid s =
     s\<lparr>am_cache := (am_cache s)\<lparr>ac_rec := (ac_rec (am_cache s))(sid := (infoOf s sid)\<lparr>er_pid := pid\<rparr>)\<rparr>\<rparr>"

definition LoadAbility :: "ca_env \<Rightarrow> nat \<Rightarrow> ca_mgr \<Rightarrow> ca_mgr" where
  "LoadAbility ev sid s =
     (if \<not> ev_CanRestartRootLauncher ev sid then RemoveServiceAbility sid s
      else if sv_createByConnect (am_svc s sid) \<and> GetConnectingRecord sid s = None then s
      else emit (LoadAbilityOut sid) s)"

definition CommandAbility :: "nat \<Rightarrow> ca_mgr \<Rightarrow> ca_mgr" where
  "CommandAbility sid s = emit (LifecycleCommand sid) (updSvc sid (\<lambda>v. v\<lparr>sv_startId := Suc (sv_startId v)\<rparr>) s)"

definition ResumeConnectAbility :: "nat \<Rightarrow> ca_mgr \<Rightarrow> ca_mgr" where
  "ResumeConnectAbility sid s = fold (\<lambda>_. ConnectAbilityWithWant sid) (GetConnectingRecordList sid s) s"

definition ConnectAbility :: "nat \<Rightarrow> ca_mgr \<Rightarrow> ca_mgr" where
  "ConnectAbility sid s =
     (if isPerConnectionType (sv_extType (am_svc s sid)) then ResumeConnectAbility sid s else ConnectAbilityWithWant sid s)"

definition HandleActiveAbility :: "nat \<Rightarrow> nat \<Rightarrow> ca_mgr \<Rightarrow> ca_mgr" where
  "HandleActiveAbility sid r s =
     (if isPerConnectionType (sv_extType (am_svc s sid)) then RemoveSignatureInfo sid (ConnectAbilityWithWant sid s)
      else if GetConnectedListSize sid s \<ge> 1 then CompleteConnect r (RemoveSignatureInfo sid s)
      else if GetConnectingListSize sid s \<le> 1 then ConnectAbility sid s
      else s)"

definition XIAOYI_BUNDLE_NAME :: string where "XIAOYI_BUNDLE_NAME = ''com.hmos.vassistant''"

definition ReportXiaoYiToRSSIfNeeded :: "ca_env \<Rightarrow> ca_request \<Rightarrow> int" where
  "ReportXiaoYiToRSSIfNeeded ev rq =
     (if rq_type rq \<noteq> EXTENSION \<or> rq_extType rq \<noteq> EXT_SERVICE \<or> rq_bundleName rq \<noteq> XIAOYI_BUNDLE_NAME then ERR_OK
      else ev_GetProcessRunningInfos ev)"

definition MOE_MAX_INSTANCES :: nat where "MOE_MAX_INSTANCES = 20"
definition MOE_MAX_CONNECTIONS_PER_CALLER :: nat where "MOE_MAX_CONNECTIONS_PER_CALLER = 5"

definition CheckModularObjectLimits :: "ca_env \<Rightarrow> ca_request \<Rightarrow> ca_mgr \<Rightarrow> int" where
  "CheckModularObjectLimits ev rq s =
     (if rq_extType rq \<noteq> EXT_MODULAR_OBJECT then ERR_OK
      else let pre = elementURI ev rq @ ''_''; hits = filter (\<lambda>e. take (length pre) (fst e) = pre) (am_serviceMap s);
               connections = concat (map (\<lambda>e. listOf s (snd e)) hits);
               connectionCount = length (filter (\<lambda>r. cn_callerPid (am_conn s r) = ev_callingPid ev) connections)
           in if length hits \<ge> MOE_MAX_INSTANCES then ERR_MOE_INSTANCE_LIMIT
              else if connectionCount \<ge> MOE_MAX_CONNECTIONS_PER_CALLER then ERR_MOE_CONNECTION_LIMIT else ERR_OK)"

definition EnqueueStartServiceReq :: "ca_request \<Rightarrow> ca_mgr \<Rightarrow> ca_mgr" where
  "EnqueueStartServiceReq rq s =
     (let abilityUri = wt_element (rq_want rq)
      in s\<lparr>am_startReqs := omap_put abilityUri (omap_at [] abilityUri (am_startReqs s) @ [rq]) (am_startReqs s)\<rparr>)"

definition StartAbilityLocked :: "ca_env \<Rightarrow> ca_request \<Rightarrow> ca_mgr \<Rightarrow> int \<times> ca_mgr" where
  "StartAbilityLocked ev rq s =
     (if ev_IsForbidStart ev then (CA_INNER_ERR, s)
      else if ev_CheckMultiInstanceKey ev \<noteq> ERR_OK then (ERR_INVALID_VALUE, s)
      else case GetOrCreateServiceRecord ev rq False s of
             ((None, _), s) \<Rightarrow> (ERR_INVALID_VALUE, s)
           | ((Some sid, isLoadedAbility), s) \<Rightarrow>
               let s = updSvc sid (\<lambda>v. v\<lparr>sv_sessionInfo := rq_sessionInfo rq\<rparr>) s; ret = ReportXiaoYiToRSSIfNeeded ev rq
               in if ret \<noteq> ERR_OK then (ret, s)
                  else if \<not> isLoadedAbility then (ERR_OK, LoadAbility ev sid s)
                  else if sv_state (am_svc s sid) = ACTIVE then (ERR_OK, CommandAbility sid (SetWant sid (rq_want rq) s))
                  else (ERR_OK, EnqueueStartServiceReq rq s))"

definition CompleteStartServiceReq :: "ca_env \<Rightarrow> string \<Rightarrow> ca_mgr \<Rightarrow> ca_mgr" where
  "CompleteStartServiceReq ev serviceUri s =
     (case omap_find (am_startReqs s) serviceUri of
        None \<Rightarrow> s
      | Some reqList \<Rightarrow> fold (\<lambda>rq s. snd (StartAbilityLocked ev rq s)) reqList (s\<lparr>am_startReqs := omap_erase serviceUri (am_startReqs s)\<rparr>))"

definition CompleteCommandAbility :: "ca_env \<Rightarrow> nat \<Rightarrow> ca_mgr \<Rightarrow> ca_mgr" where
  "CompleteCommandAbility ev sid s =
     (let s = updSvc sid (\<lambda>v. v\<lparr>sv_state := ACTIVE\<rparr>) s;
          s = CompleteStartServiceReq ev (er_uri (infoOf s sid)) s
      in if NeedConnectAfterCommand sid s then ConnectAbility sid (UpdateConnectWant sid s) else s)"

definition ScheduleCommandAbilityDoneLocked :: "ca_env \<Rightarrow> nat \<Rightarrow> ca_mgr \<Rightarrow> int \<times> ca_mgr" where
  "ScheduleCommandAbilityDoneLocked ev token s =
     (case GetAbilityRecordByToken token s of
        None \<Rightarrow> (ERR_INVALID_VALUE, s)
      | Some sid \<Rightarrow>
          if sv_state (am_svc s sid) \<noteq> INACTIVE \<and> sv_state (am_svc s sid) \<noteq> ACTIVE then (INVALID_CONNECTION_STATE, s)
          else (ERR_OK, CompleteCommandAbility ev sid (RemoveSignatureInfo sid s)))"

definition ConnectAbilityLockedInner :: "ca_env \<Rightarrow> bool \<Rightarrow> nat \<Rightarrow> ca_request \<Rightarrow> nat \<Rightarrow> ca_mgr \<Rightarrow> ca_mgr" where
  "ConnectAbilityLockedInner ev isLoadedAbility sid rq r s =
     (if \<not> isLoadedAbility then LoadAbility ev sid s
      else if sv_state (am_svc s sid) = ACTIVE then HandleActiveAbility sid r (SetWant sid (rq_want rq) s)
      else SaveConnectWant sid (rq_want rq) s)"

text \<open>Step 4 of \<open>ConnectAbilityLocked\<close>: the new record enters both lists before anything can fail.\<close>

definition registerConnection ::
  "ca_env \<Rightarrow> ca_request \<Rightarrow> nat \<Rightarrow> nat option \<Rightarrow> nat option \<Rightarrow> (int \<times> int \<times> int) option \<Rightarrow> nat \<Rightarrow> ca_mgr \<Rightarrow> nat \<times> ca_mgr" where
  "registerConnection ev rq connect callerToken sessionInfo indirectCallerInfo sid s =
     (let r = am_nextConn s; connectRecordList = GetConnectRecordListFromMap connect s;
          c = (AttachCallerInfo ev indirectCallerInfo (newConnectionRecord callerToken sid connect))\<lparr>cn_state := CONNECTING\<rparr>;
          s = s\<lparr>am_nextConn := Suc r, am_conn := (am_conn s)(r := c)\<rparr>;
          extType = sv_extType (am_svc s sid);
          s = (if extType = EXT_MODULAR_OBJECT then updSvc sid (\<lambda>v. v\<lparr>sv_clientPid := cn_callerPid c\<rparr>) s else s);
          s = (if isPerConnectionType extType then SetConnectWant r (rq_want rq) s else s);
          s = AddConnectRecordToList r sid s;
          s = updSvc sid (\<lambda>v. v\<lparr>sv_sessionInfo := sessionInfo\<rparr>) s;
          s = AddConnectObjectToMap connect (connectRecordList @ [r]) (connectRecordList \<noteq> []) s;
          s = HandleConnectionCountIncrement (cn_directCallerPid c) s;
          s = (case rq_sessionInfo rq of
                 Some session \<Rightarrow>
                   if extType = EXT_WINDOW \<and> omap_find (am_windowExt s) connect = None
                   then s\<lparr>am_windowExt := omap_put connect (er_tokenId (infoOf s sid), session) (am_windowExt s)\<rparr> else s
               | None \<Rightarrow> s)
      in (r, s))"

definition reconnect :: "ca_request \<Rightarrow> nat \<Rightarrow> nat \<Rightarrow> ca_mgr \<Rightarrow> ca_mgr" where
  "reconnect rq connect r s =
     (if IsLowCodeAgentWant r (cn_connectWant (am_conn s r)) s \<and> wt_cardType (rq_want rq) = Some LOW_CODE
      then QueueLowCodeAgentInvocation r (rq_want rq) (Some connect) s
      else CompleteConnectAndOnlyCallConnectDone r s)"

definition ConnectAbilityLocked ::
  "ca_env \<Rightarrow> ca_request \<Rightarrow> nat option \<Rightarrow> nat option \<Rightarrow> nat option \<Rightarrow> (int \<times> int \<times> int) option \<Rightarrow> ca_mgr \<Rightarrow> (int \<times> ca_mgr) cpp" where
  "ConnectAbilityLocked ev rq connect callerToken sessionInfo indirectCallerInfo s =
     (case connect of
        None \<Rightarrow> Inr (ERR_INVALID_VALUE, s)
      | Some connect \<Rightarrow>
          let ret = CheckModularObjectLimits ev rq s in
          if ret \<noteq> ERR_OK then Inr (ret, s)
          else if ev_CheckMultiInstanceKey ev \<noteq> ERR_OK then Inr (ERR_INVALID_VALUE, s)
          else if ev_IsUIExtension ev (rq_extType rq) \<and> rq_uiConnectInfo rq then Inl NullDeref
          else case GetOrCreateServiceRecord ev rq True s of
                 ((None, _), s) \<Rightarrow> Inr (ERR_INVALID_VALUE, s)
               | ((Some sid, isLoadedAbility), s) \<Rightarrow>
                   (case (if isLoadedAbility then GetAbilityConnectedRecordFromRecordList sid (GetConnectRecordListFromMap connect s) s else None) of
                      Some connectedRecord \<Rightarrow> Inr (ERR_OK, reconnect rq connect connectedRecord s)
                    | None \<Rightarrow>
                        let (r, s) = registerConnection ev rq connect callerToken sessionInfo indirectCallerInfo sid s;
                            ret = ReportXiaoYiToRSSIfNeeded ev rq
                        in if ret \<noteq> ERR_OK then Inr (ret, s)
                           else Inr (ret, ConnectAbilityLockedInner ev isLoadedAbility sid rq r s)))"


section \<open>Answers of the extension\<close>

definition AttachAbilityThreadInner :: "nat \<Rightarrow> ca_mgr \<Rightarrow> int \<times> ca_mgr" where
  "AttachAbilityThreadInner token s =
     (case GetExtensionByTokenFromServiceMap token s of
        None \<Rightarrow> (ERR_INVALID_VALUE, s)
      | Some sid \<Rightarrow> (ERR_OK, updSvc sid (\<lambda>v. v\<lparr>sv_state := INACTIVATING\<rparr>) s))"

definition DispatchInactive :: "nat \<Rightarrow> ca_mgr \<Rightarrow> int \<times> ca_mgr" where
  "DispatchInactive sid s =
     (if sv_state (am_svc s sid) \<noteq> INACTIVATING then (ERR_INVALID_VALUE, s)
      else let s = updSvc sid (\<lambda>v. v\<lparr>sv_state := INACTIVE\<rparr>) s
           in (ERR_OK,
               if sv_createByConnect (am_svc s sid) then ConnectAbility sid s
               else let s = CommandAbility sid s
                    in if listOf s sid \<noteq> [] then ConnectAbility sid (UpdateConnectWant sid s) else s))"

definition TerminateDone :: "nat \<Rightarrow> ca_mgr \<Rightarrow> ca_mgr" where
  "TerminateDone sid s =
     (if sv_state (am_svc s sid) \<noteq> TERMINATING then s
      else let s = (if IsSceneBoard sid s then emit KillProcessesByUserId s else s)
           in RemoveServiceAbility sid (emit (TerminateAbilityOut sid) s))"

text \<open>The tasks that \<open>DispatchForeground\<close> and \<open>DispatchBackground\<close> submit are calls of their own, below.\<close>

definition DispatchForeground :: "nat \<Rightarrow> ca_mgr \<Rightarrow> int \<times> ca_mgr" where
  "DispatchForeground sid s = (ERR_OK, emit (CompleteForegroundTask sid) (RemoveSignatureInfo sid s))"

definition DispatchBackground :: "nat \<Rightarrow> ca_mgr \<Rightarrow> int \<times> ca_mgr" where
  "DispatchBackground sid s = (ERR_OK, emit (CompleteBackgroundTask sid) s)"

definition DispatchTerminate :: "nat \<Rightarrow> ca_mgr \<Rightarrow> int \<times> ca_mgr" where
  "DispatchTerminate sid s = (ERR_OK, TerminateDone sid s)"

definition AbilityTransitionDone :: "nat \<Rightarrow> ability_state \<Rightarrow> ca_mgr \<Rightarrow> int \<times> ca_mgr" where
  "AbilityTransitionDone token targetState s =
     (case (if targetState = INACTIVE then GetExtensionByTokenFromServiceMap token s
            else if targetState = FOREGROUND \<or> targetState = BACKGROUND
            then (case GetExtensionByTokenFromServiceMap token s of
                    Some sid \<Rightarrow> Some sid | None \<Rightarrow> GetExtensionByTokenFromTerminatingMap token s)
            else if targetState = INITIAL then GetExtensionByTokenFromTerminatingMap token s
            else None) of
        None \<Rightarrow> (ERR_INVALID_VALUE, s)
      | Some sid \<Rightarrow>
          (case targetState of
             INACTIVE \<Rightarrow> DispatchInactive sid s
           | FOREGROUND \<Rightarrow> DispatchForeground sid s
           | BACKGROUND \<Rightarrow> DispatchBackground sid s
           | INITIAL \<Rightarrow> DispatchTerminate sid s
           | _ \<Rightarrow> (ERR_INVALID_VALUE, s)))"

definition PostExtensionDelayDisconnectTask :: "ca_env \<Rightarrow> nat \<Rightarrow> ca_mgr \<Rightarrow> ca_mgr" where
  "PostExtensionDelayDisconnectTask ev r s =
     (if \<not> ev_AutoDisconnect ev (sv_extType (am_svc s (targetOf s r))) then s else s\<lparr>am_delay := List.insert r (am_delay s)\<rparr>)"

definition RemoveExtensionDelayDisconnectTask :: "nat \<Rightarrow> ca_mgr \<Rightarrow> ca_mgr" where
  "RemoveExtensionDelayDisconnectTask r s = s\<lparr>am_delay := removeAll r (am_delay s)\<rparr>"

fun connectDoneLoop :: "ca_env \<Rightarrow> bool \<Rightarrow> nat list \<Rightarrow> ca_mgr \<Rightarrow> ca_mgr" where
  "connectDoneLoop ev post [] s = s"
| "connectDoneLoop ev post (r # rs) s =
     (let s = ScheduleConnectAbilityDone r s
      in connectDoneLoop ev post rs (if post then PostExtensionDelayDisconnectTask ev r s else s))"

definition ScheduleConnectAbilityDoneLocked :: "ca_env \<Rightarrow> nat \<Rightarrow> nat option \<Rightarrow> ca_mgr \<Rightarrow> int \<times> ca_mgr" where
  "ScheduleConnectAbilityDoneLocked ev token remoteObject s =
     (case GetAbilityRecordByToken token s of
        None \<Rightarrow> (ERR_INVALID_VALUE, s)
      | Some sid \<Rightarrow>
          if sv_state (am_svc s sid) \<noteq> INACTIVE \<and> sv_state (am_svc s sid) \<noteq> ACTIVE then (INVALID_CONNECTION_STATE, s)
          else let s = RemoveSignatureInfo sid (RemoveConnectWant sid s);
                   s = updSvc sid (\<lambda>v. v\<lparr>sv_connRemoteObject := remoteObject\<rparr>) s;
                   v = am_svc s sid;
                   s = connectDoneLoop ev (sv_type v = EXTENSION \<and> sv_extType v \<noteq> EXT_SERVICE) (listOf s sid) s
               in (ERR_OK, CompleteStartServiceReq ev (er_uri (infoOf s sid)) s))"

definition CheckAbilityStateForDisconnect :: "nat \<Rightarrow> ca_mgr \<Rightarrow> int" where
  "CheckAbilityStateForDisconnect sid s =
     (let v = am_svc s sid
      in if sv_type v = EXTENSION \<and> sv_extType v = EXT_AGENT \<and> sv_state v = INACTIVE then ERR_OK
         else if sv_state v \<noteq> ACTIVE then INVALID_CONNECTION_STATE else ERR_OK)"

definition CleanupConnectionAndTerminateIfNeeded :: "ca_env \<Rightarrow> nat \<Rightarrow> ca_mgr \<Rightarrow> ca_mgr cpp" where
  "CleanupConnectionAndTerminateIfNeeded ev sid s =
     (if listOf s sid \<noteq> [] \<or> sv_startId (am_svc s sid) \<noteq> 0 then Inr s
      else if sv_extType (am_svc s sid) = EXT_UI_SERVICE then Inr s
      else TerminateOrCacheAbility ev sid s)"

definition ScheduleDisconnectAbilityDoneLocked :: "ca_env \<Rightarrow> nat \<Rightarrow> ca_mgr \<Rightarrow> (int \<times> ca_mgr) cpp" where
  "ScheduleDisconnectAbilityDoneLocked ev token s =
     (if ev_IsForbidStart ev then Inr (CA_INNER_ERR, s)
      else case GetExtensionByTokenFromServiceMap token s of
        None \<Rightarrow> Inr (CONNECTION_NOT_EXIST, s)
      | Some sid \<Rightarrow>
          (case GetDisconnectingRecord sid s of
             None \<Rightarrow> Inr (CONNECTION_NOT_EXIST, s)
           | Some connect \<Rightarrow>
               let ret = CheckAbilityStateForDisconnect sid s
               in if ret \<noteq> ERR_OK then Inr (ret, s)
                  else let s = RemoveConnectRecordFromList connect sid (rec_ScheduleDisconnectAbilityDone connect s)
                       in cpp_bind (CleanupConnectionAndTerminateIfNeeded ev sid s) (\<lambda>s.
                            Inr (ERR_OK, RemoveConnectionRecordFromMap connect s))))"

section \<open>Disconnecting\<close>

definition DisconnectRecordNormal :: "nat \<Rightarrow> bool \<Rightarrow> nat list \<Rightarrow> ca_mgr \<Rightarrow> int \<times> nat list \<times> ca_mgr" where
  "DisconnectRecordNormal r callerDied list s =
     (let (result, s) = DisconnectAbility r s
      in if result \<noteq> ERR_OK then (result, list, s)
         else if stateOf s r = DISCONNECTED then (ERR_OK, list @ [r], CompleteDisconnect ERR_OK callerDied False r s)
         else (ERR_OK, list, s))"

definition DisconnectRecordForce :: "ca_env \<Rightarrow> nat \<Rightarrow> nat list \<Rightarrow> ca_mgr \<Rightarrow> nat list \<times> ca_mgr" where
  "DisconnectRecordForce ev r list s =
     (let sid = targetOf s r;
          s = CompleteDisconnect ERR_OK True False r (RemoveConnectRecordFromList r sid s)
      in (list @ [r],
          if listOf s sid = [] \<and> \<not> isPerConnectionType (sv_extType (am_svc s sid))
          then if IsNeverStarted ev sid s then TerminateRecord sid s
               else if sv_state (am_svc s sid) = ACTIVE then svc_DisconnectAbility sid s
               else s
          else s))"

fun disconnectLoop :: "ca_env \<Rightarrow> bool \<Rightarrow> nat list \<Rightarrow> int \<Rightarrow> nat list \<Rightarrow> ca_mgr \<Rightarrow> int \<times> nat list \<times> ca_mgr" where
  "disconnectLoop ev callerDied [] result list s = (result, list, s)"
| "disconnectLoop ev callerDied (r # rs) result list s =
     (let v = am_svc s (targetOf s r);
          s = (if sv_type v = EXTENSION then RemoveExtensionDelayDisconnectTask r s else s);
          agent = (sv_extType v = EXT_AGENT);
          verified = (if ev_VerifyAgentDisconnect ev r \<noteq> ERR_OK then ev_VerifyAgentDisconnect ev r else ev_ApplyIdentity ev r)
      in if agent \<and> verified \<noteq> ERR_OK then (verified, list, s)
         else if \<not> agent \<and> cn_directCallerTokenId (am_conn s r) \<noteq> ev_callingTokenId ev \<and> ev_selfTokenId ev \<noteq> ev_callingTokenId ev
         then disconnectLoop ev callerDied rs result list s
         else let (result, list, s) = DisconnectRecordNormal r callerDied list s;
                  (result, list, s) = (if result \<noteq> ERR_OK \<and> callerDied
                                       then let (list, s) = DisconnectRecordForce ev r list s in (ERR_OK, list, s)
                                       else (result, list, s))
              in if result \<noteq> ERR_OK then (result, list, s) else disconnectLoop ev callerDied rs result list s)"

definition DisconnectAbilityLocked :: "ca_env \<Rightarrow> nat option \<Rightarrow> bool \<Rightarrow> ca_mgr \<Rightarrow> int \<times> ca_mgr" where
  "DisconnectAbilityLocked ev connect callerDied s =
     (let connectRecordList = (case connect of None \<Rightarrow> [] | Some c \<Rightarrow> GetConnectRecordListFromMap c s)
      in if connectRecordList = [] then (CONNECTION_NOT_EXIST, s)
         else let (result, list, s) = disconnectLoop ev callerDied connectRecordList ERR_OK [] s
              in (result, fold RemoveConnectionRecordFromMap list s))"

fun eachRecord :: "ca_env \<Rightarrow> (nat \<Rightarrow> ca_mgr \<Rightarrow> int \<times> ca_mgr) \<Rightarrow> nat list \<Rightarrow> int \<Rightarrow> ca_mgr \<Rightarrow> int \<times> ca_mgr" where
  "eachRecord ev f [] result s = (result, s)"
| "eachRecord ev f (r # rs) result s =
     (if cn_directCallerTokenId (am_conn s r) \<noteq> ev_callingTokenId ev \<and> ev_selfTokenId ev \<noteq> ev_callingTokenId ev
      then eachRecord ev f rs result s
      else let (result, s) = f r s in if result \<noteq> ERR_OK then (result, s) else eachRecord ev f rs result s)"

definition SuspendExtensionAbilityLocked :: "ca_env \<Rightarrow> nat option \<Rightarrow> ca_mgr \<Rightarrow> int \<times> ca_mgr" where
  "SuspendExtensionAbilityLocked ev connect s =
     (let connectRecordList = (case connect of None \<Rightarrow> [] | Some c \<Rightarrow> GetConnectRecordListFromMap c s)
      in if connectRecordList = [] then (CONNECTION_NOT_EXIST, s) else eachRecord ev SuspendExtensionAbility connectRecordList ERR_OK s)"

definition ResumeExtensionAbilityLocked :: "ca_env \<Rightarrow> nat option \<Rightarrow> ca_mgr \<Rightarrow> int \<times> ca_mgr" where
  "ResumeExtensionAbilityLocked ev connect s =
     (let connectRecordList = (case connect of None \<Rightarrow> [] | Some c \<Rightarrow> GetConnectRecordListFromMap c s)
      in if connectRecordList = [] then (CONNECTION_NOT_EXIST, s) else eachRecord ev ResumeExtensionAbility connectRecordList ERR_OK s)"

definition HandleExtensionDisconnectTask :: "nat \<Rightarrow> ca_mgr \<Rightarrow> ca_mgr" where
  "HandleExtensionDisconnectTask r s =
     (let (result, s) = DisconnectAbility r s
      in if stateOf s r = DISCONNECTED then RemoveConnectionRecordFromMap r (CompleteDisconnect ERR_OK False False r s) else s)"

definition clearCallbacks :: "nat list \<Rightarrow> ca_mgr \<Rightarrow> ca_mgr" where
  "clearCallbacks rs s = fold (\<lambda>r. updConn r (\<lambda>c. c\<lparr>cn_connCallback := None\<rparr>)) rs s"

definition HandleCallBackDiedTask :: "ca_env \<Rightarrow> nat \<Rightarrow> ca_mgr \<Rightarrow> ca_mgr" where
  "HandleCallBackDiedTask ev connect s =
     (let s = s\<lparr>am_windowExt := omap_erase connect (am_windowExt s)\<rparr>
      in case omap_find (am_connectMap s) connect of
           None \<Rightarrow> s
         | Some connectRecordList \<Rightarrow> snd (DisconnectAbilityLocked ev (Some connect) True (clearCallbacks connectRecordList s)))"

section \<open>Extensions that die, time out or stop\<close>

text \<open>The loops that complete every connection of an extension as if it had died.  They differ in whether they cancel the
  delayed disconnection.\<close>

fun dropLoop :: "bool \<Rightarrow> nat \<Rightarrow> nat list \<Rightarrow> ca_mgr \<Rightarrow> ca_mgr" where
  "dropLoop cancel sid [] s = s"
| "dropLoop cancel sid (r # rs) s =
     (let s = (if cancel then RemoveExtensionDelayDisconnectTask r s else s);
          s = CompleteDisconnect ERR_OK False True r s;
          s = RemoveConnectRecordFromList r sid s
      in dropLoop cancel sid rs (RemoveConnectionRecordFromMap r s))"

definition HandleConnectRecordOnAbilityDied :: "nat \<Rightarrow> ca_mgr \<Rightarrow> ca_mgr" where
  "HandleConnectRecordOnAbilityDied sid s =
     (let s = updSvc sid (\<lambda>v. v\<lparr>sv_connRemoteObject := None\<rparr>) s in dropLoop True sid (listOf s sid) s)"

definition HandleExtensionAbilityRemove :: "ca_env \<Rightarrow> nat \<Rightarrow> ca_mgr \<Rightarrow> bool \<times> ca_mgr" where
  "HandleExtensionAbilityRemove ev sid s =
     (if IsCacheExtensionAbility ev sid s \<and> FindRecordByToken (er_token (infoOf s sid)) (am_cache s) \<noteq> None
      then let s = s\<lparr>am_cache := ac_Remove (Some sid) (am_cache s)\<rparr> in (True, RemoveServiceAbility sid (MoveToTerminatingMap sid s))
      else if GetExtensionByIdFromServiceMap (er_recordId (infoOf s sid)) s \<noteq> None
      then (True, RemoveServiceAbility sid (MoveToTerminatingMap sid s))
      else (False, s))"

definition HandleAbilityDiedTask :: "ca_env \<Rightarrow> nat \<Rightarrow> ca_mgr \<Rightarrow> ca_mgr" where
  "HandleAbilityDiedTask ev sid s =
     (let s = HandleConnectRecordOnAbilityDied sid s; (isRemove, s) = HandleExtensionAbilityRemove ev sid s
      in if isRemove \<and> IsAbilityNeedKeepAlive ev sid s then emit (KeepAbilityAliveOut sid) s else s)"

definition HandleStartTimeoutTask :: "ca_env \<Rightarrow> nat \<Rightarrow> ca_mgr \<Rightarrow> ca_mgr" where
  "HandleStartTimeoutTask ev sid s =
     (let s = dropLoop False sid (GetConnectingRecordList sid s) s
      in if (case er_token (infoOf s sid) of None \<Rightarrow> None | Some t \<Rightarrow> GetExtensionByTokenFromServiceMap t s) = None then s
         else let s = emit (AttachTimeOut sid) (RemoveServiceAbility sid (MoveToTerminatingMap sid s))
              in if (if IsSceneBoard sid s then ev_IsForegroundUser ev else IsAbilityNeedKeepAlive ev sid s) then emit (RestartAbilityOut sid) s else s)"

definition HandleConnectTimeoutTask :: "nat \<Rightarrow> ca_mgr \<Rightarrow> ca_mgr" where
  "HandleConnectTimeoutTask sid s =
     (let s = dropLoop True sid (listOf s sid) s
      in if IsSpecialAbility (er_bundleName (infoOf s sid)) (er_abilityName (infoOf s sid)) \<or> sv_startId (am_svc s sid) \<noteq> 0 then s
         else TerminateRecord sid s)"

definition LAUNCHER_ABILITY_NAME :: string where "LAUNCHER_ABILITY_NAME = ''com.ohos.launcher.MainAbility''"

definition CleanActivatingTimeoutAbility :: "ca_env \<Rightarrow> nat \<Rightarrow> ca_mgr \<Rightarrow> ca_mgr" where
  "CleanActivatingTimeoutAbility ev sid s =
     (if sv_state (am_svc s sid) = ACTIVE then s
      else let s = TerminateRecord sid (dropLoop False sid (listOf s sid) s)
           in if IsAbilityNeedKeepAlive ev sid s \<and> (\<not> IsSceneBoard sid s \<or> ev_IsForegroundUser ev) then emit (RestartAbilityOut sid) s else s)"

definition HandleInactiveTimeout :: "ca_env \<Rightarrow> nat \<Rightarrow> ca_mgr \<Rightarrow> ca_mgr" where
  "HandleInactiveTimeout ev sid s =
     (if er_abilityName (infoOf s sid) = LAUNCHER_ABILITY_NAME then emit (AttachTimeOut sid) s else CleanActivatingTimeoutAbility ev sid s)"

definition HandleCommandTimeoutTask :: "ca_env \<Rightarrow> nat \<Rightarrow> ca_mgr \<Rightarrow> ca_mgr" where
  "HandleCommandTimeoutTask ev sid s =
     (if er_abilityName (infoOf s sid) = LAUNCHER_ABILITY_NAME then emit (AttachTimeOut sid) s else CleanActivatingTimeoutAbility ev sid s)"

definition CompleteForeground :: "ca_env \<Rightarrow> nat \<Rightarrow> ca_mgr \<Rightarrow> ca_mgr" where
  "CompleteForeground ev sid s =
     (if sv_state (am_svc s sid) \<noteq> FOREGROUNDING then s
      else let s = updSvc sid (\<lambda>v. v\<lparr>sv_state := FOREGROUND\<rparr>) s in CompleteStartServiceReq ev (er_uri (infoOf s sid)) s)"

definition HandleForegroundTimeoutTask :: "ca_env \<Rightarrow> nat \<Rightarrow> ca_mgr \<Rightarrow> ca_mgr" where
  "HandleForegroundTimeoutTask ev sid s =
     (let s = updSvc sid (\<lambda>v. v\<lparr>sv_state := BACKGROUND\<rparr>) s in CompleteStartServiceReq ev (er_uri (infoOf s sid)) s)"

datatype timeout_msg = LOAD_TIMEOUT_MSG | INACTIVE_TIMEOUT_MSG | FOREGROUND_TIMEOUT_MSG | CONNECT_TIMEOUT_MSG | OTHER_MSG nat

definition OnTimeOut :: "ca_env \<Rightarrow> timeout_msg \<Rightarrow> int \<Rightarrow> bool \<Rightarrow> ca_mgr \<Rightarrow> ca_mgr" where
  "OnTimeOut ev msgId abilityRecordId isHalf s =
     (case GetExtensionByIdFromServiceMap abilityRecordId s of
        None \<Rightarrow> s
      | Some sid \<Rightarrow>
          if isHalf then s
          else (case msgId of
                  LOAD_TIMEOUT_MSG \<Rightarrow> HandleStartTimeoutTask ev sid s
                | INACTIVE_TIMEOUT_MSG \<Rightarrow> HandleInactiveTimeout ev sid s
                | FOREGROUND_TIMEOUT_MSG \<Rightarrow> HandleForegroundTimeoutTask ev sid s
                | CONNECT_TIMEOUT_MSG \<Rightarrow> HandleConnectTimeoutTask sid s
                | OTHER_MSG _ \<Rightarrow> s))"

definition OnAbilityDied :: "ca_env \<Rightarrow> nat \<Rightarrow> ca_mgr \<Rightarrow> ca_mgr" where
  "OnAbilityDied ev sid s =
     (if sv_type (am_svc s sid) \<noteq> SERVICE \<and> sv_type (am_svc s sid) \<noteq> EXTENSION then s else HandleAbilityDiedTask ev sid s)"

definition TerminateAbilityLocked :: "nat \<Rightarrow> ca_mgr \<Rightarrow> int \<times> ca_mgr" where
  "TerminateAbilityLocked token s =
     (case GetExtensionByTokenFromTerminatingMap token s of
        None \<Rightarrow> (ERR_CONNECT_MANAGER_NULL_ABILITY_RECORD, s)
      | Some sid \<Rightarrow> if sv_isTerminating (am_svc s sid) then (ERR_OK, s) else (ERR_OK, svc_Terminate sid (dropLoop False sid (listOf s sid) s)))"

definition CompleteBackground :: "ca_env \<Rightarrow> nat \<Rightarrow> ca_mgr \<Rightarrow> ca_mgr" where
  "CompleteBackground ev sid s =
     (if sv_state (am_svc s sid) \<noteq> BACKGROUNDING then s
      else let s = emit (MoveToBackgroundOut sid) (updSvc sid (\<lambda>v. v\<lparr>sv_state := BACKGROUND\<rparr>) s);
               s = CompleteStartServiceReq ev (er_uri (infoOf s sid)) s
           in case er_token (infoOf s sid) of None \<Rightarrow> s | Some token \<Rightarrow> snd (TerminateAbilityLocked token s))"

definition TerminateAbility :: "nat \<Rightarrow> ca_mgr \<Rightarrow> int \<times> ca_mgr" where
  "TerminateAbility token s =
     (case (case GetExtensionByTokenFromServiceMap token s of Some sid \<Rightarrow> Some sid | None \<Rightarrow> FindRecordByToken (Some token) (am_cache s)) of
        None \<Rightarrow> (ERR_CONNECT_MANAGER_NULL_ABILITY_RECORD, s)
      | Some sid \<Rightarrow> TerminateAbilityLocked token (MoveToTerminatingMap sid s))"

definition StopServiceAbilityLocked :: "ca_env \<Rightarrow> ca_request \<Rightarrow> ca_mgr \<Rightarrow> int \<times> ca_mgr" where
  "StopServiceAbilityLocked ev rq s =
     (let serviceKey = GetServiceKeyOfRequest ev rq;
          (t, s) = (case omap_find (am_serviceMap s) serviceKey of
             Some t \<Rightarrow> (Some t, s)
           | None \<Rightarrow> let (rec, c) = ac_Get \<lparr>cr_tokenId = rq_accessTokenId rq, cr_moduleName = rq_moduleName rq, cr_abilityName = rq_abilityName rq\<rparr> (am_cache s);
                         s = s\<lparr>am_cache := c\<rparr>
                     in (rec, case rec of None \<Rightarrow> s | Some t \<Rightarrow> AddToServiceMap serviceKey t s))
      in case t of
           None \<Rightarrow> (ERR_INVALID_VALUE, s)
         | Some sid \<Rightarrow> if sv_isTerminating (am_svc s sid) then (ERR_OK, s) else (ERR_OK, TerminateRecord sid (dropLoop False sid (listOf s sid) s)))"

definition BASE_USER_RANGE :: int where "BASE_USER_RANGE = 200000"

definition userOfUid :: "int \<Rightarrow> int" where
  "userOfUid uid = (if uid \<ge> 0 then uid div BASE_USER_RANGE else - ((- uid) div BASE_USER_RANGE))"

fun cleanupLoop :: "nat list \<Rightarrow> ca_mgr \<Rightarrow> ca_mgr" where
  "cleanupLoop [] s = s"
| "cleanupLoop (sid # sids) s =
     cleanupLoop sids
       (if sv_type (am_svc s sid) \<noteq> SERVICE \<and> sv_type (am_svc s sid) \<noteq> EXTENSION then s
        else dropLoop True sid (filter (\<lambda>r. userOfUid (cn_directCallerUid (am_conn s r)) \<noteq> am_userId s) (listOf s sid)) s)"

definition DisconnectBeforeCleanup :: "ca_mgr \<Rightarrow> ca_mgr" where
  "DisconnectBeforeCleanup s = cleanupLoop (map snd (am_serviceMap s)) s"

section \<open>Calls\<close>

text \<open>Each call comes with what the services around it answer.  A handler is given a connection record or an extension that
  exists; other addresses stand for null pointers, on which it returns.\<close>

datatype ca_call =
    CaConnect ca_env ca_request "nat option" "nat option" "nat option" "(int \<times> int \<times> int) option"
  | CaDisconnect ca_env "nat option"
  | CaSuspend ca_env "nat option"
  | CaResume ca_env "nat option"
  | CaStart ca_env ca_request
  | CaStop ca_env ca_request
  | CaTerminate nat
  | CaSetPid nat int
  | CaAttach nat
  | CaTransition nat ability_state
  | CaConnectDone ca_env nat "nat option"
  | CaDisconnectDone ca_env nat
  | CaCommandDone ca_env nat
  | CaDelayedDisconnect nat
  | CaCallbackDied ca_env nat
  | CaAbilityDied ca_env nat
  | CaTimeOut ca_env timeout_msg int bool
  | CaLoadFailed ca_env nat
  | CaCommandTimeout ca_env nat
  | CaStartReqTimeout string
  | CaCompleteForeground ca_env nat
  | CaCompleteBackground ca_env nat
  | CaStopTimeout nat
  | CaCleanup

fun ca_handle :: "ca_call \<Rightarrow> ca_mgr \<Rightarrow> ca_mgr cpp" where
  "ca_handle (CaConnect ev rq connect callerToken session indirect) s =
     cpp_bind (ConnectAbilityLocked ev rq connect callerToken session indirect s) (\<lambda>(_, s). Inr s)"
| "ca_handle (CaDisconnect ev connect) s = Inr (snd (DisconnectAbilityLocked ev connect False s))"
| "ca_handle (CaSuspend ev connect) s = Inr (snd (SuspendExtensionAbilityLocked ev connect s))"
| "ca_handle (CaResume ev connect) s = Inr (snd (ResumeExtensionAbilityLocked ev connect s))"
| "ca_handle (CaStart ev rq) s = Inr (snd (StartAbilityLocked ev rq s))"
| "ca_handle (CaStop ev rq) s = Inr (snd (StopServiceAbilityLocked ev rq s))"
| "ca_handle (CaTerminate token) s = Inr (snd (TerminateAbility token s))"
| "ca_handle (CaSetPid sid pid) s = Inr (svc_SetPid sid pid s)"
| "ca_handle (CaAttach token) s = Inr (snd (AttachAbilityThreadInner token s))"
| "ca_handle (CaTransition token st) s = Inr (snd (AbilityTransitionDone token st s))"
| "ca_handle (CaConnectDone ev token remoteObject) s = Inr (snd (ScheduleConnectAbilityDoneLocked ev token remoteObject s))"
| "ca_handle (CaDisconnectDone ev token) s = cpp_bind (ScheduleDisconnectAbilityDoneLocked ev token s) (\<lambda>(_, s). Inr s)"
| "ca_handle (CaCommandDone ev token) s = Inr (snd (ScheduleCommandAbilityDoneLocked ev token s))"
| "ca_handle (CaDelayedDisconnect r) s =
     Inr (if r < am_nextConn s then HandleExtensionDisconnectTask r (RemoveExtensionDelayDisconnectTask r s) else s)"
| "ca_handle (CaCallbackDied ev connect) s = Inr (HandleCallBackDiedTask ev connect s)"
| "ca_handle (CaAbilityDied ev sid) s = Inr (if sid < am_nextSvc s then OnAbilityDied ev sid s else s)"
| "ca_handle (CaTimeOut ev msgId abilityRecordId isHalf) s = Inr (OnTimeOut ev msgId abilityRecordId isHalf s)"
| "ca_handle (CaLoadFailed ev sid) s = Inr (if sid < am_nextSvc s then HandleStartTimeoutTask ev sid s else s)"
| "ca_handle (CaCommandTimeout ev sid) s = Inr (if sid < am_nextSvc s then HandleCommandTimeoutTask ev sid s else s)"
| "ca_handle (CaStartReqTimeout abilityUri) s = Inr (s\<lparr>am_startReqs := omap_erase abilityUri (am_startReqs s)\<rparr>)"
| "ca_handle (CaCompleteForeground ev sid) s = Inr (if sid < am_nextSvc s then CompleteForeground ev sid s else s)"
| "ca_handle (CaCompleteBackground ev sid) s = Inr (if sid < am_nextSvc s then CompleteBackground ev sid s else s)"
| "ca_handle (CaStopTimeout sid) s = Inr (if sid < am_nextSvc s then TerminateDone sid s else s)"
| "ca_handle CaCleanup s = Inr (DisconnectBeforeCleanup s)"

fun ca_run :: "ca_call list \<Rightarrow> ca_mgr \<Rightarrow> ca_mgr cpp" where
  "ca_run [] s = Inr s"
| "ca_run (e # es) s = cpp_bind (ca_handle e s) (ca_run es)"


end
