(* ===== verification/Connect_Bookkeeping.thy ===== *)
theory Connect_Bookkeeping
  imports Connect_Manager
begin

text \<open>
  What holds of connections in every reachable state of the manager, whatever calls, answers, deaths and timeouts come in
  which order: the list per callback, the lists of the extensions, the counts per process and the watched
  callbacks describe the same set of connections; a connection only moves forward through its states; and
  its end is told once.

  A handler is a chain of steps that at most let a connection advance (\<open>adv\<close>), that end one (\<open>dropped\<close>) and that take
  it out of the map.  The invariant \<open>ca_inv T D\<close> is the state between such steps: \<open>D\<close> are the
  connections that have ended and are still in the map, \<open>T\<close> says whether the count of reports is part of it.
\<close>

section \<open>States are ordered\<close>

instantiation connection_state :: linorder
begin

fun rank_of :: "connection_state \<Rightarrow> nat" where
  "rank_of INIT = 0"
| "rank_of CONNECTING = 1"
| "rank_of CONNECTED = 2"
| "rank_of DISCONNECTING = 3"
| "rank_of DISCONNECTED = 4"

definition less_eq_connection_state :: "connection_state \<Rightarrow> connection_state \<Rightarrow> bool" where
  "a \<le> b \<longleftrightarrow> rank_of a \<le> rank_of b"

definition less_connection_state :: "connection_state \<Rightarrow> connection_state \<Rightarrow> bool" where
  "a < b \<longleftrightarrow> rank_of a < rank_of b"

instance
proof
  show "x \<le> y \<Longrightarrow> y \<le> x \<Longrightarrow> x = y" for x y :: connection_state
    by (cases x; cases y) (simp_all add: less_eq_connection_state_def)
qed (auto simp: less_eq_connection_state_def less_connection_state_def)

end

lemma DISCONNECTED_top [simp]: "st \<le> DISCONNECTED" "DISCONNECTED \<le> st \<longleftrightarrow> st = DISCONNECTED"
  by (cases st; simp add: less_eq_connection_state_def)+

lemma CONNECTING_le [simp]: "CONNECTING \<le> CONNECTED" "CONNECTING \<le> DISCONNECTING" "CONNECTED \<le> DISCONNECTING"
  by (simp_all add: less_eq_connection_state_def)


section \<open>What the invariant reads\<close>

definition pidOf :: "ca_mgr \<Rightarrow> nat \<Rightarrow> int" where
  "pidOf s r = cn_directCallerPid (am_conn s r)"

definition callbackOf :: "ca_mgr \<Rightarrow> nat \<Rightarrow> nat option" where
  "callbackOf s r = cn_connCallback (am_conn s r)"

definition tells :: "nat \<Rightarrow> ca_out \<Rightarrow> bool" where
  "tells r out = (case out of DisconnectDone q _ _ \<Rightarrow> q = r | _ \<Rightarrow> False)"

definition told :: "nat \<Rightarrow> ca_mgr \<Rightarrow> nat" where
  "told r s = length (filter (tells r) (am_out s))"

definition registered :: "ca_mgr \<Rightarrow> nat set" where
  "registered s = {r. \<exists>ob l. omap_find (am_connectMap s) ob = Some l \<and> r \<in> set l}"

definition live :: "ca_mgr \<Rightarrow> nat set" where
  "live s = {r. r < am_nextConn s \<and> stateOf s r \<noteq> DISCONNECTED}"

definition cached :: "ability_cache \<Rightarrow> nat set" where
  "cached c = set (ac_dev c) \<union> (\<Union>e\<in>set (ac_proc c). set (pi_recList (snd e)))"

definition services :: "ca_mgr \<Rightarrow> nat set" where
  "services s = set (map snd (am_serviceMap s)) \<union> cached (am_cache s)"

definition ca_inv :: "bool \<Rightarrow> nat set \<Rightarrow> ca_mgr \<Rightarrow> bool" where
  "ca_inv T D s \<longleftrightarrow>
     omap_inv (am_connectMap s) \<and> omap_inv (am_counts s) \<and>
     (\<forall>ob l. omap_find (am_connectMap s) ob = Some l \<longrightarrow> l \<noteq> [] \<and> distinct l \<and> (\<forall>r\<in>set l. callbackOf s r = None \<or> callbackOf s r = Some ob)) \<and>
     (\<forall>ob ob' l l' r. omap_find (am_connectMap s) ob = Some l \<longrightarrow> omap_find (am_connectMap s) ob' = Some l' \<longrightarrow> r \<in> set l \<longrightarrow> r \<in> set l' \<longrightarrow> ob = ob') \<and>
     registered s = live s \<union> D \<and> D \<subseteq> {r. r < am_nextConn s \<and> stateOf s r = DISCONNECTED} \<and>
     (\<forall>sid. distinct (listOf s sid) \<and> set (listOf s sid) = {r \<in> live s. targetOf s r = sid}) \<and>
     (\<forall>pid. omap_at 0 pid (am_counts s) = int (card {r \<in> registered s. pidOf s r = pid}) \<and> omap_find (am_counts s) pid \<noteq> Some 0) \<and>
     distinct (am_recipientMap s) \<and> set (am_recipientMap s) = {ob. omap_find (am_connectMap s) ob \<noteq> None} \<and>
     (\<forall>r < am_nextConn s. stateOf s r \<noteq> INIT \<and> targetOf s r < am_nextSvc s) \<and>
     services s \<subseteq> {..< am_nextSvc s} \<and>
     (T \<longrightarrow> (\<forall>r. told r s = (if r < am_nextConn s \<and> stateOf s r = DISCONNECTED then 1 else 0)))"

lemmas ca_reads = stateOf_def targetOf_def listOf_def infoOf_def pidOf_def callbackOf_def told_def services_def

definition moves :: "ca_mgr \<Rightarrow> ca_mgr \<Rightarrow> bool" where
  "moves s s' \<longleftrightarrow> am_nextConn s \<le> am_nextConn s' \<and> (\<forall>r < am_nextConn s. stateOf s r \<le> stateOf s' r)"

definition sameConnections :: "ca_mgr \<Rightarrow> ca_mgr \<Rightarrow> bool" where
  "sameConnections s s' \<longleftrightarrow> am_nextConn s' = am_nextConn s \<and> targetOf s' = targetOf s \<and> pidOf s' = pidOf s \<and>
     am_connectMap s' = am_connectMap s \<and> am_counts s' = am_counts s \<and> am_recipientMap s' = am_recipientMap s \<and>
     am_nextSvc s \<le> am_nextSvc s' \<and> services s' \<subseteq> services s \<union> {am_nextSvc s ..< am_nextSvc s'}"

definition adv :: "ca_mgr \<Rightarrow> ca_mgr \<Rightarrow> bool" where
  "adv s s' \<longleftrightarrow> sameConnections s s' \<and>
     (\<forall>r. stateOf s r \<le> stateOf s' r \<and> (stateOf s' r = DISCONNECTED \<longleftrightarrow> stateOf s r = DISCONNECTED)) \<and>
     (\<forall>r. callbackOf s' r = callbackOf s r \<or> callbackOf s' r = None) \<and>
     listOf s' = listOf s \<and> (\<forall>r. told r s' = told r s)"

definition dropped :: "nat \<Rightarrow> ca_mgr \<Rightarrow> ca_mgr \<Rightarrow> bool" where
  "dropped r s s' \<longleftrightarrow> sameConnections s s' \<and> stateOf s' = (stateOf s)(r := DISCONNECTED) \<and> callbackOf s' = callbackOf s \<and>
     listOf s' = (listOf s)(targetOf s r := removeAll r (listOf s (targetOf s r))) \<and>
     (\<forall>q. told q s' = told q s + (if q = r then 1 else 0))"

lemma moves_refl [simp]: "moves s s"
  by (simp add: moves_def)

lemma moves_trans: "moves s s' \<Longrightarrow> moves s' s'' \<Longrightarrow> moves s s''"
  unfolding moves_def by (meson order_trans less_le_trans)

lemma same_refl [simp]: "sameConnections s s"
  by (simp add: sameConnections_def)

lemma adv_refl [simp]: "adv s s"
  by (simp add: adv_def)

lemma same_trans: "sameConnections s s' \<Longrightarrow> sameConnections s' s'' \<Longrightarrow> sameConnections s s''"
  unfolding sameConnections_def by (auto simp: subset_iff)

lemma adv_trans [trans]: "adv s s' \<Longrightarrow> adv s' s'' \<Longrightarrow> adv s s''"
  unfolding adv_def by (metis order_trans same_trans)

lemma adv_fold: "(\<And>x s. x \<in> set xs \<Longrightarrow> adv s (f x s)) \<Longrightarrow> adv s (fold f xs s)"
  by (induction xs arbitrary: s) (auto intro: adv_trans)

lemma adv_moves: "adv s s' \<Longrightarrow> moves s s'"
  by (simp add: adv_def moves_def sameConnections_def)

lemma dropped_moves: "dropped r s s' \<Longrightarrow> moves s s'"
  by (simp add: dropped_def moves_def sameConnections_def)

lemma same_registered: "sameConnections s s' \<Longrightarrow> registered s' = registered s"
  by (simp add: sameConnections_def registered_def)

lemma same_services:
  assumes "services s \<subseteq> {..< am_nextSvc s}" "sameConnections s s'"
  shows "services s' \<subseteq> {..< am_nextSvc s'}"
proof
  fix x assume "x \<in> services s'"
  then have "x \<in> services s \<or> x < am_nextSvc s'" using assms(2) by (auto simp: sameConnections_def)
  then show "x \<in> {..< am_nextSvc s'}" using assms by (auto simp: sameConnections_def)
qed

lemma adv_live: "adv s s' \<Longrightarrow> live s' = live s"
  by (simp add: adv_def live_def sameConnections_def)

lemma INIT_least: "INIT \<le> st" "st \<le> INIT \<longleftrightarrow> st = INIT"
  by (cases st; simp add: less_eq_connection_state_def)+

lemma ca_invD:
  assumes "ca_inv T D s"
  shows "omap_inv (am_connectMap s)" "omap_inv (am_counts s)"
    and "omap_find (am_connectMap s) ob = Some l \<Longrightarrow> l \<noteq> [] \<and> distinct l"
    and "omap_find (am_connectMap s) ob = Some l \<Longrightarrow> q \<in> set l \<Longrightarrow> callbackOf s q = None \<or> callbackOf s q = Some ob"
    and "omap_find (am_connectMap s) ob = Some l \<Longrightarrow> omap_find (am_connectMap s) ob' = Some l' \<Longrightarrow> q \<in> set l \<Longrightarrow> q \<in> set l' \<Longrightarrow> ob = ob'"
    and "registered s = live s \<union> D" "D \<subseteq> {r. r < am_nextConn s \<and> stateOf s r = DISCONNECTED}"
    and "distinct (listOf s sid) \<and> set (listOf s sid) = {r \<in> live s. targetOf s r = sid}"
    and "omap_at 0 pid (am_counts s) = int (card {r \<in> registered s. pidOf s r = pid}) \<and> omap_find (am_counts s) pid \<noteq> Some 0"
    and "q < am_nextConn s \<Longrightarrow> stateOf s q \<noteq> INIT" "q < am_nextConn s \<Longrightarrow> targetOf s q < am_nextSvc s"
    and "services s \<subseteq> {..< am_nextSvc s}"
    and "distinct (am_recipientMap s)" "set (am_recipientMap s) = {ob. omap_find (am_connectMap s) ob \<noteq> None}"
    and "T \<Longrightarrow> told q s = (if q < am_nextConn s \<and> stateOf s q = DISCONNECTED then 1 else 0)"
  using assms unfolding ca_inv_def by blast+

lemma ca_invI:
  assumes "omap_inv (am_connectMap s)" "omap_inv (am_counts s)"
    and "\<And>ob l. omap_find (am_connectMap s) ob = Some l \<Longrightarrow> l \<noteq> [] \<and> distinct l"
    and "\<And>ob l q. omap_find (am_connectMap s) ob = Some l \<Longrightarrow> q \<in> set l \<Longrightarrow> callbackOf s q = None \<or> callbackOf s q = Some ob"
    and "\<And>ob ob' l l' q. omap_find (am_connectMap s) ob = Some l \<Longrightarrow> omap_find (am_connectMap s) ob' = Some l' \<Longrightarrow>
      q \<in> set l \<Longrightarrow> q \<in> set l' \<Longrightarrow> ob = ob'"
    and "registered s = live s \<union> D" "D \<subseteq> {r. r < am_nextConn s \<and> stateOf s r = DISCONNECTED}"
    and "\<And>sid. distinct (listOf s sid) \<and> set (listOf s sid) = {r \<in> live s. targetOf s r = sid}"
    and "\<And>pid. omap_at 0 pid (am_counts s) = int (card {r \<in> registered s. pidOf s r = pid}) \<and> omap_find (am_counts s) pid \<noteq> Some 0"
    and "\<And>q. q < am_nextConn s \<Longrightarrow> stateOf s q \<noteq> INIT \<and> targetOf s q < am_nextSvc s"
    and "services s \<subseteq> {..< am_nextSvc s}"
    and "distinct (am_recipientMap s)" "set (am_recipientMap s) = {ob. omap_find (am_connectMap s) ob \<noteq> None}"
    and "\<And>q. T \<Longrightarrow> told q s = (if q < am_nextConn s \<and> stateOf s q = DISCONNECTED then 1 else 0)"
  shows "ca_inv T D s"
  unfolding ca_inv_def using assms by blast

lemma ca_inv_adv:
  assumes inv: "ca_inv T D s" and a: "adv s s'"
  shows "ca_inv T D s'"
proof -
  have same: "sameConnections s s'" and cb: "callbackOf s' r = callbackOf s r \<or> callbackOf s' r = None"
    and st: "stateOf s r \<le> stateOf s' r" for r
    using a by (simp_all add: adv_def)
  have eqs [simp]: "am_nextConn s' = am_nextConn s" "targetOf s' = targetOf s" "pidOf s' = pidOf s" "am_connectMap s' = am_connectMap s"
    "am_counts s' = am_counts s" "am_recipientMap s' = am_recipientMap s" "listOf s' = listOf s" "told r s' = told r s"
    "stateOf s' r = DISCONNECTED \<longleftrightarrow> stateOf s r = DISCONNECTED" "live s' = live s" "registered s' = registered s" for r
    using a same adv_live [OF a] same_registered [OF same] by (simp_all add: adv_def sameConnections_def)
  show ?thesis
  proof (rule ca_invI)
    show "services s' \<subseteq> {..< am_nextSvc s'}" by (rule same_services [OF ca_invD(12) [OF inv] same])
    show "stateOf s' r \<noteq> INIT \<and> targetOf s' r < am_nextSvc s'" if "r < am_nextConn s'" for r
      using ca_invD(10,11) [OF inv, of r] st [of r] that same by (auto simp: INIT_least sameConnections_def)
    show "callbackOf s' r = None \<or> callbackOf s' r = Some ob" if "omap_find (am_connectMap s') ob = Some l" "r \<in> set l" for ob l r
      using ca_invD(4) [OF inv, of ob l r] cb [of r] that by auto
    show "ob = ob'" if "omap_find (am_connectMap s') ob = Some l" "omap_find (am_connectMap s') ob' = Some l'" "q \<in> set l" "q \<in> set l'" for ob ob' l l' q
      using ca_invD(5) [OF inv] that by simp
  qed (unfold eqs, (rule ca_invD [OF inv], (assumption+)?)+)
qed

lemma ca_inv_dropped:
  assumes inv: "ca_inv T D s" and d: "dropped r s s'" and r: "r < am_nextConn s" "stateOf s r \<noteq> DISCONNECTED"
  shows "ca_inv T (insert r D) s'"
proof -
  have same: "sameConnections s s'" using d by (simp add: dropped_def)
  have eqs [simp]: "am_nextConn s' = am_nextConn s" "targetOf s' = targetOf s" "pidOf s' = pidOf s" "am_connectMap s' = am_connectMap s"
    "am_counts s' = am_counts s" "am_recipientMap s' = am_recipientMap s" "registered s' = registered s" "callbackOf s' = callbackOf s"
    "stateOf s' = (stateOf s)(r := DISCONNECTED)"
    using d same same_registered [OF same] by (simp_all add: dropped_def sameConnections_def)
  have live: "live s' = live s - {r}" "live s = insert r (live s')" using r by (auto simp: live_def)
  show ?thesis
  proof (rule ca_invI)
    show "services s' \<subseteq> {..< am_nextSvc s'}" by (rule same_services [OF ca_invD(12) [OF inv] same])
    show "stateOf s' q \<noteq> INIT \<and> targetOf s' q < am_nextSvc s'" if "q < am_nextConn s'" for q
      using ca_invD(10,11) [OF inv, of q] that same by (auto simp: sameConnections_def)
    show "distinct (listOf s' sid) \<and> set (listOf s' sid) = {q \<in> live s'. targetOf s' q = sid}" for sid
      using ca_invD(8) [OF inv, of sid] d live(1) by (auto simp: dropped_def distinct_removeAll)
    show "registered s' = live s' \<union> insert r D" using ca_invD(6) [OF inv] live(2) by simp
    show "insert r D \<subseteq> {q. q < am_nextConn s' \<and> stateOf s' q = DISCONNECTED}" using ca_invD(7) [OF inv] r by auto
    show "told q s' = (if q < am_nextConn s' \<and> stateOf s' q = DISCONNECTED then 1 else 0)" if T for q
      using ca_invD(15) [OF inv that, of q] d r by (auto simp: dropped_def)
    show "ob = ob'" if "omap_find (am_connectMap s') ob = Some l" "omap_find (am_connectMap s') ob' = Some l'" "q \<in> set l" "q \<in> set l'" for ob ob' l l' q
      using ca_invD(5) [OF inv] that by simp
  qed (unfold eqs, (rule ca_invD [OF inv], (assumption+)?)+)
qed

section \<open>Taking a connection out of the map\<close>

lemma unmap_none:
  assumes "omap_inv (am_connectMap s)" "r \<notin> registered s"
  shows "RemoveConnectionRecordFromMap r s = s"
proof -
  have "find (\<lambda>e. r \<in> set (snd e)) (am_connectMap s) = None"
    using assms omap_find_iff [OF assms(1)] by (auto simp: find_None_iff registered_def)
  then show ?thesis by (simp add: RemoveConnectionRecordFromMap_def)
qed

lemma unmap_find:
  assumes inv: "ca_inv T D s" and at: "omap_find (am_connectMap s) ob = Some l" "r \<in> set l"
  shows "find (\<lambda>e. r \<in> set (snd e)) (am_connectMap s) = Some (ob, l)"
proof -
  have om: "omap_inv (am_connectMap s)" by (rule ca_invD(1) [OF inv])
  obtain e where e: "find (\<lambda>e. r \<in> set (snd e)) (am_connectMap s) = Some e"
    using at omap_find_iff [OF om] by (cases "find (\<lambda>e. r \<in> set (snd e)) (am_connectMap s)") (auto simp: find_None_iff)
  then have "e \<in> set (am_connectMap s)" "r \<in> set (snd e)" by (auto simp: find_Some_iff)
  then have f: "omap_find (am_connectMap s) (fst e) = Some (snd e)" "r \<in> set (snd e)" using omap_find_iff [OF om] by auto
  then have "ob = fst e" using ca_invD(5) [OF inv at(1)] at(2) by blast
  then show ?thesis using e f at by (cases e) simp
qed

lemma omap_at_find: "omap_at d k m = (case omap_find m k of None \<Rightarrow> d | Some v \<Rightarrow> v)"
  by (simp add: omap_at_def)

lemma decrement_frame [simp]:
  "am_connectMap (DecrementConnectionCountAndCleanup pid s) = am_connectMap s" "am_conn (DecrementConnectionCountAndCleanup pid s) = am_conn s"
  "am_svc (DecrementConnectionCountAndCleanup pid s) = am_svc s" "am_recipientMap (DecrementConnectionCountAndCleanup pid s) = am_recipientMap s"
  "am_nextConn (DecrementConnectionCountAndCleanup pid s) = am_nextConn s" "am_nextSvc (DecrementConnectionCountAndCleanup pid s) = am_nextSvc s"
  "am_serviceMap (DecrementConnectionCountAndCleanup pid s) = am_serviceMap s" "am_cache (DecrementConnectionCountAndCleanup pid s) = am_cache s"
  "am_out (DecrementConnectionCountAndCleanup pid s) = am_out s"
  by (simp_all add: DecrementConnectionCountAndCleanup_def Let_def split: option.splits)

lemma decrement_counts:
  assumes "omap_inv (am_counts s)" "\<And>p. omap_find (am_counts s) p \<noteq> Some 0" "omap_at 0 pid (am_counts s) = int n" "n > 0"
  shows "omap_inv (am_counts (DecrementConnectionCountAndCleanup pid s))"
    and "omap_at 0 p (am_counts (DecrementConnectionCountAndCleanup pid s)) = (if p = pid then int (n - 1) else omap_at 0 p (am_counts s))"
    and "omap_find (am_counts (DecrementConnectionCountAndCleanup pid s)) p \<noteq> Some 0"
  using assms
  by (auto simp: DecrementConnectionCountAndCleanup_def Let_def omap_at_find find_omap_put find_omap_erase omap_inv_put omap_inv_erase
      split: option.splits)

lemma unmap_frame [simp]:
  "am_conn (RemoveConnectionRecordFromMap r s) = am_conn s" "am_svc (RemoveConnectionRecordFromMap r s) = am_svc s"
  "am_nextConn (RemoveConnectionRecordFromMap r s) = am_nextConn s" "am_nextSvc (RemoveConnectionRecordFromMap r s) = am_nextSvc s"
  "am_serviceMap (RemoveConnectionRecordFromMap r s) = am_serviceMap s" "am_cache (RemoveConnectionRecordFromMap r s) = am_cache s"
  "am_out (RemoveConnectionRecordFromMap r s) = am_out s"
  by (simp_all add: RemoveConnectionRecordFromMap_def RemoveConnectDeathRecipient_def Let_def split: option.splits prod.splits)

lemma unmap_reads [simp]:
  "stateOf (RemoveConnectionRecordFromMap r s) = stateOf s" "targetOf (RemoveConnectionRecordFromMap r s) = targetOf s"
  "listOf (RemoveConnectionRecordFromMap r s) = listOf s" "pidOf (RemoveConnectionRecordFromMap r s) = pidOf s"
  "callbackOf (RemoveConnectionRecordFromMap r s) = callbackOf s" "told q (RemoveConnectionRecordFromMap r s) = told q s"
  "services (RemoveConnectionRecordFromMap r s) = services s" "live (RemoveConnectionRecordFromMap r s) = live s"
  by (simp_all add: ca_reads live_def fun_eq_iff)

lemma ca_inv_unmap:
  assumes inv: "ca_inv T D s" and r: "r \<in> D"
  shows "ca_inv T (D - {r}) (RemoveConnectionRecordFromMap r s)"
proof -
  let ?s = "RemoveConnectionRecordFromMap r s"
  have om: "omap_inv (am_connectMap s)" by (rule ca_invD(1) [OF inv])
  obtain ob l where at: "omap_find (am_connectMap s) ob = Some l" "r \<in> set l"
  proof -
    have "r \<in> registered s" using ca_invD(6) [OF inv] r by simp
    then show ?thesis using that by (auto simp: registered_def)
  qed
  define l' where "l' = removeAll r l"
  let ?n = "card {q \<in> registered s. pidOf s q = pidOf s r}"
  have fin: "finite (registered s)"
    using ca_invD(6,7) [OF inv] by (auto intro: finite_subset [of _ "{..< am_nextConn s}"] simp: live_def)
  have n: "?n > 0" using ca_invD(6) [OF inv] r fin by (auto simp: card_gt_0_iff)
  let ?base = "s\<lparr>am_connectMap := omap_put ob l' (am_connectMap s)\<rparr>"
  have s': "?s = (let s = DecrementConnectionCountAndCleanup (pidOf s r) ?base
      in if l' = [] then let s = RemoveConnectDeathRecipient ob s in s\<lparr>am_connectMap := omap_erase ob (am_connectMap s)\<rparr> else s)"
    unfolding RemoveConnectionRecordFromMap_def unmap_find [OF inv at] by (simp add: l'_def pidOf_def Let_def)
  have find: "omap_find (am_connectMap ?s) = (omap_find (am_connectMap s))(ob := if l' = [] then None else Some l')"
    and oms: "omap_inv (am_connectMap ?s)" and counts: "am_counts ?s = am_counts (DecrementConnectionCountAndCleanup (pidOf s r) ?base)"
    and recips: "am_recipientMap ?s = (if l' = [] then removeAll ob (am_recipientMap s) else am_recipientMap s)"
    using om by (simp_all add: s' Let_def RemoveConnectDeathRecipient_def find_omap_put find_omap_erase omap_inv_put omap_inv_erase)
  have reg: "registered ?s = registered s - {r}"
  proof -
    let ?other = "{q. \<exists>o' l. o' \<noteq> ob \<and> omap_find (am_connectMap s) o' = Some l \<and> q \<in> set l}"
    have "registered ?s = ?other \<union> set l'" by (auto simp: registered_def find split: if_splits)
    moreover have "registered s = ?other \<union> set l" using at(1) by (auto simp: registered_def) (metis option.inject)
    moreover have "r \<notin> ?other" using at ca_invD(5) [OF inv] by blast
    ultimately show ?thesis by (auto simp: l'_def)
  qed
  have sub: "\<exists>l. omap_find (am_connectMap s) ob1 = Some l \<and> set l1 \<subseteq> set l" if "omap_find (am_connectMap ?s) ob1 = Some l1" for ob1 l1
    using that at by (auto simp: find l'_def split: if_splits)
  note dec = decrement_counts [of ?base "pidOf s r" ?n]
  have dec': "omap_inv (am_counts ?s)" "omap_at 0 p (am_counts ?s) = (if p = pidOf s r then int (?n - 1) else omap_at 0 p (am_counts s))"
    "omap_find (am_counts ?s) p \<noteq> Some 0" for p
    using dec n ca_invD(2,9) [OF inv] unfolding counts by simp_all
  show ?thesis
  proof (rule ca_invI)
    show "ob1 = ob2" if "omap_find (am_connectMap ?s) ob1 = Some l1" "omap_find (am_connectMap ?s) ob2 = Some l2" "q \<in> set l1" "q \<in> set l2" for ob1 ob2 l1 l2 q
      using sub [OF that(1)] sub [OF that(2)] that(3,4) ca_invD(5) [OF inv] by blast
    show "callbackOf ?s q = None \<or> callbackOf ?s q = Some ob1" if o1: "omap_find (am_connectMap ?s) ob1 = Some l1" and q: "q \<in> set l1" for ob1 l1 q
    proof -
      obtain l2 where "omap_find (am_connectMap s) ob1 = Some l2" "q \<in> set l2" using sub [OF o1] q by blast
      then show ?thesis using ca_invD(4) [OF inv] by simp
    qed
    show "l1 \<noteq> [] \<and> distinct l1" if "omap_find (am_connectMap ?s) ob1 = Some l1" for ob1 l1
      using that ca_invD(3) [OF inv, of ob1 l1] ca_invD(3) [OF inv at(1)] by (cases "ob1 = ob") (auto simp: find l'_def distinct_removeAll split: if_splits)
    show "registered ?s = live ?s \<union> (D - {r})" using reg ca_invD(6,7) [OF inv] r by (auto simp: live_def)
    show "omap_at 0 pid (am_counts ?s) = int (card {q \<in> registered ?s. pidOf ?s q = pid}) \<and> omap_find (am_counts ?s) pid \<noteq> Some 0" for pid
    proof (cases "pid = pidOf s r")
      case True
      have "{q \<in> registered ?s. pidOf ?s q = pid} = {q \<in> registered s. pidOf s q = pidOf s r} - {r}" using reg True by auto
      moreover have "r \<in> {q \<in> registered s. pidOf s q = pidOf s r}" using at by (auto simp: registered_def)
      ultimately show ?thesis using dec'(2,3) [of pid] fin True by (simp add: card_Diff_singleton)
    next
      case False
      then have "{q \<in> registered ?s. pidOf ?s q = pid} = {q \<in> registered s. pidOf s q = pid}" using reg by auto
      then show ?thesis using dec'(2,3) [of pid] False ca_invD(9) [OF inv, of pid] by simp
    qed
    show "set (am_recipientMap ?s) = {ob. omap_find (am_connectMap ?s) ob \<noteq> None}" using ca_invD(14) [OF inv] at by (auto simp: recips find)
    show "distinct (am_recipientMap ?s)" using ca_invD(13) [OF inv] by (simp add: recips distinct_removeAll)
    show "D - {r} \<subseteq> {q. q < am_nextConn ?s \<and> stateOf ?s q = DISCONNECTED}" using ca_invD(7) [OF inv] by auto
    show "stateOf ?s q \<noteq> INIT \<and> targetOf ?s q < am_nextSvc ?s" if "q < am_nextConn ?s" for q using ca_invD(10,11) [OF inv, of q] that by simp
    show "told q ?s = (if q < am_nextConn ?s \<and> stateOf ?s q = DISCONNECTED then 1 else 0)" if T for q using ca_invD(15) [OF inv that] by simp
    show "services ?s \<subseteq> {..< am_nextSvc ?s}" using ca_invD(12) [OF inv] by simp
    show "distinct (listOf ?s sid) \<and> set (listOf ?s sid) = {r \<in> live ?s. targetOf ?s r = sid}" for sid using ca_invD(8) [OF inv, of sid] by simp
  qed (use oms dec'(1) in simp_all)
qed

lemma unmap_moves [simp]: "moves s (RemoveConnectionRecordFromMap r s)"
  by (simp add: moves_def)

lemma ca_inv_unmap_list:
  assumes "ca_inv T (D \<union> set rs) s" "distinct rs" "D \<inter> set rs = {}"
  shows "ca_inv T D (fold RemoveConnectionRecordFromMap rs s) \<and> moves s (fold RemoveConnectionRecordFromMap rs s)"
  using assms
proof (induction rs arbitrary: s)
  case (Cons r rs)
  have "ca_inv T (D \<union> set (r # rs) - {r}) (RemoveConnectionRecordFromMap r s)" using Cons.prems by (intro ca_inv_unmap) auto
  moreover have "D \<union> set (r # rs) - {r} = D \<union> set rs" using Cons.prems by auto
  ultimately have "ca_inv T D (fold RemoveConnectionRecordFromMap rs (RemoveConnectionRecordFromMap r s)) \<and>
      moves (RemoveConnectionRecordFromMap r s) (fold RemoveConnectionRecordFromMap rs (RemoveConnectionRecordFromMap r s))"
    using Cons.prems by (intro Cons.IH) auto
  then show ?case using unmap_moves moves_trans by (metis fold_simps(2))
qed simp


section \<open>Steps that keep every connection\<close>

lemma set_omap_put_subset: "set (omap_put k v m) \<subseteq> insert (k, v) (set m)"
  by (induction k v m rule: omap_put.induct) auto

lemma set_omap_erase_subset: "set (omap_erase k m) \<subseteq> set m"
  by (auto simp: set_omap_erase)

lemma cached_procD: "omap_find (ac_proc c) tok = Some info \<Longrightarrow> x \<in> set (pi_recList info) \<Longrightarrow> x \<in> cached c"
  by (force simp: cached_def dest: omap_find_in_set)

lemma cached_put: "cached (c\<lparr>ac_proc := omap_put tok info (ac_proc c)\<rparr>) \<subseteq> cached c \<union> set (pi_recList info)"
  using set_omap_put_subset [of tok info "ac_proc c"] by (fastforce simp: cached_def)

lemma cached_dev: "cached (c\<lparr>ac_dev := l\<rparr>) \<subseteq> cached c \<union> set l" "cached (c\<lparr>ac_devCnt := n\<rparr>) = cached c"
  by (auto simp: cached_def)

lemma cached_RemoveDev: "cached (RemoveAbilityRecInDevList r c) \<subseteq> cached c"
  by (auto simp: RemoveAbilityRecInDevList_def cached_def dest: in_set_erase_firstD split: option.splits)

lemma cached_RemoveProc: "cached (RemoveAbilityRecInProcList r c) \<subseteq> cached c"
proof (cases r)
  case None then show ?thesis by (simp add: RemoveAbilityRecInProcList_def)
next
  case (Some x)
  show ?thesis
  proof (cases "omap_find (ac_proc c) (er_tokenId (ac_rec c x))")
    case None then show ?thesis by (simp add: RemoveAbilityRecInProcList_def Some)
  next
    case (Some info)
    let ?i = "info\<lparr>pi_recList := erase_first (sameId c x) (pi_recList info), pi_cnt := pi_cnt info - 1\<rparr>"
    have "cached (c\<lparr>ac_proc := omap_put (er_tokenId (ac_rec c x)) ?i (ac_proc c)\<rparr>) \<subseteq> cached c"
      using cached_put [of _ ?i c] set_erase_first_subset [of "sameId c x" "pi_recList info"] cached_procD [OF Some] by fastforce
    moreover have "cached (c\<lparr>ac_proc := omap_erase (er_tokenId (ac_rec c x)) (ac_proc c)\<rparr>) \<subseteq> cached c"
      using set_omap_erase_subset [of _ "ac_proc c"] by (fastforce simp: cached_def)
    ultimately show ?thesis using \<open>r = Some x\<close> Some by (simp add: RemoveAbilityRecInProcList_def Let_def)
  qed
qed

lemma cached_Remove: "cached (ac_Remove r c) \<subseteq> cached c"
  using cached_RemoveDev [of r "RemoveAbilityRecInProcList r c"] cached_RemoveProc [of r c] by (auto simp: ac_Remove_def)

lemma cached_Get:
  assumes "ac_Get q c = (rec, c')"
  shows "cached c' \<subseteq> cached c" "rec = Some t \<Longrightarrow> t \<in> cached c"
proof -
  obtain rec0 c0 where g: "GetAbilityRecInProcList q c = (rec0, c0)" by (cases "GetAbilityRecInProcList q c")
  have "cached c0 \<subseteq> cached c \<and> (\<forall>t. rec0 = Some t \<longrightarrow> t \<in> cached c)"
  proof (cases "omap_find (ac_proc c) (cr_tokenId q)")
    case None then show ?thesis using g by (simp add: GetAbilityRecInProcList_def)
  next
    case (Some info)
    let ?p = "\<lambda>x. IsRecInfoSame q (ac_rec c x)"
    let ?i = "info\<lparr>pi_recList := erase_first ?p (pi_recList info), pi_cnt := pi_cnt info - 1\<rparr>"
    have "cached (c\<lparr>ac_proc := omap_put (cr_tokenId q) ?i (ac_proc c)\<rparr>) \<subseteq> cached c"
      using cached_put [of _ ?i c] set_erase_first_subset [of ?p "pi_recList info"] cached_procD [OF Some] by fastforce
    then show ?thesis using g Some cached_procD [OF Some]
      by (auto simp: GetAbilityRecInProcList_def find_Some_iff split: option.splits)
  qed
  then show "cached c' \<subseteq> cached c" "rec = Some t \<Longrightarrow> t \<in> cached c"
    using assms g cached_RemoveDev [of rec0 c0] by (auto simp: ac_Get_def split: if_splits)
qed

lemma cached_Put:
  assumes "Put (Some x) c = Inr (old, c')"
  shows "cached c' \<subseteq> insert x (cached c)" "old = Some t \<Longrightarrow> t \<in> insert x (cached c)"
proof -
  from assms obtain old1 c1 where a: "AddToProcLru (Some x) c = Inr (old1, c1)" and b: "AddToDevLru x old1 c1 = Inr (old, c')"
    by (auto simp: Put_def cpp_bind_def split: sum.splits)
  have 1: "cached c1 \<subseteq> insert x (cached c) \<and> (\<forall>t. old1 = Some t \<longrightarrow> t \<in> cached c)"
  proof (cases "omap_find (ac_proc c) (er_tokenId (ac_rec c x))")
    case None
    then show ?thesis using a cached_put [of "er_tokenId (ac_rec c x)" "\<lparr>pi_recList = [x], pi_cnt = 1\<rparr>" c] by (auto simp: AddToProcLru_def)
  next
    case (Some info)
    note in_cache = cached_procD [OF Some]
    show ?thesis
    proof (cases "pi_cnt info = ac_procCap c")
      case True
      then obtain o1 rest where l: "pi_recList info = o1 # rest" using a Some by (cases "pi_recList info") (auto simp: AddToProcLru_def)
      let ?c = "RemoveAbilityRecInDevList (Some o1) c" and ?i = "info\<lparr>pi_recList := rest @ [x]\<rparr>"
      have "old1 = Some o1" "c1 = ?c\<lparr>ac_proc := omap_put (er_tokenId (ac_rec c x)) ?i (ac_proc ?c)\<rparr>"
        using a Some True l by (auto simp: AddToProcLru_def Let_def)
      then show ?thesis using cached_put [of _ ?i ?c] cached_RemoveDev [of "Some o1" c] in_cache l by fastforce
    next
      case False
      let ?i = "info\<lparr>pi_cnt := pi_cnt info + 1, pi_recList := pi_recList info @ [x]\<rparr>"
      have "old1 = None" "c1 = c\<lparr>ac_proc := omap_put (er_tokenId (ac_rec c x)) ?i (ac_proc c)\<rparr>"
        using a Some False by (auto simp: AddToProcLru_def Let_def)
      then show ?thesis using cached_put [of _ ?i c] in_cache by fastforce
    qed
  qed
  have "cached c' \<subseteq> insert x (cached c1) \<and> (\<forall>t. old = Some t \<longrightarrow> old1 = Some t \<or> t \<in> cached c1)"
  proof (cases "old1 = None \<and> ac_devCnt c1 = ac_devCap c1 \<and> ac_devCnt c1 > 0")
    case True
    then obtain o1 rest where l: "ac_dev c1 = o1 # rest" using b by (cases "ac_dev c1") (auto simp: AddToDevLru_def Let_def)
    have dev: "ac_dev (RemoveAbilityRecInProcList (Some o1) c1) = o1 # rest"
      using l by (simp add: RemoveAbilityRecInProcList_def Let_def split: option.splits)
    have "cached c' \<subseteq> insert x (cached (RemoveAbilityRecInProcList (Some o1) c1))"
    proof -
      have "c' = RemoveAbilityRecInProcList (Some o1) c1\<lparr>ac_dev := rest @ [x]\<rparr>" using b True l dev by (auto simp: AddToDevLru_def Let_def)
      then show ?thesis using cached_dev(1) [of "rest @ [x]" "RemoveAbilityRecInProcList (Some o1) c1"] dev
        by (auto simp: cached_def [of "RemoveAbilityRecInProcList (Some o1) c1"])
    qed
    moreover have "o1 \<in> cached c1" using l by (simp add: cached_def)
    ultimately show ?thesis using b True l cached_RemoveProc [of "Some o1" c1] by (auto simp: AddToDevLru_def Let_def)
  next
    case False
    then show ?thesis using b by (auto simp: AddToDevLru_def Let_def cached_def split: if_splits)
  qed
  with 1 show "cached c' \<subseteq> insert x (cached c)" "old = Some t \<Longrightarrow> t \<in> insert x (cached c)" by auto
qed


named_theorems advs \<open>operations that keep every connection\<close>

lemma adv_updSvc: "(\<And>v. sv_connRecordList (f v) = sv_connRecordList v) \<Longrightarrow> adv s (updSvc sid f s)"
  by (simp add: adv_def sameConnections_def updSvc_def ca_reads fun_eq_iff)

lemma adv_emit: "(\<And>r. \<not> tells r out) \<Longrightarrow> adv s (emit out s)"
  by (simp add: adv_def sameConnections_def emit_def ca_reads fun_eq_iff)

lemma adv_updConn:
  assumes "\<And>c. cn_state (f c) = cn_state c" "\<And>c. cn_targetService (f c) = cn_targetService c" "\<And>c. cn_directCallerPid (f c) = cn_directCallerPid c"
    and "\<And>c. cn_connCallback (f c) = cn_connCallback c \<or> cn_connCallback (f c) = None"
  shows "adv s (updConn r f s)"
  using assms by (auto simp: adv_def sameConnections_def updConn_def ca_reads fun_eq_iff)

lemma adv_state:
  "stateOf s r \<le> st \<Longrightarrow> st \<noteq> DISCONNECTED \<Longrightarrow> adv s (SetConnectState st r s)"
  by (auto simp: adv_def sameConnections_def SetConnectState_def updConn_def ca_reads fun_eq_iff)

lemma adv_fields [simp]:
  "adv s (s\<lparr>am_cs := x\<rparr>)" "adv s (s\<lparr>am_startReqs := y\<rparr>)" "adv s (s\<lparr>am_windowExt := z\<rparr>)" "adv s (s\<lparr>am_terminating := t\<rparr>)"
  "adv s (s\<lparr>am_delay := d\<rparr>)"
  by (simp_all add: adv_def sameConnections_def ca_reads fun_eq_iff)

lemma adv_services: "(services (s\<lparr>am_serviceMap := m, am_cache := c\<rparr>) \<subseteq> services s) \<Longrightarrow> adv s (s\<lparr>am_serviceMap := m, am_cache := c\<rparr>)"
  by (simp add: adv_def sameConnections_def stateOf_def targetOf_def listOf_def pidOf_def callbackOf_def told_def fun_eq_iff)

lemma adv_serviceMap: "snd ` set m \<subseteq> services s \<Longrightarrow> adv s (s\<lparr>am_serviceMap := m\<rparr>)"
  using adv_services [where s = s and m = m and c = "am_cache s"] by (simp add: services_def)

lemma adv_cache: "cached c \<subseteq> services s \<Longrightarrow> adv s (s\<lparr>am_cache := c\<rparr>)"
  using adv_services [where s = s and m = "am_serviceMap s" and c = c] by (simp add: services_def)

lemma serviceMap_services: "snd ` set (am_serviceMap s) \<subseteq> services s" "cached (am_cache s) \<subseteq> services s"
  by (simp_all add: services_def)

lemma adv_erase_service [simp]: "adv s (s\<lparr>am_serviceMap := omap_erase k (am_serviceMap s)\<rparr>)"
  using set_omap_erase_subset [of k "am_serviceMap s"] serviceMap_services(1) [of s] by (intro adv_serviceMap) auto

lemma adv_cache_remove [simp]: "adv s (s\<lparr>am_cache := ac_Remove r (am_cache s)\<rparr>)"
  using cached_Remove [of r "am_cache s"] serviceMap_services(2) [of s] by (intro adv_cache) auto

lemma adv_AddToServiceMap: "sid \<in> services s \<Longrightarrow> adv s (AddToServiceMap k sid s)"
  using image_mono [OF set_omap_put_subset [of k sid "am_serviceMap s"], of snd] serviceMap_services(1) [of s]
  by (auto simp: AddToServiceMap_def intro!: adv_serviceMap)

lemma adv_if: "(b \<Longrightarrow> adv s x) \<Longrightarrow> (\<not> b \<Longrightarrow> adv s y) \<Longrightarrow> adv s (if b then x else y)"
  by simp

lemma adv_option: "(x = None \<Longrightarrow> adv s a) \<Longrightarrow> (\<And>y. x = Some y \<Longrightarrow> adv s (f y)) \<Longrightarrow> adv s (case x of None \<Rightarrow> a | Some y \<Rightarrow> f y)"
  by (cases x) simp_all

lemma advs_plain [advs]:
  "adv s (RemoveServiceFromMapSafe k s)" "adv s (RemoveServiceAbility sid s)" "adv s (RemoveConnectWant sid s)" "adv s (RemoveSignatureInfo sid s)"
  "adv s (SetWant sid w s)" "adv s (EnqueueStartServiceReq rq s)" "adv s (RemoveExtensionDelayDisconnectTask r s)"
  by (simp_all add: RemoveServiceFromMapSafe_def RemoveServiceAbility_def RemoveConnectWant_def RemoveSignatureInfo_def SetWant_def
      EnqueueStartServiceReq_def RemoveExtensionDelayDisconnectTask_def adv_updSvc Let_def)

lemma advs_want [advs]: "adv s (SaveConnectWant sid w s)" "adv s (UpdateConnectWant sid s)" "adv s (PostExtensionDelayDisconnectTask ev r s)"
  by (simp_all add: SaveConnectWant_def UpdateConnectWant_def PostExtensionDelayDisconnectTask_def adv_updSvc advs_plain split: option.split)

lemma adv_SetWant_after: "adv s s' \<Longrightarrow> adv s (SetWant sid w s')"
  by (blast intro: adv_trans advs)

lemma tells_simps [simp]:
  "tells r (DisconnectDone q cb c) \<longleftrightarrow> q = r" "\<not> tells r (LoadAbilityOut x)" "\<not> tells r (LifecycleConnect x)" "\<not> tells r (LifecycleDisconnect x)"
  "\<not> tells r (LifecycleCommand x)" "\<not> tells r (LifecycleTerminate x)" "\<not> tells r (ConnectDone x y z)" "\<not> tells r (LowCodeDone x y z)"
  "\<not> tells r (AgentInvoked x a)" "\<not> tells r (ScheduleDisconnect x)" "\<not> tells r (TerminateAbilityOut x)" "\<not> tells r (AttachTimeOut x)"
  "\<not> tells r (RestartAbilityOut x)" "\<not> tells r (KeepAbilityAliveOut x)" "\<not> tells r KillProcessesByUserId" "\<not> tells r (MoveToBackgroundOut x)"
  "\<not> tells r (CompleteForegroundTask x)" "\<not> tells r (CompleteBackgroundTask x)"
  by (simp_all add: tells_def)

lemma adv_emit_after: "adv s s' \<Longrightarrow> (\<And>r. \<not> tells r out) \<Longrightarrow> adv s (emit out s')"
  by (blast intro: adv_trans adv_emit)

lemma adv_updSvc_after: "adv s s' \<Longrightarrow> (\<And>v. sv_connRecordList (f v) = sv_connRecordList v) \<Longrightarrow> adv s (updSvc sid f s')"
  by (blast intro: adv_trans adv_updSvc)

lemma advs_lifecycle [advs]:
  "adv s (ConnectAbilityWithWant sid s)" "adv s (svc_DisconnectAbility sid s)" "adv s (DisconnectAbilityWithWant sid s)"
  "adv s (CommandAbility sid s)" "adv s (svc_Terminate sid s)"
  by (auto simp: ConnectAbilityWithWant_def svc_DisconnectAbility_def DisconnectAbilityWithWant_def CommandAbility_def svc_Terminate_def Let_def
      intro!: adv_updSvc_after adv_emit_after adv_refl)

lemma advs_terminate [advs]: "adv s (MoveToTerminatingMap sid s)"
proof -
  let ?t = "s\<lparr>am_terminating := am_terminating s @ [sid]\<rparr>"
  let ?m = "if omap_find (am_serviceMap ?t) (GetServiceKey ?t sid) = Some sid
            then ?t\<lparr>am_serviceMap := omap_erase (GetServiceKey ?t sid) (am_serviceMap ?t)\<rparr> else ?t"
  have "adv s ?t" "adv ?t ?m" by (simp, simp only: adv_erase_service adv_refl if_split) simp
  moreover have "adv ?m (?m\<lparr>am_cache := ac_Remove (Some sid) (am_cache ?m)\<rparr>)" by (rule adv_cache_remove)
  ultimately show ?thesis unfolding MoveToTerminatingMap_def Let_def by (blast intro: adv_trans)
qed

lemma advs_TerminateRecord [advs]: "adv s (TerminateRecord sid s)"
  unfolding TerminateRecord_def by (auto intro: adv_trans advs)

lemma advs_connect [advs]: "adv s (ConnectAbility sid s)" "adv s (LoadAbility ev sid s)"
  by (auto simp: ConnectAbility_def ResumeConnectAbility_def LoadAbility_def intro!: adv_fold advs adv_emit)

lemma advs_TerminateDone [advs]: "adv s (TerminateDone sid s)"
proof -
  have "adv s (RemoveServiceAbility sid (emit (TerminateAbilityOut sid) x))" if "adv s x" for x
    by (rule adv_trans [OF adv_emit_after [OF that] advs_plain(2)]) simp
  then show ?thesis unfolding TerminateDone_def Let_def by (simp add: adv_emit)
qed

lemma advs_lowcode [advs]:
  "adv s (NotifyLowCodeAgentInvoked r ro w s)" "adv s (CompleteLowCodeAgentInvocation r w cb s)" "adv s (QueueLowCodeAgentInvocation r w cb s)"
proof -
  show 1: "adv s (NotifyLowCodeAgentInvoked r ro w s)" for s ro
    by (auto simp: NotifyLowCodeAgentInvoked_def adv_emit split: option.splits)
  show 2: "adv s (CompleteLowCodeAgentInvocation r w cb s)" for s
    by (auto simp: CompleteLowCodeAgentInvocation_def Let_def adv_emit_after 1 split: option.splits)
  show "adv s (QueueLowCodeAgentInvocation r w cb s)" by (auto simp: QueueLowCodeAgentInvocation_def 2 intro: adv_updConn)
qed

lemma advs_reconnect [advs]: "adv s (CompleteConnectAndOnlyCallConnectDone r s)" "adv s (reconnect rq connect r s)"
proof -
  show "adv s (CompleteConnectAndOnlyCallConnectDone r s)"
    by (auto simp: CompleteConnectAndOnlyCallConnectDone_def adv_emit split: option.splits)
  then show "adv s (reconnect rq connect r s)" by (simp add: reconnect_def advs)
qed

lemma advs_suspend [advs]: "adv s (snd (SuspendExtensionAbility r s))" "adv s (snd (ResumeExtensionAbility r s))"
  by (simp_all add: SuspendExtensionAbility_def ResumeExtensionAbility_def)

lemma advs_eachRecord: "(\<And>r s. adv s (snd (f r s))) \<Longrightarrow> adv s (snd (eachRecord ev f rs result s))"
  by (induction rs arbitrary: result s) (auto simp: split_beta, (meson adv_trans)+)


lemma stateOf_simps [simp]:
  "stateOf (SetConnectState st r s) q = (if q = r then st else stateOf s q)" "stateOf (updSvc sid f s) = stateOf s"
  "stateOf (emit out s) = stateOf s" "stateOf (s\<lparr>am_cs := x\<rparr>) = stateOf s" "targetOf (SetConnectState st r s) = targetOf s"
  by (simp_all add: stateOf_def targetOf_def SetConnectState_def updConn_def updSvc_def emit_def fun_eq_iff)

lemma adv_CompleteConnect:
  assumes "stateOf s r = CONNECTING"
  shows "adv s (CompleteConnect r s)"
proof -
  let ?a = "SetConnectState CONNECTED r s"
  let ?b = "updSvc (targetOf ?a r) (\<lambda>v. v\<lparr>sv_state := ACTIVE\<rparr>) ?a"
  have b: "adv s ?b" using adv_state [of s r CONNECTED] adv_updSvc_after assms by simp
  have "adv ?b (emit (ScheduleDisconnect sid) (SetConnectState DISCONNECTING r ?b))" for sid
    by (intro adv_emit_after adv_state) simp_all
  moreover have "adv ?b (emit (ConnectDone r cb ro) ?b)" for cb ro by (intro adv_emit) simp
  ultimately show ?thesis using b adv_trans [OF _ adv_fields(1)]
    unfolding CompleteConnect_def Let_def by (auto split: option.split intro: adv_trans)
qed

lemma advs_flush [advs]: "adv s (FlushPendingLowCodeAgentInvocations r s)"
  unfolding FlushPendingLowCodeAgentInvocations_def
  by (rule adv_trans [OF adv_updConn adv_fold]) (auto intro: advs)

lemma NotifyLowCode_state: "stateOf (NotifyLowCodeAgentInvoked r ro w s) = stateOf s"
  by (auto simp: NotifyLowCodeAgentInvoked_def split: option.split)

lemma advs_connectDone [advs]: "adv s (ScheduleConnectAbilityDone r s)"
proof (cases "stateOf s r = CONNECTING")
  case True
  let ?a = "updConn r (\<lambda>c. c\<lparr>cn_connectWant := strippedWant r s\<rparr>) s"
  let ?b = "NotifyLowCodeAgentInvoked r (sv_connRemoteObject (am_svc ?a (targetOf ?a r))) (cn_connectWant (am_conn ?a r)) ?a"
  have "stateOf ?b r = CONNECTING" unfolding NotifyLowCode_state using True by (simp add: stateOf_def updConn_def)
  then have "adv ?b (CompleteConnect r ?b)" by (rule adv_CompleteConnect)
  moreover have "adv s ?a" by (rule adv_updConn) simp_all
  moreover have "adv ?a ?b" by (rule advs)
  moreover have "adv (CompleteConnect r ?b) (FlushPendingLowCodeAgentInvocations r (CompleteConnect r ?b))" by (rule advs)
  ultimately show ?thesis using True unfolding ScheduleConnectAbilityDone_def Let_def by (auto intro: adv_trans)
qed (simp add: ScheduleConnectAbilityDone_def)

lemma advs_connectDoneLoop [advs]: "adv s (connectDoneLoop ev post rs s)"
proof (induction rs arbitrary: s)
  case (Cons r rs)
  let ?a = "ScheduleConnectAbilityDone r s"
  have "adv s ?a" "adv ?a (PostExtensionDelayDisconnectTask ev r ?a)" by (rule advs)+
  then show ?case using Cons.IH by (auto simp: Let_def intro: adv_trans)
qed simp

lemma advs_active:
  assumes "stateOf s r = CONNECTING"
  shows "adv s (HandleActiveAbility sid r s)"
proof -
  have "stateOf (RemoveSignatureInfo sid s) r = CONNECTING" using assms by (simp add: RemoveSignatureInfo_def)
  then have "adv s (CompleteConnect r (RemoveSignatureInfo sid s))" by (rule adv_trans [OF advs_plain(4) adv_CompleteConnect])
  moreover have "adv s (RemoveSignatureInfo sid (ConnectAbilityWithWant sid s))" by (blast intro: adv_trans advs)
  ultimately show ?thesis by (simp add: HandleActiveAbility_def advs)
qed

section \<open>Extensions found or made\<close>

lemma fresh_list:
  assumes inv: "ca_inv T D s" and "am_nextSvc s \<le> sid"
  shows "listOf s sid = []"
proof -
  have "targetOf s r \<noteq> sid" if "r \<in> live s" for r using ca_invD(11) [OF inv, of r] that assms(2) by (simp add: live_def)
  then have "set (listOf s sid) = {}" using ca_invD(8) [OF inv, of sid] by auto
  then show ?thesis by simp
qed

lemma AddToServiceMap_reads [simp]:
  "stateOf (AddToServiceMap k t s) = stateOf s" "targetOf (AddToServiceMap k t s) = targetOf s" "listOf (AddToServiceMap k t s) = listOf s"
  "pidOf (AddToServiceMap k t s) = pidOf s" "callbackOf (AddToServiceMap k t s) = callbackOf s" "told r (AddToServiceMap k t s) = told r s"
  "am_nextConn (AddToServiceMap k t s) = am_nextConn s" "am_nextSvc (AddToServiceMap k t s) = am_nextSvc s"
  "am_connectMap (AddToServiceMap k t s) = am_connectMap s" "am_counts (AddToServiceMap k t s) = am_counts s"
  "am_recipientMap (AddToServiceMap k t s) = am_recipientMap s"
  by (simp_all add: AddToServiceMap_def stateOf_def targetOf_def listOf_def pidOf_def callbackOf_def told_def fun_eq_iff)

lemma adv_AddToServiceMap_after:
  "adv s s' \<Longrightarrow> services (AddToServiceMap k t s') \<subseteq> services s \<union> {am_nextSvc s ..< am_nextSvc s'} \<Longrightarrow> adv s (AddToServiceMap k t s')"
  by (simp add: adv_def sameConnections_def)

lemma services_AddToServiceMap: "services (AddToServiceMap k t s) \<subseteq> insert t (services s)"
  using image_mono [OF set_omap_put_subset [of k t "am_serviceMap s"], of snd] by (auto simp: AddToServiceMap_def services_def)

lemma adv_create:
  assumes "ca_inv T D s" "CreateBaseExtensionRecord ev rq by s = (sid, s')"
  shows "adv s s'" "sid = am_nextSvc s" "am_nextSvc s' = Suc sid" "services s' = services s"
proof -
  have "listOf s (am_nextSvc s) = []" using fresh_list [OF assms(1)] by simp
  then show "adv s s'" "sid = am_nextSvc s" "am_nextSvc s' = Suc sid" "services s' = services s"
    using assms(2) by (auto simp: CreateBaseExtensionRecord_def Let_def adv_def sameConnections_def ca_reads fun_eq_iff cached_def)
qed

lemma adv_new:
  assumes inv: "ca_inv T D s" and c: "CreateBaseExtensionRecord ev rq by s = (sid, s1)" and h: "HandleExtensionSetup ev rq sid key s1 = (ret, s2)"
  shows "adv s s2" "adv s (AddToServiceMap key' sid s2)" "sid < am_nextSvc s2"
proof -
  note cr = adv_create [OF inv c]
  have 12: "adv s1 s2" "am_nextSvc s2 = am_nextSvc s1" "services s2 = services s1"
    using h by (auto simp: HandleExtensionSetup_def updSvc_def services_def split: if_splits intro!: adv_updSvc [unfolded updSvc_def])
  show a: "adv s s2" using cr(1) 12(1) by (rule adv_trans)
  show "adv s (AddToServiceMap key' sid s2)"
    using a services_AddToServiceMap [of key' sid s2] cr(2-4) 12(2,3) by (intro adv_AddToServiceMap_after) auto
  show "sid < am_nextSvc s2" using cr(3) 12(2) by simp
qed

lemma adv_cachedService:
  assumes "cachedService ev rq key s = (t, s')"
  shows "adv s s'" "t = Some x \<Longrightarrow> x \<in> services s" "am_nextSvc s' = am_nextSvc s"
proof -
  define g where "g = ac_Get \<lparr>cr_tokenId = rq_accessTokenId rq, cr_moduleName = rq_moduleName rq, cr_abilityName = rq_abilityName rq\<rparr> (am_cache s)"
  have get: "cached (snd g) \<subseteq> cached (am_cache s)" "fst g = Some y \<Longrightarrow> y \<in> cached (am_cache s)" for y
    using cached_Get [OF prod.collapse [symmetric]] unfolding g_def by blast+
  let ?a = "s\<lparr>am_cache := snd g\<rparr>"
  have sub: "services ?a \<subseteq> services s" using get(1) by (auto simp: services_def)
  have a: "adv s ?a" using get(1) serviceMap_services(2) by (intro adv_cache) blast
  have "adv s (AddToServiceMap key y ?a)" if "fst g = Some y" for y
    using a sub services_AddToServiceMap [of key y ?a] get(2) [OF that] serviceMap_services(2) [of s]
    by (intro adv_AddToServiceMap_after) auto
  then show "adv s s'" "t = Some x \<Longrightarrow> x \<in> services s" "am_nextSvc s' = am_nextSvc s"
    using a assms get(2) serviceMap_services(2) [of s]
    by (auto simp: cachedService_def g_def [symmetric] split_beta Let_def AddToServiceMap_def split: if_splits option.splits)
qed


lemma find_services: "omap_find (am_serviceMap s) k = Some x \<Longrightarrow> x \<in> services s"
  by (force simp: services_def dest: omap_find_in_set)

lemma GetOrCreate_adv:
  assumes inv: "ca_inv T D s" and g: "GetOrCreateServiceRecord ev rq byConnect s = ((t, loaded), s')"
  shows "adv s s'" "t = Some sid \<Longrightarrow> sid < am_nextSvc s'"
proof -
  let ?key = "GetServiceKeyOfRequest ev rq"
  define p1 where "p1 = (case omap_find (am_serviceMap s) ?key of Some t \<Rightarrow> (Some t, s) | None \<Rightarrow> cachedService ev rq ?key s)"
  define p2 where "p2 = (case fst p1 of
      Some x \<Rightarrow> if rq_extType rq = EXT_AGENT \<and> sv_state (am_svc (snd p1) x) = TERMINATING
                then (None, (RemoveServiceFromMapSafe ?key (snd p1))\<lparr>am_cache := ac_Remove (Some x) (am_cache (snd p1))\<rparr>)
                else (Some x, snd p1)
    | None \<Rightarrow> (None, snd p1))"
  define s3 where "s3 = (if rq_extType rq = EXT_WINDOW \<and> fst p2 \<noteq> None then RemoveServiceFromMapSafe ?key (snd p2) else snd p2)"
  define c where "c = CreateBaseExtensionRecord ev rq byConnect s3"
  define h where "h = HandleExtensionSetup ev rq (fst c) ?key (snd c)"
  have g': "((t, loaded), s') = (if rq_extType rq = EXT_WINDOW \<or> fst p2 = None
      then if fst h \<noteq> ERR_OK then ((None, False), snd h) else ((Some (fst c), False), AddToServiceMap ?key (fst c) (snd h))
      else ((fst p2, True), s3))"
    unfolding g [symmetric] GetOrCreateServiceRecord_def Let_def p1_def [symmetric]
    by (simp add: split_beta h_def c_def s3_def p2_def RemoveServiceFromMapSafe_def split: option.split)
  have 1: "adv s (snd p1)" "\<And>x. fst p1 = Some x \<Longrightarrow> x \<in> services s"
    using adv_cachedService(1,2) [OF prod.collapse [symmetric]] find_services [of s ?key]
    by (auto simp: p1_def split: option.splits)
  have "adv (snd p1) ((RemoveServiceFromMapSafe ?key (snd p1))\<lparr>am_cache := ac_Remove (Some x) (am_cache (snd p1))\<rparr>)" for x
    using adv_trans [OF advs_plain(1) adv_cache_remove] by (simp add: RemoveServiceFromMapSafe_def)
  then have 2: "adv (snd p1) (snd p2)" "\<And>x. fst p2 = Some x \<Longrightarrow> x \<in> services s"
    using 1(2) by (auto simp: p2_def split: option.splits if_splits)
  have "adv (snd p2) s3" by (simp add: s3_def advs)
  then have 3: "adv s s3" using 1(1) 2(1) by (blast intro: adv_trans)
  have inv3: "ca_inv T D s3" by (rule ca_inv_adv [OF inv 3])
  have ch: "CreateBaseExtensionRecord ev rq byConnect s3 = (fst c, snd c)" "HandleExtensionSetup ev rq (fst c) ?key (snd c) = (fst h, snd h)"
    by (simp_all add: c_def h_def)
  note new = adv_new [OF inv3 ch]
  show "adv s s'" using g' 3 new(1,2) by (auto split: if_splits intro: adv_trans)
  show "sid < am_nextSvc s'" if "t = Some sid"
    using g' that new(3) 2(2) [of sid] ca_invD(12) [OF inv] 3 by (auto simp: adv_def sameConnections_def split: if_splits)
qed

lemma StartAbility_adv:
  assumes inv: "ca_inv T D s"
  shows "adv s (snd (StartAbilityLocked ev rq s))"
proof -
  obtain t loaded s1 where g: "GetOrCreateServiceRecord ev rq False s = ((t, loaded), s1)" by (metis prod.collapse)
  note a = GetOrCreate_adv(1) [OF inv g]
  let ?b = "\<lambda>sid. updSvc sid (\<lambda>v. v\<lparr>sv_sessionInfo := rq_sessionInfo rq\<rparr>) s1"
  have b: "adv s (?b sid)" for sid by (rule adv_updSvc_after [OF a]) simp
  have c: "adv (?b sid) (LoadAbility ev sid (?b sid))" "adv (?b sid) (EnqueueStartServiceReq rq (?b sid))" for sid by (rule advs)+
  have d: "adv (?b sid) (CommandAbility sid (SetWant sid (rq_want rq) (?b sid)))" for sid by (blast intro: adv_trans advs)
  show ?thesis using a b adv_trans [OF b c(1)] adv_trans [OF b c(2)] adv_trans [OF b d]
    by (auto simp: StartAbilityLocked_def g Let_def split: option.split)
qed

lemma CompleteStart_adv:
  assumes inv: "ca_inv T D s"
  shows "adv s (CompleteStartServiceReq ev uri s)"
proof -
  have "ca_inv T D x \<Longrightarrow> adv x (fold (\<lambda>rq s. snd (StartAbilityLocked ev rq s)) rqs x)" for rqs x
  proof (induction rqs arbitrary: x)
    case (Cons rq rqs)
    have a: "adv x (snd (StartAbilityLocked ev rq x))" by (rule StartAbility_adv [OF Cons.prems])
    then show ?case using Cons.IH [OF ca_inv_adv [OF Cons.prems a]] by (auto intro: adv_trans)
  qed simp
  from adv_trans [OF adv_fields(2) this [OF ca_inv_adv [OF inv adv_fields(2)]]]
  show ?thesis unfolding CompleteStartServiceReq_def by (auto split: option.split)
qed


end
