(* ===== verification/Connect_Runs.thy ===== *)
theory Connect_Runs
  imports Connect_Bookkeeping
begin

text \<open>
  The handlers of the connection manager keep the invariant of \<open>Connect_Bookkeeping\<close>, and what follows for whole runs.
\<close>

section \<open>A new connection\<close>

lemma attach_keeps [simp]:
  "cn_targetService (AttachCallerInfo ev indirect c) = cn_targetService c" "cn_connCallback (AttachCallerInfo ev indirect c) = cn_connCallback c"
  by (auto simp: AttachCallerInfo_def SetDirectCallerInfo_def Let_def split: option.split)

definition sameReads :: "ca_mgr \<Rightarrow> ca_mgr \<Rightarrow> bool" where
  "sameReads s s' \<longleftrightarrow> am_nextConn s' = am_nextConn s \<and> stateOf s' = stateOf s \<and> targetOf s' = targetOf s \<and> pidOf s' = pidOf s \<and>
     callbackOf s' = callbackOf s \<and> listOf s' = listOf s \<and> am_connectMap s' = am_connectMap s \<and> am_counts s' = am_counts s \<and>
     am_recipientMap s' = am_recipientMap s \<and> am_nextSvc s' = am_nextSvc s \<and> services s' = services s \<and> (\<forall>q. told q s' = told q s)"

lemma sameReads_updSvc: "(\<And>v. sv_connRecordList (f v) = sv_connRecordList v) \<Longrightarrow> sameReads s (updSvc sid f s)"
  by (simp add: sameReads_def updSvc_def ca_reads fun_eq_iff)

lemma sameReads_SetConnectWant: "sameReads s (SetConnectWant r w s)"
  by (simp add: sameReads_def SetConnectWant_def updConn_def ca_reads fun_eq_iff)

lemma sameReads_windowExt: "sameReads s (s\<lparr>am_windowExt := w\<rparr>)"
  by (simp add: sameReads_def ca_reads fun_eq_iff)

lemma sameReads_refl: "sameReads s s"
  by (simp add: sameReads_def)

lemma sameReads_trans: "sameReads s s' \<Longrightarrow> sameReads s' s'' \<Longrightarrow> sameReads s s''"
  by (simp add: sameReads_def)

lemma reads_upd:
  "stateOf (s\<lparr>am_svc := x\<rparr>) = stateOf s" "targetOf (s\<lparr>am_svc := x\<rparr>) = targetOf s" "pidOf (s\<lparr>am_svc := x\<rparr>) = pidOf s"
  "callbackOf (s\<lparr>am_svc := x\<rparr>) = callbackOf s" "told q (s\<lparr>am_svc := x\<rparr>) = told q s" "services (s\<lparr>am_svc := x\<rparr>) = services s"
  by (simp_all add: ca_reads fun_eq_iff)

lemma reads_maps:
  "stateOf (s\<lparr>am_connectMap := m, am_recipientMap := p\<rparr>) = stateOf s" "targetOf (s\<lparr>am_connectMap := m, am_recipientMap := p\<rparr>) = targetOf s"
  "pidOf (s\<lparr>am_connectMap := m, am_recipientMap := p\<rparr>) = pidOf s" "callbackOf (s\<lparr>am_connectMap := m, am_recipientMap := p\<rparr>) = callbackOf s"
  "told q (s\<lparr>am_connectMap := m, am_recipientMap := p\<rparr>) = told q s" "services (s\<lparr>am_connectMap := m, am_recipientMap := p\<rparr>) = services s"
  "listOf (s\<lparr>am_connectMap := m, am_recipientMap := p\<rparr>) = listOf s"
  "stateOf (s\<lparr>am_counts := c\<rparr>) = stateOf s" "targetOf (s\<lparr>am_counts := c\<rparr>) = targetOf s" "pidOf (s\<lparr>am_counts := c\<rparr>) = pidOf s"
  "callbackOf (s\<lparr>am_counts := c\<rparr>) = callbackOf s" "told q (s\<lparr>am_counts := c\<rparr>) = told q s" "services (s\<lparr>am_counts := c\<rparr>) = services s"
  "listOf (s\<lparr>am_counts := c\<rparr>) = listOf s"
  by (simp_all add: ca_reads fun_eq_iff)

lemma register_reads:
  assumes "registerConnection ev rq connect callerToken session indirect sid s = (r, s')" and fresh: "am_nextConn s \<notin> set (listOf s sid)"
  shows "r = am_nextConn s" "am_nextConn s' = Suc r" "stateOf s' = (stateOf s)(r := CONNECTING)" "targetOf s' = (targetOf s)(r := sid)"
    "callbackOf s' = (callbackOf s)(r := Some connect)" "listOf s' = (listOf s)(sid := listOf s sid @ [r])"
    "am_connectMap s' = omap_put connect (GetConnectRecordListFromMap connect s @ [r]) (am_connectMap s)"
    "am_recipientMap s' = (if GetConnectRecordListFromMap connect s \<noteq> [] \<or> connect \<in> set (am_recipientMap s) then am_recipientMap s
       else connect # am_recipientMap s)"
    "am_nextSvc s' = am_nextSvc s" "services s' = services s" "told q s' = told q s"
    and "\<exists>p. pidOf s' = (pidOf s)(r := p) \<and> am_counts s' = omap_put p (omap_at 0 p (am_counts s) + 1) (am_counts s)"
proof -
  define c where "c = (AttachCallerInfo ev indirect (newConnectionRecord callerToken sid connect))\<lparr>cn_state := CONNECTING\<rparr>"
  have c: "cn_state c = CONNECTING" "cn_targetService c = sid" "cn_connCallback c = Some connect"
    by (simp_all add: c_def newConnectionRecord_def)
  have r: "r = am_nextConn s" using assms(1) by (simp add: registerConnection_def Let_def)
  define s1 where "s1 = s\<lparr>am_nextConn := Suc r, am_conn := (am_conn s)(r := c)\<rparr>"
  define s2 where "s2 = (if sv_extType (am_svc s1 sid) = EXT_MODULAR_OBJECT then updSvc sid (\<lambda>v. v\<lparr>sv_clientPid := cn_callerPid c\<rparr>) s1 else s1)"
  define s3 where "s3 = (if isPerConnectionType (sv_extType (am_svc s1 sid)) then SetConnectWant r (rq_want rq) s2 else s2)"
  define s4 where "s4 = AddConnectRecordToList r sid s3"
  define s5 where "s5 = updSvc sid (\<lambda>v. v\<lparr>sv_sessionInfo := session\<rparr>) s4"
  define s6 where "s6 = AddConnectObjectToMap connect (GetConnectRecordListFromMap connect s @ [r]) (GetConnectRecordListFromMap connect s \<noteq> []) s5"
  define s7 where "s7 = HandleConnectionCountIncrement (cn_directCallerPid c) s6"
  define s8 where "s8 = (case rq_sessionInfo rq of
                 Some session \<Rightarrow>
                   if sv_extType (am_svc s1 sid) = EXT_WINDOW \<and> omap_find (am_windowExt s7) connect = None
                   then s7\<lparr>am_windowExt := omap_put connect (er_tokenId (infoOf s7 sid), session) (am_windowExt s7)\<rparr> else s7
               | None \<Rightarrow> s7)"
  have s': "s' = s8"
    using assms(1) unfolding registerConnection_def Let_def r [symmetric] c_def [symmetric] s1_def [symmetric] s2_def [symmetric]
      s3_def [symmetric] s4_def [symmetric] s5_def [symmetric] s6_def [symmetric] s7_def [symmetric] s8_def [symmetric] by simp
  have 1: "am_nextConn s1 = Suc r" "stateOf s1 = (stateOf s)(r := CONNECTING)" "targetOf s1 = (targetOf s)(r := sid)"
    "callbackOf s1 = (callbackOf s)(r := Some connect)" "pidOf s1 = (pidOf s)(r := cn_directCallerPid c)" "listOf s1 = listOf s"
    "am_connectMap s1 = am_connectMap s" "am_counts s1 = am_counts s" "am_recipientMap s1 = am_recipientMap s"
    "am_nextSvc s1 = am_nextSvc s" "services s1 = services s" "told q s1 = told q s" for q
    using c by (simp_all add: s1_def ca_reads fun_eq_iff)
  have "sameReads s1 s2" "sameReads s2 s3" by (auto simp: s2_def s3_def sameReads_refl sameReads_SetConnectWant intro: sameReads_updSvc)
  then have 13: "sameReads s1 s3" by (rule sameReads_trans)
  have "r \<notin> set (listOf s3 sid)" using fresh r 1(6) 13 by (simp add: sameReads_def)
  then have 4: "s4 = updSvc sid (\<lambda>v. v\<lparr>sv_connRecordList := sv_connRecordList v @ [r]\<rparr>) s3" by (simp add: s4_def AddConnectRecordToList_def)
  have 34: "sameReads s3 (s4\<lparr>am_svc := am_svc s3\<rparr>)" "listOf s4 = (listOf s3)(sid := listOf s3 sid @ [r])"
    by (simp_all add: 4 sameReads_def updSvc_def ca_reads fun_eq_iff)
  have 45: "sameReads s4 s5" unfolding s5_def by (rule sameReads_updSvc) simp
  have 56: "sameReads s5 (s6\<lparr>am_connectMap := am_connectMap s5, am_recipientMap := am_recipientMap s5\<rparr>)"
    "am_connectMap s6 = omap_put connect (GetConnectRecordListFromMap connect s @ [r]) (am_connectMap s5)"
    "am_recipientMap s6 = (if GetConnectRecordListFromMap connect s \<noteq> [] \<or> connect \<in> set (am_recipientMap s5) then am_recipientMap s5
       else connect # am_recipientMap s5)"
    by (simp_all add: s6_def AddConnectObjectToMap_def AddConnectDeathRecipient_def Let_def sameReads_def ca_reads fun_eq_iff)
  have 67: "sameReads s6 (s7\<lparr>am_counts := am_counts s6\<rparr>)"
    "am_counts s7 = omap_put (cn_directCallerPid c) (omap_at 0 (cn_directCallerPid c) (am_counts s6) + 1) (am_counts s6)"
    by (simp_all add: s7_def HandleConnectionCountIncrement_def sameReads_def ca_reads fun_eq_iff)
  have 78: "sameReads s7 s8" by (auto simp: s8_def sameReads_refl sameReads_windowExt split: option.split)
  show "r = am_nextConn s" by (rule r)
  show "am_nextConn s' = Suc r" "stateOf s' = (stateOf s)(r := CONNECTING)" "targetOf s' = (targetOf s)(r := sid)"
    "callbackOf s' = (callbackOf s)(r := Some connect)" "listOf s' = (listOf s)(sid := listOf s sid @ [r])"
    "am_connectMap s' = omap_put connect (GetConnectRecordListFromMap connect s @ [r]) (am_connectMap s)"
    "am_recipientMap s' = (if GetConnectRecordListFromMap connect s \<noteq> [] \<or> connect \<in> set (am_recipientMap s) then am_recipientMap s
       else connect # am_recipientMap s)"
    "am_nextSvc s' = am_nextSvc s" "services s' = services s" "told q s' = told q s"
    using 1 13 34 45 56 67 78 unfolding s' by (simp_all add: sameReads_def reads_upd reads_maps)
  show "\<exists>p. pidOf s' = (pidOf s)(r := p) \<and> am_counts s' = omap_put p (omap_at 0 p (am_counts s) + 1) (am_counts s)"
    using 1 13 34 45 56 67 78 unfolding s' by (intro exI [of _ "cn_directCallerPid c"]) (simp add: sameReads_def reads_upd reads_maps)
qed


lemma ca_inv_finite: "ca_inv T D s \<Longrightarrow> finite (registered s)"
  using ca_invD(6,7) [of T D s] by (auto intro: finite_subset [of _ "{..< am_nextConn s}"] simp: live_def)

lemma ca_inv_bound: "ca_inv T D s \<Longrightarrow> r \<in> registered s \<Longrightarrow> r < am_nextConn s"
  using ca_invD(6,7) [of T D s] by (auto simp: live_def)

lemma ca_inv_register:
  assumes inv: "ca_inv T D s" and reg: "registerConnection ev rq connect callerToken session indirect sid s = (r, s')" and sid: "sid < am_nextSvc s"
  shows "ca_inv T D s'" "moves s s'" "stateOf s' r = CONNECTING" "r < am_nextConn s'" "am_nextSvc s' = am_nextSvc s"
proof -
  have "am_nextConn s \<notin> set (listOf s sid)" using ca_invD(8) [OF inv, of sid] by (auto simp: live_def)
  note reads = register_reads [OF reg this]
  obtain p where p: "pidOf s' = (pidOf s)(r := p)" "am_counts s' = omap_put p (omap_at 0 p (am_counts s) + 1) (am_counts s)" using reads(12) by blast
  let ?l = "GetConnectRecordListFromMap connect s"
  have at: "q \<in> set ?l \<longleftrightarrow> (\<exists>l. omap_find (am_connectMap s) connect = Some l \<and> q \<in> set l)" for q
    by (cases "omap_find (am_connectMap s) connect") (auto simp: GetConnectRecordListFromMap_def)
  have old: "set ?l \<subseteq> registered s" by (auto simp: at registered_def)
  have new: "r \<notin> registered s" using ca_inv_bound [OF inv] reads(1) by blast
  have find: "omap_find (am_connectMap s') = (omap_find (am_connectMap s))(connect \<mapsto> ?l @ [r])"
    using ca_invD(1) [OF inv] reads(7) by (simp add: find_omap_put)
  have live: "live s' = insert r (live s)" using reads(1-3) by (auto simp: live_def)
  have regs: "registered s' = insert r (registered s)"
  proof -
    let ?o = "{q. \<exists>o' l. o' \<noteq> connect \<and> omap_find (am_connectMap s) o' = Some l \<and> q \<in> set l}"
    have "registered s' = ?o \<union> set ?l \<union> {r}" by (auto simp: registered_def find)
    moreover have "registered s = ?o \<union> set ?l" by (rule set_eqI) (simp only: registered_def mem_Collect_eq Un_iff at, metis)
    ultimately show ?thesis by auto
  qed
  have in_find: "q \<in> set l \<Longrightarrow> omap_find (am_connectMap s) ob = Some l \<Longrightarrow> q \<in> registered s" for q ob l by (auto simp: registered_def)
  have before: "q \<noteq> r \<Longrightarrow> q \<in> set l \<Longrightarrow> omap_find (am_connectMap s') ob = Some l \<Longrightarrow>
      \<exists>l0. omap_find (am_connectMap s) ob = Some l0 \<and> q \<in> set l0" for q ob l
    by (auto simp: find GetConnectRecordListFromMap_def split: if_splits option.splits)
  have at_r: "r \<in> set l \<Longrightarrow> omap_find (am_connectMap s') ob = Some l \<Longrightarrow> ob = connect" for ob l
    using new in_find by (auto simp: find split: if_splits)
  show "ca_inv T D s'"
  proof (rule ca_invI)
    show "omap_inv (am_connectMap s')" "omap_inv (am_counts s')" using ca_invD(1,2) [OF inv] reads(7) p(2) by (simp_all add: omap_inv_put)
    show "l \<noteq> [] \<and> distinct l" if "omap_find (am_connectMap s') ob = Some l" for ob l
    proof (cases "ob = connect")
      case True
      have "distinct ?l" using ca_invD(3) [OF inv, of connect]
        by (cases "omap_find (am_connectMap s) connect") (simp_all add: GetConnectRecordListFromMap_def)
      then show ?thesis using that True new old by (auto simp: find)
    qed (use that ca_invD(3) [OF inv, of ob l] in \<open>simp add: find\<close>)
    show "callbackOf s' q = None \<or> callbackOf s' q = Some ob" if "omap_find (am_connectMap s') ob = Some l" "q \<in> set l" for ob l q
      using that before [of q l ob] at_r [of l ob] ca_invD(4) [OF inv, of ob _ q] reads(5) by (cases "q = r") auto
    show "ob = ob'" if "omap_find (am_connectMap s') ob = Some l" "omap_find (am_connectMap s') ob' = Some l'" "q \<in> set l" "q \<in> set l'" for ob ob' l l' q
    proof (cases "q = r")
      case False
      then show ?thesis using before [OF False that(3,1)] before [OF False that(4,2)] ca_invD(5) [OF inv] by blast
    qed (use that at_r in blast)
    show "registered s' = live s' \<union> D" using ca_invD(6) [OF inv] regs live by simp
    show "D \<subseteq> {q. q < am_nextConn s' \<and> stateOf s' q = DISCONNECTED}" using ca_invD(7) [OF inv] reads(1-3) by auto
    show "distinct (listOf s' x) \<and> set (listOf s' x) = {q \<in> live s'. targetOf s' q = x}" for x
      using ca_invD(8) [OF inv, of x] reads(1,4,6) live by (auto simp: live_def)
    show "omap_at 0 pid (am_counts s') = int (card {q \<in> registered s'. pidOf s' q = pid}) \<and> omap_find (am_counts s') pid \<noteq> Some 0" for pid
    proof -
      have "{q \<in> registered s'. pidOf s' q = pid} = (if pid = p then insert r {q \<in> registered s. pidOf s q = pid} else {q \<in> registered s. pidOf s q = pid})"
        using new regs p(1) by auto
      then show ?thesis using ca_invD(2) [OF inv] ca_invD(9) [OF inv, of pid] ca_inv_finite [OF inv] new p(2)
        by (auto simp: omap_at_find find_omap_put split: option.splits)
    qed
    show "stateOf s' q \<noteq> INIT \<and> targetOf s' q < am_nextSvc s'" if "q < am_nextConn s'" for q
      using that ca_invD(10,11) [OF inv, of q] reads(1-4,9) sid by (cases "q = r") simp_all
    show "services s' \<subseteq> {..< am_nextSvc s'}" using ca_invD(12) [OF inv] reads(9,10) by simp
    show "distinct (am_recipientMap s')" using ca_invD(13) [OF inv] reads(8) by simp
    show "set (am_recipientMap s') = {ob. omap_find (am_connectMap s') ob \<noteq> None}"
      using ca_invD(14) [OF inv] reads(8) by (auto simp: find GetConnectRecordListFromMap_def split: option.splits)
    show "told q s' = (if q < am_nextConn s' \<and> stateOf s' q = DISCONNECTED then 1 else 0)" if T for q
      using ca_invD(15) [OF inv that, of q] reads(1-3) reads(11) [of q] by (cases "q = r") simp_all
  qed
  show "moves s s'" using reads(1-3) by (auto simp: moves_def)
  show "stateOf s' r = CONNECTING" "r < am_nextConn s'" "am_nextSvc s' = am_nextSvc s" using reads by simp_all
qed


section \<open>The end of a connection\<close>

lemma told_append [simp]: "told q (s\<lparr>am_out := am_out s @ [out]\<rparr>) = told q s + (if tells q out then 1 else 0)"
  by (simp add: told_def)

lemmas end_defs = CompleteDisconnect_def RemoveConnectRecordFromList_def SetConnectState_def updConn_def updSvc_def emit_def Let_def

lemma dropped_ends:
  "dropped r s (RemoveConnectRecordFromList r (targetOf s r) (CompleteDisconnect ERR_OK a b r s))"
  "dropped r s (CompleteDisconnect ERR_OK a b r (RemoveConnectRecordFromList r (targetOf s r) s))"
  "dropped r s (CompleteDisconnect ERR_OK a b r (SetConnectState DISCONNECTED r (RemoveConnectRecordFromList r (targetOf s r)
     (SetConnectState DISCONNECTING r s))))"
  by (auto simp: dropped_def sameConnections_def end_defs ca_reads fun_eq_iff)

lemma dropped_adv_trans: "dropped r s s' \<Longrightarrow> adv s' s'' \<Longrightarrow> callbackOf s'' = callbackOf s' \<Longrightarrow> stateOf s'' = stateOf s' \<Longrightarrow> dropped r s s''"
  by (auto simp: dropped_def adv_def intro: same_trans)

lemma ca_inv_dropped_live:
  assumes "ca_inv T D s" "dropped r s s'" "r \<in> live s"
  shows "ca_inv T (insert r D) s'" "moves s s'" "live s' = live s - {r}"
  using ca_inv_dropped [OF assms(1,2)] dropped_moves [OF assms(2)] assms(2,3) by (auto simp: live_def dropped_def sameConnections_def)

lemma drop_unmap:
  assumes "ca_inv T {} s" "dropped r s s'" "r \<in> live s"
  shows "ca_inv T {} (RemoveConnectionRecordFromMap r s')" "moves s (RemoveConnectionRecordFromMap r s')"
  using ca_inv_unmap [OF ca_inv_dropped_live(1) [OF assms], of r] moves_trans [OF dropped_moves [OF assms(2)] unmap_moves [of s' r]] by auto

lemma dropLoop_inv:
  assumes "ca_inv T {} s" "distinct rs" "set rs \<subseteq> set (listOf s sid)"
  shows "ca_inv T {} (dropLoop cancel sid rs s) \<and> moves s (dropLoop cancel sid rs s)"
  using assms
proof (induction rs arbitrary: s)
  case (Cons r rs)
  define s1 where "s1 = (if cancel then RemoveExtensionDelayDisconnectTask r s else s)"
  have a: "adv s s1" by (simp add: s1_def advs)
  have r: "r \<in> live s1" "targetOf s1 r = sid" and l: "listOf s1 = listOf s"
    using ca_invD(8) [OF Cons.prems(1), of sid] Cons.prems(3) adv_live [OF a] a by (auto simp: adv_def sameConnections_def)
  let ?c = "RemoveConnectRecordFromList r sid (CompleteDisconnect ERR_OK False True r s1)"
  have d: "dropped r s1 ?c" using dropped_ends(1) [of r s1] r(2) by simp
  note inv1 = ca_inv_adv [OF Cons.prems(1) a]
  let ?u = "RemoveConnectionRecordFromMap r ?c"
  have "set rs \<subseteq> set (listOf ?u sid)" using d l r(2) Cons.prems(2,3) by (auto simp: dropped_def)
  from Cons.IH [OF drop_unmap(1) [OF inv1 d r(1)] _ this] Cons.prems(2)
  have "ca_inv T {} (dropLoop cancel sid rs ?u) \<and> moves ?u (dropLoop cancel sid rs ?u)" by simp
  moreover have "dropLoop cancel sid (r # rs) s = dropLoop cancel sid rs ?u" by (simp add: s1_def Let_def)
  ultimately show ?case using adv_moves [OF a] drop_unmap(2) [OF inv1 d r(1)] by (auto intro: moves_trans)
qed simp

lemma dropAll_inv:
  assumes "ca_inv T {} s"
  shows "ca_inv T {} (dropLoop cancel sid (filter P (listOf s sid)) s)" "moves s (dropLoop cancel sid (filter P (listOf s sid)) s)"
    and "ca_inv T {} (dropLoop cancel sid (listOf s sid) s)" "moves s (dropLoop cancel sid (listOf s sid) s)"
  using dropLoop_inv [OF assms] ca_invD(8) [OF assms, of sid] by auto

lemma DisconnectAbility_cases:
  obtains (refused) "stateOf s r \<noteq> CONNECTED" "DisconnectAbility r s = (INVALID_CONNECTION_STATE, s)"
  | (asked) s' where "stateOf s r = CONNECTED" "DisconnectAbility r s = (ERR_OK, s')" "adv s s'" "stateOf s' r = DISCONNECTING"
  | (ended) s' where "stateOf s r = CONNECTED" "DisconnectAbility r s = (ERR_OK, s')" "stateOf s' r = DISCONNECTED"
      "\<And>a b. dropped r s (CompleteDisconnect ERR_OK a b r s')"
proof (cases "stateOf s r = CONNECTED")
  case True
  let ?a = "SetConnectState DISCONNECTING r s" and ?sid = "targetOf s r"
  have a: "adv s ?a" using True by (intro adv_state) simp_all
  have st: "stateOf (DisconnectAbilityWithWant ?sid ?a) = stateOf ?a" "stateOf (svc_DisconnectAbility ?sid ?a) = stateOf ?a"
    by (simp_all add: DisconnectAbilityWithWant_def svc_DisconnectAbility_def Let_def)
  show thesis
  proof (cases "length (listOf ?a ?sid) = 1 \<or> isPerConnectionType (sv_extType (am_svc ?a ?sid))")
    case per: True
    show thesis
    proof (rule asked [OF True])
      show "DisconnectAbility r s = (ERR_OK, if isPerConnectionType (sv_extType (am_svc ?a ?sid)) then DisconnectAbilityWithWant ?sid ?a
          else svc_DisconnectAbility ?sid ?a)"
        using True per by (simp add: DisconnectAbility_def Let_def)
    qed (use st a in \<open>auto intro: adv_trans advs\<close>)
  next
    case False
    show thesis
    proof (rule ended [OF True _ _ dropped_ends(3)])
      show "DisconnectAbility r s = (ERR_OK, SetConnectState DISCONNECTED r (RemoveConnectRecordFromList r ?sid ?a))"
        using True False by (simp add: DisconnectAbility_def Let_def)
    qed simp
  qed
qed (auto simp: DisconnectAbility_def intro: refused)


lemma INVALID_not_OK [simp]: "INVALID_CONNECTION_STATE \<noteq> ERR_OK"
  by (simp add: INVALID_CONNECTION_STATE_def ERR_OK_def)

lemma DisconnectRecordNormal_cases:
  assumes inv: "ca_inv T (set list) s" and r: "r \<in> live s"
    and n: "DisconnectRecordNormal r callerDied list s = (result, list', s')"
  obtains (refused) "result = INVALID_CONNECTION_STATE" "list' = list" "s' = s" "stateOf s r \<noteq> CONNECTED"
  | (asked) "result = ERR_OK" "list' = list" "adv s s'" "stateOf s' r = DISCONNECTING"
  | (ended) "result = ERR_OK" "list' = list @ [r]" "dropped r s s'"
proof (cases rule: DisconnectAbility_cases [where s = s and r = r])
  case refused then show thesis using n that by (auto simp: DisconnectRecordNormal_def)
next
  case (asked s1) then show thesis using n that by (auto simp: DisconnectRecordNormal_def)
next
  case (ended s1) then show thesis using n that by (auto simp: DisconnectRecordNormal_def)
qed

lemma DisconnectRecordForce_dropped:
  assumes "DisconnectRecordForce ev r list s = (list', s')"
  shows "list' = list @ [r]" "\<exists>t. dropped r s t \<and> adv t s'"
proof -
  let ?t = "CompleteDisconnect ERR_OK True False r (RemoveConnectRecordFromList r (targetOf s r) s)"
  have "adv ?t s'" using assms by (auto simp: DisconnectRecordForce_def Let_def intro: advs split: if_splits)
  then show "\<exists>t. dropped r s t \<and> adv t s'" using dropped_ends(2) by blast
  show "list' = list @ [r]" using assms by (auto simp: DisconnectRecordForce_def Let_def)
qed

text \<open>One record of the loop of \<open>DisconnectAbilityLocked\<close>.\<close>

definition disconnectOne :: "ca_env \<Rightarrow> bool \<Rightarrow> nat \<Rightarrow> nat list \<Rightarrow> ca_mgr \<Rightarrow> int \<times> nat list \<times> ca_mgr" where
  "disconnectOne ev callerDied r list s =
     (let (result, list, s) = DisconnectRecordNormal r callerDied list s
      in if result \<noteq> ERR_OK \<and> callerDied then let (list, s) = DisconnectRecordForce ev r list s in (ERR_OK, list, s) else (result, list, s))"

lemma disconnectOne_inv:
  assumes inv: "ca_inv T (set list) s" and r: "r \<in> live s" and dist: "distinct list"
    and one: "disconnectOne ev callerDied r list s = (result, list', s')"
  shows "ca_inv T (set list') s'" "moves s s'" "distinct list'" "live s - {r} \<subseteq> live s'"
proof -
  have new: "r \<notin> set list" using r ca_invD(7) [OF inv] by (auto simp: live_def)
  obtain res0 list0 s0 where n: "DisconnectRecordNormal r callerDied list s = (res0, list0, s0)" by (metis prod_cases3)
  have drop: "ca_inv T (set (list @ [r])) x \<and> moves s x \<and> distinct (list @ [r]) \<and> live s - {r} \<subseteq> live x"
    if "dropped r s t" "adv t x" for t x
    using ca_inv_dropped_live [OF inv that(1) r] ca_inv_adv [OF _ that(2), of T "insert r (set list)"] adv_moves [OF that(2)] adv_live [OF that(2)]
      dist new by (auto intro: moves_trans)
  have keep: "ca_inv T (set list) x \<and> moves s x \<and> live s - {r} \<subseteq> live x" if "adv s x" for x
    using ca_inv_adv [OF inv that] adv_moves [OF that] adv_live [OF that] by auto
  have "ca_inv T (set list') s' \<and> moves s s' \<and> distinct list' \<and> live s - {r} \<subseteq> live s'"
    using inv r n
  proof (cases rule: DisconnectRecordNormal_cases)
    case refused
    show ?thesis
    proof (cases callerDied)
      case True
      obtain l1 s1 where f: "DisconnectRecordForce ev r list s = (l1, s1)" by force
      then have "list' = l1" "s' = s1" using one n refused True by (auto simp: disconnectOne_def)
      then show ?thesis using DisconnectRecordForce_dropped [OF f] drop by auto
    qed (use one n refused inv dist in \<open>auto simp: disconnectOne_def\<close>)
  next
    case asked then show ?thesis using one n dist keep by (auto simp: disconnectOne_def)
  next
    case ended then show ?thesis using one n drop [OF _ adv_refl] by (auto simp: disconnectOne_def)
  qed
  then show "ca_inv T (set list') s'" "moves s s'" "distinct list'" "live s - {r} \<subseteq> live s'" by simp_all
qed

lemma disconnectLoop_one:
  "disconnectLoop ev callerDied (r # rs) result list s =
     (let v = am_svc s (targetOf s r);
          s = (if sv_type v = EXTENSION then RemoveExtensionDelayDisconnectTask r s else s);
          agent = (sv_extType v = EXT_AGENT);
          verified = (if ev_VerifyAgentDisconnect ev r \<noteq> ERR_OK then ev_VerifyAgentDisconnect ev r else ev_ApplyIdentity ev r)
      in if agent \<and> verified \<noteq> ERR_OK then (verified, list, s)
         else if \<not> agent \<and> cn_directCallerTokenId (am_conn s r) \<noteq> ev_callingTokenId ev \<and> ev_selfTokenId ev \<noteq> ev_callingTokenId ev
         then disconnectLoop ev callerDied rs result list s
         else let (result, list, s) = disconnectOne ev callerDied r list s
              in if result \<noteq> ERR_OK then (result, list, s) else disconnectLoop ev callerDied rs result list s)"
  by (simp only: disconnectLoop.simps disconnectOne_def Let_def split_beta)

lemma disconnectLoop_inv:
  assumes "ca_inv T (set list) s" "distinct list" "distinct rs" "set rs \<subseteq> live s" "disconnectLoop ev callerDied rs result list s = (res, list', s')"
  shows "ca_inv T (set list') s' \<and> distinct list' \<and> moves s s'"
  using assms
proof (induction rs arbitrary: result list s)
  case (Cons r rs)
  define s1 where "s1 = (if sv_type (am_svc s (targetOf s r)) = EXTENSION then RemoveExtensionDelayDisconnectTask r s else s)"
  have a: "adv s s1" by (simp add: s1_def advs)
  have inv1: "ca_inv T (set list) s1" "r \<in> live s1" "set rs \<subseteq> live s1" "moves s s1"
    using ca_inv_adv [OF Cons.prems(1) a] adv_live [OF a] adv_moves [OF a] Cons.prems(4) by auto
  obtain res1 l2 s2 where o: "disconnectOne ev callerDied r list s1 = (res1, l2, s2)" by (metis prod_cases3)
  note one = disconnectOne_inv [OF inv1(1,2) Cons.prems(2) o]
  have rs: "set rs \<subseteq> live s2" "distinct rs" using one(4) inv1(3) Cons.prems(3) by auto
  let ?P = "ca_inv T (set list') s' \<and> distinct list' \<and> moves s s'"
  have skip: "disconnectLoop ev callerDied rs result list s1 = (res, list', s') \<Longrightarrow> ?P"
    using Cons.IH [OF inv1(1) Cons.prems(2) rs(2) inv1(3)] inv1(4) by (blast intro: moves_trans)
  have next_one: "disconnectLoop ev callerDied rs res1 l2 s2 = (res, list', s') \<Longrightarrow> ?P"
    using Cons.IH [OF one(1,3) rs(2,1)] one(2) inv1(4) by (blast intro: moves_trans)
  have stop: "list' = list \<Longrightarrow> s' = s1 \<Longrightarrow> ?P" "list' = l2 \<Longrightarrow> s' = s2 \<Longrightarrow> ?P"
    using inv1 one Cons.prems(2) by (auto intro: moves_trans)
  show ?case using Cons.prems(5) skip next_one stop unfolding disconnectLoop_one Let_def s1_def [symmetric] o by (auto split: if_splits)
qed simp


section \<open>Every handler keeps the invariant\<close>

definition keeps :: "bool \<Rightarrow> ca_mgr \<Rightarrow> ca_mgr \<Rightarrow> bool" where
  "keeps T s s' \<longleftrightarrow> (ca_inv T {} s \<longrightarrow> ca_inv T {} s' \<and> moves s s')"

named_theorems kept \<open>operations that keep the invariant\<close>

lemma keepsI: "(ca_inv T {} s \<Longrightarrow> ca_inv T {} s' \<and> moves s s') \<Longrightarrow> keeps T s s'"
  by (simp add: keeps_def)

lemma keeps_trans: "keeps T s s' \<Longrightarrow> keeps T s' s'' \<Longrightarrow> keeps T s s''"
  unfolding keeps_def by (blast intro: moves_trans)

lemma keeps_adv: "adv s s' \<Longrightarrow> keeps T s s'"
  by (simp add: keeps_def ca_inv_adv adv_moves)

lemma keeps_adv_inv: "(ca_inv T {} s \<Longrightarrow> adv s s') \<Longrightarrow> keeps T s s'"
  by (simp add: keeps_def ca_inv_adv adv_moves)

lemma keeps_refl [simp]: "keeps T s s"
  by (simp add: keeps_def)

lemma keeps_drop [kept]:
  "keeps T s (dropLoop cancel sid (listOf s sid) s)" "keeps T s (dropLoop cancel sid (filter P (listOf s sid)) s)"
  "keeps T s (dropLoop cancel sid (GetConnectingRecordList sid s) s)"
  by (auto simp: keeps_def GetConnectingRecordList_def dropAll_inv)

lemma keeps_drop_adv: "keeps T s s' \<Longrightarrow> adv s' s'' \<Longrightarrow> keeps T s s''"
  by (blast intro: keeps_trans keeps_adv)

lemma keeps_emit: "keeps T s s' \<Longrightarrow> (\<And>r. \<not> tells r out) \<Longrightarrow> keeps T s (emit out s')"
  by (blast intro: keeps_drop_adv adv_emit)

lemma adv_keeps: "adv s s' \<Longrightarrow> keeps T s' s'' \<Longrightarrow> keeps T s s''"
  by (blast intro: keeps_trans keeps_adv)

lemma keeps_Disconnect [kept]: "keeps T s (snd (DisconnectAbilityLocked ev connect callerDied s))"
proof (rule keepsI)
  assume inv: "ca_inv T {} s"
  let ?rs = "case connect of None \<Rightarrow> [] | Some c \<Rightarrow> GetConnectRecordListFromMap c s"
  have rs: "distinct ?rs" "set ?rs \<subseteq> live s"
  proof -
    have "set (GetConnectRecordListFromMap c s) \<subseteq> live s \<and> distinct (GetConnectRecordListFromMap c s)" for c
    proof (cases "omap_find (am_connectMap s) c")
      case (Some l)
      then have "set l \<subseteq> registered s" by (auto simp: registered_def)
      then show ?thesis using Some ca_invD(3) [OF inv Some] ca_invD(6) [OF inv] by (simp add: GetConnectRecordListFromMap_def)
    qed (simp add: GetConnectRecordListFromMap_def)
    then show "distinct ?rs" "set ?rs \<subseteq> live s" by (cases connect; simp)+
  qed
  obtain res list s1 where loop: "disconnectLoop ev callerDied ?rs ERR_OK [] s = (res, list, s1)" by (metis prod_cases3)
  have "ca_inv T (set list) s1 \<and> distinct list \<and> moves s s1" using disconnectLoop_inv [OF _ _ rs loop] inv by simp
  then have "ca_inv T {} (fold RemoveConnectionRecordFromMap list s1) \<and> moves s (fold RemoveConnectionRecordFromMap list s1)"
    using ca_inv_unmap_list [of T "{}" list s1] by (auto intro: moves_trans)
  then show "ca_inv T {} (snd (DisconnectAbilityLocked ev connect callerDied s)) \<and> moves s (snd (DisconnectAbilityLocked ev connect callerDied s))"
    using inv loop by (simp add: DisconnectAbilityLocked_def Let_def)
qed

lemma adv_clearCallbacks: "adv s (clearCallbacks rs s)"
  unfolding clearCallbacks_def by (rule adv_fold) (rule adv_updConn, simp_all)

lemma keeps_CallbackDied [kept]: "keeps T s (HandleCallBackDiedTask ev connect s)"
proof -
  let ?w = "s\<lparr>am_windowExt := omap_erase connect (am_windowExt s)\<rparr>"
  have "keeps T s ?w" by (simp add: keeps_adv)
  moreover have "keeps T ?w (clearCallbacks l ?w)" for l by (simp add: keeps_adv adv_clearCallbacks)
  ultimately show ?thesis unfolding HandleCallBackDiedTask_def Let_def by (auto split: option.split intro: keeps_trans kept)
qed

text \<open>The delayed disconnection tells the end of a connection that has ended a second time: only without the count of reports
  does it keep the invariant there.\<close>

lemma ca_inv_untold: "ca_inv False D (s\<lparr>am_out := x\<rparr>) \<longleftrightarrow> ca_inv False D s"
proof -
  have "stateOf (s\<lparr>am_out := x\<rparr>) = stateOf s" "targetOf (s\<lparr>am_out := x\<rparr>) = targetOf s" "listOf (s\<lparr>am_out := x\<rparr>) = listOf s"
    "pidOf (s\<lparr>am_out := x\<rparr>) = pidOf s" "callbackOf (s\<lparr>am_out := x\<rparr>) = callbackOf s" "services (s\<lparr>am_out := x\<rparr>) = services s"
    by (simp_all add: ca_reads fun_eq_iff)
  moreover from this have "live (s\<lparr>am_out := x\<rparr>) = live s" "registered (s\<lparr>am_out := x\<rparr>) = registered s" by (simp_all add: live_def registered_def)
  ultimately show ?thesis by (simp add: ca_inv_def)
qed

lemma told_again:
  assumes inv: "ca_inv False {} s" and st: "stateOf s r = DISCONNECTED"
  shows "ca_inv False {} (CompleteDisconnect ERR_OK a b r s)" "moves s (CompleteDisconnect ERR_OK a b r s)"
    "RemoveConnectionRecordFromMap r (CompleteDisconnect ERR_OK a b r s) = CompleteDisconnect ERR_OK a b r s"
proof -
  let ?c = "CompleteDisconnect ERR_OK a b r s"
  have "adv s (?c\<lparr>am_out := am_out s\<rparr>)" using st by (auto simp: adv_def sameConnections_def end_defs ca_reads fun_eq_iff)
  then have 1: "ca_inv False {} (?c\<lparr>am_out := am_out s\<rparr>)" by (rule ca_inv_adv [OF inv])
  then show "ca_inv False {} ?c" by (simp only: ca_inv_untold)
  show "moves s ?c" using st by (auto simp: moves_def end_defs ca_reads)
  have "r \<notin> registered ?c" using ca_invD(6) [OF inv] st by (auto simp: registered_def live_def end_defs)
  then show "RemoveConnectionRecordFromMap r ?c = ?c" using ca_invD(1) [OF \<open>ca_inv False {} ?c\<close>] by (intro unmap_none) simp_all
qed

lemma keeps_delayed:
  assumes r: "r < am_nextConn s" and guard: "T \<Longrightarrow> stateOf s r \<noteq> DISCONNECTED"
  shows "keeps T s (HandleExtensionDisconnectTask r s)"
proof (rule keepsI)
  assume inv: "ca_inv T {} s"
  show "ca_inv T {} (HandleExtensionDisconnectTask r s) \<and> moves s (HandleExtensionDisconnectTask r s)"
  proof (cases rule: DisconnectAbility_cases [where s = s and r = r])
    case refused
    show ?thesis
    proof (cases "stateOf s r = DISCONNECTED")
      case True
      then have "\<not> T" using guard by blast
      then show ?thesis using refused True told_again [of s r] inv by (simp add: HandleExtensionDisconnectTask_def)
    qed (use refused inv in \<open>simp add: HandleExtensionDisconnectTask_def\<close>)
  next
    case (asked s')
    then show ?thesis using inv by (auto simp: HandleExtensionDisconnectTask_def ca_inv_adv adv_moves)
  next
    case (ended s')
    moreover have "r \<in> live s" using r ended(1) by (simp add: live_def)
    ultimately show ?thesis using drop_unmap [OF inv, of r] by (simp add: HandleExtensionDisconnectTask_def)
  qed
qed


lemma adv_relabel:
  "adv s (s\<lparr>am_serviceMap := m, am_cache := c\<rparr>)" if "snd ` set m \<union> cached c \<subseteq> services s"
  using that by (intro adv_services) (simp add: services_def)

lemma TerminateOrCache_adv:
  assumes "TerminateOrCacheAbility ev sid s = Inr s'" and sid: "sid \<in> services s"
  shows "adv s s'"
proof (cases "\<not> IsSceneBoard sid s \<and> IsCacheExtensionAbility ev sid s")
  case True
  let ?m = "omap_erase (GetServiceKey s sid) (am_serviceMap s)"
  from assms(1) True obtain old c where p: "Put (Some sid) (am_cache s) = Inr (old, c)"
    and s': "s' = (case old of None \<Rightarrow> s\<lparr>am_serviceMap := ?m, am_cache := c\<rparr>
      | Some old \<Rightarrow> ProcessEliminateAbilityRecord old (s\<lparr>am_serviceMap := ?m, am_cache := c\<rparr>))"
    by (auto simp: TerminateOrCacheAbility_def RemoveServiceFromMapSafe_def cpp_bind_def Let_def split: sum.splits)
  let ?r = "s\<lparr>am_serviceMap := ?m, am_cache := c\<rparr>"
  have m: "snd ` set ?m \<subseteq> services s"
    using subset_trans [OF image_mono [OF set_omap_erase_subset] serviceMap_services(1)] .
  have ins: "insert sid (cached (am_cache s)) \<subseteq> services s" using serviceMap_services(2) [of s] sid by simp
  have c: "cached c \<subseteq> services s" using subset_trans [OF cached_Put(1) [OF p] ins] .
  have r: "adv s ?r" using m c by (intro adv_relabel) simp
  have sub: "services ?r \<subseteq> services s" using m c by (simp add: services_def)
  have "adv s (ProcessEliminateAbilityRecord t ?r)" if "old = Some t" for t
  proof -
    have "t \<in> services s" using cached_Put(2) [OF p that] ins by (rule rev_subsetD)
    then have "services (AddToServiceMap k t ?r) \<subseteq> services s" for k using services_AddToServiceMap [of k t ?r] sub by blast
    then have "adv s (AddToServiceMap (GetServiceKey ?r t) t ?r)" by (intro adv_AddToServiceMap_after [OF r]) blast
    then show ?thesis unfolding ProcessEliminateAbilityRecord_def by (rule adv_trans [OF _ advs_TerminateRecord])
  qed
  then show ?thesis using s' r by (cases old) simp_all
next
  case False
  then show ?thesis using assms(1) by (auto simp: TerminateOrCacheAbility_def advs split: if_splits)
qed


lemma find_member: "find P xs = Some x \<Longrightarrow> P x \<and> x \<in> set xs"
  by (auto simp: find_Some_iff)

lemma byToken_services: "GetExtensionByTokenFromServiceMap token s = Some sid \<Longrightarrow> sid \<in> services s"
  by (auto simp: GetExtensionByTokenFromServiceMap_def services_def dest!: find_member)

lemma keeps_DisconnectDone:
  assumes answer: "ScheduleDisconnectAbilityDoneLocked ev token s = Inr (ret, s')"
  shows "keeps T s s'"
proof (rule keepsI)
  assume inv: "ca_inv T {} s"
  show "ca_inv T {} s' \<and> moves s s'"
  proof (cases "s' = s")
    case False
    with answer obtain sid r where sid: "GetExtensionByTokenFromServiceMap token s = Some sid" and r: "GetDisconnectingRecord sid s = Some r"
      and rest: "cpp_bind (CleanupConnectionAndTerminateIfNeeded ev sid (RemoveConnectRecordFromList r sid (rec_ScheduleDisconnectAbilityDone r s)))
         (\<lambda>s. Inr (ERR_OK, RemoveConnectionRecordFromMap r s)) = Inr (ret, s')"
      by (auto simp: ScheduleDisconnectAbilityDoneLocked_def Let_def split: if_splits option.splits)
    let ?d = "RemoveConnectRecordFromList r sid (rec_ScheduleDisconnectAbilityDone r s)"
    from rest obtain s2 where c: "CleanupConnectionAndTerminateIfNeeded ev sid ?d = Inr s2" and s': "s' = RemoveConnectionRecordFromMap r s2"
      by (auto simp: cpp_bind_def split: sum.splits)
    have st: "stateOf s r = DISCONNECTING" "r \<in> set (listOf s sid)" using find_member [OF r [unfolded GetDisconnectingRecord_def]] by auto
    then have live: "r \<in> live s" "targetOf s r = sid" using ca_invD(8) [OF inv, of sid] by auto
    have d: "dropped r s ?d" using dropped_ends(1) [of r s] st(1) live(2) by (simp add: rec_ScheduleDisconnectAbilityDone_def)
    have "services ?d = services s" using st(1) by (simp add: rec_ScheduleDisconnectAbilityDone_def end_defs services_def)
    then have "sid \<in> services ?d" using byToken_services [OF sid] by simp
    then have a: "adv ?d s2" using c TerminateOrCache_adv by (auto simp: CleanupConnectionAndTerminateIfNeeded_def split: if_splits)
    have "ca_inv T {r} s2" using ca_inv_adv [OF ca_inv_dropped_live(1) [OF inv d live(1)] a] by simp
    then show ?thesis using ca_inv_unmap [of T "{r}" s2 r] s' dropped_moves [OF d] adv_moves [OF a] unmap_moves by (auto intro: moves_trans)
  qed (simp add: inv)
qed

lemma adv_SetPid: "adv s (svc_SetPid sid pid s)"
  by (simp add: svc_SetPid_def adv_def sameConnections_def ca_reads cached_def fun_eq_iff)

lemma adv_Attach: "adv s (snd (AttachAbilityThreadInner token s))"
  by (auto simp: AttachAbilityThreadInner_def intro: adv_updSvc split: option.split)

lemma adv_DispatchInactive: "adv s (snd (DispatchInactive sid s))"
proof -
  let ?a = "updSvc sid (\<lambda>v. v\<lparr>sv_state := INACTIVE\<rparr>) s"
  have "adv s ?a" by (rule adv_updSvc) simp
  moreover have "adv ?a (ConnectAbility sid ?a)" "adv ?a (CommandAbility sid ?a)"
    "adv (CommandAbility sid ?a) (ConnectAbility sid (UpdateConnectWant sid (CommandAbility sid ?a)))"
    by (blast intro: advs adv_trans)+
  ultimately show ?thesis unfolding DispatchInactive_def Let_def by (auto intro: adv_trans)
qed

lemma adv_Dispatch: "adv s (snd (DispatchForeground sid s))" "adv s (snd (DispatchBackground sid s))" "adv s (snd (DispatchTerminate sid s))"
  by (simp_all add: DispatchForeground_def DispatchBackground_def DispatchTerminate_def adv_emit_after adv_emit advs)

lemma adv_Transition: "adv s (snd (AbilityTransitionDone token st s))"
  by (cases st) (simp_all add: AbilityTransitionDone_def adv_DispatchInactive adv_Dispatch split: option.split)

lemma keeps_CompleteStart: "adv s s' \<Longrightarrow> keeps T s (CompleteStartServiceReq ev uri s')"
  by (rule adv_keeps [OF _ keeps_adv_inv [OF CompleteStart_adv]])

lemma keeps_foreground: "keeps T s (CompleteForeground ev sid s)" "keeps T s (HandleForegroundTimeoutTask ev sid s)"
  by (simp_all add: CompleteForeground_def HandleForegroundTimeoutTask_def Let_def keeps_CompleteStart adv_updSvc)

lemma keeps_ConnectDone: "keeps T s (snd (ScheduleConnectAbilityDoneLocked ev token remoteObject s))"
proof (cases "GetAbilityRecordByToken token s")
  case (Some sid)
  define s1 where "s1 = updSvc sid (\<lambda>v. v\<lparr>sv_connRemoteObject := remoteObject\<rparr>) (RemoveSignatureInfo sid (RemoveConnectWant sid s))"
  have 1: "adv s s1" unfolding s1_def by (intro adv_updSvc_after) (blast intro: adv_trans advs, simp)
  have "adv s1 (connectDoneLoop ev p rs s1)" for p rs by (rule advs)
  then have "keeps T s (CompleteStartServiceReq ev uri (connectDoneLoop ev p rs s1))" for uri p rs
    using keeps_adv [OF adv_trans [OF 1]] keeps_adv_inv [OF CompleteStart_adv] by (blast intro: keeps_trans)
  then show ?thesis using Some by (simp add: ScheduleConnectAbilityDoneLocked_def Let_def s1_def [symmetric])
qed (simp add: ScheduleConnectAbilityDoneLocked_def)

lemma keeps_CommandDone: "keeps T s (snd (ScheduleCommandAbilityDoneLocked ev token s))"
proof (cases "GetAbilityRecordByToken token s")
  case (Some sid)
  define s1 where "s1 = updSvc sid (\<lambda>v. v\<lparr>sv_state := ACTIVE\<rparr>) (RemoveSignatureInfo sid s)"
  define s2 where "s2 = CompleteStartServiceReq ev (er_uri (infoOf s1 sid)) s1"
  have "adv s s1" unfolding s1_def by (intro adv_updSvc_after advs) simp
  then have "keeps T s s2" unfolding s2_def by (rule keeps_trans [OF keeps_adv keeps_adv_inv [OF CompleteStart_adv]])
  moreover have "adv s2 (ConnectAbility sid (UpdateConnectWant sid s2))" by (blast intro: adv_trans advs)
  ultimately show ?thesis using Some
    by (auto simp: ScheduleCommandAbilityDoneLocked_def CompleteCommandAbility_def Let_def s1_def [symmetric] s2_def [symmetric] intro: keeps_drop_adv)
qed (simp add: ScheduleCommandAbilityDoneLocked_def)


lemma keeps_AbilityDied: "keeps T s (HandleAbilityDiedTask ev sid s)"
proof -
  let ?a = "updSvc sid (\<lambda>v. v\<lparr>sv_connRemoteObject := None\<rparr>) s"
  have "keeps T s (HandleConnectRecordOnAbilityDied sid s)"
    unfolding HandleConnectRecordOnAbilityDied_def Let_def by (rule adv_keeps [OF adv_updSvc keeps_drop(1)]) simp
  moreover have "adv x (snd (HandleExtensionAbilityRemove ev sid x))" for x
  proof -
    have "adv y (RemoveServiceAbility sid (MoveToTerminatingMap sid y))" for y by (blast intro: adv_trans advs)
    note mv = this
    have "adv x (RemoveServiceAbility sid (MoveToTerminatingMap sid (x\<lparr>am_cache := ac_Remove (Some sid) (am_cache x)\<rparr>)))"
      by (rule adv_trans [OF adv_cache_remove mv])
    then show ?thesis using mv by (simp add: HandleExtensionAbilityRemove_def Let_def)
  qed
  ultimately have "keeps T s (snd (HandleExtensionAbilityRemove ev sid (HandleConnectRecordOnAbilityDied sid s)))" by (rule keeps_drop_adv)
  then show ?thesis by (auto simp: HandleAbilityDiedTask_def Let_def split_beta keeps_emit)
qed

lemma keeps_StartTimeout: "keeps T s (HandleStartTimeoutTask ev sid s)"
proof -
  let ?d = "dropLoop False sid (GetConnectingRecordList sid s) s"
  let ?e = "emit (AttachTimeOut sid) (RemoveServiceAbility sid (MoveToTerminatingMap sid ?d))"
  have d: "keeps T s ?d" by (rule kept)
  have "adv ?d (RemoveServiceAbility sid (MoveToTerminatingMap sid ?d))" by (blast intro: adv_trans advs)
  then have e: "adv ?d ?e" by (rule adv_emit_after) simp
  have "adv ?d (emit (RestartAbilityOut sid) ?e)" by (rule adv_emit_after [OF e]) simp
  then show ?thesis using d keeps_drop_adv [OF d] e unfolding HandleStartTimeoutTask_def Let_def by simp
qed

lemma keeps_ConnectTimeout: "keeps T s (HandleConnectTimeoutTask sid s)"
  unfolding HandleConnectTimeoutTask_def Let_def by (auto intro: kept keeps_drop_adv [OF keeps_drop(1) advs_TerminateRecord])

lemma keeps_ActivateTimeout: "keeps T s (CleanActivatingTimeoutAbility ev sid s)"
proof -
  have "keeps T s (TerminateRecord sid (dropLoop False sid (listOf s sid) s))" by (rule keeps_drop_adv [OF keeps_drop(1) advs_TerminateRecord])
  then show ?thesis unfolding CleanActivatingTimeoutAbility_def Let_def by (simp add: keeps_emit)
qed

lemma keeps_timeouts: "keeps T s (HandleInactiveTimeout ev sid s)" "keeps T s (HandleCommandTimeoutTask ev sid s)"
  by (simp_all add: HandleInactiveTimeout_def HandleCommandTimeoutTask_def keeps_ActivateTimeout keeps_adv adv_emit)

lemma keeps_OnTimeOut: "keeps T s (OnTimeOut ev msgId i isHalf s)"
  unfolding OnTimeOut_def
  by (auto simp: keeps_StartTimeout keeps_timeouts keeps_foreground keeps_ConnectTimeout split: option.split timeout_msg.split)

lemma keeps_TerminateLocked: "keeps T s (snd (TerminateAbilityLocked token s))"
  by (auto simp: TerminateAbilityLocked_def intro: keeps_drop_adv [OF keeps_drop(1)] advs split: option.split)

lemma keeps_background: "keeps T s (CompleteBackground ev sid s)"
proof -
  let ?b = "emit (MoveToBackgroundOut sid) (updSvc sid (\<lambda>v. v\<lparr>sv_state := BACKGROUND\<rparr>) s)"
  have "keeps T s (CompleteStartServiceReq ev uri ?b)" for uri by (intro keeps_CompleteStart adv_emit_after adv_updSvc) simp_all
  then show ?thesis unfolding CompleteBackground_def Let_def by (auto intro: keeps_trans keeps_TerminateLocked split: option.split)
qed

lemma keeps_Terminate: "keeps T s (snd (TerminateAbility token s))"
proof -
  have "keeps T x (snd (TerminateAbilityLocked token x))" for x by (rule keeps_TerminateLocked)
  then have "keeps T s (snd (TerminateAbilityLocked token (MoveToTerminatingMap sid s)))" for sid by (rule adv_keeps [OF advs_terminate])
  then show ?thesis unfolding TerminateAbility_def by (auto split: option.split)
qed

lemma keeps_Stop: "keeps T s (snd (StopServiceAbilityLocked ev rq s))"
proof -
  let ?key = "GetServiceKeyOfRequest ev rq" and ?all = "ev\<lparr>ev_IsCacheExtension := \<lambda>_ _ _. True\<rparr>"
  define p where "p = (case omap_find (am_serviceMap s) ?key of Some t \<Rightarrow> (Some t, s) | None \<Rightarrow> cachedService ?all rq ?key s)"
  have stop: "snd (StopServiceAbilityLocked ev rq s) =
      (case fst p of None \<Rightarrow> snd p | Some sid \<Rightarrow> if sv_isTerminating (am_svc (snd p) sid) then snd p
         else TerminateRecord sid (dropLoop False sid (listOf (snd p) sid) (snd p)))"
    unfolding StopServiceAbilityLocked_def p_def cachedService_def Let_def by (simp add: split_beta split: option.split)
  have "adv s (snd p)" using adv_cachedService(1) [OF prod.collapse [symmetric]] by (auto simp: p_def split: option.split)
  moreover have "keeps T (snd p) (TerminateRecord sid (dropLoop False sid (listOf (snd p) sid) (snd p)))" for sid
    by (rule keeps_drop_adv [OF keeps_drop(1) advs_TerminateRecord])
  ultimately show ?thesis unfolding stop by (auto intro: adv_keeps keeps_adv split: option.split)
qed

lemma keeps_cleanup: "keeps T s (cleanupLoop sids s)"
proof (induction sids arbitrary: s)
  case (Cons sid sids)
  have "keeps T s (dropLoop True sid (filter P (listOf s sid)) s)" for P by (rule kept)
  then show ?case using Cons.IH by (auto intro: keeps_trans)
qed simp

lemma keeps_Connect:
  assumes c: "ConnectAbilityLocked ev rq connect callerToken session indirect s = Inr (ret, s')"
  shows "keeps T s s'"
proof (rule keepsI)
  assume inv: "ca_inv T {} s"
  show "ca_inv T {} s' \<and> moves s s'"
  proof (cases "s' = s")
    case False
    with c obtain co where co: "connect = Some co" by (cases connect) (simp_all add: ConnectAbilityLocked_def)
    obtain t loaded s1 where g: "GetOrCreateServiceRecord ev rq True s = ((t, loaded), s1)" by (metis prod.collapse)
    note a = GetOrCreate_adv [OF inv g]
    have inv1: "ca_inv T {} s1" "moves s s1" using ca_inv_adv [OF inv a(1)] adv_moves [OF a(1)] by auto
    show ?thesis
    proof (cases t)
      case None
      then have "s' = s1" using c co g False by (auto simp: ConnectAbilityLocked_def Let_def split: if_splits)
      then show ?thesis using inv1 by simp
    next
      case (Some sid)
      define found where "found = (if loaded then GetAbilityConnectedRecordFromRecordList sid (GetConnectRecordListFromMap co s1) s1 else None)"
      obtain r s2 where reg: "registerConnection ev rq co callerToken session indirect sid s1 = (r, s2)" by force
      have s': "s' = (case found of Some q \<Rightarrow> reconnect rq co q s1
          | None \<Rightarrow> if ReportXiaoYiToRSSIfNeeded ev rq \<noteq> ERR_OK then s2 else ConnectAbilityLockedInner ev loaded sid rq r s2)"
        using c co g False Some reg by (auto simp: ConnectAbilityLocked_def Let_def found_def [symmetric] split: if_splits option.splits)
      note r = ca_inv_register [OF inv1(1) reg a(2) [OF Some]]
      have "adv s2 (HandleActiveAbility sid r (SetWant sid (rq_want rq) s2))"
        using r(3) by (intro adv_trans [OF _ advs_active] advs) (simp add: SetWant_def)
      then have "adv s2 (ConnectAbilityLockedInner ev loaded sid rq r s2)" by (simp add: ConnectAbilityLockedInner_def advs)
      then have "ca_inv T {} (ConnectAbilityLockedInner ev loaded sid rq r s2) \<and> moves s (ConnectAbilityLockedInner ev loaded sid rq r s2)"
        using ca_inv_adv [OF r(1)] adv_moves r(2) inv1(2) by (blast intro: moves_trans)
      moreover have "ca_inv T {} (reconnect rq co q s1) \<and> moves s (reconnect rq co q s1)" for q
        using ca_inv_adv [OF inv1(1)] adv_moves advs_reconnect(2) inv1(2) by (blast intro: moves_trans)
      ultimately show ?thesis using r(1,2) inv1(2) unfolding s' by (auto split: option.split intro: moves_trans)
    qed
  qed (simp add: inv)
qed

lemma ca_handle_keeps:
  assumes "ca_handle e s = Inr s'" and guard: "\<And>r. T \<Longrightarrow> e = CaDelayedDisconnect r \<Longrightarrow> stateOf s r \<noteq> DISCONNECTED"
  shows "keeps T s s'"
proof (cases e)
  case (CaConnect ev rq connect callerToken session indirect)
  then show ?thesis using assms(1) keeps_Connect by (auto simp: cpp_bind_def split: sum.splits)
next
  case (CaDisconnectDone ev token)
  then show ?thesis using assms(1) keeps_DisconnectDone by (auto simp: cpp_bind_def split: sum.splits)
next
  case (CaDelayedDisconnect r)
  let ?a = "RemoveExtensionDelayDisconnectTask r s"
  have "stateOf ?a = stateOf s" "am_nextConn ?a = am_nextConn s" by (simp_all add: RemoveExtensionDelayDisconnectTask_def stateOf_def fun_eq_iff)
  then have "r < am_nextConn s \<Longrightarrow> keeps T s (HandleExtensionDisconnectTask r ?a)"
    using guard [OF _ CaDelayedDisconnect] by (intro adv_keeps [OF _ keeps_delayed] advs) simp_all
  then show ?thesis using assms(1) CaDelayedDisconnect by auto
qed (use assms(1) keeps_Disconnect keeps_Terminate keeps_Stop keeps_CallbackDied keeps_AbilityDied keeps_StartTimeout keeps_OnTimeOut
      keeps_timeouts(2) keeps_foreground(1) keeps_background keeps_ConnectDone keeps_CommandDone keeps_cleanup keeps_adv [OF adv_SetPid]
      keeps_adv [OF adv_Attach] keeps_adv [OF adv_Transition] keeps_adv [OF advs_TerminateDone] keeps_adv [OF adv_fields(2)]
      keeps_adv_inv [OF StartAbility_adv] keeps_adv [OF advs_eachRecord [OF advs_suspend(1)]] keeps_adv [OF advs_eachRecord [OF advs_suspend(2)]] in
    \<open>auto simp: DisconnectBeforeCleanup_def SuspendExtensionAbilityLocked_def ResumeExtensionAbilityLocked_def OnAbilityDied_def Let_def
      split: if_splits\<close>)

section \<open>Runs\<close>

text \<open>The manager of a user before the first call, with the caches of the service around it.\<close>

definition newManager :: "int \<Rightarrow> (nat \<Rightarrow> ext_record) \<Rightarrow> 32 word \<Rightarrow> 32 word \<Rightarrow> connection_mgr \<Rightarrow> ca_mgr" where
  "newManager userId info devCap procCap cs =
     \<lparr>am_conn = (\<lambda>_. newConnectionRecord None 0 0), am_nextConn = 0,
      am_svc = (\<lambda>_. \<lparr>sv_type = SERVICE, sv_extType = EXT_SERVICE, sv_state = INITIAL, sv_connRecordList = [], sv_isConnected = False,
        sv_connRemoteObject = None, sv_startId = 0, sv_createByConnect = False, sv_want = emptyWant, sv_connectWant = None, sv_requestId = [],
        sv_sessionInfo = None, sv_clientPid = 0, sv_appIndex = 0, sv_ownerMissionUserId = 0, sv_isSystemApp = False, sv_isTerminating = False\<rparr>),
      am_nextSvc = 0,
      am_cache = \<lparr>ac_rec = info, ac_devCnt = 0, ac_devCap = devCap, ac_procCap = procCap, ac_dev = [], ac_proc = []\<rparr>,
      am_connectMap = [], am_recipientMap = [], am_windowExt = [], am_counts = [], am_serviceMap = [], am_terminating = [], am_startReqs = [],
      am_delay = [], am_cs = cs, am_userId = userId, am_out = []\<rparr>"

lemma newManager_inv: "ca_inv T {} (newManager userId info devCap procCap cs)"
  by (rule ca_invI) (simp_all add: newManager_def ca_reads registered_def live_def cached_def omap_at_find omap_inv_def)

text \<open>A delayed disconnection is late when its connection has ended before.\<close>

fun onTime :: "ca_call list \<Rightarrow> ca_mgr \<Rightarrow> bool" where
  "onTime [] s \<longleftrightarrow> True"
| "onTime (e # es) s \<longleftrightarrow>
     (case e of CaDelayedDisconnect r \<Rightarrow> stateOf s r \<noteq> DISCONNECTED | _ \<Rightarrow> True) \<and>
     (case ca_handle e s of Inl _ \<Rightarrow> True | Inr s' \<Rightarrow> onTime es s')"

lemma run_keeps:
  assumes "ca_run es s = Inr s'" "T \<longrightarrow> onTime es s"
  shows "keeps T s s'"
  using assms
proof (induction es arbitrary: s)
  case (Cons e es)
  from Cons.prems(1) obtain s1 where h: "ca_handle e s = Inr s1" and r: "ca_run es s1 = Inr s'" by (auto simp: cpp_bind_def split: sum.splits)
  have "keeps T s s1" using Cons.prems(2) by (intro ca_handle_keeps [OF h]) auto
  moreover have "keeps T s1 s'" using Cons.prems(2) h by (intro Cons.IH [OF r]) simp
  ultimately show ?case by (rule keeps_trans)
qed simp

lemma ca_run_inv:
  assumes "ca_run es (newManager userId info devCap procCap cs) = Inr s" "T \<longrightarrow> onTime es (newManager userId info devCap procCap cs)"
  shows "ca_inv T {} s"
  using run_keeps [OF assms] newManager_inv by (auto simp: keeps_def)

definition ca_start :: "ca_mgr \<Rightarrow> bool" where
  "ca_start s \<longleftrightarrow> (\<exists>userId info devCap procCap cs. s = newManager userId info devCap procCap cs)"

definition ca_step :: "ca_mgr \<Rightarrow> ca_mgr \<Rightarrow> bool" where
  "ca_step s s' \<longleftrightarrow> (\<exists>e. ca_handle e s = Inr s')"

interpretation connman: machine ca_start ca_step "ca_inv False {}"
proof
  show "ca_inv False {} s" if "ca_start s" for s using that newManager_inv by (auto simp: ca_start_def)
  show "ca_inv False {} t" if inv: "ca_inv False {} s" and "ca_step s t" for s t
    using that ca_handle_keeps [of _ s t False] by (auto simp: ca_step_def keeps_def)
qed

lemma run_reach: "reach ca_start ca_step s \<Longrightarrow> ca_run es s = Inr s' \<Longrightarrow> reach ca_start ca_step s'"
proof (induction es arbitrary: s)
  case (Cons e es)
  from Cons.prems(2) obtain s1 where h: "ca_handle e s = Inr s1" and r: "ca_run es s1 = Inr s'" by (auto simp: cpp_bind_def split: sum.splits)
  have "ca_step s s1" using h unfolding ca_step_def by blast
  then have "reach ca_start ca_step s1" by (rule reach_step [OF Cons.prems(1)])
  then show ?case using Cons.IH r by blast
qed simp

lemma run_reached:
  assumes "ca_run es (newManager userId info devCap procCap cs) = Inr s"
  shows "ca_inv False {} s"
proof -
  have "reach ca_start ca_step (newManager userId info devCap procCap cs)" 
    by (rule reach_start) (unfold ca_start_def, blast)
  then show ?thesis using run_reach assms connman.reach_inv by blast
qed

lemma run_forward: "ca_inv False {} s \<Longrightarrow> ca_run es s = Inr s' \<Longrightarrow> ca_inv False {} s' \<and> moves s s'"
  using run_keeps [of es s s' False] by (simp add: keeps_def)



lemma ca_run_append: "ca_run (xs @ ys) s = cpp_bind (ca_run xs s) (ca_run ys)"
  by (induction xs arbitrary: s) (auto simp: cpp_bind_def split: sum.split)

lemma onTime_none: "list_all (\<lambda>e. case e of CaDelayedDisconnect r \<Rightarrow> False | _ \<Rightarrow> True) es \<Longrightarrow> onTime es s"
proof (induction es arbitrary: s)
  case (Cons e es) then show ?case by (cases e) (auto split: sum.split)
qed simp

section \<open>What ends, and how often it is told\<close>

lemma end_reads:
  "told q (CompleteDisconnect ERR_OK a b r s) = told q s + (if q = r then 1 else 0)"
  "stateOf (CompleteDisconnect ERR_OK a b r s) = (stateOf s)(r := DISCONNECTED)"
  "told q (RemoveConnectRecordFromList r sid s) = told q s" "stateOf (RemoveConnectRecordFromList r sid s) = stateOf s"
  "am_delay (CompleteDisconnect ERR_OK a b r s) = am_delay s" "am_delay (RemoveConnectRecordFromList r sid s) = am_delay s"
  by (auto simp: end_defs ca_reads fun_eq_iff)

lemma unmap_delay [simp]: "am_delay (RemoveConnectionRecordFromMap r s) = am_delay s"
  by (simp add: RemoveConnectionRecordFromMap_def DecrementConnectionCountAndCleanup_def RemoveConnectDeathRecipient_def Let_def
      split: option.split prod.split)

lemma dropLoop_reads:
  "distinct rs \<Longrightarrow> told q (dropLoop False sid rs s) = told q s + (if q \<in> set rs then 1 else 0)"
  "stateOf (dropLoop False sid rs s) q = (if q \<in> set rs then DISCONNECTED else stateOf s q)"
  "am_delay (dropLoop False sid rs s) = am_delay s"
  by (induction rs arbitrary: s) (auto simp: end_reads Let_def)

lemma TerminateRecord_reads:
  "told q (TerminateRecord sid s) = told q s" "stateOf (TerminateRecord sid s) = stateOf s" "am_delay (TerminateRecord sid s) = am_delay s"
  "am_nextConn (TerminateRecord sid s) = am_nextConn s"
  using advs_TerminateRecord [of s sid] by (simp_all add: adv_def sameConnections_def)
    (simp_all add: TerminateRecord_def svc_Terminate_def MoveToTerminatingMap_def emit_def updSvc_def stateOf_def fun_eq_iff Let_def)

lemma late_tells:
  assumes "stateOf s r = DISCONNECTED" "r < am_nextConn s"
  shows "ca_handle (CaDelayedDisconnect r) s = Inr (RemoveConnectionRecordFromMap r (CompleteDisconnect ERR_OK False False r (RemoveExtensionDelayDisconnectTask r s)))"
proof -
  have "stateOf (RemoveExtensionDelayDisconnectTask r s) r = DISCONNECTED" using assms by (simp add: RemoveExtensionDelayDisconnectTask_def stateOf_def)
  then show ?thesis using assms by (simp add: HandleExtensionDisconnectTask_def DisconnectAbility_def)
qed


section \<open>An example\<close>

definition exEnv :: ca_env where
  "exEnv = \<lparr>ev_callingTokenId = 5, ev_selfTokenId = 1, ev_callingUid = 20010001, ev_callingPid = 42, ev_callerRecord = None,
     ev_GetURI = (\<lambda>_ b a _. b @ a), ev_IsSupportAppClone = (\<lambda>_. False), ev_IsUIExtension = (\<lambda>_. False), ev_IsCacheExtension = (\<lambda>_ _ _. False),
     ev_IsForbidStart = False, ev_CheckMultiInstanceKey = 0, ev_GetProcessRunningInfos = 0, ev_VerifyAgentDisconnect = (\<lambda>_. 0),
     ev_ApplyIdentity = (\<lambda>_. 0), ev_AutoDisconnect = (\<lambda>_. True), ev_GetRequestId = [], ev_SetupNewRecord = 0,
     ev_CanRestartRootLauncher = (\<lambda>_. True), ev_IsKeepAliveBundle = (\<lambda>_. False), ev_IsForegroundUser = True\<rparr>"

definition exReq :: ca_request where
  "exReq = \<lparr>rq_want = emptyWant, rq_deviceId = [], rq_bundleName = ''b'', rq_moduleName = ''m'', rq_abilityName = ''a'', rq_type = EXTENSION,
     rq_extType = EXT_OTHER 3, rq_instanceKey = None, rq_cloneIndex = 0, rq_appIndex = 0, rq_accessTokenId = 6, rq_uid = 20010002,
     rq_isSystemApp = False, rq_sessionInfo = None, rq_uiConnectInfo = False\<rparr>"

definition exStart :: ca_mgr where
  "exStart = newManager 100 (\<lambda>_. \<lparr>er_recordId = 0, er_tokenId = 0, er_moduleName = [], er_abilityName = [], er_bundleName = [],
     er_appBundleName = [], er_uri = [], er_frsIndex = 0, er_sessionId = [], er_token = None, er_uid = 0, er_pid = 0, er_instanceKey = [],
     er_restartApp = False\<rparr>) 10 3 newConnectionStateManager"

definition exConnect :: "nat \<Rightarrow> ca_call" where
  "exConnect ob = CaConnect exEnv exReq (Some ob) None None None"

text \<open>A callback connects and the extension answers; a second one connects to it, then the first disconnects.\<close>

definition exFirst :: "ca_call list" where
  "exFirst = [exConnect 7, CaAttach 0, CaTransition 0 INACTIVE, CaConnectDone exEnv 0 (Some 9)]"

definition exRest :: "ca_call list" where
  "exRest = [exConnect 8, CaDisconnect exEnv (Some 7)]"

lemma ex_eval:
  "case ca_run exFirst exStart of
     Inl _ \<Rightarrow> False
   | Inr s \<Rightarrow> am_nextConn s = 1 \<and> stateOf s 0 = CONNECTED \<and> am_delay s = [0] \<and> listOf s 0 = [0] \<and> targetOf s 0 = 0 \<and>
       omap_find (am_serviceMap s) (GetServiceKeyOfRequest exEnv exReq) = Some 0 \<and> \<not> sv_isTerminating (am_svc s 0) \<and>
       am_connectMap s = [(7, [0])] \<and> sv_extType (am_svc s 0) = EXT_OTHER 3 \<and>
       (case ca_run exRest s of
          Inl _ \<Rightarrow> False
        | Inr s' \<Rightarrow> am_nextConn s' = 2 \<and> stateOf s' 0 = DISCONNECTED \<and> stateOf s' 1 = CONNECTED \<and> am_connectMap s' = [(8, [1])] \<and>
            am_counts s' = [(42, 1)] \<and> listOf s' 0 = [1])"
  by code_simp

definition exOne :: ca_mgr where
  "exOne = projr (ca_run exFirst exStart)"

definition exTwo :: ca_mgr where
  "exTwo = projr (ca_run exRest exOne)"

lemma ex_runs: "ca_run exFirst exStart = Inr exOne" "ca_run exRest exOne = Inr exTwo" "ca_run (exFirst @ exRest) exStart = Inr exTwo"
proof -
  show 1: "ca_run exFirst exStart = Inr exOne" using ex_eval by (auto simp: exOne_def split: sum.splits)
  show 2: "ca_run exRest exOne = Inr exTwo" using ex_eval by (auto simp: 1 exTwo_def split: sum.splits)
  show "ca_run (exFirst @ exRest) exStart = Inr exTwo" using 1 2 by (simp add: ca_run_append cpp_bind_def)
qed

lemma ex_one:
  "am_nextConn exOne = 1" "stateOf exOne 0 = CONNECTED" "am_delay exOne = [0]" "listOf exOne 0 = [0]" "targetOf exOne 0 = 0"
  "omap_find (am_serviceMap exOne) (GetServiceKeyOfRequest exEnv exReq) = Some 0" "\<not> sv_isTerminating (am_svc exOne 0)"
  "am_connectMap exOne = [(7, [0])]" "sv_extType (am_svc exOne 0) = EXT_OTHER 3"
  using ex_eval by (simp_all add: ex_runs(1))

lemma ex_two:
  "am_nextConn exTwo = 2" "stateOf exTwo 0 = DISCONNECTED" "stateOf exTwo 1 = CONNECTED" "am_connectMap exTwo = [(8, [1])]"
  "am_counts exTwo = [(42, 1)]" "listOf exTwo 0 = [1]"
  using ex_eval by (simp_all add: ex_runs)

lemma ex_onTime: "onTime exFirst exStart" "onTime (exFirst @ exRest) exStart"
  by (rule onTime_none, simp add: exFirst_def exRest_def exConnect_def)+


section \<open>The properties\<close>

text \<open>C27: In every state the manager can reach, by calls, answers, deaths and timeouts in any order and with any answers of the
  services around it, its books agree: the connections in the map per callback are the ones that have not ended; the list
  of each extension holds, once each, the ones that have not ended and have it as target; the count of each process is the
  number of its connections that have not ended, with no entry at zero; and exactly the callbacks with an entry are watched for death, their
  lists neither empty nor with repetitions.\<close>

theorem connections_reachable:
  assumes "ca_run es (newManager userId info devCap procCap cs) = Inr s"
  shows "registered s = live s \<and>
    (\<forall>sid. distinct (listOf s sid) \<and> set (listOf s sid) = {r \<in> live s. targetOf s r = sid}) \<and>
    (\<forall>pid. omap_at 0 pid (am_counts s) = int (card {r \<in> live s. pidOf s r = pid}) \<and> omap_find (am_counts s) pid \<noteq> Some 0) \<and>
    set (am_recipientMap s) = {ob. omap_find (am_connectMap s) ob \<noteq> None} \<and>
    (\<forall>ob l. omap_find (am_connectMap s) ob = Some l \<longrightarrow> l \<noteq> [] \<and> distinct l)"
proof -
  have inv: "ca_inv False {} s" by (rule run_reached [OF assms])
  have reg: "registered s = live s" using ca_invD(6) [OF inv] by simp
  show ?thesis using ca_invD(8) [OF inv] ca_invD(9) [OF inv] ca_invD(14) [OF inv] ca_invD(3) [OF inv] unfolding reg by blast
qed

theorem connections_reachable_witness:
  "ca_run (exFirst @ exRest) exStart = Inr exTwo \<and> am_connectMap exTwo = [(8, [1])] \<and> registered exTwo = live exTwo \<and>
   set (listOf exTwo 0) = {r \<in> live exTwo. targetOf exTwo r = 0} \<and> omap_at 0 42 (am_counts exTwo) = int (card {r \<in> live exTwo. pidOf exTwo r = 42}) \<and>
   set (am_recipientMap exTwo) = {ob. omap_find (am_connectMap exTwo) ob \<noteq> None}"
  using connections_reachable [OF ex_runs(3) [unfolded exStart_def]] ex_runs(3) ex_two by blast

text \<open>C30: The records the manager holds are well formed in every reachable state: no connection is in its initial state, each has
  a target that exists, and every address in the map per callback, in the map of extensions and in the cache is the address of a record that
  was made.  A callback kept in a connection is the one under which the connection is found.\<close>

theorem connection_records_typed:
  assumes "ca_run es (newManager userId info devCap procCap cs) = Inr s"
  shows "(\<forall>r < am_nextConn s. stateOf s r \<noteq> INIT \<and> targetOf s r < am_nextSvc s) \<and>
    (\<forall>ob l r. omap_find (am_connectMap s) ob = Some l \<longrightarrow> r \<in> set l \<longrightarrow> r < am_nextConn s \<and> (callbackOf s r = None \<or> callbackOf s r = Some ob)) \<and>
    services s \<subseteq> {..< am_nextSvc s}"
proof -
  have inv: "ca_inv False {} s" by (rule run_reached [OF assms])
  have "r < am_nextConn s" if "omap_find (am_connectMap s) ob = Some l" "r \<in> set l" for ob l r
    using ca_inv_bound [OF inv, of r] that by (auto simp: registered_def)
  then show ?thesis using ca_invD(10) [OF inv] ca_invD(11) [OF inv] ca_invD(12) [OF inv] ca_invD(4) [OF inv] by blast
qed

theorem connection_records_typed_witness:
  "ca_run (exFirst @ exRest) exStart = Inr exTwo \<and> am_connectMap exTwo = [(8, [1])] \<and> stateOf exTwo 1 \<noteq> INIT \<and> targetOf exTwo 1 < am_nextSvc exTwo \<and>
   (callbackOf exTwo 1 = None \<or> callbackOf exTwo 1 = Some 8) \<and> services exTwo \<subseteq> {..< am_nextSvc exTwo}"
proof -
  have "omap_find (am_connectMap exTwo) 8 = Some [1]" using ex_two(4) by simp
  moreover have "(1::nat) \<in> set [1]" by simp
  ultimately show ?thesis using connection_records_typed [OF ex_runs(3) [unfolded exStart_def]] ex_runs(3) ex_two(4) by blast
qed

text \<open>C29: A connection only moves forward: whatever happens after a reachable state, the state of a connection is at the end the same or
  a later one in the order initial, connecting, connected, disconnecting, disconnected.  So one that has ended stays ended and
  a record is not used for a second connection.\<close>

theorem connection_states_forward:
  assumes "ca_run es (newManager userId info devCap procCap cs) = Inr s" "ca_run es' s = Inr s'" "r < am_nextConn s"
  shows "stateOf s r \<le> stateOf s' r \<and> (stateOf s r = DISCONNECTED \<longrightarrow> stateOf s' r = DISCONNECTED)"
proof -
  have "ca_inv False {} s" by (rule run_reached [OF assms(1)])
  from run_forward [OF this assms(2)] have "stateOf s r \<le> stateOf s' r" using assms(3) by (simp add: moves_def)
  then show ?thesis by auto
qed

theorem connection_states_forward_witness:
  "ca_run exFirst exStart = Inr exOne \<and> ca_run exRest exOne = Inr exTwo \<and> stateOf exOne 0 = CONNECTED \<and> stateOf exTwo 0 = DISCONNECTED \<and>
   stateOf exOne 0 \<le> stateOf exTwo 0"
  using connection_states_forward [OF ex_runs(1) [unfolded exStart_def] ex_runs(2), of 0] ex_runs ex_one ex_two by simp






lemma find_skip: "(\<And>x. x \<in> set xs \<Longrightarrow> \<not> P x) \<Longrightarrow> find P (xs @ ys) = find P ys"
  by (induction xs) simp_all

lemma omap_find_put_same: "omap_find (omap_put k v m) k = Some v"
  by (induction k v m rule: omap_put.induct) auto

definition frame :: "ca_mgr \<Rightarrow> ca_mgr \<Rightarrow> bool" where
  "frame s s' \<longleftrightarrow> am_serviceMap s' = am_serviceMap s \<and> (\<forall>x. sv_extType (am_svc s' x) = sv_extType (am_svc s x))"

lemma frame_updSvc: "frame s s' \<Longrightarrow> (\<And>v. sv_extType (f v) = sv_extType v) \<Longrightarrow> frame s (updSvc sid f s')"
  by (simp add: frame_def updSvc_def)

lemma frame_steps:
  "frame s s' \<Longrightarrow> frame s (AddConnectObjectToMap connect l only s')" "frame s s' \<Longrightarrow> frame s (HandleConnectionCountIncrement pid s')"
  "frame s s' \<Longrightarrow> frame s (SetConnectWant r w s')" "frame s s' \<Longrightarrow> frame s (s'\<lparr>am_windowExt := m\<rparr>)"
  "frame s (s\<lparr>am_nextConn := n, am_conn := h\<rparr>)" "frame s s' \<Longrightarrow> frame s (AddConnectRecordToList r sid s')"
  by (simp_all add: frame_def AddConnectObjectToMap_def AddConnectDeathRecipient_def HandleConnectionCountIncrement_def SetConnectWant_def
      updConn_def AddConnectRecordToList_def updSvc_def Let_def)

lemma register_frame: "frame s (snd (registerConnection ev rq connect callerToken session indirect sid s))"
  unfolding registerConnection_def Let_def by (simp add: frame_steps frame_updSvc split: option.split)




definition extOf :: "ca_mgr \<Rightarrow> nat \<Rightarrow> extension_type" where
  "extOf s x = sv_extType (am_svc s x)"

lemma extOf_simps [simp]:
  "extOf (SetConnectState st r s) = extOf s" "extOf (DisconnectAbilityWithWant sid s) = extOf s" "extOf (svc_DisconnectAbility sid s) = extOf s"
  "extOf (RemoveConnectRecordFromList r sid s) = extOf s" "extOf (CompleteDisconnect c a b r s) = extOf s" "extOf (TerminateRecord sid s) = extOf s"
  "extOf (RemoveExtensionDelayDisconnectTask r s) = extOf s" "extOf (updConn r f s) = extOf s" "extOf (s\<lparr>am_windowExt := w\<rparr>) = extOf s"
  by (simp_all add: extOf_def end_defs DisconnectAbilityWithWant_def svc_DisconnectAbility_def TerminateRecord_def svc_Terminate_def
      MoveToTerminatingMap_def RemoveExtensionDelayDisconnectTask_def fun_eq_iff)

lemma extOf_one: "disconnectOne ev callerDied r list s = (result, list', s') \<Longrightarrow> extOf s' = extOf s"
  by (auto simp: disconnectOne_def DisconnectRecordNormal_def DisconnectRecordForce_def DisconnectAbility_def Let_def split: if_splits)

lemma disconnectOne_died:
  assumes inv: "ca_inv T (set list) s" and r: "r \<in> live s" and one: "disconnectOne ev True r list s = (result, list', s')"
  shows "result = ERR_OK" "DISCONNECTING \<le> stateOf s' r" "targetOf s' = targetOf s"
    "\<forall>q. callbackOf s' q = callbackOf s q \<or> callbackOf s' q = None"
proof -
  obtain res0 list0 s0 where n: "DisconnectRecordNormal r True list s = (res0, list0, s0)" by (metis prod_cases3)
  have "result = ERR_OK \<and> DISCONNECTING \<le> stateOf s' r \<and> targetOf s' = targetOf s \<and> (\<forall>q. callbackOf s' q = callbackOf s q \<or> callbackOf s' q = None)"
    using inv r n
  proof (cases rule: DisconnectRecordNormal_cases)
    case refused
    obtain l1 s1 where f: "DisconnectRecordForce ev r list s = (l1, s1)" by force
    then have "result = ERR_OK" "s' = s1" using one n refused by (auto simp: disconnectOne_def)
    moreover obtain t where d: "dropped r s t" and v: "adv t s1" using DisconnectRecordForce_dropped [OF f] by blast
    moreover have "stateOf s1 r = DISCONNECTED" using d v by (simp add: dropped_def adv_def)
    then have "DISCONNECTING \<le> stateOf s1 r" by simp
    moreover have "targetOf s1 = targetOf s" "\<forall>q. callbackOf s1 q = callbackOf s q \<or> callbackOf s1 q = None"
      using d v by (simp_all add: dropped_def adv_def sameConnections_def)
    ultimately show ?thesis by simp
  next
    case asked then show ?thesis using one n by (auto simp: disconnectOne_def adv_def sameConnections_def)
  next
    case ended then show ?thesis using one n by (auto simp: disconnectOne_def dropped_def sameConnections_def)
  qed
  then show "result = ERR_OK" "DISCONNECTING \<le> stateOf s' r" "targetOf s' = targetOf s"
    "\<forall>q. callbackOf s' q = callbackOf s q \<or> callbackOf s' q = None" by simp_all
qed

lemma disconnectLoop_died:
  assumes "ca_inv T (set list) s" "distinct list" "distinct rs" "set rs \<subseteq> live s" "\<forall>r\<in>set rs. extOf s (targetOf s r) \<noteq> EXT_AGENT"
    and self: "ev_selfTokenId ev = ev_callingTokenId ev" and "disconnectLoop ev True rs ERR_OK list s = (res, list', s')"
  shows "(\<forall>r\<in>set rs. DISCONNECTING \<le> stateOf s' r) \<and> (\<forall>q. callbackOf s' q = callbackOf s q \<or> callbackOf s' q = None)"
  using assms(1-5,7)
proof (induction rs arbitrary: list s)
  case (Cons r rs)
  define s1 where "s1 = (if sv_type (am_svc s (targetOf s r)) = EXTENSION then RemoveExtensionDelayDisconnectTask r s else s)"
  have a: "adv s s1" by (simp add: s1_def advs)
  have inv1: "ca_inv T (set list) s1" "r \<in> live s1" "set rs \<subseteq> live s1" using ca_inv_adv [OF Cons.prems(1) a] adv_live [OF a] Cons.prems(4) by auto
  have e1: "extOf s1 = extOf s" by (simp add: s1_def)
  obtain res1 l2 s2 where o: "disconnectOne ev True r list s1 = (res1, l2, s2)" by (metis prod_cases3)
  note one = disconnectOne_inv [OF inv1(1,2) Cons.prems(2) o] and died = disconnectOne_died [OF inv1(1,2) o]
  have rs: "set rs \<subseteq> live s2" "distinct rs" using one(4) inv1(3) Cons.prems(3) by auto
  have t: "targetOf s2 = targetOf s" using died(3) a by (simp add: adv_def sameConnections_def)
  have loop: "disconnectLoop ev True rs ERR_OK l2 s2 = (res, list', s')"
    using Cons.prems(5,6) self died(1) unfolding disconnectLoop_one Let_def s1_def [symmetric] o by (simp add: extOf_def)
  have agent: "\<forall>q\<in>set rs. extOf s2 (targetOf s2 q) \<noteq> EXT_AGENT" using Cons.prems(5) t e1 extOf_one [OF o] by simp
  note ih = Cons.IH [OF one(1,3) rs(2,1) agent loop]
  have "r < am_nextConn s2" using one(2) inv1(2) by (simp add: moves_def live_def)
  moreover have "moves s2 s'" using disconnectLoop_inv [OF one(1,3) rs(2,1) loop] by simp
  ultimately have "DISCONNECTING \<le> stateOf s' r" using died(2) order_trans by (auto simp: moves_def)
  moreover have "callbackOf s' q = callbackOf s q \<or> callbackOf s' q = None" for q using ih died(4) a by (metis adv_def)
  ultimately show ?case using ih by auto
qed simp


lemma clearCallbacks_reads:
  "callbackOf (clearCallbacks rs s) q = (if q \<in> set rs then None else callbackOf s q)" "extOf (clearCallbacks rs s) = extOf s"
  by (induction rs arbitrary: s) (auto simp: clearCallbacks_def updConn_def callbackOf_def extOf_def)

lemma unmap_list_reads:
  "stateOf (fold RemoveConnectionRecordFromMap rs s) = stateOf s" "callbackOf (fold RemoveConnectionRecordFromMap rs s) = callbackOf s"
  by (induction rs arbitrary: s) simp_all



end
