(* ===== verification/Spec2Isabelle.thy ===== *)
theory Spec2Isabelle
  imports Mission_List_Manager Mission_Info_Mgr Rate_Limiter Ability_Cache Data_Obs_Ext Uri_Grant
    Startup_Manager Cache_Process Pending_Want Foreground_Connection Connect_Runs
begin

text \<open>
  A verification development for the ability runtime: its system services (\<open>services/\<close> of the repository) and the
  start-up tasks of application processes (\<open>frameworks/native/appkit/app_startup\<close>).

  \<^bold>\<open>The program and its parts.\<close>  The ability manager service starts abilities and keeps them in missions; missions
  are kept in mission lists (\<open>services/abilitymgr/src/mission\<close>) and persisted by the mission store.  Idle
  extension records are cached (\<open>ability_cache_manager.cpp\<close>), frequent operations are rate limited
  (\<open>services/common/src/rate_limiter.cpp\<close>).  The data observer manager (\<open>services/dataobsmgr\<close>) registers observers of
  data URIs and delivers changes.  The URI permission manager (\<open>services/uripermmgr\<close>) records which application
  was granted access to which file and decides who may grant.  The pending want manager keeps operations
  that one application prepares and another triggers; the application manager keeps idle processes in a
  bounded cache.  The connection manager (\<open>ability_connect_manager.cpp\<close>) starts service extensions and connects
  clients to them; it puts idle ones into the cache and tells the connection states.  Observers of connections are told which processes use which extension, data ability or
  foreground application, and a process that dies is taken out of all of these tables.  In an application process the start-up manager
  selects registered tasks, sorts them by their dependencies and dispatches them.  The services run handlers under a lock;
  each handler is a function on the explicit state of its component, and a component is a transition system
  whose steps are whole handlers.

  \<^bold>\<open>Theories.\<close>
  \<^item> \<open>Ability_Prelude\<close>: undefined behaviour of C++ as a value (null dereference, use of an erased iterator, access
    out of range), list operations the loops use (erase or update the first match, stable insertion), the
    \<open>machine\<close> locale (an invariant kept by every step holds in every reachable state).
  \<^item> \<open>Ordered_Map\<close>: \<open>std::map\<close> as an ordered association list behind the locale \<open>std_map\<close>.
  \<^item> \<open>Mission_List\<close>, \<open>Mission_List_Manager\<close>: \<open>mission.cpp\<close>, \<open>mission_list.cpp\<close>, \<open>mission_list_manager.cpp\<close>.  Missions and
    lists are addresses in a heap because several members point to the same list.  Shown: moving a mission
    keeps every mission in exactly one list and puts it on top; which missions uninstalling and the instance
    limit choose; and three situations in which the code loses or duplicates a mission.
  \<^item> \<open>Mission_Info_Mgr\<close>: \<open>mission_info_mgr.cpp\<close> and \<open>task_data_persistence_mgr.cpp\<close>.  Shown: in every reachable state the
    list is ordered by time, ids are unique and agree with the id map and with the submitted file tasks; ids
    are fresh; updates are read back; what clearing and uninstalling remove.
  \<^item> \<open>Rate_Limiter\<close>: all checks and the periodic cleaning over readings of the clock.  Shown: over any run the number
    of accepted calls in any window is bounded.
  \<^item> \<open>Ability_Cache\<close>: the two-level cache with its 32-bit counters.  Shown: it implements a bounded cache that evicts
    the oldest record of a full process, else of the device, and never exceeds either capacity.
  \<^item> \<open>Observer_Registry\<close>, \<open>Data_Obs\<close>, \<open>Data_Obs_Ext\<close>: the contract of an observer registry as a locale, and its two
    implementations, the maps of \<open>dataobs_mgr_inner.cpp\<close> and \<open>dataobs_mgr_inner_pref.cpp\<close> and the path tree of
    \<open>dataobs_mgr_inner_ext.cpp\<close>.  Shown: both hold exactly the registrations that the calls and their results
    imply; the limits; the reference counters of death recipients; to whom a change is delivered; the
    permission cache does not change an answer.
  \<^item> \<open>Uri_Permission\<close>: the maps of grants, policies and tokens of \<open>uri_permission_manager_stub_impl.cpp\<close>.
  \<^item> \<open>Batch_Uri\<close>: \<open>batch_uri.cpp\<close>, \<open>file_permission_manager.cpp\<close> and the checks of a request.  Shown: splitting,
    checking by group and scattering the answers decides each URI on its own and never reads out of range.
  \<^item> \<open>Uri_Raw_Data\<close>: the byte format of vectors between client and service, with the element codecs as a locale.
    Shown: the readers accept exactly what the writers produce.
  \<^item> \<open>Uri_Grant\<close>: the entry points of the URI permission service and the identification of callers.  Shown: only what
    the acting application may share reaches the sandbox manager and the media library; a grant by key is all
    or nothing; the exit of an application removes exactly its records.
  \<^item> \<open>Pending_Want\<close>: \<open>pending_want_manager.cpp\<close>, \<open>pending_want_record.cpp\<close>, \<open>pending_want_key.cpp\<close>.  Shown: registered records
    are live and their keys unique; the same request finds the same record; a one-time want runs once; a
    cancelled one never; a sender cannot replace what the creator stored; what clearing an application leaves.
  \<^item> \<open>Cache_Process\<close>: \<open>cache_process_manager.cpp\<close> of the application manager.  Shown: the queue and the map of applications
    agree in every reachable state; caching is a bounded first-in first-out queue, once the reference to a
    popped element is read as an implementation leaves it; when the cached state is reported.
  \<^item> \<open>Startup_Task\<close>, \<open>Startup_Sort\<close>, \<open>Startup_Dispatch\<close>, \<open>Startup_Manager\<close>: the tasks and their callbacks, the topological
    sort over the locale \<open>dep_graph\<close>, the dispatcher as a machine with nested and delayed completions, and the
    managers.  Shown: the sort gives the right verdict on any graph; a task starts once, after its
    dependencies; each callback is called at most once; no ready task is lost; all calls return; a request
    collects exactly what is reachable from it.

  \<^item> \<open>Report_Traces\<close>: the contract of a component that reports changes as a locale \<open>reporting\<close> (an abstract state, what
    each call makes of it and which reports it owes), proved once for whole runs, and \<open>callback_list\<close> for lists of
    observers.
  \<^item> \<open>Connection_State\<close>, \<open>Connection_Reports\<close>: \<open>connection_state_item.cpp\<close>, \<open>connection_state_manager.cpp\<close>,
    \<open>connection_observer_controller.cpp\<close>, \<open>dlp_state_item.cpp\<close>.  Shown: over any run in which no connection is removed
    from a paused extension, the tables and the reports are those of the contract; each observer is told each
    change once; and what removing a connection from a paused extension forgets.
  \<^item> \<open>Foreground_Connection\<close>: \<open>foreground_app_connection_manager.cpp\<close>.  Shown: it meets its contract on every run; the
    death of a process clears both tables.

  \<^item> \<open>Connect_Manager\<close>, \<open>Connect_Bookkeeping\<close>, \<open>Connect_Runs\<close>: \<open>ability_connect_manager.cpp\<close>, \<open>connection_record.cpp\<close>,
    \<open>base_extension_record.cpp\<close>.  Connection and extension records are two heaps; every call, answer, death and timeout is a
    step (\<open>ca_handle\<close>).  A step is a chain of small steps, classified by what they do to connections: \<open>adv\<close> (at most
    forward), \<open>dropped\<close> (one ends), \<open>RemoveConnectionRecordFromMap\<close>; the invariant \<open>ca_inv\<close> is kept along such chains.  Shown: in
    every reachable state all books agree on which connections there are; records are well formed; states only move forward;
    the end of a connection is told once unless a delayed disconnection is late, and how it then is told twice; the death of a
    callback ends all its connections; what a failed report leaves behind.

  \<^bold>\<open>Conventions.\<close>  Definitions carry the names of the code, with a prefix where two classes share a name
  (\<open>mim_\<close>, \<open>ml_\<close>, \<open>mlm_\<close>, \<open>ac_\<close>, \<open>pref_\<close>, \<open>ext_\<close>, \<open>bu_\<close>, \<open>ce_\<close>, \<open>cda_\<close>, \<open>csi_\<close>, \<open>csm_\<close>, \<open>oc_\<close>, \<open>fg_\<close>, \<open>svc_\<close>, \<open>rec_\<close>, \<open>ca_\<close>) and a record field prefix per record.  Code outside the repository (the
  bundle manager, the access token kit, the sandbox manager, IPC objects, the clock, the file system) is a
  parameter: a field of an environment record or an argument.  Error codes are integers or a datatype; only
  that they differ from \<open>ERR_OK\<close> is used.  Integers are words or carry their bounds where the code can reach
  them (mission ids, cache counters, reference counters, flags); elsewhere they are \<open>nat\<close> or \<open>int\<close>, with the
  reason in the theory.

  \<^bold>\<open>Loops and termination.\<close>  Nearly every loop is a total recursive function on the list or range it walks; the search for a
  free mission id recurses on the distance to the maximum, \<open>addLoop\<close> on a lexicographic measure.  Two are
  not total by construction: the deque loop \<open>topoLoop\<close> is a partial function, shown to return on every input
  (\<open>Sort_terminates\<close>), and \<open>RunTaskInit\<close>, which calls itself through the callbacks of tasks, takes a bound on the
  nesting depth; the number of tasks is enough (\<open>dispatcher_total\<close>).

  \<^bold>\<open>Not modelled.\<close>  Locks and the interleaving inside handlers; logging, tracing and event reports; parcel marshalling
  and the IPC proxies and stubs; scheduling of lifecycle callbacks, timeouts and death recipients beyond their
  registration and their handlers; restarts of resident extensions, the UI extension manager and the queue of specified processes of the connection manager; snapshots and dumping of missions; the JSON configuration, the preload threads and the language
  tasks of start-up; the language bindings and runtimes, the rest of the in-process framework, the simulator, tools, dialogs and tests; the dispatchers \<open>ability_manager_service.cpp\<close> and
  \<open>app_mgr_service_inner.cpp\<close>, whose handlers delegate to managers over IPC.
\<close>

end
